(* ===== verification/Prelude.thy ===== *)
theory Prelude
  imports Main "HOL-Library.Word" "HOL-Library.Monad_Syntax"
begin

text \<open>
  Shared vocabulary of the development: the fixed-width integer types of the
  firmware (UEFI X64 build: \<open>UINTN\<close> is 64 bits wide; an \<open>EFI_GUID\<close> is its 16 bytes), the status codes of
  \<open>MdePkg/Include/Base.h\<close> that the modelled code returns, \<open>ASSERT\<close>, and the
  generic lemmas on lists, options and words that the component theories share.

  A computation of type \<open>'a option\<close> is one that may fail to return: \<open>None\<close>
  stands for the dead loop of a failed \<open>ASSERT\<close>, for the use of memory that the
  code does not own (a freed object, an index outside an array), and, in the
  functions that carry a fuel argument, for a run longer than the fuel.  The
  status codes a function returns are ordinary values.
\<close>

section \<open>Integer types\<close>

type_synonym u8 = "8 word"
type_synonym u16 = "16 word"
type_synonym u32 = "32 word"
type_synonym u64 = "64 word"
type_synonym uintn = "64 word"
type_synonym guid = "u8 list"

section \<open>Status codes\<close>

datatype efi_status =
    EFI_SUCCESS
  | EFI_INVALID_PARAMETER
  | EFI_UNSUPPORTED
  | EFI_BAD_BUFFER_SIZE
  | EFI_BUFFER_TOO_SMALL
  | EFI_NOT_READY
  | EFI_DEVICE_ERROR
  | EFI_OUT_OF_RESOURCES
  | EFI_VOLUME_CORRUPTED
  | EFI_NOT_FOUND
  | EFI_ACCESS_DENIED
  | EFI_ALREADY_STARTED
  | EFI_ABORTED
  | EFI_PROTOCOL_ERROR
  | EFI_SECURITY_VIOLATION
  | EFI_NOT_AVAILABLE_YET

definition EFI_ERROR :: "efi_status \<Rightarrow> bool" where
  "EFI_ERROR s \<longleftrightarrow> s \<noteq> EFI_SUCCESS"

lemma EFI_ERROR_simps [simp]:
  "\<not> EFI_ERROR EFI_SUCCESS"
  "EFI_ERROR EFI_INVALID_PARAMETER"
  "EFI_ERROR EFI_UNSUPPORTED"
  "EFI_ERROR EFI_BAD_BUFFER_SIZE"
  "EFI_ERROR EFI_BUFFER_TOO_SMALL"
  "EFI_ERROR EFI_NOT_READY"
  "EFI_ERROR EFI_DEVICE_ERROR"
  "EFI_ERROR EFI_OUT_OF_RESOURCES"
  "EFI_ERROR EFI_VOLUME_CORRUPTED"
  "EFI_ERROR EFI_NOT_FOUND"
  "EFI_ERROR EFI_ACCESS_DENIED"
  "EFI_ERROR EFI_ALREADY_STARTED"
  "EFI_ERROR EFI_ABORTED"
  "EFI_ERROR EFI_PROTOCOL_ERROR"
  "EFI_ERROR EFI_SECURITY_VIOLATION"
  "EFI_ERROR EFI_NOT_AVAILABLE_YET"
  by (simp_all add: EFI_ERROR_def)

section \<open>ASSERT\<close>

text \<open>A failed \<open>ASSERT\<close> never returns (\<open>CpuDeadLoop\<close> in \<open>DebugLib\<close>).\<close>

definition ASSERT :: "bool \<Rightarrow> unit option" where
  "ASSERT b = (if b then Some () else None)"

lemma ASSERT_simps [simp]:
  "ASSERT True = Some ()"
  "ASSERT False = None"
  by (simp_all add: ASSERT_def)

lemma ASSERT_eq_Some [simp]: "ASSERT b = Some u \<longleftrightarrow> b"
  by (simp add: ASSERT_def)

section \<open>Options\<close>

lemma bind_eq_Some_conv [simp]:
  "Option.bind x f = Some y \<longleftrightarrow> (\<exists>a. x = Some a \<and> f a = Some y)"
  by (cases x) auto

section \<open>Words\<close>

unbundle bit_operations_syntax

lemma ucast_ucast_8_32 [simp]: "ucast (ucast (x :: u8) :: u32) = x"
  by (rule bit_word_eqI) (simp add: bit_simps)

lemma ucast_ucast_8_16 [simp]: "ucast (ucast (x :: u8) :: u16) = x"
  by (rule bit_word_eqI) (simp add: bit_simps)

end
