(* ===== verification/Rect.thy ===== *)
theory Rect
  imports Prelude
begin

text \<open>
  The rectangle library \<open>InsydeModulePkg/Library/RectLib/RectLib.c\<close> used by the
  setup browser and the display engines.  A \<open>RECT\<close> holds four \<open>INT32\<close>
  coordinates; \<open>INT32\<close> is a 32-bit word compared as a signed number, and the
  arithmetic wraps as the compiled code does.  Each operation that fills a
  \<open>DestRect\<close> returns the new destination together with its \<open>BOOLEAN\<close>; the
  destination is taken to be a different object from the sources.

  The specification is geometric: \<open>pts r\<close> is the set of points that \<open>PtInRect\<close>
  accepts, and the operations are proved to compute intersections, bounding
  boxes and differences of these sets.
\<close>

section \<open>Data\<close>

record RECT =
  rect_left :: u32
  rect_top :: u32
  rect_right :: u32
  rect_bottom :: u32

record POINT =
  pt_x :: u32
  pt_y :: u32

abbreviation slt :: "u32 \<Rightarrow> u32 \<Rightarrow> bool" where
  "slt a b \<equiv> sint a < sint b"

abbreviation sle :: "u32 \<Rightarrow> u32 \<Rightarrow> bool" where
  "sle a b \<equiv> sint a \<le> sint b"

text \<open>The macros \<open>MAX_INT32\<close> and \<open>MIN_INT32\<close> of \<open>Base.h\<close> on \<open>INT32\<close> operands.\<close>

definition MAX_INT32 :: "u32 \<Rightarrow> u32 \<Rightarrow> u32" where
  "MAX_INT32 a b = (if slt b a then a else b)"

definition MIN_INT32 :: "u32 \<Rightarrow> u32 \<Rightarrow> u32" where
  "MIN_INT32 a b = (if slt a b then a else b)"

section \<open>Operations\<close>

definition SetRect :: "u32 \<Rightarrow> u32 \<Rightarrow> u32 \<Rightarrow> u32 \<Rightarrow> bool \<times> RECT" where
  "SetRect l t r b =
     (True, \<lparr>rect_left = l, rect_top = t, rect_right = r, rect_bottom = b\<rparr>)"

definition SetRectEmpty :: "bool \<times> RECT" where
  "SetRectEmpty = (True, \<lparr>rect_left = 0, rect_top = 0, rect_right = 0, rect_bottom = 0\<rparr>)"

definition CopyRect :: "RECT \<Rightarrow> bool \<times> RECT" where
  "CopyRect SrcRect = (True, SrcRect)"

definition IsRectEmpty :: "RECT \<Rightarrow> bool" where
  "IsRectEmpty r \<longleftrightarrow> rect_right r = rect_left r \<or> rect_bottom r = rect_top r"

definition InflateRect :: "RECT \<Rightarrow> u32 \<Rightarrow> u32 \<Rightarrow> bool \<times> RECT" where
  "InflateRect r DiffX DiffY =
     (True, r\<lparr>rect_left := rect_left r - DiffX, rect_top := rect_top r - DiffY,
              rect_right := rect_right r + DiffX, rect_bottom := rect_bottom r + DiffY\<rparr>)"

definition OffsetRect :: "RECT \<Rightarrow> u32 \<Rightarrow> u32 \<Rightarrow> bool \<times> RECT" where
  "OffsetRect r DiffX DiffY =
     (True, r\<lparr>rect_left := rect_left r + DiffX, rect_right := rect_right r + DiffX,
              rect_top := rect_top r + DiffY, rect_bottom := rect_bottom r + DiffY\<rparr>)"

definition PtInRect :: "RECT \<Rightarrow> POINT \<Rightarrow> bool" where
  "PtInRect r Pt \<longleftrightarrow>
     sle (rect_left r) (pt_x Pt) \<and> slt (pt_x Pt) (rect_right r) \<and>
     sle (rect_top r) (pt_y Pt) \<and> slt (pt_y Pt) (rect_bottom r)"

definition EqualRect :: "RECT \<Rightarrow> RECT \<Rightarrow> bool" where
  "EqualRect a b \<longleftrightarrow>
     rect_left a = rect_left b \<and> rect_right a = rect_right b \<and> rect_top a = rect_top b \<and> rect_bottom a = rect_bottom b"

definition IntersectRect :: "RECT \<Rightarrow> RECT \<Rightarrow> bool \<times> RECT" where
  "IntersectRect a b =
     (if IsRectEmpty a \<or> IsRectEmpty b \<or>
         sle (rect_right b) (rect_left a) \<or> sle (rect_right a) (rect_left b) \<or>
         sle (rect_bottom b) (rect_top a) \<or> sle (rect_bottom a) (rect_top b)
      then (False, snd SetRectEmpty)
      else (True, \<lparr>rect_left = MAX_INT32 (rect_left a) (rect_left b),
                   rect_top = MAX_INT32 (rect_top a) (rect_top b),
                   rect_right = MIN_INT32 (rect_right a) (rect_right b),
                   rect_bottom = MIN_INT32 (rect_bottom a) (rect_bottom b)\<rparr>))"

definition UnionRect :: "RECT \<Rightarrow> RECT \<Rightarrow> bool \<times> RECT" where
  "UnionRect a b =
     (if IsRectEmpty a then
        (if IsRectEmpty b then (False, snd SetRectEmpty) else (True, b))
      else if IsRectEmpty b then (True, a)
      else (True, \<lparr>rect_left = MIN_INT32 (rect_left a) (rect_left b),
                   rect_top = MIN_INT32 (rect_top a) (rect_top b),
                   rect_right = MAX_INT32 (rect_right a) (rect_right b),
                   rect_bottom = MAX_INT32 (rect_bottom a) (rect_bottom b)\<rparr>))"

definition SubtractRect :: "RECT \<Rightarrow> RECT \<Rightarrow> bool \<times> RECT" where
  "SubtractRect Src1Rect Src2Rect =
     (if IsRectEmpty Src1Rect then (False, snd SetRectEmpty)
      else
        let DestRect = snd (CopyRect Src1Rect);
            (hit, Tmp) = IntersectRect Src1Rect Src2Rect
        in if hit then
             (if EqualRect Tmp DestRect then (False, snd SetRectEmpty)
              else if rect_top Tmp = rect_top DestRect \<and> rect_bottom Tmp = rect_bottom DestRect then
                (if rect_left Tmp = rect_left DestRect then (True, DestRect\<lparr>rect_left := rect_right Tmp\<rparr>)
                 else if rect_right Tmp = rect_right DestRect then (True, DestRect\<lparr>rect_right := rect_left Tmp\<rparr>)
                 else (True, DestRect))
              else if rect_left Tmp = rect_left DestRect \<and> rect_right Tmp = rect_right DestRect then
                (if rect_top Tmp = rect_top DestRect then (True, DestRect\<lparr>rect_top := rect_bottom Tmp\<rparr>)
                 else if rect_bottom Tmp = rect_bottom DestRect then (True, DestRect\<lparr>rect_bottom := rect_top Tmp\<rparr>)
                 else (True, DestRect))
              else (True, DestRect))
           else (True, DestRect))"

section \<open>Geometry\<close>

definition pts :: "RECT \<Rightarrow> POINT set" where
  "pts r = {p. PtInRect r p}"

text \<open>The rectangles the callers build: edges in order.\<close>

definition normal :: "RECT \<Rightarrow> bool" where
  "normal r \<longleftrightarrow> sle (rect_left r) (rect_right r) \<and> sle (rect_top r) (rect_bottom r)"

lemma sint_eq_iff_word: "sint a = sint (b :: u32) \<longleftrightarrow> a = b"
  by (auto intro: signed_word_eqI)

lemma sint_MAX [simp]: "sint (MAX_INT32 a b) = max (sint a) (sint b)"
  by (auto simp: MAX_INT32_def max_def)

lemma sint_MIN [simp]: "sint (MIN_INT32 a b) = min (sint a) (sint b)"
  by (auto simp: MIN_INT32_def min_def)

lemma mem_pts [simp]: "p \<in> pts r \<longleftrightarrow> PtInRect r p"
  by (simp add: pts_def)

lemma pts_empty_rect [simp]: "pts (snd SetRectEmpty) = {}"
  by (auto simp: SetRectEmpty_def PtInRect_def)

lemma IsRectEmpty_pts: "IsRectEmpty r \<Longrightarrow> pts r = {}"
  by (auto simp: IsRectEmpty_def PtInRect_def)

lemma normal_pts_empty_iff: "normal r \<Longrightarrow> pts r = {} \<longleftrightarrow> IsRectEmpty r"
proof
  assume n: "normal r" and e: "pts r = {}"
  show "IsRectEmpty r"
  proof (rule ccontr)
    assume "\<not> IsRectEmpty r"
    with n have "slt (rect_left r) (rect_right r)" "slt (rect_top r) (rect_bottom r)"
      by (auto simp: IsRectEmpty_def normal_def less_le sint_eq_iff_word)
    then have "\<lparr>pt_x = rect_left r, pt_y = rect_top r\<rparr> \<in> pts r"
      by (simp add: PtInRect_def)
    with e show False by blast
  qed
qed (rule IsRectEmpty_pts)

lemma pts_Intersect: "pts (snd (IntersectRect a b)) = pts a \<inter> pts b"
proof (cases "IsRectEmpty a \<or> IsRectEmpty b")
  case True
  then show ?thesis
    using IsRectEmpty_pts [of a] IsRectEmpty_pts [of b]
    by (auto simp: IntersectRect_def SetRectEmpty_def PtInRect_def)
next
  case False
  then show ?thesis
    by (auto simp: IntersectRect_def PtInRect_def SetRectEmpty_def)
qed

lemma Intersect_hit_normal:
  assumes "normal a" "normal b" "IntersectRect a b = (True, r)"
  shows "normal r \<and> \<not> IsRectEmpty r"
  using assms
  by (auto simp: IntersectRect_def normal_def IsRectEmpty_def sint_eq_iff_word [symmetric]
      split: if_splits)

lemma pts_IntersectRect:
  assumes "normal a" "normal b"
  shows "pts (snd (IntersectRect a b)) = pts a \<inter> pts b \<and>
         (fst (IntersectRect a b) \<longleftrightarrow> pts a \<inter> pts b \<noteq> {})"
proof (cases "fst (IntersectRect a b)")
  case True
  then obtain r where r: "IntersectRect a b = (True, r)" by (cases "IntersectRect a b") auto
  then have "pts r \<noteq> {}"
    using Intersect_hit_normal [OF assms r] normal_pts_empty_iff by blast
  with r show ?thesis using pts_Intersect [of a b] by simp
next
  case False
  then have "snd (IntersectRect a b) = snd SetRectEmpty"
    by (auto simp: IntersectRect_def split: if_splits)
  then have "pts a \<inter> pts b = {}"
    using pts_Intersect [of a b] by simp
  with False show ?thesis by (simp add: pts_Intersect)
qed

text \<open>
  \<open>IntersectRect\<close> computes the intersection: the destination covers exactly the
  points that lie in both sources, and the returned flag says whether there are any.
\<close>

theorem IntersectRect_correct:
  assumes "normal a" "normal b"
  shows "pts (snd (IntersectRect a b)) = pts a \<inter> pts b \<and>
         (fst (IntersectRect a b) \<longleftrightarrow> pts a \<inter> pts b \<noteq> {})"
  by (rule pts_IntersectRect [OF assms])

theorem IntersectRect_correct_witness:
  "pts (snd (IntersectRect \<lparr>rect_left = 0, rect_top = 0, rect_right = 10, rect_bottom = 10\<rparr>
                           \<lparr>rect_left = 5, rect_top = 5, rect_right = 20, rect_bottom = 8\<rparr>)) =
   pts \<lparr>rect_left = 0, rect_top = 0, rect_right = 10, rect_bottom = 10\<rparr> \<inter>
   pts \<lparr>rect_left = 5, rect_top = 5, rect_right = 20, rect_bottom = 8\<rparr>"
  using IntersectRect_correct [of "\<lparr>rect_left = 0, rect_top = 0, rect_right = 10, rect_bottom = 10\<rparr>"
      "\<lparr>rect_left = 5, rect_top = 5, rect_right = 20, rect_bottom = 8\<rparr>"]
  by (simp add: normal_def)


lemma sint_pred:
  assumes "slt l r"
  shows "\<exists>w :: u32. sint w = sint r - 1"
proof -
  have "- (2 ^ 31) \<le> sint l" using sint_ge [of l] by simp
  moreover have "sint r < 2 ^ 31" using sint_lt [of r] by simp
  ultimately have "sint (word_of_int (sint r - 1) :: u32) = sint r - 1"
    using assms by (subst int_word_sint) simp
  then show ?thesis by blast
qed

lemma pts_subset_normal:
  assumes "normal a" "\<not> IsRectEmpty a" "pts a \<subseteq> pts r"
  shows "sle (rect_left r) (rect_left a) \<and> sle (rect_right a) (rect_right r) \<and>
         sle (rect_top r) (rect_top a) \<and> sle (rect_bottom a) (rect_bottom r)"
proof -
  have lr: "slt (rect_left a) (rect_right a)" and tb: "slt (rect_top a) (rect_bottom a)"
    using assms(1,2) by (auto simp: IsRectEmpty_def normal_def less_le sint_eq_iff_word)
  obtain w h :: u32 where w: "sint w = sint (rect_right a) - 1" and h: "sint h = sint (rect_bottom a) - 1"
    using sint_pred [OF lr] sint_pred [OF tb] by blast
  have "\<lparr>pt_x = rect_left a, pt_y = rect_top a\<rparr> \<in> pts a" "\<lparr>pt_x = w, pt_y = h\<rparr> \<in> pts a"
    using lr tb w h by (auto simp: PtInRect_def)
  then have "\<lparr>pt_x = rect_left a, pt_y = rect_top a\<rparr> \<in> pts r" "\<lparr>pt_x = w, pt_y = h\<rparr> \<in> pts r"
    using assms(3) by blast+
  then show ?thesis using w h by (auto simp: PtInRect_def)
qed

lemma pts_Union_upper:
  assumes "normal a" "normal b"
  shows "pts a \<union> pts b \<subseteq> pts (snd (UnionRect a b))"
  using assms IsRectEmpty_pts [of a] IsRectEmpty_pts [of b]
  by (auto simp: UnionRect_def PtInRect_def)

lemma pts_Union_least:
  assumes "normal a" "normal b" "pts a \<union> pts b \<subseteq> pts r"
  shows "pts (snd (UnionRect a b)) \<subseteq> pts r"
proof (cases "IsRectEmpty a \<or> IsRectEmpty b")
  case True
  with assms(3) show ?thesis by (auto simp: UnionRect_def)
next
  case False
  then show ?thesis
    using assms pts_subset_normal [of a r] pts_subset_normal [of b r]
    by (auto simp: UnionRect_def PtInRect_def)
qed

text \<open>
  \<open>UnionRect\<close> computes the bounding box: the destination contains both sources, it
  is contained in every rectangle that contains both, and the returned flag is false
  exactly when there is nothing to cover.
\<close>

theorem UnionRect_bounding_box:
  assumes "normal a" "normal b"
  shows "pts a \<union> pts b \<subseteq> pts (snd (UnionRect a b)) \<and>
         (\<forall>r. pts a \<union> pts b \<subseteq> pts r \<longrightarrow> pts (snd (UnionRect a b)) \<subseteq> pts r) \<and>
         (fst (UnionRect a b) \<longleftrightarrow> pts a \<union> pts b \<noteq> {})"
  using assms pts_Union_upper pts_Union_least normal_pts_empty_iff [of a] normal_pts_empty_iff [of b]
  by (auto simp: UnionRect_def)

theorem UnionRect_bounding_box_witness:
  "pts \<lparr>rect_left = 0, rect_top = 0, rect_right = 10, rect_bottom = 10\<rparr> \<subseteq>
   pts (snd (UnionRect \<lparr>rect_left = 0, rect_top = 0, rect_right = 10, rect_bottom = 10\<rparr>
                       \<lparr>rect_left = 5, rect_top = 5, rect_right = 20, rect_bottom = 8\<rparr>))"
  using UnionRect_bounding_box [of "\<lparr>rect_left = 0, rect_top = 0, rect_right = 10, rect_bottom = 10\<rparr>"
      "\<lparr>rect_left = 5, rect_top = 5, rect_right = 20, rect_bottom = 8\<rparr>"]
  by (simp add: normal_def)

text \<open>Rectangles are closed under mixing coordinates, and convex along the axes.\<close>

lemma PtInRect_mix:
  "PtInRect r \<lparr>pt_x = x1, pt_y = y1\<rparr> \<Longrightarrow> PtInRect r \<lparr>pt_x = x2, pt_y = y2\<rparr> \<Longrightarrow>
   PtInRect r \<lparr>pt_x = x1, pt_y = y2\<rparr>"
  by (simp add: PtInRect_def)

lemma PtInRect_between:
  "PtInRect r \<lparr>pt_x = x1, pt_y = y1\<rparr> \<Longrightarrow> PtInRect r \<lparr>pt_x = x2, pt_y = y2\<rparr> \<Longrightarrow>
   sle x1 u \<Longrightarrow> sle u x2 \<Longrightarrow> sle y1 v \<Longrightarrow> sle v y2 \<Longrightarrow>
   PtInRect r \<lparr>pt_x = u, pt_y = v\<rparr>"
  by (auto simp: PtInRect_def)

lemma Subtract_FALSE_iff:
  assumes "normal a" "normal b"
  shows "\<not> fst (SubtractRect a b) \<longleftrightarrow> pts a \<subseteq> pts b"
proof (cases "IsRectEmpty a")
  case True
  then show ?thesis using IsRectEmpty_pts [OF True] by (simp add: SubtractRect_def)
next
  case ne: False
  obtain hit t where I: "IntersectRect a b = (hit, t)" by (cases "IntersectRect a b")
  have *: "\<not> fst (SubtractRect a b) \<longleftrightarrow> hit \<and> EqualRect t a"
    using ne by (simp add: SubtractRect_def I CopyRect_def)
  have pt: "pts t = pts a \<inter> pts b" using pts_Intersect [of a b] I by simp
  show ?thesis
  proof
    assume "\<not> fst (SubtractRect a b)"
    with * have "EqualRect t a" by simp
    then have "pts t = pts a" by (auto simp: EqualRect_def PtInRect_def)
    with pt show "pts a \<subseteq> pts b" by blast
  next
    assume sub: "pts a \<subseteq> pts b"
    then have "sle (rect_left b) (rect_left a) \<and> sle (rect_right a) (rect_right b) \<and>
               sle (rect_top b) (rect_top a) \<and> sle (rect_bottom a) (rect_bottom b)"
      using pts_subset_normal [OF assms(1) ne] by blast
    moreover have "hit"
    proof -
      have "pts a \<noteq> {}" using normal_pts_empty_iff [OF assms(1)] ne by simp
      with sub show ?thesis using pts_IntersectRect [OF assms] I by auto
    qed
    ultimately have "hit \<and> EqualRect t a"
      using I unfolding IntersectRect_def EqualRect_def
      by (auto simp: sint_eq_iff_word [symmetric] split: if_splits)
    with * show "\<not> fst (SubtractRect a b)" by simp
  qed
qed

text \<open>A non-empty rectangle \<open>t\<close> lying inside \<open>a\<close>, as the intersection does.\<close>

definition inside :: "RECT \<Rightarrow> RECT \<Rightarrow> bool" where
  "inside t a \<longleftrightarrow>
     sle (rect_left a) (rect_left t) \<and> slt (rect_left t) (rect_right t) \<and>
     sle (rect_right t) (rect_right a) \<and> sle (rect_top a) (rect_top t) \<and>
     slt (rect_top t) (rect_bottom t) \<and> sle (rect_bottom t) (rect_bottom a)"

lemma Intersect_hit_inside:
  assumes "normal a" "normal b" "IntersectRect a b = (True, t)"
  shows "inside t a"
  using assms
  by (auto simp: inside_def IntersectRect_def normal_def IsRectEmpty_def
      sint_eq_iff_word [symmetric] split: if_splits)

text \<open>The rectangle \<open>SubtractRect\<close> returns for a partial overlap \<open>t\<close> of \<open>a\<close>.\<close>

definition subtract_strip :: "RECT \<Rightarrow> RECT \<Rightarrow> RECT" where
  "subtract_strip a t =
     (if rect_top t = rect_top a \<and> rect_bottom t = rect_bottom a then
        (if rect_left t = rect_left a then a\<lparr>rect_left := rect_right t\<rparr>
         else if rect_right t = rect_right a then a\<lparr>rect_right := rect_left t\<rparr> else a)
      else if rect_left t = rect_left a \<and> rect_right t = rect_right a then
        (if rect_top t = rect_top a then a\<lparr>rect_top := rect_bottom t\<rparr>
         else if rect_bottom t = rect_bottom a then a\<lparr>rect_bottom := rect_top t\<rparr> else a)
      else a)"

lemma SubtractRect_cases:
  "\<not> IsRectEmpty a \<Longrightarrow> IntersectRect a b = (hit, t) \<Longrightarrow>
   SubtractRect a b =
     (if hit then if EqualRect t a then (False, snd SetRectEmpty) else (True, subtract_strip a t)
      else (True, a))"
  by (simp add: SubtractRect_def CopyRect_def subtract_strip_def)

lemma strip_bounds:
  "inside t a \<Longrightarrow> pts a - pts t \<subseteq> pts (subtract_strip a t) \<and> pts (subtract_strip a t) \<subseteq> pts a"
  by (auto simp: inside_def subtract_strip_def PtInRect_def)

lemma strip_edge_exact:
  "inside t a \<Longrightarrow> subtract_strip a t \<noteq> a \<Longrightarrow> pts (subtract_strip a t) = pts a - pts t"
  by (auto simp: inside_def subtract_strip_def PtInRect_def split: if_splits)

text \<open>
  Where the code leaves \<open>a\<close> whole, the remainder is no rectangle: any rectangle with
  these points also contains the corner of \<open>t\<close>.
\<close>

lemma strip_whole_not_rect:
  assumes i: "inside t a" and ne: "\<not> EqualRect t a" and w: "subtract_strip a t = a"
  shows "pts a - pts t \<noteq> pts r"
proof
  assume eq: "pts a - pts t = pts r"
  note b = i [unfolded inside_def]
  have r: "PtInRect r p \<longleftrightarrow> PtInRect a p \<and> \<not> PtInRect t p" for p
    using eq by (metis Diff_iff mem_pts)
  have corner: "\<not> PtInRect r \<lparr>pt_x = rect_left t, pt_y = rect_top t\<rparr>"
    unfolding r using b by (simp add: PtInRect_def)
  consider (h) "rect_top t = rect_top a" "rect_bottom t = rect_bottom a"
      "rect_left t \<noteq> rect_left a" "rect_right t \<noteq> rect_right a"
    | (v) "rect_left t = rect_left a" "rect_right t = rect_right a"
      "rect_top t \<noteq> rect_top a" "rect_bottom t \<noteq> rect_bottom a"
    | (d) "rect_top t \<noteq> rect_top a \<or> rect_bottom t \<noteq> rect_bottom a"
      "rect_left t \<noteq> rect_left a \<or> rect_right t \<noteq> rect_right a"
    using ne w b
    by (auto simp: subtract_strip_def EqualRect_def RECT.equality split: if_splits
        dest: arg_cong [where f = rect_left] arg_cong [where f = rect_right]
          arg_cong [where f = rect_top] arg_cong [where f = rect_bottom])
  then show False
  proof cases
    case h
    then have "PtInRect r \<lparr>pt_x = rect_left a, pt_y = rect_top t\<rparr>"
      "PtInRect r \<lparr>pt_x = rect_right t, pt_y = rect_top t\<rparr>"
      unfolding r using b by (auto simp: PtInRect_def sint_eq_iff_word [symmetric])
    then have "PtInRect r \<lparr>pt_x = rect_left t, pt_y = rect_top t\<rparr>"
      by (rule PtInRect_between) (use b in auto)
    with corner show False by simp
  next
    case v
    then have "PtInRect r \<lparr>pt_x = rect_left t, pt_y = rect_top a\<rparr>"
      "PtInRect r \<lparr>pt_x = rect_left t, pt_y = rect_bottom t\<rparr>"
      unfolding r using b by (auto simp: PtInRect_def sint_eq_iff_word [symmetric])
    then have "PtInRect r \<lparr>pt_x = rect_left t, pt_y = rect_top t\<rparr>"
      by (rule PtInRect_between) (use b in auto)
    with corner show False by simp
  next
    case d
    have "\<exists>y0. PtInRect r \<lparr>pt_x = rect_left t, pt_y = y0\<rparr>"
    proof (cases "rect_top t = rect_top a")
      case True
      with d b have "PtInRect r \<lparr>pt_x = rect_left t, pt_y = rect_bottom t\<rparr>"
        unfolding r by (auto simp: PtInRect_def sint_eq_iff_word [symmetric])
      then show ?thesis ..
    next
      case False
      with b have "PtInRect r \<lparr>pt_x = rect_left t, pt_y = rect_top a\<rparr>"
        unfolding r by (auto simp: PtInRect_def sint_eq_iff_word [symmetric])
      then show ?thesis ..
    qed
    moreover have "\<exists>x0. PtInRect r \<lparr>pt_x = x0, pt_y = rect_top t\<rparr>"
    proof (cases "rect_left t = rect_left a")
      case True
      with d b have "PtInRect r \<lparr>pt_x = rect_right t, pt_y = rect_top t\<rparr>"
        unfolding r by (auto simp: PtInRect_def sint_eq_iff_word [symmetric])
      then show ?thesis ..
    next
      case False
      with b have "PtInRect r \<lparr>pt_x = rect_left a, pt_y = rect_top t\<rparr>"
        unfolding r by (auto simp: PtInRect_def sint_eq_iff_word [symmetric])
      then show ?thesis ..
    qed
    ultimately show False using PtInRect_mix corner by blast
  qed
qed

lemma Subtract_bounds:
  assumes "normal a" "normal b"
  shows "pts a - pts b \<subseteq> pts (snd (SubtractRect a b)) \<and> pts (snd (SubtractRect a b)) \<subseteq> pts a"
proof (cases "IsRectEmpty a")
  case True
  then show ?thesis using IsRectEmpty_pts [OF True] by (simp add: SubtractRect_def)
next
  case False
  obtain hit t where I: "IntersectRect a b = (hit, t)" by (cases "IntersectRect a b")
  have pt: "pts t = pts a \<inter> pts b" using pts_Intersect [of a b] I by simp
  have diff: "pts a - pts b = pts a - pts t" using pt by blast
  show ?thesis
  proof (cases "hit \<and> \<not> EqualRect t a")
    case True
    with strip_bounds [of t a] Intersect_hit_inside [OF assms] I show ?thesis
      by (simp add: SubtractRect_cases [OF False I] diff)
  next
    case nh: False
    have "hit \<Longrightarrow> pts a - pts t = {}"
      using nh by (auto simp: EqualRect_def PtInRect_def)
    with nh show ?thesis by (auto simp: SubtractRect_cases [OF False I] diff)
  qed
qed

lemma Subtract_exact:
  assumes "normal a" "normal b" "pts a - pts b = pts r"
  shows "pts (snd (SubtractRect a b)) = pts a - pts b"
proof (cases "IsRectEmpty a")
  case True
  then show ?thesis using IsRectEmpty_pts [OF True] by (simp add: SubtractRect_def)
next
  case False
  obtain hit t where I: "IntersectRect a b = (hit, t)" by (cases "IntersectRect a b")
  have pt: "pts t = pts a \<inter> pts b" using pts_Intersect [of a b] I by simp
  have diff: "pts a - pts b = pts a - pts t" using pt by blast
  show ?thesis
  proof (cases "hit \<and> \<not> EqualRect t a")
    case True
    then have i: "inside t a" using Intersect_hit_inside [OF assms(1,2)] I by simp
    have "subtract_strip a t \<noteq> a"
      using strip_whole_not_rect [OF i] True assms(3) diff by metis
    with strip_edge_exact [OF i] True show ?thesis
      by (simp add: SubtractRect_cases [OF False I] diff)
  next
    case nh: False
    have "hit \<Longrightarrow> pts a - pts t = {}"
      using nh by (auto simp: EqualRect_def PtInRect_def)
    moreover have "\<not> hit \<Longrightarrow> pts t = {}"
      using pt pts_IntersectRect [OF assms(1,2)] I by simp
    ultimately show ?thesis using nh by (auto simp: SubtractRect_cases [OF False I] diff)
  qed
qed

text \<open>
  \<open>SubtractRect\<close> keeps every point of the first source that is not in the second,
  never adds one, returns false exactly when the second source covers the first, and
  computes the difference exactly whenever the difference is a rectangle at all, for
  rectangles whose corners are in order.
\<close>

theorem SubtractRect_correct:
  assumes "normal a" "normal b"
  shows "pts a - pts b \<subseteq> pts (snd (SubtractRect a b)) \<and>
         pts (snd (SubtractRect a b)) \<subseteq> pts a \<and>
         (\<not> fst (SubtractRect a b) \<longleftrightarrow> pts a \<subseteq> pts b) \<and>
         (\<forall>r. pts a - pts b = pts r \<longrightarrow> pts (snd (SubtractRect a b)) = pts a - pts b)"
  using Subtract_bounds [OF assms] Subtract_FALSE_iff [OF assms] Subtract_exact [OF assms] by blast

theorem SubtractRect_correct_witness:
  "pts \<lparr>rect_left = 0, rect_top = 0, rect_right = 10, rect_bottom = 10\<rparr> -
   pts \<lparr>rect_left = 4, rect_top = 0, rect_right = 20, rect_bottom = 12\<rparr> \<subseteq>
   pts (snd (SubtractRect \<lparr>rect_left = 0, rect_top = 0, rect_right = 10, rect_bottom = 10\<rparr>
                          \<lparr>rect_left = 4, rect_top = 0, rect_right = 20, rect_bottom = 12\<rparr>))"
  using SubtractRect_correct [of "\<lparr>rect_left = 0, rect_top = 0, rect_right = 10, rect_bottom = 10\<rparr>"
      "\<lparr>rect_left = 4, rect_top = 0, rect_right = 20, rect_bottom = 12\<rparr>"]
  by (simp add: normal_def)

end
