(* ===== verification/Cmos.thy ===== *)
theory Cmos
  imports Prelude
begin

text \<open>
  The CMOS library \<open>InsydeModulePkg/Library/CmosLib/CmosLib.c\<close>: 8-, 16- and 32-bit
  accesses to the battery-backed RAM behind an index port and a data port, the
  byte sum of the standard area and its checksum test.

  The I/O ports are hardware: the definitions take them as a parameter \<open>io\<close>, a
  pair of functions on a device state.  What the library relies on is stated as the
  locale \<open>cmos_bank\<close> (the index register remembers what was written to it; the data
  port reads and writes the cell the low seven bits of the index select, for the
  cells that are plain RAM).  \<open>rtc_io\<close> is a device with two banks, and both banks
  are shown to be instances.  The CPU is the \<open>FLAGS\<close> register the routines of
  \<open>CmosLib.asm\<close> read (\<open>pushf\<close>) and change (\<open>cli\<close>, \<open>sti\<close>).
\<close>

section \<open>Machine\<close>

record 's io_ports =
  IoRead8 :: "uintn \<Rightarrow> 's \<Rightarrow> u8 \<times> 's"
  IoWrite8 :: "uintn \<Rightarrow> u8 \<Rightarrow> 's \<Rightarrow> 's"

record 's machine =
  eflags :: u16
  dev :: 's

definition R_CMOS_INDEX :: uintn where "R_CMOS_INDEX = 0x70"
definition R_CMOS_DATA :: uintn where "R_CMOS_DATA = 0x71"
definition INTERRUPT_FLAG :: u16 where "INTERRUPT_FLAG = 0x200"

definition CmosGetCpuFlags :: "'s machine \<Rightarrow> u16" where
  "CmosGetCpuFlags m = eflags m"

definition CmosDisableInterrupt :: "'s machine \<Rightarrow> 's machine" where
  "CmosDisableInterrupt m = m\<lparr>eflags := eflags m AND NOT INTERRUPT_FLAG\<rparr>"

definition CmosEableInterrupt :: "'s machine \<Rightarrow> 's machine" where
  "CmosEableInterrupt m = m\<lparr>eflags := eflags m OR INTERRUPT_FLAG\<rparr>"

definition io_read :: "'s io_ports \<Rightarrow> uintn \<Rightarrow> 's machine \<Rightarrow> u8 \<times> 's machine" where
  "io_read io port m = (case IoRead8 io port (dev m) of (v, d) \<Rightarrow> (v, m\<lparr>dev := d\<rparr>))"

definition io_write :: "'s io_ports \<Rightarrow> uintn \<Rightarrow> u8 \<Rightarrow> 's machine \<Rightarrow> 's machine" where
  "io_write io port v m = m\<lparr>dev := IoWrite8 io port v (dev m)\<rparr>"

definition restore_interrupt :: "u16 \<Rightarrow> 's machine \<Rightarrow> 's machine" where
  "restore_interrupt Eflags m =
     (if Eflags AND INTERRUPT_FLAG \<noteq> 0 then CmosEableInterrupt m else m)"

section \<open>The standard bank\<close>

definition ReadCmos8 :: "'s io_ports \<Rightarrow> u8 \<Rightarrow> 's machine \<Rightarrow> u8 \<times> 's machine" where
  "ReadCmos8 io Address m =
     (let Eflags = CmosGetCpuFlags m;
          m = CmosDisableInterrupt m;
          (Old, m) = io_read io R_CMOS_INDEX m;
          m = io_write io R_CMOS_INDEX (Address OR (Old AND 0x80)) m;
          (Value, m) = io_read io R_CMOS_DATA m;
          m = restore_interrupt Eflags m
      in (Value, m))"

definition WriteCmos8 :: "'s io_ports \<Rightarrow> u8 \<Rightarrow> u8 \<Rightarrow> 's machine \<Rightarrow> 's machine" where
  "WriteCmos8 io Address Data m =
     (let Eflags = CmosGetCpuFlags m;
          m = CmosDisableInterrupt m;
          (Old, m) = io_read io R_CMOS_INDEX m;
          m = io_write io R_CMOS_INDEX (Address OR (Old AND 0x80)) m;
          m = io_write io R_CMOS_DATA Data m
      in restore_interrupt Eflags m)"

definition ReadCmos16 :: "'s io_ports \<Rightarrow> u8 \<Rightarrow> 's machine \<Rightarrow> u16 \<times> 's machine" where
  "ReadCmos16 io Address m =
     (let (Temp8, m) = ReadCmos8 io (Address + 1) m;
          Temp16 = push_bit 8 (ucast Temp8);
          (Temp8, m) = ReadCmos8 io Address m;
          Temp16 = Temp16 + ucast Temp8
      in (Temp16, m))"

definition WriteCmos16 :: "'s io_ports \<Rightarrow> u8 \<Rightarrow> u16 \<Rightarrow> 's machine \<Rightarrow> 's machine" where
  "WriteCmos16 io Address Data m =
     (let Temp8 = ucast (Data AND 0x00FF);
          m = WriteCmos8 io Address Temp8 m;
          Temp8 = ucast (drop_bit 8 (Data AND 0xFF00))
      in WriteCmos8 io (Address + 1) Temp8 m)"

definition ReadCmos32 :: "'s io_ports \<Rightarrow> u8 \<Rightarrow> 's machine \<Rightarrow> u32 \<times> 's machine" where
  "ReadCmos32 io Address m =
     (let (Temp8, m) = ReadCmos8 io (Address + 3) m;
          Temp32 = push_bit 24 (ucast Temp8);
          (Temp8, m) = ReadCmos8 io (Address + 2) m;
          Temp32 = Temp32 + push_bit 16 (ucast Temp8);
          (Temp8, m) = ReadCmos8 io (Address + 1) m;
          Temp32 = Temp32 + push_bit 8 (ucast Temp8);
          (Temp8, m) = ReadCmos8 io Address m;
          Temp32 = Temp32 + ucast Temp8
      in (Temp32, m))"

definition WriteCmos32 :: "'s io_ports \<Rightarrow> u8 \<Rightarrow> u32 \<Rightarrow> 's machine \<Rightarrow> 's machine" where
  "WriteCmos32 io Address Data m =
     (let Temp8 = ucast (Data AND 0x000000FF);
          m = WriteCmos8 io Address Temp8 m;
          Temp8 = ucast (drop_bit 8 (Data AND 0x0000FF00));
          m = WriteCmos8 io (Address + 1) Temp8 m;
          Temp8 = ucast (drop_bit 16 (Data AND 0x00FF0000));
          m = WriteCmos8 io (Address + 2) Temp8 m;
          Temp8 = ucast (drop_bit 24 (Data AND 0xFF000000))
      in WriteCmos8 io (Address + 3) Temp8 m)"

text \<open>The loop \<open>for (Address = 0x10; Address < 0x2e; Address++)\<close>.\<close>

function SumaryCmos_loop :: "'s io_ports \<Rightarrow> u8 \<Rightarrow> u16 \<Rightarrow> 's machine \<Rightarrow> u16 \<times> 's machine" where
  "SumaryCmos_loop io Address RunningChecksum m =
     (if Address < 0x2e then
        let (Temp, m) = ReadCmos8 io Address m
        in SumaryCmos_loop io (Address + 1) (RunningChecksum + ucast Temp) m
      else (RunningChecksum, m))"
  by pat_completeness auto
termination
  by (relation "measure (\<lambda>(io, Address, _). 46 - unat Address)")
    (auto simp: word_less_nat_alt unat_word_ariths)

declare SumaryCmos_loop.simps [simp del]

definition SumaryCmos :: "'s io_ports \<Rightarrow> 's machine \<Rightarrow> u16 \<times> 's machine" where
  "SumaryCmos io m = SumaryCmos_loop io 0x10 0 m"

definition CmosCheckSum2E :: u8 where "CmosCheckSum2E = 0x2E"

definition ValidateCmosChecksum :: "'s io_ports \<Rightarrow> 's machine \<Rightarrow> efi_status \<times> 's machine" where
  "ValidateCmosChecksum io m =
     (let (RunningChecksum, m) = SumaryCmos io m;
          (TempChecksum, m) = ReadCmos16 io CmosCheckSum2E m;
          Checksum = drop_bit 8 TempChecksum + push_bit 8 (TempChecksum AND 0xff)
      in (if Checksum = RunningChecksum then EFI_SUCCESS else EFI_VOLUME_CORRUPTED, m))"

section \<open>A bank behind any pair of ports\<close>

definition ReadExtCmos8 :: "'s io_ports \<Rightarrow> u8 \<Rightarrow> u8 \<Rightarrow> u8 \<Rightarrow> 's machine \<Rightarrow> u8 \<times> 's machine" where
  "ReadExtCmos8 io XCmosIndex XCmosData Address m =
     (let Eflags = CmosGetCpuFlags m;
          m = CmosDisableInterrupt m;
          m = io_write io (ucast XCmosIndex) Address m;
          (Value, m) = io_read io (ucast XCmosData) m;
          m = restore_interrupt Eflags m
      in (Value, m))"

definition ReadExtCmos16 :: "'s io_ports \<Rightarrow> u8 \<Rightarrow> u8 \<Rightarrow> u8 \<Rightarrow> 's machine \<Rightarrow> u16 \<times> 's machine" where
  "ReadExtCmos16 io XCmosIndex XCmosData Address m =
     (let (Temp8, m) = ReadExtCmos8 io XCmosIndex XCmosData (Address + 1) m;
          Temp16 = push_bit 8 (ucast Temp8);
          (Temp8, m) = ReadExtCmos8 io XCmosIndex XCmosData Address m;
          Temp16 = Temp16 + ucast Temp8
      in (Temp16, m))"

definition ReadExtCmos32 :: "'s io_ports \<Rightarrow> u8 \<Rightarrow> u8 \<Rightarrow> u8 \<Rightarrow> 's machine \<Rightarrow> u32 \<times> 's machine" where
  "ReadExtCmos32 io XCmosIndex XCmosData Address m =
     (let (Temp8, m) = ReadExtCmos8 io XCmosIndex XCmosData (Address + 3) m;
          Temp32 = push_bit 24 (ucast Temp8);
          (Temp8, m) = ReadExtCmos8 io XCmosIndex XCmosData (Address + 2) m;
          Temp32 = Temp32 + push_bit 16 (ucast Temp8);
          (Temp8, m) = ReadExtCmos8 io XCmosIndex XCmosData (Address + 1) m;
          Temp32 = Temp32 + push_bit 8 (ucast Temp8);
          (Temp8, m) = ReadExtCmos8 io XCmosIndex XCmosData Address m;
          Temp32 = Temp32 + ucast Temp8
      in (Temp32, m))"

definition WriteExtCmos8 :: "'s io_ports \<Rightarrow> u8 \<Rightarrow> u8 \<Rightarrow> u8 \<Rightarrow> u8 \<Rightarrow> 's machine \<Rightarrow> 's machine" where
  "WriteExtCmos8 io XCmosIndex XCmosData Address Data m =
     (let Eflags = CmosGetCpuFlags m;
          m = CmosDisableInterrupt m;
          m = io_write io (ucast XCmosIndex) Address m;
          m = io_write io (ucast XCmosData) Data m
      in restore_interrupt Eflags m)"

definition WriteExtCmos16 :: "'s io_ports \<Rightarrow> u8 \<Rightarrow> u8 \<Rightarrow> u8 \<Rightarrow> u16 \<Rightarrow> 's machine \<Rightarrow> 's machine" where
  "WriteExtCmos16 io XCmosIndex XCmosData Address Data m =
     (let Temp8 = ucast (Data AND 0x00FF);
          m = WriteExtCmos8 io XCmosIndex XCmosData Address Temp8 m;
          Temp8 = ucast (drop_bit 8 (Data AND 0xFF00))
      in WriteExtCmos8 io XCmosIndex XCmosData (Address + 1) Temp8 m)"

definition WriteExtCmos32 :: "'s io_ports \<Rightarrow> u8 \<Rightarrow> u8 \<Rightarrow> u8 \<Rightarrow> u32 \<Rightarrow> 's machine \<Rightarrow> 's machine" where
  "WriteExtCmos32 io XCmosIndex XCmosData Address Data m =
     (let Temp8 = ucast (Data AND 0x000000FF);
          m = WriteExtCmos8 io XCmosIndex XCmosData Address Temp8 m;
          Temp8 = ucast (drop_bit 8 (Data AND 0x0000FF00));
          m = WriteExtCmos8 io XCmosIndex XCmosData (Address + 1) Temp8 m;
          Temp8 = ucast (drop_bit 16 (Data AND 0x00FF0000));
          m = WriteExtCmos8 io XCmosIndex XCmosData (Address + 2) Temp8 m;
          Temp8 = ucast (drop_bit 24 (Data AND 0xFF000000))
      in WriteExtCmos8 io XCmosIndex XCmosData (Address + 3) Temp8 m)"

section \<open>Byte assembly\<close>

definition join16 :: "u8 \<Rightarrow> u8 \<Rightarrow> u16" where
  "join16 b1 b0 = push_bit 8 (ucast b1) + ucast b0"

definition join32 :: "u8 \<Rightarrow> u8 \<Rightarrow> u8 \<Rightarrow> u8 \<Rightarrow> u32" where
  "join32 b3 b2 b1 b0 =
     push_bit 24 (ucast b3) + push_bit 16 (ucast b2) + push_bit 8 (ucast b1) + ucast b0"

lemma masks32:
  "(0xFF000000 :: u32) = push_bit 24 (mask 8)" "(0xFF0000 :: u32) = push_bit 16 (mask 8)"
  "(0xFF00 :: u32) = push_bit 8 (mask 8)" "(0xFF :: u32) = mask 8"
  by (simp_all add: mask_eq_exp_minus_1 push_bit_eq_mult)

lemma masks16: "(0xFF00 :: u16) = push_bit 8 (mask 8)" "(0xFF :: u16) = mask 8"
  by (simp_all add: mask_eq_exp_minus_1 push_bit_eq_mult)

lemma byte_of_word:
  fixes d :: "'a :: len word"
  shows "ucast (drop_bit k (d AND push_bit k (mask 8))) = (ucast (drop_bit k d) :: u8)"
  "ucast (d AND mask 8) = (ucast d :: u8)"
  by (rule bit_word_eqI, auto simp: bit_simps dest: bit_imp_le_length)+

lemma unat_u8: "unat (b :: u8) < 256"
  using unsigned_less [of b] by simp

lemma unat_mod_65536: "unat (s :: u16) mod 65536 = unat s"
  using unsigned_less [of s, where 'a = nat] by simp

lemma unat_join16: "unat (join16 b1 b0) = 256 * unat b1 + unat b0"
  using unat_u8 [of b1] unat_u8 [of b0]
  by (simp add: join16_def unat_word_ariths push_bit_eq_mult take_bit_eq_mod unsigned_ucast_eq)

lemma unat_join32: "unat (join32 b3 b2 b1 b0) =
   16777216 * unat b3 + 65536 * unat b2 + 256 * unat b1 + unat b0"
  using unat_u8 [of b1] unat_u8 [of b0] unat_u8 [of b2] unat_u8 [of b3]
  by (simp add: join32_def unat_word_ariths push_bit_eq_mult take_bit_eq_mod unsigned_ucast_eq)

lemma bytes16: fixes d :: u16
  shows "unat (ucast (d AND 0x00FF) :: u8) = unat d mod 256"
  "unat (ucast (drop_bit 8 (d AND 0xFF00)) :: u8) = unat d div 256"
  unfolding masks16 byte_of_word
  using unsigned_less [of d, where 'a = nat]
  by (simp_all add: unsigned_ucast_eq take_bit_eq_mod drop_bit_eq_div unat_div unat_drop_bit_eq
      less_mult_imp_div_less)

lemma bytes32: fixes d :: u32
  shows "unat (ucast (d AND 0x00FF) :: u8) = unat d mod 256"
  "unat (ucast (drop_bit 8 (d AND 0xFF00)) :: u8) = unat d div 256 mod 256"
  "unat (ucast (drop_bit 16 (d AND 0xFF0000)) :: u8) = unat d div 65536 mod 256"
  "unat (ucast (drop_bit 24 (d AND 0xFF000000)) :: u8) = unat d div 16777216 mod 256"
  unfolding masks32 byte_of_word
  by (simp_all add: unsigned_ucast_eq take_bit_eq_mod drop_bit_eq_div unat_div unat_drop_bit_eq)

lemma join16_bytes:
  "join16 (ucast (drop_bit 8 (d AND 0xFF00))) (ucast (d AND 0xFF)) = d"
  by (rule word_unat_eq_iff [THEN iffD2]) (simp only: unat_join16 bytes16, simp)

lemma nat_bytes32:
  "n < 4294967296 \<Longrightarrow> 16777216 * (n div 16777216 mod 256) + 65536 * (n div 65536 mod 256)
     + 256 * (n div 256 mod 256) + n mod 256 = (n :: nat)"
proof -
  assume n: "n < 4294967296"
  have 1: "n = 256 * (n div 256) + n mod 256" by simp
  have 2: "n div 256 = 256 * (n div 65536) + n div 256 mod 256"
    using div_mult2_eq [of n 256 256] mult_div_mod_eq [of 256 "n div 256"] by simp
  have 3: "n div 65536 = 256 * (n div 16777216) + n div 65536 mod 256"
    using div_mult2_eq [of n 65536 256] mult_div_mod_eq [of 256 "n div 65536"] by simp
  have 4: "n div 16777216 mod 256 = n div 16777216"
    using n by (simp add: less_mult_imp_div_less)
  show ?thesis unfolding 4 using 1 2 3 by linarith
qed

lemma join32_bytes:
  "join32 (ucast (drop_bit 24 (d AND 0xFF000000))) (ucast (drop_bit 16 (d AND 0xFF0000)))
          (ucast (drop_bit 8 (d AND 0xFF00))) (ucast (d AND 0xFF)) = d"
proof (rule word_unat_eq_iff [THEN iffD2])
  have "unat d < 4294967296" using unsigned_less [of d, where 'a = nat] by simp
  from nat_bytes32 [OF this]
  show "unat (join32 (ucast (drop_bit 24 (d AND 0xFF000000))) (ucast (drop_bit 16 (d AND 0xFF0000)))
          (ucast (drop_bit 8 (d AND 0xFF00))) (ucast (d AND 0xFF))) = unat d"
    unfolding unat_join32 bytes32 .
qed

text \<open>The checksum of the standard area is stored with its high byte first.\<close>

lemma swap16: "drop_bit 8 (join16 b1 b0) + push_bit 8 (join16 b1 b0 AND 0xff) = join16 b0 b1"
proof (rule word_unat_eq_iff [THEN iffD2])
  have 1: "unat (join16 b1 b0 AND 0xff) = unat b0"
    using unat_u8 [of b0]
    unfolding masks16(2) take_bit_eq_mask [symmetric] unsigned_take_bit_eq unat_join16
    by (simp add: take_bit_eq_mod)
  have 2: "unat (drop_bit 8 (join16 b1 b0)) = unat b1"
    using unat_u8 [of b0]
    unfolding unat_drop_bit_eq unat_join16 by (simp add: drop_bit_eq_div)
  show "unat (drop_bit 8 (join16 b1 b0) + push_bit 8 (join16 b1 b0 AND 0xff)) = unat (join16 b0 b1)"
  using unat_u8 [of b1] unat_u8 [of b0]
    by (simp add: unat_join16 unat_word_ariths(1,2) push_bit_eq_mult 1 2)
qed

section \<open>Cell selection\<close>

abbreviation sel :: "u8 \<Rightarrow> u8" where
  "sel a \<equiv> a AND 0x7F"

lemma mask7: "(0x7F :: u8) = mask 7"
  by (simp add: mask_eq_exp_minus_1)

lemma unat_sel: "unat (sel a) = unat a mod 128"
  unfolding mask7 take_bit_eq_mask [symmetric] unsigned_take_bit_eq by (simp add: take_bit_eq_mod)

lemma bit_0x80: "bit (0x80 :: u8) n \<longleftrightarrow> n = 7"
proof -
  have "(0x80 :: u8) = 2 ^ 7" by simp
  then show ?thesis by (simp only: bit_exp_iff) (auto simp: possible_bit_word)
qed

lemma sel_nmi: "sel (a OR (b AND 0x80)) = sel a"
proof -
  have "b AND 0x80 AND mask 7 = 0"
  proof (rule bit_word_eqI)
    fix n
    show "bit (b AND 0x80 AND mask 7) n = bit (0 :: u8) n"
      unfolding bit_and_iff bit_0x80 by (simp add: bit_simps)
  qed
  then show ?thesis unfolding mask7 by (simp add: bit.conj_disj_distrib2 and.assoc)
qed

lemma sel_small: "unat a < 128 \<Longrightarrow> sel a = a"
  by (rule word_unat_eq_iff [THEN iffD2]) (simp add: unat_sel)

lemma sel_plus_neq:
  assumes "i < 128" "j < 128" "i \<noteq> j"
  shows "sel (a + of_nat i) \<noteq> sel (a + of_nat j)"
proof
  assume "sel (a + of_nat i) = sel (a + of_nat j)"
  then have "unat (a + of_nat i) mod 128 = unat (a + of_nat j) mod 128"
    by (metis unat_sel)
  then have "(unat a + i) mod 256 mod 128 = (unat a + j) mod 256 mod 128"
    using assms by (simp add: unat_word_ariths unat_of_nat)
  moreover have "(n mod 256) mod 128 = n mod (128::nat)" for n
    by (rule mod_mod_cancel) simp
  ultimately have "(unat a + i) mod 128 = (unat a + j) mod 128" by simp
  then obtain q1 q2 where "unat a + i + 128 * q1 = unat a + j + 128 * q2"
    by (auto simp: nat_mod_eq_iff)
  then have "i + 128 * q1 = j + 128 * q2" by linarith
  then have "i mod 128 = j mod 128"
    by (auto simp: nat_mod_eq_iff)
  with assms show False by simp
qed

section \<open>Byte cells and multi-byte accesses\<close>

text \<open>
  The 16- and 32-bit accesses of both families are the same composition of 8-bit
  accesses.  \<open>byte_cells\<close> is the contract of an 8-bit access that they rely on:
  reading returns the RAM cell, writing changes that one RAM cell, and neither
  changes the flags.
\<close>

definition read16_by :: "(u8 \<Rightarrow> 'm \<Rightarrow> u8 \<times> 'm) \<Rightarrow> u8 \<Rightarrow> 'm \<Rightarrow> u16 \<times> 'm" where
  "read16_by rd a m =
     (let (b1, m) = rd (a + 1) m; (b0, m) = rd a m in (join16 b1 b0, m))"

definition read32_by :: "(u8 \<Rightarrow> 'm \<Rightarrow> u8 \<times> 'm) \<Rightarrow> u8 \<Rightarrow> 'm \<Rightarrow> u32 \<times> 'm" where
  "read32_by rd a m =
     (let (b3, m) = rd (a + 3) m; (b2, m) = rd (a + 2) m; (b1, m) = rd (a + 1) m; (b0, m) = rd a m
      in (join32 b3 b2 b1 b0, m))"

definition byte_of :: "nat \<Rightarrow> 'a :: len word \<Rightarrow> u8" where
  "byte_of i d = ucast (drop_bit (8 * i) (d AND push_bit (8 * i) (mask 8)))"

definition write16_by :: "(u8 \<Rightarrow> u8 \<Rightarrow> 'm \<Rightarrow> 'm) \<Rightarrow> u8 \<Rightarrow> u16 \<Rightarrow> 'm \<Rightarrow> 'm" where
  "write16_by wr a d m = wr (a + 1) (byte_of 1 d) (wr a (byte_of 0 d) m)"

definition write32_by :: "(u8 \<Rightarrow> u8 \<Rightarrow> 'm \<Rightarrow> 'm) \<Rightarrow> u8 \<Rightarrow> u32 \<Rightarrow> 'm \<Rightarrow> 'm" where
  "write32_by wr a d m =
     wr (a + 3) (byte_of 3 d) (wr (a + 2) (byte_of 2 d) (wr (a + 1) (byte_of 1 d) (wr a (byte_of 0 d) m)))"

lemmas by_defs = read16_by_def read32_by_def write16_by_def write32_by_def byte_of_def
  join16_def join32_def masks16 masks32 Let_def

lemma ReadCmos16_by: "ReadCmos16 io = read16_by (ReadCmos8 io)"
  by (intro ext) (simp add: ReadCmos16_def by_defs split: prod.splits)

lemma ReadCmos32_by: "ReadCmos32 io = read32_by (ReadCmos8 io)"
  by (intro ext) (simp add: ReadCmos32_def by_defs split: prod.splits)

lemma WriteCmos16_by: "WriteCmos16 io = write16_by (WriteCmos8 io)"
  by (intro ext) (simp add: WriteCmos16_def by_defs)

lemma WriteCmos32_by: "WriteCmos32 io = write32_by (WriteCmos8 io)"
  by (intro ext) (simp add: WriteCmos32_def by_defs)

lemma ReadExtCmos16_by: "ReadExtCmos16 io xi xd = read16_by (ReadExtCmos8 io xi xd)"
  by (intro ext) (simp add: ReadExtCmos16_def by_defs split: prod.splits)

lemma ReadExtCmos32_by: "ReadExtCmos32 io xi xd = read32_by (ReadExtCmos8 io xi xd)"
  by (intro ext) (simp add: ReadExtCmos32_def by_defs split: prod.splits)

lemma WriteExtCmos16_by: "WriteExtCmos16 io xi xd = write16_by (WriteExtCmos8 io xi xd)"
  by (intro ext) (simp add: WriteExtCmos16_def by_defs)

lemma WriteExtCmos32_by: "WriteExtCmos32 io xi xd = write32_by (WriteExtCmos8 io xi xd)"
  by (intro ext) (simp add: WriteExtCmos32_def by_defs)

lemma join16_byte_of: "join16 (byte_of 1 d) (byte_of 0 d) = d"
  using join16_bytes [of d] by (simp add: byte_of_def masks16)

lemma join32_byte_of: "join32 (byte_of 3 d) (byte_of 2 d) (byte_of 1 d) (byte_of 0 d) = d"
  using join32_bytes [of d] by (simp add: byte_of_def masks32)

lemma sel_offsets:
  "sel (a + 1) \<noteq> sel a" "sel (a + 2) \<noteq> sel a" "sel (a + 3) \<noteq> sel a"
  "sel (a + 2) \<noteq> sel (a + 1)" "sel (a + 3) \<noteq> sel (a + 1)" "sel (a + 3) \<noteq> sel (a + 2)"
  using sel_plus_neq [of 1 0 a] sel_plus_neq [of 2 0 a] sel_plus_neq [of 3 0 a]
    sel_plus_neq [of 2 1 a] sel_plus_neq [of 3 1 a] sel_plus_neq [of 3 2 a]
  by simp_all

locale byte_cells =
  fixes rd :: "u8 \<Rightarrow> 'm \<Rightarrow> u8 \<times> 'm"
    and wr :: "u8 \<Rightarrow> u8 \<Rightarrow> 'm \<Rightarrow> 'm"
    and cell :: "'m \<Rightarrow> u8 \<Rightarrow> u8"
    and ram :: "u8 \<Rightarrow> bool"
    and flags :: "'m \<Rightarrow> u16"
  assumes rd_value: "ram (sel a) \<Longrightarrow> fst (rd a m) = cell m (sel a)"
    and rd_frame: "ram c \<Longrightarrow> cell (snd (rd a m)) c = cell m c"
    and rd_flags: "flags (snd (rd a m)) = flags m"
    and wr_cell: "ram c \<Longrightarrow> cell (wr a v m) c = (if c = sel a then v else cell m c)"
    and wr_flags: "flags (wr a v m) = flags m"
begin

lemmas laws = rd_value rd_frame rd_flags wr_cell wr_flags

lemma read16_value:
  "\<lbrakk>ram (sel (a + 1)); ram (sel a)\<rbrakk> \<Longrightarrow>
     fst (read16_by rd a m) = join16 (cell m (sel (a + 1))) (cell m (sel a))"
  using rd_value [of "a + 1" m] rd_frame [of "sel a" "a + 1" m]
    rd_value [of a "snd (rd (a + 1) m)"]
  by (simp add: read16_by_def split_beta Let_def)

lemma read16_frame:
  "ram c \<Longrightarrow> cell (snd (read16_by rd a m)) c = cell m c"
  "flags (snd (read16_by rd a m)) = flags m"
  by (simp_all add: read16_by_def split_beta Let_def laws)

lemma read32_value:
  "\<lbrakk>ram (sel (a + 3)); ram (sel (a + 2)); ram (sel (a + 1)); ram (sel a)\<rbrakk> \<Longrightarrow>
     fst (read32_by rd a m) = join32 (cell m (sel (a + 3))) (cell m (sel (a + 2)))
       (cell m (sel (a + 1))) (cell m (sel a))"
  by (simp add: read32_by_def split_beta Let_def laws)

lemma read32_frame:
  "ram c \<Longrightarrow> cell (snd (read32_by rd a m)) c = cell m c"
  "flags (snd (read32_by rd a m)) = flags m"
  by (simp_all add: read32_by_def split_beta Let_def laws)

lemma write32_cell:
  assumes "ram c"
  shows "cell (write32_by wr a d m) c =
     (if c = sel (a + 3) then byte_of 3 d else if c = sel (a + 2) then byte_of 2 d
      else if c = sel (a + 1) then byte_of 1 d else if c = sel a then byte_of 0 d else cell m c)"
  using assms by (simp add: write32_by_def laws)

lemma write32_flags: "flags (write32_by wr a d m) = flags m"
  by (simp add: write32_by_def laws)

lemma write16_cell:
  "ram c \<Longrightarrow> cell (write16_by wr a d m) c =
     (if c = sel (a + 1) then byte_of 1 d else if c = sel a then byte_of 0 d else cell m c)"
  by (simp add: write16_by_def laws)

lemma write16_flags: "flags (write16_by wr a d m) = flags m"
  by (simp add: write16_by_def laws)

lemma read32_write32:
  "\<lbrakk>ram (sel (a + 3)); ram (sel (a + 2)); ram (sel (a + 1)); ram (sel a)\<rbrakk> \<Longrightarrow>
     fst (read32_by rd a (write32_by wr a d m)) = d"
  using sel_offsets [of a] by (simp add: read32_value write32_cell join32_byte_of [unfolded One_nat_def])

lemma read16_write16:
  "\<lbrakk>ram (sel (a + 1)); ram (sel a)\<rbrakk> \<Longrightarrow> fst (read16_by rd a (write16_by wr a d m)) = d"
  using sel_offsets [of a] by (simp add: read16_value write16_cell join16_byte_of [unfolded One_nat_def])

lemma write32_other_cells:
  "\<lbrakk>ram c; c \<notin> sel ` {a, a + 1, a + 2, a + 3}\<rbrakk> \<Longrightarrow> cell (write32_by wr a d m) c = cell m c"
  by (auto simp: write32_cell)

end

section \<open>The hardware contract\<close>

text \<open>
  \<open>cmos_bank io ip dp idx cell ram\<close>: the pair of ports \<open>ip\<close> and \<open>dp\<close> gives access to
  the cells \<open>cell\<close>, of which those in \<open>ram\<close> are plain memory (the rest may be clock
  registers).  \<open>idx\<close> is the index register; its bit 7, the NMI mask, can be read back.
\<close>

locale cmos_bank =
  fixes io :: "'s io_ports"
    and ip dp :: uintn
    and idx :: "'s \<Rightarrow> u8"
    and cell :: "'s \<Rightarrow> u8 \<Rightarrow> u8"
    and ram :: "u8 \<Rightarrow> bool"
  assumes ip_write: "idx (IoWrite8 io ip v d) = v"
    and ip_write_cell: "ram c \<Longrightarrow> cell (IoWrite8 io ip v d) c = cell d c"
    and ip_read: "fst (IoRead8 io ip d) AND 0x80 = idx d AND 0x80"
    and ip_read_idx: "idx (snd (IoRead8 io ip d)) = idx d"
    and ip_read_cell: "ram c \<Longrightarrow> cell (snd (IoRead8 io ip d)) c = cell d c"
    and dp_read: "ram (sel (idx d)) \<Longrightarrow> fst (IoRead8 io dp d) = cell d (sel (idx d))"
    and dp_read_idx: "idx (snd (IoRead8 io dp d)) = idx d"
    and dp_read_cell: "ram c \<Longrightarrow> cell (snd (IoRead8 io dp d)) c = cell d c"
    and dp_write_idx: "idx (IoWrite8 io dp v d) = idx d"
    and dp_write_cell:
      "ram c \<Longrightarrow> cell (IoWrite8 io dp v d) c = (if c = sel (idx d) then v else cell d c)"
begin

lemmas port_laws = ip_write ip_write_cell ip_read ip_read_idx ip_read_cell dp_read dp_read_idx
  dp_read_cell dp_write_idx dp_write_cell

end

lemma dev_machine [simp]:
  "dev (restore_interrupt f m) = dev m"
  "dev (CmosDisableInterrupt m) = dev m"
  "dev (io_write io p v m) = IoWrite8 io p v (dev m)"
  "dev (snd (io_read io p m)) = snd (IoRead8 io p (dev m))"
  "fst (io_read io p m) = fst (IoRead8 io p (dev m))"
  by (simp_all add: restore_interrupt_def CmosEableInterrupt_def CmosDisableInterrupt_def
      io_write_def io_read_def split_beta)

lemma eflags_machine [simp]:
  "eflags (io_write io p v m) = eflags m"
  "eflags (snd (io_read io p m)) = eflags m"
  "eflags (CmosDisableInterrupt m) = eflags m AND NOT INTERRUPT_FLAG"
  by (simp_all add: io_write_def io_read_def split_beta CmosDisableInterrupt_def)

text \<open>\<open>cli\<close> followed by the conditional \<open>sti\<close> leaves the flags as they were.\<close>

lemma bit_INTERRUPT_FLAG: "bit INTERRUPT_FLAG n \<longleftrightarrow> n = 9"
proof -
  have "INTERRUPT_FLAG = 2 ^ 9" by (simp add: INTERRUPT_FLAG_def)
  then have "bit INTERRUPT_FLAG n \<longleftrightarrow> bit (2 ^ 9 :: u16) n" by simp
  also have "\<dots> \<longleftrightarrow> n = 9" unfolding bit_exp_iff by (auto simp: possible_bit_word)
  finally show ?thesis .
qed

lemma interrupt_mask_zero: "f AND INTERRUPT_FLAG = 0 \<longleftrightarrow> \<not> bit f 9"
proof
  assume "f AND INTERRUPT_FLAG = 0"
  then have "\<not> bit (f AND INTERRUPT_FLAG) 9" by simp
  then show "\<not> bit f 9" unfolding bit_and_iff bit_INTERRUPT_FLAG by simp
next
  assume *: "\<not> bit f 9"
  show "f AND INTERRUPT_FLAG = 0"
  proof (rule bit_word_eqI)
    fix n
    show "bit (f AND INTERRUPT_FLAG) n = bit (0 :: u16) n"
      using * unfolding bit_and_iff bit_INTERRUPT_FLAG by auto
  qed
qed

lemma eflags_restore:
  assumes "eflags m = f AND NOT INTERRUPT_FLAG"
  shows "eflags (restore_interrupt f m) = f"
  using assms
  by (auto simp: restore_interrupt_def CmosEableInterrupt_def interrupt_mask_zero
      bit_or_iff bit_and_iff bit_not_iff bit_INTERRUPT_FLAG possible_bit_word intro!: bit_word_eqI)

locale std_bank = cmos_bank io R_CMOS_INDEX R_CMOS_DATA idx cell ram
  for io :: "'s io_ports" and idx cell ram

locale ext_bank = cmos_bank io "ucast xi" "ucast xd" idx cell ram
  for io :: "'s io_ports" and xi xd :: u8 and idx cell ram

context std_bank begin

lemma ReadCmos8_dev:
  "fst (ReadCmos8 io a m) = (let d = IoWrite8 io R_CMOS_INDEX
     (a OR (fst (IoRead8 io R_CMOS_INDEX (dev m)) AND 0x80)) (snd (IoRead8 io R_CMOS_INDEX (dev m)))
     in fst (IoRead8 io R_CMOS_DATA d))"
  "dev (snd (ReadCmos8 io a m)) = (let d = IoWrite8 io R_CMOS_INDEX
     (a OR (fst (IoRead8 io R_CMOS_INDEX (dev m)) AND 0x80)) (snd (IoRead8 io R_CMOS_INDEX (dev m)))
     in snd (IoRead8 io R_CMOS_DATA d))"
  by (simp_all add: ReadCmos8_def Let_def split_beta)

lemma WriteCmos8_dev:
  "dev (WriteCmos8 io a v m) = IoWrite8 io R_CMOS_DATA v (IoWrite8 io R_CMOS_INDEX
     (a OR (fst (IoRead8 io R_CMOS_INDEX (dev m)) AND 0x80)) (snd (IoRead8 io R_CMOS_INDEX (dev m))))"
  by (simp add: WriteCmos8_def Let_def split_beta)

lemma ReadCmos8_eflags: "eflags (snd (ReadCmos8 io a m)) = eflags m"
  by (simp add: ReadCmos8_def Let_def split_beta CmosGetCpuFlags_def eflags_restore)

lemma WriteCmos8_eflags: "eflags (WriteCmos8 io a v m) = eflags m"
  by (simp add: WriteCmos8_def Let_def split_beta CmosGetCpuFlags_def eflags_restore)

lemma nmi_mask_kept:
  "idx (dev (snd (ReadCmos8 io a m))) = a OR (idx (dev m) AND 0x80)"
  "idx (dev (WriteCmos8 io a v m)) = a OR (idx (dev m) AND 0x80)"
  by (simp_all add: ReadCmos8_dev WriteCmos8_dev Let_def port_laws)

end

sublocale std_bank \<subseteq> std: byte_cells "ReadCmos8 io" "WriteCmos8 io" "\<lambda>m. cell (dev m)" ram eflags
  by unfold_locales
    (auto simp: ReadCmos8_dev WriteCmos8_dev Let_def port_laws sel_nmi ReadCmos8_eflags WriteCmos8_eflags)

context ext_bank begin

lemma ReadExtCmos8_dev:
  "fst (ReadExtCmos8 io xi xd a m) = fst (IoRead8 io (ucast xd) (IoWrite8 io (ucast xi) a (dev m)))"
  "dev (snd (ReadExtCmos8 io xi xd a m)) =
     snd (IoRead8 io (ucast xd) (IoWrite8 io (ucast xi) a (dev m)))"
  by (simp_all add: ReadExtCmos8_def Let_def split_beta)

lemma WriteExtCmos8_dev:
  "dev (WriteExtCmos8 io xi xd a v m) =
     IoWrite8 io (ucast xd) v (IoWrite8 io (ucast xi) a (dev m))"
  by (simp add: WriteExtCmos8_def Let_def)

lemma ReadExtCmos8_eflags: "eflags (snd (ReadExtCmos8 io xi xd a m)) = eflags m"
  by (simp add: ReadExtCmos8_def Let_def split_beta CmosGetCpuFlags_def eflags_restore)

lemma WriteExtCmos8_eflags: "eflags (WriteExtCmos8 io xi xd a v m) = eflags m"
  by (simp add: WriteExtCmos8_def Let_def CmosGetCpuFlags_def eflags_restore)

end

sublocale ext_bank \<subseteq> ext: byte_cells "ReadExtCmos8 io xi xd" "WriteExtCmos8 io xi xd"
    "\<lambda>m. cell (dev m)" ram eflags
  by unfold_locales
    (auto simp: ReadExtCmos8_dev WriteExtCmos8_dev port_laws ReadExtCmos8_eflags WriteExtCmos8_eflags)

section \<open>A device with two banks\<close>

record rtc =
  rtc_index :: u8
  rtc_cells :: "u8 \<Rightarrow> u8"
  ext_index :: u8
  ext_cells :: "u8 \<Rightarrow> u8"

definition rtc_io :: "rtc io_ports" where
  "rtc_io = \<lparr>
     IoRead8 = (\<lambda>p d.
       if p = 0x70 then (rtc_index d, d)
       else if p = 0x71 then (rtc_cells d (sel (rtc_index d)), d)
       else if p = 0x72 then (ext_index d, d)
       else if p = 0x73 then (ext_cells d (sel (ext_index d)), d)
       else (0xFF, d)),
     IoWrite8 = (\<lambda>p v d.
       if p = 0x70 then d\<lparr>rtc_index := v\<rparr>
       else if p = 0x71 then d\<lparr>rtc_cells := (rtc_cells d)(sel (rtc_index d) := v)\<rparr>
       else if p = 0x72 then d\<lparr>ext_index := v\<rparr>
       else if p = 0x73 then d\<lparr>ext_cells := (ext_cells d)(sel (ext_index d) := v)\<rparr>
       else d)\<rparr>"

interpretation rtc_std: std_bank rtc_io rtc_index rtc_cells "\<lambda>_. True"
  by unfold_locales (auto simp: rtc_io_def R_CMOS_INDEX_def R_CMOS_DATA_def)

interpretation rtc_ext: ext_bank rtc_io "0x72" "0x73" ext_index ext_cells "\<lambda>_. True"
  by unfold_locales (auto simp: rtc_io_def)

section \<open>The checksum\<close>

definition cell_sum :: "(u8 \<Rightarrow> u8) \<Rightarrow> nat list \<Rightarrow> nat" where
  "cell_sum c as = (\<Sum>a\<leftarrow>as. unat (c (of_nat a)))"

context std_bank begin

lemma SumaryCmos_loop_spec:
  assumes "\<And>a. a \<in> set [unat Address..<46] \<Longrightarrow> ram (of_nat a)" "unat Address \<le> 46"
  shows "unat (fst (SumaryCmos_loop io Address s m)) =
           (unat s + cell_sum (cell (dev m)) [unat Address..<46]) mod 65536"
    (is "?sum Address s m")
    and "ram c \<Longrightarrow> cell (dev (snd (SumaryCmos_loop io Address s m))) c = cell (dev m) c"
    and "eflags (snd (SumaryCmos_loop io Address s m)) = eflags m"
proof -
  have "?sum Address s m
       \<and> (\<forall>c. ram c \<longrightarrow> cell (dev (snd (SumaryCmos_loop io Address s m))) c = cell (dev m) c)
       \<and> eflags (snd (SumaryCmos_loop io Address s m)) = eflags m"
    using assms
  proof (induction "46 - unat Address" arbitrary: Address s m)
    case 0
    then have "unat Address = 46" by simp
    then have "\<not> Address < 0x2e" by (simp add: word_less_nat_alt)
    then show ?case
      using \<open>unat Address = 46\<close>
      by (subst SumaryCmos_loop.simps, simp add: cell_sum_def unat_mod_65536)+
  next
    case (Suc n)
    let ?m = "snd (ReadCmos8 io Address m)" and ?v = "fst (ReadCmos8 io Address m)"
    have lt: "unat Address < 46" using Suc.hyps by simp
    then have nxt: "unat (Address + 1) = Suc (unat Address)"
      by (simp add: unat_word_ariths)
    have "sel Address = Address" using lt by (simp add: sel_small)
    moreover have "ram Address" using Suc.prems(1) [of "unat Address"] lt by simp
    ultimately have v: "?v = cell (dev m) Address" using std.rd_value [of Address m] by simp
    have loop: "SumaryCmos_loop io Address s m = SumaryCmos_loop io (Address + 1) (s + ucast ?v) ?m"
      using lt by (subst SumaryCmos_loop.simps) (simp add: word_less_nat_alt Let_def split_beta)
    have ih: "?sum (Address + 1) (s + ucast ?v) ?m
       \<and> (\<forall>c. ram c \<longrightarrow> cell (dev (snd (SumaryCmos_loop io (Address + 1) (s + ucast ?v) ?m))) c = cell (dev ?m) c)
       \<and> eflags (snd (SumaryCmos_loop io (Address + 1) (s + ucast ?v) ?m)) = eflags ?m"
      using Suc.hyps lt Suc.prems(1) by (intro Suc.hyps(1)) (auto simp: nxt)
    have same: "cell_sum (cell (dev ?m)) [Suc (unat Address)..<46] =
        cell_sum (cell (dev m)) [Suc (unat Address)..<46]"
      unfolding cell_sum_def using Suc.prems(1)
      by (intro arg_cong [where f = sum_list] map_cong) (auto simp: std.rd_frame)
    have "unat (s + ucast ?v) = (unat s + unat (cell (dev m) Address)) mod 65536"
      using unat_u8 [of "cell (dev m) Address"]
      by (simp add: v unat_word_ariths unsigned_ucast_eq take_bit_eq_mod)
    moreover have "[unat Address..<46] = unat Address # [Suc (unat Address)..<46]"
      using lt by (simp add: upt_conv_Cons)
    ultimately have "?sum Address s m"
      using ih unfolding loop nxt same
      by (simp add: cell_sum_def mod_add_left_eq add.assoc)
    then show ?case
      using ih unfolding loop by (simp add: std.rd_frame std.rd_flags)
  qed
  then show "?sum Address s m"
    and "ram c \<Longrightarrow> cell (dev (snd (SumaryCmos_loop io Address s m))) c = cell (dev m) c"
    and "eflags (snd (SumaryCmos_loop io Address s m)) = eflags m"
    by blast+
qed

lemma ValidateCmosChecksum_spec:
  assumes "\<And>a. a \<in> {0x10..0x2F} \<Longrightarrow> ram (of_nat a)"
  shows "fst (ValidateCmosChecksum io m) =
      (if 256 * unat (cell (dev m) 0x2E) + unat (cell (dev m) 0x2F)
          = cell_sum (cell (dev m)) [0x10..<0x2E]
       then EFI_SUCCESS else EFI_VOLUME_CORRUPTED)"
proof -
  let ?r = "SumaryCmos io m" and ?c = "cell (dev m)"
  have ram: "ram (sel (CmosCheckSum2E + 1))" "ram (sel CmosCheckSum2E)" "sel CmosCheckSum2E = 0x2E"
      "sel (CmosCheckSum2E + 1) = 0x2F"
    using assms [of "0x2F"] assms [of "0x2E"] by (simp_all add: CmosCheckSum2E_def)
  have u: "unat (0x10 :: u8) = 0x10" by simp
  have r: "ram (of_nat a)" if "a \<in> set [unat (0x10 :: u8)..<46]" for a
    using that assms [of a] unfolding u set_upt atLeastLessThan_iff atLeastAtMost_iff by linarith
  have le: "unat (0x10 :: u8) \<le> 46" by simp
  note spec = SumaryCmos_loop_spec [where Address = "0x10" and s = 0 and m = m, OF r le]
  have loop: "unat (fst ?r) = cell_sum ?c [0x10..<0x2E] mod 65536"
    using spec(1) unfolding u SumaryCmos_def by (simp only: unsigned_0 add_0)
  have frame: "ram c \<Longrightarrow> cell (dev (snd ?r)) c = ?c c" for c
    using spec(2) unfolding SumaryCmos_def by (simp only:)
  have "cell_sum ?c [0x10..<0x2E] \<le> (\<Sum>a\<leftarrow>[0x10..<0x2E::nat]. 255)"
    unfolding cell_sum_def using unat_u8 by (intro sum_list_mono) (simp add: less_Suc_eq_le [symmetric])
  then have small: "cell_sum ?c [0x10..<0x2E] < 65536" by (simp add: sum_list_triv)
  have "fst (ReadCmos16 io CmosCheckSum2E (snd ?r)) = join16 (?c 0x2F) (?c 0x2E)"
    using std.read16_value [of CmosCheckSum2E "snd ?r"] ram frame
    by (simp add: ReadCmos16_by)
  then have "fst (ValidateCmosChecksum io m) =
     (if join16 (?c 0x2E) (?c 0x2F) = fst ?r then EFI_SUCCESS else EFI_VOLUME_CORRUPTED)"
    by (simp add: ValidateCmosChecksum_def Let_def split_beta swap16 del: push_bit_and)
  moreover have "cell_sum ?c [0x10..<0x2E] mod 65536 = cell_sum ?c [0x10..<0x2E]"
    using small by (rule mod_less)
  then have "join16 (?c 0x2E) (?c 0x2F) = fst ?r \<longleftrightarrow>
      256 * unat (?c 0x2E) + unat (?c 0x2F) = cell_sum ?c [0x10..<0x2E]"
    unfolding word_unat_eq_iff unat_join16 loop by (simp only:)
  ultimately show ?thesis by (simp only:)
qed

end

section \<open>What the clients see\<close>

context std_bank begin

lemma WriteCmos32_ReadCmos32:
  assumes "ram (sel a)" "ram (sel (a + 1))" "ram (sel (a + 2))" "ram (sel (a + 3))"
  shows "fst (ReadCmos32 io a (WriteCmos32 io a d m)) = d"
    and "eflags (snd (ReadCmos32 io a (WriteCmos32 io a d m))) = eflags m"
    and "\<lbrakk>ram c; c \<notin> sel ` {a, a + 1, a + 2, a + 3}\<rbrakk> \<Longrightarrow>
      cell (dev (snd (ReadCmos32 io a (WriteCmos32 io a d m)))) c = cell (dev m) c"
  using assms
  by (simp_all add: ReadCmos32_by WriteCmos32_by std.read32_write32 std.read32_frame
      std.write32_flags std.write32_other_cells)

end

context ext_bank begin

lemma WriteExtCmos32_ReadExtCmos32:
  assumes "ram (sel a)" "ram (sel (a + 1))" "ram (sel (a + 2))" "ram (sel (a + 3))"
  shows "fst (ReadExtCmos32 io xi xd a (WriteExtCmos32 io xi xd a d m)) = d"
    and "eflags (snd (ReadExtCmos32 io xi xd a (WriteExtCmos32 io xi xd a d m))) = eflags m"
  using assms
  by (simp_all add: ReadExtCmos32_by WriteExtCmos32_by ext.read32_write32 ext.read32_frame
      ext.write32_flags)

lemma WriteExtCmos16_ReadExtCmos16:
  assumes "ram (sel a)" "ram (sel (a + 1))"
  shows "fst (ReadExtCmos16 io xi xd a (WriteExtCmos16 io xi xd a d m)) = d"
    and "eflags (snd (ReadExtCmos16 io xi xd a (WriteExtCmos16 io xi xd a d m))) = eflags m"
  using assms
  by (simp_all add: ReadExtCmos16_by WriteExtCmos16_by ext.read16_write16 ext.read16_frame
      ext.write16_flags)

end

section \<open>Properties\<close>

text \<open>C34. A 32-bit value written to the standard CMOS bank reads back unchanged, for every
  address (the last cells of the bank wrap to its start) whose four cells are RAM;
  no other RAM cell changes, and the interrupt flag is what it was before the pair of calls.\<close>

theorem Cmos32_roundtrip:
  assumes "std_bank io idx cell ram"
    and "ram (sel a)" "ram (sel (a + 1))" "ram (sel (a + 2))" "ram (sel (a + 3))"
  shows "fst (ReadCmos32 io a (WriteCmos32 io a d m)) = d
    \<and> eflags (snd (ReadCmos32 io a (WriteCmos32 io a d m))) = eflags m
    \<and> (\<forall>c. ram c \<and> c \<notin> sel ` {a, a + 1, a + 2, a + 3} \<longrightarrow>
         cell (dev (snd (ReadCmos32 io a (WriteCmos32 io a d m)))) c = cell (dev m) c)"
  using std_bank.WriteCmos32_ReadCmos32 [OF assms] by blast

lemma Cmos32_roundtrip_witness:
  "fst (ReadCmos32 rtc_io 0x7E (WriteCmos32 rtc_io 0x7E 0xDEADBEEF
     \<lparr>eflags = 0x202, dev = \<lparr>rtc_index = 0x80, rtc_cells = (\<lambda>_. 0), ext_index = 0, ext_cells = (\<lambda>_. 0)\<rparr>\<rparr>))
   = 0xDEADBEEF"
  using Cmos32_roundtrip [OF rtc_std.std_bank_axioms] by simp

text \<open>The standard area is accepted exactly when the sum of its cells 0x10 to 0x2D, as a
  number, is the one stored in cells 0x2E (high byte) and 0x2F (low byte); otherwise
  the result is \<open>EFI_VOLUME_CORRUPTED\<close>.\<close>

theorem ValidateCmosChecksum_correct:
  assumes "std_bank io idx cell ram"
    and "\<And>a. a \<in> {0x10..0x2F} \<Longrightarrow> ram (of_nat a)"
  shows "fst (ValidateCmosChecksum io m) =
      (if 256 * unat (cell (dev m) 0x2E) + unat (cell (dev m) 0x2F)
          = (\<Sum>a\<leftarrow>[0x10..<0x2E]. unat (cell (dev m) (of_nat a)))
       then EFI_SUCCESS else EFI_VOLUME_CORRUPTED)"
  using std_bank.ValidateCmosChecksum_spec [OF assms(1), OF assms(2)] unfolding cell_sum_def .

lemma ValidateCmosChecksum_correct_witness:
  "fst (ValidateCmosChecksum rtc_io
     \<lparr>eflags = 2, dev = \<lparr>rtc_index = 0, rtc_cells = (\<lambda>c. if c = 0x2F then 0x1E else if c = 0x2E then 0 else 1),
       ext_index = 0, ext_cells = (\<lambda>_. 0)\<rparr>\<rparr>) = EFI_SUCCESS"
  by (subst ValidateCmosChecksum_correct [OF rtc_std.std_bank_axioms]) simp_all

text \<open>On a bank behind any pair of ports, 32- and 16-bit values written are read back, and
  the interrupt flag is restored.\<close>

theorem ExtCmos_roundtrip:
  assumes "ext_bank io xi xd idx cell ram"
    and "ram (sel a)" "ram (sel (a + 1))" "ram (sel (a + 2))" "ram (sel (a + 3))"
  shows "fst (ReadExtCmos32 io xi xd a (WriteExtCmos32 io xi xd a d m)) = d
    \<and> eflags (snd (ReadExtCmos32 io xi xd a (WriteExtCmos32 io xi xd a d m))) = eflags m
    \<and> fst (ReadExtCmos16 io xi xd a (WriteExtCmos16 io xi xd a w m)) = w
    \<and> eflags (snd (ReadExtCmos16 io xi xd a (WriteExtCmos16 io xi xd a w m))) = eflags m"
  using ext_bank.WriteExtCmos32_ReadExtCmos32 [OF assms]
    ext_bank.WriteExtCmos16_ReadExtCmos16 [OF assms(1-3)] by blast

lemma ExtCmos_roundtrip_witness:
  "fst (ReadExtCmos32 rtc_io 0x72 0x73 0x10 (WriteExtCmos32 rtc_io 0x72 0x73 0x10 0xDEADBEEF
     \<lparr>eflags = 0x202, dev = \<lparr>rtc_index = 0x80, rtc_cells = (\<lambda>_. 0), ext_index = 0, ext_cells = (\<lambda>_. 0)\<rparr>\<rparr>))
   = 0xDEADBEEF"
  using ExtCmos_roundtrip [OF rtc_ext.ext_bank_axioms] by simp

end
