(* ===== verification/Depex.thy ===== *)
theory Depex
  imports Prelude
begin

text \<open>
  The dependency-expression evaluator of the DXE dispatcher,
  \<open>MdeModulePkg/Core/Dxe/Dispatcher/Dependency.c\<close>: the growable evaluation stack
  (\<open>GrowDepexStack\<close>, \<open>PushBool\<close>, \<open>PopBool\<close>), the classification of a freshly read
  expression (\<open>CorePreProcessDepex\<close>) and the evaluator \<open>CoreIsSchedulable\<close>, which
  patches the expression in place (\<open>EFI_DEP_REPLACE_TRUE\<close>) when a protocol is found.

  The pool allocator is the parameter \<open>alloc\<close> (the contents of a fresh buffer, or
  \<open>None\<close> when there is no memory), the protocol database the parameter \<open>located\<close>
  (\<open>CoreLocateProtocol\<close> succeeds), the table \<open>mArchProtocols\<close> the parameter \<open>arch\<close>.
  Reading outside the expression gives \<open>None\<close>.
\<close>

section \<open>Opcodes and the driver entry\<close>

abbreviation EFI_DEP_BEFORE :: u8 where "EFI_DEP_BEFORE \<equiv> 0x00"
abbreviation EFI_DEP_AFTER :: u8 where "EFI_DEP_AFTER \<equiv> 0x01"
abbreviation EFI_DEP_PUSH :: u8 where "EFI_DEP_PUSH \<equiv> 0x02"
abbreviation EFI_DEP_AND :: u8 where "EFI_DEP_AND \<equiv> 0x03"
abbreviation EFI_DEP_OR :: u8 where "EFI_DEP_OR \<equiv> 0x04"
abbreviation EFI_DEP_NOT :: u8 where "EFI_DEP_NOT \<equiv> 0x05"
abbreviation EFI_DEP_TRUE :: u8 where "EFI_DEP_TRUE \<equiv> 0x06"
abbreviation EFI_DEP_FALSE :: u8 where "EFI_DEP_FALSE \<equiv> 0x07"
abbreviation EFI_DEP_END :: u8 where "EFI_DEP_END \<equiv> 0x08"
abbreviation EFI_DEP_SOR :: u8 where "EFI_DEP_SOR \<equiv> 0x09"
abbreviation EFI_DEP_REPLACE_TRUE :: u8 where "EFI_DEP_REPLACE_TRUE \<equiv> 0xff"

text \<open>\<open>EFI_CORE_DRIVER_ENTRY\<close>; a handle or pointer is a \<open>nat\<close>, \<open>0\<close> for \<open>NULL\<close>.  The
  buffer \<open>Depex\<close> points to is the list, \<open>None\<close> for \<open>NULL\<close>.\<close>

record driver_entry =
  FvHandle :: nat
  FileName :: guid
  Fv :: nat
  Depex :: "u8 list option"
  DepexSize :: nat
  Before :: bool
  After :: bool
  BeforeAfterGuid :: guid
  Dependent :: bool
  Unrequested :: bool
  Scheduled :: bool
  Untrusted :: bool
  Initialized :: bool
  DepexProtocolError :: bool
  ImageHandle :: nat
  IsFvImage :: bool

section \<open>The evaluation stack\<close>

record depex_stack =
  mDepexEvaluationStack :: "bool list option"
  mDepexEvaluationStackPointer :: nat

definition DEPEX_STACK_SIZE_INCREMENT :: nat where "DEPEX_STACK_SIZE_INCREMENT = 0x1000"

definition stack_mem :: "depex_stack \<Rightarrow> bool list" where
  "stack_mem s = (case mDepexEvaluationStack s of None \<Rightarrow> [] | Some m \<Rightarrow> m)"

definition mDepexEvaluationStackEnd :: "depex_stack \<Rightarrow> nat" where
  "mDepexEvaluationStackEnd s = length (stack_mem s)"

definition GrowDepexStack ::
  "(nat \<Rightarrow> (nat \<Rightarrow> bool) option) \<Rightarrow> depex_stack \<Rightarrow> efi_status \<times> depex_stack" where
  "GrowDepexStack alloc s =
     (let Size = DEPEX_STACK_SIZE_INCREMENT + mDepexEvaluationStackEnd s
      in case alloc Size of
           None \<Rightarrow> (EFI_OUT_OF_RESOURCES, s)
         | Some fresh \<Rightarrow>
             let NewStack = map fresh [0..<Size];
                 NewStack = stack_mem s @ drop (mDepexEvaluationStackEnd s) NewStack
             in (EFI_SUCCESS, s\<lparr>mDepexEvaluationStack := Some NewStack\<rparr>))"

definition PushBool ::
  "(nat \<Rightarrow> (nat \<Rightarrow> bool) option) \<Rightarrow> bool \<Rightarrow> depex_stack \<Rightarrow> (efi_status \<times> depex_stack) option" where
  "PushBool alloc Value s =
     (let (Status, s) = (if mDepexEvaluationStackPointer s = mDepexEvaluationStackEnd s
                         then GrowDepexStack alloc s else (EFI_SUCCESS, s))
      in if EFI_ERROR Status then Some (Status, s)
         else do {
           ASSERT (mDepexEvaluationStackPointer s < mDepexEvaluationStackEnd s);
           Some (EFI_SUCCESS, s\<lparr>
             mDepexEvaluationStack := Some ((stack_mem s)[mDepexEvaluationStackPointer s := Value]),
             mDepexEvaluationStackPointer := mDepexEvaluationStackPointer s + 1\<rparr>)
         })"

text \<open>The result is the status and, when it is \<open>EFI_SUCCESS\<close>, the value popped.\<close>

definition PopBool :: "depex_stack \<Rightarrow> (bool option \<times> depex_stack) option" where
  "PopBool s =
     (if mDepexEvaluationStackPointer s = 0 then Some (None, s)
      else do {
        ASSERT (mDepexEvaluationStackPointer s - 1 < mDepexEvaluationStackEnd s);
        Some (Some (stack_mem s ! (mDepexEvaluationStackPointer s - 1)),
          s\<lparr>mDepexEvaluationStackPointer := mDepexEvaluationStackPointer s - 1\<rparr>)
      })"

section \<open>Preprocessing\<close>

definition copy_guid :: "u8 list \<Rightarrow> nat \<Rightarrow> guid option" where
  "copy_guid mem off = (if off + 16 \<le> length mem then Some (take 16 (drop off mem)) else None)"

definition load8 :: "u8 list \<Rightarrow> nat \<Rightarrow> u8 option" where
  "load8 mem off = (if off < length mem then Some (mem ! off) else None)"

definition CorePreProcessDepex :: "driver_entry \<Rightarrow> (efi_status \<times> driver_entry) option" where
  "CorePreProcessDepex d = do {
     mem \<leftarrow> Depex d;
     op \<leftarrow> load8 mem 0;
     let d = (if op = EFI_DEP_SOR then d\<lparr>Unrequested := True\<rparr> else d\<lparr>Dependent := True\<rparr>);
     let d = (if op = EFI_DEP_BEFORE then d\<lparr>Before := True\<rparr>
              else if op = EFI_DEP_AFTER then d\<lparr>After := True\<rparr> else d);
     if Before d \<or> After d then do {
       g \<leftarrow> copy_guid mem 1;
       Some (EFI_SUCCESS, d\<lparr>BeforeAfterGuid := g\<rparr>)
     } else Some (EFI_SUCCESS, d)
   }"

section \<open>The evaluator\<close>

text \<open>\<open>CoreAllEfiServicesAvailable\<close> (\<open>DxeProtocolNotify.c\<close>): one flag \<open>Present\<close> for each
  entry of \<open>mArchProtocols\<close>.\<close>

fun CoreAllEfiServicesAvailable :: "(guid \<times> bool) list \<Rightarrow> efi_status" where
  "CoreAllEfiServicesAvailable [] = EFI_SUCCESS"
| "CoreAllEfiServicesAvailable ((_, Present) # Entry) =
     (if \<not> Present then EFI_NOT_FOUND else CoreAllEfiServicesAvailable Entry)"

text \<open>One turn of the \<open>while (TRUE)\<close> loop at offset \<open>off\<close>: it leaves the function with a
  result, or goes on at a later offset.\<close>

datatype turn = Return bool "u8 list" depex_stack | Continue nat "u8 list" depex_stack

definition push_turn ::
  "(nat \<Rightarrow> (nat \<Rightarrow> bool) option) \<Rightarrow> bool \<Rightarrow> nat \<Rightarrow> u8 list \<Rightarrow> depex_stack \<Rightarrow> turn option" where
  "push_turn alloc Value off mem s = do {
     (Status, s) \<leftarrow> PushBool alloc Value s;
     if EFI_ERROR Status then Some (Return False mem s) else Some (Continue (off + 1) mem s)
   }"

definition binary_turn ::
  "(nat \<Rightarrow> (nat \<Rightarrow> bool) option) \<Rightarrow> (bool \<Rightarrow> bool \<Rightarrow> bool) \<Rightarrow> nat \<Rightarrow> u8 list \<Rightarrow> depex_stack \<Rightarrow> turn option" where
  "binary_turn alloc f off mem s = do {
     (r, s) \<leftarrow> PopBool s;
     case r of None \<Rightarrow> Some (Return False mem s)
     | Some Operator \<Rightarrow> do {
         (r, s) \<leftarrow> PopBool s;
         case r of None \<Rightarrow> Some (Return False mem s)
         | Some Operator2 \<Rightarrow> push_turn alloc (f Operator Operator2) off mem s
       }
   }"

definition depex_turn ::
  "(nat \<Rightarrow> (nat \<Rightarrow> bool) option) \<Rightarrow> (guid \<Rightarrow> bool) \<Rightarrow> nat \<Rightarrow> u8 list \<Rightarrow> depex_stack \<Rightarrow> turn option" where
  "depex_turn alloc located off mem s = do {
     op \<leftarrow> load8 mem off;
     if op = EFI_DEP_BEFORE \<or> op = EFI_DEP_AFTER then None
     else if op = EFI_DEP_SOR then
       (if off \<noteq> 0 then Some (Return False mem s) else Some (Continue (off + 1) mem s))
     else if op = EFI_DEP_PUSH then do {
       DriverGuid \<leftarrow> copy_guid mem (off + 1);
       if \<not> located DriverGuid then push_turn alloc False (off + 16) mem s
       else push_turn alloc True (off + 16) (mem[off := EFI_DEP_REPLACE_TRUE]) s
     }
     else if op = EFI_DEP_AND then binary_turn alloc (\<and>) off mem s
     else if op = EFI_DEP_OR then binary_turn alloc (\<or>) off mem s
     else if op = EFI_DEP_NOT then do {
       (r, s) \<leftarrow> PopBool s;
       case r of None \<Rightarrow> Some (Return False mem s)
       | Some Operator \<Rightarrow> push_turn alloc (\<not> Operator) off mem s
     }
     else if op = EFI_DEP_TRUE then push_turn alloc True off mem s
     else if op = EFI_DEP_FALSE then push_turn alloc False off mem s
     else if op = EFI_DEP_END then do {
       (r, s) \<leftarrow> PopBool s;
       case r of None \<Rightarrow> Some (Return False mem s) | Some Operator \<Rightarrow> Some (Return Operator mem s)
     }
     else if op = EFI_DEP_REPLACE_TRUE then do {
       DriverGuid \<leftarrow> copy_guid mem (off + 1);
       push_turn alloc True (off + 16) mem s
     }
     else Some (Return False mem s)
   }"

lemma push_turn_later: "push_turn alloc v off mem s = Some (Continue off' mem' s') \<Longrightarrow> off < off'"
  by (auto simp: push_turn_def split: if_splits prod.splits)

lemma binary_turn_later: "binary_turn alloc f off mem s = Some (Continue off' mem' s') \<Longrightarrow> off < off'"
  by (auto simp: binary_turn_def dest: push_turn_later split: option.splits prod.splits)

lemma depex_turn_later: "depex_turn alloc located off mem s = Some (Continue off' mem' s') \<Longrightarrow> off < off'"
  by (auto simp: depex_turn_def dest: push_turn_later binary_turn_later
      split: if_splits option.splits prod.splits)

function depex_loop ::
  "(nat \<Rightarrow> (nat \<Rightarrow> bool) option) \<Rightarrow> (guid \<Rightarrow> bool) \<Rightarrow> nat \<Rightarrow> nat \<Rightarrow> u8 list \<Rightarrow> depex_stack
    \<Rightarrow> (bool \<times> u8 list \<times> depex_stack) option" where
  "depex_loop alloc located sz Iterator mem s =
     (if Iterator \<ge> sz then Some (False, mem, s)
      else case depex_turn alloc located Iterator mem s of
        None \<Rightarrow> None
      | Some (Return r mem s) \<Rightarrow> Some (r, mem, s)
      | Some (Continue Iterator mem s) \<Rightarrow> depex_loop alloc located sz Iterator mem s)"
  by pat_completeness auto
termination
  by (relation "measure (\<lambda>(alloc, located, sz, Iterator, mem, s). sz - Iterator)")
    (auto dest!: depex_turn_later)

declare depex_loop.simps [simp del]

definition CoreIsSchedulable ::
  "(nat \<Rightarrow> (nat \<Rightarrow> bool) option) \<Rightarrow> (guid \<Rightarrow> bool) \<Rightarrow> (guid \<times> bool) list \<Rightarrow> driver_entry \<Rightarrow> depex_stack
    \<Rightarrow> (bool \<times> driver_entry \<times> depex_stack) option" where
  "CoreIsSchedulable alloc located arch d s =
     (if After d \<or> Before d then Some (False, d, s)
      else case Depex d of
        None \<Rightarrow> Some (\<not> EFI_ERROR (CoreAllEfiServicesAvailable arch), d, s)
      | Some mem \<Rightarrow> do {
          (r, mem, s) \<leftarrow> depex_loop alloc located (DepexSize d) 0 mem
                           (s\<lparr>mDepexEvaluationStackPointer := 0\<rparr>);
          Some (r, d\<lparr>Depex := Some mem\<rparr>, s)
        })"

section \<open>The stack as an abstract stack\<close>

text \<open>The contract of a stack of booleans whose memory may run out (never, when \<open>avail\<close>).\<close>

locale bool_stack =
  fixes push :: "bool \<Rightarrow> 's \<Rightarrow> (efi_status \<times> 's) option"
    and pop :: "'s \<Rightarrow> (bool option \<times> 's) option"
    and ok :: "'s \<Rightarrow> bool"
    and elems :: "'s \<Rightarrow> bool list"
    and avail :: bool
  assumes push: "ok s \<Longrightarrow> (\<exists>s'. push v s = Some (EFI_SUCCESS, s') \<and> ok s' \<and> elems s' = v # elems s)
      \<or> (\<not> avail \<and> (\<exists>st. push v s = Some (st, s) \<and> EFI_ERROR st))"
    and pop_empty: "\<lbrakk>ok s; elems s = []\<rbrakk> \<Longrightarrow> pop s = Some (None, s)"
    and pop_cons: "\<lbrakk>ok s; elems s = v # st\<rbrakk> \<Longrightarrow> \<exists>s'. pop s = Some (Some v, s') \<and> ok s' \<and> elems s' = st"
begin

lemma push_cases:
  assumes "ok s"
  obtains s' where "push v s = Some (EFI_SUCCESS, s')" "ok s'" "elems s' = v # elems s"
  | st where "\<not> avail" "push v s = Some (st, s)" "EFI_ERROR st"
  using push [OF assms, of v] by blast

lemma pop_cases:
  assumes "ok s"
  obtains "elems s = []" "pop s = Some (None, s)"
  | v s' where "elems s = v # elems s'" "pop s = Some (Some v, s')" "ok s'"
  using pop_empty [OF assms] pop_cons [OF assms] by (cases "elems s") auto

end

definition stack_ok :: "depex_stack \<Rightarrow> bool" where
  "stack_ok s \<longleftrightarrow> mDepexEvaluationStackPointer s \<le> mDepexEvaluationStackEnd s"

definition stack_abs :: "depex_stack \<Rightarrow> bool list" where
  "stack_abs s = rev (take (mDepexEvaluationStackPointer s) (stack_mem s))"

lemma stack_mem_simps [simp]:
  "stack_mem (s\<lparr>mDepexEvaluationStackPointer := n\<rparr>) = stack_mem s"
  "stack_mem (s\<lparr>mDepexEvaluationStack := Some m\<rparr>) = m"
  by (simp_all add: stack_mem_def)

lemma stack_abs_ptr:
  "stack_abs (s\<lparr>mDepexEvaluationStackPointer := n\<rparr>) = rev (take n (stack_mem s))"
  by (simp add: stack_abs_def)

lemma stack_abs_nil: "mDepexEvaluationStackPointer s = 0 \<Longrightarrow> stack_abs s = []"
  by (simp add: stack_abs_def)

lemma GrowDepexStack_cases:
  assumes "stack_ok s"
  obtains m where "GrowDepexStack alloc s = (EFI_SUCCESS, s\<lparr>mDepexEvaluationStack := Some (stack_mem s @ m)\<rparr>)"
     "length m = DEPEX_STACK_SIZE_INCREMENT"
  | n where "alloc n = None" "GrowDepexStack alloc s = (EFI_OUT_OF_RESOURCES, s)"
proof (cases "alloc (DEPEX_STACK_SIZE_INCREMENT + mDepexEvaluationStackEnd s)")
  case None
  then show ?thesis by (intro that(2)) (auto simp: GrowDepexStack_def)
next
  case (Some f)
  then show ?thesis by (intro that(1)) (auto simp: GrowDepexStack_def)
qed

lemma PushBool_abs:
  assumes "stack_ok s"
  shows "(\<exists>s'. PushBool alloc v s = Some (EFI_SUCCESS, s') \<and> stack_ok s' \<and> stack_abs s' = v # stack_abs s)
      \<or> (\<not> (\<forall>n. alloc n \<noteq> None) \<and> (\<exists>st. PushBool alloc v s = Some (st, s) \<and> EFI_ERROR st))"
proof (cases "mDepexEvaluationStackPointer s = mDepexEvaluationStackEnd s")
  case False
  then show ?thesis
    using assms
    by (auto simp: PushBool_def stack_ok_def stack_abs_def mDepexEvaluationStackEnd_def stack_mem_def
        take_Suc_conv_app_nth)
next
  case True
  show ?thesis
  proof (cases rule: GrowDepexStack_cases [OF assms, of alloc])
    case (1 m)
    then show ?thesis
      using True
      by (auto simp: PushBool_def stack_ok_def stack_abs_def mDepexEvaluationStackEnd_def stack_mem_def
        take_Suc_conv_app_nth DEPEX_STACK_SIZE_INCREMENT_def split: option.splits)
  next
    case (2 n)
    then show ?thesis using True by (auto simp: PushBool_def)
  qed
qed

lemma stack_abs_Cons:
  assumes "stack_ok s" "mDepexEvaluationStackPointer s = Suc n"
  shows "stack_abs s = stack_mem s ! n # rev (take n (stack_mem s))"
  using assms by (simp add: stack_abs_def stack_ok_def mDepexEvaluationStackEnd_def take_Suc_conv_app_nth)

interpretation depex_stack: bool_stack "PushBool alloc" PopBool stack_ok stack_abs "\<forall>n. alloc n \<noteq> None"
  for alloc
proof
  fix s v st
  show "stack_ok s \<Longrightarrow>
       (\<exists>s'. PushBool alloc v s = Some (EFI_SUCCESS, s') \<and> stack_ok s' \<and> stack_abs s' = v # stack_abs s)
     \<or> (\<not> (\<forall>n. alloc n \<noteq> None) \<and> (\<exists>st. PushBool alloc v s = Some (st, s) \<and> EFI_ERROR st))"
    by (rule PushBool_abs)
  show "PopBool s = Some (None, s)" if "stack_ok s" "stack_abs s = []"
    using that stack_abs_Cons [OF that(1)]
    by (cases "mDepexEvaluationStackPointer s") (auto simp: PopBool_def)
  show "\<exists>s'. PopBool s = Some (Some v, s') \<and> stack_ok s' \<and> stack_abs s' = st"
    if "stack_ok s" "stack_abs s = v # st"
    using that stack_abs_Cons [OF that(1)]
    by (cases "mDepexEvaluationStackPointer s")
      (auto simp: PopBool_def stack_ok_def stack_abs_nil stack_abs_ptr mDepexEvaluationStackEnd_def)
qed

section \<open>Expressions and what they mean\<close>

text \<open>A program of the evaluator as a list of operations, and its bytes.\<close>

datatype depex_op = Sor | Push guid | Latched guid | AndOp | OrOp | NotOp | TrueOp | FalseOp | EndOp

fun encode_op :: "depex_op \<Rightarrow> u8 list" where
  "encode_op Sor = [EFI_DEP_SOR]"
| "encode_op (Push g) = EFI_DEP_PUSH # g"
| "encode_op (Latched g) = EFI_DEP_REPLACE_TRUE # g"
| "encode_op AndOp = [EFI_DEP_AND]"
| "encode_op OrOp = [EFI_DEP_OR]"
| "encode_op NotOp = [EFI_DEP_NOT]"
| "encode_op TrueOp = [EFI_DEP_TRUE]"
| "encode_op FalseOp = [EFI_DEP_FALSE]"
| "encode_op EndOp = [EFI_DEP_END]"

fun wf_op :: "depex_op \<Rightarrow> bool" where
  "wf_op (Push g) = (length g = 16)"
| "wf_op (Latched g) = (length g = 16)"
| "wf_op _ = True"

abbreviation encode :: "depex_op list \<Rightarrow> u8 list" where
  "encode p \<equiv> concat (map encode_op p)"

text \<open>The abstract machine: the result of a program on a stack, and the program with the
  tests that succeeded latched.  \<open>Sor\<close> is legal only as the very first operation and is
  treated by \<open>run_depex\<close>.\<close>

fun run_ops :: "(guid \<Rightarrow> bool) \<Rightarrow> depex_op list \<Rightarrow> bool list \<Rightarrow> bool \<times> depex_op list" where
  "run_ops L [] st = (False, [])"
| "run_ops L (Sor # p) st = (False, Sor # p)"
| "run_ops L (Push g # p) st =
     (let (r, q) = run_ops L p (L g # st) in (r, (if L g then Latched g else Push g) # q))"
| "run_ops L (Latched g # p) st = (let (r, q) = run_ops L p (True # st) in (r, Latched g # q))"
| "run_ops L (AndOp # p) st = (case st of
       a # b # st' \<Rightarrow> let (r, q) = run_ops L p ((a \<and> b) # st') in (r, AndOp # q)
     | _ \<Rightarrow> (False, AndOp # p))"
| "run_ops L (OrOp # p) st = (case st of
       a # b # st' \<Rightarrow> let (r, q) = run_ops L p ((a \<or> b) # st') in (r, OrOp # q)
     | _ \<Rightarrow> (False, OrOp # p))"
| "run_ops L (NotOp # p) st = (case st of
       a # st' \<Rightarrow> let (r, q) = run_ops L p ((\<not> a) # st') in (r, NotOp # q)
     | _ \<Rightarrow> (False, NotOp # p))"
| "run_ops L (TrueOp # p) st = (let (r, q) = run_ops L p (True # st) in (r, TrueOp # q))"
| "run_ops L (FalseOp # p) st = (let (r, q) = run_ops L p (False # st) in (r, FalseOp # q))"
| "run_ops L (EndOp # p) st = (case st of a # _ \<Rightarrow> (a, EndOp # p) | [] \<Rightarrow> (False, EndOp # p))"

lemma load8_here [simp]: "load8 (pre @ b # r) (length pre) = Some b"
  by (simp add: load8_def)

lemma copy_guid_here [simp]: "length g = 16 \<Longrightarrow> copy_guid (pre @ b # g @ r) (Suc (length pre)) = Some g"
  by (simp add: copy_guid_def)

lemma push_turn_cases:
  assumes "stack_ok s"
  obtains s' where "push_turn alloc v off mem s = Some (Continue (Suc off) mem s')" "stack_ok s'"
      "stack_abs s' = v # stack_abs s"
  | "\<exists>n. alloc n = None" "push_turn alloc v off mem s = Some (Return False mem s)"
proof (cases rule: depex_stack.push_cases [OF assms, of alloc v])
  case (1 s')
  then show ?thesis by (intro that(1) [of s']) (auto simp: push_turn_def)
next
  case (2 st)
  then show ?thesis by (intro that(2)) (auto simp: push_turn_def)
qed

lemma binary_turn_cases:
  assumes "stack_ok s"
  obtains s' a b st where "stack_abs s = a # b # st" "stack_ok s'" "stack_abs s' = f a b # st"
      "binary_turn alloc f off mem s = Some (Continue (Suc off) mem s')"
  | s' where "\<And>a b st. stack_abs s \<noteq> a # b # st"
      "binary_turn alloc f off mem s = Some (Return False mem s')" "stack_ok s'"
  | s' where "\<exists>n. alloc n = None" "binary_turn alloc f off mem s = Some (Return False mem s')" "stack_ok s'"
proof (cases rule: depex_stack.pop_cases [OF assms])
  case 1
  then show ?thesis using assms by (intro that(2)) (auto simp: binary_turn_def)
next
  case (2 a s1)
  show ?thesis
  proof (cases rule: depex_stack.pop_cases [OF 2(3)])
    case 1
    then show ?thesis using 2 by (intro that(2)) (auto simp: binary_turn_def)
  next
    case (2 b s2)
    note s2 = this
    show ?thesis
    proof (cases rule: push_turn_cases [OF 2(3), of alloc "f a b" off mem])
      case (1 s')
      then show ?thesis using s2 \<open>PopBool s = _\<close> \<open>stack_abs s = _\<close>
        by (intro that(1)) (auto simp: binary_turn_def)
    next
      case 2
      then show ?thesis using s2 \<open>PopBool s = _\<close> by (intro that(3)) (auto simp: binary_turn_def)
    qed
  qed
qed

text \<open>The evaluator at some offset of the bytes of a program agrees with the abstract machine,
  unless the pool ran out of memory, which gives \<open>FALSE\<close>.\<close>

definition agrees ::
  "bool \<Rightarrow> u8 list \<Rightarrow> (bool \<times> u8 list \<times> depex_stack) option \<Rightarrow> bool \<times> depex_op list \<Rightarrow> bool" where
  "agrees avail pre x res \<longleftrightarrow> (\<exists>r mem s. x = Some (r, mem, s) \<and>
     (r = fst res \<and> mem = pre @ encode (snd res) \<or> \<not> avail \<and> \<not> r))"

lemma agrees_prefix:
  "agrees avail (pre @ encode_op i) x (r, q) \<Longrightarrow> agrees avail pre x (r, i # q)"
  by (auto simp: agrees_def)

lemma agrees_False: "agrees avail pre (Some (False, pre @ encode p, s)) (False, p)"
  by (auto simp: agrees_def)

lemma agrees_no_memory: "\<exists>n. alloc n = None \<Longrightarrow> agrees (\<forall>n. alloc n \<noteq> None) pre (Some (False, mem, s)) r"
  by (auto simp: agrees_def)

lemma encode_op_not_Nil: "encode_op i \<noteq> []"
  by (cases i) auto

lemma depex_loop_step:
  assumes "off < sz" "depex_turn alloc L off mem s = Some (Continue off' mem' s')"
  shows "depex_loop alloc L sz off mem s = depex_loop alloc L sz off' mem' s'"
  using assms by (subst depex_loop.simps) simp

lemma depex_loop_return:
  assumes "off < sz" "depex_turn alloc L off mem s = Some (Return r mem' s')"
  shows "depex_loop alloc L sz off mem s = Some (r, mem', s')"
  using assms by (subst depex_loop.simps) simp

lemma loop_push:
  assumes ok: "stack_ok s" and lt: "off < sz"
    and turn: "depex_turn alloc L off mem s0 = push_turn alloc v k (pre @ encode_op i @ encode p) s"
    and k: "Suc k = length (pre @ encode_op i)"
    and IH: "\<And>s'. \<lbrakk>stack_ok s'; stack_abs s' = v # stack_abs s\<rbrakk> \<Longrightarrow>
       agrees (\<forall>n. alloc n \<noteq> None) (pre @ encode_op i)
         (depex_loop alloc L sz (length (pre @ encode_op i)) ((pre @ encode_op i) @ encode p) s')
         (run_ops L p (v # stack_abs s))"
  shows "agrees (\<forall>n. alloc n \<noteq> None) pre (depex_loop alloc L sz off mem s0)
     (fst (run_ops L p (v # stack_abs s)), i # snd (run_ops L p (v # stack_abs s)))"
proof (cases rule: push_turn_cases [OF ok, of alloc v k "pre @ encode_op i @ encode p"])
  case (1 s')
  have "depex_loop alloc L sz off mem s0 =
      depex_loop alloc L sz (length (pre @ encode_op i)) ((pre @ encode_op i) @ encode p) s'"
    by (rule depex_loop_step [OF lt]) (simp add: turn 1 k)
  with IH [OF 1(2,3)] show ?thesis
    by (intro agrees_prefix) simp
next
  case 2
  have "depex_loop alloc L sz off mem s0 = Some (False, pre @ encode_op i @ encode p, s)"
    by (rule depex_loop_return [OF lt]) (simp add: turn 2)
  with 2(1) show ?thesis by (simp only: agrees_no_memory)
qed

lemma loop_binary:
  assumes ok: "stack_ok s" and lt: "off < sz"
    and turn: "depex_turn alloc L off mem s = binary_turn alloc f off (pre @ encode_op i @ encode p) s"
    and off1: "Suc off = length (pre @ encode_op i)"
    and IH: "\<And>s'. stack_ok s' \<Longrightarrow>
       agrees (\<forall>n. alloc n \<noteq> None) (pre @ encode_op i)
         (depex_loop alloc L sz (length (pre @ encode_op i)) ((pre @ encode_op i) @ encode p) s')
         (run_ops L p (stack_abs s'))"
  shows "agrees (\<forall>n. alloc n \<noteq> None) pre (depex_loop alloc L sz off mem s)
     (case stack_abs s of
        a # b # st \<Rightarrow> let (r, q) = run_ops L p (f a b # st) in (r, i # q)
      | _ \<Rightarrow> (False, i # p))"
proof (cases rule: binary_turn_cases [OF ok, of f alloc off "pre @ encode_op i @ encode p"])
  case (1 s' a b st)
  have "depex_loop alloc L sz off mem s =
      depex_loop alloc L sz (length (pre @ encode_op i)) ((pre @ encode_op i) @ encode p) s'"
    by (rule depex_loop_step [OF lt]) (simp add: turn 1 off1)
  with IH [OF 1(2)] have "agrees (\<forall>n. alloc n \<noteq> None) (pre @ encode_op i) (depex_loop alloc L sz off mem s)
      (run_ops L p (f a b # st))" by (simp add: 1)
  then show ?thesis
    by (simp add: 1 split_beta agrees_prefix)
next
  case (2 s')
  have "depex_loop alloc L sz off mem s = Some (False, pre @ encode_op i @ encode p, s')"
    by (rule depex_loop_return [OF lt]) (simp add: turn 2)
  then show ?thesis
    using 2(1) agrees_False [of _ pre "i # p"] by (auto split: list.splits)
next
  case (3 s')
  have "depex_loop alloc L sz off mem s = Some (False, pre @ encode_op i @ encode p, s')"
    by (rule depex_loop_return [OF lt]) (simp add: turn 3)
  with 3(1) show ?thesis by (simp only: agrees_no_memory)
qed

lemma loop_pop:
  assumes ok: "stack_ok s" and lt: "off < sz" and mem: "mem = pre @ encode (i # p)"
    and turn: "depex_turn alloc L off mem s = do {
       (r, s) \<leftarrow> PopBool s;
       case r of None \<Rightarrow> Some (Return False mem s) | Some v \<Rightarrow> k v s }"
    and k: "\<And>v s'. \<lbrakk>stack_ok s'; stack_abs s = v # stack_abs s';
        depex_turn alloc L off mem s = k v s'\<rbrakk> \<Longrightarrow>
        agrees avail pre (depex_loop alloc L sz off mem s) (body v (stack_abs s'))"
  shows "agrees avail pre (depex_loop alloc L sz off mem s)
     (case stack_abs s of v # st \<Rightarrow> body v st | [] \<Rightarrow> (False, i # p))"
proof (cases rule: depex_stack.pop_cases [OF ok])
  case 1
  have "depex_loop alloc L sz off mem s = Some (False, mem, s)"
    by (rule depex_loop_return [OF lt]) (simp add: turn 1)
  then show ?thesis using agrees_False [of _ pre "i # p"] by (simp add: 1 mem)
next
  case (2 v s')
  then show ?thesis using k [OF 2(3,1)] by (simp add: turn)
qed

lemma agrees_run_ops_eq:
  "agrees v pre x (fst r, i # snd r) \<Longrightarrow> agrees v pre x (let (b, q) = r in (b, i # q))"
  by (cases r) simp

lemmas turn_simps = depex_turn_def encode_op.simps

lemma depex_loop_run_ops:
  assumes "\<forall>i\<in>set p. wf_op i" "stack_ok s" "sz = length (pre @ encode p)"
    "pre \<noteq> [] \<or> p = [] \<or> hd p \<noteq> Sor"
  shows "agrees (\<forall>n. alloc n \<noteq> None) pre
    (depex_loop alloc L sz (length pre) (pre @ encode p) s) (run_ops L p (stack_abs s))"
  using assms
proof (induction p arbitrary: pre s)
  case Nil
  then show ?case
    using agrees_False [of _ pre "[]"] by (subst depex_loop.simps) simp
next
  case (Cons i p)
  have IH: "agrees (\<forall>n. alloc n \<noteq> None) (pre @ encode_op j)
         (depex_loop alloc L sz (length (pre @ encode_op j)) ((pre @ encode_op j) @ encode p) s')
         (run_ops L p (stack_abs s'))" if "stack_ok s'" "length (encode_op j) = length (encode_op i)" for s' j
    using Cons.prems that by (intro Cons.IH) (auto simp: encode_op_not_Nil)
  have lt: "length pre < sz" using Cons.prems by (cases i) auto
  have push_case: "agrees (\<forall>n. alloc n \<noteq> None) pre
       (depex_loop alloc L sz (length pre) (pre @ encode (i # p)) s)
       (let (r, q) = run_ops L p (v # stack_abs s1) in (r, j # q))"
    if "stack_ok s1" "depex_turn alloc L (length pre) (pre @ encode (i # p)) s =
          push_turn alloc v k (pre @ encode_op j @ encode p) s1"
       "Suc k = length (pre @ encode_op j)" "length (encode_op j) = length (encode_op i)" for v s1 j k
  proof (intro agrees_run_ops_eq loop_push [OF that(1) lt that(2,3)])
    fix s'
    assume "stack_ok s'" "stack_abs s' = v # stack_abs s1"
    with IH [OF this(1) that(4)] show "agrees (\<forall>n. alloc n \<noteq> None) (pre @ encode_op j)
         (depex_loop alloc L sz (length (pre @ encode_op j)) ((pre @ encode_op j) @ encode p) s')
         (run_ops L p (v # stack_abs s1))" by (simp only:)
  qed
  have ok: "stack_ok s" by fact
  have wf: "wf_op i" using Cons.prems(1) by simp
  show ?case
  proof (cases i)
    case Sor
    then show ?thesis
      using Cons.prems lt agrees_False [of _ pre "Sor # p"]
      by (simp add: depex_turn_def depex_loop_return)
  next
    case (Push g)
    then show ?thesis
      using wf push_case [OF ok, of "L g" "length pre + 16" "if L g then Latched g else Push g"]
      by (simp add: turn_simps)
  next
    case (Latched g)
    then show ?thesis
      using wf push_case [OF ok, of "True" "length pre + 16" "Latched g"] by (simp add: turn_simps)
  next
    case TrueOp
    then show ?thesis
      using push_case [OF ok, of "True" "length pre" "TrueOp"] by (simp add: turn_simps)
  next
    case FalseOp
    then show ?thesis
      using push_case [OF ok, of "False" "length pre" "FalseOp"] by (simp add: turn_simps)
  next
    case AndOp
    show ?thesis
      unfolding AndOp run_ops.simps
      by (rule loop_binary [OF ok lt]) (use IH [of _ i] AndOp in \<open>auto simp: turn_simps\<close>)
  next
    case OrOp
    show ?thesis
      unfolding OrOp run_ops.simps
      by (rule loop_binary [OF ok lt]) (use IH [of _ i] OrOp in \<open>auto simp: turn_simps\<close>)
  next
    case NotOp
    show ?thesis
      unfolding NotOp run_ops.simps
    proof (rule loop_pop [OF ok lt])
      fix v s'
      assume "stack_ok s'" "depex_turn alloc L (length pre) (pre @ encode (NotOp # p)) s =
         push_turn alloc (\<not> v) (length pre) (pre @ encode_op NotOp @ encode p) s'"
      then show "agrees (\<forall>n. alloc n \<noteq> None) pre (depex_loop alloc L sz (length pre) (pre @ encode (NotOp # p)) s)
         (let (r, q) = run_ops L p ((\<not> v) # stack_abs s') in (r, NotOp # q))"
        using push_case [of s' "\<not> v" "length pre" NotOp] by (simp add: NotOp)
    qed (auto simp: turn_simps cong: option.case_cong)
  next
    case EndOp
    show ?thesis
      unfolding EndOp run_ops.simps
    proof (rule loop_pop [OF ok lt])
      fix v s'
      assume "depex_turn alloc L (length pre) (pre @ encode (EndOp # p)) s =
         Some (Return v (pre @ encode (EndOp # p)) s')"
      from depex_loop_return [OF lt this]
      show "agrees (\<forall>n. alloc n \<noteq> None) pre
         (depex_loop alloc L sz (length pre) (pre @ encode (EndOp # p)) s) (v, EndOp # p)"
        by (auto simp: agrees_def)
    qed (auto simp: turn_simps cong: option.case_cong)
  qed
qed

text \<open>The whole expression: a leading \<open>Sor\<close> is skipped.\<close>

fun run_depex :: "(guid \<Rightarrow> bool) \<Rightarrow> depex_op list \<Rightarrow> bool \<times> depex_op list" where
  "run_depex L (Sor # p) = (let (r, q) = run_ops L p [] in (r, Sor # q))"
| "run_depex L p = run_ops L p []"

lemma CoreIsSchedulable_run_depex:
  assumes "\<not> After d" "\<not> Before d" "Depex d = Some (encode p)" "DepexSize d = length (encode p)"
    and wf: "\<forall>i\<in>set p. wf_op i"
  shows "\<exists>r mem s'. CoreIsSchedulable alloc L arch d s = Some (r, d\<lparr>Depex := Some mem\<rparr>, s') \<and>
     (r = fst (run_depex L p) \<and> mem = encode (snd (run_depex L p))
      \<or> \<not> (\<forall>n. alloc n \<noteq> None) \<and> \<not> r)"
proof -
  let ?s = "s\<lparr>mDepexEvaluationStackPointer := 0\<rparr>" and ?avail = "\<forall>n. alloc n \<noteq> None"
  have ok: "stack_ok ?s" "stack_abs ?s = []" by (simp_all add: stack_ok_def stack_abs_ptr)
  have "agrees ?avail [] (depex_loop alloc L (length (encode p)) 0 (encode p) ?s) (run_depex L p)"
  proof (cases "(L, p)" rule: run_depex.cases)
    case (1 L' q)
    have "depex_loop alloc L (length (encode p)) 0 (encode p) ?s =
        depex_loop alloc L (length (encode p)) (length [EFI_DEP_SOR]) ([EFI_DEP_SOR] @ encode q) ?s"
      using 1 by (intro depex_loop_step) (auto simp: depex_turn_def load8_def)
    moreover have "agrees ?avail [EFI_DEP_SOR]
       (depex_loop alloc L (length (encode p)) (length [EFI_DEP_SOR]) ([EFI_DEP_SOR] @ encode q) ?s)
       (run_ops L q (stack_abs ?s))"
      using 1 wf ok by (intro depex_loop_run_ops) auto
    ultimately have "agrees ?avail ([] @ encode_op Sor)
       (depex_loop alloc L (length (encode p)) 0 (encode p) ?s) (run_ops L q [])"
      by (simp add: ok)
    then show ?thesis using 1 by (auto simp: split_beta intro: agrees_prefix)
  qed (use wf ok depex_loop_run_ops [of p ?s "length (encode p)" "[]" alloc L] in auto)
  then show ?thesis
    using assms by (auto simp: CoreIsSchedulable_def agrees_def)
qed

section \<open>Boolean expressions\<close>

datatype dexpr = Present guid | Found guid | Const bool | Conj dexpr dexpr | Disj dexpr dexpr | Neg dexpr

fun dcompile :: "dexpr \<Rightarrow> depex_op list" where
  "dcompile (Present g) = [Push g]"
| "dcompile (Found g) = [Latched g]"
| "dcompile (Const b) = [if b then TrueOp else FalseOp]"
| "dcompile (Conj a b) = dcompile a @ dcompile b @ [AndOp]"
| "dcompile (Disj a b) = dcompile a @ dcompile b @ [OrOp]"
| "dcompile (Neg a) = dcompile a @ [NotOp]"

fun deval :: "(guid \<Rightarrow> bool) \<Rightarrow> dexpr \<Rightarrow> bool" where
  "deval L (Present g) = L g"
| "deval L (Found g) = True"
| "deval L (Const b) = b"
| "deval L (Conj a b) = (deval L a \<and> deval L b)"
| "deval L (Disj a b) = (deval L a \<or> deval L b)"
| "deval L (Neg a) = (\<not> deval L a)"

fun latch :: "(guid \<Rightarrow> bool) \<Rightarrow> dexpr \<Rightarrow> dexpr" where
  "latch L (Present g) = (if L g then Found g else Present g)"
| "latch L (Conj a b) = Conj (latch L a) (latch L b)"
| "latch L (Disj a b) = Disj (latch L a) (latch L b)"
| "latch L (Neg a) = Neg (latch L a)"
| "latch L e = e"

fun wf_expr :: "dexpr \<Rightarrow> bool" where
  "wf_expr (Present g) = (length g = 16)"
| "wf_expr (Found g) = (length g = 16)"
| "wf_expr (Const b) = True"
| "wf_expr (Conj a b) = (wf_expr a \<and> wf_expr b)"
| "wf_expr (Disj a b) = (wf_expr a \<and> wf_expr b)"
| "wf_expr (Neg a) = wf_expr a"

text \<open>The bytes of an expression, as the build tools emit them: an optional \<open>SOR\<close>, the
  postfix code, \<open>END\<close>.\<close>

definition depex_program :: "bool \<Rightarrow> dexpr \<Rightarrow> depex_op list" where
  "depex_program sor e = (if sor then [Sor] else []) @ dcompile e @ [EndOp]"

lemma run_ops_dcompile:
  "run_ops L (dcompile e @ p) st =
     (let (r, q) = run_ops L p (deval L e # st) in (r, dcompile (latch L e) @ q))"
  by (induction e arbitrary: p st) (auto simp: split_beta conj_commute disj_commute)

lemma wf_dcompile: "wf_expr e \<Longrightarrow> i \<in> set (dcompile e) \<Longrightarrow> wf_op i"
  by (induction e) auto

lemma hd_dcompile: "hd (dcompile e @ p) \<noteq> Sor" "dcompile e \<noteq> []"
  by (induction e arbitrary: p) auto

lemma run_depex_program: "run_depex L (depex_program sor e) = (deval L e, depex_program sor (latch L e))"
proof -
  have "run_depex L p = run_ops L p []" if "p \<noteq> []" "hd p \<noteq> Sor" for p
    using that by (cases "(L, p)" rule: run_depex.cases) auto
  from this [of "dcompile e @ [EndOp]"] hd_dcompile [of e]
  show ?thesis by (cases sor) (auto simp: depex_program_def run_ops_dcompile)
qed

lemma wf_depex_program: "wf_expr e \<Longrightarrow> \<forall>i\<in>set (depex_program sor e). wf_op i"
  by (auto simp: depex_program_def wf_dcompile)

lemma length_latch: "length (encode (dcompile (latch L e))) = length (encode (dcompile e))"
  by (induction e) auto

lemma length_depex_program:
  "length (encode (depex_program sor (latch L e))) = length (encode (depex_program sor e))"
  using length_latch [of L e] by (simp add: depex_program_def)

lemma wf_latch: "wf_expr e \<Longrightarrow> wf_expr (latch L e)"
  by (induction e) auto

lemma latch_latch: "latch M (latch L e) = latch (\<lambda>g. L g \<or> M g) e"
  by (induction e) auto

lemma deval_latch: "deval M (latch L e) = deval (\<lambda>g. L g \<or> M g) e"
  by (induction e) auto

lemma latch_nothing: "latch (\<lambda>_. False) e = e"
  by (induction e) auto

text \<open>Evaluations at successive moments, each with the protocol database of its moment.\<close>

fun evaluations ::
  "(nat \<Rightarrow> (nat \<Rightarrow> bool) option) \<Rightarrow> (guid \<times> bool) list \<Rightarrow> (guid \<Rightarrow> bool) list \<Rightarrow> driver_entry \<Rightarrow> depex_stack
    \<Rightarrow> (bool list \<times> driver_entry \<times> depex_stack) option" where
  "evaluations alloc arch [] d s = Some ([], d, s)"
| "evaluations alloc arch (L # Ls) d s = do {
     (r, d, s) \<leftarrow> CoreIsSchedulable alloc L arch d s;
     (rs, d, s) \<leftarrow> evaluations alloc arch Ls d s;
     Some (r # rs, d, s)
   }"

lemma CoreIsSchedulable_expr:
  assumes "\<not> After d" "\<not> Before d" "wf_expr e"
    and "Depex d = Some (encode (depex_program sor e))"
    and "DepexSize d = length (encode (depex_program sor e))"
    and "\<forall>n. alloc n \<noteq> None"
  shows "\<exists>s'. CoreIsSchedulable alloc L arch d s =
     Some (deval L e, d\<lparr>Depex := Some (encode (depex_program sor (latch L e)))\<rparr>, s')"
  using CoreIsSchedulable_run_depex [OF assms(1,2,4,5) wf_depex_program [OF assms(3)], of alloc L arch s]
    assms(6)
  by (auto simp: run_depex_program)

lemma evaluations_expr:
  assumes "\<not> After d" "\<not> Before d" "wf_expr e" "\<forall>n. alloc n \<noteq> None"
    and "Depex d = Some (encode (depex_program sor (latch M e)))"
    and "DepexSize d = length (encode (depex_program sor e))"
  shows "\<exists>d' s'. evaluations alloc arch Ls d s =
     Some (map (\<lambda>i. deval (\<lambda>g. M g \<or> (\<exists>L\<in>set (take (Suc i) Ls). L g)) e) [0..<length Ls], d', s')"
  using assms
proof (induction Ls arbitrary: M d s)
  case Nil
  then show ?case by simp
next
  case (Cons L Ls)
  let ?d = "d\<lparr>Depex := Some (encode (depex_program sor (latch (\<lambda>g. M g \<or> L g) e)))\<rparr>"
  obtain s1 where one: "CoreIsSchedulable alloc L arch d s = Some (deval (\<lambda>g. M g \<or> L g) e, ?d, s1)"
    using CoreIsSchedulable_expr [of d "latch M e" sor alloc L arch s] Cons.prems
    by (auto simp: wf_latch length_depex_program latch_latch deval_latch)
  obtain d' s' where rest: "evaluations alloc arch Ls ?d s1 =
     Some (map (\<lambda>i. deval (\<lambda>g. (M g \<or> L g) \<or> (\<exists>L\<in>set (take (Suc i) Ls). L g)) e) [0..<length Ls], d', s')"
    using Cons.IH [of ?d "\<lambda>g. M g \<or> L g" s1] Cons.prems by auto
  have "[0..<length (L # Ls)] = 0 # map Suc [0..<length Ls]"
    by (simp add: upt_conv_Cons map_Suc_upt del: upt_Suc)
  then show ?case by (simp add: one rest comp_def disj_assoc del: upt_Suc)
qed

section \<open>Properties\<close>

text \<open>C3. For the bytes of any dependency expression (with or without a leading \<open>SOR\<close>), however
  deep, the evaluator returns the value of the expression under the protocol database,
  growing its stack as needed, and rewrites the expression so that exactly the tests
  that succeeded are latched.\<close>

theorem CoreIsSchedulable_correct:
  assumes "\<not> After d" "\<not> Before d" "wf_expr e"
    and "Depex d = Some (encode (depex_program sor e))"
    and "DepexSize d = length (encode (depex_program sor e))"
    and "\<forall>n. alloc n \<noteq> None"
  shows "\<exists>s'. CoreIsSchedulable alloc L arch d s =
     Some (deval L e, d\<lparr>Depex := Some (encode (depex_program sor (latch L e)))\<rparr>, s')"
  using CoreIsSchedulable_expr [OF assms] .

definition entry_of :: "bool \<Rightarrow> dexpr \<Rightarrow> driver_entry" where
  "entry_of sor e = \<lparr>FvHandle = 1, FileName = replicate 16 7, Fv = 1,
     Depex = Some (encode (depex_program sor e)), DepexSize = length (encode (depex_program sor e)),
     Before = False, After = False, BeforeAfterGuid = replicate 16 0, Dependent = True,
     Unrequested = False, Scheduled = False, Untrusted = False, Initialized = False,
     DepexProtocolError = False, ImageHandle = 0, IsFvImage = False\<rparr>"

abbreviation empty_stack :: depex_stack where
  "empty_stack \<equiv> \<lparr>mDepexEvaluationStack = None, mDepexEvaluationStackPointer = 0\<rparr>"

lemma CoreIsSchedulable_correct_witness:
  "\<exists>d' s'. CoreIsSchedulable (\<lambda>_. Some (\<lambda>_. False)) (\<lambda>g. g = replicate 16 3) []
     (entry_of True (Conj (Present (replicate 16 3)) (Neg (Present (replicate 16 4))))) empty_stack
     = Some (True, d', s')"
  using CoreIsSchedulable_correct
    [of "entry_of True (Conj (Present (replicate 16 3)) (Neg (Present (replicate 16 4))))"
      "Conj (Present (replicate 16 3)) (Neg (Present (replicate 16 4)))" True "\<lambda>_. Some (\<lambda>_. False)"
      "\<lambda>g. g = replicate 16 3" "[]" empty_stack]
  by (auto simp: entry_of_def numeral_eq_Suc)

text \<open>Whatever the pool does, and whatever well-delimited operations the expression is made
  of (stack underflow, a missing \<open>END\<close>, a misplaced \<open>SOR\<close>), the evaluator returns, and it
  says TRUE only where the abstract machine with enough memory does.\<close>

theorem CoreIsSchedulable_safe:
  assumes "\<not> After d" "\<not> Before d"
    and "Depex d = Some (encode p)" "DepexSize d = length (encode p)" "\<forall>i\<in>set p. wf_op i"
  shows "\<exists>r d' s'. CoreIsSchedulable alloc L arch d s = Some (r, d', s') \<and> (r \<longrightarrow> fst (run_depex L p))"
  using CoreIsSchedulable_run_depex [OF assms, of alloc L arch s] by auto

lemma CoreIsSchedulable_safe_witness:
  "\<exists>d' s'. CoreIsSchedulable (\<lambda>_. None) (\<lambda>_. True) []
     ((entry_of True (Const True))\<lparr>Depex := Some [EFI_DEP_TRUE, EFI_DEP_AND, EFI_DEP_END], DepexSize := 3\<rparr>)
     empty_stack = Some (False, d', s')"
  using CoreIsSchedulable_safe
    [of "(entry_of True (Const True))\<lparr>Depex := Some [EFI_DEP_TRUE, EFI_DEP_AND, EFI_DEP_END], DepexSize := 3\<rparr>"
      "[TrueOp, AndOp, EndOp]" "\<lambda>_. None" "\<lambda>_. True" "[]" empty_stack]
  by (auto simp: entry_of_def)

text \<open>C36. Evaluations at successive moments remember: each \<open>PUSH\<close> counts as satisfied from the
  first evaluation that found its protocol on, even when the protocol has been
  uninstalled since.\<close>

theorem CoreIsSchedulable_remembers:
  assumes "\<not> After d" "\<not> Before d" "wf_expr e" "\<forall>n. alloc n \<noteq> None"
    and "Depex d = Some (encode (depex_program sor e))"
    and "DepexSize d = length (encode (depex_program sor e))"
  shows "\<exists>d' s'. evaluations alloc arch Ls d s =
     Some (map (\<lambda>i. deval (\<lambda>g. \<exists>L\<in>set (take (Suc i) Ls). L g) e) [0..<length Ls], d', s')"
  using evaluations_expr [OF assms(1-4), where M = "\<lambda>_. False"] assms(5,6) by (simp add: latch_nothing)

lemma CoreIsSchedulable_remembers_witness:
  "\<exists>d' s'. evaluations (\<lambda>_. Some (\<lambda>_. False)) [] [\<lambda>_. False, \<lambda>_. True, \<lambda>_. False]
     (entry_of False (Present (replicate 16 3))) empty_stack = Some ([False, True, True], d', s')"
  using CoreIsSchedulable_remembers [of "entry_of False (Present (replicate 16 3))"
      "Present (replicate 16 3)" "\<lambda>_. Some (\<lambda>_. False)" False "[]"
      "[\<lambda>_. False, \<lambda>_. True, \<lambda>_. False]" empty_stack]
  by (simp add: entry_of_def numeral_3_eq_3 numeral_2_eq_2)


end
