(* ===== verification/Dispatcher.thy ===== *)
theory Dispatcher
  imports Depex
begin

text \<open>
  The DXE dispatcher, \<open>MdeModulePkg/Override/Core/Dxe/Dispatcher/Dispatcher.c\<close> (the file the
  package builds in place of the one under \<open>Core/\<close>): the discovered list and the
  scheduled queue, the DXE services \<open>Schedule\<close> and \<open>Trust\<close>, the recursive insertion that
  honours \<open>BEFORE\<close> and \<open>AFTER\<close>, and the dispatch loop.

  A driver entry is never freed, so a pointer to one is its position in
  \<open>mDiscoveredList\<close>; \<open>mScheduledQueue\<close> is a list of positions.  Linking an entry that is
  already linked, or unlinking one that is not, corrupts the intrusive list: \<open>None\<close>.
  The dispatcher lock only brackets the assignments it protects and is not modelled.
  \<open>report\<close> is what \<open>REPORT_STATUS_CODE\<close> announces: the entry whose image is about to be
  started, or whose firmware volume is about to be opened.

  Images, firmware volumes, protocols and events are the parameter \<open>env\<close>.  A started image may
  call back into the dispatcher, so these functions take and return the whole state.
\<close>

section \<open>State\<close>

record 'e disp =
  mDiscoveredList :: "driver_entry list"
  mScheduledQueue :: "nat list"
  gDispatcherRunning :: bool
  gDepexStack :: depex_stack
  report :: "nat list"
  sys :: 'e

record 'e disp_env =
  ReadDepex :: "driver_entry \<Rightarrow> 'e \<Rightarrow> (efi_status \<times> u8 list) \<times> 'e"
  LocateProtocol :: "'e \<Rightarrow> guid \<Rightarrow> bool"
  mArchProtocols :: "'e \<Rightarrow> (guid \<times> bool) list"
  AllocatePool :: "'e \<Rightarrow> nat \<Rightarrow> (nat \<Rightarrow> bool) option"
  LoadImage :: "nat \<Rightarrow> 'e disp \<Rightarrow> (efi_status \<times> nat) \<times> 'e disp"
  StartImage :: "nat \<Rightarrow> 'e disp \<Rightarrow> efi_status \<times> 'e disp"
  ProcessFvImageFile :: "nat \<Rightarrow> 'e disp \<Rightarrow> efi_status \<times> 'e disp"
  CreateDispatchEvent :: "'e disp \<Rightarrow> efi_status \<times> 'e disp"
  SignalDispatchEvent :: "'e disp \<Rightarrow> 'e disp"
  CloseDispatchEvent :: "'e disp \<Rightarrow> 'e disp"

abbreviation entry :: "'e disp \<Rightarrow> nat \<Rightarrow> driver_entry" where
  "entry d i \<equiv> mDiscoveredList d ! i"

definition put_entry :: "nat \<Rightarrow> driver_entry \<Rightarrow> 'e disp \<Rightarrow> 'e disp" where
  "put_entry i x d = d\<lparr>mDiscoveredList := (mDiscoveredList d)[i := x]\<rparr>"

definition link_scheduled :: "nat \<Rightarrow> 'e disp \<Rightarrow> 'e disp option" where
  "link_scheduled i d =
     (if i \<in> set (mScheduledQueue d) then None
      else Some (d\<lparr>mScheduledQueue := mScheduledQueue d @ [i]\<rparr>))"

definition unlink_scheduled :: "nat \<Rightarrow> 'e disp \<Rightarrow> 'e disp option" where
  "unlink_scheduled i d =
     (if i \<in> set (mScheduledQueue d) then Some (d\<lparr>mScheduledQueue := remove1 i (mScheduledQueue d)\<rparr>)
      else None)"

section \<open>Discovery\<close>

definition CoreGetDepexSectionAndPreProccess ::
  "'e disp_env \<Rightarrow> driver_entry \<Rightarrow> 'e \<Rightarrow> (efi_status \<times> driver_entry \<times> 'e) option" where
  "CoreGetDepexSectionAndPreProccess env x e =
     (case ReadDepex env x e of ((Status, mem), e) \<Rightarrow>
        if EFI_ERROR Status then
          (if Status = EFI_PROTOCOL_ERROR then Some (Status, x\<lparr>DepexProtocolError := True\<rparr>, e)
           else Some (Status, x\<lparr>Depex := None, Dependent := True, DepexProtocolError := False\<rparr>, e))
        else do {
          (_, x) \<leftarrow> CorePreProcessDepex (x\<lparr>Depex := Some mem, DepexSize := length mem\<rparr>);
          Some (Status, x\<lparr>DepexProtocolError := False\<rparr>, e)
        })"

text \<open>\<open>AllocateZeroPool\<close>: every field zero, \<open>NULL\<close> or \<open>FALSE\<close>.\<close>

definition zero_entry :: driver_entry where
  "zero_entry = \<lparr>FvHandle = 0, FileName = replicate 16 0, Fv = 0, Depex = None, DepexSize = 0,
     Before = False, After = False, BeforeAfterGuid = replicate 16 0, Dependent = False,
     Unrequested = False, Scheduled = False, Untrusted = False, Initialized = False,
     DepexProtocolError = False, ImageHandle = 0, IsFvImage = False\<rparr>"

definition CoreAddToDriverList ::
  "'e disp_env \<Rightarrow> nat \<Rightarrow> nat \<Rightarrow> guid \<Rightarrow> bool \<Rightarrow> 'e disp \<Rightarrow> (efi_status \<times> 'e disp) option" where
  "CoreAddToDriverList env fv fvHandle DriverName FvImageType d = do {
     let x = zero_entry\<lparr>IsFvImage := FvImageType, FileName := DriverName, FvHandle := fvHandle, Fv := fv\<rparr>;
     (_, x, e) \<leftarrow> CoreGetDepexSectionAndPreProccess env x (sys d);
     Some (EFI_SUCCESS, d\<lparr>mDiscoveredList := mDiscoveredList d @ [x], sys := e\<rparr>)
   }"

section \<open>The services Schedule and Trust\<close>

definition find_entry :: "(driver_entry \<Rightarrow> bool) \<Rightarrow> 'e disp \<Rightarrow> nat option" where
  "find_entry P d = find (\<lambda>i. P (entry d i)) [0..<length (mDiscoveredList d)]"

definition CoreSchedule :: "nat \<Rightarrow> guid \<Rightarrow> 'e disp \<Rightarrow> efi_status \<times> 'e disp" where
  "CoreSchedule FirmwareVolumeHandle DriverName d =
     (case find_entry (\<lambda>x. FvHandle x = FirmwareVolumeHandle \<and> Unrequested x \<and> DriverName = FileName x) d of
        Some i \<Rightarrow> (EFI_SUCCESS, put_entry i ((entry d i)\<lparr>Unrequested := False, Dependent := True\<rparr>) d)
      | None \<Rightarrow> (EFI_NOT_FOUND, d))"

definition CoreTrust :: "nat \<Rightarrow> guid \<Rightarrow> 'e disp \<Rightarrow> (efi_status \<times> 'e disp) option" where
  "CoreTrust FirmwareVolumeHandle DriverName d =
     (case find_entry (\<lambda>x. FvHandle x = FirmwareVolumeHandle \<and> Untrusted x \<and> DriverName = FileName x) d of
        Some i \<Rightarrow> do {
          d \<leftarrow> link_scheduled i (put_entry i ((entry d i)\<lparr>Untrusted := False, Scheduled := True\<rparr>) d);
          Some (EFI_SUCCESS, d)
        }
      | None \<Rightarrow> Some (EFI_NOT_FOUND, d))"

text \<open>The a priori file of a firmware volume (the end of \<open>CoreFwVolEventProtocolNotify\<close>).\<close>

fun schedule_apriori :: "nat \<Rightarrow> guid list \<Rightarrow> 'e disp \<Rightarrow> 'e disp option" where
  "schedule_apriori fvHandle [] d = Some d"
| "schedule_apriori fvHandle (g # AprioriFile) d =
     (case find_entry (\<lambda>x. FileName x = g \<and> fvHandle = FvHandle x) d of
        Some i \<Rightarrow> do {
          d \<leftarrow> link_scheduled i (put_entry i ((entry d i)\<lparr>Dependent := False, Scheduled := True\<rparr>) d);
          schedule_apriori fvHandle AprioriFile d
        }
      | None \<Rightarrow> schedule_apriori fvHandle AprioriFile d)"

section \<open>Insertion on the scheduled queue\<close>

text \<open>A \<open>for\<close> loop over the discovered list whose body may fail to return.\<close>

fun for_each :: "(nat \<Rightarrow> 's \<Rightarrow> 's option) \<Rightarrow> nat list \<Rightarrow> 's \<Rightarrow> 's option" where
  "for_each body [] d = Some d"
| "for_each body (i # is) d = do { d \<leftarrow> body i d; for_each body is d }"

text \<open>The first argument bounds the depth of the recursion.\<close>

primrec CoreInsertOnScheduledQueueWhileProcessingBeforeAndAfter ::
  "nat \<Rightarrow> nat \<Rightarrow> 'e disp \<Rightarrow> 'e disp option" where
  "CoreInsertOnScheduledQueueWhileProcessingBeforeAndAfter 0 = (\<lambda>i d. None)"
| "CoreInsertOnScheduledQueueWhileProcessingBeforeAndAfter (Suc n) = (\<lambda>i d. do {
     d \<leftarrow> for_each (\<lambda>j d.
            if Before (entry d j) \<and> Dependent (entry d j) \<and> j \<noteq> i
               \<and> FileName (entry d i) = BeforeAfterGuid (entry d j)
            then CoreInsertOnScheduledQueueWhileProcessingBeforeAndAfter n j d else Some d)
          [0..<length (mDiscoveredList d)] d;
     d \<leftarrow> link_scheduled i (put_entry i ((entry d i)\<lparr>Dependent := False, Scheduled := True\<rparr>) d);
     for_each (\<lambda>j d.
            if After (entry d j) \<and> Dependent (entry d j) \<and> j \<noteq> i
               \<and> FileName (entry d i) = BeforeAfterGuid (entry d j)
            then CoreInsertOnScheduledQueueWhileProcessingBeforeAndAfter n j d else Some d)
          [0..<length (mDiscoveredList d)] d
   })"

section \<open>The dispatch loop\<close>

text \<open>One turn of the loop that drains the queue: the entry at its head is loaded and
  started.  The result says whether an image was started (\<open>ReturnStatus = EFI_SUCCESS\<close>).\<close>

definition drain_step :: "'e disp_env \<Rightarrow> nat \<Rightarrow> 'e disp \<Rightarrow> (bool \<times> 'e disp) option" where
  "drain_step env i d = do {
     let (Status, d) =
       (if ImageHandle (entry d i) = 0 \<and> \<not> IsFvImage (entry d i)
        then case LoadImage env i d of ((Status, h), d) \<Rightarrow>
               (Status, put_entry i ((entry d i)\<lparr>ImageHandle := h\<rparr>) d)
        else (EFI_SUCCESS, d));
     if EFI_ERROR Status then do {
       let x = (if Status = EFI_SECURITY_VIOLATION then (entry d i)\<lparr>Untrusted := True\<rparr>
                else (entry d i)\<lparr>Initialized := True\<rparr>);
       d \<leftarrow> unlink_scheduled i (put_entry i (x\<lparr>Scheduled := False\<rparr>) d);
       Some (False, d)
     } else do {
       d \<leftarrow> unlink_scheduled i (put_entry i ((entry d i)\<lparr>Scheduled := False, Initialized := True\<rparr>) d);
       let d = d\<lparr>report := report d @ [i]\<rparr>;
       if IsFvImage (entry d i) then Some (True, snd (ProcessFvImageFile env i d))
       else do {
         ASSERT (ImageHandle (entry d i) \<noteq> 0);
         Some (True, snd (StartImage env i d))
       }
     }
   }"

fun drain :: "'e disp_env \<Rightarrow> nat \<Rightarrow> bool \<Rightarrow> 'e disp \<Rightarrow> (bool \<times> 'e disp) option" where
  "drain env n started d =
     (case mScheduledQueue d of
        [] \<Rightarrow> Some (started, d)
      | i # _ \<Rightarrow> (case n of 0 \<Rightarrow> None
          | Suc n \<Rightarrow> do { (b, d) \<leftarrow> drain_step env i d; drain env n (started \<or> b) d }))"

declare drain.simps [simp del]

text \<open>One turn of the loop that looks for drivers to place on the queue: the reading of a
  dependency expression that was put off is tried again, then the entry is evaluated.\<close>

definition retry_depex :: "'e disp_env \<Rightarrow> nat \<Rightarrow> 'e disp \<Rightarrow> 'e disp option" where
  "retry_depex env i d =
     (if DepexProtocolError (entry d i) then do {
        (_, x, e) \<leftarrow> CoreGetDepexSectionAndPreProccess env (entry d i) (sys d);
        Some ((put_entry i x d)\<lparr>sys := e\<rparr>)
      } else Some d)"

definition consider_driver :: "'e disp_env \<Rightarrow> nat \<Rightarrow> bool \<Rightarrow> 'e disp \<Rightarrow> (bool \<times> 'e disp) option" where
  "consider_driver env i ReadyToRun d =
     (if Dependent (entry d i) then do {
        (r, x, s) \<leftarrow> CoreIsSchedulable (AllocatePool env (sys d)) (LocateProtocol env (sys d))
                       (mArchProtocols env (sys d)) (entry d i) (gDepexStack d);
        let d = (put_entry i x d)\<lparr>gDepexStack := s\<rparr>;
        if r then do {
          d \<leftarrow> CoreInsertOnScheduledQueueWhileProcessingBeforeAndAfter (length (mDiscoveredList d)) i d;
          Some (True, d)
        } else Some (ReadyToRun, d)
      } else Some (ReadyToRun, d))"

definition search_step :: "'e disp_env \<Rightarrow> nat \<Rightarrow> bool \<times> 'e disp \<Rightarrow> (bool \<times> 'e disp) option" where
  "search_step env i = (\<lambda>(ReadyToRun, d). do {
     d \<leftarrow> retry_depex env i d;
     consider_driver env i ReadyToRun d
   })"

definition search :: "'e disp_env \<Rightarrow> 'e disp \<Rightarrow> (bool \<times> 'e disp) option" where
  "search env d = for_each (search_step env) [0..<length (mDiscoveredList d)] (False, d)"

text \<open>The \<open>do ... while (ReadyToRun)\<close> loop; \<open>started\<close> is \<open>ReturnStatus = EFI_SUCCESS\<close>.\<close>

primrec dispatch_rounds ::
  "'e disp_env \<Rightarrow> nat \<Rightarrow> bool \<Rightarrow> bool \<Rightarrow> 'e disp \<Rightarrow> (bool \<times> 'e disp) option" where
  "dispatch_rounds env 0 started SmmDispatched d = None"
| "dispatch_rounds env (Suc n) started SmmDispatched d = do {
     (started, d) \<leftarrow> drain env (Suc n) started d;
     let d = (if \<not> SmmDispatched \<or> started then SignalDispatchEvent env d else d);
     (ReadyToRun, d) \<leftarrow> search env d;
     if ReadyToRun then dispatch_rounds env n started True d else Some (started, d)
   }"

definition CoreDispatcher :: "'e disp_env \<Rightarrow> nat \<Rightarrow> 'e disp \<Rightarrow> (efi_status \<times> 'e disp) option" where
  "CoreDispatcher env fuel d =
     (if gDispatcherRunning d then Some (EFI_ALREADY_STARTED, d)
      else case CreateDispatchEvent env (d\<lparr>gDispatcherRunning := True\<rparr>) of (Status, d) \<Rightarrow>
        if EFI_ERROR Status then Some (Status, d)
        else do {
          (started, d) \<leftarrow> dispatch_rounds env fuel False False d;
          let d = CloseDispatchEvent env d;
          Some (if started then EFI_SUCCESS else EFI_NOT_FOUND, d\<lparr>gDispatcherRunning := False\<rparr>)
        })"

text \<open>\<open>FvHasBeenProcessed\<close>: \<open>mFvHandleList\<close> as the list of its handles.\<close>

fun FvHasBeenProcessed :: "nat list \<Rightarrow> nat \<Rightarrow> bool" where
  "FvHasBeenProcessed [] fvHandle = False"
| "FvHasBeenProcessed (KnownHandle # Link) fvHandle =
     (if KnownHandle = fvHandle then True else FvHasBeenProcessed Link fvHandle)"

section \<open>What an insertion does\<close>

abbreviation "insert_sched \<equiv> CoreInsertOnScheduledQueueWhileProcessingBeforeAndAfter"

definition schedule1 :: "driver_entry \<Rightarrow> driver_entry" where
  "schedule1 x = x\<lparr>Dependent := False, Scheduled := True\<rparr>"

definition mark :: "nat list \<Rightarrow> driver_entry list \<Rightarrow> driver_entry list" where
  "mark new ds = map (\<lambda>i. if i \<in> set new then schedule1 (ds ! i) else ds ! i) [0..<length ds]"

text \<open>The state after the entries \<open>new\<close> have been scheduled in that order.\<close>

definition sched :: "nat list \<Rightarrow> 'e disp \<Rightarrow> 'e disp" where
  "sched new d = d\<lparr>mDiscoveredList := mark new (mDiscoveredList d),
                    mScheduledQueue := mScheduledQueue d @ new\<rparr>"

lemma length_mark [simp]: "length (mark new ds) = length ds"
  by (simp add: mark_def)

lemma mark_nth: "i < length ds \<Longrightarrow> mark new ds ! i = (if i \<in> set new then schedule1 (ds ! i) else ds ! i)"
  by (simp add: mark_def)

lemma schedule1_simps [simp]:
  "FileName (schedule1 x) = FileName x" "Before (schedule1 x) = Before x" "After (schedule1 x) = After x"
  "BeforeAfterGuid (schedule1 x) = BeforeAfterGuid x" "\<not> Dependent (schedule1 x)" "Scheduled (schedule1 x)"
  "schedule1 (schedule1 x) = schedule1 x"
  by (simp_all add: schedule1_def)

lemma mark_static [simp]:
  assumes "i < length ds"
  shows "FileName (mark new ds ! i) = FileName (ds ! i)" "Before (mark new ds ! i) = Before (ds ! i)"
    "After (mark new ds ! i) = After (ds ! i)" "BeforeAfterGuid (mark new ds ! i) = BeforeAfterGuid (ds ! i)"
    "Dependent (mark new ds ! i) \<longleftrightarrow> Dependent (ds ! i) \<and> i \<notin> set new"
  using assms by (simp_all add: mark_nth)

lemma mark_mark: "mark b (mark a ds) = mark (a @ b) ds"
  by (rule nth_equalityI) (auto simp: mark_nth)

lemma mark_Nil: "mark [] ds = ds"
  by (rule nth_equalityI) (auto simp: mark_nth)

lemma sched_Nil: "sched [] d = d"
  by (simp add: sched_def mark_Nil)

lemma sched_sched: "sched b (sched a d) = sched (a @ b) d"
  by (simp add: sched_def mark_mark)

lemma sched_fields [simp]:
  "mDiscoveredList (sched new d) = mark new (mDiscoveredList d)"
  "mScheduledQueue (sched new d) = mScheduledQueue d @ new"
  "gDispatcherRunning (sched new d) = gDispatcherRunning d"
  "gDepexStack (sched new d) = gDepexStack d" "report (sched new d) = report d" "sys (sched new d) = sys d"
  by (simp_all add: sched_def)

lemma link_is_sched:
  assumes "i < length (mDiscoveredList d)" "i \<notin> set (mScheduledQueue d)"
  shows "link_scheduled i (put_entry i ((entry d i)\<lparr>Dependent := False, Scheduled := True\<rparr>) d)
    = Some (sched [i] d)"
proof -
  have "(mDiscoveredList d)[i := schedule1 (entry d i)] = mark [i] (mDiscoveredList d)"
    using assms by (intro nth_equalityI) (auto simp: mark_nth nth_list_update)
  then show ?thesis
    using assms by (simp add: link_scheduled_def put_entry_def sched_def schedule1_def)
qed

text \<open>\<open>child ds j i\<close>: the expression of \<open>j\<close> puts it before or after \<open>i\<close>.  A chain of such
  entries that starts at an entry without \<open>BEFORE\<close> or \<open>AFTER\<close> has no repetition.\<close>

definition child :: "driver_entry list \<Rightarrow> nat \<Rightarrow> nat \<Rightarrow> bool" where
  "child ds j i \<longleftrightarrow> j < length ds \<and> i < length ds \<and> j \<noteq> i \<and> (Before (ds ! j) \<or> After (ds ! j))
     \<and> BeforeAfterGuid (ds ! j) = FileName (ds ! i)"

fun path :: "driver_entry list \<Rightarrow> nat list \<Rightarrow> bool" where
  "path ds [] = False"
| "path ds [i] = (i < length ds \<and> \<not> Before (ds ! i) \<and> \<not> After (ds ! i))"
| "path ds (j # i # ps) = (child ds j i \<and> path ds (i # ps))"

definition unique_names :: "driver_entry list \<Rightarrow> bool" where
  "unique_names ds \<longleftrightarrow> (\<forall>i<length ds. \<forall>j<length ds. FileName (ds ! i) = FileName (ds ! j) \<longrightarrow> i = j)"

lemma child_mark [simp]: "child (mark new ds) = child ds"
  by (intro ext) (auto simp: child_def)

lemma path_mark [simp]: "path (mark new ds) ps = path ds ps"
  by (induction ds ps rule: path.induct) auto

lemma unique_names_mark [simp]: "unique_names (mark new ds) = unique_names ds"
  by (simp add: unique_names_def)

lemma path_bounded: "path ds ps \<Longrightarrow> set ps \<subseteq> {..<length ds}"
  by (induction ds ps rule: path.induct) (auto simp: child_def)

lemma path_nonempty: "path ds ps \<Longrightarrow> ps \<noteq> []"
  by auto

lemma path_Cons: "path ds ps \<Longrightarrow> path ds (j # ps) \<longleftrightarrow> child ds j (hd ps)"
  by (cases ps) auto

lemma path_suffix: "path ds (qs @ i # ps) \<Longrightarrow> path ds (i # ps)"
proof (induction qs)
  case (Cons q qs)
  then show ?case by (cases qs) auto
qed simp

lemma child_unique: "unique_names ds \<Longrightarrow> child ds j i \<Longrightarrow> child ds j k \<Longrightarrow> i = k"
  by (auto simp: child_def unique_names_def)

text \<open>An entry has only one chain below it.\<close>

lemma path_unique:
  "unique_names ds \<Longrightarrow> path ds (i # ps) \<Longrightarrow> path ds (i # qs) \<Longrightarrow> ps = qs"
proof (induction ps arbitrary: i qs)
  case Nil
  then show ?case by (cases qs) (auto simp: child_def)
next
  case (Cons p ps)
  from Cons.prems obtain q rs where qs: "qs = q # rs" by (cases qs) (auto simp: child_def)
  then have "p = q" using Cons.prems child_unique by auto
  then show ?case using Cons qs by auto
qed

lemma path_distinct:
  assumes "unique_names ds" "path ds ps"
  shows "distinct ps"
  using assms(2)
proof (induction ps)
  case (Cons i ps)
  show ?case
  proof (cases "ps = []")
    case False
    with Cons.prems have p: "path ds ps" by (cases ps) auto
    have "i \<notin> set ps"
    proof
      assume "i \<in> set ps"
      then obtain us vs where "ps = us @ i # vs" by (auto simp: in_set_conv_decomp)
      moreover from this p have "path ds (i # vs)" by (auto intro: path_suffix)
      ultimately show False using path_unique [OF assms(1) Cons.prems] by fastforce
    qed
    with Cons.IH [OF p] show ?thesis by simp
  qed simp
qed simp

lemma path_length: "unique_names ds \<Longrightarrow> path ds ps \<Longrightarrow> length ps \<le> length ds"
  using path_distinct [of ds ps] path_bounded [of ds ps]
  by (metis card_lessThan card_mono distinct_card finite_lessThan)

definition precedes :: "'a list \<Rightarrow> 'a \<Rightarrow> 'a \<Rightarrow> bool" where
  "precedes xs a b \<longleftrightarrow> (\<exists>us vs ws. xs = us @ a # vs @ b # ws)"

lemma precedes_append: "precedes xs a b \<Longrightarrow> precedes (us @ xs @ vs) a b"
  unfolding precedes_def by (metis append.assoc append_Cons)

lemma precedes_append1: "precedes xs a b \<Longrightarrow> precedes (xs @ vs) a b"
  using precedes_append [of xs a b "[]" vs] by simp

lemma precedes_append2: "precedes xs a b \<Longrightarrow> precedes (us @ xs) a b"
  using precedes_append [of xs a b us "[]"] by simp

lemma precedes_split: "a \<in> set us \<Longrightarrow> b \<in> set vs \<Longrightarrow> precedes (us @ vs) a b"
  unfolding precedes_def by (auto simp: in_set_conv_decomp) (metis append.assoc append_Cons)

definition placed :: "driver_entry list \<Rightarrow> nat list \<Rightarrow> nat \<Rightarrow> nat \<Rightarrow> bool" where
  "placed ds xs j k \<longleftrightarrow> child ds j k \<and>
     (Before (ds ! j) \<and> precedes xs j k \<or> After (ds ! j) \<and> precedes xs k j)"

lemma placed_mark [simp]: "placed (mark new ds) xs j k = placed ds xs j k"
  by (auto simp: placed_def child_def)

lemma placed_append1: "placed ds xs j k \<Longrightarrow> placed ds (xs @ ys) j k"
  by (auto simp: placed_def intro: precedes_append1)

lemma placed_append2: "placed ds ys j k \<Longrightarrow> placed ds (xs @ ys) j k"
  by (auto simp: placed_def intro: precedes_append2)

text \<open>The entries one call schedules, below the chain \<open>i # ps\<close>, and those that the loops
  over the \<open>BEFORE\<close> or \<open>AFTER\<close> entries of \<open>i\<close> schedule.\<close>

definition closed_under :: "driver_entry list \<Rightarrow> nat list \<Rightarrow> nat list \<Rightarrow> bool" where
  "closed_under ds ks new \<longleftrightarrow>
     (\<forall>k\<in>set ks. \<forall>j. child ds j k \<and> Dependent (ds ! j) \<longrightarrow> j \<in> set new)"

definition tree :: "driver_entry list \<Rightarrow> nat \<Rightarrow> nat list \<Rightarrow> nat list \<Rightarrow> bool" where
  "tree ds i ps new \<longleftrightarrow> distinct new \<and> i \<in> set new
     \<and> (\<forall>j\<in>set new. j < length ds \<and> Dependent (ds ! j) \<and> (j = i \<or> (\<exists>qs. path ds (j # qs @ i # ps))))
     \<and> (\<forall>j\<in>set new. j = i \<or> (\<exists>k\<in>set new. placed ds new j k))
     \<and> closed_under ds new new"

definition batch ::
  "(driver_entry \<Rightarrow> bool) \<Rightarrow> driver_entry list \<Rightarrow> nat \<Rightarrow> nat list \<Rightarrow> nat list \<Rightarrow> bool" where
  "batch F ds i ps new \<longleftrightarrow> distinct new
     \<and> (\<forall>j\<in>set new. j < length ds \<and> Dependent (ds ! j) \<and> (\<exists>qs. path ds (j # qs @ i # ps)))
     \<and> (\<forall>j\<in>set new. F (ds ! j) \<and> child ds j i \<or> (\<exists>k\<in>set new. placed ds new j k))
     \<and> closed_under ds new new"

lemma batch_Nil: "batch F ds i ps []"
  by (simp add: batch_def closed_under_def)

lemma closed_under_append:
  assumes "closed_under ds a a" "closed_under (mark a ds) b b"
    "set b \<subseteq> {..<length ds}"
  shows "closed_under ds (a @ b) (a @ b)"
  unfolding closed_under_def
proof (intro ballI allI impI)
  fix k j assume k: "k \<in> set (a @ b)" and j: "child ds j k \<and> Dependent (ds ! j)"
  then have jl: "j < length ds" by (simp add: child_def)
  show "j \<in> set (a @ b)"
  proof (cases "k \<in> set a \<or> j \<in> set a")
    case True
    then show ?thesis using assms(1) j by (auto simp: closed_under_def)
  next
    case False
    then have "k \<in> set b" "Dependent (mark a ds ! j)" using k j jl by auto
    then show ?thesis using assms(2) j by (auto simp: closed_under_def)
  qed
qed

lemma batch_append:
  assumes "batch F ds i ps a" "batch F (mark a ds) i ps b"
    and F: "\<And>x. F (schedule1 x) = F x"
  shows "batch F ds i ps (a @ b)"
proof -
  have "closed_under ds (a @ b) (a @ b)"
    using assms by (intro closed_under_append) (auto simp: batch_def)
  moreover have "F (mark a ds ! j) = F (ds ! j)" if "j < length ds" for j
    using that by (simp add: mark_nth F)
  moreover have "F (ds ! j) \<and> child ds j i \<or> (\<exists>k\<in>set (a @ b). placed ds (a @ b) j k)"
    if j: "j \<in> set (a @ b)" for j
  proof (cases "j \<in> set a")
    case True
    with assms(1) have "F (ds ! j) \<and> child ds j i \<or> (\<exists>k\<in>set a. placed ds a j k)"
      by (simp add: batch_def)
    then show ?thesis by (auto dest: placed_append1 [where ys = b])
  next
    case False
    with j assms(2) have "F (mark a ds ! j) \<and> child ds j i \<or> (\<exists>k\<in>set b. placed ds b j k)" "j < length ds"
      by (auto simp: batch_def)
    then show ?thesis
      using \<open>\<And>j. j < length ds \<Longrightarrow> F (mark a ds ! j) = F (ds ! j)\<close>
      by (auto dest: placed_append2 [where xs = a])
  qed
  ultimately show ?thesis
    using assms(1,2) unfolding batch_def by auto
qed

lemma tree_batch:
  assumes "tree ds c (i # ps) new" "child ds c i" "F (ds ! c)" "path ds (i # ps)"
  shows "batch F ds i ps new"
  unfolding batch_def
proof (intro conjI ballI)
  fix j assume j: "j \<in> set new"
  then have "j = c \<or> (\<exists>qs. path ds (j # qs @ c # i # ps))" using assms(1) by (auto simp: tree_def)
  then show "\<exists>qs. path ds (j # qs @ i # ps)"
  proof
    assume "j = c"
    then have "path ds (j # [] @ i # ps)" using assms(2,4) by simp
    then show ?thesis by blast
  next
    assume "\<exists>qs. path ds (j # qs @ c # i # ps)"
    then obtain qs where "path ds (j # (qs @ [c]) @ i # ps)" by auto
    then show ?thesis by blast
  qed
qed (use assms in \<open>auto simp: tree_def\<close>)

lemma batch_not_root:
  assumes "unique_names ds" "batch F ds i ps new"
  shows "i \<notin> set new"
proof
  assume "i \<in> set new"
  then obtain qs where "path ds (i # qs @ i # ps)" using assms(2) by (auto simp: batch_def)
  with path_distinct [OF assms(1)] show False by fastforce
qed

lemma batch_placed:
  "batch F ds i ps new \<Longrightarrow> j \<in> set new \<Longrightarrow>
     F (ds ! j) \<and> child ds j i \<or> (\<exists>k\<in>set new. placed ds new j k)"
  by (simp add: batch_def)

lemma batch_small: "batch F ds i ps new \<Longrightarrow> j \<in> set new \<Longrightarrow> j < length ds"
  by (simp add: batch_def)

text \<open>The call is the loop over the \<open>BEFORE\<close> entries, the entry itself, and the loop over the
  \<open>AFTER\<close> entries.\<close>

lemma batches_tree:
  assumes u: "unique_names ds" and i: "i < length ds" "Dependent (ds ! i)" "path ds (i # ps)"
    and b: "batch Before ds i ps b" and a: "batch After (mark (b @ [i]) ds) i ps a"
    and cb: "\<And>j. \<lbrakk>child ds j i; Before (ds ! j); Dependent (ds ! j)\<rbrakk> \<Longrightarrow> j \<in> set b"
    and ca: "\<And>j. \<lbrakk>child ds j i; After (ds ! j); Dependent (mark (b @ [i]) ds ! j)\<rbrakk> \<Longrightarrow> j \<in> set a"
  shows "tree ds i ps ((b @ [i]) @ a)" (is "tree ds i ps ?new")
proof -
  have ib: "i \<notin> set b" using batch_not_root [OF u b] .
  have small: "set ?new \<subseteq> {..<length ds}" using a b i by (auto simp: batch_def)
  have "distinct ?new"
    using a b ib small by (auto simp: batch_def)
  moreover have "j < length ds \<and> Dependent (ds ! j) \<and> (j = i \<or> (\<exists>qs. path ds (j # qs @ i # ps)))"
    if "j \<in> set ?new" for j
    using that a b i small by (auto simp: batch_def)
  moreover have "j = i \<or> (\<exists>k\<in>set ?new. placed ds ?new j k)" if j: "j \<in> set ?new" for j
  proof -
    consider "j = i" | "j \<in> set b" "Before (ds ! j)" "child ds j i"
      | k where "k \<in> set b" "placed ds b j k"
      | "j \<in> set a" "After (ds ! j)" "child ds j i" | k where "k \<in> set a" "placed ds a j k"
      using j batch_placed [OF a, of j] batch_placed [OF b, of j] batch_small [OF a, of j] by auto
    then show ?thesis
    proof cases
      case 2
      then have "precedes ((b @ [i]) @ a) j i" by (intro precedes_append1 precedes_split) auto
      with 2 have "placed ds ?new j i" by (simp add: placed_def)
      then show ?thesis by auto
    next
      case 4
      then have "precedes ((b @ [i]) @ a) i j" by (intro precedes_split) auto
      with 4 have "placed ds ?new j i" by (simp add: placed_def)
      then show ?thesis by auto
    next
      case (3 k)
      then have "placed ds ?new j k" by (intro placed_append1)
      with 3 show ?thesis by auto
    next
      case (5 k)
      then have "placed ds ?new j k" by (intro placed_append2)
      with 5 show ?thesis by auto
    qed simp
  qed
  moreover have "closed_under ds ?new ?new"
  proof -
    have "j \<in> set ?new" if k: "k \<in> set ?new" and "child ds j k" "Dependent (ds ! j)" for j k
    proof -
      have jl: "j < length ds" using that by (simp add: child_def)
      consider "k = i" | "k \<in> set b" | "k \<in> set a" using k by auto
      then show ?thesis
      proof cases
        case 1
        then have ch: "child ds j i" using that by simp
        then consider "Before (ds ! j)" | "After (ds ! j)" by (auto simp: child_def)
        then show ?thesis
        proof cases
          case 1
          then show ?thesis using cb [OF ch] that(3) by simp
        next
          case 2
          then show ?thesis using ca [OF ch 2] that(3) jl by (cases "j \<in> set b") auto
        qed
      next
        case 2
        moreover have "closed_under ds b b" using b by (simp add: batch_def)
        ultimately show ?thesis using that(2,3) by (simp add: closed_under_def)
      next
        case 3
        have "Dependent (mark (b @ [i]) ds ! j) \<longleftrightarrow> j \<notin> set (b @ [i])" using that(3) jl by simp
        moreover have "closed_under (mark (b @ [i]) ds) a a" using a by (simp add: batch_def)
        ultimately show ?thesis using 3 that(2) unfolding closed_under_def child_mark by auto
      qed
    qed
    then show ?thesis by (auto simp: closed_under_def)
  qed
  ultimately show ?thesis by (auto simp: tree_def)
qed

text \<open>The queue only holds entries that are no longer dependent.\<close>

definition queue_ok :: "'e disp \<Rightarrow> bool" where
  "queue_ok d \<longleftrightarrow> (\<forall>i\<in>set (mScheduledQueue d). i < length (mDiscoveredList d) \<and> \<not> Dependent (entry d i))"

lemma queue_ok_sched: "queue_ok d \<Longrightarrow> set new \<subseteq> {..<length (mDiscoveredList d)} \<Longrightarrow> queue_ok (sched new d)"
  by (auto simp: queue_ok_def)

lemma insert_loop:
  assumes body: "\<And>j e. body j e =
      (if F (entry e j) \<and> Dependent (entry e j) \<and> j \<noteq> i \<and> FileName (entry e i) = BeforeAfterGuid (entry e j)
       then insert_sched n j e else Some e)"
    and F: "\<And>x. F (schedule1 x) = F x" "\<And>x. F x \<Longrightarrow> Before x \<or> After x"
    and IH: "\<And>c (e :: 'e disp). \<lbrakk>unique_names (mDiscoveredList e); queue_ok e; c < length (mDiscoveredList e);
        Dependent (entry e c); path (mDiscoveredList e) (c # i # ps); length (mDiscoveredList e) = len\<rbrakk> \<Longrightarrow>
        \<exists>new. insert_sched n c e = Some (sched new e) \<and> tree (mDiscoveredList e) c (i # ps) new"
    and "unique_names (mDiscoveredList d)" "queue_ok d" "path (mDiscoveredList d) (i # ps)"
      "length (mDiscoveredList d) = len" "set js \<subseteq> {..<len}" "i < len"
  shows "\<exists>new. for_each body js (d :: 'e disp) = Some (sched new d) \<and> batch F (mDiscoveredList d) i ps new \<and>
     (\<forall>j\<in>set js. child (mDiscoveredList d) j i \<and> F (entry d j) \<and> Dependent (entry d j) \<longrightarrow> j \<in> set new)"
  using assms(5-)
proof (induction js arbitrary: d)
  case Nil
  then show ?case by (auto simp: batch_Nil sched_Nil intro!: exI [of _ "[]"])
next
  case (Cons c js)
  let ?ds = "mDiscoveredList d"
  show ?case
  proof (cases "F (entry d c) \<and> Dependent (entry d c) \<and> c \<noteq> i \<and> FileName (entry d i) = BeforeAfterGuid (entry d c)")
    case False
    with Cons.prems Cons.IH [of d] show ?thesis
      by (auto simp: body child_def)
  next
    case True
    then have ch: "child ?ds c i" using Cons.prems F(2) by (auto simp: child_def)
    with Cons.prems have "path ?ds (c # i # ps)" by simp
    with IH [of d c] True Cons.prems obtain t where
      t: "insert_sched n c d = Some (sched t d)" "tree ?ds c (i # ps) t" by auto
    have bt: "batch F ?ds i ps t" using tree_batch [OF t(2) ch] True Cons.prems by simp
    have "queue_ok (sched t d)" using bt Cons.prems by (intro queue_ok_sched) (auto simp: batch_def)
    with Cons.IH [of "sched t d"] Cons.prems obtain new where
      new: "for_each body js (sched t d) = Some (sched new (sched t d))" "batch F (mark t ?ds) i ps new"
        "\<forall>j\<in>set js. child ?ds j i \<and> F (mark t ?ds ! j) \<and> Dependent (mark t ?ds ! j) \<longrightarrow> j \<in> set new"
      by auto
    have "c \<in> set t" using t(2) by (simp add: tree_def)
    moreover have "F (mark t ?ds ! j) = F (?ds ! j)" if "j < len" for j
      using that Cons.prems by (simp add: mark_nth F)
    ultimately have all: "j \<in> set (t @ new)"
      if "j \<in> set (c # js)" "child ?ds j i" "F (entry d j)" "Dependent (entry d j)" for j
      using that new(3) Cons.prems by (cases "j \<in> set t") (auto simp: child_def)
    have "for_each body (c # js) d = Some (sched (t @ new) d)"
      using True t new(1) by (simp add: body [of c d] sched_sched)
    with all batch_append [OF bt new(2) F(1)] show ?thesis by blast
  qed
qed

lemma insert_sched_tree:
  assumes "unique_names (mDiscoveredList d)" "queue_ok d" "i < length (mDiscoveredList d)"
    "Dependent (entry d i)" "path (mDiscoveredList d) (i # ps)"
    "length (mDiscoveredList d) < n + length (i # ps)"
  shows "\<exists>new. insert_sched n i d = Some (sched new d) \<and> tree (mDiscoveredList d) i ps new"
  using assms
proof (induction n arbitrary: d i ps)
  case 0
  then show ?case using path_length [OF 0(1) 0(5)] by simp
next
  case (Suc n)
  let ?ds = "mDiscoveredList d"
  let ?body = "\<lambda>F j e. if F (entry e j) \<and> Dependent (entry e j) \<and> j \<noteq> i
       \<and> FileName (entry e i) = BeforeAfterGuid (entry e j) then insert_sched n j e else Some e"
  have IH: "\<exists>new. insert_sched n c e = Some (sched new e) \<and> tree (mDiscoveredList e) c (i # ps) new"
    if "unique_names (mDiscoveredList e)" "queue_ok e" "c < length (mDiscoveredList e)"
       "Dependent (entry e c)" "path (mDiscoveredList e) (c # i # ps)"
       "length (mDiscoveredList e) = length ?ds" for c and e :: "'a disp"
    using Suc.IH [OF that(1-5)] Suc.prems(6) that(6) by simp
  obtain b where b: "for_each (?body Before) [0..<length ?ds] d = Some (sched b d)"
      "batch Before ?ds i ps b"
      "\<forall>j\<in>set [0..<length ?ds]. child ?ds j i \<and> Before (entry d j) \<and> Dependent (entry d j) \<longrightarrow> j \<in> set b"
    using insert_loop [where body = "?body Before" and F = Before and d = d and js = "[0..<length ?ds]",
        OF refl _ _ IH] Suc.prems by (auto simp del: upt_Suc simp: subset_eq)
  have sb: "set b \<subseteq> {..<length ?ds}" using b(2) by (auto simp: batch_def)
  have ib: "i \<notin> set b" using batch_not_root [OF Suc.prems(1) b(2)] .
  have link: "link_scheduled i (put_entry i ((entry (sched b d) i)\<lparr>Dependent := False, Scheduled := True\<rparr>) (sched b d))
      = Some (sched [i] (sched b d))"
    using Suc.prems ib by (intro link_is_sched) (auto simp: queue_ok_def)
  let ?e = "sched (b @ [i]) d"
  have qe: "queue_ok ?e" using Suc.prems sb by (intro queue_ok_sched) auto
  obtain a where a: "for_each (?body After) [0..<length ?ds] ?e = Some (sched a ?e)"
      "batch After (mark (b @ [i]) ?ds) i ps a"
      "\<forall>j\<in>set [0..<length ?ds]. child ?ds j i \<and> After (mark (b @ [i]) ?ds ! j)
          \<and> Dependent (mark (b @ [i]) ?ds ! j) \<longrightarrow> j \<in> set a"
    using insert_loop [where body = "?body After" and F = After and d = ?e and js = "[0..<length ?ds]",
        OF refl _ _ IH] Suc.prems qe by (auto simp del: upt_Suc simp: subset_eq)
  have "tree ?ds i ps ((b @ [i]) @ a)"
    using b(3) a(3)
    by (intro batches_tree [OF Suc.prems(1,3,4,5) b(2) a(2)]) (auto simp: child_def)
  moreover have "insert_sched (Suc n) i d = Some (sched ((b @ [i]) @ a) d)"
    using b(1) a(1) link by (simp add: sched_sched del: upt_Suc)
  ultimately show ?case by blast
qed

section \<open>Properties\<close>

text \<open>C2. Scheduling a driver whose dependencies are met (file names being unique) terminates
  within a recursion depth of the number of drivers, and appends to the queue that
  driver and exactly the dependent drivers attached to it, directly or not, by \<open>BEFORE\<close>
  or \<open>AFTER\<close>: each is queued once, on the side of its target that it asked for; every
  other entry is unchanged.\<close>

theorem Insert_orders_before_and_after:
  assumes "unique_names (mDiscoveredList d)" "queue_ok d" "i < length (mDiscoveredList d)"
    "Dependent (entry d i)" "\<not> Before (entry d i)" "\<not> After (entry d i)"
  shows "\<exists>new. CoreInsertOnScheduledQueueWhileProcessingBeforeAndAfter (length (mDiscoveredList d)) i d
        = Some (d\<lparr>mDiscoveredList := mark new (mDiscoveredList d),
                 mScheduledQueue := mScheduledQueue d @ new\<rparr>)
    \<and> i \<in> set new \<and> distinct new \<and> (\<forall>j\<in>set new. Dependent (entry d j))
    \<and> (\<forall>j\<in>set new. j = i \<or> (\<exists>k\<in>set new. placed (mDiscoveredList d) new j k))
    \<and> (\<forall>k\<in>set new. \<forall>j. child (mDiscoveredList d) j k \<and> Dependent (entry d j) \<longrightarrow> j \<in> set new)"
  using insert_sched_tree [of d i "[]" "length (mDiscoveredList d)"] assms
  by (auto simp: tree_def closed_under_def sched_def)

definition named :: "u8 \<Rightarrow> bool \<Rightarrow> bool \<Rightarrow> u8 \<Rightarrow> driver_entry" where
  "named nm bef aft tgt = zero_entry\<lparr>FileName := replicate 16 nm, Before := bef, After := aft,
     BeforeAfterGuid := replicate 16 tgt, Dependent := True\<rparr>"

definition start_state :: "driver_entry list \<Rightarrow> unit disp" where
  "start_state ds = \<lparr>mDiscoveredList = ds, mScheduledQueue = [], gDispatcherRunning = True,
     gDepexStack = empty_stack, report = [], sys = ()\<rparr>"

lemma Insert_orders_before_and_after_witness:
  "\<exists>d. CoreInsertOnScheduledQueueWhileProcessingBeforeAndAfter 3 0
     (start_state [named 1 False False 0, named 2 False True 1, named 3 True False 2]) = Some d
     \<and> 0 \<in> set (mScheduledQueue d)"
  using Insert_orders_before_and_after
    [of "start_state [named 1 False False 0, named 2 False True 1, named 3 True False 2]" 0]
  by (auto simp: start_state_def named_def zero_entry_def unique_names_def queue_ok_def numeral_3_eq_3
      less_Suc_eq nth_Cons')

definition twins :: "unit disp" where
  "twins = start_state [named 1 True False 1, named 1 True False 1]"

text \<open>C39. Without unique names the recursion need not end: two dependent drivers that carry the
  name they both want to precede are inserted for each other for ever, so that no
  recursion depth is enough.\<close>

theorem Insert_same_name_diverges:
  "i \<in> {0, 1} \<Longrightarrow> CoreInsertOnScheduledQueueWhileProcessingBeforeAndAfter n i twins = None"
proof (induction n arbitrary: i)
  case (Suc n)
  have len: "length (mDiscoveredList twins) = Suc (Suc 0)" by (simp add: twins_def start_state_def)
  have "entry twins 0 = named 1 True False 1" "entry twins (Suc 0) = named 1 True False 1"
    by (simp_all add: twins_def start_state_def)
  then show ?case
    using Suc.prems Suc.IH [of 0] Suc.IH [of "Suc 0"]
    by (auto simp: len named_def zero_entry_def)
qed simp

lemma Insert_same_name_diverges_witness:
  "CoreInsertOnScheduledQueueWhileProcessingBeforeAndAfter 100 0 twins = None"
  using Insert_same_name_diverges [of 0 100] by simp

end
