(* ===== verification/DispatcherRun.thy ===== *)
theory DispatcherRun
  imports Dispatcher
begin

text \<open>
  The life of a driver in the dispatcher: an invariant of the discovered list, the queue and
  the report of started images, its preservation by every operation of
  \<open>Dispatcher.c\<close> and by whatever a started image does through the DXE services, and the
  properties of a whole run of \<open>CoreDispatcher\<close>.
\<close>

section \<open>The invariant\<close>

text \<open>A driver is in at most one of the states of the DXE CIS state diagram.\<close>

definition state_ok :: "driver_entry \<Rightarrow> bool" where
  "state_ok x \<longleftrightarrow> length (filter id
     [Dependent x, Unrequested x, Scheduled x, Untrusted x, Initialized x, DepexProtocolError x]) \<le> 1"

definition run_inv :: "'e disp \<Rightarrow> bool" where
  "run_inv d \<longleftrightarrow>
     (\<forall>i<length (mDiscoveredList d). state_ok (entry d i))
     \<and> unique_names (mDiscoveredList d)
     \<and> distinct (mScheduledQueue d)
     \<and> (\<forall>i. i \<in> set (mScheduledQueue d) \<longleftrightarrow> i < length (mDiscoveredList d) \<and> Scheduled (entry d i))
     \<and> distinct (report d)
     \<and> (\<forall>i\<in>set (report d). i < length (mDiscoveredList d) \<and> Initialized (entry d i))"

lemma run_invD:
  assumes "run_inv d"
  shows "i < length (mDiscoveredList d) \<Longrightarrow> state_ok (entry d i)" "unique_names (mDiscoveredList d)"
    "distinct (mScheduledQueue d)"
    "i \<in> set (mScheduledQueue d) \<longleftrightarrow> i < length (mDiscoveredList d) \<and> Scheduled (entry d i)"
    "distinct (report d)" "i \<in> set (report d) \<Longrightarrow> i < length (mDiscoveredList d) \<and> Initialized (entry d i)"
  using assms by (auto simp: run_inv_def)

lemma state_ok_Scheduled:
  "\<lbrakk>state_ok x; Scheduled x\<rbrakk> \<Longrightarrow> \<not> Dependent x \<and> \<not> Unrequested x \<and> \<not> Untrusted x \<and> \<not> Initialized x \<and> \<not> DepexProtocolError x"
  by (auto simp: state_ok_def split: if_splits)

lemma state_ok_Dependent:
  "\<lbrakk>state_ok x; Dependent x\<rbrakk> \<Longrightarrow> \<not> Scheduled x \<and> \<not> Unrequested x \<and> \<not> Untrusted x \<and> \<not> Initialized x \<and> \<not> DepexProtocolError x"
  by (auto simp: state_ok_def split: if_splits)

lemma state_ok_idle:
  "\<lbrakk>state_ok x; Unrequested x \<or> Untrusted x \<or> DepexProtocolError x\<rbrakk> \<Longrightarrow>
     \<not> Scheduled x \<and> \<not> Dependent x \<and> \<not> Initialized x"
  by (auto simp: state_ok_def split: if_splits)

lemma run_inv_queue_ok: "run_inv d \<Longrightarrow> queue_ok d"
  by (auto simp: queue_ok_def run_inv_def dest: state_ok_Scheduled)

lemma put_entry_fields [simp]:
  "mScheduledQueue (put_entry i x d) = mScheduledQueue d" "report (put_entry i x d) = report d"
  "mDiscoveredList (put_entry i x d) = (mDiscoveredList d)[i := x]"
  "gDispatcherRunning (put_entry i x d) = gDispatcherRunning d" "sys (put_entry i x d) = sys d"
  "gDepexStack (put_entry i x d) = gDepexStack d"
  by (simp_all add: put_entry_def)

lemma unique_names_distinct: "unique_names ds \<longleftrightarrow> distinct (map FileName ds)"
  by (auto simp: unique_names_def distinct_conv_nth)

lemma unique_names_update:
  "\<lbrakk>unique_names ds; FileName x = FileName (ds ! i)\<rbrakk> \<Longrightarrow> unique_names (ds[i := x])"
proof -
  assume u: "unique_names ds" and x: "FileName x = FileName (ds ! i)"
  have "map FileName (ds[i := x]) = map FileName ds"
  proof (rule nth_equalityI)
    fix j assume "j < length (map FileName (ds[i := x]))"
    then show "map FileName (ds[i := x]) ! j = map FileName ds ! j"
      using x by (cases "j = i") simp_all
  qed simp
  with u show ?thesis by (simp add: unique_names_distinct)
qed

text \<open>Replacing an entry that keeps its name and whether it is scheduled or initialized.\<close>

lemma run_inv_put:
  assumes "run_inv d" "i < length (mDiscoveredList d)" "state_ok x" "FileName x = FileName (entry d i)"
    "Scheduled x = Scheduled (entry d i)" "Initialized (entry d i) \<Longrightarrow> Initialized x"
  shows "run_inv (put_entry i x d)"
proof -
  have "state_ok (entry (put_entry i x d) j) \<and> Scheduled (entry (put_entry i x d) j) = Scheduled (entry d j)
      \<and> (Initialized (entry d j) \<longrightarrow> Initialized (entry (put_entry i x d) j))"
    if "j < length (mDiscoveredList d)" for j
    using that assms run_invD(1) [OF assms(1) that] by (cases "j = i") simp_all
  moreover have "unique_names (mDiscoveredList (put_entry i x d))"
    using assms(4) run_invD(2) [OF assms(1)] by (simp add: unique_names_update)
  ultimately show ?thesis
    using assms(1) unfolding run_inv_def put_entry_fields length_list_update by auto
qed

text \<open>Replacing an entry that becomes scheduled, and linking it.\<close>

lemma run_inv_link:
  assumes inv: "run_inv d" and i: "i < length (mDiscoveredList d)" "\<not> Scheduled (entry d i)"
    "\<not> Initialized (entry d i)"
    and x: "state_ok x" "FileName x = FileName (entry d i)" "Scheduled x"
  shows "\<exists>d'. link_scheduled i (put_entry i x d) = Some d' \<and> run_inv d' \<and> report d' = report d
     \<and> mScheduledQueue d' = mScheduledQueue d @ [i] \<and> mDiscoveredList d' = (mDiscoveredList d)[i := x]
     \<and> gDispatcherRunning d' = gDispatcherRunning d \<and> sys d' = sys d"
proof -
  have "i \<notin> set (mScheduledQueue d)" "i \<notin> set (report d)" using inv i by (auto simp: run_inv_def)
  then show ?thesis
    using inv i x
    by (auto simp: link_scheduled_def run_inv_def nth_list_update unique_names_update)
qed

text \<open>Replacing an entry that leaves the scheduled state, and unlinking it.\<close>

lemma run_inv_unlink:
  assumes inv: "run_inv d" and i: "i < length (mDiscoveredList d)" "Scheduled (entry d i)"
    and x: "state_ok x" "FileName x = FileName (entry d i)" "\<not> Scheduled x"
  shows "\<exists>d'. unlink_scheduled i (put_entry i x d) = Some d' \<and> run_inv d' \<and> report d' = report d
     \<and> mScheduledQueue d' = remove1 i (mScheduledQueue d) \<and> mDiscoveredList d' = (mDiscoveredList d)[i := x]
     \<and> gDispatcherRunning d' = gDispatcherRunning d \<and> sys d' = sys d"
proof -
  have "i \<in> set (mScheduledQueue d)" using inv i by (simp add: run_invD)
  moreover have "\<not> Initialized (entry d i)" using state_ok_Scheduled [OF run_invD(1) [OF inv i(1)] i(2)] by simp
  moreover have "set (remove1 i (mScheduledQueue d)) = set (mScheduledQueue d) - {i}"
    using inv by (simp add: run_invD set_remove1_eq)
  ultimately show ?thesis
    using inv i x
    by (auto simp: unlink_scheduled_def run_inv_def nth_list_update unique_names_update)
qed

section \<open>Operations\<close>

text \<open>\<open>grows d d'\<close>: the invariant holds in \<open>d'\<close>; drivers were only added, and nothing that was
  queued, started or reported is undone.\<close>

definition grows :: "'e disp \<Rightarrow> 'e disp \<Rightarrow> bool" where
  "grows d d' \<longleftrightarrow> run_inv d' \<and> report d' = report d
     \<and> length (mDiscoveredList d) \<le> length (mDiscoveredList d')
     \<and> set (mScheduledQueue d) \<subseteq> set (mScheduledQueue d')
     \<and> (\<forall>i<length (mDiscoveredList d). Initialized (entry d' i) = Initialized (entry d i)
          \<and> ImageHandle (entry d' i) = ImageHandle (entry d i) \<and> IsFvImage (entry d' i) = IsFvImage (entry d i))"

lemma grows_refl: "run_inv d \<Longrightarrow> grows d d"
  by (simp add: grows_def)

lemma grows_trans: "grows a b \<Longrightarrow> grows b c \<Longrightarrow> grows a c"
  unfolding grows_def by auto

lemma find_entry_Some:
  "find_entry P d = Some i \<Longrightarrow> i < length (mDiscoveredList d) \<and> P (entry d i)"
  by (auto simp: find_entry_def find_Some_iff)

lemma CoreSchedule_grows:
  assumes "run_inv d"
  shows "grows d (snd (CoreSchedule h g d))"
proof (cases "find_entry (\<lambda>x. FvHandle x = h \<and> Unrequested x \<and> g = FileName x) d")
  case None
  then show ?thesis using assms by (simp add: CoreSchedule_def grows_refl)
next
  case (Some i)
  let ?x = "(entry d i)\<lparr>Unrequested := False, Dependent := True\<rparr>"
  from Some have i: "i < length (mDiscoveredList d)" "Unrequested (entry d i)"
    by (auto dest: find_entry_Some)
  have "run_inv (put_entry i ?x d)"
    using i assms run_invD(1) [OF assms i(1)]
    by (intro run_inv_put) (auto simp: state_ok_def split: if_splits)
  with Some i show ?thesis
    by (simp add: CoreSchedule_def grows_def nth_list_update)
qed

lemma link_grows:
  assumes "run_inv d" "i < length (mDiscoveredList d)" "\<not> Scheduled (entry d i)" "\<not> Initialized (entry d i)"
    "state_ok x" "FileName x = FileName (entry d i)" "Scheduled x" "\<not> Initialized x"
    "ImageHandle x = ImageHandle (entry d i)" "IsFvImage x = IsFvImage (entry d i)"
  shows "\<exists>d'. link_scheduled i (put_entry i x d) = Some d' \<and> grows d d'"
  using run_inv_link [OF assms(1-7)] assms by (auto simp: grows_def nth_list_update)

lemma CoreTrust_grows:
  assumes "run_inv d"
  shows "\<exists>st d'. CoreTrust h g d = Some (st, d') \<and> grows d d'"
proof (cases "find_entry (\<lambda>x. FvHandle x = h \<and> Untrusted x \<and> g = FileName x) d")
  case None
  then show ?thesis using assms by (simp add: CoreTrust_def grows_refl)
next
  case (Some i)
  let ?x = "(entry d i)\<lparr>Untrusted := False, Scheduled := True\<rparr>"
  from Some have i: "i < length (mDiscoveredList d)" "Untrusted (entry d i)"
    by (auto dest: find_entry_Some)
  then obtain d' where "link_scheduled i (put_entry i ?x d) = Some d' \<and> grows d d'"
    using link_grows [OF assms i(1), of ?x] state_ok_idle [OF run_invD(1) [OF assms i(1)]]
      run_invD(1) [OF assms i(1)]
    by (auto simp: state_ok_def split: if_splits)
  with Some show ?thesis by (simp add: CoreTrust_def)
qed

lemma run_inv_sys: "run_inv (d\<lparr>sys := e\<rparr>) = run_inv d" "run_inv (d\<lparr>gDepexStack := s\<rparr>) = run_inv d"
    "run_inv (d\<lparr>gDispatcherRunning := b\<rparr>) = run_inv d"
  by (simp_all add: run_inv_def)

text \<open>Reading the dependency expression of an entry that is new, or whose reading was put off.\<close>

lemma CorePreProcessDepex_state:
  assumes "CorePreProcessDepex x = Some (st, y)"
  shows "FileName y = FileName x \<and> Scheduled y = Scheduled x \<and> Untrusted y = Untrusted x
    \<and> Initialized y = Initialized x \<and> ImageHandle y = ImageHandle x \<and> IsFvImage y = IsFvImage x
    \<and> Depex y = Depex x \<and> DepexSize y = DepexSize x
    \<and> (Unrequested y \<and> Dependent y = Dependent x \<or> Unrequested y = Unrequested x \<and> Dependent y)"
proof -
  obtain mem op where m: "Depex x = Some mem" "load8 mem 0 = Some op"
    using assms by (auto simp: CorePreProcessDepex_def)
  consider "op = EFI_DEP_SOR" | "op = EFI_DEP_BEFORE" | "op = EFI_DEP_AFTER"
    | "op \<noteq> EFI_DEP_SOR" "op \<noteq> EFI_DEP_BEFORE" "op \<noteq> EFI_DEP_AFTER" by blast
  then show ?thesis
    by cases (use assms in \<open>auto simp: CorePreProcessDepex_def m Let_def split: if_splits\<close>)
qed

lemma state_ok_None: "\<lbrakk>\<not> Dependent x; \<not> Unrequested x; \<not> Scheduled x; \<not> Untrusted x; \<not> Initialized x\<rbrakk> \<Longrightarrow> state_ok x"
  by (simp add: state_ok_def)

lemma CoreGetDepex_state:
  assumes "CoreGetDepexSectionAndPreProccess env x e = Some (st, y, e')"
    and "\<not> Dependent x" "\<not> Unrequested x" "\<not> Scheduled x" "\<not> Untrusted x" "\<not> Initialized x"
  shows "state_ok y \<and> FileName y = FileName x \<and> \<not> Scheduled y \<and> \<not> Initialized y
     \<and> ImageHandle y = ImageHandle x \<and> IsFvImage y = IsFvImage x"
proof (cases "EFI_ERROR (fst (fst (ReadDepex env x e)))")
  case True
  then show ?thesis
    using assms
    by (cases "fst (fst (ReadDepex env x e)) = EFI_PROTOCOL_ERROR")
      (auto simp: CoreGetDepexSectionAndPreProccess_def split_beta state_ok_def)
next
  case False
  with assms(1) obtain z mem w where
    z: "CorePreProcessDepex (x\<lparr>Depex := Some mem, DepexSize := length mem\<rparr>) = Some (w, z)"
       "y = z\<lparr>DepexProtocolError := False\<rparr>"
    by (auto simp: CoreGetDepexSectionAndPreProccess_def split_beta)
  from CorePreProcessDepex_state [OF z(1)] show ?thesis
    using z(2) assms by (cases "Unrequested z") (simp_all add: state_ok_def)
qed

lemma zero_entry_simps [simp]:
  "\<not> Dependent zero_entry" "\<not> Unrequested zero_entry" "\<not> Scheduled zero_entry" "\<not> Untrusted zero_entry"
  "\<not> Initialized zero_entry" "\<not> DepexProtocolError zero_entry" "\<not> Before zero_entry" "\<not> After zero_entry"
  by (simp_all add: zero_entry_def)

lemma run_inv_append:
  assumes "run_inv d" "state_ok x" "\<not> Scheduled x" "FileName x \<notin> FileName ` set (mDiscoveredList d)"
  shows "run_inv (d\<lparr>mDiscoveredList := mDiscoveredList d @ [x]\<rparr>)"
proof -
  have "unique_names (mDiscoveredList d @ [x])"
    using assms(1,4) by (simp add: run_inv_def unique_names_distinct)
  then show ?thesis
    using assms(1-3) by (auto simp: run_inv_def nth_append less_Suc_eq)
qed

lemma CoreAddToDriverList_grows:
  assumes "run_inv d" "CoreAddToDriverList env fv h g t d = Some (st, d')"
    and "g \<notin> FileName ` set (mDiscoveredList d)"
  shows "grows d d'"
proof -
  obtain st' x e where x: "CoreGetDepexSectionAndPreProccess env
       (zero_entry\<lparr>IsFvImage := t, FileName := g, FvHandle := h, Fv := fv\<rparr>) (sys d) = Some (st', x, e)"
    and d': "d' = d\<lparr>mDiscoveredList := mDiscoveredList d @ [x], sys := e\<rparr>"
    using assms(2) by (auto simp: CoreAddToDriverList_def)
  have "state_ok (zero_entry\<lparr>IsFvImage := t, FileName := g, FvHandle := h, Fv := fv\<rparr>)"
    by (simp add: state_ok_def)
  with CoreGetDepex_state [OF x] have "state_ok x" "\<not> Scheduled x" "FileName x = g"
    by simp_all
  then show ?thesis
    using run_inv_append [OF assms(1), of x] assms(1,3)
    by (auto simp: d' grows_def nth_append run_inv_sys)
qed

text \<open>The a priori file is harmless when it names each driver once, and only drivers that are
  dependent.\<close>

lemma schedule_apriori_grows:
  assumes "run_inv d" "distinct gs"
    "\<And>i. \<lbrakk>i < length (mDiscoveredList d); FileName (entry d i) \<in> set gs\<rbrakk> \<Longrightarrow> Dependent (entry d i)"
  shows "\<exists>d'. schedule_apriori h gs d = Some d' \<and> grows d d'"
  using assms
proof (induction gs arbitrary: d)
  case Nil
  then show ?case by (simp add: grows_refl)
next
  case (Cons g gs)
  show ?case
  proof (cases "find_entry (\<lambda>x. FileName x = g \<and> h = FvHandle x) d")
    case None
    with Cons show ?thesis by simp
  next
    case (Some i)
    let ?x = "(entry d i)\<lparr>Dependent := False, Scheduled := True\<rparr>"
    from Some have i: "i < length (mDiscoveredList d)" "FileName (entry d i) = g"
      by (auto dest: find_entry_Some)
    then have dep: "Dependent (entry d i)" using Cons.prems by simp
    note ok = run_invD(1) [OF Cons.prems(1) i(1)]
    have "state_ok ?x" using dep ok by (auto simp: state_ok_def split: if_splits)
    then obtain d1 where d1: "link_scheduled i (put_entry i ?x d) = Some d1" "grows d d1"
      using link_grows [OF Cons.prems(1) i(1), of ?x] state_ok_Dependent [OF ok dep] by auto
    have ds: "mDiscoveredList d1 = (mDiscoveredList d)[i := ?x]"
      using d1(1) by (auto simp: link_scheduled_def split: if_splits)
    have "Dependent (entry d1 j)" if "j < length (mDiscoveredList d1)" "FileName (entry d1 j) \<in> set gs" for j
      using that Cons.prems(2,3) i by (cases "j = i") (auto simp: ds)
    with Cons.IH [of d1] Cons.prems(2) d1(2) obtain d' where
      "schedule_apriori h gs d1 = Some d'" "grows d1 d'"
      by (auto simp: grows_def)
    with d1 Some show ?thesis by (auto intro: grows_trans)
  qed
qed

section \<open>What an image may do\<close>

text \<open>A started image (or a notification it triggers) changes the dispatcher only through the
  services it is given.\<close>

inductive service_step :: "'e disp_env \<Rightarrow> 'e disp \<Rightarrow> 'e disp \<Rightarrow> bool" for env where
  elsewhere: "service_step env d (d\<lparr>sys := e\<rparr>)"
| Schedule: "service_step env d (snd (CoreSchedule h g d))"
| Trust: "CoreTrust h g d = Some (st, d') \<Longrightarrow> service_step env d d'"
| Discover: "\<lbrakk>CoreAddToDriverList env fv h g t d = Some (st, d'); g \<notin> FileName ` set (mDiscoveredList d)\<rbrakk>
     \<Longrightarrow> service_step env d d'"
| Apriori: "\<lbrakk>schedule_apriori h gs d = Some d'; distinct gs;
       \<And>i. \<lbrakk>i < length (mDiscoveredList d); FileName (entry d i) \<in> set gs\<rbrakk> \<Longrightarrow> Dependent (entry d i)\<rbrakk>
     \<Longrightarrow> service_step env d d'"

abbreviation services :: "'e disp_env \<Rightarrow> 'e disp \<Rightarrow> 'e disp \<Rightarrow> bool" where
  "services env \<equiv> (service_step env)\<^sup>*\<^sup>*"

lemma service_step_grows: "service_step env d d' \<Longrightarrow> run_inv d \<Longrightarrow> grows d d'"
proof (induction rule: service_step.induct)
  case (elsewhere d e)
  then show ?case by (simp add: grows_def run_inv_sys)
next
  case (Schedule d h g)
  then show ?case by (rule CoreSchedule_grows)
next
  case (Trust h g d st d')
  then show ?case using CoreTrust_grows [of d h g] by simp
next
  case (Discover fv h g t d st d')
  then show ?case by (blast intro: CoreAddToDriverList_grows)
next
  case (Apriori h gs d d')
  then show ?case using schedule_apriori_grows [of d gs h] by auto
qed

lemma services_grow: "services env d d' \<Longrightarrow> run_inv d \<Longrightarrow> grows d d'"
proof (induction rule: rtranclp_induct)
  case base
  then show ?case by (rule grows_refl)
next
  case (step y z)
  then have "grows d y" by blast
  moreover from this have "run_inv y" by (simp add: grows_def)
  then have "grows y z" by (rule service_step_grows [OF step(2)])
  ultimately show ?case by (rule grows_trans)
qed

section \<open>A run of the dispatcher\<close>

text \<open>The contract of what surrounds the dispatcher: it acts only through the services, and an
  image that loads has a handle.\<close>

locale dispatch_services =
  fixes env :: "'e disp_env"
  assumes load: "services env d (snd (LoadImage env i d))"
    and load_handle: "fst (LoadImage env i d) = (st, h) \<Longrightarrow> \<not> EFI_ERROR st \<Longrightarrow> h \<noteq> 0"
    and start: "services env d (snd (StartImage env i d))"
    and open_fv: "services env d (snd (ProcessFvImageFile env i d))"
    and create_event: "services env d (snd (CreateDispatchEvent env d))"
    and signal_event: "services env d (SignalDispatchEvent env d)"
    and close_event: "services env d (CloseDispatchEvent env d)"
begin

lemmas evolves = load start open_fv create_event signal_event close_event

lemma grows_head:
  assumes "grows d e" "i \<in> set (mScheduledQueue d)"
  shows "run_inv e" "i < length (mDiscoveredList e)" "Scheduled (entry e i)" "i \<in> set (mScheduledQueue e)"
proof -
  show inv: "run_inv e" and q: "i \<in> set (mScheduledQueue e)" using assms by (auto simp: grows_def)
  show "i < length (mDiscoveredList e)" "Scheduled (entry e i)"
    using q run_invD(4) [OF inv, of i] by simp_all
qed

text \<open>Loading leaves the entry scheduled, with its handle set.\<close>

lemma load_phase:
  assumes "run_inv d" "i \<in> set (mScheduledQueue d)"
    and "(Status, e) = (if ImageHandle (entry d i) = 0 \<and> \<not> IsFvImage (entry d i)
        then case LoadImage env i d of ((Status, h), d) \<Rightarrow>
               (Status, put_entry i ((entry d i)\<lparr>ImageHandle := h\<rparr>) d)
        else (EFI_SUCCESS, d))"
  shows "run_inv e \<and> i \<in> set (mScheduledQueue e) \<and> report e = report d
     \<and> (\<not> EFI_ERROR Status \<longrightarrow> IsFvImage (entry e i) \<or> ImageHandle (entry e i) \<noteq> 0)"
proof (cases "ImageHandle (entry d i) = 0 \<and> \<not> IsFvImage (entry d i)")
  case False
  with assms show ?thesis by auto
next
  case True
  obtain st h e1 where L: "LoadImage env i d = ((st, h), e1)" by (metis prod.collapse)
  with load [of d i] have g: "grows d e1" using services_grow [OF _ assms(1)] by fastforce
  note e1 = grows_head [OF g assms(2)]
  let ?x = "(entry e1 i)\<lparr>ImageHandle := h\<rparr>"
  have "run_inv (put_entry i ?x e1)"
    using e1 run_invD(1) [OF e1(1,2)] by (intro run_inv_put) (auto simp: state_ok_def)
  then show ?thesis
    using assms(3) True L e1 g load_handle [of i d st h] by (auto simp: grows_def)
qed

lemma drain_step_inv:
  assumes "run_inv d" "i \<in> set (mScheduledQueue d)"
  shows "\<exists>b d'. drain_step env i d = Some (b, d') \<and> run_inv d' \<and> set (report d) \<subseteq> set (report d')"
proof -
  let ?load = "if ImageHandle (entry d i) = 0 \<and> \<not> IsFvImage (entry d i)
        then case LoadImage env i d of ((Status, h), d) \<Rightarrow>
               (Status, put_entry i ((entry d i)\<lparr>ImageHandle := h\<rparr>) d)
        else (EFI_SUCCESS, d)"
  obtain Status e where l: "?load = (Status, e)" by (cases ?load)
  from load_phase [OF assms l [symmetric]]
  have e: "run_inv e" "i \<in> set (mScheduledQueue e)" "report e = report d"
    and h: "\<not> EFI_ERROR Status \<Longrightarrow> IsFvImage (entry e i) \<or> ImageHandle (entry e i) \<noteq> 0" by auto
  then have i: "i < length (mDiscoveredList e)" "Scheduled (entry e i)" by (auto simp: run_invD(4))
  note off = state_ok_Scheduled [OF run_invD(1) [OF e(1) i(1)] i(2)]
  show ?thesis
  proof (cases "EFI_ERROR Status")
    case True
    let ?x = "(if Status = EFI_SECURITY_VIOLATION then (entry e i)\<lparr>Untrusted := True\<rparr>
                else (entry e i)\<lparr>Initialized := True\<rparr>)\<lparr>Scheduled := False\<rparr>"
    obtain d' where "unlink_scheduled i (put_entry i ?x e) = Some d'" "run_inv d'" "report d' = report e"
      using run_inv_unlink [OF e(1) i, of ?x] off
      by (cases "Status = EFI_SECURITY_VIOLATION") (auto simp: state_ok_def)
    then show ?thesis using True e(3) unfolding drain_step_def l by auto
  next
    case False
    let ?x = "(entry e i)\<lparr>Scheduled := False, Initialized := True\<rparr>"
    obtain d1 where d1: "unlink_scheduled i (put_entry i ?x e) = Some d1" "run_inv d1" "report d1 = report e"
        "mDiscoveredList d1 = (mDiscoveredList e)[i := ?x]"
      using run_inv_unlink [OF e(1) i, of ?x] off by (auto simp: state_ok_def)
    let ?d2 = "d1\<lparr>report := report d1 @ [i]\<rparr>"
    have "i \<notin> set (report e)" using run_invD(6) [OF e(1), of i] off by auto
    then have inv: "run_inv ?d2" using d1 i(1) by (auto simp: run_inv_def)
    have rep: "set (report d) \<subseteq> set (report ?d2)" using d1(3) e(3) by auto
    show ?thesis
    proof (cases "IsFvImage (entry e i)")
      case fv: True
      have "grows ?d2 (snd (ProcessFvImageFile env i ?d2))" by (rule services_grow [OF open_fv inv])
      then show ?thesis
        using False fv d1 i rep unfolding drain_step_def l by (auto simp: grows_def)
    next
      case fv: False
      have "grows ?d2 (snd (StartImage env i ?d2))" by (rule services_grow [OF start inv])
      then show ?thesis
        using False fv h d1 i rep unfolding drain_step_def l by (auto simp: grows_def)
    qed
  qed
qed

lemma drain_inv:
  "\<lbrakk>run_inv d; drain env n started d = Some (b, d')\<rbrakk> \<Longrightarrow>
     run_inv d' \<and> mScheduledQueue d' = [] \<and> set (report d) \<subseteq> set (report d')"
proof (induction n arbitrary: d started)
  case 0
  then show ?case by (subst (asm) drain.simps) (auto split: list.splits)
next
  case (Suc n)
  show ?case
  proof (cases "mScheduledQueue d")
    case Nil
    with Suc.prems show ?thesis by (subst (asm) drain.simps) simp
  next
    case (Cons i q)
    from drain_step_inv [OF Suc.prems(1), of i] Cons obtain b1 d1 where
      "drain_step env i d = Some (b1, d1)" "run_inv d1" "set (report d) \<subseteq> set (report d1)" by auto
    with Suc.prems(2) Cons Suc.IH [of d1 "started \<or> b1"] show ?thesis
      by (subst (asm) drain.simps) auto
  qed
qed

end

text \<open>Looking for drivers to schedule.\<close>

lemma state_ok_Depex [simp]: "state_ok (x\<lparr>Depex := m\<rparr>) = state_ok x"
  by (simp add: state_ok_def)

lemma CoreIsSchedulable_frame:
  "CoreIsSchedulable alloc L arch x s = Some (r, y, s') \<Longrightarrow>
     (y = x \<or> (\<exists>m. y = x\<lparr>Depex := m\<rparr>)) \<and> (r \<longrightarrow> \<not> Before x \<and> \<not> After x)"
proof (cases "After x \<or> Before x \<or> Depex x = None")
  case True
  moreover assume "CoreIsSchedulable alloc L arch x s = Some (r, y, s')"
  ultimately show ?thesis by (auto simp: CoreIsSchedulable_def split: if_splits)
next
  case False
  assume "CoreIsSchedulable alloc L arch x s = Some (r, y, s')"
  with False show ?thesis by (auto simp: CoreIsSchedulable_def)
qed

lemma run_inv_sched:
  assumes "run_inv d" "set new \<subseteq> {..<length (mDiscoveredList d)}" "distinct new"
    "\<And>j. j \<in> set new \<Longrightarrow> Dependent (entry d j)"
  shows "run_inv (sched new d)"
proof -
  have dep: "j \<in> set new \<Longrightarrow> \<not> Scheduled (entry d j) \<and> \<not> Unrequested (entry d j) \<and> \<not> Untrusted (entry d j)
      \<and> \<not> Initialized (entry d j) \<and> \<not> DepexProtocolError (entry d j)" for j
    using assms(2,4) state_ok_Dependent [OF run_invD(1) [OF assms(1)]] by blast
  have "state_ok (mark new (mDiscoveredList d) ! j)" if "j < length (mDiscoveredList d)" for j
    using that dep [of j] run_invD(1) [OF assms(1) that]
    by (cases "j \<in> set new") (simp_all add: mark_nth schedule1_def state_ok_def)
  moreover have "set new \<inter> set (mScheduledQueue d) = {}"
    using dep assms(1) by (auto simp: run_invD(4))
  moreover have "Scheduled (mark new (mDiscoveredList d) ! j) \<longleftrightarrow> j \<in> set new \<or> Scheduled (entry d j)"
    "Initialized (mark new (mDiscoveredList d) ! j) = Initialized (entry d j)"
    if "j < length (mDiscoveredList d)" for j
    using that by (simp_all add: mark_nth schedule1_def)
  ultimately show ?thesis
    using assms unfolding run_inv_def sched_fields unique_names_mark length_mark by auto
qed

lemma retry_depex_inv:
  assumes inv: "run_inv d" and i: "i < length (mDiscoveredList d)" and r: "retry_depex env i d = Some d'"
  shows "run_inv d' \<and> report d' = report d \<and> length (mDiscoveredList d') = length (mDiscoveredList d)"
proof (cases "DepexProtocolError (entry d i)")
  case False
  then show ?thesis using assms by (simp add: retry_depex_def)
next
  case True
  then obtain st x e where
    x: "CoreGetDepexSectionAndPreProccess env (entry d i) (sys d) = Some (st, x, e)"
    and d': "d' = (put_entry i x d)\<lparr>sys := e\<rparr>"
    using r by (auto simp: retry_depex_def)
  note ok = run_invD(1) [OF inv i]
  have off: "\<not> Dependent (entry d i)" "\<not> Unrequested (entry d i)" "\<not> Scheduled (entry d i)"
    "\<not> Untrusted (entry d i)" "\<not> Initialized (entry d i)"
    using ok True by (auto simp: state_ok_def split: if_splits)
  have "run_inv (put_entry i x d)"
    using CoreGetDepex_state [OF x] off by (intro run_inv_put [OF inv i]) auto
  then show ?thesis by (simp add: d' run_inv_sys)
qed

lemma consider_driver_inv:
  assumes inv: "run_inv d" and i: "i < length (mDiscoveredList d)"
    and c: "consider_driver env i b d = Some (b', d')"
  shows "run_inv d' \<and> report d' = report d \<and> length (mDiscoveredList d') = length (mDiscoveredList d)"
proof (cases "Dependent (entry d i)")
  case False
  then show ?thesis using assms by (simp add: consider_driver_def)
next
  case True
  then obtain r x s where
    e: "CoreIsSchedulable (AllocatePool env (sys d)) (LocateProtocol env (sys d))
          (mArchProtocols env (sys d)) (entry d i) (gDepexStack d) = Some (r, x, s)"
    and rest: "(if r then do {
          d \<leftarrow> insert_sched (length (mDiscoveredList ((put_entry i x d)\<lparr>gDepexStack := s\<rparr>))) i
                 ((put_entry i x d)\<lparr>gDepexStack := s\<rparr>);
          Some (True, d)
        } else Some (b, (put_entry i x d)\<lparr>gDepexStack := s\<rparr>)) = Some (b', d')"
    using c unfolding consider_driver_def Let_def
    by (auto simp del: put_entry_fields)
  let ?d = "(put_entry i x d)\<lparr>gDepexStack := s\<rparr>"
  from CoreIsSchedulable_frame [OF e] have x: "Dependent x" "FileName x = FileName (entry d i)"
    "Scheduled x = Scheduled (entry d i)" "Initialized x = Initialized (entry d i)"
    "r \<Longrightarrow> \<not> Before x \<and> \<not> After x" "state_ok x"
    using True run_invD(1) [OF inv i] by auto
  have inv1: "run_inv ?d" using run_inv_put [OF inv i x(6,2,3)] x(4) by (simp add: run_inv_sys)
  show ?thesis
  proof (cases r)
    case False
    then show ?thesis using rest inv1 by auto
  next
    case r: True
    obtain new where "insert_sched (length (mDiscoveredList d)) i ?d = Some (sched new ?d)"
      "tree (mDiscoveredList ?d) i [] new"
      using insert_sched_tree [of ?d i "[]" "length (mDiscoveredList d)"]
        run_inv_queue_ok [OF inv1] run_invD(2) [OF inv1] i x(1,5) r by auto
    then show ?thesis
      using rest r run_inv_sched [OF inv1, of new] by (auto simp: tree_def)
  qed
qed

lemma search_step_apply:
  "search_step env i (b, d) = do { d \<leftarrow> retry_depex env i d; consider_driver env i b d }"
  by (simp add: search_step_def)

lemma search_inv_list:
  assumes "run_inv d" "set is \<subseteq> {..<length (mDiscoveredList d)}"
    "for_each (search_step env) is (b, d) = Some (b', d')"
  shows "run_inv d' \<and> report d' = report d \<and> length (mDiscoveredList d') = length (mDiscoveredList d)"
  using assms
proof (induction "is" arbitrary: b d)
  case (Cons i "is")
  then obtain d1 b2 d2 where d1: "retry_depex env i d = Some d1"
    and d2: "consider_driver env i b d1 = Some (b2, d2)"
    and rest: "for_each (search_step env) is (b2, d2) = Some (b', d')"
    by (auto simp: search_step_apply)
  from Cons.prems have i: "i < length (mDiscoveredList d)" by simp
  from retry_depex_inv [OF Cons.prems(1) i d1] have r1: "run_inv d1" "report d1 = report d"
    "length (mDiscoveredList d1) = length (mDiscoveredList d)" by auto
  with consider_driver_inv [OF r1(1) _ d2] i Cons.IH [OF _ _ rest] Cons.prems(2) show ?case by simp
qed simp

lemma search_inv:
  "\<lbrakk>run_inv d; search env d = Some (b, d')\<rbrakk> \<Longrightarrow> run_inv d' \<and> report d' = report d"
  using search_inv_list [of d "[0..<length (mDiscoveredList d)]" env False b d']
  by (simp add: search_def atLeast0LessThan)

context dispatch_services begin

lemma rounds_inv:
  "\<lbrakk>run_inv d; dispatch_rounds env n started smm d = Some (b, d')\<rbrakk> \<Longrightarrow>
     run_inv d' \<and> set (report d) \<subseteq> set (report d')"
proof (induction n arbitrary: d started smm)
  case (Suc n)
  from Suc.prems(2) obtain b1 d1 where d1: "drain env (Suc n) started d = Some (b1, d1)"
    by auto
  let ?d2 = "if \<not> smm \<or> b1 then SignalDispatchEvent env d1 else d1"
  from Suc.prems(2) d1 obtain b3 d3 where d3: "search env ?d2 = Some (b3, d3)"
    and rest: "(if b3 then dispatch_rounds env n b1 True d3 else Some (b1, d3)) = Some (b, d')"
    by (auto simp: Let_def)
  from drain_inv [OF Suc.prems(1) d1] have "run_inv d1" "set (report d) \<subseteq> set (report d1)" by auto
  moreover from this have "grows d1 ?d2"
    using services_grow [OF signal_event, of d1] grows_refl [of d1] by (cases "\<not> smm \<or> b1") simp_all
  ultimately have "run_inv ?d2" "set (report d) \<subseteq> set (report ?d2)" by (auto simp: grows_def)
  with search_inv [OF _ d3] have d3': "run_inv d3" "set (report d) \<subseteq> set (report d3)" by auto
  then show ?case
    using rest Suc.IH [OF d3'(1)] by (cases b3) auto
qed simp

lemma CoreDispatcher_inv:
  assumes "run_inv d" "CoreDispatcher env n d = Some (st, d')"
  shows "run_inv d' \<and> set (report d) \<subseteq> set (report d')"
proof (cases "gDispatcherRunning d")
  case True
  then show ?thesis using assms by (simp add: CoreDispatcher_def)
next
  case False
  let ?d0 = "d\<lparr>gDispatcherRunning := True\<rparr>"
  obtain st1 d1 where c: "CreateDispatchEvent env ?d0 = (st1, d1)" by (cases "CreateDispatchEvent env ?d0")
  have "grows ?d0 d1"
    using services_grow [OF create_event [of ?d0]] assms(1) c by (simp add: run_inv_sys)
  then have d1: "run_inv d1" "report d1 = report d" by (auto simp: grows_def)
  show ?thesis
  proof (cases "EFI_ERROR st1")
    case True
    then show ?thesis using assms(2) False c d1 by (simp add: CoreDispatcher_def)
  next
    case ok: False
    then obtain b d2 where d2: "dispatch_rounds env n False False d1 = Some (b, d2)"
      and d': "d' = (CloseDispatchEvent env d2)\<lparr>gDispatcherRunning := False\<rparr>"
      using assms(2) False c by (auto simp: CoreDispatcher_def Let_def)
    from rounds_inv [OF d1(1) d2] have r: "run_inv d2" "set (report d1) \<subseteq> set (report d2)" by auto
    then show ?thesis
      using services_grow [OF close_event r(1)] d1(2) by (auto simp: d' run_inv_sys grows_def)
  qed
qed

end

section \<open>Termination\<close>

text \<open>An expression the evaluator reads within its bounds, and a section that holds one.\<close>

definition depex_ok :: "driver_entry \<Rightarrow> bool" where
  "depex_ok x \<longleftrightarrow> (DepexProtocolError x \<longrightarrow> \<not> Before x \<and> \<not> After x)
     \<and> (Before x \<or> After x \<or> Depex x = None
        \<or> (\<exists>p. (\<forall>i\<in>set p. wf_op i) \<and> Depex x = Some (encode p) \<and> DepexSize x = length (encode p)))"

definition good_section :: "u8 list \<Rightarrow> bool" where
  "good_section mem \<longleftrightarrow> (\<exists>p. p \<noteq> [] \<and> (\<forall>i\<in>set p. wf_op i) \<and> mem = encode p)
     \<or> (\<exists>op g r. op \<in> {EFI_DEP_BEFORE, EFI_DEP_AFTER} \<and> length g = 16 \<and> mem = op # g @ r)"

lemma run_ops_wf:
  "\<forall>i\<in>set p. wf_op i \<Longrightarrow>
     (\<forall>i\<in>set (snd (run_ops L p st)). wf_op i) \<and> length (encode (snd (run_ops L p st))) = length (encode p)"
  by (induction L p st rule: run_ops.induct) (auto simp: split_beta split: list.splits)

lemma run_depex_wf:
  "\<forall>i\<in>set p. wf_op i \<Longrightarrow>
     (\<forall>i\<in>set (snd (run_depex L p)). wf_op i) \<and> length (encode (snd (run_depex L p))) = length (encode p)"
proof -
  assume wf: "\<forall>i\<in>set p. wf_op i"
  show ?thesis
  proof (cases "\<exists>q. p = Sor # q")
    case True
    then obtain q where q: "p = Sor # q" by blast
    show ?thesis using run_ops_wf [of q L "[]"] wf by (simp add: q split_beta)
  next
    case False
    then have "run_depex L p = run_ops L p []" by (cases "(L, p)" rule: run_depex.cases) auto
    then show ?thesis using run_ops_wf [OF wf, of L "[]"] by simp
  qed
qed

lemma CoreIsSchedulable_total:
  assumes "depex_ok x" "\<forall>n. alloc n \<noteq> None"
  shows "\<exists>r y s'. CoreIsSchedulable alloc L arch x s = Some (r, y, s') \<and> depex_ok y"
proof (cases "After x \<or> Before x \<or> Depex x = None")
  case True
  then show ?thesis using assms(1) by (auto simp: CoreIsSchedulable_def)
next
  case False
  then obtain p where p: "\<forall>i\<in>set p. wf_op i" "Depex x = Some (encode p)" "DepexSize x = length (encode p)"
    using assms(1) by (auto simp: depex_ok_def)
  have "\<not> After x" "\<not> Before x" using False by auto
  from CoreIsSchedulable_run_depex [OF this p(2,3,1), of alloc L arch s] assms(2)
  obtain s' where "CoreIsSchedulable alloc L arch x s =
      Some (fst (run_depex L p), x\<lparr>Depex := Some (encode (snd (run_depex L p)))\<rparr>, s')" by auto
  then show ?thesis
    using False p run_depex_wf [OF p(1), of L] by (auto simp: depex_ok_def)
qed

lemma good_section_head:
  assumes "good_section mem"
  obtains op r where "mem = op # r"
    "op = EFI_DEP_BEFORE \<or> op = EFI_DEP_AFTER \<Longrightarrow> 16 \<le> length r"
    "op \<noteq> EFI_DEP_BEFORE \<Longrightarrow> op \<noteq> EFI_DEP_AFTER \<Longrightarrow> \<exists>p. (\<forall>i\<in>set p. wf_op i) \<and> mem = encode p"
  using assms unfolding good_section_def
proof (elim disjE exE conjE)
  fix p assume p: "p \<noteq> []" "\<forall>i\<in>set p. wf_op i" "mem = encode p"
  then obtain i q where "p = i # q" by (cases p) auto
  then obtain op r where "mem = op # r" "op \<noteq> EFI_DEP_BEFORE \<and> op \<noteq> EFI_DEP_AFTER"
    using p(3) by (cases i) auto
  then show ?thesis using p that by blast
next
  fix op g r assume "op \<in> {EFI_DEP_BEFORE, EFI_DEP_AFTER}" "length g = 16" "mem = op # g @ r"
  then show ?thesis using that [of op "g @ r"] by auto
qed

lemma CorePreProcessDepex_total:
  assumes "good_section mem" "\<not> Before x" "\<not> After x" "Depex x = Some mem" "DepexSize x = length mem"
  shows "\<exists>st y. CorePreProcessDepex x = Some (st, y) \<and> depex_ok (y\<lparr>DepexProtocolError := False\<rparr>)"
proof -
  from assms(1) obtain op r where m: "mem = op # r"
    "op = EFI_DEP_BEFORE \<or> op = EFI_DEP_AFTER \<Longrightarrow> 16 \<le> length r"
    "op \<noteq> EFI_DEP_BEFORE \<Longrightarrow> op \<noteq> EFI_DEP_AFTER \<Longrightarrow> \<exists>p. (\<forall>i\<in>set p. wf_op i) \<and> mem = encode p"
    by (rule good_section_head) blast
  have l: "load8 mem 0 = Some op" by (simp add: m(1) load8_def)
  consider "op = EFI_DEP_BEFORE \<or> op = EFI_DEP_AFTER" | "op \<noteq> EFI_DEP_BEFORE" "op \<noteq> EFI_DEP_AFTER" by blast
  then show ?thesis
  proof cases
    case 1
    then have "copy_guid mem 1 = Some (take 16 r)" using m by (simp add: copy_guid_def)
    with 1 show ?thesis
      using assms l by (elim disjE) (simp_all add: CorePreProcessDepex_def depex_ok_def)
  next
    case 2
    with assms l m(3) show ?thesis
      by (cases "op = EFI_DEP_SOR") (auto simp: CorePreProcessDepex_def depex_ok_def Let_def)
  qed
qed

text \<open>Drivers that have not been scheduled yet, and those not yet started.\<close>

definition pend :: "driver_entry \<Rightarrow> bool" where
  "pend x \<longleftrightarrow> Dependent x \<or> Unrequested x \<or> DepexProtocolError x"

definition pending :: "'e disp \<Rightarrow> nat" where
  "pending d = card {i. i < length (mDiscoveredList d) \<and> pend (entry d i)}"

definition uninit :: "'e disp \<Rightarrow> nat" where
  "uninit d = card {i. i < length (mDiscoveredList d) \<and> \<not> Initialized (entry d i)}"

definition weight :: "'e disp \<Rightarrow> nat" where
  "weight d = Suc (length (mDiscoveredList d)) * uninit d + length (mScheduledQueue d)"

text \<open>\<open>calm d d'\<close>: no driver was added, none went back to waiting or to not started, and every
  expression is still readable.\<close>

definition calm :: "'e disp \<Rightarrow> 'e disp \<Rightarrow> bool" where
  "calm d d' \<longleftrightarrow> length (mDiscoveredList d') = length (mDiscoveredList d)
     \<and> (\<forall>i<length (mDiscoveredList d). (pend (entry d' i) \<longrightarrow> pend (entry d i))
          \<and> (Initialized (entry d i) \<longrightarrow> Initialized (entry d' i))
          \<and> (depex_ok (entry d i) \<longrightarrow> depex_ok (entry d' i)))"

lemma calm_refl: "calm d d"
  by (simp add: calm_def)

lemma calm_trans: "calm a b \<Longrightarrow> calm b c \<Longrightarrow> calm a c"
  by (auto simp: calm_def)

lemma calm_pending: "calm d d' \<Longrightarrow> pending d' \<le> pending d"
  unfolding pending_def by (rule card_mono) (auto simp: calm_def)

lemma calm_pending_less:
  "\<lbrakk>calm d d'; i < length (mDiscoveredList d); pend (entry d i); \<not> pend (entry d' i)\<rbrakk> \<Longrightarrow> pending d' < pending d"
  unfolding pending_def by (rule psubset_card_mono) (auto simp: calm_def)

lemma calm_uninit: "calm d d' \<Longrightarrow> uninit d' \<le> uninit d"
  unfolding uninit_def by (rule card_mono) (auto simp: calm_def)

lemma calm_uninit_less:
  "\<lbrakk>calm d d'; i < length (mDiscoveredList d); \<not> Initialized (entry d i); Initialized (entry d' i)\<rbrakk> \<Longrightarrow>
     uninit d' < uninit d"
  unfolding uninit_def by (rule psubset_card_mono) (auto simp: calm_def)

lemma queue_length: "run_inv d \<Longrightarrow> length (mScheduledQueue d) \<le> length (mDiscoveredList d)"
proof -
  assume d: "run_inv d"
  then have "set (mScheduledQueue d) \<subseteq> {..<length (mDiscoveredList d)}" by (auto simp: run_invD(4))
  then have "card (set (mScheduledQueue d)) \<le> length (mDiscoveredList d)"
    using card_mono [of "{..<length (mDiscoveredList d)}"] by fastforce
  with d show ?thesis by (simp add: run_invD(3) distinct_card)
qed

lemma weight_start:
  assumes "calm d d'" "run_inv d'" "uninit d' < uninit d"
  shows "weight d' < weight d"
proof -
  let ?N = "length (mDiscoveredList d)"
  have "weight d' \<le> Suc ?N * uninit d' + ?N"
    using queue_length [OF assms(2)] assms(1) by (simp add: weight_def calm_def)
  also have "\<dots> < Suc ?N * Suc (uninit d')" by simp
  also have "\<dots> \<le> Suc ?N * uninit d" using assms(3) by (intro mult_le_mono) auto
  finally show ?thesis by (simp add: weight_def)
qed

lemma weight_bound: "run_inv d \<Longrightarrow> weight d \<le> (length (mDiscoveredList d) + 2) * length (mDiscoveredList d)"
proof -
  assume d: "run_inv d"
  have "uninit d \<le> card {..<length (mDiscoveredList d)}"
    unfolding uninit_def by (rule card_mono) auto
  then have "Suc (length (mDiscoveredList d)) * uninit d \<le> Suc (length (mDiscoveredList d)) * length (mDiscoveredList d)"
    by (intro mult_le_mono) auto
  with queue_length [OF d] show ?thesis by (simp add: weight_def)
qed

lemma calm_put:
  assumes "i < length (mDiscoveredList d)" "pend x \<longrightarrow> pend (entry d i)"
    "Initialized (entry d i) \<longrightarrow> Initialized x" "depex_ok (entry d i) \<longrightarrow> depex_ok x"
  shows "calm d (put_entry i x d)"
  using assms by (auto simp: calm_def nth_list_update)

lemma calm_same_list: "mDiscoveredList d' = mDiscoveredList d \<Longrightarrow> calm d d'"
  by (simp add: calm_def)

text \<open>The services are calm as long as they add no driver.\<close>

lemma link_calm:
  assumes "link_scheduled i (put_entry i x d) = Some d'" "i < length (mDiscoveredList d)"
    "pend x \<longrightarrow> pend (entry d i)" "Initialized (entry d i) \<longrightarrow> Initialized x"
    "depex_ok (entry d i) \<longrightarrow> depex_ok x"
  shows "calm d d'"
  using calm_put [OF assms(2-5)] assms(1)
  by (auto simp: link_scheduled_def calm_def split: if_splits)

lemma depex_ok_flags [simp]:
  "depex_ok (x\<lparr>Dependent := b\<rparr>) = depex_ok x" "depex_ok (x\<lparr>Unrequested := b\<rparr>) = depex_ok x"
  "depex_ok (x\<lparr>Scheduled := b\<rparr>) = depex_ok x" "depex_ok (x\<lparr>Untrusted := b\<rparr>) = depex_ok x"
  "depex_ok (x\<lparr>Initialized := b\<rparr>) = depex_ok x" "depex_ok (x\<lparr>ImageHandle := h\<rparr>) = depex_ok x"
  by (simp_all add: depex_ok_def)

lemma pend_flags [simp]:
  "pend (x\<lparr>Scheduled := b\<rparr>) = pend x" "pend (x\<lparr>Untrusted := b\<rparr>) = pend x"
  "pend (x\<lparr>Initialized := b\<rparr>) = pend x" "pend (x\<lparr>ImageHandle := h\<rparr>) = pend x"
  by (simp_all add: pend_def)

lemma schedule_apriori_calm: "schedule_apriori h gs d = Some d' \<Longrightarrow> calm d d'"
proof (induction h gs d arbitrary: d' rule: schedule_apriori.induct)
  case (1 h d)
  then show ?case by (simp add: calm_refl)
next
  case (2 h g gs d)
  show ?case
  proof (cases "find_entry (\<lambda>x. FileName x = g \<and> h = FvHandle x) d")
    case None
    with 2 show ?thesis by simp
  next
    case (Some i)
    let ?x = "(entry d i)\<lparr>Dependent := False, Scheduled := True\<rparr>"
    from Some 2(3) obtain d1 where d1: "link_scheduled i (put_entry i ?x d) = Some d1"
      "schedule_apriori h gs d1 = Some d'" by auto
    have "calm d d1"
      using d1(1) find_entry_Some [OF Some] by (intro link_calm) (auto simp: pend_def)
    moreover have "calm d1 d'" using "2.IH"(2) [OF Some d1] .
    ultimately show ?thesis by (rule calm_trans)
  qed
qed

lemma service_step_calm:
  "service_step env d d' \<Longrightarrow> length (mDiscoveredList d') = length (mDiscoveredList d) \<Longrightarrow> calm d d'"
proof (induction rule: service_step.induct)
  case (elsewhere d e)
  then show ?case by (simp add: calm_same_list)
next
  case (Schedule d h g)
  show ?case
    using find_entry_Some [of "\<lambda>x. FvHandle x = h \<and> Unrequested x \<and> g = FileName x" d]
    by (auto simp: CoreSchedule_def calm_refl pend_def intro!: calm_put split: option.split)
next
  case (Trust h g d st d')
  then show ?case
    using find_entry_Some [of "\<lambda>x. FvHandle x = h \<and> Untrusted x \<and> g = FileName x" d]
    by (auto simp: CoreTrust_def calm_refl intro: link_calm split: option.splits)
next
  case (Discover fv h g t d st d')
  then show ?case by (auto simp: CoreAddToDriverList_def)
next
  case (Apriori h gs d d')
  then show ?case by (blast intro: schedule_apriori_calm)
qed

lemma services_calm:
  "\<lbrakk>services env d d'; run_inv d; length (mDiscoveredList d') = length (mDiscoveredList d)\<rbrakk> \<Longrightarrow> calm d d'"
proof (induction rule: rtranclp_induct)
  case base
  then show ?case by (simp add: calm_refl)
next
  case (step y z)
  have y: "grows d y" by (rule services_grow [OF step(1,4)])
  then have z: "grows y z" by (intro service_step_grows [OF step(2)]) (simp add: grows_def)
  have "length (mDiscoveredList y) = length (mDiscoveredList d)"
    using y z step(5) by (auto simp: grows_def)
  then show ?case using step service_step_calm [OF step(2)] by (auto intro: calm_trans)
qed

text \<open>A system in which no more drivers are discovered and there is memory for the evaluator.\<close>

locale closed_services = dispatch_services env for env :: "'e disp_env" +
  assumes load_only: "\<exists>e. snd (LoadImage env i d) = d\<lparr>sys := e\<rparr>"
    and no_discovery:
      "length (mDiscoveredList (snd (StartImage env i d))) = length (mDiscoveredList d)"
      "length (mDiscoveredList (snd (ProcessFvImageFile env i d))) = length (mDiscoveredList d)"
      "length (mDiscoveredList (snd (CreateDispatchEvent env d))) = length (mDiscoveredList d)"
      "length (mDiscoveredList (SignalDispatchEvent env d)) = length (mDiscoveredList d)"
    and memory: "AllocatePool env e n \<noteq> None"
    and sections: "\<not> EFI_ERROR (fst (fst (ReadDepex env x e))) \<Longrightarrow> good_section (snd (fst (ReadDepex env x e)))"
begin

lemma load_phase_calm:
  assumes "i < length (mDiscoveredList d)"
    "(Status, e) = (if ImageHandle (entry d i) = 0 \<and> \<not> IsFvImage (entry d i)
        then case LoadImage env i d of ((Status, h), d) \<Rightarrow>
               (Status, put_entry i ((entry d i)\<lparr>ImageHandle := h\<rparr>) d)
        else (EFI_SUCCESS, d))"
  shows "calm d e \<and> mScheduledQueue e = mScheduledQueue d"
proof -
  obtain x where x: "snd (LoadImage env i d) = d\<lparr>sys := x\<rparr>" using load_only by blast
  obtain st h e1 where L: "LoadImage env i d = ((st, h), e1)" by (metis prod.collapse)
  have "calm d (put_entry i ((entry d i)\<lparr>ImageHandle := h\<rparr>) d)"
    using assms(1) by (intro calm_put) auto
  then have "calm d (put_entry i ((entry d i)\<lparr>ImageHandle := h\<rparr>) (d\<lparr>sys := x\<rparr>))"
    by (simp add: calm_def)
  then show ?thesis using assms(2) x L by (auto simp: calm_refl split: if_splits)
qed

lemma drain_step_calm:
  assumes inv: "run_inv d" and q: "i \<in> set (mScheduledQueue d)" and step: "drain_step env i d = Some (b, d')"
  shows "calm d d' \<and> weight d' < weight d"
proof -
  have inv': "run_inv d'" using drain_step_inv [OF inv q] step by auto
  let ?load = "if ImageHandle (entry d i) = 0 \<and> \<not> IsFvImage (entry d i)
        then case LoadImage env i d of ((Status, h), d) \<Rightarrow>
               (Status, put_entry i ((entry d i)\<lparr>ImageHandle := h\<rparr>) d)
        else (EFI_SUCCESS, d)"
  obtain Status e where l: "?load = (Status, e)" by (cases ?load)
  have i0: "i < length (mDiscoveredList d)" "Scheduled (entry d i)" using inv q by (auto simp: run_invD(4))
  have e: "run_inv e" "i \<in> set (mScheduledQueue e)" using load_phase [OF inv q l [symmetric]] by auto
  have ce: "calm d e" "mScheduledQueue e = mScheduledQueue d" using load_phase_calm [OF i0(1) l [symmetric]] by auto
  have i: "i < length (mDiscoveredList e)" "Scheduled (entry e i)"
    using e(2) run_invD(4) [OF e(1), of i] by simp_all
  note off = state_ok_Scheduled [OF run_invD(1) [OF e(1) i(1)] i(2)]
  have off0: "\<not> Initialized (entry d i)" using state_ok_Scheduled [OF run_invD(1) [OF inv i0(1)] i0(2)] by simp
  have won: "calm d d' \<and> weight d' < weight d" if "calm e d'" "Initialized (entry d' i)"
    using calm_trans [OF ce(1) that(1)] calm_uninit_less [OF _ i0(1) off0 that(2)] weight_start inv' by blast
  show ?thesis
  proof (cases "EFI_ERROR Status")
    case True
    let ?x = "(if Status = EFI_SECURITY_VIOLATION then (entry e i)\<lparr>Untrusted := True\<rparr>
                else (entry e i)\<lparr>Initialized := True\<rparr>)\<lparr>Scheduled := False\<rparr>"
    have d': "unlink_scheduled i (put_entry i ?x e) = Some d'"
      using step True unfolding drain_step_def l by auto
    have c: "calm e d'" "mDiscoveredList d' = (mDiscoveredList e)[i := ?x]"
      "length (mScheduledQueue d') < length (mScheduledQueue d)"
      using d' calm_put [OF i(1), of ?x] e(2) ce(2) length_pos_if_in_set [OF q]
      by (auto simp: unlink_scheduled_def calm_def length_remove1 split: if_splits)
    show ?thesis
    proof (cases "Status = EFI_SECURITY_VIOLATION")
      case True
      have "uninit d' \<le> uninit d" using calm_uninit [OF calm_trans [OF ce(1) c(1)]] .
      moreover have "length (mDiscoveredList d') = length (mDiscoveredList d)"
        using calm_trans [OF ce(1) c(1)] by (simp add: calm_def)
      ultimately have "weight d' < weight d"
        using c(3) unfolding weight_def by (metis add_le_less_mono mult_le_mono2)
      with calm_trans [OF ce(1) c(1)] show ?thesis by simp
    next
      case False
      then show ?thesis using won [OF c(1)] c(2) i(1) by simp
    qed
  next
    case False
    let ?x = "(entry e i)\<lparr>Scheduled := False, Initialized := True\<rparr>"
    obtain d1 where d1: "unlink_scheduled i (put_entry i ?x e) = Some d1" "run_inv d1"
        "mDiscoveredList d1 = (mDiscoveredList e)[i := ?x]" "report d1 = report e"
      using run_inv_unlink [OF e(1) i, of ?x] off by (auto simp: state_ok_def)
    let ?d2 = "d1\<lparr>report := report d1 @ [i]\<rparr>"
    have "i \<notin> set (report e)" using run_invD(6) [OF e(1), of i] off by auto
    then have inv2: "run_inv ?d2" using d1 i(1) by (auto simp: run_inv_def)
    have c2: "calm e ?d2" "Initialized (entry ?d2 i)"
      using calm_put [OF i(1), of ?x] d1(3) i(1) by (auto simp: calm_def)
    have c3: "calm ?d2 d'"
    proof (cases "IsFvImage (entry e i)")
      case True
      then have "d' = snd (ProcessFvImageFile env i ?d2)"
        using step False d1(1,3) i(1) unfolding drain_step_def l by auto
      then show ?thesis using services_calm [OF open_fv inv2 no_discovery(2)] by simp
    next
      case fv: False
      then have "d' = snd (StartImage env i ?d2)"
        using step False d1(1,3) i(1) unfolding drain_step_def l by auto
      then show ?thesis using services_calm [OF start inv2 no_discovery(1)] by simp
    qed
    have "i < length (mDiscoveredList ?d2)" using d1(3) i(1) by simp
    with c3 c2(2) have "Initialized (entry d' i)" unfolding calm_def by blast
    then show ?thesis by (rule won [OF calm_trans [OF c2(1) c3]])
  qed
qed

lemma drain_total:
  "\<lbrakk>run_inv d; weight d \<le> n\<rbrakk> \<Longrightarrow> \<exists>b d'. drain env n s d = Some (b, d') \<and> calm d d'"
proof (induction n arbitrary: d s)
  case 0
  then have "mScheduledQueue d = []" by (simp add: weight_def)
  then show ?case by (subst drain.simps) (simp add: calm_refl)
next
  case (Suc n)
  show ?case
  proof (cases "mScheduledQueue d")
    case Nil
    then show ?thesis by (subst drain.simps) (simp add: calm_refl)
  next
    case (Cons i q)
    then have iq: "i \<in> set (mScheduledQueue d)" by simp
    from drain_step_inv [OF Suc.prems(1) iq] obtain b1 d1 where
      d1: "drain_step env i d = Some (b1, d1)" "run_inv d1" by auto
    from drain_step_calm [OF Suc.prems(1) iq d1(1)] have c: "calm d d1" "weight d1 < weight d" by auto
    with Suc.prems(2) Suc.IH [OF d1(2), of "s \<or> b1"] obtain b d' where
      "drain env n (s \<or> b1) d1 = Some (b, d')" "calm d1 d'" by auto
    then show ?thesis
      using Cons d1(1) c(1) by (subst drain.simps) (auto intro: calm_trans)
  qed
qed

lemma retry_depex_total:
  assumes "run_inv d" "i < length (mDiscoveredList d)" "depex_ok (entry d i)"
  shows "\<exists>d'. retry_depex env i d = Some d' \<and> calm d d'"
proof (cases "DepexProtocolError (entry d i)")
  case False
  then show ?thesis by (simp add: retry_depex_def calm_refl)
next
  case True
  obtain st mem e where R: "ReadDepex env (entry d i) (sys d) = ((st, mem), e)" by (metis prod.collapse)
  have flags: "\<not> Before (entry d i)" "\<not> After (entry d i)" using True assms(3) by (auto simp: depex_ok_def)
  have "\<exists>x. CoreGetDepexSectionAndPreProccess env (entry d i) (sys d) = Some (st, x, e) \<and> depex_ok x"
  proof (cases "EFI_ERROR st")
    case True
    then show ?thesis
      using R assms(3) flags
      by (cases "st = EFI_PROTOCOL_ERROR") (auto simp: CoreGetDepexSectionAndPreProccess_def depex_ok_def)
  next
    case False
    have "good_section mem" using sections [of "entry d i" "sys d"] R False by simp
    from CorePreProcessDepex_total [OF this, of "(entry d i)\<lparr>Depex := Some mem, DepexSize := length mem\<rparr>"] flags
    show ?thesis using R False by (auto simp: CoreGetDepexSectionAndPreProccess_def)
  qed
  then obtain x where x: "CoreGetDepexSectionAndPreProccess env (entry d i) (sys d) = Some (st, x, e)"
    "depex_ok x" by blast
  have "pend (entry d i)" "\<not> Initialized (entry d i)"
    using True state_ok_idle [OF run_invD(1) [OF assms(1,2)]] by (auto simp: pend_def)
  then have "calm d (put_entry i x d)" using x(2) assms(2) by (intro calm_put) auto
  then show ?thesis using True x(1) by (simp add: retry_depex_def calm_def)
qed

lemma sched_calm: "calm d (sched new d)"
proof -
  have "(pend (mark new (mDiscoveredList d) ! i) \<longrightarrow> pend (entry d i))
      \<and> (Initialized (entry d i) \<longrightarrow> Initialized (mark new (mDiscoveredList d) ! i))
      \<and> (depex_ok (entry d i) \<longrightarrow> depex_ok (mark new (mDiscoveredList d) ! i))"
    if "i < length (mDiscoveredList d)" for i
    using that by (simp add: mark_nth schedule1_def pend_def)
  then show ?thesis by (simp add: calm_def)
qed

lemma consider_driver_total:
  assumes inv: "run_inv d" and i: "i < length (mDiscoveredList d)" and ok: "depex_ok (entry d i)"
  shows "\<exists>b' d'. consider_driver env i b d = Some (b', d') \<and> calm d d' \<and> (b' \<longrightarrow> b \<or> pending d' < pending d)"
proof (cases "Dependent (entry d i)")
  case False
  then show ?thesis by (simp add: consider_driver_def calm_refl)
next
  case dep: True
  obtain r x s where
    e: "CoreIsSchedulable (AllocatePool env (sys d)) (LocateProtocol env (sys d))
          (mArchProtocols env (sys d)) (entry d i) (gDepexStack d) = Some (r, x, s)" "depex_ok x"
    using CoreIsSchedulable_total [OF ok] memory by blast
  let ?d = "(put_entry i x d)\<lparr>gDepexStack := s\<rparr>"
  from CoreIsSchedulable_frame [OF e(1)] have x: "Dependent x" "FileName x = FileName (entry d i)"
    "Scheduled x = Scheduled (entry d i)" "Initialized x = Initialized (entry d i)"
    "r \<Longrightarrow> \<not> Before x \<and> \<not> After x" "state_ok x" "pend x"
    using dep run_invD(1) [OF inv i] by (auto simp: pend_def)
  have pd: "pend (entry d i)" using dep by (simp add: pend_def)
  have inv1: "run_inv ?d" using run_inv_put [OF inv i x(6,2,3)] x(4) by (simp add: run_inv_sys)
  have "calm d (put_entry i x d)" using i x(4,7) pd e(2) by (intro calm_put) auto
  then have c1: "calm d ?d" by (simp add: calm_def)
  show ?thesis
  proof (cases r)
    case False
    with dep e c1 show ?thesis by (auto simp: consider_driver_def Let_def)
  next
    case True
    obtain new where new: "insert_sched (length (mDiscoveredList ?d)) i ?d = Some (sched new ?d)"
      "tree (mDiscoveredList ?d) i [] new"
      using insert_sched_tree [of ?d i "[]" "length (mDiscoveredList d)"]
        run_inv_queue_ok [OF inv1] run_invD(2) [OF inv1] i x(1,5) True by auto
    have c2: "calm d (sched new ?d)" using calm_trans [OF c1 sched_calm] .
    have "\<not> pend (schedule1 x)"
      using state_ok_Dependent [OF x(6,1)] by (auto simp: schedule1_def pend_def)
    then have "\<not> pend (entry (sched new ?d) i)"
      using new(2) i by (simp add: mark_nth tree_def)
    then have "pending (sched new ?d) < pending d" using calm_pending_less [OF c2 i pd] by simp
    then show ?thesis
      using dep e True new(1) c2 by (auto simp: consider_driver_def Let_def simp del: put_entry_fields)
  qed
qed

lemma search_total_list:
  assumes "run_inv d" "set is \<subseteq> {..<length (mDiscoveredList d)}"
    "\<forall>i<length (mDiscoveredList d). depex_ok (entry d i)"
  shows "\<exists>b' d'. for_each (search_step env) is (b, d) = Some (b', d') \<and> calm d d'
     \<and> (b' \<longrightarrow> b \<or> pending d' < pending d)"
  using assms
proof (induction "is" arbitrary: b d)
  case Nil
  then show ?case by (simp add: calm_refl)
next
  case (Cons i "is")
  from Cons.prems have i: "i < length (mDiscoveredList d)" "depex_ok (entry d i)" by auto
  from retry_depex_total [OF Cons.prems(1) i] obtain d1 where
    d1: "retry_depex env i d = Some d1" "calm d d1" by blast
  from retry_depex_inv [OF Cons.prems(1) i(1) d1(1)] have r1: "run_inv d1"
    "length (mDiscoveredList d1) = length (mDiscoveredList d)" by auto
  have ok1: "depex_ok (entry d1 i)" using d1(2) i by (simp add: calm_def)
  from consider_driver_total [OF r1(1) _ ok1, of b] i(1) r1(2) obtain b2 d2 where
    d2: "consider_driver env i b d1 = Some (b2, d2)" "calm d1 d2" "b2 \<longrightarrow> b \<or> pending d2 < pending d1" by auto
  from consider_driver_inv [OF r1(1) _ d2(1)] i(1) r1(2) have r2: "run_inv d2"
    "length (mDiscoveredList d2) = length (mDiscoveredList d)" by auto
  note c2 = calm_trans [OF d1(2) d2(2)]
  have ok2: "\<forall>i<length (mDiscoveredList d2). depex_ok (entry d2 i)"
    using c2 Cons.prems(3) by (simp add: calm_def)
  from Cons.IH [OF r2(1) _ ok2, of b2] Cons.prems(2) r2(2) obtain b3 d3 where
    d3: "for_each (search_step env) is (b2, d2) = Some (b3, d3)" "calm d2 d3" "b3 \<longrightarrow> b2 \<or> pending d3 < pending d2"
    by auto
  have "pending d1 \<le> pending d" "pending d2 \<le> pending d1" "pending d3 \<le> pending d2"
    using d1(2) d2(2) d3(2) by (simp_all add: calm_pending)
  then have "b3 \<longrightarrow> b \<or> pending d3 < pending d" using d2(3) d3(3) by auto
  then show ?case using d1(1) d2(1) d3(1) calm_trans [OF c2 d3(2)] by (simp add: search_step_apply)
qed

lemma rounds_total:
  assumes "run_inv d" "\<forall>i<length (mDiscoveredList d). depex_ok (entry d i)"
    "pending d + (length (mDiscoveredList d) + 2) * length (mDiscoveredList d) < n"
  shows "\<exists>b d'. dispatch_rounds env n s smm d = Some (b, d')"
  using assms
proof (induction n arbitrary: d s smm)
  case (Suc n)
  have "weight d \<le> Suc n" using weight_bound [OF Suc.prems(1)] Suc.prems(3) by linarith
  with drain_total [OF Suc.prems(1)] obtain b1 d1 where d1: "drain env (Suc n) s d = Some (b1, d1)" "calm d d1"
    by blast
  from drain_inv [OF Suc.prems(1) d1(1)] have r1: "run_inv d1" by simp
  let ?d2 = "if \<not> smm \<or> b1 then SignalDispatchEvent env d1 else d1"
  have r2: "run_inv ?d2 \<and> calm d1 ?d2"
    using services_grow [OF signal_event r1] services_calm [OF signal_event r1 no_discovery(4)] r1
    by (simp add: grows_def calm_refl)
  then have c2: "calm d ?d2" using calm_trans [OF d1(2)] by blast
  have "\<forall>i<length (mDiscoveredList ?d2). depex_ok (entry ?d2 i)"
    using c2 Suc.prems(2) unfolding calm_def by simp
  then obtain b3 d3 where d3: "search env ?d2 = Some (b3, d3)" "calm ?d2 d3" "b3 \<longrightarrow> pending d3 < pending ?d2"
    using search_total_list [of ?d2 "[0..<length (mDiscoveredList ?d2)]" False] r2
    by (auto simp: search_def atLeast0LessThan)
  from search_inv [OF _ d3(1)] r2 have r3: "run_inv d3" by blast
  have c3: "calm d d3" using calm_trans [OF c2 d3(2)] .
  show ?case
  proof (cases b3)
    case False
    then show ?thesis using d1(1) d3(1) by (simp add: Let_def)
  next
    case True
    have "pending d3 < pending d" using d3(3) True calm_pending [OF c2] by simp
    moreover have "length (mDiscoveredList d3) = length (mDiscoveredList d)"
      "\<forall>i<length (mDiscoveredList d3). depex_ok (entry d3 i)"
      using c3 Suc.prems(2) by (simp_all add: calm_def)
    ultimately obtain b d' where "dispatch_rounds env n b1 True d3 = Some (b, d')"
      using Suc.IH [OF r3, of b1 True] Suc.prems(3) by auto
    then show ?thesis using d1(1) d3(1) True by (simp add: Let_def)
  qed
qed simp

lemma CoreDispatcher_total:
  assumes "run_inv d" "\<forall>i<length (mDiscoveredList d). depex_ok (entry d i)"
    "(length (mDiscoveredList d) + 3) * length (mDiscoveredList d) < n"
  shows "\<exists>st d'. CoreDispatcher env n d = Some (st, d')"
proof (cases "gDispatcherRunning d")
  case True
  then show ?thesis by (simp add: CoreDispatcher_def)
next
  case False
  let ?d0 = "d\<lparr>gDispatcherRunning := True\<rparr>"
  obtain st d1 where c: "CreateDispatchEvent env ?d0 = (st, d1)" by (cases "CreateDispatchEvent env ?d0")
  have inv0: "run_inv ?d0" using assms(1) by (simp add: run_inv_sys)
  have r1: "run_inv d1" using services_grow [OF create_event inv0] c by (simp add: grows_def)
  have "calm ?d0 d1" using services_calm [OF create_event inv0 no_discovery(3)] c by simp
  then have c1: "length (mDiscoveredList d1) = length (mDiscoveredList d)"
    "\<forall>i<length (mDiscoveredList d1). depex_ok (entry d1 i)"
    using assms(2) by (simp_all add: calm_def)
  have "pending d1 \<le> card {..<length (mDiscoveredList d1)}"
    unfolding pending_def by (rule card_mono) auto
  then have "pending d1 + (length (mDiscoveredList d1) + 2) * length (mDiscoveredList d1) < n"
    using assms(3) c1(1) by (simp add: algebra_simps)
  from rounds_total [OF r1 c1(2) this] obtain b d' where
    "dispatch_rounds env n False False d1 = Some (b, d')" by blast
  then show ?thesis using False c by (simp add: CoreDispatcher_def Let_def)
qed

end

section \<open>Scripted images\<close>

text \<open>A system whose images follow a script: they install protocols and call the services.\<close>

datatype action = Install guid | AskSchedule nat guid | AskTrust nat guid

record world =
  protocol_db :: "guid list"

fun perform :: "action \<Rightarrow> world disp \<Rightarrow> world disp" where
  "perform (Install g) d = d\<lparr>sys := (sys d)\<lparr>protocol_db := g # protocol_db (sys d)\<rparr>\<rparr>"
| "perform (AskSchedule h g) d = snd (CoreSchedule h g d)"
| "perform (AskTrust h g) d = (case CoreTrust h g d of None \<Rightarrow> d | Some (st, d) \<Rightarrow> d)"

definition script_env ::
  "(nat \<Rightarrow> action list) \<Rightarrow> (nat \<Rightarrow> efi_status) \<Rightarrow> (guid \<Rightarrow> bool \<times> dexpr) \<Rightarrow> world disp_env" where
  "script_env script load_status sect = \<lparr>
     ReadDepex = (\<lambda>x e. case sect (FileName x) of (sor, b) \<Rightarrow>
       (if wf_expr b then (EFI_SUCCESS, encode (depex_program sor b)) else (EFI_NOT_FOUND, []), e)),
     LocateProtocol = (\<lambda>e g. g \<in> set (protocol_db e)),
     mArchProtocols = (\<lambda>e. []),
     AllocatePool = (\<lambda>e n. Some (\<lambda>_. False)),
     LoadImage = (\<lambda>i d. ((load_status i, Suc i), d)),
     StartImage = (\<lambda>i d. (EFI_SUCCESS, fold perform (script i) d)),
     ProcessFvImageFile = (\<lambda>i d. (EFI_SUCCESS, d)),
     CreateDispatchEvent = (\<lambda>d. (EFI_SUCCESS, d)),
     SignalDispatchEvent = (\<lambda>d. d),
     CloseDispatchEvent = (\<lambda>d. d)\<rparr>"

lemma perform_service: "services env d (perform a d)"
proof (cases a)
  case (Install g)
  then show ?thesis using service_step.elsewhere [of env d] by (simp add: r_into_rtranclp)
next
  case (AskSchedule h g)
  then show ?thesis using service_step.Schedule [of env d h g] by (simp add: r_into_rtranclp)
next
  case (AskTrust h g)
  then show ?thesis using service_step.Trust [of h g d _ _ env] by (auto split: option.split intro: r_into_rtranclp)
qed

lemma script_services: "services env d (fold perform as d)"
  by (induction "as" arbitrary: d) (auto intro: rtranclp_trans perform_service)

lemma find_entry_sys: "find_entry P (d\<lparr>sys := e\<rparr>) = find_entry P d"
  by (simp add: find_entry_def)

lemma perform_length: "length (mDiscoveredList (perform a d)) = length (mDiscoveredList d)"
  by (cases a) (auto simp: CoreSchedule_def CoreTrust_def link_scheduled_def split: option.split if_splits)

lemma script_length: "length (mDiscoveredList (fold perform as d)) = length (mDiscoveredList d)"
  by (induction "as" arbitrary: d) (simp_all add: perform_length)

lemma good_depex_program: "wf_expr e \<Longrightarrow> good_section (encode (depex_program sor e))"
  using wf_depex_program [of e sor] unfolding good_section_def
  by (intro disjI1 exI [of _ "depex_program sor e"]) (simp add: depex_program_def)

interpretation scripted: closed_services "script_env script load_status sect" for script load_status sect
proof
  show "\<exists>e. snd (LoadImage (script_env script load_status sect) i d) = d\<lparr>sys := e\<rparr>" for i d
    by (rule exI [of _ "sys d"]) (simp add: script_env_def)
qed (auto simp: script_env_def script_services script_length good_depex_program split: prod.splits if_splits)

section \<open>Properties\<close>

text \<open>C1. In a run of the dispatcher, whatever the images do through the services they are given, each image is started at most
  once (also over all the runs so far), everything that was started is in the state Initialized and in no other, and every
  driver is in at most one state.  What is taken for granted: the run begins in a state of this kind; the images act through
  the services Schedule and Trust and on state outside the dispatcher; a loaded image has a handle that is not zero; a
  firmware volume that is discovered brings files whose names are not on the list, and its a priori file names drivers that
  are different and all still Dependent.  The code tests neither of the last two.\<close>

theorem CoreDispatcher_starts_once:
  assumes "dispatch_services env" "run_inv d" "CoreDispatcher env n d = Some (st, d')"
  shows "distinct (report d') \<and> set (report d) \<subseteq> set (report d')
    \<and> (\<forall>i<length (mDiscoveredList d'). state_ok (entry d' i))
    \<and> (\<forall>i\<in>set (report d'). Initialized (entry d' i))
    \<and> distinct (mScheduledQueue d')
    \<and> (\<forall>i. i \<in> set (mScheduledQueue d') \<longleftrightarrow> i < length (mDiscoveredList d') \<and> Scheduled (entry d' i))"
  using dispatch_services.CoreDispatcher_inv [OF assms] by (simp add: run_inv_def)

definition fresh :: "u8 \<Rightarrow> dexpr \<Rightarrow> bool \<Rightarrow> driver_entry" where
  "fresh nm e sor = zero_entry\<lparr>FileName := replicate 16 nm, FvHandle := 1,
     Depex := Some (encode (depex_program sor e)), DepexSize := length (encode (depex_program sor e)),
     Dependent := \<not> sor, Unrequested := sor\<rparr>"

definition boot :: "driver_entry list \<Rightarrow> world disp" where
  "boot ds = \<lparr>mDiscoveredList = ds, mScheduledQueue = [], gDispatcherRunning = False,
     gDepexStack = \<lparr>mDepexEvaluationStack = Some (replicate 4 False), mDepexEvaluationStackPointer = 0\<rparr>,
     report = [], sys = \<lparr>protocol_db = []\<rparr>\<rparr>"

lemma boot_inv:
  "\<lbrakk>\<forall>x\<in>set ds. state_ok x \<and> \<not> Scheduled x; distinct (map FileName ds)\<rbrakk> \<Longrightarrow> run_inv (boot ds)"
  by (auto simp: run_inv_def boot_def unique_names_distinct)

abbreviation two_drivers :: "world disp" where
  "two_drivers \<equiv> boot [fresh 1 (Present (replicate 16 9)) False, fresh 2 (Const True) False]"

abbreviation two_env :: "world disp_env" where
  "two_env \<equiv> script_env (\<lambda>i. if i = 1 then [Install (replicate 16 9)] else [])
     (\<lambda>_. EFI_SUCCESS) (\<lambda>_. (False, Const True))"

lemma two_drivers_inv: "run_inv two_drivers"
  by (rule boot_inv) (auto simp: fresh_def state_ok_def zero_entry_def)

lemma two_drivers_run:
  "map_option (\<lambda>r. (fst r, report (snd r))) (CoreDispatcher two_env 11 two_drivers) = Some (EFI_SUCCESS, [1, 0])"
  by code_simp

lemma CoreDispatcher_starts_once_witness:
  "\<exists>d'. CoreDispatcher two_env 11 two_drivers = Some (EFI_SUCCESS, d') \<and> report d' = [1, 0]
     \<and> distinct (report d')"
proof -
  obtain d' where d': "CoreDispatcher two_env 11 two_drivers = Some (EFI_SUCCESS, d')" "report d' = [1, 0]"
    using two_drivers_run by auto
  moreover from CoreDispatcher_starts_once [OF scripted.dispatch_services_axioms two_drivers_inv d'(1)]
  have "distinct (report d')" by blast
  ultimately show ?thesis by blast
qed

text \<open>C16. A run of the dispatcher ends when no further drivers are discovered: a number of turns that is quadratic in the number
  of drivers is enough, however often images request, trust or refuse each other.  What is taken for granted: the file names
  on the list are unique and each driver is in at most one state; the expressions of the drivers, and the sections that are read,
  are well formed; the evaluator has memory; loading an image changes nothing the dispatcher keeps; the other foreign
  code acts through the services Schedule and Trust, and an a priori file names different drivers that are still Dependent.\<close>

theorem CoreDispatcher_terminates:
  assumes "closed_services env" "run_inv d"
    and "\<forall>i<length (mDiscoveredList d). depex_ok (entry d i)"
    and "(length (mDiscoveredList d) + 3) * length (mDiscoveredList d) < n"
  shows "\<exists>st d'. CoreDispatcher env n d = Some (st, d')"
  using closed_services.CoreDispatcher_total [OF assms] .

lemma fresh_depex_ok: "wf_expr e \<Longrightarrow> depex_ok (fresh nm e sor)"
  using wf_depex_program [of e sor] by (auto simp: depex_ok_def fresh_def)

lemma CoreDispatcher_terminates_witness:
  "\<exists>st d'. CoreDispatcher two_env 11 two_drivers = Some (st, d')"
  by (rule CoreDispatcher_terminates [OF scripted.closed_services_axioms two_drivers_inv])
    (auto simp: boot_def less_Suc_eq numeral_2_eq_2 fresh_depex_ok)

text \<open>A driver on the a priori list whose expression begins with \<open>SOR\<close>, dispatched,
  requested, and dispatched again.\<close>

definition apriori_sor :: "(efi_status \<times> nat list) option" where
  "apriori_sor = do {
     d \<leftarrow> schedule_apriori 1 [replicate 16 1] (boot [fresh 1 (Const True) True]);
     (_, d) \<leftarrow> CoreDispatcher two_env 10 d;
     let (st, d) = CoreSchedule 1 (replicate 16 1) d;
     (_, d) \<leftarrow> CoreDispatcher two_env 10 d;
     Some (st, report d)
   }"

text \<open>The a priori file can break this: a driver whose expression begins with \<open>SOR\<close> and that
  is also listed a priori keeps its Unrequested mark when it is queued; a later request for
  it succeeds, and the next run of the dispatcher asks for the same image to be started a second time
  (which \<open>CoreStartImage\<close> in \<open>Image.c\<close> then refuses).\<close>

theorem apriori_SOR_starts_twice: "apriori_sor = Some (EFI_SUCCESS, [0, 0])"
  by code_simp

text \<open>When the dispatch event cannot be created, the call fails with the running flag left
  set, and from then on the dispatcher refuses to run.\<close>

theorem CoreDispatcher_event_failure:
  assumes "\<not> gDispatcherRunning d"
    and "CreateDispatchEvent env (d\<lparr>gDispatcherRunning := True\<rparr>) = (st, d1)"
    and "EFI_ERROR st" "gDispatcherRunning d1"
  shows "CoreDispatcher env n d = Some (st, d1) \<and> CoreDispatcher env n d1 = Some (EFI_ALREADY_STARTED, d1)"
  using assms by (simp add: CoreDispatcher_def)

lemma CoreDispatcher_event_failure_witness:
  "\<exists>d1. CoreDispatcher (two_env\<lparr>CreateDispatchEvent := \<lambda>d. (EFI_OUT_OF_RESOURCES, d)\<rparr>) 5 two_drivers
     = Some (EFI_OUT_OF_RESOURCES, d1)
   \<and> CoreDispatcher (two_env\<lparr>CreateDispatchEvent := \<lambda>d. (EFI_OUT_OF_RESOURCES, d)\<rparr>) 5 d1
     = Some (EFI_ALREADY_STARTED, d1)"
  using CoreDispatcher_event_failure
    [of two_drivers "two_env\<lparr>CreateDispatchEvent := \<lambda>d. (EFI_OUT_OF_RESOURCES, d)\<rparr>" EFI_OUT_OF_RESOURCES
      "two_drivers\<lparr>gDispatcherRunning := True\<rparr>" 5]
  by (auto simp: boot_def)

end
