(* ===== verification/LinkedList.thy ===== *)
theory LinkedList
  imports Prelude
begin

text \<open>
  The intrusive doubly-linked lists of \<open>MdePkg/Library/BaseLib/LinkedList.c\<close>.  A heap
  holds the two links of every node; addresses are numbers and \<open>0\<close> is \<open>NULL\<close>.  The two
  PCDs that the validity check reads are the record \<open>pcd\<close>.  The abstraction
  \<open>dlist h n xs\<close> says that the nodes \<open>xs\<close>, in this order, are on the list with head
  \<open>n\<close>; every operation is shown to implement the operation on \<open>xs\<close>, and the locale
  \<open>list_library\<close> is the contract the other components rely on.
\<close>

section \<open>The code\<close>

record list_heap =
  ForwardLink :: "nat \<Rightarrow> nat"
  BackLink :: "nat \<Rightarrow> nat"

record pcd =
  PcdVerifyNodeInList :: bool
  PcdMaximumLinkedListLength :: nat

definition set_fwd :: "nat \<Rightarrow> nat \<Rightarrow> list_heap \<Rightarrow> list_heap" where
  "set_fwd a b h = h\<lparr>ForwardLink := (ForwardLink h)(a := b)\<rparr>"

definition set_bck :: "nat \<Rightarrow> nat \<Rightarrow> list_heap \<Rightarrow> list_heap" where
  "set_bck a b h = h\<lparr>BackLink := (BackLink h)(a := b)\<rparr>"

text \<open>The loop that looks for \<open>Node\<close>.  The early return after its \<open>ASSERT\<close> is only reachable in
  builds where a failed \<open>ASSERT\<close> goes on.  On a broken chain it may run for ever.\<close>

partial_function (option) find_node ::
  "pcd \<Rightarrow> list_heap \<Rightarrow> nat \<Rightarrow> nat \<Rightarrow> nat \<Rightarrow> nat \<Rightarrow> (nat \<times> nat) option" where
  "find_node p h List Node Ptr Count = do {
     let Ptr = ForwardLink h Ptr;
     let Count = (if PcdMaximumLinkedListLength p > 0 then Count + 1 else Count);
     ASSERT (PcdMaximumLinkedListLength p > 0 \<longrightarrow> Count < PcdMaximumLinkedListLength p);
     if Ptr \<noteq> List \<and> Ptr \<noteq> Node then find_node p h List Node Ptr Count else Some (Ptr, Count)
   }"

text \<open>The loop that counts the nodes.\<close>

function count_nodes :: "pcd \<Rightarrow> list_heap \<Rightarrow> nat \<Rightarrow> nat \<Rightarrow> nat \<Rightarrow> nat" where
  "count_nodes p h List Ptr Count =
     (let Ptr = ForwardLink h Ptr; Count = Count + 1
      in if Ptr \<noteq> List \<and> Count < PcdMaximumLinkedListLength p
         then count_nodes p h List Ptr Count else Count)"
  by pat_completeness auto
termination
  by (relation "measure (\<lambda>(p, h, List, Ptr, Count). PcdMaximumLinkedListLength p - Count)") auto

declare count_nodes.simps [simp del]

definition InternalBaseLibIsNodeInList ::
  "pcd \<Rightarrow> list_heap \<Rightarrow> nat \<Rightarrow> nat \<Rightarrow> bool \<Rightarrow> bool option" where
  "InternalBaseLibIsNodeInList p h List Node VerifyNodeInList = do {
     ASSERT (List \<noteq> 0);
     ASSERT (ForwardLink h List \<noteq> 0);
     ASSERT (BackLink h List \<noteq> 0);
     ASSERT (Node \<noteq> 0);
     (Ptr, Count) \<leftarrow> (if PcdVerifyNodeInList p \<and> VerifyNodeInList
                       then find_node p h List Node List 0 else Some (List, 0));
     if PcdVerifyNodeInList p \<and> VerifyNodeInList \<and> Ptr \<noteq> Node then Some False
     else do {
       ASSERT (PcdMaximumLinkedListLength p > 0 \<longrightarrow>
               count_nodes p h List Ptr Count < PcdMaximumLinkedListLength p);
       Some True
     }
   }"

definition assert_in_list :: "pcd \<Rightarrow> list_heap \<Rightarrow> nat \<Rightarrow> nat \<Rightarrow> bool \<Rightarrow> unit option" where
  "assert_in_list p h List Node Verify = do {
     b \<leftarrow> InternalBaseLibIsNodeInList p h List Node Verify; ASSERT b }"

definition InitializeListHead :: "nat \<Rightarrow> list_heap \<Rightarrow> (nat \<times> list_heap) option" where
  "InitializeListHead ListHead h = do {
     ASSERT (ListHead \<noteq> 0);
     Some (ListHead, set_bck ListHead ListHead (set_fwd ListHead ListHead h))
   }"

definition InsertHeadList :: "pcd \<Rightarrow> nat \<Rightarrow> nat \<Rightarrow> list_heap \<Rightarrow> (nat \<times> list_heap) option" where
  "InsertHeadList p ListHead Entry h = do {
     assert_in_list p h ListHead Entry False;
     let h = set_fwd Entry (ForwardLink h ListHead) h;
     let h = set_bck Entry ListHead h;
     let h = set_bck (ForwardLink h Entry) Entry h;
     let h = set_fwd ListHead Entry h;
     Some (ListHead, h)
   }"

definition InsertTailList :: "pcd \<Rightarrow> nat \<Rightarrow> nat \<Rightarrow> list_heap \<Rightarrow> (nat \<times> list_heap) option" where
  "InsertTailList p ListHead Entry h = do {
     assert_in_list p h ListHead Entry False;
     let h = set_fwd Entry ListHead h;
     let h = set_bck Entry (BackLink h ListHead) h;
     let h = set_fwd (BackLink h Entry) Entry h;
     let h = set_bck ListHead Entry h;
     Some (ListHead, h)
   }"

definition GetFirstNode :: "pcd \<Rightarrow> nat \<Rightarrow> list_heap \<Rightarrow> nat option" where
  "GetFirstNode p List h = do { assert_in_list p h List List False; Some (ForwardLink h List) }"

definition GetNextNode :: "pcd \<Rightarrow> nat \<Rightarrow> nat \<Rightarrow> list_heap \<Rightarrow> nat option" where
  "GetNextNode p List Node h = do { assert_in_list p h List Node True; Some (ForwardLink h Node) }"

definition GetPreviousNode :: "pcd \<Rightarrow> nat \<Rightarrow> nat \<Rightarrow> list_heap \<Rightarrow> nat option" where
  "GetPreviousNode p List Node h = do { assert_in_list p h List Node True; Some (BackLink h Node) }"

definition IsListEmpty :: "pcd \<Rightarrow> nat \<Rightarrow> list_heap \<Rightarrow> bool option" where
  "IsListEmpty p ListHead h = do {
     assert_in_list p h ListHead ListHead False; Some (ForwardLink h ListHead = ListHead) }"

definition IsNull :: "pcd \<Rightarrow> nat \<Rightarrow> nat \<Rightarrow> list_heap \<Rightarrow> bool option" where
  "IsNull p List Node h = do { assert_in_list p h List Node True; Some (Node = List) }"

definition IsNodeAtEnd :: "pcd \<Rightarrow> nat \<Rightarrow> nat \<Rightarrow> list_heap \<Rightarrow> bool option" where
  "IsNodeAtEnd p List Node h = do {
     assert_in_list p h List Node True;
     b \<leftarrow> IsNull p List Node h;
     Some (\<not> b \<and> BackLink h List = Node)
   }"

definition RemoveEntryList :: "pcd \<Rightarrow> nat \<Rightarrow> list_heap \<Rightarrow> (nat \<times> list_heap) option" where
  "RemoveEntryList p Entry h = do {
     b \<leftarrow> IsListEmpty p Entry h;
     ASSERT (\<not> b);
     let h = set_bck (ForwardLink h Entry) (BackLink h Entry) h;
     let h = set_fwd (BackLink h Entry) (ForwardLink h Entry) h;
     Some (ForwardLink h Entry, h)
   }"

definition SwapListEntries :: "pcd \<Rightarrow> nat \<Rightarrow> nat \<Rightarrow> list_heap \<Rightarrow> (nat \<times> list_heap) option" where
  "SwapListEntries p FirstEntry SecondEntry h =
     (if FirstEntry = SecondEntry then Some (SecondEntry, h)
      else do {
        assert_in_list p h FirstEntry SecondEntry True;
        (Ptr, h) \<leftarrow> RemoveEntryList p FirstEntry h;
        if BackLink h Ptr = SecondEntry then InsertTailList p SecondEntry FirstEntry h
        else do {
          (r, h) \<leftarrow> InsertHeadList p SecondEntry FirstEntry h;
          if Ptr = r then Some (Ptr, h)
          else do {
            (_, h) \<leftarrow> RemoveEntryList p SecondEntry h;
            (_, h) \<leftarrow> InsertTailList p Ptr SecondEntry h;
            Some (SecondEntry, h)
          }
        }
      })"

section \<open>The abstraction\<close>

text \<open>\<open>chain h a xs z\<close>: from \<open>a\<close> the links lead through \<open>xs\<close> to \<open>z\<close> and back.\<close>

fun chain :: "list_heap \<Rightarrow> nat \<Rightarrow> nat list \<Rightarrow> nat \<Rightarrow> bool" where
  "chain h a [] z \<longleftrightarrow> ForwardLink h a = z \<and> BackLink h z = a"
| "chain h a (x # xs) z \<longleftrightarrow> ForwardLink h a = x \<and> BackLink h x = a \<and> chain h x xs z"

definition dlist :: "list_heap \<Rightarrow> nat \<Rightarrow> nat list \<Rightarrow> bool" where
  "dlist h n xs \<longleftrightarrow> distinct (n # xs) \<and> 0 \<notin> set (n # xs) \<and> chain h n xs n"

lemma chain_append: "chain h a (xs @ y # ys) z \<longleftrightarrow> chain h a xs y \<and> chain h y ys z"
  by (induction xs arbitrary: a) auto

lemma link_simps [simp]:
  "ForwardLink (set_fwd a b h) = (ForwardLink h)(a := b)" "BackLink (set_fwd a b h) = BackLink h"
  "BackLink (set_bck a b h) = (BackLink h)(a := b)" "ForwardLink (set_bck a b h) = ForwardLink h"
  by (simp_all add: set_fwd_def set_bck_def)

lemma chain_set_fwd: "c \<notin> set (a # xs) \<Longrightarrow> chain (set_fwd c b h) a xs z = chain h a xs z"
  by (induction xs arbitrary: a) auto

lemma chain_set_bck: "c \<notin> set xs \<Longrightarrow> c \<noteq> z \<Longrightarrow> chain (set_bck c b h) a xs z = chain h a xs z"
  by (induction xs arbitrary: a) auto

lemma chain_last: "chain h a xs z \<Longrightarrow> BackLink h z = last (a # xs)"
  by (induction xs arbitrary: a) auto

lemma chain_first: "chain h a xs z \<Longrightarrow> ForwardLink h a = hd (xs @ [z])"
  by (cases xs) auto

text \<open>A circular list may be entered at any of its nodes.\<close>

lemma dlist_rotate: "dlist h n (xs @ e # ys) \<longleftrightarrow> dlist h e (ys @ n # xs)"
  by (auto simp: dlist_def chain_append)

section \<open>The validity check\<close>

text \<open>The number of links the check follows before it is back at the head: when membership is
  verified and the node is the head itself, the list is gone round twice.\<close>

definition links_followed :: "pcd \<Rightarrow> bool \<Rightarrow> nat \<Rightarrow> nat \<Rightarrow> nat list \<Rightarrow> nat" where
  "links_followed p Verify n node xs =
     (if PcdVerifyNodeInList p \<and> Verify \<and> node = n then 2 * (length xs + 1) else length xs + 1)"

definition room :: "pcd \<Rightarrow> bool \<Rightarrow> nat \<Rightarrow> nat \<Rightarrow> nat list \<Rightarrow> bool" where
  "room p Verify n node xs \<longleftrightarrow>
     PcdMaximumLinkedListLength p = 0 \<or> links_followed p Verify n node xs < PcdMaximumLinkedListLength p"

lemma find_node_steps:
  assumes "chain h a us t" "t = z \<or> t = node" "z \<notin> set us" "node \<notin> set us"
    and "PcdMaximumLinkedListLength p > 0 \<longrightarrow> c + length us + 1 < PcdMaximumLinkedListLength p"
  shows "find_node p h z node a c =
     Some (t, if PcdMaximumLinkedListLength p > 0 then c + length us + 1 else c)"
  using assms
proof (induction us arbitrary: a c)
  case Nil
  then show ?case by (subst find_node.simps) (auto simp: Let_def)
next
  case (Cons u us)
  then show ?case by (subst find_node.simps) (auto simp: Let_def)
qed

lemma count_nodes_steps:
  assumes "chain h a us z" "z \<notin> set us" "c + length us + 1 < PcdMaximumLinkedListLength p"
  shows "count_nodes p h z a c = c + length us + 1"
  using assms
proof (induction us arbitrary: a c)
  case Nil
  then show ?case by (subst count_nodes.simps) (auto simp: Let_def)
next
  case (Cons u us)
  then show ?case by (subst count_nodes.simps) (auto simp: Let_def)
qed

lemma dlist_not_null:
  "dlist h n xs \<Longrightarrow> n \<noteq> 0 \<and> ForwardLink h n \<noteq> 0 \<and> BackLink h n \<noteq> 0"
proof -
  assume d: "dlist h n xs"
  then have "ForwardLink h n \<in> set (n # xs)" by (cases xs) (auto simp: dlist_def)
  moreover have "BackLink h n \<in> set (n # xs)"
    using d by (cases xs rule: rev_cases) (auto simp: dlist_def chain_append)
  moreover have "0 \<notin> set (n # xs)" using d by (simp add: dlist_def)
  ultimately show ?thesis by (metis list.set_intros(1))
qed

lemma in_list_unverified:
  assumes "dlist h n xs" "node \<noteq> 0" "room p False n node xs"
  shows "InternalBaseLibIsNodeInList p h n node False = Some True"
  using dlist_not_null [OF assms(1)] assms count_nodes_steps [of h n xs n 0 p]
  by (auto simp: InternalBaseLibIsNodeInList_def room_def links_followed_def dlist_def)

lemma in_list_verified:
  assumes d: "dlist h n xs" and "node \<noteq> 0" and r: "room p True n node xs" and m: "node \<in> set (n # xs)"
  shows "InternalBaseLibIsNodeInList p h n node True = Some True"
proof (cases "PcdVerifyNodeInList p")
  case False
  then show ?thesis
    using dlist_not_null [OF d] assms count_nodes_steps [of h n xs n 0 p]
    by (auto simp: InternalBaseLibIsNodeInList_def room_def links_followed_def dlist_def)
next
  case True
  let ?max = "PcdMaximumLinkedListLength p"
  have c: "chain h n xs n" "n \<notin> set xs" "distinct xs" using d by (auto simp: dlist_def)
  show ?thesis
  proof (cases "node = n")
    case eq: True
    with r True have mx: "?max > 0 \<longrightarrow> 2 * (length xs + 1) < ?max" by (auto simp: room_def links_followed_def)
    then have "find_node p h n n n 0 = Some (n, if ?max > 0 then length xs + 1 else 0)"
      using find_node_steps [OF c(1), of n n p 0] c(2) by auto
    moreover have "?max > 0 \<Longrightarrow> count_nodes p h n n (length xs + 1) = length xs + 1 + length xs + 1"
      using count_nodes_steps [OF c(1,2), of "length xs + 1" p] mx by simp
    ultimately show ?thesis
      using dlist_not_null [OF d] True eq mx by (auto simp: InternalBaseLibIsNodeInList_def)
  next
    case ne: False
    then obtain us vs where xs: "xs = us @ node # vs" using m by (auto simp: in_set_conv_decomp)
    then have ch: "chain h n us node" "chain h node vs n" using c by (auto simp: chain_append)
    have mx: "?max > 0 \<longrightarrow> length xs + 1 < ?max" using r ne by (auto simp: room_def links_followed_def)
    then have "find_node p h n node n 0 = Some (node, if ?max > 0 then length us + 1 else 0)"
      using find_node_steps [OF ch(1), of n node p 0] c xs by auto
    moreover have "?max > 0 \<Longrightarrow> count_nodes p h n node (length us + 1) = length us + 1 + length vs + 1"
      using count_nodes_steps [OF ch(2), of "length us + 1" p] mx c xs by simp
    ultimately show ?thesis
      using dlist_not_null [OF d] True mx assms(2) xs by (auto simp: InternalBaseLibIsNodeInList_def)
  qed
qed

lemma not_in_list_verified:
  assumes "dlist h n xs" "node \<noteq> 0" "node \<notin> set (n # xs)" "PcdVerifyNodeInList p" "room p True n node xs"
  shows "InternalBaseLibIsNodeInList p h n node True = Some False"
  using dlist_not_null [OF assms(1)] assms find_node_steps [of h n xs n n node p 0]
  by (auto simp: InternalBaseLibIsNodeInList_def room_def links_followed_def dlist_def)

lemma assert_in_list_ok:
  "\<lbrakk>dlist h n xs; node \<noteq> 0; room p False n node xs\<rbrakk> \<Longrightarrow> assert_in_list p h n node False = Some ()"
  "\<lbrakk>dlist h n xs; node \<in> set (n # xs); room p True n node xs\<rbrakk> \<Longrightarrow> assert_in_list p h n node True = Some ()"
  using in_list_unverified [of h n xs node p] in_list_verified [of h n xs node p]
  by (auto simp: assert_in_list_def dlist_def)

lemma room_False: "room p False n node xs \<longleftrightarrow>
    PcdMaximumLinkedListLength p = 0 \<or> length xs + 1 < PcdMaximumLinkedListLength p"
  by (simp add: room_def links_followed_def)

section \<open>The operations\<close>

abbreviation fits :: "pcd \<Rightarrow> nat list \<Rightarrow> bool" where
  "fits p xs \<equiv> PcdMaximumLinkedListLength p = 0 \<or> length xs + 1 < PcdMaximumLinkedListLength p"

lemma InitializeListHead_dlist:
  "n \<noteq> 0 \<Longrightarrow> \<exists>h'. InitializeListHead n h = Some (n, h') \<and> dlist h' n []"
  by (simp add: InitializeListHead_def dlist_def)

text \<open>The links of nodes outside the list, and outside the entry, are untouched.\<close>

definition only_changes :: "nat set \<Rightarrow> list_heap \<Rightarrow> list_heap \<Rightarrow> bool" where
  "only_changes S h h' \<longleftrightarrow> (\<forall>a. a \<notin> S \<longrightarrow> ForwardLink h' a = ForwardLink h a \<and> BackLink h' a = BackLink h a)"

lemma only_changes_dlist:
  assumes "only_changes S h h'" "dlist h m ys" "S \<inter> set (m # ys) = {}"
  shows "dlist h' m ys"
proof -
  have "chain h' a us z = chain h a us z" if "S \<inter> set (a # us @ [z]) = {}" for a us z
    using that assms(1) by (induction us arbitrary: a) (auto simp: only_changes_def)
  from this [of m ys m] show ?thesis using assms by (auto simp: dlist_def)
qed

lemma only_changes_trans: "only_changes S a b \<Longrightarrow> only_changes S b c \<Longrightarrow> only_changes S a c"
  by (auto simp: only_changes_def)

lemma InsertHeadList_dlist:
  assumes d: "dlist h n xs" and e: "e \<noteq> 0" "e \<notin> set (n # xs)" and "fits p xs"
  shows "\<exists>h'. InsertHeadList p n e h = Some (n, h') \<and> dlist h' n (e # xs) \<and> only_changes (set (n # e # xs)) h h'"
proof -
  let ?h = "set_fwd n e (set_bck (ForwardLink h n) e (set_bck e n (set_fwd e (ForwardLink h n) h)))"
  have "InsertHeadList p n e h = Some (n, ?h)"
    using assert_in_list_ok(1) [OF d e(1), of p] assms by (simp add: InsertHeadList_def room_False)
  moreover have "dlist ?h n (e # xs)"
    using d e by (cases xs) (auto simp: dlist_def chain_set_fwd chain_set_bck)
  moreover have "ForwardLink h n \<in> set (n # xs)" using d by (cases xs) (auto simp: dlist_def)
  then have "only_changes (set (n # e # xs)) h ?h" by (auto simp: only_changes_def)
  ultimately show ?thesis by blast
qed

lemma InsertTailList_dlist:
  assumes d: "dlist h n xs" and e: "e \<noteq> 0" "e \<notin> set (n # xs)" and "fits p xs"
  shows "\<exists>h'. InsertTailList p n e h = Some (n, h') \<and> dlist h' n (xs @ [e]) \<and> only_changes (set (n # e # xs)) h h'"
proof -
  let ?b = "BackLink h n"
  let ?h = "set_bck n e (set_fwd ?b e (set_bck e ?b (set_fwd e n h)))"
  have "InsertTailList p n e h = Some (n, ?h)"
    using assert_in_list_ok(1) [OF d e(1), of p] assms by (simp add: InsertTailList_def room_False)
  moreover have "dlist ?h n (xs @ [e])"
    using d e by (cases xs rule: rev_cases) (auto simp: dlist_def chain_set_fwd chain_set_bck chain_append)
  moreover have "?b \<in> set (n # xs)"
    using d by (cases xs rule: rev_cases) (auto simp: dlist_def chain_append)
  then have "only_changes (set (n # e # xs)) h ?h" by (auto simp: only_changes_def)
  ultimately show ?thesis by blast
qed

lemma RemoveEntryList_dlist:
  assumes d: "dlist h n (us @ e # vs)" and "fits p (us @ e # vs)"
  shows "\<exists>h'. RemoveEntryList p e h = Some (hd (vs @ [n]), h') \<and> dlist h' n (us @ vs)
     \<and> only_changes (set (n # us @ vs)) h h'"
proof -
  let ?f = "ForwardLink h e" and ?b = "BackLink h e"
  let ?h = "set_fwd ?b ?f (set_bck ?f ?b h)"
  have r: "dlist h e (vs @ n # us)" using d dlist_rotate by blast
  have f: "?f = hd (vs @ [n])" using d by (cases vs) (auto simp: dlist_def chain_append)
  have b: "?b = last (n # us)" using d by (cases us rule: rev_cases) (auto simp: dlist_def chain_append)
  have fe: "?f \<noteq> e" "?b \<noteq> e" using d f b by (cases vs; cases us rule: rev_cases; auto simp: dlist_def)+
  have "assert_in_list p h e e False = Some ()"
    using assert_in_list_ok(1) [OF r, of e p] assms by (auto simp: room_False dlist_def)
  then have "RemoveEntryList p e h = Some (hd (vs @ [n]), ?h)"
    using fe f by (simp add: RemoveEntryList_def IsListEmpty_def)
  moreover have "dlist ?h n (us @ vs)"
    using d f b
    by (cases vs; cases us rule: rev_cases)
      (auto simp: dlist_def chain_append chain_set_fwd chain_set_bck)
  moreover have "only_changes (set (n # us @ vs)) h ?h"
    using f b by (cases vs; cases us rule: rev_cases) (auto simp: only_changes_def)
  ultimately show ?thesis by blast
qed

text \<open>Exchanging two entries, with the list entered at the first: the code's three cases are the
  two in which they are neighbours, and the general one.\<close>

lemma SwapListEntries_rotated:
  assumes d: "dlist h a (vs @ b # ws)" and r: "room p True a b (vs @ b # ws)"
    and f: "fits p (vs @ b # ws)"
  shows "\<exists>h'. SwapListEntries p a b h = Some (b, h') \<and> dlist h' b (vs @ a # ws)
     \<and> only_changes (set (a # vs @ b # ws)) h h'"
proof -
  let ?S = "set (a # vs @ b # ws)"
  have ab: "a \<noteq> b" "a \<noteq> 0" "b \<noteq> 0" using d by (auto simp: dlist_def)
  have chk: "assert_in_list p h a b True = Some ()"
    using assert_in_list_ok(2) [OF d _ r] by simp
  have "dlist h b (ws @ a # vs)" using d dlist_rotate by blast
  from RemoveEntryList_dlist [OF this, of p] f obtain h1 where
    h1: "RemoveEntryList p a h = Some (hd (vs @ [b]), h1)" "dlist h1 b (ws @ vs)"
      "only_changes (set (b # ws @ vs)) h h1" by auto
  let ?ptr = "hd (vs @ [b])"
  have disj: "a \<notin> set (b # ws @ vs)" using d by (auto simp: dlist_def)
  have bck: "BackLink h1 ?ptr = last (b # ws)"
  proof (cases vs)
    case Nil
    then show ?thesis using h1(2) chain_last [of h1 b ws b] by (simp add: dlist_def)
  next
    case (Cons v vs')
    then show ?thesis using h1(2) chain_last [of h1 b ws v] by (simp add: dlist_def chain_append)
  qed
  show ?thesis
  proof (cases "ws = []")
    case ws: True
    obtain h2 where h2: "InsertTailList p b a h1 = Some (b, h2)" "dlist h2 b (vs @ [a])"
      "only_changes (set (b # a # vs)) h1 h2"
      using InsertTailList_dlist [OF h1(2) ab(2), of p] disj f ws by auto
    then have "SwapListEntries p a b h = Some (b, h2)"
      using ab chk h1(1) bck ws by (simp add: SwapListEntries_def)
    moreover have "only_changes ?S h h2"
      using h1(3) h2(3) ws by (auto simp: only_changes_def)
    ultimately show ?thesis using h2(2) ws by auto
  next
    case ws: False
    have "last (b # ws) \<noteq> b" using ws d by (auto simp: dlist_def)
    then have nb: "BackLink h1 ?ptr \<noteq> b" using bck by simp
    obtain h2 where h2: "InsertHeadList p b a h1 = Some (b, h2)" "dlist h2 b (a # ws @ vs)"
      "only_changes (set (b # a # ws @ vs)) h1 h2"
      using InsertHeadList_dlist [OF h1(2) ab(2), of p] disj f by auto
    have S2: "only_changes ?S h h2" using h1(3) h2(3) by (auto simp: only_changes_def)
    show ?thesis
    proof (cases vs)
      case Nil
      then have "SwapListEntries p a b h = Some (b, h2)"
        using ab chk h1(1) nb h2(1) by (simp add: SwapListEntries_def)
      with S2 h2(2) Nil show ?thesis by auto
    next
      case (Cons q vs')
      have "dlist h2 a ((ws @ vs) @ b # [])"
        using h2(2) dlist_rotate [of h2 b "[]" a "ws @ vs"] by simp
      from RemoveEntryList_dlist [OF this, of p] f obtain h3 where
        h3: "RemoveEntryList p b h2 = Some (a, h3)" "dlist h3 a (ws @ vs)"
          "only_changes (set (a # ws @ vs)) h2 h3" by auto
      have "dlist h3 q (vs' @ a # ws)"
        using h3(2) Cons dlist_rotate [of h3 a ws q vs'] by simp
      from InsertTailList_dlist [OF this ab(3), of p] d f Cons obtain h4 where
        h4: "InsertTailList p q b h3 = Some (q, h4)" "dlist h4 q (vs' @ a # ws @ [b])"
          "only_changes (set (q # b # vs' @ a # ws)) h3 h4" by (auto simp: dlist_def)
      have "SwapListEntries p a b h = Some (b, h4)"
        using ab chk h1(1) nb h2(1) h3(1) h4(1) Cons d by (auto simp: SwapListEntries_def dlist_def)
      moreover have "dlist h4 b (vs @ a # ws)"
        using h4(2) Cons dlist_rotate [of h4 q "vs' @ a # ws" b "[]"] by simp
      moreover have "only_changes ?S h h4"
        using S2 h3(3) h4(3) Cons by (auto simp: only_changes_def)
      ultimately show ?thesis by auto
    qed
  qed
qed

section \<open>The contract of the library\<close>

text \<open>What the users of the lists rely on: \<open>rep h n xs\<close> is a relation between a heap, a head and
  the nodes on its list, and \<open>cap xs\<close> says that the list may grow to another node.\<close>

locale list_library =
  fixes rep :: "'h \<Rightarrow> nat \<Rightarrow> nat list \<Rightarrow> bool"
    and cap :: "nat list \<Rightarrow> bool"
    and init :: "nat \<Rightarrow> 'h \<Rightarrow> (nat \<times> 'h) option"
    and ins_head ins_tail :: "nat \<Rightarrow> nat \<Rightarrow> 'h \<Rightarrow> (nat \<times> 'h) option"
    and remove :: "nat \<Rightarrow> 'h \<Rightarrow> (nat \<times> 'h) option"
    and first :: "nat \<Rightarrow> 'h \<Rightarrow> nat option"
  assumes init: "n \<noteq> 0 \<Longrightarrow> \<exists>h'. init n h = Some (n, h') \<and> rep h' n []"
    and ins_head: "\<lbrakk>rep h n xs; e \<noteq> 0; e \<notin> set (n # xs); cap xs\<rbrakk> \<Longrightarrow>
      \<exists>h'. ins_head n e h = Some (n, h') \<and> rep h' n (e # xs)"
    and ins_tail: "\<lbrakk>rep h n xs; e \<noteq> 0; e \<notin> set (n # xs); cap xs\<rbrakk> \<Longrightarrow>
      \<exists>h'. ins_tail n e h = Some (n, h') \<and> rep h' n (xs @ [e])"
    and remove: "\<lbrakk>rep h n (us @ e # vs); cap (us @ e # vs)\<rbrakk> \<Longrightarrow>
      \<exists>h'. remove e h = Some (hd (vs @ [n]), h') \<and> rep h' n (us @ vs)"
    and first: "\<lbrakk>rep h n xs; cap xs\<rbrakk> \<Longrightarrow> first n h = Some (hd (xs @ [n]))"
    and rep_distinct: "rep h n xs \<Longrightarrow> distinct (n # xs) \<and> 0 \<notin> set (n # xs)"
    and cap_mono: "cap xs \<Longrightarrow> length ys \<le> length xs \<Longrightarrow> cap ys"
begin

text \<open>A queue: entries put at the tail come out at the head, first in, first out.\<close>

fun put_all :: "nat \<Rightarrow> nat list \<Rightarrow> 'h \<Rightarrow> 'h option" where
  "put_all n [] h = Some h"
| "put_all n (e # es) h = do { (_, h) \<leftarrow> ins_tail n e h; put_all n es h }"

fun take_all :: "nat \<Rightarrow> nat \<Rightarrow> 'h \<Rightarrow> (nat list \<times> 'h) option" where
  "take_all n 0 h = Some ([], h)"
| "take_all n (Suc k) h = do {
     e \<leftarrow> first n h;
     (_, h) \<leftarrow> remove e h;
     (es, h) \<leftarrow> take_all n k h;
     Some (e # es, h)
   }"

lemma put_all_rep:
  "\<lbrakk>rep h n xs; distinct es; set es \<inter> set (n # xs) = {}; 0 \<notin> set es; cap (xs @ es)\<rbrakk> \<Longrightarrow>
     \<exists>h'. put_all n es h = Some h' \<and> rep h' n (xs @ es)"
proof (induction es arbitrary: h xs)
  case (Cons e es)
  obtain h1 where h1: "ins_tail n e h = Some (n, h1)" "rep h1 n (xs @ [e])"
    using ins_tail [OF Cons.prems(1), of e] Cons.prems(3,4) cap_mono [OF Cons.prems(5), of xs] by auto
  with Cons.IH [OF h1(2)] Cons.prems show ?case by auto
qed simp

lemma take_all_rep:
  "\<lbrakk>rep h n (xs @ ys); cap (xs @ ys)\<rbrakk> \<Longrightarrow>
     \<exists>h'. take_all n (length xs) h = Some (xs, h') \<and> rep h' n ys"
proof (induction xs arbitrary: h)
  case (Cons x xs)
  have "first n h = Some x" using first [OF Cons.prems] by simp
  moreover obtain h1 where "remove x h = Some (hd ((xs @ ys) @ [n]), h1)" "rep h1 n (xs @ ys)"
    using remove [of h n "[]" x "xs @ ys"] Cons.prems by auto
  ultimately show ?case
    using Cons.IH [of h1] cap_mono [OF Cons.prems(2), of "xs @ ys"] by auto
qed simp

lemma fifo:
  assumes "n \<noteq> 0" "distinct es" "n \<notin> set es" "0 \<notin> set es" "cap es"
  shows "\<exists>h1 h2 h3. init n h = Some (n, h1) \<and> put_all n es h1 = Some h2
     \<and> take_all n (length es) h2 = Some (es, h3) \<and> rep h3 n []"
proof -
  obtain h1 where h1: "init n h = Some (n, h1)" "rep h1 n []" using init [OF assms(1)] by blast
  obtain h2 where h2: "put_all n es h1 = Some h2" "rep h2 n es"
    using put_all_rep [OF h1(2), of es] assms by auto
  from take_all_rep [of h2 n es "[]"] h2(2) assms(5) h1(1) h2(1) show ?thesis by auto
qed

end

lemma GetFirstNode_dlist: "\<lbrakk>dlist h n xs; fits p xs\<rbrakk> \<Longrightarrow> GetFirstNode p n h = Some (hd (xs @ [n]))"
  using assert_in_list_ok(1) [of h n xs n p] dlist_not_null [of h n xs]
  by (auto simp: GetFirstNode_def room_False dlist_def dest: chain_first)

interpretation linked: list_library dlist "fits p" InitializeListHead "InsertHeadList p" "InsertTailList p"
    "RemoveEntryList p" "GetFirstNode p" for p
proof
  fix h n xs e us vs ys
  show "n \<noteq> 0 \<Longrightarrow> \<exists>h'. InitializeListHead n h = Some (n, h') \<and> dlist h' n []"
    by (rule InitializeListHead_dlist)
  show "\<lbrakk>dlist h n xs; e \<noteq> 0; e \<notin> set (n # xs); fits p xs\<rbrakk> \<Longrightarrow>
      \<exists>h'. InsertHeadList p n e h = Some (n, h') \<and> dlist h' n (e # xs)"
    using InsertHeadList_dlist by blast
  show "\<lbrakk>dlist h n xs; e \<noteq> 0; e \<notin> set (n # xs); fits p xs\<rbrakk> \<Longrightarrow>
      \<exists>h'. InsertTailList p n e h = Some (n, h') \<and> dlist h' n (xs @ [e])"
    using InsertTailList_dlist by blast
  show "\<lbrakk>dlist h n (us @ e # vs); fits p (us @ e # vs)\<rbrakk> \<Longrightarrow>
      \<exists>h'. RemoveEntryList p e h = Some (hd (vs @ [n]), h') \<and> dlist h' n (us @ vs)"
    using RemoveEntryList_dlist by blast
  show "\<lbrakk>dlist h n xs; fits p xs\<rbrakk> \<Longrightarrow> GetFirstNode p n h = Some (hd (xs @ [n]))"
    by (rule GetFirstNode_dlist)
  show "dlist h n xs \<Longrightarrow> distinct (n # xs) \<and> 0 \<notin> set (n # xs)" by (simp add: dlist_def)
  show "fits p xs \<Longrightarrow> length ys \<le> length xs \<Longrightarrow> fits p ys" by auto
qed

section \<open>Properties\<close>

text \<open>C20. On a well-formed list, empty or not, inserting at the head or the tail, removing any node, asking for the first node and asking whether the list is empty
  never fail an \<open>ASSERT\<close> while the list with its head is shorter than the configured maximum (or there is none), and answer and do to the links exactly what the
  operation answers for and does to the list of nodes; every list that shares no node with it stays as it was.  What is inserted is a node of neither list.  Removing
  returns the node that followed, or the head.\<close>

theorem list_operations_refine:
  assumes "dlist h n xs" "fits p xs"
    and "dlist h m ys" "set (m # ys) \<inter> set (n # xs) = {}"
    and "x \<noteq> 0" "x \<notin> set (n # xs) \<union> set (m # ys)"
  shows "(\<exists>h1. InsertHeadList p n x h = Some (n, h1) \<and> dlist h1 n (x # xs) \<and> dlist h1 m ys)
    \<and> (\<exists>h2. InsertTailList p n x h = Some (n, h2) \<and> dlist h2 n (xs @ [x]) \<and> dlist h2 m ys)
    \<and> (\<forall>us e vs. xs = us @ e # vs \<longrightarrow> (\<exists>h3. RemoveEntryList p e h = Some (hd (vs @ [n]), h3) \<and> dlist h3 n (us @ vs) \<and> dlist h3 m ys))
    \<and> GetFirstNode p n h = Some (hd (xs @ [n])) \<and> IsListEmpty p n h = Some (xs = [])"
proof (intro conjI allI impI)
  have x: "x \<notin> set (n # xs)" using assms(6) by auto
  have disj: "set (n # x # xs) \<inter> set (m # ys) = {}" using assms(4,6) by auto
  note other = only_changes_dlist [OF _ assms(3)]
  from InsertHeadList_dlist [OF assms(1,5) x assms(2)] other [OF _ disj]
  show "\<exists>h1. InsertHeadList p n x h = Some (n, h1) \<and> dlist h1 n (x # xs) \<and> dlist h1 m ys" by blast
  from InsertTailList_dlist [OF assms(1,5) x assms(2)] other [OF _ disj]
  show "\<exists>h2. InsertTailList p n x h = Some (n, h2) \<and> dlist h2 n (xs @ [x]) \<and> dlist h2 m ys" by blast
  fix us e vs assume e: "xs = us @ e # vs"
  have "set (n # us @ vs) \<inter> set (m # ys) = {}" using assms(4) e by auto
  with RemoveEntryList_dlist [OF assms(1,2) [unfolded e]] other
  show "\<exists>h3. RemoveEntryList p e h = Some (hd (vs @ [n]), h3) \<and> dlist h3 n (us @ vs) \<and> dlist h3 m ys" by blast
next
  show "GetFirstNode p n h = Some (hd (xs @ [n]))" by (rule GetFirstNode_dlist [OF assms(1,2)])
  have "n \<noteq> 0" "ForwardLink h n = hd (xs @ [n])" "n \<notin> set xs" using assms(1) by (auto simp: dlist_def dest: chain_first)
  then show "IsListEmpty p n h = Some (xs = [])"
    using assert_in_list_ok(1) [OF assms(1), of n p] assms(2) by (cases xs) (auto simp: IsListEmpty_def room_False)
qed

definition sample :: list_heap where
  "sample = \<lparr>ForwardLink = (\<lambda>_. 0)(1 := 2, 2 := 3, 3 := 4, 4 := 1, 7 := 7),
             BackLink = (\<lambda>_. 0)(1 := 4, 2 := 1, 3 := 2, 4 := 3, 7 := 7)\<rparr>"

lemma list_operations_refine_witness:
  "\<exists>h. RemoveEntryList \<lparr>PcdVerifyNodeInList = False, PcdMaximumLinkedListLength = 1000\<rparr> 3 sample = Some (4, h)
     \<and> dlist h 1 [2, 4] \<and> dlist h 7 []"
proof -
  let ?p = "\<lparr>PcdVerifyNodeInList = False, PcdMaximumLinkedListLength = 1000\<rparr>"
  have s: "dlist sample 1 [2, 3, 4]" "dlist sample 7 []" by (simp_all add: sample_def dlist_def)
  have x: "fits ?p [2, 3, 4]" "set [7::nat] \<inter> set [1, 2, 3, 4] = {}" "(9::nat) \<noteq> 0" "(9::nat) \<notin> set [1, 2, 3, 4] \<union> set [7]" by simp_all
  have "\<forall>us e vs. [2, 3, 4] = us @ e # vs \<longrightarrow>
      (\<exists>h3. RemoveEntryList ?p e sample = Some (hd (vs @ [1]), h3) \<and> dlist h3 1 (us @ vs) \<and> dlist h3 7 [])"
    using list_operations_refine [OF s(1) x(1) s(2) x(2-4)] by blast
  from this [rule_format, of "[2]" 3 "[4]"] show ?thesis by simp
qed

text \<open>\<open>SwapListEntries\<close> exchanges two nodes of a list, neighbours or not, whichever comes
  first, and returns the second argument.\<close>

theorem SwapListEntries_swaps:
  assumes "dlist h n (us @ a # vs @ b # ws)"
    and "fits p (us @ a # vs @ b # ws)"
  shows "(\<exists>h'. SwapListEntries p a b h = Some (b, h') \<and> dlist h' n (us @ b # vs @ a # ws))
    \<and> (\<exists>h'. SwapListEntries p b a h = Some (a, h') \<and> dlist h' n (us @ b # vs @ a # ws))"
proof
  have ab: "a \<noteq> b" using assms(1) by (auto simp: dlist_def)
  have room: "room p True a b xs" "room p True b a xs" if "length xs = length (us @ a # vs @ b # ws)" for xs
    using that assms(2) ab by (simp_all only: room_def links_followed_def) auto
  have "dlist h a (vs @ b # ws @ n # us)"
    using assms(1) dlist_rotate [of h n us a "vs @ b # ws"] by simp
  from SwapListEntries_rotated [OF this room(1)] assms(2)
  obtain h1 where h1: "SwapListEntries p a b h = Some (b, h1)" "dlist h1 b (vs @ a # ws @ n # us)"
    by auto
  have "dlist h1 n (us @ b # vs @ a # ws)"
    using h1(2) dlist_rotate [of h1 b "vs @ a # ws" n us] by simp
  with h1 show "\<exists>h'. SwapListEntries p a b h = Some (b, h') \<and> dlist h' n (us @ b # vs @ a # ws)" by blast
  have "dlist h b (ws @ n # us @ a # vs)"
    using assms(1) dlist_rotate [of h n "us @ a # vs" b ws] by simp
  then have "dlist h b ((ws @ n # us) @ a # vs)" by simp
  from SwapListEntries_rotated [OF this room(2)] assms(2)
  obtain h2 where h2: "SwapListEntries p b a h = Some (a, h2)" "dlist h2 a ((ws @ n # us) @ b # vs)"
    by auto
  have "dlist h2 n (us @ b # vs @ a # ws)"
    using h2(2) dlist_rotate [of h2 n "us @ b # vs" a ws] by simp
  with h2 show "\<exists>h'. SwapListEntries p b a h = Some (a, h') \<and> dlist h' n (us @ b # vs @ a # ws)" by blast
qed

lemma SwapListEntries_swaps_witness:
  "\<exists>h. SwapListEntries \<lparr>PcdVerifyNodeInList = True, PcdMaximumLinkedListLength = 1000\<rparr> 2 4 sample = Some (4, h)
     \<and> dlist h 1 [4, 3, 2]"
  using SwapListEntries_swaps [of sample 1 "[]" 2 "[3]" 4 "[]"
      "\<lparr>PcdVerifyNodeInList = True, PcdMaximumLinkedListLength = 1000\<rparr>"]
  by (simp add: sample_def dlist_def room_def links_followed_def)

text \<open>With membership verification on, the check counts the nodes twice when it is asked
  about the head itself, as every traversal does that ends with \<open>IsNull (List, Node)\<close>:
  a list of more than half the configured maximum fails the \<open>ASSERT\<close>, although
  the same list passes it for each of its nodes.\<close>

theorem IsNull_counts_head_twice:
  assumes "dlist h n xs" "PcdVerifyNodeInList p" "PcdMaximumLinkedListLength p \<noteq> 0"
    and "length xs + 1 < PcdMaximumLinkedListLength p" "PcdMaximumLinkedListLength p \<le> 2 * (length xs + 1)"
  shows "IsNull p n n h = None \<and> (\<forall>x\<in>set xs. IsNull p n x h = Some False)"
proof
  let ?max = "PcdMaximumLinkedListLength p"
  have c: "chain h n xs n" "n \<notin> set xs" using assms(1) by (auto simp: dlist_def)
  have long: "\<not> count_nodes p h n a k < ?max"
    if "chain h a us n" "n \<notin> set us" "?max \<le> k + length us + 1" "k < ?max" for a us k
    using that
  proof (induction us arbitrary: a k)
    case Nil
    then show ?case by (subst count_nodes.simps) (simp add: Let_def)
  next
    case (Cons u us)
    then show ?case by (subst count_nodes.simps) (auto simp: Let_def)
  qed
  have "find_node p h n n n 0 = Some (n, length xs + 1)"
    using find_node_steps [OF c(1), of n n p 0] c(2) assms(3,4) by auto
  moreover have "\<not> count_nodes p h n n (length xs + 1) < ?max"
    using assms(3-5) by (intro long [OF c]) auto
  ultimately show "IsNull p n n h = None"
    using assms(2,3) by (simp add: IsNull_def assert_in_list_def InternalBaseLibIsNodeInList_def
        ASSERT_def)
  show "\<forall>x\<in>set xs. IsNull p n x h = Some False"
  proof
    fix x assume x: "x \<in> set xs"
    then have "room p True n x xs" using assms(4) c(2) by (auto simp: room_def links_followed_def)
    then have "assert_in_list p h n x True = Some ()"
      using assert_in_list_ok(2) [OF assms(1), of x p] x by simp
    then show "IsNull p n x h = Some False" using x c(2) by (auto simp: IsNull_def)
  qed
qed

lemma IsNull_counts_head_twice_witness:
  "IsNull \<lparr>PcdVerifyNodeInList = True, PcdMaximumLinkedListLength = 8\<rparr> 1 1 sample = None"
  using IsNull_counts_head_twice [of sample 1 "[2, 3, 4]"
      "\<lparr>PcdVerifyNodeInList = True, PcdMaximumLinkedListLength = 8\<rparr>"]
  by (simp add: sample_def dlist_def)

end
