(* ===== verification/Mtc.thy ===== *)
theory Mtc
  imports Cmos
begin

text \<open>
  The monotonic counter driver,
  \<open>InsydeModulePkg/Universal/MonotonicCounterRuntimeDxe/MonotonicCounter.c\<close>: a 64-bit
  counter whose low half is volatile and whose high half is kept either in CMOS
  (\<open>PcdSetMtcToCmos\<close>, through \<open>Cmos\<close>) or in a non-volatile variable.  The variable
  services are the parameter \<open>var\<close>.  \<open>mtc_store\<close> is what the driver needs of the
  place where the high half lives; both configurations are instances.

  \<open>signalled\<close> is the event \<open>mEfiMtcEvent\<close>: signalled, and its handler
  (\<open>TPL_CALLBACK\<close>) not yet run.  The raised TPL makes the body of the two
  services atomic; the test of bit 31 that follows is taken with it.
\<close>

section \<open>Storage of the high half\<close>

text \<open>The variable \<open>MTC\<close>: reading gives a status and the \<open>UINT32\<close> in the buffer.\<close>

record 'v var_services =
  EfiGetVariable :: "'v \<Rightarrow> efi_status \<times> u32"
  EfiSetVariable :: "u32 \<Rightarrow> 'v \<Rightarrow> efi_status \<times> 'v"

record ('d, 'v) platform =
  cpu :: "'d machine"
  vars :: 'v

definition MonotonicCount :: u8 where "MonotonicCount = 0x40"

definition SetEfiMtc ::
  "bool \<Rightarrow> 'd io_ports \<Rightarrow> 'v var_services \<Rightarrow> u32 \<Rightarrow> ('d, 'v) platform \<Rightarrow> efi_status \<times> ('d, 'v) platform" where
  "SetEfiMtc PcdSetMtcToCmos io var HighCount s =
     (if PcdSetMtcToCmos then
        (EFI_SUCCESS, s\<lparr>cpu := WriteCmos32 io MonotonicCount HighCount (cpu s)\<rparr>)
      else case EfiSetVariable var HighCount (vars s) of (Status, v) \<Rightarrow> (Status, s\<lparr>vars := v\<rparr>))"

definition GetEfiMtc ::
  "bool \<Rightarrow> 'd io_ports \<Rightarrow> 'v var_services \<Rightarrow> ('d, 'v) platform \<Rightarrow> (efi_status \<times> u32) \<times> ('d, 'v) platform" where
  "GetEfiMtc PcdSetMtcToCmos io var s =
     (let (Status, HighCount) = EfiGetVariable var (vars s)
      in if PcdSetMtcToCmos then
           (if EFI_ERROR Status then
              let HighCount = 0;
                  (Status, v) = EfiSetVariable var HighCount (vars s);
                  s = s\<lparr>vars := v\<rparr>;
                  s = s\<lparr>cpu := WriteCmos32 io MonotonicCount HighCount (cpu s)\<rparr>
              in ((EFI_NOT_FOUND, HighCount), s)
            else
              let (HighCount, m) = ReadCmos32 io MonotonicCount (cpu s)
              in ((EFI_SUCCESS, HighCount), s\<lparr>cpu := m\<rparr>))
         else ((Status, HighCount), s))"

section \<open>The counter\<close>

record 's mtc =
  mEfiMtc :: u64
  signalled :: bool
  runtime :: bool
  store :: 's

text \<open>The driver over any storage \<open>setm\<close>, \<open>getm\<close>.  \<open>Out\<close> is whether the pointer for the result is given; the
  second component of a result is what is stored through it.\<close>

definition MonotonicCounterDriverGetNextMonotonicCount :: "bool \<Rightarrow> 's mtc \<Rightarrow> (efi_status \<times> u64 option) \<times> 's mtc" where
  "MonotonicCounterDriverGetNextMonotonicCount Out s =
     (if runtime s then ((EFI_UNSUPPORTED, None), s)
      else if \<not> Out then ((EFI_INVALID_PARAMETER, None), s)
      else let Count = mEfiMtc s;
               s = s\<lparr>mEfiMtc := mEfiMtc s + 1\<rparr>;
               s = (if bit (ucast (mEfiMtc s) XOR ucast Count :: u32) 31 then s\<lparr>signalled := True\<rparr> else s)
           in ((EFI_SUCCESS, Some Count), s))"

definition MonotonicCounterDriverGetNextHighMonotonicCount ::
  "(u32 \<Rightarrow> 's \<Rightarrow> efi_status \<times> 's) \<Rightarrow> bool \<Rightarrow> 's mtc \<Rightarrow> (efi_status \<times> u32 option) \<times> 's mtc" where
  "MonotonicCounterDriverGetNextHighMonotonicCount setm Out s =
     (if \<not> Out then ((EFI_INVALID_PARAMETER, None), s)
      else let HighCount = ucast (drop_bit 32 (mEfiMtc s)) + 1;
               s = s\<lparr>mEfiMtc := push_bit 32 (ucast HighCount)\<rparr>;
               (Status, st) = setm HighCount (store s)
           in ((Status, Some HighCount), s\<lparr>store := st\<rparr>))"

definition EfiMtcEventHandler :: "(u32 \<Rightarrow> 's \<Rightarrow> efi_status \<times> 's) \<Rightarrow> 's mtc \<Rightarrow> 's mtc" where
  "EfiMtcEventHandler setm s = snd (MonotonicCounterDriverGetNextHighMonotonicCount setm True s)"

definition MonotonicCounterDriverInitialize ::
  "(u32 \<Rightarrow> 's \<Rightarrow> efi_status \<times> 's) \<Rightarrow> ('s \<Rightarrow> (efi_status \<times> u32) \<times> 's) \<Rightarrow> 's \<Rightarrow> 's mtc" where
  "MonotonicCounterDriverInitialize setm getm st =
     (let ((Status, HighCount), st) = getm st;
          HighCount = (if EFI_ERROR Status then 0 else HighCount);
          s = \<lparr>mEfiMtc = push_bit 32 (ucast HighCount), signalled = False, runtime = False, store = st\<rparr>
      in snd (MonotonicCounterDriverGetNextHighMonotonicCount setm True s))"

section \<open>Life of the counter\<close>

text \<open>What happens to the driver: the two services, the run of the handler once its event is
  signalled, the end of boot services, and a reset, which starts the driver again on
  what the store has kept.\<close>

datatype mtc_event = Next bool | NextHigh bool | Handler | ExitBootServices | Reset

fun mtc_step ::
  "(u32 \<Rightarrow> 's \<Rightarrow> efi_status \<times> 's) \<Rightarrow> ('s \<Rightarrow> (efi_status \<times> u32) \<times> 's) \<Rightarrow> mtc_event \<Rightarrow> 's mtc \<Rightarrow> u64 list \<times> 's mtc" where
  "mtc_step setm getm (Next Out) s = (case MonotonicCounterDriverGetNextMonotonicCount Out s of
     ((_, r), s) \<Rightarrow> (case r of None \<Rightarrow> [] | Some c \<Rightarrow> [c], s))"
| "mtc_step setm getm (NextHigh Out) s = ([], snd (MonotonicCounterDriverGetNextHighMonotonicCount setm Out s))"
| "mtc_step setm getm Handler s =
     (if signalled s then ([], EfiMtcEventHandler setm (s\<lparr>signalled := False\<rparr>)) else ([], s))"
| "mtc_step setm getm ExitBootServices s = ([], s\<lparr>runtime := True\<rparr>)"
| "mtc_step setm getm Reset s = ([], MonotonicCounterDriverInitialize setm getm (store s))"

fun mtc_run ::
  "(u32 \<Rightarrow> 's \<Rightarrow> efi_status \<times> 's) \<Rightarrow> ('s \<Rightarrow> (efi_status \<times> u32) \<times> 's) \<Rightarrow> mtc_event list \<Rightarrow> 's mtc \<Rightarrow> u64 list \<times> 's mtc" where
  "mtc_run setm getm [] s = ([], s)"
| "mtc_run setm getm (e # es) s =
     (let (c, s) = mtc_step setm getm e s; (cs, s) = mtc_run setm getm es s in (c @ cs, s))"

abbreviation high :: "u64 \<Rightarrow> nat" where "high c \<equiv> unat c div 4294967296"
abbreviation low :: "u64 \<Rightarrow> nat" where "low c \<equiv> unat c mod 4294967296"

text \<open>The conditions under which the count cannot be exhausted: the handler runs before the
  low half overflows (the event is signalled half way), and the high half is not at
  its last value when it has to be increased.\<close>

fun in_time :: "mtc_event \<Rightarrow> 's mtc \<Rightarrow> bool" where
  "in_time (Next Out) s = (low (mEfiMtc s) < 4294967295)"
| "in_time ExitBootServices s = True"
| "in_time _ s = (high (mEfiMtc s) < 4294967295)"

fun all_in_time ::
  "(u32 \<Rightarrow> 's \<Rightarrow> efi_status \<times> 's) \<Rightarrow> ('s \<Rightarrow> (efi_status \<times> u32) \<times> 's) \<Rightarrow> mtc_event list \<Rightarrow> 's mtc \<Rightarrow> bool" where
  "all_in_time setm getm [] s = True"
| "all_in_time setm getm (e # es) s =
     (in_time e s \<and> all_in_time setm getm es (snd (mtc_step setm getm e s)))"

section \<open>The contract of the storage\<close>

locale mtc_store =
  fixes setm :: "u32 \<Rightarrow> 's \<Rightarrow> efi_status \<times> 's"
    and getm :: "'s \<Rightarrow> (efi_status \<times> u32) \<times> 's"
    and valid :: "'s \<Rightarrow> bool"
    and kept :: "'s \<Rightarrow> u32"
  assumes set_kept: "valid s \<Longrightarrow> fst (setm h s) = EFI_SUCCESS \<and> valid (snd (setm h s)) \<and> kept (snd (setm h s)) = h"
    and get_kept: "valid s \<Longrightarrow> fst (getm s) = (EFI_SUCCESS, kept s) \<and> valid (snd (getm s)) \<and> kept (snd (getm s)) = kept s"

lemma high_simps:
  "unat (ucast (drop_bit 32 (c :: u64)) :: u32) = high c"
proof -
  have "unat c < 18446744073709551616" using unsigned_less [of c, where 'a = nat] by simp
  then have "unat c div 4294967296 < 4294967296" by (simp add: less_mult_imp_div_less)
  moreover have "unat (drop_bit 32 c) = high c" unfolding unat_drop_bit_eq by (simp add: drop_bit_eq_div)
  ultimately show ?thesis by (simp add: unsigned_ucast_eq take_bit_eq_mod)
qed

lemma unat_u32: "unat (h :: u32) < 4294967296"
  using unsigned_less [of h, where 'a = nat] by simp

lemma unat_shifted_high: "unat (push_bit 32 (ucast (h :: u32)) :: u64) = 4294967296 * unat h"
  using unat_u32 [of h]
  by (simp add: push_bit_eq_mult unat_word_ariths unsigned_ucast_eq take_bit_eq_mod)

lemma high_low: "unat c = 4294967296 * high c + low c" "low c < 4294967296" "high c < 4294967296"
proof -
  have "unat c < 18446744073709551616" using unsigned_less [of c, where 'a = nat] by simp
  then show "high c < 4294967296" by (simp add: less_mult_imp_div_less)
qed simp_all

lemma below_next: "(n :: nat) = 4294967296 * q + r \<Longrightarrow> r < 4294967296 \<Longrightarrow> n < 4294967296 * (q + 1)"
  by simp

lemma unat_inc: "low c < 4294967295 \<Longrightarrow> unat (c + 1) = unat c + 1"
proof -
  assume "low c < 4294967295"
  then have "unat c + 1 < 18446744073709551616" using high_low [of c] by linarith
  then show ?thesis by (simp add: unat_word_ariths)
qed

lemma high_inc: "low c < 4294967295 \<Longrightarrow> high (c + 1) = high c"
proof -
  assume l: "low c < 4294967295"
  have "unat (c + 1) = high c * 4294967296 + (low c + 1)" using unat_inc [OF l] high_low(1) [of c] by linarith
  moreover have "(high c * 4294967296 + (low c + 1)) div 4294967296 = high c"
    using below_next [OF refl, of "low c + 1" "high c"] l by (intro div_nat_eqI) (simp_all add: mult.commute)
  ultimately show ?thesis by (simp only:)
qed

lemma high_mono: "high a < high b \<Longrightarrow> unat a < unat b"
  by (metis div_le_mono not_le)

lemma unat_next_high:
  assumes "high c < 4294967295"
  shows "unat (ucast (drop_bit 32 c) + 1 :: u32) = high c + 1"
  unfolding unat_word_ariths(1) high_simps using assms by simp

context mtc_store begin

definition good :: "'s mtc \<Rightarrow> bool" where
  "good s \<longleftrightarrow> valid (store s) \<and> high (mEfiMtc s) = unat (kept (store s))"

lemma next_high:
  assumes "valid (store s)" "high (mEfiMtc s) < 4294967295"
  shows "good (snd (MonotonicCounterDriverGetNextHighMonotonicCount setm True s))
    \<and> mEfiMtc s < mEfiMtc (snd (MonotonicCounterDriverGetNextHighMonotonicCount setm True s))
    \<and> high (mEfiMtc (snd (MonotonicCounterDriverGetNextHighMonotonicCount setm True s))) = high (mEfiMtc s) + 1"
proof -
  let ?h = "ucast (drop_bit 32 (mEfiMtc s)) + 1 :: u32"
  have h: "unat ?h = high (mEfiMtc s) + 1" by (rule unat_next_high [OF assms(2)])
  have "unat (mEfiMtc s) < 4294967296 * (high (mEfiMtc s) + 1)" by (rule below_next [OF high_low(1,2)])
  then have "mEfiMtc s < push_bit 32 (ucast ?h)"
    unfolding word_less_nat_alt unat_shifted_high h .
  moreover have "high (push_bit 32 (ucast ?h)) = unat ?h" unfolding unat_shifted_high by simp
  ultimately show ?thesis
    using set_kept [OF assms(1), of ?h] h
    by (simp add: MonotonicCounterDriverGetNextHighMonotonicCount_def Let_def split_beta good_def)
qed

lemma init_counter:
  assumes "valid st" "unat (kept st) < 4294967295"
  shows "good (MonotonicCounterDriverInitialize setm getm st)
    \<and> high (mEfiMtc (MonotonicCounterDriverInitialize setm getm st)) = unat (kept st) + 1"
proof -
  let ?s = "\<lparr>mEfiMtc = push_bit 32 (ucast (kept st)), signalled = False, runtime = False, store = snd (getm st)\<rparr>"
  have "MonotonicCounterDriverInitialize setm getm st =
      snd (MonotonicCounterDriverGetNextHighMonotonicCount setm True ?s)"
    using get_kept [OF assms(1)]
    by (cases "getm st") (auto simp: MonotonicCounterDriverInitialize_def Let_def)
  moreover have "high (mEfiMtc ?s) = unat (kept st)" by (simp add: unat_shifted_high)
  ultimately show ?thesis
    using next_high [of ?s] get_kept [OF assms(1)] assms(2) by auto
qed

lemma step_good:
  assumes "good s" "in_time e s" "mtc_step setm getm e s = (cs, s')"
  shows "good s' \<and> mEfiMtc s \<le> mEfiMtc s' \<and> (cs = [] \<or> cs = [mEfiMtc s] \<and> mEfiMtc s < mEfiMtc s')"
proof (cases e)
  case (Next Out)
  show ?thesis
  proof (cases "runtime s \<or> \<not> Out")
    case True
    then have "cs = [] \<and> s' = s" using assms(3) Next by (cases "runtime s") (simp_all add: MonotonicCounterDriverGetNextMonotonicCount_def)
    then show ?thesis using assms(1) by simp
  next
    case False
    have "low (mEfiMtc s) < 4294967295" using assms(2) Next by simp
    note inc = unat_inc [OF this] high_inc [OF this]
    have lt: "mEfiMtc s < mEfiMtc s + 1" unfolding word_less_nat_alt inc(1) by simp
    have "cs = [mEfiMtc s]" "mEfiMtc s' = mEfiMtc s + 1" "store s' = store s"
      using assms(3) Next False
      by (auto simp: MonotonicCounterDriverGetNextMonotonicCount_def Let_def split: if_splits)
    then show ?thesis using assms(1) inc(2) lt by (simp add: good_def)
  qed
next
  case (NextHigh Out)
  then show ?thesis using assms next_high [of s]
    by (cases Out) (auto simp: good_def, auto simp: MonotonicCounterDriverGetNextHighMonotonicCount_def)
next
  case Handler
  then show ?thesis
    using assms next_high [of "s\<lparr>signalled := False\<rparr>"]
    by (cases "signalled s") (auto simp: good_def EfiMtcEventHandler_def)
next
  case ExitBootServices
  then show ?thesis using assms by (auto simp: good_def)
next
  case Reset
  then have "valid (store s)" "unat (kept (store s)) < 4294967295" using assms by (auto simp: good_def)
  from init_counter [OF this] have i: "good s'" "high (mEfiMtc s') = unat (kept (store s)) + 1" "cs = []"
    using assms(3) Reset by auto
  then have "high (mEfiMtc s) < high (mEfiMtc s')" using assms(1) by (simp add: good_def)
  then have "unat (mEfiMtc s) < unat (mEfiMtc s')" by (rule high_mono)
  then show ?thesis using i by (simp add: word_le_nat_alt)
qed

lemma run_increasing:
  "\<lbrakk>good s; all_in_time setm getm es s; mtc_run setm getm es s = (cs, s')\<rbrakk> \<Longrightarrow>
     good s' \<and> sorted_wrt (<) cs \<and> (\<forall>c\<in>set cs. mEfiMtc s \<le> c \<and> c < mEfiMtc s') \<and> mEfiMtc s \<le> mEfiMtc s'"
proof (induction es arbitrary: s cs s')
  case Nil
  then show ?case by auto
next
  case (Cons e es)
  obtain c1 s1 where s1: "mtc_step setm getm e s = (c1, s1)" by (cases "mtc_step setm getm e s")
  obtain c2 s2 where s2: "mtc_run setm getm es s1 = (c2, s2)" by (cases "mtc_run setm getm es s1")
  from Cons.prems s1 s2 have eq: "cs = c1 @ c2" "s' = s2" and t: "in_time e s" "all_in_time setm getm es s1" by auto
  note a = step_good [OF Cons.prems(1) t(1) s1]
  with Cons.IH [OF _ t(2) s2] have b: "good s2" "sorted_wrt (<) c2"
    "\<forall>c\<in>set c2. mEfiMtc s1 \<le> c \<and> c < mEfiMtc s2" "mEfiMtc s1 \<le> mEfiMtc s2" by auto
  have "mEfiMtc s \<le> mEfiMtc s2" using a b(4) by (meson order_trans)
  moreover have "\<forall>c\<in>set c2. mEfiMtc s \<le> c" using a b(3) by (meson order_trans)
  moreover have "mEfiMtc s < mEfiMtc s2" "\<forall>c\<in>set c2. mEfiMtc s < c" if "c1 \<noteq> []"
    using that a b(3,4) by (auto intro: less_le_trans)
  ultimately show ?case using a b eq by auto
qed

end

section \<open>The two configurations are instances\<close>

context std_bank begin

definition mtc_cells :: bool where
  "mtc_cells \<longleftrightarrow> ram (sel MonotonicCount) \<and> ram (sel (MonotonicCount + 1)) \<and> ram (sel (MonotonicCount + 2))
     \<and> ram (sel (MonotonicCount + 3))"

lemma read_again:
  assumes mtc_cells
  shows "fst (ReadCmos32 io MonotonicCount (WriteCmos32 io MonotonicCount h m)) = h"
    and "fst (ReadCmos32 io MonotonicCount (snd (ReadCmos32 io MonotonicCount m)))
      = fst (ReadCmos32 io MonotonicCount m)"
proof -
  show "fst (ReadCmos32 io MonotonicCount (WriteCmos32 io MonotonicCount h m)) = h"
    using assms unfolding mtc_cells_def by (intro WriteCmos32_ReadCmos32(1)) simp_all
  show "fst (ReadCmos32 io MonotonicCount (snd (ReadCmos32 io MonotonicCount m)))
      = fst (ReadCmos32 io MonotonicCount m)"
    using assms unfolding mtc_cells_def by (simp add: ReadCmos32_by std.read32_value std.read32_frame)
qed

end

lemma cmos_mtc_store:
  assumes "std_bank io idx cell ram" "std_bank.mtc_cells ram"
  shows "mtc_store (SetEfiMtc True io var) (GetEfiMtc True io var)
     (\<lambda>s. fst (EfiGetVariable var (vars s)) = EFI_SUCCESS)
     (\<lambda>s. fst (ReadCmos32 io MonotonicCount (cpu s)))"
  by unfold_locales
    (auto simp: SetEfiMtc_def GetEfiMtc_def Let_def split_beta std_bank.read_again [OF assms])

text \<open>CMOS: the two-bank device, with any variable services (only whether \<open>MTC\<close> exists
  matters).\<close>

interpretation mtc_cmos: mtc_store "SetEfiMtc True rtc_io var" "GetEfiMtc True rtc_io var"
    "\<lambda>s. fst (EfiGetVariable var (vars s)) = EFI_SUCCESS"
    "\<lambda>s. fst (ReadCmos32 rtc_io MonotonicCount (cpu s))" for var
  by (rule cmos_mtc_store [OF rtc_std.std_bank_axioms]) (simp add: std_bank.mtc_cells_def [OF rtc_std.std_bank_axioms])

text \<open>A non-volatile variable that may be missing.\<close>

definition nv_variable :: "u32 option var_services" where
  "nv_variable = \<lparr>
     EfiGetVariable = (\<lambda>v. case v of None \<Rightarrow> (EFI_NOT_FOUND, 0) | Some h \<Rightarrow> (EFI_SUCCESS, h)),
     EfiSetVariable = (\<lambda>h v. (EFI_SUCCESS, Some h))\<rparr>"

interpretation mtc_variable: mtc_store "SetEfiMtc False io nv_variable" "GetEfiMtc False io nv_variable"
    "\<lambda>s. vars s \<noteq> None" "\<lambda>s. the (vars s)" for io :: "'d io_ports"
  by unfold_locales (auto simp: SetEfiMtc_def GetEfiMtc_def nv_variable_def)

section \<open>Properties\<close>

text \<open>C21. Over any sequence of calls, handler runs and resets in which the handler runs before the low half overflows and the high half is not exhausted, every
  count that \<open>GetNextMonotonicCount\<close> returns is larger than all the counts before it, resets included.  This is as long as the storage of the high half works
  (CMOS, or the variable, which exists at the first start): each write succeeds and a read gives what was written last.  When a write fails the driver
  goes on all the same, and counts may come again after a reset.\<close>

theorem monotonic_count_increases:
  assumes "mtc_store setm getm valid kept" "valid st" "unat (kept st) < 4294967295"
    and "s = MonotonicCounterDriverInitialize setm getm st"
    and "all_in_time setm getm es s"
  shows "sorted_wrt (<) (fst (mtc_run setm getm es s))"
proof -
  have "mtc_store.good valid kept s" using mtc_store.init_counter [OF assms(1-3)] assms(4) by simp
  then show ?thesis
    using mtc_store.run_increasing [OF assms(1) _ assms(5)] by (metis prod.collapse)
qed

abbreviation first_boot :: "(unit, u32 option) platform mtc" where
  "first_boot \<equiv> MonotonicCounterDriverInitialize (SetEfiMtc False undefined nv_variable)
     (GetEfiMtc False undefined nv_variable) \<lparr>cpu = \<lparr>eflags = 2, dev = ()\<rparr>, vars = Some 5\<rparr>"

lemma first_boot: "first_boot = \<lparr>mEfiMtc = 0x600000000, signalled = False, runtime = False,
    store = \<lparr>cpu = \<lparr>eflags = 2, dev = ()\<rparr>, vars = Some 6\<rparr>\<rparr>"
  by (simp add: MonotonicCounterDriverInitialize_def MonotonicCounterDriverGetNextHighMonotonicCount_def
      SetEfiMtc_def GetEfiMtc_def nv_variable_def push_bit_eq_mult)

lemma monotonic_count_increases_witness:
  "sorted_wrt (<) (fst (mtc_run (SetEfiMtc False undefined nv_variable) (GetEfiMtc False undefined nv_variable)
     [Next True, Next False, NextHigh True, Next True, Reset, Next True] first_boot))"
  by (rule monotonic_count_increases
        [OF mtc_variable.mtc_store_axioms, of "\<lparr>cpu = \<lparr>eflags = 2, dev = ()\<rparr>, vars = Some 5\<rparr>"])
    (simp_all add: first_boot MonotonicCounterDriverInitialize_def
      MonotonicCounterDriverGetNextHighMonotonicCount_def MonotonicCounterDriverGetNextMonotonicCount_def
      SetEfiMtc_def GetEfiMtc_def nv_variable_def push_bit_eq_mult)

text \<open>The high half survives a reset in CMOS: after any call that increases it, the driver
  started again on the same CMOS continues with the next high half.\<close>

theorem high_count_survives_reset:
  assumes "std_bank io idx cell ram"
    and "ram (sel 0x40)" "ram (sel 0x41)" "ram (sel 0x42)" "ram (sel 0x43)"
    and "fst (EfiGetVariable var (vars (store s))) = EFI_SUCCESS"
    and "high (mEfiMtc s) < 4294967294"
    and "MonotonicCounterDriverGetNextHighMonotonicCount (SetEfiMtc True io var) True s = ((Status, Some h), s')"
  shows "Status = EFI_SUCCESS \<and> unat h = high (mEfiMtc s) + 1
    \<and> high (mEfiMtc (MonotonicCounterDriverInitialize (SetEfiMtc True io var) (GetEfiMtc True io var) (store s')))
      = high (mEfiMtc s) + 2"
proof -
  have "std_bank.mtc_cells ram"
    using assms(2-5) by (simp add: std_bank.mtc_cells_def [OF assms(1)] MonotonicCount_def)
  note st = cmos_mtc_store [OF assms(1) this, of var]
  have h: "unat h = high (mEfiMtc s) + 1" "Status = EFI_SUCCESS"
    using assms(8) unat_next_high [of "mEfiMtc s"] assms(7)
    by (auto simp: MonotonicCounterDriverGetNextHighMonotonicCount_def SetEfiMtc_def Let_def)
  have "store s' = (store s)\<lparr>cpu := WriteCmos32 io MonotonicCount h (cpu (store s))\<rparr>"
    using assms(8) by (auto simp: MonotonicCounterDriverGetNextHighMonotonicCount_def SetEfiMtc_def Let_def)
  then have "fst (EfiGetVariable var (vars (store s'))) = EFI_SUCCESS"
    "fst (ReadCmos32 io MonotonicCount (cpu (store s'))) = h"
    using assms(6) std_bank.read_again(1) [OF assms(1) \<open>std_bank.mtc_cells ram\<close>] by simp_all
  with mtc_store.init_counter [OF st, of "store s'"] h assms(7) show ?thesis by simp
qed

lemma high_count_survives_reset_witness:
  "\<exists>s h s'. high (mEfiMtc s) = 3 \<and> MonotonicCounterDriverGetNextHighMonotonicCount (SetEfiMtc True rtc_io nv_variable) True s = ((EFI_SUCCESS, Some h), s') \<and>
     high (mEfiMtc (MonotonicCounterDriverInitialize (SetEfiMtc True rtc_io nv_variable) (GetEfiMtc True rtc_io nv_variable) (store s'))) = 5"
proof -
  let ?s = "\<lparr>mEfiMtc = 0x300000007, signalled = False, runtime = False,
         store = \<lparr>cpu = \<lparr>eflags = 2, dev = \<lparr>rtc_index = 0, rtc_cells = (\<lambda>_. 0), ext_index = 0, ext_cells = (\<lambda>_. 0)\<rparr>\<rparr>, vars = Some 0\<rparr>\<rparr>"
  obtain Status h s' where r: "MonotonicCounterDriverGetNextHighMonotonicCount (SetEfiMtc True rtc_io nv_variable) True ?s = ((Status, Some h), s')"
    by (simp add: MonotonicCounterDriverGetNextHighMonotonicCount_def SetEfiMtc_def Let_def)
  from high_count_survives_reset [OF rtc_std.std_bank_axioms _ _ _ _ _ _ r] r show ?thesis
    by (intro exI [of _ ?s] exI [of _ h] exI [of _ s']) (auto simp: nv_variable_def)
qed

end
