(* ===== verification/VarLock.thy ===== *)
theory VarLock
  imports LinkedList
begin

text \<open>
  The variable-lock protocol of the variable driver,
  \<open>InsydeModulePkg/Universal/Variable/VariableRuntimeDxe/VariableLock.c\<close>: the list of
  variables that become read-only at the end of DXE, its copy in SMM, the test
  the variable services make before a write, and the conversion of the list to virtual
  addresses.  The list is abstract here (\<open>LinkedList\<close> gives the pointers their
  meaning), except in the conversion, which is about the pointers.
\<close>

section \<open>State\<close>

type_synonym char16 = u16

text \<open>\<open>VARIABLE_ENTRY\<close>; a \<open>CHAR16\<close> string is the list of its characters before the
  terminator.  \<open>None\<close> is a \<open>NULL\<close> argument.\<close>

record variable_entry =
  Guid :: guid
  Name :: "char16 list"

text \<open>The module globals of the variable driver that matter here.  \<open>mSmst\<close> is whether the code
  runs in SMM; then the protected-mode copy of \<open>EndOfDxe\<close> is read.\<close>

record var_lock =
  mLockedVariableList :: "variable_entry list"
  mEnableLocking :: bool
  EndOfDxe :: bool
  mSmst :: bool
  ProtectedModeEndOfDxe :: bool

section \<open>The code\<close>

fun in_list :: "variable_entry list \<Rightarrow> char16 list \<Rightarrow> guid \<Rightarrow> bool" where
  "in_list [] VariableName VendorGuid = False"
| "in_list (Entry # Link) VariableName VendorGuid =
     (if Guid Entry = VendorGuid \<and> Name Entry = VariableName then True
      else in_list Link VariableName VendorGuid)"

definition IsVariableInLockList :: "var_lock \<Rightarrow> char16 list \<Rightarrow> guid \<Rightarrow> bool" where
  "IsVariableInLockList s VariableName VendorGuid = in_list (mLockedVariableList s) VariableName VendorGuid"

text \<open>\<open>memory\<close>: whether \<open>VariableAllocateZeroBuffer\<close> finds the requested number of bytes;
  \<open>sizeof (VARIABLE_ENTRY)\<close> is 40 on X64.\<close>

definition StrSize :: "char16 list \<Rightarrow> nat" where
  "StrSize s = 2 * (length s + 1)"

definition VariableLockRequestToLock ::
  "(nat \<Rightarrow> bool) \<Rightarrow> char16 list option \<Rightarrow> guid option \<Rightarrow> var_lock \<Rightarrow> efi_status \<times> var_lock" where
  "VariableLockRequestToLock memory VariableName VendorGuid s =
     (case (VariableName, VendorGuid) of
        (Some n, Some g) \<Rightarrow>
          if n = [] then (EFI_INVALID_PARAMETER, s)
          else if EndOfDxe s then (EFI_ACCESS_DENIED, s)
          else if IsVariableInLockList s n g then (EFI_SUCCESS, s)
          else if \<not> memory (40 + StrSize n) then (EFI_OUT_OF_RESOURCES, s)
          else (EFI_SUCCESS, s\<lparr>mLockedVariableList := mLockedVariableList s @ [\<lparr>Guid = g, Name = n\<rparr>]\<rparr>)
      | _ \<Rightarrow> (EFI_INVALID_PARAMETER, s))"

definition IsVariableLocked :: "var_lock \<Rightarrow> char16 list \<Rightarrow> guid \<Rightarrow> bool" where
  "IsVariableLocked s VariableName VendorGuid =
     (if \<not> mSmst s then
        (if EndOfDxe s \<and> mEnableLocking s \<and> IsVariableInLockList s VariableName VendorGuid then True else False)
      else
        (if ProtectedModeEndOfDxe s \<and> mEnableLocking s \<and> IsVariableInLockList s VariableName VendorGuid
         then True else False))"

text \<open>The \<open>ASSERT\<close> on the buffer comes before the test that would return
  \<open>EFI_OUT_OF_RESOURCES\<close>.\<close>

fun copy_entries :: "(nat \<Rightarrow> bool) \<Rightarrow> variable_entry list \<Rightarrow> var_lock \<Rightarrow> var_lock option" where
  "copy_entries memory [] s = Some s"
| "copy_entries memory (Entry # Link) s = do {
     ASSERT (memory (40 + StrSize (Name Entry)));
     copy_entries memory Link (s\<lparr>mLockedVariableList := mLockedVariableList s @ [Entry]\<rparr>)
   }"

definition CreateVariableLockListInSmm ::
  "(nat \<Rightarrow> bool) \<Rightarrow> variable_entry list \<Rightarrow> var_lock \<Rightarrow> (efi_status \<times> var_lock) option" where
  "CreateVariableLockListInSmm memory ListHead s =
     (if \<not> mSmst s then Some (EFI_UNSUPPORTED, s)
      else do { s \<leftarrow> copy_entries memory ListHead s; Some (EFI_SUCCESS, s) })"

text \<open>\<open>SmmCreateVariableLockList\<close>: the SMI handler checks the size in \<open>RBX\<close> and the signature
  in the buffer at \<open>RSI\<close>, and then uses the list head that follows the 48 bytes of the
  \<open>SMM_VAR_BUFFER\<close>.\<close>

definition SMM_VARIABLE_LOCK_SIGNATURE :: u32 where
  "SMM_VARIABLE_LOCK_SIGNATURE = 0x4C4C5673"

definition SmmCreateVariableLockList ::
  "(nat \<Rightarrow> bool) \<Rightarrow> u32 \<Rightarrow> u32 \<Rightarrow> variable_entry list \<Rightarrow> var_lock \<Rightarrow> (efi_status \<times> var_lock) option" where
  "SmmCreateVariableLockList memory BufferSize Signature ListHead s =
     (if BufferSize \<noteq> 48 + 8 \<or> Signature \<noteq> SMM_VARIABLE_LOCK_SIGNATURE then Some (EFI_UNSUPPORTED, s)
      else CreateVariableLockListInSmm memory ListHead s)"

text \<open>\<open>ConvertList\<close>: the \<open>do ... while\<close> over the physical links, with
  \<open>gRT->ConvertPointer\<close> as the parameter \<open>conv\<close>.\<close>

partial_function (option) convert_links ::
  "(nat \<Rightarrow> nat) \<Rightarrow> nat \<Rightarrow> nat \<Rightarrow> list_heap \<Rightarrow> list_heap option" where
  "convert_links conv ListHead Link h = do {
     let NextLink = ForwardLink h Link;
     let h = set_fwd Link (conv (ForwardLink h Link)) h;
     let h = set_bck Link (conv (BackLink h Link)) h;
     if NextLink \<noteq> ListHead then convert_links conv ListHead NextLink h else Some h
   }"

definition ConvertList :: "(nat \<Rightarrow> nat) \<Rightarrow> nat \<Rightarrow> list_heap \<Rightarrow> list_heap option" where
  "ConvertList conv ListHead h = (if ListHead = 0 then Some h else convert_links conv ListHead ListHead h)"

section \<open>Lemmas\<close>

lemma in_list_set: "in_list xs n g \<longleftrightarrow> \<lparr>Guid = g, Name = n\<rparr> \<in> set xs"
  by (induction xs) auto

text \<open>The life of the list in the DXE phase: requests, and the end of DXE.\<close>

datatype lock_event = Request "char16 list option" "guid option" bool | SignalEndOfDxe

fun lock_step :: "lock_event \<Rightarrow> var_lock \<Rightarrow> efi_status \<times> var_lock" where
  "lock_step (Request n g mem) s = VariableLockRequestToLock (\<lambda>_. mem) n g s"
| "lock_step SignalEndOfDxe s = (EFI_SUCCESS, s\<lparr>EndOfDxe := True\<rparr>)"

fun lock_run :: "lock_event list \<Rightarrow> var_lock \<Rightarrow> (lock_event \<times> efi_status) list \<times> var_lock" where
  "lock_run [] s = ([], s)"
| "lock_run (e # es) s =
     (let (st, s) = lock_step e s; (log, s) = lock_run es s in ((e, st) # log, s))"

abbreviation granted :: "char16 list \<Rightarrow> guid \<Rightarrow> (lock_event \<times> efi_status) list \<Rightarrow> bool" where
  "granted n g log \<equiv> \<exists>mem. (Request (Some n) (Some g) mem, EFI_SUCCESS) \<in> set log"

lemma lock_step_list:
  assumes "lock_step e s = (st, s')"
  shows "IsVariableInLockList s' n g \<longleftrightarrow>
      IsVariableInLockList s n g \<or> (\<exists>mem. e = Request (Some n) (Some g) mem \<and> st = EFI_SUCCESS)"
    and "mEnableLocking s' = mEnableLocking s" "mSmst s' = mSmst s" "EndOfDxe s \<Longrightarrow> EndOfDxe s'"
    and "distinct (mLockedVariableList s) \<Longrightarrow> distinct (mLockedVariableList s')"
  using assms
  by (cases e; auto simp: VariableLockRequestToLock_def IsVariableInLockList_def in_list_set
      split: option.splits if_splits)+

lemma lock_run_list:
  assumes "lock_run es s = (log, s')"
  shows "(IsVariableInLockList s' n g \<longleftrightarrow> IsVariableInLockList s n g \<or> granted n g log) \<and>
    mEnableLocking s' = mEnableLocking s \<and> mSmst s' = mSmst s \<and> (EndOfDxe s \<longrightarrow> EndOfDxe s') \<and>
    (distinct (mLockedVariableList s) \<longrightarrow> distinct (mLockedVariableList s'))"
  using assms
proof (induction es arbitrary: s log)
  case (Cons e es)
  obtain st s1 where s1: "lock_step e s = (st, s1)" by (cases "lock_step e s")
  obtain log2 s2 where s2: "lock_run es s1 = (log2, s2)" by (cases "lock_run es s1")
  have eqs: "log = (e, st) # log2" "s2 = s'" using Cons.prems by (simp_all add: s1 s2)
  show ?case
    using Cons.IH [OF s2 [unfolded eqs]] lock_step_list [OF s1] by (auto simp: eqs)
qed auto

lemma copy_entries_list:
  assumes "\<forall>k. memory k"
  shows "copy_entries memory es s = Some (s\<lparr>mLockedVariableList := mLockedVariableList s @ es\<rparr>)"
  using assms by (induction es arbitrary: s) auto

lemma copy_entries_append:
  assumes "copy_entries memory es s = Some s'"
  shows "s' = s\<lparr>mLockedVariableList := mLockedVariableList s @ es\<rparr>"
  using assms
proof (induction es arbitrary: s)
  case (Cons e es)
  then have "copy_entries memory es (s\<lparr>mLockedVariableList := mLockedVariableList s @ [e]\<rparr>) = Some s'"
    by (auto simp: ASSERT_def split: if_splits)
  from Cons.IH [OF this] show ?case by simp
qed simp

text \<open>The loop only reads the forward links it has not converted yet.\<close>

fun forward_path :: "list_heap \<Rightarrow> nat \<Rightarrow> nat list \<Rightarrow> nat \<Rightarrow> bool" where
  "forward_path h a [] z \<longleftrightarrow> ForwardLink h a = z"
| "forward_path h a (x # xs) z \<longleftrightarrow> ForwardLink h a = x \<and> forward_path h x xs z"

lemma chain_forward: "chain h a xs z \<Longrightarrow> forward_path h a xs z"
  by (induction xs arbitrary: a) auto

lemma forward_path_cong:
  "(\<And>x. x \<in> set (a # xs) \<Longrightarrow> ForwardLink h x = ForwardLink h' x) \<Longrightarrow> forward_path h a xs z = forward_path h' a xs z"
  by (induction xs arbitrary: a) auto

definition converted :: "(nat \<Rightarrow> nat) \<Rightarrow> nat set \<Rightarrow> list_heap \<Rightarrow> list_heap" where
  "converted conv S h =
     \<lparr>ForwardLink = (\<lambda>x. if x \<in> S then conv (ForwardLink h x) else ForwardLink h x),
      BackLink = (\<lambda>x. if x \<in> S then conv (BackLink h x) else BackLink h x)\<rparr>"

lemma converted_insert:
  "a \<notin> S \<Longrightarrow> converted conv S (set_bck a (conv (BackLink h a)) (set_fwd a (conv (ForwardLink h a)) h)) =
    converted conv (insert a S) h"
  by (auto simp: converted_def set_fwd_def set_bck_def fun_eq_iff)

lemma converted_empty: "converted conv {} h = h"
  by (simp add: converted_def)

lemma convert_links_walk:
  assumes "forward_path h Link ys ListHead" "distinct (Link # ys)" "ListHead \<notin> set ys"
  shows "convert_links conv ListHead Link h = Some (converted conv (set (Link # ys)) h)"
  using assms
proof (induction ys arbitrary: Link h)
  case Nil
  then show ?case using converted_insert [of Link "{}" conv h]
    by (subst convert_links.simps) (simp add: Let_def converted_empty)
next
  case (Cons y ys)
  let ?h = "set_bck Link (conv (BackLink h Link)) (set_fwd Link (conv (ForwardLink h Link)) h)"
  have "forward_path ?h y ys ListHead = forward_path h y ys ListHead"
    using Cons.prems by (intro forward_path_cong) (auto simp: set_fwd_def set_bck_def)
  then have "convert_links conv ListHead y ?h = Some (converted conv (set (y # ys)) ?h)"
    using Cons by simp
  also have "converted conv (set (y # ys)) ?h = converted conv (set (Link # y # ys)) h"
    using converted_insert [of Link "set (y # ys)"] Cons.prems(2) by simp
  finally show ?case
    using Cons.prems by (subst convert_links.simps) (simp add: Let_def)
qed

lemma ConvertList_dlist:
  assumes "dlist h n xs"
  shows "ConvertList conv n h = Some (converted conv (set (n # xs)) h)"
  using convert_links_walk [OF chain_forward, of h n xs n conv] assms by (auto simp: ConvertList_def dlist_def)

text \<open>The heap as it is seen after the switch: the cell of the physical address \<open>x\<close> is at
  \<open>conv x\<close>.\<close>

definition seen_at :: "(nat \<Rightarrow> nat) \<Rightarrow> nat set \<Rightarrow> list_heap \<Rightarrow> list_heap \<Rightarrow> bool" where
  "seen_at conv S h v \<longleftrightarrow>
     (\<forall>x\<in>S. ForwardLink v (conv x) = ForwardLink h x \<and> BackLink v (conv x) = BackLink h x)"

lemma chain_seen:
  assumes "seen_at conv (set (a # z # xs)) (converted conv (set (a # z # xs)) h) v" "chain h a xs z"
  shows "chain v (conv a) (map conv xs) (conv z)"
  using assms
proof (induction xs arbitrary: a)
  case (Cons x xs)
  have "seen_at conv (set (x # z # xs)) (converted conv (set (x # z # xs)) h) v"
    using Cons.prems(1) by (auto simp: seen_at_def converted_def)
  then show ?case using Cons by (auto simp: seen_at_def converted_def)
qed (auto simp: seen_at_def converted_def)

lemma lock_run_append:
  "lock_run (es @ es') s =
     (fst (lock_run es s) @ fst (lock_run es' (snd (lock_run es s))), snd (lock_run es' (snd (lock_run es s))))"
  by (induction es arbitrary: s) (simp_all add: split_beta)

lemma lock_run_length: "length (fst (lock_run es s)) = length es"
  by (induction es arbitrary: s) (simp_all add: split_beta)

lemma lock_run_after_EndOfDxe:
  assumes "EndOfDxe s" "mLockedVariableList s = xs"
  shows "mLockedVariableList (snd (lock_run es s)) = xs \<and>
    (\<forall>n g m st. (Request n g m, st) \<in> set (fst (lock_run es s)) \<longrightarrow> st \<noteq> EFI_SUCCESS)"
  using assms
proof (induction es arbitrary: s)
  case (Cons e es)
  obtain st s1 where s1: "lock_step e s = (st, s1)" by (cases "lock_step e s")
  have "EndOfDxe s1 \<and> mLockedVariableList s1 = xs \<and> (\<forall>n g m. e = Request n g m \<longrightarrow> st \<noteq> EFI_SUCCESS)"
    using s1 Cons.prems by (cases e) (auto simp: VariableLockRequestToLock_def split: option.splits if_splits)
  then show ?case using Cons.IH [of s1] by (auto simp: s1 split_beta)
qed simp

section \<open>Properties\<close>

text \<open>C22: From an empty list, the variables the driver locks are exactly those whose request was
  granted before the end of DXE: the list is frozen at that point, no later request succeeds, and
  no variable is on it twice, whatever the order of the requests and whichever of
  them ran out of memory.\<close>

theorem lock_list_frozen_at_EndOfDxe:
  assumes "lock_run before s = (log1, s1)" "lock_run (before @ SignalEndOfDxe # after) s = (log, s')"
    and "mLockedVariableList s = []" "\<not> mSmst s"
  shows "(IsVariableLocked s' n g \<longleftrightarrow> mEnableLocking s \<and> granted n g log1) \<and>
    distinct (mLockedVariableList s') \<and>
    (\<forall>n g m st. (Request n g m, st) \<in> set (drop (length before) log) \<longrightarrow> st \<noteq> EFI_SUCCESS)"
proof -
  let ?s = "s1\<lparr>EndOfDxe := True\<rparr>"
  have r: "log = log1 @ (SignalEndOfDxe, EFI_SUCCESS) # fst (lock_run after ?s)" "s' = snd (lock_run after ?s)"
    using assms(1,2) by (simp_all add: lock_run_append split_beta)
  have len: "length log1 = length before" using lock_run_length [of before s] assms(1) by simp
  have b: "(IsVariableInLockList s1 n g \<longleftrightarrow> granted n g log1) \<and> mEnableLocking s1 = mEnableLocking s \<and>
      \<not> mSmst s1 \<and> distinct (mLockedVariableList s1)"
    using lock_run_list [OF assms(1), of n g] assms(3,4) by (simp add: IsVariableInLockList_def)
  have a: "mLockedVariableList s' = mLockedVariableList s1"
      "\<forall>n g m st. (Request n g m, st) \<in> set (fst (lock_run after ?s)) \<longrightarrow> st \<noteq> EFI_SUCCESS"
    using lock_run_after_EndOfDxe [of ?s "mLockedVariableList s1" after] r(2) by auto
  have "lock_run after ?s = (fst (lock_run after ?s), s')" using r(2) by simp
  from lock_run_list [OF this] b
  have "mEnableLocking s' = mEnableLocking s" "\<not> mSmst s'" "EndOfDxe s'" by auto
  then show ?thesis using a b len by (auto simp: r(1) IsVariableLocked_def IsVariableInLockList_def)
qed

text \<open>The list that the SMI handler builds answers as the list of the DXE driver does: after
  a successful copy into an empty list, SMM refuses a write exactly when the driver would, as long as both have seen the end of DXE or neither has.\<close>

theorem smm_copy_agrees:
  assumes "SmmCreateVariableLockList memory BufferSize Signature (mLockedVariableList s) t = Some (EFI_SUCCESS, t')"
    and "mLockedVariableList t = []" "mSmst t" "\<not> mSmst s"
    and "ProtectedModeEndOfDxe t = EndOfDxe s" "mEnableLocking t = mEnableLocking s"
  shows "IsVariableLocked t' n g = IsVariableLocked s n g"
proof -
  from assms(1,3) have "copy_entries memory (mLockedVariableList s) t = Some t'"
    by (auto simp: SmmCreateVariableLockList_def CreateVariableLockListInSmm_def
        split: if_splits option.splits)
  from copy_entries_append [OF this] assms(2-) show ?thesis
    by (simp add: IsVariableLocked_def IsVariableInLockList_def)
qed

text \<open>\<open>ConvertList\<close> terminates on every well-formed list and leaves, seen through an injective
  address map that does not give \<open>NULL\<close>, the same list at the converted addresses, with the
  links outside the list unchanged.\<close>

theorem ConvertList_relocates:
  assumes "dlist h n xs" "inj_on conv (set (n # xs))" "0 \<notin> conv ` set (n # xs)"
  shows "\<exists>h'. ConvertList conv n h = Some h' \<and>
    (\<forall>v. seen_at conv (set (n # xs)) h' v \<longrightarrow> dlist v (conv n) (map conv xs)) \<and>
    (\<forall>a. a \<notin> set (n # xs) \<longrightarrow> ForwardLink h' a = ForwardLink h a \<and> BackLink h' a = BackLink h a)"
proof -
  let ?h = "converted conv (set (n # xs)) h"
  have "chain h n xs n" "distinct (n # xs)" using assms(1) by (auto simp: dlist_def)
  then have "seen_at conv (set (n # xs)) ?h v \<longrightarrow> dlist v (conv n) (map conv xs)" for v
    using chain_seen [of conv n n xs h v] assms(2,3) by (auto simp: dlist_def distinct_map)
  then show ?thesis using ConvertList_dlist [OF assms(1)] by (auto simp: converted_def)
qed

section \<open>Witnesses\<close>

definition dxe_lock :: var_lock where
  "dxe_lock = \<lparr>mLockedVariableList = [], mEnableLocking = True, EndOfDxe = False, mSmst = False,
     ProtectedModeEndOfDxe = False\<rparr>"

abbreviation ask :: "u16 \<Rightarrow> lock_event" where
  "ask c \<equiv> Request (Some [c]) (Some [1, 2]) True"

lemma lock_list_frozen_at_EndOfDxe_witness:
  "IsVariableLocked (snd (lock_run ([ask 65, ask 65] @ SignalEndOfDxe # [ask 66]) dxe_lock)) [65] [1, 2] \<and>
   \<not> IsVariableLocked (snd (lock_run ([ask 65, ask 65] @ SignalEndOfDxe # [ask 66]) dxe_lock)) [66] [1, 2]"
proof -
  let ?es = "[ask 65, ask 65] @ SignalEndOfDxe # [ask 66]"
  have a: "lock_run [ask 65, ask 65] dxe_lock =
      ([(ask 65, EFI_SUCCESS), (ask 65, EFI_SUCCESS)], dxe_lock\<lparr>mLockedVariableList := [\<lparr>Guid = [1, 2], Name = [65]\<rparr>]\<rparr>)"
    by (simp add: dxe_lock_def VariableLockRequestToLock_def IsVariableInLockList_def)
  have b: "lock_run ?es dxe_lock = (fst (lock_run ?es dxe_lock), snd (lock_run ?es dxe_lock))" by simp
  have "mLockedVariableList dxe_lock = []" "\<not> mSmst dxe_lock" "mEnableLocking dxe_lock"
    by (simp_all add: dxe_lock_def)
  then show ?thesis
    using lock_list_frozen_at_EndOfDxe [OF a b, of "[65]" "[1, 2]"]
      lock_list_frozen_at_EndOfDxe [OF a b, of "[66]" "[1, 2]"] by (auto simp del: lock_run.simps)
qed

lemma smm_copy_agrees_witness:
  "\<exists>t'. IsVariableLocked t' [65] [1, 2] \<and> mSmst t'"
proof -
  let ?s = "dxe_lock\<lparr>mLockedVariableList := [\<lparr>Guid = [1, 2], Name = [65]\<rparr>], EndOfDxe := True\<rparr>"
  let ?t = "dxe_lock\<lparr>mSmst := True, ProtectedModeEndOfDxe := True\<rparr>"
  let ?t' = "?t\<lparr>mLockedVariableList := mLockedVariableList ?s\<rparr>"
  have "SmmCreateVariableLockList (\<lambda>_. True) 56 SMM_VARIABLE_LOCK_SIGNATURE (mLockedVariableList ?s) ?t = Some (EFI_SUCCESS, ?t')"
    by (simp add: SmmCreateVariableLockList_def CreateVariableLockListInSmm_def dxe_lock_def)
  from smm_copy_agrees [OF this, of "[65]" "[1, 2]"]
  have "IsVariableLocked ?t' [65] [1, 2]"
    by (simp add: dxe_lock_def IsVariableLocked_def IsVariableInLockList_def)
  moreover have "mSmst ?t'" by simp
  ultimately show ?thesis by blast
qed

lemma ConvertList_relocates_witness:
  "\<exists>h'. ConvertList (\<lambda>a. a + 100) 1 \<lparr>ForwardLink = (\<lambda>_. 0)(1 := 2, 2 := 1), BackLink = (\<lambda>_. 0)(1 := 2, 2 := 1)\<rparr> = Some h' \<and>
     ForwardLink h' 2 = 101"
proof -
  let ?h = "\<lparr>ForwardLink = (\<lambda>_. 0)(1 := 2, 2 := 1), BackLink = (\<lambda>_. 0)(1 := 2, 2 := 1)\<rparr> :: list_heap"
  have "dlist ?h 1 [2]" "inj_on (\<lambda>a. a + 100) (set [1::nat, 2])" "0 \<notin> (\<lambda>a. a + 100) ` set [1::nat, 2]"
    by (simp_all add: dlist_def inj_on_def)
  from ConvertList_relocates [OF this] obtain h' where h: "ConvertList (\<lambda>a. a + 100) 1 ?h = Some h'"
      and v: "\<forall>v. seen_at (\<lambda>a. a + 100) (set [1, 2]) h' v \<longrightarrow> dlist v (1 + 100) (map (\<lambda>a. a + 100) [2])"
    by auto
  let ?v = "\<lparr>ForwardLink = \<lambda>a. ForwardLink h' (a - 100), BackLink = \<lambda>a. BackLink h' (a - 100)\<rparr>"
  have "seen_at (\<lambda>a. a + 100) (set [1, 2]) h' ?v" by (simp add: seen_at_def)
  with v have "dlist ?v 101 [102]" by force
  then show ?thesis using h by (auto simp: dlist_def)
qed
end
