(* ===== verification/Bits.thy ===== *)
theory Bits
  imports Prelude
begin

text \<open>
  The bit-scan functions of \<open>MdePkg/Library/BaseLib\<close>: \<open>HighBitSet32/64.c\<close>,
  \<open>LowBitSet32/64.c\<close> and \<open>GetPowerOfTwo32/64.c\<close>.  The task-priority code uses
  \<open>HighBitSet64\<close> to choose the event queue it serves next.  A result of type
  \<open>INTN\<close> is an \<open>int\<close> (\<open>-1\<close> for a zero operand).
\<close>

section \<open>The code\<close>

lemma unat_u32_less [simp]: "unat (x :: u32) < 4294967296"
  using unsigned_less [of x, where 'a = nat] by simp

lemma bit_top_u32: "bit (x :: u32) 31 \<longleftrightarrow> 2147483648 \<le> unat x"
proof -
  have "bit (unat x) 31 \<longleftrightarrow> bit x 31" by (simp add: bit_unsigned_iff)
  then have "bit x 31 \<longleftrightarrow> odd (unat x div 2147483648)" by (simp add: bit_iff_odd [of "unat x"])
  moreover have "unat x div 2147483648 < 2" using unat_u32_less [of x] by linarith
  ultimately show ?thesis by (cases "unat x div 2147483648") auto
qed

lemma pos_of_wrap:
  fixes s :: int and n :: nat
  assumes "s = int n - 4294967296 * of_bool (2147483648 \<le> n)" "n < 4294967296"
  shows "0 < s \<longleftrightarrow> 0 < n \<and> n < 2147483648"
  using assms by (cases "2147483648 \<le> n") auto

lemma sint_pos: "sint (x :: u32) > 0 \<longleftrightarrow> 0 < unat x \<and> unat x < 2147483648"
proof -
  have "take_bit 32 (uint x) = uint x"
    using unsigned_less [of x, where 'a = int] by (simp add: take_bit_int_eq_self)
  then have "sint x = uint x - 4294967296 * of_bool (bit x 31)"
    by (simp add: sint_uint signed_take_bit_eq_take_bit_minus bit_uint_iff)
  moreover have "uint x = int (unat x)" by simp
  ultimately have "sint x = int (unat x) - 4294967296 * of_bool (2147483648 \<le> unat x)"
    by (simp only: bit_top_u32)
  from pos_of_wrap [OF this unat_u32_less] show ?thesis .
qed

function high_scan :: "int \<Rightarrow> u32 \<Rightarrow> int" where
  "high_scan BitIndex Operand =
     (if sint Operand > 0 then high_scan (BitIndex - 1) (push_bit 1 Operand) else BitIndex)"
  by pat_completeness auto

termination
proof (relation "measure (\<lambda>(i, x). 4294967296 - unat x)")
  fix i and x :: u32
  assume "0 < sint x"
  then have x: "0 < unat x" "unat x < 2147483648" by (simp_all add: sint_pos)
  then have "unat (push_bit 1 x) = 2 * unat x"
    by (simp add: unat_word_ariths push_bit_eq_mult)
  with x show "((i - 1, push_bit 1 x), i, x) \<in> measure (\<lambda>(i, x). 4294967296 - unat x)" by simp
qed simp

declare high_scan.simps [simp del]

definition HighBitSet32 :: "u32 \<Rightarrow> int" where
  "HighBitSet32 Operand = (if Operand = 0 then - 1 else high_scan 31 Operand)"

definition HighBitSet64 :: "u64 \<Rightarrow> int" where
  "HighBitSet64 Operand =
     (if Operand = ucast (ucast Operand :: u32) then HighBitSet32 (ucast Operand)
      else HighBitSet32 (ucast (drop_bit 32 Operand)) + 32)"

definition GetPowerOfTwo32 :: "u32 \<Rightarrow> u32" where
  "GetPowerOfTwo32 Operand = (if 0 = Operand then 0 else push_bit (nat (HighBitSet32 Operand)) 1)"

definition GetPowerOfTwo64 :: "u64 \<Rightarrow> u64" where
  "GetPowerOfTwo64 Operand = (if Operand = 0 then 0 else push_bit (nat (HighBitSet64 Operand)) 1)"

text \<open>The scans from below run for ever on zero, which their callers exclude: the loop is bounded
  by the width of the operand.\<close>

fun low_scan :: "nat \<Rightarrow> int \<Rightarrow> 'a :: len word \<Rightarrow> int option" where
  "low_scan 0 BitIndex Operand = None"
| "low_scan (Suc n) BitIndex Operand =
     (if Operand AND 1 = 0 then low_scan n (BitIndex + 1) (drop_bit 1 Operand) else Some BitIndex)"

definition LowBitSet32 :: "u32 \<Rightarrow> int option" where
  "LowBitSet32 Operand = (if Operand = 0 then Some (- 1) else low_scan 32 0 Operand)"

definition LowBitSet64 :: "u64 \<Rightarrow> int option" where
  "LowBitSet64 Operand = (if Operand = 0 then Some (- 1) else low_scan 64 0 Operand)"

section \<open>Lemmas\<close>

lemma high_scan_log:
  "0 < unat x \<Longrightarrow> \<exists>k. high_scan i x = i - int k \<and> 2147483648 \<le> unat x * 2 ^ k \<and> unat x * 2 ^ k < 4294967296"
proof (induction i x rule: high_scan.induct)
  case (1 i x)
  show ?case
  proof (cases "sint x > 0")
    case True
    then have x: "unat (push_bit 1 x) = 2 * unat x"
      using sint_pos [of x] by (simp add: unat_word_ariths push_bit_eq_mult)
    with 1(1) [OF True] 1(2) obtain k where
      "high_scan (i - 1) (push_bit 1 x) = i - 1 - int k" "2147483648 \<le> 2 * unat x * 2 ^ k"
      "2 * unat x * 2 ^ k < 4294967296" by auto
    then show ?thesis using True by (intro exI [of _ "Suc k"]) (simp add: high_scan.simps [of i x] mult.assoc)
  next
    case False
    then show ?thesis using 1(2) sint_pos [of x] by (intro exI [of _ 0]) (auto simp: high_scan.simps [of i x])
  qed
qed

text \<open>\<open>floor_log n r\<close>: the highest bit set in \<open>n\<close> is bit \<open>r\<close>.\<close>

definition floor_log :: "nat \<Rightarrow> nat \<Rightarrow> bool" where
  "floor_log n r \<longleftrightarrow> 2 ^ r \<le> n \<and> n < 2 ^ Suc r"

lemma HighBitSet32_floor_log:
  assumes "x \<noteq> 0"
  shows "\<exists>r. HighBitSet32 x = int r \<and> r < 32 \<and> floor_log (unat x) r"
proof -
  have "0 < unat x" using assms by (simp add: unat_gt_0)
  from high_scan_log [OF this, of 31] obtain k where
    k: "high_scan 31 x = 31 - int k" "2147483648 \<le> unat x * 2 ^ k" "unat x * 2 ^ k < 4294967296" by auto
  have "k \<le> 31"
  proof (rule ccontr)
    assume "\<not> k \<le> 31"
    then have "(2::nat) ^ 32 \<le> 2 ^ k" by (intro power_increasing) auto
    moreover have "2 ^ k \<le> unat x * 2 ^ k" using \<open>0 < unat x\<close> by simp
    ultimately show False using k(3) by simp
  qed
  have e: "(2147483648::nat) = 2 ^ (31 - k) * 2 ^ k" "(4294967296::nat) = 2 ^ Suc (31 - k) * 2 ^ k"
    using \<open>k \<le> 31\<close> by (simp_all add: power_add [symmetric])
  have "floor_log (unat x) (31 - k)"
    using k(2) [unfolded e(1)] k(3) [unfolded e(2)] by (simp add: floor_log_def)
  then show ?thesis using assms k(1) \<open>k \<le> 31\<close> by (intro exI [of _ "31 - k"]) (simp add: HighBitSet32_def of_nat_diff)
qed

lemma HighBitSet64_floor_log:
  assumes "x \<noteq> 0"
  shows "\<exists>r. HighBitSet64 x = int r \<and> r < 64 \<and> floor_log (unat x) r"
proof (cases "x = ucast (ucast x :: u32)")
  case True
  then have "ucast x \<noteq> (0 :: u32)" using assms by auto
  moreover have "unat x = unat (ucast x :: u32)" by (subst True) (simp add: unsigned_ucast_eq unsigned_take_bit_eq)
  ultimately show ?thesis
    using HighBitSet32_floor_log [of "ucast x"] True by (auto simp: HighBitSet64_def)
next
  case False
  let ?h = "ucast (drop_bit 32 x) :: u32"
  have x: "unat x < 4294967296 * 4294967296" using unsigned_less [of x, where 'a = nat] by simp
  have h: "unat ?h = unat x div 4294967296"
  proof -
    have "unat (drop_bit 32 x) = unat x div 4294967296" by (simp add: drop_bit_eq_div unat_div_distrib)
    then show ?thesis using x
      by (simp only: unsigned_ucast_eq take_bit_nat_eq_self) (simp add: take_bit_nat_eq_self less_mult_imp_div_less)
  qed
  have "\<not> unat x < 4294967296"
  proof
    assume "unat x < 4294967296"
    then have "unat (ucast (ucast x :: u32) :: u64) = unat x"
      by (simp add: unsigned_ucast_eq unsigned_take_bit_eq take_bit_nat_eq_self)
    with False show False by (simp add: word_unat_eq_iff)
  qed
  then have "?h \<noteq> 0" using h by (metis div_eq_0_iff unsigned_0 zero_neq_numeral)
  from HighBitSet32_floor_log [OF this] obtain r where
    r: "HighBitSet32 ?h = int r" "r < 32" "2 ^ r \<le> unat x div 4294967296" "unat x div 4294967296 < 2 ^ Suc r"
    unfolding floor_log_def h by blast
  have "2 ^ r * 4294967296 \<le> unat x" using r(3) by (simp add: less_eq_div_iff_mult_less_eq)
  moreover have "unat x < 2 ^ Suc r * 4294967296" using r(4) by (simp add: div_less_iff_less_mult)
  moreover have "(4294967296::nat) = 2 ^ 32" by simp
  ultimately have "floor_log (unat x) (r + 32)" by (simp only: floor_log_def power_add power_Suc mult.assoc)
  then show ?thesis using False r(1,2) by (intro exI [of _ "r + 32"]) (simp add: HighBitSet64_def)
qed

lemma floor_log_bits:
  fixes x :: "'a :: len word"
  assumes "floor_log (unat x) r"
  shows "bit x r" "r < j \<Longrightarrow> \<not> bit x j"
proof -
  have bits: "bit x k \<longleftrightarrow> odd (unat x div 2 ^ k)" for k
    using bit_unsigned_iff [of x k, where 'a = nat] bit_imp_le_length [of x k]
    by (auto simp: bit_iff_odd [of "unat x"])
  have "unat x div 2 ^ r = 1"
    using assms by (simp add: floor_log_def div_nat_eqI)
  then show "bit x r" by (simp add: bits)
  assume "r < j"
  then have "(2::nat) ^ Suc r \<le> 2 ^ j" by (intro power_increasing) auto
  then have "unat x div 2 ^ j = 0" using assms by (simp add: floor_log_def)
  then show "\<not> bit x j" by (simp add: bits)
qed

lemma low_scan_first:
  fixes x :: "'a :: len word"
  assumes "bit x k" "\<forall>j<k. \<not> bit x j" "k < n"
  shows "low_scan n i x = Some (i + int k)"
  using assms
proof (induction n arbitrary: k i x)
  case (Suc n)
  have "x AND 1 = 0 \<longleftrightarrow> \<not> bit x 0" by (simp add: and_one_eq bit_0 even_iff_mod_2_eq_zero odd_iff_mod_2_eq_one)
  then show ?case
    using Suc.prems Suc.IH [of "drop_bit 1 x" "k - 1" "i + 1"]
    by (cases k) (auto simp: bit_drop_bit_eq)
qed simp

section \<open>Properties\<close>

text \<open>\<open>HighBitSet64\<close> terminates on every operand and returns the position of its highest set
  bit, \<open>-1\<close> for zero; \<open>GetPowerOfTwo64\<close> is the largest power of two that is not larger than
  the operand; and \<open>LowBitSet64\<close> returns the position of the lowest set bit.\<close>

theorem bit_scans_correct:
  fixes x :: u64
  assumes "x \<noteq> 0"
  shows "\<exists>r<64. HighBitSet64 x = int r \<and> bit x r \<and> (\<forall>j>r. \<not> bit x j) \<and>
    unat (GetPowerOfTwo64 x) = 2 ^ r \<and> 2 ^ r \<le> unat x \<and> unat x < 2 * 2 ^ r \<and>
    (\<exists>l\<le>r. LowBitSet64 x = Some (int l) \<and> bit x l \<and> (\<forall>j<l. \<not> bit x j))"
proof -
  from HighBitSet64_floor_log [OF assms] obtain r where
    r: "HighBitSet64 x = int r" "r < 64" "floor_log (unat x) r" by blast
  note b = floor_log_bits [OF r(3)]
  define l where "l = (LEAST l. bit x l)"
  have l: "bit x l" "\<forall>j<l. \<not> bit x j" "l \<le> r"
    using b(1) unfolding l_def by (auto intro: LeastI not_less_Least Least_le dest: not_less_Least)
  then have "LowBitSet64 x = Some (int l)"
    using low_scan_first [of x l 64 0] r(2) assms by (simp add: LowBitSet64_def)
  moreover have "unat (GetPowerOfTwo64 x) = 2 ^ r"
  proof -
    have "(2::nat) ^ r < 2 ^ 64" using r(2) by (intro power_strict_increasing) auto
    then show ?thesis using assms r(1,2)
      by (simp add: GetPowerOfTwo64_def unsigned_push_bit_eq push_bit_eq_mult [of r "1::nat"] take_bit_nat_eq_self
          del: push_bit_of_1)
  qed
  ultimately show ?thesis using r b l by (auto simp: floor_log_def)
qed

lemma bit_scans_correct_witness:
  "\<exists>r<64. HighBitSet64 0x100000010 = int r \<and> bit (0x100000010 :: u64) r"
  using bit_scans_correct [of "0x100000010"] by auto

end
