(* ===== verification/Events.thy ===== *)
theory Events
  imports Bits
begin

text \<open>
  The event services of the DXE core: events and the notification queues
  (\<open>MdeModulePkg/Override/Core/Dxe/Event/Event.c\<close>), task priorities
  (\<open>Core/Dxe/Event/Tpl.c\<close>), timers (\<open>Core/Dxe/Event/Timer.c\<close>) and the locks they are
  built on (\<open>Core/Dxe/Library/Library.c\<close>).

  Lowering the priority runs the pending notifications, a notification runs at its own
  priority and may lower it again: \<open>CoreRestoreTpl\<close> calls itself through the release of
  every lock.  Each operation therefore takes the \<open>restore\<close> it calls as an argument, and
  \<open>CoreRestoreTpl\<close> ties the knot, its first number bounding the depth of the nesting and the
  turns of each loop.

  An event is its address (\<open>0\<close> is \<open>NULL\<close>); at an address without an \<open>IEVENT\<close> the
  signature test fails.  A list is the list of its events, and an event has a flag for each
  of its links (\<open>ForwardLink != NULL\<close>): unlinking an event from a list it is not on, or
  linking it twice, is \<open>None\<close>.  The notification functions of clients, the pool, the
  processor and the timer architectural protocol are the parameter \<open>env\<close>.
\<close>

section \<open>State\<close>

abbreviation TPL_APPLICATION :: nat where "TPL_APPLICATION \<equiv> 4"
abbreviation TPL_NOTIFY :: nat where "TPL_NOTIFY \<equiv> 16"
abbreviation TPL_HIGH_LEVEL :: nat where "TPL_HIGH_LEVEL \<equiv> 31"

abbreviation EVT_TIMER :: u32 where "EVT_TIMER \<equiv> 0x80000000"
abbreviation EVT_RUNTIME :: u32 where "EVT_RUNTIME \<equiv> 0x40000000"
abbreviation EVT_NOTIFY_WAIT :: u32 where "EVT_NOTIFY_WAIT \<equiv> 0x100"
abbreviation EVT_NOTIFY_SIGNAL :: u32 where "EVT_NOTIFY_SIGNAL \<equiv> 0x200"
abbreviation EVT_SIGNAL_EXIT_BOOT_SERVICES :: u32 where "EVT_SIGNAL_EXIT_BOOT_SERVICES \<equiv> 0x201"
abbreviation EVT_SIGNAL_VIRTUAL_ADDRESS_CHANGE :: u32 where "EVT_SIGNAL_VIRTUAL_ADDRESS_CHANGE \<equiv> 0x60000202"

definition gEfiEventExitBootServicesGuid :: guid where
  "gEfiEventExitBootServicesGuid =
     [0x55, 0xF0, 0xAB, 0x27, 0xB8, 0xB1, 0x26, 0x4C, 0x80, 0x48, 0x74, 0x8F, 0x37, 0xBA, 0xA2, 0xDF]"

definition gEfiEventVirtualAddressChangeGuid :: guid where
  "gEfiEventVirtualAddressChangeGuid =
     [0x98, 0x76, 0xFA, 0x13, 0x31, 0xC8, 0xC7, 0x49, 0x87, 0xEA, 0x8F, 0x43, 0xFC, 0xC2, 0x51, 0x96]"

definition gIdleLoopEventGuid :: guid where
  "gIdleLoopEventGuid =
     [0x4C, 0x29, 0x8D, 0x3C, 0xC3, 0x5F, 0x51, 0x44, 0xBB, 0x31, 0xC4, 0xC0, 0x32, 0x29, 0x5E, 0x6C]"

text \<open>\<open>EFI_EVENT_NOTIFY\<close>: the core's own notification functions, and those of its clients.\<close>

datatype notify_function = CheckTimers | EmptyCallback | Client nat

record ievent =
  EventType :: u32
  SignalCount :: u32
  OnSignalList :: bool
  NotifyTpl :: nat
  NotifyFunction :: "notify_function option"
  NotifyContext :: nat
  EventGroup :: guid
  OnNotifyQueue :: bool
  ExFlag :: bool
  OnRuntimeList :: bool
  OnTimerList :: bool
  TriggerTime :: u64
  Period :: u64

record efi_lock =
  LockTpl :: nat
  OwnerTpl :: nat
  Acquired :: bool

datatype lock_id = gEventQueueLock | mEfiTimerLock | mEfiSystemTimeLock

record 'e ev =
  gEfiCurrentTpl :: nat
  lock_of :: "lock_id \<Rightarrow> efi_lock"
  gEventQueue :: "nat \<Rightarrow> nat list"
  gEventPending :: u64
  gEventSignalQueue :: "nat list"
  ievents :: "nat \<Rightarrow> ievent option"
  RuntimeEventHead :: "nat list"
  mEfiTimerList :: "nat list"
  mEfiSystemTime :: u64
  mEfiCheckTimerEvent :: nat
  gIdleLoopEvent :: nat
  gCpu :: bool
  gSmmBase2 :: "(efi_status \<times> bool) option"
  InterruptsEnabled :: bool
  outside :: 'e

record 'e ev_env =
  CallClient :: "nat \<Rightarrow> nat \<Rightarrow> nat \<Rightarrow> 'e ev \<Rightarrow> 'e ev option"
  AllocateZeroPool :: "bool \<Rightarrow> 'e \<Rightarrow> nat option \<times> 'e"
  GetTimerPeriod :: "'e \<Rightarrow> u64"
  CoreUnregisterProtocolNotify :: "nat \<Rightarrow> 'e \<Rightarrow> 'e"

type_synonym 'e restore = "nat \<Rightarrow> 'e ev \<Rightarrow> 'e ev option"

definition put_event :: "nat \<Rightarrow> ievent \<Rightarrow> 'e ev \<Rightarrow> 'e ev" where
  "put_event e x s = s\<lparr>ievents := (ievents s)(e \<mapsto> x)\<rparr>"

text \<open>\<open>RemoveEntryList\<close> and \<open>InsertTailList\<close> on an abstract list.\<close>

definition unlink :: "nat \<Rightarrow> nat list \<Rightarrow> nat list option" where
  "unlink e l = (if e \<in> set l then Some (remove1 e l) else None)"

definition link_tail :: "nat \<Rightarrow> nat list \<Rightarrow> nat list option" where
  "link_tail e l = (if e \<in> set l then None else Some (l @ [e]))"

section \<open>Task priority and locks\<close>

definition CoreSetInterruptState :: "bool \<Rightarrow> 'e ev \<Rightarrow> 'e ev" where
  "CoreSetInterruptState Enable s =
     (if \<not> gCpu s then s
      else if \<not> Enable then s\<lparr>InterruptsEnabled := False\<rparr>
      else case gSmmBase2 s of
        None \<Rightarrow> s\<lparr>InterruptsEnabled := True\<rparr>
      | Some (Status, InSmm) \<Rightarrow>
          if \<not> EFI_ERROR Status \<and> \<not> InSmm then s\<lparr>InterruptsEnabled := True\<rparr> else s)"

definition CoreRaiseTpl :: "nat \<Rightarrow> 'e ev \<Rightarrow> (nat \<times> 'e ev) option" where
  "CoreRaiseTpl NewTpl s = do {
     let OldTpl = gEfiCurrentTpl s;
     ASSERT (OldTpl \<le> NewTpl);
     ASSERT (NewTpl \<le> TPL_HIGH_LEVEL);
     let s = (if NewTpl \<ge> TPL_HIGH_LEVEL \<and> OldTpl < TPL_HIGH_LEVEL then CoreSetInterruptState False s else s);
     Some (OldTpl, s\<lparr>gEfiCurrentTpl := NewTpl\<rparr>)
   }"

definition own_lock :: "lock_id \<Rightarrow> nat \<Rightarrow> 'e ev \<Rightarrow> 'e ev" where
  "own_lock l Owner s = s\<lparr>lock_of := (lock_of s)(l := (lock_of s l)\<lparr>OwnerTpl := Owner, Acquired := True\<rparr>)\<rparr>"

definition free_lock :: "lock_id \<Rightarrow> 'e ev \<Rightarrow> 'e ev" where
  "free_lock l s = s\<lparr>lock_of := (lock_of s)(l := (lock_of s l)\<lparr>Acquired := False\<rparr>)\<rparr>"

definition CoreAcquireLockOrFail :: "lock_id \<Rightarrow> 'e ev \<Rightarrow> (efi_status \<times> 'e ev) option" where
  "CoreAcquireLockOrFail l s =
     (if Acquired (lock_of s l) then Some (EFI_ACCESS_DENIED, s)
      else do { (Owner, s) \<leftarrow> CoreRaiseTpl (LockTpl (lock_of s l)) s; Some (EFI_SUCCESS, own_lock l Owner s) })"

definition CoreAcquireLock :: "lock_id \<Rightarrow> 'e ev \<Rightarrow> 'e ev option" where
  "CoreAcquireLock l s = do {
     ASSERT (\<not> Acquired (lock_of s l));
     (Owner, s) \<leftarrow> CoreRaiseTpl (LockTpl (lock_of s l)) s;
     Some (own_lock l Owner s)
   }"

definition CoreReleaseLock :: "'e restore \<Rightarrow> lock_id \<Rightarrow> 'e ev \<Rightarrow> 'e ev option" where
  "CoreReleaseLock restore l s = do {
     ASSERT (Acquired (lock_of s l));
     restore (OwnerTpl (lock_of s l)) (free_lock l s)
   }"

abbreviation CoreAcquireEventLock :: "'e ev \<Rightarrow> 'e ev option" where
  "CoreAcquireEventLock \<equiv> CoreAcquireLock gEventQueueLock"

abbreviation CoreReleaseEventLock :: "'e restore \<Rightarrow> 'e ev \<Rightarrow> 'e ev option" where
  "CoreReleaseEventLock restore \<equiv> CoreReleaseLock restore gEventQueueLock"

section \<open>Signalling\<close>

text \<open>\<open>(UINTN)(1 << Priority)\<close> and \<open>-2 << NewTpl\<close>: the shifts are on \<open>int\<close>, whose sign is extended.\<close>

definition queue_bit :: "nat \<Rightarrow> u64" where
  "queue_bit Priority = scast (push_bit Priority 1 :: u32)"

definition above_mask :: "nat \<Rightarrow> u64" where
  "above_mask NewTpl = scast (push_bit NewTpl (- 2) :: u32)"

definition CoreNotifyEvent :: "nat \<Rightarrow> 'e ev \<Rightarrow> 'e ev option" where
  "CoreNotifyEvent e s = do {
     ASSERT (Acquired (lock_of s gEventQueueLock));
     ev \<leftarrow> ievents s e;
     s \<leftarrow> (if OnNotifyQueue ev then do {
             q \<leftarrow> unlink e (gEventQueue s (NotifyTpl ev));
             Some (s\<lparr>gEventQueue := (gEventQueue s)(NotifyTpl ev := q)\<rparr>)
           } else Some s);
     q \<leftarrow> link_tail e (gEventQueue s (NotifyTpl ev));
     Some ((put_event e (ev\<lparr>OnNotifyQueue := True\<rparr>) s)
       \<lparr>gEventQueue := (gEventQueue s)(NotifyTpl ev := q),
        gEventPending := gEventPending s OR queue_bit (NotifyTpl ev)\<rparr>)
   }"

fun notify_group :: "guid \<Rightarrow> nat list \<Rightarrow> 'e ev \<Rightarrow> 'e ev option" where
  "notify_group Group [] s = Some s"
| "notify_group Group (e # Link) s = do {
     ev \<leftarrow> ievents s e;
     s \<leftarrow> (if EventGroup ev = Group then CoreNotifyEvent e s else Some s);
     notify_group Group Link s
   }"

definition CoreNotifySignalList :: "'e restore \<Rightarrow> guid \<Rightarrow> 'e ev \<Rightarrow> 'e ev option" where
  "CoreNotifySignalList restore Group s = do {
     s \<leftarrow> CoreAcquireEventLock s;
     s \<leftarrow> notify_group Group (gEventSignalQueue s) s;
     CoreReleaseEventLock restore s
   }"

text \<open>The group is read after the lock has been released.\<close>

definition CoreSignalEvent :: "'e restore \<Rightarrow> nat \<Rightarrow> 'e ev \<Rightarrow> (efi_status \<times> 'e ev) option" where
  "CoreSignalEvent restore UserEvent s =
     (if UserEvent = 0 \<or> ievents s UserEvent = None then Some (EFI_INVALID_PARAMETER, s)
      else do {
        s \<leftarrow> CoreAcquireEventLock s;
        ev \<leftarrow> ievents s UserEvent;
        s \<leftarrow> (if SignalCount ev = 0 then do {
                let s = put_event UserEvent (ev\<lparr>SignalCount := SignalCount ev + 1\<rparr>) s;
                if EventType ev AND EVT_NOTIFY_SIGNAL \<noteq> 0 then
                  (if ExFlag ev then do {
                     s \<leftarrow> CoreReleaseEventLock restore s;
                     ev \<leftarrow> ievents s UserEvent;
                     s \<leftarrow> CoreNotifySignalList restore (EventGroup ev) s;
                     CoreAcquireEventLock s
                   } else CoreNotifyEvent UserEvent s)
                else Some s
              } else Some s);
        s \<leftarrow> CoreReleaseEventLock restore s;
        Some (EFI_SUCCESS, s)
      })"

definition CoreCheckEvent :: "'e restore \<Rightarrow> nat \<Rightarrow> 'e ev \<Rightarrow> (efi_status \<times> 'e ev) option" where
  "CoreCheckEvent restore UserEvent s =
     (if UserEvent = 0 then Some (EFI_INVALID_PARAMETER, s)
      else case ievents s UserEvent of None \<Rightarrow> Some (EFI_INVALID_PARAMETER, s)
      | Some ev \<Rightarrow>
        if EventType ev AND EVT_NOTIFY_SIGNAL \<noteq> 0 then Some (EFI_INVALID_PARAMETER, s)
        else do {
          s \<leftarrow> (if SignalCount ev = 0 \<and> EventType ev AND EVT_NOTIFY_WAIT \<noteq> 0 then do {
                  s \<leftarrow> CoreAcquireEventLock s;
                  ev \<leftarrow> ievents s UserEvent;
                  s \<leftarrow> (if SignalCount ev = 0 then CoreNotifyEvent UserEvent s else Some s);
                  CoreReleaseEventLock restore s
                } else Some s);
          ev \<leftarrow> ievents s UserEvent;
          if SignalCount ev \<noteq> 0 then do {
            s \<leftarrow> CoreAcquireEventLock s;
            ev \<leftarrow> ievents s UserEvent;
            let (Status, s) = (if SignalCount ev \<noteq> 0 then (EFI_SUCCESS, put_event UserEvent (ev\<lparr>SignalCount := 0\<rparr>) s)
                               else (EFI_NOT_READY, s));
            s \<leftarrow> CoreReleaseEventLock restore s;
            Some (Status, s)
          } else Some (EFI_NOT_READY, s)
        })"

section \<open>Timers\<close>

text \<open>The position before the first timer that is due later.\<close>

fun insert_before_later :: "'e ev \<Rightarrow> u64 \<Rightarrow> nat \<Rightarrow> nat list \<Rightarrow> nat list option" where
  "insert_before_later s Trigger e [] = Some [e]"
| "insert_before_later s Trigger e (e2 # Link) = do {
     ev2 \<leftarrow> ievents s e2;
     if TriggerTime ev2 > Trigger then Some (e # e2 # Link)
     else do { l \<leftarrow> insert_before_later s Trigger e Link; Some (e2 # l) }
   }"

definition CoreInsertEventTimer :: "nat \<Rightarrow> 'e ev \<Rightarrow> 'e ev option" where
  "CoreInsertEventTimer e s = do {
     ASSERT (Acquired (lock_of s mEfiTimerLock));
     ev \<leftarrow> ievents s e;
     ASSERT (e \<notin> set (mEfiTimerList s));
     l \<leftarrow> insert_before_later s (TriggerTime ev) e (mEfiTimerList s);
     Some ((put_event e (ev\<lparr>OnTimerList := True\<rparr>) s)\<lparr>mEfiTimerList := l\<rparr>)
   }"

definition CoreCurrentSystemTime :: "'e restore \<Rightarrow> 'e ev \<Rightarrow> (u64 \<times> 'e ev) option" where
  "CoreCurrentSystemTime restore s = do {
     s \<leftarrow> CoreAcquireLock mEfiSystemTimeLock s;
     let SystemTime = mEfiSystemTime s;
     s \<leftarrow> CoreReleaseLock restore mEfiSystemTimeLock s;
     Some (SystemTime, s)
   }"

text \<open>The end of one turn of the loop of \<open>CoreCheckTimers\<close>: a periodic timer is set again.\<close>

definition rearm :: "'e restore \<Rightarrow> u64 \<Rightarrow> nat \<Rightarrow> 'e ev \<Rightarrow> 'e ev option" where
  "rearm restore SystemTime e s = do {
     ev \<leftarrow> ievents s e;
     if Period ev = 0 then Some s
     else do {
       let ev = ev\<lparr>TriggerTime := TriggerTime ev + Period ev\<rparr>;
       s \<leftarrow> (if TriggerTime ev \<le> SystemTime then do {
               (_, s) \<leftarrow> CoreSignalEvent restore (mEfiCheckTimerEvent s)
                          (put_event e (ev\<lparr>TriggerTime := SystemTime\<rparr>) s);
               Some s
             } else Some (put_event e ev s));
       CoreInsertEventTimer e s
     }
   }"

fun fire_timers :: "'e restore \<Rightarrow> u64 \<Rightarrow> nat \<Rightarrow> 'e ev \<Rightarrow> 'e ev option" where
  "fire_timers restore SystemTime n s =
     (case mEfiTimerList s of
        [] \<Rightarrow> Some s
      | e # l \<Rightarrow> do {
          ev \<leftarrow> ievents s e;
          if TriggerTime ev > SystemTime then Some s
          else case n of 0 \<Rightarrow> None
          | Suc n \<Rightarrow> do {
              let s = (put_event e (ev\<lparr>OnTimerList := False\<rparr>) s)\<lparr>mEfiTimerList := l\<rparr>;
              (_, s) \<leftarrow> CoreSignalEvent restore e s;
              s \<leftarrow> rearm restore SystemTime e s;
              fire_timers restore SystemTime n s
            }
        })"

declare fire_timers.simps [simp del]

definition CoreCheckTimers :: "'e restore \<Rightarrow> nat \<Rightarrow> 'e ev \<Rightarrow> 'e ev option" where
  "CoreCheckTimers restore n s = do {
     s \<leftarrow> CoreAcquireLock mEfiTimerLock s;
     (SystemTime, s) \<leftarrow> CoreCurrentSystemTime restore s;
     s \<leftarrow> fire_timers restore SystemTime n s;
     CoreReleaseLock restore mEfiTimerLock s
   }"

definition CoreTimerTick :: "'e restore \<Rightarrow> u64 \<Rightarrow> 'e ev \<Rightarrow> 'e ev option" where
  "CoreTimerTick restore Duration s = do {
     s \<leftarrow> CoreAcquireLock mEfiSystemTimeLock s;
     let s = s\<lparr>mEfiSystemTime := mEfiSystemTime s + Duration\<rparr>;
     s \<leftarrow> (case mEfiTimerList s of
             [] \<Rightarrow> Some s
           | e # _ \<Rightarrow> do {
               ev \<leftarrow> ievents s e;
               if TriggerTime ev \<le> mEfiSystemTime s then do {
                 (_, s) \<leftarrow> CoreSignalEvent restore (mEfiCheckTimerEvent s) s; Some s
               } else Some s
             });
     CoreReleaseLock restore mEfiSystemTimeLock s
   }"

datatype timer_delay = TimerCancel | TimerPeriodic | TimerRelative | OtherDelay

definition CoreSetTimer ::
  "'e ev_env \<Rightarrow> 'e restore \<Rightarrow> nat \<Rightarrow> timer_delay \<Rightarrow> u64 \<Rightarrow> 'e ev \<Rightarrow> (efi_status \<times> 'e ev) option" where
  "CoreSetTimer env restore UserEvent Type Trigger s =
     (if UserEvent = 0 then Some (EFI_INVALID_PARAMETER, s)
      else case ievents s UserEvent of None \<Rightarrow> Some (EFI_INVALID_PARAMETER, s)
      | Some ev \<Rightarrow>
        if Type = OtherDelay \<or> EventType ev AND EVT_TIMER = 0 then Some (EFI_INVALID_PARAMETER, s)
        else do {
          s \<leftarrow> CoreAcquireLock mEfiTimerLock s;
          l \<leftarrow> (if OnTimerList ev then unlink UserEvent (mEfiTimerList s) else Some (mEfiTimerList s));
          let ev = ev\<lparr>OnTimerList := False, TriggerTime := 0, Period := 0\<rparr>;
          let s = (put_event UserEvent ev s)\<lparr>mEfiTimerList := l\<rparr>;
          s \<leftarrow> (if Type \<noteq> TimerCancel then do {
                  let Trigger = (if Type = TimerPeriodic \<and> Trigger = 0 then GetTimerPeriod env (outside s) else Trigger);
                  let s = (if Type = TimerPeriodic then put_event UserEvent (ev\<lparr>Period := Trigger\<rparr>) s else s);
                  (Now, s) \<leftarrow> CoreCurrentSystemTime restore s;
                  ev \<leftarrow> ievents s UserEvent;
                  s \<leftarrow> CoreInsertEventTimer UserEvent (put_event UserEvent (ev\<lparr>TriggerTime := Now + Trigger\<rparr>) s);
                  if Trigger = 0 then do {
                    (_, s) \<leftarrow> CoreSignalEvent restore (mEfiCheckTimerEvent s) s; Some s
                  } else Some s
                } else Some s);
          s \<leftarrow> CoreReleaseLock restore mEfiTimerLock s;
          Some (EFI_SUCCESS, s)
        })"

section \<open>Creating, waiting, closing\<close>

definition mEventTable :: "u32 list" where
  "mEventTable = [EVT_TIMER OR EVT_NOTIFY_SIGNAL, EVT_TIMER, EVT_NOTIFY_WAIT, EVT_NOTIFY_SIGNAL,
     EVT_SIGNAL_EXIT_BOOT_SERVICES, EVT_SIGNAL_VIRTUAL_ADDRESS_CHANGE, 0, EVT_TIMER OR EVT_NOTIFY_WAIT]"

text \<open>The type and the group after the conversion of the predefined groups; \<open>None\<close> when the type
  may not be given with a group.\<close>

definition convert_group :: "u32 \<Rightarrow> guid option \<Rightarrow> (u32 \<times> guid option) option" where
  "convert_group Type Group =
     (case Group of
        Some g \<Rightarrow>
          if Type = EVT_SIGNAL_EXIT_BOOT_SERVICES \<or> Type = EVT_SIGNAL_VIRTUAL_ADDRESS_CHANGE then None
          else if g = gEfiEventExitBootServicesGuid then Some (EVT_SIGNAL_EXIT_BOOT_SERVICES, Group)
          else if g = gEfiEventVirtualAddressChangeGuid then Some (EVT_SIGNAL_VIRTUAL_ADDRESS_CHANGE, Group)
          else Some (Type, Group)
      | None \<Rightarrow>
          if Type = EVT_SIGNAL_EXIT_BOOT_SERVICES then Some (Type, Some gEfiEventExitBootServicesGuid)
          else if Type = EVT_SIGNAL_VIRTUAL_ADDRESS_CHANGE then Some (Type, Some gEfiEventVirtualAddressChangeGuid)
          else Some (Type, None))"

definition CoreCreateEventInternal ::
  "'e ev_env \<Rightarrow> 'e restore \<Rightarrow> u32 \<Rightarrow> nat \<Rightarrow> notify_function option \<Rightarrow> nat \<Rightarrow> guid option \<Rightarrow> bool
    \<Rightarrow> 'e ev \<Rightarrow> ((efi_status \<times> nat option) \<times> 'e ev) option" where
  "CoreCreateEventInternal env restore Type Tpl Function Context Group EventIsNull s =
     (if EventIsNull \<or> Type \<notin> set mEventTable then Some ((EFI_INVALID_PARAMETER, None), s)
      else case convert_group Type Group of None \<Rightarrow> Some ((EFI_INVALID_PARAMETER, None), s)
      | Some (Type, Group) \<Rightarrow>
        let notify = (Type AND (EVT_NOTIFY_WAIT OR EVT_NOTIFY_SIGNAL) \<noteq> 0) in
        if notify \<and> (Function = None \<or> Tpl \<le> TPL_APPLICATION \<or> Tpl \<ge> TPL_HIGH_LEVEL)
        then Some ((EFI_INVALID_PARAMETER, None), s)
        else case AllocateZeroPool env (Type AND EVT_RUNTIME \<noteq> 0) (outside s) of
          (None, x) \<Rightarrow> Some ((EFI_OUT_OF_RESOURCES, None), s\<lparr>outside := x\<rparr>)
        | (Some e, x) \<Rightarrow> do {
            let s = s\<lparr>outside := x\<rparr>;
            let ev = \<lparr>EventType = Type, SignalCount = 0, OnSignalList = False,
                      NotifyTpl = (if notify then Tpl else 0), NotifyFunction = (if notify then Function else None),
                      NotifyContext = (if notify then Context else 0),
                      EventGroup = (case Group of Some g \<Rightarrow> g | None \<Rightarrow> replicate 16 0),
                      OnNotifyQueue = False, ExFlag = (Group \<noteq> None), OnRuntimeList = (Type AND EVT_RUNTIME \<noteq> 0),
                      OnTimerList = False, TriggerTime = 0, Period = 0\<rparr>;
            s \<leftarrow> (if Type AND EVT_RUNTIME \<noteq> 0 then do {
                    l \<leftarrow> link_tail e (RuntimeEventHead s);
                    Some ((put_event e ev s)\<lparr>RuntimeEventHead := l\<rparr>)
                  } else Some (put_event e ev s));
            s \<leftarrow> CoreAcquireEventLock s;
            s \<leftarrow> (if Type AND EVT_NOTIFY_SIGNAL \<noteq> 0 then do {
                    ASSERT (e \<notin> set (gEventSignalQueue s));
                    Some ((put_event e (ev\<lparr>OnSignalList := True\<rparr>) s)\<lparr>gEventSignalQueue := e # gEventSignalQueue s\<rparr>)
                  } else Some s);
            s \<leftarrow> CoreReleaseEventLock restore s;
            Some ((EFI_SUCCESS, Some e), s)
          })"

definition CoreCreateEventEx ::
  "'e ev_env \<Rightarrow> 'e restore \<Rightarrow> u32 \<Rightarrow> nat \<Rightarrow> notify_function option \<Rightarrow> nat \<Rightarrow> guid option \<Rightarrow> bool
    \<Rightarrow> 'e ev \<Rightarrow> ((efi_status \<times> nat option) \<times> 'e ev) option" where
  "CoreCreateEventEx env restore Type Tpl Function Context Group EventIsNull s =
     CoreCreateEventInternal env restore Type Tpl Function Context Group EventIsNull s"

definition CoreCreateEvent ::
  "'e ev_env \<Rightarrow> 'e restore \<Rightarrow> u32 \<Rightarrow> nat \<Rightarrow> notify_function option \<Rightarrow> nat \<Rightarrow> bool
    \<Rightarrow> 'e ev \<Rightarrow> ((efi_status \<times> nat option) \<times> 'e ev) option" where
  "CoreCreateEvent env restore Type Tpl Function Context EventIsNull s =
     CoreCreateEventEx env restore Type Tpl Function Context None EventIsNull s"

definition CoreInitializeTimer :: "'e ev_env \<Rightarrow> 'e restore \<Rightarrow> 'e ev \<Rightarrow> 'e ev option" where
  "CoreInitializeTimer env restore s = do {
     ((Status, e), s) \<leftarrow> CoreCreateEventInternal env restore EVT_NOTIFY_SIGNAL (TPL_HIGH_LEVEL - 1)
                           (Some CheckTimers) 0 None False s;
     ASSERT (\<not> EFI_ERROR Status);
     case e of None \<Rightarrow> None | Some e \<Rightarrow> Some (s\<lparr>mEfiCheckTimerEvent := e\<rparr>)
   }"

text \<open>\<open>CoreCreateEventEx\<close> stores the event through the pointer it is given only when it succeeds.\<close>

definition CoreInitializeEventServices :: "'e ev_env \<Rightarrow> 'e restore \<Rightarrow> 'e ev \<Rightarrow> (efi_status \<times> 'e ev) option" where
  "CoreInitializeEventServices env restore s = do {
     let s = s\<lparr>gEventQueue := (\<lambda>Index. if Index \<le> TPL_HIGH_LEVEL then [] else gEventQueue s Index)\<rparr>;
     s \<leftarrow> CoreInitializeTimer env restore s;
     ((_, e), s) \<leftarrow> CoreCreateEventEx env restore EVT_NOTIFY_SIGNAL TPL_NOTIFY (Some EmptyCallback) 0
                      (Some gIdleLoopEventGuid) False s;
     Some (EFI_SUCCESS, case e of None \<Rightarrow> s | Some e \<Rightarrow> s\<lparr>gIdleLoopEvent := e\<rparr>)
   }"

text \<open>One pass of \<open>CoreWaitForEvent\<close> over the events: the status and the index it returns, or none
  when no event is ready.\<close>

fun check_events :: "'e restore \<Rightarrow> nat \<Rightarrow> nat list \<Rightarrow> 'e ev \<Rightarrow> ((efi_status \<times> nat) option \<times> 'e ev) option" where
  "check_events restore Index [] s = Some (None, s)"
| "check_events restore Index (e # UserEvents) s = do {
     (Status, s) \<leftarrow> CoreCheckEvent restore e s;
     if Status \<noteq> EFI_NOT_READY then Some (Some (Status, Index), s)
     else check_events restore (Index + 1) UserEvents s
   }"

text \<open>\<open>None\<close> for the array is \<open>UserEvents == NULL\<close>; the number bounds the passes of the loop,
  which waits for ever for an event that nobody signals.\<close>

primrec wait_loop :: "'e restore \<Rightarrow> nat list \<Rightarrow> nat \<Rightarrow> 'e ev \<Rightarrow> ((efi_status \<times> nat) \<times> 'e ev) option" where
  "wait_loop restore UserEvents 0 s = None"
| "wait_loop restore UserEvents (Suc n) s = do {
     (r, s) \<leftarrow> check_events restore 0 UserEvents s;
     case r of Some r \<Rightarrow> Some (r, s)
     | None \<Rightarrow> do {
         (_, s) \<leftarrow> CoreSignalEvent restore (gIdleLoopEvent s) s;
         wait_loop restore UserEvents n s
       }
   }"

definition CoreWaitForEvent ::
  "'e restore \<Rightarrow> nat \<Rightarrow> nat list option \<Rightarrow> 'e ev \<Rightarrow> ((efi_status \<times> nat option) \<times> 'e ev) option" where
  "CoreWaitForEvent restore n UserEvents s =
     (if gEfiCurrentTpl s \<noteq> TPL_APPLICATION then Some ((EFI_UNSUPPORTED, None), s)
      else if UserEvents = Some [] then Some ((EFI_INVALID_PARAMETER, None), s)
      else case UserEvents of None \<Rightarrow> Some ((EFI_INVALID_PARAMETER, None), s)
      | Some es \<Rightarrow> do { ((Status, Index), s) \<leftarrow> wait_loop restore es n s; Some ((Status, Some Index), s) })"

definition CoreCloseEvent :: "'e ev_env \<Rightarrow> 'e restore \<Rightarrow> nat \<Rightarrow> 'e ev \<Rightarrow> (efi_status \<times> 'e ev) option" where
  "CoreCloseEvent env restore UserEvent s =
     (if UserEvent = 0 then Some (EFI_INVALID_PARAMETER, s)
      else case ievents s UserEvent of None \<Rightarrow> Some (EFI_INVALID_PARAMETER, s)
      | Some ev \<Rightarrow> do {
          s \<leftarrow> (if EventType ev AND EVT_TIMER \<noteq> 0 then do {
                  (_, s) \<leftarrow> CoreSetTimer env restore UserEvent TimerCancel 0 s; Some s
                } else Some s);
          s \<leftarrow> CoreAcquireEventLock s;
          ev \<leftarrow> ievents s UserEvent;
          rl \<leftarrow> (if OnRuntimeList ev then unlink UserEvent (RuntimeEventHead s) else Some (RuntimeEventHead s));
          nq \<leftarrow> (if OnNotifyQueue ev then unlink UserEvent (gEventQueue s (NotifyTpl ev))
                 else Some (gEventQueue s (NotifyTpl ev)));
          sq \<leftarrow> (if OnSignalList ev then unlink UserEvent (gEventSignalQueue s) else Some (gEventSignalQueue s));
          s \<leftarrow> CoreReleaseEventLock restore
            (s\<lparr>RuntimeEventHead := rl, gEventQueue := (gEventQueue s)(NotifyTpl ev := nq), gEventSignalQueue := sq\<rparr>);
          Some (EFI_SUCCESS, s\<lparr>outside := CoreUnregisterProtocolNotify env UserEvent (outside s),
                              ievents := (ievents s)(UserEvent := None)\<rparr>)
        })"

section \<open>Dispatching\<close>

definition call_notify :: "'e ev_env \<Rightarrow> 'e restore \<Rightarrow> nat \<Rightarrow> nat \<Rightarrow> 'e ev \<Rightarrow> 'e ev option" where
  "call_notify env restore n e s = do {
     ev \<leftarrow> ievents s e;
     case NotifyFunction ev of
       None \<Rightarrow> None
     | Some CheckTimers \<Rightarrow> CoreCheckTimers restore n s
     | Some EmptyCallback \<Rightarrow> Some s
     | Some (Client f) \<Rightarrow> CallClient env f e (NotifyContext ev) s
   }"

text \<open>The head of a queue is taken off before its function is called.\<close>

definition take_head :: "nat \<Rightarrow> nat \<Rightarrow> 'e ev \<Rightarrow> 'e ev option" where
  "take_head Priority e s = do {
     ev \<leftarrow> ievents s e;
     let ev = ev\<lparr>OnNotifyQueue := False\<rparr>;
     let ev = (if EventType ev AND EVT_NOTIFY_SIGNAL \<noteq> 0 then ev\<lparr>SignalCount := 0\<rparr> else ev);
     Some ((put_event e ev s)\<lparr>gEventQueue := (gEventQueue s)(Priority := tl (gEventQueue s Priority))\<rparr>)
   }"

fun notify_loop :: "'e ev_env \<Rightarrow> 'e restore \<Rightarrow> nat \<Rightarrow> nat \<Rightarrow> nat \<Rightarrow> 'e ev \<Rightarrow> 'e ev option" where
  "notify_loop env restore m Priority n s =
     (case gEventQueue s Priority of
        [] \<Rightarrow> Some s
      | e # _ \<Rightarrow> (case n of 0 \<Rightarrow> None
        | Suc n \<Rightarrow> do {
            s \<leftarrow> take_head Priority e s;
            s \<leftarrow> CoreReleaseEventLock restore s;
            s \<leftarrow> call_notify env restore m e s;
            s \<leftarrow> CoreAcquireEventLock s;
            notify_loop env restore m Priority n s
          }))"

declare notify_loop.simps [simp del]

definition CoreDispatchEventNotifies :: "'e ev_env \<Rightarrow> 'e restore \<Rightarrow> nat \<Rightarrow> nat \<Rightarrow> 'e ev \<Rightarrow> 'e ev option" where
  "CoreDispatchEventNotifies env restore n Priority s = do {
     s \<leftarrow> CoreAcquireEventLock s;
     ASSERT (OwnerTpl (lock_of s gEventQueueLock) = Priority);
     s \<leftarrow> notify_loop env restore n Priority n s;
     CoreReleaseEventLock restore (s\<lparr>gEventPending := gEventPending s AND NOT (queue_bit Priority)\<rparr>)
   }"

text \<open>The \<open>while\<close> loop of \<open>CoreRestoreTpl\<close>.\<close>

fun pending_loop :: "('e restore) \<Rightarrow> nat \<Rightarrow> nat \<Rightarrow> 'e ev \<Rightarrow> 'e ev option" where
  "pending_loop dispatch NewTpl n s =
     (if above_mask NewTpl AND gEventPending s = 0 then Some s
      else case n of 0 \<Rightarrow> None
      | Suc n \<Rightarrow> do {
          let p = nat (HighBitSet64 (gEventPending s));
          let s = s\<lparr>gEfiCurrentTpl := p\<rparr>;
          let s = (if p < TPL_HIGH_LEVEL then CoreSetInterruptState True s else s);
          s \<leftarrow> dispatch p s;
          pending_loop dispatch NewTpl n s
        })"

declare pending_loop.simps [simp del]

definition lower_tpl :: "'e ev_env \<Rightarrow> 'e restore \<Rightarrow> nat \<Rightarrow> nat \<Rightarrow> 'e ev \<Rightarrow> 'e ev option" where
  "lower_tpl env restore n NewTpl s = do {
     let OldTpl = gEfiCurrentTpl s;
     ASSERT (NewTpl \<le> OldTpl);
     ASSERT (NewTpl \<le> TPL_HIGH_LEVEL);
     let s = (if OldTpl \<ge> TPL_HIGH_LEVEL \<and> NewTpl < TPL_HIGH_LEVEL then s\<lparr>gEfiCurrentTpl := TPL_HIGH_LEVEL\<rparr> else s);
     s \<leftarrow> pending_loop (CoreDispatchEventNotifies env restore n) NewTpl n s;
     let s = s\<lparr>gEfiCurrentTpl := NewTpl\<rparr>;
     Some (if NewTpl < TPL_HIGH_LEVEL then CoreSetInterruptState True s else s)
   }"

primrec CoreRestoreTpl :: "'e ev_env \<Rightarrow> nat \<Rightarrow> 'e restore" where
  "CoreRestoreTpl env 0 = (\<lambda>NewTpl s. None)"
| "CoreRestoreTpl env (Suc n) = lower_tpl env (CoreRestoreTpl env n) n"


end
