(* ===== verification/EventRun.thy ===== *)
theory EventRun
  imports Events
begin

text \<open>
  What the event services do: the order in which lowering the task priority runs the pending
  notifications, signalling, and the timer database.
\<close>

section \<open>The pending mask\<close>

lemma bit_queue_bit: "p < 31 \<Longrightarrow> bit (queue_bit p) j \<longleftrightarrow> j = p"
  by (auto simp: queue_bit_def bit_simps bit_1_iff)

lemma bit_above_mask: "t \<le> 31 \<Longrightarrow> j < 32 \<Longrightarrow> bit (above_mask t) j \<longleftrightarrow> t < j"
  by (auto simp: above_mask_def bit_simps bit_minus_2_iff)

definition pending_ok :: "'e ev \<Rightarrow> bool" where
  "pending_ok s \<longleftrightarrow> (\<forall>j\<ge>31. \<not> bit (gEventPending s) j) \<and> (\<forall>p. gEventQueue s p \<noteq> [] \<longrightarrow> bit (gEventPending s) p)"

definition calm_above :: "nat \<Rightarrow> 'e ev \<Rightarrow> bool" where
  "calm_above t s \<longleftrightarrow> (\<forall>j>t. \<not> bit (gEventPending s) j)"

lemma above_mask_zero:
  assumes "t \<le> 31" "\<forall>j\<ge>31. \<not> bit (P :: u64) j"
  shows "above_mask t AND P = 0 \<longleftrightarrow> (\<forall>j>t. \<not> bit P j)"
proof
  assume z: "above_mask t AND P = 0"
  show "\<forall>j>t. \<not> bit P j"
  proof (intro allI impI)
    fix j assume "t < j"
    then show "\<not> bit P j"
      using arg_cong [OF z, of "\<lambda>w. bit w j"] assms bit_above_mask [of t j] by (cases "j < 31") (auto simp: bit_simps)
  qed
next
  assume "\<forall>j>t. \<not> bit P j"
  then show "above_mask t AND P = 0"
  proof (intro bit_word_eqI)
    fix j
    show "bit (above_mask t AND P) j = bit 0 j"
      using \<open>\<forall>j>t. \<not> bit P j\<close> assms bit_above_mask [of t j]
      by (cases "j < 31"; cases "t < j") (simp_all add: bit_and_iff)
  qed
qed

lemma HighBitSet64_top:
  assumes "P \<noteq> 0"
  shows "\<exists>r. HighBitSet64 P = int r \<and> bit P r \<and> (\<forall>j>r. \<not> bit P j)"
proof -
  from HighBitSet64_floor_log [OF assms] obtain r where "HighBitSet64 P = int r" "floor_log (unat P) r" by auto
  then show ?thesis using floor_log_bits by blast
qed

section \<open>Nothing to dispatch\<close>

text \<open>The state after the priority has been set to \<open>t\<close>.\<close>

definition settle :: "nat \<Rightarrow> 'e ev \<Rightarrow> 'e ev" where
  "settle t s = (let s = s\<lparr>gEfiCurrentTpl := t\<rparr> in if t < TPL_HIGH_LEVEL then CoreSetInterruptState True s else s)"

lemma set_interrupt_fields [simp]:
  "gEfiCurrentTpl (CoreSetInterruptState b s) = gEfiCurrentTpl s"
  "lock_of (CoreSetInterruptState b s) = lock_of s"
  "gEventQueue (CoreSetInterruptState b s) = gEventQueue s"
  "gEventPending (CoreSetInterruptState b s) = gEventPending s"
  "gEventSignalQueue (CoreSetInterruptState b s) = gEventSignalQueue s"
  "ievents (CoreSetInterruptState b s) = ievents s"
  "RuntimeEventHead (CoreSetInterruptState b s) = RuntimeEventHead s"
  "mEfiTimerList (CoreSetInterruptState b s) = mEfiTimerList s"
  "mEfiSystemTime (CoreSetInterruptState b s) = mEfiSystemTime s"
  "mEfiCheckTimerEvent (CoreSetInterruptState b s) = mEfiCheckTimerEvent s"
  "gIdleLoopEvent (CoreSetInterruptState b s) = gIdleLoopEvent s"
  "outside (CoreSetInterruptState b s) = outside s"
  by (auto simp: CoreSetInterruptState_def split: option.splits)

lemma settle_fields [simp]:
  "gEfiCurrentTpl (settle t s) = t" "lock_of (settle t s) = lock_of s"
  "gEventQueue (settle t s) = gEventQueue s" "gEventPending (settle t s) = gEventPending s"
  "gEventSignalQueue (settle t s) = gEventSignalQueue s" "ievents (settle t s) = ievents s"
  "RuntimeEventHead (settle t s) = RuntimeEventHead s" "mEfiTimerList (settle t s) = mEfiTimerList s"
  "mEfiSystemTime (settle t s) = mEfiSystemTime s" "mEfiCheckTimerEvent (settle t s) = mEfiCheckTimerEvent s"
  "gIdleLoopEvent (settle t s) = gIdleLoopEvent s" "outside (settle t s) = outside s"
  by (simp_all add: settle_def Let_def)

lemma restore_calm:
  assumes "t \<le> gEfiCurrentTpl s" "t \<le> 31" "pending_ok s" "calm_above t s"
  shows "CoreRestoreTpl env (Suc n) t s = Some (settle t s)"
proof -
  have "above_mask t AND gEventPending s = 0"
    using above_mask_zero [of t "gEventPending s"] assms by (simp add: pending_ok_def calm_above_def)
  then have loop: "pending_loop d t n s' = Some s'" if "gEventPending s' = gEventPending s" for d s'
    using that by (simp add: pending_loop.simps)
  show ?thesis using assms(1,2) loop [of s] loop [of "s\<lparr>gEfiCurrentTpl := 31\<rparr>"]
    by (auto simp: CoreRestoreTpl.simps(2) lower_tpl_def settle_def Let_def)
qed

declare CoreRestoreTpl.simps(2) [simp del]

text \<open>The lock table: every lock has its level, and the given one is the only one held.\<close>

definition locks_ok :: "lock_id set \<Rightarrow> 'e ev \<Rightarrow> bool" where
  "locks_ok H s \<longleftrightarrow> LockTpl (lock_of s gEventQueueLock) = 31 \<and> LockTpl (lock_of s mEfiTimerLock) = 30 \<and>
     LockTpl (lock_of s mEfiSystemTimeLock) = 31 \<and> (\<forall>l. Acquired (lock_of s l) \<longleftrightarrow> l \<in> H)"

text \<open>The state with a lock taken: only the priority, the interrupt flag and the lock change.\<close>

definition taken :: "lock_id \<Rightarrow> 'e ev \<Rightarrow> 'e ev" where
  "taken l s = own_lock l (gEfiCurrentTpl s) (snd (the (CoreRaiseTpl (LockTpl (lock_of s l)) s)))"

lemma acquire_taken:
  assumes "locks_ok H s" "l \<notin> H" "gEfiCurrentTpl s \<le> LockTpl (lock_of s l)"
  shows "CoreAcquireLock l s = Some (taken l s)"
  using assms by (cases l) (auto simp: CoreAcquireLock_def taken_def CoreRaiseTpl_def locks_ok_def Let_def)

lemma taken_fields [simp]:
  assumes "gEfiCurrentTpl s \<le> LockTpl (lock_of s l)" "LockTpl (lock_of s l) \<le> 31"
  shows "gEfiCurrentTpl (taken l s) = LockTpl (lock_of s l)"
    "gEventQueue (taken l s) = gEventQueue s" "gEventPending (taken l s) = gEventPending s"
    "gEventSignalQueue (taken l s) = gEventSignalQueue s" "ievents (taken l s) = ievents s"
    "RuntimeEventHead (taken l s) = RuntimeEventHead s" "mEfiTimerList (taken l s) = mEfiTimerList s"
    "mEfiSystemTime (taken l s) = mEfiSystemTime s" "mEfiCheckTimerEvent (taken l s) = mEfiCheckTimerEvent s"
    "gIdleLoopEvent (taken l s) = gIdleLoopEvent s" "outside (taken l s) = outside s"
    "lock_of (taken l s) = (lock_of s)(l := (lock_of s l)\<lparr>OwnerTpl := gEfiCurrentTpl s, Acquired := True\<rparr>)"
  using assms by (simp_all add: taken_def CoreRaiseTpl_def own_lock_def Let_def)

lemma locks_ok_taken:
  "locks_ok H s \<Longrightarrow> gEfiCurrentTpl s \<le> LockTpl (lock_of s l) \<Longrightarrow> LockTpl (lock_of s l) \<le> 31 \<Longrightarrow> locks_ok (insert l H) (taken l s)"
  by (auto simp: locks_ok_def)

lemma free_lock_fields [simp]:
  "gEfiCurrentTpl (free_lock l s) = gEfiCurrentTpl s" "gEventQueue (free_lock l s) = gEventQueue s"
  "gEventPending (free_lock l s) = gEventPending s" "gEventSignalQueue (free_lock l s) = gEventSignalQueue s"
  "ievents (free_lock l s) = ievents s" "RuntimeEventHead (free_lock l s) = RuntimeEventHead s"
  "mEfiTimerList (free_lock l s) = mEfiTimerList s" "mEfiSystemTime (free_lock l s) = mEfiSystemTime s"
  "mEfiCheckTimerEvent (free_lock l s) = mEfiCheckTimerEvent s" "gIdleLoopEvent (free_lock l s) = gIdleLoopEvent s"
  "outside (free_lock l s) = outside s"
  "lock_of (free_lock l s) = (lock_of s)(l := (lock_of s l)\<lparr>Acquired := False\<rparr>)"
  by (simp_all add: free_lock_def)

lemma locks_ok_free: "locks_ok (insert l H) s \<Longrightarrow> l \<notin> H \<Longrightarrow> locks_ok H (free_lock l s)"
  by (auto simp: locks_ok_def)

text \<open>Releasing a lock with nothing pending above its owner's priority.\<close>

definition released :: "lock_id \<Rightarrow> 'e ev \<Rightarrow> 'e ev" where
  "released l s = settle (OwnerTpl (lock_of s l)) (free_lock l s)"

lemma release_calm:
  assumes "locks_ok H s" "l \<in> H" "OwnerTpl (lock_of s l) \<le> gEfiCurrentTpl s" "OwnerTpl (lock_of s l) \<le> 31"
    and "pending_ok s" "calm_above (OwnerTpl (lock_of s l)) s"
  shows "CoreReleaseLock (CoreRestoreTpl env (Suc n)) l s = Some (released l s)"
proof -
  have "CoreRestoreTpl env (Suc n) (OwnerTpl (lock_of s l)) (free_lock l s) = Some (released l s)"
    unfolding released_def using assms
    by (intro restore_calm) (auto simp: pending_ok_def calm_above_def)
  then show ?thesis using assms(1,2) by (simp add: CoreReleaseLock_def locks_ok_def)
qed

lemma released_fields [simp]:
  "gEfiCurrentTpl (released l s) = OwnerTpl (lock_of s l)" "gEventQueue (released l s) = gEventQueue s"
  "gEventPending (released l s) = gEventPending s" "gEventSignalQueue (released l s) = gEventSignalQueue s"
  "ievents (released l s) = ievents s" "RuntimeEventHead (released l s) = RuntimeEventHead s"
  "mEfiTimerList (released l s) = mEfiTimerList s" "mEfiSystemTime (released l s) = mEfiSystemTime s"
  "mEfiCheckTimerEvent (released l s) = mEfiCheckTimerEvent s" "gIdleLoopEvent (released l s) = gIdleLoopEvent s"
  "outside (released l s) = outside s"
  "lock_of (released l s) = (lock_of s)(l := (lock_of s l)\<lparr>Acquired := False\<rparr>)"
  by (simp_all add: released_def)

lemma locks_ok_released: "locks_ok (insert l H) s \<Longrightarrow> l \<notin> H \<Longrightarrow> locks_ok H (released l s)"
  by (auto simp: locks_ok_def)

section \<open>The order of the notifications\<close>

text \<open>Clients that do work of their own and call no service of the events: \<open>F\<close> is what a call of a function, for an event with a context, does outside.\<close>

definition outside_clients :: "'e ev_env \<Rightarrow> (nat \<times> nat \<times> nat \<Rightarrow> 'e \<Rightarrow> 'e) \<Rightarrow> bool" where
  "outside_clients env F \<longleftrightarrow> (\<forall>f e c s. CallClient env f e c s = Some (s\<lparr>outside := F (f, e, c) (outside s)\<rparr>))"

definition call_of :: "'e ev \<Rightarrow> nat \<Rightarrow> nat \<times> nat \<times> nat" where
  "call_of s e = (case ievents s e of
      Some ev \<Rightarrow> (case NotifyFunction ev of Some (Client f) \<Rightarrow> (f, e, NotifyContext ev) | _ \<Rightarrow> (0, e, 0))
    | None \<Rightarrow> (0, e, 0))"

definition client_event :: "'e ev \<Rightarrow> nat \<Rightarrow> bool" where
  "client_event s e \<longleftrightarrow> (\<exists>ev f. ievents s e = Some ev \<and> NotifyFunction ev = Some (Client f))"

text \<open>What dispatching leaves alone.\<close>

definition agree :: "'e ev \<Rightarrow> 'e ev \<Rightarrow> bool" where
  "agree s s' \<longleftrightarrow> (\<forall>e. map_option (\<lambda>ev. (NotifyFunction ev, NotifyContext ev)) (ievents s' e) =
                   map_option (\<lambda>ev. (NotifyFunction ev, NotifyContext ev)) (ievents s e))
     \<and> gEventSignalQueue s' = gEventSignalQueue s \<and> mEfiTimerList s' = mEfiTimerList s \<and> mEfiSystemTime s' = mEfiSystemTime s"

lemma agree_refl [simp]: "agree s s"
  by (simp add: agree_def)

lemma agree_trans: "agree a b \<Longrightarrow> agree b c \<Longrightarrow> agree a c"
  by (simp add: agree_def)

lemma agree_calls:
  assumes "agree s s'"
  shows "call_of s' = call_of s" "client_event s' = client_event s"
proof -
  have a: "map_option (\<lambda>ev. (NotifyFunction ev, NotifyContext ev)) (ievents s' e) =
      map_option (\<lambda>ev. (NotifyFunction ev, NotifyContext ev)) (ievents s e)" for e
    using assms by (simp add: agree_def)
  show "call_of s' = call_of s"
  proof
    fix e show "call_of s' e = call_of s e"
      using a [of e] by (cases "ievents s e"; cases "ievents s' e") (auto simp: call_of_def split: option.splits notify_function.splits)
  qed
  show "client_event s' = client_event s"
  proof
    fix e show "client_event s' e = client_event s e"
      using a [of e] by (cases "ievents s e"; cases "ievents s' e") (auto simp: client_event_def)
  qed
qed

text \<open>The state inside \<open>CoreDispatchEventNotifies\<close>, with the event lock held.\<close>

definition inside :: "nat \<Rightarrow> 'e ev \<Rightarrow> bool" where
  "inside p s \<longleftrightarrow> locks_ok {gEventQueueLock} s \<and> OwnerTpl (lock_of s gEventQueueLock) = p \<and>
     gEfiCurrentTpl s = 31 \<and> pending_ok s \<and> calm_above p s"

lemma inside_acquire:
  assumes "locks_ok {} s" "gEfiCurrentTpl s = p" "p \<le> 31" "pending_ok s" "calm_above p s"
  shows "CoreAcquireEventLock s = Some (taken gEventQueueLock s)" "inside p (taken gEventQueueLock s)"
    "agree s (taken gEventQueueLock s)"
proof -
  have l: "gEfiCurrentTpl s \<le> LockTpl (lock_of s gEventQueueLock)" "LockTpl (lock_of s gEventQueueLock) \<le> 31"
    using assms(1-3) by (simp_all add: locks_ok_def)
  show "CoreAcquireEventLock s = Some (taken gEventQueueLock s)" using assms(1) l by (intro acquire_taken) auto
  show "inside p (taken gEventQueueLock s)"
    using assms locks_ok_taken [OF assms(1) l] l by (simp add: inside_def pending_ok_def calm_above_def locks_ok_def)
  show "agree s (taken gEventQueueLock s)" using l by (simp add: agree_def)
qed

lemma inside_release:
  assumes "inside p s" "p \<le> 31"
  shows "CoreReleaseEventLock (CoreRestoreTpl env (Suc n)) s = Some (released gEventQueueLock s)"
    "locks_ok {} (released gEventQueueLock s)" "gEfiCurrentTpl (released gEventQueueLock s) = p"
    "pending_ok (released gEventQueueLock s)" "calm_above p (released gEventQueueLock s)"
  using assms release_calm [of "{gEventQueueLock}" s gEventQueueLock] locks_ok_released [of gEventQueueLock "{}" s]
  by (simp_all add: inside_def pending_ok_def calm_above_def)

lemma one_notification:
  assumes "inside p s" "p < 31" "gEventQueue s p = e # q" "client_event s e" "outside_clients env F"
  shows "\<exists>s'. (do { s \<leftarrow> take_head p e s; s \<leftarrow> CoreReleaseEventLock (CoreRestoreTpl env (Suc m)) s;
                   s \<leftarrow> call_notify env (CoreRestoreTpl env (Suc m)) k e s; CoreAcquireEventLock s }) = Some s' \<and>
    inside p s' \<and> gEventQueue s' = (gEventQueue s)(p := q) \<and> gEventPending s' = gEventPending s \<and>
    outside s' = F (call_of s e) (outside s) \<and> agree s s'"
proof -
  obtain ev f where ev: "ievents s e = Some ev" "NotifyFunction ev = Some (Client f)"
    using assms(4) by (auto simp: client_event_def)
  define x where "x = (if EventType ev AND EVT_NOTIFY_SIGNAL \<noteq> 0
    then ev\<lparr>OnNotifyQueue := False, SignalCount := 0\<rparr> else ev\<lparr>OnNotifyQueue := False\<rparr>)"
  define s1 where "s1 = (put_event e x s)\<lparr>gEventQueue := (gEventQueue s)(p := q)\<rparr>"
  have h: "take_head p e s = Some s1"
    using ev(1) assms(3) by (simp add: take_head_def s1_def x_def Let_def)
  have x: "NotifyFunction x = Some (Client f)" "NotifyContext x = NotifyContext ev"
    using ev by (simp_all add: x_def)
  have i1: "inside p s1" using assms(1,3)
    by (auto simp: inside_def s1_def put_event_def locks_ok_def pending_ok_def calm_above_def)
  have a1: "agree s s1" using ev x by (auto simp: agree_def s1_def put_event_def)
  define s2 where "s2 = released gEventQueueLock s1"
  have r: "CoreReleaseEventLock (CoreRestoreTpl env (Suc m)) s1 = Some s2" "locks_ok {} s2" "gEfiCurrentTpl s2 = p"
      "pending_ok s2" "calm_above p s2"
    using inside_release [OF i1] assms(2) by (simp_all add: s2_def)
  define s3 where "s3 = s2\<lparr>outside := F (call_of s e) (outside s2)\<rparr>"
  have c: "call_notify env (CoreRestoreTpl env (Suc m)) k e s2 = Some s3"
    using assms(5) ev x by (simp add: call_notify_def s2_def s1_def put_event_def s3_def outside_clients_def call_of_def)
  have s3: "locks_ok {} s3" "gEfiCurrentTpl s3 = p" "pending_ok s3" "calm_above p s3" "agree s s3"
    using r assms(2) a1 by (simp_all add: s3_def s2_def locks_ok_def pending_ok_def calm_above_def agree_def)
  note t = inside_acquire [OF s3(1,2) _ s3(3,4)]
  have l: "gEfiCurrentTpl s3 \<le> LockTpl (lock_of s3 gEventQueueLock)" "LockTpl (lock_of s3 gEventQueueLock) \<le> 31"
    using s3(1,2) assms(2) by (simp_all add: locks_ok_def)
  show ?thesis using h r(1) c t assms(2) agree_trans [OF s3(5)] l
    by (intro exI [of _ "taken gEventQueueLock s3"])
      (simp add: s3_def [THEN arg_cong, of gEventQueue] s3_def [THEN arg_cong, of gEventPending]
        s3_def [THEN arg_cong, of outside] s2_def s1_def put_event_def)
qed

lemma notify_loop_runs:
  assumes "inside p s" "p < 31" "outside_clients env F" "\<forall>e\<in>set (gEventQueue s p). client_event s e"
    and "length (gEventQueue s p) \<le> n"
  shows "\<exists>s'. notify_loop env (CoreRestoreTpl env (Suc m)) k p n s = Some s' \<and>
    inside p s' \<and> gEventQueue s' = (gEventQueue s)(p := []) \<and> gEventPending s' = gEventPending s \<and>
    outside s' = fold F (map (call_of s) (gEventQueue s p)) (outside s) \<and> agree s s'"
  using assms
proof (induction "gEventQueue s p" arbitrary: s n)
  case Nil
  then show ?case by (intro exI [of _ s]) (simp add: notify_loop.simps, metis fun_upd_triv)
next
  case (Cons e q)
  obtain n' where n: "n = Suc n'" using Cons.prems(5) Cons.hyps(2) [symmetric] by (cases n) auto
  have "client_event s e" using Cons.prems(4) Cons.hyps(2) [symmetric] by simp
  from one_notification [OF Cons.prems(1,2) Cons.hyps(2) [symmetric] this Cons.prems(3), of m k] obtain s1 where
    s1: "(do { s \<leftarrow> take_head p e s; s \<leftarrow> CoreReleaseEventLock (CoreRestoreTpl env (Suc m)) s;
              s \<leftarrow> call_notify env (CoreRestoreTpl env (Suc m)) k e s; CoreAcquireEventLock s }) = Some s1"
      "inside p s1" "gEventQueue s1 = (gEventQueue s)(p := q)" "gEventPending s1 = gEventPending s"
      "outside s1 = F (call_of s e) (outside s)" "agree s s1" by blast
  have "\<forall>e\<in>set (gEventQueue s1 p). client_event s1 e" "length (gEventQueue s1 p) \<le> n'"
    using Cons.prems(4,5) Cons.hyps(2) [symmetric] agree_calls(2) [OF s1(6)] n by (simp_all add: s1(3))
  with Cons.hyps(1) [of s1 n'] s1(2,3) Cons.prems(2,3) obtain s2 where
    s2: "notify_loop env (CoreRestoreTpl env (Suc m)) k p n' s1 = Some s2" "inside p s2"
      "gEventQueue s2 = (gEventQueue s1)(p := [])" "gEventPending s2 = gEventPending s1"
      "outside s2 = fold F (map (call_of s1) (gEventQueue s1 p)) (outside s1)" "agree s1 s2" by auto
  have "notify_loop env (CoreRestoreTpl env (Suc m)) k p n s = Some s2"
    using s1(1) s2(1) Cons.hyps(2) [symmetric] unfolding n by (subst notify_loop.simps) auto
  then show ?case
    using s1 s2 agree_trans [OF s1(6) s2(6)] agree_calls(1) [OF s1(6)] Cons.hyps(2) [symmetric] by auto
qed

lemma bit_clear: "p < 31 \<Longrightarrow> bit (P AND NOT (queue_bit p)) j \<longleftrightarrow> bit P j \<and> j \<noteq> p"
  using bit_imp_le_length [of P j] by (auto simp: bit_simps bit_queue_bit)

lemma dispatch_one_queue:
  assumes "locks_ok {} s" "gEfiCurrentTpl s = p" "p < 31" "pending_ok s" "calm_above p s"
    and "outside_clients env F" "\<forall>e\<in>set (gEventQueue s p). client_event s e" "length (gEventQueue s p) \<le> n"
  shows "\<exists>s'. CoreDispatchEventNotifies env (CoreRestoreTpl env (Suc m)) n p s = Some s' \<and>
    locks_ok {} s' \<and> pending_ok s' \<and> (\<forall>j. bit (gEventPending s') j \<longleftrightarrow> bit (gEventPending s) j \<and> j \<noteq> p) \<and>
    gEventQueue s' = (gEventQueue s)(p := []) \<and>
    outside s' = fold F (map (call_of s) (gEventQueue s p)) (outside s) \<and> agree s s'"
proof -
  let ?s1 = "taken gEventQueueLock s"
  note t = inside_acquire [OF assms(1,2) _ assms(4,5)]
  have l: "gEfiCurrentTpl s \<le> LockTpl (lock_of s gEventQueueLock)" "LockTpl (lock_of s gEventQueueLock) \<le> 31"
    using assms(1-3) by (simp_all add: locks_ok_def)
  have i: "inside p ?s1" "agree s ?s1" using t assms(3) by auto
  obtain s2 where s2: "notify_loop env (CoreRestoreTpl env (Suc m)) n p n ?s1 = Some s2" "inside p s2"
      "gEventQueue s2 = (gEventQueue s)(p := [])" "gEventPending s2 = gEventPending s"
      "outside s2 = fold F (map (call_of s) (gEventQueue s p)) (outside s)" "agree ?s1 s2"
    using notify_loop_runs [OF i(1) assms(3,6), of n m n] assms(7,8) agree_calls [OF i(2)] l by auto
  let ?s3 = "s2\<lparr>gEventPending := gEventPending s2 AND NOT (queue_bit p)\<rparr>"
  have i3: "inside p ?s3"
    using s2(2,3) assms(3) by (auto simp: inside_def locks_ok_def pending_ok_def calm_above_def bit_clear)
  note r = inside_release [OF i3]
  have "CoreDispatchEventNotifies env (CoreRestoreTpl env (Suc m)) n p s = Some (released gEventQueueLock ?s3)"
    using t(1) i(1) s2(1) r(1) assms(3) by (simp add: CoreDispatchEventNotifies_def inside_def)
  moreover have "agree s (released gEventQueueLock ?s3)"
    using agree_trans [OF i(2) s2(6)] by (simp add: agree_def)
  ultimately show ?thesis using r assms(3) s2 by (simp add: bit_clear)
qed

lemma calm_above_less:
  "calm_above (Suc r) s \<Longrightarrow> \<not> bit (gEventPending s) (Suc r) \<Longrightarrow> calm_above r s"
  unfolding calm_above_def by (metis Suc_lessI)

lemma pending_loop_runs:
  assumes "locks_ok {} s" "pending_ok s" "calm_above r s" "t \<le> r" "r < 31" "r - t \<le> n"
    and "outside_clients env F" "\<forall>p>t. (\<forall>e\<in>set (gEventQueue s p). client_event s e) \<and> length (gEventQueue s p) \<le> k"
  shows "\<exists>s'. pending_loop (CoreDispatchEventNotifies env (CoreRestoreTpl env (Suc m)) k) t n s = Some s' \<and>
    locks_ok {} s' \<and> pending_ok s' \<and> (\<forall>j. bit (gEventPending s') j \<longleftrightarrow> bit (gEventPending s) j \<and> j \<le> t) \<and>
    gEventQueue s' = (\<lambda>p. if p \<le> t then gEventQueue s p else []) \<and>
    outside s' = fold F (map (call_of s) (concat (map (gEventQueue s) (rev [Suc t..<Suc r])))) (outside s) \<and> agree s s'"
  using assms
proof (induction "r - t" arbitrary: r s n)
  case 0
  then have "r = t" by simp
  then have "above_mask t AND gEventPending s = 0"
    using 0 above_mask_zero [of t "gEventPending s"] by (simp add: pending_ok_def calm_above_def)
  moreover have "gEventQueue s p = []" "\<not> bit (gEventPending s) p" if "\<not> p \<le> t" for p
    using 0 that \<open>r = t\<close> by (auto simp: pending_ok_def calm_above_def)
  ultimately show ?case
    using 0 \<open>r = t\<close> by (intro exI [of _ s]) (auto simp: pending_loop.simps)
next
  case (Suc d)
  let ?d = "CoreDispatchEventNotifies env (CoreRestoreTpl env (Suc m)) k"
  obtain r' where r': "r = Suc r'" "t \<le> r'" "d = r' - t" using Suc.hyps(2) by (cases r) auto
  have queues: "concat (map Q (rev [Suc t..<Suc r])) = Q r @ concat (map Q (rev [Suc t..<Suc r']))" for Q :: "nat \<Rightarrow> nat list"
    using r'(1,2) by simp
  show ?case
  proof (cases "bit (gEventPending s) r")
    case False
    then have c: "calm_above r' s" "gEventQueue s r = []"
      using Suc.prems(2,3) r'(1) by (auto simp: pending_ok_def intro: calm_above_less)
    have "r' < 31" "r' - t \<le> n" using Suc.prems(5,6) r'(1) by auto
    from Suc.hyps(1) [OF r'(3) Suc.prems(1,2) c(1) r'(2) this Suc.prems(7,8)] show ?thesis
      using c(2) by (simp add: queues del: upt_Suc)
  next
    case True
    then have "gEventPending s \<noteq> 0" by auto
    from HighBitSet64_top [OF this] obtain h where h: "HighBitSet64 (gEventPending s) = int h" "bit (gEventPending s) h" "\<forall>j>h. \<not> bit (gEventPending s) j"
      by auto
    then have "h = r" using True Suc.prems(3) unfolding calm_above_def by (metis linorder_neqE_nat)
    have nz: "above_mask t AND gEventPending s \<noteq> 0"
      using above_mask_zero [of t "gEventPending s"] True Suc.prems(2,4,5) r' by (auto simp: pending_ok_def)
    obtain n' where n: "n = Suc n'" using Suc.prems(6) r' by (cases n) auto
    define s0 where "s0 = CoreSetInterruptState True (s\<lparr>gEfiCurrentTpl := r\<rparr>)"
    have s0: "locks_ok {} s0" "gEfiCurrentTpl s0 = r" "pending_ok s0" "calm_above r s0" "agree s s0"
        "gEventQueue s0 = gEventQueue s" "outside s0 = outside s" "gEventPending s0 = gEventPending s"
      using Suc.prems(1-3) by (simp_all add: s0_def locks_ok_def pending_ok_def calm_above_def agree_def)
    have "t < r" using r'(1,2) by simp
    then have q0: "\<forall>e\<in>set (gEventQueue s0 r). client_event s0 e" "length (gEventQueue s0 r) \<le> k"
      using Suc.prems(8) by (simp_all add: s0(6) agree_calls(2) [OF s0(5)])
    obtain s1 where s1: "?d r s0 = Some s1" "locks_ok {} s1" "pending_ok s1"
        "\<forall>j. bit (gEventPending s1) j \<longleftrightarrow> bit (gEventPending s) j \<and> j \<noteq> r"
        "gEventQueue s1 = (gEventQueue s)(r := [])"
        "outside s1 = fold F (map (call_of s) (gEventQueue s r)) (outside s)" "agree s s1"
      using dispatch_one_queue [OF s0(1,2) Suc.prems(5) s0(3,4) Suc.prems(7) q0, of m]
        agree_calls [OF s0(5)] agree_trans [OF s0(5)] by (auto simp: s0(6-8))
    have c1: "calm_above r' s1" using s1(4) Suc.prems(3) r'(1) by (auto simp: calm_above_def le_less Suc_le_eq)
    have q1: "\<forall>p>t. (\<forall>e\<in>set (gEventQueue s1 p). client_event s1 e) \<and> length (gEventQueue s1 p) \<le> k"
      using Suc.prems(8) by (simp add: s1(5) agree_calls(2) [OF s1(7)])
    have e: "concat (map (gEventQueue s1) (rev [Suc t..<Suc r'])) = concat (map (gEventQueue s) (rev [Suc t..<Suc r']))"
      using r'(1) by (intro arg_cong [of _ _ concat] map_cong) (auto simp: s1(5))
    have le: "r' < 31" "r' - t \<le> n'" using Suc.prems(5,6) r'(1) n by auto
    obtain s2 where s2: "pending_loop ?d t n' s1 = Some s2" "locks_ok {} s2" "pending_ok s2"
        "\<forall>j. bit (gEventPending s2) j \<longleftrightarrow> bit (gEventPending s1) j \<and> j \<le> t"
        "gEventQueue s2 = (\<lambda>p. if p \<le> t then gEventQueue s1 p else [])"
        "outside s2 = fold F (map (call_of s1) (concat (map (gEventQueue s1) (rev [Suc t..<Suc r'])))) (outside s1)" "agree s1 s2"
      using Suc.hyps(1) [OF r'(3) s1(2,3) c1 r'(2) le Suc.prems(7) q1] by auto
    have "pending_loop ?d t n s = Some s2"
      unfolding n using nz h(1) \<open>h = r\<close> s1(1) s2(1) Suc.prems(5)
      by (subst pending_loop.simps) (simp add: Let_def s0_def)
    then show ?thesis
      using s2 s1(4-6) agree_calls(1) [OF s1(7)] agree_trans [OF s1(7) s2(7)] r'(1,2)
      by (simp add: queues e del: upt_Suc) (auto simp: fun_eq_iff)
  qed
qed

text \<open>C4. Lowering the priority runs the notifications that wait above the new level, and only those: the queues from the highest priority down, each queue in
  the order its events were signalled, every event once.  It terminates, leaves these queues empty and the queues at or below the new level
  untouched, and returns at the new priority.  This is for notification functions of clients that call no event service themselves (whatever else they do):
  one that signals further events may have those run as well.  The state is consistent and no event lock is held, and the nesting of the calls (the fuel)
  is above the highest priority and the length of each of the queues.\<close>

theorem RestoreTpl_dispatch_order:
  assumes "locks_ok {} s" "pending_ok s" "NewTpl \<le> gEfiCurrentTpl s" "NewTpl \<le> TPL_HIGH_LEVEL" "outside_clients env F"
    and "\<forall>p>NewTpl. (\<forall>e\<in>set (gEventQueue s p). client_event s e) \<and> length (gEventQueue s p) < fuel"
    and "TPL_HIGH_LEVEL < fuel"
  shows "\<exists>s'. CoreRestoreTpl env fuel NewTpl s = Some s' \<and> gEfiCurrentTpl s' = NewTpl \<and>
    outside s' = fold F (map (call_of s) (concat (map (gEventQueue s) (rev [Suc NewTpl..<TPL_HIGH_LEVEL])))) (outside s) \<and>
    gEventQueue s' = (\<lambda>p. if p \<le> NewTpl then gEventQueue s p else [])"
proof (cases "NewTpl = 31")
  case True
  have "gEventQueue s p = []" if "\<not> p \<le> 31" for p using assms(2) that by (auto simp: pending_ok_def)
  moreover have "calm_above 31 s" using assms(2) by (simp add: pending_ok_def calm_above_def)
  moreover obtain n where "fuel = Suc n" using assms(7) by (cases fuel) auto
  ultimately show ?thesis using restore_calm [of 31 s env n] assms(2,3) True by (auto simp: fun_eq_iff)
next
  case False
  obtain m where fuel: "fuel = Suc (Suc m)" using assms(7) by (cases fuel; cases "fuel - 1") auto
  define s0 where "s0 = (if gEfiCurrentTpl s \<ge> TPL_HIGH_LEVEL \<and> NewTpl < TPL_HIGH_LEVEL
    then s\<lparr>gEfiCurrentTpl := TPL_HIGH_LEVEL\<rparr> else s)"
  have s0: "locks_ok {} s0" "pending_ok s0" "calm_above 30 s0" "agree s s0" "gEventQueue s0 = gEventQueue s" "outside s0 = outside s"
    using assms(1,2) by (auto simp: s0_def locks_ok_def pending_ok_def calm_above_def agree_def)
  have le: "NewTpl \<le> 30" "30 - NewTpl \<le> Suc m" "(30::nat) < 31" using assms(4,7) False fuel by auto
  obtain s1 where "pending_loop (CoreDispatchEventNotifies env (CoreRestoreTpl env (Suc m)) (Suc m)) NewTpl (Suc m) s0 = Some s1"
      "gEventQueue s1 = (\<lambda>p. if p \<le> NewTpl then gEventQueue s p else [])"
      "outside s1 = fold F (map (call_of s) (concat (map (gEventQueue s) (rev [Suc NewTpl..<TPL_HIGH_LEVEL])))) (outside s)"
    using pending_loop_runs [OF s0(1-3) le(1,3,2) assms(5), of "Suc m" m] assms(6) fuel
      agree_calls [OF s0(4)] by (auto simp: less_Suc_eq_le s0(5,6) cong: if_cong)
  then have "CoreRestoreTpl env fuel NewTpl s = Some (settle NewTpl s1) \<and> gEventQueue s1 = (\<lambda>p. if p \<le> NewTpl then gEventQueue s p else [])
      \<and> outside s1 = fold F (map (call_of s) (concat (map (gEventQueue s) (rev [Suc NewTpl..<TPL_HIGH_LEVEL])))) (outside s)"
    using assms(3,4) unfolding fuel CoreRestoreTpl.simps(2) [of env "Suc m"] s0_def by (simp add: lower_tpl_def settle_def Let_def)
  then show ?thesis by auto
qed

section \<open>Signalling an event group\<close>

definition queues_ok :: "'e ev \<Rightarrow> bool" where
  "queues_ok s \<longleftrightarrow> (\<forall>p. distinct (gEventQueue s p) \<and>
     (\<forall>e. e \<in> set (gEventQueue s p) \<longleftrightarrow> (\<exists>ev. ievents s e = Some ev \<and> OnNotifyQueue ev \<and> NotifyTpl ev = p)))"

text \<open>The state after an event has been queued: it is at the tail of its queue.\<close>

definition queued :: "nat \<Rightarrow> ievent \<Rightarrow> 'e ev \<Rightarrow> 'e ev" where
  "queued e ev s = (put_event e (ev\<lparr>OnNotifyQueue := True\<rparr>) s)
     \<lparr>gEventQueue := (gEventQueue s)(NotifyTpl ev := filter (\<lambda>x. x \<noteq> e) (gEventQueue s (NotifyTpl ev)) @ [e]),
      gEventPending := gEventPending s OR queue_bit (NotifyTpl ev)\<rparr>"

lemma NotifyEvent_queued:
  assumes "queues_ok s" "ievents s e = Some ev" "Acquired (lock_of s gEventQueueLock)"
  shows "CoreNotifyEvent e s = Some (queued e ev s)" "queues_ok (queued e ev s)"
proof -
  let ?q = "gEventQueue s (NotifyTpl ev)"
  have q: "distinct ?q" "e \<in> set ?q \<longleftrightarrow> OnNotifyQueue ev" using assms(1,2) by (auto simp: queues_ok_def)
  then have "remove1 e ?q = filter (\<lambda>x. x \<noteq> e) ?q" by (simp add: distinct_remove1_removeAll removeAll_filter_not_eq eq_commute)
  moreover have "filter (\<lambda>x. x \<noteq> e) ?q = ?q" if "\<not> OnNotifyQueue ev" using that q by (auto intro: filter_True)
  ultimately show "CoreNotifyEvent e s = Some (queued e ev s)"
    using q assms(2,3) by (auto simp: CoreNotifyEvent_def unlink_def link_tail_def queued_def put_event_def Let_def)
  show "queues_ok (queued e ev s)"
    using assms(1,2) by (auto simp: queues_ok_def queued_def put_event_def)
qed

definition tpl_of :: "'e ev \<Rightarrow> nat \<Rightarrow> nat" where
  "tpl_of s e = (case ievents s e of Some ev \<Rightarrow> NotifyTpl ev | None \<Rightarrow> 0)"

definition group_of :: "'e ev \<Rightarrow> nat \<Rightarrow> guid" where
  "group_of s e = (case ievents s e of Some ev \<Rightarrow> EventGroup ev | None \<Rightarrow> [])"

text \<open>The members of a group, in the order of the signal list.\<close>

definition group_members :: "guid \<Rightarrow> 'e ev \<Rightarrow> nat list" where
  "group_members g s = filter (\<lambda>e. group_of s e = g) (gEventSignalQueue s)"

definition all_queued :: "nat list \<Rightarrow> 'e ev \<Rightarrow> 'e ev \<Rightarrow> bool" where
  "all_queued es s s' \<longleftrightarrow> (\<forall>p. gEventQueue s' p =
      filter (\<lambda>x. x \<notin> set es) (gEventQueue s p) @ filter (\<lambda>x. tpl_of s x = p) es)
    \<and> (\<forall>j. bit (gEventPending s') j \<longleftrightarrow> bit (gEventPending s) j \<or> (\<exists>e\<in>set es. tpl_of s e = j))"

text \<open>Everything but the queues, the pending mask and the queue flags of the events.\<close>

definition only_queues :: "'e ev \<Rightarrow> 'e ev \<Rightarrow> bool" where
  "only_queues s s' \<longleftrightarrow> (\<exists>Q P E. s' = s\<lparr>gEventQueue := Q, gEventPending := P, ievents := E\<rparr> \<and>
     (\<forall>e. (E e = None) = (ievents s e = None)) \<and>
     (\<forall>e ev. ievents s e = Some ev \<longrightarrow> (\<exists>b. E e = Some (ev\<lparr>OnNotifyQueue := b\<rparr>))))"

lemma same_flag: "\<exists>b. ev = ev\<lparr>OnNotifyQueue := b\<rparr>"
  by (intro exI [of _ "OnNotifyQueue ev"]) simp

lemma queued_fields:
  "gEventQueue (queued e ev s) = (gEventQueue s)(NotifyTpl ev := filter (\<lambda>x. x \<noteq> e) (gEventQueue s (NotifyTpl ev)) @ [e])"
  "gEventPending (queued e ev s) = gEventPending s OR queue_bit (NotifyTpl ev)"
  "ievents (queued e ev s) = (ievents s)(e \<mapsto> ev\<lparr>OnNotifyQueue := True\<rparr>)"
  "queued e ev s = s\<lparr>gEventQueue := gEventQueue (queued e ev s), gEventPending := gEventPending (queued e ev s),
     ievents := ievents (queued e ev s)\<rparr>"
  by (simp_all add: queued_def put_event_def)

lemma only_queues_queued:
  assumes "ievents s e = Some ev"
  shows "only_queues s (queued e ev s)"
  unfolding only_queues_def
proof (intro exI conjI)
  show "queued e ev s = s\<lparr>gEventQueue := gEventQueue (queued e ev s), gEventPending := gEventPending (queued e ev s),
     ievents := ievents (queued e ev s)\<rparr>" by (rule queued_fields(4))
qed (use assms same_flag in \<open>auto simp: queued_fields(3)\<close>)

lemma only_queues_refl: "only_queues s s"
  unfolding only_queues_def
  by (intro exI [of _ "gEventQueue s"] exI [of _ "gEventPending s"] exI [of _ "ievents s"]) (use same_flag in auto)

lemma only_queues_trans:
  assumes "only_queues a b" "only_queues b c"
  shows "only_queues a c"
proof -
  obtain Q P E where b: "b = a\<lparr>gEventQueue := Q, gEventPending := P, ievents := E\<rparr>"
      "\<forall>e. (E e = None) = (ievents a e = None)"
      "\<forall>e ev. ievents a e = Some ev \<longrightarrow> (\<exists>b. E e = Some (ev\<lparr>OnNotifyQueue := b\<rparr>))"
    using assms(1) by (auto simp: only_queues_def)
  obtain Q' P' E' where c: "c = b\<lparr>gEventQueue := Q', gEventPending := P', ievents := E'\<rparr>"
      "\<forall>e. (E' e = None) = (E e = None)" "\<forall>e ev. E e = Some ev \<longrightarrow> (\<exists>b. E' e = Some (ev\<lparr>OnNotifyQueue := b\<rparr>))"
    using assms(2) b(1) by (auto simp: only_queues_def)
  have "\<exists>b. E' e = Some (ev\<lparr>OnNotifyQueue := b\<rparr>)" if "ievents a e = Some ev" for e ev
    using b(3) c(3) that by fastforce
  then show ?thesis unfolding only_queues_def
    using b(2) c(1,2) by (intro exI [of _ Q'] exI [of _ P'] exI [of _ E']) (simp add: b(1))
qed

lemma only_queues_of:
  assumes "only_queues s s'"
  shows "tpl_of s' = tpl_of s" "group_of s' = group_of s" "gEventSignalQueue s' = gEventSignalQueue s"
    "lock_of s' = lock_of s" "gEfiCurrentTpl s' = gEfiCurrentTpl s" "(ievents s' e = None) = (ievents s e = None)"
    "ievents s e = Some ev \<Longrightarrow> \<exists>b. ievents s' e = Some (ev\<lparr>OnNotifyQueue := b\<rparr>)"
proof -
  show "(ievents s' e = None) = (ievents s e = None)" for e using assms by (auto simp: only_queues_def)
  note n = this
  show x: "ievents s e = Some ev \<Longrightarrow> \<exists>b. ievents s' e = Some (ev\<lparr>OnNotifyQueue := b\<rparr>)" for e ev
    using assms by (auto simp: only_queues_def)
  have "tpl_of s' e = tpl_of s e \<and> group_of s' e = group_of s e" for e
    using n [of e] x [of e] by (cases "ievents s e"; cases "ievents s' e") (auto simp: tpl_of_def group_of_def)
  then show "tpl_of s' = tpl_of s" "group_of s' = group_of s" by auto
  show "gEventSignalQueue s' = gEventSignalQueue s" "lock_of s' = lock_of s" "gEfiCurrentTpl s' = gEfiCurrentTpl s"
    using assms by (auto simp: only_queues_def)
qed

lemma notify_group_queues:
  assumes "queues_ok s" "Acquired (lock_of s gEventQueueLock)" "distinct es"
    and "\<forall>e\<in>set es. ievents s e \<noteq> None \<and> tpl_of s e < 31"
  shows "\<exists>s'. notify_group g es s = Some s' \<and> queues_ok s' \<and> only_queues s s' \<and>
    all_queued (filter (\<lambda>e. group_of s e = g) es) s s'"
  using assms
proof (induction es arbitrary: s)
  case Nil
  then show ?case by (simp add: all_queued_def only_queues_refl)
next
  case (Cons e es)
  obtain ev where ev: "ievents s e = Some ev" using Cons.prems(4) by auto
  show ?case
  proof (cases "EventGroup ev = g")
    case False
    then show ?thesis using Cons ev by (auto simp: group_of_def)
  next
    case True
    let ?s = "queued e ev s"
    note q = NotifyEvent_queued [OF Cons.prems(1) ev Cons.prems(2)]
    note o = only_queues_queued [OF ev] and f = only_queues_of [OF only_queues_queued [OF ev]]
    obtain s' where s': "notify_group g es ?s = Some s'" "queues_ok s'" "only_queues ?s s'"
        "all_queued (filter (\<lambda>e. group_of s e = g) es) ?s s'"
      using Cons.IH [OF q(2)] Cons.prems(2-4) f by auto
    have t: "tpl_of s e = NotifyTpl ev" "tpl_of s e < 31" "group_of s e = g" "e \<notin> set es"
      using ev True Cons.prems(3,4) by (auto simp: tpl_of_def group_of_def)
    have n: "e \<notin> set (gEventQueue s p)" if "NotifyTpl ev \<noteq> p" for p
      using Cons.prems(1) ev that by (auto simp: queues_ok_def)
    have "all_queued (filter (\<lambda>e. group_of s e = g) (e # es)) s s'"
      using s'(4) t n by (auto simp: all_queued_def f(1,2) queued_fields(1,2) bit_or_iff bit_queue_bit intro!: filter_cong)
    then show ?thesis using s' q(1) ev True only_queues_trans [OF o s'(3)] by auto
  qed
qed

text \<open>What a signal leaves alone: the timers, and of an event everything but its signal count,
  which does not go back to zero, and its place in a queue.\<close>

definition plain :: "ievent \<Rightarrow> ievent" where
  "plain ev = ev\<lparr>OnNotifyQueue := False, SignalCount := 0\<rparr>"

definition same_timers :: "'e ev \<Rightarrow> 'e ev \<Rightarrow> bool" where
  "same_timers s s' \<longleftrightarrow> mEfiTimerList s' = mEfiTimerList s \<and> mEfiSystemTime s' = mEfiSystemTime s \<and>
     mEfiCheckTimerEvent s' = mEfiCheckTimerEvent s \<and> gEventSignalQueue s' = gEventSignalQueue s \<and>
     OwnerTpl (lock_of s' mEfiTimerLock) = OwnerTpl (lock_of s mEfiTimerLock) \<and>
     (\<forall>x. map_option plain (ievents s' x) = map_option plain (ievents s x)) \<and>
     (\<forall>x ev ev'. ievents s x = Some ev \<longrightarrow> ievents s' x = Some ev' \<longrightarrow> SignalCount ev \<noteq> 0 \<longrightarrow> SignalCount ev' \<noteq> 0)"

lemma same_timers_trans:
  assumes "same_timers a b" "same_timers b c"
  shows "same_timers a c"
proof -
  have "SignalCount ev' \<noteq> 0" if h: "ievents a x = Some ev" "ievents c x = Some ev'" "SignalCount ev \<noteq> 0" for x ev ev'
  proof -
    have "map_option plain (ievents b x) = map_option plain (ievents a x)" using assms(1) by (simp add: same_timers_def)
    then obtain y where "ievents b x = Some y" using h(1) by (cases "ievents b x") auto
    then show ?thesis using assms h unfolding same_timers_def by metis
  qed
  then show ?thesis using assms by (auto simp: same_timers_def)
qed

lemma only_queues_timers: "only_queues s s' \<Longrightarrow> same_timers s s'"
proof -
  assume o: "only_queues s s'"
  have "map_option plain (ievents s' x) = map_option plain (ievents s x)" for x
    using only_queues_of(6) [OF o, of x] only_queues_of(7) [OF o, of x]
    by (cases "ievents s x"; cases "ievents s' x") (auto simp: plain_def)
  moreover have "SignalCount ev' \<noteq> 0" if "ievents s x = Some ev" "ievents s' x = Some ev'" "SignalCount ev \<noteq> 0" for x ev ev'
    using only_queues_of(7) [OF o, of x ev] that by auto
  ultimately show ?thesis using o unfolding same_timers_def by (auto simp: only_queues_def)
qed

text \<open>A state in which the services are called: at a priority above which nothing waits, with no
  event lock held; \<open>H\<close> are the other locks that are.\<close>

definition at_rest :: "lock_id set \<Rightarrow> nat \<Rightarrow> 'e ev \<Rightarrow> bool" where
  "at_rest H t s \<longleftrightarrow> locks_ok H s \<and> gEventQueueLock \<notin> H \<and> gEfiCurrentTpl s = t \<and> t \<le> 31 \<and> pending_ok s \<and> calm_above t s \<and> queues_ok s"

lemma acquire_event_lock:
  assumes "locks_ok H s" "gEventQueueLock \<notin> H" "gEfiCurrentTpl s \<le> 31"
  shows "CoreAcquireEventLock s = Some (taken gEventQueueLock s)"
    "locks_ok (insert gEventQueueLock H) (taken gEventQueueLock s)" "OwnerTpl (lock_of (taken gEventQueueLock s) gEventQueueLock) = gEfiCurrentTpl s"
    "gEfiCurrentTpl (taken gEventQueueLock s) = 31" "gEventQueue (taken gEventQueueLock s) = gEventQueue s"
    "gEventPending (taken gEventQueueLock s) = gEventPending s" "gEventSignalQueue (taken gEventQueueLock s) = gEventSignalQueue s"
    "ievents (taken gEventQueueLock s) = ievents s"
proof -
  have l: "gEfiCurrentTpl s \<le> LockTpl (lock_of s gEventQueueLock)" "LockTpl (lock_of s gEventQueueLock) \<le> 31"
    "LockTpl (lock_of s gEventQueueLock) = 31" using assms by (simp_all add: locks_ok_def)
  show "CoreAcquireEventLock s = Some (taken gEventQueueLock s)" using assms(1,2) l by (intro acquire_taken) auto
  show "locks_ok (insert gEventQueueLock H) (taken gEventQueueLock s)" using locks_ok_taken [OF assms(1) l(1,2)] by simp
qed (use assms in \<open>simp_all add: locks_ok_def\<close>)

lemma release_event_lock:
  assumes "locks_ok (insert gEventQueueLock H) s" "gEventQueueLock \<notin> H" "OwnerTpl (lock_of s gEventQueueLock) = t" "gEfiCurrentTpl s = 31" "t \<le> 31"
    and "pending_ok s" "calm_above t s"
  shows "CoreReleaseEventLock (CoreRestoreTpl env (Suc n)) s = Some (released gEventQueueLock s)"
    "locks_ok H (released gEventQueueLock s)" "gEfiCurrentTpl (released gEventQueueLock s) = t"
  using assms release_calm [of "insert gEventQueueLock H" s gEventQueueLock env n] locks_ok_released [of gEventQueueLock H s] by simp_all

lemma all_queued_pending:
  assumes "all_queued es s s'" "pending_ok s" "\<forall>e\<in>set es. tpl_of s e < 31 \<and> tpl_of s e \<le> t"
  shows "pending_ok s'" "calm_above t s \<Longrightarrow> calm_above t s'"
proof -
  have "bit (gEventPending s') p" if "gEventQueue s' p \<noteq> []" for p
    using assms(1,2) that by (cases "gEventQueue s p = []") (auto simp: all_queued_def pending_ok_def filter_empty_conv)
  then show "pending_ok s'" using assms by (auto simp: all_queued_def pending_ok_def)
  show "calm_above t s \<Longrightarrow> calm_above t s'" using assms by (auto simp: all_queued_def calm_above_def)
qed

lemma NotifySignalList_queues:
  assumes "at_rest H t s" "distinct (gEventSignalQueue s)"
    and "\<forall>e\<in>set (gEventSignalQueue s). ievents s e \<noteq> None \<and> tpl_of s e < 31"
    and "\<forall>e\<in>set (group_members g s). tpl_of s e \<le> t"
  shows "\<exists>s'. CoreNotifySignalList (CoreRestoreTpl env (Suc n)) g s = Some s' \<and> at_rest H t s' \<and>
    all_queued (group_members g s) s s' \<and> (\<forall>e ev. ievents s e = Some ev \<longrightarrow> (\<exists>b. ievents s' e = Some (ev\<lparr>OnNotifyQueue := b\<rparr>)))
    \<and> gEventSignalQueue s' = gEventSignalQueue s \<and> same_timers s s'"
proof -
  have r: "locks_ok H s" "gEventQueueLock \<notin> H" "gEfiCurrentTpl s = t" "t \<le> 31" "pending_ok s" "calm_above t s" "queues_ok s"
    using assms(1) by (auto simp: at_rest_def)
  let ?s1 = "taken gEventQueueLock s"
  have t31: "gEfiCurrentTpl s \<le> 31" using r by simp
  note a = acquire_event_lock [OF r(1,2) t31]
  have same: "tpl_of ?s1 = tpl_of s" "group_of ?s1 = group_of s" "queues_ok ?s1"
    using r(7) by (auto simp: tpl_of_def group_of_def queues_ok_def a(5,8) fun_eq_iff)
  obtain s2 where s2: "notify_group g (gEventSignalQueue s) ?s1 = Some s2" "queues_ok s2" "only_queues ?s1 s2"
      "all_queued (group_members g s) ?s1 s2"
    using notify_group_queues [of ?s1 "gEventSignalQueue s" g] assms(2,3) a same
    by (auto simp: group_members_def locks_ok_def)
  note f = only_queues_of [OF s2(3)]
  have aq: "all_queued (group_members g s) s s2" using s2(4) same a(5,6) by (simp add: all_queued_def)
  have mem: "\<forall>e\<in>set (group_members g s). tpl_of s e < 31 \<and> tpl_of s e \<le> t" using assms(3,4) by (auto simp: group_members_def)
  note p2 = all_queued_pending(1) [OF aq r(5) mem] and c2 = all_queued_pending(2) [OF aq r(5) mem r(6)]
  have "locks_ok (insert gEventQueueLock H) s2" "OwnerTpl (lock_of s2 gEventQueueLock) = t" "gEfiCurrentTpl s2 = 31"
    using a(2-4) f(4,5) r(3) by (simp_all add: locks_ok_def)
  note rel = release_event_lock [OF this(1) r(2) this(2,3) r(4) p2 c2]
  have "at_rest H t (released gEventQueueLock s2)"
    using rel(2,3) p2 c2 s2(2) r(2,4) by (simp add: at_rest_def pending_ok_def calm_above_def queues_ok_def)
  moreover have "same_timers s (released gEventQueueLock s2)"
    using only_queues_timers [OF s2(3)] a(8) t31 r(1) by (simp add: same_timers_def locks_ok_def)
  ultimately show ?thesis
    using a(1,7,8) s2(1) rel(1) f(3,7) aq
    by (intro exI [of _ "released gEventQueueLock s2"]) (auto simp: CoreNotifySignalList_def all_queued_def)
qed

text \<open>C17. Signalling an event of a group that has a notification function queues every member of the group, once, at the tail of the queue of its priority and in the order of the signal list; a member
  that was already waiting moves to the tail; nothing else moves.  An event that is still signalled does nothing.  This is for a caller at whose priority no member
  of the group may run (the priority of each is at or below the caller's), in a consistent state without an event lock: else the members above it are
  dispatched before the call returns.\<close>

theorem SignalEvent_queues_group:
  assumes "at_rest H t s" "distinct (gEventSignalQueue s)" "e \<noteq> 0" "ievents s e = Some ev"
    and "\<forall>x\<in>set (gEventSignalQueue s). ievents s x \<noteq> None \<and> tpl_of s x < TPL_HIGH_LEVEL"
    and "\<forall>x\<in>set (group_members (EventGroup ev) s). tpl_of s x \<le> t"
    and "EventType ev AND EVT_NOTIFY_SIGNAL \<noteq> 0" "ExFlag ev"
  shows "\<exists>s'. CoreSignalEvent (CoreRestoreTpl env (Suc n)) e s = Some (EFI_SUCCESS, s') \<and> at_rest H t s' \<and>
    all_queued (if SignalCount ev = 0 then group_members (EventGroup ev) s else []) s s' \<and>
    (\<exists>ev'. ievents s' e = Some ev' \<and> SignalCount ev' = (if SignalCount ev = 0 then 1 else SignalCount ev))"
proof -
  have r: "locks_ok H s" "gEventQueueLock \<notin> H" "gEfiCurrentTpl s = t" "t \<le> 31" "pending_ok s" "calm_above t s" "queues_ok s"
    using assms(1) by (auto simp: at_rest_def)
  let ?R = "CoreRestoreTpl env (Suc n)"
  let ?s1 = "taken gEventQueueLock s"
  have t31: "gEfiCurrentTpl s \<le> 31" using r by simp
  note a = acquire_event_lock [OF r(1,2) t31]
  show ?thesis
  proof (cases "SignalCount ev = 0")
    case False
    have "pending_ok ?s1" "calm_above t ?s1" using r a by (simp_all add: pending_ok_def calm_above_def)
    note rel = release_event_lock [OF a(2) r(2) a(3) [unfolded r(3)] a(4) r(4) this]
    have "at_rest H t (released gEventQueueLock ?s1)"
      using rel r a by (simp add: at_rest_def pending_ok_def calm_above_def queues_ok_def)
    then show ?thesis using False assms(3,4) a rel
      by (intro exI [of _ "released gEventQueueLock ?s1"]) (auto simp: CoreSignalEvent_def all_queued_def)
  next
    case True
    let ?s2 = "put_event e (ev\<lparr>SignalCount := SignalCount ev + 1\<rparr>) ?s1"
    have l2: "locks_ok (insert gEventQueueLock H) ?s2" "OwnerTpl (lock_of ?s2 gEventQueueLock) = t" "gEfiCurrentTpl ?s2 = 31"
        "pending_ok ?s2" "calm_above t ?s2"
      using r a by (simp_all add: put_event_def locks_ok_def pending_ok_def calm_above_def)
    note rel2 = release_event_lock [OF l2(1) r(2) l2(2,3) r(4) l2(4,5)]
    define s3 where "s3 = released gEventQueueLock ?s2"
    have e3: "ievents s3 = (ievents s)(e \<mapsto> ev\<lparr>SignalCount := 1\<rparr>)" "gEventSignalQueue s3 = gEventSignalQueue s"
        "gEventQueue s3 = gEventQueue s" "gEventPending s3 = gEventPending s"
      using a True by (simp_all add: put_event_def s3_def)
    note rel2 = rel2 [folded s3_def]
    have p3: "pending_ok s3" "calm_above t s3" using l2(4,5) by (simp_all add: s3_def pending_ok_def calm_above_def)
    have same: "tpl_of s3 = tpl_of s" "group_of s3 = group_of s"
      using assms(4) by (auto simp: tpl_of_def group_of_def e3(1) fun_eq_iff)
    have q3: "queues_ok s3" using r(7) assms(4) by (auto simp: queues_ok_def e3)
    have r3: "at_rest H t s3"
      using rel2(2,3) p3 q3 r(2,4) by (simp add: at_rest_def)
    have g3: "group_members (EventGroup ev) s3 = group_members (EventGroup ev) s" by (simp add: group_members_def same e3(2))
    obtain s4 where s4: "CoreNotifySignalList ?R (EventGroup ev) s3 = Some s4" "at_rest H t s4"
        "all_queued (group_members (EventGroup ev) s) s3 s4" "\<exists>b. ievents s4 e = Some (ev\<lparr>SignalCount := 1, OnNotifyQueue := b\<rparr>)"
      using NotifySignalList_queues [OF r3, of "EventGroup ev" env n] assms(2,4-6) e3(1,2) g3 same by fastforce
    have aq: "all_queued (group_members (EventGroup ev) s) s s4"
      using s4(3) e3(3,4) same by (simp add: all_queued_def)
    have r4: "locks_ok H s4" "gEfiCurrentTpl s4 = t" "gEfiCurrentTpl s4 \<le> 31" "pending_ok s4" "calm_above t s4" "queues_ok s4"
      using s4(2) by (auto simp: at_rest_def)
    note a4 = acquire_event_lock [OF r4(1) r(2) r4(3)]
    let ?s5 = "taken gEventQueueLock s4"
    have l5: "pending_ok ?s5" "calm_above t ?s5" using r4 a4 by (simp_all add: pending_ok_def calm_above_def)
    note rel5 = release_event_lock [OF a4(2) r(2) a4(3) [unfolded r4(2)] a4(4) r(4) l5]
    let ?s6 = "released gEventQueueLock ?s5"
    have "at_rest H t ?s6" using rel5(2,3) r4 a4 r(2,4) by (simp add: at_rest_def pending_ok_def calm_above_def queues_ok_def)
    moreover have "CoreSignalEvent ?R e s = Some (EFI_SUCCESS, ?s6)"
      using assms(3,4,7,8) True a(1,8) rel2(1) s4(1) a4(1) rel5(1) e3(1) by (auto simp: CoreSignalEvent_def)
    ultimately show ?thesis using True aq s4(4) a4(5,6,8) by (auto simp: all_queued_def)
  qed
qed

section \<open>Witnesses\<close>

definition client :: "nat \<Rightarrow> nat \<Rightarrow> guid \<Rightarrow> bool \<Rightarrow> ievent" where
  "client f tpl g waiting = \<lparr>EventType = EVT_NOTIFY_SIGNAL, SignalCount = 0, OnSignalList = True, NotifyTpl = tpl,
     NotifyFunction = Some (Client f), NotifyContext = 0, EventGroup = g, OnNotifyQueue = waiting, ExFlag = True,
     OnRuntimeList = False, OnTimerList = False, TriggerTime = 0, Period = 0\<rparr>"

type_synonym calls = "(nat \<times> nat \<times> nat) list"

definition two_clients :: "nat \<Rightarrow> bool \<Rightarrow> calls ev" where
  "two_clients tpl waiting = \<lparr>gEfiCurrentTpl = tpl,
     lock_of = (\<lambda>l. \<lparr>LockTpl = (if l = mEfiTimerLock then 30 else 31), OwnerTpl = 0, Acquired = False\<rparr>),
     gEventQueue = (if waiting then (\<lambda>_. [])(8 := [1], 16 := [2]) else (\<lambda>_. [])),
     gEventPending = (if waiting then queue_bit 8 OR queue_bit 16 else 0),
     gEventSignalQueue = [2, 1], ievents = [1 \<mapsto> client 10 8 [7] waiting, 2 \<mapsto> client 20 16 [7] waiting],
     RuntimeEventHead = [], mEfiTimerList = [], mEfiSystemTime = 0, mEfiCheckTimerEvent = 0, gIdleLoopEvent = 0,
     gCpu = True, gSmmBase2 = None, InterruptsEnabled = False, outside = []\<rparr>"

definition log_env :: "calls ev_env" where
  "log_env = \<lparr>CallClient = (\<lambda>f e c s. Some (s\<lparr>outside := outside s @ [(f, e, c)]\<rparr>)),
     AllocateZeroPool = (\<lambda>_ x. (None, x)), GetTimerPeriod = (\<lambda>_. 0), CoreUnregisterProtocolNotify = (\<lambda>_ x. x)\<rparr>"

lemma RestoreTpl_dispatch_order_witness:
  "\<exists>s'. CoreRestoreTpl log_env 40 4 (two_clients 31 True) = Some s' \<and> outside s' = [(20, 2, 0), (10, 1, 0)]"
proof -
  let ?s = "two_clients 31 True"
  have a: "locks_ok {} ?s" by (auto simp: locks_ok_def two_clients_def)
  have b: "pending_ok ?s" by (auto simp: pending_ok_def two_clients_def bit_or_iff bit_queue_bit)
  have c: "4 \<le> gEfiCurrentTpl ?s" "(4::nat) \<le> 31" "outside_clients log_env (\<lambda>x l. l @ [x])" "(31::nat) < 40"
    by (simp_all add: two_clients_def outside_clients_def log_env_def)
  have d: "\<forall>p>4. (\<forall>e\<in>set (gEventQueue ?s p). client_event ?s e) \<and> length (gEventQueue ?s p) < 40"
    by (simp add: two_clients_def client_event_def client_def)
  have "[Suc 4..<31] = [5,6,7,8,9,10,11,12,13,14,15,16,17,18,19,20,21,22,23,24,25,26,27,28,29,30]" by (simp add: upt_rec)
  then have "map (call_of ?s) (concat (map (gEventQueue ?s) (rev [Suc 4..<31]))) = [(20, 2, 0), (10, 1, 0)]" "outside ?s = []"
    by (simp_all add: two_clients_def call_of_def client_def)
  then show ?thesis using RestoreTpl_dispatch_order [OF a b c(1-3) d c(4)] by auto
qed

lemma SignalEvent_queues_group_witness:
  "\<exists>s'. CoreSignalEvent (CoreRestoreTpl log_env 1) 1 (two_clients 16 False) = Some (EFI_SUCCESS, s') \<and>
     gEventQueue s' 8 = [1] \<and> gEventQueue s' 16 = [2]"
proof -
  let ?s = "two_clients 16 False"
  have a: "at_rest {} 16 ?s"
    by (auto simp: at_rest_def locks_ok_def pending_ok_def calm_above_def queues_ok_def two_clients_def client_def split: if_splits)
  have g: "group_members [7] ?s = [2, 1]" "tpl_of ?s 1 = 8" "tpl_of ?s 2 = 16"
    by (simp_all add: group_members_def group_of_def tpl_of_def two_clients_def client_def)
  have b: "distinct (gEventSignalQueue ?s)" "(1::nat) \<noteq> 0" "ievents ?s 1 = Some (client 10 8 [7] False)"
    "\<forall>x\<in>set (gEventSignalQueue ?s). ievents ?s x \<noteq> None \<and> tpl_of ?s x < 31"
    "\<forall>x\<in>set (group_members (EventGroup (client 10 8 [7] False)) ?s). tpl_of ?s x \<le> 16"
    "EventType (client 10 8 [7] False) AND EVT_NOTIFY_SIGNAL \<noteq> 0" "ExFlag (client 10 8 [7] False)"
    using g by (simp_all add: client_def) (simp_all add: two_clients_def client_def)
  have e: "gEventQueue ?s p = []" "SignalCount (client 10 8 [7] False) = 0" "EventGroup (client 10 8 [7] False) = [7]" for p
    by (simp_all add: two_clients_def client_def)
  from SignalEvent_queues_group [OF a b, of log_env 0] show ?thesis
    using g by (auto simp: all_queued_def e)
qed

end
