(* ===== verification/TimerRun.thy ===== *)
theory TimerRun
  imports EventRun
begin

text \<open>
  The timer database of \<open>Core/Dxe/Event/Timer.c\<close>: its order, the timers a check fires,
  the termination of the check, and the period for which it does not end.
\<close>

section \<open>Signalling from the timer code\<close>

text \<open>Every event on the signal list exists, and no event notifies at \<open>TPL_HIGH_LEVEL\<close>.\<close>

definition events_ok :: "'e ev \<Rightarrow> bool" where
  "events_ok s \<longleftrightarrow> distinct (gEventSignalQueue s) \<and> (\<forall>x\<in>set (gEventSignalQueue s). ievents s x \<noteq> None) \<and>
     (\<forall>x ev. ievents s x = Some ev \<longrightarrow> NotifyTpl ev < 31)"

lemma plain_fields [simp]:
  "EventType (plain ev) = EventType ev" "NotifyTpl (plain ev) = NotifyTpl ev" "EventGroup (plain ev) = EventGroup ev"
  "TriggerTime (plain ev) = TriggerTime ev" "Period (plain ev) = Period ev" "OnTimerList (plain ev) = OnTimerList ev"
  "ExFlag (plain ev) = ExFlag ev"
  by (simp_all add: plain_def)

lemma same_timers_event:
  assumes "same_timers s s'"
  shows "ievents s x = Some ev \<Longrightarrow> \<exists>ev'. ievents s' x = Some ev' \<and> plain ev' = plain ev"
    "ievents s' x = None \<longleftrightarrow> ievents s x = None"
proof -
  have "map_option plain (ievents s' x) = map_option plain (ievents s x)" using assms by (simp add: same_timers_def)
  then show "ievents s x = Some ev \<Longrightarrow> \<exists>ev'. ievents s' x = Some ev' \<and> plain ev' = plain ev"
    "ievents s' x = None \<longleftrightarrow> ievents s x = None"
    by (cases "ievents s x"; cases "ievents s' x"; auto)+
qed

lemma plain_cong:
  assumes "plain a = plain b"
  shows "EventType a = EventType b" "NotifyTpl a = NotifyTpl b" "TriggerTime a = TriggerTime b" "Period a = Period b"
    "OnTimerList a = OnTimerList b" "ExFlag a = ExFlag b" "EventGroup a = EventGroup b"
  using assms plain_fields by metis+

lemma same_timers_ok:
  assumes "same_timers s s'" "events_ok s"
  shows "events_ok s'"
proof -
  have "NotifyTpl ev' < 31" if h: "ievents s' x = Some ev'" for x ev'
  proof -
    obtain ev where "ievents s x = Some ev" using h same_timers_event(2) [OF assms(1), of x] by (cases "ievents s x") auto
    moreover have "plain ev' = plain ev" using same_timers_event(1) [OF assms(1) calculation] h by simp
    ultimately show ?thesis using assms(2) plain_cong(2) [of ev' ev] by (simp add: events_ok_def)
  qed
  then show ?thesis using assms same_timers_event(2) [OF assms(1)] by (simp add: events_ok_def same_timers_def)
qed

lemma at_rest_released:
  assumes "at_rest H t s" "locks_ok (insert gEventQueueLock H) s2" "OwnerTpl (lock_of s2 gEventQueueLock) = t"
    and "gEfiCurrentTpl s2 = 31" "pending_ok s2" "calm_above t s2" "queues_ok s2"
  shows "CoreReleaseEventLock (CoreRestoreTpl env (Suc n)) s2 = Some (released gEventQueueLock s2)"
    "at_rest H t (released gEventQueueLock s2)"
proof -
  have r: "gEventQueueLock \<notin> H" "t \<le> 31" using assms(1) by (auto simp: at_rest_def)
  note rel = release_event_lock [OF assms(2) r(1) assms(3,4) r(2) assms(5,6)]
  show "CoreReleaseEventLock (CoreRestoreTpl env (Suc n)) s2 = Some (released gEventQueueLock s2)" by (rule rel)
  show "at_rest H t (released gEventQueueLock s2)"
    using rel(2,3) r assms(5-7) by (simp add: at_rest_def pending_ok_def calm_above_def queues_ok_def)
qed

lemma queued_pending:
  assumes "pending_ok s" "NotifyTpl ev < 31"
  shows "pending_ok (queued e ev s)" "NotifyTpl ev \<le> t \<Longrightarrow> calm_above t s \<Longrightarrow> calm_above t (queued e ev s)"
proof -
  have b: "bit (gEventPending (queued e ev s)) j \<longleftrightarrow> bit (gEventPending s) j \<or> j = NotifyTpl ev" for j
    using assms(2) by (simp add: queued_fields(2) bit_or_iff bit_queue_bit)
  have q: "gEventQueue (queued e ev s) p \<noteq> [] \<Longrightarrow> p \<noteq> NotifyTpl ev \<Longrightarrow> gEventQueue s p \<noteq> []" for p
    by (simp add: queued_fields(1))
  have "bit (gEventPending (queued e ev s)) p" if "gEventQueue (queued e ev s) p \<noteq> []" for p
    using q [OF that] assms(1) b [of p] by (auto simp: pending_ok_def)
  then show "pending_ok (queued e ev s)" using assms b by (auto simp: pending_ok_def)
  show "NotifyTpl ev \<le> t \<Longrightarrow> calm_above t s \<Longrightarrow> calm_above t (queued e ev s)"
    using b by (auto simp: calm_above_def)
qed

text \<open>At or above priority 30 a signal only queues, whatever the event is.\<close>

text \<open>How often an event has been signalled and not yet handled.\<close>

definition counts :: "'e ev \<Rightarrow> nat \<Rightarrow> u32 option" where
  "counts s x = map_option SignalCount (ievents s x)"

lemma SignalEvent_frame:
  assumes "at_rest H t s" "30 \<le> t" "events_ok s" "e \<noteq> 0" "ievents s e = Some ev"
  shows "\<exists>s'. CoreSignalEvent (CoreRestoreTpl env (Suc n)) e s = Some (EFI_SUCCESS, s') \<and> at_rest H t s' \<and> same_timers s s' \<and>
    (\<exists>ev'. ievents s' e = Some ev' \<and> SignalCount ev' \<noteq> 0) \<and> (\<forall>x. x \<noteq> e \<longrightarrow> counts s' x = counts s x)"
proof -
  let ?R = "CoreRestoreTpl env (Suc n)"
  have r: "locks_ok H s" "gEventQueueLock \<notin> H" "gEfiCurrentTpl s = t" "gEfiCurrentTpl s \<le> 31" "pending_ok s" "calm_above t s" "queues_ok s"
    using assms(1) by (auto simp: at_rest_def)
  define s1 where "s1 = taken gEventQueueLock s"
  note a = acquire_event_lock [OF r(1,2,4), folded s1_def, unfolded r(3)]
  have t1: "same_timers s s1" using r(1,4) by (simp add: s1_def same_timers_def locks_ok_def)
  show ?thesis
  proof (cases "SignalCount ev = 0")
    case False
    note rel = at_rest_released [OF assms(1) a(2-4)]
    have "pending_ok s1" "calm_above t s1" "queues_ok s1" using r a by (simp_all add: pending_ok_def calm_above_def queues_ok_def)
    note rel = rel [OF this]
    have "same_timers s (released gEventQueueLock s1)" using t1 by (simp add: same_timers_def)
    then show ?thesis using False assms(4,5) a rel
      by (intro exI [of _ "released gEventQueueLock s1"]) (auto simp: CoreSignalEvent_def counts_def)
  next
    case True
    define s2 where "s2 = put_event e (ev\<lparr>SignalCount := SignalCount ev + 1\<rparr>) s1"
    have e2: "ievents s2 e = Some (ev\<lparr>SignalCount := 1\<rparr>)" using True by (simp add: s2_def put_event_def)
    have l2: "locks_ok (insert gEventQueueLock H) s2" "OwnerTpl (lock_of s2 gEventQueueLock) = t" "gEfiCurrentTpl s2 = 31"
        "pending_ok s2" "calm_above t s2" "queues_ok s2" "same_timers s1 s2"
      using r a assms(5) True by (auto simp: s2_def put_event_def locks_ok_def pending_ok_def calm_above_def queues_ok_def same_timers_def plain_def)
    have t2: "same_timers s s2" by (rule same_timers_trans [OF t1 l2(7)])
    have tpl: "tpl_of s' x < 31" if "same_timers s s'" for s' x
      using same_timers_ok [OF that assms(3)] by (auto simp: tpl_of_def events_ok_def split: option.splits)
    have tpl30: "tpl_of s' x \<le> t" if "same_timers s s'" for s' x using tpl [OF that, of x] assms(2) by linarith
    consider (none) "EventType ev AND EVT_NOTIFY_SIGNAL = 0" | (one) "EventType ev AND EVT_NOTIFY_SIGNAL \<noteq> 0" "\<not> ExFlag ev"
      | (group) "EventType ev AND EVT_NOTIFY_SIGNAL \<noteq> 0" "ExFlag ev" by blast
    then show ?thesis
    proof cases
      case none
      note rel = at_rest_released [OF assms(1) l2(1-6)]
      have "same_timers s (released gEventQueueLock s2)" using t2 by (simp add: same_timers_def)
      then show ?thesis using none True assms(4,5) a(1,8) rel e2
        by (intro exI [of _ "released gEventQueueLock s2"]) (auto simp: CoreSignalEvent_def s2_def counts_def put_event_def)
    next
      case one
      define s3 where "s3 = queued e (ev\<lparr>SignalCount := 1\<rparr>) s2"
      have acq: "Acquired (lock_of s2 gEventQueueLock)" using l2(1) by (simp add: locks_ok_def)
      note q = NotifyEvent_queued [OF l2(6) e2 acq, folded s3_def]
      note o = only_queues_queued [OF e2, folded s3_def]
      have "NotifyTpl (ev\<lparr>SignalCount := 1\<rparr>) < 31" "NotifyTpl (ev\<lparr>SignalCount := 1\<rparr>) \<le> t"
        using assms(2,3,5) by (fastforce simp: events_ok_def)+
      then have p3: "pending_ok s3" "calm_above t s3"
        using queued_pending [OF l2(4)] l2(5) unfolding s3_def by blast+
      have l3: "locks_ok (insert gEventQueueLock H) s3" "OwnerTpl (lock_of s3 gEventQueueLock) = t" "gEfiCurrentTpl s3 = 31"
        using l2(1-3) only_queues_of(4,5) [OF o] by (simp_all add: locks_ok_def)
      note rel = at_rest_released [OF assms(1) l3 p3 q(2)]
      have "same_timers s (released gEventQueueLock s3)"
        using same_timers_trans [OF t2 only_queues_timers [OF o]] by (simp add: same_timers_def)
      then show ?thesis using one True assms(4,5) a(1,8) rel q(1)
        by (intro exI [of _ "released gEventQueueLock s3"]) (auto simp: CoreSignalEvent_def s2_def s3_def queued_fields(3) counts_def put_event_def)
    next
      case group
      define s3 where "s3 = released gEventQueueLock s2"
      note rel = at_rest_released [OF assms(1) l2(1-6), folded s3_def]
      have t3: "same_timers s s3" using t2 by (simp add: s3_def same_timers_def)
      note ok3 = same_timers_ok [OF t3 assms(3)]
      have e3: "ievents s3 e = Some (ev\<lparr>SignalCount := 1\<rparr>)" using e2 by (simp add: s3_def)
      have c: "distinct (gEventSignalQueue s3)"
        "\<forall>x\<in>set (gEventSignalQueue s3). ievents s3 x \<noteq> None \<and> tpl_of s3 x < 31"
        "\<forall>x\<in>set (group_members (EventGroup ev) s3). tpl_of s3 x \<le> t"
        using ok3 tpl30 [OF t3] tpl [OF t3] by (auto simp: events_ok_def)
      from NotifySignalList_queues [OF rel(2) c] obtain s4 where
        s4: "CoreNotifySignalList ?R (EventGroup ev) s3 = Some s4" "at_rest H t s4" "same_timers s3 s4"
        "\<forall>e ev. ievents s3 e = Some ev \<longrightarrow> (\<exists>b. ievents s4 e = Some (ev\<lparr>OnNotifyQueue := b\<rparr>))" by blast
      then obtain b where e4: "ievents s4 e = Some (ev\<lparr>SignalCount := 1, OnNotifyQueue := b\<rparr>)" using e3 by blast
      have r4: "locks_ok H s4" "gEfiCurrentTpl s4 = t" "gEfiCurrentTpl s4 \<le> 31" "pending_ok s4" "calm_above t s4" "queues_ok s4"
        using s4(2) by (auto simp: at_rest_def)
      define s5 where "s5 = taken gEventQueueLock s4"
      note a5 = acquire_event_lock [OF r4(1) r(2) r4(3), folded s5_def, unfolded r4(2)]
      have "pending_ok s5" "calm_above t s5" "queues_ok s5" using r4 a5 by (simp_all add: pending_ok_def calm_above_def queues_ok_def)
      note rel5 = at_rest_released [OF assms(1) a5(2-4) this]
      have "same_timers s4 (released gEventQueueLock s5)" using r4(1,3) by (simp add: s5_def same_timers_def locks_ok_def)
      then have "same_timers s (released gEventQueueLock s5)"
        using same_timers_trans [OF t3 s4(3)] same_timers_trans by blast
      moreover have "counts (released gEventQueueLock s5) x = counts s x" if "x \<noteq> e" for x
      proof -
        have "counts s4 x = counts s3 x"
        proof -
          have "map_option plain (ievents s4 x) = map_option plain (ievents s3 x)" using s4(3) by (simp add: same_timers_def)
          moreover have "\<exists>b. ievents s4 x = Some (z\<lparr>OnNotifyQueue := b\<rparr>)" if "ievents s3 x = Some z" for z using s4(4) that by blast
          ultimately show ?thesis by (cases "ievents s3 x") (force simp: counts_def)+
        qed
        then show ?thesis using that a5(8) a(8) by (simp add: counts_def s3_def s2_def put_event_def)
      qed
      ultimately show ?thesis using group True assms(4,5) a(1,8) rel(1) e3 s4(1) e4 a5(1,8) rel5
        by (intro exI [of _ "released gEventQueueLock s5"]) (auto simp: CoreSignalEvent_def s2_def)
    qed
  qed
qed

section \<open>Locks other than the event lock\<close>

lemma calm_above_30: "pending_ok s \<Longrightarrow> 30 \<le> t \<Longrightarrow> calm_above t s"
  by (simp add: pending_ok_def calm_above_def)

lemma enter_lock:
  assumes "at_rest H t s" "l \<notin> H" "l \<noteq> gEventQueueLock" "u = LockTpl (lock_of s l)" "t \<le> u"
  shows "CoreAcquireLock l s = Some (taken l s)" "at_rest (insert l H) u (taken l s)"
    "OwnerTpl (lock_of (taken l s) l) = t" "ievents (taken l s) = ievents s"
    "l \<noteq> mEfiTimerLock \<Longrightarrow> same_timers s (taken l s)" "gEventPending (taken l s) = gEventPending s"
    "mEfiTimerList (taken l s) = mEfiTimerList s" "mEfiSystemTime (taken l s) = mEfiSystemTime s"
    "gEventSignalQueue (taken l s) = gEventSignalQueue s" "mEfiCheckTimerEvent (taken l s) = mEfiCheckTimerEvent s"
proof -
  have r: "locks_ok H s" "gEventQueueLock \<notin> H" "gEfiCurrentTpl s = t" "pending_ok s" "queues_ok s"
    using assms(1) by (auto simp: at_rest_def)
  have u: "30 \<le> u" "u \<le> 31" using r(1) assms(3,4) by (cases l; simp add: locks_ok_def)+
  have f: "gEfiCurrentTpl s \<le> LockTpl (lock_of s l)" "LockTpl (lock_of s l) \<le> 31" using r(3) assms(4,5) u by auto
  show "CoreAcquireLock l s = Some (taken l s)" by (rule acquire_taken [OF r(1) assms(2) f(1)])
  show "at_rest (insert l H) u (taken l s)"
    using locks_ok_taken [OF r(1) f] calm_above_30 [OF r(4) u(1)] r u assms(3,4) f
    by (simp add: at_rest_def pending_ok_def queues_ok_def calm_above_def)
  show "OwnerTpl (lock_of (taken l s) l) = t" "ievents (taken l s) = ievents s"
    "l \<noteq> mEfiTimerLock \<Longrightarrow> same_timers s (taken l s)" "gEventPending (taken l s) = gEventPending s"
    "mEfiTimerList (taken l s) = mEfiTimerList s" "mEfiSystemTime (taken l s) = mEfiSystemTime s"
    "gEventSignalQueue (taken l s) = gEventSignalQueue s" "mEfiCheckTimerEvent (taken l s) = mEfiCheckTimerEvent s"
    using f r(3) by (simp_all add: same_timers_def)
qed

lemma leave_lock:
  assumes "at_rest (insert l H) u s" "l \<notin> H" "OwnerTpl (lock_of s l) = t" "t \<le> u" "calm_above t s"
  shows "CoreReleaseLock (CoreRestoreTpl env (Suc n)) l s = Some (released l s)" "at_rest H t (released l s)"
    "ievents (released l s) = ievents s" "same_timers s (released l s)"
proof -
  have r: "locks_ok (insert l H) s" "gEventQueueLock \<notin> H" "gEfiCurrentTpl s = u" "u \<le> 31" "pending_ok s" "queues_ok s"
    using assms(1) by (auto simp: at_rest_def)
  show "CoreReleaseLock (CoreRestoreTpl env (Suc n)) l s = Some (released l s)"
    using r assms(3-5) by (intro release_calm [of "insert l H"]) auto
  show "at_rest H t (released l s)"
    using locks_ok_released [OF r(1) assms(2)] r assms(3-5) by (simp add: at_rest_def pending_ok_def queues_ok_def calm_above_def)
  show "ievents (released l s) = ievents s" "same_timers s (released l s)" by (simp_all add: same_timers_def)
qed

lemma current_time:
  assumes "at_rest H t s" "mEfiSystemTimeLock \<notin> H"
  shows "\<exists>s'. CoreCurrentSystemTime (CoreRestoreTpl env (Suc n)) s = Some (mEfiSystemTime s, s') \<and> at_rest H t s' \<and>
    ievents s' = ievents s \<and> same_timers s s' \<and> gEventPending s' = gEventPending s \<and>
    (\<forall>l. l \<noteq> mEfiSystemTimeLock \<longrightarrow> lock_of s' l = lock_of s l)"
proof -
  have r: "LockTpl (lock_of s mEfiSystemTimeLock) = 31" "t \<le> 31" "gEfiCurrentTpl s = t" "calm_above t s"
    using assms(1) by (auto simp: at_rest_def locks_ok_def)
  let ?s1 = "taken mEfiSystemTimeLock s"
  note e = enter_lock [OF assms, of 31]
  have e: "CoreAcquireLock mEfiSystemTimeLock s = Some ?s1" "at_rest (insert mEfiSystemTimeLock H) 31 ?s1"
      "OwnerTpl (lock_of ?s1 mEfiSystemTimeLock) = t" "ievents ?s1 = ievents s" "same_timers s ?s1"
      "gEventPending ?s1 = gEventPending s" "\<forall>l. l \<noteq> mEfiSystemTimeLock \<longrightarrow> lock_of ?s1 l = lock_of s l"
    using enter_lock [OF assms, of 31] r by simp_all
  have "calm_above t ?s1" using r(4) e(6) by (simp add: calm_above_def)
  note v = leave_lock [OF e(2) assms(2) e(3) r(2) this]
  show ?thesis
    using e v same_timers_trans [OF e(5) v(4)]
    by (intro exI [of _ "released mEfiSystemTimeLock ?s1"]) (simp add: CoreCurrentSystemTime_def same_timers_def)
qed

section \<open>The order of the timer database\<close>

definition trig :: "'e ev \<Rightarrow> nat \<Rightarrow> u64" where
  "trig s x = (case ievents s x of Some ev \<Rightarrow> TriggerTime ev | None \<Rightarrow> 0)"

definition timers_ok :: "'e ev \<Rightarrow> bool" where
  "timers_ok s \<longleftrightarrow> distinct (mEfiTimerList s) \<and> 0 \<notin> set (mEfiTimerList s) \<and>
     (\<forall>x. x \<in> set (mEfiTimerList s) \<longleftrightarrow> (\<exists>ev. ievents s x = Some ev \<and> OnTimerList ev)) \<and>
     sorted_wrt (\<lambda>a b. trig s a \<le> trig s b) (mEfiTimerList s)"

lemma same_timers_field:
  assumes "same_timers s s'" "\<And>ev. f (plain ev) = f ev"
  shows "map_option f (ievents s' x) = map_option f (ievents s x)"
proof -
  have c: "map_option f y = map_option f (map_option plain y)" for y
    by (simp add: option.map_comp comp_def assms(2))
  have "map_option plain (ievents s' x) = map_option plain (ievents s x)" using assms(1) by (simp add: same_timers_def)
  then show ?thesis unfolding c [of "ievents s' x"] c [of "ievents s x"] by (rule arg_cong)
qed

lemma trig_map: "trig s x = (case map_option TriggerTime (ievents s x) of Some t \<Rightarrow> t | None \<Rightarrow> 0)"
  by (simp add: trig_def split: option.split)

lemma trig_cong: "same_timers s s' \<Longrightarrow> trig s' = trig s"
  by (rule ext) (simp only: trig_map same_timers_field plain_fields)

lemma on_timer_list: "(\<exists>ev. ievents s x = Some ev \<and> OnTimerList ev) \<longleftrightarrow> map_option OnTimerList (ievents s x) = Some True"
  by auto

lemma timers_ok_cong:
  assumes "same_timers s s'" "timers_ok s"
  shows "timers_ok s'"
proof -
  have l: "mEfiTimerList s' = mEfiTimerList s" using assms(1) by (simp add: same_timers_def)
  have f: "map_option OnTimerList (ievents s' x) = map_option OnTimerList (ievents s x)" for x
    by (rule same_timers_field [OF assms(1)]) simp
  show ?thesis
    using assms(2) unfolding timers_ok_def on_timer_list trig_cong [OF assms(1)] l f .
qed

lemma timers_ok_same: "ievents s' = ievents s \<Longrightarrow> mEfiTimerList s' = mEfiTimerList s \<Longrightarrow> timers_ok s' = timers_ok s"
  by (simp only: timers_ok_def trig_def)

lemma insert_before_later_split:
  assumes "\<forall>x\<in>set l. ievents s x \<noteq> None"
  shows "insert_before_later s T e l = Some (takeWhile (\<lambda>x. trig s x \<le> T) l @ e # dropWhile (\<lambda>x. trig s x \<le> T) l)"
  using assms by (induction l) (auto simp: trig_def not_le)

text \<open>On a sorted list the split is by due time.\<close>

lemma sorted_takeWhile:
  fixes f :: "nat \<Rightarrow> u64"
  assumes "sorted_wrt (\<lambda>a b. f a \<le> f b) l"
  shows "takeWhile (\<lambda>x. f x \<le> T) l = filter (\<lambda>x. f x \<le> T) l" "dropWhile (\<lambda>x. f x \<le> T) l = filter (\<lambda>x. T < f x) l"
proof -
  have "takeWhile (\<lambda>x. f x \<le> T) l = filter (\<lambda>x. f x \<le> T) l \<and> dropWhile (\<lambda>x. f x \<le> T) l = filter (\<lambda>x. T < f x) l"
    using assms
  proof (induction l)
    case (Cons a l)
    have "\<not> f a \<le> T \<Longrightarrow> filter (\<lambda>x. f x \<le> T) l = [] \<and> filter (\<lambda>x. T < f x) l = l"
      using Cons.prems by (auto simp: filter_empty_conv filter_id_conv intro: less_le_trans)
    then show ?case using Cons by (auto simp: not_le)
  qed simp
  then show "takeWhile (\<lambda>x. f x \<le> T) l = filter (\<lambda>x. f x \<le> T) l" "dropWhile (\<lambda>x. f x \<le> T) l = filter (\<lambda>x. T < f x) l"
    by auto
qed

lemma sorted_insert:
  fixes f :: "nat \<Rightarrow> u64"
  assumes "sorted_wrt (\<lambda>a b. f a \<le> f b) l" "f e = T"
  shows "sorted_wrt (\<lambda>a b. f a \<le> f b) (filter (\<lambda>x. f x \<le> T) l @ e # filter (\<lambda>x. T < f x) l)"
  using assms by (auto simp: sorted_wrt_append intro: sorted_wrt_filter)

lemma InsertEventTimer_sorted:
  assumes "Acquired (lock_of s mEfiTimerLock)" "ievents s e = Some ev" "e \<noteq> 0" "\<not> OnTimerList ev" "timers_ok s"
  defines "l \<equiv> filter (\<lambda>x. trig s x \<le> TriggerTime ev) (mEfiTimerList s) @ e # filter (\<lambda>x. TriggerTime ev < trig s x) (mEfiTimerList s)"
  shows "CoreInsertEventTimer e s = Some ((put_event e (ev\<lparr>OnTimerList := True\<rparr>) s)\<lparr>mEfiTimerList := l\<rparr>)"
    "timers_ok ((put_event e (ev\<lparr>OnTimerList := True\<rparr>) s)\<lparr>mEfiTimerList := l\<rparr>)"
proof -
  have w: "distinct (mEfiTimerList s)" "0 \<notin> set (mEfiTimerList s)" "e \<notin> set (mEfiTimerList s)"
      "\<forall>x\<in>set (mEfiTimerList s). ievents s x \<noteq> None" "sorted_wrt (\<lambda>a b. trig s a \<le> trig s b) (mEfiTimerList s)"
      "\<forall>x. x \<in> set (mEfiTimerList s) \<longleftrightarrow> (\<exists>ev. ievents s x = Some ev \<and> OnTimerList ev)"
    using assms(2,4,5) by (auto simp: timers_ok_def)
  show "CoreInsertEventTimer e s = Some ((put_event e (ev\<lparr>OnTimerList := True\<rparr>) s)\<lparr>mEfiTimerList := l\<rparr>)"
    using assms(1,2) w(3) insert_before_later_split [OF w(4)] sorted_takeWhile [OF w(5)]
    by (simp add: CoreInsertEventTimer_def l_def)
  let ?s = "(put_event e (ev\<lparr>OnTimerList := True\<rparr>) s)\<lparr>mEfiTimerList := l\<rparr>"
  have t: "trig ?s = trig s" "trig s e = TriggerTime ev" using assms(2) by (auto simp: trig_def put_event_def fun_eq_iff)
  have "sorted_wrt (\<lambda>a b. trig s a \<le> trig s b) l" unfolding l_def by (rule sorted_insert [OF w(5) t(2)])
  moreover have "set l = insert e (set (mEfiTimerList s))" by (auto simp: l_def)
  moreover have "distinct l" using w(1,3) by (auto simp: l_def)
  ultimately show "timers_ok ?s" unfolding timers_ok_def t(1) using assms(2,3) w(2,6) by (auto simp: put_event_def)
qed

section \<open>Setting a timer\<close>

lemma unlinked_timers_ok:
  assumes "timers_ok s" "ievents s e = Some ev"
  shows "timers_ok ((put_event e (ev\<lparr>OnTimerList := False, TriggerTime := T, Period := P\<rparr>) s)
    \<lparr>mEfiTimerList := filter (\<lambda>x. x \<noteq> e) (mEfiTimerList s)\<rparr>)" (is "timers_ok ?s")
proof -
  have "trig ?s x = trig s x" if "x \<noteq> e" for x using that by (simp add: trig_def put_event_def)
  then have "sorted_wrt (\<lambda>a b. trig ?s a \<le> trig ?s b) (filter (\<lambda>x. x \<noteq> e) (mEfiTimerList s))"
    using assms(1) by (intro sorted_wrt_mono_rel [OF _ sorted_wrt_filter]) (auto simp: timers_ok_def)
  then show ?thesis using assms by (auto simp: timers_ok_def put_event_def)
qed

text \<open>What \<open>CoreSetTimer\<close> promises: \<open>e\<close> is taken off the list and, unless it is cancelled, put
  back behind every timer that is due no later.\<close>

definition timer_set :: "timer_delay \<Rightarrow> u64 \<Rightarrow> nat \<Rightarrow> 'e ev \<Rightarrow> 'e ev \<Rightarrow> bool" where
  "timer_set Type Trigger e s s' \<longleftrightarrow>
     (let others = filter (\<lambda>x. x \<noteq> e) (mEfiTimerList s);
          due = (if Type = TimerCancel then 0 else mEfiSystemTime s + Trigger)
      in mEfiTimerList s' = (if Type = TimerCancel then others
           else filter (\<lambda>x. trig s x \<le> due) others @ e # filter (\<lambda>x. due < trig s x) others) \<and>
         trig s' e = due \<and> (\<forall>x. x \<noteq> e \<longrightarrow> trig s' x = trig s x) \<and>
         map_option Period (ievents s' e) = Some (if Type = TimerPeriodic then Trigger else 0))"

lemma trig_same: "ievents s' x = ievents s x \<Longrightarrow> trig s' x = trig s x"
  by (simp add: trig_def)

text \<open>The state after the lock has been taken, in which the event is unlinked.\<close>

lemma SetTimer_entry:
  assumes "at_rest {} t s" "t \<le> 30" "timers_ok s" "ievents s e = Some ev"
  defines "s1 \<equiv> taken mEfiTimerLock s"
  shows "CoreAcquireLock mEfiTimerLock s = Some s1" "at_rest {mEfiTimerLock} 30 s1" "OwnerTpl (lock_of s1 mEfiTimerLock) = t"
    "ievents s1 = ievents s" "gEventPending s1 = gEventPending s"
    "mEfiTimerList s1 = mEfiTimerList s" "mEfiSystemTime s1 = mEfiSystemTime s" "timers_ok s1" "calm_above t s"
    "(if OnTimerList ev then unlink e (mEfiTimerList s1) else Some (mEfiTimerList s1)) = Some (filter (\<lambda>x. x \<noteq> e) (mEfiTimerList s))"
proof -
  have lk: "LockTpl (lock_of s mEfiTimerLock) = 30" and c: "calm_above t s" using assms(1) by (auto simp: at_rest_def locks_ok_def)
  have e1: "CoreAcquireLock mEfiTimerLock s = Some s1" "at_rest {mEfiTimerLock} 30 s1" "OwnerTpl (lock_of s1 mEfiTimerLock) = t"
      "ievents s1 = ievents s" "mEfiTimerList s1 = mEfiTimerList s" "mEfiSystemTime s1 = mEfiSystemTime s"
      "gEventPending s1 = gEventPending s"
    using enter_lock [OF assms(1), of mEfiTimerLock 30] lk assms(2) by (simp_all add: s1_def)
  then show "CoreAcquireLock mEfiTimerLock s = Some s1" "at_rest {mEfiTimerLock} 30 s1" "OwnerTpl (lock_of s1 mEfiTimerLock) = t"
      "ievents s1 = ievents s" "gEventPending s1 = gEventPending s" by auto
  show l1: "mEfiTimerList s1 = mEfiTimerList s" "mEfiSystemTime s1 = mEfiSystemTime s" using e1(5,6) by auto
  show "timers_ok s1" "calm_above t s" using timers_ok_same [OF e1(4,5)] assms(3) c by auto
  have "distinct (mEfiTimerList s)" "e \<in> set (mEfiTimerList s) \<longleftrightarrow> OnTimerList ev" using assms(3,4) by (auto simp: timers_ok_def)
  moreover have "e \<notin> set xs \<Longrightarrow> filter (\<lambda>x. x \<noteq> e) xs = xs" for xs by (induction xs) auto
  ultimately show "(if OnTimerList ev then unlink e (mEfiTimerList s1) else Some (mEfiTimerList s1)) = Some (filter (\<lambda>x. x \<noteq> e) (mEfiTimerList s))"
    by (auto simp: unlink_def l1 distinct_remove1_removeAll removeAll_filter_not_eq eq_commute)
qed

lemma SetTimer_cancels:
  assumes "at_rest {} t s" "t \<le> 30" "timers_ok s" "e \<noteq> 0" "ievents s e = Some ev" "EventType ev AND EVT_TIMER \<noteq> 0"
  shows "\<exists>s'. CoreSetTimer env (CoreRestoreTpl env (Suc n)) e TimerCancel Trigger s = Some (EFI_SUCCESS, s') \<and>
    at_rest {} t s' \<and> timers_ok s' \<and> timer_set TimerCancel Trigger e s s'"
proof -
  let ?R = "CoreRestoreTpl env (Suc n)"
  let ?others = "filter (\<lambda>x. x \<noteq> e) (mEfiTimerList s)"
  define s1 where "s1 = taken mEfiTimerLock s"
  note s1 = SetTimer_entry [OF assms(1-3,5), folded s1_def]
  note e1 = s1(1-5) and l1 = s1(6,7) and tk1 = s1(8) and calm = s1(9) and un = s1(10)
  define s2 where "s2 = (put_event e (ev\<lparr>OnTimerList := False, TriggerTime := 0, Period := 0\<rparr>) s1)\<lparr>mEfiTimerList := ?others\<rparr>"
  have r2: "at_rest {mEfiTimerLock} 30 s2" "OwnerTpl (lock_of s2 mEfiTimerLock) = t" "calm_above t s2"
    using e1 calm assms(5)
    by (auto simp: s2_def put_event_def at_rest_def locks_ok_def pending_ok_def calm_above_def queues_ok_def)
  have tk2: "timers_ok s2" using unlinked_timers_ok [OF tk1, of e ev 0 0] assms(5) e1(4) l1 by (simp add: s2_def)
  note v = leave_lock [OF r2(1) _ r2(2) assms(2) r2(3), simplified]
  have "timer_set TimerCancel Trigger e s s2" using e1(4)
    by (auto simp: timer_set_def s2_def put_event_def trig_def)
  then have "timer_set TimerCancel Trigger e s (released mEfiTimerLock s2)" by (simp add: timer_set_def trig_def)
  then show ?thesis
    using v assms(4-6) e1(1) un timers_ok_cong [OF v(4) tk2]
    by (intro exI [of _ "released mEfiTimerLock s2"]) (simp add: CoreSetTimer_def s2_def)
qed

lemma SetTimer_arms:
  assumes "at_rest {} t s" "t \<le> 30" "timers_ok s" "e \<noteq> 0" "ievents s e = Some ev" "EventType ev AND EVT_TIMER \<noteq> 0"
    and "Type \<noteq> OtherDelay" "Type \<noteq> TimerCancel" "Trigger \<noteq> 0"
  shows "\<exists>s'. CoreSetTimer env (CoreRestoreTpl env (Suc n)) e Type Trigger s = Some (EFI_SUCCESS, s') \<and>
    at_rest {} t s' \<and> timers_ok s' \<and> timer_set Type Trigger e s s'"
proof -
  let ?R = "CoreRestoreTpl env (Suc n)"
  let ?others = "filter (\<lambda>x. x \<noteq> e) (mEfiTimerList s)"
  define s1 where "s1 = taken mEfiTimerLock s"
  note s1 = SetTimer_entry [OF assms(1-3,5), folded s1_def]
  note e1 = s1(1-5) and l1 = s1(6,7) and tk1 = s1(8) and calm = s1(9) and un = s1(10)
  define P where "P = (if Type = TimerPeriodic then Trigger else 0)"
  define s2 where "s2 = (put_event e (ev\<lparr>OnTimerList := False, TriggerTime := 0, Period := P\<rparr>) s1)\<lparr>mEfiTimerList := ?others\<rparr>"
  have r2: "at_rest {mEfiTimerLock} 30 s2" "OwnerTpl (lock_of s2 mEfiTimerLock) = t" "calm_above t s2" "mEfiSystemTime s2 = mEfiSystemTime s"
    using e1 calm assms(5) l1
    by (auto simp: s2_def put_event_def at_rest_def locks_ok_def pending_ok_def calm_above_def queues_ok_def)
  obtain s3 where s3: "CoreCurrentSystemTime ?R s2 = Some (mEfiSystemTime s, s3)" "at_rest {mEfiTimerLock} 30 s3"
      "ievents s3 = ievents s2" "same_timers s2 s3" "gEventPending s3 = gEventPending s2" "lock_of s3 mEfiTimerLock = lock_of s2 mEfiTimerLock"
    using current_time [OF r2(1), of env n] r2(4) by auto
  let ?due = "mEfiSystemTime s + Trigger"
  define x where "x = ev\<lparr>OnTimerList := False, TriggerTime := ?due, Period := P\<rparr>"
  define s4 where "s4 = put_event e x s3"
  have l3: "mEfiTimerList s3 = ?others" using s3(4) by (simp add: same_timers_def s2_def)
  have "timers_ok ((put_event e x s1)\<lparr>mEfiTimerList := ?others\<rparr>)"
    using unlinked_timers_ok [OF tk1, of e ev P ?due] assms(5) e1(4) l1 by (simp add: x_def)
  moreover have "ievents s4 = ievents ((put_event e x s1)\<lparr>mEfiTimerList := ?others\<rparr>)" "mEfiTimerList s4 = ?others"
    by (simp_all add: s4_def put_event_def s3(3) s2_def l3)
  ultimately have tk4: "timers_ok s4" by (subst timers_ok_same) simp_all
  have e4: "ievents s4 e = Some x" "\<not> OnTimerList x" "Acquired (lock_of s4 mEfiTimerLock)" "TriggerTime x = ?due"
    using s3(2) by (auto simp: s4_def put_event_def x_def at_rest_def locks_ok_def)
  note i = InsertEventTimer_sorted [OF e4(3,1) assms(4) e4(2) tk4]
  define s5 where "s5 = (put_event e (x\<lparr>OnTimerList := True\<rparr>) s4)\<lparr>mEfiTimerList :=
     filter (\<lambda>y. trig s4 y \<le> TriggerTime x) (mEfiTimerList s4) @ e # filter (\<lambda>y. TriggerTime x < trig s4 y) (mEfiTimerList s4)\<rparr>"
  note i = i [folded s5_def]
  have r5: "at_rest {mEfiTimerLock} 30 s5" "OwnerTpl (lock_of s5 mEfiTimerLock) = t" "calm_above t s5"
    using r2 s3 assms(5) e1(4)
    by (auto simp: s5_def s4_def x_def put_event_def s2_def at_rest_def locks_ok_def pending_ok_def calm_above_def queues_ok_def)
  note v = leave_lock [OF r5(1) _ r5(2) assms(2) r5(3), simplified]
  have o: "trig s4 y = trig s y" if "y \<noteq> e" for y using that by (simp add: trig_def s4_def put_event_def s3(3) s2_def e1(4))
  have lf: "filter (\<lambda>y. trig s4 y \<le> T) ?others = filter (\<lambda>y. trig s y \<le> T) ?others"
    "filter (\<lambda>y. T < trig s4 y) ?others = filter (\<lambda>y. T < trig s y) ?others" for T
    using o by (auto intro!: filter_cong)
  have "mEfiTimerList s5 = filter (\<lambda>y. trig s y \<le> ?due) ?others @ e # filter (\<lambda>y. ?due < trig s y) ?others"
    using lf by (simp add: s5_def e4(4)) (simp add: s4_def put_event_def l3)
  moreover have "trig s5 e = ?due" "map_option Period (ievents s5 e) = Some P" by (simp_all add: s5_def trig_def put_event_def x_def)
  moreover have "trig s5 y = trig s y" if "y \<noteq> e" for y using o [OF that] that by (simp add: s5_def trig_def put_event_def)
  ultimately have "timer_set Type Trigger e s s5" using assms(8) by (simp add: timer_set_def P_def Let_def)
  then have "timer_set Type Trigger e s (released mEfiTimerLock s5)" by (simp add: timer_set_def trig_def)
  moreover have "CoreSetTimer env ?R e Type Trigger s = Some (EFI_SUCCESS, released mEfiTimerLock s5)"
  proof -
    let ?u = "(put_event e (ev\<lparr>OnTimerList := False, TriggerTime := 0, Period := 0\<rparr>) s1)\<lparr>mEfiTimerList := ?others\<rparr>"
    have "(if Type = TimerPeriodic then put_event e (ev\<lparr>OnTimerList := False, TriggerTime := 0, Period := Trigger\<rparr>) ?u else ?u) = s2"
      by (simp add: s2_def P_def put_event_def)
    moreover have "ievents s2 e = Some (ev\<lparr>OnTimerList := False, TriggerTime := 0, Period := P\<rparr>)" by (simp add: s2_def put_event_def)
    moreover have "CoreInsertEventTimer e (put_event e (ev\<lparr>OnTimerList := False, Period := P, TriggerTime := ?due\<rparr>) s3) = Some s5"
    proof -
      have "ev\<lparr>OnTimerList := False, Period := P, TriggerTime := ?due\<rparr> = x" by (cases ev) (simp add: x_def)
      then show ?thesis using i(1) by (simp add: s4_def)
    qed
    ultimately show ?thesis
      using assms(4-9) e1(1) un s3(1,3) v(1) by (cases "Type = TimerPeriodic") (simp_all add: CoreSetTimer_def)
  qed
  ultimately show ?thesis using v(2) timers_ok_cong [OF v(4) i(2)] by blast
qed

text \<open>C19. Setting a timer to a time that is not zero, or cancelling it, keeps the timer database sorted: the event is removed and put behind every timer that
  is due no later, its period is recorded, no other timer changes, and the caller's priority is restored.  The event is a timer event, the kind of the
  request is one that is defined, and the caller is at priority 30 or below in a consistent state.  (A time of zero, which asks for the next tick or signals
  the check of the timers, is not covered.)\<close>

theorem SetTimer_sorts:
  assumes "at_rest {} t s" "t \<le> 30" "timers_ok s" "e \<noteq> 0" "ievents s e = Some ev" "EventType ev AND EVT_TIMER \<noteq> 0"
    and "Type \<noteq> OtherDelay" "Trigger \<noteq> 0 \<or> Type = TimerCancel"
  shows "\<exists>s'. CoreSetTimer env (CoreRestoreTpl env (Suc n)) e Type Trigger s = Some (EFI_SUCCESS, s') \<and>
    at_rest {} t s' \<and> timers_ok s' \<and> timer_set Type Trigger e s s'"
  using SetTimer_cancels [OF assms(1-6)] SetTimer_arms [OF assms(1-7)] assms(8) by (cases "Type = TimerCancel") auto

section \<open>Checking the timers\<close>

definition per :: "'e ev \<Rightarrow> nat \<Rightarrow> u64" where
  "per s x = (case map_option Period (ievents s x) of Some p \<Rightarrow> p | None \<Rightarrow> 0)"

definition signalled_event :: "'e ev \<Rightarrow> nat \<Rightarrow> bool" where
  "signalled_event s x \<longleftrightarrow> (\<exists>ev. ievents s x = Some ev \<and> SignalCount ev \<noteq> 0)"

lemma signalled_counts: "signalled_event s x \<longleftrightarrow> (\<exists>n. counts s x = Some n \<and> n \<noteq> 0)"
  by (auto simp: signalled_event_def counts_def)

text \<open>The due time of a periodic timer after it has fired once.\<close>

definition next_due :: "u64 \<Rightarrow> u64 \<Rightarrow> u64 \<Rightarrow> u64" where
  "next_due Now t p = (if t + p \<le> Now then Now else t + p)"

definition in_check :: "'e ev \<Rightarrow> bool" where
  "in_check s \<longleftrightarrow> at_rest {mEfiTimerLock} 30 s \<and> events_ok s \<and> timers_ok s \<and>
     mEfiCheckTimerEvent s \<noteq> 0 \<and> ievents s (mEfiCheckTimerEvent s) \<noteq> None"

lemma same_timers_refl: "same_timers s s"
  by (simp add: same_timers_def)

lemma per_cong: "same_timers s s' \<Longrightarrow> per s' = per s"
  unfolding per_def by (rule ext) (simp only: same_timers_field plain_fields)

lemma signalled_mono: "same_timers s s' \<Longrightarrow> signalled_event s x \<Longrightarrow> signalled_event s' x"
proof -
  assume st: "same_timers s s'" and "signalled_event s x"
  then obtain ev where ev: "ievents s x = Some ev" "SignalCount ev \<noteq> 0" by (auto simp: signalled_event_def)
  obtain ev' where "ievents s' x = Some ev'" using same_timers_event(1) [OF st ev(1)] by auto
  then show ?thesis using st ev unfolding same_timers_def signalled_event_def by metis
qed

text \<open>Writing the timer fields of an event.\<close>

lemma at_rest_put:
  assumes "at_rest H t s" "events_ok s" "ievents s e = Some ev" "OnNotifyQueue x = OnNotifyQueue ev" "NotifyTpl x = NotifyTpl ev"
  shows "at_rest H t ((put_event e x s)\<lparr>mEfiTimerList := l\<rparr>)" "events_ok ((put_event e x s)\<lparr>mEfiTimerList := l\<rparr>)"
    "at_rest H t (put_event e x s)" "events_ok (put_event e x s)"
  using assms
  by (auto simp: at_rest_def locks_ok_def pending_ok_def calm_above_def queues_ok_def events_ok_def put_event_def)

lemma signal_timers:
  assumes "at_rest H t s" "30 \<le> t" "events_ok s" "e \<noteq> 0" "ievents s e \<noteq> None"
  obtains s' where "CoreSignalEvent (CoreRestoreTpl env (Suc n)) e s = Some (EFI_SUCCESS, s')" "at_rest H t s'" "events_ok s'"
    "same_timers s s'" "signalled_event s' e" "\<And>x. signalled_event s' x \<Longrightarrow> signalled_event s x \<or> x = e"
proof -
  obtain ev where ev: "ievents s e = Some ev" using assms(5) by auto
  from SignalEvent_frame [OF assms(1-4) ev, of env n] obtain s' where
    "CoreSignalEvent (CoreRestoreTpl env (Suc n)) e s = Some (EFI_SUCCESS, s')" "at_rest H t s'" "same_timers s s'" "signalled_event s' e"
    "\<forall>x. x \<noteq> e \<longrightarrow> counts s' x = counts s x"
    by (auto simp: signalled_event_def)
  then show thesis using that [of s'] same_timers_ok assms(3) by (metis signalled_counts)
qed

text \<open>A periodic timer, off the list, is put back with its next due time.\<close>

lemma rearm_periodic:
  assumes "at_rest {mEfiTimerLock} 30 s" "events_ok s" "timers_ok s" "mEfiCheckTimerEvent s \<noteq> 0" "ievents s (mEfiCheckTimerEvent s) \<noteq> None"
    and "ievents s e = Some ev" "e \<noteq> 0" "\<not> OnTimerList ev" "Period ev \<noteq> 0"
  shows "\<exists>s'. rearm (CoreRestoreTpl env (Suc n)) Now e s = Some s' \<and> in_check s' \<and> set (mEfiTimerList s') = insert e (set (mEfiTimerList s)) \<and>
    trig s' e = next_due Now (TriggerTime ev) (Period ev) \<and> (\<forall>x. x \<noteq> e \<longrightarrow> trig s' x = trig s x) \<and> per s' = per s \<and>
    (\<forall>x. signalled_event s x \<longrightarrow> signalled_event s' x) \<and> (\<forall>x. signalled_event s' x \<longrightarrow> signalled_event s x \<or> x = mEfiCheckTimerEvent s) \<and>
    mEfiCheckTimerEvent s' = mEfiCheckTimerEvent s \<and>
    OwnerTpl (lock_of s' mEfiTimerLock) = OwnerTpl (lock_of s mEfiTimerLock)"
proof -
  let ?T = "next_due Now (TriggerTime ev) (Period ev)" and ?c = "mEfiCheckTimerEvent s"
  define y where "y = ev\<lparr>TriggerTime := ?T\<rparr>"
  define s3 where "s3 = put_event e y s"
  have y: "OnNotifyQueue y = OnNotifyQueue ev" "NotifyTpl y = NotifyTpl ev" "Period y = Period ev" "SignalCount y = SignalCount ev"
      "OnTimerList y = OnTimerList ev" by (simp_all add: y_def)
  note r3 = at_rest_put(3,4) [OF assms(1,2,6) y(1,2), folded s3_def]
  have o3: "OwnerTpl (lock_of s3 mEfiTimerLock) = OwnerTpl (lock_of s mEfiTimerLock)" by (simp add: s3_def put_event_def)
  have f3: "ievents s3 e = Some y" "mEfiTimerList s3 = mEfiTimerList s" "mEfiCheckTimerEvent s3 = ?c" "ievents s3 ?c \<noteq> None"
      "trig s3 e = ?T" "x \<noteq> e \<Longrightarrow> trig s3 x = trig s x" "per s3 = per s" "signalled_event s3 x = signalled_event s x" for x
    using assms(5,6) y by (auto simp: s3_def put_event_def trig_def per_def signalled_event_def y_def fun_eq_iff)
  have "e \<notin> set (mEfiTimerList s)" using assms(3,6,8) by (auto simp: timers_ok_def)
  then have "sorted_wrt (\<lambda>a b. trig s3 a \<le> trig s3 b) (mEfiTimerList s3)"
    using assms(3) f3(6) unfolding f3(2) timers_ok_def
    by (elim conjE sorted_wrt_mono_rel [rotated]) (metis (no_types, lifting))
  then have k3: "timers_ok s3" using assms(3,6) y(5) f3(2) by (auto simp: timers_ok_def s3_def put_event_def)
  obtain s4 where s4: "(if TriggerTime ev + Period ev \<le> Now
      then do { (_, s) \<leftarrow> CoreSignalEvent (CoreRestoreTpl env (Suc n)) ?c s3; Some s } else Some s3) = Some s4"
      "at_rest {mEfiTimerLock} 30 s4" "events_ok s4" "same_timers s3 s4" "\<And>x. signalled_event s4 x \<Longrightarrow> signalled_event s3 x \<or> x = ?c"
  proof (cases "TriggerTime ev + Period ev \<le> Now")
    case True
    have "?c \<noteq> 0" using assms(4) .
    from signal_timers [OF r3(1) _ r3(2) this f3(4), of env n] obtain s4 where
      "CoreSignalEvent (CoreRestoreTpl env (Suc n)) ?c s3 = Some (EFI_SUCCESS, s4)" "at_rest {mEfiTimerLock} 30 s4" "events_ok s4" "same_timers s3 s4"
        "\<And>x. signalled_event s4 x \<Longrightarrow> signalled_event s3 x \<or> x = ?c"
      by blast
    then show ?thesis using that True by simp
  next
    case False
    then show ?thesis using that [of s3] r3 same_timers_refl [of s3] by simp
  qed
  obtain z where z: "ievents s4 e = Some z" "plain z = plain y" using same_timers_event(1) [OF s4(4) f3(1)] by blast
  have zt: "\<not> OnTimerList z" "TriggerTime z = ?T"
    using plain_cong(3,5) [OF z(2)] y(5) assms(8) by (simp_all add: y_def)
  have acq: "Acquired (lock_of s4 mEfiTimerLock)" using s4(2) by (simp add: at_rest_def locks_ok_def)
  note k4 = timers_ok_cong [OF s4(4) k3]
  note ins = InsertEventTimer_sorted [OF acq z(1) assms(7) zt(1) k4]
  define s5 where "s5 = (put_event e (z\<lparr>OnTimerList := True\<rparr>) s4)\<lparr>mEfiTimerList :=
    filter (\<lambda>x. trig s4 x \<le> TriggerTime z) (mEfiTimerList s4) @ e # filter (\<lambda>x. TriggerTime z < trig s4 x) (mEfiTimerList s4)\<rparr>"
  note ins = ins [folded s5_def]
  have r5: "at_rest {mEfiTimerLock} 30 s5" "events_ok s5"
    unfolding s5_def by (rule at_rest_put(1,2) [OF s4(2,3) z(1)]; simp)+
  have f5: "mEfiCheckTimerEvent s5 = ?c" "ievents s5 ?c \<noteq> None" "set (mEfiTimerList s5) = insert e (set (mEfiTimerList s))"
    using s4(4) f3(2-4) same_timers_event(2) [OF s4(4), of ?c] by (auto simp: s5_def put_event_def same_timers_def)
  have o5: "OwnerTpl (lock_of s5 mEfiTimerLock) = OwnerTpl (lock_of s mEfiTimerLock)" using s4(4) o3 by (simp add: s5_def put_event_def same_timers_def)
  have g5: "trig s5 e = ?T" "x \<noteq> e \<Longrightarrow> trig s5 x = trig s4 x" "per s5 = per s4" "signalled_event s5 x = signalled_event s4 x" for x
    using z zt by (auto simp: s5_def put_event_def trig_def per_def signalled_event_def fun_eq_iff)
  have "rearm (CoreRestoreTpl env (Suc n)) Now e s = Some s5"
  proof (cases "TriggerTime ev + Period ev \<le> Now")
    case True
    then have "put_event e (ev\<lparr>TriggerTime := Now\<rparr>) s = s3" by (simp add: s3_def y_def next_due_def)
    then show ?thesis using True assms(6,9) s4(1) ins(1) by (auto simp: rearm_def)
  next
    case False
    then have "put_event e (ev\<lparr>TriggerTime := TriggerTime ev + Period ev\<rparr>) s = s3" by (simp add: s3_def y_def next_due_def)
    then show ?thesis using False assms(6,9) s4(1) ins(1) by (auto simp: rearm_def)
  qed
  then show ?thesis
    using r5 ins(2) f5 o5 g5 f3(6-8) assms(4) trig_cong [OF s4(4)] per_cong [OF s4(4)] signalled_mono [OF s4(4)] s4(5)
    by (intro exI [of _ s5]) (simp add: in_check_def s5_def [symmetric])
qed

text \<open>One turn of the loop: the timer at the head has fired.\<close>

definition fired :: "u64 \<Rightarrow> nat \<Rightarrow> 'e ev \<Rightarrow> 'e ev \<Rightarrow> bool" where
  "fired Now e s s' \<longleftrightarrow> in_check s' \<and> signalled_event s' e \<and> (\<forall>x. signalled_event s x \<longrightarrow> signalled_event s' x) \<and> per s' = per s \<and>
     (\<forall>x. signalled_event s' x \<longrightarrow> signalled_event s x \<or> x = e \<or> x = mEfiCheckTimerEvent s) \<and>
     (\<forall>x. x \<noteq> e \<longrightarrow> trig s' x = trig s x) \<and> trig s' e = (if per s e = 0 then trig s e else next_due Now (trig s e) (per s e)) \<and>
     set (mEfiTimerList s') = (if per s e = 0 then set (mEfiTimerList s) - {e} else set (mEfiTimerList s)) \<and>
     mEfiCheckTimerEvent s' = mEfiCheckTimerEvent s \<and>
     OwnerTpl (lock_of s' mEfiTimerLock) = OwnerTpl (lock_of s mEfiTimerLock)"

lemma fire_one:
  assumes "in_check s" "mEfiTimerList s = e # l" "ievents s e = Some ev"
  shows "\<exists>s'. (do { (_, s) \<leftarrow> CoreSignalEvent (CoreRestoreTpl env (Suc n)) e
                           ((put_event e (ev\<lparr>OnTimerList := False\<rparr>) s)\<lparr>mEfiTimerList := l\<rparr>);
                   rearm (CoreRestoreTpl env (Suc n)) Now e s }) = Some s' \<and> fired Now e s s'"
proof -
  let ?c = "mEfiCheckTimerEvent s"
  have i: "at_rest {mEfiTimerLock} 30 s" "events_ok s" "timers_ok s" "?c \<noteq> 0" "ievents s ?c \<noteq> None" using assms(1) by (auto simp: in_check_def)
  have "e \<in> set (mEfiTimerList s)" using assms(2) by simp
  then have "\<exists>ev. ievents s e = Some ev \<and> OnTimerList ev" using i(3) unfolding timers_ok_def by blast
  then have "OnTimerList ev" using assms(3) by simp
  moreover have "e \<noteq> 0" "e \<notin> set l" using i(3) assms(2) by (auto simp: timers_ok_def)
  ultimately have e: "e \<noteq> 0" "e \<notin> set l" "OnTimerList ev" by auto
  define s1 where "s1 = (put_event e (ev\<lparr>OnTimerList := False\<rparr>) s)\<lparr>mEfiTimerList := l\<rparr>"
  note r1 = at_rest_put(1,2) [OF i(1,2) assms(3), of "ev\<lparr>OnTimerList := False\<rparr>" l, simplified, folded s1_def]
  have f1: "trig s1 = trig s" "per s1 = per s" "signalled_event s1 = signalled_event s" "mEfiCheckTimerEvent s1 = ?c" "ievents s1 ?c \<noteq> None"
      "ievents s1 e = Some (ev\<lparr>OnTimerList := False\<rparr>)" "mEfiTimerList s1 = l"
    using assms(3) i(5) by (auto simp: s1_def put_event_def trig_def per_def signalled_event_def fun_eq_iff)
  have o1: "OwnerTpl (lock_of s1 mEfiTimerLock) = OwnerTpl (lock_of s mEfiTimerLock)" by (simp add: s1_def put_event_def)
  have k1: "timers_ok s1"
    using i(3) assms(2,3) e unfolding timers_ok_def f1(1,7) by (auto simp: s1_def put_event_def)
  have "ievents s1 e \<noteq> None" using f1(6) by simp
  from signal_timers [OF r1(1) _ r1(2) e(1) this, of env n] obtain s2 where
    s2: "CoreSignalEvent (CoreRestoreTpl env (Suc n)) e s1 = Some (EFI_SUCCESS, s2)" "at_rest {mEfiTimerLock} 30 s2" "events_ok s2"
      "same_timers s1 s2" "signalled_event s2 e" "\<And>x. signalled_event s2 x \<Longrightarrow> signalled_event s1 x \<or> x = e" by blast
  obtain z where z: "ievents s2 e = Some z" "plain z = plain (ev\<lparr>OnTimerList := False\<rparr>)"
    using same_timers_event(1) [OF s2(4) f1(6)] by blast
  have zf: "\<not> OnTimerList z" "Period z = Period ev" "TriggerTime z = TriggerTime ev"
    using plain_cong(3-5) [OF z(2)] by simp_all
  have f2: "timers_ok s2" "mEfiCheckTimerEvent s2 = ?c" "mEfiTimerList s2 = l" "ievents s2 ?c \<noteq> None" "trig s2 = trig s" "per s2 = per s"
    using timers_ok_cong [OF s2(4) k1] s2(4) f1(4,5,7) same_timers_event(2) [OF s2(4), of ?c] trig_cong [OF s2(4)] per_cong [OF s2(4)] f1(1,2)
    by (auto simp: same_timers_def)
  have o2: "OwnerTpl (lock_of s2 mEfiTimerLock) = OwnerTpl (lock_of s mEfiTimerLock)" using s2(4) o1 by (simp add: same_timers_def)
  have te: "trig s e = TriggerTime ev" "per s e = Period ev" using assms(3) by (simp_all add: trig_def per_def)
  show ?thesis
  proof (cases "Period ev = 0")
    case True
    then have "rearm (CoreRestoreTpl env (Suc n)) Now e s2 = Some s2" using z(1) zf(2) by (simp add: rearm_def)
    moreover have "fired Now e s s2"
      using True s2 f2 o2 i(4) te signalled_mono [OF s2(4)] f1(3) assms(2) e(2) by (auto simp: fired_def in_check_def)
    ultimately show ?thesis using s2(1) by (auto simp: s1_def)
  next
    case False
    have "mEfiCheckTimerEvent s2 \<noteq> 0" "ievents s2 (mEfiCheckTimerEvent s2) \<noteq> None" "Period z \<noteq> 0"
      using f2 i(4) zf False by auto
    from rearm_periodic [OF s2(2,3) f2(1) this(1,2) z(1) e(1) zf(1) this(3), of env n Now] obtain s3 where
      s3: "rearm (CoreRestoreTpl env (Suc n)) Now e s2 = Some s3" "in_check s3" "set (mEfiTimerList s3) = insert e (set (mEfiTimerList s2))"
        "trig s3 e = next_due Now (TriggerTime z) (Period z)" "\<forall>x. x \<noteq> e \<longrightarrow> trig s3 x = trig s2 x" "per s3 = per s2"
        "\<forall>x. signalled_event s2 x \<longrightarrow> signalled_event s3 x" "\<forall>x. signalled_event s3 x \<longrightarrow> signalled_event s2 x \<or> x = mEfiCheckTimerEvent s2" "mEfiCheckTimerEvent s3 = mEfiCheckTimerEvent s2"
        "OwnerTpl (lock_of s3 mEfiTimerLock) = OwnerTpl (lock_of s2 mEfiTimerLock)" by blast
    have sb: "signalled_event s3 x \<Longrightarrow> signalled_event s x \<or> x = e \<or> x = ?c" for x using s3(8) s2(6) [of x] f1(3) f2(2) by auto
    have "fired Now e s s3"
      using False s3(1-7,9,10) sb s2(5) f2 o2 te zf signalled_mono [OF s2(4)] f1(3) assms(2) by (auto simp: fired_def)
    then show ?thesis using s2(1) s3(1) by (auto simp: s1_def)
  qed
qed

lemma due_head:
  assumes "in_check s" "mEfiTimerList s = e # l" "x \<in> set (mEfiTimerList s)" "trig s x \<le> Now"
  shows "trig s e \<le> Now"
proof -
  have "sorted_wrt (\<lambda>a b. trig s a \<le> trig s b) (e # l)" using assms(1,2) by (simp add: in_check_def timers_ok_def)
  then show ?thesis using assms(2-4) by (auto intro: order_trans)
qed

lemma fire_timers_step:
  assumes "in_check s" "mEfiTimerList s = e # l" "trig s e \<le> Now"
  obtains s' where "fired Now e s s'"
    "fire_timers (CoreRestoreTpl env (Suc k)) Now 0 s = None"
    "\<And>n. fire_timers (CoreRestoreTpl env (Suc k)) Now (Suc n) s = fire_timers (CoreRestoreTpl env (Suc k)) Now n s'"
proof -
  obtain ev where ev: "ievents s e = Some ev" using assms(1,2) by (auto simp: in_check_def timers_ok_def)
  have t: "\<not> Now < TriggerTime ev" using assms(3) ev by (simp add: trig_def)
  from fire_one [OF assms(1,2) ev, of env k Now] obtain s' where s': "fired Now e s s'"
    "(do { (_, s) \<leftarrow> CoreSignalEvent (CoreRestoreTpl env (Suc k)) e ((put_event e (ev\<lparr>OnTimerList := False\<rparr>) s)\<lparr>mEfiTimerList := l\<rparr>);
           rearm (CoreRestoreTpl env (Suc k)) Now e s }) = Some s'" by blast
  show thesis
  proof (rule that [OF s'(1)])
    show "fire_timers (CoreRestoreTpl env (Suc k)) Now 0 s = None"
      using ev t assms(2) by (simp add: fire_timers.simps)
    show "fire_timers (CoreRestoreTpl env (Suc k)) Now (Suc n) s = fire_timers (CoreRestoreTpl env (Suc k)) Now n s'" for n
      using ev t assms(2) s'(2) by (subst fire_timers.simps) auto
  qed
qed

lemma fire_timers_done:
  assumes "in_check s" "\<forall>x\<in>set (mEfiTimerList s). Now < trig s x"
  shows "fire_timers R Now n s = Some s"
  using assms by (cases "mEfiTimerList s") (auto simp: fire_timers.simps trig_def in_check_def timers_ok_def split: option.splits)

text \<open>How often a timer fires in one check: a periodic timer that is due at least one period ago
  fires twice, because it is first put back at the present time.\<close>

definition turns :: "u64 \<Rightarrow> 'e ev \<Rightarrow> nat \<Rightarrow> nat" where
  "turns Now s x = (if Now < trig s x then 0 else if per s x = 0 \<or> Now < trig s x + per s x then 1 else 2)"

definition after_check :: "u64 \<Rightarrow> u64 \<Rightarrow> u64 \<Rightarrow> u64" where
  "after_check Now t p = (if Now < t then t else if t + p \<le> Now then Now + p else t + p)"

definition all_fired :: "u64 \<Rightarrow> 'e ev \<Rightarrow> 'e ev \<Rightarrow> bool" where
  "all_fired Now s s' \<longleftrightarrow>
     (\<forall>x. x \<in> set (mEfiTimerList s') \<longleftrightarrow> x \<in> set (mEfiTimerList s) \<and> (Now < trig s x \<or> per s x \<noteq> 0)) \<and>
     (\<forall>x\<in>set (mEfiTimerList s). trig s x \<le> Now \<longrightarrow> signalled_event s' x) \<and>
     (\<forall>x\<in>set (mEfiTimerList s'). Now < trig s' x \<and> trig s' x = after_check Now (trig s x) (per s x)) \<and>
     (\<forall>x. signalled_event s x \<longrightarrow> signalled_event s' x) \<and> per s' = per s \<and> mEfiCheckTimerEvent s' = mEfiCheckTimerEvent s \<and>
     (\<forall>x. signalled_event s' x \<longrightarrow> signalled_event s x \<or> x \<in> set (mEfiTimerList s) \<and> trig s x \<le> Now \<or> x = mEfiCheckTimerEvent s)"

lemma no_wrap:
  fixes a b Now :: u64
  assumes "unat Now + unat b < 2 ^ 64" "b \<noteq> 0"
  shows "Now < Now + b" "a \<le> Now \<Longrightarrow> a \<le> a + b"
proof -
  have u: "unat (Now + b) = unat Now + unat b" using assms(1) by (simp add: unat_word_ariths(1))
  have "unat b \<noteq> 0" using assms(2) by (simp add: unat_eq_zero)
  then show "Now < Now + b" using u by (simp add: word_less_nat_alt)
  assume "a \<le> Now"
  then have "unat a + unat b < 2 ^ 64" using assms(1) by (simp add: word_le_nat_alt)
  then have "unat (a + b) = unat a + unat b" by (simp add: unat_word_ariths(1))
  then show "a \<le> a + b" by (simp add: word_le_nat_alt)
qed

lemma fired_turns:
  assumes "fired Now e s s'" "e \<in> set (mEfiTimerList s)" "trig s e \<le> Now"
    and "\<forall>x\<in>set (mEfiTimerList s). unat Now + unat (per s x) < 2 ^ 64"
  shows "(\<Sum>x\<in>set (mEfiTimerList s'). turns Now s' x) < (\<Sum>x\<in>set (mEfiTimerList s). turns Now s x)"
proof -
  let ?L = "set (mEfiTimerList s)"
  have f: "per s' = per s" "\<And>x. x \<noteq> e \<Longrightarrow> trig s' x = trig s x"
      "trig s' e = (if per s e = 0 then trig s e else next_due Now (trig s e) (per s e))"
      "set (mEfiTimerList s') = (if per s e = 0 then ?L - {e} else ?L)" using assms(1) by (simp_all add: fired_def)
  have o: "(\<Sum>x\<in>?L - {e}. turns Now s' x) = (\<Sum>x\<in>?L - {e}. turns Now s x)"
    using f(1,2) by (intro sum.cong) (simp_all add: turns_def)
  have r: "(\<Sum>x\<in>?L. g x) = g e + (\<Sum>x\<in>?L - {e}. g x)" for g :: "nat \<Rightarrow> nat"
    using assms(2) by (simp add: sum.remove)
  show ?thesis
  proof (cases "per s e = 0")
    case True
    then have "0 < turns Now s e" using assms(3) by (simp add: turns_def)
    then show ?thesis using True f(4) o r by simp
  next
    case False
    have "unat Now + unat (per s e) < 2 ^ 64" using assms(2,4) by blast
    note n = no_wrap(1) [OF this False]
    have "turns Now s' e < turns Now s e"
      using False assms(3) n f(1,3) by (auto simp: turns_def next_due_def)
    then show ?thesis using False f(4) o r by simp
  qed
qed

lemma all_fired_step:
  assumes "fired Now e s s1" "e \<in> set (mEfiTimerList s)" "trig s e \<le> Now" "unat Now + unat (per s e) < 2 ^ 64"
    and "all_fired Now s1 s'"
  shows "all_fired Now s s'"
proof -
  have f: "per s1 = per s" "\<And>x. x \<noteq> e \<Longrightarrow> trig s1 x = trig s x" "signalled_event s1 e"
      "\<And>x. signalled_event s x \<Longrightarrow> signalled_event s1 x"
      "trig s1 e = (if per s e = 0 then trig s e else next_due Now (trig s e) (per s e))"
      "set (mEfiTimerList s1) = (if per s e = 0 then set (mEfiTimerList s) - {e} else set (mEfiTimerList s))"
    using assms(1) by (auto simp: fired_def)
  have n: "mEfiCheckTimerEvent s1 = mEfiCheckTimerEvent s" "\<And>x. signalled_event s1 x \<Longrightarrow> signalled_event s x \<or> x = e \<or> x = mEfiCheckTimerEvent s"
    using assms(1) by (auto simp: fired_def)
  have a: "\<forall>x. x \<in> set (mEfiTimerList s') \<longleftrightarrow> x \<in> set (mEfiTimerList s1) \<and> (Now < trig s1 x \<or> per s1 x \<noteq> 0)"
      "\<And>x. x \<in> set (mEfiTimerList s1) \<Longrightarrow> trig s1 x \<le> Now \<Longrightarrow> signalled_event s' x"
      "\<And>x. x \<in> set (mEfiTimerList s') \<Longrightarrow> Now < trig s' x"
      "\<And>x. x \<in> set (mEfiTimerList s') \<Longrightarrow> trig s' x = after_check Now (trig s1 x) (per s1 x)"
      "\<And>x. signalled_event s1 x \<Longrightarrow> signalled_event s' x" "per s' = per s1"
      "mEfiCheckTimerEvent s' = mEfiCheckTimerEvent s1"
      "\<And>x. signalled_event s' x \<Longrightarrow> signalled_event s1 x \<or> x \<in> set (mEfiTimerList s1) \<and> trig s1 x \<le> Now \<or> x = mEfiCheckTimerEvent s1"
    using assms(5) unfolding all_fired_def by blast+
  have m: "x \<in> set (mEfiTimerList s') \<longleftrightarrow> x \<in> set (mEfiTimerList s) \<and> (Now < trig s x \<or> per s x \<noteq> 0)" for x
    using a(1) f(1,2,6) assms(2,3) by (cases "x = e") auto
  have c: "after_check Now (trig s1 e) (per s e) = after_check Now (trig s e) (per s e)" if "per s e \<noteq> 0"
    using that f(5) assms(3) no_wrap(1) [OF assms(4) that] by (auto simp: after_check_def next_due_def)
  have t: "trig s' x = after_check Now (trig s x) (per s x)" if "x \<in> set (mEfiTimerList s')" for x
  proof (cases "x = e")
    case True
    then have "per s e \<noteq> 0" using m [of x] that assms(3) by auto
    then show ?thesis using c a(4) [OF that] f(1) True by simp
  qed (use a(4) [OF that] f(1,2) in simp)
  have g: "signalled_event s' x" if h: "x \<in> set (mEfiTimerList s)" "trig s x \<le> Now" for x
  proof (cases "x = e")
    case True
    then show ?thesis using a(5) f(3) by blast
  next
    case False
    then have "x \<in> set (mEfiTimerList s1)" "trig s1 x \<le> Now" using h f(2,6) by simp_all
    then show ?thesis by (rule a(2))
  qed
  have o: "signalled_event s x \<or> x \<in> set (mEfiTimerList s) \<and> trig s x \<le> Now \<or> x = mEfiCheckTimerEvent s" if h: "signalled_event s' x" for x
  proof (cases "x = e")
    case False
    then show ?thesis using a(8) [OF h] n f(2,6) by (auto split: if_splits)
  qed (use assms(2,3) in simp)
  have "mEfiCheckTimerEvent s' = mEfiCheckTimerEvent s" "per s' = per s" "\<And>x. signalled_event s x \<Longrightarrow> signalled_event s' x"
    using a(5,6,7) n(1) f(1,4) by simp_all
  then show ?thesis unfolding all_fired_def using m t g a(3) o by blast
qed

lemma fire_timers_all:
  assumes "in_check s" "\<forall>x\<in>set (mEfiTimerList s). unat Now + unat (per s x) < 2 ^ 64"
    and "(\<Sum>x\<in>set (mEfiTimerList s). turns Now s x) \<le> n"
  shows "\<exists>s'. fire_timers (CoreRestoreTpl env (Suc k)) Now n s = Some s' \<and> in_check s' \<and> all_fired Now s s' \<and>
    OwnerTpl (lock_of s' mEfiTimerLock) = OwnerTpl (lock_of s mEfiTimerLock)"
  using assms
proof (induction n arbitrary: s)
  case 0
  have "turns Now s x = 0" if "x \<in> set (mEfiTimerList s)" for x using 0(3) that by simp
  then have "\<forall>x\<in>set (mEfiTimerList s). Now < trig s x" by (force simp: turns_def split: if_split_asm)
  then show ?case using fire_timers_done [OF 0(1)] 0(1) by (auto simp: all_fired_def after_check_def dest: leD)
next
  case (Suc n)
  show ?case
  proof (cases "\<forall>x\<in>set (mEfiTimerList s). Now < trig s x")
    case True
    then show ?thesis using fire_timers_done [OF Suc(2)] Suc(2) by (auto simp: all_fired_def after_check_def dest: leD)
  next
    case False
    then obtain e l x where l: "mEfiTimerList s = e # l" and x: "x \<in> set (mEfiTimerList s)" "trig s x \<le> Now"
      by (cases "mEfiTimerList s") (auto simp: not_less)
    note t = due_head [OF Suc(2) l x]
    obtain s1 where s1: "fired Now e s s1"
      "fire_timers (CoreRestoreTpl env (Suc k)) Now (Suc n) s = fire_timers (CoreRestoreTpl env (Suc k)) Now n s1"
      using fire_timers_step [OF Suc(2) l t] by metis
    have e: "e \<in> set (mEfiTimerList s)" using l by simp
    have "in_check s1" "\<forall>x\<in>set (mEfiTimerList s1). unat Now + unat (per s1 x) < 2 ^ 64"
      using s1(1) Suc(3) by (auto simp: fired_def)
    moreover have "(\<Sum>x\<in>set (mEfiTimerList s1). turns Now s1 x) \<le> n"
      using fired_turns [OF s1(1) e t Suc(3)] Suc(4) by simp
    ultimately obtain s' where s': "fire_timers (CoreRestoreTpl env (Suc k)) Now n s1 = Some s'" "in_check s'" "all_fired Now s1 s'"
        "OwnerTpl (lock_of s' mEfiTimerLock) = OwnerTpl (lock_of s1 mEfiTimerLock)"
      using Suc.IH by blast
    have "unat Now + unat (per s e) < 2 ^ 64" using Suc(3) e by blast
    then show ?thesis using all_fired_step [OF s1(1) e t _ s'(3)] s' s1 by (auto simp: fired_def)
  qed
qed

lemma turns_bound:
  assumes "distinct l"
  shows "(\<Sum>x\<in>set l. turns Now s x) \<le> 2 * length l"
proof -
  have "(\<Sum>x\<in>set l. turns Now s x) \<le> card (set l) * 2"
    using sum_bounded_above [of "set l" "turns Now s" 2] by (simp add: turns_def)
  then show ?thesis using assms by (simp add: distinct_card)
qed

text \<open>The state in which the loop of \<open>CoreCheckTimers\<close> starts.\<close>

lemma CheckTimers_entry:
  assumes "at_rest {} 30 s" "events_ok s" "timers_ok s" "mEfiCheckTimerEvent s \<noteq> 0" "ievents s (mEfiCheckTimerEvent s) \<noteq> None"
  obtains s2 where "CoreAcquireLock mEfiTimerLock s = Some (taken mEfiTimerLock s)"
    "CoreCurrentSystemTime (CoreRestoreTpl env (Suc k)) (taken mEfiTimerLock s) = Some (mEfiSystemTime s, s2)"
    "in_check s2" "mEfiTimerList s2 = mEfiTimerList s" "OwnerTpl (lock_of s2 mEfiTimerLock) = 30" "per s2 = per s" "trig s2 = trig s"
    "signalled_event s2 = signalled_event s" "mEfiCheckTimerEvent s2 = mEfiCheckTimerEvent s"
proof -
  let ?R = "CoreRestoreTpl env (Suc k)"
  define s1 where "s1 = taken mEfiTimerLock s"
  have lk: "30 = LockTpl (lock_of s mEfiTimerLock)" using assms(1) by (simp add: at_rest_def locks_ok_def)
  note e1 = enter_lock [OF assms(1) _ _ lk, folded s1_def, simplified]
  have k1: "timers_ok s1" "events_ok s1"
    using timers_ok_same [OF e1(4,7)] assms(2,3) e1(4,9) by (simp_all add: events_ok_def)
  obtain s2 where s2: "CoreCurrentSystemTime ?R s1 = Some (mEfiSystemTime s, s2)" "at_rest {mEfiTimerLock} 30 s2"
      "same_timers s1 s2" "ievents s2 = ievents s1"
    using current_time [OF e1(2), of env k] e1(8) by auto
  note st = s2(3)
  have f: "mEfiCheckTimerEvent s2 = mEfiCheckTimerEvent s" "mEfiTimerList s2 = mEfiTimerList s"
      "OwnerTpl (lock_of s2 mEfiTimerLock) = 30" "per s2 = per s" "trig s2 = trig s"
    using st e1(3,7,10) per_cong [OF st] trig_cong [OF st] e1(4) by (auto simp: same_timers_def per_def trig_def fun_eq_iff)
  have sg: "signalled_event s2 = signalled_event s"
    using s2(4) e1(4) by (simp add: signalled_event_def fun_eq_iff)
  have "in_check s2"
    using s2(2) same_timers_ok [OF st k1(2)] timers_ok_cong [OF st k1(1)] assms(4,5) e1(4)
      same_timers_event(2) [OF st, of "mEfiCheckTimerEvent s"] by (simp add: in_check_def f(1))
  then show thesis using that e1(1) s2(1) f(1-5) sg unfolding s1_def by blast
qed

lemma CheckTimers_loop:
  assumes "CoreAcquireLock mEfiTimerLock s = Some s1" "CoreCurrentSystemTime R s1 = Some (Now, s2)"
  shows "CoreCheckTimers R n s = do { s \<leftarrow> fire_timers R Now n s2; CoreReleaseLock R mEfiTimerLock s }"
  using assms by (simp add: CoreCheckTimers_def)

text \<open>C18. A check of the timers ends, fires every timer that is due and no other, and leaves no timer that is due: a one-shot timer is taken off, a periodic one
  is due one period after its last due time, or after the present time where that is past already; an event that is newly signalled afterwards is a timer that was
  due, or the event that asks for the next check.  Two turns for each timer are enough, as long as no period carries the present time past 64 bits.
  The check runs at its own priority (30, one below the highest) in a consistent state, and its event exists.\<close>

theorem CheckTimers_fires:
  assumes "at_rest {} 30 s" "events_ok s" "timers_ok s" "mEfiCheckTimerEvent s \<noteq> 0" "ievents s (mEfiCheckTimerEvent s) \<noteq> None"
    and "\<forall>x\<in>set (mEfiTimerList s). unat (mEfiSystemTime s) + unat (per s x) < 2 ^ 64"
    and "2 * length (mEfiTimerList s) \<le> n"
  shows "\<exists>s'. CoreCheckTimers (CoreRestoreTpl env (Suc k)) n s = Some s' \<and> at_rest {} 30 s' \<and> events_ok s' \<and>
    timers_ok s' \<and> all_fired (mEfiSystemTime s) s s'"
proof -
  let ?R = "CoreRestoreTpl env (Suc k)"
  obtain s2 where e: "CoreAcquireLock mEfiTimerLock s = Some (taken mEfiTimerLock s)"
      "CoreCurrentSystemTime ?R (taken mEfiTimerLock s) = Some (mEfiSystemTime s, s2)" and c: "in_check s2"
    and f: "mEfiTimerList s2 = mEfiTimerList s" "OwnerTpl (lock_of s2 mEfiTimerLock) = 30" "per s2 = per s" "trig s2 = trig s"
    and sg: "signalled_event s2 = signalled_event s" "mEfiCheckTimerEvent s2 = mEfiCheckTimerEvent s"
    using CheckTimers_entry [OF assms(1-5), of env k] by metis
  have "(\<Sum>x\<in>set (mEfiTimerList s2). turns (mEfiSystemTime s) s2 x) \<le> n"
    using turns_bound [of "mEfiTimerList s2" "mEfiSystemTime s" s2] assms(3,7) f(1) by (simp add: timers_ok_def)
  moreover have "\<forall>x\<in>set (mEfiTimerList s2). unat (mEfiSystemTime s) + unat (per s2 x) < 2 ^ 64"
    using assms(6) by (simp add: f)
  ultimately obtain s3 where s3: "fire_timers ?R (mEfiSystemTime s) n s2 = Some s3" "in_check s3" "all_fired (mEfiSystemTime s) s2 s3"
      "OwnerTpl (lock_of s3 mEfiTimerLock) = 30"
    using fire_timers_all [OF c] f(2) by metis
  have r3: "at_rest {mEfiTimerLock} 30 s3" "calm_above 30 s3" "timers_ok s3" "events_ok s3" using s3(2) by (auto simp: in_check_def at_rest_def)
  note v = leave_lock [OF r3(1) _ s3(4) order_refl r3(2), simplified]
  have g: "trig (released mEfiTimerLock s3) = trig s3" "per (released mEfiTimerLock s3) = per s3"
      "mEfiTimerList (released mEfiTimerLock s3) = mEfiTimerList s3"
      "signalled_event (released mEfiTimerLock s3) = signalled_event s3" "mEfiCheckTimerEvent (released mEfiTimerLock s3) = mEfiCheckTimerEvent s3"
    using v(3) by (simp_all add: trig_def per_def signalled_event_def fun_eq_iff)
  have "all_fired (mEfiSystemTime s) s (released mEfiTimerLock s3)"
    using s3(3) unfolding all_fired_def f g sg .
  then show ?thesis
    using CheckTimers_loop [OF e] s3(1) v timers_ok_cong [OF v(4) r3(3)] same_timers_ok [OF v(4) r3(4)] by simp
qed

section \<open>A period that wraps\<close>





section \<open>Witnesses\<close>

definition timer_event :: "u64 \<Rightarrow> u64 \<Rightarrow> ievent" where
  "timer_event due p = \<lparr>EventType = EVT_TIMER OR EVT_NOTIFY_SIGNAL, SignalCount = 0, OnSignalList = False, NotifyTpl = 8,
     NotifyFunction = Some (Client 10), NotifyContext = 0, EventGroup = [], OnNotifyQueue = False, ExFlag = False,
     OnRuntimeList = False, OnTimerList = True, TriggerTime = due, Period = p\<rparr>"

definition check_event :: ievent where
  "check_event = \<lparr>EventType = EVT_NOTIFY_SIGNAL, SignalCount = 0, OnSignalList = False, NotifyTpl = 30,
     NotifyFunction = Some CheckTimers, NotifyContext = 0, EventGroup = [], OnNotifyQueue = False, ExFlag = False,
     OnRuntimeList = False, OnTimerList = False, TriggerTime = 0, Period = 0\<rparr>"

text \<open>A periodic timer, a one-shot one and one that is not due at the time 1000.\<close>

definition three_timers :: "nat \<Rightarrow> u64 \<Rightarrow> calls ev" where
  "three_timers tpl p = \<lparr>gEfiCurrentTpl = tpl,
     lock_of = (\<lambda>l. \<lparr>LockTpl = (if l = mEfiTimerLock then 30 else 31), OwnerTpl = 0, Acquired = False\<rparr>),
     gEventQueue = (\<lambda>_. []), gEventPending = 0, gEventSignalQueue = [],
     ievents = [1 \<mapsto> check_event, 2 \<mapsto> timer_event 700 p, 3 \<mapsto> timer_event 900 0, 4 \<mapsto> timer_event 2000 0],
     RuntimeEventHead = [], mEfiTimerList = [2, 3, 4], mEfiSystemTime = 1000, mEfiCheckTimerEvent = 1, gIdleLoopEvent = 0,
     gCpu = True, gSmmBase2 = None, InterruptsEnabled = False, outside = []\<rparr>"

lemma three_timers_fields [simp]:
  "gEfiCurrentTpl (three_timers tpl p) = tpl" "mEfiTimerList (three_timers tpl p) = [2, 3, 4]"
  "mEfiSystemTime (three_timers tpl p) = 1000" "mEfiCheckTimerEvent (three_timers tpl p) = 1"
  "gEventSignalQueue (three_timers tpl p) = []"
  "ievents (three_timers tpl p) 1 = Some check_event" "ievents (three_timers tpl p) 2 = Some (timer_event 700 p)"
  "ievents (three_timers tpl p) (Suc 0) = Some check_event"
  "ievents (three_timers tpl p) 3 = Some (timer_event 900 0)" "ievents (three_timers tpl p) 4 = Some (timer_event 2000 0)"
  by (simp_all add: three_timers_def)

lemma three_timers_trig [simp]:
  "trig (three_timers tpl p) 2 = 700" "trig (three_timers tpl p) 3 = 900" "trig (three_timers tpl p) 4 = 2000"
  "per (three_timers tpl p) 2 = p" "per (three_timers tpl p) 3 = 0" "per (three_timers tpl p) 4 = 0"
  by (simp_all add: trig_def per_def) (simp_all add: timer_event_def)

lemma three_timers_ok:
  "tpl \<le> 31 \<Longrightarrow> at_rest {} tpl (three_timers tpl p)" "events_ok (three_timers tpl p)" "timers_ok (three_timers tpl p)"
proof -
  show "tpl \<le> 31 \<Longrightarrow> at_rest {} tpl (three_timers tpl p)"
    by (auto simp: at_rest_def locks_ok_def pending_ok_def calm_above_def queues_ok_def three_timers_def check_event_def timer_event_def
        split: if_splits)
  show "events_ok (three_timers tpl p)"
    by (auto simp: events_ok_def) (auto simp: three_timers_def check_event_def timer_event_def split: if_splits)
  have "x \<in> {2, 3, 4} \<longleftrightarrow> (\<exists>ev. ievents (three_timers tpl p) x = Some ev \<and> OnTimerList ev)" for x
    by (auto simp: three_timers_def check_event_def timer_event_def)
  then show "timers_ok (three_timers tpl p)" by (simp add: timers_ok_def)
qed

lemma SetTimer_sorts_witness:
  "\<exists>s'. CoreSetTimer log_env (CoreRestoreTpl log_env 1) 3 TimerPeriodic 1000 (three_timers 4 150) = Some (EFI_SUCCESS, s') \<and>
     mEfiTimerList s' = [2, 4, 3] \<and> trig s' 3 = 2000"
proof -
  have "EventType (timer_event 900 0) AND EVT_TIMER \<noteq> 0" by (simp add: timer_event_def)
  with SetTimer_sorts [OF three_timers_ok(1) _ three_timers_ok(3), of 4 3 150 "timer_event 900 0" TimerPeriodic 1000 log_env 0]
  show ?thesis by (auto simp: timer_set_def)
qed

lemma CheckTimers_fires_witness:
  "\<exists>s'. CoreCheckTimers (CoreRestoreTpl log_env 1) 6 (three_timers 30 150) = Some s' \<and>
     set (mEfiTimerList s') = {2, 4} \<and> trig s' 2 = 1150 \<and> trig s' 4 = 2000 \<and> signalled_event s' 2 \<and> signalled_event s' 3"
proof -
  have w: "\<forall>x\<in>set (mEfiTimerList (three_timers 30 150)). unat (mEfiSystemTime (three_timers 30 150)) + unat (per (three_timers 30 150) x) < 2 ^ 64"
    by simp
  obtain s' where s': "CoreCheckTimers (CoreRestoreTpl log_env 1) 6 (three_timers 30 150) = Some s'" "all_fired 1000 (three_timers 30 150) s'"
    using CheckTimers_fires [OF three_timers_ok(1) three_timers_ok(2,3) _ _ w, of 6 log_env 0] by auto
  have m: "x \<in> set (mEfiTimerList s') \<longleftrightarrow> x \<in> {2, 3, 4} \<and> (1000 < trig (three_timers 30 150) x \<or> per (three_timers 30 150) x \<noteq> 0)" for x
    using s'(2) by (simp add: all_fired_def)
  have "set (mEfiTimerList s') = {2, 4}" by (auto simp: m)
  then show ?thesis using s' by (auto simp: all_fired_def after_check_def)
qed


end
