(* ===== verification/Pages.thy ===== *)
theory Pages
  imports Prelude
begin

text \<open>
  The page allocator of the DXE core, \<open>MdeModulePkg/Core/Dxe/Mem/Page.c\<close>.

  The list \<open>gMemoryMap\<close> is the list of its \<open>MEMORY_MAP\<close> entries in link order.  An entry that
  is still in the temporary stack \<open>mMapStack\<close> has \<open>FromPages\<close> clear, and \<open>MapSlot\<close> is its index there;
  the link of a stack slot is not \<open>NULL\<close> exactly while its entry is on the list.  Of the list of
  free descriptors only its length counts.  The field \<open>VirtualStart\<close> is left out: nothing in
  the file sets it to anything but zero.  A lock is the flag that says whether it is held;
  the priorities and the notifications that go with locks are in \<open>Events\<close>.  What an
  operation does outside (the signal of the memory-map event group, the clearing of memory)
  is a function on the state \<open>Others\<close>, given by the environment.
\<close>

section \<open>State\<close>

abbreviation EfiReservedMemoryType :: u32 where "EfiReservedMemoryType \<equiv> 0"
abbreviation EfiBootServicesCode :: u32 where "EfiBootServicesCode \<equiv> 3"
abbreviation EfiBootServicesData :: u32 where "EfiBootServicesData \<equiv> 4"
abbreviation EfiRuntimeServicesCode :: u32 where "EfiRuntimeServicesCode \<equiv> 5"
abbreviation EfiRuntimeServicesData :: u32 where "EfiRuntimeServicesData \<equiv> 6"
abbreviation EfiConventionalMemory :: u32 where "EfiConventionalMemory \<equiv> 7"
abbreviation EfiACPIReclaimMemory :: u32 where "EfiACPIReclaimMemory \<equiv> 9"
abbreviation EfiACPIMemoryNVS :: u32 where "EfiACPIMemoryNVS \<equiv> 10"
abbreviation EfiMemoryMappedIO :: u32 where "EfiMemoryMappedIO \<equiv> 11"
abbreviation EfiMemoryMappedIOPortSpace :: u32 where "EfiMemoryMappedIOPortSpace \<equiv> 12"
abbreviation EfiMaxMemoryType :: u32 where "EfiMaxMemoryType \<equiv> 14"

abbreviation EFI_PAGE_SIZE :: u64 where "EFI_PAGE_SIZE \<equiv> 0x1000"
abbreviation EFI_PAGE_MASK :: u64 where "EFI_PAGE_MASK \<equiv> 0xFFF"
abbreviation MAX_ADDRESS :: u64 where "MAX_ADDRESS \<equiv> 0xFFFFFFFFFFFFFFFF"
abbreviation MAX_MAP_DEPTH :: nat where "MAX_MAP_DEPTH \<equiv> 6"
abbreviation EFI_DEFAULT_PAGE_ALLOCATION_ALIGNMENT :: u64 where "EFI_DEFAULT_PAGE_ALLOCATION_ALIGNMENT \<equiv> EFI_PAGE_SIZE"
abbreviation EFI_ACPI_RUNTIME_PAGE_ALLOCATION_ALIGNMENT :: u64 where "EFI_ACPI_RUNTIME_PAGE_ALLOCATION_ALIGNMENT \<equiv> EFI_PAGE_SIZE"
abbreviation DEFAULT_PAGE_ALLOCATION :: u64 where "DEFAULT_PAGE_ALLOCATION \<equiv> EFI_PAGE_SIZE"

abbreviation EFI_MEMORY_PRESENT :: u64 where "EFI_MEMORY_PRESENT \<equiv> 0x0100000000000000"
abbreviation EFI_MEMORY_INITIALIZED :: u64 where "EFI_MEMORY_INITIALIZED \<equiv> 0x0200000000000000"
abbreviation EFI_MEMORY_TESTED :: u64 where "EFI_MEMORY_TESTED \<equiv> 0x0400000000000000"
abbreviation EFI_MEMORY_PORT_IO :: u64 where "EFI_MEMORY_PORT_IO \<equiv> 0x4000000000000000"
abbreviation EFI_MEMORY_RUNTIME :: u64 where "EFI_MEMORY_RUNTIME \<equiv> 0x8000000000000000"

definition EFI_SIZE_TO_PAGES :: "u64 \<Rightarrow> u64" where
  "EFI_SIZE_TO_PAGES Size = drop_bit 12 Size + (if Size AND EFI_PAGE_MASK \<noteq> 0 then 1 else 0)"

definition EFI_PAGES_TO_SIZE :: "u64 \<Rightarrow> u64" where
  "EFI_PAGES_TO_SIZE Pages = push_bit 12 Pages"

text \<open>The entries that fit one page of descriptors: \<open>sizeof (MEMORY_MAP)\<close> is 64.\<close>

abbreviation ENTRIES_PER_PAGE :: nat where "ENTRIES_PER_PAGE \<equiv> 64"

record map_entry =
  FromPages :: bool
  MapSlot :: nat
  EntryType :: u32
  EntryStart :: u64
  EntryEnd :: u64
  EntryAttribute :: u64

record type_statistics =
  BaseAddress :: u64
  MaximumAddress :: u64
  CurrentNumberOfPages :: u64
  StatPages :: u64
  InformationIndex :: nat
  Special :: bool
  Runtime :: bool

record type_information =
  InfoType :: u32
  InfoPages :: u32

datatype gcd_memory_type =
    EfiGcdMemoryTypeNonExistent | EfiGcdMemoryTypeReserved | EfiGcdMemoryTypeSystemMemory | EfiGcdMemoryTypeMemoryMappedIo

datatype gcd_io_type = EfiGcdIoTypeNonExistent | EfiGcdIoTypeReserved | EfiGcdIoTypeIo

text \<open>\<open>GcdAt\<close> is the address of the structure.\<close>

record gcd_entry =
  GcdAt :: u64
  GcdBase :: u64
  GcdEnd :: u64
  Capabilities :: u64
  Attributes :: u64
  GcdMemoryType :: gcd_memory_type
  GcdIoType :: gcd_io_type
  ImageHandle :: nat
  DeviceHandle :: nat

record 'e mem =
  gMemoryMap :: "map_entry list"
  mMemoryMapKey :: u64
  mMapDepth :: nat
  mFreeMapStack :: nat
  mFreeMemoryMapEntryList :: nat
  mMemoryTypeInformationInitialized :: bool
  mMemoryTypeStatistics :: "nat \<Rightarrow> type_statistics"
  gMemoryTypeInformation :: "nat \<Rightarrow> type_information"
  mDefaultMaximumAddress :: u64
  mDefaultBaseAddress :: u64
  mGcdMemorySpaceMap :: "gcd_entry list"
  gMemoryLock :: bool
  mGcdMemorySpaceLock :: bool
  gLoadFixedAddressCodeMemoryReady :: bool
  Others :: 'e

record 'e mem_env =
  NotifyMapChange :: "'e \<Rightarrow> 'e option"
  ZeroFirstPage :: "'e \<Rightarrow> 'e"
  DebugClearMemory :: "u64 \<Rightarrow> u64 \<Rightarrow> 'e \<Rightarrow> 'e"
  gDxeCoreImageHandle :: nat
  PcdLoadModuleAtFixAddressEnable :: u64
  PcdLoadFixAddressRuntimeCodePageNumber :: u32
  PcdLoadFixAddressBootTimeCodePageNumber :: u32
  DxeCodeTopAddress :: u64

text \<open>The type of \<open>CoreFreeMemoryMapStack\<close>, which the functions below it call back.\<close>

type_synonym 'e free_stack = "'e mem \<Rightarrow> 'e mem option"

definition CoreAcquireMemoryLock :: "'e mem \<Rightarrow> 'e mem option" where
  "CoreAcquireMemoryLock s = do { ASSERT (\<not> gMemoryLock s); Some (s\<lparr>gMemoryLock := True\<rparr>) }"

definition CoreReleaseMemoryLock :: "'e mem \<Rightarrow> 'e mem option" where
  "CoreReleaseMemoryLock s = do { ASSERT (gMemoryLock s); Some (s\<lparr>gMemoryLock := False\<rparr>) }"

definition CoreAcquireGcdMemoryLock :: "'e mem \<Rightarrow> 'e mem option" where
  "CoreAcquireGcdMemoryLock s = do { ASSERT (\<not> mGcdMemorySpaceLock s); Some (s\<lparr>mGcdMemorySpaceLock := True\<rparr>) }"

definition CoreReleaseGcdMemoryLock :: "'e mem \<Rightarrow> 'e mem option" where
  "CoreReleaseGcdMemoryLock s = do { ASSERT (mGcdMemorySpaceLock s); Some (s\<lparr>mGcdMemorySpaceLock := False\<rparr>) }"

section \<open>The memory map\<close>

text \<open>Removing the entry \<open>e\<close> that stands between \<open>pre\<close> and \<open>post\<close>.\<close>

definition RemoveMemoryMapEntry :: "map_entry list \<Rightarrow> map_entry \<Rightarrow> map_entry list \<Rightarrow> 'e mem \<Rightarrow> 'e mem" where
  "RemoveMemoryMapEntry pre e post s =
     (let s = s\<lparr>gMemoryMap := pre @ post\<rparr>
      in if FromPages e then s\<lparr>mFreeMemoryMapEntryList := mFreeMemoryMapEntryList s + 1\<rparr> else s)"

text \<open>The loop of \<open>CoreAddRange\<close> that merges adjoining entries: the entries kept, the number of heap
  descriptors freed, and the range as it has grown.\<close>

fun merge_range :: "u32 \<Rightarrow> u64 \<Rightarrow> map_entry list \<Rightarrow> u64 \<Rightarrow> u64 \<Rightarrow> map_entry list \<times> nat \<times> u64 \<times> u64" where
  "merge_range Type Attribute [] Start End = ([], 0, Start, End)"
| "merge_range Type Attribute (e # l) Start End =
     (if EntryType e \<noteq> Type \<or> EntryAttribute e \<noteq> Attribute
      then (let (k, n, r) = merge_range Type Attribute l Start End in (e # k, n, r))
      else if EntryEnd e + 1 = Start
      then (let (k, n, r) = merge_range Type Attribute l (EntryStart e) End in (k, if FromPages e then n + 1 else n, r))
      else if EntryStart e = End + 1
      then (let (k, n, r) = merge_range Type Attribute l Start (EntryEnd e) in (k, if FromPages e then n + 1 else n, r))
      else (let (k, n, r) = merge_range Type Attribute l Start End in (e # k, n, r)))"

definition CoreAddRange :: "'e mem_env \<Rightarrow> u32 \<Rightarrow> u64 \<Rightarrow> u64 \<Rightarrow> u64 \<Rightarrow> 'e mem \<Rightarrow> 'e mem option" where
  "CoreAddRange env Type Start End Attribute s = do {
     ASSERT (Start AND EFI_PAGE_MASK = 0);
     ASSERT (End > Start);
     ASSERT (gMemoryLock s);
     let s = (if Type = EfiConventionalMemory \<and> Start = 0 \<and> End \<ge> EFI_PAGE_SIZE - 1
              then s\<lparr>Others := ZeroFirstPage env (Others s)\<rparr> else s);
     let s = s\<lparr>mMemoryMapKey := mMemoryMapKey s + 1\<rparr>;
     x \<leftarrow> NotifyMapChange env (Others s);
     let s = s\<lparr>Others := x\<rparr>;
     let (kept, freed, Start, End) = merge_range Type Attribute (gMemoryMap s) Start End;
     let e = \<lparr>FromPages = False, MapSlot = mMapDepth s, EntryType = Type, EntryStart = Start, EntryEnd = End, EntryAttribute = Attribute\<rparr>;
     let s = s\<lparr>gMemoryMap := kept @ [e], mFreeMemoryMapEntryList := mFreeMemoryMapEntryList s + freed, mMapDepth := mMapDepth s + 1\<rparr>;
     ASSERT (mMapDepth s < MAX_MAP_DEPTH);
     Some s
   }"

section \<open>Converting pages\<close>

definition in_bin :: "'e mem \<Rightarrow> u32 \<Rightarrow> u64 \<Rightarrow> bool" where
  "in_bin s Type Start \<longleftrightarrow>
     (Start \<ge> BaseAddress (mMemoryTypeStatistics s (unat Type)) \<and> Start \<le> MaximumAddress (mMemoryTypeStatistics s (unat Type))) \<or>
     (Start \<ge> mDefaultBaseAddress s \<and> Start \<le> mDefaultMaximumAddress s)"

definition put_statistics :: "u32 \<Rightarrow> type_statistics \<Rightarrow> 'e mem \<Rightarrow> 'e mem" where
  "put_statistics Type x s = s\<lparr>mMemoryTypeStatistics := (mMemoryTypeStatistics s)(unat Type := x)\<rparr>"

definition put_information :: "nat \<Rightarrow> type_information \<Rightarrow> 'e mem \<Rightarrow> 'e mem" where
  "put_information i x s = s\<lparr>gMemoryTypeInformation := (gMemoryTypeInformation s)(i := x)\<rparr>"

text \<open>The counters of \<open>CoreConvertPages\<close>: the pages leave the old type and join the new one.\<close>

definition uncount_pages :: "u32 \<Rightarrow> u64 \<Rightarrow> u64 \<Rightarrow> 'e mem \<Rightarrow> 'e mem" where
  "uncount_pages Type Start NumberOfPages s =
     (if Type < EfiMaxMemoryType \<and> in_bin s Type Start then
        let x = mMemoryTypeStatistics s (unat Type)
        in if NumberOfPages > CurrentNumberOfPages x then put_statistics Type (x\<lparr>CurrentNumberOfPages := 0\<rparr>) s
           else put_statistics Type (x\<lparr>CurrentNumberOfPages := CurrentNumberOfPages x - NumberOfPages\<rparr>) s
      else s)"

definition count_pages :: "u32 \<Rightarrow> u64 \<Rightarrow> u64 \<Rightarrow> 'e mem \<Rightarrow> 'e mem" where
  "count_pages NewType Start NumberOfPages s =
     (if NewType < EfiMaxMemoryType \<and> in_bin s NewType Start then
        let x = mMemoryTypeStatistics s (unat NewType);
            x = x\<lparr>CurrentNumberOfPages := CurrentNumberOfPages x + NumberOfPages\<rparr>;
            s = put_statistics NewType x s;
            i = InformationIndex x;
            y = gMemoryTypeInformation s i
        in if CurrentNumberOfPages x > ucast (InfoPages y)
           then put_information i (y\<lparr>InfoPages := ucast (CurrentNumberOfPages x)\<rparr>) s else s
      else s)"

text \<open>Taking a range out of the entry \<open>e\<close> that covers it, at its start, at its end or from its
  middle; the last clips \<open>e\<close> and adds a new entry, which then takes the place of \<open>e\<close>.\<close>

definition take_range :: "map_entry list \<Rightarrow> map_entry \<Rightarrow> map_entry list \<Rightarrow> u64 \<Rightarrow> u64 \<Rightarrow> 'e mem \<Rightarrow> (u64 \<times> 'e mem) option" where
  "take_range pre e post Start RangeEnd s = do {
     ((pre, e, post), s) \<leftarrow>
       (if EntryStart e = Start then Some ((pre, e\<lparr>EntryStart := RangeEnd + 1\<rparr>, post), s)
        else if EntryEnd e = RangeEnd then Some ((pre, e\<lparr>EntryEnd := Start - 1\<rparr>, post), s)
        else do {
          let new = \<lparr>FromPages = False, MapSlot = mMapDepth s, EntryType = EntryType e, EntryStart = RangeEnd + 1,
                     EntryEnd = EntryEnd e, EntryAttribute = EntryAttribute e\<rparr>;
          let e = e\<lparr>EntryEnd := Start - 1\<rparr>;
          ASSERT (EntryStart e < EntryEnd e);
          let s = s\<lparr>mMapDepth := mMapDepth s + 1\<rparr>;
          ASSERT (mMapDepth s < MAX_MAP_DEPTH);
          Some ((pre @ e # post, new, []), s)
        });
     Some (EntryAttribute e,
           if EntryStart e = EntryEnd e + 1 then RemoveMemoryMapEntry pre e post s
           else s\<lparr>gMemoryMap := pre @ e # post\<rparr>)
   }"

definition clear_range :: "'e mem_env \<Rightarrow> u64 \<Rightarrow> u64 \<Rightarrow> 'e mem \<Rightarrow> 'e mem" where
  "clear_range env Start RangeEnd s =
     (if Start = 0 then
        (if RangeEnd > EFI_PAGE_SIZE
         then s\<lparr>Others := DebugClearMemory env EFI_PAGE_SIZE (RangeEnd - EFI_PAGE_SIZE + 1) (Others s)\<rparr> else s)
      else s\<lparr>Others := DebugClearMemory env Start (RangeEnd - Start + 1) (Others s)\<rparr>)"

text \<open>One turn of the loop of \<open>CoreConvertPages\<close>: it returns a status, or goes on at an address.
  \<open>!(a) ^ (b)\<close> in the test of the types is \<open>(!a) ^ b\<close>: both or neither are free memory.\<close>

definition convert_step ::
  "'e mem_env \<Rightarrow> 'e free_stack \<Rightarrow> u64 \<Rightarrow> u64 \<Rightarrow> u32 \<Rightarrow> u64 \<Rightarrow> 'e mem \<Rightarrow> ((efi_status + u64) \<times> 'e mem) option" where
  "convert_step env free End NumberOfPages NewType Start s =
     (case List.extract (\<lambda>e. EntryStart e \<le> Start \<and> EntryEnd e > Start) (gMemoryMap s) of
        None \<Rightarrow> Some (Inl EFI_NOT_FOUND, s)
      | Some (pre, e, post) \<Rightarrow>
          let RangeEnd = (if EntryEnd e < End then EntryEnd e else End)
          in if (NewType = EfiConventionalMemory) = (EntryType e = EfiConventionalMemory) then Some (Inl EFI_NOT_FOUND, s)
             else do {
               let s = uncount_pages (EntryType e) Start NumberOfPages s;
               let s = count_pages NewType Start NumberOfPages s;
               (Attribute, s) \<leftarrow> take_range pre e post Start RangeEnd s;
               s \<leftarrow> CoreAddRange env NewType Start RangeEnd Attribute s;
               let s = (if NewType = EfiConventionalMemory then clear_range env Start RangeEnd s else s);
               s \<leftarrow> free s;
               Some (Inr (RangeEnd + 1), s)
             })"

partial_function (option) convert_loop ::
  "'e mem_env \<Rightarrow> 'e free_stack \<Rightarrow> u64 \<Rightarrow> u64 \<Rightarrow> u32 \<Rightarrow> u64 \<Rightarrow> 'e mem \<Rightarrow> (efi_status \<times> 'e mem) option" where
  "convert_loop env free End NumberOfPages NewType Start s =
     (if Start < End then do {
        (r, s) \<leftarrow> convert_step env free End NumberOfPages NewType Start s;
        case r of
          Inl Status \<Rightarrow> Some (Status, s)
        | Inr Start \<Rightarrow> convert_loop env free End NumberOfPages NewType Start s
      } else Some (EFI_SUCCESS, s))"

declare convert_loop.simps [code]

definition CoreConvertPages ::
  "'e mem_env \<Rightarrow> 'e free_stack \<Rightarrow> u64 \<Rightarrow> u64 \<Rightarrow> u32 \<Rightarrow> 'e mem \<Rightarrow> (efi_status \<times> 'e mem) option" where
  "CoreConvertPages env free Start NumberOfPages NewType s = do {
     let NumberOfBytes = push_bit 12 NumberOfPages;
     let End = Start + NumberOfBytes - 1;
     ASSERT (NumberOfPages \<noteq> 0);
     ASSERT (Start AND EFI_PAGE_MASK = 0);
     ASSERT (End > Start);
     ASSERT (gMemoryLock s);
     if NumberOfPages = 0 \<or> Start AND EFI_PAGE_MASK \<noteq> 0 \<or> Start > Start + NumberOfBytes then Some (EFI_INVALID_PARAMETER, s)
     else convert_loop env free End NumberOfPages NewType Start s
   }"

section \<open>Finding free pages\<close>

definition page_end_below :: "u64 \<Rightarrow> u64" where
  "page_end_below MaxAddress =
     (if MaxAddress AND EFI_PAGE_MASK \<noteq> EFI_PAGE_MASK
      then ((MaxAddress - (EFI_PAGE_MASK + 1)) AND NOT EFI_PAGE_MASK) OR EFI_PAGE_MASK else MaxAddress)"

text \<open>One turn of the search: the best end address so far, after the entry \<open>e\<close>.\<close>

definition best_end :: "u64 \<Rightarrow> u64 \<Rightarrow> u64 \<Rightarrow> u64 \<Rightarrow> map_entry \<Rightarrow> u64 \<Rightarrow> u64" where
  "best_end MaxAddress MinAddress NumberOfBytes Alignment e Target =
     (if EntryType e \<noteq> EfiConventionalMemory then Target
      else let DescStart = EntryStart e; DescEnd = EntryEnd e
      in if DescStart \<ge> MaxAddress \<or> DescEnd < MinAddress then Target
      else let DescEnd = (if DescEnd \<ge> MaxAddress then MaxAddress else DescEnd);
               DescEnd = ((DescEnd + 1) AND NOT (Alignment - 1)) - 1;
               DescNumberOfBytes = DescEnd - DescStart + 1
      in if DescNumberOfBytes \<ge> NumberOfBytes
         then (if DescEnd - NumberOfBytes + 1 < MinAddress then Target else if DescEnd > Target then DescEnd else Target)
         else Target)"

definition CoreFindFreePagesI :: "map_entry list \<Rightarrow> u64 \<Rightarrow> u64 \<Rightarrow> u64 \<Rightarrow> u64 \<Rightarrow> u64" where
  "CoreFindFreePagesI l MaxAddress MinAddress NumberOfPages Alignment =
     (if MaxAddress < EFI_PAGE_MASK \<or> NumberOfPages = 0 then 0
      else let MaxAddress = page_end_below MaxAddress;
               NumberOfBytes = push_bit 12 NumberOfPages;
               Target = fold (best_end MaxAddress MinAddress NumberOfBytes Alignment) l 0;
               Target = Target - (NumberOfBytes - 1)
           in if Target AND EFI_PAGE_MASK \<noteq> 0 then 0 else Target)"

definition promotable :: "gcd_entry \<Rightarrow> bool" where
  "promotable g \<longleftrightarrow> GcdMemoryType g = EfiGcdMemoryTypeReserved \<and> GcdEnd g < MAX_ADDRESS \<and>
     Capabilities g AND (EFI_MEMORY_PRESENT OR EFI_MEMORY_INITIALIZED OR EFI_MEMORY_TESTED) =
       EFI_MEMORY_PRESENT OR EFI_MEMORY_INITIALIZED"

text \<open>The loop of \<open>PromoteMemoryResource\<close> over the remaining \<open>n\<close> entries, from the one at index \<open>i\<close>.\<close>

fun promote_loop :: "'e mem_env \<Rightarrow> 'e free_stack \<Rightarrow> nat \<Rightarrow> nat \<Rightarrow> bool \<Rightarrow> 'e mem \<Rightarrow> (bool \<times> 'e mem) option" where
  "promote_loop env free 0 i Promoted s = Some (Promoted, s)"
| "promote_loop env free (Suc n) i Promoted s =
     (let g = mGcdMemorySpaceMap s ! i
      in if promotable g then do {
           let g = g\<lparr>GcdMemoryType := EfiGcdMemoryTypeSystemMemory, Capabilities := Capabilities g OR EFI_MEMORY_TESTED,
                     ImageHandle := gDxeCoreImageHandle env, DeviceHandle := 0\<rparr>;
           let s = s\<lparr>mGcdMemorySpaceMap := (mGcdMemorySpaceMap s)[i := g]\<rparr>;
           s \<leftarrow> CoreAddRange env EfiConventionalMemory (GcdBase g) (GcdEnd g)
                  (Capabilities g AND NOT (EFI_MEMORY_PRESENT OR EFI_MEMORY_INITIALIZED OR EFI_MEMORY_TESTED OR EFI_MEMORY_RUNTIME)) s;
           s \<leftarrow> free s;
           promote_loop env free n (Suc i) True s
         } else promote_loop env free n (Suc i) Promoted s)"

definition PromoteMemoryResource :: "'e mem_env \<Rightarrow> 'e free_stack \<Rightarrow> 'e mem \<Rightarrow> (bool \<times> 'e mem) option" where
  "PromoteMemoryResource env free s = do {
     s \<leftarrow> CoreAcquireGcdMemoryLock s;
     (Promoted, s) \<leftarrow> promote_loop env free (length (mGcdMemorySpaceMap s)) 0 False s;
     s \<leftarrow> CoreReleaseGcdMemoryLock s;
     Some (Promoted, s)
   }"

text \<open>The bin of the memory type, then the default bin, then anywhere.\<close>

definition find_in_bins :: "u64 \<Rightarrow> u64 \<Rightarrow> u32 \<Rightarrow> u64 \<Rightarrow> 'e mem \<Rightarrow> u64 \<times> 'e mem" where
  "find_in_bins MaxAddress NoPages NewType Alignment s =
     (let x = mMemoryTypeStatistics s (unat NewType);
          Start = (if NewType < EfiMaxMemoryType \<and> MaxAddress \<ge> MaximumAddress x
                   then CoreFindFreePagesI (gMemoryMap s) (MaximumAddress x) (BaseAddress x) NoPages Alignment else 0)
      in if Start \<noteq> 0 then (Start, s)
      else let Start = (if MaxAddress \<ge> mDefaultMaximumAddress s
                        then CoreFindFreePagesI (gMemoryMap s) (mDefaultMaximumAddress s) 0 NoPages Alignment else 0)
      in if Start \<noteq> 0 then (Start, if Start < mDefaultBaseAddress s then s\<lparr>mDefaultBaseAddress := Start\<rparr> else s)
      else (CoreFindFreePagesI (gMemoryMap s) MaxAddress 0 NoPages Alignment, s))"

partial_function (option) FindFreePages ::
  "'e mem_env \<Rightarrow> 'e free_stack \<Rightarrow> u64 \<Rightarrow> u64 \<Rightarrow> u32 \<Rightarrow> u64 \<Rightarrow> 'e mem \<Rightarrow> (u64 \<times> 'e mem) option" where
  "FindFreePages env free MaxAddress NoPages NewType Alignment s =
     (let (Start, s) = find_in_bins MaxAddress NoPages NewType Alignment s
      in if Start \<noteq> 0 then Some (Start, s)
         else do {
           (Promoted, s) \<leftarrow> PromoteMemoryResource env free s;
           if \<not> Promoted then Some (0, s)
           else FindFreePages env free MaxAddress NoPages NewType Alignment s
         })"

declare FindFreePages.simps [code]

section \<open>The descriptors of the map\<close>

definition CoreAllocatePoolPages :: "'e mem_env \<Rightarrow> 'e free_stack \<Rightarrow> u32 \<Rightarrow> u64 \<Rightarrow> u64 \<Rightarrow> 'e mem \<Rightarrow> (u64 \<times> 'e mem) option" where
  "CoreAllocatePoolPages env free PoolType NumberOfPages Alignment s = do {
     (Start, s) \<leftarrow> FindFreePages env free MAX_ADDRESS NumberOfPages PoolType Alignment s;
     if Start = 0 then Some (0, s)
     else do {
       (_, s) \<leftarrow> CoreConvertPages env free Start NumberOfPages PoolType s;
       Some (Start, s)
     }
   }"

definition CoreFreePoolPages :: "'e mem_env \<Rightarrow> 'e free_stack \<Rightarrow> u64 \<Rightarrow> u64 \<Rightarrow> 'e mem \<Rightarrow> 'e mem option" where
  "CoreFreePoolPages env free Memory NumberOfPages s = do {
     (_, s) \<leftarrow> CoreConvertPages env free Memory NumberOfPages EfiConventionalMemory s;
     Some s
   }"

definition AllocateMemoryMapEntry :: "'e mem_env \<Rightarrow> 'e free_stack \<Rightarrow> 'e mem \<Rightarrow> (bool \<times> 'e mem) option" where
  "AllocateMemoryMapEntry env free s = do {
     (got, s) \<leftarrow>
       (if mFreeMemoryMapEntryList s = 0 then do {
          (p, s) \<leftarrow> CoreAllocatePoolPages env free EfiBootServicesData (EFI_SIZE_TO_PAGES DEFAULT_PAGE_ALLOCATION) DEFAULT_PAGE_ALLOCATION s;
          if p \<noteq> 0 then Some (True, s\<lparr>mFreeMemoryMapEntryList := mFreeMemoryMapEntryList s + ENTRIES_PER_PAGE\<rparr>)
          else Some (False, s)
        } else Some (True, s));
     Some (got, if got then s\<lparr>mFreeMemoryMapEntryList := mFreeMemoryMapEntryList s - 1\<rparr> else s)
   }"

definition insert_in_order :: "map_entry \<Rightarrow> map_entry list \<Rightarrow> map_entry list" where
  "insert_in_order e l =
     (let later = (\<lambda>x. FromPages x \<and> EntryStart x > EntryStart e)
      in takeWhile (\<lambda>x. \<not> later x) l @ e # dropWhile (\<lambda>x. \<not> later x) l)"

text \<open>Moving the entry of the top slot of the stack to the heap.\<close>

definition move_to_heap :: "'e mem \<Rightarrow> 'e mem" where
  "move_to_heap s =
     (let s = s\<lparr>mMapDepth := mMapDepth s - 1\<rparr>
      in case List.extract (\<lambda>e. \<not> FromPages e \<and> MapSlot e = mMapDepth s) (gMemoryMap s) of
           Some (pre, e, post) \<Rightarrow> s\<lparr>gMemoryMap := insert_in_order (e\<lparr>FromPages := True\<rparr>) (pre @ post)\<rparr>
         | None \<Rightarrow> s\<lparr>mFreeMemoryMapEntryList := mFreeMemoryMapEntryList s + 1\<rparr>)"

partial_function (option) free_stack_loop :: "'e mem_env \<Rightarrow> 'e free_stack \<Rightarrow> 'e mem \<Rightarrow> 'e mem option" where
  "free_stack_loop env free s =
     (if mMapDepth s = 0 then Some s
      else do {
        (got, s) \<leftarrow> AllocateMemoryMapEntry env free s;
        ASSERT got;
        free_stack_loop env free (move_to_heap s)
      })"

declare free_stack_loop.simps [code]

text \<open>\<open>CoreFreeMemoryMapStack\<close> is entered again when the list of free descriptors is refilled, and returns
  at once then; \<open>n\<close> bounds the nesting.\<close>

fun CoreFreeMemoryMapStack :: "'e mem_env \<Rightarrow> nat \<Rightarrow> 'e free_stack" where
  "CoreFreeMemoryMapStack env 0 s = None"
| "CoreFreeMemoryMapStack env (Suc n) s = do {
     ASSERT (gMemoryLock s);
     if mFreeMapStack s \<noteq> 0 then Some s
     else do {
       s \<leftarrow> free_stack_loop env (CoreFreeMemoryMapStack env n) (s\<lparr>mFreeMapStack := mFreeMapStack s + 1\<rparr>);
       Some (s\<lparr>mFreeMapStack := mFreeMapStack s - 1\<rparr>)
     }
   }"

declare CoreFreeMemoryMapStack.simps [simp del]

section \<open>Services\<close>

datatype allocate_type = AllocateAnyPages | AllocateMaxAddress | AllocateAddress | OtherAllocateType

definition page_alignment :: "u32 \<Rightarrow> u64" where
  "page_alignment MemoryType =
     (if MemoryType = EfiACPIReclaimMemory \<or> MemoryType = EfiACPIMemoryNVS \<or>
         MemoryType = EfiRuntimeServicesCode \<or> MemoryType = EfiRuntimeServicesData
      then EFI_ACPI_RUNTIME_PAGE_ALLOCATION_ALIGNMENT else EFI_DEFAULT_PAGE_ALLOCATION_ALIGNMENT)"

definition round_pages :: "u64 \<Rightarrow> u64 \<Rightarrow> u64" where
  "round_pages Alignment NumberOfPages =
     (NumberOfPages + (EFI_SIZE_TO_PAGES Alignment - 1)) AND NOT (EFI_SIZE_TO_PAGES Alignment - 1)"

text \<open>The part of \<open>CoreAllocatePages\<close> that holds the lock: the status, and the address \<open>Start\<close>.\<close>

definition allocate_locked ::
  "'e mem_env \<Rightarrow> 'e free_stack \<Rightarrow> allocate_type \<Rightarrow> u32 \<Rightarrow> u64 \<Rightarrow> u64 \<Rightarrow> 'e mem \<Rightarrow> ((efi_status \<times> u64) \<times> 'e mem) option" where
  "allocate_locked env free Type MemoryType NumberOfPages Start s = do {
     let Alignment = page_alignment MemoryType;
     let MaxAddress = (if Type = AllocateMaxAddress then Start else MAX_ADDRESS);
     s \<leftarrow> CoreAcquireMemoryLock s;
     (Start, s) \<leftarrow>
       (if Type \<noteq> AllocateAddress then FindFreePages env free MaxAddress NumberOfPages MemoryType Alignment s
        else Some (Start, s));
     (Status, s) \<leftarrow>
       (if Type \<noteq> AllocateAddress \<and> Start = 0 then Some (EFI_OUT_OF_RESOURCES, s)
        else CoreConvertPages env free Start NumberOfPages MemoryType s);
     s \<leftarrow> CoreReleaseMemoryLock s;
     Some ((Status, Start), s)
   }"

text \<open>\<open>Memory\<close> is the value behind the pointer, before and after; \<open>None\<close> is the \<open>NULL\<close> pointer.\<close>

definition CoreAllocatePages ::
  "'e mem_env \<Rightarrow> 'e free_stack \<Rightarrow> allocate_type \<Rightarrow> u32 \<Rightarrow> u64 \<Rightarrow> u64 option \<Rightarrow> 'e mem \<Rightarrow> ((efi_status \<times> u64 option) \<times> 'e mem) option" where
  "CoreAllocatePages env free Type MemoryType NumberOfPages Memory s =
     (if Type = OtherAllocateType then Some ((EFI_INVALID_PARAMETER, Memory), s)
      else if (MemoryType \<ge> EfiMaxMemoryType \<and> MemoryType \<le> 0x7fffffff) \<or> MemoryType = EfiConventionalMemory
      then Some ((EFI_INVALID_PARAMETER, Memory), s)
      else case Memory of None \<Rightarrow> Some ((EFI_INVALID_PARAMETER, Memory), s)
      | Some Start \<Rightarrow>
          let Alignment = page_alignment MemoryType
          in if Type = AllocateAddress \<and> Start AND (Alignment - 1) \<noteq> 0 then Some ((EFI_NOT_FOUND, Memory), s)
          else do {
            ((Status, Start), s) \<leftarrow> allocate_locked env free Type MemoryType (round_pages Alignment NumberOfPages) Start s;
            Some ((Status, if EFI_ERROR Status then Memory else Some Start), s)
          })"

text \<open>The part of \<open>CoreFreePages\<close> that holds the lock.\<close>

definition free_locked :: "'e mem_env \<Rightarrow> 'e free_stack \<Rightarrow> u64 \<Rightarrow> u64 \<Rightarrow> 'e mem \<Rightarrow> (efi_status \<times> 'e mem) option" where
  "free_locked env free Memory NumberOfPages s =
     (case List.extract (\<lambda>e. EntryStart e \<le> Memory \<and> EntryEnd e > Memory) (gMemoryMap s) of
        None \<Rightarrow> Some (EFI_NOT_FOUND, s)
      | Some (_, e, _) \<Rightarrow>
          let Alignment = page_alignment (EntryType e)
          in if Memory AND (Alignment - 1) \<noteq> 0 then Some (EFI_INVALID_PARAMETER, s)
             else CoreConvertPages env free Memory (round_pages Alignment NumberOfPages) EfiConventionalMemory s)"

definition CoreFreePages :: "'e mem_env \<Rightarrow> 'e free_stack \<Rightarrow> u64 \<Rightarrow> u64 \<Rightarrow> 'e mem \<Rightarrow> (efi_status \<times> 'e mem) option" where
  "CoreFreePages env free Memory NumberOfPages s = do {
     s \<leftarrow> CoreAcquireMemoryLock s;
     (Status, s) \<leftarrow> free_locked env free Memory NumberOfPages s;
     s \<leftarrow> CoreReleaseMemoryLock s;
     Some (Status, s)
   }"

definition CoreLoadingFixedAddressHook :: "'e mem_env \<Rightarrow> 'e free_stack \<Rightarrow> 'e mem \<Rightarrow> 'e mem option" where
  "CoreLoadingFixedAddressHook env free s =
     (if gLoadFixedAddressCodeMemoryReady s then Some s
      else do {
        let RuntimeCodePageNumber = ucast (PcdLoadFixAddressRuntimeCodePageNumber env);
        let BootTimeCodePageNumber = ucast (PcdLoadFixAddressBootTimeCodePageNumber env);
        let RuntimeCodeBase = DxeCodeTopAddress env - ucast (push_bit 12 (PcdLoadFixAddressRuntimeCodePageNumber env));
        let BootTimeCodeBase = RuntimeCodeBase - ucast (push_bit 12 (PcdLoadFixAddressBootTimeCodePageNumber env));
        ((Status, _), s) \<leftarrow> CoreAllocatePages env free AllocateAddress EfiRuntimeServicesCode RuntimeCodePageNumber (Some RuntimeCodeBase) s;
        if EFI_ERROR Status then Some s
        else do {
          ((Status, _), s) \<leftarrow> CoreAllocatePages env free AllocateAddress EfiBootServicesCode BootTimeCodePageNumber (Some BootTimeCodeBase) s;
          if EFI_ERROR Status then do {
            (_, s) \<leftarrow> CoreFreePages env free RuntimeCodeBase RuntimeCodePageNumber s;
            Some s
          } else Some (s\<lparr>gLoadFixedAddressCodeMemoryReady := True\<rparr>)
        }
      })"

section \<open>Adding memory\<close>

text \<open>The loops of \<open>CoreAddMemoryDescriptor\<close> over \<open>gMemoryTypeInformation\<close> end at the entry of type
  \<open>EfiMaxMemoryType\<close>; \<open>n\<close> is the number of array slots left, and to run past them is \<open>None\<close>.\<close>

text \<open>The reserved pages of the types before \<open>Index\<close> are given back.\<close>

fun undo_bins :: "'e mem_env \<Rightarrow> 'e free_stack \<Rightarrow> nat \<Rightarrow> nat \<Rightarrow> 'e mem \<Rightarrow> 'e mem option" where
  "undo_bins env free 0 FreeIndex s = Some s"
| "undo_bins env free (Suc n) FreeIndex s =
     (let y = gMemoryTypeInformation s FreeIndex; Type = InfoType y
      in if Type > EfiMaxMemoryType \<or> InfoPages y = 0 then undo_bins env free n (Suc FreeIndex) s
         else do {
           (_, s) \<leftarrow> CoreFreePages env free (BaseAddress (mMemoryTypeStatistics s (unat Type))) (ucast (InfoPages y)) s;
           let x = mMemoryTypeStatistics s (unat Type);
           let s = put_statistics Type (x\<lparr>BaseAddress := 0, MaximumAddress := MAX_ADDRESS\<rparr>) s;
           undo_bins env free n (Suc FreeIndex) s
         })"

fun reserve_bins :: "'e mem_env \<Rightarrow> 'e free_stack \<Rightarrow> nat \<Rightarrow> nat \<Rightarrow> 'e mem \<Rightarrow> (bool \<times> 'e mem) option" where
  "reserve_bins env free 0 Index s = None"
| "reserve_bins env free (Suc n) Index s =
     (let y = gMemoryTypeInformation s Index; Type = InfoType y
      in if Type = EfiMaxMemoryType then Some (True, s)
         else if Type > EfiMaxMemoryType \<or> InfoPages y = 0 then reserve_bins env free n (Suc Index) s
         else do {
           ((Status, Memory), s) \<leftarrow> CoreAllocatePages env free AllocateAnyPages Type (ucast (InfoPages y))
                                     (Some (BaseAddress (mMemoryTypeStatistics s (unat Type)))) s;
           Base \<leftarrow> Memory;
           let s = put_statistics Type ((mMemoryTypeStatistics s (unat Type))\<lparr>BaseAddress := Base\<rparr>) s;
           if EFI_ERROR Status then do {
             s \<leftarrow> undo_bins env free Index 0 s;
             Some (False, s)
           } else do {
             let Pages = ucast (InfoPages (gMemoryTypeInformation s Index));
             let s = put_statistics Type ((mMemoryTypeStatistics s (unat Type))\<lparr>MaximumAddress := Base + push_bit 12 Pages - 1\<rparr>) s;
             let s = (if Base < mDefaultMaximumAddress s then s\<lparr>mDefaultMaximumAddress := Base - 1\<rparr> else s);
             reserve_bins env free n (Suc Index) s
           }
         })"

text \<open>The reserved pages are freed again; later allocations find their bins there.\<close>

fun open_bins :: "'e mem_env \<Rightarrow> 'e free_stack \<Rightarrow> nat \<Rightarrow> nat \<Rightarrow> 'e mem \<Rightarrow> 'e mem option" where
  "open_bins env free 0 Index s = None"
| "open_bins env free (Suc n) Index s =
     (let y = gMemoryTypeInformation s Index; Type = InfoType y
      in if Type = EfiMaxMemoryType then Some s
         else if Type > EfiMaxMemoryType \<or> InfoPages y = 0 then open_bins env free n (Suc Index) s
         else do {
           (_, s) \<leftarrow> CoreFreePages env free (BaseAddress (mMemoryTypeStatistics s (unat Type))) (ucast (InfoPages y)) s;
           let y = gMemoryTypeInformation s Index;
           let s = put_statistics Type ((mMemoryTypeStatistics s (unat Type))\<lparr>StatPages := ucast (InfoPages y)\<rparr>) s;
           let s = put_information Index (y\<lparr>InfoPages := 0\<rparr>) s;
           open_bins env free n (Suc Index) s
         })"

fun index_type :: "nat \<Rightarrow> nat \<Rightarrow> u32 \<Rightarrow> 'e mem \<Rightarrow> 'e mem option" where
  "index_type 0 Index Type s = None"
| "index_type (Suc n) Index Type s =
     (if InfoType (gMemoryTypeInformation s Index) = EfiMaxMemoryType then Some s
      else index_type n (Suc Index) Type
             (if Type = InfoType (gMemoryTypeInformation s Index)
              then put_statistics Type ((mMemoryTypeStatistics s (unat Type))\<lparr>InformationIndex := Index\<rparr>) s else s))"

fun finish_types :: "u32 list \<Rightarrow> 'e mem \<Rightarrow> 'e mem option" where
  "finish_types [] s = Some s"
| "finish_types (Type # l) s = do {
     s \<leftarrow> index_type 15 0 Type s;
     let s = put_statistics Type ((mMemoryTypeStatistics s (unat Type))\<lparr>CurrentNumberOfPages := 0\<rparr>) s;
     let x = mMemoryTypeStatistics s (unat Type);
     let s = (if MaximumAddress x = MAX_ADDRESS then put_statistics Type (x\<lparr>MaximumAddress := mDefaultMaximumAddress s\<rparr>) s else s);
     finish_types l s
   }"

definition CoreAddMemoryDescriptor :: "'e mem_env \<Rightarrow> 'e free_stack \<Rightarrow> u32 \<Rightarrow> u64 \<Rightarrow> u64 \<Rightarrow> u64 \<Rightarrow> 'e mem \<Rightarrow> 'e mem option" where
  "CoreAddMemoryDescriptor env free Type Start NumberOfPages Attribute s =
     (if Start AND EFI_PAGE_MASK \<noteq> 0 then Some s
      else if Type \<ge> EfiMaxMemoryType \<and> Type \<le> 0x7fffffff then Some s
      else do {
        s \<leftarrow> CoreAcquireMemoryLock s;
        let End = Start + push_bit 12 NumberOfPages - 1;
        s \<leftarrow> CoreAddRange env Type Start End Attribute s;
        s \<leftarrow> free s;
        s \<leftarrow> CoreReleaseMemoryLock s;
        s \<leftarrow> (if PcdLoadModuleAtFixAddressEnable env \<noteq> 0 then CoreLoadingFixedAddressHook env free s else Some s);
        if mMemoryTypeInformationInitialized s then Some s
        else do {
          (ok, s) \<leftarrow> reserve_bins env free 15 0 s;
          if \<not> ok then Some s
          else do {
            s \<leftarrow> open_bins env free 15 0 s;
            s \<leftarrow> finish_types (map of_nat [0..<14]) s;
            Some (s\<lparr>mMemoryTypeInformationInitialized := True\<rparr>)
          }
        }
      })"

section \<open>Reading the map\<close>

record efi_descriptor =
  DescType :: u32
  PhysicalStart :: u64
  VirtualStart :: u64
  DescPages :: u64
  DescAttribute :: u64

text \<open>\<open>MergeMemoryMapDescriptor\<close> with the descriptors \<open>l\<close> before the last one: the descriptors that are
  in use afterwards.\<close>

fun MergeMemoryMapDescriptor :: "efi_descriptor list \<Rightarrow> efi_descriptor \<Rightarrow> efi_descriptor list" where
  "MergeMemoryMapDescriptor [] d = [d]"
| "MergeMemoryMapDescriptor (m # l) d =
     (if DescType m \<noteq> DescType d \<or> DescAttribute m \<noteq> DescAttribute d then m # MergeMemoryMapDescriptor l d
      else if PhysicalStart m + EFI_PAGES_TO_SIZE (DescPages m) = PhysicalStart d
      then m\<lparr>DescPages := DescPages m + DescPages d\<rparr> # l
      else if PhysicalStart m - EFI_PAGES_TO_SIZE (DescPages d) = PhysicalStart d
      then m\<lparr>PhysicalStart := PhysicalStart d, VirtualStart := VirtualStart d, DescPages := DescPages m + DescPages d\<rparr> # l
      else m # MergeMemoryMapDescriptor l d)"

text \<open>A free entry that lies in the bin of a special type is reported with that type.\<close>

definition reported_type :: "(nat \<Rightarrow> type_statistics) \<Rightarrow> map_entry \<Rightarrow> u32" where
  "reported_type stats e =
     (if EntryType e = EfiConventionalMemory
      then fold (\<lambda>Type T. if Special (stats Type) \<and> StatPages (stats Type) > 0 \<and>
                   EntryStart e \<ge> BaseAddress (stats Type) \<and> EntryEnd e \<le> MaximumAddress (stats Type) then of_nat Type else T)
             [0..<14] (EntryType e)
      else EntryType e)"

definition entry_descriptor :: "(nat \<Rightarrow> type_statistics) \<Rightarrow> map_entry \<Rightarrow> efi_descriptor" where
  "entry_descriptor stats e =
     (let T = reported_type stats e
      in \<lparr>DescType = T, PhysicalStart = EntryStart e, VirtualStart = 0,
          DescPages = drop_bit 12 (EntryEnd e - EntryStart e + 1),
          DescAttribute = (if T < EfiMaxMemoryType \<and> Runtime (stats (unat T)) then EntryAttribute e OR EFI_MEMORY_RUNTIME
                           else EntryAttribute e)\<rparr>)"

definition runtime_entry :: "gcd_entry \<Rightarrow> bool" where
  "runtime_entry g \<longleftrightarrow> (GcdMemoryType g = EfiGcdMemoryTypeReserved \<or> GcdMemoryType g = EfiGcdMemoryTypeMemoryMappedIo) \<and>
     Attributes g AND EFI_MEMORY_RUNTIME = EFI_MEMORY_RUNTIME"

definition gcd_descriptor :: "gcd_entry \<Rightarrow> efi_descriptor" where
  "gcd_descriptor g =
     \<lparr>DescType = (if GcdMemoryType g = EfiGcdMemoryTypeReserved then EfiReservedMemoryType
                  else if Attributes g AND EFI_MEMORY_PORT_IO = EFI_MEMORY_PORT_IO then EfiMemoryMappedIOPortSpace
                  else EfiMemoryMappedIO),
      PhysicalStart = GcdBase g, VirtualStart = 0, DescPages = drop_bit 12 (GcdEnd g - GcdBase g + 1),
      DescAttribute = Attributes g AND NOT EFI_MEMORY_PORT_IO\<rparr>"

abbreviation DESCRIPTOR_SIZE :: u64 where "DESCRIPTOR_SIZE \<equiv> 48"

text \<open>What \<open>CoreGetMemoryMap\<close> stores through its pointers; the caller discards what it passes \<open>NULL\<close> for.
  \<open>sizeof (EFI_MEMORY_DESCRIPTOR)\<close> is 40, to which 8 is added.\<close>

record map_result =
  MapStatus :: efi_status
  MapSize :: "u64 option"
  MapDescriptors :: "efi_descriptor list"
  MapKey :: "u64 option"

definition CoreGetMemoryMap :: "u64 option \<Rightarrow> bool \<Rightarrow> 'e mem \<Rightarrow> (map_result \<times> 'e mem) option" where
  "CoreGetMemoryMap MemoryMapSize BufferGiven s =
     (case MemoryMapSize of None \<Rightarrow> Some (\<lparr>MapStatus = EFI_INVALID_PARAMETER, MapSize = None, MapDescriptors = [], MapKey = None\<rparr>, s)
      | Some BufferMax \<Rightarrow> do {
          s \<leftarrow> CoreAcquireGcdMemoryLock s;
          let runtime = filter runtime_entry (mGcdMemorySpaceMap s);
          s \<leftarrow> CoreAcquireMemoryLock s;
          let BufferSize = DESCRIPTOR_SIZE * of_nat (length runtime) + DESCRIPTOR_SIZE * of_nat (length (gMemoryMap s));
          let descs = fold (\<lambda>d l. MergeMemoryMapDescriptor l d)
                        (map (entry_descriptor (mMemoryTypeStatistics s)) (gMemoryMap s) @ map gcd_descriptor runtime) [];
          let r = (if BufferMax < BufferSize
                   then \<lparr>MapStatus = EFI_BUFFER_TOO_SMALL, MapSize = Some BufferSize, MapDescriptors = [], MapKey = Some (mMemoryMapKey s)\<rparr>
                   else if \<not> BufferGiven
                   then \<lparr>MapStatus = EFI_INVALID_PARAMETER, MapSize = Some BufferSize, MapDescriptors = [], MapKey = Some (mMemoryMapKey s)\<rparr>
                   else \<lparr>MapStatus = EFI_SUCCESS, MapSize = Some (DESCRIPTOR_SIZE * of_nat (length descs)), MapDescriptors = descs,
                         MapKey = Some (mMemoryMapKey s)\<rparr>);
          s \<leftarrow> CoreReleaseMemoryLock s;
          s \<leftarrow> CoreReleaseGcdMemoryLock s;
          Some (r, s)
        })"

definition runtime_misplaced :: "map_entry \<Rightarrow> bool" where
  "runtime_misplaced e \<longleftrightarrow> EntryAttribute e AND EFI_MEMORY_RUNTIME \<noteq> 0 \<and>
     (EntryType e = EfiACPIReclaimMemory \<or> EntryType e = EfiACPIMemoryNVS \<or>
      EntryStart e AND (EFI_ACPI_RUNTIME_PAGE_ALLOCATION_ALIGNMENT - 1) \<noteq> 0 \<or>
      (EntryEnd e + 1) AND (EFI_ACPI_RUNTIME_PAGE_ALLOCATION_ALIGNMENT - 1) \<noteq> 0)"

definition CoreTerminateMemoryMap :: "u64 \<Rightarrow> 'e mem \<Rightarrow> (efi_status \<times> 'e mem) option" where
  "CoreTerminateMemoryMap Key s = do {
     s \<leftarrow> CoreAcquireMemoryLock s;
     let Status = (if Key = mMemoryMapKey s
                   then (if \<exists>e\<in>set (gMemoryMap s). runtime_misplaced e then EFI_INVALID_PARAMETER else EFI_SUCCESS)
                   else EFI_INVALID_PARAMETER);
     s \<leftarrow> CoreReleaseMemoryLock s;
     Some (Status, s)
   }"

end
