(* ===== verification/PagesMap.thy ===== *)
theory PagesMap
  imports Pages "HOL-Library.Sublist"
begin

text \<open>
  The memory map of \<open>Pages\<close>: what a well-formed map is, and which memory adding a range and
  taking one out move.
\<close>

section \<open>Page addresses\<close>

definition page_aligned :: "u64 \<Rightarrow> bool" where
  "page_aligned x \<longleftrightarrow> x AND EFI_PAGE_MASK = 0"

lemma page_mask: "x AND EFI_PAGE_MASK = take_bit 12 (x :: u64)"
proof -
  have "EFI_PAGE_MASK = mask 12" by (simp add: mask_eq_exp_minus_1)
  then show ?thesis by (simp only: take_bit_eq_mask)
qed

lemma page_aligned_take: "page_aligned x \<longleftrightarrow> take_bit 12 x = 0"
  by (simp add: page_aligned_def page_mask)

lemma page_aligned_add: "page_aligned x \<Longrightarrow> page_aligned y \<Longrightarrow> page_aligned (x + y)"
  by (simp add: page_aligned_take take_bit_eq_0_iff)

lemma page_aligned_pages: "page_aligned (push_bit 12 n)"
  by (simp add: page_aligned_take take_bit_push_bit)

lemma page_aligned_even: "page_aligned x \<Longrightarrow> even x"
  by (metis page_aligned_take even_take_bit_eq even_zero zero_neq_numeral)

lemma page_aligned_succ:
  assumes "page_aligned x"
  shows "\<not> page_aligned (x + 1)"
proof
  assume "page_aligned (x + 1)"
  then have "even (x + 1)" "even x" using page_aligned_even assms by blast+
  then show False by simp
qed

lemma unat_succ:
  assumes "x \<noteq> MAX_ADDRESS"
  shows "unat (x + 1) = Suc (unat x)"
proof -
  have "1 + x \<noteq> 0"
  proof
    assume "1 + x = 0"
    then have "x = - 1" by (metis eq_neg_iff_add_eq_0 add.commute)
    then show False using assms by simp
  qed
  then show ?thesis using unatSuc [of x] by (simp add: add.commute)
qed

lemma succ_le:
  fixes x a :: u64
  assumes "x \<noteq> MAX_ADDRESS"
  shows "x + 1 \<le> a \<longleftrightarrow> x < a" "a < x + 1 \<longleftrightarrow> a \<le> x"
  using unat_succ [OF assms] by (auto simp: word_le_nat_alt word_less_nat_alt)

lemma pred_lt:
  fixes x a :: u64
  assumes "b < x"
  shows "a \<le> x - 1 \<longleftrightarrow> a < x" "x - 1 < a \<longleftrightarrow> x \<le> a" "x - 1 \<noteq> MAX_ADDRESS"
proof -
  have "x \<noteq> 0" using assms word_not_simps(1) by blast
  then have n: "x - 1 \<noteq> MAX_ADDRESS" by auto
  show "a \<le> x - 1 \<longleftrightarrow> a < x" "x - 1 < a \<longleftrightarrow> x \<le> a" using succ_le [OF n, of a] by simp_all
  show "x - 1 \<noteq> MAX_ADDRESS" by (rule n)
qed

lemma below_max:
  assumes "(a :: u64) \<le> b" "b \<noteq> MAX_ADDRESS"
  shows "a \<noteq> MAX_ADDRESS"
proof
  assume h: "a = MAX_ADDRESS"
  have m: "MAX_ADDRESS = - 1" by simp
  have "b = - 1" using assms(1) word_order.extremum [of b] unfolding h m by (rule order_antisym [rotated])
  then show False using assms(2) by simp
qed

lemma pages_bytes:
  assumes "unat (P :: u64) < 2 ^ 52"
  shows "unat (push_bit 12 P) = unat P * 4096"
proof -
  have "unat (push_bit 12 P) = (unat P * 2 ^ 12) mod 2 ^ 64"
    by (simp add: push_bit_eq_mult unat_word_ariths(2) mult.commute)
  also have "\<dots> = unat P * 4096" using assms by simp
  finally show ?thesis .
qed

lemma unat_page: "unat (take_bit 12 (x :: u64)) = unat x mod 4096"
proof -
  have "unat (take_bit 12 x) = take_bit 12 (unat x)" by (rule unsigned_take_bit_eq)
  then show ?thesis by (simp only: take_bit_eq_mod [of 12 "unat x"]) simp
qed

lemma page_aligned_dvd: "page_aligned x \<longleftrightarrow> 4096 dvd unat x"
  unfolding page_aligned_take dvd_eq_mod_eq_0 unat_page [symmetric] by (simp only: unat_eq_zero)

section \<open>Well-formed maps\<close>

definition covers :: "map_entry \<Rightarrow> u64 \<Rightarrow> bool" where
  "covers e a \<longleftrightarrow> EntryStart e \<le> a \<and> a \<le> EntryEnd e"

definition entry_ok :: "map_entry \<Rightarrow> bool" where
  "entry_ok e \<longleftrightarrow> page_aligned (EntryStart e) \<and> page_aligned (EntryEnd e + 1) \<and> EntryStart e < EntryEnd e \<and> EntryEnd e \<noteq> MAX_ADDRESS"

definition apart :: "map_entry \<Rightarrow> map_entry \<Rightarrow> bool" where
  "apart e f \<longleftrightarrow> EntryEnd e < EntryStart f \<or> EntryEnd f < EntryStart e"

text \<open>The entries are whole pages and pairwise disjoint, each slot of the stack holds at most one of
  them, and the entries on the heap are in the order of their addresses.\<close>

definition map_ok :: "nat \<Rightarrow> map_entry list \<Rightarrow> bool" where
  "map_ok d l \<longleftrightarrow> (\<forall>e\<in>set l. entry_ok e) \<and> sorted_wrt apart l \<and>
     (\<forall>e\<in>set l. \<not> FromPages e \<longrightarrow> MapSlot e < d) \<and> distinct (map MapSlot (filter (\<lambda>e. \<not> FromPages e) l)) \<and>
     sorted_wrt (\<lambda>e f. EntryStart e < EntryStart f) (filter FromPages l)"

text \<open>The memory at an address, by type and attribute.\<close>

definition owned :: "map_entry list \<Rightarrow> u64 \<Rightarrow> u32 \<Rightarrow> u64 \<Rightarrow> bool" where
  "owned l a T A \<longleftrightarrow> (\<exists>e\<in>set l. covers e a \<and> EntryType e = T \<and> EntryAttribute e = A)"

lemma owned_simps [simp]:
  "\<not> owned [] a T A"
  "owned (e # l) a T A \<longleftrightarrow> covers e a \<and> EntryType e = T \<and> EntryAttribute e = A \<or> owned l a T A"
  "owned (k @ l) a T A \<longleftrightarrow> owned k a T A \<or> owned l a T A"
  by (auto simp: owned_def)

lemma apart_sym: "apart e f \<longleftrightarrow> apart f e"
  by (auto simp: apart_def)

lemma apart_covers: "apart e f \<Longrightarrow> covers e a \<Longrightarrow> \<not> covers f a"
  by (auto simp: apart_def covers_def)

lemma apart_within:
  assumes "apart e f" "EntryStart f \<le> EntryStart f'" "EntryEnd f' \<le> EntryEnd f"
  shows "apart e f'"
  using assms by (auto simp: apart_def)

lemma apart_list: "sorted_wrt apart (pre @ e # post) \<longleftrightarrow> sorted_wrt apart (pre @ post) \<and> (\<forall>f\<in>set pre \<union> set post. apart e f)"
  by (auto simp: sorted_wrt_append apart_sym)

lemma map_ok_unique:
  assumes "map_ok d l" "e \<in> set l" "f \<in> set l" "covers e a" "covers f a"
  shows "e = f"
proof (rule ccontr)
  assume "e \<noteq> f"
  obtain pre post where l: "l = pre @ e # post" using assms(2) by (meson split_list)
  have "f \<in> set pre \<union> set post" using assms(3) \<open>e \<noteq> f\<close> l by auto
  then have "apart e f" using assms(1) unfolding map_ok_def l apart_list by blast
  then show False using apart_covers assms(4,5) by blast
qed

lemma owned_unique: "map_ok d l \<Longrightarrow> owned l a T A \<Longrightarrow> owned l a T' A' \<Longrightarrow> T' = T \<and> A' = A"
  using map_ok_unique unfolding owned_def by blast

lemma map_ok_mono: "map_ok d l \<Longrightarrow> d \<le> d' \<Longrightarrow> map_ok d' l"
  by (fastforce simp: map_ok_def)

lemma map_ok_remove:
  assumes "map_ok d (pre @ e # post)"
  shows "map_ok d (pre @ post)"
  using assms by (cases "FromPages e") (auto simp: map_ok_def sorted_wrt_append)

lemma subseq_sorted_wrt: "subseq k l \<Longrightarrow> sorted_wrt R l \<Longrightarrow> sorted_wrt R k"
  by (induction rule: list_emb.induct) (auto dest: list_emb_set)

lemma subseq_distinct: "subseq k l \<Longrightarrow> distinct l \<Longrightarrow> distinct k"
  by (induction rule: list_emb.induct) (auto dest: list_emb_set)

lemma map_ok_subseq:
  assumes "map_ok d l" "subseq k l"
  shows "map_ok d k"
proof -
  have "subseq (map MapSlot (filter (\<lambda>e. \<not> FromPages e) k)) (map MapSlot (filter (\<lambda>e. \<not> FromPages e) l))"
    using assms(2) by (intro subseq_map subseq_filter)
  then have "distinct (map MapSlot (filter (\<lambda>e. \<not> FromPages e) k))"
    using assms(1) subseq_distinct unfolding map_ok_def by blast
  moreover have "set k \<subseteq> set l" using assms(2) by (auto dest: list_emb_set)
  ultimately show ?thesis
    using assms subseq_sorted_wrt [OF assms(2)] subseq_sorted_wrt [OF subseq_filter [OF assms(2), of FromPages]]
    unfolding map_ok_def by blast
qed

lemma map_ok_shrink:
  assumes "map_ok d (pre @ e # post)" "entry_ok e'" "EntryStart e \<le> EntryStart e'" "EntryEnd e' \<le> EntryEnd e"
    and "FromPages e' = FromPages e" "MapSlot e' = MapSlot e"
  shows "map_ok d (pre @ e' # post)"
proof -
  have a: "sorted_wrt apart (pre @ e' # post)"
    using assms(1,3,4) apart_within unfolding map_ok_def apart_list by (metis apart_sym)
  have o: "EntryStart e' < EntryStart f" if "f \<in> set post" "EntryStart e < EntryStart f" for f
  proof -
    have "apart e f" "EntryStart f < EntryEnd f"
      using assms(1) that(1) unfolding map_ok_def apart_list by (auto simp: entry_ok_def)
    then have "EntryEnd e < EntryStart f" using that(2) by (auto simp: apart_def)
    then show ?thesis using assms(2,4) by (auto simp: entry_ok_def)
  qed
  have s: "sorted_wrt (\<lambda>e f. EntryStart e < EntryStart f) (filter FromPages (pre @ e' # post))"
    using assms(1,3,5) o by (cases "FromPages e") (fastforce simp: map_ok_def sorted_wrt_append intro: less_le_trans)+
  have m: "filter (\<lambda>e. \<not> FromPages e) [e'] = (if FromPages e then [] else [e'])"
    "filter (\<lambda>e. \<not> FromPages e) [e] = (if FromPages e then [] else [e])" using assms(5) by simp_all
  have "map MapSlot (filter (\<lambda>e. \<not> FromPages e) (pre @ e' # post)) = map MapSlot (filter (\<lambda>e. \<not> FromPages e) (pre @ e # post))"
    using assms(5,6) by simp
  then show ?thesis using assms(1,2,5,6) a s unfolding map_ok_def by auto
qed

lemma map_ok_append:
  assumes "map_ok d l" "entry_ok e" "\<not> FromPages e" "MapSlot e = d" "\<forall>f\<in>set l. apart e f"
  shows "map_ok (Suc d) (l @ [e])"
proof -
  have "d \<notin> set (map MapSlot (filter (\<lambda>e. \<not> FromPages e) l))" using assms(1) by (auto simp: map_ok_def)
  then show ?thesis using assms by (auto simp: map_ok_def sorted_wrt_append apart_sym less_Suc_eq)
qed

section \<open>Adding a range\<close>

definition outside_range :: "u64 \<Rightarrow> u64 \<Rightarrow> map_entry list \<Rightarrow> bool" where
  "outside_range Start End l \<longleftrightarrow> (\<forall>e\<in>set l. EntryEnd e < Start \<or> End < EntryStart e)"

lemma outside_range_simps [simp]:
  "outside_range S E []"
  "outside_range S E (e # l) \<longleftrightarrow> (EntryEnd e < S \<or> E < EntryStart e) \<and> outside_range S E l"
  by (auto simp: outside_range_def)

definition in_range :: "u64 \<Rightarrow> u64 \<Rightarrow> u64 \<Rightarrow> bool" where
  "in_range S E a \<longleftrightarrow> S \<le> a \<and> a \<le> E"

text \<open>What the merging loop guarantees of the entries it keeps and the range it returns.\<close>

definition merged :: "u32 \<Rightarrow> u64 \<Rightarrow> map_entry list \<Rightarrow> u64 \<Rightarrow> u64 \<Rightarrow> map_entry list \<Rightarrow> u64 \<Rightarrow> u64 \<Rightarrow> bool" where
  "merged Type Attribute l S E k S' E' \<longleftrightarrow>
     (\<forall>a T A. owned k a T A \<or> in_range S' E' a \<and> T = Type \<and> A = Attribute \<longleftrightarrow>
              owned l a T A \<or> in_range S E a \<and> T = Type \<and> A = Attribute) \<and>
     S' < E' \<and> page_aligned S' \<and> page_aligned (E' + 1) \<and> E' \<noteq> MAX_ADDRESS \<and> subseq k l \<and> outside_range S' E' k"

lemma merged_keep:
  assumes "merged Type Attribute l S E k S' E'" "entry_ok e" "\<forall>f\<in>set l. apart e f" "EntryEnd e < S \<or> E < EntryStart e"
  shows "merged Type Attribute (e # l) S E (e # k) S' E'"
proof -
  have n: "\<not> in_range S' E' a" if c: "covers e a" for a
  proof
    assume "in_range S' E' a"
    then have "owned l a Type Attribute \<or> in_range S E a" using assms(1) by (auto simp: merged_def)
    then show False using assms(3,4) c apart_covers by (auto simp: owned_def in_range_def covers_def)
  qed
  have c: "covers e (EntryStart e)" "covers e (EntryEnd e)" using assms(2) by (auto simp: covers_def entry_ok_def)
  have "EntryEnd e < S' \<or> E' < EntryStart e"
  proof (rule ccontr)
    assume "\<not> ?thesis"
    then have "S' \<le> EntryEnd e" "EntryStart e \<le> E'" by auto
    moreover have "S' < E'" using assms(1) by (simp add: merged_def)
    ultimately show False
      using n [OF c(1)] n [of S'] unfolding in_range_def covers_def by (metis le_cases less_imp_le)
  qed
  then show ?thesis using assms(1) unfolding merged_def by (simp only: owned_simps outside_range_simps) auto
qed

lemma merged_join:
  assumes "merged Type Attribute l S1 E1 k S' E'" "EntryType e = Type" "EntryAttribute e = Attribute"
    and "\<And>a. in_range S1 E1 a \<longleftrightarrow> covers e a \<or> in_range S E a"
  shows "merged Type Attribute (e # l) S E k S' E'"
  using assms unfolding merged_def by (simp only: owned_simps) (auto intro: list_emb_Cons)

lemma merge_range_merged:
  assumes "merge_range Type Attribute l S E = (k, n, S', E')"
    and "\<forall>e\<in>set l. entry_ok e" "sorted_wrt apart l" "outside_range S E l"
    and "S < E" "page_aligned S" "page_aligned (E + 1)" "E \<noteq> MAX_ADDRESS"
  shows "merged Type Attribute l S E k S' E'"
  using assms
proof (induction Type Attribute l S E arbitrary: k n rule: merge_range.induct)
  case (1 Type Attribute S E)
  then show ?case by (simp add: merged_def)
next
  case (2 Type Attribute e l S E)
  have o: "entry_ok e" "\<forall>f\<in>set l. entry_ok f" "\<forall>f\<in>set l. apart e f" "sorted_wrt apart l"
    "EntryEnd e < S \<or> E < EntryStart e" "outside_range S E l" using 2(6-8) by auto
  have eo: "page_aligned (EntryStart e)" "page_aligned (EntryEnd e + 1)" "EntryStart e < EntryEnd e" "EntryEnd e \<noteq> MAX_ADDRESS"
    using o(1) by (auto simp: entry_ok_def)
  consider (skip) "EntryType e \<noteq> Type \<or> EntryAttribute e \<noteq> Attribute"
    | (below) "EntryType e = Type" "EntryAttribute e = Attribute" "EntryEnd e + 1 = S"
    | (above) "EntryType e = Type" "EntryAttribute e = Attribute" "EntryEnd e + 1 \<noteq> S" "EntryStart e = E + 1"
    | (keep) "EntryType e = Type" "EntryAttribute e = Attribute" "EntryEnd e + 1 \<noteq> S" "EntryStart e \<noteq> E + 1" by blast
  then show ?case
  proof cases
    case skip
    then obtain k1 n1 where m: "merge_range Type Attribute l S E = (k1, n1, S', E')" "k = e # k1"
      using 2(5) by (auto split: prod.splits)
    show ?thesis unfolding m(2) using 2(1) [OF skip m(1) o(2,4,6) 2(9-12)] by (rule merged_keep [OF _ o(1,3,5)])
  next
    case below
    then obtain n1 where m: "merge_range Type Attribute l (EntryStart e) E = (k, n1, S', E')"
      using 2(5) by (auto split: prod.splits)
    have r: "in_range (EntryStart e) E a \<longleftrightarrow> covers e a \<or> in_range S E a" for a
      using succ_le [OF eo(4), of a] eo(3) 2(9) unfolding in_range_def covers_def below(3) by (auto intro: less_imp_le order.trans less_trans)
    have "EntryStart e < E" using eo(3) 2(9) succ_le [OF eo(4), of S] below(3) by (auto intro: less_trans)
    moreover have "outside_range (EntryStart e) E l"
    proof -
      have "EntryEnd f < EntryStart e \<or> E < EntryStart f" if "f \<in> set l" for f
      proof -
        have "apart e f" "entry_ok f" "EntryEnd f < S \<or> E < EntryStart f" using o(2,3,6) that by (auto simp: outside_range_def)
        then show ?thesis using succ_le [OF eo(4), of "EntryEnd f"] below(3) by (auto simp: apart_def entry_ok_def not_le)
      qed
      then show ?thesis by (simp add: outside_range_def)
    qed
    ultimately show ?thesis
      using merged_join [OF 2(2) below(1,2) r] below m o(2,4) eo(1) 2(11,12) by simp
  next
    case above
    then obtain n1 where m: "merge_range Type Attribute l S (EntryEnd e) = (k, n1, S', E')"
      using 2(5) by (auto split: prod.splits)
    have r: "in_range S (EntryEnd e) a \<longleftrightarrow> covers e a \<or> in_range S E a" for a
      using succ_le [OF 2(12), of a] eo(3) 2(9) unfolding in_range_def covers_def above(4) by (auto intro: less_imp_le order.trans less_trans)
    have "E < EntryEnd e" using eo(3) succ_le [OF 2(12), of "EntryEnd e"] above(4) by auto
    then have "S < EntryEnd e" using 2(9) by (auto intro: less_trans)
    moreover have "outside_range S (EntryEnd e) l"
    proof -
      have "EntryEnd f < S \<or> EntryEnd e < EntryStart f" if "f \<in> set l" for f
      proof -
        have "apart e f" "entry_ok f" "EntryEnd f < S \<or> E < EntryStart f" using o(2,3,6) that by (auto simp: outside_range_def)
        then show ?thesis using succ_le [OF 2(12), of "EntryEnd f"] above(4) by (auto simp: apart_def entry_ok_def not_le)
      qed
      then show ?thesis by (simp add: outside_range_def)
    qed
    ultimately show ?thesis
      using merged_join [OF 2(3) above(1,2) r] above m o(2,4) eo(2,4) 2(10) by simp
  next
    case keep
    then obtain k1 n1 where m: "merge_range Type Attribute l S E = (k1, n1, S', E')" "k = e # k1"
      using 2(5) by (auto split: prod.splits)
    have "\<not> (EntryType e \<noteq> Type \<or> EntryAttribute e \<noteq> Attribute)" using keep by simp
    from 2(4) [OF this keep(3,4) m(1) o(2,4,6) 2(9-12)] show ?thesis unfolding m(2) by (rule merged_keep [OF _ o(1,3,5)])
  qed
qed

text \<open>\<open>CoreAddRange\<close> gives the range to the new owner and moves no other memory.\<close>

lemma CoreAddRange_adds:
  assumes "CoreAddRange env Type S E Attribute s = Some s'" "map_ok (mMapDepth s) (gMemoryMap s)"
    and "outside_range S E (gMemoryMap s)" "page_aligned (E + 1)" "E \<noteq> MAX_ADDRESS"
  shows "map_ok (mMapDepth s') (gMemoryMap s')"
    "owned (gMemoryMap s') a T A \<longleftrightarrow> owned (gMemoryMap s) a T A \<or> in_range S E a \<and> T = Type \<and> A = Attribute"
    "gMemoryLock s' = gMemoryLock s" "mGcdMemorySpaceLock s' = mGcdMemorySpaceLock s" "mGcdMemorySpaceMap s' = mGcdMemorySpaceMap s"
    "mFreeMapStack s' = mFreeMapStack s" "mMapDepth s' = Suc (mMapDepth s)" "mFreeMemoryMapEntryList s \<le> mFreeMemoryMapEntryList s'"
proof -
  obtain k n S' E' where m: "merge_range Type Attribute (gMemoryMap s) S E = (k, n, S', E')" by (metis prod_cases4)
  have se: "S < E" "page_aligned S" using assms(1) by (auto simp: CoreAddRange_def page_aligned_def)
  have g: "merged Type Attribute (gMemoryMap s) S E k S' E'"
    using merge_range_merged [OF m] assms(2-5) se by (simp add: map_ok_def)
  have f: "gMemoryMap s' = k @ [\<lparr>FromPages = False, MapSlot = mMapDepth s, EntryType = Type, EntryStart = S', EntryEnd = E', EntryAttribute = Attribute\<rparr>]"
    "mMapDepth s' = Suc (mMapDepth s)" "gMemoryLock s' = gMemoryLock s" "mGcdMemorySpaceLock s' = mGcdMemorySpaceLock s"
    "mGcdMemorySpaceMap s' = mGcdMemorySpaceMap s" "mFreeMapStack s' = mFreeMapStack s" "mFreeMemoryMapEntryList s \<le> mFreeMemoryMapEntryList s'"
    using assms(1) m by (auto simp: CoreAddRange_def Let_def split: if_splits)
  show "gMemoryLock s' = gMemoryLock s" "mGcdMemorySpaceLock s' = mGcdMemorySpaceLock s" "mGcdMemorySpaceMap s' = mGcdMemorySpaceMap s"
    "mFreeMapStack s' = mFreeMapStack s" "mMapDepth s' = Suc (mMapDepth s)" "mFreeMemoryMapEntryList s \<le> mFreeMemoryMapEntryList s'"
    by (rule f)+
  show "owned (gMemoryMap s') a T A \<longleftrightarrow> owned (gMemoryMap s) a T A \<or> in_range S E a \<and> T = Type \<and> A = Attribute"
    using g unfolding merged_def f(1) by (auto simp: covers_def in_range_def)
  have k: "map_ok (mMapDepth s) k" using g map_ok_subseq [OF assms(2)] by (simp add: merged_def)
  show "map_ok (mMapDepth s') (gMemoryMap s')" unfolding f(1,2)
    using g by (intro map_ok_append [OF k]) (auto simp: merged_def entry_ok_def outside_range_def apart_def)
qed

section \<open>Taking a range out of the map\<close>

lemma rest_outside:
  assumes "map_ok d (pre @ e # post)" "covers e S" "covers e R" "S < R"
  shows "outside_range S R (pre @ post)"
proof -
  have "EntryEnd f < S \<or> R < EntryStart f" if "f \<in> set pre \<union> set post" for f
  proof -
    have "apart e f" "entry_ok f" using assms(1) that unfolding map_ok_def apart_list by auto
    then show ?thesis using assms(2-4) by (auto simp: apart_def covers_def entry_ok_def)
  qed
  then show ?thesis by (auto simp: outside_range_def)
qed

lemma outside_not_in: "outside_range S R l \<Longrightarrow> owned l a T A \<Longrightarrow> \<not> in_range S R a"
  by (auto simp: outside_range_def owned_def covers_def in_range_def)

lemma outside_range_append [simp]: "outside_range S R (k @ l) \<longleftrightarrow> outside_range S R k \<and> outside_range S R l"
  by (auto simp: outside_range_def)

text \<open>What is left of the map when the range is taken out of the entry that covers it.\<close>

definition taken_out :: "map_entry list \<Rightarrow> u64 \<Rightarrow> u64 \<Rightarrow> nat \<Rightarrow> map_entry list \<Rightarrow> bool" where
  "taken_out l S R d l' \<longleftrightarrow> map_ok d l' \<and> outside_range S R l' \<and>
     (\<forall>a T A. owned l' a T A \<longleftrightarrow> owned l a T A \<and> \<not> in_range S R a)"

lemma taken_out_remove:
  assumes "map_ok d (pre @ e # post)" "covers e S" "covers e R" "S < R" "EntryStart e = S" "EntryEnd e = R"
  shows "taken_out (pre @ e # post) S R d (pre @ post)"
proof -
  note o = rest_outside [OF assms(1-4)]
  have "owned (pre @ post) a T A \<Longrightarrow> \<not> in_range S R a" for a T A by (rule outside_not_in [OF o])
  then show ?thesis using o map_ok_remove [OF assms(1)] assms(5,6) by (auto simp: taken_out_def covers_def in_range_def)
qed

lemma taken_out_clip:
  assumes "map_ok d (pre @ e # post)" "covers e S" "covers e R" "S < R" "entry_ok e'"
    and "FromPages e' = FromPages e" "MapSlot e' = MapSlot e" "EntryType e' = EntryType e" "EntryAttribute e' = EntryAttribute e"
    and "\<And>a. covers e' a \<longleftrightarrow> covers e a \<and> \<not> in_range S R a"
  shows "taken_out (pre @ e # post) S R d (pre @ e' # post)"
proof -
  note o = rest_outside [OF assms(1-4)]
  have n: "owned (pre @ post) a T A \<Longrightarrow> \<not> in_range S R a" for a T A by (rule outside_not_in [OF o])
  have c: "covers e' (EntryStart e')" "covers e' (EntryEnd e')" using assms(5) by (auto simp: covers_def entry_ok_def)
  then have w: "EntryStart e \<le> EntryStart e'" "EntryEnd e' \<le> EntryEnd e" using assms(10) by (auto simp: covers_def)
  have "EntryEnd e' < S \<or> R < EntryStart e'"
  proof (rule ccontr)
    assume "\<not> ?thesis"
    then have h: "S \<le> EntryEnd e'" "EntryStart e' \<le> R" by auto
    have "\<not> covers e' S" using assms(2-4,10) by (auto simp: in_range_def)
    then have "S < EntryStart e'" using h by (auto simp: covers_def)
    then show False using assms(10) c(1) h by (auto simp: in_range_def)
  qed
  then show ?thesis
    using o n map_ok_shrink [OF assms(1,5) w assms(6,7)] assms(8-10) by (auto simp: taken_out_def)
qed

lemma taken_out_split:
  assumes "map_ok d (pre @ e # post)" "covers e S" "covers e R" "S < R" "EntryStart e < S" "R < EntryEnd e"
    and "page_aligned S" "page_aligned (R + 1)"
  defines "new \<equiv> \<lparr>FromPages = False, MapSlot = d, EntryType = EntryType e, EntryStart = R + 1, EntryEnd = EntryEnd e, EntryAttribute = EntryAttribute e\<rparr>"
    and "e1 \<equiv> e\<lparr>EntryEnd := S - 1\<rparr>"
  shows "taken_out (pre @ e # post) S R (Suc d) ((pre @ e1 # post) @ [new])"
proof -
  have eo: "entry_ok e" using assms(1) by (simp add: map_ok_def)
  have Rm: "R \<noteq> MAX_ADDRESS" using below_max [OF less_imp_le [OF assms(6)]] eo by (simp add: entry_ok_def)
  note p = pred_lt [OF assms(5)] and q = succ_le [OF Rm]
  have al: "page_aligned (EntryStart e)" "page_aligned (EntryEnd e + 1)" "EntryEnd e \<noteq> MAX_ADDRESS" using eo by (auto simp: entry_ok_def)
  have "EntryStart e \<noteq> S - 1" using page_aligned_succ [OF al(1)] assms(7) by auto
  then have e1: "entry_ok e1" using al p assms(5,7) unfolding e1_def entry_ok_def by (auto simp: less_le)
  have "R + 1 \<noteq> EntryEnd e" using page_aligned_succ [of "EntryEnd e"] assms(8) al(2) by metis
  then have new: "entry_ok new" using al q assms(6,8) unfolding new_def entry_ok_def by (auto simp: less_le)
  have o1: "map_ok d (pre @ e1 # post)"
    using p(1) assms(3-6) by (intro map_ok_shrink [OF assms(1) e1]) (auto simp: e1_def intro: less_imp_le less_trans)
  note o = rest_outside [OF assms(1-4)]
  have n: "owned (pre @ post) a T A \<Longrightarrow> \<not> in_range S R a" for a T A by (rule outside_not_in [OF o])
  have an: "apart new f" if "f \<in> set (pre @ e1 # post)" for f
  proof (cases "f = e1")
    case True
    have "S - 1 < R" "S - 1 \<le> R" using p(2) [of R] assms(4) by auto
    then have "S - 1 < R + 1" using q(2) by blast
    then show ?thesis using True by (simp add: apart_def new_def e1_def)
  next
    case False
    then have "apart e f" using that assms(1) unfolding map_ok_def apart_list by auto
    then show ?thesis using q assms(6,5,4) by (auto simp: apart_def new_def)
  qed
  have "map_ok (Suc d) ((pre @ e1 # post) @ [new])"
    using an by (intro map_ok_append [OF o1 new]) (auto simp: new_def apart_sym)
  moreover have "outside_range S R ((pre @ e1 # post) @ [new])"
    using o p q by (auto simp: outside_range_def e1_def new_def)
  moreover have "covers e1 a \<or> covers new a \<longleftrightarrow> covers e a \<and> \<not> in_range S R a" for a
    using p q assms(4-6) by (auto simp: covers_def e1_def new_def in_range_def not_le intro: less_imp_le order.trans less_trans)
  then have "owned ((pre @ e1 # post) @ [new]) a T A \<longleftrightarrow> owned (pre @ e # post) a T A \<and> \<not> in_range S R a" for a T A
    using n by (auto simp: e1_def new_def)
  ultimately show ?thesis by (simp add: taken_out_def)
qed

definition same_outside_map :: "'e mem \<Rightarrow> 'e mem \<Rightarrow> bool" where
  "same_outside_map s s' \<longleftrightarrow> gMemoryLock s' = gMemoryLock s \<and> mGcdMemorySpaceLock s' = mGcdMemorySpaceLock s \<and>
     mFreeMapStack s' = mFreeMapStack s \<and> length (mGcdMemorySpaceMap s') = length (mGcdMemorySpaceMap s)"

lemma take_range_takes:
  assumes "take_range pre e post S R s = Some (At, s')" "gMemoryMap s = pre @ e # post" "map_ok (mMapDepth s) (gMemoryMap s)"
    and "covers e S" "S < R" "R \<le> EntryEnd e" "page_aligned S" "page_aligned (R + 1)"
  shows "At = EntryAttribute e" "taken_out (gMemoryMap s) S R (mMapDepth s') (gMemoryMap s')" "same_outside_map s s'"
    "mMapDepth s' \<le> Suc (mMapDepth s)" "mFreeMemoryMapEntryList s \<le> mFreeMemoryMapEntryList s'" "mGcdMemorySpaceMap s' = mGcdMemorySpaceMap s"
proof -
  have cR: "covers e R" using assms(4-6) by (auto simp: covers_def)
  have eo: "entry_ok e" using assms(2,3) by (simp add: map_ok_def)
  have m: "map_ok (mMapDepth s) (pre @ e # post)" using assms(2,3) by simp
  have Rm: "R \<noteq> MAX_ADDRESS" using below_max [OF assms(6)] eo by (simp add: entry_ok_def)
  note q = succ_le [OF Rm]
  consider (all) "EntryStart e = S" "EntryEnd e = R" | (start) "EntryStart e = S" "R < EntryEnd e"
    | (till_end) "EntryStart e < S" "EntryEnd e = R" | (middle) "EntryStart e < S" "R < EntryEnd e"
    using assms(4,6) by (auto simp: covers_def less_le)
  then have "At = EntryAttribute e \<and> taken_out (gMemoryMap s) S R (mMapDepth s') (gMemoryMap s') \<and> same_outside_map s s' \<and>
    mMapDepth s' \<le> Suc (mMapDepth s) \<and> mFreeMemoryMapEntryList s \<le> mFreeMemoryMapEntryList s' \<and> mGcdMemorySpaceMap s' = mGcdMemorySpaceMap s"
  proof cases
    case all
    then show ?thesis using assms(1,2) taken_out_remove [OF m assms(4) cR assms(5) all]
      by (cases "FromPages e") (auto simp: take_range_def RemoveMemoryMapEntry_def same_outside_map_def Let_def)
  next
    case start
    have "R + 1 \<noteq> EntryEnd e" using page_aligned_succ [of "EntryEnd e"] assms(8) eo unfolding entry_ok_def by metis
    then have "entry_ok (e\<lparr>EntryStart := R + 1\<rparr>)" using eo assms(8) q start(2) by (auto simp: entry_ok_def less_le)
    then have t: "taken_out (pre @ e # post) S R (mMapDepth s) (pre @ e\<lparr>EntryStart := R + 1\<rparr> # post)"
      using q assms(5) start by (intro taken_out_clip [OF m assms(4) cR assms(5)])
        (auto simp: covers_def in_range_def not_le intro: less_imp_le order.trans)
    have "R + 1 \<noteq> EntryEnd e + 1" using start(2) by auto
    then show ?thesis using assms(1,2) start(1) t by (auto simp: take_range_def same_outside_map_def Let_def)
  next
    case till_end
    note p = pred_lt [OF till_end(1)]
    have "EntryStart e \<noteq> S - 1" using page_aligned_succ [of "EntryStart e"] eo assms(7) by (auto simp: entry_ok_def)
    then have "entry_ok (e\<lparr>EntryEnd := S - 1\<rparr>)" using eo assms(7) p till_end(1) by (auto simp: entry_ok_def less_le)
    then have t: "taken_out (pre @ e # post) S R (mMapDepth s) (pre @ e\<lparr>EntryEnd := S - 1\<rparr> # post)"
      using p assms(5) till_end by (intro taken_out_clip [OF m assms(4) cR assms(5)])
        (auto simp: covers_def in_range_def not_le intro: less_imp_le order.trans)
    moreover have "EntryStart e \<noteq> S" "EntryStart e \<noteq> S - 1 + 1" using till_end(1) by auto
    ultimately show ?thesis using assms(1,2) till_end(2) by (auto simp: take_range_def same_outside_map_def Let_def)
  next
    case middle
    have "R + 1 \<noteq> EntryEnd e + 1" "EntryStart e \<noteq> S" "EntryEnd e \<noteq> R" using middle by auto
    then show ?thesis using assms(1,2) taken_out_split [OF m assms(4) cR assms(5) middle assms(7,8)]
      by (auto simp: take_range_def same_outside_map_def Let_def)
  qed
  then show "At = EntryAttribute e" "taken_out (gMemoryMap s) S R (mMapDepth s') (gMemoryMap s')" "same_outside_map s s'"
    "mMapDepth s' \<le> Suc (mMapDepth s)" "mFreeMemoryMapEntryList s \<le> mFreeMemoryMapEntryList s'" "mGcdMemorySpaceMap s' = mGcdMemorySpaceMap s"
    by auto
qed

end
