(* ===== verification/PagesRun.thy ===== *)
theory PagesRun
  imports PagesMap
begin

text \<open>
  What the services of \<open>Pages\<close> promise: the map stays well-formed, no allocated memory is lost
  or handed out twice, and a conversion moves exactly the range it is asked for.
\<close>

section \<open>The memory as a whole\<close>

abbreviation owns :: "'e mem \<Rightarrow> u64 \<Rightarrow> u32 \<Rightarrow> u64 \<Rightarrow> bool" where
  "owns s \<equiv> owned (gMemoryMap s)"

text \<open>The memory that may still be promoted is not in the map, and is made of disjoint whole pages.\<close>

definition reserve_ok :: "gcd_entry list \<Rightarrow> map_entry list \<Rightarrow> bool" where
  "reserve_ok G l \<longleftrightarrow>
     (\<forall>i<length G. promotable (G ! i) \<longrightarrow>
        page_aligned (GcdBase (G ! i)) \<and> page_aligned (GcdEnd (G ! i) + 1) \<and> GcdBase (G ! i) < GcdEnd (G ! i) \<and>
        (\<forall>a T A. owned l a T A \<longrightarrow> \<not> in_range (GcdBase (G ! i)) (GcdEnd (G ! i)) a)) \<and>
     (\<forall>i<length G. \<forall>j<length G. i \<noteq> j \<longrightarrow> promotable (G ! i) \<longrightarrow> promotable (G ! j) \<longrightarrow>
        (\<forall>a. \<not> (in_range (GcdBase (G ! i)) (GcdEnd (G ! i)) a \<and> in_range (GcdBase (G ! j)) (GcdEnd (G ! j)) a)))"

definition mem_ok :: "'e mem \<Rightarrow> bool" where
  "mem_ok s \<longleftrightarrow> map_ok (mMapDepth s) (gMemoryMap s) \<and> reserve_ok (mGcdMemorySpaceMap s) (gMemoryMap s)"

text \<open>No memory is lost: what is allocated stays as it is, and free memory stays free or becomes a
  page of descriptors.\<close>

definition stays :: "'e mem \<Rightarrow> u64 \<Rightarrow> u32 \<Rightarrow> u64 \<Rightarrow> bool" where
  "stays s a T A \<longleftrightarrow> owns s a T A \<or> T = EfiConventionalMemory \<and> owns s a EfiBootServicesData A"

definition conserves :: "'e mem \<Rightarrow> 'e mem \<Rightarrow> bool" where
  "conserves s s' \<longleftrightarrow> (\<forall>a T A. owns s a T A \<longrightarrow> stays s' a T A)"

text \<open>The memory of \<open>[S, m)\<close> has become memory of type \<open>N\<close>; freed memory may have become descriptors at once.\<close>

definition converted :: "u32 \<Rightarrow> u64 \<Rightarrow> u64 \<Rightarrow> 'e mem \<Rightarrow> 'e mem \<Rightarrow> bool" where
  "converted N S m s s' \<longleftrightarrow>
     (\<forall>a T A. owns s a T A \<longrightarrow> \<not> (S \<le> a \<and> a < m) \<longrightarrow> stays s' a T A) \<and>
     (\<forall>a T A. owns s a T A \<longrightarrow> S \<le> a \<and> a < m \<longrightarrow> stays s' a N A) \<and>
     (\<forall>a. S \<le> a \<and> a < m \<longrightarrow> (\<exists>A. stays s' a N A)) \<and>
     (N \<noteq> EfiConventionalMemory \<longrightarrow> (\<forall>a T A. owns s a T A \<longrightarrow> S \<le> a \<and> a < m \<longrightarrow> T = EfiConventionalMemory))"

lemma same_outside_map_refl [simp]: "same_outside_map s s"
  by (simp add: same_outside_map_def)

lemma same_outside_map_trans: "same_outside_map s s' \<Longrightarrow> same_outside_map s' s'' \<Longrightarrow> same_outside_map s s''"
  by (simp add: same_outside_map_def)

lemma stays_mono:
  assumes "stays s a T A" "\<And>T A. owns s a T A \<Longrightarrow> stays s' a T A"
  shows "stays s' a T A"
  using assms(1) assms(2) [of T A] assms(2) [of EfiBootServicesData A] by (auto simp: stays_def)

lemma stays_inside:
  assumes "stays s a T A" "\<And>T A. owns s a T A \<Longrightarrow> stays s' a N A"
  shows "stays s' a N A"
  using assms by (auto simp: stays_def)

lemma conserves_refl [simp]: "conserves s s"
  by (simp add: conserves_def stays_def)

lemma conserves_trans: "conserves s s' \<Longrightarrow> conserves s' s'' \<Longrightarrow> conserves s s''"
  unfolding conserves_def using stays_mono by blast

lemma converted_nothing: "\<not> S < m \<Longrightarrow> converted N S m s s"
  by (auto simp: converted_def stays_def)

lemma converted_trans:
  assumes "converted N S m s s1" "converted N m m' s1 s2" "S \<le> m" "m \<le> m'"
  shows "converted N S m' s s2"
proof -
  have i: "S \<le> a \<and> a < m' \<longleftrightarrow> (S \<le> a \<and> a < m) \<or> (m \<le> a \<and> a < m')" for a using assms(3,4) by auto
  have c1: "owns s a T A \<Longrightarrow> \<not> (S \<le> a \<and> a < m) \<Longrightarrow> stays s1 a T A"
      "owns s a T A \<Longrightarrow> S \<le> a \<and> a < m \<Longrightarrow> stays s1 a N A" "S \<le> a \<and> a < m \<Longrightarrow> \<exists>A. stays s1 a N A"
      "N \<noteq> EfiConventionalMemory \<Longrightarrow> owns s a T A \<Longrightarrow> S \<le> a \<and> a < m \<Longrightarrow> T = EfiConventionalMemory" for a T A
    using assms(1) unfolding converted_def by blast+
  have c2: "owns s1 a T A \<Longrightarrow> \<not> (m \<le> a \<and> a < m') \<Longrightarrow> stays s2 a T A"
      "owns s1 a T A \<Longrightarrow> m \<le> a \<and> a < m' \<Longrightarrow> stays s2 a N A" "m \<le> a \<and> a < m' \<Longrightarrow> \<exists>A. stays s2 a N A"
      "N \<noteq> EfiConventionalMemory \<Longrightarrow> owns s1 a T A \<Longrightarrow> m \<le> a \<and> a < m' \<Longrightarrow> T = EfiConventionalMemory" for a T A
    using assms(2) unfolding converted_def by blast+
  have d: "\<not> (m \<le> a \<and> a < m')" if "S \<le> a \<and> a < m" for a using that by auto
  have st: "stays s1 a T A \<Longrightarrow> \<not> (m \<le> a \<and> a < m') \<Longrightarrow> stays s2 a T A" for a T A using c2(1) stays_mono by metis
  have si: "stays s1 a T A \<Longrightarrow> m \<le> a \<and> a < m' \<Longrightarrow> stays s2 a N A" for a T A using c2(2) stays_inside by metis
  have "stays s2 a T A" if "owns s a T A" "\<not> (S \<le> a \<and> a < m')" for a T A using that i c1(1) st by blast
  moreover have "stays s2 a N A" if "owns s a T A" "S \<le> a \<and> a < m'" for a T A
    using that(2) c1(1,2) [OF that(1)] st d si unfolding i by blast
  moreover have "\<exists>A. stays s2 a N A" if "S \<le> a \<and> a < m'" for a using that c1(3) c2(3) st d unfolding i by blast
  moreover have "T = EfiConventionalMemory" if "N \<noteq> EfiConventionalMemory" "owns s a T A" "S \<le> a \<and> a < m'" for a T A
  proof (cases "S \<le> a \<and> a < m")
    case False
    then have "stays s1 a T A" "m \<le> a \<and> a < m'" using c1(1) that i by blast+
    then show ?thesis using c2(4) [OF that(1)] by (auto simp: stays_def)
  qed (use c1(4) that in blast)
  ultimately show ?thesis unfolding converted_def by blast
qed

lemma reserve_ok_less:
  assumes "reserve_ok G l" "\<And>a T A. owned l' a T A \<Longrightarrow> \<exists>T A. owned l a T A"
  shows "reserve_ok G l'"
  using assms unfolding reserve_ok_def by meson

lemma reserve_ok_cong: "owned l' = owned l \<Longrightarrow> reserve_ok G l' = reserve_ok G l"
  by (simp only: reserve_ok_def)

lemma unowned_outside:
  assumes "\<And>a T A. owned l a T A \<Longrightarrow> \<not> in_range S E a" "\<forall>e\<in>set l. entry_ok e" "S < E"
  shows "outside_range S E l"
proof -
  have "EntryEnd e < S \<or> E < EntryStart e" if e: "e \<in> set l" for e
  proof (rule ccontr)
    assume h: "\<not> ?thesis"
    have o: "covers e a \<Longrightarrow> \<not> in_range S E a" for a using assms(1) e by (auto simp: owned_def)
    have "EntryStart e < EntryEnd e" using e assms(2) by (auto simp: entry_ok_def)
    then have "covers e (EntryStart e)" by (auto simp: covers_def)
    then have "EntryStart e < S" using o [of "EntryStart e"] h by (auto simp: in_range_def)
    then have "covers e S" using h by (auto simp: covers_def)
    then show False using o [of S] assms(3) by (auto simp: in_range_def)
  qed
  then show ?thesis by (simp add: outside_range_def)
qed

lemma counted_pages [simp]:
  "gMemoryMap (count_pages T S n s) = gMemoryMap s" "gMemoryMap (uncount_pages T S n s) = gMemoryMap s"
  "mMapDepth (count_pages T S n s) = mMapDepth s" "mMapDepth (uncount_pages T S n s) = mMapDepth s"
  "mGcdMemorySpaceMap (count_pages T S n s) = mGcdMemorySpaceMap s" "mGcdMemorySpaceMap (uncount_pages T S n s) = mGcdMemorySpaceMap s"
  "mFreeMemoryMapEntryList (count_pages T S n s) = mFreeMemoryMapEntryList s"
  "mFreeMemoryMapEntryList (uncount_pages T S n s) = mFreeMemoryMapEntryList s"
  "same_outside_map s' (count_pages T S n s) = same_outside_map s' s" "same_outside_map s' (uncount_pages T S n s) = same_outside_map s' s"
  by (simp_all add: count_pages_def uncount_pages_def put_statistics_def put_information_def same_outside_map_def Let_def)

lemma cleared_range [simp]:
  "gMemoryMap (clear_range env S R s) = gMemoryMap s" "mMapDepth (clear_range env S R s) = mMapDepth s"
  "mGcdMemorySpaceMap (clear_range env S R s) = mGcdMemorySpaceMap s" "same_outside_map s' (clear_range env S R s) = same_outside_map s' s"
  "mFreeMemoryMapEntryList (clear_range env S R s) = mFreeMemoryMapEntryList s"
  by (simp_all add: clear_range_def same_outside_map_def)

text \<open>One turn of a conversion, before the stack is freed.\<close>

lemma reserve_ok_put:
  assumes "reserve_ok G l" "i < length G" "\<not> promotable g"
    and "\<And>a T A. owned l' a T A \<Longrightarrow> (\<exists>T A. owned l a T A) \<or> promotable (G ! i) \<and> in_range (GcdBase (G ! i)) (GcdEnd (G ! i)) a"
  shows "reserve_ok (G[i := g]) l'"
proof -
  have p: "j < length G \<Longrightarrow> promotable (G[i := g] ! j) \<Longrightarrow> j \<noteq> i \<and> promotable (G ! j) \<and> G[i := g] ! j = G ! j" for j
    using assms(2,3) by (cases "j = i") auto
  have r: "\<And>j. j < length G \<Longrightarrow> promotable (G ! j) \<Longrightarrow> page_aligned (GcdBase (G ! j)) \<and> page_aligned (GcdEnd (G ! j) + 1) \<and> GcdBase (G ! j) < GcdEnd (G ! j)"
    "\<And>j a T A. j < length G \<Longrightarrow> promotable (G ! j) \<Longrightarrow> owned l a T A \<Longrightarrow> \<not> in_range (GcdBase (G ! j)) (GcdEnd (G ! j)) a"
    "\<And>j k a. j < length G \<Longrightarrow> k < length G \<Longrightarrow> j \<noteq> k \<Longrightarrow> promotable (G ! j) \<Longrightarrow> promotable (G ! k) \<Longrightarrow>
       \<not> (in_range (GcdBase (G ! j)) (GcdEnd (G ! j)) a \<and> in_range (GcdBase (G ! k)) (GcdEnd (G ! k)) a)"
    using assms(1) unfolding reserve_ok_def by blast+
  show ?thesis unfolding reserve_ok_def length_list_update
  proof (intro conjI allI impI)
    fix j a T A assume j: "j < length G" "promotable (G[i := g] ! j)" and o: "owned l' a T A"
    then show "\<not> in_range (GcdBase (G[i := g] ! j)) (GcdEnd (G[i := g] ! j)) a"
      using p [OF j] assms(2) assms(4) [OF o] r(2) [OF j(1)] r(3) [OF j(1) assms(2)] by auto
  next
    fix j k a assume "j < length G" "k < length G" "j \<noteq> k" "promotable (G[i := g] ! j)" "promotable (G[i := g] ! k)"
    then show "\<not> (in_range (GcdBase (G[i := g] ! j)) (GcdEnd (G[i := g] ! j)) a \<and> in_range (GcdBase (G[i := g] ! k)) (GcdEnd (G[i := g] ! k)) a)"
      using p r(3) by metis
  qed (use p r(1) in metis)+
qed

lemma convert_turn:
  assumes "mem_ok s" "gMemoryMap s = pre @ e # post" "covers e S" "S < R" "R \<le> EntryEnd e" "page_aligned S" "page_aligned (R + 1)"
    and "(N = EfiConventionalMemory) \<noteq> (EntryType e = EfiConventionalMemory)"
    and "take_range pre e post S R s = Some (At, s1)" "CoreAddRange env N S R At s1 = Some s2"
  shows "mem_ok s2" "converted N S (R + 1) s s2" "same_outside_map s s2"
    "owns s2 a T A \<longleftrightarrow> (if in_range S R a then T = N \<and> A = EntryAttribute e else owns s a T A)"
    "mMapDepth s2 \<le> mMapDepth s + 2" "mFreeMemoryMapEntryList s \<le> mFreeMemoryMapEntryList s2"
proof -
  have m: "map_ok (mMapDepth s) (gMemoryMap s)" and r: "reserve_ok (mGcdMemorySpaceMap s) (gMemoryMap s)"
    using assms(1) by (auto simp: mem_ok_def)
  have el: "e \<in> set (gMemoryMap s)" using assms(2) by simp
  then have eo: "entry_ok e" using m by (simp add: map_ok_def)
  have Rm: "R \<noteq> MAX_ADDRESS" using below_max [OF assms(5)] eo by (simp add: entry_ok_def)
  note q = succ_le [OF Rm]
  note t = take_range_takes [OF assms(9,2) m assms(3-7)]
  have t2: "map_ok (mMapDepth s1) (gMemoryMap s1)" "outside_range S R (gMemoryMap s1)"
      "\<And>a T A. owns s1 a T A \<longleftrightarrow> owns s a T A \<and> \<not> in_range S R a" using t(2) by (auto simp: taken_out_def)
  note d = CoreAddRange_adds [OF assms(10) t2(1,2) assms(7) Rm]
  have c: "covers e a" if "in_range S R a" for a using that assms(3,5) by (auto simp: in_range_def covers_def)
  have u: "T = EntryType e \<and> A = EntryAttribute e" if "owns s a T A" "in_range S R a" for a T A
    using owned_unique [OF m _ that(1), of "EntryType e" "EntryAttribute e"] c [OF that(2)] el by (auto simp: owned_def)
  have o2: "owns s2 a T A \<longleftrightarrow> (if in_range S R a then T = N \<and> A = EntryAttribute e else owns s a T A)" for a T A
    using d(2) t2(3) t(1) by auto
  show "owns s2 a T A \<longleftrightarrow> (if in_range S R a then T = N \<and> A = EntryAttribute e else owns s a T A)" by (rule o2)
  have "owns s a (EntryType e) (EntryAttribute e)" if "in_range S R a" for a using c [OF that] el by (auto simp: owned_def)
  then have "reserve_ok (mGcdMemorySpaceMap s2) (gMemoryMap s2)"
    using reserve_ok_less [OF r] o2 d(5) t(6) by (metis (no_types))
  then show "mem_ok s2" using d(1) by (simp add: mem_ok_def)
  have i: "S \<le> a \<and> a < R + 1 \<longleftrightarrow> in_range S R a" for a using q by (simp add: in_range_def)
  show "converted N S (R + 1) s s2" unfolding converted_def i
    using o2 u assms(8) by (auto simp: stays_def)
  show "same_outside_map s s2" using t(3,6) d(3-6) by (simp add: same_outside_map_def)
  show "mMapDepth s2 \<le> mMapDepth s + 2" "mFreeMemoryMapEntryList s \<le> mFreeMemoryMapEntryList s2"
    using t(4,5) d(7,8) by auto
qed

lemma counted_ok [simp]:
  "mem_ok (count_pages T S n s) = mem_ok s" "mem_ok (uncount_pages T S n s) = mem_ok s" "mem_ok (clear_range env S R s) = mem_ok s"
  "owns (count_pages T S n s) = owns s" "owns (uncount_pages T S n s) = owns s" "owns (clear_range env S R s) = owns s"
  by (simp_all add: mem_ok_def)

lemma converted_cong: "owns s = owns t \<Longrightarrow> owns s' = owns t' \<Longrightarrow> converted N S m s s' = converted N S m t t'"
  by (simp add: converted_def stays_def)

lemma converted_conserves:
  assumes "converted N S m s s1" "conserves s1 s2"
  shows "converted N S m s s2"
proof -
  have "stays s1 a T A \<Longrightarrow> stays s2 a T A" for a T A using assms(2) stays_mono unfolding conserves_def by metis
  then show ?thesis using assms(1) unfolding converted_def by blast
qed

lemma convert_loop_induct [consumes 1, case_names 1 2 3]:
  assumes "convert_loop env free End P N S s = Some r"
    and "\<And>S s. \<not> S < End \<Longrightarrow> Q S s (EFI_SUCCESS, s)"
    and "\<And>S s st s'. S < End \<Longrightarrow> convert_step env free End P N S s = Some (Inl st, s') \<Longrightarrow> Q S s (st, s')"
    and "\<And>S s m s' r. S < End \<Longrightarrow> convert_step env free End P N S s = Some (Inr m, s') \<Longrightarrow> Q m s' r \<Longrightarrow> Q S s r"
  shows "Q S s r"
proof -
  have "env' = env \<longrightarrow> free' = free \<longrightarrow> End' = End \<longrightarrow> P' = P \<longrightarrow> N' = N \<longrightarrow> Q S s r"
    if "convert_loop env' free' End' P' N' S s = Some r" for env' free' End' P' N' S s r
    using that
  proof (rule convert_loop.raw_induct [rotated])
    fix loop env' free' End' P' N' S s r
    assume ih: "\<And>env' free' End' P' N' S s r. loop env' free' End' P' N' S s = Some r \<Longrightarrow>
        env' = env \<longrightarrow> free' = free \<longrightarrow> End' = End \<longrightarrow> P' = P \<longrightarrow> N' = N \<longrightarrow> Q S s r"
      and r: "(if S < End' then convert_step env' free' End' P' N' S s \<bind>
          (\<lambda>(r, s). case r of Inl Status \<Rightarrow> Some (Status, s) | Inr Start \<Rightarrow> loop env' free' End' P' N' Start s)
        else Some (EFI_SUCCESS, s)) = Some r"
    show "env' = env \<longrightarrow> free' = free \<longrightarrow> End' = End \<longrightarrow> P' = P \<longrightarrow> N' = N \<longrightarrow> Q S s r"
    proof (intro impI)
      assume e: "env' = env" "free' = free" "End' = End" "P' = P" "N' = N"
      show "Q S s r"
      proof (cases "S < End")
        case False
        then show ?thesis using r e assms(2) by auto
      next
        case True
        then obtain x s1 where x: "convert_step env free End P N S s = Some (x, s1)"
          "(case x of Inl Status \<Rightarrow> Some (Status, s1) | Inr Start \<Rightarrow> loop env free End P N Start s1) = Some r"
          using r e by auto
        show ?thesis
        proof (cases x)
          case (Inl st)
          then show ?thesis using x assms(3) [OF True] by auto
        next
          case (Inr m)
          then have "Q m s1 r" using x(2) ih by auto
          then show ?thesis using x(1) Inr assms(4) [OF True] by blast
        qed
      qed
    qed
  qed
  then show ?thesis using assms(1) by blast
qed

section \<open>The services, for any way to free the stack\<close>

locale memory_stack =
  fixes env :: "'e mem_env" and free :: "'e free_stack"
  assumes free_ok: "mem_ok s \<Longrightarrow> free s = Some s' \<Longrightarrow> mem_ok s' \<and> conserves s s' \<and> same_outside_map s s'"
begin

lemma step_converts:
  assumes "convert_step env free End P N S s = Some (r, s')" "mem_ok s" "S < End" "page_aligned S" "page_aligned (End + 1)" "End \<noteq> MAX_ADDRESS"
  shows "(r = Inl EFI_NOT_FOUND \<and> s' = s) \<or>
    (\<exists>m. r = Inr m \<and> S < m \<and> m \<le> End + 1 \<and> page_aligned m \<and> mem_ok s' \<and> converted N S m s s' \<and> same_outside_map s s')"
proof (cases "List.extract (\<lambda>e. EntryStart e \<le> S \<and> EntryEnd e > S) (gMemoryMap s)")
  case None
  then show ?thesis using assms(1) by (simp add: convert_step_def)
next
  case (Some x)
  obtain pre e post where x: "x = (pre, e, post)" by (cases x)
  have l: "gMemoryMap s = pre @ e # post" "EntryStart e \<le> S" "S < EntryEnd e"
    using Some unfolding x by (auto dest: extract_SomeE)
  define R where "R = (if EntryEnd e < End then EntryEnd e else End)"
  show ?thesis
  proof (cases "(N = EfiConventionalMemory) = (EntryType e = EfiConventionalMemory)")
    case True
    then show ?thesis using assms(1) Some x by (simp add: convert_step_def Let_def)
  next
    case False
    define s1 where "s1 = count_pages N S P (uncount_pages (EntryType e) S P s)"
    have "do {
        (At, s2) \<leftarrow> take_range pre e post S R s1;
        s3 \<leftarrow> CoreAddRange env N S R At s2;
        s4 \<leftarrow> free (if N = EfiConventionalMemory then clear_range env S R s3 else s3);
        Some (Inr (R + 1), s4)
      } = Some (r, s')"
      using assms(1) Some x False by (simp add: convert_step_def Let_def R_def s1_def cong: if_cong)
    then obtain At s2 s3 where st: "take_range pre e post S R s1 = Some (At, s2)" "CoreAddRange env N S R At s2 = Some s3"
        "free (if N = EfiConventionalMemory then clear_range env S R s3 else s3) = Some s'" "r = Inr (R + 1)"
      by auto
    have eo: "entry_ok e" using assms(2) l(1) by (simp add: mem_ok_def map_ok_def)
    have R: "S < R" "R \<le> EntryEnd e" "R \<le> End" "page_aligned (R + 1)" "covers e S"
      using l(2,3) assms(3,5) eo by (auto simp: R_def entry_ok_def covers_def not_less intro: less_imp_le)
    have m1: "mem_ok s1" "gMemoryMap s1 = pre @ e # post" using assms(2) l(1) by (simp_all add: s1_def)
    note t = convert_turn [OF m1 R(5,1,2) assms(4) R(4) False st(1,2)]
    define s4 where "s4 = (if N = EfiConventionalMemory then clear_range env S R s3 else s3)"
    have m4: "mem_ok s4" "owns s4 = owns s3" "same_outside_map s1 s4" using t(1,3) by (simp_all add: s4_def)
    note f = free_ok [OF m4(1) st(3) [folded s4_def]]
    have "converted N S (R + 1) s s4" using t(2) converted_cong [of s s1 s4 s3] m4(2) by (simp add: s1_def)
    then have "converted N S (R + 1) s s'" using f converted_conserves by blast
    moreover have "same_outside_map s s1" by (simp add: s1_def)
    then have "same_outside_map s s'" using f m4(3) same_outside_map_trans by blast
    moreover have "R + 1 \<le> End + 1" "S < R + 1"
      using succ_le [OF assms(6), of "R + 1"] succ_le [OF below_max [OF R(3) assms(6)]] succ_le(2) [OF assms(6)] R(1,3) by (auto intro: less_imp_le)
    ultimately show ?thesis using f st(4) R(4) by auto
  qed
qed

lemma loop_converts:
  assumes "convert_loop env free End P N S s = Some r"
    and "mem_ok s" "S \<le> End + 1" "page_aligned S" "page_aligned (End + 1)" "End \<noteq> MAX_ADDRESS"
  shows "\<exists>m. S \<le> m \<and> m \<le> End + 1 \<and> mem_ok (snd r) \<and> converted N S m s (snd r) \<and> same_outside_map s (snd r) \<and>
    (fst r = EFI_SUCCESS \<and> m = End + 1 \<or> fst r = EFI_NOT_FOUND \<and> m < End + 1)"
  using assms(2-4)
proof (induction rule: convert_loop_induct [OF assms(1)])
  case (1 S s)
  have "S = End + 1"
  proof (rule ccontr)
    assume "S \<noteq> End + 1"
    then have "S = End" using 1 succ_le(2) [OF assms(6), of S] by auto
    then show False using page_aligned_succ 1(4) assms(5) by blast
  qed
  then show ?case using 1(2) converted_nothing [of S S] by auto
next
  case (2 S s st s')
  have "S < End + 1" using 2(1) succ_le(2) [OF assms(6), of S] by auto
  then show ?case using step_converts [OF 2(2,3,1,5) assms(5,6)] 2(3,4) converted_nothing [of S S] by auto
next
  case (3 S s m s' r)
  obtain "S < m" "m \<le> End + 1" "page_aligned m" "mem_ok s'" "converted N S m s s'" "same_outside_map s s'"
    using step_converts [OF 3(2,4,1,6) assms(5,6)] by auto
  note c = this
  obtain m' where m': "m \<le> m'" "m' \<le> End + 1" "mem_ok (snd r)" "converted N m m' s' (snd r)" "same_outside_map s' (snd r)"
    "fst r = EFI_SUCCESS \<and> m' = End + 1 \<or> fst r = EFI_NOT_FOUND \<and> m' < End + 1"
    using 3(3) [OF c(4,2,3)] by blast
  have "converted N S m' s (snd r)" using converted_trans [OF c(5) m'(4)] c(1) m'(1) by auto
  then show ?case using m' c(1,6) same_outside_map_trans by (intro exI [of _ m']) (auto intro: less_imp_le order.trans)
qed

lemma pages_convert:
  assumes "CoreConvertPages env free S P N s = Some (Status, s')" "mem_ok s" "unat P < 2 ^ 52"
  shows "\<exists>m. mem_ok s' \<and> converted N S m s s' \<and> same_outside_map s s' \<and> (Status = EFI_SUCCESS \<longrightarrow> m = S + push_bit 12 P) \<and>
    (S \<le> S + push_bit 12 P \<longrightarrow> m \<le> S + push_bit 12 P)"
proof -
  let ?B = "push_bit 12 P"
  define End where "End = S + ?B - 1"
  have c: "P \<noteq> 0" "page_aligned S" "S < End" "S \<le> S + ?B \<Longrightarrow> convert_loop env free End P N S s = Some (Status, s')"
      "\<not> S \<le> S + ?B \<Longrightarrow> Status = EFI_INVALID_PARAMETER \<and> s' = s"
    using assms(1) by (auto simp: CoreConvertPages_def page_aligned_def End_def Let_def split: if_splits)
  show ?thesis
  proof (cases "S \<le> S + ?B")
    case False
    then show ?thesis using c(5) assms(2) converted_nothing [of S S N s] by auto
  next
    case True
    have "?B \<noteq> 0" using pages_bytes [OF assms(3)] c(1) by (metis mult_eq_0_iff unat_eq_zero power_not_zero zero_neq_numeral unat_0)
    then have "S + ?B \<noteq> 0" using True by (metis add.right_neutral add_right_imp_eq word_le_0_iff add_cancel_right_right)
    then have e: "End + 1 = S + ?B" "End \<noteq> MAX_ADDRESS" by (auto simp: End_def)
    have a: "page_aligned (End + 1)" using e c(2) page_aligned_add page_aligned_pages by simp
    from loop_converts [OF c(4) [OF True] assms(2) _ c(2) a e(2)] True e(1) show ?thesis by auto
  qed
qed

lemma promote_conserves:
  assumes "promote_loop env free n i b s = Some (b', s')" "mem_ok s" "i + n = length (mGcdMemorySpaceMap s)"
  shows "mem_ok s' \<and> conserves s s' \<and> same_outside_map s s'"
  using assms
proof (induction n arbitrary: i b s)
  case (Suc n)
  let ?g = "mGcdMemorySpaceMap s ! i"
  have i: "i < length (mGcdMemorySpaceMap s)" using Suc.prems(3) by simp
  show ?case
  proof (cases "promotable ?g")
    case False
    then show ?thesis using Suc.IH [of "Suc i" b s] Suc.prems by simp
  next
    case True
    define g where "g = ?g\<lparr>GcdMemoryType := EfiGcdMemoryTypeSystemMemory, Capabilities := Capabilities ?g OR EFI_MEMORY_TESTED,
                     ImageHandle := gDxeCoreImageHandle env, DeviceHandle := 0\<rparr>"
    define s1 where "s1 = s\<lparr>mGcdMemorySpaceMap := (mGcdMemorySpaceMap s)[i := g]\<rparr>"
    obtain s2 s3 where st: "CoreAddRange env EfiConventionalMemory (GcdBase g) (GcdEnd g)
          (Capabilities g AND NOT (EFI_MEMORY_PRESENT OR EFI_MEMORY_INITIALIZED OR EFI_MEMORY_TESTED OR EFI_MEMORY_RUNTIME)) s1 = Some s2"
        "free s2 = Some s3" "promote_loop env free n (Suc i) True s3 = Some (b', s')"
      using Suc.prems(1) True by (auto simp: Let_def g_def s1_def)
    have r: "reserve_ok (mGcdMemorySpaceMap s) (gMemoryMap s)" "map_ok (mMapDepth s1) (gMemoryMap s1)"
      using Suc.prems(2) by (simp_all add: mem_ok_def s1_def)
    have g: "page_aligned (GcdEnd g + 1)" "GcdBase g < GcdEnd g" "GcdEnd g \<noteq> MAX_ADDRESS"
        "owns s a T A \<Longrightarrow> \<not> in_range (GcdBase g) (GcdEnd g) a" "GcdBase g = GcdBase ?g" "GcdEnd g = GcdEnd ?g" for a T A
      using r(1) True i by (auto simp: reserve_ok_def g_def promotable_def)
    have "outside_range (GcdBase g) (GcdEnd g) (gMemoryMap s1)"
      using g(4) r(2) g(2) by (intro unowned_outside) (auto simp: s1_def map_ok_def)
    note d = CoreAddRange_adds [OF st(1) r(2) this g(1,3)]
    have "reserve_ok ((mGcdMemorySpaceMap s)[i := g]) (gMemoryMap s2)"
    proof (rule reserve_ok_put [OF r(1) i])
      show "\<not> promotable g" by (simp add: promotable_def g_def)
      show "(\<exists>T A. owns s a T A) \<or> promotable ?g \<and> in_range (GcdBase ?g) (GcdEnd ?g) a" if "owns s2 a T A" for a T A
        using that d(2) [of a T A] True g(5,6) by (auto simp: s1_def)
    qed
    then have m2: "mem_ok s2" "conserves s s2" "same_outside_map s s2" using d by (auto simp: mem_ok_def s1_def conserves_def stays_def same_outside_map_def)
    note f = free_ok [OF m2(1) st(2)]
    have "Suc i + n = length (mGcdMemorySpaceMap s3)" using Suc.prems(3) m2(3) f by (simp add: same_outside_map_def)
    from Suc.IH [OF st(3) _ this] show ?thesis using f m2 conserves_trans same_outside_map_trans by blast
  qed
qed simp

lemma Promote_conserves:
  assumes "PromoteMemoryResource env free s = Some (b, s')" "mem_ok s"
  shows "mem_ok s' \<and> conserves s s' \<and> same_outside_map s s'"
proof -
  obtain s1 where s1: "promote_loop env free (length (mGcdMemorySpaceMap s)) 0 False (s\<lparr>mGcdMemorySpaceLock := True\<rparr>) = Some (b, s1)"
      "s' = s1\<lparr>mGcdMemorySpaceLock := False\<rparr>" "\<not> mGcdMemorySpaceLock s"
    using assms(1) by (auto simp: PromoteMemoryResource_def CoreAcquireGcdMemoryLock_def CoreReleaseGcdMemoryLock_def)
  have "mem_ok (s\<lparr>mGcdMemorySpaceLock := True\<rparr>)" using assms(2) by (simp add: mem_ok_def)
  from promote_conserves [OF s1(1) this] show ?thesis
    using s1(2,3) by (simp add: mem_ok_def conserves_def stays_def same_outside_map_def)
qed

end

lemma FindFreePages_induct [consumes 1, case_names 1 2 3]:
  assumes "FindFreePages env free M P N Al s = Some r"
    and "\<And>s S s'. find_in_bins M P N Al s = (S, s') \<Longrightarrow> S \<noteq> 0 \<Longrightarrow> Q s (S, s')"
    and "\<And>s s1 s'. find_in_bins M P N Al s = (0, s1) \<Longrightarrow> PromoteMemoryResource env free s1 = Some (False, s') \<Longrightarrow> Q s (0, s')"
    and "\<And>s s1 s2 r. find_in_bins M P N Al s = (0, s1) \<Longrightarrow> PromoteMemoryResource env free s1 = Some (True, s2) \<Longrightarrow> Q s2 r \<Longrightarrow> Q s r"
  shows "Q s r"
proof -
  have "env' = env \<longrightarrow> free' = free \<longrightarrow> M' = M \<longrightarrow> P' = P \<longrightarrow> N' = N \<longrightarrow> Al' = Al \<longrightarrow> Q s r"
    if "FindFreePages env' free' M' P' N' Al' s = Some r" for env' free' M' P' N' Al' s r
    using that
  proof (rule FindFreePages.raw_induct [rotated])
    fix loop env' free' M' P' N' Al' s r
    assume ih: "\<And>env' free' M' P' N' Al' s r. loop env' free' M' P' N' Al' s = Some r \<Longrightarrow>
        env' = env \<longrightarrow> free' = free \<longrightarrow> M' = M \<longrightarrow> P' = P \<longrightarrow> N' = N \<longrightarrow> Al' = Al \<longrightarrow> Q s r"
      and r: "(let (Start, s) = find_in_bins M' P' N' Al' s
        in if Start \<noteq> 0 then Some (Start, s)
           else PromoteMemoryResource env' free' s \<bind>
             (\<lambda>(Promoted, s). if \<not> Promoted then Some (0, s) else loop env' free' M' P' N' Al' s)) = Some r"
    show "env' = env \<longrightarrow> free' = free \<longrightarrow> M' = M \<longrightarrow> P' = P \<longrightarrow> N' = N \<longrightarrow> Al' = Al \<longrightarrow> Q s r"
    proof (intro impI)
      assume e: "env' = env" "free' = free" "M' = M" "P' = P" "N' = N" "Al' = Al"
      obtain S s1 where b: "find_in_bins M P N Al s = (S, s1)" by (cases "find_in_bins M P N Al s")
      show "Q s r"
      proof (cases "S = 0")
        case False
        then show ?thesis using r e b assms(2) by auto
      next
        case True
        then obtain x s2 where x: "PromoteMemoryResource env free s1 = Some (x, s2)"
          "(if \<not> x then Some (0, s2) else loop env free M P N Al s2) = Some r" using r e b by auto
        then show ?thesis using True b assms(3,4) ih by (cases x) auto
      qed
    qed
  qed
  then show ?thesis using assms(1) by blast
qed

section \<open>Freeing the stack\<close>

lemma free_stack_loop_induct [consumes 1, case_names 1 2]:
  assumes "free_stack_loop env free s = Some r"
    and "\<And>s. mMapDepth s = 0 \<Longrightarrow> Q s s"
    and "\<And>s s1 r. mMapDepth s \<noteq> 0 \<Longrightarrow> AllocateMemoryMapEntry env free s = Some (True, s1) \<Longrightarrow> Q (move_to_heap s1) r \<Longrightarrow> Q s r"
  shows "Q s r"
proof -
  have "env' = env \<longrightarrow> free' = free \<longrightarrow> Q s r" if "free_stack_loop env' free' s = Some r" for env' free' s r
    using that
  proof (rule free_stack_loop.raw_induct [rotated])
    fix loop env' free' s r
    assume ih: "\<And>free' s b r. loop free' s b = Some r \<Longrightarrow> free' = env \<longrightarrow> s = free \<longrightarrow> Q b r"
      and r: "(if mMapDepth s = 0 then Some s
        else AllocateMemoryMapEntry env' free' s \<bind> (\<lambda>(got, s). ASSERT got \<bind> (\<lambda>_. loop env' free' (move_to_heap s)))) = Some r"
    show "env' = env \<longrightarrow> free' = free \<longrightarrow> Q s r"
      using r ih assms(2,3) by (auto split: if_splits)
  qed
  then show ?thesis using assms(1) by blast
qed

lemma insert_in_order_split:
  obtains T D where "insert_in_order e l = T @ e # D" "l = T @ D"
    "\<And>x. x \<in> set T \<Longrightarrow> FromPages x \<Longrightarrow> EntryStart x \<le> EntryStart e"
    "D = [] \<or> FromPages (hd D) \<and> EntryStart e < EntryStart (hd D)"
proof -
  define P where "P = (\<lambda>x :: map_entry. \<not> (FromPages x \<and> EntryStart x > EntryStart e))"
  have "insert_in_order e l = takeWhile P l @ e # dropWhile P l" by (simp add: insert_in_order_def P_def)
  moreover have "P x" if "x \<in> set (takeWhile P l)" for x using that by (rule set_takeWhileD [THEN conjunct2])
  then have "x \<in> set (takeWhile P l) \<Longrightarrow> FromPages x \<Longrightarrow> EntryStart x \<le> EntryStart e" for x by (fastforce simp: P_def)
  moreover have "dropWhile P l = [] \<or> \<not> P (hd (dropWhile P l))" using hd_dropWhile by blast
  then have "dropWhile P l = [] \<or> FromPages (hd (dropWhile P l)) \<and> EntryStart e < EntryStart (hd (dropWhile P l))" by (simp add: P_def)
  ultimately show thesis using that [of "takeWhile P l" "dropWhile P l"] by simp
qed

lemma set_insert_in_order: "set (insert_in_order e l) = insert e (set l)"
proof -
  obtain T D where "insert_in_order e l = T @ e # D" "l = T @ D" by (rule insert_in_order_split)
  then show ?thesis by simp
qed

lemma insert_in_order_owned: "owned (insert_in_order e l) a T A \<longleftrightarrow> covers e a \<and> EntryType e = T \<and> EntryAttribute e = A \<or> owned l a T A"
  by (auto simp: owned_def set_insert_in_order)

lemma insert_in_order_ok:
  assumes "map_ok d (pre @ e # post)" "e' = e\<lparr>FromPages := True\<rparr>" "\<not> FromPages e"
  shows "map_ok d (insert_in_order e' (pre @ post))"
proof -
  obtain T D where i: "insert_in_order e' (pre @ post) = T @ e' # D" "pre @ post = T @ D"
      "\<And>x. x \<in> set T \<Longrightarrow> FromPages x \<Longrightarrow> EntryStart x \<le> EntryStart e'"
      "D = [] \<or> FromPages (hd D) \<and> EntryStart e' < EntryStart (hd D)" using insert_in_order_split [of e' "pre @ post"] by metis
  have l: "map_ok d (T @ D)" using map_ok_remove [OF assms(1)] i(2) by simp
  have e': "entry_ok e'" "FromPages e'" "EntryStart e' = EntryStart e" "EntryEnd e' = EntryEnd e"
    using assms(1,2) by (auto simp: map_ok_def entry_ok_def)
  have "\<forall>f\<in>set (pre @ post). apart e f" using assms(1) unfolding map_ok_def apart_list by simp
  then have ap: "\<forall>f\<in>set T \<union> set D. apart e' f" unfolding i(2) using e'(3,4) by (auto simp: apart_def)
  have so: "sorted_wrt (\<lambda>e f. EntryStart e < EntryStart f) (filter FromPages T)"
      "sorted_wrt (\<lambda>e f. EntryStart e < EntryStart f) (filter FromPages D)"
      "\<And>x y. x \<in> set T \<Longrightarrow> y \<in> set D \<Longrightarrow> FromPages x \<Longrightarrow> FromPages y \<Longrightarrow> EntryStart x < EntryStart y"
    using l by (auto simp: map_ok_def sorted_wrt_append)
  have below: "EntryStart x < EntryStart e'" if x: "x \<in> set T" "FromPages x" for x
  proof -
    have "apart e' x" "entry_ok x" using ap x(1) l by (auto simp: map_ok_def)
    then show ?thesis using i(3) [OF x] e'(1) by (auto simp: apart_def entry_ok_def less_le)
  qed
  have above: "EntryStart e' < EntryStart x" if x: "x \<in> set D" "FromPages x" for x
  proof (cases D)
    case (Cons h t)
    have "FromPages h" "EntryStart e' < EntryStart h" using i(4) Cons by auto
    then show ?thesis using so(2) x unfolding Cons by (auto intro: less_trans)
  qed (use x in simp)
  have a: "sorted_wrt apart (T @ e' # D)" unfolding apart_list using l ap by (auto simp: map_ok_def)
  have f: "filter (\<lambda>e. \<not> FromPages e) (T @ e' # D) = filter (\<lambda>e. \<not> FromPages e) (T @ D)" using e'(2) by simp
  have "sorted_wrt (\<lambda>e f. EntryStart e < EntryStart f) (filter FromPages (T @ e' # D))"
    using so below above e'(2) by (auto simp: sorted_wrt_append)
  moreover have "(\<forall>x\<in>set (T @ e' # D). entry_ok x) \<and> (\<forall>x\<in>set (T @ e' # D). \<not> FromPages x \<longrightarrow> MapSlot x < d)"
    using l e'(1,2) by (auto simp: map_ok_def)
  ultimately show ?thesis using l a f unfolding map_ok_def i(1) by (metis (no_types, lifting))
qed

lemma slot_unique:
  assumes "map_ok d (pre @ e # post)" "\<not> FromPages e" "f \<in> set pre \<union> set post" "\<not> FromPages f"
  shows "MapSlot f \<noteq> MapSlot e"
proof -
  have "MapSlot e \<notin> set (map MapSlot (filter (\<lambda>e. \<not> FromPages e) (pre @ post)))"
    using assms(1,2) by (simp add: map_ok_def)
  moreover have "f \<in> set (filter (\<lambda>e. \<not> FromPages e) (pre @ post))" using assms(3,4) by simp
  ultimately show ?thesis by (metis imageI list.set_map)
qed

lemma map_ok_lower:
  assumes "map_ok (Suc d) l" "\<And>e. e \<in> set l \<Longrightarrow> \<not> FromPages e \<Longrightarrow> MapSlot e \<noteq> d"
  shows "map_ok d l"
  using assms unfolding map_ok_def by (metis less_Suc_eq)

lemma move_to_heap_ok:
  assumes "map_ok (mMapDepth s) (gMemoryMap s)"
  shows "map_ok (mMapDepth (move_to_heap s)) (gMemoryMap (move_to_heap s))" "owns (move_to_heap s) = owns s"
    "same_outside_map s (move_to_heap s)" "mGcdMemorySpaceMap (move_to_heap s) = mGcdMemorySpaceMap s"
    "mMapDepth (move_to_heap s) = mMapDepth s - 1" "mFreeMemoryMapEntryList s \<le> mFreeMemoryMapEntryList (move_to_heap s)"
proof -
  let ?d = "mMapDepth s - 1"
  let ?P = "\<lambda>e. \<not> FromPages e \<and> MapSlot e = ?d"
  have m: "map_ok (Suc ?d) (gMemoryMap s)" using assms by (rule map_ok_mono) simp
  have "map_ok ?d (gMemoryMap (move_to_heap s)) \<and> owns (move_to_heap s) = owns s \<and> same_outside_map s (move_to_heap s) \<and>
    mGcdMemorySpaceMap (move_to_heap s) = mGcdMemorySpaceMap s \<and> mMapDepth (move_to_heap s) = ?d \<and>
    mFreeMemoryMapEntryList s \<le> mFreeMemoryMapEntryList (move_to_heap s)"
  proof (cases "List.extract ?P (gMemoryMap s)")
    case None
    then have "\<not> (\<exists>e\<in>set (gMemoryMap s). ?P e)" by (simp only: extract_None_iff not_False_eq_True)
    then have "map_ok ?d (gMemoryMap s)" by (intro map_ok_lower [OF m]) blast
    then show ?thesis using None by (simp add: move_to_heap_def Let_def same_outside_map_def)
  next
    case (Some x)
    obtain pre e post where x: "x = (pre, e, post)" by (cases x)
    have l: "gMemoryMap s = pre @ e # post" "\<not> FromPages e" "MapSlot e = ?d"
      using extract_SomeE [OF Some [unfolded x]] by auto
    let ?e = "e\<lparr>FromPages := True\<rparr>"
    have i: "map_ok (Suc ?d) (insert_in_order ?e (pre @ post))" using m l(1,2) by (intro insert_in_order_ok) simp_all
    have "MapSlot f \<noteq> ?d" if "f \<in> set (insert_in_order ?e (pre @ post))" "\<not> FromPages f" for f
    proof -
      have "f \<in> set pre \<union> set post" using that by (auto simp: set_insert_in_order)
      then show ?thesis using slot_unique [OF m [unfolded l(1)] l(2) _ that(2)] l(3) by simp
    qed
    then have "map_ok ?d (insert_in_order ?e (pre @ post))" by (rule map_ok_lower [OF i])
    moreover have "owned (insert_in_order ?e (pre @ post)) = owned (pre @ e # post)"
      by (intro ext) (auto simp: insert_in_order_owned covers_def)
    ultimately show ?thesis using Some x l(1) by (simp add: move_to_heap_def Let_def same_outside_map_def)
  qed
  then show "map_ok (mMapDepth (move_to_heap s)) (gMemoryMap (move_to_heap s))" "owns (move_to_heap s) = owns s"
    "same_outside_map s (move_to_heap s)" "mGcdMemorySpaceMap (move_to_heap s) = mGcdMemorySpaceMap s"
    "mMapDepth (move_to_heap s) = mMapDepth s - 1" "mFreeMemoryMapEntryList s \<le> mFreeMemoryMapEntryList (move_to_heap s)"
    by auto
qed

context memory_stack
begin

lemma find_conserves:
  assumes "FindFreePages env free M P N Al s = Some r" "mem_ok s"
  shows "mem_ok (snd r) \<and> conserves s (snd r) \<and> same_outside_map s (snd r)"
proof -
  have b: "mem_ok s1 \<and> conserves s s1 \<and> same_outside_map s s1" if "find_in_bins M P N Al s = (S, s1)" "mem_ok s" for s :: "'e mem" and S s1
    using that by (auto simp: find_in_bins_def Let_def mem_ok_def conserves_def stays_def same_outside_map_def split: if_splits)
  show ?thesis using assms(2)
  proof (induction rule: FindFreePages_induct [OF assms(1)])
    case (1 s S s')
    then show ?case using b by simp
  next
    case (2 s s1 s')
    then show ?case using b Promote_conserves conserves_trans same_outside_map_trans by (metis snd_conv)
  next
    case (3 s s1 s2 r)
    then show ?case using b Promote_conserves conserves_trans same_outside_map_trans by metis
  qed
qed

lemma pool_conserves:
  assumes "CoreAllocatePoolPages env free N P Al s = Some (S, s')" "mem_ok s" "unat P < 2 ^ 52" "N \<noteq> EfiConventionalMemory" "N = EfiBootServicesData"
  shows "mem_ok s' \<and> conserves s s' \<and> same_outside_map s s'"
proof -
  obtain S1 s1 where f: "FindFreePages env free MAX_ADDRESS P N Al s = Some (S1, s1)"
    "(if S1 = 0 then Some (0, s1) else do { (_, s) \<leftarrow> CoreConvertPages env free S1 P N s1; Some (S1, s) }) = Some (S, s')"
    using assms(1) by (auto simp: CoreAllocatePoolPages_def)
  note c = find_conserves [OF f(1) assms(2), simplified]
  show ?thesis
  proof (cases "S1 = 0")
    case True
    then show ?thesis using f(2) c by simp
  next
    case False
    then obtain st where st: "CoreConvertPages env free S1 P N s1 = Some (st, s')" using f(2) by auto
    obtain m where m: "mem_ok s'" "converted N S1 m s1 s'" "same_outside_map s1 s'"
      using pages_convert [OF st _ assms(3)] c by blast
    have "conserves s1 s'" using m(2) assms(4,5) unfolding converted_def conserves_def stays_def by metis
    then show ?thesis using c m conserves_trans same_outside_map_trans by blast
  qed
qed

lemma entry_conserves:
  assumes "AllocateMemoryMapEntry env free s = Some (got, s')" "mem_ok s"
  shows "mem_ok s' \<and> conserves s s' \<and> same_outside_map s s'"
proof (cases "mFreeMemoryMapEntryList s = 0")
  case False
  then show ?thesis using assms by (auto simp: AllocateMemoryMapEntry_def mem_ok_def conserves_def stays_def same_outside_map_def)
next
  case True
  then obtain S s1 where a: "CoreAllocatePoolPages env free EfiBootServicesData (EFI_SIZE_TO_PAGES DEFAULT_PAGE_ALLOCATION) DEFAULT_PAGE_ALLOCATION s = Some (S, s1)"
    "gMemoryMap s' = gMemoryMap s1 \<and> mMapDepth s' = mMapDepth s1 \<and> mGcdMemorySpaceMap s' = mGcdMemorySpaceMap s1 \<and> same_outside_map s1 s'"
    using assms(1) by (auto simp: AllocateMemoryMapEntry_def same_outside_map_def split: if_splits)
  have "unat (EFI_SIZE_TO_PAGES DEFAULT_PAGE_ALLOCATION) < 2 ^ 52" by (simp add: EFI_SIZE_TO_PAGES_def)
  from pool_conserves [OF a(1) assms(2) this] a(2) show ?thesis
    using same_outside_map_trans by (fastforce simp: mem_ok_def conserves_def stays_def)
qed

lemma free_loop_conserves:
  assumes "free_stack_loop env free s = Some s'" "mem_ok s"
  shows "mem_ok s' \<and> conserves s s' \<and> same_outside_map s s' \<and> mMapDepth s' = 0"
  using assms(2)
proof (induction rule: free_stack_loop_induct [OF assms(1)])
  case (2 s s1 r)
  note e = entry_conserves [OF 2(2,4)]
  have "map_ok (mMapDepth s1) (gMemoryMap s1)" using e by (simp add: mem_ok_def)
  note m = move_to_heap_ok [OF this]
  have "mem_ok (move_to_heap s1)" "conserves s1 (move_to_heap s1)"
    using m(1,2,4) e reserve_ok_cong [OF m(2)] by (simp_all add: mem_ok_def conserves_def stays_def)
  then show ?case using 2(3) e m(3) conserves_trans same_outside_map_trans by blast
qed simp

end

text \<open>\<open>CoreFreeMemoryMapStack\<close> is such a way.\<close>

lemma free_stack_ok: "memory_stack (CoreFreeMemoryMapStack env n)"
proof (induction n)
  case 0
  show ?case by (simp add: memory_stack_def CoreFreeMemoryMapStack.simps)
next
  case (Suc n)
  show ?case
  proof (unfold_locales)
    fix s s' :: "'a mem"
    assume s: "mem_ok s" "CoreFreeMemoryMapStack env (Suc n) s = Some s'"
    show "mem_ok s' \<and> conserves s s' \<and> same_outside_map s s'"
    proof (cases "mFreeMapStack s = 0")
      case False
      then show ?thesis using s by (auto simp: CoreFreeMemoryMapStack.simps)
    next
      case True
      then obtain s1 where s1: "free_stack_loop env (CoreFreeMemoryMapStack env n) (s\<lparr>mFreeMapStack := 1\<rparr>) = Some s1"
        "s' = s1\<lparr>mFreeMapStack := mFreeMapStack s1 - 1\<rparr>"
        using s(2) by (auto simp: CoreFreeMemoryMapStack.simps)
      have "mem_ok (s\<lparr>mFreeMapStack := 1\<rparr>)" using s(1) by (simp add: mem_ok_def)
      from memory_stack.free_loop_conserves [OF Suc s1(1) this]
      have "mem_ok s1" "conserves (s\<lparr>mFreeMapStack := 1\<rparr>) s1" "same_outside_map (s\<lparr>mFreeMapStack := 1\<rparr>) s1" by auto
      then show ?thesis using s1(2) True by (simp add: mem_ok_def conserves_def stays_def same_outside_map_def)
    qed
  qed
qed

interpretation map_stack: memory_stack env "CoreFreeMemoryMapStack env n" for env n
  by (rule free_stack_ok)

end
