(* ===== verification/PagesSafe.thy ===== *)
theory PagesSafe
  imports PagesRun
begin

text \<open>
  The services of \<open>Pages\<close>: allocating, freeing and adding memory.  The lemmas are proved for any way
  to free the stack, in the locale \<open>memory_stack\<close>, and used at its interpretation by
  \<open>CoreFreeMemoryMapStack\<close>.
\<close>

lemma round_one_page [simp]: "round_pages (page_alignment T) P = P"
  by (simp add: round_pages_def page_alignment_def EFI_SIZE_TO_PAGES_def)

text \<open>What is allocated stays as it is.\<close>

definition keeps_allocated :: "'e mem \<Rightarrow> 'e mem \<Rightarrow> bool" where
  "keeps_allocated s s' \<longleftrightarrow> (\<forall>a T A. owns s a T A \<longrightarrow> T \<noteq> EfiConventionalMemory \<longrightarrow> owns s' a T A)"

lemma mem_ok_lock [simp]:
  "mem_ok (s\<lparr>gMemoryLock := b\<rparr>) = mem_ok s" "owns (s\<lparr>gMemoryLock := b\<rparr>) = owns s"
  "stays (s\<lparr>gMemoryLock := b\<rparr>) = stays s" "converted N S m (s\<lparr>gMemoryLock := b\<rparr>) s' = converted N S m s s'"
  "converted N S m s (s'\<lparr>gMemoryLock := b\<rparr>) = converted N S m s s'"
  "conserves (s\<lparr>gMemoryLock := b\<rparr>) s' = conserves s s'" "conserves s (s'\<lparr>gMemoryLock := b\<rparr>) = conserves s s'"
  "keeps_allocated s (s'\<lparr>gMemoryLock := b\<rparr>) = keeps_allocated s s'"
  by (simp_all add: mem_ok_def converted_def conserves_def keeps_allocated_def stays_def [abs_def])

lemma keeps_allocated_trans: "keeps_allocated s s' \<Longrightarrow> keeps_allocated s' s'' \<Longrightarrow> keeps_allocated s s''"
  by (simp add: keeps_allocated_def)

lemma conserves_keeps: "conserves s s' \<Longrightarrow> keeps_allocated s s'"
  by (auto simp: conserves_def keeps_allocated_def stays_def)

lemma converted_keeps: "converted N S m s s' \<Longrightarrow> N \<noteq> EfiConventionalMemory \<Longrightarrow> keeps_allocated s s'"
  unfolding converted_def keeps_allocated_def stays_def by metis

lemma conserves_converted:
  assumes "conserves s s1" "converted N S m s1 s'" "N \<noteq> EfiConventionalMemory"
  shows "converted N S m s s'"
proof -
  have c: "owns s a T A \<Longrightarrow> stays s1 a T A" for a T A using assms(1) by (simp add: conserves_def)
  have d: "owns s1 a T A \<Longrightarrow> \<not> (S \<le> a \<and> a < m) \<Longrightarrow> stays s' a T A" "owns s1 a T A \<Longrightarrow> S \<le> a \<and> a < m \<Longrightarrow> stays s' a N A"
    "S \<le> a \<and> a < m \<Longrightarrow> \<exists>A. stays s' a N A" "owns s1 a T A \<Longrightarrow> S \<le> a \<and> a < m \<Longrightarrow> T = EfiConventionalMemory" for a T A
    using assms(2,3) unfolding converted_def by blast+
  have "stays s' a T A" if "owns s a T A" "\<not> (S \<le> a \<and> a < m)" for a T A
    using stays_mono [OF c [OF that(1)]] d(1) that(2) by blast
  moreover have "stays s' a N A" if "owns s a T A" "S \<le> a \<and> a < m" for a T A
    using stays_inside [OF c [OF that(1)]] d(2) that(2) by blast
  moreover have "T = EfiConventionalMemory" if "owns s a T A" "S \<le> a \<and> a < m" for a T A
    using c [OF that(1)] d(4) [OF _ that(2)] by (auto simp: stays_def)
  ultimately show ?thesis using d(3) unfolding converted_def by blast
qed

context memory_stack
begin

lemma allocate_locked_converts:
  assumes "allocate_locked env free Type N P S0 s = Some ((Status, S), s')" "mem_ok s" "unat P < 2 ^ 52" "N \<noteq> EfiConventionalMemory"
  shows "mem_ok s' \<and> gMemoryLock s' = gMemoryLock s \<and> keeps_allocated s s' \<and> length (mGcdMemorySpaceMap s') = length (mGcdMemorySpaceMap s) \<and>
    (Status = EFI_SUCCESS \<longrightarrow> converted N S (S + push_bit 12 P) s s')"
proof -
  let ?s = "s\<lparr>gMemoryLock := True\<rparr>"
  obtain s1 s2 where a: "(if Type \<noteq> AllocateAddress
             then FindFreePages env free (if Type = AllocateMaxAddress then S0 else MAX_ADDRESS) P N (page_alignment N) ?s
             else Some (S0, ?s)) = Some (S, s1)"
      "(if Type \<noteq> AllocateAddress \<and> S = 0 then Some (EFI_OUT_OF_RESOURCES, s1) else CoreConvertPages env free S P N s1) = Some (Status, s2)"
      "s' = s2\<lparr>gMemoryLock := False\<rparr>" "\<not> gMemoryLock s"
    using assms(1) by (auto simp: allocate_locked_def CoreAcquireMemoryLock_def CoreReleaseMemoryLock_def Let_def)
  have f: "mem_ok s1 \<and> conserves ?s s1 \<and> same_outside_map ?s s1"
  proof (cases "Type = AllocateAddress")
    case False
    then have "FindFreePages env free (if Type = AllocateMaxAddress then S0 else MAX_ADDRESS) P N (page_alignment N) ?s = Some (S, s1)"
      using a(1) by simp
    from find_conserves [OF this] show ?thesis using assms(2) by simp
  next
    case True
    then have "s1 = ?s" using a(1) by simp
    then show ?thesis using assms(2) by simp
  qed
  show ?thesis
  proof (cases "Type \<noteq> AllocateAddress \<and> S = 0")
    case True
    then show ?thesis using a(2-4) f conserves_keeps by (auto simp: same_outside_map_def)
  next
    case False
    then have "CoreConvertPages env free S P N s1 = Some (Status, s2)" using a(2) unfolding if_not_P [OF False] by simp
    from pages_convert [OF this _ assms(3)] f obtain m where
      m: "mem_ok s2" "converted N S m s1 s2" "same_outside_map s1 s2" "Status = EFI_SUCCESS \<longrightarrow> m = S + push_bit 12 P" by blast
    have "converted N S m s s2" using conserves_converted [of s s1] f m(2) assms(4) by simp
    moreover note converted_keeps [OF this assms(4)]
    ultimately show ?thesis using m a(3,4) f by (auto simp: same_outside_map_def)
  qed
qed

lemma allocate_converts:
  assumes "CoreAllocatePages env free Type N P M s = Some ((Status, M'), s')" "mem_ok s" "unat P < 2 ^ 52"
  shows "mem_ok s' \<and> gMemoryLock s' = gMemoryLock s \<and> keeps_allocated s s' \<and> length (mGcdMemorySpaceMap s') = length (mGcdMemorySpaceMap s) \<and>
    (Status = EFI_SUCCESS \<longrightarrow> (\<exists>S. M' = Some S \<and> N \<noteq> EfiConventionalMemory \<and> converted N S (S + push_bit 12 P) s s'))"
proof -
  consider (early) "s' = s" "Status \<noteq> EFI_SUCCESS"
    | (locked) S0 S where "M = Some S0" "N \<noteq> EfiConventionalMemory" "allocate_locked env free Type N P S0 s = Some ((Status, S), s')"
        "M' = (if EFI_ERROR Status then M else Some S)"
  proof (cases "Type = OtherAllocateType \<or> ((N \<ge> EfiMaxMemoryType \<and> N \<le> 0x7fffffff) \<or> N = EfiConventionalMemory) \<or> M = None \<or>
      Type = AllocateAddress \<and> the M AND (page_alignment N - 1) \<noteq> 0")
    case True
    then have "s' = s \<and> Status \<noteq> EFI_SUCCESS" using assms(1) by (cases M) (auto simp: CoreAllocatePages_def Let_def split: if_splits)
    then show ?thesis using early by blast
  next
    case False
    then obtain S0 where M: "M = Some S0" by (cases M) auto
    then have "do { ((Status, Start), s) \<leftarrow> allocate_locked env free Type N P S0 s; Some ((Status, if EFI_ERROR Status then M else Some Start), s) }
        = Some ((Status, M'), s')"
      using assms(1) False M by (auto simp: CoreAllocatePages_def Let_def split: if_splits)
    then show ?thesis using locked [OF M] False by (auto split: prod.splits)
  qed
  then show ?thesis
  proof cases
    case early
    then show ?thesis using assms(2) by (simp add: keeps_allocated_def)
  next
    case locked
    from allocate_locked_converts [OF locked(3) assms(2,3) locked(2)] show ?thesis using locked(2,4) by auto
  qed
qed

lemma free_converts:
  assumes "CoreFreePages env free M P s = Some (Status, s')" "mem_ok s" "unat P < 2 ^ 52"
  shows "mem_ok s' \<and> gMemoryLock s' = gMemoryLock s \<and> length (mGcdMemorySpaceMap s') = length (mGcdMemorySpaceMap s) \<and>
    (\<exists>m. converted EfiConventionalMemory M m s s' \<and> (Status = EFI_SUCCESS \<longrightarrow> m = M + push_bit 12 P))"
proof -
  let ?s = "s\<lparr>gMemoryLock := True\<rparr>"
  obtain s1 where f: "free_locked env free M P ?s = Some (Status, s1)" "s' = s1\<lparr>gMemoryLock := False\<rparr>" "\<not> gMemoryLock s"
    using assms(1) by (auto simp: CoreFreePages_def CoreAcquireMemoryLock_def CoreReleaseMemoryLock_def)
  consider (none) "s1 = ?s" "Status \<noteq> EFI_SUCCESS" | (some) "CoreConvertPages env free M P EfiConventionalMemory ?s = Some (Status, s1)"
    using f(1) by (auto simp: free_locked_def Let_def split: option.splits if_splits)
  then show ?thesis
  proof cases
    case none
    then show ?thesis using f(2,3) assms(2) converted_nothing [of M M EfiConventionalMemory s] by auto
  next
    case some
    from pages_convert [OF this _ assms(3)] assms(2) f(2,3) show ?thesis by (fastforce simp: same_outside_map_def)
  qed
qed

end

text \<open>C5. The page allocator never hands out memory twice: when it succeeds, every byte of the range it
  returns was free and now has the type asked for, all allocated memory is as it was, and the
  map is well-formed; whatever the outcome, no allocated memory is lost and the lock is free.\<close>

theorem AllocatePages_safe:
  assumes "mem_ok s" "CoreAllocatePages env (CoreFreeMemoryMapStack env n) Type N P M s = Some ((Status, M'), s')" "unat P < 2 ^ 52"
  shows "mem_ok s' \<and> gMemoryLock s' = gMemoryLock s \<and> keeps_allocated s s' \<and>
    (Status = EFI_SUCCESS \<longrightarrow> (\<exists>S. M' = Some S \<and>
       (\<forall>a. S \<le> a \<and> a < S + push_bit 12 P \<longrightarrow> (\<exists>A. owns s' a N A) \<and> (\<forall>T A. owns s a T A \<longrightarrow> T = EfiConventionalMemory))))"
proof -
  note c = map_stack.allocate_converts [OF assms(2,1,3)]
  have "(\<exists>A. owns s' a N A) \<and> (\<forall>T A. owns s a T A \<longrightarrow> T = EfiConventionalMemory)"
    if "N \<noteq> EfiConventionalMemory" "converted N S m s s'" "S \<le> a \<and> a < m" for S m a
  proof -
    have "\<exists>A. stays s' a N A" "\<And>T A. owns s a T A \<Longrightarrow> T = EfiConventionalMemory" using that unfolding converted_def by blast+
    then show ?thesis using that(1) by (auto simp: stays_def)
  qed
  then show ?thesis using c by blast
qed

text \<open>C29. Freeing pages gives back exactly the range asked for: when it succeeds the range is free
  memory, but for pages that have already become descriptors of the map, and everything outside
  the range is as it was, but for free pages taken for descriptors.\<close>

theorem FreePages_frees:
  assumes "mem_ok s" "CoreFreePages env (CoreFreeMemoryMapStack env n) M P s = Some (Status, s')" "unat P < 2 ^ 52"
  shows "mem_ok s' \<and> gMemoryLock s' = gMemoryLock s \<and>
    (Status = EFI_SUCCESS \<longrightarrow>
       (\<forall>a. M \<le> a \<and> a < M + push_bit 12 P \<longrightarrow> (\<exists>A. stays s' a EfiConventionalMemory A)) \<and>
       (\<forall>a T A. owns s a T A \<longrightarrow> \<not> (M \<le> a \<and> a < M + push_bit 12 P) \<longrightarrow> stays s' a T A))"
proof -
  obtain m where m: "mem_ok s'" "gMemoryLock s' = gMemoryLock s" "converted EfiConventionalMemory M m s s'"
      "Status = EFI_SUCCESS \<longrightarrow> m = M + push_bit 12 P"
    using map_stack.free_converts [OF assms(2,1,3)] by blast
  have "\<And>a. M \<le> a \<and> a < m \<Longrightarrow> \<exists>A. stays s' a EfiConventionalMemory A"
      "\<And>a T A. owns s a T A \<Longrightarrow> \<not> (M \<le> a \<and> a < m) \<Longrightarrow> stays s' a T A"
    using m(3) unfolding converted_def by blast+
  then show ?thesis using m by simp
qed

end
