(* ===== verification/PagesExact.thy ===== *)
theory PagesExact
  imports PagesRun
begin

text \<open>
  Conversions when there are enough free descriptors: they succeed, and move exactly the range.
\<close>

section \<open>Freeing the stack without a new page of descriptors\<close>

text \<open>The range lies in one entry.\<close>

definition spans :: "'e mem \<Rightarrow> u64 \<Rightarrow> u64 \<Rightarrow> u32 \<Rightarrow> u64 \<Rightarrow> bool" where
  "spans s S E T A \<longleftrightarrow> (\<exists>e\<in>set (gMemoryMap s). EntryStart e \<le> S \<and> E \<le> EntryEnd e \<and> EntryType e = T \<and> EntryAttribute e = A)"

lemma move_to_heap_spans: "spans s S E T A \<Longrightarrow> spans (move_to_heap s) S E T A"
proof -
  assume h: "spans s S E T A"
  let ?P = "\<lambda>e. \<not> FromPages e \<and> MapSlot e = mMapDepth s - 1"
  show ?thesis
  proof (cases "List.extract ?P (gMemoryMap s)")
    case None
    then show ?thesis using h by (simp add: move_to_heap_def Let_def spans_def)
  next
    case (Some x)
    obtain pre e post where x: "x = (pre, e, post)" by (cases x)
    have l: "gMemoryMap s = pre @ e # post" using extract_SomeE [OF Some [unfolded x]] by simp
    have "set (gMemoryMap (move_to_heap s)) = insert (e\<lparr>FromPages := True\<rparr>) (set pre \<union> set post)"
      using Some x by (simp add: move_to_heap_def Let_def set_insert_in_order)
    then show ?thesis using h l by (auto simp: spans_def)
  qed
qed

lemma AddRange_spans:
  assumes "CoreAddRange env T S E A s = Some s'" "map_ok (mMapDepth s) (gMemoryMap s)" "outside_range S E (gMemoryMap s)"
    and "page_aligned (E + 1)" "E \<noteq> MAX_ADDRESS"
  shows "spans s' S E T A"
proof -
  obtain k n S' E' where m: "merge_range T A (gMemoryMap s) S E = (k, n, S', E')" by (metis prod_cases4)
  have se: "S < E" "page_aligned S" using assms(1) by (auto simp: CoreAddRange_def page_aligned_def)
  have g: "merged T A (gMemoryMap s) S E k S' E'"
    using merge_range_merged [OF m] assms(2-5) se by (simp add: map_ok_def)
  have f: "gMemoryMap s' = k @ [\<lparr>FromPages = False, MapSlot = mMapDepth s, EntryType = T, EntryStart = S', EntryEnd = E', EntryAttribute = A\<rparr>]"
    using assms(1) m by (auto simp: CoreAddRange_def Let_def split: if_splits)
  have i: "in_range S' E' a" if a: "in_range S E a" for a
  proof -
    have "subseq k (gMemoryMap s)" using g by (simp add: merged_def)
    then have "set k \<subseteq> set (gMemoryMap s)" by (auto dest: list_emb_set)
    then have "owned k a T A \<Longrightarrow> owned (gMemoryMap s) a T A" by (auto simp: owned_def)
    then have "\<not> owned k a T A" using a outside_not_in [OF assms(3)] by blast
    then show ?thesis using g a unfolding merged_def by blast
  qed
  have "S' \<le> S" "E \<le> E'" using i [of S] i [of E] se(1) by (auto simp: in_range_def)
  then show ?thesis unfolding spans_def f by auto
qed

lemma free_loop_total:
  assumes "map_ok (mMapDepth s) (gMemoryMap s)" "mMapDepth s \<le> mFreeMemoryMapEntryList s"
  shows "\<exists>s'. free_stack_loop env free s = Some s' \<and> map_ok 0 (gMemoryMap s') \<and> owns s' = owns s \<and> same_outside_map s s' \<and>
    mGcdMemorySpaceMap s' = mGcdMemorySpaceMap s \<and> mMapDepth s' = 0 \<and>
    mFreeMemoryMapEntryList s - mMapDepth s \<le> mFreeMemoryMapEntryList s' \<and> (\<forall>S E T A. spans s S E T A \<longrightarrow> spans s' S E T A)"
  using assms
proof (induction "mMapDepth s" arbitrary: s)
  case 0
  then show ?case by (subst free_stack_loop.simps) simp
next
  case (Suc d)
  define s1 where "s1 = s\<lparr>mFreeMemoryMapEntryList := mFreeMemoryMapEntryList s - 1\<rparr>"
  have a: "AllocateMemoryMapEntry env free s = Some (True, s1)" using Suc(2,4) by (auto simp: AllocateMemoryMapEntry_def s1_def)
  have "map_ok (mMapDepth s1) (gMemoryMap s1)" using Suc(3) by (simp add: s1_def)
  note m = move_to_heap_ok [OF this]
  have "d = mMapDepth (move_to_heap s1)" using m(5) Suc(2) by (simp add: s1_def)
  moreover have "mMapDepth (move_to_heap s1) \<le> mFreeMemoryMapEntryList (move_to_heap s1)"
    using m(5,6) Suc(2,4) by (simp add: s1_def)
  ultimately obtain s' where s': "free_stack_loop env free (move_to_heap s1) = Some s'" "map_ok 0 (gMemoryMap s')"
      "owns s' = owns (move_to_heap s1)" "same_outside_map (move_to_heap s1) s'" "mGcdMemorySpaceMap s' = mGcdMemorySpaceMap (move_to_heap s1)"
      "mMapDepth s' = 0" "mFreeMemoryMapEntryList (move_to_heap s1) - mMapDepth (move_to_heap s1) \<le> mFreeMemoryMapEntryList s'"
      "\<forall>S E T A. spans (move_to_heap s1) S E T A \<longrightarrow> spans s' S E T A"
    using Suc(1) [of "move_to_heap s1"] m(1) by auto
  have "free_stack_loop env free s = Some s'" using a s'(1) Suc(2) by (subst free_stack_loop.simps) simp
  moreover have "same_outside_map s s'" using same_outside_map_trans [OF m(3) s'(4)] by (simp add: s1_def same_outside_map_def)
  moreover have "spans s S E T A \<Longrightarrow> spans s' S E T A" for S E T A
    using s'(8) move_to_heap_spans [of s1 S E T A] by (simp add: s1_def spans_def)
  ultimately show ?case using s' m Suc(2) by (intro exI [of _ s']) (simp add: s1_def)
qed

lemma free_stack_total:
  assumes "map_ok (mMapDepth s) (gMemoryMap s)" "mMapDepth s \<le> mFreeMemoryMapEntryList s" "gMemoryLock s" "mFreeMapStack s = 0"
  shows "\<exists>s'. CoreFreeMemoryMapStack env (Suc n) s = Some s' \<and> map_ok 0 (gMemoryMap s') \<and> owns s' = owns s \<and> same_outside_map s s' \<and>
    mGcdMemorySpaceMap s' = mGcdMemorySpaceMap s \<and> mMapDepth s' = 0 \<and>
    mFreeMemoryMapEntryList s - mMapDepth s \<le> mFreeMemoryMapEntryList s' \<and> (\<forall>S E T A. spans s S E T A \<longrightarrow> spans s' S E T A)"
proof -
  let ?s = "s\<lparr>mFreeMapStack := 1\<rparr>"
  have "map_ok (mMapDepth ?s) (gMemoryMap ?s)" "mMapDepth ?s \<le> mFreeMemoryMapEntryList ?s" using assms(1,2) by simp_all
  from free_loop_total [OF this, of env "CoreFreeMemoryMapStack env n"] obtain s' where
    s': "free_stack_loop env (CoreFreeMemoryMapStack env n) ?s = Some s'" "map_ok 0 (gMemoryMap s')" "owns s' = owns s"
      "same_outside_map ?s s'" "mGcdMemorySpaceMap s' = mGcdMemorySpaceMap s" "mMapDepth s' = 0"
      "mFreeMemoryMapEntryList s - mMapDepth s \<le> mFreeMemoryMapEntryList s'"
      "\<And>S E T A. spans s S E T A \<Longrightarrow> spans s' S E T A" by (auto simp: spans_def)
  then show ?thesis using assms(3,4)
    by (intro exI [of _ "s'\<lparr>mFreeMapStack := 0\<rparr>"]) (simp add: CoreFreeMemoryMapStack.simps same_outside_map_def spans_def)
qed

section \<open>Converting within one entry\<close>

text \<open>The state between two calls: the stack is empty and not being freed, and the clients of the
  event group do not keep the signal from returning.\<close>

definition settled :: "'e mem_env \<Rightarrow> 'e mem \<Rightarrow> bool" where
  "settled env s \<longleftrightarrow> mem_ok s \<and> mMapDepth s = 0 \<and> mFreeMapStack s = 0 \<and> (\<forall>x. NotifyMapChange env x \<noteq> None)"

lemma AddRange_total:
  assumes "page_aligned S" "S < E" "gMemoryLock s" "mMapDepth s < 5" "\<forall>x. NotifyMapChange env x \<noteq> None"
  shows "\<exists>s'. CoreAddRange env T S E A s = Some s'"
  using assms by (cases "merge_range T A (gMemoryMap s) S E") (auto simp: CoreAddRange_def page_aligned_def Let_def)

lemma take_range_total:
  assumes "mMapDepth s < 5" "EntryStart e < S \<Longrightarrow> EntryStart e < S - 1" "EntryStart e \<le> S"
  shows "\<exists>r. take_range pre e post S R s = Some r"
  using assms by (auto simp: take_range_def Let_def less_le)

lemma range_end:
  assumes "push_bit 12 P \<noteq> (0 :: u64)" "S \<le> S + push_bit 12 P"
  shows "S + push_bit 12 P - 1 + 1 = S + push_bit 12 P" "S + push_bit 12 P - 1 \<noteq> MAX_ADDRESS" "S < S + push_bit 12 P - 1"
    "a < S + push_bit 12 P \<longleftrightarrow> a \<le> S + push_bit 12 P - 1"
proof -
  let ?B = "push_bit 12 P :: u64"
  have "?B \<noteq> 1" using page_aligned_succ [of 0] page_aligned_pages [of P] by (auto simp: page_aligned_def)
  then have "unat ?B \<noteq> 1" by (metis unat_1 word_unat_eq_iff)
  moreover have "unat ?B \<noteq> 0" using assms(1) by (metis unat_eq_zero)
  ultimately have B: "1 < unat ?B" by simp
  have n: "S + ?B \<noteq> 0" using assms by (metis add.right_neutral word_le_0_iff add_0)
  show e: "S + ?B - 1 + 1 = S + ?B" by simp
  show m: "S + ?B - 1 \<noteq> MAX_ADDRESS" using n by auto
  have "unat (S + ?B) = unat S + unat ?B"
    using assms(2) by (metis add.commute no_olen_add_nat unat_plus_simple word_le_nat_alt)
  then have "unat (S + ?B - 1) = unat S + unat ?B - 1" using unat_succ [OF m] e by simp
  then show "S < S + ?B - 1" using B by (simp add: word_less_nat_alt)
  show "a < S + ?B \<longleftrightarrow> a \<le> S + ?B - 1" using succ_le(2) [OF m, of a] e by simp
qed

lemma settled_parts:
  assumes "settled env s"
  shows "mem_ok s" "map_ok (mMapDepth s) (gMemoryMap s)" "mMapDepth s = 0" "mFreeMapStack s = 0" "\<forall>x. NotifyMapChange env x \<noteq> None"
  using assms by (auto simp: settled_def mem_ok_def)

lemma extract_covering:
  assumes "map_ok d l" "e \<in> set l" "EntryStart e \<le> S" "S < EntryEnd e"
  obtains pre post where "List.extract (\<lambda>e. EntryStart e \<le> S \<and> EntryEnd e > S) l = Some (pre, e, post)" "l = pre @ e # post"
proof -
  have cS: "covers e S" using assms(3,4) by (simp add: covers_def)
  have "List.extract (\<lambda>e. EntryStart e \<le> S \<and> EntryEnd e > S) l \<noteq> None"
    using assms(2-4) unfolding extract_None_iff by blast
  then obtain pre f post where f: "List.extract (\<lambda>e. EntryStart e \<le> S \<and> EntryEnd e > S) l = Some (pre, f, post)" by auto
  from extract_SomeE [OF f] have "f \<in> set l" "covers f S" by (auto simp: covers_def)
  then have "f = e" using map_ok_unique [OF assms(1) _ assms(2) _ cS] by blast
  then show thesis using f that extract_SomeE [OF f] by simp
qed

lemma entry_below_page:
  assumes "entry_ok e" "page_aligned S" "EntryStart e < S"
  shows "EntryStart e < S - 1"
proof -
  have "EntryStart e \<noteq> S - 1" using page_aligned_succ [of "EntryStart e"] assms(1,2) by (auto simp: entry_ok_def)
  then show ?thesis using pred_lt(1) [OF assms(3), of "EntryStart e"] assms(3) by (simp add: less_le)
qed

text \<open>One turn of the loop, on an entry of the right type: it goes on after the part of the range that is in the entry.\<close>

lemma convert_step_exact:
  assumes "settled env s" "gMemoryLock s" "e \<in> set (gMemoryMap s)" "EntryStart e \<le> S"
    and "(N = EfiConventionalMemory) \<noteq> (EntryType e = EfiConventionalMemory)" "2 \<le> mFreeMemoryMapEntryList s"
    and "R = (if EntryEnd e < End then EntryEnd e else End)" "S < R" "page_aligned S" "page_aligned (R + 1)" "R \<noteq> MAX_ADDRESS"
  shows "\<exists>s'. convert_step env (CoreFreeMemoryMapStack env (Suc n)) End P N S s = Some (Inr (R + 1), s') \<and> settled env s' \<and>
    same_outside_map s s' \<and> mFreeMemoryMapEntryList s - 2 \<le> mFreeMemoryMapEntryList s' \<and> spans s' S R N (EntryAttribute e) \<and>
    (\<forall>a T A. owns s' a T A \<longleftrightarrow> (if in_range S R a then T = N \<and> A = EntryAttribute e else owns s a T A))"
proof -
  let ?free = "CoreFreeMemoryMapStack env (Suc n)"
  note st = settled_parts [OF assms(1)]
  have R: "R \<le> EntryEnd e" "R \<le> End" using assms(7) by auto
  have cS: "covers e S" "S < EntryEnd e" using assms(4,8) R(1) by (auto simp: covers_def intro: less_imp_le less_le_trans)
  obtain pre post where x: "List.extract (\<lambda>e. EntryStart e \<le> S \<and> EntryEnd e > S) (gMemoryMap s) = Some (pre, e, post)"
      "gMemoryMap s = pre @ e # post" by (rule extract_covering [OF st(2) assms(3,4) cS(2)])
  define s1 where "s1 = count_pages N S P (uncount_pages (EntryType e) S P s)"
  have s1: "mem_ok s1" "gMemoryMap s1 = pre @ e # post" "mMapDepth s1 = 0" "same_outside_map s s1" "mFreeMemoryMapEntryList s1 = mFreeMemoryMapEntryList s"
    using st(1,3) x(2) by (simp_all add: s1_def)
  have "entry_ok e" using assms(3) st(2) by (simp add: map_ok_def)
  then obtain At s2 where t: "take_range pre e post S R s1 = Some (At, s2)"
    using take_range_total [of s1 e S pre post R] s1(3) assms(4) entry_below_page [OF _ assms(9)] by auto
  have m1: "map_ok (mMapDepth s1) (gMemoryMap s1)" using s1(1) by (simp add: mem_ok_def)
  note tt = take_range_takes [OF t s1(2) m1 cS(1) assms(8) R(1) assms(9,10)]
  have "gMemoryLock s2" "mMapDepth s2 < 5" using tt(3,4) s1(3,4) assms(2) by (auto simp: same_outside_map_def)
  then obtain s3 where a: "CoreAddRange env N S R At s2 = Some s3" using AddRange_total [OF assms(9,8)] st(5) by blast
  note c = convert_turn [OF s1(1,2) cS(1) assms(8) R(1) assms(9,10,5) t a]
  define s4 where "s4 = (if N = EfiConventionalMemory then clear_range env S R s3 else s3)"
  have s4: "mem_ok s4" "owns s4 = owns s3" "same_outside_map s1 s4" "mMapDepth s4 = mMapDepth s3" "mFreeMemoryMapEntryList s4 = mFreeMemoryMapEntryList s3"
      "mGcdMemorySpaceMap s4 = mGcdMemorySpaceMap s3" "gMemoryMap s4 = gMemoryMap s3"
    using c(1,3) by (simp_all add: s4_def)
  have r4: "reserve_ok (mGcdMemorySpaceMap s4) (gMemoryMap s4)" "map_ok (mMapDepth s4) (gMemoryMap s4)" using s4(1) by (auto simp: mem_ok_def)
  have o: "same_outside_map s s4" using same_outside_map_trans [OF s1(4) s4(3)] .
  have "mMapDepth s4 \<le> mFreeMemoryMapEntryList s4" "gMemoryLock s4" "mFreeMapStack s4 = 0"
    using c(5,6) s4(4,5) s1(3,5) assms(2,6) st(4) o by (auto simp: same_outside_map_def)
  from free_stack_total [OF r4(2) this, of env n] obtain s5 where s5: "?free s4 = Some s5" "map_ok 0 (gMemoryMap s5)" "owns s5 = owns s4"
      "same_outside_map s4 s5" "mGcdMemorySpaceMap s5 = mGcdMemorySpaceMap s4" "mMapDepth s5 = 0"
      "mFreeMemoryMapEntryList s4 - mMapDepth s4 \<le> mFreeMemoryMapEntryList s5" "spans s4 S R N At \<Longrightarrow> spans s5 S R N At" by blast
  have "convert_step env ?free End P N S s = Some (Inr (R + 1), s5)"
    unfolding convert_step_def x(1) option.case prod.case Let_def assms(7) [symmetric] if_not_P [OF assms(5)]
    by (simp add: s1_def [symmetric] t a s4_def [symmetric] s5(1))
  moreover have "settled env s5"
    using r4(1) reserve_ok_cong [OF s5(3)] s5(2,4,5,6) o st(4,5) by (simp add: settled_def mem_ok_def same_outside_map_def)
  moreover have "\<forall>a T A. owns s5 a T A \<longleftrightarrow> (if in_range S R a then T = N \<and> A = EntryAttribute e else owns s a T A)"
    using c(4) s5(3) s4(2) x(2) s1(2) by simp
  moreover have "mFreeMemoryMapEntryList s - 2 \<le> mFreeMemoryMapEntryList s5" using s5(7) s4(4,5) c(5,6) s1(3,5) by simp
  moreover have "spans s3 S R N At" using AddRange_spans [OF a] tt(2) assms(10,11) by (simp add: taken_out_def)
  then have "spans s5 S R N (EntryAttribute e)" using s5(8) tt(1) s4(7) by (simp add: spans_def)
  ultimately show ?thesis using same_outside_map_trans [OF o s5(4)] by blast
qed

lemma ConvertPages_loop:
  assumes "gMemoryLock s" "page_aligned S" "push_bit 12 P \<noteq> 0" "S \<le> S + push_bit 12 P"
  shows "CoreConvertPages env free S P N s = convert_loop env free (S + push_bit 12 P - 1) P N S s"
proof -
  have "P \<noteq> 0" "\<not> S + push_bit 12 P < S" using assms(3,4) by auto
  then show ?thesis using assms(1,2) range_end(3) [OF assms(3,4)] by (simp add: CoreConvertPages_def Let_def page_aligned_def)
qed

lemma ConvertPages_exact:
  assumes "settled env s" "gMemoryLock s" "e \<in> set (gMemoryMap s)" "EntryStart e \<le> S" "S + push_bit 12 P - 1 \<le> EntryEnd e"
    and "(N = EfiConventionalMemory) \<noteq> (EntryType e = EfiConventionalMemory)"
    and "page_aligned S" "push_bit 12 P \<noteq> 0" "S \<le> S + push_bit 12 P" "2 \<le> mFreeMemoryMapEntryList s"
  shows "\<exists>s'. CoreConvertPages env (CoreFreeMemoryMapStack env (Suc n)) S P N s = Some (EFI_SUCCESS, s') \<and> settled env s' \<and>
    same_outside_map s s' \<and> mFreeMemoryMapEntryList s - 2 \<le> mFreeMemoryMapEntryList s' \<and>
    spans s' S (S + push_bit 12 P - 1) N (EntryAttribute e) \<and>
    (\<forall>a T A. owns s' a T A \<longleftrightarrow> (if S \<le> a \<and> a < S + push_bit 12 P then T = N \<and> A = EntryAttribute e else owns s a T A))"
proof -
  define End where "End = S + push_bit 12 P - 1"
  note E = range_end [OF assms(8,9), folded End_def]
  have aE: "page_aligned (End + 1)" unfolding E(1) using assms(7) page_aligned_add page_aligned_pages by blast
  have R: "End = (if EntryEnd e < End then EntryEnd e else End)" using assms(5) unfolding End_def [symmetric] by auto
  from convert_step_exact [OF assms(1-4,6,10) R E(3) assms(7) aE E(2), of n P] obtain s' where
    s': "convert_step env (CoreFreeMemoryMapStack env (Suc n)) End P N S s = Some (Inr (End + 1), s')" "settled env s'"
      "same_outside_map s s'" "mFreeMemoryMapEntryList s - 2 \<le> mFreeMemoryMapEntryList s'" "spans s' S End N (EntryAttribute e)"
      "\<And>a T A. owns s' a T A \<longleftrightarrow> (if in_range S End a then T = N \<and> A = EntryAttribute e else owns s a T A)" by blast
  have "\<not> End + 1 < End" using succ_le(2) [OF E(2), of "End + 1"] succ_le(1) [OF E(2), of "End + 1"] by auto
  then have "convert_loop env (CoreFreeMemoryMapStack env (Suc n)) End P N S s = Some (EFI_SUCCESS, s')"
    using E(3) s'(1) by (subst convert_loop.simps) (simp add: convert_loop.simps [where Start = "End + 1"])
  then have "CoreConvertPages env (CoreFreeMemoryMapStack env (Suc n)) S P N s = Some (EFI_SUCCESS, s')"
    unfolding ConvertPages_loop [OF assms(2,7-9)] End_def .
  moreover have "in_range S End a \<longleftrightarrow> S \<le> a \<and> a < S + push_bit 12 P" for a using E(4) by (simp add: in_range_def)
  ultimately show ?thesis using s' unfolding End_def by simp
qed

text \<open>When the memory after the entry is not of the right type, the part in the entry is converted, and then
  the conversion fails.\<close>

lemma ConvertPages_partial:
  assumes "settled env s" "gMemoryLock s" "e \<in> set (gMemoryMap s)" "EntryStart e \<le> S" "S < EntryEnd e"
    and "(N = EfiConventionalMemory) \<noteq> (EntryType e = EfiConventionalMemory)"
    and "page_aligned S" "push_bit 12 P \<noteq> 0" "S \<le> S + push_bit 12 P" "2 \<le> mFreeMemoryMapEntryList s"
    and "EntryEnd e + 1 < S + push_bit 12 P" "\<forall>T A. owns s (EntryEnd e + 1) T A \<longrightarrow> (N = EfiConventionalMemory) = (T = EfiConventionalMemory)"
  shows "\<exists>s'. CoreConvertPages env (CoreFreeMemoryMapStack env (Suc n)) S P N s = Some (EFI_NOT_FOUND, s') \<and> settled env s' \<and>
    same_outside_map s s' \<and>
    (\<forall>a T A. owns s' a T A \<longleftrightarrow> (if in_range S (EntryEnd e) a then T = N \<and> A = EntryAttribute e else owns s a T A))"
proof -
  define End where "End = S + push_bit 12 P - 1"
  define M where "M = EntryEnd e + 1"
  note E = range_end [OF assms(8,9), folded End_def]
  have eo: "page_aligned M" "EntryEnd e \<noteq> MAX_ADDRESS"
    using settled_parts(2) [OF assms(1)] assms(3) by (auto simp: map_ok_def entry_ok_def M_def)
  have aE: "page_aligned (End + 1)" unfolding E(1) using assms(7) page_aligned_add page_aligned_pages by blast
  have M: "M \<le> End" using assms(11) E(4) unfolding M_def by blast
  then have l: "EntryEnd e < End" using succ_le(1) [OF eo(2), of End] unfolding M_def by blast
  have "M \<noteq> End" using page_aligned_succ [of M] eo(1) aE by auto
  then have MEnd: "M < End" using M by simp
  have R: "EntryEnd e = (if EntryEnd e < End then EntryEnd e else End)" using l by simp
  from convert_step_exact [OF assms(1-4,6,10) R assms(5,7) eo(1) [unfolded M_def] eo(2), of n P] obtain s' where
    s': "convert_step env (CoreFreeMemoryMapStack env (Suc n)) End P N S s = Some (Inr M, s')" "settled env s'" "same_outside_map s s'"
      "\<And>a T A. owns s' a T A \<longleftrightarrow> (if in_range S (EntryEnd e) a then T = N \<and> A = EntryAttribute e else owns s a T A)"
    unfolding M_def by blast
  have "\<not> in_range S (EntryEnd e) M" using succ_le(2) [OF eo(2), of M] unfolding M_def in_range_def by blast
  then have "owns s' M T A = owns s M T A" for T A using s'(4) by simp
  then have o: "(N = EfiConventionalMemory) = (T = EfiConventionalMemory)" if "owns s' M T A" for T A
    using assms(12) [folded M_def] that by blast
  have "convert_step env (CoreFreeMemoryMapStack env (Suc n)) End P N M s' = Some (Inl EFI_NOT_FOUND, s')"
  proof (cases "List.extract (\<lambda>e. EntryStart e \<le> M \<and> EntryEnd e > M) (gMemoryMap s')")
    case (Some r)
    then obtain pre f post where r: "List.extract (\<lambda>e. EntryStart e \<le> M \<and> EntryEnd e > M) (gMemoryMap s') = Some (pre, f, post)"
      by (cases r) auto
    from extract_SomeE [OF r] have "owns s' M (EntryType f) (EntryAttribute f)" by (auto simp: owned_def covers_def)
    then show ?thesis using r o by (simp add: convert_step_def Let_def)
  qed (simp add: convert_step_def)
  then have "convert_loop env (CoreFreeMemoryMapStack env (Suc n)) End P N S s = Some (EFI_NOT_FOUND, s')"
    using E(3) s'(1) MEnd by (subst convert_loop.simps) (simp add: convert_loop.simps [where Start = M])
  then show ?thesis using s' unfolding ConvertPages_loop [OF assms(2,7-9)] End_def by blast
qed

end
