(* ===== verification/PagesFind.thy ===== *)
theory PagesFind
  imports PagesMap
begin

text \<open>
  The search for free pages: it finds the highest range that fits.
\<close>

section \<open>Page ends\<close>

lemma page_bits: "page_aligned x \<Longrightarrow> n < 12 \<Longrightarrow> \<not> bit x n"
  unfolding page_aligned_take by (metis bit_0_eq bit_take_bit_iff bot_apply bot_bool_def)

lemma page_unmask: "page_aligned x \<Longrightarrow> x AND NOT (EFI_PAGE_SIZE - 1) = x"
proof -
  assume a: "page_aligned x"
  have m: "EFI_PAGE_SIZE - 1 = (mask 12 :: u64)" by (simp add: mask_eq_exp_minus_1)
  show ?thesis unfolding m
  proof (rule bit_word_eqI)
    fix n assume "n < LENGTH(64)"
    then show "bit (x AND NOT (mask 12)) n = bit x n" using page_bits [OF a, of n] by (cases "n < 12") (simp_all add: bit_simps)
  qed
qed

lemma page_end_aligned: "x AND EFI_PAGE_MASK = EFI_PAGE_MASK \<Longrightarrow> page_aligned (x + 1)"
proof -
  assume "x AND EFI_PAGE_MASK = EFI_PAGE_MASK"
  then have t: "take_bit 12 x = mask 12" unfolding page_mask by (simp add: mask_eq_exp_minus_1)
  have "x + 1 = push_bit 12 (drop_bit 12 x) + (mask 12 + 1)" using bits_ident [of 12 x] unfolding t by (simp add: add.assoc)
  moreover have "page_aligned (mask 12 + 1)" by (simp add: page_aligned_take mask_eq_exp_minus_1)
  ultimately show ?thesis using page_aligned_add page_aligned_pages by metis
qed

lemma fill_page:
  fixes x :: u64
  shows "((x AND NOT EFI_PAGE_MASK) OR EFI_PAGE_MASK) AND EFI_PAGE_MASK = EFI_PAGE_MASK"
    "unat ((x AND NOT EFI_PAGE_MASK) OR EFI_PAGE_MASK) = unat x div 4096 * 4096 + 4095"
proof -
  have m: "EFI_PAGE_MASK = (mask 12 :: u64)" by (simp add: mask_eq_exp_minus_1)
  show "((x AND NOT EFI_PAGE_MASK) OR EFI_PAGE_MASK) AND EFI_PAGE_MASK = EFI_PAGE_MASK"
    unfolding m by (rule bit_word_eqI) (auto simp: bit_simps)
  have e: "(x AND NOT (mask 12)) OR mask 12 = push_bit 12 (drop_bit 12 x) + mask 12"
  proof -
    have "(x AND NOT (mask 12)) OR mask 12 = push_bit 12 (drop_bit 12 x) OR mask 12"
      by (rule bit_word_eqI) (auto simp: bit_simps)
    also have "\<dots> = push_bit 12 (drop_bit 12 x) + mask 12"
      by (rule disjunctive_add [symmetric]) (auto simp: bit_simps)
    finally show ?thesis .
  qed
  have "unat (drop_bit 12 x) = drop_bit 12 (unat x)" by (rule unat_drop_bit_eq)
  then have d: "unat (drop_bit 12 x) = unat x div 4096" by (simp only: drop_bit_eq_div [of 12 "unat x"]) simp
  have x: "unat x < 2 ^ 64" using unsigned_less [of x] by simp
  have "unat (push_bit 12 (drop_bit 12 x)) = unat x div 4096 * 4096"
    using x d by (simp add: push_bit_eq_mult unat_word_ariths(2))
  moreover have "unat x div 4096 < 2 ^ 52" using x by (simp add: less_mult_imp_div_less)
  then have "unat x div 4096 * 4096 + 4095 < 2 ^ 64" by simp
  ultimately show "unat ((x AND NOT EFI_PAGE_MASK) OR EFI_PAGE_MASK) = unat x div 4096 * 4096 + 4095"
    unfolding m e by (simp add: unat_word_ariths(1) mask_eq_exp_minus_1)
qed

lemma page_end_below_props:
  assumes "EFI_PAGE_MASK \<le> M"
  shows "page_aligned (page_end_below M + 1)" "page_end_below M \<le> M"
    "page_aligned (y + 1) \<Longrightarrow> y \<noteq> MAX_ADDRESS \<Longrightarrow> y \<le> M \<Longrightarrow> y \<le> page_end_below M"
proof -
  have "page_aligned (page_end_below M + 1) \<and> page_end_below M \<le> M \<and>
    (page_aligned (y + 1) \<longrightarrow> y \<noteq> MAX_ADDRESS \<longrightarrow> y \<le> M \<longrightarrow> y \<le> page_end_below M)"
  proof (cases "M AND EFI_PAGE_MASK = EFI_PAGE_MASK")
    case True
    then show ?thesis using page_end_aligned by (simp add: page_end_below_def)
  next
    case False
    have M: "4095 \<le> unat M" using assms by (simp add: word_le_nat_alt)
    moreover have "unat M \<noteq> 4095"
    proof
      assume "unat M = 4095"
      then have "M = EFI_PAGE_MASK" by (intro word_unat_eq_iff [THEN iffD2]) simp
      then show False using False by simp
    qed
    ultimately have u: "unat (M - (EFI_PAGE_MASK + 1)) = unat M - 4096" by (simp add: unat_sub word_le_nat_alt)
    have b: "page_end_below M = ((M - (EFI_PAGE_MASK + 1)) AND NOT EFI_PAGE_MASK) OR EFI_PAGE_MASK" using False by (simp add: page_end_below_def)
    have v: "unat (page_end_below M) = (unat M - 4096) div 4096 * 4096 + 4095" unfolding b fill_page(2) u ..
    have a: "page_aligned (page_end_below M + 1)" unfolding b by (rule page_end_aligned [OF fill_page(1)])
    have "(unat M - 4096) div 4096 * 4096 \<le> unat M - 4096" by simp
    then have l: "page_end_below M \<le> M" using v M \<open>unat M \<noteq> 4095\<close> unfolding word_le_nat_alt by linarith
    have "y \<le> page_end_below M" if y: "page_aligned (y + 1)" "y \<noteq> MAX_ADDRESS" "y \<le> M"
    proof -
      obtain k where k: "Suc (unat y) = 4096 * k" using y(1) unat_succ [OF y(2)] by (auto simp: page_aligned_dvd)
      have "unat y \<le> unat M" using y(3) by (simp add: word_le_nat_alt)
      moreover have "unat y \<noteq> unat M"
      proof
        assume "unat y = unat M"
        moreover obtain j where "k = Suc j" using k by (cases k) auto
        ultimately have "unat M = 4095 + 4096 * j" using k by simp
        then have "unat M mod 4096 = 4095" by (simp only: mod_mult_self2) simp
        then have "M AND EFI_PAGE_MASK = EFI_PAGE_MASK"
          unfolding page_mask using unat_page [of M] by (intro word_unat_eq_iff [THEN iffD2]) simp
        then show False using False by simp
      qed
      ultimately have "4096 * k \<le> unat M" using k by simp
      moreover obtain j where j: "k = Suc j" using k by (cases k) auto
      ultimately have "j * 4096 div 4096 \<le> (unat M - 4096) div 4096" by (intro div_le_mono) simp
      then have "j \<le> (unat M - 4096) div 4096" by simp
      then show ?thesis using v k j unfolding word_le_nat_alt by simp
    qed
    then show ?thesis using a l by blast
  qed
  then show "page_aligned (page_end_below M + 1)" "page_end_below M \<le> M"
    "page_aligned (y + 1) \<Longrightarrow> y \<noteq> MAX_ADDRESS \<Longrightarrow> y \<le> M \<Longrightarrow> y \<le> page_end_below M" by blast+
qed

section \<open>The best range\<close>

text \<open>The end of the part of a free entry that may be used, and whether the request fits there.\<close>

definition usable_end :: "u64 \<Rightarrow> map_entry \<Rightarrow> u64" where
  "usable_end Hi e = (if EntryEnd e \<ge> Hi then Hi else EntryEnd e)"

definition fits :: "u64 \<Rightarrow> u64 \<Rightarrow> u64 \<Rightarrow> map_entry \<Rightarrow> bool" where
  "fits Hi Lo B e \<longleftrightarrow> EntryType e = EfiConventionalMemory \<and> EntryStart e < Hi \<and> Lo \<le> EntryEnd e \<and>
     B \<le> usable_end Hi e - EntryStart e + 1 \<and> Lo \<le> usable_end Hi e - B + 1"

lemma best_end_max:
  assumes "entry_ok e" "page_aligned (Hi + 1)"
  shows "best_end Hi Lo B EFI_PAGE_SIZE e T = (if fits Hi Lo B e then max (usable_end Hi e) T else T)"
proof -
  have "page_aligned (usable_end Hi e + 1)" using assms by (simp add: usable_end_def entry_ok_def)
  then have "(usable_end Hi e + 1 AND NOT (EFI_PAGE_SIZE - 1)) - 1 = usable_end Hi e" by (simp only: page_unmask) simp
  then have r: "((if EntryEnd e \<ge> Hi then Hi else EntryEnd e) + 1 AND NOT (EFI_PAGE_SIZE - 1)) - 1 = usable_end Hi e"
    by (simp only: usable_end_def)
  show ?thesis unfolding best_end_def Let_def r fits_def max_def not_le [symmetric]
    by (cases "EntryType e = EfiConventionalMemory"; cases "Hi \<le> EntryStart e"; cases "Lo \<le> EntryEnd e";
        cases "Lo \<le> usable_end Hi e - B + 1"; cases "B \<le> usable_end Hi e - EntryStart e + 1") (simp_all only: simp_thms if_True if_False if_cancel refl split: if_split, blast?)
qed

lemma fold_best_end:
  assumes "\<forall>e\<in>set l. entry_ok e" "page_aligned (Hi + 1)"
  shows "T \<le> fold (best_end Hi Lo B EFI_PAGE_SIZE) l T \<and>
    (\<forall>e\<in>set l. fits Hi Lo B e \<longrightarrow> usable_end Hi e \<le> fold (best_end Hi Lo B EFI_PAGE_SIZE) l T) \<and>
    (fold (best_end Hi Lo B EFI_PAGE_SIZE) l T = T \<or>
      (\<exists>e\<in>set l. fits Hi Lo B e \<and> fold (best_end Hi Lo B EFI_PAGE_SIZE) l T = usable_end Hi e))"
  using assms(1)
proof (induction l arbitrary: T)
  case (Cons e l)
  have b: "best_end Hi Lo B EFI_PAGE_SIZE e T = (if fits Hi Lo B e then max (usable_end Hi e) T else T)"
    using best_end_max [OF _ assms(2)] Cons.prems by simp
  define T' where "T' = best_end Hi Lo B EFI_PAGE_SIZE e T"
  have "T \<le> T'" "fits Hi Lo B e \<Longrightarrow> usable_end Hi e \<le> T'" "T' = T \<or> fits Hi Lo B e \<and> T' = usable_end Hi e"
    unfolding T'_def b by (auto simp: max_def)
  moreover have "fold (best_end Hi Lo B EFI_PAGE_SIZE) (e # l) T = fold (best_end Hi Lo B EFI_PAGE_SIZE) l T'" by (simp add: T'_def)
  ultimately show ?case using Cons.IH [of T'] Cons.prems by (auto intro: order.trans)
qed simp

text \<open>A place for the request: whole pages inside a free entry and between the limits.\<close>

definition place :: "map_entry list \<Rightarrow> u64 \<Rightarrow> u64 \<Rightarrow> u64 \<Rightarrow> u64 \<Rightarrow> bool" where
  "place l Hi Lo P q \<longleftrightarrow> page_aligned q \<and> Lo \<le> q \<and> unat q + unat P * 4096 \<le> unat Hi + 1 \<and>
     (\<exists>e\<in>set l. EntryType e = EfiConventionalMemory \<and> EntryStart e \<le> q \<and> unat q + unat P * 4096 \<le> unat (EntryEnd e) + 1)"

lemma fits_place:
  assumes "entry_ok e" "e \<in> set l" "fits Hi' Lo (push_bit 12 P) e" "page_aligned (Hi' + 1)" "Hi' \<le> Hi" "P \<noteq> 0" "unat P < 2 ^ 52"
  shows "place l Hi Lo P (usable_end Hi' e - (push_bit 12 P - 1))"
    "unat (usable_end Hi' e - (push_bit 12 P - 1)) + unat P * 4096 = unat (usable_end Hi' e) + 1"
proof -
  let ?B = "push_bit 12 P" and ?d = "usable_end Hi' e"
  have B: "unat ?B = unat P * 4096" by (rule pages_bytes [OF assms(7)])
  have P: "0 < unat P" using assms(6) by (simp add: unat_gt_0)
  have d: "?d \<le> EntryEnd e" "?d \<le> Hi'" "page_aligned (?d + 1)" "?d \<noteq> MAX_ADDRESS" "EntryStart e < ?d"
    using assms(1,3,4) below_max [of ?d "EntryEnd e"] by (auto simp: usable_end_def entry_ok_def fits_def)
  have ud: "unat (?d - EntryStart e + 1) = unat ?d - unat (EntryStart e) + 1"
  proof -
    have "unat (?d - EntryStart e) = unat ?d - unat (EntryStart e)" using d(5) by (simp add: unat_sub less_imp_le)
    moreover have "?d - EntryStart e \<le> ?d" using d(5) by (simp add: word_sub_le less_imp_le)
    then have "?d - EntryStart e \<noteq> MAX_ADDRESS" using below_max d(4) by blast
    ultimately show ?thesis using unat_succ by simp
  qed
  have le: "unat P * 4096 \<le> unat ?d - unat (EntryStart e) + 1" using assms(3) ud B by (simp add: fits_def word_le_nat_alt)
  have lt: "unat (EntryStart e) < unat ?d" using d(5) by (simp add: word_less_nat_alt)
  have B1: "unat (?B - 1) = unat P * 4096 - 1"
  proof -
    have "1 \<le> ?B" using B P by (simp add: word_le_nat_alt)
    then show ?thesis using B by (simp add: unat_sub)
  qed
  have "?B - 1 \<le> ?d" using B1 le lt P by (simp add: word_le_nat_alt)
  then have q: "unat (?d - (?B - 1)) = unat ?d - (unat P * 4096 - 1)" using B1 by (simp add: unat_sub)
  then show sum: "unat (?d - (?B - 1)) + unat P * 4096 = unat ?d + 1" using le lt P by linarith
  have eq: "?d - (?B - 1) = (?d + 1) - ?B" "?d - ?B + 1 = ?d - (?B - 1)" by simp_all
  have "4096 dvd unat ?d + 1" using d(3) unat_succ [OF d(4)] by (simp add: page_aligned_dvd)
  then have "4096 dvd unat (?d - (?B - 1)) + unat P * 4096" using sum by simp
  then have "page_aligned (?d - (?B - 1))" unfolding page_aligned_dvd by (simp add: dvd_add_left_iff)
  moreover have "Lo \<le> ?d - (?B - 1)" using assms(3) eq(2) by (simp add: fits_def)
  moreover have "EntryStart e \<le> ?d - (?B - 1)" using q le lt unfolding word_le_nat_alt by linarith
  ultimately show "place l Hi Lo P (?d - (?B - 1))"
    using assms(2,3,5) d(1,2) sum unfolding place_def fits_def by (auto simp: word_le_nat_alt)
qed

lemma place_fits:
  assumes "place l Hi Lo P q" "\<forall>e\<in>set l. entry_ok e" "EFI_PAGE_MASK \<le> Hi" "P \<noteq> 0" "unat P < 2 ^ 52"
  shows "\<exists>e\<in>set l. fits (page_end_below Hi) Lo (push_bit 12 P) e \<and> unat q + unat P * 4096 \<le> unat (usable_end (page_end_below Hi) e) + 1"
proof -
  let ?B = "push_bit 12 P" and ?M = "page_end_below Hi"
  have B: "unat ?B = unat P * 4096" by (rule pages_bytes [OF assms(5)])
  have P: "0 < unat P" using assms(4) by (simp add: unat_gt_0)
  obtain e where e: "e \<in> set l" "EntryType e = EfiConventionalMemory" "EntryStart e \<le> q" "unat q + unat P * 4096 \<le> unat (EntryEnd e) + 1"
      "page_aligned q" "Lo \<le> q" "unat q + unat P * 4096 \<le> unat Hi + 1" using assms(1) by (auto simp: place_def)
  have eo: "entry_ok e" using e(1) assms(2) by blast
  define y where "y = q + (?B - 1)"
  have "unat (?B - 1) = unat P * 4096 - 1"
  proof -
    have "1 \<le> ?B" using B P by (simp add: word_le_nat_alt)
    then show ?thesis using B by (simp add: unat_sub)
  qed
  moreover have "unat (EntryEnd e) < 2 ^ 64" using unsigned_less [of "EntryEnd e"] by simp
  ultimately have y: "unat y + 1 = unat q + unat P * 4096" using e(4) P by (simp add: y_def unat_word_ariths(1))
  have yE: "y \<le> EntryEnd e" "y \<le> Hi" using y e(4,7) by (simp_all add: word_le_nat_alt)
  have ym: "y \<noteq> MAX_ADDRESS" using below_max [OF yE(1)] eo by (simp add: entry_ok_def)
  have "y + 1 = q + ?B" by (simp add: y_def)
  then have "page_aligned (y + 1)" using page_aligned_add [OF e(5) page_aligned_pages] by simp
  then have yM: "y \<le> ?M" using page_end_below_props(3) [OF assms(3) _ ym yE(2)] by blast
  have yd: "y \<le> usable_end ?M e" using yE(1) yM by (simp add: usable_end_def)
  then have c1: "unat q + unat P * 4096 \<le> unat (usable_end ?M e) + 1" using y by (simp add: word_le_nat_alt)
  have qy: "unat q < unat y" using y P by linarith
  have sd: "EntryStart e \<le> usable_end ?M e" using e(3) yd qy unfolding word_le_nat_alt by linarith
  have dm: "usable_end ?M e \<noteq> MAX_ADDRESS"
    using below_max [of "usable_end ?M e" "EntryEnd e"] eo by (auto simp: usable_end_def entry_ok_def)
  have "?B \<le> usable_end ?M e - EntryStart e + 1"
  proof -
    have "unat (usable_end ?M e - EntryStart e) = unat (usable_end ?M e) - unat (EntryStart e)" using sd by (simp add: unat_sub)
    moreover have "usable_end ?M e - EntryStart e \<noteq> MAX_ADDRESS" using below_max [OF word_sub_le [OF sd] dm] .
    ultimately show ?thesis using unat_succ B c1 e(3) sd by (simp add: word_le_nat_alt)
  qed
  moreover have "Lo \<le> usable_end ?M e - ?B + 1"
  proof -
    have "usable_end ?M e - ?B + 1 = usable_end ?M e - (?B - 1)" by simp
    moreover have "unat (usable_end ?M e - (?B - 1)) = unat (usable_end ?M e) - (unat P * 4096 - 1)"
      using \<open>unat (?B - 1) = unat P * 4096 - 1\<close> c1 by (subst unat_sub) (simp_all add: word_le_nat_alt)
    ultimately have "unat (usable_end ?M e - ?B + 1) = unat (usable_end ?M e) - (unat P * 4096 - 1)" by (simp only:)
    then show ?thesis using c1 e(6) P unfolding word_le_nat_alt by linarith
  qed
  moreover have "EntryStart e < ?M" using e(3) qy yM unfolding word_less_nat_alt word_le_nat_alt by linarith
  moreover have "Lo \<le> EntryEnd e" using e(6) yE(1) qy unfolding word_less_nat_alt word_le_nat_alt by linarith
  ultimately have "fits ?M Lo ?B e" using e(2) by (simp add: fits_def)
  then show ?thesis using e(1) c1 by blast
qed

lemma FindFreePagesI_place:
  assumes "map_ok d l" "P \<noteq> 0" "unat P < 2 ^ 52"
  shows "(CoreFindFreePagesI l Hi Lo P EFI_PAGE_SIZE \<noteq> 0 \<longrightarrow> place l Hi Lo P (CoreFindFreePagesI l Hi Lo P EFI_PAGE_SIZE)) \<and>
    (\<forall>q. place l Hi Lo P q \<longrightarrow> q \<le> CoreFindFreePagesI l Hi Lo P EFI_PAGE_SIZE)"
proof (cases "EFI_PAGE_MASK \<le> Hi")
  case False
  have "unat Hi < 4095" using False by (simp add: word_le_nat_alt not_le)
  moreover have "0 < unat P" using assms(2) by (simp add: unat_gt_0)
  ultimately have "\<not> place l Hi Lo P q" for q by (auto simp: place_def)
  then show ?thesis using False by (simp add: CoreFindFreePagesI_def not_le)
next
  case True
  let ?H = "page_end_below Hi" and ?B = "push_bit 12 P"
  define T where "T = fold (best_end ?H Lo ?B EFI_PAGE_SIZE) l 0"
  define r where "r = T - (?B - 1)"
  have eo: "\<forall>e\<in>set l. entry_ok e" using assms(1) by (simp add: map_ok_def)
  note H = page_end_below_props(1,2) [OF True]
  note f = fold_best_end [OF eo H(1), where T = 0 and Lo = Lo and B = ?B, folded T_def]
  have R: "CoreFindFreePagesI l Hi Lo P EFI_PAGE_SIZE = (if r AND EFI_PAGE_MASK \<noteq> 0 then 0 else r)"
  proof -
    have "\<not> (Hi < EFI_PAGE_MASK \<or> P = 0)" using True assms(2) by auto
    then show ?thesis unfolding CoreFindFreePagesI_def Let_def T_def r_def by (simp only: if_False)
  qed
  show ?thesis
  proof (cases "\<exists>e\<in>set l. fits ?H Lo ?B e")
    case True
    then obtain e0 where e0: "e0 \<in> set l" "fits ?H Lo ?B e0" by blast
    have "usable_end ?H e0 \<le> T" using f e0 by blast
    moreover have "usable_end ?H e0 \<noteq> 0" using e0 eo by (auto simp: fits_def usable_end_def entry_ok_def)
    ultimately have "T \<noteq> 0" by auto
    then obtain e where e: "e \<in> set l" "fits ?H Lo ?B e" "T = usable_end ?H e" using f by blast
    note p = fits_place [OF _ e(1,2) H assms(2,3), folded e(3), folded r_def]
    have "entry_ok e" using eo e(1) by blast
    note p = p [OF this]
    have "r AND EFI_PAGE_MASK = 0" using p(1) by (simp add: place_def page_aligned_def)
    then have R': "CoreFindFreePagesI l Hi Lo P EFI_PAGE_SIZE = r" using R by simp
    have "q \<le> r" if q: "place l Hi Lo P q" for q
    proof -
      obtain e' where "e' \<in> set l" "fits ?H Lo ?B e'" "unat q + unat P * 4096 \<le> unat (usable_end ?H e') + 1"
        using place_fits [OF q eo \<open>EFI_PAGE_MASK \<le> Hi\<close> assms(2,3)] by blast
      moreover from this have "usable_end ?H e' \<le> T" using f by blast
      ultimately show ?thesis using p(2) unfolding word_le_nat_alt by linarith
    qed
    then show ?thesis using p(1) R' by simp
  next
    case False
    then have T: "T = 0" using f by blast
    have "page_aligned ?B" by (rule page_aligned_pages)
    have "\<not> page_aligned r"
    proof
      assume "page_aligned r"
      then have "page_aligned (r + ?B)" by (rule page_aligned_add [OF _ page_aligned_pages])
      then show False using T page_aligned_succ [of 0] by (simp add: r_def page_aligned_def)
    qed
    then have "CoreFindFreePagesI l Hi Lo P EFI_PAGE_SIZE = 0" using R by (simp add: page_aligned_def)
    moreover have "\<not> place l Hi Lo P q" for q using place_fits [OF _ eo \<open>EFI_PAGE_MASK \<le> Hi\<close> assms(2,3)] False by blast
    ultimately show ?thesis by simp
  qed
qed

text \<open>C23. The search returns the highest place for the request, and zero only when no place is above zero.\<close>

theorem FindFreePagesI_correct:
  assumes "map_ok d l" "P \<noteq> 0" "unat P < 2 ^ 52"
  shows "(CoreFindFreePagesI l Hi Lo P EFI_PAGE_SIZE \<noteq> 0 \<longrightarrow> place l Hi Lo P (CoreFindFreePagesI l Hi Lo P EFI_PAGE_SIZE)) \<and>
    (\<forall>q. place l Hi Lo P q \<longrightarrow> q \<le> CoreFindFreePagesI l Hi Lo P EFI_PAGE_SIZE)"
  by (rule FindFreePagesI_place [OF assms])

end
