(* ===== verification/PagesSpec.thy ===== *)
theory PagesSpec
  imports PagesSafe PagesExact PagesFind
begin

text \<open>
  The contract of the page allocator: when it succeeds, what allocating and freeing do to the memory,
  which requests it takes for others, and what the reported map says.
\<close>

section \<open>Allocating\<close>

lemma page_alignment_page [simp]: "page_alignment N = EFI_PAGE_SIZE"
  by (simp add: page_alignment_def)

lemma place_anywhere: "place l Hi Lo P q \<Longrightarrow> place l MAX_ADDRESS 0 P q"
proof -
  assume "place l Hi Lo P q"
  moreover have "unat Hi < 2 ^ 64" using unsigned_less [of Hi] by simp
  ultimately show ?thesis by (auto simp: place_def)
qed

lemma find_in_bins_place:
  assumes "find_in_bins MAX_ADDRESS P N EFI_PAGE_SIZE s = (S, s')" "map_ok d (gMemoryMap s)" "P \<noteq> 0" "unat P < 2 ^ 52"
  shows "S \<noteq> 0 \<Longrightarrow> place (gMemoryMap s) MAX_ADDRESS 0 P S" "place (gMemoryMap s) MAX_ADDRESS 0 P q \<Longrightarrow> q \<noteq> 0 \<Longrightarrow> S \<noteq> 0"
    "s' = s\<lparr>mDefaultBaseAddress := mDefaultBaseAddress s'\<rparr>"
proof -
  note f = FindFreePagesI_place [OF assms(2-4)]
  have "S \<noteq> 0 \<Longrightarrow> \<exists>Hi Lo. S = CoreFindFreePagesI (gMemoryMap s) Hi Lo P EFI_PAGE_SIZE"
    using assms(1) by (auto simp: find_in_bins_def Let_def split: if_splits)
  then show "S \<noteq> 0 \<Longrightarrow> place (gMemoryMap s) MAX_ADDRESS 0 P S" using f place_anywhere by metis
  show "S \<noteq> 0" if q: "place (gMemoryMap s) MAX_ADDRESS 0 P q" "q \<noteq> 0"
  proof
    assume "S = 0"
    then have "CoreFindFreePagesI (gMemoryMap s) MAX_ADDRESS 0 P EFI_PAGE_SIZE = 0"
      using assms(1) by (auto simp: find_in_bins_def Let_def split: if_splits)
    then show False using f q by (metis word_le_0_iff)
  qed
  show "s' = s\<lparr>mDefaultBaseAddress := mDefaultBaseAddress s'\<rparr>"
    using assms(1) by (auto simp: find_in_bins_def Let_def split: if_splits)
qed

lemma place_entry:
  assumes "place l MAX_ADDRESS 0 P S" "map_ok d l" "unat P < 2 ^ 52" "P \<noteq> 0"
  obtains e where "e \<in> set l" "EntryType e = EfiConventionalMemory" "EntryStart e \<le> S" "S + push_bit 12 P - 1 \<le> EntryEnd e"
    "S \<le> S + push_bit 12 P" "page_aligned S"
proof -
  obtain e where e: "e \<in> set l" "EntryType e = EfiConventionalMemory" "EntryStart e \<le> S" "unat S + unat P * 4096 \<le> unat (EntryEnd e) + 1" "page_aligned S"
    using assms(1) by (auto simp: place_def)
  have "EntryEnd e \<noteq> MAX_ADDRESS" using assms(2) e(1) by (auto simp: map_ok_def entry_ok_def)
  moreover have "unat (EntryEnd e + 1) < 2 ^ 64" using unsigned_less [of "EntryEnd e + 1"] by simp
  ultimately have "unat (EntryEnd e) + 1 < 2 ^ 64" using unat_succ by simp
  then have u: "unat (S + push_bit 12 P) = unat S + unat P * 4096" using e(4) pages_bytes [OF assms(3)] by (simp add: unat_word_ariths(1))
  have P: "0 < unat P" using assms(4) by (simp add: unat_gt_0)
  have "1 \<le> S + push_bit 12 P" using u P by (simp add: word_le_nat_alt)
  then have "unat (S + push_bit 12 P - 1) = unat S + unat P * 4096 - 1" using u by (simp add: unat_sub)
  then have "S + push_bit 12 P - 1 \<le> EntryEnd e" using e(4) by (simp add: word_le_nat_alt)
  moreover have "S \<le> S + push_bit 12 P" using u by (simp add: word_le_nat_alt)
  ultimately show thesis using that e by blast
qed

lemma settled_lock [simp]: "settled env (s\<lparr>gMemoryLock := b\<rparr>) = settled env s" "settled env (s\<lparr>mDefaultBaseAddress := d\<rparr>) = settled env s"
  by (simp_all add: settled_def mem_ok_def)

lemma pages_nonzero: "P \<noteq> 0 \<Longrightarrow> unat P < 2 ^ 52 \<Longrightarrow> push_bit 12 P \<noteq> (0 :: u64)"
  using pages_bytes [of P] by (metis mult_eq_0_iff unat_0 unat_eq_zero zero_neq_numeral)

lemma settled_map: "settled env s \<Longrightarrow> map_ok (mMapDepth s) (gMemoryMap s)"
  unfolding settled_def mem_ok_def by blast

text \<open>The memory after the range \<open>[S, S + B)\<close> has been given the type \<open>T\<close>.\<close>

definition retyped :: "u64 \<Rightarrow> u64 \<Rightarrow> u32 \<Rightarrow> u64 \<Rightarrow> 'e mem \<Rightarrow> 'e mem \<Rightarrow> bool" where
  "retyped S B N At s s' \<longleftrightarrow>
     (\<forall>a T A. owns s' a T A \<longleftrightarrow> (if S \<le> a \<and> a < S + B then T = N \<and> A = At else owns s a T A))"

lemma allocate_found:
  assumes "settled env s" "\<not> gMemoryLock s" "2 \<le> mFreeMemoryMapEntryList s" "N \<noteq> EfiConventionalMemory" "Type \<noteq> OtherAllocateType"
    and "\<not> (EfiMaxMemoryType \<le> N \<and> N \<le> 0x7fffffff)" "Type = AllocateAddress \<longrightarrow> page_aligned M"
    and "(if Type \<noteq> AllocateAddress then FindFreePages env (CoreFreeMemoryMapStack env (Suc n)) (if Type = AllocateMaxAddress then M else MAX_ADDRESS) P N EFI_PAGE_SIZE (s\<lparr>gMemoryLock := True\<rparr>)
             else Some (M, s\<lparr>gMemoryLock := True\<rparr>)) = Some (S, s\<lparr>gMemoryLock := True, mDefaultBaseAddress := d\<rparr>)"
    and "Type \<noteq> AllocateAddress \<longrightarrow> S \<noteq> 0" "e \<in> set (gMemoryMap s)" "EntryType e = EfiConventionalMemory" "EntryStart e \<le> S"
    and "S + push_bit 12 P - 1 \<le> EntryEnd e" "page_aligned S" "push_bit 12 P \<noteq> 0" "S \<le> S + push_bit 12 P"
  shows "\<exists>s'. CoreAllocatePages env (CoreFreeMemoryMapStack env (Suc n)) Type N P (Some M) s = Some ((EFI_SUCCESS, Some S), s') \<and>
    settled env s' \<and> \<not> gMemoryLock s' \<and> mFreeMemoryMapEntryList s - 2 \<le> mFreeMemoryMapEntryList s' \<and>
    spans s' S (S + push_bit 12 P - 1) N (EntryAttribute e) \<and> retyped S (push_bit 12 P) N (EntryAttribute e) s s'"
proof -
  let ?s = "s\<lparr>gMemoryLock := True, mDefaultBaseAddress := d\<rparr>" and ?free = "CoreFreeMemoryMapStack env (Suc n)"
  have st: "settled env ?s" "gMemoryLock ?s" "e \<in> set (gMemoryMap ?s)" "2 \<le> mFreeMemoryMapEntryList ?s"
    using assms(1,3,10) settled_lock by simp_all
  have "(N = EfiConventionalMemory) \<noteq> (EntryType e = EfiConventionalMemory)" using assms(4,11) by simp
  from ConvertPages_exact [OF st(1-3) assms(12,13) this assms(14,15,16) st(4), of n] obtain s1 where
    s1: "CoreConvertPages env ?free S P N ?s = Some (EFI_SUCCESS, s1)" "settled env s1" "same_outside_map ?s s1"
      "mFreeMemoryMapEntryList s - 2 \<le> mFreeMemoryMapEntryList s1" "spans s1 S (S + push_bit 12 P - 1) N (EntryAttribute e)"
      "\<And>a T A. owns s1 a T A \<longleftrightarrow> (if S \<le> a \<and> a < S + push_bit 12 P then T = N \<and> A = EntryAttribute e else owns s a T A)" by auto
  have "gMemoryLock s1" using s1(3) by (simp add: same_outside_map_def)
  then have rel: "CoreReleaseMemoryLock s1 = Some (s1\<lparr>gMemoryLock := False\<rparr>)" by (simp add: CoreReleaseMemoryLock_def)
  have acq: "CoreAcquireMemoryLock s = Some (s\<lparr>gMemoryLock := True\<rparr>)" using assms(2) by (simp add: CoreAcquireMemoryLock_def)
  have c: "(if Type \<noteq> AllocateAddress \<and> S = 0 then Some (EFI_OUT_OF_RESOURCES, ?s) else CoreConvertPages env ?free S P N ?s) = Some (EFI_SUCCESS, s1)"
    using assms(9) s1(1) by (cases "Type = AllocateAddress") simp_all
  have "allocate_locked env ?free Type N P M s = Some ((EFI_SUCCESS, S), s1\<lparr>gMemoryLock := False\<rparr>)"
    unfolding allocate_locked_def Let_def acq page_alignment_page Option.bind.simps assms(8) prod.case c rel by (rule refl)
  then have "CoreAllocatePages env ?free Type N P (Some M) s = Some ((EFI_SUCCESS, Some S), s1\<lparr>gMemoryLock := False\<rparr>)"
    using assms(4-7) round_one_page [of N P] by (auto simp: CoreAllocatePages_def page_aligned_def)
  then show ?thesis using s1 by (intro exI [of _ "s1\<lparr>gMemoryLock := False\<rparr>"]) (simp add: spans_def retyped_def)
qed

text \<open>C14. An allocation succeeds whenever there is a place for it above address zero: in a settled memory (no temporary descriptors on the stack, notifications return, the lock
  free) with two free descriptors at hand, a request for fewer than \<open>2 ^ 52\<close> pages anywhere, of a type that may be asked for, for which some free entry
  has room above zero, returns such a place, and exactly the pages of that place change, to the type asked for.\<close>

theorem AllocatePages_succeeds:
  assumes "settled env s" "\<not> gMemoryLock s" "2 \<le> mFreeMemoryMapEntryList s" "N \<noteq> EfiConventionalMemory"
    and "\<not> (EfiMaxMemoryType \<le> N \<and> N \<le> 0x7fffffff)" "P \<noteq> 0" "unat P < 2 ^ 52"
    and "place (gMemoryMap s) MAX_ADDRESS 0 P q" "q \<noteq> 0"
  shows "\<exists>S At s'. CoreAllocatePages env (CoreFreeMemoryMapStack env (Suc n)) AllocateAnyPages N P (Some M) s = Some ((EFI_SUCCESS, Some S), s') \<and>
    place (gMemoryMap s) MAX_ADDRESS 0 P S \<and> settled env s' \<and> retyped S (push_bit 12 P) N At s s'"
proof -
  let ?s = "s\<lparr>gMemoryLock := True\<rparr>"
  have m: "map_ok (mMapDepth ?s) (gMemoryMap ?s)" using settled_map [OF assms(1)] by simp
  obtain S s1 where f: "find_in_bins MAX_ADDRESS P N EFI_PAGE_SIZE ?s = (S, s1)" by (cases "find_in_bins MAX_ADDRESS P N EFI_PAGE_SIZE ?s")
  note b = find_in_bins_place [OF f m assms(6,7)]
  have S: "S \<noteq> 0" "place (gMemoryMap s) MAX_ADDRESS 0 P S" using b(1,2) assms(8,9) by simp_all
  have s1: "s1 = s\<lparr>gMemoryLock := True, mDefaultBaseAddress := mDefaultBaseAddress s1\<rparr>" using b(3) by simp
  obtain e where e: "e \<in> set (gMemoryMap s)" "EntryType e = EfiConventionalMemory" "EntryStart e \<le> S" "S + push_bit 12 P - 1 \<le> EntryEnd e"
    "S \<le> S + push_bit 12 P" "page_aligned S" using place_entry [OF S(2) _ assms(7,6)] m by auto
  have "FindFreePages env (CoreFreeMemoryMapStack env (Suc n)) MAX_ADDRESS P N EFI_PAGE_SIZE ?s = Some (S, s1)"
    using f S(1) by (subst FindFreePages.simps) simp
  then have g: "(if AllocateAnyPages \<noteq> AllocateAddress then FindFreePages env (CoreFreeMemoryMapStack env (Suc n)) (if AllocateAnyPages = AllocateMaxAddress then M else MAX_ADDRESS) P N EFI_PAGE_SIZE ?s
      else Some (M, ?s)) = Some (S, s\<lparr>gMemoryLock := True, mDefaultBaseAddress := mDefaultBaseAddress s1\<rparr>)" using s1 by simp
  from allocate_found [OF assms(1-4) _ assms(5) _ g _ e(1-4,6) pages_nonzero [OF assms(6,7)] e(5)] S show ?thesis by auto
qed

section \<open>Freeing what was allocated\<close>

lemma free_found:
  assumes "settled env s" "\<not> gMemoryLock s" "2 \<le> mFreeMemoryMapEntryList s" "f \<in> set (gMemoryMap s)" "EntryType f \<noteq> EfiConventionalMemory"
    and "EntryStart f \<le> S" "S + push_bit 12 P - 1 \<le> EntryEnd f" "page_aligned S" "push_bit 12 P \<noteq> 0" "S \<le> S + push_bit 12 P"
  shows "\<exists>s'. CoreFreePages env (CoreFreeMemoryMapStack env (Suc n)) S P s = Some (EFI_SUCCESS, s') \<and> settled env s' \<and>
    retyped S (push_bit 12 P) EfiConventionalMemory (EntryAttribute f) s s'"
proof -
  let ?free = "CoreFreeMemoryMapStack env (Suc n)" and ?s = "s\<lparr>gMemoryLock := True\<rparr>"
  have "S < EntryEnd f" using assms(7) range_end(3) [OF assms(9,10)] by auto
  then have "List.extract (\<lambda>e. EntryStart e \<le> S \<and> EntryEnd e > S) (gMemoryMap s) \<noteq> None"
    using assms(4,6) unfolding extract_None_iff by blast
  then have x: "\<exists>pre h post. List.extract (\<lambda>e. EntryStart e \<le> S \<and> EntryEnd e > S) (gMemoryMap ?s) = Some (pre, h, post)" by auto
  have ty: "(EfiConventionalMemory = EfiConventionalMemory) \<noteq> (EntryType f = EfiConventionalMemory)" using assms(5) by simp
  have st: "settled env ?s" "gMemoryLock ?s" "f \<in> set (gMemoryMap ?s)" "2 \<le> mFreeMemoryMapEntryList ?s" using assms(1,3,4) by simp_all
  from ConvertPages_exact [OF st(1-3) assms(6,7) ty assms(8,9,10) st(4), of n] obtain s1 where
    s1: "CoreConvertPages env ?free S P EfiConventionalMemory ?s = Some (EFI_SUCCESS, s1)" "settled env s1" "same_outside_map ?s s1"
      "\<And>a T A. owns s1 a T A \<longleftrightarrow> (if S \<le> a \<and> a < S + push_bit 12 P then T = EfiConventionalMemory \<and> A = EntryAttribute f else owns s a T A)" by auto
  have "free_locked env ?free S P ?s = Some (EFI_SUCCESS, s1)"
    using x s1(1) assms(8) round_one_page [of _ P] by (auto simp: free_locked_def page_aligned_def Let_def)
  moreover have "gMemoryLock s1" using s1(3) by (simp add: same_outside_map_def)
  ultimately have "CoreFreePages env ?free S P s = Some (EFI_SUCCESS, s1\<lparr>gMemoryLock := False\<rparr>)"
    using assms(2) by (simp add: CoreFreePages_def CoreAcquireMemoryLock_def CoreReleaseMemoryLock_def)
  then show ?thesis using s1(2,4) by (intro exI [of _ "s1\<lparr>gMemoryLock := False\<rparr>"]) (simp add: retyped_def)
qed

text \<open>C15. Freeing pages undoes their allocation: in a settled memory (no temporary descriptors on the stack, notifications return, the lock free) with four free
  descriptors at hand, a range of fewer than \<open>2 ^ 52\<close> pages of a free entry that is allocated at its address, with a type that may be asked for, and
  freed again leaves every byte of memory with the type and attribute it had.\<close>

theorem allocate_free_roundtrip:
  assumes "settled env s" "\<not> gMemoryLock s" "4 \<le> mFreeMemoryMapEntryList s" "N \<noteq> EfiConventionalMemory"
    and "\<not> (EfiMaxMemoryType \<le> N \<and> N \<le> 0x7fffffff)" "P \<noteq> 0" "unat P < 2 ^ 52" "place (gMemoryMap s) MAX_ADDRESS 0 P S"
  shows "\<exists>s1 s2. CoreAllocatePages env (CoreFreeMemoryMapStack env (Suc n)) AllocateAddress N P (Some S) s = Some ((EFI_SUCCESS, Some S), s1) \<and>
    CoreFreePages env (CoreFreeMemoryMapStack env (Suc n)) S P s1 = Some (EFI_SUCCESS, s2) \<and> settled env s2 \<and> owns s2 = owns s"
proof -
  let ?free = "CoreFreeMemoryMapStack env (Suc n)"
  note m = settled_map [OF assms(1)]
  obtain e where e: "e \<in> set (gMemoryMap s)" "EntryType e = EfiConventionalMemory" "EntryStart e \<le> S" "S + push_bit 12 P - 1 \<le> EntryEnd e"
    "S \<le> S + push_bit 12 P" "page_aligned S" using place_entry [OF assms(8) m assms(7,6)] by blast
  have g: "(if AllocateAddress \<noteq> AllocateAddress then FindFreePages env ?free (if AllocateAddress = AllocateMaxAddress then S else MAX_ADDRESS) P N EFI_PAGE_SIZE (s\<lparr>gMemoryLock := True\<rparr>)
      else Some (S, s\<lparr>gMemoryLock := True\<rparr>)) = Some (S, s\<lparr>gMemoryLock := True, mDefaultBaseAddress := mDefaultBaseAddress s\<rparr>)" by simp
  have f2: "2 \<le> mFreeMemoryMapEntryList s" using assms(3) by simp
  obtain s1 where s1: "CoreAllocatePages env ?free AllocateAddress N P (Some S) s = Some ((EFI_SUCCESS, Some S), s1)"
      "settled env s1" "\<not> gMemoryLock s1" "mFreeMemoryMapEntryList s - 2 \<le> mFreeMemoryMapEntryList s1"
      "spans s1 S (S + push_bit 12 P - 1) N (EntryAttribute e)" "retyped S (push_bit 12 P) N (EntryAttribute e) s s1"
    using allocate_found [OF assms(1,2) f2 assms(4) _ assms(5) _ g _ e(1-4,6) pages_nonzero [OF assms(6,7)] e(5)] e(6) by auto
  obtain f where f: "f \<in> set (gMemoryMap s1)" "EntryStart f \<le> S" "S + push_bit 12 P - 1 \<le> EntryEnd f" "EntryType f = N"
      "EntryAttribute f = EntryAttribute e" using s1(5) by (auto simp: spans_def)
  let ?B = "push_bit 12 P"
  have "2 \<le> mFreeMemoryMapEntryList s1" "EntryType f \<noteq> EfiConventionalMemory" using s1(4) assms(3,4) f(4) by simp_all
  from free_found [OF s1(2,3) this(1) f(1) this(2) f(2,3) e(6) pages_nonzero [OF assms(6,7)] e(5), of n] obtain s2 where
    s2: "CoreFreePages env ?free S P s1 = Some (EFI_SUCCESS, s2)" "settled env s2"
      "retyped S ?B EfiConventionalMemory (EntryAttribute f) s1 s2" by blast
  have "owns s2 a T A = owns s a T A" for a T A
  proof (cases "S \<le> a \<and> a < S + ?B")
    case True
    have "a \<le> S + ?B - 1" using True range_end(4) [OF pages_nonzero [OF assms(6,7)] e(5)] by blast
    then have "covers e a" using True e(3,4) unfolding covers_def by (meson order.trans)
    then have "owns s a EfiConventionalMemory (EntryAttribute e)" using e(1,2) by (auto simp: owned_def)
    then show ?thesis using True s2(3) f(5) owned_unique [OF m] unfolding retyped_def by metis
  next
    case False
    have "owns s2 a T A = owns s1 a T A" using s2(3) False unfolding retyped_def by metis
    also have "\<dots> = owns s a T A" using s1(6) False unfolding retyped_def by metis
    finally show ?thesis .
  qed
  then have "owns s2 = owns s" by blast
  then show ?thesis using s1(1) s2(1,2) by blast
qed

section \<open>Requests that are too large\<close>

text \<open>C30. The size in bytes of a request is computed modulo \<open>2 ^ 64\<close>: in a settled memory (no temporary descriptors on the stack, notifications return, the lock
  free) with two free descriptors at hand, a request for \<open>2 ^ 52 + P\<close> pages, of a type that may be asked for, at an address where \<open>P\<close> pages are free
  succeeds like a request for \<open>P\<close> pages, and only those change type.\<close>

theorem AllocatePages_truncates:
  assumes "settled env s" "\<not> gMemoryLock s" "2 \<le> mFreeMemoryMapEntryList s" "N \<noteq> EfiConventionalMemory"
    and "\<not> (EfiMaxMemoryType \<le> N \<and> N \<le> 0x7fffffff)" "P \<noteq> 0" "unat P < 2 ^ 52" "place (gMemoryMap s) MAX_ADDRESS 0 P S"
  shows "\<exists>At s'. CoreAllocatePages env (CoreFreeMemoryMapStack env (Suc n)) AllocateAddress N (0x10000000000000 + P) (Some S) s =
      Some ((EFI_SUCCESS, Some S), s') \<and> settled env s' \<and> retyped S (push_bit 12 P) N At s s'"
proof -
  let ?Q = "0x10000000000000 + P"
  have Q: "push_bit 12 ?Q = push_bit 12 P" by (simp add: push_bit_add)
  note m = settled_map [OF assms(1)]
  obtain e where e: "e \<in> set (gMemoryMap s)" "EntryType e = EfiConventionalMemory" "EntryStart e \<le> S" "S + push_bit 12 ?Q - 1 \<le> EntryEnd e"
    "S \<le> S + push_bit 12 ?Q" "page_aligned S" using place_entry [OF assms(8) m assms(7,6)] unfolding Q by blast
  have n: "push_bit 12 ?Q \<noteq> 0" unfolding Q by (rule pages_nonzero [OF assms(6,7)])
  have g: "(if AllocateAddress \<noteq> AllocateAddress then FindFreePages env (CoreFreeMemoryMapStack env (Suc n)) (if AllocateAddress = AllocateMaxAddress then S else MAX_ADDRESS) ?Q N EFI_PAGE_SIZE (s\<lparr>gMemoryLock := True\<rparr>)
      else Some (S, s\<lparr>gMemoryLock := True\<rparr>)) = Some (S, s\<lparr>gMemoryLock := True, mDefaultBaseAddress := mDefaultBaseAddress s\<rparr>)" by simp
  from allocate_found [OF assms(1-4) _ assms(5) _ g _ e(1-4,6) n e(5)] e(6) show ?thesis unfolding Q by auto
qed

text \<open>C32. A request at an address that runs past the free memory fails, but not without effect: the free
  pages up to the end of the entry have been given to the caller all the same, and stay allocated.\<close>

theorem AllocatePages_partial:
  assumes "settled env s" "\<not> gMemoryLock s" "2 \<le> mFreeMemoryMapEntryList s" "N \<noteq> EfiConventionalMemory"
    and "\<not> (EfiMaxMemoryType \<le> N \<and> N \<le> 0x7fffffff)" "push_bit 12 P \<noteq> 0" "S \<le> S + push_bit 12 P" "page_aligned S"
    and "e \<in> set (gMemoryMap s)" "EntryType e = EfiConventionalMemory" "EntryStart e \<le> S" "S < EntryEnd e"
    and "EntryEnd e + 1 < S + push_bit 12 P" "\<forall>A. \<not> owns s (EntryEnd e + 1) EfiConventionalMemory A"
  shows "\<exists>s'. CoreAllocatePages env (CoreFreeMemoryMapStack env (Suc n)) AllocateAddress N P (Some S) s = Some ((EFI_NOT_FOUND, Some S), s') \<and>
    settled env s' \<and> retyped S (EntryEnd e + 1 - S) N (EntryAttribute e) s s'"
proof -
  let ?s = "s\<lparr>gMemoryLock := True\<rparr>" and ?free = "CoreFreeMemoryMapStack env (Suc n)"
  have st: "settled env ?s" "gMemoryLock ?s" "e \<in> set (gMemoryMap ?s)" "2 \<le> mFreeMemoryMapEntryList ?s" using assms(1,3,9) by simp_all
  have ty: "(N = EfiConventionalMemory) \<noteq> (EntryType e = EfiConventionalMemory)" using assms(4,10) by simp
  have "\<forall>T A. owns ?s (EntryEnd e + 1) T A \<longrightarrow> (N = EfiConventionalMemory) = (T = EfiConventionalMemory)"
    using assms(4,14) by auto
  from ConvertPages_partial [OF st(1-3) assms(11,12) ty assms(8,6,7) st(4) assms(13) this, of n] obtain s1 where
    s1: "CoreConvertPages env ?free S P N ?s = Some (EFI_NOT_FOUND, s1)" "settled env s1" "same_outside_map ?s s1"
      "\<And>a T A. owns s1 a T A \<longleftrightarrow> (if in_range S (EntryEnd e) a then T = N \<and> A = EntryAttribute e else owns s a T A)" by auto
  have "CoreReleaseMemoryLock s1 = Some (s1\<lparr>gMemoryLock := False\<rparr>)"
    using s1(3) by (simp add: CoreReleaseMemoryLock_def same_outside_map_def)
  then have "CoreAllocatePages env ?free AllocateAddress N P (Some S) s = Some ((EFI_NOT_FOUND, Some S), s1\<lparr>gMemoryLock := False\<rparr>)"
    using assms(2,4,5,8) s1(1) round_one_page [of N P]
    by (auto simp: CoreAllocatePages_def allocate_locked_def CoreAcquireMemoryLock_def page_aligned_def Let_def)
  moreover have "EntryEnd e \<noteq> MAX_ADDRESS" using settled_map [OF assms(1)] assms(9) by (auto simp: map_ok_def entry_ok_def)
  then have "in_range S (EntryEnd e) a \<longleftrightarrow> S \<le> a \<and> a < S + (EntryEnd e + 1 - S)" for a
    using succ_le(2) [of "EntryEnd e" a] by (simp add: in_range_def)
  ultimately show ?thesis using s1(2,4) by (intro exI [of _ "s1\<lparr>gMemoryLock := False\<rparr>"]) (simp add: retyped_def)
qed

end
