(* ===== verification/PagesMapView.thy ===== *)
theory PagesMapView
  imports PagesMap
begin

text \<open>
  What \<open>CoreGetMemoryMap\<close> reports: merging descriptors neither loses nor invents memory, and the
  descriptors fit the buffer.
\<close>

definition desc_at :: "efi_descriptor \<Rightarrow> u64 \<Rightarrow> bool" where
  "desc_at d a \<longleftrightarrow> unat (PhysicalStart d) \<le> unat a \<and> unat a < unat (PhysicalStart d) + unat (DescPages d) * 4096"

definition desc_ok :: "efi_descriptor \<Rightarrow> bool" where
  "desc_ok d \<longleftrightarrow> unat (PhysicalStart d) + unat (DescPages d) * 4096 < 2 ^ 64"

definition reported :: "efi_descriptor list \<Rightarrow> u64 \<Rightarrow> u32 \<Rightarrow> u64 \<Rightarrow> bool" where
  "reported l a T A \<longleftrightarrow> (\<exists>d\<in>set l. desc_at d a \<and> DescType d = T \<and> DescAttribute d = A)"

lemma reported_simps [simp]:
  "\<not> reported [] a T A"
  "reported (d # l) a T A \<longleftrightarrow> desc_at d a \<and> DescType d = T \<and> DescAttribute d = A \<or> reported l a T A"
  by (auto simp: reported_def)

lemma desc_bytes:
  assumes "desc_ok d"
  shows "unat (EFI_PAGES_TO_SIZE (DescPages d)) = unat (DescPages d) * 4096"
    "unat (PhysicalStart d + EFI_PAGES_TO_SIZE (DescPages d)) = unat (PhysicalStart d) + unat (DescPages d) * 4096"
proof -
  have "unat (DescPages d) < 2 ^ 52" using assms by (simp add: desc_ok_def)
  then show b: "unat (EFI_PAGES_TO_SIZE (DescPages d)) = unat (DescPages d) * 4096" by (simp only: EFI_PAGES_TO_SIZE_def pages_bytes)
  show "unat (PhysicalStart d + EFI_PAGES_TO_SIZE (DescPages d)) = unat (PhysicalStart d) + unat (DescPages d) * 4096"
    using assms b by (simp add: unat_word_ariths(1) desc_ok_def)
qed

text \<open>Two adjoining descriptors, the second above the first.\<close>

lemma joined:
  assumes "desc_ok m" "desc_ok d" "PhysicalStart m + EFI_PAGES_TO_SIZE (DescPages m) = PhysicalStart d"
    and "PhysicalStart x = PhysicalStart m" "DescPages x = DescPages m + DescPages d"
  shows "desc_ok x" "desc_at x a \<longleftrightarrow> desc_at m a \<or> desc_at d a"
proof -
  have p: "unat (PhysicalStart m) + unat (DescPages m) * 4096 = unat (PhysicalStart d)" using desc_bytes(2) [OF assms(1)] assms(3) by simp
  have s: "unat (PhysicalStart d) + unat (DescPages d) * 4096 < 2 ^ 64" using assms(2) by (simp add: desc_ok_def)
  then have n: "unat (DescPages x) = unat (DescPages m) + unat (DescPages d)" using p assms(5) by (simp add: unat_word_ariths(1))
  show "desc_ok x" using p s n assms(4) by (simp add: desc_ok_def algebra_simps)
  show "desc_at x a \<longleftrightarrow> desc_at m a \<or> desc_at d a" using p n assms(4) unfolding desc_at_def assms(4) n by (auto simp: algebra_simps)
qed

lemma below_adjoins:
  assumes "desc_ok d" "PhysicalStart m - EFI_PAGES_TO_SIZE (DescPages d) = PhysicalStart d"
  shows "PhysicalStart d + EFI_PAGES_TO_SIZE (DescPages d) = PhysicalStart m"
  using assms(2) by (metis diff_add_cancel)

lemma Merge_reported:
  assumes "\<forall>m\<in>set l. desc_ok m" "desc_ok d"
  shows "(\<forall>m\<in>set (MergeMemoryMapDescriptor l d). desc_ok m) \<and>
    (reported (MergeMemoryMapDescriptor l d) a T A \<longleftrightarrow> reported l a T A \<or> desc_at d a \<and> DescType d = T \<and> DescAttribute d = A) \<and>
    length (MergeMemoryMapDescriptor l d) \<le> Suc (length l)"
  using assms(1)
proof (induction l)
  case (Cons m l)
  have m: "desc_ok m" using Cons.prems by simp
  show ?case
  proof (cases "DescType m \<noteq> DescType d \<or> DescAttribute m \<noteq> DescAttribute d")
    case True
    then show ?thesis using Cons by auto
  next
    case False
    consider (above) "PhysicalStart m + EFI_PAGES_TO_SIZE (DescPages m) = PhysicalStart d"
      | (below) "PhysicalStart m + EFI_PAGES_TO_SIZE (DescPages m) \<noteq> PhysicalStart d" "PhysicalStart m - EFI_PAGES_TO_SIZE (DescPages d) = PhysicalStart d"
      | (none) "PhysicalStart m + EFI_PAGES_TO_SIZE (DescPages m) \<noteq> PhysicalStart d" "PhysicalStart m - EFI_PAGES_TO_SIZE (DescPages d) \<noteq> PhysicalStart d" by blast
    then show ?thesis
    proof cases
      case above
      let ?x = "m\<lparr>DescPages := DescPages m + DescPages d\<rparr>"
      have "desc_ok ?x" "desc_at ?x a \<longleftrightarrow> desc_at m a \<or> desc_at d a" using joined [OF m assms(2) above, of ?x] by simp_all
      then show ?thesis using above False Cons.prems by auto
    next
      case below
      let ?x = "m\<lparr>PhysicalStart := PhysicalStart d, VirtualStart := VirtualStart d, DescPages := DescPages m + DescPages d\<rparr>"
      have "desc_ok ?x" "desc_at ?x a \<longleftrightarrow> desc_at d a \<or> desc_at m a"
        using joined [OF assms(2) m below_adjoins [OF assms(2) below(2)], of ?x] by (simp_all add: add.commute)
      then show ?thesis using below False Cons.prems by auto
    next
      case none
      then show ?thesis using False Cons by auto
    qed
  qed
qed (use assms(2) in simp)

lemma fold_Merge_reported:
  assumes "\<forall>d\<in>set ds. desc_ok d" "\<forall>m\<in>set l. desc_ok m"
  shows "reported (fold (\<lambda>d l. MergeMemoryMapDescriptor l d) ds l) a T A \<longleftrightarrow> reported l a T A \<or> reported ds a T A"
    "length (fold (\<lambda>d l. MergeMemoryMapDescriptor l d) ds l) \<le> length l + length ds"
proof -
  have "(reported (fold (\<lambda>d l. MergeMemoryMapDescriptor l d) ds l) a T A \<longleftrightarrow> reported l a T A \<or> reported ds a T A) \<and>
    length (fold (\<lambda>d l. MergeMemoryMapDescriptor l d) ds l) \<le> length l + length ds"
    using assms
  proof (induction ds arbitrary: l)
    case (Cons d ds)
    note m = Merge_reported [of l d a T A]
    show ?case using Cons.IH [of "MergeMemoryMapDescriptor l d"] Cons.prems m by auto
  qed simp
  then show "reported (fold (\<lambda>d l. MergeMemoryMapDescriptor l d) ds l) a T A \<longleftrightarrow> reported l a T A \<or> reported ds a T A"
    "length (fold (\<lambda>d l. MergeMemoryMapDescriptor l d) ds l) \<le> length l + length ds" by blast+
qed

text \<open>A descriptor made from whole pages \<open>[S, E]\<close>.\<close>

lemma whole_pages:
  assumes "page_aligned S" "page_aligned (E + 1)" "S < E" "E \<noteq> MAX_ADDRESS"
    and "PhysicalStart d = S" "DescPages d = drop_bit 12 (E - S + 1)"
  shows "desc_ok d" "desc_at d a \<longleftrightarrow> in_range S E a"
proof -
  have e: "E - S + 1 = (E + 1) - S" by simp
  have "S \<le> E + 1" using assms(3) succ_le(2) [OF assms(4), of S] by auto
  then have u: "unat (E - S + 1) = unat E + 1 - unat S" unfolding e using unat_succ [OF assms(4)] by (simp add: unat_sub)
  have "4096 dvd unat E + 1" "4096 dvd unat S" using assms(1,2) unat_succ [OF assms(4)] by (simp_all add: page_aligned_dvd)
  then have "4096 dvd unat E + 1 - unat S" by (simp add: dvd_diff_nat)
  moreover have "unat (drop_bit 12 (E - S + 1)) = (unat E + 1 - unat S) div 4096"
  proof -
    have "unat (drop_bit 12 (E - S + 1)) = drop_bit 12 (unat (E - S + 1))" by (rule unat_drop_bit_eq)
    then show ?thesis unfolding u by (simp only: drop_bit_eq_div [of 12 "unat E + 1 - unat S"]) simp
  qed
  ultimately have p: "unat (DescPages d) * 4096 = unat E + 1 - unat S" unfolding assms(6) by simp
  have l: "unat S < unat E" using assms(3) by (simp add: word_less_nat_alt)
  have "unat (E + 1) < 2 ^ 64" using unsigned_less [of "E + 1"] by simp
  then show "desc_ok d" using p l unat_succ [OF assms(4)] unfolding desc_ok_def assms(5) by simp
  show "desc_at d a \<longleftrightarrow> in_range S E a" using p l unfolding desc_at_def assms(5) in_range_def word_le_nat_alt by auto
qed

definition gcd_range_ok :: "gcd_entry \<Rightarrow> bool" where
  "gcd_range_ok g \<longleftrightarrow> page_aligned (GcdBase g) \<and> page_aligned (GcdEnd g + 1) \<and> GcdBase g < GcdEnd g \<and> GcdEnd g \<noteq> MAX_ADDRESS"

text \<open>C24. The memory map that is returned describes the memory exactly: an address is reported with a
  type and attribute just when an entry of the map, or a reserved or memory-mapped range kept for
  runtime, says so; the key is the current one, the descriptors fit the buffer, and nothing changes.\<close>

theorem GetMemoryMap_reports:
  assumes "map_ok d (gMemoryMap s)" "\<forall>g\<in>set (mGcdMemorySpaceMap s). runtime_entry g \<longrightarrow> gcd_range_ok g"
    and "length (gMemoryMap s) + length (mGcdMemorySpaceMap s) < 2 ^ 48"
    and "CoreGetMemoryMap (Some Size) True s = Some (r, s')" "MapStatus r = EFI_SUCCESS"
  shows "s' = s \<and> MapKey r = Some (mMemoryMapKey s) \<and> length (MapDescriptors r) * 48 \<le> unat Size \<and>
    (\<forall>a T A. reported (MapDescriptors r) a T A \<longleftrightarrow>
       (\<exists>e\<in>set (gMemoryMap s). covers e a \<and> T = reported_type (mMemoryTypeStatistics s) e \<and>
           A = DescAttribute (entry_descriptor (mMemoryTypeStatistics s) e)) \<or>
       (\<exists>g\<in>set (mGcdMemorySpaceMap s). runtime_entry g \<and> in_range (GcdBase g) (GcdEnd g) a \<and>
           T = DescType (gcd_descriptor g) \<and> A = DescAttribute (gcd_descriptor g)))"
proof -
  let ?rt = "filter runtime_entry (mGcdMemorySpaceMap s)" and ?st = "mMemoryTypeStatistics s"
  let ?ds = "map (entry_descriptor ?st) (gMemoryMap s) @ map gcd_descriptor ?rt"
  let ?b = "DESCRIPTOR_SIZE * of_nat (length ?rt) + DESCRIPTOR_SIZE * of_nat (length (gMemoryMap s))"
  have l: "\<not> gMemoryLock s" "\<not> mGcdMemorySpaceLock s"
    and r: "\<not> Size < ?b" "r = \<lparr>MapStatus = EFI_SUCCESS, MapSize = Some (DESCRIPTOR_SIZE * of_nat (length (fold (\<lambda>d l. MergeMemoryMapDescriptor l d) ?ds []))),
        MapDescriptors = fold (\<lambda>d l. MergeMemoryMapDescriptor l d) ?ds [], MapKey = Some (mMemoryMapKey s)\<rparr>" "s' = s"
    using assms(4,5) by (auto simp: CoreGetMemoryMap_def CoreAcquireGcdMemoryLock_def CoreAcquireMemoryLock_def CoreReleaseMemoryLock_def
        CoreReleaseGcdMemoryLock_def Let_def split: if_splits)
  have e: "desc_ok (entry_descriptor ?st e)" "desc_at (entry_descriptor ?st e) a \<longleftrightarrow> covers e a" if "e \<in> set (gMemoryMap s)" for e a
    using that assms(1) whole_pages [of "EntryStart e" "EntryEnd e" "entry_descriptor ?st e"]
    by (auto simp: map_ok_def entry_ok_def entry_descriptor_def Let_def covers_def in_range_def)
  have g: "desc_ok (gcd_descriptor g)" "desc_at (gcd_descriptor g) a \<longleftrightarrow> in_range (GcdBase g) (GcdEnd g) a" if "g \<in> set ?rt" for g a
    using that assms(2) whole_pages [of "GcdBase g" "GcdEnd g" "gcd_descriptor g"] by (auto simp: gcd_range_ok_def gcd_descriptor_def)
  have o: "\<forall>d\<in>set ?ds. desc_ok d" using e(1) g(1) by auto
  note f = fold_Merge_reported [OF o, of "[]"]
  have t: "DescType (entry_descriptor ?st e) = reported_type ?st e" for e by (simp add: entry_descriptor_def Let_def)
  have rep: "reported (MapDescriptors r) a T A \<longleftrightarrow>
       (\<exists>e\<in>set (gMemoryMap s). covers e a \<and> T = reported_type ?st e \<and> A = DescAttribute (entry_descriptor ?st e)) \<or>
       (\<exists>g\<in>set (mGcdMemorySpaceMap s). runtime_entry g \<and> in_range (GcdBase g) (GcdEnd g) a \<and>
           T = DescType (gcd_descriptor g) \<and> A = DescAttribute (gcd_descriptor g))" for a T A
  proof -
    have "reported (MapDescriptors r) a T A \<longleftrightarrow> (\<exists>d\<in>set ?ds. desc_at d a \<and> DescType d = T \<and> DescAttribute d = A)"
      using f(1) r(2) by (simp add: reported_def)
    also have "\<dots> \<longleftrightarrow> (\<exists>e\<in>set (gMemoryMap s). covers e a \<and> T = reported_type ?st e \<and> A = DescAttribute (entry_descriptor ?st e)) \<or>
        (\<exists>g\<in>set ?rt. in_range (GcdBase g) (GcdEnd g) a \<and> T = DescType (gcd_descriptor g) \<and> A = DescAttribute (gcd_descriptor g))"
      unfolding set_append bex_Un set_map bex_simps(7) using e(2) g(2) t by (intro arg_cong2 [where f = "(\<or>)"] bex_cong) auto
    finally show ?thesis by auto
  qed
  have "length ?ds = length (gMemoryMap s) + length ?rt" by simp
  then have "length ?ds < 2 ^ 48" using assms(3) length_filter_le [of runtime_entry "mGcdMemorySpaceMap s"] by linarith
  moreover have "unat ?b = 48 * length ?ds"
  proof -
    have "?b = of_nat (48 * length ?ds)" by (simp add: algebra_simps)
    then show ?thesis using \<open>length ?ds < 2 ^ 48\<close> by (simp only: unat_of_nat) simp
  qed
  moreover have "unat ?b \<le> unat Size" using r(1) by (simp add: word_le_nat_alt not_less)
  moreover have "length (MapDescriptors r) \<le> length ?ds" using f(2) r(2) by simp
  ultimately have "length (MapDescriptors r) * 48 \<le> unat Size" by linarith
  then show ?thesis using rep r(2,3) by simp
qed

end
