(* ===== verification/PagesExamples.thy ===== *)
theory PagesExamples
  imports PagesSpec PagesMapView
begin

text \<open>
  A small memory, on which the properties of the page allocator are applied: two free pages and
  one page in use, with four free descriptors.
\<close>

definition demo_env :: "unit mem_env" where
  "demo_env = \<lparr>NotifyMapChange = Some, ZeroFirstPage = id, DebugClearMemory = (\<lambda>S B. id), gDxeCoreImageHandle = 1, PcdLoadModuleAtFixAddressEnable = 0,
     PcdLoadFixAddressRuntimeCodePageNumber = 0, PcdLoadFixAddressBootTimeCodePageNumber = 0, DxeCodeTopAddress = 0\<rparr>"

definition demo_entry :: "u32 \<Rightarrow> u64 \<Rightarrow> u64 \<Rightarrow> map_entry" where
  "demo_entry T S E = \<lparr>FromPages = True, MapSlot = 0, EntryType = T, EntryStart = S, EntryEnd = E, EntryAttribute = 0xF\<rparr>"

definition demo_mem :: "unit mem" where
  "demo_mem = \<lparr>gMemoryMap = [demo_entry EfiConventionalMemory 0x1000 0x2FFF, demo_entry EfiBootServicesData 0x3000 0x3FFF],
     mMemoryMapKey = 0, mMapDepth = 0, mFreeMapStack = 0, mFreeMemoryMapEntryList = 4, mMemoryTypeInformationInitialized = False,
     mMemoryTypeStatistics = (\<lambda>_. \<lparr>BaseAddress = 0, MaximumAddress = MAX_ADDRESS, CurrentNumberOfPages = 0, StatPages = 0,
        InformationIndex = 14, Special = False, Runtime = False\<rparr>),
     gMemoryTypeInformation = (\<lambda>_. \<lparr>InfoType = 14, InfoPages = 0\<rparr>), mDefaultMaximumAddress = MAX_ADDRESS, mDefaultBaseAddress = MAX_ADDRESS,
     mGcdMemorySpaceMap = [], gMemoryLock = False, mGcdMemorySpaceLock = False, gLoadFixedAddressCodeMemoryReady = False, Others = ()\<rparr>"

lemma demo_map_ok: "map_ok 0 (gMemoryMap demo_mem)"
  by (simp add: map_ok_def demo_mem_def demo_entry_def entry_ok_def apart_def page_aligned_def)

lemma demo_settled: "settled demo_env demo_mem" "mem_ok demo_mem"
  using demo_map_ok by (simp_all add: settled_def mem_ok_def reserve_ok_def) (simp_all add: demo_mem_def demo_env_def)

lemma demo_fields: "\<not> gMemoryLock demo_mem" "mFreeMemoryMapEntryList demo_mem = 4" "mMemoryMapKey demo_mem = 0"
  by (simp_all add: demo_mem_def)

lemma demo_place: "place (gMemoryMap demo_mem) MAX_ADDRESS 0 2 0x1000" "place (gMemoryMap demo_mem) MAX_ADDRESS 0 1 0x1000"
  by (simp_all add: place_def demo_mem_def demo_entry_def page_aligned_def)

theorem AllocatePages_safe_witness:
  "\<exists>s'. CoreAllocatePages demo_env (CoreFreeMemoryMapStack demo_env 1) AllocateMaxAddress 3 1 (Some 0x2FFF) demo_mem =
     Some ((EFI_SUCCESS, Some 0x2000), s') \<and> mem_ok s' \<and> keeps_allocated demo_mem s'"
proof -
  have "map_option fst (CoreAllocatePages demo_env (CoreFreeMemoryMapStack demo_env 1) AllocateMaxAddress 3 1 (Some 0x2FFF) demo_mem) =
    Some (EFI_SUCCESS, Some 0x2000)" by code_simp
  then obtain s' where s': "CoreAllocatePages demo_env (CoreFreeMemoryMapStack demo_env 1) AllocateMaxAddress 3 1 (Some 0x2FFF) demo_mem =
    Some ((EFI_SUCCESS, Some 0x2000), s')" by auto
  then show ?thesis using AllocatePages_safe [OF demo_settled(2) s'] by simp
qed

theorem FreePages_frees_witness:
  "\<exists>s'. CoreFreePages demo_env (CoreFreeMemoryMapStack demo_env 1) 0x3000 1 demo_mem = Some (EFI_SUCCESS, s') \<and> mem_ok s' \<and>
     (\<forall>a. 0x3000 \<le> a \<and> a < 0x4000 \<longrightarrow> (\<exists>A. stays s' a EfiConventionalMemory A))"
proof -
  have "map_option fst (CoreFreePages demo_env (CoreFreeMemoryMapStack demo_env 1) 0x3000 1 demo_mem) = Some EFI_SUCCESS" by code_simp
  then obtain s' where s': "CoreFreePages demo_env (CoreFreeMemoryMapStack demo_env 1) 0x3000 1 demo_mem = Some (EFI_SUCCESS, s')" by auto
  then show ?thesis using FreePages_frees [OF demo_settled(2) s'] by simp
qed

theorem FindFreePagesI_correct_witness:
  "place (gMemoryMap demo_mem) MAX_ADDRESS 0 1 (CoreFindFreePagesI (gMemoryMap demo_mem) MAX_ADDRESS 0 1 EFI_PAGE_SIZE) \<and>
   CoreFindFreePagesI (gMemoryMap demo_mem) MAX_ADDRESS 0 1 EFI_PAGE_SIZE = 0x2000"
proof -
  have "CoreFindFreePagesI (gMemoryMap demo_mem) MAX_ADDRESS 0 1 EFI_PAGE_SIZE = 0x2000" by code_simp
  then show ?thesis using FindFreePagesI_correct [OF demo_map_ok, of 1 MAX_ADDRESS 0] by simp
qed

theorem AllocatePages_succeeds_witness:
  "\<exists>S At s'. CoreAllocatePages demo_env (CoreFreeMemoryMapStack demo_env (Suc 0)) AllocateAnyPages 3 2 (Some 0) demo_mem = Some ((EFI_SUCCESS, Some S), s') \<and>
     place (gMemoryMap demo_mem) MAX_ADDRESS 0 2 S \<and> retyped S 0x2000 3 At demo_mem s'"
  using AllocatePages_succeeds [OF demo_settled(1) demo_fields(1) _ _ _ _ _ demo_place(1), where N = 3 and n = 0 and M = 0] demo_fields(2) by auto

theorem allocate_free_roundtrip_witness:
  "\<exists>s1 s2. CoreAllocatePages demo_env (CoreFreeMemoryMapStack demo_env (Suc 0)) AllocateAddress 3 1 (Some 0x1000) demo_mem = Some ((EFI_SUCCESS, Some 0x1000), s1) \<and>
     CoreFreePages demo_env (CoreFreeMemoryMapStack demo_env (Suc 0)) 0x1000 1 s1 = Some (EFI_SUCCESS, s2) \<and> owns s2 = owns demo_mem"
  using allocate_free_roundtrip [OF demo_settled(1) demo_fields(1) _ _ _ _ _ demo_place(2), where N = 3 and n = 0] demo_fields(2) by auto

theorem AllocatePages_truncates_witness:
  "\<exists>At s'. CoreAllocatePages demo_env (CoreFreeMemoryMapStack demo_env (Suc 0)) AllocateAddress 3 (0x10000000000000 + 1) (Some 0x1000) demo_mem =
     Some ((EFI_SUCCESS, Some 0x1000), s') \<and> retyped 0x1000 (push_bit 12 1) 3 At demo_mem s'"
  using AllocatePages_truncates [OF demo_settled(1) demo_fields(1) _ _ _ _ _ demo_place(2), where N = 3 and n = 0] demo_fields(2) by auto

theorem AllocatePages_partial_witness:
  "\<exists>s'. CoreAllocatePages demo_env (CoreFreeMemoryMapStack demo_env (Suc 0)) AllocateAddress 3 3 (Some 0x1000) demo_mem =
     Some ((EFI_NOT_FOUND, Some 0x1000), s') \<and> retyped 0x1000 0x2000 3 0xF demo_mem s'"
proof -
  let ?e = "demo_entry EfiConventionalMemory 0x1000 0x2FFF"
  have "?e \<in> set (gMemoryMap demo_mem)" "EntryType ?e = EfiConventionalMemory" "EntryStart ?e \<le> 0x1000" "0x1000 < EntryEnd ?e"
    "EntryEnd ?e + 1 < 0x1000 + push_bit 12 3" "\<forall>A. \<not> owns demo_mem (EntryEnd ?e + 1) EfiConventionalMemory A"
    by (simp_all add: demo_mem_def demo_entry_def owned_def covers_def)
  from AllocatePages_partial [OF demo_settled(1) demo_fields(1) _ _ _ _ _ _ this, where N = 3 and n = 0] show ?thesis
    using demo_fields(2) by (auto simp: demo_entry_def page_aligned_def)
qed

theorem GetMemoryMap_reports_witness:
  "\<exists>r. CoreGetMemoryMap (Some 0x1000) True demo_mem = Some (r, demo_mem) \<and> MapStatus r = EFI_SUCCESS \<and> MapKey r = Some 0 \<and>
     reported (MapDescriptors r) 0x3800 EfiBootServicesData 0xF"
proof -
  have "map_option (\<lambda>r. MapStatus (fst r)) (CoreGetMemoryMap (Some 0x1000) True demo_mem) = Some EFI_SUCCESS" by code_simp
  then obtain r s' where r: "CoreGetMemoryMap (Some 0x1000) True demo_mem = Some (r, s')" "MapStatus r = EFI_SUCCESS" by auto
  have d: "\<forall>g\<in>set (mGcdMemorySpaceMap demo_mem). runtime_entry g \<longrightarrow> gcd_range_ok g"
    "length (gMemoryMap demo_mem) + length (mGcdMemorySpaceMap demo_mem) < 2 ^ 48" by (simp_all add: demo_mem_def)
  let ?e = "demo_entry EfiBootServicesData 0x3000 0x3FFF"
  have e: "?e \<in> set (gMemoryMap demo_mem)" "covers ?e 0x3800" "EfiBootServicesData = reported_type (mMemoryTypeStatistics demo_mem) ?e"
    "0xF = DescAttribute (entry_descriptor (mMemoryTypeStatistics demo_mem) ?e)"
    by (simp_all add: demo_mem_def demo_entry_def covers_def reported_type_def entry_descriptor_def)
  note g = GetMemoryMap_reports [OF demo_map_ok d r]
  then have "reported (MapDescriptors r) 0x3800 EfiBootServicesData 0xF" using e by blast
  then show ?thesis using g r demo_fields(3) by simp
qed

end
