(* ===== verification/Pool.thy ===== *)
theory Pool
  imports Pages
begin

text \<open>
  The pool allocator of the DXE core, \<open>MdeModulePkg/Core/Dxe/Mem/Pool.c\<close>, on the page allocator of \<open>Pages\<close>.

  A pool is known by its memory type: \<open>mPoolHead\<close> has one for each type of the specification, \<open>mPoolHeadList\<close> those of
  the types of operating systems, each with the address of its \<open>POOL\<close> structure, which is itself in
  a buffer of the pool.  What the code writes into the memory it manages is kept by address:
  \<open>Blocks\<close> has the \<open>POOL_FREE\<close> and \<open>POOL_HEAD\<close> structures, told apart by their signatures, and
  \<open>Tails\<close> the \<open>POOL_TAIL\<close>s; clients write inside their buffers only.  A free list is the list of the addresses
  on it, in link order.
\<close>

section \<open>State\<close>

datatype pool_block = POOL_FREE nat | POOL_HEAD u32 u64

fun is_free :: "pool_block option \<Rightarrow> bool" where
  "is_free (Some (POOL_FREE _)) \<longleftrightarrow> True"
| "is_free _ \<longleftrightarrow> False"

lemma is_free_iff: "is_free x \<longleftrightarrow> (\<exists>i. x = Some (POOL_FREE i))"
  by (cases x rule: is_free.cases) simp_all

record pool =
  Used :: u64
  FreeList :: "nat \<Rightarrow> u64 list"

record 'e pools =
  PageState :: "'e mem"
  Blocks :: "u64 \<Rightarrow> pool_block option"
  Tails :: "u64 \<Rightarrow> u64 option"
  mPoolHead :: "nat \<Rightarrow> pool"
  mPoolHeadList :: "(u32 \<times> u64 \<times> pool) list"

record 'e pool_env =
  PagesEnv :: "'e mem_env"
  DebugClearMemoryEnabled :: bool

text \<open>\<open>SIZE_OF_POOL_HEAD\<close>, \<open>sizeof (POOL_TAIL)\<close> and \<open>sizeof (POOL)\<close> on X64.\<close>

abbreviation SIZE_OF_POOL_HEAD :: u64 where "SIZE_OF_POOL_HEAD \<equiv> 24"
abbreviation SIZE_OF_POOL_TAIL :: u64 where "SIZE_OF_POOL_TAIL \<equiv> 16"
abbreviation SIZE_OF_POOL :: u64 where "SIZE_OF_POOL \<equiv> 552"
abbreviation POOL_OVERHEAD :: u64 where "POOL_OVERHEAD \<equiv> 40"
abbreviation MAX_POOL_LIST :: nat where "MAX_POOL_LIST \<equiv> 32"
abbreviation MAX_POOL_SIZE :: u64 where "MAX_POOL_SIZE \<equiv> MAX_ADDRESS - POOL_OVERHEAD"

definition SIZE_TO_LIST :: "u64 \<Rightarrow> u64" where
  "SIZE_TO_LIST a = drop_bit 7 a"

definition LIST_TO_SIZE :: "nat \<Rightarrow> nat" where
  "LIST_TO_SIZE a = (a + 1) * 2 ^ 7"

definition ALIGN_VARIABLE :: "u64 \<Rightarrow> u64" where
  "ALIGN_VARIABLE Value = Value + ((8 - Value) AND 7)"

definition DebugClearBlocks :: "'e pool_env \<Rightarrow> u64 \<Rightarrow> u64 \<Rightarrow> 'e pools \<Rightarrow> 'e pools" where
  "DebugClearBlocks env Address Length st =
     (if DebugClearMemoryEnabled env then
        st\<lparr>PageState := (PageState st)\<lparr>Others := DebugClearMemory (PagesEnv env) Address Length (Others (PageState st))\<rparr>,
           Blocks := (\<lambda>a. if a - Address < Length then None else Blocks st a),
           Tails := (\<lambda>a. if a - Address < Length then None else Tails st a)\<rparr>
      else st)"

definition empty_pool :: pool where
  "empty_pool = \<lparr>Used = 0, FreeList = (\<lambda>_. [])\<rparr>"

definition CoreInitializePool :: "'e pools \<Rightarrow> 'e pools" where
  "CoreInitializePool st = st\<lparr>mPoolHead := (\<lambda>Type. if Type < 14 then empty_pool else mPoolHead st Type)\<rparr>"

text \<open>The pool of a memory type, and writing to it.\<close>

definition pool_of :: "'e pools \<Rightarrow> u32 \<Rightarrow> pool option" where
  "pool_of st MemoryType =
     (if MemoryType < EfiMaxMemoryType then Some (mPoolHead st (unat MemoryType))
      else map_option snd (map_of (mPoolHeadList st) MemoryType))"

fun put_listed :: "u32 \<Rightarrow> (pool \<Rightarrow> pool) \<Rightarrow> (u32 \<times> u64 \<times> pool) list \<Rightarrow> (u32 \<times> u64 \<times> pool) list" where
  "put_listed T f [] = []"
| "put_listed T f ((U, a, p) # l) = (if U = T then (U, a, f p) # l else (U, a, p) # put_listed T f l)"

definition put_pool :: "u32 \<Rightarrow> (pool \<Rightarrow> pool) \<Rightarrow> 'e pools \<Rightarrow> 'e pools" where
  "put_pool T f st =
     (if T < EfiMaxMemoryType then st\<lparr>mPoolHead := (mPoolHead st)(unat T := f (mPoolHead st (unat T)))\<rparr>
      else st\<lparr>mPoolHeadList := put_listed T f (mPoolHeadList st)\<rparr>)"

text \<open>\<open>RemoveEntryList\<close> on the link of the block at \<open>a\<close>, whichever list it is on.\<close>

definition unlink_block :: "u64 \<Rightarrow> 'e pools \<Rightarrow> 'e pools" where
  "unlink_block a st =
     (let f = (\<lambda>p. p\<lparr>FreeList := \<lambda>i. removeAll a (FreeList p i)\<rparr>)
      in st\<lparr>mPoolHead := f \<circ> mPoolHead st, mPoolHeadList := map (\<lambda>(T, s, p). (T, s, f p)) (mPoolHeadList st)\<rparr>)"

section \<open>Allocating\<close>

text \<open>The pool of a type; \<open>alloc\<close> is the call of \<open>CoreAllocatePoolI\<close> for a new \<open>POOL\<close> structure.\<close>

definition LookupPoolHead :: "('e pools \<Rightarrow> (u64 \<times> 'e pools) option) \<Rightarrow> u32 \<Rightarrow> 'e pools \<Rightarrow> (bool \<times> 'e pools) option" where
  "LookupPoolHead alloc MemoryType st =
     (if MemoryType < EfiMaxMemoryType then Some (True, st)
      else if MemoryType \<ge> 0x80000000 then
        (if \<exists>x\<in>set (mPoolHeadList st). fst x = MemoryType then Some (True, st)
         else do {
           (Pool, st) \<leftarrow> alloc st;
           if Pool = 0 then Some (False, st)
           else Some (True, st\<lparr>mPoolHeadList := (MemoryType, Pool, empty_pool) # mPoolHeadList st\<rparr>)
         })
      else Some (False, st))"

text \<open>The blocks of a page, as the nested loops over \<open>Index\<close> and \<open>Offset\<close> visit them: as many as fit of the size of
  the list \<open>Index\<close>, then of the next smaller size.\<close>

function pool_blocks :: "nat \<Rightarrow> nat \<Rightarrow> (nat \<times> nat) list" where
  "pool_blocks Index Offset =
     (if Offset < 4096 then
        (if Offset + LIST_TO_SIZE Index \<le> 4096 then (Offset, Index) # pool_blocks Index (Offset + LIST_TO_SIZE Index)
         else if Index = 0 then [] else pool_blocks (Index - 1) Offset)
      else [])"
  by pat_completeness auto
termination
  by (relation "measure (\<lambda>(Index, Offset). 4096 - Offset + Index)") (auto simp: LIST_TO_SIZE_def)

declare pool_blocks.simps [simp del]

text \<open>Carving up a new page into free blocks.\<close>

fun carve_block :: "u64 \<Rightarrow> u32 \<Rightarrow> nat \<times> nat \<Rightarrow> 'e pools \<Rightarrow> 'e pools" where
  "carve_block NewPage T (Offset, Index) st =
     (let Free = NewPage + of_nat Offset
      in put_pool T (\<lambda>p. p\<lparr>FreeList := (FreeList p)(Index := Free # FreeList p Index)\<rparr>)
           (st\<lparr>Blocks := (Blocks st)(Free \<mapsto> POOL_FREE Index)\<rparr>))"

definition carve_page :: "u64 \<Rightarrow> u32 \<Rightarrow> nat \<Rightarrow> 'e pools \<Rightarrow> 'e pools" where
  "carve_page NewPage T Index st = fold (carve_block NewPage T) (pool_blocks Index 0) st"

definition pool_pages :: "u64 \<Rightarrow> u64" where
  "pool_pages Size = (EFI_SIZE_TO_PAGES Size + EFI_SIZE_TO_PAGES DEFAULT_PAGE_ALLOCATION - 1) AND
     NOT (EFI_SIZE_TO_PAGES DEFAULT_PAGE_ALLOCATION - 1)"

definition AllocatePages :: "'e pool_env \<Rightarrow> 'e free_stack \<Rightarrow> u32 \<Rightarrow> u64 \<Rightarrow> 'e pools \<Rightarrow> (u64 \<times> 'e pools) option" where
  "AllocatePages env free T NoPages st = do {
     (a, s) \<leftarrow> CoreAllocatePoolPages (PagesEnv env) free T NoPages DEFAULT_PAGE_ALLOCATION (PageState st);
     Some (a, st\<lparr>PageState := s\<rparr>)
   }"

text \<open>Taking the first block off a free list.\<close>

definition pop_free :: "u32 \<Rightarrow> nat \<Rightarrow> 'e pools \<Rightarrow> (u64 \<times> 'e pools) option" where
  "pop_free PoolType Index st = do {
     Pool \<leftarrow> pool_of st PoolType;
     case FreeList Pool Index of
       [] \<Rightarrow> None
     | Free # _ \<Rightarrow> do {
         ASSERT (is_free (Blocks st Free));
         Some (Free, unlink_block Free st)
       }
   }"

text \<open>The block for a request: pages for a large one, else the first entry of the free list, which a new page fills when
  it is empty.  The result is zero when there is no memory.\<close>

definition take_block :: "'e pool_env \<Rightarrow> 'e free_stack \<Rightarrow> u32 \<Rightarrow> u64 \<Rightarrow> 'e pools \<Rightarrow> (u64 \<times> 'e pools) option" where
  "take_block env free PoolType Size st =
     (if SIZE_TO_LIST Size \<ge> 32 then AllocatePages env free PoolType (pool_pages Size) st
      else do {
        let Index = unat (SIZE_TO_LIST Size);
        Pool \<leftarrow> pool_of st PoolType;
        (got, st) \<leftarrow>
          (if FreeList Pool Index = [] then do {
             (NewPage, st) \<leftarrow> AllocatePages env free PoolType (EFI_SIZE_TO_PAGES DEFAULT_PAGE_ALLOCATION) st;
             if NewPage = 0 then Some (False, st)
             else Some (True, carve_page NewPage PoolType Index st)
           } else Some (True, st));
        if \<not> got then Some (0, st)
        else pop_free PoolType Index st
      })"

text \<open>Filling in the header and the tail of the buffer at \<open>Head\<close>, and accounting for it.\<close>

definition fill_block :: "'e pool_env \<Rightarrow> u64 \<Rightarrow> u32 \<Rightarrow> u64 \<Rightarrow> 'e pools \<Rightarrow> 'e pools" where
  "fill_block env Head PoolType Size st =
     (let st = st\<lparr>Blocks := (Blocks st)(Head \<mapsto> POOL_HEAD PoolType Size)\<rparr>;
          st = st\<lparr>Tails := (Tails st)(Head + Size - SIZE_OF_POOL_TAIL \<mapsto> Size)\<rparr>;
          Buffer = Head + SIZE_OF_POOL_HEAD;
          st = DebugClearBlocks env Buffer (Size - POOL_OVERHEAD) st
      in put_pool PoolType (\<lambda>p. p\<lparr>Used := Used p + Size\<rparr>) st)"

fun CoreAllocatePoolI :: "'e pool_env \<Rightarrow> 'e free_stack \<Rightarrow> nat \<Rightarrow> u32 \<Rightarrow> u64 \<Rightarrow> 'e pools \<Rightarrow> (u64 \<times> 'e pools) option" where
  "CoreAllocatePoolI env free 0 PoolType Size st = None"
| "CoreAllocatePoolI env free (Suc n) PoolType Size st = do {
     ASSERT (gMemoryLock (PageState st));
     let Size = ALIGN_VARIABLE Size + POOL_OVERHEAD;
     (found, st) \<leftarrow> LookupPoolHead (CoreAllocatePoolI env free n EfiBootServicesData SIZE_OF_POOL) PoolType st;
     if \<not> found then Some (0, st)
     else do {
       (Head, st) \<leftarrow> take_block env free PoolType Size st;
       if Head = 0 then Some (0, st)
       else Some (Head + SIZE_OF_POOL_HEAD, fill_block env Head PoolType Size st)
     }
   }"

text \<open>\<open>Buffer\<close> is whether the pointer is given; the second component is what is stored through it.\<close>

definition CoreAllocatePool ::
  "'e pool_env \<Rightarrow> 'e free_stack \<Rightarrow> nat \<Rightarrow> u32 \<Rightarrow> u64 \<Rightarrow> bool \<Rightarrow> 'e pools \<Rightarrow> ((efi_status \<times> u64 option) \<times> 'e pools) option" where
  "CoreAllocatePool env free n PoolType Size Buffer st =
     (if (PoolType \<ge> EfiMaxMemoryType \<and> PoolType \<le> 0x7fffffff) \<or> PoolType = EfiConventionalMemory
      then Some ((EFI_INVALID_PARAMETER, None), st)
      else if \<not> Buffer then Some ((EFI_INVALID_PARAMETER, None), st)
      else if Size > MAX_POOL_SIZE then Some ((EFI_OUT_OF_RESOURCES, Some 0), st)
      else if gMemoryLock (PageState st) then Some ((EFI_OUT_OF_RESOURCES, Some 0), st)
      else do {
        let st = st\<lparr>PageState := (PageState st)\<lparr>gMemoryLock := True\<rparr>\<rparr>;
        (b, st) \<leftarrow> CoreAllocatePoolI env free n PoolType Size st;
        s \<leftarrow> CoreReleaseMemoryLock (PageState st);
        Some ((if b \<noteq> 0 then EFI_SUCCESS else EFI_OUT_OF_RESOURCES, Some b), st\<lparr>PageState := s\<rparr>)
      })"

section \<open>Freeing\<close>

definition FreePages :: "'e pool_env \<Rightarrow> 'e free_stack \<Rightarrow> u64 \<Rightarrow> u64 \<Rightarrow> 'e pools \<Rightarrow> 'e pools option" where
  "FreePages env free a NoPages st = do {
     s \<leftarrow> CoreFreePoolPages (PagesEnv env) free a NoPages (PageState st);
     Some (st\<lparr>PageState := s\<rparr>)
   }"

text \<open>The page of a block that has been freed: when every block of it is free, they leave their lists and the page is
  given back.\<close>

definition release_page :: "'e pool_env \<Rightarrow> 'e free_stack \<Rightarrow> u64 \<Rightarrow> 'e pools \<Rightarrow> 'e pools option" where
  "release_page env free NewPage st =
     (case Blocks st NewPage of
        Some (POOL_FREE Index) \<Rightarrow>
          if \<forall>(Offset, _)\<in>set (pool_blocks Index 0). is_free (Blocks st (NewPage + of_nat Offset))
          then FreePages env free NewPage (EFI_SIZE_TO_PAGES DEFAULT_PAGE_ALLOCATION)
                 (fold (\<lambda>(Offset, _). unlink_block (NewPage + of_nat Offset)) (pool_blocks Index 0) st)
          else Some st
      | _ \<Rightarrow> Some st)"

text \<open>What happens to the block itself.\<close>

definition give_back :: "'e pool_env \<Rightarrow> 'e free_stack \<Rightarrow> u64 \<Rightarrow> u32 \<Rightarrow> u64 \<Rightarrow> 'e pools \<Rightarrow> 'e pools option" where
  "give_back env free Head T Size st =
     (if SIZE_TO_LIST Size \<ge> 32 then FreePages env free Head (pool_pages Size) st
      else
        let Index = unat (SIZE_TO_LIST Size);
            st = st\<lparr>Blocks := (Blocks st)(Head \<mapsto> POOL_FREE Index)\<rparr>;
            st = put_pool T (\<lambda>p. p\<lparr>FreeList := (FreeList p)(Index := Head # FreeList p Index)\<rparr>) st
        in release_page env free (Head AND NOT (DEFAULT_PAGE_ALLOCATION - 1)) st)"

fun CoreFreePoolI :: "'e pool_env \<Rightarrow> 'e free_stack \<Rightarrow> nat \<Rightarrow> u64 \<Rightarrow> 'e pools \<Rightarrow> (efi_status \<times> 'e pools) option" where
  "CoreFreePoolI env free 0 Buffer st = None"
| "CoreFreePoolI env free (Suc n) Buffer st = do {
     ASSERT (Buffer \<noteq> 0);
     let Head = Buffer - SIZE_OF_POOL_HEAD;
     case Blocks st Head of
       Some (POOL_HEAD T Size) \<Rightarrow> do {
         ASSERT (Head \<noteq> 0);
         ASSERT (Tails st (Head + Size - SIZE_OF_POOL_TAIL) = Some Size);
         ASSERT (gMemoryLock (PageState st));
         (found, st) \<leftarrow> LookupPoolHead (CoreAllocatePoolI env free n EfiBootServicesData SIZE_OF_POOL) T st;
         if \<not> found then Some (EFI_INVALID_PARAMETER, st)
         else do {
           let st = put_pool T (\<lambda>p. p\<lparr>Used := Used p - Size\<rparr>) st;
           let st = DebugClearBlocks env Head Size st;
           st \<leftarrow> give_back env free Head T Size st;
           Pool \<leftarrow> pool_of st T;
           if T \<ge> 0x80000000 \<and> Used Pool = 0 then
             (case List.extract (\<lambda>x. fst x = T) (mPoolHeadList st) of
                Some (pre, (_, a, _), post) \<Rightarrow> do {
                  (_, st) \<leftarrow> CoreFreePoolI env free n a (st\<lparr>mPoolHeadList := pre @ post\<rparr>);
                  Some (EFI_SUCCESS, st)
                }
              | None \<Rightarrow> None)
           else Some (EFI_SUCCESS, st)
         }
       }
     | _ \<Rightarrow> None
   }"

definition CoreFreePool :: "'e pool_env \<Rightarrow> 'e free_stack \<Rightarrow> nat \<Rightarrow> u64 \<Rightarrow> 'e pools \<Rightarrow> (efi_status \<times> 'e pools) option" where
  "CoreFreePool env free n Buffer st =
     (if Buffer = 0 then Some (EFI_INVALID_PARAMETER, st)
      else do {
        s \<leftarrow> CoreAcquireMemoryLock (PageState st);
        (Status, st) \<leftarrow> CoreFreePoolI env free n Buffer (st\<lparr>PageState := s\<rparr>);
        s \<leftarrow> CoreReleaseMemoryLock (PageState st);
        Some (Status, st\<lparr>PageState := s\<rparr>)
      })"

end
