(* ===== verification/PoolPages.thy ===== *)
theory PoolPages
  imports PagesSpec Pool
begin

text \<open>
  The interface between the pool and the pages: what taking pages and giving them back promise.
\<close>

definition holds :: "'e mem \<Rightarrow> u64 \<Rightarrow> u32 \<Rightarrow> bool" where
  "holds s a T \<longleftrightarrow> (\<exists>A. owns s a T A)"

definition in_pages :: "u64 \<Rightarrow> nat \<Rightarrow> u64 \<Rightarrow> bool" where
  "in_pages S n a \<longleftrightarrow> unat S \<le> unat a \<and> unat a < unat S + n * 4096"

definition fresh_pages :: "u64 \<Rightarrow> nat \<Rightarrow> u32 \<Rightarrow> 'e mem \<Rightarrow> 'e mem \<Rightarrow> bool" where
  "fresh_pages S n T s s' \<longleftrightarrow> page_aligned S \<and> unat S + n * 4096 < 2 ^ 64 \<and>
     (\<forall>a. in_pages S n a \<longrightarrow> holds s' a T \<and> (\<forall>U. holds s a U \<longrightarrow> U = EfiConventionalMemory))"

locale page_source =
  fixes env :: "'e pool_env" and free :: "'e free_stack"
  assumes pages_taken:
    "CoreAllocatePoolPages (PagesEnv env) free T P EFI_PAGE_SIZE s = Some (S, s') \<Longrightarrow> mem_ok s \<Longrightarrow>
     T \<noteq> EfiConventionalMemory \<Longrightarrow> P \<noteq> 0 \<Longrightarrow> unat P < 2 ^ 52 \<Longrightarrow>
     mem_ok s' \<and> gMemoryLock s' = gMemoryLock s \<and> keeps_allocated s s' \<and> (S \<noteq> 0 \<longrightarrow> fresh_pages S (unat P) T s s')"
  and pages_returned:
    "CoreFreePoolPages (PagesEnv env) free S P s = Some s' \<Longrightarrow> mem_ok s \<Longrightarrow> unat P < 2 ^ 52 \<Longrightarrow> unat S + unat P * 4096 < 2 ^ 64 \<Longrightarrow>
     mem_ok s' \<and> gMemoryLock s' = gMemoryLock s \<and>
     (\<forall>a T. T \<noteq> EfiConventionalMemory \<longrightarrow> holds s a T \<longrightarrow> \<not> in_pages S (unat P) a \<longrightarrow> holds s' a T)"

section \<open>The page allocator keeps these promises\<close>

lemma convert_within:
  assumes "CoreConvertPages env free S P N s = Some (Status, s')" "map_ok d (gMemoryMap s)" "e \<in> set (gMemoryMap s)"
    and "EntryStart e \<le> S" "S + push_bit 12 P - 1 \<le> EntryEnd e" "(N = EfiConventionalMemory) \<noteq> (EntryType e = EfiConventionalMemory)"
    and "S \<le> S + push_bit 12 P" "push_bit 12 P \<noteq> 0"
  shows "Status = EFI_SUCCESS"
proof -
  define End where "End = S + push_bit 12 P - 1"
  have c: "S < End" "convert_loop env free End P N S s = Some (Status, s')" "\<not> S + push_bit 12 P < S"
    using assms(1,7) by (auto simp: CoreConvertPages_def End_def Let_def split: if_splits)
  have l: "S < EntryEnd e" using c(1) assms(5) unfolding End_def by simp
  obtain pre post where x: "List.extract (\<lambda>e. EntryStart e \<le> S \<and> EntryEnd e > S) (gMemoryMap s) = Some (pre, e, post)"
    by (rule extract_covering [OF assms(2-4) l])
  have "\<not> EntryEnd e < End" using assms(5) unfolding End_def by simp
  then have i: "r = Inr (End + 1)" if "convert_step env free End P N S s = Some (r, t)" for r t
    using that x assms(6) by (auto simp: convert_step_def Let_def cong: if_cong)
  have m: "End \<noteq> MAX_ADDRESS" unfolding End_def by (rule range_end(2) [OF assms(8,7)])
  have "\<not> End + 1 < End" using succ_le(2) [OF m, of "End + 1"] succ_le(1) [OF m, of "End + 1"] by auto
  then have d: "convert_loop env free End P N (End + 1) t = Some (EFI_SUCCESS, t)" for t by (simp add: convert_loop.simps)
  obtain r t where r: "convert_step env free End P N S s = Some (r, t)"
      "(case r of Inl Status \<Rightarrow> Some (Status, t) | Inr S \<Rightarrow> convert_loop env free End P N S t) = Some (Status, s')"
    using c(1,2) by (subst (asm) convert_loop.simps) auto
  then show ?thesis using i [OF r(1)] d by auto
qed

lemma in_pages_words:
  assumes "unat P < 2 ^ 52" "unat S + unat P * 4096 < 2 ^ 64"
  shows "in_pages S (unat P) a \<longleftrightarrow> S \<le> a \<and> a < S + push_bit 12 P"
proof -
  have "unat (S + push_bit 12 P) = unat S + unat P * 4096" using assms pages_bytes [OF assms(1)] by (simp add: unat_word_ariths(1))
  then show ?thesis by (auto simp: in_pages_def word_le_nat_alt word_less_nat_alt)
qed

context memory_stack
begin

lemma find_place:
  assumes "FindFreePages env free MAX_ADDRESS P N EFI_PAGE_SIZE s = Some (S, s')" "mem_ok s" "P \<noteq> 0" "unat P < 2 ^ 52" "S \<noteq> 0"
  shows "place (gMemoryMap s') MAX_ADDRESS 0 P S"
proof -
  have b: "S \<noteq> 0 \<longrightarrow> place (gMemoryMap s') MAX_ADDRESS 0 P S" if "find_in_bins MAX_ADDRESS P N EFI_PAGE_SIZE s = (S, s')" "mem_ok s"
    for s s' :: "'e mem" and S
  proof -
    have m: "map_ok (mMapDepth s) (gMemoryMap s)" using that(2) by (simp add: mem_ok_def)
    note f = find_in_bins_place [OF that(1) m assms(3,4)]
    have "gMemoryMap s' = gMemoryMap s" by (subst f(3)) simp
    then show ?thesis using f(1) by simp
  qed
  have n: "mem_ok s1" if "find_in_bins MAX_ADDRESS P N EFI_PAGE_SIZE s = (S, s1)" "mem_ok s" for s s1 :: "'e mem" and S
    using that by (auto simp: find_in_bins_def Let_def mem_ok_def split: if_splits)
  have "fst r \<noteq> 0 \<longrightarrow> place (gMemoryMap (snd r)) MAX_ADDRESS 0 P (fst r)" if "FindFreePages env free MAX_ADDRESS P N EFI_PAGE_SIZE s = Some r" for r
    using assms(2)
  proof (induction rule: FindFreePages_induct [OF that])
    case (1 s S s')
    then show ?case using b by simp
  next
    case (3 s s1 s2 r)
    then show ?case using n Promote_conserves by blast
  qed simp
  then show ?thesis using assms(1,5) by force
qed

lemma takes_pages:
  assumes "CoreAllocatePoolPages env free T P EFI_PAGE_SIZE s = Some (S, s')" "mem_ok s" "T \<noteq> EfiConventionalMemory" "P \<noteq> 0" "unat P < 2 ^ 52"
  shows "mem_ok s' \<and> gMemoryLock s' = gMemoryLock s \<and> keeps_allocated s s' \<and> (S \<noteq> 0 \<longrightarrow> fresh_pages S (unat P) T s s')"
proof -
  obtain S1 s1 where f: "FindFreePages env free MAX_ADDRESS P T EFI_PAGE_SIZE s = Some (S1, s1)"
    and g: "S1 = 0 \<longrightarrow> S = 0 \<and> s' = s1" "S1 \<noteq> 0 \<longrightarrow> S = S1 \<and> (\<exists>st. CoreConvertPages env free S1 P T s1 = Some (st, s'))"
    using assms(1) by (auto simp: CoreAllocatePoolPages_def split: if_splits)
  note c = find_conserves [OF f assms(2), simplified]
  show ?thesis
  proof (cases "S1 = 0")
    case True
    then show ?thesis using g(1) c conserves_keeps by (auto simp: same_outside_map_def)
  next
    case False
    then obtain st where st: "CoreConvertPages env free S1 P T s1 = Some (st, s')" "S = S1" using g(2) by blast
    have p: "place (gMemoryMap s1) MAX_ADDRESS 0 P S" using find_place [OF f assms(2,4,5) False] st(2) by simp
    have m1: "map_ok (mMapDepth s1) (gMemoryMap s1)" using c by (simp add: mem_ok_def)
    obtain e where e: "e \<in> set (gMemoryMap s1)" "EntryType e = EfiConventionalMemory" "EntryStart e \<le> S" "S + push_bit 12 P - 1 \<le> EntryEnd e"
        "S \<le> S + push_bit 12 P" "page_aligned S" by (rule place_entry [OF p m1 assms(5,4)])
    have "(T = EfiConventionalMemory) \<noteq> (EntryType e = EfiConventionalMemory)" using assms(3) e(2) by simp
    from convert_within [OF st(1) [folded st(2)] m1 e(1,3,4) this e(5) pages_nonzero [OF assms(4,5)]] have "st = EFI_SUCCESS" .
    then have v: "mem_ok s'" "converted T S (S + push_bit 12 P) s1 s'" "same_outside_map s1 s'"
      using pages_convert [OF st(1) _ assms(5)] c st(2) by blast+
    have w: "converted T S (S + push_bit 12 P) s s'" using conserves_converted v(2) c assms(3) by blast
    obtain f where "f \<in> set (gMemoryMap s1)" "unat S + unat P * 4096 \<le> unat (EntryEnd f) + 1" using p by (auto simp: place_def)
    moreover have "unat (EntryEnd f) + 1 < 2 ^ 64" if "f \<in> set (gMemoryMap s1)" for f
    proof -
      have "EntryEnd f \<noteq> MAX_ADDRESS" using m1 that by (auto simp: map_ok_def entry_ok_def)
      moreover have "unat (EntryEnd f + 1) < 2 ^ 64" using unsigned_less [of "EntryEnd f + 1"] by simp
      ultimately show ?thesis using unat_succ by simp
    qed
    ultimately have b: "unat S + unat P * 4096 < 2 ^ 64" by (meson le_less_trans)
    have "holds s' a T \<and> (\<forall>U. holds s a U \<longrightarrow> U = EfiConventionalMemory)" if "in_pages S (unat P) a" for a
    proof -
      have r: "S \<le> a \<and> a < S + push_bit 12 P" using that in_pages_words [OF assms(5) b] by blast
      have "\<exists>A. stays s' a T A" using w r unfolding converted_def by blast
      moreover have "U = EfiConventionalMemory" if "owns s a U A" for U A using w r that assms(3) unfolding converted_def by blast
      ultimately show ?thesis using assms(3) by (auto simp: stays_def holds_def)
    qed
    then have "fresh_pages S (unat P) T s s'" using e(6) b by (simp add: fresh_pages_def)
    moreover have "same_outside_map s s'" using c v(3) same_outside_map_trans by blast
    ultimately show ?thesis using v(1) converted_keeps [OF w assms(3)] by (simp add: same_outside_map_def)
  qed
qed

lemma returns_pages:
  assumes "CoreFreePoolPages env free S P s = Some s'" "mem_ok s" "unat P < 2 ^ 52" "unat S + unat P * 4096 < 2 ^ 64"
  shows "mem_ok s' \<and> gMemoryLock s' = gMemoryLock s \<and>
     (\<forall>a T. T \<noteq> EfiConventionalMemory \<longrightarrow> holds s a T \<longrightarrow> \<not> in_pages S (unat P) a \<longrightarrow> holds s' a T)"
proof -
  obtain st where st: "CoreConvertPages env free S P EfiConventionalMemory s = Some (st, s')"
    using assms(1) by (auto simp: CoreFreePoolPages_def)
  have "S \<le> S + push_bit 12 P" using assms(3,4) pages_bytes [OF assms(3)] by (simp add: word_le_nat_alt unat_word_ariths(1))
  then obtain m where m: "mem_ok s'" "converted EfiConventionalMemory S m s s'" "same_outside_map s s'" "m \<le> S + push_bit 12 P"
    using pages_convert [OF st assms(2,3)] by blast
  have "holds s' a T" if "T \<noteq> EfiConventionalMemory" "holds s a T" "\<not> in_pages S (unat P) a" for a T
  proof -
    have "\<not> (S \<le> a \<and> a < m)" using that(3) m(4) unfolding in_pages_words [OF assms(3,4)] by (meson less_le_trans)
    then have "\<exists>A. stays s' a T A" using that(2) m(2) unfolding converted_def holds_def by blast
    then show ?thesis using that(1) by (auto simp: stays_def holds_def)
  qed
  then show ?thesis using m by (simp add: same_outside_map_def)
qed

end

lemma page_source_map_stack: "page_source env (CoreFreeMemoryMapStack (PagesEnv env) n)"
proof (unfold_locales, goal_cases)
  case (1 T P s S s')
  then show ?case by (rule map_stack.takes_pages)
next
  case (2 S P s s')
  then show ?case by (rule map_stack.returns_pages)
qed

interpretation pool_pages_source: page_source env "CoreFreeMemoryMapStack (PagesEnv env) n" for env n
  by (rule page_source_map_stack)

end
