(* ===== verification/PoolRun.thy ===== *)
theory PoolRun
  imports PoolPages
begin

text \<open>
  The invariant of the pool: which pages it owns, how they are divided into blocks, and that every block
  is on the free list of its size or holds a buffer with its header and tail.
\<close>

section \<open>The blocks of a page\<close>

lemma pool_blocks_bounds:
  "(off, k) \<in> set (pool_blocks i x) \<Longrightarrow> x \<le> off \<and> off + LIST_TO_SIZE k \<le> 4096 \<and> k \<le> i"
proof (induction i x rule: pool_blocks.induct)
  case (1 i x)
  then show ?case by (subst (asm) (3) pool_blocks.simps) (force split: if_splits simp: LIST_TO_SIZE_def)
qed

lemma pool_blocks_apart: "sorted_wrt (\<lambda>b c. fst b + LIST_TO_SIZE (snd b) \<le> fst c) (pool_blocks i x)"
proof (induction i x rule: pool_blocks.induct)
  case (1 i x)
  then show ?case by (subst pool_blocks.simps) (auto dest: pool_blocks_bounds)
qed

lemma LIST_TO_SIZE_bounds: "0 < LIST_TO_SIZE k" "k < 32 \<Longrightarrow> LIST_TO_SIZE k \<le> 4096"
  by (simp_all add: LIST_TO_SIZE_def)

lemma pool_blocks_first: "i < 32 \<Longrightarrow> (0, i) \<in> set (pool_blocks i 0)"
  using LIST_TO_SIZE_bounds(2) [of i] by (subst pool_blocks.simps) simp

text \<open>The blocks fill the page, as the code asserts.\<close>

lemma pool_blocks_fill:
  "128 dvd x \<Longrightarrow> x \<le> 4096 \<Longrightarrow> x + sum_list (map (\<lambda>b. LIST_TO_SIZE (snd b)) (pool_blocks i x)) = 4096"
proof (induction i x rule: pool_blocks.induct)
  case (1 i x)
  show ?case
  proof (cases "x < 4096 \<and> \<not> x + LIST_TO_SIZE i \<le> 4096 \<and> i = 0")
    case True
    then have "4096 - x < 128" "0 < 4096 - x" by (auto simp: LIST_TO_SIZE_def)
    moreover have "128 dvd 4096 - x" using 1(3) by (intro dvd_diff_nat) auto
    ultimately show ?thesis using dvd_imp_le by fastforce
  next
    case False
    then show ?thesis using 1 by (subst pool_blocks.simps) (auto simp: LIST_TO_SIZE_def)
  qed
qed

lemma pool_blocks_unique:
  assumes "(off, k) \<in> set (pool_blocks i x)" "(off', k') \<in> set (pool_blocks i x)" "(off, k) \<noteq> (off', k')"
  shows "off + LIST_TO_SIZE k \<le> off' \<or> off' + LIST_TO_SIZE k' \<le> off"
proof -
  have "b = c \<or> fst b + LIST_TO_SIZE (snd b) \<le> fst c \<or> fst c + LIST_TO_SIZE (snd c) \<le> fst b"
    if "b \<in> set l" "c \<in> set l" "sorted_wrt (\<lambda>b c. fst b + LIST_TO_SIZE (snd b) \<le> fst c) l" for b c and l :: "(nat \<times> nat) list"
    using that by (induction l) auto
  from this [OF assms(1,2) pool_blocks_apart] show ?thesis using assms(3) by auto
qed

section \<open>Slots\<close>

datatype arena = Carved u32 nat | Large u32 u64

fun arena_type :: "arena \<Rightarrow> u32" where
  "arena_type (Carved T _) = T"
| "arena_type (Large T _) = T"

fun arena_pages :: "arena \<Rightarrow> nat" where
  "arena_pages (Carved _ _) = 1"
| "arena_pages (Large _ Size) = unat (pool_pages Size)"

fun arena_fits :: "arena \<Rightarrow> bool" where
  "arena_fits (Carved _ i) \<longleftrightarrow> i < 32"
| "arena_fits (Large _ Size) \<longleftrightarrow> unat (pool_pages Size) < 2 ^ 52 \<and> unat Size \<le> unat (pool_pages Size) * 4096 \<and> 0 < unat (pool_pages Size)"

definition arena_ok :: "'e mem \<Rightarrow> u64 \<Rightarrow> arena \<Rightarrow> bool" where
  "arena_ok s p x \<longleftrightarrow> page_aligned p \<and> p \<noteq> 0 \<and> unat p + arena_pages x * 4096 < 2 ^ 64 \<and> arena_type x \<noteq> EfiConventionalMemory \<and>
     arena_fits x \<and> (\<forall>a. in_pages p (arena_pages x) a \<longrightarrow> holds s a (arena_type x))"

definition arenas_ok :: "(u64 \<Rightarrow> arena option) \<Rightarrow> 'e mem \<Rightarrow> bool" where
  "arenas_ok G s \<longleftrightarrow> (\<forall>p x. G p = Some x \<longrightarrow> arena_ok s p x) \<and>
     (\<forall>p q x y a. G p = Some x \<longrightarrow> G q = Some y \<longrightarrow> in_pages p (arena_pages x) a \<longrightarrow> in_pages q (arena_pages y) a \<longrightarrow> p = q)"

definition block_at :: "(u64 \<Rightarrow> arena option) \<Rightarrow> u64 \<Rightarrow> u32 \<Rightarrow> nat \<Rightarrow> bool" where
  "block_at G a T k \<longleftrightarrow> (\<exists>p i off. G p = Some (Carved T i) \<and> (off, k) \<in> set (pool_blocks i 0) \<and> a = p + of_nat off)"

text \<open>A slot is a block of a page, or the pages of a large buffer.\<close>

definition slot :: "(u64 \<Rightarrow> arena option) \<Rightarrow> u64 \<Rightarrow> u32 \<Rightarrow> nat \<Rightarrow> bool" where
  "slot G a T n \<longleftrightarrow> (\<exists>k. block_at G a T k \<and> n = LIST_TO_SIZE k) \<or> (\<exists>Size. G a = Some (Large T Size) \<and> n = unat (pool_pages Size) * 4096)"

definition within :: "u64 \<Rightarrow> nat \<Rightarrow> u64 \<Rightarrow> bool" where
  "within a n x \<longleftrightarrow> unat a \<le> unat x \<and> unat x < unat a + n"

lemma in_pages_within: "in_pages p n = within p (n * 4096)"
  by (auto simp: in_pages_def within_def fun_eq_iff)

lemma unat_offset:
  assumes "unat (p :: u64) + n < 2 ^ 64" "off \<le> n"
  shows "unat (p + of_nat off) = unat p + off"
proof -
  have "unat (of_nat off :: u64) = off" using assms by (simp add: unat_of_nat)
  then show ?thesis using assms by (simp add: unat_word_ariths(1))
qed

text \<open>Each slot lies in its arena.\<close>

lemma block_arena:
  assumes "arenas_ok G s" "G p = Some (Carved T i)" "(off, k) \<in> set (pool_blocks i 0)"
  shows "unat (p + of_nat off) = unat p + off" "off + LIST_TO_SIZE k \<le> 4096" "k < 32" "unat p + 4096 < 2 ^ 64"
proof -
  have a: "arena_ok s p (Carved T i)" using assms(1,2) by (simp add: arenas_ok_def)
  show b: "off + LIST_TO_SIZE k \<le> 4096" using pool_blocks_bounds [OF assms(3)] by simp
  show p: "unat p + 4096 < 2 ^ 64" using a by (simp add: arena_ok_def)
  show "unat (p + of_nat off) = unat p + off" using unat_offset [OF p, of off] b by simp
  show "k < 32" using a pool_blocks_bounds [OF assms(3)] by (simp add: arena_ok_def)
qed

lemma slot_arena:
  assumes "arenas_ok G s" "slot G a T n"
  shows "\<exists>p x. G p = Some x \<and> arena_type x = T \<and> unat p \<le> unat a \<and> unat a + n \<le> unat p + arena_pages x * 4096 \<and> 0 < n"
proof -
  consider (block) p i off k where "G p = Some (Carved T i)" "(off, k) \<in> set (pool_blocks i 0)" "a = p + of_nat off" "n = LIST_TO_SIZE k"
    | (large) Size where "G a = Some (Large T Size)" "n = unat (pool_pages Size) * 4096"
    using assms(2) by (auto simp: slot_def block_at_def)
  then show ?thesis
  proof cases
    case block
    then show ?thesis using block_arena [OF assms(1) block(1,2)] LIST_TO_SIZE_bounds(1) [of k] by (intro exI [of _ p] exI [of _ "Carved T i"]) simp
  next
    case large
    then have "arena_ok s a (Large T Size)" using assms(1) by (simp add: arenas_ok_def)
    then show ?thesis using large by (intro exI [of _ a] exI [of _ "Large T Size"]) (simp add: arena_ok_def)
  qed
qed

lemma slot_bound:
  assumes "arenas_ok G s" "slot G a T n"
  shows "unat a + n < 2 ^ 64" "a \<noteq> 0" "0 < n"
proof -
  obtain p x where p: "G p = Some x" "unat p \<le> unat a" "unat a + n \<le> unat p + arena_pages x * 4096" "0 < n"
    using slot_arena [OF assms] by blast
  have o: "arena_ok s p x" using assms(1) p(1) by (simp add: arenas_ok_def)
  then show "unat a + n < 2 ^ 64" using p(3) by (simp add: arena_ok_def)
  have "unat p \<noteq> 0" using o by (simp add: arena_ok_def unat_eq_zero)
  then show "a \<noteq> 0" using p(2) by auto
  show "0 < n" by (rule p(4))
qed

lemma slot_holds:
  assumes "arenas_ok G s" "slot G a T n" "within a n x"
  shows "holds s x T"
proof -
  obtain p y where p: "G p = Some y" "arena_type y = T" "unat p \<le> unat a" "unat a + n \<le> unat p + arena_pages y * 4096"
    using slot_arena [OF assms(1,2)] by blast
  then have "arena_ok s p y" using assms(1) by (simp add: arenas_ok_def)
  moreover have "in_pages p (arena_pages y) x" using assms(3) p(3,4) by (simp add: in_pages_within within_def)
  ultimately show ?thesis using p(2) by (simp add: arena_ok_def)
qed

text \<open>Two slots that share a byte are the same.\<close>

lemma slots_apart:
  assumes "arenas_ok G s" "slot G a T n" "slot G b U m" "within a n x" "within b m x"
  shows "a = b \<and> T = U \<and> n = m"
proof -
  obtain p y where p: "G p = Some y" "unat p \<le> unat a" "unat a + n \<le> unat p + arena_pages y * 4096"
    "(\<exists>T' i off k. y = Carved T' i \<and> T = T' \<and> (off, k) \<in> set (pool_blocks i 0) \<and> a = p + of_nat off \<and> n = LIST_TO_SIZE k) \<or>
     (\<exists>Size. y = Large T Size \<and> a = p \<and> n = unat (pool_pages Size) * 4096)"
    using assms(2) unfolding slot_def block_at_def
    by (elim disjE exE conjE) (use block_arena [OF assms(1)] in fastforce)+
  obtain q z where q: "G q = Some z" "unat q \<le> unat b" "unat b + m \<le> unat q + arena_pages z * 4096"
    "(\<exists>T' i off k. z = Carved T' i \<and> U = T' \<and> (off, k) \<in> set (pool_blocks i 0) \<and> b = q + of_nat off \<and> m = LIST_TO_SIZE k) \<or>
     (\<exists>Size. z = Large U Size \<and> b = q \<and> m = unat (pool_pages Size) * 4096)"
    using assms(3) unfolding slot_def block_at_def
    by (elim disjE exE conjE) (use block_arena [OF assms(1)] in fastforce)+
  have "in_pages p (arena_pages y) x" "in_pages q (arena_pages z) x"
    using assms(4,5) p(2,3) q(2,3) by (simp_all add: in_pages_within within_def)
  then have pq: "p = q" "y = z" using assms(1) p(1) q(1) unfolding arenas_ok_def by (blast, metis option.inject)
  show ?thesis
  proof (cases y)
    case (Large T' Size)
    then show ?thesis using p(4) q(4) pq by auto
  next
    case (Carved T' i)
    then obtain off k off' k' where o: "(off, k) \<in> set (pool_blocks i 0)" "a = p + of_nat off" "n = LIST_TO_SIZE k"
        "(off', k') \<in> set (pool_blocks i 0)" "b = p + of_nat off'" "m = LIST_TO_SIZE k'" "T = T'" "U = T'"
      using p(4) q(4) pq by auto
    have u: "unat a = unat p + off" "unat b = unat p + off'"
      using block_arena(1) [OF assms(1)] p(1) o Carved by metis+
    have "(off, k) = (off', k')"
      using pool_blocks_unique [OF o(1,4)] assms(4,5) u o(3,6) by (auto simp: within_def)
    then show ?thesis using o by simp
  qed
qed

section \<open>What stands in the slots\<close>

definition used_ok :: "(u64 \<Rightarrow> u64 option) \<Rightarrow> u64 \<Rightarrow> nat \<Rightarrow> u64 \<Rightarrow> bool" where
  "used_ok W a n Size \<longleftrightarrow> 40 \<le> unat Size \<and> unat Size \<le> n \<and> W (a + Size - SIZE_OF_POOL_TAIL) = Some Size"

text \<open>\<open>B\<close> are the headers, \<open>W\<close> the tails, \<open>L\<close> the free lists.\<close>

definition blocks_ok ::
  "(u64 \<Rightarrow> arena option) \<Rightarrow> (u64 \<Rightarrow> pool_block option) \<Rightarrow> (u64 \<Rightarrow> u64 option) \<Rightarrow> (u32 \<Rightarrow> nat \<Rightarrow> u64 list) \<Rightarrow> bool" where
  "blocks_ok G B W L \<longleftrightarrow>
     (\<forall>a T k. block_at G a T k \<longrightarrow> B a = Some (POOL_FREE k) \<and> a \<in> set (L T k) \<or>
        (\<exists>Size. B a = Some (POOL_HEAD T Size) \<and> unat (SIZE_TO_LIST Size) = k)) \<and>
     (\<forall>p T Size. G p = Some (Large T Size) \<longrightarrow> B p = Some (POOL_HEAD T Size) \<and> 32 \<le> SIZE_TO_LIST Size) \<and>
     (\<forall>a T n U Size. slot G a T n \<longrightarrow> B a = Some (POOL_HEAD U Size) \<longrightarrow> used_ok W a n Size) \<and>
     (\<forall>T k. distinct (L T k) \<and> (\<forall>a\<in>set (L T k). block_at G a T k \<and> B a = Some (POOL_FREE k)))"

lemma blocks_okD:
  assumes "blocks_ok G B W L"
  shows "block_at G a T k \<Longrightarrow> B a = Some (POOL_FREE k) \<and> a \<in> set (L T k) \<or> (\<exists>Size. B a = Some (POOL_HEAD T Size) \<and> unat (SIZE_TO_LIST Size) = k)"
    "G p = Some (Large T Size) \<Longrightarrow> B p = Some (POOL_HEAD T Size) \<and> 32 \<le> SIZE_TO_LIST Size"
    "slot G a T n \<Longrightarrow> B a = Some (POOL_HEAD U Size) \<Longrightarrow> used_ok W a n Size"
    "distinct (L T k)" "a \<in> set (L T k) \<Longrightarrow> block_at G a T k \<and> B a = Some (POOL_FREE k)"
  using assms unfolding blocks_ok_def by blast+

lemma block_slot: "block_at G a T k \<Longrightarrow> slot G a T (LIST_TO_SIZE k)"
  by (auto simp: slot_def)

lemma large_slot: "G a = Some (Large T Size) \<Longrightarrow> slot G a T (unat (pool_pages Size) * 4096)"
  by (auto simp: slot_def)

lemma within_start: "0 < n \<Longrightarrow> within a n a"
  by (simp add: within_def)

lemma within_tail:
  assumes "unat a + n < 2 ^ 64" "40 \<le> unat Size" "unat Size \<le> n"
  shows "unat (a + Size - SIZE_OF_POOL_TAIL) = unat a + unat Size - 16" "within a n (a + Size - SIZE_OF_POOL_TAIL)"
proof -
  have u: "unat (a + Size) = unat a + unat Size" using assms by (simp add: unat_word_ariths(1))
  then have "SIZE_OF_POOL_TAIL \<le> a + Size" using assms(2) by (simp add: word_le_nat_alt)
  then show t: "unat (a + Size - SIZE_OF_POOL_TAIL) = unat a + unat Size - 16" using u by (simp add: unat_sub)
  show "within a n (a + Size - SIZE_OF_POOL_TAIL)" using assms(2,3) unfolding within_def t by auto
qed

text \<open>Slots at different addresses have no byte in common.\<close>

lemma slot_outside:
  assumes "arenas_ok G s" "slot G a T n" "slot G b U m" "a \<noteq> b" "within b m x"
  shows "\<not> within a n x"
  using slots_apart [OF assms(1-3) _ assms(5)] assms(4) by blast

lemma used_frame:
  assumes "arenas_ok G s" "slot G b U m" "used_ok W b m Size" "\<And>x. within b m x \<Longrightarrow> W' x = W x"
  shows "used_ok W' b m Size"
proof -
  have u: "40 \<le> unat Size" "unat Size \<le> m" using assms(3) by (simp_all add: used_ok_def)
  show ?thesis using assms(3) assms(4) [OF within_tail(2) [OF slot_bound(1) [OF assms(1,2)] u]] by (simp add: used_ok_def)
qed

lemma block_at_unique:
  assumes "arenas_ok G s" "block_at G a T k" "block_at G a U l"
  shows "T = U" "k = l"
proof -
  note s = block_slot [OF assms(2)] block_slot [OF assms(3)]
  note u = slots_apart [OF assms(1) s within_start [OF LIST_TO_SIZE_bounds(1)] within_start [OF LIST_TO_SIZE_bounds(1)]]
  show "T = U" using u by blast
  show "k = l" using u by (simp add: LIST_TO_SIZE_def)
qed

lemma block_not_large:
  assumes "arenas_ok G s" "block_at G a T k" "G a = Some (Large U Size)"
  shows False
proof -
  obtain p i off where p: "G p = Some (Carved T i)" "(off, k) \<in> set (pool_blocks i 0)" "a = p + of_nat off"
    using assms(2) by (auto simp: block_at_def)
  note b = block_arena [OF assms(1) p(1,2)]
  have "arena_ok s a (Large U Size)" using assms(1,3) by (simp add: arenas_ok_def)
  then have "in_pages a (arena_pages (Large U Size)) a" by (simp add: in_pages_def arena_ok_def)
  moreover have "in_pages p (arena_pages (Carved T i)) a" using b(1,2) p(3) LIST_TO_SIZE_bounds(1) [of k] by (simp add: in_pages_def)
  ultimately have "p = a" using assms(1,3) p(1) unfolding arenas_ok_def by blast
  then show False using p(1) assms(3) by simp
qed

lemma slot_frame:
  assumes "arenas_ok G s" "slot G a T n" "\<forall>x. \<not> within a n x \<longrightarrow> B' x = B x \<and> W' x = W x" "slot G c U m" "c \<noteq> a"
  shows "B' c = B c" "used_ok W c m Z \<Longrightarrow> used_ok W' c m Z"
proof -
  have o: "\<not> within a n x" if "within c m x" for x
    using slot_outside [OF assms(1,2,4)] that assms(5) by metis
  show "B' c = B c" using assms(3) o [OF within_start [OF slot_bound(3) [OF assms(1,4)]]] by blast
  show "used_ok W' c m Z" if "used_ok W c m Z"
    using used_frame [OF assms(1,4) that] assms(3) o by metis
qed

text \<open>Changing one slot: a free block becomes a buffer, or a buffer a free block.\<close>

lemma fill_slot:
  assumes "arenas_ok G s" "blocks_ok G B W L" "block_at G a T k"
    and "\<forall>x. \<not> within a (LIST_TO_SIZE k) x \<longrightarrow> B' x = B x \<and> W' x = W x"
    and "B' a = Some (POOL_HEAD T Size)" "used_ok W' a (LIST_TO_SIZE k) Size" "unat (SIZE_TO_LIST Size) = k"
    and "L' = (\<lambda>U l. removeAll a (L U l))"
  shows "blocks_ok G B' W' L'"
proof -
  note b = blocks_okD [OF assms(2)] and sa = block_slot [OF assms(3)]
  note f = slot_frame [OF assms(1) sa assms(4)]
  show ?thesis
    unfolding blocks_ok_def
  proof (intro conjI allI impI ballI)
    fix c U l assume c: "block_at G c U l"
    show "B' c = Some (POOL_FREE l) \<and> c \<in> set (L' U l) \<or> (\<exists>Size. B' c = Some (POOL_HEAD U Size) \<and> unat (SIZE_TO_LIST Size) = l)"
    proof (cases "c = a")
      case True
      then show ?thesis using block_at_unique [OF assms(1,3)] c assms(5,7) by auto
    next
      case False
      then show ?thesis using b(1) [OF c] f(1) [OF block_slot [OF c]] assms(8) by simp
    qed
  next
    fix p U Z assume p: "G p = Some (Large U Z)"
    then have "p \<noteq> a" using block_not_large [OF assms(1,3)] by auto
    then show "B' p = Some (POOL_HEAD U Z)" "32 \<le> SIZE_TO_LIST Z" using b(2) [OF p] f(1) [OF large_slot [where G = G, OF p]] by simp_all
  next
    fix c V m U Z assume c: "slot G c V m" "B' c = Some (POOL_HEAD U Z)"
    show "used_ok W' c m Z"
    proof (cases "c = a")
      case True
      have "m = LIST_TO_SIZE k"
        using slots_apart [OF assms(1) c(1) sa within_start [OF slot_bound(3) [OF assms(1) c(1)]]] within_start [OF LIST_TO_SIZE_bounds(1)] True by blast
      then show ?thesis using c(2) True assms(5,6) by simp
    next
      case False
      then show ?thesis using f [OF c(1)] b(3) [OF c(1)] c(2) by metis
    qed
  next
    fix U l
    show "distinct (L' U l)" using b(4) assms(8) by (simp add: distinct_removeAll)
    fix c assume "c \<in> set (L' U l)"
    then have c: "c \<in> set (L U l)" "c \<noteq> a" using assms(8) by auto
    then show "block_at G c U l" "B' c = Some (POOL_FREE l)" using b(5) [OF c(1)] f(1) [OF block_slot] by auto
  qed
qed

lemma empty_slot:
  assumes "arenas_ok G s" "blocks_ok G B W L" "block_at G a T k"
    and "\<forall>x. \<not> within a (LIST_TO_SIZE k) x \<longrightarrow> B' x = B x \<and> W' x = W x"
    and "B a = Some (POOL_HEAD T Size)" "B' a = Some (POOL_FREE k)"
    and "L' = (\<lambda>U l. if U = T \<and> l = k then a # L U l else L U l)"
  shows "blocks_ok G B' W' L'"
proof -
  note b = blocks_okD [OF assms(2)] and sa = block_slot [OF assms(3)]
  note f = slot_frame [OF assms(1) sa assms(4)]
  have n: "a \<notin> set (L U l)" for U l using b(5) [of a U l] assms(5) by auto
  show ?thesis
    unfolding blocks_ok_def
  proof (intro conjI allI impI ballI)
    fix c U l assume c: "block_at G c U l"
    show "B' c = Some (POOL_FREE l) \<and> c \<in> set (L' U l) \<or> (\<exists>Size. B' c = Some (POOL_HEAD U Size) \<and> unat (SIZE_TO_LIST Size) = l)"
    proof (cases "c = a")
      case True
      then show ?thesis using block_at_unique [OF assms(1,3)] c assms(6,7) by auto
    next
      case False
      then show ?thesis using b(1) [OF c] f(1) [OF block_slot [OF c]] assms(7) by auto
    qed
  next
    fix p U Z assume p: "G p = Some (Large U Z)"
    then have "p \<noteq> a" using block_not_large [OF assms(1,3)] by auto
    then show "B' p = Some (POOL_HEAD U Z)" "32 \<le> SIZE_TO_LIST Z" using b(2) [OF p] f(1) [OF large_slot [where G = G, OF p]] by simp_all
  next
    fix c V m U Z assume c: "slot G c V m" "B' c = Some (POOL_HEAD U Z)"
    then have "c \<noteq> a" using assms(6) by auto
    then show "used_ok W' c m Z" using f [OF c(1)] b(3) [OF c(1)] c(2) by metis
  next
    fix U l
    show "distinct (L' U l)" using b(4) n assms(7) by simp
    fix c assume c: "c \<in> set (L' U l)"
    show "block_at G c U l" "B' c = Some (POOL_FREE l)"
    proof (atomize (full), cases "c = a")
      case True
      then show "block_at G c U l \<and> B' c = Some (POOL_FREE l)" using c assms(3,6,7) n by (auto split: if_splits)
    next
      case False
      then have "c \<in> set (L U l)" using c assms(7) by (auto split: if_splits)
      note d = b(5) [OF this]
      then show "block_at G c U l \<and> B' c = Some (POOL_FREE l)" using f(1) [OF block_slot False] by metis
    qed
  qed
qed

section \<open>New pages and pages given back\<close>

lemma fresh_arena:
  assumes "arenas_ok G s" "keeps_allocated s s'" "fresh_pages p (arena_pages x) (arena_type x) s s'" "p \<noteq> 0"
    and "arena_type x \<noteq> EfiConventionalMemory" "arena_fits x"
  shows "arenas_ok (G(p \<mapsto> x)) s'" "G p = None" "slot G b U m \<Longrightarrow> within b m a \<Longrightarrow> \<not> in_pages p (arena_pages x) a"
proof -
  have h: "holds s' a T" if "holds s a T" "T \<noteq> EfiConventionalMemory" for a T
    using assms(2) that by (auto simp: keeps_allocated_def holds_def)
  have f: "in_pages p (arena_pages x) a \<Longrightarrow> holds s' a (arena_type x)" "in_pages p (arena_pages x) a \<Longrightarrow> holds s a U \<Longrightarrow> U = EfiConventionalMemory" for a U
    using assms(3) by (auto simp: fresh_pages_def)
  have d: "\<not> in_pages q (arena_pages y) a" if "in_pages p (arena_pages x) a" "G q = Some y" for q y a
  proof
    assume "in_pages q (arena_pages y) a"
    moreover have "arena_ok s q y" using assms(1) that(2) by (simp add: arenas_ok_def)
    ultimately have "holds s a (arena_type y)" "arena_type y \<noteq> EfiConventionalMemory" by (simp_all add: arena_ok_def)
    then show False using f(2) [OF that(1)] by blast
  qed
  have o: "arena_ok s' q y" if "G q = Some y" for q y
  proof -
    have "arena_ok s q y" using assms(1) that by (simp add: arenas_ok_def)
    then show ?thesis using h by (simp add: arena_ok_def)
  qed
  have x: "arena_ok s' p x" using assms(3-6) f(1) by (simp add: arena_ok_def fresh_pages_def)
  have "0 < arena_pages x" using assms(6) by (cases x) auto
  then have "in_pages p (arena_pages x) p" by (simp add: in_pages_def)
  then show n: "G p = None"
  proof (cases "G p")
    case (Some y)
    then have "arena_ok s p y" using assms(1) by (simp add: arenas_ok_def)
    then have "0 < arena_pages y" by (cases y) (auto simp: arena_ok_def)
    then have "in_pages p (arena_pages y) p" by (simp add: in_pages_def)
    then show ?thesis using d [OF \<open>in_pages p (arena_pages x) p\<close> Some] by simp
  qed simp
  show "arenas_ok (G(p \<mapsto> x)) s'"
    unfolding arenas_ok_def
  proof (intro conjI allI impI)
    show "arena_ok s' q y" if "(G(p \<mapsto> x)) q = Some y" for q y using that o x by (auto split: if_splits)
    show "q = r" if "(G(p \<mapsto> x)) q = Some y" "(G(p \<mapsto> x)) r = Some z" "in_pages q (arena_pages y) a" "in_pages r (arena_pages z) a" for q r y z a
      using that d assms(1) unfolding arenas_ok_def by (auto split: if_splits)
  qed
  assume s: "slot G b U m" "within b m a"
  then have "holds s a U" using slot_holds [OF assms(1)] by blast
  moreover have "U \<noteq> EfiConventionalMemory"
  proof -
    obtain q y where "G q = Some y" "arena_type y = U" using slot_arena [OF assms(1) s(1)] by blast
    then show ?thesis using assms(1) by (auto simp: arenas_ok_def arena_ok_def)
  qed
  ultimately show "\<not> in_pages p (arena_pages x) a" using f(2) by blast
qed

lemma block_at_carved:
  assumes "G p = None"
  shows "block_at (G(p \<mapsto> Carved T i)) a U k \<longleftrightarrow> block_at G a U k \<or> U = T \<and> (\<exists>off. (off, k) \<in> set (pool_blocks i 0) \<and> a = p + of_nat off)"
    "block_at (G(p \<mapsto> Large T Size)) a U k \<longleftrightarrow> block_at G a U k"
proof -
  have e: "(G(p \<mapsto> x)) q = Some y \<longleftrightarrow> q = p \<and> y = x \<or> G q = Some y" for x q y using assms by auto
  show "block_at (G(p \<mapsto> Carved T i)) a U k \<longleftrightarrow> block_at G a U k \<or> U = T \<and> (\<exists>off. (off, k) \<in> set (pool_blocks i 0) \<and> a = p + of_nat off)"
    unfolding block_at_def e by blast
  show "block_at (G(p \<mapsto> Large T Size)) a U k \<longleftrightarrow> block_at G a U k"
    unfolding block_at_def e by blast
qed

text \<open>A new page: its blocks are free and lead their lists.\<close>

lemma add_page:
  assumes "arenas_ok G s" "blocks_ok G B W L" "arenas_ok (G(p \<mapsto> Carved T i)) s'" "G p = None"
    and "\<And>b U m a. slot G b U m \<Longrightarrow> within b m a \<Longrightarrow> \<not> in_pages p 1 a"
    and "\<And>a. \<not> in_pages p 1 a \<Longrightarrow> B' a = B a"
    and "\<And>off k. (off, k) \<in> set (pool_blocks i 0) \<Longrightarrow> B' (p + of_nat off) = Some (POOL_FREE k)"
    and "\<And>U k. set (L' U k) = set (L U k) \<union> (if U = T then {p + of_nat off |off. (off, k) \<in> set (pool_blocks i 0)} else {})"
    and "\<And>U k. distinct (L' U k)"
  shows "blocks_ok (G(p \<mapsto> Carved T i)) B' W L'"
proof -
  note b = blocks_okD [OF assms(2)]
  let ?G = "G(p \<mapsto> Carved T i)"
  have f: "B' c = B c" if "slot G c U m" for c U m
    using assms(5) [OF that within_start [OF slot_bound(3) [OF assms(1) that]]] assms(6) by blast
  have B: "B' c = Some (POOL_FREE k) \<and> c \<in> set (L' U k) \<or> block_at G c U k \<and> B' c = B c" if h: "block_at ?G c U k" for c U k
  proof (cases "block_at G c U k")
    case True
    then show ?thesis using f [OF block_slot [OF True]] by blast
  next
    case False
    then obtain off where "U = T" "(off, k) \<in> set (pool_blocks i 0)" "c = p + of_nat off"
      using h unfolding block_at_carved(1) [where G = G, OF assms(4)] by blast
    then show ?thesis using assms(7,8) by auto
  qed
  show ?thesis
    unfolding blocks_ok_def
  proof (intro conjI allI impI ballI)
    fix c U k assume c: "block_at ?G c U k"
    have "set (L U k) \<subseteq> set (L' U k)" using assms(8) by blast
    then show "B' c = Some (POOL_FREE k) \<and> c \<in> set (L' U k) \<or> (\<exists>Size. B' c = Some (POOL_HEAD U Size) \<and> unat (SIZE_TO_LIST Size) = k)"
      using B [OF c] b(1) [of c U k] by auto
  next
    fix q U Z assume "?G q = Some (Large U Z)"
    then have q: "G q = Some (Large U Z)" by (auto split: if_splits)
    then show "B' q = Some (POOL_HEAD U Z)" "32 \<le> SIZE_TO_LIST Z" using b(2) [OF q] f [OF large_slot [where G = G, OF q]] by simp_all
  next
    fix c V m U Z assume c: "slot ?G c V m" "B' c = Some (POOL_HEAD U Z)"
    have "slot G c V m"
    proof (cases "\<exists>k. block_at ?G c V k \<and> m = LIST_TO_SIZE k")
      case True
      then show ?thesis using B c(2) by (force simp: slot_def)
    next
      case False
      then show ?thesis using c(1) by (auto simp: slot_def split: if_splits)
    qed
    then show "used_ok W c m Z" using b(3) f c(2) by metis
  next
    fix U k
    show "distinct (L' U k)" by (rule assms(9))
    fix c assume c: "c \<in> set (L' U k)"
    show "block_at ?G c U k" "B' c = Some (POOL_FREE k)"
    proof (atomize (full), cases "c \<in> set (L U k)")
      case True
      then show "block_at ?G c U k \<and> B' c = Some (POOL_FREE k)"
        using b(5) [OF True] f [OF block_slot] block_at_carved(1) [where G = G, OF assms(4)] by metis
    next
      case False
      then obtain off where "U = T" "(off, k) \<in> set (pool_blocks i 0)" "c = p + of_nat off"
        using c assms(8) by (auto split: if_splits)
      then show "block_at ?G c U k \<and> B' c = Some (POOL_FREE k)" using assms(7) block_at_carved(1) [where G = G, OF assms(4)] by blast
    qed
  qed
qed

text \<open>Pages for a large buffer.\<close>

lemma add_large:
  assumes "arenas_ok G s" "blocks_ok G B W L" "G p = None"
    and "\<And>b U m a. slot G b U m \<Longrightarrow> within b m a \<Longrightarrow> \<not> in_pages p n a"
    and "\<And>a. \<not> in_pages p n a \<Longrightarrow> B' a = B a \<and> W' a = W a"
    and "B' p = Some (POOL_HEAD T Size)" "used_ok W' p (n * 4096) Size" "32 \<le> SIZE_TO_LIST Size" "n = unat (pool_pages Size)" "0 < n"
  shows "blocks_ok (G(p \<mapsto> Large T Size)) B' W' L"
proof -
  note b = blocks_okD [OF assms(2)] and c = block_at_carved(2) [where G = G, OF assms(3)]
  let ?G = "G(p \<mapsto> Large T Size)"
  have f: "B' c = B c" "\<And>Z. used_ok W c m Z \<Longrightarrow> used_ok W' c m Z" "c \<noteq> p" if "slot G c U m" for c U m
  proof -
    have o: "\<not> in_pages p n x" if "within c m x" for x using assms(4) \<open>slot G c U m\<close> that by blast
    show "B' c = B c" using assms(5) o [OF within_start [OF slot_bound(3) [OF assms(1) that]]] by blast
    show "used_ok W' c m Z" if "used_ok W c m Z" for Z
      using used_frame [OF assms(1) \<open>slot G c U m\<close> that] assms(5) o by metis
    show "c \<noteq> p" using o [OF within_start [OF slot_bound(3) [OF assms(1) that]]] assms(10) by (auto simp: in_pages_def)
  qed
  have sl: "slot G a U m \<or> a = p \<and> U = T \<and> m = n * 4096" if "slot ?G a U m" for a U m
    using that assms(9) by (auto simp: slot_def c split: if_splits)
  show ?thesis
    unfolding blocks_ok_def c
  proof (intro conjI allI impI ballI)
    fix a U k assume a: "block_at G a U k"
    show "B' a = Some (POOL_FREE k) \<and> a \<in> set (L U k) \<or> (\<exists>Size. B' a = Some (POOL_HEAD U Size) \<and> unat (SIZE_TO_LIST Size) = k)"
      using b(1) [OF a] f(1) [OF block_slot [OF a]] by simp
  next
    fix q U Z assume q: "?G q = Some (Large U Z)"
    have "q = p \<and> U = T \<and> Z = Size \<or> G q = Some (Large U Z)" using q by (cases "q = p") simp_all
    then consider "q = p" "U = T" "Z = Size" | "G q = Some (Large U Z)" by blast
    then have "B' q = Some (POOL_HEAD U Z) \<and> 32 \<le> SIZE_TO_LIST Z"
      by cases (use assms(6,8) b(2) f(1) [OF large_slot [where G = G]] in auto)
    then show "B' q = Some (POOL_HEAD U Z)" "32 \<le> SIZE_TO_LIST Z" by simp_all
  next
    fix a V m U Z assume a: "slot ?G a V m" "B' a = Some (POOL_HEAD U Z)"
    show "used_ok W' a m Z"
    proof (cases "slot G a V m")
      case True
      then show ?thesis using b(3) f a(2) by metis
    next
      case False
      then show ?thesis using sl [OF a(1)] a(2) assms(6,7) by auto
    qed
  next
    fix U k
    show "distinct (L U k)" by (rule b(4))
    show "block_at G a U k" "B' a = Some (POOL_FREE k)" if "a \<in> set (L U k)" for a
      using b(5) [OF that] f(1) [OF block_slot] by auto
  qed
qed

text \<open>Giving an arena back.\<close>

lemma drop_arena:
  assumes "arenas_ok G s" "G p = Some x"
    and "\<And>a T. T \<noteq> EfiConventionalMemory \<Longrightarrow> holds s a T \<Longrightarrow> \<not> in_pages p (arena_pages x) a \<Longrightarrow> holds s' a T"
  shows "arenas_ok (G(p := None)) s'"
  unfolding arenas_ok_def
proof (intro conjI allI impI)
  fix q y assume q: "(G(p := None)) q = Some y"
  then have "q \<noteq> p" "G q = Some y" by (auto split: if_splits)
  moreover have "\<not> in_pages p (arena_pages x) a" if "in_pages q (arena_pages y) a" for a
    using assms(1,2) that calculation unfolding arenas_ok_def by blast
  moreover have "arena_ok s q y" using assms(1) calculation(2) by (simp add: arenas_ok_def)
  ultimately show "arena_ok s' q y" using assms(3) by (simp add: arena_ok_def)
next
  fix q r y z a
  assume "(G(p := None)) q = Some y" "(G(p := None)) r = Some z" "in_pages q (arena_pages y) a" "in_pages r (arena_pages z) a"
  then show "q = r" using assms(1) unfolding arenas_ok_def by (auto split: if_splits)
qed

lemma block_at_dropped: "block_at (G(p := None)) a T k \<Longrightarrow> block_at G a T k"
  by (auto simp: block_at_def split: if_splits)

lemma slot_dropped:
  assumes "arenas_ok G s" "G p = Some x" "slot (G(p := None)) a T n"
  shows "slot G a T n" "within a n c \<Longrightarrow> \<not> in_pages p (arena_pages x) c"
proof -
  have d: "G a = Some y" if "(G(p := None)) a = Some y" for a y using that by (cases "a = p") simp_all
  show "slot G a T n" using assms(3) block_at_dropped d unfolding slot_def by blast
  have "arenas_ok (G(p := None)) s" by (rule drop_arena [OF assms(1,2)])
  from slot_arena [OF this assms(3)] obtain q y where
    q: "(G(p := None)) q = Some y" "unat q \<le> unat a" "unat a + n \<le> unat q + arena_pages y * 4096" by blast
  then have n: "q \<noteq> p" "G q = Some y" using d by auto
  assume "within a n c"
  then have "in_pages q (arena_pages y) c" using q(2,3) by (simp add: in_pages_within within_def)
  then show "\<not> in_pages p (arena_pages x) c" using assms(1,2) n unfolding arenas_ok_def by blast
qed

lemma drop_blocks:
  assumes "arenas_ok G s" "blocks_ok G B W L" "G p = Some x"
    and "\<And>a. \<not> in_pages p (arena_pages x) a \<Longrightarrow> B' a = B a \<and> W' a = W a"
    and "\<And>U k. distinct (L' U k)" "\<And>U k a. a \<in> set (L' U k) \<longleftrightarrow> a \<in> set (L U k) \<and> \<not> in_pages p (arena_pages x) a"
  shows "blocks_ok (G(p := None)) B' W' L'"
proof -
  note b = blocks_okD [OF assms(2)]
  let ?G = "G(p := None)"
  have f: "B' c = B c" "\<And>Z. used_ok W c m Z \<Longrightarrow> used_ok W' c m Z" "\<not> in_pages p (arena_pages x) c" if "slot ?G c U m" for c U m
  proof -
    note g = slot_dropped(1) [OF assms(1,3) that]
    have o: "\<not> in_pages p (arena_pages x) y" if "within c m y" for y
      using slot_dropped(2) [OF assms(1,3) \<open>slot ?G c U m\<close> that] .
    show n: "\<not> in_pages p (arena_pages x) c" by (rule o [OF within_start [OF slot_bound(3) [OF assms(1) g]]])
    show "B' c = B c" using assms(4) n by blast
    show "used_ok W' c m Z" if "used_ok W c m Z" for Z
      using used_frame [OF assms(1) g that] assms(4) o by metis
  qed
  show ?thesis
    unfolding blocks_ok_def
  proof (intro conjI allI impI ballI)
    fix c U k assume c: "block_at ?G c U k"
    show "B' c = Some (POOL_FREE k) \<and> c \<in> set (L' U k) \<or> (\<exists>Size. B' c = Some (POOL_HEAD U Size) \<and> unat (SIZE_TO_LIST Size) = k)"
      using b(1) [OF block_at_dropped [OF c]] f(1,3) [OF block_slot [OF c]] assms(6) by simp
  next
    fix q U Z assume q: "?G q = Some (Large U Z)"
    then have "G q = Some (Large U Z)" by (auto split: if_splits)
    then show "B' q = Some (POOL_HEAD U Z)" "32 \<le> SIZE_TO_LIST Z" using b(2) f(1) [OF large_slot [where G = ?G, OF q]] by simp_all
  next
    fix c V m U Z assume c: "slot ?G c V m" "B' c = Some (POOL_HEAD U Z)"
    then show "used_ok W' c m Z" using f [OF c(1)] b(3) [OF slot_dropped(1) [OF assms(1,3) c(1)]] by metis
  next
    fix U k
    show "distinct (L' U k)" by (rule assms(5))
    fix c assume "c \<in> set (L' U k)"
    then have c: "c \<in> set (L U k)" "\<not> in_pages p (arena_pages x) c" using assms(6) by blast+
    obtain q i off where q: "G q = Some (Carved U i)" "(off, k) \<in> set (pool_blocks i 0)" "c = q + of_nat off"
      using b(5) [OF c(1)] by (auto simp: block_at_def)
    note a = block_arena [OF assms(1) q(1,2)]
    have "in_pages q 1 c" using a(1,2) q(3) LIST_TO_SIZE_bounds(1) [of k] by (simp add: in_pages_def)
    then have "q \<noteq> p" using c(2) q(1) assms(3) by auto
    then show "block_at ?G c U k" using q by (auto simp: block_at_def)
    show "B' c = Some (POOL_FREE k)" using b(5) [OF c(1)] assms(4) [OF c(2)] by simp
  qed
qed

end
