(* ===== verification/PoolSafe.thy ===== *)
theory PoolSafe
  imports PoolRun
begin

text \<open>
  The pool services: buffers that are in use never overlap, and allocating and freeing one leaves the others alone.
\<close>

section \<open>The state\<close>

definition list_of :: "'e pools \<Rightarrow> u32 \<Rightarrow> nat \<Rightarrow> u64 list" where
  "list_of st T k = (case pool_of st T of None \<Rightarrow> [] | Some p \<Rightarrow> FreeList p k)"

definition pool_ok :: "(u64 \<Rightarrow> arena option) \<Rightarrow> 'e pools \<Rightarrow> bool" where
  "pool_ok G st \<longleftrightarrow> mem_ok (PageState st) \<and> arenas_ok G (PageState st) \<and> blocks_ok G (Blocks st) (Tails st) (list_of st)"

text \<open>A buffer in use: its header is at \<open>a\<close>, and it is \<open>Size\<close> bytes long with header and tail.\<close>

definition live :: "(u64 \<Rightarrow> arena option) \<Rightarrow> 'e pools \<Rightarrow> u64 \<Rightarrow> u32 \<Rightarrow> u64 \<Rightarrow> bool" where
  "live G st a T Size \<longleftrightarrow> Blocks st a = Some (POOL_HEAD T Size) \<and> (\<exists>n. slot G a T n)"

lemma put_pool_fields [simp]:
  "PageState (put_pool T f st) = PageState st" "Blocks (put_pool T f st) = Blocks st" "Tails (put_pool T f st) = Tails st"
  by (simp_all add: put_pool_def)

lemma map_of_put_listed:
  "map_of (put_listed T f l) U = (if U = T then map_option (apsnd f) (map_of l U) else map_of l U)"
  by (induction T f l rule: put_listed.induct) auto

lemma pool_of_put: "pool_of (put_pool T f st) U = (if U = T then map_option f (pool_of st U) else pool_of st U)"
  by (auto simp: pool_of_def put_pool_def map_of_put_listed option.map_comp comp_def word_unat_eq_iff [symmetric])

lemma pool_of_fields [simp]:
  "pool_of (st\<lparr>PageState := s\<rparr>) = pool_of st" "pool_of (st\<lparr>Blocks := B\<rparr>) = pool_of st" "pool_of (st\<lparr>Tails := W\<rparr>) = pool_of st"
  "list_of (st\<lparr>PageState := s\<rparr>) = list_of st" "list_of (st\<lparr>Blocks := B\<rparr>) = list_of st" "list_of (st\<lparr>Tails := W\<rparr>) = list_of st"
  by (simp_all add: pool_of_def list_of_def fun_eq_iff)

lemma pool_of_clear [simp]: "pool_of (DebugClearBlocks env a n st) = pool_of st" "list_of (DebugClearBlocks env a n st) = list_of st"
  by (simp_all add: DebugClearBlocks_def)

lemma clear_fields:
  "mem_ok (PageState (DebugClearBlocks env a n st)) = mem_ok (PageState st)" "owns (PageState (DebugClearBlocks env a n st)) = owns (PageState st)"
  "holds (PageState (DebugClearBlocks env a n st)) = holds (PageState st)" "gMemoryLock (PageState (DebugClearBlocks env a n st)) = gMemoryLock (PageState st)"
  by (simp_all add: DebugClearBlocks_def mem_ok_def holds_def [abs_def])

lemma clear_blocks: "\<not> x - a < n \<Longrightarrow> Blocks (DebugClearBlocks env a n st) x = Blocks st x \<and> Tails (DebugClearBlocks env a n st) x = Tails st x"
  by (simp add: DebugClearBlocks_def)

lemma list_of_used: "list_of (put_pool T (\<lambda>p. p\<lparr>Used := f p\<rparr>) st) = list_of st"
  by (auto simp: list_of_def pool_of_put fun_eq_iff split: option.splits)

lemma list_of_push:
  assumes "pool_of st T \<noteq> None"
  shows "list_of (put_pool T (\<lambda>p. p\<lparr>FreeList := (FreeList p)(k := a # FreeList p k)\<rparr>) st) =
    (\<lambda>U l. if U = T \<and> l = k then a # list_of st U l else list_of st U l)"
  using assms by (auto simp: list_of_def pool_of_put fun_eq_iff split: option.splits)

lemma unlink_fields [simp]:
  "PageState (unlink_block a st) = PageState st" "Blocks (unlink_block a st) = Blocks st" "Tails (unlink_block a st) = Tails st"
  by (simp_all add: unlink_block_def Let_def)

lemma map_of_map_snd: "map_of (map (\<lambda>(T, s, p). (T, s, f p)) l) U = map_option (apsnd f) (map_of l U)"
  by (induction l) auto

lemma pool_of_unlink: "pool_of (unlink_block a st) U = map_option (\<lambda>p. p\<lparr>FreeList := \<lambda>i. removeAll a (FreeList p i)\<rparr>) (pool_of st U)"
  by (auto simp: pool_of_def unlink_block_def Let_def map_of_map_snd option.map_comp comp_def)

lemma list_of_unlink: "list_of (unlink_block a st) = (\<lambda>U l. removeAll a (list_of st U l))"
  by (auto simp: list_of_def pool_of_unlink fun_eq_iff split: option.splits)

lemma arenas_ok_cong: "holds s' = holds s \<Longrightarrow> arenas_ok G s' = arenas_ok G s"
  by (simp add: arenas_ok_def arena_ok_def)

lemma arenas_ok_keeps:
  assumes "arenas_ok G s" "keeps_allocated s s'"
  shows "arenas_ok G s'"
proof -
  have "arena_ok s' p x" if "G p = Some x" for p x
  proof -
    have "arena_ok s p x" using assms(1) that by (simp add: arenas_ok_def)
    moreover have "holds s a T \<Longrightarrow> T \<noteq> EfiConventionalMemory \<Longrightarrow> holds s' a T" for a T
      using assms(2) by (auto simp: keeps_allocated_def holds_def)
    ultimately show ?thesis by (simp add: arena_ok_def)
  qed
  then show ?thesis using assms(1) unfolding arenas_ok_def by blast
qed

section \<open>Carving\<close>

lemma carve_blocks:
  assumes "pool_of st T \<noteq> None"
  shows "PageState (fold (carve_block p T) bl st) = PageState st \<and> Tails (fold (carve_block p T) bl st) = Tails st \<and>
    pool_of (fold (carve_block p T) bl st) T \<noteq> None \<and>
    (\<forall>a. a \<notin> (\<lambda>b. p + of_nat (fst b)) ` set bl \<longrightarrow> Blocks (fold (carve_block p T) bl st) a = Blocks st a) \<and>
    (distinct (map (\<lambda>b. p + of_nat (fst b)) bl) \<longrightarrow> (\<forall>b\<in>set bl. Blocks (fold (carve_block p T) bl st) (p + of_nat (fst b)) = Some (POOL_FREE (snd b)))) \<and>
    list_of (fold (carve_block p T) bl st) =
      (\<lambda>U k. (if U = T then rev (map (\<lambda>b. p + of_nat (fst b)) (filter (\<lambda>b. snd b = k) bl)) else []) @ list_of st U k)"
  using assms(1)
proof (induction bl arbitrary: st)
  case (Cons b bl)
  obtain x k where b: "b = (x, k)" by (cases b)
  define st1 where "st1 = carve_block p T (x, k) st"
  have p1: "pool_of st1 T \<noteq> None" using Cons(2) by (simp add: st1_def pool_of_put Let_def)
  have l1: "list_of st1 = (\<lambda>U l. if U = T \<and> l = k then (p + of_nat x) # list_of st U l else list_of st U l)"
    using list_of_push [of "st\<lparr>Blocks := (Blocks st)(p + of_nat x \<mapsto> POOL_FREE k)\<rparr>" T k "p + of_nat x"] Cons(2) by (simp add: st1_def Let_def cong: if_cong)
  have B1: "Blocks st1 = (Blocks st)(p + of_nat x \<mapsto> POOL_FREE k)" "PageState st1 = PageState st" "Tails st1 = Tails st"
    by (simp_all add: st1_def Let_def)
  note ih = Cons(1) [OF p1]
  have "Blocks (fold (carve_block p T) bl st1) (p + of_nat x) = Some (POOL_FREE k)"
    if "p + of_nat x \<notin> (\<lambda>b. p + of_nat (fst b)) ` set bl" using ih B1(1) that by simp
  then show ?case
    unfolding b fold.simps comp_apply st1_def [symmetric]
    using ih B1 l1 by (auto simp: fun_eq_iff)
qed (simp cong: if_cong)

lemma carve_distinct:
  assumes "unat (p :: u64) + 4096 < 2 ^ 64"
  shows "distinct (map (\<lambda>b. p + of_nat (fst b)) (pool_blocks i 0))"
proof -
  have "distinct (map (\<lambda>b. p + of_nat (fst b)) bl)"
    if "sorted_wrt (\<lambda>b c. fst b + LIST_TO_SIZE (snd b) \<le> fst c) bl" "\<forall>b\<in>set bl. fst b < 4096" for bl :: "(nat \<times> nat) list"
    using that
  proof (induction bl)
    case (Cons b bl)
    have "p + of_nat (fst b) \<noteq> p + of_nat (fst c)" if c: "c \<in> set bl" for c
    proof
      assume h: "p + of_nat (fst b) = p + of_nat (fst c)"
      have "fst b < fst c" using Cons(2) c LIST_TO_SIZE_bounds(1) [of "snd b"] by fastforce
      moreover have "unat (p + of_nat (fst b)) = unat p + fst b" "unat (p + of_nat (fst c)) = unat p + fst c"
        using unat_offset [OF assms] Cons(3) c by (simp_all add: less_imp_le)
      ultimately show False using h by simp
    qed
    then show ?case using Cons by auto
  qed simp
  moreover have "\<forall>b\<in>set (pool_blocks i 0). fst b < 4096"
  proof
    fix b assume "b \<in> set (pool_blocks i 0)"
    then have "fst b + LIST_TO_SIZE (snd b) \<le> 4096" using pool_blocks_bounds [of "fst b" "snd b" i 0] by simp
    then show "fst b < 4096" using LIST_TO_SIZE_bounds(1) [of "snd b"] by simp
  qed
  ultimately show ?thesis using pool_blocks_apart by blast
qed

lemma carve_page_ok:
  assumes "arenas_ok G s" "blocks_ok G (Blocks st) (Tails st) (list_of st)" "arenas_ok (G(p \<mapsto> Carved T i)) s'" "G p = None"
    and "\<forall>b U m a. slot G b U m \<longrightarrow> within b m a \<longrightarrow> \<not> in_pages p 1 a" "pool_of st T \<noteq> None"
  shows "blocks_ok (G(p \<mapsto> Carved T i)) (Blocks (carve_page p T i st)) (Tails (carve_page p T i st)) (list_of (carve_page p T i st))"
    "PageState (carve_page p T i st) = PageState st" "pool_of (carve_page p T i st) T \<noteq> None"
    "i < 32 \<Longrightarrow> list_of (carve_page p T i st) T i \<noteq> []"
    "slot G b U m \<Longrightarrow> Blocks (carve_page p T i st) b = Blocks st b"
    "slot (G(p \<mapsto> Carved T i)) b U m \<Longrightarrow> slot G b U m \<or> (\<exists>k. Blocks (carve_page p T i st) b = Some (POOL_FREE k))"
proof -
  let ?bl = "pool_blocks i 0" and ?f = "\<lambda>b :: nat \<times> nat. p + of_nat (fst b)" and ?st = "carve_page p T i st" and ?G = "G(p \<mapsto> Carved T i)"
  have "arena_ok s' p (Carved T i)" using assms(3) by (simp add: arenas_ok_def)
  then have pb: "unat p + 4096 < 2 ^ 64" by (simp add: arena_ok_def)
  note d = carve_distinct [OF pb, of i]
  note c = carve_blocks [OF assms(6), of p ?bl, folded carve_page_def]
  have B: "Blocks ?st (p + of_nat off) = Some (POOL_FREE k)" if "(off, k) \<in> set ?bl" for off k
    using c d that by (metis fst_conv snd_conv)
  have L: "list_of ?st = (\<lambda>U k. (if U = T then rev (map ?f (filter (\<lambda>b. snd b = k) ?bl)) else []) @ list_of st U k)" using c by blast
  have ip: "in_pages p 1 (p + of_nat off)" if "(off, k) \<in> set ?bl" for off k
  proof -
    have "off + LIST_TO_SIZE k \<le> 4096" using pool_blocks_bounds [OF that] by simp
    then show ?thesis using unat_offset [OF pb, of off] LIST_TO_SIZE_bounds(1) [of k] by (simp add: in_pages_def)
  qed
  have out: "Blocks ?st a = Blocks st a" if "\<not> in_pages p 1 a" for a
  proof -
    have "a \<notin> ?f ` set ?bl" using ip that by (metis (no_types, lifting) imageE prod.collapse)
    then show ?thesis using c by blast
  qed
  have new: "set (map ?f (filter (\<lambda>b. snd b = k) ?bl)) = {p + of_nat off |off. (off, k) \<in> set ?bl}" for k by force
  have old: "\<not> in_pages p 1 a" if "a \<in> set (list_of st U k)" for a U k
    using blocks_okD(5) [OF assms(2) that] assms(5) [rule_format, OF block_slot within_start [OF LIST_TO_SIZE_bounds(1)]] by blast
  show "blocks_ok ?G (Blocks ?st) (Tails ?st) (list_of ?st)"
  proof -
    have T: "Tails ?st = Tails st" using c by blast
    have "set (list_of ?st U k) = set (list_of st U k) \<union> (if U = T then {p + of_nat off |off. (off, k) \<in> set ?bl} else {})" for U k
      unfolding L using new [of k] by auto
    moreover have "distinct (list_of ?st U k)" for U k
    proof -
      have "distinct (map ?f (filter (\<lambda>b. snd b = k) ?bl))" using d by (simp add: distinct_map_filter)
      moreover have "set (map ?f (filter (\<lambda>b. snd b = k) ?bl)) \<inter> set (list_of st U k) = {}"
        unfolding new using ip old by blast
      ultimately show ?thesis unfolding L using blocks_okD(4) [OF assms(2)] by (cases "U = T") simp_all
    qed
    ultimately show ?thesis unfolding T using add_page [OF assms(1,2,3,4)] assms(5) out B by blast
  qed
  show "PageState ?st = PageState st" "pool_of ?st T \<noteq> None" using c by blast+
  show "list_of ?st T i \<noteq> []" if "i < 32" using pool_blocks_first [OF that] unfolding L by (force simp: filter_empty_conv)
  show "Blocks ?st b = Blocks st b" if "slot G b U m"
    using out assms(5) [rule_format, OF that within_start [OF slot_bound(3) [OF assms(1) that]]] by blast
  show "slot G b U m \<or> (\<exists>k. Blocks ?st b = Some (POOL_FREE k))" if h: "slot ?G b U m"
  proof (cases "\<exists>k. block_at ?G b U k \<and> m = LIST_TO_SIZE k")
    case True
    then show ?thesis using block_at_carved(1) [where G = G, OF assms(4)] B by (auto simp: slot_def)
  next
    case False
    then show ?thesis using h by (auto simp: slot_def split: if_splits)
  qed
qed

lemma pop_free_unlinks:
  assumes "pop_free T k st = Some (h, st')"
  shows "h = hd (list_of st T k) \<and> st' = unlink_block h st \<and> list_of st T k \<noteq> []"
proof -
  obtain q where q: "pool_of st T = Some q" using assms by (auto simp: pop_free_def)
  then show ?thesis using assms by (cases "FreeList q k") (auto simp: pop_free_def list_of_def)
qed

section \<open>Sizes\<close>

lemma SIZE_TO_LIST_unat: "unat (SIZE_TO_LIST Size) = unat Size div 128"
proof -
  have "unat (drop_bit 7 Size) = drop_bit 7 (unat Size)" by (rule unat_drop_bit_eq)
  then show ?thesis unfolding SIZE_TO_LIST_def by (simp only: drop_bit_eq_div [of 7 "unat Size"]) simp
qed

lemma small_list:
  assumes "\<not> 32 \<le> SIZE_TO_LIST Size"
  shows "unat (SIZE_TO_LIST Size) < 32" "unat Size \<le> LIST_TO_SIZE (unat (SIZE_TO_LIST Size))"
proof -
  show "unat (SIZE_TO_LIST Size) < 32" using assms by (simp add: word_le_nat_alt)
  show "unat Size \<le> LIST_TO_SIZE (unat (SIZE_TO_LIST Size))" by (simp add: SIZE_TO_LIST_unat LIST_TO_SIZE_def)
qed

lemma pool_pages_unat: "unat (pool_pages Size) = unat Size div 4096 + (if unat Size mod 4096 = 0 then 0 else 1)"
proof -
  have p: "pool_pages Size = EFI_SIZE_TO_PAGES Size" by (simp add: pool_pages_def EFI_SIZE_TO_PAGES_def)
  have "unat (drop_bit 12 Size) = drop_bit 12 (unat Size)" by (rule unat_drop_bit_eq)
  then have d: "unat (drop_bit 12 Size) = unat Size div 4096" by (simp only: drop_bit_eq_div [of 12 "unat Size"]) simp
  have m: "Size AND EFI_PAGE_MASK \<noteq> 0 \<longleftrightarrow> unat Size mod 4096 \<noteq> 0"
    using page_aligned_dvd [of Size] by (simp add: page_aligned_def dvd_eq_mod_eq_0)
  have "unat Size < 2 ^ 64" using unsigned_less [of Size] by simp
  then have "unat Size div 4096 < 2 ^ 52" by (simp add: less_mult_imp_div_less)
  then have "unat (drop_bit 12 Size + 1) = unat Size div 4096 + 1" using d by (simp add: unat_word_ariths(1))
  then show ?thesis unfolding p EFI_SIZE_TO_PAGES_def using d m by simp
qed

lemma pool_pages_bounds:
  assumes "unat Size < 2 ^ 64 - 4096" "32 \<le> SIZE_TO_LIST Size"
  shows "unat Size \<le> unat (pool_pages Size) * 4096" "unat (pool_pages Size) < 2 ^ 52" "0 < unat (pool_pages Size)" "pool_pages Size \<noteq> 0"
proof -
  let ?n = "unat Size"
  have "?n div 4096 * 4096 + ?n mod 4096 = ?n" by simp
  then show b: "?n \<le> unat (pool_pages Size) * 4096" using mod_less_divisor [of 4096 ?n] unfolding pool_pages_unat by auto
  have "?n div 4096 < 2 ^ 52 - 1" using assms(1) by (simp add: less_mult_imp_div_less)
  then show "unat (pool_pages Size) < 2 ^ 52" unfolding pool_pages_unat by auto
  have "32 \<le> ?n div 128" using assms(2) by (simp add: word_le_nat_alt SIZE_TO_LIST_unat)
  then have "0 < ?n" by (cases "?n = 0") auto
  then show p: "0 < unat (pool_pages Size)" using b by (cases "unat (pool_pages Size) = 0") simp_all
  then show "pool_pages Size \<noteq> 0" by auto
qed

section \<open>Taking a slot\<close>

text \<open>The slot \<open>h\<close> has been taken and waits for its header and tail.\<close>

definition ready :: "(u64 \<Rightarrow> arena option) \<Rightarrow> 'e pools \<Rightarrow> (u64 \<Rightarrow> arena option) \<Rightarrow> 'e pools \<Rightarrow> u64 \<Rightarrow> u32 \<Rightarrow> nat \<Rightarrow> u64 \<Rightarrow> bool" where
  "ready G st G' st' h T n Size \<longleftrightarrow>
     mem_ok (PageState st') \<and> gMemoryLock (PageState st') = gMemoryLock (PageState st) \<and> arenas_ok G' (PageState st') \<and>
     slot G' h T n \<and> unat Size \<le> n \<and>
     (\<forall>B' W'. (\<forall>x. \<not> within h n x \<longrightarrow> B' x = Blocks st' x \<and> W' x = Tails st' x) \<longrightarrow> B' h = Some (POOL_HEAD T Size) \<longrightarrow>
        used_ok W' h n Size \<longrightarrow> blocks_ok G' B' W' (list_of st')) \<and>
     (\<forall>a U m. slot G a U m \<longrightarrow> slot G' a U m \<and> Blocks st' a = Blocks st a) \<and>
     (\<forall>a U m. slot G' a U m \<longrightarrow> a \<noteq> h \<longrightarrow> slot G a U m \<or> (\<exists>k. Blocks st' a = Some (POOL_FREE k))) \<and>
     (\<forall>V S. \<not> live G st h V S)"

lemma take_first:
  assumes "pool_ok G st" "list_of st T k = h # l" "unat (SIZE_TO_LIST Size) = k" "unat Size \<le> LIST_TO_SIZE k"
  shows "ready G st G (unlink_block h st) h T (LIST_TO_SIZE k) Size"
proof -
  have s: "mem_ok (PageState st)" "arenas_ok G (PageState st)" "blocks_ok G (Blocks st) (Tails st) (list_of st)"
    using assms(1) by (simp_all add: pool_ok_def)
  have h: "block_at G h T k" "Blocks st h = Some (POOL_FREE k)" using blocks_okD(5) [OF s(3), of h T k] assms(2) by simp_all
  have "blocks_ok G B' W' (list_of (unlink_block h st))"
    if "\<forall>x. \<not> within h (LIST_TO_SIZE k) x \<longrightarrow> B' x = Blocks st x \<and> W' x = Tails st x" "B' h = Some (POOL_HEAD T Size)" "used_ok W' h (LIST_TO_SIZE k) Size" for B' W'
    by (rule fill_slot [OF s(2,3) h(1) that assms(3) list_of_unlink])
  then show ?thesis using s h assms(4) by (simp add: ready_def live_def block_slot)
qed

context page_source
begin

lemma AllocatePages_ok:
  assumes "AllocatePages env free T P st = Some (p, st')" "pool_ok G st" "T \<noteq> EfiConventionalMemory" "P \<noteq> 0" "unat P < 2 ^ 52"
  obtains s' where "st' = st\<lparr>PageState := s'\<rparr>" "mem_ok s'" "gMemoryLock s' = gMemoryLock (PageState st)" "keeps_allocated (PageState st) s'"
    "pool_ok G st'" "p \<noteq> 0 \<longrightarrow> fresh_pages p (unat P) T (PageState st) s'"
proof -
  obtain s' where s': "CoreAllocatePoolPages (PagesEnv env) free T P DEFAULT_PAGE_ALLOCATION (PageState st) = Some (p, s')" "st' = st\<lparr>PageState := s'\<rparr>"
    using assms(1) by (auto simp: AllocatePages_def)
  have m: "mem_ok (PageState st)" "arenas_ok G (PageState st)" using assms(2) by (simp_all add: pool_ok_def)
  note t = pages_taken [OF s'(1) m(1) assms(3-5)]
  have "pool_ok G st'" using assms(2) t arenas_ok_keeps [OF m(2)] unfolding s'(2) by (simp add: pool_ok_def)
  then show thesis using that s'(2) t by blast
qed

lemma take_large:
  assumes "AllocatePages env free T (pool_pages Size) st = Some (h, st')" "pool_ok G st" "T \<noteq> EfiConventionalMemory" "h \<noteq> 0"
    and "unat Size < 2 ^ 64 - 4096" "32 \<le> SIZE_TO_LIST Size"
  shows "ready G st (G(h \<mapsto> Large T Size)) st' h T (unat (pool_pages Size) * 4096) Size"
proof -
  note p = pool_pages_bounds [OF assms(5,6)]
  let ?n = "unat (pool_pages Size)" and ?x = "Large T Size"
  obtain s' where s': "st' = st\<lparr>PageState := s'\<rparr>" "mem_ok s'" "gMemoryLock s' = gMemoryLock (PageState st)" "keeps_allocated (PageState st) s'"
    "pool_ok G st'" "h \<noteq> 0 \<longrightarrow> fresh_pages h ?n T (PageState st) s'"
    by (rule AllocatePages_ok [OF assms(1-3) p(4,2)])
  have s: "arenas_ok G (PageState st)" "blocks_ok G (Blocks st) (Tails st) (list_of st)" using assms(2) by (simp_all add: pool_ok_def)
  have f: "fresh_pages h (arena_pages ?x) (arena_type ?x) (PageState st) s'" "arena_type ?x \<noteq> EfiConventionalMemory" "arena_fits ?x"
    using s'(6) assms(3,4) p by simp_all
  note a = fresh_arena [OF s(1) s'(4) f(1) assms(4) f(2,3)]
  have o: "\<not> in_pages h ?n y" if "slot G b U m" "within b m y" for b U m y using a(3) [OF that] by simp
  have "blocks_ok (G(h \<mapsto> ?x)) B' W' (list_of st)"
    if B: "\<forall>x. \<not> within h (?n * 4096) x \<longrightarrow> B' x = Blocks st x \<and> W' x = Tails st x" "B' h = Some (POOL_HEAD T Size)" "used_ok W' h (?n * 4096) Size" for B' W'
  proof -
    have "\<not> in_pages h ?n x \<Longrightarrow> B' x = Blocks st x \<and> W' x = Tails st x" for x using B(1) by (simp add: in_pages_within)
    from add_large [OF s a(2) o this B(2,3) assms(6) refl p(3)] show ?thesis .
  qed
  moreover have "slot G b U m \<Longrightarrow> slot (G(h \<mapsto> ?x)) b U m" for b U m
    using block_at_carved(2) [where G = G, OF a(2)] a(2) by (auto simp: slot_def)
  moreover have "slot (G(h \<mapsto> ?x)) b U m \<Longrightarrow> b \<noteq> h \<Longrightarrow> slot G b U m" for b U m
    using block_at_carved(2) [where G = G, OF a(2)] by (auto simp: slot_def)
  moreover have "slot (G(h \<mapsto> ?x)) h T (?n * 4096)" by (auto simp: slot_def)
  moreover have "\<not> live G st h V S" for V S
  proof
    assume "live G st h V S"
    then obtain m where m: "slot G h V m" by (auto simp: live_def)
    then have "\<not> in_pages h ?n h" using o within_start [OF slot_bound(3) [OF s(1) m]] by blast
    then show False using p(3) by (simp add: in_pages_def)
  qed
  ultimately show ?thesis using s'(2,3) a(1) p(1) unfolding s'(1) by (simp add: ready_def)
qed

lemma ready_trans:
  assumes "pool_ok G st" "pool_ok G1 st1" "ready G1 st1 G' st' h T n Size" "gMemoryLock (PageState st1) = gMemoryLock (PageState st)"
    and "\<And>a U m. slot G a U m \<Longrightarrow> slot G1 a U m \<and> Blocks st1 a = Blocks st a"
    and "\<And>a U m. slot G1 a U m \<Longrightarrow> slot G a U m \<or> (\<exists>k. Blocks st1 a = Some (POOL_FREE k))"
  shows "ready G st G' st' h T n Size"
proof -
  have "\<not> live G st h V S" for V S using assms(3,5) unfolding ready_def live_def by metis
  moreover have "slot G a U m \<Longrightarrow> slot G' a U m \<and> Blocks st' a = Blocks st a" for a U m
    using assms(3,5) unfolding ready_def by metis
  moreover have "slot G a U m \<or> (\<exists>k. Blocks st' a = Some (POOL_FREE k))" if "slot G' a U m" "a \<noteq> h" for a U m
  proof (cases "slot G1 a U m")
    case True
    then have "Blocks st' a = Blocks st1 a" using assms(3) unfolding ready_def by blast
    then show ?thesis using assms(6) [OF True] by simp
  next
    case False
    then show ?thesis using assms(3) that unfolding ready_def by blast
  qed
  ultimately show ?thesis using assms(3,4) unfolding ready_def by simp
qed

lemma take_listed:
  assumes "pop_free T k st = Some (h, st')" "pool_ok G st" "unat (SIZE_TO_LIST Size) = k" "unat Size \<le> LIST_TO_SIZE k"
  shows "ready G st G st' h T (LIST_TO_SIZE k) Size" "h \<noteq> 0"
proof -
  have s: "arenas_ok G (PageState st)" "blocks_ok G (Blocks st) (Tails st) (list_of st)" using assms(2) by (simp_all add: pool_ok_def)
  obtain l where l: "list_of st T k = h # l" "st' = unlink_block h st"
    using pop_free_unlinks [OF assms(1)] by (cases "list_of st T k") auto
  then show "ready G st G st' h T (LIST_TO_SIZE k) Size" using take_first [OF assms(2) l(1) assms(3,4)] by simp
  have "block_at G h T k" using blocks_okD(5) [OF s(2), of h T k] l(1) by simp
  then show "h \<noteq> 0" using slot_bound(2) [OF s(1) block_slot] by blast
qed

text \<open>A new page: it has been carved, and its first block is taken.\<close>

lemma take_new_page:
  assumes "AllocatePages env free T 1 st = Some (p, st1)" "p \<noteq> 0" "pop_free T k (carve_page p T k st1) = Some (h, st')"
    and "pool_ok G st" "T \<noteq> EfiConventionalMemory" "pool_of st T \<noteq> None"
    and "unat (SIZE_TO_LIST Size) = k" "unat Size \<le> LIST_TO_SIZE k" "k < 32"
  shows "ready G st (G(p \<mapsto> Carved T k)) st' h T (LIST_TO_SIZE k) Size" "h \<noteq> 0"
proof -
  let ?x = "Carved T k" and ?st = "carve_page p T k st1"
  let ?G = "G(p \<mapsto> ?x)"
  have s: "arenas_ok G (PageState st)" "blocks_ok G (Blocks st) (Tails st) (list_of st)" using assms(4) by (simp_all add: pool_ok_def)
  obtain s' where s': "st1 = st\<lparr>PageState := s'\<rparr>" "mem_ok s'" "gMemoryLock s' = gMemoryLock (PageState st)" "keeps_allocated (PageState st) s'"
      "fresh_pages p 1 T (PageState st) s'"
    using AllocatePages_ok [OF assms(1,4,5)] assms(2) by auto
  have f: "fresh_pages p (arena_pages ?x) (arena_type ?x) (PageState st) s'" "arena_type ?x \<noteq> EfiConventionalMemory" "arena_fits ?x"
    using s'(5) assms(5,9) by simp_all
  note n = fresh_arena [OF s(1) s'(4) f(1) assms(2) f(2,3)]
  have o: "\<forall>b U m y. slot G b U m \<longrightarrow> within b m y \<longrightarrow> \<not> in_pages p 1 y" using n(3) by simp
  have s1: "blocks_ok G (Blocks st1) (Tails st1) (list_of st1)" "pool_of st1 T \<noteq> None" using s(2) assms(6) unfolding s'(1) by simp_all
  note c = carve_page_ok [OF s(1) s1(1) n(1,2) o s1(2)]
  have ok: "pool_ok ?G ?st" using c(1,2) n(1) s'(1,2) by (simp add: pool_ok_def)
  note r = take_listed [OF assms(3) ok assms(7,8)]
  have g: "slot ?G b U m \<and> Blocks ?st b = Blocks st b" if h: "slot G b U m" for b U m
  proof -
    have "slot ?G b U m" using h block_at_carved(1) [where G = G, OF n(2)] n(2) by (auto simp: slot_def)
    then show ?thesis using c(5) [OF h] s'(1) by simp
  qed
  have "gMemoryLock (PageState ?st) = gMemoryLock (PageState st)" using c(2) s'(1,3) by simp
  from ready_trans [OF assms(4) ok r(1) this g c(6)] show "ready G st ?G st' h T (LIST_TO_SIZE k) Size" .
  show "h \<noteq> 0" by (rule r(2))
qed

lemma take_block_ok:
  assumes "take_block env free T Size st = Some (h, st')" "pool_ok G st" "T \<noteq> EfiConventionalMemory" "unat Size < 2 ^ 64 - 4096"
  shows "if h = 0 then pool_ok G st' \<and> gMemoryLock (PageState st') = gMemoryLock (PageState st) \<and> Blocks st' = Blocks st
    else \<exists>G' n. ready G st G' st' h T n Size \<and> (\<not> 32 \<le> SIZE_TO_LIST Size \<longrightarrow> n = LIST_TO_SIZE (unat (SIZE_TO_LIST Size)))"
proof (cases "32 \<le> SIZE_TO_LIST Size")
  case True
  then have t: "AllocatePages env free T (pool_pages Size) st = Some (h, st')" using assms(1) by (simp add: take_block_def)
  note p = pool_pages_bounds [OF assms(4) True]
  obtain s' where "st' = st\<lparr>PageState := s'\<rparr>" "gMemoryLock s' = gMemoryLock (PageState st)" "pool_ok G st'"
    by (rule AllocatePages_ok [OF t assms(2,3) p(4,2)])
  then show ?thesis using take_large [OF t assms(2,3) _ assms(4) True] True by auto
next
  case False
  define k where "k = unat (SIZE_TO_LIST Size)"
  note k = small_list [OF False, folded k_def]
  obtain pool where pool: "pool_of st T = Some pool" using assms(1) False by (auto simp: take_block_def Let_def)
  show ?thesis
  proof (cases "FreeList pool k = []")
    case empty: False
    then have "pop_free T k st = Some (h, st')" using assms(1) False pool by (simp add: take_block_def Let_def k_def)
    from take_listed [OF this assms(2) k_def [symmetric] k(2)] show ?thesis by (auto simp: k_def)
  next
    case True
    have one: "EFI_SIZE_TO_PAGES DEFAULT_PAGE_ALLOCATION = 1" by (simp add: EFI_SIZE_TO_PAGES_def)
    obtain p st1 where a: "AllocatePages env free T 1 st = Some (p, st1)" "p = 0 \<Longrightarrow> h = 0 \<and> st' = st1"
        "p \<noteq> 0 \<Longrightarrow> pop_free T k (carve_page p T k st1) = Some (h, st')"
      using assms(1) False True pool unfolding one by (auto simp: take_block_def Let_def k_def one split: if_splits)
    show ?thesis
    proof (cases "p = 0")
      case True
      obtain s' where "st1 = st\<lparr>PageState := s'\<rparr>" "gMemoryLock s' = gMemoryLock (PageState st)" "pool_ok G st1"
        by (rule AllocatePages_ok [OF a(1) assms(2,3)]) simp_all
      then show ?thesis using True a(2) by simp
    next
      case False
      have "pool_of st T \<noteq> None" using pool by simp
      from take_new_page [OF a(1) False a(3) [OF False] assms(2,3) this k_def [symmetric] k(2,1)] show ?thesis by (auto simp: k_def)
    qed
  qed
qed

end

section \<open>Filling it\<close>

lemma range_within:
  fixes b x L :: u64
  assumes "unat b + unat L < 2 ^ 64"
  shows "x - b < L \<longleftrightarrow> within b (unat L) x"
proof (cases "b \<le> x")
  case True
  then have "unat (x - b) = unat x - unat b" "unat b \<le> unat x" by (simp_all add: unat_sub word_le_nat_alt)
  then show ?thesis by (auto simp: word_less_nat_alt within_def)
next
  case False
  then have l: "unat x < unat b" by (simp add: word_le_nat_alt not_le)
  have "unat b < 2 ^ 64" using assms by simp
  then have "unat (x - b) = unat x + 2 ^ 64 - unat b" using l by (simp add: unat_sub_if')
  then show ?thesis using assms l by (simp add: word_less_nat_alt within_def)
qed

text \<open>From \<open>G\<close> and \<open>st\<close>, allocating has led to the new buffer at \<open>h\<close>, and all else in use is as it was.\<close>

definition allocated :: "(u64 \<Rightarrow> arena option) \<Rightarrow> 'e pools \<Rightarrow> (u64 \<Rightarrow> arena option) \<Rightarrow> 'e pools \<Rightarrow> u64 \<Rightarrow> u32 \<Rightarrow> u64 \<Rightarrow> bool" where
  "allocated G st G' st' h T Size \<longleftrightarrow> pool_ok G' st' \<and> gMemoryLock (PageState st') = gMemoryLock (PageState st) \<and>
     (\<forall>V S. \<not> live G st h V S) \<and>
     (\<forall>a U S. live G' st' a U S \<longleftrightarrow> live G st a U S \<or> a = h \<and> U = T \<and> S = Size)"

lemma fill_block_ok:
  assumes "ready G st G' st' h T n Size" "40 \<le> unat Size"
  shows "allocated G st G' (fill_block env h T Size st') h T Size"
proof -
  let ?t = "h + Size - SIZE_OF_POOL_TAIL" and ?B = "(Blocks st')(h \<mapsto> POOL_HEAD T Size)" and ?W = "\<lambda>W. W(h + Size - SIZE_OF_POOL_TAIL \<mapsto> Size)"
  define st2 where "st2 = fill_block env h T Size st'"
  have r: "mem_ok (PageState st')" "gMemoryLock (PageState st') = gMemoryLock (PageState st)" "arenas_ok G' (PageState st')" "slot G' h T n" "unat Size \<le> n"
    "\<And>B' W'. \<forall>x. \<not> within h n x \<longrightarrow> B' x = Blocks st' x \<and> W' x = Tails st' x \<Longrightarrow> B' h = Some (POOL_HEAD T Size) \<Longrightarrow>
        used_ok W' h n Size \<Longrightarrow> blocks_ok G' B' W' (list_of st')"
    "\<And>a U m. slot G a U m \<Longrightarrow> slot G' a U m \<and> Blocks st' a = Blocks st a"
    "\<And>a U m. slot G' a U m \<Longrightarrow> a \<noteq> h \<Longrightarrow> slot G a U m \<or> (\<exists>k. Blocks st' a = Some (POOL_FREE k))"
    "\<And>V S. \<not> live G st h V S"
    using assms(1) unfolding ready_def by blast+
  note sb = slot_bound [OF r(3,4)]
  note t = within_tail [OF sb(1) assms(2) r(5)]
  have u: "unat (h + SIZE_OF_POOL_HEAD) = unat h + 24" "unat (Size - POOL_OVERHEAD) = unat Size - 40"
    using sb(1) assms(2) r(5) by (simp_all add: unat_word_ariths(1) unat_sub word_le_nat_alt)
  have "unat (h + SIZE_OF_POOL_HEAD) + unat (Size - POOL_OVERHEAD) < 2 ^ 64" using u sb(1) r(5) assms(2) by simp
  note i = range_within [OF this]
  have B: "Blocks st2 x = ?B x \<and> Tails st2 x = (?W (Tails st')) x" if "\<not> within (h + SIZE_OF_POOL_HEAD) (unat Size - 40) x" for x
  proof -
    define st3 where "st3 = st'\<lparr>Blocks := ?B\<rparr>\<lparr>Tails := ?W (Tails st')\<rparr>"
    have "Blocks st2 = Blocks (DebugClearBlocks env (h + SIZE_OF_POOL_HEAD) (Size - POOL_OVERHEAD) st3)"
      "Tails st2 = Tails (DebugClearBlocks env (h + SIZE_OF_POOL_HEAD) (Size - POOL_OVERHEAD) st3)"
      "Blocks st3 = ?B" "Tails st3 = ?W (Tails st')"
      unfolding st2_def fill_block_def Let_def put_pool_fields st3_def by simp_all
    moreover have "\<not> x - (h + SIZE_OF_POOL_HEAD) < Size - POOL_OVERHEAD" unfolding i u(2) by (rule that)
    ultimately show ?thesis using clear_blocks by metis
  qed
  have ends: "\<not> within (h + SIZE_OF_POOL_HEAD) (unat Size - 40) h" "\<not> within (h + SIZE_OF_POOL_HEAD) (unat Size - 40) ?t"
    using assms(2) unfolding within_def u(1) t(1) by auto
  have inside: "within h n x" if "within (h + SIZE_OF_POOL_HEAD) (unat Size - 40) x" for x using that r(5) assms(2) unfolding within_def u(1) by auto
  have "blocks_ok G' (Blocks st2) (Tails st2) (list_of st')"
  proof (rule r(6))
    have "x \<noteq> h \<and> x \<noteq> ?t" if "\<not> within h n x" for x using that within_start [OF sb(3)] t(2) by auto
    then show "\<forall>x. \<not> within h n x \<longrightarrow> Blocks st2 x = Blocks st' x \<and> Tails st2 x = Tails st' x" using B inside by (metis fun_upd_other)
    show "Blocks st2 h = Some (POOL_HEAD T Size)" using B [OF ends(1)] by simp
    show "used_ok (Tails st2) h n Size" using B [OF ends(2)] assms(2) r(5) by (simp add: used_ok_def)
  qed
  moreover have f: "list_of st2 = list_of st'" "holds (PageState st2) = holds (PageState st')" "mem_ok (PageState st2) = mem_ok (PageState st')"
      "gMemoryLock (PageState st2) = gMemoryLock (PageState st')"
    by (simp_all add: st2_def fill_block_def Let_def list_of_used clear_fields)
  ultimately have "pool_ok G' st2" using r(1,3) arenas_ok_cong [OF f(2)] by (simp add: pool_ok_def)
  moreover have "live G' st2 a U S \<longleftrightarrow> live G st a U S \<or> a = h \<and> U = T \<and> S = Size" for a U S
  proof (cases "a = h")
    case True
    then show ?thesis using r(4,9) B [OF ends(1)] by (auto simp: live_def)
  next
    case False
    have e: "Blocks st2 a = Blocks st' a" if "slot G' a U m" for m
    proof -
      have "\<not> within h n a" using slot_outside [OF r(3,4) that] False within_start [OF slot_bound(3) [OF r(3) that]] by metis
      then show ?thesis using B inside False by (metis fun_upd_other)
    qed
    show ?thesis
    proof
      assume "live G' st2 a U S"
      then obtain m where m: "slot G' a U m" "Blocks st2 a = Some (POOL_HEAD U S)" by (auto simp: live_def)
      then have "slot G a U m" using r(8) [OF m(1) False] e [OF m(1)] by auto
      then show "live G st a U S \<or> a = h \<and> U = T \<and> S = Size" using r(7) m(2) e [OF m(1)] by (auto simp: live_def)
    next
      assume "live G st a U S \<or> a = h \<and> U = T \<and> S = Size"
      then obtain m where m: "slot G a U m" "Blocks st a = Some (POOL_HEAD U S)" using False by (auto simp: live_def)
      then show "live G' st2 a U S" using r(7) [OF m(1)] e by (auto simp: live_def)
    qed
  qed
  ultimately show ?thesis using f(4) r(2,9) unfolding st2_def by (simp add: allocated_def)
qed

section \<open>Allocating\<close>

lemma aligned_size:
  assumes "unat Size < 2 ^ 63"
  shows "unat Size + 40 \<le> unat (ALIGN_VARIABLE Size + POOL_OVERHEAD)" "unat (ALIGN_VARIABLE Size + POOL_OVERHEAD) < unat Size + 48"
proof -
  have "(8 - Size) AND 7 = take_bit 3 (8 - Size)" by (simp add: take_bit_eq_mask mask_eq_exp_minus_1)
  moreover have "unat (take_bit 3 (8 - Size)) = take_bit 3 (unat (8 - Size))" by (rule unsigned_take_bit_eq)
  ultimately have "unat ((8 - Size) AND 7) = unat (8 - Size) mod 8" by (simp only: take_bit_eq_mod [of 3 "unat (8 - Size)"]) simp
  then have b: "unat ((8 - Size) AND 7) < 8" by simp
  have "unat (ALIGN_VARIABLE Size) = unat Size + unat ((8 - Size) AND 7)"
    using assms b by (simp add: ALIGN_VARIABLE_def unat_word_ariths(1))
  then have "unat (ALIGN_VARIABLE Size + POOL_OVERHEAD) = unat Size + unat ((8 - Size) AND 7) + 40"
    using assms b by (simp add: unat_word_ariths(1))
  then show "unat Size + 40 \<le> unat (ALIGN_VARIABLE Size + POOL_OVERHEAD)" "unat (ALIGN_VARIABLE Size + POOL_OVERHEAD) < unat Size + 48"
    using b by simp_all
qed

text \<open>The types of the listed pools.\<close>

definition pool_keys :: "'e pools \<Rightarrow> u32 list" where
  "pool_keys st = map fst (mPoolHeadList st)"

lemma put_listed_keys: "map fst (put_listed T f l) = map fst l"
  by (induction T f l rule: put_listed.induct) auto

lemma pool_keys_simps [simp]:
  "pool_keys (put_pool T f st) = pool_keys st" "pool_keys (unlink_block a st) = pool_keys st" "pool_keys (DebugClearBlocks env a n st) = pool_keys st"
  "pool_keys (st\<lparr>PageState := s\<rparr>) = pool_keys st" "pool_keys (st\<lparr>Blocks := B\<rparr>) = pool_keys st" "pool_keys (st\<lparr>Tails := W\<rparr>) = pool_keys st"
  by (simp_all add: pool_keys_def put_pool_def put_listed_keys unlink_block_def DebugClearBlocks_def Let_def comp_def split_def)

lemma carve_keys: "pool_keys (fold (carve_block p T) bl st) = pool_keys st"
  by (induction bl arbitrary: st) (auto simp: Let_def split: prod.splits)

lemma fill_block_keys: "pool_keys (fill_block env h T Size st) = pool_keys st"
  by (simp add: fill_block_def Let_def)

lemma take_block_keys: "take_block env free T Size st = Some (h, st') \<Longrightarrow> pool_keys st' = pool_keys st"
  by (auto simp: take_block_def AllocatePages_def carve_page_def carve_keys Let_def dest!: pop_free_unlinks split: if_splits)

text \<open>What allocating keeps, whatever it returns.\<close>

definition keeps_live :: "(u64 \<Rightarrow> arena option) \<Rightarrow> 'e pools \<Rightarrow> (u64 \<Rightarrow> arena option) \<Rightarrow> 'e pools \<Rightarrow> bool" where
  "keeps_live G st G' st' \<longleftrightarrow> pool_ok G' st' \<and> gMemoryLock (PageState st') = gMemoryLock (PageState st) \<and>
     (\<forall>a U S. live G st a U S \<longrightarrow> live G' st' a U S)"

lemma keeps_live_refl: "pool_ok G st \<Longrightarrow> keeps_live G st G st"
  by (simp add: keeps_live_def)

lemma keeps_live_trans: "keeps_live G st G1 st1 \<Longrightarrow> keeps_live G1 st1 G2 st2 \<Longrightarrow> keeps_live G st G2 st2"
  by (simp add: keeps_live_def)

context page_source
begin

lemma AllocatePoolI_after_lookup:
  assumes "take_block env free T Size st = Some (Head, st1)" "pool_ok G st" "T \<noteq> EfiConventionalMemory"
    and "40 \<le> unat Size" "unat Size < 2 ^ 64 - 4096"
  shows "if Head = 0 then keeps_live G st G st1 else \<exists>G'. allocated G st G' (fill_block env Head T Size st1) Head T Size"
proof -
  note t = take_block_ok [OF assms(1-3,5)]
  show ?thesis
  proof (cases "Head = 0")
    case True
    then show ?thesis using t by (simp add: keeps_live_def live_def)
  next
    case False
    then obtain G' n where "ready G st G' st1 Head T n Size" using t by auto
    from fill_block_ok [OF this assms(4)] show ?thesis using False by auto
  qed
qed

lemma Lookup_ok:
  assumes "LookupPoolHead alloc T st = Some (found, st')" "pool_ok G st"
    and "\<forall>a st'. alloc st = Some (a, st') \<longrightarrow> pool_keys st' = pool_keys st \<and> (\<exists>G'. keeps_live G st G' st')"
  shows "\<exists>G'. keeps_live G st G' st'" "T < EfiMaxMemoryType \<Longrightarrow> found \<and> st' = st"
proof -
  have r: "\<exists>G'. keeps_live G st G' (st1\<lparr>mPoolHeadList := (T, a, empty_pool) # mPoolHeadList st1\<rparr>)"
    if a: "alloc st = Some (a, st1)" "\<forall>x\<in>set (mPoolHeadList st). fst x \<noteq> T" "\<not> T < EfiMaxMemoryType" for a st1
  proof -
    obtain G' where G': "keeps_live G st G' st1" "pool_keys st1 = pool_keys st" using assms(3) a(1) by blast
    have "T \<notin> set (pool_keys st1)" using a(2) G'(2) by (auto simp: pool_keys_def)
    then have "map_of (mPoolHeadList st1) T = None" by (simp add: pool_keys_def map_of_eq_None_iff)
    then have "list_of (st1\<lparr>mPoolHeadList := (T, a, empty_pool) # mPoolHeadList st1\<rparr>) = list_of st1"
      using a(3) by (auto simp: list_of_def pool_of_def empty_pool_def fun_eq_iff)
    then show ?thesis using G'(1) by (intro exI [of _ G']) (simp add: keeps_live_def pool_ok_def live_def)
  qed
  show "\<exists>G'. keeps_live G st G' st'"
  proof (cases "T < EfiMaxMemoryType \<or> \<not> 0x80000000 \<le> T \<or> (\<exists>x\<in>set (mPoolHeadList st). fst x = T)")
    case True
    then have "st' = st" using assms(1) by (auto simp: LookupPoolHead_def split: if_splits)
    then show ?thesis using keeps_live_refl [OF assms(2)] by blast
  next
    case False
    then obtain a st1 where a: "alloc st = Some (a, st1)" "st' = (if a = 0 then st1 else st1\<lparr>mPoolHeadList := (T, a, empty_pool) # mPoolHeadList st1\<rparr>)"
      using assms(1) by (auto simp: LookupPoolHead_def split: if_splits)
    then show ?thesis using r [OF a(1)] assms(3) False by (cases "a = 0") auto
  qed
  show "found \<and> st' = st" if "T < EfiMaxMemoryType" using assms(1) that by (simp add: LookupPoolHead_def)
qed

lemma allocated_address:
  assumes "allocated G st G' st' h T Size"
  shows "h + SIZE_OF_POOL_HEAD \<noteq> 0" "unat (h + SIZE_OF_POOL_HEAD) = unat h + 24" "unat h + unat Size < 2 ^ 64"
proof -
  have p: "pool_ok G' st'" "live G' st' h T Size" using assms by (auto simp: allocated_def)
  then obtain k where k: "slot G' h T k" "used_ok (Tails st') h k Size"
    using blocks_okD(3) by (fastforce simp: live_def pool_ok_def)
  have b: "unat h + k < 2 ^ 64" "h \<noteq> 0" using slot_bound(1,2) [of G' "PageState st'" h T k] p(1) k(1) by (simp_all add: pool_ok_def)
  then show u: "unat (h + SIZE_OF_POOL_HEAD) = unat h + 24" "unat h + unat Size < 2 ^ 64"
    using k(2) by (simp_all add: used_ok_def unat_word_ariths(1))
  show "h + SIZE_OF_POOL_HEAD \<noteq> 0" using u(1) by auto
qed

text \<open>For a type of the specification the pool is there, and exactly the buffer is added.\<close>

lemma AllocatePoolI_static:
  assumes "CoreAllocatePoolI env free n T Size st = Some (b, st')" "pool_ok G st" "T < EfiMaxMemoryType" "T \<noteq> EfiConventionalMemory"
    and "unat Size < 2 ^ 63"
  shows "if b = 0 then keeps_live G st G st'
    else \<exists>G'. allocated G st G' st' (b - SIZE_OF_POOL_HEAD) T (ALIGN_VARIABLE Size + POOL_OVERHEAD)"
    "pool_keys st' = pool_keys st"
proof -
  let ?S = "ALIGN_VARIABLE Size + POOL_OVERHEAD"
  obtain m where n: "n = Suc m" using assms(1) by (cases n) simp_all
  obtain h st1 where h: "take_block env free T ?S st = Some (h, st1)" "h = 0 \<longrightarrow> b = 0 \<and> st' = st1"
      "h \<noteq> 0 \<longrightarrow> b = h + SIZE_OF_POOL_HEAD \<and> st' = fill_block env h T ?S st1"
    using assms(1,3) unfolding n by (auto simp: LookupPoolHead_def Let_def split: if_splits)
  have s: "40 \<le> unat ?S" "unat ?S < 2 ^ 64 - 4096" using aligned_size [OF assms(5)] assms(5) by simp_all
  note a = AllocatePoolI_after_lookup [OF h(1) assms(2,4) s]
  show "if b = 0 then keeps_live G st G st' else \<exists>G'. allocated G st G' st' (b - SIZE_OF_POOL_HEAD) T ?S"
  proof (cases "h = 0")
    case True
    then show ?thesis using a h(2) by simp
  next
    case False
    obtain G' where G': "allocated G st G' st' h T ?S" using a False h(3) by auto
    have "b \<noteq> 0" using allocated_address(1) [OF G'] h(3) False by auto
    then show ?thesis using G' h(3) False by auto
  qed
  show "pool_keys st' = pool_keys st" using take_block_keys [OF h(1)] h(2,3) by (cases "h = 0") (simp_all add: fill_block_keys)
qed

lemma allocated_keeps: "allocated G st G' st' h T Size \<Longrightarrow> keeps_live G st G' st'"
  by (auto simp: allocated_def keeps_live_def)

text \<open>For any type, a new \<open>POOL\<close> structure may be allocated first.\<close>

lemma AllocatePoolI_any:
  assumes "CoreAllocatePoolI env free n T Size st = Some (b, st')" "pool_ok G st" "T \<noteq> EfiConventionalMemory" "unat Size < 2 ^ 63"
  shows "\<exists>G1 st1. keeps_live G st G1 st1 \<and> (T < EfiMaxMemoryType \<longrightarrow> G1 = G \<and> st1 = st) \<and>
    (if b = 0 then keeps_live G1 st1 G1 st'
     else \<exists>G'. allocated G1 st1 G' st' (b - SIZE_OF_POOL_HEAD) T (ALIGN_VARIABLE Size + POOL_OVERHEAD))"
proof (cases "T < EfiMaxMemoryType")
  case True
  then show ?thesis using AllocatePoolI_static(1) [OF assms(1,2) True assms(3,4)] keeps_live_refl [OF assms(2)] by blast
next
  case False
  let ?S = "ALIGN_VARIABLE Size + POOL_OVERHEAD"
  obtain m where n: "n = Suc m" using assms(1) by (cases n) simp_all
  obtain found st1 where l: "LookupPoolHead (CoreAllocatePoolI env free m EfiBootServicesData SIZE_OF_POOL) T st = Some (found, st1)"
      "\<not> found \<longrightarrow> b = 0 \<and> st' = st1"
      "found \<longrightarrow> (\<exists>h st2. take_block env free T ?S st1 = Some (h, st2) \<and> (h = 0 \<longrightarrow> b = 0 \<and> st' = st2) \<and>
         (h \<noteq> 0 \<longrightarrow> b = h + SIZE_OF_POOL_HEAD \<and> st' = fill_block env h T ?S st2))"
    using assms(1) unfolding n by (auto simp: Let_def split: if_splits)
  have "\<forall>a st'. CoreAllocatePoolI env free m EfiBootServicesData SIZE_OF_POOL st = Some (a, st') \<longrightarrow>
      pool_keys st' = pool_keys st \<and> (\<exists>G'. keeps_live G st G' st')"
  proof (intro allI impI)
    fix a st' assume a: "CoreAllocatePoolI env free m EfiBootServicesData SIZE_OF_POOL st = Some (a, st')"
    note s = AllocatePoolI_static [OF a assms(2)]
    have "if a = 0 then keeps_live G st G st'
      else \<exists>G'. allocated G st G' st' (a - SIZE_OF_POOL_HEAD) EfiBootServicesData (ALIGN_VARIABLE SIZE_OF_POOL + POOL_OVERHEAD)"
      using s(1) by simp
    then have "\<exists>G'. keeps_live G st G' st'" using allocated_keeps by (cases "a = 0") (auto, blast)
    then show "pool_keys st' = pool_keys st \<and> (\<exists>G'. keeps_live G st G' st')" using s(2) by simp
  qed
  from Lookup_ok(1) [OF l(1) assms(2) this] obtain G1 where G1: "keeps_live G st G1 st1" by blast
  then have ok: "pool_ok G1 st1" by (simp add: keeps_live_def)
  show ?thesis
  proof (cases found)
    case False
    then show ?thesis using l(2) G1 keeps_live_refl [OF ok] \<open>\<not> T < EfiMaxMemoryType\<close> by auto
  next
    case True
    then obtain h st2 where h: "take_block env free T ?S st1 = Some (h, st2)" "h = 0 \<longrightarrow> b = 0 \<and> st' = st2"
         "h \<noteq> 0 \<longrightarrow> b = h + SIZE_OF_POOL_HEAD \<and> st' = fill_block env h T ?S st2" using l(3) by blast
    have s: "40 \<le> unat ?S" "unat ?S < 2 ^ 64 - 4096" using aligned_size [OF assms(4)] assms(4) by simp_all
    note a = AllocatePoolI_after_lookup [OF h(1) ok assms(3) s]
    have "if b = 0 then keeps_live G1 st1 G1 st' else \<exists>G'. allocated G1 st1 G' st' (b - SIZE_OF_POOL_HEAD) T ?S"
    proof (cases "h = 0")
      case False
      then obtain G' where G': "allocated G1 st1 G' st' h T ?S" using a h(3) by auto
      have "b \<noteq> 0" using allocated_address(1) [OF G'] h(3) False by auto
      then show ?thesis using G' h(3) False by auto
    qed (use a h(2) in simp)
    then show ?thesis using G1 \<open>\<not> T < EfiMaxMemoryType\<close> by blast
  qed
qed

end

end
