(* ===== verification/PoolSpec.thy ===== *)
theory PoolSpec
  imports PoolSafe
begin

text \<open>
  The contract of the pool: a new buffer shares no byte with any other, freeing one leaves the others alone,
  and which sizes the arithmetic gets wrong.
\<close>

section \<open>Buffers in use are apart\<close>

lemma live_used:
  assumes "pool_ok G st" "live G st a T Size"
  obtains n where "slot G a T n" "40 \<le> unat Size" "unat Size \<le> n" "unat a + n < 2 ^ 64" "Tails st (a + Size - SIZE_OF_POOL_TAIL) = Some Size"
proof -
  obtain n where n: "slot G a T n" "Blocks st a = Some (POOL_HEAD T Size)" using assms(2) by (auto simp: live_def)
  have p: "arenas_ok G (PageState st)" "blocks_ok G (Blocks st) (Tails st) (list_of st)" using assms(1) by (simp_all add: pool_ok_def)
  have "used_ok (Tails st) a n Size" by (rule blocks_okD(3) [OF p(2) n])
  then show thesis using that n(1) slot_bound(1) [OF p(1) n(1)] by (simp add: used_ok_def)
qed

lemma live_apart:
  assumes "pool_ok G st" "live G st a T Size" "live G st c U R" "c \<noteq> a"
  shows "unat c + unat R \<le> unat a \<or> unat a + unat Size \<le> unat c"
proof -
  have p: "arenas_ok G (PageState st)" using assms(1) by (simp add: pool_ok_def)
  obtain n where n: "slot G a T n" "40 \<le> unat Size" "unat Size \<le> n" by (rule live_used [OF assms(1,2)])
  obtain m where m: "slot G c U m" "40 \<le> unat R" "unat R \<le> m" by (rule live_used [OF assms(1,3)])
  show ?thesis
  proof (rule ccontr)
    assume h: "\<not> ?thesis"
    show False
    proof (cases "unat a \<le> unat c")
      case True
      then have "within a n c" "within c m c" using h n(3) m(2,3) by (auto simp: within_def)
      then show False using slot_outside [OF p n(1) m(1)] assms(4) by metis
    next
      case False
      then have "within c m a" "within a n a" using h n(2,3) m(3) by (auto simp: within_def)
      then show False using slot_outside [OF p n(1) m(1)] assms(4) by metis
    qed
  qed
qed

lemma holds_lock [simp]: "holds (s\<lparr>gMemoryLock := b\<rparr>) = holds s"
  by (simp add: holds_def [abs_def])

lemma arenas_ok_lock [simp]: "arenas_ok G (s\<lparr>gMemoryLock := b\<rparr>) = arenas_ok G s"
  by (rule arenas_ok_cong) simp

lemma pool_ok_lock [simp]:
  "pool_ok G (st\<lparr>PageState := (PageState st)\<lparr>gMemoryLock := b\<rparr>\<rparr>) = pool_ok G st"
  "live G (st\<lparr>PageState := s\<rparr>) a T Size = live G st a T Size"
  by (simp_all add: pool_ok_def live_def)

lemma AllocatePool_returns:
  assumes "pool_ok G st" "\<not> gMemoryLock (PageState st)" "T < EfiMaxMemoryType" "T \<noteq> EfiConventionalMemory" "unat Size < 4048"
    and "list_of st T (unat (SIZE_TO_LIST (ALIGN_VARIABLE Size + POOL_OVERHEAD))) = a # l" "n \<noteq> 0"
  shows "\<exists>st'. CoreAllocatePool env free n T Size True st = Some ((EFI_SUCCESS, Some (a + SIZE_OF_POOL_HEAD)), st')"
proof -
  let ?S = "ALIGN_VARIABLE Size + POOL_OVERHEAD" and ?st = "st\<lparr>PageState := (PageState st)\<lparr>gMemoryLock := True\<rparr>\<rparr>"
  obtain m where m: "n = Suc m" using assms(7) by (cases n) simp_all
  have z: "unat ?S < 4096" using aligned_size(2) [of Size] assms(5) by simp
  then have "\<not> 32 \<le> unat (SIZE_TO_LIST ?S)" unfolding SIZE_TO_LIST_unat by auto
  then have k: "\<not> 32 \<le> SIZE_TO_LIST ?S" by (simp add: word_le_nat_alt)
  have s: "arenas_ok G (PageState st)" "blocks_ok G (Blocks st) (Tails st) (list_of st)" using assms(1) by (simp_all add: pool_ok_def)
  have a: "block_at G a T (unat (SIZE_TO_LIST ?S))" "Blocks st a = Some (POOL_FREE (unat (SIZE_TO_LIST ?S)))"
    using blocks_okD(5) [OF s(2), of a T "unat (SIZE_TO_LIST ?S)"] assms(6) by simp_all
  note b = slot_bound [OF s(1) block_slot [OF a(1)]]
  have "unat (a + SIZE_OF_POOL_HEAD) = unat a + 24" using b(1) by (simp add: unat_word_ariths(1) LIST_TO_SIZE_def)
  then have nz: "a + SIZE_OF_POOL_HEAD \<noteq> 0" by auto
  obtain q where q: "pool_of st T = Some q" "FreeList q (unat (SIZE_TO_LIST ?S)) = a # l"
    using assms(6) by (auto simp: list_of_def split: option.splits)
  have t: "take_block env free T ?S ?st = Some (a, unlink_block a ?st)"
    using k q a(2) by (simp add: take_block_def pop_free_def Let_def)
  have "\<not> MAX_POOL_SIZE < Size" using assms(5) by (simp add: word_less_nat_alt)
  moreover have "\<not> EfiMaxMemoryType \<le> T" using assms(3) by simp
  ultimately show ?thesis
    using t assms(2-4) b(2) nz unfolding m
    by (simp add: CoreAllocatePool_def LookupPoolHead_def Let_def CoreReleaseMemoryLock_def fill_block_def clear_fields)
qed

context page_source
begin

lemma AllocatePool_gives:
  assumes "pool_ok G st" "CoreAllocatePool env free n T Size True st = Some ((EFI_SUCCESS, b), st')" "unat Size < 2 ^ 63"
  shows "\<exists>G' a S. b = Some (a + SIZE_OF_POOL_HEAD) \<and> pool_ok G' st' \<and> live G' st' a T S \<and> unat Size + 40 \<le> unat S \<and> unat S < unat Size + 48 \<and>
    (\<forall>x. within a (unat S) x \<longrightarrow> holds (PageState st') x T) \<and>
    (\<forall>c U R. live G st c U R \<longrightarrow> live G' st' c U R \<and> (unat c + unat R \<le> unat a \<or> unat a + unat S \<le> unat c)) \<and>
    (T < EfiMaxMemoryType \<longrightarrow> (\<forall>c U R. live G' st' c U R \<longrightarrow> live G st c U R \<or> c = a))"
proof -
  let ?st = "st\<lparr>PageState := (PageState st)\<lparr>gMemoryLock := True\<rparr>\<rparr>" and ?S = "ALIGN_VARIABLE Size + POOL_OVERHEAD"
  have T: "T \<noteq> EfiConventionalMemory" using assms(2) by (auto simp: CoreAllocatePool_def)
  obtain c st1 where c: "CoreAllocatePoolI env free n T Size ?st = Some (c, st1)" "c \<noteq> 0" "b = Some c"
      "st' = st1\<lparr>PageState := (PageState st1)\<lparr>gMemoryLock := False\<rparr>\<rparr>"
    using assms(2) by (auto simp: CoreAllocatePool_def CoreReleaseMemoryLock_def Let_def split: if_splits)
  have ok: "pool_ok G ?st" using assms(1) by simp
  from AllocatePoolI_any [OF c(1) ok T assms(3)] obtain G1 st2 G' where
    k: "keeps_live G ?st G1 st2" "T < EfiMaxMemoryType \<longrightarrow> G1 = G \<and> st2 = ?st" "allocated G1 st2 G' st1 (c - SIZE_OF_POOL_HEAD) T ?S"
    using c(2) by auto
  let ?a = "c - SIZE_OF_POOL_HEAD"
  have o: "pool_ok G' st1" "live G' st1 ?a T ?S" "\<And>V R. \<not> live G1 st2 ?a V R"
    "\<And>d U R. live G' st1 d U R \<longleftrightarrow> live G1 st2 d U R \<or> d = ?a \<and> U = T \<and> R = ?S"
    using k(3) by (auto simp: allocated_def)
  have old: "live G1 st2 d U R" if "live G st d U R" for d U R using k(1) that by (simp add: keeps_live_def)
  have "unat d + unat R \<le> unat ?a \<or> unat ?a + unat ?S \<le> unat d" if "live G st d U R" for d U R
  proof -
    have "d \<noteq> ?a" using o(3) old [OF that] by blast
    then show ?thesis using live_apart [OF o(1,2)] o(4) old [OF that] by blast
  qed
  moreover obtain m where m: "slot G' ?a T m" "unat ?S \<le> m" by (rule live_used [OF o(1,2)])
  have "holds (PageState st1) x T" if "within ?a (unat ?S) x" for x
  proof (rule slot_holds [OF _ m(1)])
    show "arenas_ok G' (PageState st1)" using o(1) by (simp add: pool_ok_def)
    show "within ?a m x" using that m(2) by (simp add: within_def)
  qed
  moreover have "live G st d U R \<or> d = ?a" if "T < EfiMaxMemoryType" "live G' st1 d U R" for d U R
    using k(2) that o(4) by auto
  ultimately show ?thesis
    using o(1,2,4) old aligned_size [OF assms(3)] c(3,4) by (intro exI [of _ G'] exI [of _ ?a] exI [of _ ?S]) auto
qed

end

text \<open>C6. The pool never hands out memory twice: a buffer it returns lies, with its header and tail, in memory of the
  type asked for, it is large enough, and it shares no byte with any buffer in use, all of which stay as they were.\<close>

theorem AllocatePool_safe:
  assumes "pool_ok G st" "CoreAllocatePool env (CoreFreeMemoryMapStack (PagesEnv env) m) n T Size True st = Some ((EFI_SUCCESS, b), st')"
    and "unat Size < 2 ^ 63"
  shows "\<exists>G' a S. b = Some (a + SIZE_OF_POOL_HEAD) \<and> pool_ok G' st' \<and> live G' st' a T S \<and> unat Size + 40 \<le> unat S \<and> unat S < unat Size + 48 \<and>
    (\<forall>x. within a (unat S) x \<longrightarrow> holds (PageState st') x T) \<and>
    (\<forall>c U R. live G st c U R \<longrightarrow> live G' st' c U R \<and> (unat c + unat R \<le> unat a \<or> unat a + unat S \<le> unat c)) \<and>
    (T < EfiMaxMemoryType \<longrightarrow> (\<forall>c U R. live G' st' c U R \<longrightarrow> live G st c U R \<or> c = a))"
  by (rule pool_pages_source.AllocatePool_gives [OF assms])

section \<open>Freeing\<close>

lemma page_of_block:
  assumes "page_aligned p" "off < 4096" "unat p + 4096 < 2 ^ 64"
  shows "(p + of_nat off) AND NOT (DEFAULT_PAGE_ALLOCATION - 1) = p"
proof -
  let ?a = "p + of_nat off" and ?m = "NOT (mask 12) :: u64"
  have m: "EFI_PAGE_SIZE - 1 = (mask 12 :: u64)" by (simp add: mask_eq_exp_minus_1)
  have u: "unat ?a = unat p + off" using unat_offset [OF assms(3), of off] assms(2) by simp
  have e: "?a AND ?m = push_bit 12 (drop_bit 12 ?a)" by (rule bit_word_eqI) (auto simp: bit_simps)
  have "unat (drop_bit 12 ?a) = drop_bit 12 (unat ?a)" by (rule unat_drop_bit_eq)
  then have d: "unat (drop_bit 12 ?a) = unat ?a div 4096" by (simp only: drop_bit_eq_div [of 12 "unat ?a"]) simp
  have q: "unat ?a div 4096 * 4096 = unat p" using page_aligned_dvd [of p] assms(1,2) unfolding u by (auto elim!: dvdE)
  have "unat (push_bit 12 (drop_bit 12 ?a)) = unat p"
    using q d u assms(2,3) by (simp add: push_bit_eq_mult unat_word_ariths(2) mult.commute)
  then show ?thesis unfolding m e by (simp add: word_unat_eq_iff)
qed

lemma list_of_unlink_page:
  "list_of (fold (\<lambda>(Offset, _). unlink_block (p + of_nat Offset)) bl st) U k = filter (\<lambda>x. x \<notin> (\<lambda>b. p + of_nat (fst b)) ` set bl) (list_of st U k)"
  "PageState (fold (\<lambda>(Offset, _). unlink_block (p + of_nat Offset)) bl st) = PageState st"
  "Blocks (fold (\<lambda>(Offset, _). unlink_block (p + of_nat Offset)) bl st) = Blocks st"
  "Tails (fold (\<lambda>(Offset, _). unlink_block (p + of_nat Offset)) bl st) = Tails st"
  by (induction bl arbitrary: st)
    (auto simp: list_of_unlink removeAll_filter_not_eq filter_filter split: prod.splits intro!: filter_cong)

text \<open>From \<open>G\<close> and \<open>st\<close>, the buffer at \<open>a\<close> has been freed and all else in use is as it was.\<close>

definition freed :: "(u64 \<Rightarrow> arena option) \<Rightarrow> 'e pools \<Rightarrow> (u64 \<Rightarrow> arena option) \<Rightarrow> 'e pools \<Rightarrow> u64 \<Rightarrow> bool" where
  "freed G st G' st' a \<longleftrightarrow> pool_ok G' st' \<and> gMemoryLock (PageState st') = gMemoryLock (PageState st) \<and>
     (\<forall>c U R. live G' st' c U R \<longleftrightarrow> live G st c U R \<and> c \<noteq> a)"

lemma live_dropped:
  assumes "arenas_ok G s" "G p = Some x" "\<forall>a. \<not> in_pages p (arena_pages x) a \<longrightarrow> Blocks st' a = Blocks st a"
  shows "live (G(p := None)) st' c U R \<longleftrightarrow> live G st c U R \<and> \<not> in_pages p (arena_pages x) c"
proof
  assume "live (G(p := None)) st' c U R"
  then obtain m where m: "slot (G(p := None)) c U m" "Blocks st' c = Some (POOL_HEAD U R)" by (auto simp: live_def)
  note g = slot_dropped(1) [OF assms(1,2) m(1)]
  have "\<not> in_pages p (arena_pages x) c" by (rule slot_dropped(2) [OF assms(1,2) m(1) within_start [OF slot_bound(3) [OF assms(1) g]]])
  then show "live G st c U R \<and> \<not> in_pages p (arena_pages x) c" using g m(2) assms(3) by (auto simp: live_def)
next
  assume h: "live G st c U R \<and> \<not> in_pages p (arena_pages x) c"
  then obtain m where m: "slot G c U m" "Blocks st' c = Some (POOL_HEAD U R)" using assms(3) by (auto simp: live_def)
  have own: "q \<noteq> p" if "in_pages q (arena_pages y) c" "G q = Some y" for q y using that h assms(2) by auto
  have "slot (G(p := None)) c U m"
  proof (cases "\<exists>k. block_at G c U k \<and> m = LIST_TO_SIZE k")
    case True
    then obtain q i off k where q: "G q = Some (Carved U i)" "(off, k) \<in> set (pool_blocks i 0)" "c = q + of_nat off" "m = LIST_TO_SIZE k"
      by (auto simp: block_at_def)
    note a = block_arena [OF assms(1) q(1,2)]
    have "in_pages q (arena_pages (Carved U i)) c" using a(1,2) q(3) LIST_TO_SIZE_bounds(1) [of k] by (simp add: in_pages_def)
    from own [OF this q(1)] show ?thesis using q by (auto simp: slot_def block_at_def)
  next
    case False
    then obtain Z where z: "G c = Some (Large U Z)" "m = unat (pool_pages Z) * 4096" using m(1) by (auto simp: slot_def)
    have "in_pages c (arena_pages (Large U Z)) c" using slot_bound(3) [OF assms(1) m(1)] z(2) by (simp add: in_pages_def)
    from own [OF this z(1)] show ?thesis using z by (auto simp: slot_def)
  qed
  then show "live (G(p := None)) st' c U R" using m(2) by (auto simp: live_def)
qed

lemma same_arena:
  assumes "arenas_ok G s" "block_at G a U k" "G p = Some (Carved T i)" "in_pages p 1 a"
  shows "U = T \<and> (\<exists>off. (off, k) \<in> set (pool_blocks i 0) \<and> a = p + of_nat off)"
proof -
  obtain q j off where q: "G q = Some (Carved U j)" "(off, k) \<in> set (pool_blocks j 0)" "a = q + of_nat off"
    using assms(2) by (auto simp: block_at_def)
  note b = block_arena [OF assms(1) q(1,2)]
  have i: "in_pages q (arena_pages (Carved U j)) a" "in_pages p (arena_pages (Carved T i)) a"
    using assms(4) b(1,2) q(3) LIST_TO_SIZE_bounds(1) [of k] by (simp_all add: in_pages_def)
  have "q = p" using assms(1) q(1) assms(3) i unfolding arenas_ok_def by blast
  then show ?thesis using q assms(3) by auto
qed

text \<open>The block at the start of a page has the size of the list the page was carved for.\<close>

lemma page_first:
  assumes "pool_ok G st" "G p = Some (Carved T i)"
  shows "Blocks st p = Some (POOL_FREE k) \<Longrightarrow> k = i"
proof -
  have s: "arenas_ok G (PageState st)" "blocks_ok G (Blocks st) (Tails st) (list_of st)" using assms(1) by (simp_all add: pool_ok_def)
  have "arena_ok (PageState st) p (Carved T i)" using s(1) assms(2) by (simp add: arenas_ok_def)
  then have "i < 32" by (simp add: arena_ok_def)
  then have "block_at G p T i"
    using assms(2) pool_blocks_first [of i] unfolding block_at_def by (intro exI [of _ p] exI [of _ i] exI [of _ 0]) simp
  then show "k = i" if "Blocks st p = Some (POOL_FREE k)" using that blocks_okD(1) [OF s(2)] by fastforce
qed

context page_source
begin

lemma FreePages_ok:
  assumes "FreePages env free p P st = Some st'" "mem_ok (PageState st)" "arenas_ok G (PageState st)" "G p = Some x" "unat P = arena_pages x"
  obtains s' where "st' = st\<lparr>PageState := s'\<rparr>" "mem_ok s'" "gMemoryLock s' = gMemoryLock (PageState st)" "arenas_ok (G(p := None)) s'"
proof -
  obtain s' where s': "CoreFreePoolPages (PagesEnv env) free p P (PageState st) = Some s'" "st' = st\<lparr>PageState := s'\<rparr>"
    using assms(1) by (auto simp: FreePages_def)
  have "arena_ok (PageState st) p x" using assms(3,4) by (simp add: arenas_ok_def)
  then have b: "unat p + unat P * 4096 < 2 ^ 64" "unat P < 2 ^ 52" using assms(5) by (simp_all add: arena_ok_def)
  from pages_returned [OF s'(1) assms(2) b(2,1)] have
    r: "mem_ok s'" "gMemoryLock s' = gMemoryLock (PageState st)"
    "\<And>a T. T \<noteq> EfiConventionalMemory \<Longrightarrow> holds (PageState st) a T \<Longrightarrow> \<not> in_pages p (arena_pages x) a \<Longrightarrow> holds s' a T"
    using assms(5) by simp_all
  from drop_arena [OF assms(3,4) r(3)] show thesis using that [OF s'(2) r(1,2)] by blast
qed

lemma release_page_ok:
  assumes "release_page env free p st = Some st'" "pool_ok G st" "G p = Some (Carved T i)"
  shows "\<exists>G'. pool_ok G' st' \<and> gMemoryLock (PageState st') = gMemoryLock (PageState st) \<and> (\<forall>c U R. live G' st' c U R \<longleftrightarrow> live G st c U R)"
proof -
  let ?bl = "pool_blocks i 0" and ?x = "Carved T i"
  let ?f = "\<lambda>b :: nat \<times> nat. p + of_nat (fst b)" and ?st = "fold (\<lambda>(Offset, _). unlink_block (p + of_nat Offset)) (pool_blocks i 0) st"
  have s: "mem_ok (PageState st)" "arenas_ok G (PageState st)" "blocks_ok G (Blocks st) (Tails st) (list_of st)"
    using assms(2) by (simp_all add: pool_ok_def)
  note h = page_first [OF assms(2,3)]
  have one: "EFI_SIZE_TO_PAGES DEFAULT_PAGE_ALLOCATION = 1" by (simp add: EFI_SIZE_TO_PAGES_def)
  consider (kept) "st' = st" | (given) "FreePages env free p 1 ?st = Some st'"
      "\<forall>(Offset, _)\<in>set ?bl. is_free (Blocks st (p + of_nat Offset))"
  proof (cases "Blocks st p = Some (POOL_FREE i)")
    case True
    show thesis
    proof (cases "\<forall>(Offset, _)\<in>set ?bl. is_free (Blocks st (p + of_nat Offset))")
      case free: True
      have "FreePages env free p 1 ?st = Some st'"
        using assms(1) unfolding release_page_def True option.case pool_block.case one if_P [OF free] .
      then show thesis using free by (rule that(2))
    next
      case used: False
      have "Some st = Some st'" using assms(1) unfolding release_page_def True option.case pool_block.case if_not_P [OF used] .
      then show thesis using that(1) by simp
    qed
  next
    case False
    then have "st' = st" using assms(1) h by (cases "Blocks st p") (auto simp: release_page_def split: pool_block.splits)
    then show thesis by (rule that(1))
  qed
  then show ?thesis
  proof cases
    case kept
    then show ?thesis using assms(2) by blast
  next
    case given
    note u = list_of_unlink_page [of p ?bl st]
    obtain s' where s': "st' = ?st\<lparr>PageState := s'\<rparr>" "mem_ok s'" "gMemoryLock s' = gMemoryLock (PageState st)" "arenas_ok (G(p := None)) s'"
      by (rule FreePages_ok [OF given(1), unfolded u(2), OF s(1,2) assms(3)]) simp
    have m: "a \<in> ?f ` set ?bl \<longleftrightarrow> in_pages p 1 a" if a: "a \<in> set (list_of st U k)" for a U k
    proof
      assume "a \<in> ?f ` set ?bl"
      then obtain off l where o: "(off, l) \<in> set ?bl" "a = p + of_nat off" by auto
      note b = block_arena [OF s(2) assms(3) o(1)]
      show "in_pages p 1 a" using b(1,2) o(2) LIST_TO_SIZE_bounds(1) [of l] by (simp add: in_pages_def)
    next
      assume "in_pages p 1 a"
      then show "a \<in> ?f ` set ?bl" using same_arena [OF s(2) _ assms(3)] blocks_okD(5) [OF s(3) a] by force
    qed
    have "blocks_ok (G(p := None)) (Blocks st) (Tails st) (list_of ?st)"
    proof (rule drop_blocks [OF s(2,3) assms(3)])
      show "distinct (list_of ?st U k)" for U k using blocks_okD(4) [OF s(3)] unfolding u(1) by simp
      show "a \<in> set (list_of ?st U k) \<longleftrightarrow> a \<in> set (list_of st U k) \<and> \<not> in_pages p (arena_pages ?x) a" for U k a
        unfolding u(1) using m by auto
    qed simp
    then have "pool_ok (G(p := None)) st'" using s'(2,4) unfolding s'(1) by (simp add: pool_ok_def u)
    moreover have "live (G(p := None)) st' c U R \<longleftrightarrow> live G st c U R" for c U R
    proof -
      have "\<not> in_pages p 1 c" if l: "live G st c U R"
      proof
        assume c: "in_pages p 1 c"
        obtain n where n: "slot G c U n" "Blocks st c = Some (POOL_HEAD U R)" using l by (auto simp: live_def)
        show False
        proof (cases "\<exists>k. block_at G c U k")
          case True
          then show False using same_arena [OF s(2) _ assms(3) c] given(2) n(2) by fastforce
        next
          case False
          then obtain Z where "G c = Some (Large U Z)" using n(1) by (auto simp: slot_def)
          moreover have "in_pages c (arena_pages (Large U Z)) c"
            using slot_bound(3) [OF s(2) large_slot [where G = G, OF calculation]] by (simp add: in_pages_def)
          moreover have "in_pages p (arena_pages ?x) c" using c by simp
          ultimately have "c = p" using s(2) assms(3) unfolding arenas_ok_def by blast
          then show False using \<open>G c = Some (Large U Z)\<close> assms(3) by simp
        qed
      qed
      moreover have "live (G(p := None)) st' c U R \<longleftrightarrow> live G st c U R \<and> \<not> in_pages p (arena_pages ?x) c"
        by (rule live_dropped [OF s(2) assms(3)]) (simp add: s'(1) u(3))
      ultimately show ?thesis by auto
    qed
    ultimately show ?thesis using s'(3) unfolding s'(1) by auto
  qed
qed


text \<open>The bytes of the slot at \<open>a\<close> may have been cleared, nothing else has changed.\<close>

definition wiped :: "u64 \<Rightarrow> nat \<Rightarrow> 'e pools \<Rightarrow> 'e pools \<Rightarrow> bool" where
  "wiped a n st st' \<longleftrightarrow> mem_ok (PageState st') = mem_ok (PageState st) \<and> holds (PageState st') = holds (PageState st) \<and>
     gMemoryLock (PageState st') = gMemoryLock (PageState st) \<and> list_of st' = list_of st \<and>
     (\<forall>x. \<not> within a n x \<longrightarrow> Blocks st' x = Blocks st x \<and> Tails st' x = Tails st x)"

lemma wiped_clear:
  assumes "unat a + n < 2 ^ 64" "unat Size \<le> n"
  shows "wiped a n st (DebugClearBlocks env a Size (put_pool T (\<lambda>p. p\<lparr>Used := f p\<rparr>) st))"
proof -
  have "unat a + unat Size < 2 ^ 64" using assms by simp
  note r = range_within [OF this]
  have "\<not> x - a < Size" if "\<not> within a n x" for x using that assms(2) r [of x] by (auto simp: within_def)
  then show ?thesis using clear_blocks [of _ a Size env "put_pool T (\<lambda>p. p\<lparr>Used := f p\<rparr>) st"]
    by (simp add: wiped_def clear_fields list_of_used)
qed

lemma give_back_large:
  assumes "FreePages env free a (pool_pages Size) st1 = Some st'" "pool_ok G st" "G a = Some (Large T Size)"
    and "wiped a (unat (pool_pages Size) * 4096) st st1"
  shows "freed G st (G(a := None)) st' a"
proof -
  let ?x = "Large T Size" and ?n = "unat (pool_pages Size) * 4096"
  have s: "mem_ok (PageState st)" "arenas_ok G (PageState st)" "blocks_ok G (Blocks st) (Tails st) (list_of st)"
    using assms(2) by (simp_all add: pool_ok_def)
  have w: "mem_ok (PageState st1)" "arenas_ok G (PageState st1)" "list_of st1 = list_of st"
      "\<And>x. \<not> in_pages a (arena_pages ?x) x \<Longrightarrow> Blocks st1 x = Blocks st x \<and> Tails st1 x = Tails st x"
      "gMemoryLock (PageState st1) = gMemoryLock (PageState st)"
    using assms(4) s(1,2) arenas_ok_cong [of "PageState st1" "PageState st" G] by (simp_all add: wiped_def in_pages_within)
  obtain s' where s': "st' = st1\<lparr>PageState := s'\<rparr>" "mem_ok s'" "gMemoryLock s' = gMemoryLock (PageState st1)" "arenas_ok (G(a := None)) s'"
    by (rule FreePages_ok [OF assms(1) w(1,2) assms(3)]) simp
  have n: "slot G a T ?n" by (rule large_slot [where G = G, OF assms(3)])
  have own: "in_pages a (arena_pages ?x) d \<longleftrightarrow> d = a" if m: "slot G d U m" for d U m
  proof -
    have "within a ?n d \<longrightarrow> a = d" using slots_apart [OF s(2) n m _ within_start [OF slot_bound(3) [OF s(2) m]]] by blast
    then show ?thesis using within_start [OF slot_bound(3) [OF s(2) n]] by (auto simp: in_pages_within)
  qed
  have "\<not> in_pages a (arena_pages ?x) x" if "x \<in> set (list_of st U k)" for x U k
  proof -
    have b: "block_at G x U k" using blocks_okD(5) [OF s(3) that] by simp
    then show ?thesis using own [OF block_slot [OF b]] block_not_large [OF s(2) b] assms(3) by auto
  qed
  then have "blocks_ok (G(a := None)) (Blocks st1) (Tails st1) (list_of st)"
    using drop_blocks [OF s(2,3) assms(3) w(4), of "list_of st"] blocks_okD(4) [OF s(3)] by blast
  then have "pool_ok (G(a := None)) st'" using s'(2,4) w(3) unfolding s'(1) by (simp add: pool_ok_def)
  moreover have "live (G(a := None)) st' d U R \<longleftrightarrow> live G st d U R \<and> d \<noteq> a" for d U R
  proof -
    have "live (G(a := None)) st' d U R \<longleftrightarrow> live G st d U R \<and> \<not> in_pages a (arena_pages ?x) d"
      by (rule live_dropped [OF s(2) assms(3)]) (use w(4) s'(1) in simp)
    then show ?thesis using own by (auto simp: live_def)
  qed
  ultimately show ?thesis using s'(3) w(5) unfolding s'(1) by (simp add: freed_def)
qed

text \<open>A block goes to the front of its free list.\<close>

lemma give_back_block:
  assumes "pool_ok G st" "block_at G a T k" "Blocks st a = Some (POOL_HEAD T Size)" "wiped a (LIST_TO_SIZE k) st st1" "pool_of st1 T \<noteq> None"
    and "st2 = put_pool T (\<lambda>p. p\<lparr>FreeList := (FreeList p)(k := a # FreeList p k)\<rparr>) (st1\<lparr>Blocks := (Blocks st1)(a \<mapsto> POOL_FREE k)\<rparr>)"
  shows "freed G st G st2 a"
proof -
  have s: "mem_ok (PageState st)" "arenas_ok G (PageState st)" "blocks_ok G (Blocks st) (Tails st) (list_of st)"
    using assms(1) by (simp_all add: pool_ok_def)
  have w: "mem_ok (PageState st1)" "arenas_ok G (PageState st1)" "list_of st1 = list_of st" "gMemoryLock (PageState st1) = gMemoryLock (PageState st)"
      "\<And>x. \<not> within a (LIST_TO_SIZE k) x \<Longrightarrow> Blocks st1 x = Blocks st x \<and> Tails st1 x = Tails st x"
    using assms(4) s(1,2) arenas_ok_cong [of "PageState st1" "PageState st" G] by (simp_all add: wiped_def)
  have f: "PageState st2 = PageState st1" "Blocks st2 = (Blocks st1)(a \<mapsto> POOL_FREE k)" "Tails st2 = Tails st1"
      "list_of st2 = (\<lambda>U l. if U = T \<and> l = k then a # list_of st U l else list_of st U l)"
    using list_of_push [of "st1\<lparr>Blocks := (Blocks st1)(a \<mapsto> POOL_FREE k)\<rparr>" T k a] assms(5) w(3) unfolding assms(6)
    by (simp_all cong: if_cong)
  have o: "\<forall>x. \<not> within a (LIST_TO_SIZE k) x \<longrightarrow> Blocks st2 x = Blocks st x \<and> Tails st2 x = Tails st x"
    using w(5) within_start [OF LIST_TO_SIZE_bounds(1)] unfolding f by auto
  have "blocks_ok G (Blocks st2) (Tails st2) (list_of st2)"
    by (rule empty_slot [OF s(2,3) assms(2) o assms(3) _ f(4)]) (simp add: f(2))
  then have "pool_ok G st2" using w(1,2) by (simp add: pool_ok_def f(1))
  moreover have "live G st2 d U R \<longleftrightarrow> live G st d U R \<and> d \<noteq> a" for d U R
  proof (cases "d = a")
    case True
    then show ?thesis by (simp add: live_def f(2))
  next
    case False
    then show ?thesis using slot_frame(1) [OF s(2) block_slot [OF assms(2)] o] by (auto simp: live_def)
  qed
  ultimately show ?thesis using w(4) by (simp add: freed_def f(1))
qed

lemma block_page:
  assumes "arenas_ok G s" "block_at G a T k"
  obtains p i off where "G p = Some (Carved T i)" "(off, k) \<in> set (pool_blocks i 0)" "a = p + of_nat off" "a AND NOT (DEFAULT_PAGE_ALLOCATION - 1) = p"
proof -
  obtain p i off where p: "G p = Some (Carved T i)" "(off, k) \<in> set (pool_blocks i 0)" "a = p + of_nat off"
    using assms(2) by (auto simp: block_at_def)
  note b = block_arena [OF assms(1) p(1,2)]
  have "arena_ok s p (Carved T i)" using assms(1) p(1) by (simp add: arenas_ok_def)
  then have "page_aligned p" by (simp add: arena_ok_def)
  from page_of_block [OF this _ b(4), of off] show thesis
    using that [OF p] b(2) p(3) LIST_TO_SIZE_bounds(1) [of k] by simp
qed

lemma live_slot:
  assumes "pool_ok G st" "live G st a T Size"
  shows "if 32 \<le> SIZE_TO_LIST Size then G a = Some (Large T Size) else block_at G a T (unat (SIZE_TO_LIST Size))"
proof -
  have s: "arenas_ok G (PageState st)" "blocks_ok G (Blocks st) (Tails st) (list_of st)" using assms(1) by (simp_all add: pool_ok_def)
  obtain n where n: "slot G a T n" "Blocks st a = Some (POOL_HEAD T Size)" using assms(2) by (auto simp: live_def)
  consider k where "block_at G a T k" | Z where "G a = Some (Large T Z)" using n(1) by (auto simp: slot_def)
  then show ?thesis
  proof cases
    case 1
    then have "unat (SIZE_TO_LIST Size) = k" using blocks_okD(1) [OF s(2) 1] n(2) by simp
    moreover have "k < 32" using block_page [OF s(1) 1] block_arena(3) [OF s(1)] by metis
    ultimately show ?thesis using 1 by (simp add: word_le_nat_alt)
  next
    case 2
    then show ?thesis using blocks_okD(2) [OF s(2) 2] n(2) by simp
  qed
qed

lemma give_back_release:
  assumes "pool_ok G st" "live G st a T Size" "pool_of st T \<noteq> None" "\<not> 32 \<le> SIZE_TO_LIST Size"
  obtains p i st2 where "G p = Some (Carved T i)" "a AND NOT (DEFAULT_PAGE_ALLOCATION - 1) = p" "freed G st G st2 a"
    "give_back env free a T Size (DebugClearBlocks env a Size (put_pool T (\<lambda>p. p\<lparr>Used := f p\<rparr>) st)) = release_page env free p st2"
proof -
  let ?st = "DebugClearBlocks env a Size (put_pool T (\<lambda>p. p\<lparr>Used := f p\<rparr>) st)" and ?k = "unat (SIZE_TO_LIST Size)"
  have s: "arenas_ok G (PageState st)" "blocks_ok G (Blocks st) (Tails st) (list_of st)" using assms(1) by (simp_all add: pool_ok_def)
  have b: "block_at G a T ?k" using live_slot [OF assms(1,2)] assms(4) by simp
  have h: "Blocks st a = Some (POOL_HEAD T Size)" using assms(2) by (simp add: live_def)
  have "unat Size \<le> LIST_TO_SIZE ?k" using small_list(2) assms(4) by simp
  note w = wiped_clear [OF slot_bound(1) [OF s(1) block_slot [OF b]] this]
  have e: "pool_of ?st T \<noteq> None" using assms(3) by (simp add: pool_of_put)
  obtain p i off where p: "G p = Some (Carved T i)" "(off, ?k) \<in> set (pool_blocks i 0)" "a AND NOT (DEFAULT_PAGE_ALLOCATION - 1) = p"
    by (rule block_page [OF s(1) b])
  define st2 where "st2 = put_pool T (\<lambda>p. p\<lparr>FreeList := (FreeList p)(?k := a # FreeList p ?k)\<rparr>) (?st\<lparr>Blocks := (Blocks ?st)(a \<mapsto> POOL_FREE ?k)\<rparr>)"
  have "freed G st G st2 a" by (rule give_back_block [OF assms(1) b h w e st2_def])
  moreover have "give_back env free a T Size ?st = release_page env free p st2"
    using assms(4) p(3) by (simp add: give_back_def Let_def st2_def)
  ultimately show thesis using that p(1,3) by blast
qed

lemma give_back_ok:
  assumes "give_back env free a T Size (DebugClearBlocks env a Size (put_pool T (\<lambda>p. p\<lparr>Used := f p\<rparr>) st)) = Some st'"
    and "pool_ok G st" "live G st a T Size" "pool_of st T \<noteq> None"
  shows "\<exists>G'. freed G st G' st' a"
proof (cases "32 \<le> SIZE_TO_LIST Size")
  case False
  obtain p i st2 where p: "G p = Some (Carved T i)" "a AND NOT (DEFAULT_PAGE_ALLOCATION - 1) = p" "freed G st G st2 a"
    "give_back env free a T Size (DebugClearBlocks env a Size (put_pool T (\<lambda>p. p\<lparr>Used := f p\<rparr>) st)) = release_page env free p st2"
    by (rule give_back_release [OF assms(2-4) False])
  have "pool_ok G st2" using p(3) by (simp add: freed_def)
  from release_page_ok [OF assms(1) [unfolded p(4)] this p(1)] show ?thesis using p(3) unfolding freed_def by auto
next
  case True
  then have g: "G a = Some (Large T Size)" using live_slot [OF assms(2,3)] by simp
  have s: "arenas_ok G (PageState st)" "blocks_ok G (Blocks st) (Tails st) (list_of st)" using assms(2) by (simp_all add: pool_ok_def)
  have n: "slot G a T (unat (pool_pages Size) * 4096)" by (rule large_slot [where G = G, OF g])
  have "Blocks st a = Some (POOL_HEAD T Size)" using assms(3) by (simp add: live_def)
  then have "unat Size \<le> unat (pool_pages Size) * 4096" using blocks_okD(3) [OF s(2) n] by (simp add: used_ok_def)
  note w = wiped_clear [OF slot_bound(1) [OF s(1) n] this]
  show ?thesis using give_back_large [OF _ assms(2) g w] assms(1) True by (auto simp: give_back_def)
qed

lemma FreePool_gives:
  assumes "pool_ok G st" "live G st a T Size" "T < EfiMaxMemoryType"
    and "CoreFreePool env free n (a + SIZE_OF_POOL_HEAD) st = Some (Status, st')"
  shows "Status = EFI_SUCCESS \<and> (\<exists>G'. pool_ok G' st' \<and> (\<forall>c U R. live G' st' c U R \<longleftrightarrow> live G st c U R \<and> c \<noteq> a))"
proof -
  let ?st = "st\<lparr>PageState := (PageState st)\<lparr>gMemoryLock := True\<rparr>\<rparr>" and ?b = "a + SIZE_OF_POOL_HEAD"
  obtain k where k: "slot G a T k" "40 \<le> unat Size" "unat Size \<le> k" "unat a + k < 2 ^ 64" by (rule live_used [OF assms(1,2)])
  then have "unat ?b = unat a + 24" by (simp add: unat_word_ariths(1))
  then have "?b \<noteq> 0" by auto
  then obtain st1 where c: "CoreFreePoolI env free n ?b ?st = Some (Status, st1)" "st' = st1\<lparr>PageState := (PageState st1)\<lparr>gMemoryLock := False\<rparr>\<rparr>"
    using assms(4) by (auto simp: CoreFreePool_def CoreAcquireMemoryLock_def CoreReleaseMemoryLock_def split: if_splits)
  obtain m where m: "n = Suc m" using c(1) by (cases n) simp_all
  have l: "live G ?st a T Size" "pool_ok G ?st" using assms(1,2) by simp_all
  have t: "\<not> 0x80000000 \<le> T" using assms(3) by (simp add: word_le_nat_alt word_less_nat_alt)
  have B: "Blocks ?st a = Some (POOL_HEAD T Size)" using l(1) by (simp add: live_def)
  have p: "pool_of ?st T \<noteq> None" using assms(3) by (simp add: pool_of_def)
  have g: "Status = EFI_SUCCESS \<and> give_back env free a T Size (DebugClearBlocks env a Size (put_pool T (\<lambda>p. p\<lparr>Used := Used p - Size\<rparr>) ?st)) = Some st1"
    using c(1) B t assms(3) unfolding m by (auto simp: LookupPoolHead_def Let_def split: if_splits)
  obtain G' where "freed G ?st G' st1 a" using give_back_ok [OF conjunct2 [OF g] l(2,1) p] by blast
  then show ?thesis using g unfolding c(2) freed_def by auto
qed

lemma FreePool_returns:
  assumes "pool_ok G st" "live G st a T Size" "T < EfiMaxMemoryType" "\<not> gMemoryLock (PageState st)" "n \<noteq> 0" "unat Size < 4096"
    and "live G st c U R" "c \<noteq> a" "c AND NOT EFI_PAGE_MASK = a AND NOT EFI_PAGE_MASK" "unat R < 4096"
  shows "CoreFreePool env free n (a + SIZE_OF_POOL_HEAD) st \<noteq> None"
proof -
  let ?st = "st\<lparr>PageState := (PageState st)\<lparr>gMemoryLock := True\<rparr>\<rparr>" and ?b = "a + SIZE_OF_POOL_HEAD"
  obtain m where m: "n = Suc m" using assms(5) by (cases n) simp_all
  have l: "live G ?st a T Size" "pool_ok G ?st" "live G ?st c U R" using assms(1,2,7) by simp_all
  have ar: "arenas_ok G (PageState ?st)" using l(2) by (simp add: pool_ok_def)
  have p: "pool_of ?st T \<noteq> None" using assms(3) by (simp add: pool_of_def)
  have z: "\<not> 32 \<le> SIZE_TO_LIST Size" "\<not> 32 \<le> SIZE_TO_LIST R"
    using assms(6,10) by (simp_all add: word_le_nat_alt SIZE_TO_LIST_unat)
  obtain q i st2 where q: "G q = Some (Carved T i)" "a AND NOT (DEFAULT_PAGE_ALLOCATION - 1) = q" "freed G ?st G st2 a"
    "give_back env free a T Size (DebugClearBlocks env a Size (put_pool T (\<lambda>p. p\<lparr>Used := Used p - Size\<rparr>) ?st)) = release_page env free q st2"
    by (rule give_back_release [OF l(2,1) p z(1)])
  have "block_at G c U (unat (SIZE_TO_LIST R))" using live_slot [OF l(2,3)] z(2) by simp
  then obtain q' j off where c: "G q' = Some (Carved U j)" "(off, unat (SIZE_TO_LIST R)) \<in> set (pool_blocks j 0)" "c = q' + of_nat off"
      "c AND NOT (DEFAULT_PAGE_ALLOCATION - 1) = q'" by (rule block_page [OF ar])
  have "q' = q" using assms(9) c(4) q(2) by simp
  then have o: "(off, unat (SIZE_TO_LIST R)) \<in> set (pool_blocks i 0)" "c = q + of_nat off" using c q(1) by simp_all
  have "Blocks st2 c = Some (POOL_HEAD U R)" using q(3) l(3) assms(8) by (auto simp: freed_def live_def)
  then have n: "\<not> (\<forall>(Offset, _)\<in>set (pool_blocks i 0). is_free (Blocks st2 (q + of_nat Offset)))" using o by (force simp: is_free_iff)
  have ok2: "pool_ok G st2" using q(3) by (simp add: freed_def)
  have r: "release_page env free q st2 = Some st2"
  proof (cases "Blocks st2 q = Some (POOL_FREE i)")
    case True
    show ?thesis unfolding release_page_def True option.case pool_block.case if_not_P [OF n] ..
  next
    case False
    then show ?thesis using page_first [OF ok2 q(1)] by (auto simp: release_page_def split: option.splits pool_block.splits)
  qed
  obtain k where k: "slot G a T k" "40 \<le> unat Size" "unat Size \<le> k" "unat a + k < 2 ^ 64" "Tails st (a + Size - SIZE_OF_POOL_TAIL) = Some Size"
    by (rule live_used [OF assms(1,2)])
  then have "unat ?b = unat a + 24" by (simp add: unat_word_ariths(1))
  then have nz: "?b \<noteq> 0" by auto
  have "a \<noteq> 0" by (rule slot_bound(2) [OF ar k(1)])
  moreover have "\<not> 0x80000000 \<le> T" using assms(3) by (simp add: word_le_nat_alt word_less_nat_alt)
  moreover have "Blocks st a = Some (POOL_HEAD T Size)" using assms(2) by (simp add: live_def)
  moreover have "pool_of st2 T \<noteq> None" using assms(3) by (simp add: pool_of_def)
  moreover have "gMemoryLock (PageState st2)" using q(3) by (simp add: freed_def)
  ultimately show ?thesis
    using nz k(5) r q(4) assms(3,4) unfolding m
    by (auto simp: CoreFreePool_def CoreAcquireMemoryLock_def CoreReleaseMemoryLock_def LookupPoolHead_def Let_def)
qed

end

text \<open>C7. Freeing a buffer of one of the types the core knows (below \<open>EfiMaxMemoryType\<close>) that is in use succeeds whenever it returns,
  and ends the use of exactly that buffer: every other one stays, no other appears, whether the block's page stays in the pool
  or is given back, and the pool stays well formed.  (For a type of the operating system the last free also
  frees the structure of the pool, which is itself a buffer; that case is not covered.)\<close>

theorem FreePool_frees:
  assumes "pool_ok G st" "live G st a T Size" "T < EfiMaxMemoryType"
    and "CoreFreePool env (CoreFreeMemoryMapStack (PagesEnv env) m) n (a + SIZE_OF_POOL_HEAD) st = Some (Status, st')"
  shows "Status = EFI_SUCCESS \<and> (\<exists>G'. pool_ok G' st' \<and> (\<forall>c U R. live G' st' c U R \<longleftrightarrow> live G st c U R \<and> c \<noteq> a))"
  by (rule pool_pages_source.FreePool_gives [OF assms])

text \<open>Allocating a block that is on its free list and freeing it again both return, and leave the same buffers in use: the
  pool neither stalls nor leaks nor loses a buffer.\<close>

theorem pool_roundtrip:
  assumes "pool_ok G st" "\<not> gMemoryLock (PageState st)" "T < EfiMaxMemoryType" "T \<noteq> EfiConventionalMemory" "unat Size < 4048" "n \<noteq> 0"
    and "list_of st T (unat (SIZE_TO_LIST (ALIGN_VARIABLE Size + POOL_OVERHEAD))) = a # l"
    and "live G st c U R" "c AND NOT EFI_PAGE_MASK = a AND NOT EFI_PAGE_MASK" "unat R < 4096"
  shows "\<exists>st1 st2 G2. CoreAllocatePool env (CoreFreeMemoryMapStack (PagesEnv env) m) n T Size True st = Some ((EFI_SUCCESS, Some (a + SIZE_OF_POOL_HEAD)), st1) \<and>
    CoreFreePool env (CoreFreeMemoryMapStack (PagesEnv env) m) n (a + SIZE_OF_POOL_HEAD) st1 = Some (EFI_SUCCESS, st2) \<and>
    pool_ok G2 st2 \<and> (\<forall>d V S. live G2 st2 d V S \<longleftrightarrow> live G st d V S)"
proof -
  let ?free = "CoreFreeMemoryMapStack (PagesEnv env) m"
  obtain st1 where st1: "CoreAllocatePool env ?free n T Size True st = Some ((EFI_SUCCESS, Some (a + SIZE_OF_POOL_HEAD)), st1)"
    using AllocatePool_returns [OF assms(1-5,7,6)] by blast
  have z: "unat Size < 2 ^ 63" using assms(5) by simp
  obtain G1 S where g: "pool_ok G1 st1" "live G1 st1 a T S" "unat S < unat Size + 48"
      "\<And>d V S. live G st d V S \<Longrightarrow> live G1 st1 d V S" "\<And>d V S. live G1 st1 d V S \<Longrightarrow> live G st d V S \<or> d = a"
    using pool_pages_source.AllocatePool_gives [OF assms(1) st1 z] assms(3) by auto
  have p: "arenas_ok G (PageState st)" "blocks_ok G (Blocks st) (Tails st) (list_of st)" using assms(1) by (simp_all add: pool_ok_def)
  have "a \<in> set (list_of st T (unat (SIZE_TO_LIST (ALIGN_VARIABLE Size + POOL_OVERHEAD))))" using assms(7) by simp
  from blocks_okD(5) [OF p(2) this] have n: "\<not> live G st a V Z" for V Z by (simp add: live_def)
  then have "c \<noteq> a" using assms(8) by blast
  moreover have "\<not> gMemoryLock (PageState st1)"
    using st1 assms(2) by (auto simp: CoreAllocatePool_def CoreReleaseMemoryLock_def Let_def split: if_splits)
  moreover have "unat S < 4096" using g(3) assms(5) by simp
  ultimately obtain Status st2 where st2: "CoreFreePool env ?free n (a + SIZE_OF_POOL_HEAD) st1 = Some (Status, st2)"
    using pool_pages_source.FreePool_returns [OF g(1,2) assms(3) _ assms(6) _ g(4) [OF assms(8)] _ assms(9,10)] by fast
  from pool_pages_source.FreePool_gives [OF g(1,2) assms(3) st2] obtain G2 where
    "Status = EFI_SUCCESS" "pool_ok G2 st2" "\<forall>c U R. live G2 st2 c U R \<longleftrightarrow> live G1 st1 c U R \<and> c \<noteq> a" by blast
  moreover have "live G1 st1 d V Z \<and> d \<noteq> a \<longleftrightarrow> live G st d V Z" for d V Z using g(4,5) n by blast
  ultimately show ?thesis using st1 st2 by blast
qed

section \<open>Sizes near the end of the range\<close>

lemma wrapped_size:
  assumes "2 ^ 64 - 47 \<le> unat Size" "Size \<le> MAX_POOL_SIZE"
  shows "ALIGN_VARIABLE Size + POOL_OVERHEAD = 0"
proof -
  define d where "d = - Size"
  have S: "Size = - d" by (simp add: d_def)
  have "Size \<noteq> 0" using assms(1) by auto
  then have u: "unat d = 2 ^ 64 - unat Size" using unat_sub_if' [of 0 Size] unfolding d_def by (simp add: unat_eq_zero)
  have "unat MAX_POOL_SIZE = 2 ^ 64 - 41" by simp
  then have b: "41 \<le> unat d" "unat d \<le> 47" using assms u by (auto simp: word_le_nat_alt)
  then have "d = of_nat (unat d) \<and> unat d \<in> {41, 42, 43, 44, 45, 46, 47}" by auto
  then consider "d = 41" | "d = 42" | "d = 43" | "d = 44" | "d = 45" | "d = 46" | "d = 47" by fastforce
  then show ?thesis unfolding S ALIGN_VARIABLE_def by cases simp_all
qed

context page_source
begin

lemma AllocatePool_wrapped:
  assumes "pool_ok G st" "2 ^ 64 - 47 \<le> unat Size" "T < EfiMaxMemoryType"
    and "CoreAllocatePool env free n T Size True st = Some ((EFI_SUCCESS, b), st')"
  shows "\<exists>G' a. b = Some (a + SIZE_OF_POOL_HEAD) \<and> arenas_ok G' (PageState st') \<and> slot G' a T 128 \<and>
    (if DebugClearMemoryEnabled env then \<forall>c. c - (a + SIZE_OF_POOL_HEAD) < - 40 \<longrightarrow> Blocks st' c = None
     else Blocks st' a = Some (POOL_HEAD T 0) \<and> Tails st' (a - SIZE_OF_POOL_TAIL) = Some 0)"
proof -
  let ?st = "st\<lparr>PageState := (PageState st)\<lparr>gMemoryLock := True\<rparr>\<rparr>"
  have T: "T \<noteq> EfiConventionalMemory" "\<not> Size > MAX_POOL_SIZE" using assms(4) by (auto simp: CoreAllocatePool_def split: if_splits)
  then have z: "ALIGN_VARIABLE Size + POOL_OVERHEAD = 0" using wrapped_size [OF assms(2)] by simp
  obtain c st1 where c: "CoreAllocatePoolI env free n T Size ?st = Some (c, st1)" "c \<noteq> 0" "b = Some c"
      "st' = st1\<lparr>PageState := (PageState st1)\<lparr>gMemoryLock := False\<rparr>\<rparr>"
    using assms(4) by (auto simp: CoreAllocatePool_def CoreReleaseMemoryLock_def Let_def split: if_splits)
  obtain m where n: "n = Suc m" using c(1) by (cases n) simp_all
  obtain h st2 where h: "take_block env free T 0 ?st = Some (h, st2)" "h \<noteq> 0" "c = h + SIZE_OF_POOL_HEAD" "st1 = fill_block env h T 0 st2"
    using c(1,2) assms(3) unfolding n by (auto simp: LookupPoolHead_def Let_def z split: if_splits)
  have "pool_ok G ?st" using assms(1) by simp
  from take_block_ok [OF h(1) this T(1)] obtain G' where r: "ready G ?st G' st2 h T 128 0"
    using h(2) by (auto simp: SIZE_TO_LIST_def LIST_TO_SIZE_def)
  then have a: "arenas_ok G' (PageState st2)" "slot G' h T 128" unfolding ready_def by blast+
  have "arenas_ok G' (PageState st1)"
    using a(1) arenas_ok_cong [of "PageState st1" "PageState st2" G'] unfolding h(4) fill_block_def by (simp add: Let_def clear_fields)
  moreover have "if DebugClearMemoryEnabled env then \<forall>c. c - (h + SIZE_OF_POOL_HEAD) < - 40 \<longrightarrow> Blocks st1 c = None
     else Blocks st1 h = Some (POOL_HEAD T 0) \<and> Tails st1 (h - SIZE_OF_POOL_TAIL) = Some 0"
    unfolding h(4) fill_block_def by (simp add: Let_def DebugClearBlocks_def)
  ultimately show ?thesis using a(2) c(3,4) h(3) by (intro exI [of _ G'] exI [of _ h]) auto
qed

end

text \<open>C31. A request for one of the last seven sizes the guard lets through, of a type below \<open>EfiMaxMemoryType\<close>, wraps around when
  the header and tail are added: whenever it is answered with success, the caller has been given a block of 128 bytes,
  whose tail is written in front of it, or, when memory is cleared, with every other header in memory erased.\<close>

theorem AllocatePool_wraps:
  assumes "pool_ok G st" "2 ^ 64 - 47 \<le> unat Size" "T < EfiMaxMemoryType"
    and "CoreAllocatePool env (CoreFreeMemoryMapStack (PagesEnv env) m) n T Size True st = Some ((EFI_SUCCESS, b), st')"
  shows "\<exists>G' a. b = Some (a + SIZE_OF_POOL_HEAD) \<and> arenas_ok G' (PageState st') \<and> slot G' a T 128 \<and>
    (if DebugClearMemoryEnabled env then \<forall>c. c - (a + SIZE_OF_POOL_HEAD) < - 40 \<longrightarrow> Blocks st' c = None
     else Blocks st' a = Some (POOL_HEAD T 0) \<and> Tails st' (a - SIZE_OF_POOL_TAIL) = Some 0)"
  by (rule pool_pages_source.AllocatePool_wrapped [OF assms])

end
