(* ===== verification/PoolExamples.thy ===== *)
theory PoolExamples
  imports PoolSpec PagesExamples
begin

text \<open>
  The small memory of \<open>PagesExamples\<close>, whose page in use belongs to a pool: it is divided into a block of 3968 bytes, which holds a buffer,
  and one of 128 bytes, which is free.
\<close>

definition demo_pool_env :: "unit pool_env" where
  "demo_pool_env = \<lparr>PagesEnv = demo_env, DebugClearMemoryEnabled = False\<rparr>"

definition demo_pools :: "unit pools" where
  "demo_pools = \<lparr>PageState = demo_mem, Blocks = [0x3000 \<mapsto> POOL_HEAD 4 3848, 0x3F80 \<mapsto> POOL_FREE 0], Tails = [0x3EF8 \<mapsto> 3848],
     mPoolHead = (\<lambda>T. if T = 4 then \<lparr>Used = 3848, FreeList = (\<lambda>i. if i = 0 then [0x3F80] else [])\<rparr> else empty_pool), mPoolHeadList = []\<rparr>"

abbreviation demo_arenas :: "u64 \<Rightarrow> arena option" where
  "demo_arenas \<equiv> [0x3000 \<mapsto> Carved 4 30]"

abbreviation demo_free :: "unit free_stack" where
  "demo_free \<equiv> CoreFreeMemoryMapStack (PagesEnv demo_pool_env) 1"

lemma demo_blocks: "pool_blocks 30 0 = [(0, 30), (3968, 0)]"
  by (simp add: pool_blocks.simps LIST_TO_SIZE_def)

lemma demo_block_at: "block_at demo_arenas a T k \<longleftrightarrow> T = 4 \<and> (a = 0x3000 \<and> k = 30 \<or> a = 0x3F80 \<and> k = 0)"
proof -
  have c: "demo_arenas p = Some (Carved T i) \<longleftrightarrow> p = 0x3000 \<and> T = 4 \<and> i = 30" for p i by auto
  show ?thesis unfolding block_at_def c by (auto simp: demo_blocks)
qed

lemma demo_slot: "slot demo_arenas a T n \<longleftrightarrow> T = 4 \<and> (a = 0x3000 \<and> n = 3968 \<or> a = 0x3F80 \<and> n = 128)"
  unfolding slot_def demo_block_at by (auto simp: LIST_TO_SIZE_def split: if_splits)

lemma demo_arenas_ok: "arenas_ok demo_arenas demo_mem"
proof -
  have "holds demo_mem a 4" if "in_pages 0x3000 1 a" for a
  proof -
    have "owns demo_mem a 4 0xF"
      using that by (simp add: in_pages_def demo_mem_def demo_entry_def owned_def covers_def word_le_nat_alt)
    then show ?thesis by (auto simp: holds_def)
  qed
  then show ?thesis by (auto simp: arenas_ok_def arena_ok_def page_aligned_def split: if_splits)
qed

lemma demo_list: "list_of demo_pools T k = (if T = 4 \<and> k = 0 then [0x3F80] else [])"
proof -
  have "unat T = 4 \<longleftrightarrow> T = 4" using word_unat_eq_iff [of T 4] by simp
  then show ?thesis by (simp add: list_of_def demo_pools_def pool_of_def empty_pool_def)
qed

lemma demo_pools_ok: "pool_ok demo_arenas demo_pools"
proof -
  have "blocks_ok demo_arenas (Blocks demo_pools) (Tails demo_pools) (list_of demo_pools)"
    unfolding blocks_ok_def demo_block_at demo_slot demo_list
    by (auto simp: demo_pools_def used_ok_def SIZE_TO_LIST_unat split: if_splits)
  then show ?thesis using demo_settled(2) demo_arenas_ok by (simp add: pool_ok_def demo_pools_def)
qed

lemma demo_live: "live demo_arenas demo_pools 0x3000 4 3848"
  using demo_slot by (auto simp: live_def demo_pools_def)

lemma demo_lock: "\<not> gMemoryLock (PageState demo_pools)"
  using demo_fields(1) by (simp add: demo_pools_def)

lemma demo_first: "list_of demo_pools 4 (unat (SIZE_TO_LIST (ALIGN_VARIABLE 80 + POOL_OVERHEAD))) = 0x3F80 # []"
  by (simp add: demo_list ALIGN_VARIABLE_def SIZE_TO_LIST_def)

theorem AllocatePool_safe_witness:
  "\<exists>G st S. CoreAllocatePool demo_pool_env demo_free 1 4 80 True demo_pools = Some ((EFI_SUCCESS, Some 0x3F98), st) \<and>
     pool_ok G st \<and> live G st 0x3F80 4 S \<and> 120 \<le> unat S"
proof -
  obtain st where st: "CoreAllocatePool demo_pool_env demo_free 1 4 80 True demo_pools = Some ((EFI_SUCCESS, Some 0x3F98), st)"
    using AllocatePool_returns [OF demo_pools_ok demo_lock _ _ _ demo_first, of 1] by auto
  then show ?thesis using AllocatePool_safe [OF demo_pools_ok st] by auto
qed

theorem pool_roundtrip_witness:
  "\<exists>st1 st2. CoreAllocatePool demo_pool_env demo_free 1 4 80 True demo_pools = Some ((EFI_SUCCESS, Some (0x3F80 + SIZE_OF_POOL_HEAD)), st1) \<and>
     CoreFreePool demo_pool_env demo_free 1 (0x3F80 + SIZE_OF_POOL_HEAD) st1 = Some (EFI_SUCCESS, st2)"
  using pool_roundtrip [OF demo_pools_ok demo_lock _ _ _ _ demo_first demo_live, where n = 1] by fastforce

text \<open>The block in use is the last one of its page: the page is given back.\<close>

lemma demo_free_runs:
  "\<exists>st'. CoreFreePool demo_pool_env demo_free 1 (0x3000 + SIZE_OF_POOL_HEAD) demo_pools = Some (EFI_SUCCESS, st')"
proof -
  let ?s = "demo_mem\<lparr>gMemoryLock := True\<rparr>"
  have "CoreFreePoolPages demo_env (CoreFreeMemoryMapStack demo_env 1) 0x3000 1 ?s \<noteq> None" by code_simp
  then obtain s' where s': "CoreFreePoolPages demo_env (CoreFreeMemoryMapStack demo_env 1) 0x3000 1 ?s = Some s'" by auto
  have e: "PagesEnv demo_pool_env = demo_env" by (simp add: demo_pool_env_def)
  have "mem_ok ?s" using demo_settled(2) by simp
  from pool_pages_source.pages_returned [where env = demo_pool_env, unfolded e, OF s' this]
  have l: "gMemoryLock s'" by simp
  have "EFI_SIZE_TO_PAGES DEFAULT_PAGE_ALLOCATION = 1" by (simp add: EFI_SIZE_TO_PAGES_def)
  then show ?thesis using s' l
    by (simp add: CoreFreePool_def CoreAcquireMemoryLock_def LookupPoolHead_def Let_def give_back_def SIZE_TO_LIST_def DebugClearBlocks_def
        demo_pools_def demo_pool_env_def demo_fields(1) release_page_def demo_blocks FreePages_def CoreReleaseMemoryLock_def pool_of_def
        unlink_block_def put_pool_def)
qed

theorem FreePool_frees_witness:
  "\<exists>st' G'. CoreFreePool demo_pool_env demo_free 1 (0x3000 + SIZE_OF_POOL_HEAD) demo_pools = Some (EFI_SUCCESS, st') \<and>
     pool_ok G' st' \<and> \<not> live G' st' 0x3000 4 3848"
proof -
  obtain st' where st': "CoreFreePool demo_pool_env demo_free 1 (0x3000 + SIZE_OF_POOL_HEAD) demo_pools = Some (EFI_SUCCESS, st')"
    using demo_free_runs by blast
  from FreePool_frees [OF demo_pools_ok demo_live _ st'] show ?thesis using st' by auto
qed

lemma demo_wrap_runs:
  "\<exists>b st'. CoreAllocatePool demo_pool_env demo_free 1 4 0xFFFFFFFFFFFFFFD1 True demo_pools = Some ((EFI_SUCCESS, b), st')"
proof -
  have z: "ALIGN_VARIABLE 0xFFFFFFFFFFFFFFD1 + POOL_OVERHEAD = 0" by (simp add: ALIGN_VARIABLE_def)
  show ?thesis
    by (simp add: CoreAllocatePool_def LookupPoolHead_def Let_def z take_block_def pop_free_def SIZE_TO_LIST_def pool_of_def
        demo_pools_def demo_fields(1) CoreReleaseMemoryLock_def fill_block_def clear_fields)
qed

theorem AllocatePool_wraps_witness:
  "\<exists>G' a st'. CoreAllocatePool demo_pool_env demo_free 1 4 0xFFFFFFFFFFFFFFD1 True demo_pools = Some ((EFI_SUCCESS, Some (a + SIZE_OF_POOL_HEAD)), st') \<and>
     slot G' a 4 128 \<and> Blocks st' a = Some (POOL_HEAD 4 0)"
proof -
  obtain b st where st: "CoreAllocatePool demo_pool_env demo_free 1 4 0xFFFFFFFFFFFFFFD1 True demo_pools = Some ((EFI_SUCCESS, b), st)"
    using demo_wrap_runs by blast
  from AllocatePool_wraps [OF demo_pools_ok _ _ st] show ?thesis using st by (auto simp: demo_pool_env_def)
qed

end
