(* ===== verification/Handles.thy ===== *)
theory Handles
  imports Prelude
begin

text \<open>
  The handle database of the DXE core: handles, protocols, the interfaces installed on handles, who has opened them, and who wants to be
  told of new ones (\<open>MdeModulePkg/Core/Dxe/Hand/Handle.c\<close> and \<open>Notify.c\<close>, structures in \<open>Handle.h\<close>).

  A structure is known by its address, \<open>0\<close> is \<open>NULL\<close>.  Where no structure of the kind stands the signature test fails: for a handle that is
  an error status, for a list entry (\<open>CR\<close>) it is \<open>None\<close>.  A list is the list of its entries in link order.  A link of the list
  \<open>Protocols\<close> of an entry is its head or the interface it belongs to.

  The rest of the core is the parameter \<open>env\<close> on the state \<open>Rest\<close>: the pool, the events, the notification functions
  that run when the lock is released, and the connection of drivers, whose code calls these services again.
\<close>

section \<open>State\<close>

abbreviation EFI_OPEN_PROTOCOL_BY_HANDLE_PROTOCOL :: u32 where "EFI_OPEN_PROTOCOL_BY_HANDLE_PROTOCOL \<equiv> 1"
abbreviation EFI_OPEN_PROTOCOL_GET_PROTOCOL :: u32 where "EFI_OPEN_PROTOCOL_GET_PROTOCOL \<equiv> 2"
abbreviation EFI_OPEN_PROTOCOL_TEST_PROTOCOL :: u32 where "EFI_OPEN_PROTOCOL_TEST_PROTOCOL \<equiv> 4"
abbreviation EFI_OPEN_PROTOCOL_BY_CHILD_CONTROLLER :: u32 where "EFI_OPEN_PROTOCOL_BY_CHILD_CONTROLLER \<equiv> 8"
abbreviation EFI_OPEN_PROTOCOL_BY_DRIVER :: u32 where "EFI_OPEN_PROTOCOL_BY_DRIVER \<equiv> 0x10"
abbreviation EFI_OPEN_PROTOCOL_EXCLUSIVE :: u32 where "EFI_OPEN_PROTOCOL_EXCLUSIVE \<equiv> 0x20"

record ihandle =
  Protocols :: "u64 list"
  LocateRequest :: u64
  Key :: u64

datatype list_link = ListHead | Link u64

record protocol_entry =
  ProtocolID :: guid
  ByProtocol :: "u64 list"
  Notify :: "u64 list"

record open_data =
  AgentHandle :: u64
  ControllerHandle :: u64
  Attributes :: u32
  OpenCount :: u32

record protocol_interface =
  Handle :: u64
  Protocol :: u64
  Interface :: u64
  OpenList :: "(u64 \<times> open_data) list"
  OpenListCount :: u64

record protocol_notify =
  NotifyProtocol :: u64
  Event :: u64
  Position :: list_link

record 'p hdb =
  mProtocolDatabase :: "u64 list"
  gHandleList :: "u64 list"
  gHandleDatabaseKey :: u64
  gProtocolDatabaseLock :: bool
  mEfiLocateHandleRequest :: u64
  ihandles :: "u64 \<Rightarrow> ihandle option"
  entries :: "u64 \<Rightarrow> protocol_entry option"
  interfaces :: "u64 \<Rightarrow> protocol_interface option"
  notifies :: "u64 \<Rightarrow> protocol_notify option"
  Rest :: 'p

text \<open>The state before the first call.\<close>

definition initial_hdb :: "'p \<Rightarrow> 'p hdb" where
  "initial_hdb p = \<lparr>mProtocolDatabase = [], gHandleList = [], gHandleDatabaseKey = 0, gProtocolDatabaseLock = False, mEfiLocateHandleRequest = 0,
     ihandles = Map.empty, entries = Map.empty, interfaces = Map.empty, notifies = Map.empty, Rest = p\<rparr>"

record 'p hdb_env =
  PoolAllocate :: "u64 \<Rightarrow> 'p \<Rightarrow> (u64 \<times> 'p) option"
  PoolFree :: "u64 \<Rightarrow> 'p \<Rightarrow> 'p option"
  SignalEvent :: "u64 \<Rightarrow> 'p \<Rightarrow> 'p option"
  Notifications :: "'p hdb \<Rightarrow> 'p hdb option"
  ConnectController :: "u64 \<Rightarrow> 'p hdb \<Rightarrow> 'p hdb option"
  DisconnectController :: "u64 \<Rightarrow> u64 \<Rightarrow> 'p hdb \<Rightarrow> (efi_status \<times> 'p hdb) option"
  DxeCoreImageHandle :: u64

text \<open>\<open>sizeof\<close> of the structures on X64.\<close>

abbreviation SIZE_OF_IHANDLE :: u64 where "SIZE_OF_IHANDLE \<equiv> 56"
abbreviation SIZE_OF_PROTOCOL_ENTRY :: u64 where "SIZE_OF_PROTOCOL_ENTRY \<equiv> 72"
abbreviation SIZE_OF_PROTOCOL_INTERFACE :: u64 where "SIZE_OF_PROTOCOL_INTERFACE \<equiv> 88"
abbreviation SIZE_OF_OPEN_PROTOCOL_DATA :: u64 where "SIZE_OF_OPEN_PROTOCOL_DATA \<equiv> 48"
abbreviation SIZE_OF_PROTOCOL_NOTIFY :: u64 where "SIZE_OF_PROTOCOL_NOTIFY \<equiv> 48"
abbreviation SIZE_OF_INFORMATION_ENTRY :: u64 where "SIZE_OF_INFORMATION_ENTRY \<equiv> 24"

definition AllocatePool :: "'p hdb_env \<Rightarrow> u64 \<Rightarrow> 'p hdb \<Rightarrow> (u64 \<times> 'p hdb) option" where
  "AllocatePool env Size s = do { (a, p) \<leftarrow> PoolAllocate env Size (Rest s); Some (a, s\<lparr>Rest := p\<rparr>) }"

definition FreePool :: "'p hdb_env \<Rightarrow> u64 \<Rightarrow> 'p hdb \<Rightarrow> 'p hdb option" where
  "FreePool env Buffer s = do { p \<leftarrow> PoolFree env Buffer (Rest s); Some (s\<lparr>Rest := p\<rparr>) }"

definition put_handle :: "u64 \<Rightarrow> ihandle \<Rightarrow> 'p hdb \<Rightarrow> 'p hdb" where
  "put_handle a x s = s\<lparr>ihandles := (ihandles s)(a \<mapsto> x)\<rparr>"

definition put_entry :: "u64 \<Rightarrow> protocol_entry \<Rightarrow> 'p hdb \<Rightarrow> 'p hdb" where
  "put_entry a x s = s\<lparr>entries := (entries s)(a \<mapsto> x)\<rparr>"

definition put_interface :: "u64 \<Rightarrow> protocol_interface \<Rightarrow> 'p hdb \<Rightarrow> 'p hdb" where
  "put_interface a x s = s\<lparr>interfaces := (interfaces s)(a \<mapsto> x)\<rparr>"

definition put_notify :: "u64 \<Rightarrow> protocol_notify \<Rightarrow> 'p hdb \<Rightarrow> 'p hdb" where
  "put_notify a x s = s\<lparr>notifies := (notifies s)(a \<mapsto> x)\<rparr>"

section \<open>Searching\<close>

definition CoreAcquireProtocolLock :: "'p hdb \<Rightarrow> 'p hdb option" where
  "CoreAcquireProtocolLock s = do { ASSERT (\<not> gProtocolDatabaseLock s); Some (s\<lparr>gProtocolDatabaseLock := True\<rparr>) }"

text \<open>Releasing the lock lowers the priority, and the notifications that have waited for that run.\<close>

definition CoreReleaseProtocolLock :: "'p hdb_env \<Rightarrow> 'p hdb \<Rightarrow> 'p hdb option" where
  "CoreReleaseProtocolLock env s = do { ASSERT (gProtocolDatabaseLock s); Notifications env (s\<lparr>gProtocolDatabaseLock := False\<rparr>) }"

definition CoreValidateHandle :: "u64 \<Rightarrow> 'p hdb \<Rightarrow> efi_status" where
  "CoreValidateHandle UserHandle s =
     (if UserHandle = 0 then EFI_INVALID_PARAMETER
      else if ihandles s UserHandle = None then EFI_INVALID_PARAMETER else EFI_SUCCESS)"

fun search_database :: "guid \<Rightarrow> u64 list \<Rightarrow> 'p hdb \<Rightarrow> u64 option" where
  "search_database P [] s = Some 0"
| "search_database P (a # l) s = do {
     Item \<leftarrow> entries s a;
     if ProtocolID Item = P then Some a else search_database P l s
   }"

definition CoreFindProtocolEntry :: "'p hdb_env \<Rightarrow> guid \<Rightarrow> bool \<Rightarrow> 'p hdb \<Rightarrow> (u64 \<times> 'p hdb) option" where
  "CoreFindProtocolEntry env P Create s = do {
     ASSERT (gProtocolDatabaseLock s);
     ProtEntry \<leftarrow> search_database P (mProtocolDatabase s) s;
     if ProtEntry = 0 \<and> Create then do {
       (ProtEntry, s) \<leftarrow> AllocatePool env SIZE_OF_PROTOCOL_ENTRY s;
       if ProtEntry = 0 then Some (0, s)
       else Some (ProtEntry, (put_entry ProtEntry \<lparr>ProtocolID = P, ByProtocol = [], Notify = []\<rparr> s)
                    \<lparr>mProtocolDatabase := mProtocolDatabase s @ [ProtEntry]\<rparr>)
     } else Some (ProtEntry, s)
   }"

fun find_interface :: "u64 \<Rightarrow> u64 \<Rightarrow> u64 list \<Rightarrow> 'p hdb \<Rightarrow> u64 option" where
  "find_interface ProtEntry I [] s = Some 0"
| "find_interface ProtEntry I (a # l) s = do {
     Prot \<leftarrow> interfaces s a;
     if Interface Prot = I \<and> Protocol Prot = ProtEntry then Some a else find_interface ProtEntry I l s
   }"

definition CoreFindProtocolInterface :: "'p hdb_env \<Rightarrow> u64 \<Rightarrow> guid \<Rightarrow> u64 \<Rightarrow> 'p hdb \<Rightarrow> u64 option" where
  "CoreFindProtocolInterface env h P I s = do {
     ASSERT (gProtocolDatabaseLock s);
     (ProtEntry, _) \<leftarrow> CoreFindProtocolEntry env P False s;
     if ProtEntry = 0 then Some 0
     else do { H \<leftarrow> ihandles s h; find_interface ProtEntry I (Protocols H) s }
   }"

fun get_interface :: "guid \<Rightarrow> u64 list \<Rightarrow> 'p hdb \<Rightarrow> u64 option" where
  "get_interface P [] s = Some 0"
| "get_interface P (a # l) s = do {
     Prot \<leftarrow> interfaces s a;
     ProtEntry \<leftarrow> entries s (Protocol Prot);
     if ProtocolID ProtEntry = P then Some a else get_interface P l s
   }"

definition CoreGetProtocolInterface :: "u64 \<Rightarrow> guid \<Rightarrow> 'p hdb \<Rightarrow> u64 option" where
  "CoreGetProtocolInterface h P s =
     (if EFI_ERROR (CoreValidateHandle h s) then Some 0
      else do { H \<leftarrow> ihandles s h; get_interface P (Protocols H) s })"

section \<open>Opening and closing\<close>

definition drives :: "open_data \<Rightarrow> bool" where
  "drives d \<longleftrightarrow> Attributes d AND EFI_OPEN_PROTOCOL_BY_DRIVER \<noteq> 0"

definition excludes :: "open_data \<Rightarrow> bool" where
  "excludes d \<longleftrightarrow> Attributes d AND EFI_OPEN_PROTOCOL_EXCLUSIVE \<noteq> 0"

text \<open>The check of the attributes and of the handles they call for.\<close>

definition check_open :: "u64 \<Rightarrow> u64 \<Rightarrow> u64 \<Rightarrow> u32 \<Rightarrow> 'p hdb \<Rightarrow> efi_status" where
  "check_open h Opener Controller Attr s =
     (if Attr = EFI_OPEN_PROTOCOL_BY_CHILD_CONTROLLER then
        (if EFI_ERROR (CoreValidateHandle Opener s) then CoreValidateHandle Opener s
         else if EFI_ERROR (CoreValidateHandle Controller s) then CoreValidateHandle Controller s
         else if h = Controller then EFI_INVALID_PARAMETER else EFI_SUCCESS)
      else if Attr = EFI_OPEN_PROTOCOL_BY_DRIVER \<or> Attr = (EFI_OPEN_PROTOCOL_BY_DRIVER OR EFI_OPEN_PROTOCOL_EXCLUSIVE) then
        (if EFI_ERROR (CoreValidateHandle Opener s) then CoreValidateHandle Opener s else CoreValidateHandle Controller s)
      else if Attr = EFI_OPEN_PROTOCOL_EXCLUSIVE then CoreValidateHandle Opener s
      else if Attr \<in> {EFI_OPEN_PROTOCOL_BY_HANDLE_PROTOCOL, EFI_OPEN_PROTOCOL_GET_PROTOCOL, EFI_OPEN_PROTOCOL_TEST_PROTOCOL} then EFI_SUCCESS
      else EFI_INVALID_PARAMETER)"

text \<open>The walk over the open list: an entry of the same agent, or who has the interface.\<close>

datatype open_scan = AlreadyStarted | SameOpen u64 | Scanned bool bool

fun scan_open :: "u64 \<Rightarrow> u64 \<Rightarrow> u32 \<Rightarrow> (u64 \<times> open_data) list \<Rightarrow> bool \<Rightarrow> bool \<Rightarrow> open_scan" where
  "scan_open Opener Controller Attr [] ByDriver Exclusive = Scanned ByDriver Exclusive"
| "scan_open Opener Controller Attr ((a, d) # l) ByDriver Exclusive =
     (let ExactMatch = AgentHandle d = Opener \<and> Attributes d = Attr \<and> ControllerHandle d = Controller
      in if drives d \<and> ExactMatch then AlreadyStarted
         else if \<not> excludes d \<and> ExactMatch then SameOpen a
         else scan_open Opener Controller Attr l (ByDriver \<or> drives d) (Exclusive \<or> excludes d))"

text \<open>Every driver that has the interface open is disconnected, until none has; the lock is released around each call.\<close>

partial_function (option) disconnect_drivers :: "'p hdb_env \<Rightarrow> u64 \<Rightarrow> u64 \<Rightarrow> 'p hdb \<Rightarrow> (efi_status \<times> 'p hdb) option" where
  "disconnect_drivers env h p s = do {
     Prot \<leftarrow> interfaces s p;
     case List.find (\<lambda>x. drives (snd x)) (OpenList Prot) of
       None \<Rightarrow> Some (EFI_SUCCESS, s)
     | Some x \<Rightarrow> do {
         s \<leftarrow> CoreReleaseProtocolLock env s;
         (Status, s) \<leftarrow> DisconnectController env h (AgentHandle (snd x)) s;
         s \<leftarrow> CoreAcquireProtocolLock s;
         if EFI_ERROR Status then Some (Status, s) else disconnect_drivers env h p s
       }
   }"

definition add_open :: "'p hdb_env \<Rightarrow> u64 \<Rightarrow> open_data \<Rightarrow> 'p hdb \<Rightarrow> (efi_status \<times> 'p hdb) option" where
  "add_open env p d s = do {
     (a, s) \<leftarrow> AllocatePool env SIZE_OF_OPEN_PROTOCOL_DATA s;
     if a = 0 then Some (EFI_OUT_OF_RESOURCES, s)
     else do {
       Prot \<leftarrow> interfaces s p;
       Some (EFI_SUCCESS, put_interface p (Prot\<lparr>OpenList := OpenList Prot @ [(a, d)], OpenListCount := OpenListCount Prot + 1\<rparr>) s)
     }
   }"

text \<open>Opening the interface \<open>p\<close>, with the lock held.\<close>

definition open_locked :: "'p hdb_env \<Rightarrow> u64 \<Rightarrow> u64 \<Rightarrow> u64 \<Rightarrow> u64 \<Rightarrow> u32 \<Rightarrow> 'p hdb \<Rightarrow> (efi_status \<times> 'p hdb) option" where
  "open_locked env h p Opener Controller Attr s = do {
     Prot \<leftarrow> interfaces s p;
     case scan_open Opener Controller Attr (OpenList Prot) False False of
       AlreadyStarted \<Rightarrow> Some (EFI_ALREADY_STARTED, s)
     | SameOpen a \<Rightarrow>
         Some (EFI_SUCCESS, put_interface p (Prot\<lparr>OpenList := map (\<lambda>x. if fst x = a then (a, (snd x)\<lparr>OpenCount := OpenCount (snd x) + 1\<rparr>) else x) (OpenList Prot)\<rparr>) s)
     | Scanned ByDriver Exclusive \<Rightarrow> do {
         (Status, s) \<leftarrow>
           (if Attr = EFI_OPEN_PROTOCOL_BY_DRIVER then Some (if Exclusive \<or> ByDriver then EFI_ACCESS_DENIED else EFI_SUCCESS, s)
            else if Attr = (EFI_OPEN_PROTOCOL_BY_DRIVER OR EFI_OPEN_PROTOCOL_EXCLUSIVE) \<or> Attr = EFI_OPEN_PROTOCOL_EXCLUSIVE then
              (if Exclusive then Some (EFI_ACCESS_DENIED, s)
               else if ByDriver then do {
                 (Status, s) \<leftarrow> disconnect_drivers env h p s;
                 Some (if EFI_ERROR Status then EFI_ACCESS_DENIED else EFI_SUCCESS, s)
               } else Some (EFI_SUCCESS, s))
            else Some (EFI_SUCCESS, s));
         if EFI_ERROR Status \<or> Opener = 0 then Some (Status, s)
         else add_open env p \<lparr>AgentHandle = Opener, ControllerHandle = Controller, Attributes = Attr, OpenCount = 1\<rparr> s
       }
   }"

text \<open>\<open>Out\<close> is whether the pointer for the interface is given; the second component is what is stored through it.\<close>

definition CoreOpenProtocol ::
  "'p hdb_env \<Rightarrow> u64 \<Rightarrow> guid option \<Rightarrow> bool \<Rightarrow> u64 \<Rightarrow> u64 \<Rightarrow> u32 \<Rightarrow> 'p hdb \<Rightarrow> ((efi_status \<times> u64 option) \<times> 'p hdb) option" where
  "CoreOpenProtocol env h P Out Opener Controller Attr s =
     (let cleared = (if Attr \<noteq> EFI_OPEN_PROTOCOL_TEST_PROTOCOL then Some 0 else None)
      in case P of
        None \<Rightarrow> Some ((EFI_INVALID_PARAMETER, None), s)
      | Some P \<Rightarrow>
          if Attr \<noteq> EFI_OPEN_PROTOCOL_TEST_PROTOCOL \<and> \<not> Out then Some ((EFI_INVALID_PARAMETER, None), s)
          else if EFI_ERROR (CoreValidateHandle h s) then Some ((CoreValidateHandle h s, cleared), s)
          else if EFI_ERROR (check_open h Opener Controller Attr s) then Some ((check_open h Opener Controller Attr s, cleared), s)
          else do {
            s \<leftarrow> CoreAcquireProtocolLock s;
            p \<leftarrow> CoreGetProtocolInterface h P s;
            (r, s) \<leftarrow>
              (if p = 0 then Some ((EFI_UNSUPPORTED, cleared), s)
               else do {
                 Prot \<leftarrow> interfaces s p;
                 (Status, s) \<leftarrow> open_locked env h p Opener Controller Attr s;
                 Some ((Status, if Attr \<noteq> EFI_OPEN_PROTOCOL_TEST_PROTOCOL then Some (Interface Prot) else None), s)
               });
            s \<leftarrow> CoreReleaseProtocolLock env s;
            Some (r, s)
          })"

definition CoreHandleProtocol :: "'p hdb_env \<Rightarrow> u64 \<Rightarrow> guid option \<Rightarrow> bool \<Rightarrow> 'p hdb \<Rightarrow> ((efi_status \<times> u64 option) \<times> 'p hdb) option" where
  "CoreHandleProtocol env h P Out s =
     CoreOpenProtocol env h P Out (DxeCoreImageHandle env) 0 EFI_OPEN_PROTOCOL_BY_HANDLE_PROTOCOL s"

definition remove_open :: "'p hdb_env \<Rightarrow> u64 \<Rightarrow> u64 \<Rightarrow> 'p hdb \<Rightarrow> 'p hdb option" where
  "remove_open env p a s = do {
     Prot \<leftarrow> interfaces s p;
     FreePool env a (put_interface p (Prot\<lparr>OpenList := filter (\<lambda>x. fst x \<noteq> a) (OpenList Prot), OpenListCount := OpenListCount Prot - 1\<rparr>) s)
   }"

fun close_all :: "'p hdb_env \<Rightarrow> u64 \<Rightarrow> (open_data \<Rightarrow> bool) \<Rightarrow> (u64 \<times> open_data) list \<Rightarrow> 'p hdb \<Rightarrow> 'p hdb option" where
  "close_all env p which [] s = Some s"
| "close_all env p which ((a, d) # l) s =
     (if which d then do { s \<leftarrow> remove_open env p a s; close_all env p which l s } else close_all env p which l s)"

definition CoreCloseProtocol :: "'p hdb_env \<Rightarrow> u64 \<Rightarrow> guid option \<Rightarrow> u64 \<Rightarrow> u64 \<Rightarrow> 'p hdb \<Rightarrow> (efi_status \<times> 'p hdb) option" where
  "CoreCloseProtocol env h P Agent Controller s =
     (if EFI_ERROR (CoreValidateHandle h s) then Some (CoreValidateHandle h s, s)
      else if EFI_ERROR (CoreValidateHandle Agent s) then Some (CoreValidateHandle Agent s, s)
      else if Controller \<noteq> 0 \<and> EFI_ERROR (CoreValidateHandle Controller s) then Some (CoreValidateHandle Controller s, s)
      else case P of
        None \<Rightarrow> Some (EFI_INVALID_PARAMETER, s)
      | Some P \<Rightarrow> do {
          s \<leftarrow> CoreAcquireProtocolLock s;
          p \<leftarrow> CoreGetProtocolInterface h P s;
          (Status, s) \<leftarrow>
            (if p = 0 then Some (EFI_NOT_FOUND, s)
             else do {
               Prot \<leftarrow> interfaces s p;
               let which = (\<lambda>d. AgentHandle d = Agent \<and> ControllerHandle d = Controller);
               s \<leftarrow> close_all env p which (OpenList Prot) s;
               Some (if \<exists>x\<in>set (OpenList Prot). which (snd x) then EFI_SUCCESS else EFI_NOT_FOUND, s)
             });
          s \<leftarrow> CoreReleaseProtocolLock env s;
          Some (Status, s)
        })"

text \<open>Everyone who uses the interface is asked to let go, and the uses that no one is asked about are dropped.\<close>

definition CoreDisconnectControllersUsingProtocolInterface :: "'p hdb_env \<Rightarrow> u64 \<Rightarrow> u64 \<Rightarrow> 'p hdb \<Rightarrow> (efi_status \<times> 'p hdb) option" where
  "CoreDisconnectControllersUsingProtocolInterface env h p s = do {
     (Status, s) \<leftarrow> disconnect_drivers env h p s;
     Prot \<leftarrow> interfaces s p;
     s \<leftarrow> (if EFI_ERROR Status then Some s
           else close_all env p (\<lambda>d. Attributes d AND (EFI_OPEN_PROTOCOL_BY_HANDLE_PROTOCOL OR EFI_OPEN_PROTOCOL_GET_PROTOCOL OR EFI_OPEN_PROTOCOL_TEST_PROTOCOL) \<noteq> 0)
                  (OpenList Prot) s);
     Prot \<leftarrow> interfaces s p;
     if EFI_ERROR Status \<or> OpenListCount Prot > 0 then do {
       s \<leftarrow> CoreReleaseProtocolLock env s;
       s \<leftarrow> ConnectController env h s;
       s \<leftarrow> CoreAcquireProtocolLock s;
       Some (EFI_ACCESS_DENIED, s)
     } else Some (Status, s)
   }"

section \<open>Installing\<close>

fun signal_all :: "'p hdb_env \<Rightarrow> u64 list \<Rightarrow> 'p hdb \<Rightarrow> 'p hdb option" where
  "signal_all env [] s = Some s"
| "signal_all env (a # l) s = do {
     ProtNotify \<leftarrow> notifies s a;
     p \<leftarrow> SignalEvent env (Event ProtNotify) (Rest s);
     signal_all env l (s\<lparr>Rest := p\<rparr>)
   }"

definition CoreNotifyProtocolEntry :: "'p hdb_env \<Rightarrow> u64 \<Rightarrow> 'p hdb \<Rightarrow> 'p hdb option" where
  "CoreNotifyProtocolEntry env e s = do {
     ASSERT (gProtocolDatabaseLock s);
     ProtEntry \<leftarrow> entries s e;
     signal_all env (Notify ProtEntry) s
   }"

text \<open>The handle the caller gave, or a new one; zero when there is no memory.\<close>

definition handle_for :: "'p hdb_env \<Rightarrow> u64 \<Rightarrow> 'p hdb \<Rightarrow> (u64 \<times> 'p hdb) option" where
  "handle_for env h s =
     (if h \<noteq> 0 then Some (h, s)
      else do {
        (h, s) \<leftarrow> AllocatePool env SIZE_OF_IHANDLE s;
        if h = 0 then Some (0, s)
        else
          let s = s\<lparr>gHandleDatabaseKey := gHandleDatabaseKey s + 1\<rparr>
          in Some (h, (put_handle h \<lparr>Protocols = [], LocateRequest = 0, Key = gHandleDatabaseKey s\<rparr> s)\<lparr>gHandleList := gHandleList s @ [h]\<rparr>)
      })"

text \<open>Installing with the lock held: the status, the new interface and its handle.\<close>

definition install_locked ::
  "'p hdb_env \<Rightarrow> u64 \<Rightarrow> u64 \<Rightarrow> guid \<Rightarrow> u64 \<Rightarrow> bool \<Rightarrow> 'p hdb \<Rightarrow> ((efi_status \<times> u64 \<times> u64) \<times> 'p hdb) option" where
  "install_locked env e h P I Tell s = do {
     (p, s) \<leftarrow> AllocatePool env SIZE_OF_PROTOCOL_INTERFACE s;
     if p = 0 then Some ((EFI_OUT_OF_RESOURCES, 0, 0), s)
     else do {
       (h, s) \<leftarrow> handle_for env h s;
       if h = 0 then Some ((EFI_OUT_OF_RESOURCES, p, 0), s)
       else if EFI_ERROR (CoreValidateHandle h s) then Some ((CoreValidateHandle h s, p, h), s)
       else do {
         x \<leftarrow> CoreFindProtocolInterface env h P I s;
         ASSERT (x = 0);
         H \<leftarrow> ihandles s h;
         E \<leftarrow> entries s e;
         let s = put_interface p \<lparr>Handle = h, Protocol = e, Interface = I, OpenList = [], OpenListCount = 0\<rparr> s;
         let s = put_handle h (H\<lparr>Protocols := p # Protocols H\<rparr>) s;
         let s = put_entry e (E\<lparr>ByProtocol := ByProtocol E @ [p]\<rparr>) s;
         s \<leftarrow> (if Tell then CoreNotifyProtocolEntry env e s else Some s);
         Some ((EFI_SUCCESS, p, h), s)
       }
     }
   }"

text \<open>\<open>UserHandle\<close> is \<open>None\<close> for a null pointer, else the value it points to; the second component is the value it points to afterwards.\<close>

definition CoreInstallProtocolInterfaceNotify ::
  "'p hdb_env \<Rightarrow> u64 option \<Rightarrow> guid option \<Rightarrow> nat \<Rightarrow> u64 \<Rightarrow> bool \<Rightarrow> 'p hdb \<Rightarrow> ((efi_status \<times> u64 option) \<times> 'p hdb) option" where
  "CoreInstallProtocolInterfaceNotify env UserHandle P InterfaceType I Tell s =
     (case (UserHandle, P) of
        (Some h, Some P) \<Rightarrow>
          if InterfaceType \<noteq> 0 then Some ((EFI_INVALID_PARAMETER, Some h), s)
          else do {
            (Status, s) \<leftarrow>
              (if h \<noteq> 0 then do { ((Status, _), s) \<leftarrow> CoreHandleProtocol env h (Some P) True s; Some (Status, s) }
               else Some (EFI_OUT_OF_RESOURCES, s));
            if h \<noteq> 0 \<and> \<not> EFI_ERROR Status then Some ((EFI_INVALID_PARAMETER, Some h), s)
            else do {
              s \<leftarrow> CoreAcquireProtocolLock s;
              (e, s) \<leftarrow> CoreFindProtocolEntry env P True s;
              ((Status, p, h'), s) \<leftarrow> (if e = 0 then Some ((Status, 0, 0), s) else install_locked env e h P I Tell s);
              s \<leftarrow> CoreReleaseProtocolLock env s;
              if \<not> EFI_ERROR Status then Some ((Status, Some h'), s)
              else do {
                s \<leftarrow> (if p \<noteq> 0 then FreePool env p s else Some s);
                Some ((Status, Some h), s)
              }
            }
          }
      | _ \<Rightarrow> Some ((EFI_INVALID_PARAMETER, UserHandle), s))"

definition CoreInstallProtocolInterface ::
  "'p hdb_env \<Rightarrow> u64 option \<Rightarrow> guid option \<Rightarrow> nat \<Rightarrow> u64 \<Rightarrow> 'p hdb \<Rightarrow> ((efi_status \<times> u64 option) \<times> 'p hdb) option" where
  "CoreInstallProtocolInterface env UserHandle P InterfaceType I s = CoreInstallProtocolInterfaceNotify env UserHandle P InterfaceType I True s"

section \<open>Uninstalling\<close>

fun link_before :: "list_link \<Rightarrow> u64 list \<Rightarrow> u64 \<Rightarrow> list_link" where
  "link_before k [] p = k"
| "link_before k (a # l) p = (if a = p then k else link_before (Link a) l p)"

text \<open>A registration whose position is the link of \<open>p\<close> is moved back by one.\<close>

fun back_up :: "u64 \<Rightarrow> list_link \<Rightarrow> u64 list \<Rightarrow> 'p hdb \<Rightarrow> 'p hdb option" where
  "back_up p k [] s = Some s"
| "back_up p k (a # l) s = do {
     ProtNotify \<leftarrow> notifies s a;
     back_up p k l (if Position ProtNotify = Link p then put_notify a (ProtNotify\<lparr>Position := k\<rparr>) s else s)
   }"

definition CoreRemoveInterfaceFromProtocol :: "'p hdb_env \<Rightarrow> u64 \<Rightarrow> guid \<Rightarrow> u64 \<Rightarrow> 'p hdb \<Rightarrow> (u64 \<times> 'p hdb) option" where
  "CoreRemoveInterfaceFromProtocol env h P I s = do {
     ASSERT (gProtocolDatabaseLock s);
     p \<leftarrow> CoreFindProtocolInterface env h P I s;
     if p = 0 then Some (0, s)
     else do {
       Prot \<leftarrow> interfaces s p;
       E \<leftarrow> entries s (Protocol Prot);
       s \<leftarrow> back_up p (link_before ListHead (ByProtocol E) p) (Notify E) s;
       Some (p, put_entry (Protocol Prot) (E\<lparr>ByProtocol := remove1 p (ByProtocol E)\<rparr>) s)
     }
   }"

text \<open>The interface \<open>p\<close> leaves its handle and is freed.\<close>

definition drop_interface :: "'p hdb_env \<Rightarrow> u64 \<Rightarrow> u64 \<Rightarrow> 'p hdb \<Rightarrow> 'p hdb option" where
  "drop_interface env h p s = do {
     H \<leftarrow> ihandles s h;
     let s = s\<lparr>gHandleDatabaseKey := gHandleDatabaseKey s + 1\<rparr>;
     let s = put_handle h (H\<lparr>Key := gHandleDatabaseKey s, Protocols := remove1 p (Protocols H)\<rparr>) s;
     FreePool env p (s\<lparr>interfaces := (interfaces s)(p := None)\<rparr>)
   }"

text \<open>A handle without protocols is freed.\<close>

definition drop_handle :: "'p hdb_env \<Rightarrow> u64 \<Rightarrow> 'p hdb \<Rightarrow> 'p hdb option" where
  "drop_handle env h s = do {
     H \<leftarrow> ihandles s h;
     if Protocols H = [] then FreePool env h (s\<lparr>ihandles := (ihandles s)(h := None), gHandleList := remove1 h (gHandleList s)\<rparr>)
     else Some s
   }"

definition CoreUninstallProtocolInterface :: "'p hdb_env \<Rightarrow> u64 \<Rightarrow> guid option \<Rightarrow> u64 \<Rightarrow> 'p hdb \<Rightarrow> (efi_status \<times> 'p hdb) option" where
  "CoreUninstallProtocolInterface env h P I s =
     (case P of
        None \<Rightarrow> Some (EFI_INVALID_PARAMETER, s)
      | Some P \<Rightarrow>
          if EFI_ERROR (CoreValidateHandle h s) then Some (CoreValidateHandle h s, s)
          else do {
            s \<leftarrow> CoreAcquireProtocolLock s;
            p \<leftarrow> CoreFindProtocolInterface env h P I s;
            (Status, s) \<leftarrow>
              (if p = 0 then Some (EFI_NOT_FOUND, s)
               else do {
                 (Status, s) \<leftarrow> CoreDisconnectControllersUsingProtocolInterface env h p s;
                 if EFI_ERROR Status then Some (Status, s)
                 else do {
                   (p, s) \<leftarrow> CoreRemoveInterfaceFromProtocol env h P I s;
                   s \<leftarrow> (if p \<noteq> 0 then drop_interface env h p s else Some s);
                   s \<leftarrow> drop_handle env h s;
                   Some (if p \<noteq> 0 then EFI_SUCCESS else EFI_NOT_FOUND, s)
                 }
               });
            s \<leftarrow> CoreReleaseProtocolLock env s;
            Some (Status, s)
          })"

text \<open>Notes: the interface leaves the list of its protocol and comes back at the end, so that it counts as new.\<close>

definition reinstall_locked :: "'p hdb_env \<Rightarrow> u64 \<Rightarrow> guid \<Rightarrow> u64 \<Rightarrow> u64 \<Rightarrow> 'p hdb \<Rightarrow> (efi_status \<times> 'p hdb) option" where
  "reinstall_locked env h P Old New s = do {
     (p, s) \<leftarrow> CoreRemoveInterfaceFromProtocol env h P Old s;
     if p = 0 then Some (EFI_NOT_FOUND, s)
     else do {
       Prot \<leftarrow> interfaces s p;
       let s = put_interface p (Prot\<lparr>Interface := New\<rparr>) s;
       E \<leftarrow> entries s (Protocol Prot);
       let s = put_entry (Protocol Prot) (E\<lparr>ByProtocol := ByProtocol E @ [p]\<rparr>) s;
       H \<leftarrow> ihandles s h;
       let s = s\<lparr>gHandleDatabaseKey := gHandleDatabaseKey s + 1\<rparr>;
       let s = put_handle h (H\<lparr>Key := gHandleDatabaseKey s\<rparr>) s;
       s \<leftarrow> CoreReleaseProtocolLock env s;
       s \<leftarrow> ConnectController env h s;
       s \<leftarrow> CoreAcquireProtocolLock s;
       s \<leftarrow> CoreNotifyProtocolEntry env (Protocol Prot) s;
       Some (EFI_SUCCESS, s)
     }
   }"

definition CoreReinstallProtocolInterface :: "'p hdb_env \<Rightarrow> u64 \<Rightarrow> guid option \<Rightarrow> u64 \<Rightarrow> u64 \<Rightarrow> 'p hdb \<Rightarrow> (efi_status \<times> 'p hdb) option" where
  "CoreReinstallProtocolInterface env h P Old New s =
     (if EFI_ERROR (CoreValidateHandle h s) then Some (CoreValidateHandle h s, s)
      else case P of
        None \<Rightarrow> Some (EFI_INVALID_PARAMETER, s)
      | Some P \<Rightarrow> do {
          s \<leftarrow> CoreAcquireProtocolLock s;
          p \<leftarrow> CoreFindProtocolInterface env h P Old s;
          (Status, s) \<leftarrow>
            (if p = 0 then Some (EFI_NOT_FOUND, s)
             else do {
               (Status, s) \<leftarrow> CoreDisconnectControllersUsingProtocolInterface env h p s;
               if EFI_ERROR Status then Some (Status, s) else reinstall_locked env h P Old New s
             });
          s \<leftarrow> CoreReleaseProtocolLock env s;
          Some (Status, s)
        })"

section \<open>Registrations\<close>

definition CoreRegisterProtocolNotify ::
  "'p hdb_env \<Rightarrow> guid option \<Rightarrow> u64 \<Rightarrow> bool \<Rightarrow> 'p hdb \<Rightarrow> ((efi_status \<times> u64 option) \<times> 'p hdb) option" where
  "CoreRegisterProtocolNotify env P Ev Out s =
     (case P of
        None \<Rightarrow> Some ((EFI_INVALID_PARAMETER, None), s)
      | Some P \<Rightarrow>
          if Ev = 0 \<or> \<not> Out then Some ((EFI_INVALID_PARAMETER, None), s)
          else do {
            s \<leftarrow> CoreAcquireProtocolLock s;
            (e, s) \<leftarrow> CoreFindProtocolEntry env P True s;
            (n, s) \<leftarrow>
              (if e = 0 then Some (0, s)
               else do {
                 (n, s) \<leftarrow> AllocatePool env SIZE_OF_PROTOCOL_NOTIFY s;
                 if n = 0 then Some (0, s)
                 else do {
                   E \<leftarrow> entries s e;
                   let s = put_notify n \<lparr>NotifyProtocol = e, Event = Ev, Position = ListHead\<rparr> s;
                   Some (n, put_entry e (E\<lparr>Notify := Notify E @ [n]\<rparr>) s)
                 }
               });
            s \<leftarrow> CoreReleaseProtocolLock env s;
            Some (if n \<noteq> 0 then (EFI_SUCCESS, Some n) else (EFI_OUT_OF_RESOURCES, None), s)
          })"

text \<open>The first registration with the event, with its entry.\<close>

fun find_notify :: "u64 \<Rightarrow> u64 list \<Rightarrow> 'p hdb \<Rightarrow> u64 option" where
  "find_notify Ev [] s = Some 0"
| "find_notify Ev (n # l) s = do {
     ProtNotify \<leftarrow> notifies s n;
     if Event ProtNotify = Ev then Some n else find_notify Ev l s
   }"

fun find_registration :: "u64 \<Rightarrow> u64 list \<Rightarrow> 'p hdb \<Rightarrow> (u64 \<times> u64) option" where
  "find_registration Ev [] s = Some (0, 0)"
| "find_registration Ev (e # l) s = do {
     E \<leftarrow> entries s e;
     n \<leftarrow> find_notify Ev (Notify E) s;
     if n \<noteq> 0 then Some (e, n) else find_registration Ev l s
   }"

definition CoreUnregisterProtocolNotifyEvent :: "'p hdb_env \<Rightarrow> u64 \<Rightarrow> 'p hdb \<Rightarrow> (efi_status \<times> 'p hdb) option" where
  "CoreUnregisterProtocolNotifyEvent env Ev s = do {
     s \<leftarrow> CoreAcquireProtocolLock s;
     (e, n) \<leftarrow> find_registration Ev (mProtocolDatabase s) s;
     (Status, s) \<leftarrow>
       (if n = 0 then Some (EFI_NOT_FOUND, s)
        else do {
          E \<leftarrow> entries s e;
          let s = put_entry e (E\<lparr>Notify := remove1 n (Notify E)\<rparr>) s;
          s \<leftarrow> FreePool env n (s\<lparr>notifies := (notifies s)(n := None)\<rparr>);
          Some (EFI_SUCCESS, s)
        });
     s \<leftarrow> CoreReleaseProtocolLock env s;
     Some (Status, s)
   }"

partial_function (option) CoreUnregisterProtocolNotify :: "'p hdb_env \<Rightarrow> u64 \<Rightarrow> 'p hdb \<Rightarrow> (efi_status \<times> 'p hdb) option" where
  "CoreUnregisterProtocolNotify env Ev s = do {
     (Status, s) \<leftarrow> CoreUnregisterProtocolNotifyEvent env Ev s;
     if EFI_ERROR Status then Some (EFI_SUCCESS, s) else CoreUnregisterProtocolNotify env Ev s
   }"

section \<open>Queries\<close>

text \<open>The buffer that is allocated and what is written into it.\<close>

definition CoreOpenProtocolInformation :: "'p hdb_env \<Rightarrow> u64 \<Rightarrow> guid \<Rightarrow> 'p hdb \<Rightarrow> ((efi_status \<times> u64 \<times> open_data list) \<times> 'p hdb) option" where
  "CoreOpenProtocolInformation env h P s = do {
     s \<leftarrow> CoreAcquireProtocolLock s;
     p \<leftarrow> CoreGetProtocolInterface h P s;
     (r, s) \<leftarrow>
       (if p = 0 then Some ((EFI_NOT_FOUND, 0, []), s)
        else do {
          Prot \<leftarrow> interfaces s p;
          let Count = of_nat (length (OpenList Prot));
          ASSERT (Count = OpenListCount Prot);
          (Buffer, s) \<leftarrow> AllocatePool env (if Count = 0 then SIZE_OF_INFORMATION_ENTRY else Count * SIZE_OF_INFORMATION_ENTRY) s;
          Some (if Buffer = 0 then (EFI_OUT_OF_RESOURCES, 0, []) else (EFI_SUCCESS, Buffer, map snd (OpenList Prot)), s)
        });
     s \<leftarrow> CoreReleaseProtocolLock env s;
     Some (r, s)
   }"

fun protocol_ids :: "u64 list \<Rightarrow> 'p hdb \<Rightarrow> guid list option" where
  "protocol_ids [] s = Some []"
| "protocol_ids (a # l) s = do {
     Prot \<leftarrow> interfaces s a;
     E \<leftarrow> entries s (Protocol Prot);
     r \<leftarrow> protocol_ids l s;
     Some (ProtocolID E # r)
   }"

definition CoreProtocolsPerHandle :: "'p hdb_env \<Rightarrow> u64 \<Rightarrow> bool \<Rightarrow> bool \<Rightarrow> 'p hdb \<Rightarrow> ((efi_status \<times> u64 \<times> guid list) \<times> 'p hdb) option" where
  "CoreProtocolsPerHandle env h ProtocolBuffer ProtocolBufferCount s =
     (if EFI_ERROR (CoreValidateHandle h s) then Some ((CoreValidateHandle h s, 0, []), s)
      else if \<not> ProtocolBuffer \<or> \<not> ProtocolBufferCount then Some ((EFI_INVALID_PARAMETER, 0, []), s)
      else do {
        s \<leftarrow> CoreAcquireProtocolLock s;
        H \<leftarrow> ihandles s h;
        (r, s) \<leftarrow>
          (if Protocols H = [] then Some ((EFI_INVALID_PARAMETER, 0, []), s)
           else do {
             (Buffer, s) \<leftarrow> AllocatePool env (8 * of_nat (length (Protocols H))) s;
             if Buffer = 0 then Some ((EFI_OUT_OF_RESOURCES, 0, []), s)
             else do { ids \<leftarrow> protocol_ids (Protocols H) s; Some ((EFI_SUCCESS, Buffer, ids), s) }
           });
        s \<leftarrow> CoreReleaseProtocolLock env s;
        Some (r, s)
      })"

definition CoreGetHandleDatabaseKey :: "'p hdb \<Rightarrow> u64" where
  "CoreGetHandleDatabaseKey s = gHandleDatabaseKey s"

fun handles_after :: "u64 \<Rightarrow> u64 list \<Rightarrow> 'p hdb \<Rightarrow> u64 list option" where
  "handles_after k [] s = Some []"
| "handles_after k (h # l) s = do {
     H \<leftarrow> ihandles s h;
     r \<leftarrow> handles_after k l s;
     Some (if Key H > k then h # r else r)
   }"

fun connect_all :: "'p hdb_env \<Rightarrow> u64 list \<Rightarrow> 'p hdb \<Rightarrow> 'p hdb option" where
  "connect_all env [] s = Some s"
| "connect_all env (h # l) s = do { s \<leftarrow> ConnectController env h s; connect_all env l s }"

definition CoreConnectHandlesByKey :: "'p hdb_env \<Rightarrow> u64 \<Rightarrow> 'p hdb \<Rightarrow> 'p hdb option" where
  "CoreConnectHandlesByKey env k s = do {
     s \<leftarrow> CoreAcquireProtocolLock s;
     hs \<leftarrow> handles_after k (gHandleList s) s;
     (HandleBuffer, s) \<leftarrow> AllocatePool env (of_nat (length hs) * 8) s;
     s \<leftarrow> CoreReleaseProtocolLock env s;
     if HandleBuffer = 0 then Some s
     else do { s \<leftarrow> connect_all env hs s; FreePool env HandleBuffer s }
   }"

end
