(* ===== verification/HandleInv.thy ===== *)
theory HandleInv
  imports Handles
begin

text \<open>
  Well-formed handle databases: which links belong together, and that every structure stands in memory of its own.
\<close>

section \<open>The links\<close>

definition opens_ok :: "protocol_interface \<Rightarrow> bool" where
  "opens_ok I \<longleftrightarrow> distinct (map fst (OpenList I)) \<and> OpenListCount I = of_nat (length (OpenList I))"

definition position_ok :: "list_link \<Rightarrow> u64 list \<Rightarrow> bool" where
  "position_ok k l \<longleftrightarrow> (case k of ListHead \<Rightarrow> True | Link p \<Rightarrow> p \<in> set l)"

definition handle_ok :: "(u64 \<Rightarrow> protocol_interface option) \<Rightarrow> u64 \<Rightarrow> ihandle \<Rightarrow> bool" where
  "handle_ok IF h H \<longleftrightarrow> h \<noteq> 0 \<and> distinct (Protocols H) \<and> Protocols H \<noteq> [] \<and>
     (\<forall>p. p \<in> set (Protocols H) \<longleftrightarrow> (\<exists>I. IF p = Some I \<and> Handle I = h))"

definition entry_ok :: "(u64 \<Rightarrow> protocol_interface option) \<Rightarrow> (u64 \<Rightarrow> protocol_notify option) \<Rightarrow> u64 \<Rightarrow> protocol_entry \<Rightarrow> bool" where
  "entry_ok IF N e E \<longleftrightarrow> e \<noteq> 0 \<and> distinct (ByProtocol E) \<and> distinct (Notify E) \<and>
     (\<forall>p. p \<in> set (ByProtocol E) \<longleftrightarrow> (\<exists>I. IF p = Some I \<and> Protocol I = e)) \<and>
     (\<forall>n. n \<in> set (Notify E) \<longleftrightarrow> (\<exists>x. N n = Some x \<and> NotifyProtocol x = e))"

definition links_ok ::
  "u64 list \<Rightarrow> u64 list \<Rightarrow> (u64 \<Rightarrow> ihandle option) \<Rightarrow> (u64 \<Rightarrow> protocol_entry option) \<Rightarrow> (u64 \<Rightarrow> protocol_interface option) \<Rightarrow>
   (u64 \<Rightarrow> protocol_notify option) \<Rightarrow> bool" where
  "links_ok hl el IH EN IF N \<longleftrightarrow>
     distinct hl \<and> set hl = dom IH \<and> distinct el \<and> set el = dom EN \<and>
     (\<forall>h H. IH h = Some H \<longrightarrow> handle_ok IF h H) \<and> (\<forall>e E. EN e = Some E \<longrightarrow> entry_ok IF N e E) \<and>
     (\<forall>d e D E. EN d = Some D \<longrightarrow> EN e = Some E \<longrightarrow> ProtocolID D = ProtocolID E \<longrightarrow> d = e) \<and>
     (\<forall>p I. IF p = Some I \<longrightarrow> p \<noteq> 0 \<and> IH (Handle I) \<noteq> None \<and> EN (Protocol I) \<noteq> None \<and> opens_ok I) \<and>
     (\<forall>n x. N n = Some x \<longrightarrow> n \<noteq> 0 \<and> (\<exists>E. EN (NotifyProtocol x) = Some E \<and> position_ok (Position x) (ByProtocol E)))"

lemma links_okI:
  assumes "distinct hl" "set hl = dom IH" "distinct el" "set el = dom EN"
    and "\<And>h H. IH h = Some H \<Longrightarrow> handle_ok IF h H" "\<And>e E. EN e = Some E \<Longrightarrow> entry_ok IF N e E"
    and "\<And>d e D E. EN d = Some D \<Longrightarrow> EN e = Some E \<Longrightarrow> ProtocolID D = ProtocolID E \<Longrightarrow> d = e"
    and "\<And>p I. IF p = Some I \<Longrightarrow> p \<noteq> 0 \<and> IH (Handle I) \<noteq> None \<and> EN (Protocol I) \<noteq> None \<and> opens_ok I"
    and "\<And>n x. N n = Some x \<Longrightarrow> n \<noteq> 0 \<and> (\<exists>E. EN (NotifyProtocol x) = Some E \<and> position_ok (Position x) (ByProtocol E))"
  shows "links_ok hl el IH EN IF N"
proof -
  have "\<forall>h H. IH h = Some H \<longrightarrow> handle_ok IF h H" "\<forall>e E. EN e = Some E \<longrightarrow> entry_ok IF N e E"
    "\<forall>d e D E. EN d = Some D \<longrightarrow> EN e = Some E \<longrightarrow> ProtocolID D = ProtocolID E \<longrightarrow> d = e"
    "\<forall>p I. IF p = Some I \<longrightarrow> p \<noteq> 0 \<and> IH (Handle I) \<noteq> None \<and> EN (Protocol I) \<noteq> None \<and> opens_ok I"
    "\<forall>n x. N n = Some x \<longrightarrow> n \<noteq> 0 \<and> (\<exists>E. EN (NotifyProtocol x) = Some E \<and> position_ok (Position x) (ByProtocol E))"
    using assms(5-9) by simp_all
  then show ?thesis using assms(1-4) by (simp only: links_ok_def simp_thms)
qed

lemma links_okD:
  assumes "links_ok hl el IH EN IF N"
  shows "distinct hl" "set hl = dom IH" "distinct el" "set el = dom EN"
    "IH h = Some H \<Longrightarrow> handle_ok IF h H" "EN e = Some E \<Longrightarrow> entry_ok IF N e E"
    "EN d = Some D \<Longrightarrow> EN e = Some E \<Longrightarrow> ProtocolID D = ProtocolID E \<Longrightarrow> d = e"
    "IF p = Some I \<Longrightarrow> p \<noteq> 0 \<and> IH (Handle I) \<noteq> None \<and> EN (Protocol I) \<noteq> None \<and> opens_ok I"
    "N n = Some x \<Longrightarrow> n \<noteq> 0 \<and> (\<exists>E. EN (NotifyProtocol x) = Some E \<and> position_ok (Position x) (ByProtocol E))"
  using assms unfolding links_ok_def by blast+

text \<open>The entry at \<open>e\<close> has new lists, all else of the entries is as it was.\<close>

lemma links_entry:
  assumes "links_ok hl el IH EN IF N" "EN e = Some E" "ProtocolID E' = ProtocolID E" "entry_ok IF' N' e E'"
    and "\<forall>d D. d \<noteq> e \<longrightarrow> EN d = Some D \<longrightarrow> entry_ok IF' N' d D"
  shows "distinct el" "set el = dom (EN(e \<mapsto> E'))" "(EN(e \<mapsto> E')) d = Some D \<Longrightarrow> entry_ok IF' N' d D"
    "(EN(e \<mapsto> E')) c = Some C \<Longrightarrow> (EN(e \<mapsto> E')) d = Some D \<Longrightarrow> ProtocolID C = ProtocolID D \<Longrightarrow> c = d"
    "EN d \<noteq> None \<Longrightarrow> (EN(e \<mapsto> E')) d \<noteq> None"
proof -
  show "distinct el" "set el = dom (EN(e \<mapsto> E'))" using links_okD(3,4) [OF assms(1)] assms(2) by auto
  show "(EN(e \<mapsto> E')) d = Some D \<Longrightarrow> entry_ok IF' N' d D" using assms(4,5) by (cases "d = e") auto
  show "EN d \<noteq> None \<Longrightarrow> (EN(e \<mapsto> E')) d \<noteq> None" by simp
  assume h: "(EN(e \<mapsto> E')) c = Some C" "(EN(e \<mapsto> E')) d = Some D" "ProtocolID C = ProtocolID D"
  have "\<exists>B. EN b = Some B \<and> ProtocolID B = ProtocolID B'" if "(EN(e \<mapsto> E')) b = Some B'" for b B'
    using that assms(2,3) by (cases "b = e") auto
  from this [OF h(1)] this [OF h(2)] show "c = d" using links_okD(7) [OF assms(1)] h(3) by metis
qed

definition db_inv :: "'p hdb \<Rightarrow> bool" where
  "db_inv s \<longleftrightarrow> links_ok (gHandleList s) (mProtocolDatabase s) (ihandles s) (entries s) (interfaces s) (notifies s)"

lemma db_invD:
  assumes "db_inv s"
  shows "distinct (gHandleList s)" "set (gHandleList s) = dom (ihandles s)" "distinct (mProtocolDatabase s)" "set (mProtocolDatabase s) = dom (entries s)"
    "ihandles s h = Some H \<Longrightarrow> handle_ok (interfaces s) h H" "entries s e = Some E \<Longrightarrow> entry_ok (interfaces s) (notifies s) e E"
    "entries s d = Some D \<Longrightarrow> entries s e = Some E \<Longrightarrow> ProtocolID D = ProtocolID E \<Longrightarrow> d = e"
    "interfaces s p = Some I \<Longrightarrow> p \<noteq> 0" "interfaces s p = Some I \<Longrightarrow> \<exists>H. ihandles s (Handle I) = Some H"
    "interfaces s p = Some I \<Longrightarrow> \<exists>E. entries s (Protocol I) = Some E" "interfaces s p = Some I \<Longrightarrow> opens_ok I"
    "notifies s n = Some x \<Longrightarrow> n \<noteq> 0"
    "notifies s n = Some x \<Longrightarrow> \<exists>E. entries s (NotifyProtocol x) = Some E \<and> position_ok (Position x) (ByProtocol E)"
  using assms unfolding db_inv_def links_ok_def by blast+

lemma handle_protocols:
  assumes "db_inv s" "ihandles s h = Some H"
  shows "p \<in> set (Protocols H) \<longleftrightarrow> (\<exists>I. interfaces s p = Some I \<and> Handle I = h)" "distinct (Protocols H)" "Protocols H \<noteq> []" "h \<noteq> 0"
  using db_invD(5) [OF assms] unfolding handle_ok_def by blast+

lemma entry_lists:
  assumes "db_inv s" "entries s e = Some E"
  shows "p \<in> set (ByProtocol E) \<longleftrightarrow> (\<exists>I. interfaces s p = Some I \<and> Protocol I = e)" "distinct (ByProtocol E)"
    "n \<in> set (Notify E) \<longleftrightarrow> (\<exists>x. notifies s n = Some x \<and> NotifyProtocol x = e)" "distinct (Notify E)" "e \<noteq> 0"
  using db_invD(6) [OF assms] unfolding entry_ok_def by blast+

section \<open>Changing the links\<close>

lemma links_interface:
  assumes "links_ok hl el IH EN IF N" "IF p = Some I" "Handle I' = Handle I" "Protocol I' = Protocol I" "opens_ok I'"
  shows "links_ok hl el IH EN (IF(p \<mapsto> I')) N"
proof -
  note l = links_okD [OF assms(1)]
  have "(\<exists>I. (IF(p \<mapsto> I')) q = Some I \<and> Handle I = h) \<longleftrightarrow> (\<exists>I. IF q = Some I \<and> Handle I = h)" for q h using assms(2,3) by auto
  moreover have "(\<exists>I. (IF(p \<mapsto> I')) q = Some I \<and> Protocol I = h) \<longleftrightarrow> (\<exists>I. IF q = Some I \<and> Protocol I = h)" for q h using assms(2,4) by auto
  ultimately have e: "handle_ok (IF(p \<mapsto> I')) = handle_ok IF" "entry_ok (IF(p \<mapsto> I')) = entry_ok IF"
    by (simp_all add: handle_ok_def [abs_def] entry_ok_def [abs_def])
  have i: "q \<noteq> 0 \<and> IH (Handle J) \<noteq> None \<and> EN (Protocol J) \<noteq> None \<and> opens_ok J" if "(IF(p \<mapsto> I')) q = Some J" for q J
    using that l(8) [OF assms(2)] l(8) [of q J] assms(3-5) by (cases "q = p") auto
  have h: "handle_ok (IF(p \<mapsto> I')) k K" if "IH k = Some K" for k K unfolding e by (rule l(5) [OF that])
  have f: "entry_ok (IF(p \<mapsto> I')) N d D" if "EN d = Some D" for d D unfolding e by (rule l(6) [OF that])
  show ?thesis
    by (rule links_okI, rule l(1), rule l(2), rule l(3), rule l(4), erule h, erule f, erule (2) l(7), erule i, erule l(9))
qed

lemma links_handle:
  assumes "links_ok hl el IH EN IF N" "IH h = Some H" "Protocols H' = Protocols H"
  shows "links_ok hl el (IH(h \<mapsto> H')) EN IF N"
proof -
  note l = links_okD [OF assms(1)]
  have "handle_ok IF h H'" using l(5) [OF assms(2)] assms(3) by (simp add: handle_ok_def)
  then have h: "handle_ok IF k K" if "(IH(h \<mapsto> H')) k = Some K" for k K using that l(5) [of k K] by (cases "k = h") auto
  have d: "set hl = dom (IH(h \<mapsto> H'))" using l(2) assms(2) by auto
  have i: "p \<noteq> 0 \<and> (IH(h \<mapsto> H')) (Handle I) \<noteq> None \<and> EN (Protocol I) \<noteq> None \<and> opens_ok I" if "IF p = Some I" for p I
    using l(8) [OF that] by auto
  show ?thesis
    by (rule links_okI, rule l(1), rule d, rule l(3), rule l(4), erule h, erule l(6), erule (2) l(7), erule i, erule l(9))
qed

lemma links_new_entry:
  assumes "links_ok hl el IH EN IF N" "EN e = None" "e \<noteq> 0" "\<And>d D. EN d = Some D \<Longrightarrow> ProtocolID D \<noteq> P"
  shows "links_ok hl (el @ [e]) IH (EN(e \<mapsto> \<lparr>ProtocolID = P, ByProtocol = [], Notify = []\<rparr>)) IF N"
proof -
  let ?EN = "EN(e \<mapsto> \<lparr>ProtocolID = P, ByProtocol = [], Notify = []\<rparr>)"
  note l = links_okD [OF assms(1)]
  have "Protocol I \<noteq> e" if "IF p = Some I" for p I using l(8) [OF that] assms(2) by auto
  moreover have "NotifyProtocol x \<noteq> e" if "N n = Some x" for n x using l(9) [OF that] assms(2) by auto
  ultimately have "entry_ok IF N e \<lparr>ProtocolID = P, ByProtocol = [], Notify = []\<rparr>" using assms(3) by (auto simp: entry_ok_def)
  then have e: "entry_ok IF N d D" if "?EN d = Some D" for d D using that l(6) [of d D] by (cases "d = e") auto
  have d: "distinct (el @ [e])" "set (el @ [e]) = dom ?EN" using l(3,4) assms(2) by auto
  have u: "c = d" if "?EN c = Some C" "?EN d = Some D" "ProtocolID C = ProtocolID D" for c d C D
  proof (cases "c = e \<or> d = e")
    case True
    have "ProtocolID B = P \<longleftrightarrow> b = e" if "?EN b = Some B" for b B
      using that assms(4) [of b B] by (cases "b = e") auto
    from this [OF that(1)] this [OF that(2)] show ?thesis using True that(3) by metis
  next
    case False
    then show ?thesis using that(1,2) by (intro l(7) [OF _ _ that(3)]) simp_all
  qed
  have i: "p \<noteq> 0 \<and> IH (Handle I) \<noteq> None \<and> ?EN (Protocol I) \<noteq> None \<and> opens_ok I" if "IF p = Some I" for p I
    using l(8) [OF that] by auto
  have n: "n \<noteq> 0 \<and> (\<exists>E. ?EN (NotifyProtocol x) = Some E \<and> position_ok (Position x) (ByProtocol E))" if "N n = Some x" for n x
    using l(9) [OF that] assms(2) by auto
  show ?thesis
    by (rule links_okI, rule l(1), rule l(2), rule d(1), rule d(2), erule l(5), erule e, erule (2) u, erule i, erule n)
qed

text \<open>A new interface, on a handle of the database or on a new one.\<close>

lemma links_install:
  assumes "links_ok hl el IH EN IF N" "IF p = None" "p \<noteq> 0" "EN e = Some E" "Handle I = h" "Protocol I = e" "opens_ok I"
    and "IH h = Some H \<and> hl' = hl \<or> IH h = None \<and> Protocols H = [] \<and> hl' = hl @ [h] \<and> h \<noteq> 0"
    and "Protocols H' = p # Protocols H"
  shows "links_ok hl' el (IH(h \<mapsto> H')) (EN(e \<mapsto> E\<lparr>ByProtocol := ByProtocol E @ [p]\<rparr>)) (IF(p \<mapsto> I)) N"
proof -
  let ?IF = "IF(p \<mapsto> I)" and ?E = "E\<lparr>ByProtocol := ByProtocol E @ [p]\<rparr>"
  note l = links_okD [OF assms(1)]
  have H: "handle_ok ?IF h H'"
  proof (cases "IH h")
    case (Some K)
    then have "handle_ok IF h H" using assms(8) l(5) by auto
    then show ?thesis using assms(2,5,9) unfolding handle_ok_def by auto
  next
    case None
    then have n: "IH h = None \<and> Protocols H = [] \<and> h \<noteq> 0" using assms(8) by auto
    then have "IF q = Some J \<Longrightarrow> Handle J \<noteq> h" for q J using l(8) [of q J] by auto
    then show ?thesis using n assms(5,9) unfolding handle_ok_def by auto
  qed
  have h: "handle_ok ?IF k K" if "(IH(h \<mapsto> H')) k = Some K" for k K
  proof (cases "k = h")
    case False
    then show ?thesis using that l(5) [of k K] assms(2,5) unfolding handle_ok_def by auto
  qed (use H that in simp)
  have "entry_ok ?IF N e ?E" using l(6) [OF assms(4)] assms(2,6) unfolding entry_ok_def by auto
  moreover have "\<forall>d D. d \<noteq> e \<longrightarrow> EN d = Some D \<longrightarrow> entry_ok ?IF N d D"
  proof (intro allI impI)
    fix d D assume that: "d \<noteq> e" "EN d = Some D"
    show "entry_ok ?IF N d D"
    using that l(6) [of d D] assms(2,6) unfolding entry_ok_def by auto
  qed
  ultimately have o: "entry_ok ?IF N e ?E" "\<forall>d D. d \<noteq> e \<longrightarrow> EN d = Some D \<longrightarrow> entry_ok ?IF N d D" by simp_all
  have "ProtocolID ?E = ProtocolID E" by simp
  note e = links_entry [OF assms(1,4) this o]
  have i: "q \<noteq> 0 \<and> (IH(h \<mapsto> H')) (Handle J) \<noteq> None \<and> (EN(e \<mapsto> ?E)) (Protocol J) \<noteq> None \<and> opens_ok J" if "?IF q = Some J" for q J
    using that l(8) [of q J] assms(3,5-7) by (cases "q = p") auto
  have n: "n \<noteq> 0 \<and> (\<exists>D. (EN(e \<mapsto> ?E)) (NotifyProtocol x) = Some D \<and> position_ok (Position x) (ByProtocol D))" if "N n = Some x" for n x
    using l(9) [OF that] assms(4) by (cases "NotifyProtocol x = e") (auto simp: position_ok_def split: list_link.splits)
  have d: "distinct hl'" "set hl' = dom (IH(h \<mapsto> H'))" using l(1,2) assms(8) by auto
  show ?thesis
    by (rule links_okI, rule d(1), rule d(2), rule e(1), rule e(2), erule h, erule e(3), erule (2) e(4), erule i, erule n)
qed

lemma link_before_ok: "link_before k l p = k \<or> (\<exists>a. link_before k l p = Link a \<and> a \<in> set l \<and> (distinct l \<longrightarrow> a \<noteq> p))"
  by (induction k l p rule: link_before.induct) auto

text \<open>The positions that pointed to \<open>p\<close> have been moved back.\<close>

definition moved_back :: "u64 \<Rightarrow> u64 \<Rightarrow> list_link \<Rightarrow> (u64 \<Rightarrow> protocol_notify option) \<Rightarrow> (u64 \<Rightarrow> protocol_notify option)" where
  "moved_back e p k N = (\<lambda>n. map_option (\<lambda>x. if NotifyProtocol x = e \<and> Position x = Link p then x\<lparr>Position := k\<rparr> else x) (N n))"

lemma moved_back_protocol: "(\<exists>x. moved_back e p k N n = Some x \<and> NotifyProtocol x = d) \<longleftrightarrow> (\<exists>x. N n = Some x \<and> NotifyProtocol x = d)"
  by (cases "N n") (simp_all add: moved_back_def)

lemma entry_ok_moved: "entry_ok IF (moved_back e p k N) = entry_ok IF N"
  by (simp add: entry_ok_def [abs_def] moved_back_protocol)

lemma moved_back_position:
  assumes "moved_back e p k N n = Some x" "EN e = Some E" "k = link_before ListHead (ByProtocol E) p" "distinct (ByProtocol E)"
    and "\<And>y. N n = Some y \<Longrightarrow> n \<noteq> 0 \<and> (\<exists>E. EN (NotifyProtocol y) = Some E \<and> position_ok (Position y) (ByProtocol E))"
    and "set l = set (ByProtocol E) - {p} \<or> set l = set (ByProtocol E)"
  shows "n \<noteq> 0 \<and> (\<exists>D. (EN(e \<mapsto> E\<lparr>ByProtocol := l\<rparr>)) (NotifyProtocol x) = Some D \<and> position_ok (Position x) (ByProtocol D))"
proof -
  obtain y where y: "N n = Some y" "x = (if NotifyProtocol y = e \<and> Position y = Link p then y\<lparr>Position := k\<rparr> else y)"
    using assms(1) by (auto simp: moved_back_def)
  have k: "position_ok k l"
  proof -
    consider "k = ListHead" | a where "k = Link a" "a \<in> set (ByProtocol E)" "a \<noteq> p"
      using link_before_ok [of ListHead "ByProtocol E" p] assms(3,4) by metis
    then show ?thesis by cases (use assms(6) in \<open>auto simp: position_ok_def\<close>)
  qed
  obtain D where D: "n \<noteq> 0" "EN (NotifyProtocol y) = Some D" "position_ok (Position y) (ByProtocol D)" using assms(5) [OF y(1)] by blast
  show ?thesis
  proof (cases "NotifyProtocol y = e")
    case True
    then have "D = E" using D(2) assms(2) by simp
    then have "position_ok (Position x) l" using y(2) True D(3) k assms(6) by (auto simp: position_ok_def split: list_link.splits)
    then show ?thesis using y(2) True D(1) by auto
  next
    case False
    then show ?thesis using y(2) D by auto
  qed
qed

text \<open>An interface leaves its handle and its protocol; a handle without protocols leaves the database.\<close>

lemma links_remove:
  assumes "links_ok hl el IH EN IF N" "IF p = Some I" "IH (Handle I) = Some H" "EN (Protocol I) = Some E"
    and "Protocols H' = remove1 p (Protocols H)"
    and "if Protocols H' = [] then IH' = IH(Handle I := None) \<and> hl' = remove1 (Handle I) hl else IH' = IH(Handle I \<mapsto> H') \<and> hl' = hl"
  shows "links_ok hl' el IH' (EN(Protocol I \<mapsto> E\<lparr>ByProtocol := remove1 p (ByProtocol E)\<rparr>)) (IF(p := None))
    (moved_back (Protocol I) p (link_before ListHead (ByProtocol E) p) N)"
proof -
  let ?h = "Handle I" and ?e = "Protocol I"
  let ?IF = "IF(p := None)" and ?N = "moved_back ?e p (link_before ListHead (ByProtocol E) p) N" and ?E = "E\<lparr>ByProtocol := remove1 p (ByProtocol E)\<rparr>"
  note l = links_okD [OF assms(1)]
  have dp: "distinct (Protocols H)" "distinct (ByProtocol E)" using l(5) [OF assms(3)] l(6) [OF assms(4)] by (simp_all add: handle_ok_def entry_ok_def)
  have on: "q \<in> set (Protocols H') \<longleftrightarrow> (\<exists>J. ?IF q = Some J \<and> Handle J = ?h)" for q
    using l(5) [OF assms(3)] dp(1) unfolding assms(5) by (auto simp: handle_ok_def set_remove1_eq)
  have h: "handle_ok ?IF k K" if "IH' k = Some K" for k K
  proof (cases "k = ?h")
    case True
    then have "Protocols H' \<noteq> []" "K = H'" using that assms(6) by (auto split: if_splits)
    then show ?thesis using True on dp(1) l(5) [OF assms(3)] assms(5) by (simp add: handle_ok_def)
  next
    case False
    then have "IH k = Some K" using that assms(6) by (auto split: if_splits)
    then show ?thesis using l(5) [of k K] False assms(2) unfolding handle_ok_def by auto
  qed
  have "entry_ok ?IF ?N ?e ?E" using l(6) [OF assms(4)] dp(2) unfolding entry_ok_moved by (auto simp: entry_ok_def set_remove1_eq)
  moreover have "\<forall>d D. d \<noteq> ?e \<longrightarrow> EN d = Some D \<longrightarrow> entry_ok ?IF ?N d D"
  proof (intro allI impI)
    fix d D assume that: "d \<noteq> ?e" "EN d = Some D"
    show "entry_ok ?IF ?N d D"
    using that l(6) [of d D] assms(2) unfolding entry_ok_moved by (auto simp: entry_ok_def)
  qed
  ultimately have o: "entry_ok ?IF ?N ?e ?E" "\<forall>d D. d \<noteq> ?e \<longrightarrow> EN d = Some D \<longrightarrow> entry_ok ?IF ?N d D" by simp_all
  have "ProtocolID ?E = ProtocolID E" by simp
  note e = links_entry [OF assms(1,4) this o]
  have i: "q \<noteq> 0 \<and> IH' (Handle J) \<noteq> None \<and> (EN(?e \<mapsto> ?E)) (Protocol J) \<noteq> None \<and> opens_ok J" if q: "?IF q = Some J" for q J
  proof -
    have J: "IF q = Some J" "q \<noteq> p" using q by (auto split: if_splits)
    have "IH' (Handle J) \<noteq> None"
    proof (cases "Handle J = ?h")
      case True
      then have "q \<in> set (Protocols H')" using on q by blast
      then have "Protocols H' \<noteq> []" by auto
      then show ?thesis using True assms(6) by simp
    next
      case False
      then show ?thesis using l(8) [OF J(1)] assms(6) by (auto split: if_splits)
    qed
    then show ?thesis using l(8) [OF J(1)] by auto
  qed
  have n: "n \<noteq> 0 \<and> (\<exists>D. (EN(?e \<mapsto> ?E)) (NotifyProtocol x) = Some D \<and> position_ok (Position x) (ByProtocol D))" if "?N n = Some x" for n x
    by (rule moved_back_position [OF that assms(4) refl dp(2) l(9)]) (use dp(2) in \<open>auto simp: set_remove1_eq\<close>)
  have d: "distinct hl'" "set hl' = dom IH'" using l(1,2) assms(3,6) by (auto simp: set_remove1_eq split: if_splits)
  show ?thesis
    by (rule links_okI, rule d(1), rule d(2), rule e(1), rule e(2), erule h, erule e(3), erule (2) e(4), erule i, erule n)
qed

text \<open>An interface gets a new value and goes to the end of its protocol's list.\<close>

lemma links_reinstall:
  assumes "links_ok hl el IH EN IF N" "IF p = Some I" "EN (Protocol I) = Some E"
  shows "links_ok hl el IH (EN(Protocol I \<mapsto> E\<lparr>ByProtocol := remove1 p (ByProtocol E) @ [p]\<rparr>)) (IF(p \<mapsto> I\<lparr>Interface := v\<rparr>))
    (moved_back (Protocol I) p (link_before ListHead (ByProtocol E) p) N)"
proof -
  let ?e = "Protocol I"
  let ?N = "moved_back ?e p (link_before ListHead (ByProtocol E) p) N" and ?E = "E\<lparr>ByProtocol := remove1 p (ByProtocol E) @ [p]\<rparr>"
  note l = links_okD [OF assms(1)]
  have dp: "distinct (ByProtocol E)" "p \<in> set (ByProtocol E)" using l(6) [OF assms(3)] assms(2) by (auto simp: entry_ok_def)
  have "entry_ok IF ?N ?e ?E" using l(6) [OF assms(3)] dp unfolding entry_ok_moved by (auto simp: entry_ok_def set_remove1_eq)
  moreover have "\<forall>d D. d \<noteq> ?e \<longrightarrow> EN d = Some D \<longrightarrow> entry_ok IF ?N d D" using l(6) unfolding entry_ok_moved by simp
  ultimately have o: "entry_ok IF ?N ?e ?E" "\<forall>d D. d \<noteq> ?e \<longrightarrow> EN d = Some D \<longrightarrow> entry_ok IF ?N d D" by simp_all
  have "ProtocolID ?E = ProtocolID E" by simp
  note e = links_entry [OF assms(1,3) this o]
  have n: "n \<noteq> 0 \<and> (\<exists>D. (EN(?e \<mapsto> ?E)) (NotifyProtocol x) = Some D \<and> position_ok (Position x) (ByProtocol D))" if "?N n = Some x" for n x
    by (rule moved_back_position [OF that assms(3) refl dp(1) l(9)]) (use dp in \<open>auto simp: set_remove1_eq\<close>)
  have i: "q \<noteq> 0 \<and> IH (Handle J) \<noteq> None \<and> (EN(?e \<mapsto> ?E)) (Protocol J) \<noteq> None \<and> opens_ok J" if "IF q = Some J" for q J
    using l(8) [OF that] by auto
  have "links_ok hl el IH (EN(?e \<mapsto> ?E)) IF ?N" 
    by (rule links_okI, rule l(1), rule l(2), rule e(1), rule e(2), erule l(5), erule e(3), erule (2) e(4), erule i, erule n)
  moreover have "opens_ok (I\<lparr>Interface := v\<rparr>)" using l(8) [OF assms(2)] by (simp add: opens_ok_def)
  ultimately show ?thesis using links_interface [where IF = IF and p = p and I = I] assms(2) by simp
qed

lemma links_position:
  assumes "links_ok hl el IH EN IF N" "N n = Some x" "NotifyProtocol x' = NotifyProtocol x" "EN (NotifyProtocol x) = Some E"
    and "position_ok (Position x') (ByProtocol E)"
  shows "links_ok hl el IH EN IF (N(n \<mapsto> x'))"
proof -
  note l = links_okD [OF assms(1)]
  have "(\<exists>y. (N(n \<mapsto> x')) m = Some y \<and> NotifyProtocol y = e) \<longleftrightarrow> (\<exists>y. N m = Some y \<and> NotifyProtocol y = e)" for m e using assms(2,3) by auto
  then have e: "entry_ok IF (N(n \<mapsto> x')) = entry_ok IF N" by (simp add: entry_ok_def [abs_def])
  have f: "entry_ok IF (N(n \<mapsto> x')) d D" if "EN d = Some D" for d D unfolding e by (rule l(6) [OF that])
  have m: "m \<noteq> 0 \<and> (\<exists>D. EN (NotifyProtocol y) = Some D \<and> position_ok (Position y) (ByProtocol D))" if "(N(n \<mapsto> x')) m = Some y" for m y
    using that l(9) [of m y] l(9) [OF assms(2)] assms(3-5) by (cases "m = n") auto
  show ?thesis
    by (rule links_okI, rule l(1), rule l(2), rule l(3), rule l(4), erule l(5), erule f, erule (2) l(7), erule l(8), erule m)
qed

lemma links_register:
  assumes "links_ok hl el IH EN IF N" "N n = None" "n \<noteq> 0" "EN e = Some E" "NotifyProtocol x = e" "Position x = ListHead"
  shows "links_ok hl el IH (EN(e \<mapsto> E\<lparr>Notify := Notify E @ [n]\<rparr>)) IF (N(n \<mapsto> x))"
proof -
  let ?E = "E\<lparr>Notify := Notify E @ [n]\<rparr>" and ?N = "N(n \<mapsto> x)"
  note l = links_okD [OF assms(1)]
  have "entry_ok IF ?N e ?E" using l(6) [OF assms(4)] assms(2,5) by (auto simp: entry_ok_def)
  moreover have "\<forall>d D. d \<noteq> e \<longrightarrow> EN d = Some D \<longrightarrow> entry_ok IF ?N d D"
  proof (intro allI impI)
    fix d D assume that: "d \<noteq> e" "EN d = Some D"
    show "entry_ok IF ?N d D" using that l(6) [of d D] assms(2,5) by (auto simp: entry_ok_def)
  qed
  ultimately have o: "entry_ok IF ?N e ?E" "\<forall>d D. d \<noteq> e \<longrightarrow> EN d = Some D \<longrightarrow> entry_ok IF ?N d D" by simp_all
  have "ProtocolID ?E = ProtocolID E" by simp
  note e = links_entry [OF assms(1,4) this o]
  have m: "m \<noteq> 0 \<and> (\<exists>D. (EN(e \<mapsto> ?E)) (NotifyProtocol y) = Some D \<and> position_ok (Position y) (ByProtocol D))" if "?N m = Some y" for m y
  proof (cases "m = n")
    case True
    then show ?thesis using that assms(3,5,6) by (auto simp: position_ok_def)
  next
    case False
    then show ?thesis using that l(9) [of m y] assms(4) by (cases "NotifyProtocol y = e") auto
  qed
  have i: "q \<noteq> 0 \<and> IH (Handle J) \<noteq> None \<and> (EN(e \<mapsto> ?E)) (Protocol J) \<noteq> None \<and> opens_ok J" if "IF q = Some J" for q J
    using l(8) [OF that] by auto
  show ?thesis
    by (rule links_okI, rule l(1), rule l(2), rule e(1), rule e(2), erule l(5), erule e(3), erule (2) e(4), erule i, erule m)
qed

lemma links_unregister:
  assumes "links_ok hl el IH EN IF N" "N n = Some x" "EN (NotifyProtocol x) = Some E"
  shows "links_ok hl el IH (EN(NotifyProtocol x \<mapsto> E\<lparr>Notify := remove1 n (Notify E)\<rparr>)) IF (N(n := None))"
proof -
  let ?e = "NotifyProtocol x"
  let ?E = "E\<lparr>Notify := remove1 n (Notify E)\<rparr>" and ?N = "N(n := None)"
  note l = links_okD [OF assms(1)]
  have "entry_ok IF ?N ?e ?E" using l(6) [OF assms(3)] assms(2) by (auto simp: entry_ok_def set_remove1_eq)
  moreover have "\<forall>d D. d \<noteq> ?e \<longrightarrow> EN d = Some D \<longrightarrow> entry_ok IF ?N d D"
  proof (intro allI impI)
    fix d D assume that: "d \<noteq> ?e" "EN d = Some D"
    show "entry_ok IF ?N d D" using that l(6) [of d D] assms(2) by (auto simp: entry_ok_def)
  qed
  ultimately have o: "entry_ok IF ?N ?e ?E" "\<forall>d D. d \<noteq> ?e \<longrightarrow> EN d = Some D \<longrightarrow> entry_ok IF ?N d D" by simp_all
  have "ProtocolID ?E = ProtocolID E" by simp
  note e = links_entry [OF assms(1,3) this o]
  have m: "m \<noteq> 0 \<and> (\<exists>D. (EN(?e \<mapsto> ?E)) (NotifyProtocol y) = Some D \<and> position_ok (Position y) (ByProtocol D))" if "?N m = Some y" for m y
  proof -
    have "N m = Some y" using that by (auto split: if_splits)
    then show ?thesis using l(9) [of m y] assms(3) by (cases "NotifyProtocol y = ?e") auto
  qed
  have i: "q \<noteq> 0 \<and> IH (Handle J) \<noteq> None \<and> (EN(?e \<mapsto> ?E)) (Protocol J) \<noteq> None \<and> opens_ok J" if "IF q = Some J" for q J
    using l(8) [OF that] by auto
  show ?thesis
    by (rule links_okI, rule l(1), rule l(2), rule e(1), rule e(2), erule l(5), erule e(3), erule (2) e(4), erule i, erule m)
qed

section \<open>Memory\<close>

datatype struct_kind = AHandle | AEntry | AnInterface | ANotify | AnOpen u64

fun stands :: "'p hdb \<Rightarrow> u64 \<Rightarrow> struct_kind \<Rightarrow> bool" where
  "stands s a AHandle \<longleftrightarrow> ihandles s a \<noteq> None"
| "stands s a AEntry \<longleftrightarrow> entries s a \<noteq> None"
| "stands s a AnInterface \<longleftrightarrow> interfaces s a \<noteq> None"
| "stands s a ANotify \<longleftrightarrow> notifies s a \<noteq> None"
| "stands s a (AnOpen p) \<longleftrightarrow> (\<exists>I. interfaces s p = Some I \<and> a \<in> fst ` set (OpenList I))"

definition owned :: "'p hdb \<Rightarrow> u64 set" where
  "owned s = {a. \<exists>k. stands s a k}"

definition single :: "'p hdb \<Rightarrow> bool" where
  "single s \<longleftrightarrow> (\<forall>a k l. stands s a k \<longrightarrow> stands s a l \<longrightarrow> k = l)"

text \<open>What the database expects of the pool: \<open>inuse p U\<close> says that the buffers \<open>U\<close> are in use.\<close>

locale object_pool =
  fixes env :: "'p hdb_env" and inuse :: "'p \<Rightarrow> u64 set \<Rightarrow> bool"
  assumes pool_gives: "PoolAllocate env n p = Some (a, p') \<Longrightarrow> inuse p U \<Longrightarrow> unat n < 2 ^ 63 \<Longrightarrow>
      if a = 0 then inuse p' U else a \<notin> U \<and> inuse p' (insert a U)"
    and pool_takes: "PoolFree env a p = Some p' \<Longrightarrow> inuse p (insert a U) \<Longrightarrow> a \<notin> U \<Longrightarrow> inuse p' U"
    and pool_fewer: "inuse p U \<Longrightarrow> V \<subseteq> U \<Longrightarrow> inuse p V"
    and pool_small: "inuse p U \<Longrightarrow> card U \<le> 2 ^ 57"
    and pool_signals: "SignalEvent env v p = Some p' \<Longrightarrow> inuse p U \<Longrightarrow> inuse p' U"

definition memory_ok :: "('p \<Rightarrow> u64 set \<Rightarrow> bool) \<Rightarrow> u64 set \<Rightarrow> 'p hdb \<Rightarrow> bool" where
  "memory_ok inuse Z s \<longleftrightarrow> single s \<and> inuse (Rest s) (owned s \<union> Z) \<and> owned s \<inter> Z = {}"

text \<open>\<open>Z\<close> are further buffers that the running service holds.\<close>

definition db_ok :: "('p \<Rightarrow> u64 set \<Rightarrow> bool) \<Rightarrow> u64 set \<Rightarrow> 'p hdb \<Rightarrow> bool" where
  "db_ok inuse Z s \<longleftrightarrow> db_inv s \<and> memory_ok inuse Z s"

lemma memory_same:
  assumes "memory_ok inuse Z s" "stands s' = stands s" "Rest s' = Rest s"
  shows "memory_ok inuse Z s'"
  using assms by (simp add: memory_ok_def single_def owned_def)

text \<open>A buffer that is held becomes a structure, and the other way round.\<close>

lemma memory_link:
  assumes "memory_ok inuse (insert a Z) s" "a \<notin> Z" "\<And>b l. stands s' b l \<longleftrightarrow> stands s b l \<or> b = a \<and> l = k" "Rest s' = Rest s"
  shows "memory_ok inuse Z s'"
proof -
  have a: "\<not> stands s a l" for l using assms(1) by (auto simp: memory_ok_def owned_def)
  have "owned s' = insert a (owned s)" using assms(3) by (auto simp: owned_def)
  moreover have "single s'" using assms(1,3) a unfolding memory_ok_def single_def by metis
  ultimately show ?thesis using assms(1,2,4) by (simp add: memory_ok_def)
qed

context object_pool
begin

lemma memory_unlink:
  assumes "memory_ok inuse Z s" "stands s a k" "\<And>b l. stands s' b l \<Longrightarrow> stands s b l \<and> b \<noteq> a" "Rest s' = Rest s"
  shows "memory_ok inuse (insert a Z) s'" "a \<notin> Z"
proof -
  have "a \<in> owned s" "owned s' \<subseteq> owned s" "a \<notin> owned s'" using assms(2,3) by (auto simp: owned_def)
  moreover have "single s'" using assms(1,3) unfolding memory_ok_def single_def by blast
  moreover have u: "inuse (Rest s) (owned s \<union> Z)" using assms(1) by (simp add: memory_ok_def)
  have "inuse (Rest s) (owned s' \<union> insert a Z)" by (rule pool_fewer [OF u]) (use calculation in auto)
  ultimately show "memory_ok inuse (insert a Z) s'" "a \<notin> Z" using assms(1,4) by (auto simp: memory_ok_def)
qed

lemma memory_alloc:
  assumes "AllocatePool env n s = Some (a, s')" "memory_ok inuse Z s" "unat n < 2 ^ 63"
  shows "\<exists>p. s' = s\<lparr>Rest := p\<rparr>" "if a = 0 then memory_ok inuse Z s' else a \<notin> Z \<and> a \<notin> owned s \<and> memory_ok inuse (insert a Z) s'"
proof -
  obtain p where p: "PoolAllocate env n (Rest s) = Some (a, p)" "s' = s\<lparr>Rest := p\<rparr>"
    using assms(1) by (auto simp: AllocatePool_def)
  then show "\<exists>p. s' = s\<lparr>Rest := p\<rparr>" by blast
  have "stands s' x k = stands s x k" for x k unfolding p(2) by (cases k) simp_all
  then have o: "owned s' = owned s" "single s' = single s" by (simp_all add: owned_def single_def)
  have u: "inuse (Rest s) (owned s \<union> Z)" using assms(2) by (simp add: memory_ok_def)
  show "if a = 0 then memory_ok inuse Z s' else a \<notin> Z \<and> a \<notin> owned s \<and> memory_ok inuse (insert a Z) s'"
    using pool_gives [OF p(1) u assms(3)] assms(2) o p(2) by (auto simp: memory_ok_def)
qed

lemma memory_free:
  assumes "FreePool env a s = Some s'" "memory_ok inuse (insert a Z) s" "a \<notin> Z"
  shows "\<exists>p. s' = s\<lparr>Rest := p\<rparr>" "memory_ok inuse Z s'"
proof -
  obtain p where p: "PoolFree env a (Rest s) = Some p" "s' = s\<lparr>Rest := p\<rparr>" using assms(1) by (auto simp: FreePool_def)
  then show "\<exists>p. s' = s\<lparr>Rest := p\<rparr>" by blast
  have "stands s' x k = stands s x k" for x k unfolding p(2) by (cases k) simp_all
  then have o: "owned s' = owned s" "single s' = single s" by (simp_all add: owned_def single_def)
  have "inuse (Rest s) (insert a (owned s \<union> Z))" "a \<notin> owned s \<union> Z" using assms(2,3) by (auto simp: memory_ok_def)
  then show "memory_ok inuse Z s'" using pool_takes [OF p(1)] assms(2) o p(2) by (auto simp: memory_ok_def)
qed

end

end
