(* ===== verification/HandleRun.thy ===== *)
theory HandleRun
  imports HandleInv
begin

text \<open>
  What each step of the handle services does to a well-formed database.  The locale \<open>database_clients\<close> adds to the pool what is asked of the
  code that runs inside a service: that it leaves the database well formed, as it does when it only uses the services.
\<close>

section \<open>Changes that do not matter\<close>

lemma stands_cong:
  assumes "ihandles s' = ihandles s" "entries s' = entries s" "interfaces s' = interfaces s" "notifies s' = notifies s"
  shows "stands s' = stands s"
proof (intro ext)
  show "stands s' a k = stands s a k" for a k by (cases k) (simp_all add: assms)
qed

lemma db_ok_cong:
  assumes "ihandles s' = ihandles s" "entries s' = entries s" "interfaces s' = interfaces s" "notifies s' = notifies s"
    and "gHandleList s' = gHandleList s" "mProtocolDatabase s' = mProtocolDatabase s" "Rest s' = Rest s"
  shows "db_ok inuse Z s' = db_ok inuse Z s" "db_inv s' = db_inv s" "memory_ok inuse Z s' = memory_ok inuse Z s"
proof -
  show i: "db_inv s' = db_inv s" by (simp add: db_inv_def assms)
  show m: "memory_ok inuse Z s' = memory_ok inuse Z s" by (simp add: memory_ok_def single_def owned_def stands_cong [OF assms(1-4)] assms(7))
  show "db_ok inuse Z s' = db_ok inuse Z s" by (simp add: db_ok_def i m)
qed

lemma db_ok_fields [simp]:
  "db_ok inuse Z (s\<lparr>gProtocolDatabaseLock := b\<rparr>) = db_ok inuse Z s" "db_ok inuse Z (s\<lparr>gHandleDatabaseKey := k\<rparr>) = db_ok inuse Z s"
  "db_ok inuse Z (s\<lparr>mEfiLocateHandleRequest := r\<rparr>) = db_ok inuse Z s"
  by (rule db_ok_cong; simp)+

lemma db_inv_fields [simp]:
  "db_inv (s\<lparr>gProtocolDatabaseLock := b\<rparr>) = db_inv s" "db_inv (s\<lparr>gHandleDatabaseKey := k\<rparr>) = db_inv s"
  "db_inv (s\<lparr>mEfiLocateHandleRequest := r\<rparr>) = db_inv s" "db_inv (s\<lparr>Rest := q\<rparr>) = db_inv s"
  by (simp_all add: db_inv_def)

lemma stands_fields [simp]:
  "stands (s\<lparr>gProtocolDatabaseLock := b\<rparr>) = stands s" "stands (s\<lparr>gHandleDatabaseKey := k\<rparr>) = stands s"
  "stands (s\<lparr>mEfiLocateHandleRequest := r\<rparr>) = stands s" "stands (s\<lparr>Rest := q\<rparr>) = stands s"
  by (rule stands_cong; simp)+

lemma db_ok_handle:
  assumes "db_ok inuse Z s" "ihandles s h = Some H" "Protocols H' = Protocols H"
  shows "db_ok inuse Z (put_handle h H' s)"
proof -
  have "db_inv (put_handle h H' s)"
    using links_handle [where IH = "ihandles s", OF _ assms(2,3)] assms(1) by (simp add: db_ok_def db_inv_def put_handle_def)
  moreover have "stands (put_handle h H' s) a k = stands s a k" for a k using assms(2) by (cases k) (auto simp: put_handle_def)
  then have "stands (put_handle h H' s) = stands s" by (intro ext)
  then have "memory_ok inuse Z (put_handle h H' s)"
    using memory_same [of inuse Z s "put_handle h H' s"] assms(1) by (simp add: db_ok_def put_handle_def)
  ultimately show ?thesis by (simp add: db_ok_def)
qed

lemma db_ok_interface:
  assumes "db_ok inuse Z s" "interfaces s p = Some I" "Handle I' = Handle I" "Protocol I' = Protocol I" "opens_ok I'"
    and "fst ` set (OpenList I') = fst ` set (OpenList I)"
  shows "db_ok inuse Z (put_interface p I' s)"
proof -
  have "db_inv (put_interface p I' s)"
    using links_interface [where IF = "interfaces s", OF _ assms(2-5)] assms(1) by (simp add: db_ok_def db_inv_def put_interface_def)
  moreover have "stands (put_interface p I' s) a k = stands s a k" for a k using assms(2,6) by (cases k) (auto simp: put_interface_def)
  then have "stands (put_interface p I' s) = stands s" by (intro ext)
  then have "memory_ok inuse Z (put_interface p I' s)"
    using memory_same [of inuse Z s "put_interface p I' s"] assms(1) by (simp add: db_ok_def put_interface_def)
  ultimately show ?thesis by (simp add: db_ok_def)
qed

section \<open>Searching\<close>

lemma search_database_result:
  assumes "set l \<subseteq> dom (entries s)" "0 \<notin> set l"
  shows "\<exists>e. search_database P l s = Some e \<and> (e = 0 \<longrightarrow> (\<forall>d\<in>set l. \<forall>D. entries s d = Some D \<longrightarrow> ProtocolID D \<noteq> P)) \<and>
    (e \<noteq> 0 \<longrightarrow> e \<in> set l \<and> (\<exists>E. entries s e = Some E \<and> ProtocolID E = P))"
  using assms
proof (induction l)
  case (Cons a l)
  obtain E where E: "entries s a = Some E" "a \<noteq> 0" using Cons.prems by auto
  show ?case using Cons E by (cases "ProtocolID E = P") auto
qed simp

lemma find_entry_search:
  assumes "db_inv s"
  obtains e where "search_database P (mProtocolDatabase s) s = Some e" "e = 0 \<Longrightarrow> entries s d = Some D \<Longrightarrow> ProtocolID D \<noteq> P"
    "e \<noteq> 0 \<Longrightarrow> \<exists>E. entries s e = Some E \<and> ProtocolID E = P"
proof -
  have "0 \<notin> set (mProtocolDatabase s)" using db_invD(4) [OF assms] entry_lists(5) [OF assms] by auto
  then obtain e where e: "search_database P (mProtocolDatabase s) s = Some e"
      "e = 0 \<longrightarrow> (\<forall>d\<in>set (mProtocolDatabase s). \<forall>D. entries s d = Some D \<longrightarrow> ProtocolID D \<noteq> P)"
      "e \<noteq> 0 \<longrightarrow> (\<exists>E. entries s e = Some E \<and> ProtocolID E = P)"
    using search_database_result [of "mProtocolDatabase s" s P] db_invD(4) [OF assms] by auto
  have "ProtocolID D \<noteq> P" if "e = 0" "entries s d = Some D" using e(2) that db_invD(4) [OF assms] by auto
  then show thesis using that e(1,3) by blast
qed

text \<open>With the lock held, looking an entry up returns the one with the identifier, or zero when there is none.\<close>

lemma find_entry_only:
  assumes "db_inv s" "gProtocolDatabaseLock s"
  obtains e where "CoreFindProtocolEntry env P False s = Some (e, s)" "e = 0 \<Longrightarrow> entries s d = Some D \<Longrightarrow> ProtocolID D \<noteq> P"
    "e \<noteq> 0 \<Longrightarrow> \<exists>E. entries s e = Some E \<and> ProtocolID E = P"
proof -
  obtain e where "search_database P (mProtocolDatabase s) s = Some e" "e = 0 \<Longrightarrow> entries s d = Some D \<Longrightarrow> ProtocolID D \<noteq> P"
    "e \<noteq> 0 \<Longrightarrow> \<exists>E. entries s e = Some E \<and> ProtocolID E = P" using find_entry_search [OF assms(1)] by metis
  then show thesis using that assms(2) by (simp add: CoreFindProtocolEntry_def)
qed

lemma find_interface_result:
  assumes "set l \<subseteq> dom (interfaces s)" "0 \<notin> set l"
  shows "\<exists>p. find_interface e I l s = Some p \<and> (p = 0 \<longrightarrow> (\<forall>q\<in>set l. \<forall>J. interfaces s q = Some J \<longrightarrow> \<not> (Interface J = I \<and> Protocol J = e))) \<and>
    (p \<noteq> 0 \<longrightarrow> p \<in> set l \<and> (\<exists>J. interfaces s p = Some J \<and> Interface J = I \<and> Protocol J = e))"
  using assms
proof (induction l)
  case (Cons a l)
  obtain J where J: "interfaces s a = Some J" "a \<noteq> 0" using Cons.prems by auto
  show ?case using Cons J by (cases "Interface J = I \<and> Protocol J = e") auto
qed simp

text \<open>An interface \<open>I\<close> of the protocol \<open>P\<close> on the handle \<open>h\<close>.\<close>

definition installs :: "'p hdb \<Rightarrow> u64 \<Rightarrow> u64 \<Rightarrow> guid \<Rightarrow> u64 \<Rightarrow> bool" where
  "installs s p h P I \<longleftrightarrow> (\<exists>J E. interfaces s p = Some J \<and> Handle J = h \<and> Interface J = I \<and> entries s (Protocol J) = Some E \<and> ProtocolID E = P)"

lemma protocols_listed:
  assumes "db_inv s" "ihandles s h = Some H"
  shows "set (Protocols H) \<subseteq> dom (interfaces s)" "0 \<notin> set (Protocols H)"
  using handle_protocols(1) [OF assms] db_invD(8) [OF assms(1)] by auto

lemma CoreFindProtocolInterface_result:
  assumes "db_inv s" "gProtocolDatabaseLock s" "ihandles s h = Some H"
  shows "\<exists>p. CoreFindProtocolInterface env h P I s = Some p \<and> (p = 0 \<longrightarrow> (\<forall>q. \<not> installs s q h P I)) \<and> (p \<noteq> 0 \<longrightarrow> installs s p h P I)"
proof -
  obtain e where e: "CoreFindProtocolEntry env P False s = Some (e, s)" "\<And>d D. e = 0 \<Longrightarrow> entries s d = Some D \<Longrightarrow> ProtocolID D \<noteq> P"
    "e \<noteq> 0 \<Longrightarrow> \<exists>E. entries s e = Some E \<and> ProtocolID E = P" using find_entry_only [OF assms(1,2)] by metis
  show ?thesis
  proof (cases "e = 0")
    case True
    then show ?thesis using e assms(2) by (auto simp: CoreFindProtocolInterface_def installs_def)
  next
    case False
    obtain p where p: "find_interface e I (Protocols H) s = Some p"
        "p = 0 \<longrightarrow> (\<forall>q\<in>set (Protocols H). \<forall>J. interfaces s q = Some J \<longrightarrow> \<not> (Interface J = I \<and> Protocol J = e))"
        "p \<noteq> 0 \<longrightarrow> p \<in> set (Protocols H) \<and> (\<exists>J. interfaces s p = Some J \<and> Interface J = I \<and> Protocol J = e)"
      using find_interface_result [OF protocols_listed [OF assms(1,3)]] by blast
    obtain E where E: "entries s e = Some E" "ProtocolID E = P" using e(3) False by blast
    have "CoreFindProtocolInterface env h P I s = Some p" using e(1) p(1) False assms(2,3) by (simp add: CoreFindProtocolInterface_def)
    moreover have "\<not> installs s q h P I" if "p = 0" for q
    proof
      assume "installs s q h P I"
      then obtain J D where J: "interfaces s q = Some J" "Handle J = h" "Interface J = I" "entries s (Protocol J) = Some D" "ProtocolID D = P"
        by (auto simp: installs_def)
      then have "Protocol J = e" using db_invD(7) [OF assms(1) J(4) E(1)] E(2) by simp
      moreover have "q \<in> set (Protocols H)" using handle_protocols(1) [OF assms(1,3)] J(1,2) by blast
      ultimately show False using p(2) that J(1,3) by blast
    qed
    moreover have "installs s p h P I" if "p \<noteq> 0"
      using p(3) that E handle_protocols(1) [OF assms(1,3), of p] by (auto simp: installs_def)
    ultimately show ?thesis by blast
  qed
qed

lemma get_interface_result:
  assumes "set l \<subseteq> dom (interfaces s)" "0 \<notin> set l" "\<forall>q\<in>set l. \<forall>J. interfaces s q = Some J \<longrightarrow> entries s (Protocol J) \<noteq> None"
  shows "\<exists>p. get_interface P l s = Some p \<and>
    (p = 0 \<longrightarrow> (\<forall>q\<in>set l. \<forall>J E. interfaces s q = Some J \<longrightarrow> entries s (Protocol J) = Some E \<longrightarrow> ProtocolID E \<noteq> P)) \<and>
    (p \<noteq> 0 \<longrightarrow> p \<in> set l \<and> (\<exists>J E. interfaces s p = Some J \<and> entries s (Protocol J) = Some E \<and> ProtocolID E = P))"
  using assms
proof (induction l)
  case (Cons a l)
  obtain J where J: "interfaces s a = Some J" "a \<noteq> 0" using Cons.prems by auto
  then obtain E where E: "entries s (Protocol J) = Some E" using Cons.prems(3) by auto
  show ?case using Cons J E by (cases "ProtocolID E = P") auto
qed simp

lemma CoreGetProtocolInterface_result:
  assumes "db_inv s" "ihandles s h = Some H"
  shows "\<exists>p. CoreGetProtocolInterface h P s = Some p \<and> (p = 0 \<longrightarrow> (\<forall>q I. \<not> installs s q h P I)) \<and>
    (p \<noteq> 0 \<longrightarrow> (\<exists>J. interfaces s p = Some J \<and> installs s p h P (Interface J)))"
proof -
  have d: "\<forall>q\<in>set (Protocols H). \<forall>J. interfaces s q = Some J \<longrightarrow> entries s (Protocol J) \<noteq> None" using db_invD(10) [OF assms(1)] by auto
  obtain p where p: "get_interface P (Protocols H) s = Some p"
      "p = 0 \<longrightarrow> (\<forall>q\<in>set (Protocols H). \<forall>J E. interfaces s q = Some J \<longrightarrow> entries s (Protocol J) = Some E \<longrightarrow> ProtocolID E \<noteq> P)"
      "p \<noteq> 0 \<longrightarrow> p \<in> set (Protocols H) \<and> (\<exists>J E. interfaces s p = Some J \<and> entries s (Protocol J) = Some E \<and> ProtocolID E = P)"
    using get_interface_result [OF protocols_listed [OF assms] d, of P] by blast
  have "CoreGetProtocolInterface h P s = Some p"
    using p(1) assms(2) handle_protocols(4) [OF assms] by (simp add: CoreGetProtocolInterface_def CoreValidateHandle_def)
  moreover have "\<not> installs s q h P I" if "p = 0" for q I
    using p(2) that handle_protocols(1) [OF assms, of q] by (auto simp: installs_def)
  moreover have "\<exists>J. interfaces s p = Some J \<and> installs s p h P (Interface J)" if "p \<noteq> 0"
    using p(3) that handle_protocols(1) [OF assms, of p] by (auto simp: installs_def)
  ultimately show ?thesis by blast
qed

lemma validate_handle: "\<not> EFI_ERROR (CoreValidateHandle h s) \<longleftrightarrow> h \<noteq> 0 \<and> (\<exists>H. ihandles s h = Some H)"
  by (auto simp: CoreValidateHandle_def)

section \<open>Code that runs inside a service\<close>

locale database_clients = object_pool env inuse for env :: "'p hdb_env" and inuse :: "'p \<Rightarrow> u64 set \<Rightarrow> bool" +
  assumes notified: "Notifications env s = Some s' \<Longrightarrow> db_ok inuse Z s \<Longrightarrow> db_ok inuse Z s'"
    and connected: "ConnectController env h s = Some s' \<Longrightarrow> db_ok inuse Z s \<Longrightarrow> db_ok inuse Z s'"
    and disconnected: "DisconnectController env h a s = Some (Status, s') \<Longrightarrow> db_ok inuse Z s \<Longrightarrow> db_ok inuse Z s'"

lemma acquire_ok: "CoreAcquireProtocolLock s = Some s' \<Longrightarrow> db_ok inuse Z s \<Longrightarrow> db_ok inuse Z s'"
  by (auto simp: CoreAcquireProtocolLock_def)

lemma acquired: "CoreAcquireProtocolLock s = Some s' \<longleftrightarrow> \<not> gProtocolDatabaseLock s \<and> s' = s\<lparr>gProtocolDatabaseLock := True\<rparr>"
  by (auto simp: CoreAcquireProtocolLock_def)

context database_clients
begin

lemma release_ok: "CoreReleaseProtocolLock env s = Some s' \<Longrightarrow> db_ok inuse Z s \<Longrightarrow> db_ok inuse Z s'"
  using notified by (auto simp: CoreReleaseProtocolLock_def)

text \<open>Allocating and freeing buffers that are not structures.\<close>

lemma alloc_ok:
  assumes "AllocatePool env n s = Some (a, s')" "db_ok inuse Z s" "unat n < 2 ^ 63"
  shows "\<exists>p. s' = s\<lparr>Rest := p\<rparr>" "if a = 0 then db_ok inuse Z s' else a \<notin> Z \<and> a \<notin> owned s \<and> db_ok inuse (insert a Z) s'"
proof -
  have m: "memory_ok inuse Z s" "db_inv s" using assms(2) by (simp_all add: db_ok_def)
  note a = memory_alloc [OF assms(1) m(1) assms(3)]
  show "\<exists>p. s' = s\<lparr>Rest := p\<rparr>" by (rule a(1))
  then show "if a = 0 then db_ok inuse Z s' else a \<notin> Z \<and> a \<notin> owned s \<and> db_ok inuse (insert a Z) s'"
    using a(2) m(2) by (auto simp: db_ok_def)
qed

lemma free_ok:
  assumes "FreePool env a s = Some s'" "db_ok inuse (insert a Z) s" "a \<notin> Z"
  shows "\<exists>p. s' = s\<lparr>Rest := p\<rparr>" "db_ok inuse Z s'"
proof -
  have m: "memory_ok inuse (insert a Z) s" "db_inv s" using assms(2) by (simp_all add: db_ok_def)
  note a = memory_free [OF assms(1) m(1) assms(3)]
  show "\<exists>p. s' = s\<lparr>Rest := p\<rparr>" by (rule a(1))
  then show "db_ok inuse Z s'" using a(2) m(2) by (auto simp: db_ok_def)
qed

lemma db_ok_fewer: "db_ok inuse Z s \<Longrightarrow> Y \<subseteq> Z \<Longrightarrow> db_ok inuse Y s"
  using pool_fewer [of "Rest s" "owned s \<union> Z" "owned s \<union> Y"] by (auto simp: db_ok_def memory_ok_def)

lemma find_entry_ok:
  assumes "CoreFindProtocolEntry env P Create s = Some (e, s')" "db_ok inuse Z s"
  shows "db_ok inuse Z s'" "e \<noteq> 0 \<Longrightarrow> \<exists>E. entries s' e = Some E \<and> ProtocolID E = P" "\<And>d D. entries s d = Some D \<Longrightarrow> entries s' d = Some D"
    "ihandles s' = ihandles s \<and> interfaces s' = interfaces s \<and> notifies s' = notifies s \<and> gHandleList s' = gHandleList s \<and>
     gProtocolDatabaseLock s' = gProtocolDatabaseLock s \<and> gHandleDatabaseKey s' = gHandleDatabaseKey s"
proof -
  have inv: "db_inv s" using assms(2) by (simp add: db_ok_def)
  have "gProtocolDatabaseLock s" using assms(1) by (auto simp: CoreFindProtocolEntry_def)
  obtain e0 where e0: "search_database P (mProtocolDatabase s) s = Some e0" "\<And>d D. e0 = 0 \<Longrightarrow> entries s d = Some D \<Longrightarrow> ProtocolID D \<noteq> P"
    "e0 \<noteq> 0 \<Longrightarrow> \<exists>E. entries s e0 = Some E \<and> ProtocolID E = P" using find_entry_search [OF inv] by metis
  consider (found) "s' = s" "e = e0" | (alloc) s1 where "e0 = 0" "AllocatePool env SIZE_OF_PROTOCOL_ENTRY s = Some (e, s1)"
      "s' = (if e = 0 then s1 else (put_entry e \<lparr>ProtocolID = P, ByProtocol = [], Notify = []\<rparr> s1)\<lparr>mProtocolDatabase := mProtocolDatabase s1 @ [e]\<rparr>)"
    using assms(1) e0(1) by (auto simp: CoreFindProtocolEntry_def split: if_splits)
  then have "db_ok inuse Z s' \<and> (e \<noteq> 0 \<longrightarrow> (\<exists>E. entries s' e = Some E \<and> ProtocolID E = P)) \<and> (\<forall>d D. entries s d = Some D \<longrightarrow> entries s' d = Some D) \<and>
     ihandles s' = ihandles s \<and> interfaces s' = interfaces s \<and> notifies s' = notifies s \<and> gHandleList s' = gHandleList s \<and>
     gProtocolDatabaseLock s' = gProtocolDatabaseLock s \<and> gHandleDatabaseKey s' = gHandleDatabaseKey s"
  proof cases
    case found
    then show ?thesis using assms(2) e0 by auto
  next
    case alloc
    note a = alloc_ok [OF alloc(2) assms(2), simplified]
    obtain q where q: "s1 = s\<lparr>Rest := q\<rparr>" using a(1) by blast
    show ?thesis
    proof (cases "e = 0")
      case True
      then show ?thesis using a(2) alloc(3) q by simp
    next
      case False
      let ?E = "\<lparr>ProtocolID = P, ByProtocol = [], Notify = []\<rparr>"
      have f: "e \<notin> Z" "e \<notin> owned s" "db_ok inuse (insert e Z) s1" using a(2) False by simp_all
      have n: "entries s e = None" using f(2) unfolding owned_def by (metis (mono_tags, lifting) mem_Collect_eq stands.simps(2))
      have s': "s' = (put_entry e ?E s1)\<lparr>mProtocolDatabase := mProtocolDatabase s1 @ [e]\<rparr>" using alloc(3) False by simp
      have "links_ok (gHandleList s) (mProtocolDatabase s) (ihandles s) (entries s) (interfaces s) (notifies s)" using inv by (simp add: db_inv_def)
      from links_new_entry [OF this n False] have "db_inv s'"
        using e0(2) alloc(1) by (simp add: s' q db_inv_def put_entry_def)
      moreover have "stands s' b l \<longleftrightarrow> stands s1 b l \<or> b = e \<and> l = AEntry" for b l by (cases l) (auto simp: s' q put_entry_def)
      then have "memory_ok inuse Z s'"
        using memory_link [of inuse e Z s1 s' AEntry] f(1,3) by (simp add: db_ok_def s' put_entry_def)
      ultimately show ?thesis using n by (auto simp: db_ok_def s' q put_entry_def)
    qed
  qed
  then show "db_ok inuse Z s'" "e \<noteq> 0 \<Longrightarrow> \<exists>E. entries s' e = Some E \<and> ProtocolID E = P" "\<And>d D. entries s d = Some D \<Longrightarrow> entries s' d = Some D"
    "ihandles s' = ihandles s \<and> interfaces s' = interfaces s \<and> notifies s' = notifies s \<and> gHandleList s' = gHandleList s \<and>
     gProtocolDatabaseLock s' = gProtocolDatabaseLock s \<and> gHandleDatabaseKey s' = gHandleDatabaseKey s" by blast+
qed

end

end
