(* ===== verification/HandleSafe.thy ===== *)
theory HandleSafe
  imports HandleRun
begin

text \<open>
  Every service keeps a well-formed handle database well formed.
\<close>

context database_clients
begin

section \<open>Opening and closing\<close>

lemma fresh_open:
  assumes "a \<notin> owned s" "interfaces s p = Some I"
  shows "a \<notin> fst ` set (OpenList I)"
proof
  assume "a \<in> fst ` set (OpenList I)"
  then have "stands s a (AnOpen p)" using assms(2) by simp
  then show False using assms(1) unfolding owned_def by blast
qed

lemma add_open_ok:
  assumes "add_open env p d s = Some (Status, s')" "db_ok inuse Z s"
  shows "db_ok inuse Z s'"
proof -
  obtain a s1 where a: "AllocatePool env SIZE_OF_OPEN_PROTOCOL_DATA s = Some (a, s1)"
    using assms(1) by (auto simp: add_open_def)
  note k = alloc_ok [OF a assms(2), simplified]
  obtain q where q: "s1 = s\<lparr>Rest := q\<rparr>" using k(1) by blast
  show ?thesis
  proof (cases "a = 0")
    case True
    then show ?thesis using assms(1) a k(2) by (simp add: add_open_def)
  next
    case False
    then have f: "a \<notin> Z" "a \<notin> owned s" "db_ok inuse (insert a Z) s1" using k(2) by simp_all
    obtain I where I: "interfaces s p = Some I" "s' = put_interface p (I\<lparr>OpenList := OpenList I @ [(a, d)], OpenListCount := OpenListCount I + 1\<rparr>) s1"
      using assms(1) a False q by (auto simp: add_open_def)
    let ?I = "I\<lparr>OpenList := OpenList I @ [(a, d)], OpenListCount := OpenListCount I + 1\<rparr>"
    have inv: "db_inv s1" using f(3) by (simp add: db_ok_def)
    have I1: "interfaces s1 p = Some I" using I(1) q by simp
    have "opens_ok ?I" using db_invD(11) [OF inv I1] fresh_open [OF f(2) I(1)] by (simp add: opens_ok_def)
    then have "db_inv s'"
      using links_interface [where IF = "interfaces s1" and I' = ?I, OF _ I1] inv by (simp add: db_inv_def I(2) put_interface_def)
    moreover have "stands s' b l \<longleftrightarrow> stands s1 b l \<or> b = a \<and> l = AnOpen p" for b l
      using I1 by (cases l) (auto simp: I(2) put_interface_def)
    then have "memory_ok inuse Z s'"
      using memory_link [of inuse a Z s1 s' "AnOpen p"] f(1,3) by (simp add: db_ok_def I(2) put_interface_def)
    ultimately show ?thesis by (simp add: db_ok_def)
  qed
qed

lemma disconnect_drivers_ok:
  assumes "disconnect_drivers env h p s = Some (Status, s')" "db_ok inuse Z s"
  shows "db_ok inuse Z s'"
proof -
  have "e = env \<longrightarrow> db_ok inuse Z s \<longrightarrow> db_ok inuse Z (snd r)" if "disconnect_drivers e h p s = Some r" for e s r
  proof (induction rule: disconnect_drivers.raw_induct [OF _ that])
    case (1 f e h p s r)
    show ?case
    proof (intro impI)
      assume e: "e = env" "db_ok inuse Z s"
      obtain I where I: "interfaces s p = Some I" using 1(2) by auto
      show "db_ok inuse Z (snd r)"
      proof (cases "List.find (\<lambda>x. drives (snd x)) (OpenList I)")
        case None
        then show ?thesis using 1(2) I e by auto
      next
        case (Some x)
        then obtain s1 St s2 s3 where s: "CoreReleaseProtocolLock env s = Some s1" "DisconnectController env h (AgentHandle (snd x)) s1 = Some (St, s2)"
            "CoreAcquireProtocolLock s2 = Some s3" "if EFI_ERROR St then r = (St, s3) else f env h p s3 = Some r"
          using 1(2) I e(1) by (auto split: if_splits)
        have "db_ok inuse Z s3" by (rule acquire_ok [OF s(3) disconnected [OF s(2) release_ok [OF s(1) e(2)]]])
        then show ?thesis using s(4) 1(1) by (auto split: if_splits)
      qed
    qed
  qed
  from this [OF assms(1)] show ?thesis using assms(2) by simp
qed

lemma opens_removed:
  assumes "opens_ok I" "a \<in> fst ` set (OpenList I)"
  shows "opens_ok (I\<lparr>OpenList := filter (\<lambda>x. fst x \<noteq> a) (OpenList I), OpenListCount := OpenListCount I - 1\<rparr>)"
proof -
  have "Suc (length (filter (\<lambda>x. fst x \<noteq> a) l)) = length l" if "distinct (map fst l)" "a \<in> fst ` set l" for l :: "(u64 \<times> open_data) list"
    using that
  proof (induction l)
    case (Cons x l)
    show ?case
    proof (cases "fst x = a")
      case True
      then have "filter (\<lambda>x. fst x \<noteq> a) l = l" using Cons.prems(1) by (auto intro!: filter_True simp: image_iff)
      then show ?thesis using True by simp
    next
      case False
      then show ?thesis using Cons by auto
    qed
  qed simp
  then have "length (OpenList I) = Suc (length (filter (\<lambda>x. fst x \<noteq> a) (OpenList I)))" using assms by (simp add: opens_ok_def)
  then have "(of_nat (length (OpenList I)) :: u64) = 1 + of_nat (length (filter (\<lambda>x. fst x \<noteq> a) (OpenList I)))" by simp
  moreover have "distinct (map fst (filter (\<lambda>x. fst x \<noteq> a) (OpenList I)))" using assms(1) by (simp add: opens_ok_def distinct_map_filter)
  ultimately show ?thesis using assms(1) by (simp add: opens_ok_def)
qed

lemma remove_open_ok:
  assumes "remove_open env p a s = Some s'" "db_ok inuse Z s" "interfaces s p = Some I" "a \<in> fst ` set (OpenList I)"
  shows "db_ok inuse Z s'"
    "\<exists>q. s' = (put_interface p (I\<lparr>OpenList := filter (\<lambda>x. fst x \<noteq> a) (OpenList I), OpenListCount := OpenListCount I - 1\<rparr>) s)\<lparr>Rest := q\<rparr>"
proof -
  let ?I = "I\<lparr>OpenList := filter (\<lambda>x. fst x \<noteq> a) (OpenList I), OpenListCount := OpenListCount I - 1\<rparr>"
  let ?s = "put_interface p ?I s"
  have f: "FreePool env a ?s = Some s'" using assms(1,3) by (simp add: remove_open_def)
  have inv: "db_inv s" using assms(2) by (simp add: db_ok_def)
  have "db_inv ?s"
    using links_interface [where IF = "interfaces s" and I' = ?I, OF _ assms(3)] opens_removed [OF db_invD(11) [OF inv assms(3)] assms(4)] inv
    by (simp add: db_inv_def put_interface_def)
  have u: "stands ?s b l \<Longrightarrow> stands s b l \<and> b \<noteq> a" for b l
  proof -
    assume h: "stands ?s b l"
    have "stands s b l \<and> (l = AnOpen p \<longrightarrow> b \<noteq> a)" using h assms(3) by (cases l) (auto simp: put_interface_def split: if_splits)
    moreover have "stands s a (AnOpen p)" using assms(3,4) by simp
    ultimately show "stands s b l \<and> b \<noteq> a" using assms(2) unfolding db_ok_def memory_ok_def single_def by blast
  qed
  have m: "memory_ok inuse Z s" "stands s a (AnOpen p)" "Rest ?s = Rest s" using assms(2-4) by (simp_all add: db_ok_def put_interface_def)
  note u = memory_unlink [OF m(1,2) u m(3)]
  then have "db_ok inuse (insert a Z) ?s" "a \<notin> Z" using \<open>db_inv ?s\<close> by (simp_all add: db_ok_def)
  then show "db_ok inuse Z s'" "\<exists>q. s' = ?s\<lparr>Rest := q\<rparr>" using free_ok [OF f] by simp_all
qed

lemma put_interface_same: "interfaces s p = Some I \<Longrightarrow> put_interface p I s = s"
  by (cases s) (simp add: put_interface_def fun_upd_idem)

lemma close_all_ok:
  assumes "close_all env p which l s = Some s'" "db_ok inuse Z s" "interfaces s p = Some I" "set l \<subseteq> set (OpenList I)" "distinct (map fst l)"
  shows "db_ok inuse Z s' \<and> gProtocolDatabaseLock s' = gProtocolDatabaseLock s \<and>
    (\<exists>J q. s' = (put_interface p J s)\<lparr>Rest := q\<rparr> \<and> OpenList J = filter (\<lambda>x. \<not> (x \<in> set l \<and> which (snd x))) (OpenList I) \<and>
      Handle J = Handle I \<and> Protocol J = Protocol I \<and> Interface J = Interface I)"
  using assms
proof (induction l arbitrary: s I)
  case Nil
  then show ?case by (intro conjI exI [of _ I] exI [of _ "Rest s"]) (auto simp: put_interface_same)
next
  case (Cons x l)
  obtain a d where x: "x = (a, d)" by (cases x)
  show ?case
  proof (cases "which d")
    case False
    then have "close_all env p which l s = Some s'" "set l \<subseteq> set (OpenList I)" "distinct (map fst l)" using Cons.prems x by auto
    from Cons.IH [OF this(1) Cons.prems(2,3) this(2,3)] False x show ?thesis by (force intro!: filter_cong)
  next
    case True
    let ?I = "I\<lparr>OpenList := filter (\<lambda>x. fst x \<noteq> a) (OpenList I), OpenListCount := OpenListCount I - 1\<rparr>"
    obtain s1 where s1: "remove_open env p a s = Some s1" "close_all env p which l s1 = Some s'" using Cons.prems(1) x True by auto
    have "a \<in> fst ` set (OpenList I)" using Cons.prems(4) x by force
    note r = remove_open_ok [OF s1(1) Cons.prems(2,3) this]
    obtain q where q: "s1 = (put_interface p ?I s)\<lparr>Rest := q\<rparr>" using r(2) by blast
    have i1: "interfaces s1 p = Some ?I" by (simp add: q put_interface_def)
    have d: "distinct (map fst l)" "a \<notin> fst ` set l" using Cons.prems(5) x by simp_all
    have l: "set l \<subseteq> set (OpenList ?I)"
    proof
      fix y assume y: "y \<in> set l"
      then have "fst y \<noteq> a" using d(2) by blast
      then show "y \<in> set (OpenList ?I)" using y Cons.prems(4) by auto
    qed
    note IH = Cons.IH [OF s1(2) r(1) i1 l d(1)]
    have i: "opens_ok I" using Cons.prems(2,3) db_invD(11) by (auto simp: db_ok_def)
    have u: "fst y \<noteq> a \<and> \<not> (y \<in> set l \<and> which (snd y)) \<longleftrightarrow> \<not> (y \<in> set (x # l) \<and> which (snd y))" if "y \<in> set (OpenList I)" for y
    proof (cases "fst y = a")
      case True
      then have "(a, snd y) \<in> set (OpenList I)" "(a, d) \<in> set (OpenList I)" using that x Cons.prems(4) by auto
      moreover have "distinct (map fst (OpenList I))" using i by (simp add: opens_ok_def)
      ultimately have "snd y = d" using eq_key_imp_eq_value by metis
      then show ?thesis using True x \<open>which d\<close> by (cases y) simp
    next
      case False
      then show ?thesis using x by auto
    qed
    have o: "OpenList ?I = filter (\<lambda>x. fst x \<noteq> a) (OpenList I)" by simp
    have "filter (\<lambda>y. \<not> (y \<in> set l \<and> which (snd y))) (OpenList ?I) = filter (\<lambda>y. \<not> (y \<in> set (x # l) \<and> which (snd y))) (OpenList I)"
      unfolding o filter_filter by (rule filter_cong [OF refl u])
    then show ?thesis using IH q by (simp add: put_interface_def)
  qed
qed

lemma open_locked_ok:
  assumes "open_locked env h p Opener Controller Attr s = Some (Status, s')" "db_ok inuse Z s"
  shows "db_ok inuse Z s'"
proof -
  obtain I where I: "interfaces s p = Some I" using assms(1) by (auto simp: open_locked_def)
  have inv: "db_inv s" using assms(2) by (simp add: db_ok_def)
  show ?thesis
  proof (cases "scan_open Opener Controller Attr (OpenList I) False False")
    case AlreadyStarted
    then show ?thesis using assms I by (simp add: open_locked_def)
  next
    case (SameOpen a)
    let ?f = "\<lambda>x. if fst x = a then (a, (snd x)\<lparr>OpenCount := OpenCount (snd x) + 1\<rparr>) else x"
    have f: "map fst (map ?f l) = map fst l" for l by (induction l) auto
    have "fst ` set (map ?f l) = fst ` set l" for l using f [of l] by (metis set_map)
    moreover have "opens_ok (I\<lparr>OpenList := map ?f (OpenList I)\<rparr>)"
      using db_invD(11) [OF inv I] by (simp add: opens_ok_def f del: map_map)
    ultimately have "db_ok inuse Z (put_interface p (I\<lparr>OpenList := map ?f (OpenList I)\<rparr>) s)"
      by (intro db_ok_interface [OF assms(2) I]) simp_all
    then show ?thesis using assms(1) I SameOpen by (simp add: open_locked_def)
  next
    case (Scanned ByDriver Exclusive)
    show ?thesis
      using assms I unfolding open_locked_def Scanned
      by (auto simp: Scanned split: if_splits; blast intro: add_open_ok disconnect_drivers_ok)
  qed
qed

lemma CoreOpenProtocol_ok:
  assumes "CoreOpenProtocol env h P Out Opener Controller Attr s = Some (r, s')" "db_ok inuse Z s"
  shows "db_ok inuse Z s'"
proof -
  consider "s' = s" | s1 p s2 where "CoreAcquireProtocolLock s = Some s1" "s2 = s1 \<or> (\<exists>Status. open_locked env h p Opener Controller Attr s1 = Some (Status, s2))"
      "CoreReleaseProtocolLock env s2 = Some s'"
    using assms(1) by (auto simp: CoreOpenProtocol_def Let_def split: option.splits if_splits)
  then show ?thesis
  proof cases
    case 2
    have "db_ok inuse Z s2" using 2(2) acquire_ok [OF 2(1) assms(2)] open_locked_ok by auto
    then show ?thesis by (rule release_ok [OF 2(3)])
  qed (simp add: assms(2))
qed

lemma CoreHandleProtocol_ok: "CoreHandleProtocol env h P Out s = Some (r, s') \<Longrightarrow> db_ok inuse Z s \<Longrightarrow> db_ok inuse Z s'"
  unfolding CoreHandleProtocol_def by (rule CoreOpenProtocol_ok)

lemma close_opens_ok:
  assumes "close_all env p which (OpenList I) s = Some s'" "db_ok inuse Z s" "interfaces s p = Some I"
  shows "db_ok inuse Z s'" "\<exists>J q. s' = (put_interface p J s)\<lparr>Rest := q\<rparr> \<and> OpenList J = filter (\<lambda>x. \<not> which (snd x)) (OpenList I) \<and>
      Handle J = Handle I \<and> Protocol J = Protocol I \<and> Interface J = Interface I"
proof -
  have "distinct (map fst (OpenList I))" using assms(2,3) db_invD(11) by (auto simp: db_ok_def opens_ok_def)
  note c = close_all_ok [OF assms(1-3) subset_refl this]
  then show "db_ok inuse Z s'" by blast
  have "filter (\<lambda>x. \<not> (x \<in> set (OpenList I) \<and> which (snd x))) (OpenList I) = filter (\<lambda>x. \<not> which (snd x)) (OpenList I)" by (rule filter_cong) auto
  then show "\<exists>J q. s' = (put_interface p J s)\<lparr>Rest := q\<rparr> \<and> OpenList J = filter (\<lambda>x. \<not> which (snd x)) (OpenList I) \<and>
      Handle J = Handle I \<and> Protocol J = Protocol I \<and> Interface J = Interface I" using c by metis
qed

lemma CoreCloseProtocol_ok:
  assumes "CoreCloseProtocol env h P Agent Controller s = Some (Status, s')" "db_ok inuse Z s"
  shows "db_ok inuse Z s'"
proof -
  show ?thesis
    using assms unfolding CoreCloseProtocol_def Let_def
    by (auto split: option.splits if_splits; blast intro: release_ok close_opens_ok(1) acquire_ok)
qed

lemma CoreDisconnectControllersUsingProtocolInterface_ok:
  assumes "CoreDisconnectControllersUsingProtocolInterface env h p s = Some (Status, s')" "db_ok inuse Z s"
  shows "db_ok inuse Z s'"
proof -
  obtain St s1 I where s: "disconnect_drivers env h p s = Some (St, s1)" "interfaces s1 p = Some I"
    using assms(1) by (auto simp: CoreDisconnectControllersUsingProtocolInterface_def)
  have o: "db_ok inuse Z s1" by (rule disconnect_drivers_ok [OF s(1) assms(2)])
  define which :: "open_data \<Rightarrow> bool" where "which = (\<lambda>d. Attributes d AND (EFI_OPEN_PROTOCOL_BY_HANDLE_PROTOCOL OR EFI_OPEN_PROTOCOL_GET_PROTOCOL OR EFI_OPEN_PROTOCOL_TEST_PROTOCOL) \<noteq> 0)"
  obtain s2 J where s2: "if EFI_ERROR St then s2 = s1 else close_all env p which (OpenList I) s1 = Some s2" "interfaces s2 p = Some J"
      "if EFI_ERROR St \<or> OpenListCount J > 0
       then \<exists>s3 s4. CoreReleaseProtocolLock env s2 = Some s3 \<and> ConnectController env h s3 = Some s4 \<and> CoreAcquireProtocolLock s4 = Some s'
       else s' = s2"
    using assms(1) s unfolding CoreDisconnectControllersUsingProtocolInterface_def which_def [symmetric] by (auto split: if_splits)
  have "db_ok inuse Z s2" using s2(1) o close_opens_ok(1) s(2) by (auto split: if_splits)
  then show ?thesis using s2(3) by (auto split: if_splits; blast intro: release_ok connected acquire_ok)
qed

section \<open>Installing\<close>

lemma rest_ok: "db_ok inuse Z s \<Longrightarrow> inuse q (owned s \<union> Z) \<Longrightarrow> db_ok inuse Z (s\<lparr>Rest := q\<rparr>)"
  by (simp add: db_ok_def memory_ok_def owned_def single_def)

lemma owned_rest [simp]: "owned (s\<lparr>Rest := q\<rparr>) = owned s"
  by (simp add: owned_def)

lemma signal_all_ok:
  assumes "signal_all env l s = Some s'" "db_ok inuse Z s"
  shows "db_ok inuse Z s'" "\<exists>q. s' = s\<lparr>Rest := q\<rparr>"
proof -
  have "db_ok inuse Z s' \<and> (\<exists>q. s' = s\<lparr>Rest := q\<rparr>)"
    using assms
  proof (induction l arbitrary: s)
    case (Cons a l)
    then obtain v q where x: "SignalEvent env v (Rest s) = Some q" "signal_all env l (s\<lparr>Rest := q\<rparr>) = Some s'" by auto
    have "inuse q (owned s \<union> Z)" by (rule pool_signals [OF x(1)]) (use Cons.prems(2) in \<open>simp add: db_ok_def memory_ok_def\<close>)
    from Cons.IH [OF x(2) rest_ok [OF Cons.prems(2) this]] show ?case by auto
  next
    case Nil
    then show ?case by (intro conjI exI [of _ "Rest s"]) simp_all
  qed
  then show "db_ok inuse Z s'" "\<exists>q. s' = s\<lparr>Rest := q\<rparr>" by blast+
qed

lemma CoreNotifyProtocolEntry_ok:
  assumes "CoreNotifyProtocolEntry env e s = Some s'" "db_ok inuse Z s"
  shows "db_ok inuse Z s'" "\<exists>q. s' = s\<lparr>Rest := q\<rparr>"
proof -
  obtain l where "signal_all env l s = Some s'" using assms(1) by (auto simp: CoreNotifyProtocolEntry_def)
  from signal_all_ok [OF this assms(2)] show "db_ok inuse Z s'" "\<exists>q. s' = s\<lparr>Rest := q\<rparr>" .
qed

lemma handle_for_ok:
  assumes "handle_for env h s = Some (h', t)" "memory_ok inuse Z s"
  shows "memory_ok inuse Z t"
    "t = s \<and> h' = h \<and> h \<noteq> 0 \<or> h' = 0 \<and> (\<exists>q. t = s\<lparr>Rest := q\<rparr>) \<or>
     h' \<noteq> 0 \<and> ihandles s h' = None \<and> (\<exists>q k. t = (put_handle h' \<lparr>Protocols = [], LocateRequest = 0, Key = k\<rparr> s)
       \<lparr>gHandleDatabaseKey := k, gHandleList := gHandleList s @ [h'], Rest := q\<rparr>)"
proof -
  have "memory_ok inuse Z t \<and> (t = s \<and> h' = h \<and> h \<noteq> 0 \<or> h' = 0 \<and> (\<exists>q. t = s\<lparr>Rest := q\<rparr>) \<or>
     h' \<noteq> 0 \<and> ihandles s h' = None \<and> (\<exists>q k. t = (put_handle h' \<lparr>Protocols = [], LocateRequest = 0, Key = k\<rparr> s)
       \<lparr>gHandleDatabaseKey := k, gHandleList := gHandleList s @ [h'], Rest := q\<rparr>))"
  proof (cases "h = 0")
    case False
    then show ?thesis using assms by (simp add: handle_for_def)
  next
    case True
    then obtain s1 where s1: "AllocatePool env SIZE_OF_IHANDLE s = Some (h', s1)"
      using assms(1) by (auto simp: handle_for_def Let_def split: if_splits)
    have n: "unat SIZE_OF_IHANDLE < 2 ^ 63" by simp
    note a = memory_alloc [OF s1 assms(2) n]
    obtain q where q: "s1 = s\<lparr>Rest := q\<rparr>" using a(1) by blast
    show ?thesis
    proof (cases "h' = 0")
      case h: True
      then show ?thesis using True s1 assms(1) a(2) q by (auto simp: handle_for_def)
    next
      case h: False
      let ?k = "gHandleDatabaseKey s + 1"
      have t: "t = (put_handle h' \<lparr>Protocols = [], LocateRequest = 0, Key = ?k\<rparr> s)\<lparr>gHandleDatabaseKey := ?k, gHandleList := gHandleList s @ [h'], Rest := q\<rparr>"
        using True h s1 assms(1) q by (auto simp: handle_for_def Let_def put_handle_def intro!: hdb.equality)
      have f: "h' \<notin> Z" "h' \<notin> owned s" "memory_ok inuse (insert h' Z) s1" using a(2) h by simp_all
      have "\<not> stands s h' AHandle" using f(2) unfolding owned_def by blast
      then have i: "ihandles s h' = None" by simp
      have "stands t b l \<longleftrightarrow> stands s1 b l \<or> b = h' \<and> l = AHandle" for b l by (cases l) (auto simp: t q put_handle_def)
      then have "memory_ok inuse Z t" using memory_link [OF f(3,1), of t AHandle] by (simp add: t q put_handle_def)
      then show ?thesis using t i h by blast
    qed
  qed
  then show "memory_ok inuse Z t"
    "t = s \<and> h' = h \<and> h \<noteq> 0 \<or> h' = 0 \<and> (\<exists>q. t = s\<lparr>Rest := q\<rparr>) \<or>
     h' \<noteq> 0 \<and> ihandles s h' = None \<and> (\<exists>q k. t = (put_handle h' \<lparr>Protocols = [], LocateRequest = 0, Key = k\<rparr> s)
       \<lparr>gHandleDatabaseKey := k, gHandleList := gHandleList s @ [h'], Rest := q\<rparr>)" by blast+
qed

text \<open>On failure the interface that has been allocated is still held.\<close>

lemma install_locked_ok:
  assumes "install_locked env e h P I Tell s = Some ((Status, p, h'), s')" "db_ok inuse Z s"
  shows "if EFI_ERROR Status \<and> p \<noteq> 0 then p \<notin> Z \<and> db_ok inuse (insert p Z) s' else db_ok inuse Z s'"
proof -
  obtain p0 s1 where a: "AllocatePool env SIZE_OF_PROTOCOL_INTERFACE s = Some (p0, s1)" using assms(1) by (auto simp: install_locked_def)
  note k = alloc_ok [OF a assms(2), simplified]
  obtain q where q: "s1 = s\<lparr>Rest := q\<rparr>" using k(1) by blast
  show ?thesis
  proof (cases "p0 = 0")
    case True
    then show ?thesis using assms(1) a k(2) by (auto simp: install_locked_def)
  next
    case p0: False
    then have f: "p0 \<notin> Z" "p0 \<notin> owned s" "db_ok inuse (insert p0 Z) s1" using k(2) by simp_all
    obtain h0 t where t: "handle_for env h s1 = Some (h0, t)" using assms(1) a p0 by (auto simp: install_locked_def)
    have "memory_ok inuse (insert p0 Z) s1" using f(3) by (simp add: db_ok_def)
    note m = handle_for_ok [OF t this]
    show ?thesis
    proof (cases "h0 = 0 \<or> EFI_ERROR (CoreValidateHandle h0 t)")
      case True
      then have p: "p = p0" "s' = t" "EFI_ERROR Status" using assms(1) a p0 t by (auto simp: install_locked_def split: if_splits)
      have "db_inv t" using m(2) True f(3) by (auto simp: db_ok_def CoreValidateHandle_def put_handle_def)
      then show ?thesis using p p0 f(1) m(1) by (simp add: db_ok_def)
    next
      case False
      obtain H E where HE: "ihandles t h0 = Some H" "entries t e = Some E" "p = p0" "Status = EFI_SUCCESS"
        "(if Tell then CoreNotifyProtocolEntry env e else Some)
           (put_entry e (E\<lparr>ByProtocol := ByProtocol E @ [p0]\<rparr>) (put_handle h0 (H\<lparr>Protocols := p0 # Protocols H\<rparr>)
             (put_interface p0 \<lparr>Handle = h0, Protocol = e, Interface = I, OpenList = [], OpenListCount = 0\<rparr> t))) = Some s'"
        using assms(1) a p0 t False by (auto simp: install_locked_def Let_def split: if_splits)
      let ?I = "\<lparr>Handle = h0, Protocol = e, Interface = I, OpenList = [], OpenListCount = 0\<rparr>"
      let ?s = "put_entry e (E\<lparr>ByProtocol := ByProtocol E @ [p0]\<rparr>) (put_handle h0 (H\<lparr>Protocols := p0 # Protocols H\<rparr>) (put_interface p0 ?I t))"
      have "\<not> stands s p0 AnInterface" using f(2) unfolding owned_def by blast
      then have i: "interfaces s1 p0 = None" by (simp add: q)
      have t': "interfaces t = interfaces s1" "entries t = entries s1" "notifies t = notifies s1" "mProtocolDatabase t = mProtocolDatabase s1"
        using m(2) by (auto simp: put_handle_def)
      have h: "ihandles s1 h0 = Some H \<and> gHandleList t = gHandleList s1 \<or> ihandles s1 h0 = None \<and> Protocols H = [] \<and> gHandleList t = gHandleList s1 @ [h0] \<and> h0 \<noteq> 0"
        using m(2) HE(1) False by (auto simp: put_handle_def)
      have ih: "(ihandles t)(h0 \<mapsto> H\<lparr>Protocols := p0 # Protocols H\<rparr>) = (ihandles s1)(h0 \<mapsto> H\<lparr>Protocols := p0 # Protocols H\<rparr>)"
        using m(2) by (auto simp: put_handle_def)
      have e: "entries s1 e = Some E" using HE(2) t'(2) by simp
      have "opens_ok ?I" by (simp add: opens_ok_def)
      moreover have "db_inv s1" using f(3) by (simp add: db_ok_def)
      ultimately have "db_inv ?s"
        using links_install [where IF = "interfaces s1" and IH = "ihandles s1" and EN = "entries s1" and N = "notifies s1" and hl = "gHandleList s1"
            and el = "mProtocolDatabase s1" and hl' = "gHandleList t" and I = ?I and H' = "H\<lparr>Protocols := p0 # Protocols H\<rparr>", OF _ i p0 e _ _ _ h]
        by (simp add: db_inv_def put_entry_def put_handle_def put_interface_def t' ih)
      moreover have "stands ?s b l \<longleftrightarrow> stands t b l \<or> b = p0 \<and> l = AnInterface" for b l
        using i HE(1,2) by (cases l) (auto simp: put_entry_def put_handle_def put_interface_def t'(1))
      then have "memory_ok inuse Z ?s" using memory_link [OF m(1) f(1), of ?s AnInterface] by (simp add: put_entry_def put_handle_def put_interface_def)
      ultimately have "db_ok inuse Z ?s" by (simp add: db_ok_def)
      then have "db_ok inuse Z s'" using HE(5) CoreNotifyProtocolEntry_ok(1) by (auto split: if_splits)
      then show ?thesis using HE(4) by simp
    qed
  qed
qed

lemma CoreInstallProtocolInterfaceNotify_ok:
  assumes "CoreInstallProtocolInterfaceNotify env UserHandle P T I Tell s = Some (r, s')" "db_ok inuse Z s"
  shows "db_ok inuse Z s'"
proof (cases "UserHandle = None \<or> P = None \<or> T \<noteq> 0")
  case True
  then show ?thesis using assms by (auto simp: CoreInstallProtocolInterfaceNotify_def split: option.splits)
next
  case False
  then obtain h P' where g: "UserHandle = Some h" "P = Some P'" "T = 0" by auto
  obtain St s1 where s1: "if h \<noteq> 0 then \<exists>x. CoreHandleProtocol env h P True s = Some ((St, x), s1) else St = EFI_OUT_OF_RESOURCES \<and> s1 = s"
    using assms(1) g by (auto simp: CoreInstallProtocolInterfaceNotify_def split: if_splits)
  have o1: "db_ok inuse Z s1" using s1 assms(2) CoreHandleProtocol_ok by (auto split: if_splits)
  show ?thesis
  proof (cases "h \<noteq> 0 \<and> \<not> EFI_ERROR St")
    case True
    then show ?thesis using assms(1) s1 g o1 by (auto simp: CoreInstallProtocolInterfaceNotify_def)
  next
    case False
    obtain s2 e s3 where s: "CoreAcquireProtocolLock s1 = Some s2" "CoreFindProtocolEntry env P' True s2 = Some (e, s3)"
      using assms(1) s1 g False by (auto simp: CoreInstallProtocolInterfaceNotify_def split: if_splits)
    obtain St2 p h' s4 s5 where s': 
       "if e = 0 then (St2, p, h') = (St, 0, 0) \<and> s4 = s3 else install_locked env e h P' I Tell s3 = Some ((St2, p, h'), s4)"
       "CoreReleaseProtocolLock env s4 = Some s5" "if EFI_ERROR St2 \<and> p \<noteq> 0 then FreePool env p s5 = Some s' else s' = s5"
      using assms(1) s1 g False s by (cases "e = 0") (auto simp: CoreInstallProtocolInterfaceNotify_def split: if_splits)
    have o3: "db_ok inuse Z s3" by (rule find_entry_ok(1) [OF s(2) acquire_ok [OF s(1) o1]])
    have o4: "if EFI_ERROR St2 \<and> p \<noteq> 0 then p \<notin> Z \<and> db_ok inuse (insert p Z) s4 else db_ok inuse Z s4"
    proof (cases "e = 0")
      case True
      then show ?thesis using s'(1) o3 by auto
    next
      case False
      then show ?thesis using s'(1) install_locked_ok [OF _ o3] by (auto split: if_splits)
    qed
    show ?thesis
    proof (cases "EFI_ERROR St2 \<and> p \<noteq> 0")
      case True
      then show ?thesis using o4 s'(3) free_ok(2) release_ok [OF s'(2)] by auto
    next
      case False
      then have "db_ok inuse Z s4" "s' = s5" using o4 s'(3) by (simp_all split: if_splits)
      then show ?thesis using release_ok [OF s'(2)] by simp
    qed
  qed
qed

end

end
