(* ===== verification/HandleDrop.thy ===== *)
theory HandleDrop
  imports HandleSafe
begin

text \<open>
  Every service keeps a well-formed handle database well formed: uninstalling, reinstalling, registrations and queries.
\<close>

section \<open>Taking an interface off its protocol\<close>

lemma back_up_result:
  assumes "distinct l" "set l \<subseteq> dom (notifies s)"
  shows "back_up p k l s = Some (s\<lparr>notifies := \<lambda>n. if n \<in> set l
    then map_option (\<lambda>x. if Position x = Link p then x\<lparr>Position := k\<rparr> else x) (notifies s n) else notifies s n\<rparr>)"
  using assms
proof (induction l arbitrary: s)
  case (Cons a l)
  obtain x where x: "notifies s a = Some x" using Cons.prems by auto
  let ?s = "if Position x = Link p then put_notify a (x\<lparr>Position := k\<rparr>) s else s"
  have "set l \<subseteq> dom (notifies ?s)" using Cons.prems(2) by (auto simp: put_notify_def)
  from Cons.IH [OF _ this] have "back_up p k (a # l) s = Some (?s\<lparr>notifies := \<lambda>n. if n \<in> set l
      then map_option (\<lambda>x. if Position x = Link p then x\<lparr>Position := k\<rparr> else x) (notifies ?s n) else notifies ?s n\<rparr>)"
    using Cons.prems(1) x by simp
  also have "\<dots> = Some (s\<lparr>notifies := \<lambda>n. if n \<in> set (a # l)
      then map_option (\<lambda>x. if Position x = Link p then x\<lparr>Position := k\<rparr> else x) (notifies s n) else notifies s n\<rparr>)"
    using Cons.prems(1) x by (auto simp: put_notify_def fun_eq_iff intro!: hdb.equality)
  finally show ?case .
qed simp

lemma back_up_moves:
  assumes "db_inv s" "entries s e = Some E"
  shows "back_up p k (Notify E) s = Some (s\<lparr>notifies := moved_back e p k (notifies s)\<rparr>)"
proof -
  have d: "distinct (Notify E)" "set (Notify E) \<subseteq> dom (notifies s)" using entry_lists(3,4) [OF assms] by auto
  have "(if n \<in> set (Notify E) then map_option (\<lambda>x. if Position x = Link p then x\<lparr>Position := k\<rparr> else x) (notifies s n) else notifies s n) =
    moved_back e p k (notifies s) n" for n
    using entry_lists(3) [OF assms, of n] by (cases "notifies s n") (auto simp: moved_back_def)
  then show ?thesis using back_up_result [OF d, of p k] by simp
qed

lemma remove_result:
  assumes "CoreRemoveInterfaceFromProtocol env h P I s = Some (p, s')" "db_inv s"
  shows "p = 0 \<and> s' = s \<or> (\<exists>J E H. p \<noteq> 0 \<and> installs s p h P I \<and> interfaces s p = Some J \<and> Handle J = h \<and> Interface J = I \<and>
    entries s (Protocol J) = Some E \<and> ProtocolID E = P \<and> ihandles s h = Some H \<and>
    s' = put_entry (Protocol J) (E\<lparr>ByProtocol := remove1 p (ByProtocol E)\<rparr>)
      (s\<lparr>notifies := moved_back (Protocol J) p (link_before ListHead (ByProtocol E) p) (notifies s)\<rparr>))"
proof -
  have L: "gProtocolDatabaseLock s" and f: "CoreFindProtocolInterface env h P I s = Some p"
    using assms(1) by (auto simp: CoreRemoveInterfaceFromProtocol_def split: if_splits)
  show ?thesis
  proof (cases "p = 0")
    case True
    then show ?thesis using assms(1) L f by (simp add: CoreRemoveInterfaceFromProtocol_def)
  next
    case False
    obtain H where H: "ihandles s h = Some H" using f False by (auto simp: CoreFindProtocolInterface_def split: if_splits)
    have "installs s p h P I" using CoreFindProtocolInterface_result [OF assms(2) L H, of env P I] f False by auto
    then obtain J E where J: "interfaces s p = Some J" "Handle J = h" "Interface J = I" "entries s (Protocol J) = Some E" "ProtocolID E = P"
      by (auto simp: installs_def)
    have "s' = put_entry (Protocol J) (E\<lparr>ByProtocol := remove1 p (ByProtocol E)\<rparr>)
      (s\<lparr>notifies := moved_back (Protocol J) p (link_before ListHead (ByProtocol E) p) (notifies s)\<rparr>)"
      using assms(1) L f False J back_up_moves [OF assms(2) J(4)] by (simp add: CoreRemoveInterfaceFromProtocol_def put_entry_def)
    then show ?thesis using False J H \<open>installs s p h P I\<close> by blast
  qed
qed

context database_clients
begin

lemma uninstall_locked_ok:
  assumes "CoreRemoveInterfaceFromProtocol env h P I s = Some (p, s1)" "(if p \<noteq> 0 then drop_interface env h p s1 else Some s1) = Some s2"
    and "drop_handle env h s2 = Some s'" "db_ok inuse Z s"
  shows "db_ok inuse Z s'"
proof -
  have inv: "db_inv s" and mem: "memory_ok inuse Z s" using assms(4) by (simp_all add: db_ok_def)
  consider "p = 0" "s1 = s" | J E H where "p \<noteq> 0" "interfaces s p = Some J" "Handle J = h" "entries s (Protocol J) = Some E" "ihandles s h = Some H"
    "s1 = put_entry (Protocol J) (E\<lparr>ByProtocol := remove1 p (ByProtocol E)\<rparr>)
      (s\<lparr>notifies := moved_back (Protocol J) p (link_before ListHead (ByProtocol E) p) (notifies s)\<rparr>)"
    using remove_result [OF assms(1) inv] by auto
  then show ?thesis
  proof cases
    case 1
    then have "Protocols H \<noteq> []" if "ihandles s h = Some H" for H using handle_protocols(3) [OF inv that] by simp
    then show ?thesis using 1 assms(2-4) by (auto simp: drop_handle_def split: if_splits)
  next
    case 2
    let ?k = "gHandleDatabaseKey s + 1"
    let ?H = "H\<lparr>Key := ?k, Protocols := remove1 p (Protocols H)\<rparr>"
    let ?t = "(put_handle h ?H (s1\<lparr>gHandleDatabaseKey := ?k\<rparr>))\<lparr>interfaces := (interfaces s)(p := None)\<rparr>"
    have t: "FreePool env p ?t = Some s2" using 2 assms(2) by (simp add: drop_interface_def Let_def put_entry_def put_handle_def)
    have u: "stands ?t b l \<Longrightarrow> stands s b l \<and> b \<noteq> p" for b l
    proof -
      assume h: "stands ?t b l"
      have i: "stands s p AnInterface" using 2(2) by simp
      have "stands s b l" using h 2 by (cases l) (auto simp: put_entry_def put_handle_def moved_back_def split: if_splits)
      moreover have "\<not> stands ?t p AnInterface" by simp
      ultimately show "stands s b l \<and> b \<noteq> p" using h i mem unfolding memory_ok_def single_def by metis
    qed
    have r: "Rest ?t = Rest s" using 2 by (simp add: put_entry_def put_handle_def)
    have "stands s p AnInterface" using 2(2) by simp
    note m1 = memory_unlink [OF mem this u r]
    note m2 = memory_free [OF t m1]
    obtain q where q: "s2 = ?t\<lparr>Rest := q\<rparr>" using m2(1) by blast
    let ?l = "links_ok (gHandleList s) (mProtocolDatabase s) (ihandles s) (entries s) (interfaces s) (notifies s)"
    have l: ?l using inv by (simp add: db_inv_def)
    have H': "Protocols ?H = remove1 p (Protocols H)" by simp
    have hJ: "ihandles s (Handle J) = Some H" using 2 by simp
    note lr = links_remove [OF l 2(2) hJ 2(4) H']
    have f: "ihandles s2 h = Some ?H" by (simp add: q put_handle_def)
    show ?thesis
    proof (cases "Protocols ?H = []")
      case False
      then have "s' = s2" using assms(3) f by (simp add: drop_handle_def)
      moreover have "db_inv s2" using lr [of "(ihandles s)(h \<mapsto> ?H)" "gHandleList s"] False 2 q by (simp add: db_inv_def put_entry_def put_handle_def)
      ultimately show ?thesis using m2(2) by (simp add: db_ok_def)
    next
      case True
      let ?v = "s2\<lparr>ihandles := (ihandles s2)(h := None), gHandleList := remove1 h (gHandleList s2)\<rparr>"
      have v: "FreePool env h ?v = Some s'" using assms(3) f True by (simp add: drop_handle_def)
      have u2: "stands ?v b l \<Longrightarrow> stands s2 b l \<and> b \<noteq> h" for b l
      proof -
        assume h: "stands ?v b l"
        have i: "stands s2 h AHandle" using f by simp
        have "stands s2 b l" using h by (cases l) (auto split: if_splits)
        moreover have "\<not> stands ?v h AHandle" by simp
        ultimately show "stands s2 b l \<and> b \<noteq> h" using h i m2(2) unfolding memory_ok_def single_def by metis
      qed
      have r2: "Rest ?v = Rest s2" "stands s2 h AHandle" using f by simp_all
      note m3 = memory_unlink [OF m2(2) r2(2) u2 r2(1)]
      note m4 = memory_free [OF v m3]
      obtain q' where q': "s' = ?v\<lparr>Rest := q'\<rparr>" using m4(1) by blast
      have "db_inv s'" using lr [of "(ihandles s)(h := None)" "remove1 h (gHandleList s)"] True 2 q q' by (simp add: db_inv_def put_entry_def put_handle_def)
      then show ?thesis using m4(2) by (simp add: db_ok_def)
    qed
  qed
qed

lemma CoreUninstallProtocolInterface_ok:
  assumes "CoreUninstallProtocolInterface env h P I s = Some (Status, s')" "db_ok inuse Z s"
  shows "db_ok inuse Z s'"
proof (cases "P = None \<or> EFI_ERROR (CoreValidateHandle h s)")
  case True
  then show ?thesis using assms by (auto simp: CoreUninstallProtocolInterface_def split: option.splits if_splits)
next
  case False
  then obtain P' where P: "P = Some P'" by auto
  obtain s1 p where s1: "CoreAcquireProtocolLock s = Some s1" "CoreFindProtocolInterface env h P' I s1 = Some p"
    using assms(1) P False by (auto simp: CoreUninstallProtocolInterface_def)
  have o1: "db_ok inuse Z s1" by (rule acquire_ok [OF s1(1) assms(2)])
  show ?thesis
  proof (cases "p = 0")
    case True
    then show ?thesis using assms(1) P False s1 release_ok [OF _ o1] by (auto simp: CoreUninstallProtocolInterface_def)
  next
    case p: False
    then obtain St s2 where s2: "CoreDisconnectControllersUsingProtocolInterface env h p s1 = Some (St, s2)"
      using assms(1) P False s1 by (auto simp: CoreUninstallProtocolInterface_def)
    have o2: "db_ok inuse Z s2" by (rule CoreDisconnectControllersUsingProtocolInterface_ok [OF s2 o1])
    show ?thesis
    proof (cases "EFI_ERROR St")
      case True
      then show ?thesis using assms(1) P False s1 p s2 release_ok [OF _ o2] by (auto simp: CoreUninstallProtocolInterface_def)
    next
      case St: False
      obtain p' s3 s4 s5 where s3: "CoreRemoveInterfaceFromProtocol env h P' I s2 = Some (p', s3)"
          "(if p' \<noteq> 0 then drop_interface env h p' s3 else Some s3) = Some s4" "drop_handle env h s4 = Some s5"
          "CoreReleaseProtocolLock env s5 = Some s'"
        using assms(1) P False s1 p s2 St by (auto simp: CoreUninstallProtocolInterface_def)
      show ?thesis by (rule release_ok [OF s3(4) uninstall_locked_ok [OF s3(1-3) o2]])
    qed
  qed
qed

section \<open>Reinstalling\<close>

lemma moved_back_dom: "moved_back e p k N n = None \<longleftrightarrow> N n = None"
  by (simp add: moved_back_def)

lemma reinstall_locked_ok:
  assumes "reinstall_locked env h P Old New s = Some (Status, s')" "db_ok inuse Z s"
  shows "db_ok inuse Z s'"
proof -
  obtain p s1 where p: "CoreRemoveInterfaceFromProtocol env h P Old s = Some (p, s1)" using assms(1) by (auto simp: reinstall_locked_def)
  have inv: "db_inv s" and mem: "memory_ok inuse Z s" using assms(2) by (simp_all add: db_ok_def)
  from remove_result [OF p inv]
  consider "p = 0" "s1 = s" | J E H where "p \<noteq> 0" "interfaces s p = Some J" "Handle J = h" "entries s (Protocol J) = Some E" "ihandles s h = Some H"
    "s1 = put_entry (Protocol J) (E\<lparr>ByProtocol := remove1 p (ByProtocol E)\<rparr>)
      (s\<lparr>notifies := moved_back (Protocol J) p (link_before ListHead (ByProtocol E) p) (notifies s)\<rparr>)" by auto
  then show ?thesis
  proof cases
    case 1
    then show ?thesis using assms p by (simp add: reinstall_locked_def)
  next
    case 2
    let ?k = "gHandleDatabaseKey s + 1"
    let ?E = "E\<lparr>ByProtocol := remove1 p (ByProtocol E) @ [p]\<rparr>"
    let ?a = "put_entry (Protocol J) ?E (put_interface p (J\<lparr>Interface := New\<rparr>) s1)"
    let ?t = "put_handle h (H\<lparr>Key := ?k\<rparr>) (?a\<lparr>gHandleDatabaseKey := ?k\<rparr>)"
    obtain s2 s3 s4 where s: "CoreReleaseProtocolLock env ?t = Some s2" "ConnectController env h s2 = Some s3" "CoreAcquireProtocolLock s3 = Some s4"
        "CoreNotifyProtocolEntry env (Protocol J) s4 = Some s'"
      using assms(1) p 2 by (auto simp: reinstall_locked_def Let_def put_entry_def put_handle_def put_interface_def)
    have "links_ok (gHandleList s) (mProtocolDatabase s) (ihandles s) (entries s) (interfaces s) (notifies s)" using inv by (simp add: db_inv_def)
    from links_reinstall [OF this 2(2,4), of New] have "db_inv ?a" by (simp add: db_inv_def put_entry_def put_interface_def 2(6))
    moreover have "stands ?a b l = stands s b l" for b l
      using 2 by (cases l) (auto simp: put_entry_def put_interface_def moved_back_dom)
    then have "stands ?a = stands s" by (intro ext)
    then have "memory_ok inuse Z ?a" using memory_same [OF mem] 2 by (simp add: put_entry_def put_interface_def)
    ultimately have "db_ok inuse Z ?a" by (simp add: db_ok_def)
    then have "db_ok inuse Z (?a\<lparr>gHandleDatabaseKey := ?k\<rparr>)" by simp
    moreover have "ihandles (?a\<lparr>gHandleDatabaseKey := ?k\<rparr>) h = Some H" using 2 by (simp add: put_entry_def put_interface_def)
    ultimately have t: "db_ok inuse Z ?t" by (rule db_ok_handle) simp
    show ?thesis by (rule CoreNotifyProtocolEntry_ok(1) [OF s(4) acquire_ok [OF s(3) connected [OF s(2) release_ok [OF s(1) t]]]])
  qed
qed

lemma CoreReinstallProtocolInterface_ok:
  assumes "CoreReinstallProtocolInterface env h P Old New s = Some (Status, s')" "db_ok inuse Z s"
  shows "db_ok inuse Z s'"
proof (cases "P = None \<or> EFI_ERROR (CoreValidateHandle h s)")
  case True
  then show ?thesis using assms by (auto simp: CoreReinstallProtocolInterface_def split: option.splits if_splits)
next
  case False
  then obtain P' where P: "P = Some P'" by auto
  obtain s1 p where s1: "CoreAcquireProtocolLock s = Some s1" "CoreFindProtocolInterface env h P' Old s1 = Some p"
    using assms(1) P False by (auto simp: CoreReinstallProtocolInterface_def)
  have o1: "db_ok inuse Z s1" by (rule acquire_ok [OF s1(1) assms(2)])
  show ?thesis
  proof (cases "p = 0")
    case True
    then show ?thesis using assms(1) P False s1 release_ok [OF _ o1] by (auto simp: CoreReinstallProtocolInterface_def)
  next
    case p: False
    then obtain St s2 where s2: "CoreDisconnectControllersUsingProtocolInterface env h p s1 = Some (St, s2)"
      using assms(1) P False s1 by (auto simp: CoreReinstallProtocolInterface_def)
    have o2: "db_ok inuse Z s2" by (rule CoreDisconnectControllersUsingProtocolInterface_ok [OF s2 o1])
    show ?thesis
    proof (cases "EFI_ERROR St")
      case True
      then show ?thesis using assms(1) P False s1 p s2 release_ok [OF _ o2] by (auto simp: CoreReinstallProtocolInterface_def)
    next
      case St: False
      obtain St' s3 where s3: "reinstall_locked env h P' Old New s2 = Some (St', s3)" "CoreReleaseProtocolLock env s3 = Some s'"
        using assms(1) P False s1 p s2 St by (auto simp: CoreReinstallProtocolInterface_def)
      show ?thesis by (rule release_ok [OF s3(2) reinstall_locked_ok [OF s3(1) o2]])
    qed
  qed
qed

end

section \<open>Registrations\<close>

context database_clients
begin

lemma CoreRegisterProtocolNotify_ok:
  assumes "CoreRegisterProtocolNotify env P Ev Out s = Some (r, s')" "db_ok inuse Z s"
  shows "db_ok inuse Z s'"
proof (cases "P = None \<or> Ev = 0 \<or> \<not> Out")
  case True
  then show ?thesis using assms by (auto simp: CoreRegisterProtocolNotify_def split: option.splits)
next
  case False
  then obtain P' where P: "P = Some P'" "Ev \<noteq> 0" Out by auto
  obtain s1 e s2 where s1: "CoreAcquireProtocolLock s = Some s1" "CoreFindProtocolEntry env P' True s1 = Some (e, s2)"
    using assms(1) P by (auto simp: CoreRegisterProtocolNotify_def)
  note f = find_entry_ok [OF s1(2) acquire_ok [OF s1(1) assms(2)]]
  show ?thesis
  proof (cases "e = 0")
    case True
    then show ?thesis using assms(1) P s1 f(1) release_ok by (auto simp: CoreRegisterProtocolNotify_def)
  next
    case e: False
    then obtain n s3 where s3: "AllocatePool env SIZE_OF_PROTOCOL_NOTIFY s2 = Some (n, s3)"
      using assms(1) P s1 by (auto simp: CoreRegisterProtocolNotify_def)
    note k = alloc_ok [OF s3 f(1), simplified]
    obtain q where q: "s3 = s2\<lparr>Rest := q\<rparr>" using k(1) by blast
    show ?thesis
    proof (cases "n = 0")
      case True
      then show ?thesis using assms(1) P s1 s3 e k(2) release_ok by (auto simp: CoreRegisterProtocolNotify_def)
    next
      case n: False
      then have a: "n \<notin> Z" "n \<notin> owned s2" "db_ok inuse (insert n Z) s3" using k(2) by simp_all
      obtain E where E: "entries s3 e = Some E" using f(2) e q by auto
      let ?x = "\<lparr>NotifyProtocol = e, Event = Ev, Position = ListHead\<rparr>"
      let ?t = "put_entry e (E\<lparr>Notify := Notify E @ [n]\<rparr>) (put_notify n ?x s3)"
      have r: "CoreReleaseProtocolLock env ?t = Some s'"
        using assms(1) P s1 s3 e n E by (auto simp: CoreRegisterProtocolNotify_def Let_def)
      have "\<not> stands s2 n ANotify" using a(2) unfolding owned_def by blast
      then have i: "notifies s3 n = None" by (simp add: q)
      have "db_inv s3" using a(3) by (simp add: db_ok_def)
      then have "links_ok (gHandleList s3) (mProtocolDatabase s3) (ihandles s3) (entries s3) (interfaces s3) (notifies s3)" by (simp add: db_inv_def)
      from links_register [OF this i n E, of ?x] have "db_inv ?t" by (simp add: db_inv_def put_entry_def put_notify_def)
      moreover have "stands ?t b l \<longleftrightarrow> stands s3 b l \<or> b = n \<and> l = ANotify" for b l
        using i E by (cases l) (auto simp: put_entry_def put_notify_def)
      then have "memory_ok inuse Z ?t" using memory_link [of inuse n Z s3 ?t ANotify] a(1,3) by (simp add: db_ok_def put_entry_def put_notify_def)
      ultimately show ?thesis using release_ok [OF r] by (simp add: db_ok_def)
    qed
  qed
qed

lemma find_notify_result:
  assumes "set l \<subseteq> dom (notifies s)" "0 \<notin> set l"
  shows "\<exists>n. find_notify Ev l s = Some n \<and> (n = 0 \<longrightarrow> (\<forall>m\<in>set l. \<forall>x. notifies s m = Some x \<longrightarrow> Event x \<noteq> Ev)) \<and>
    (n \<noteq> 0 \<longrightarrow> n \<in> set l \<and> (\<exists>x. notifies s n = Some x \<and> Event x = Ev))"
  using assms
proof (induction l)
  case (Cons a l)
  obtain x where x: "notifies s a = Some x" "a \<noteq> 0" using Cons.prems by auto
  show ?case using Cons x by (cases "Event x = Ev") auto
qed simp

lemma find_registration_result:
  assumes "db_inv s" "set l \<subseteq> dom (entries s)"
  shows "\<exists>e n. find_registration Ev l s = Some (e, n) \<and>
    (n = 0 \<longrightarrow> (\<forall>e\<in>set l. \<forall>m x. notifies s m = Some x \<longrightarrow> NotifyProtocol x = e \<longrightarrow> Event x \<noteq> Ev)) \<and>
    (n \<noteq> 0 \<longrightarrow> (\<exists>x. notifies s n = Some x \<and> NotifyProtocol x = e \<and> Event x = Ev))"
  using assms(2)
proof (induction l)
  case (Cons a l)
  obtain E where E: "entries s a = Some E" using Cons.prems by auto
  have d: "set (Notify E) \<subseteq> dom (notifies s)" "0 \<notin> set (Notify E)" using entry_lists(3) [OF assms(1) E] db_invD(12) [OF assms(1)] by auto
  obtain n where n: "find_notify Ev (Notify E) s = Some n" "n = 0 \<longrightarrow> (\<forall>m\<in>set (Notify E). \<forall>x. notifies s m = Some x \<longrightarrow> Event x \<noteq> Ev)"
    "n \<noteq> 0 \<longrightarrow> n \<in> set (Notify E) \<and> (\<exists>x. notifies s n = Some x \<and> Event x = Ev)" using find_notify_result [OF d, of Ev] by blast
  show ?case
  proof (cases "n = 0")
    case True
    then have "Event x \<noteq> Ev" if "notifies s m = Some x" "NotifyProtocol x = a" for m x
      using n(2) that entry_lists(3) [OF assms(1) E] by blast
    then show ?thesis using Cons E n(1) True by auto
  next
    case False
    then have "\<exists>x. notifies s n = Some x \<and> NotifyProtocol x = a \<and> Event x = Ev" using n(3) entry_lists(3) [OF assms(1) E, of n] by auto
    then show ?thesis using E n(1) False by simp
  qed
qed simp

lemma CoreUnregisterProtocolNotifyEvent_ok:
  assumes "CoreUnregisterProtocolNotifyEvent env Ev s = Some (Status, s')" "db_ok inuse Z s"
  shows "db_ok inuse Z s'"
proof -
  obtain s1 e n where s1: "CoreAcquireProtocolLock s = Some s1" "find_registration Ev (mProtocolDatabase s1) s1 = Some (e, n)"
    using assms(1) by (auto simp: CoreUnregisterProtocolNotifyEvent_def)
  have o: "db_ok inuse Z s1" by (rule acquire_ok [OF s1(1) assms(2)])
  then have inv: "db_inv s1" and mem: "memory_ok inuse Z s1" by (simp_all add: db_ok_def)
  show ?thesis
  proof (cases "n = 0")
    case True
    then show ?thesis using assms(1) s1 release_ok o by (auto simp: CoreUnregisterProtocolNotifyEvent_def)
  next
    case False
    have "set (mProtocolDatabase s1) \<subseteq> dom (entries s1)" using db_invD(4) [OF inv] by simp
    then obtain x where x: "notifies s1 n = Some x" "NotifyProtocol x = e"
      using find_registration_result [OF inv, of "mProtocolDatabase s1" Ev] s1(2) False by auto
    obtain E where E: "entries s1 e = Some E" using db_invD(13) [OF inv x(1)] x(2) by auto
    let ?t = "(put_entry e (E\<lparr>Notify := remove1 n (Notify E)\<rparr>) s1)\<lparr>notifies := (notifies s1)(n := None)\<rparr>"
    obtain s2 where s2: "FreePool env n ?t = Some s2" "CoreReleaseProtocolLock env s2 = Some s'"
      using assms(1) s1 False E by (auto simp: CoreUnregisterProtocolNotifyEvent_def Let_def put_entry_def)
    have "links_ok (gHandleList s1) (mProtocolDatabase s1) (ihandles s1) (entries s1) (interfaces s1) (notifies s1)" using inv by (simp add: db_inv_def)
    from links_unregister [OF this x(1)] have i: "db_inv ?t" using E x(2) by (simp add: db_inv_def put_entry_def)
    have n: "stands s1 n ANotify" using x(1) by simp
    have u: "stands ?t b l \<Longrightarrow> stands s1 b l \<and> b \<noteq> n" for b l
    proof -
      assume h: "stands ?t b l"
      have "stands s1 b l" using h E by (cases l) (auto simp: put_entry_def split: if_splits)
      moreover have "\<not> stands ?t n ANotify" by simp
      ultimately show "stands s1 b l \<and> b \<noteq> n" using h n mem unfolding memory_ok_def single_def by metis
    qed
    have r: "Rest ?t = Rest s1" by (simp add: put_entry_def)
    note m = memory_unlink [OF mem n u r]
    have "db_ok inuse (insert n Z) ?t" using i m(1) by (simp add: db_ok_def)
    from free_ok(2) [OF s2(1) this m(2)] show ?thesis by (rule release_ok [OF s2(2)])
  qed
qed

lemma CoreUnregisterProtocolNotify_ok:
  assumes "CoreUnregisterProtocolNotify env Ev s = Some (Status, s')" "db_ok inuse Z s"
  shows "db_ok inuse Z s'"
proof -
  have "e = env \<longrightarrow> db_ok inuse Z s \<longrightarrow> db_ok inuse Z (snd r)" if "CoreUnregisterProtocolNotify e Ev s = Some r" for e s r
  proof (induction rule: CoreUnregisterProtocolNotify.raw_induct [OF _ that])
    case (1 f e Ev s r)
    obtain St s1 where s1: "CoreUnregisterProtocolNotifyEvent e Ev s = Some (St, s1)" "if EFI_ERROR St then r = (EFI_SUCCESS, s1) else f e Ev s1 = Some r"
      using 1(2) by (auto split: if_splits)
    then show ?case using 1(1) CoreUnregisterProtocolNotifyEvent_ok [of Ev s St s1] by (cases r) (auto split: if_splits)
  qed
  from this [OF assms(1)] show ?thesis using assms(2) by simp
qed

section \<open>Queries\<close>

lemma owned_list:
  assumes "db_ok inuse Z s" "distinct l" "\<And>a. a \<in> set l \<Longrightarrow> \<exists>k. stands s a k"
  shows "length l \<le> 2 ^ 57"
proof -
  have "set l \<subseteq> owned s \<union> Z" using assms(3) by (auto simp: owned_def)
  then have "inuse (Rest s) (set l)" using assms(1) pool_fewer by (auto simp: db_ok_def memory_ok_def)
  then show ?thesis using pool_small distinct_card [OF assms(2)] by metis
qed

lemma buffer_sizes:
  assumes "n \<le> 2 ^ 57"
  shows "unat (of_nat n :: u64) = n" "unat (8 * of_nat n :: u64) = 8 * n" "unat (of_nat n * 24 :: u64) = n * 24"
    "unat (of_nat n * 8 :: u64) = n * 8"
  using assms by (simp_all add: unat_word_ariths unat_of_nat)

lemma alloc_drop:
  assumes "AllocatePool env n s = Some (a, s')" "db_ok inuse Z s" "unat n < 2 ^ 63"
  shows "db_ok inuse Z s'"
proof (cases "a = 0")
  case True
  then show ?thesis using alloc_ok(2) [OF assms] by simp
next
  case False
  then have "db_ok inuse (insert a Z) s'" using alloc_ok(2) [OF assms] by simp
  then show ?thesis by (rule db_ok_fewer) auto
qed

lemma CoreOpenProtocolInformation_ok:
  assumes "CoreOpenProtocolInformation env h P s = Some (r, s')" "db_ok inuse Z s"
  shows "db_ok inuse Z s'"
proof -
  obtain s1 p where s1: "CoreAcquireProtocolLock s = Some s1" "CoreGetProtocolInterface h P s1 = Some p"
    using assms(1) by (auto simp: CoreOpenProtocolInformation_def)
  have o: "db_ok inuse Z s1" by (rule acquire_ok [OF s1(1) assms(2)])
  then have inv: "db_inv s1" by (simp add: db_ok_def)
  show ?thesis
  proof (cases "p = 0")
    case True
    then show ?thesis using assms(1) s1 release_ok o by (auto simp: CoreOpenProtocolInformation_def)
  next
    case False
    then obtain I n a s2 where I: "interfaces s1 p = Some I" "n = of_nat (length (OpenList I))"
       "AllocatePool env (if n = 0 then SIZE_OF_INFORMATION_ENTRY else n * SIZE_OF_INFORMATION_ENTRY) s1 = Some (a, s2)" "CoreReleaseProtocolLock env s2 = Some s'"
      using assms(1) s1 by (auto simp: CoreOpenProtocolInformation_def Let_def)
    have "distinct (map fst (OpenList I))" using db_invD(11) [OF inv I(1)] by (simp add: opens_ok_def)
    moreover have "\<exists>k. stands s1 b k" if "b \<in> set (map fst (OpenList I))" for b using that I(1) by (intro exI [of _ "AnOpen p"]) simp
    ultimately have "length (OpenList I) \<le> 2 ^ 57" using owned_list [OF o, of "map fst (OpenList I)"] by simp
    then have "unat (if n = 0 then SIZE_OF_INFORMATION_ENTRY else n * SIZE_OF_INFORMATION_ENTRY) < 2 ^ 63" using I(2) buffer_sizes by simp
    from alloc_drop [OF I(3) o this] show ?thesis by (rule release_ok [OF I(4)])
  qed
qed

lemma CoreProtocolsPerHandle_ok:
  assumes "CoreProtocolsPerHandle env h A B s = Some (r, s')" "db_ok inuse Z s"
  shows "db_ok inuse Z s'"
proof (cases "EFI_ERROR (CoreValidateHandle h s) \<or> \<not> A \<or> \<not> B")
  case True
  then show ?thesis using assms by (auto simp: CoreProtocolsPerHandle_def split: if_splits)
next
  case False
  then obtain s1 H where s1: "CoreAcquireProtocolLock s = Some s1" "ihandles s1 h = Some H"
    using assms(1) by (auto simp: CoreProtocolsPerHandle_def)
  have o: "db_ok inuse Z s1" by (rule acquire_ok [OF s1(1) assms(2)])
  then have inv: "db_inv s1" by (simp add: db_ok_def)
  have "Protocols H \<noteq> []" by (rule handle_protocols(3) [OF inv s1(2)])
  then obtain a s2 where s2: "AllocatePool env (8 * of_nat (length (Protocols H))) s1 = Some (a, s2)" "CoreReleaseProtocolLock env s2 = Some s'"
    using assms(1) False s1 by (auto simp: CoreProtocolsPerHandle_def split: if_splits)
  have "\<exists>k. stands s1 p k" if "p \<in> set (Protocols H)" for p
    using that handle_protocols(1) [OF inv s1(2)] by (intro exI [of _ AnInterface]) auto
  then have "length (Protocols H) \<le> 2 ^ 57" using owned_list [OF o handle_protocols(2) [OF inv s1(2)]] by blast
  then have "unat (8 * of_nat (length (Protocols H)) :: u64) < 2 ^ 63" using buffer_sizes(2) by simp
  from alloc_drop [OF s2(1) o this] show ?thesis by (rule release_ok [OF s2(2)])
qed

lemma handles_after_result:
  "handles_after k l s = Some r \<Longrightarrow> r = filter (\<lambda>h. \<exists>H. ihandles s h = Some H \<and> Key H > k) l"
  by (induction l arbitrary: r) (auto split: if_splits)

lemma connect_all_ok: "connect_all env l s = Some s' \<Longrightarrow> db_ok inuse Z s \<Longrightarrow> db_ok inuse Z s'"
  by (induction l arbitrary: s) (auto dest: connected)

lemma CoreConnectHandlesByKey_ok:
  assumes "CoreConnectHandlesByKey env k s = Some s'" "db_ok inuse Z s"
  shows "db_ok inuse Z s'"
proof -
  obtain s1 hs a s2 s3 where s: "CoreAcquireProtocolLock s = Some s1" "handles_after k (gHandleList s1) s1 = Some hs"
      "AllocatePool env (of_nat (length hs) * 8) s1 = Some (a, s2)" "CoreReleaseProtocolLock env s2 = Some s3"
      "if a = 0 then s' = s3 else (\<exists>s4. connect_all env hs s3 = Some s4 \<and> FreePool env a s4 = Some s')"
    using assms(1) by (auto simp: CoreConnectHandlesByKey_def split: if_splits)
  have o: "db_ok inuse Z s1" by (rule acquire_ok [OF s(1) assms(2)])
  then have inv: "db_inv s1" by (simp add: db_ok_def)
  have hs: "hs = filter (\<lambda>h. \<exists>H. ihandles s1 h = Some H \<and> Key H > k) (gHandleList s1)" by (rule handles_after_result [OF s(2)])
  have "\<exists>l. stands s1 h l" if "h \<in> set hs" for h using that unfolding hs by (intro exI [of _ AHandle]) auto
  then have "length hs \<le> 2 ^ 57" using owned_list [OF o, of hs] db_invD(1) [OF inv] hs by auto
  then have "unat (of_nat (length hs) * 8 :: u64) < 2 ^ 63" using buffer_sizes(4) by simp
  note a = alloc_ok(2) [OF s(3) o this]
  show ?thesis
  proof (cases "a = 0")
    case True
    then show ?thesis using a s(5) release_ok [OF s(4)] by simp
  next
    case False
    then obtain s4 where s4: "connect_all env hs s3 = Some s4" "FreePool env a s4 = Some s'" using s(5) by auto
    have z: "a \<notin> Z" "db_ok inuse (insert a Z) s2" using a False by simp_all
    show ?thesis by (rule free_ok(2) [OF s4(2) connect_all_ok [OF s4(1) release_ok [OF s(4) z(2)]] z(1)])
  qed
qed

end

end
