(* ===== verification/HandleSpec.thy ===== *)
theory HandleSpec
  imports HandleDrop
begin

text \<open>
  What the services promise, on the abstract database: which interface of which protocol is installed on which handle.  The priority is
  \<open>TPL_NOTIFY\<close> (\<open>Notifications env = Some\<close>): the notifications a service causes run after it.
\<close>

definition view :: "'p hdb \<Rightarrow> (u64 \<times> guid \<times> u64) set" where
  "view s = {(h, P, I). \<exists>p. installs s p h P I}"

text \<open>A handle is valid exactly while a protocol is installed on it.\<close>

lemma handles_in_view:
  assumes "db_inv s"
  shows "\<not> EFI_ERROR (CoreValidateHandle h s) \<longleftrightarrow> (\<exists>P I. (h, P, I) \<in> view s)"
proof
  assume "\<not> EFI_ERROR (CoreValidateHandle h s)"
  then obtain H where H: "ihandles s h = Some H" by (auto simp: validate_handle)
  obtain p where "p \<in> set (Protocols H)" using handle_protocols(3) [OF assms H] by (cases "Protocols H") auto
  then obtain J where J: "interfaces s p = Some J" "Handle J = h" using handle_protocols(1) [OF assms H] by blast
  obtain E where "entries s (Protocol J) = Some E" using db_invD(10) [OF assms J(1)] by blast
  then show "\<exists>P I. (h, P, I) \<in> view s" using J by (auto simp: view_def installs_def)
next
  assume "\<exists>P I. (h, P, I) \<in> view s"
  then obtain p J where J: "interfaces s p = Some J" "Handle J = h" by (auto simp: view_def installs_def)
  obtain H where H: "ihandles s h = Some H" using db_invD(9) [OF assms J(1)] J(2) by auto
  then show "\<not> EFI_ERROR (CoreValidateHandle h s)" using handle_protocols(4) [OF assms H] by (simp add: validate_handle)
qed

section \<open>What does not matter to the view\<close>

definition place :: "protocol_interface \<Rightarrow> u64 \<times> u64 \<times> u64" where
  "place I = (Handle I, Protocol I, Interface I)"

definition same_places :: "'p hdb \<Rightarrow> 'p hdb \<Rightarrow> bool" where
  "same_places s s' \<longleftrightarrow> ihandles s' = ihandles s \<and> entries s' = entries s \<and> notifies s' = notifies s \<and>
     (\<forall>p. map_option place (interfaces s' p) = map_option place (interfaces s p)) \<and> gHandleList s' = gHandleList s \<and>
     mProtocolDatabase s' = mProtocolDatabase s \<and> mEfiLocateHandleRequest s' = mEfiLocateHandleRequest s"

lemma same_places_refl [simp]: "same_places s s"
  by (simp add: same_places_def)

lemma same_places_trans: "same_places s t \<Longrightarrow> same_places t u \<Longrightarrow> same_places s u"
  by (simp add: same_places_def)

lemma same_places_fields [simp]:
  "same_places s (t\<lparr>gProtocolDatabaseLock := b\<rparr>) = same_places s t" "same_places (s\<lparr>gProtocolDatabaseLock := b\<rparr>) t = same_places s t"
  "same_places s (t\<lparr>Rest := q\<rparr>) = same_places s t"
  by (simp_all add: same_places_def)

lemma installs_place:
  "installs s p h P I \<longleftrightarrow> (\<exists>e E. map_option place (interfaces s p) = Some (h, e, I) \<and> entries s e = Some E \<and> ProtocolID E = P)"
  by (auto simp: installs_def place_def)

lemma same_places_installs: "same_places s s' \<Longrightarrow> installs s' = installs s"
  by (simp add: installs_place same_places_def fun_eq_iff)

lemma same_places_view: "same_places s s' \<Longrightarrow> view s' = view s"
  by (simp add: view_def same_places_installs)

lemma same_places_interface:
  "interfaces s p = Some I \<Longrightarrow> place J = place I \<Longrightarrow> same_places s (put_interface p J s)"
  by (simp add: same_places_def put_interface_def)

lemma alloc_same: "AllocatePool env n s = Some (a, s') \<Longrightarrow> same_places s s' \<and> gProtocolDatabaseLock s' = gProtocolDatabaseLock s"
  by (auto simp: AllocatePool_def)

lemma free_same: "FreePool env a s = Some s' \<Longrightarrow> same_places s s' \<and> gProtocolDatabaseLock s' = gProtocolDatabaseLock s"
  by (auto simp: FreePool_def)

lemma release_quiet: "Notifications env = Some \<Longrightarrow> CoreReleaseProtocolLock env s = Some s' \<longleftrightarrow> gProtocolDatabaseLock s \<and> s' = s\<lparr>gProtocolDatabaseLock := False\<rparr>"
  by (auto simp: CoreReleaseProtocolLock_def)

lemma add_open_same: "add_open env p d s = Some (Status, s') \<Longrightarrow> same_places s s' \<and> gProtocolDatabaseLock s' = gProtocolDatabaseLock s"
proof -
  assume h: "add_open env p d s = Some (Status, s')"
  then obtain a s1 where a: "AllocatePool env SIZE_OF_OPEN_PROTOCOL_DATA s = Some (a, s1)" by (auto simp: add_open_def)
  note k = alloc_same [OF a]
  show ?thesis
  proof (cases "a = 0")
    case True
    then show ?thesis using h a k by (simp add: add_open_def)
  next
    case False
    then obtain I where I: "interfaces s1 p = Some I" "s' = put_interface p (I\<lparr>OpenList := OpenList I @ [(a, d)], OpenListCount := OpenListCount I + 1\<rparr>) s1"
      using h a by (auto simp: add_open_def)
    have "same_places s1 s'" unfolding I(2) by (rule same_places_interface [OF I(1)]) (simp add: place_def)
    then show ?thesis using k same_places_trans by (auto simp: I(2) put_interface_def)
  qed
qed

text \<open>Opening for the core itself asks no driver to let go.\<close>

lemma HandleProtocol_same:
  assumes "CoreHandleProtocol env h P Out s = Some (r, s')" "Notifications env = Some" "\<not> gProtocolDatabaseLock s"
  shows "same_places s s' \<and> \<not> gProtocolDatabaseLock s'"
proof (cases "s' = s")
  case True
  then show ?thesis using assms(3) by simp
next
  case False
  have o: "open_locked env h p Opener 0 EFI_OPEN_PROTOCOL_BY_HANDLE_PROTOCOL t = Some (Status, t') \<Longrightarrow> same_places t t' \<and> gProtocolDatabaseLock t' = gProtocolDatabaseLock t"
    for p Opener t Status t'
  proof -
    assume h: "open_locked env h p Opener 0 EFI_OPEN_PROTOCOL_BY_HANDLE_PROTOCOL t = Some (Status, t')"
    obtain I where I: "interfaces t p = Some I" using h by (auto simp: open_locked_def)
    show ?thesis
    proof (cases "scan_open Opener 0 EFI_OPEN_PROTOCOL_BY_HANDLE_PROTOCOL (OpenList I) False False")
      case AlreadyStarted
      then show ?thesis using h I by (simp add: open_locked_def)
    next
      case (SameOpen a)
      let ?I = "I\<lparr>OpenList := map (\<lambda>x. if fst x = a then (a, (snd x)\<lparr>OpenCount := OpenCount (snd x) + 1\<rparr>) else x) (OpenList I)\<rparr>"
      have "t' = put_interface p ?I t" using h I SameOpen by (simp add: open_locked_def)
      moreover have "same_places t (put_interface p ?I t)" by (rule same_places_interface [OF I]) (simp add: place_def)
      ultimately show ?thesis by (simp add: put_interface_def)
    next
      case (Scanned B E)
      then show ?thesis using h I by (auto simp: open_locked_def split: if_splits dest: add_open_same)
    qed
  qed
  obtain s1 p s2 where s: "CoreAcquireProtocolLock s = Some s1" "s2 = s1 \<or> (\<exists>St. open_locked env h p (DxeCoreImageHandle env) 0 EFI_OPEN_PROTOCOL_BY_HANDLE_PROTOCOL s1 = Some (St, s2))"
    "CoreReleaseProtocolLock env s2 = Some s'"
    using assms(1) False by (auto simp: CoreHandleProtocol_def CoreOpenProtocol_def Let_def split: option.splits if_splits)
  have s1: "same_places s s1" "gProtocolDatabaseLock s1" using s(1) by (auto simp: acquired)
  have "same_places s1 s2" using s(2) o by auto
  then have "same_places s s2" by (rule same_places_trans [OF s1(1)])
  then show ?thesis using s(3) assms(2) by (auto simp: release_quiet)
qed

section \<open>Installing adds to the view\<close>

lemma signal_all_rest: "signal_all env l s = Some s' \<Longrightarrow> \<exists>q. s' = s\<lparr>Rest := q\<rparr>"
proof (induction l arbitrary: s)
  case Nil
  then show ?case by (intro exI [of _ "Rest s"]) simp
next
  case (Cons a l)
  then obtain q where "signal_all env l (s\<lparr>Rest := q\<rparr>) = Some s'" by auto
  from Cons.IH [OF this] show ?case by simp
qed

lemma installs_same: "interfaces s' = interfaces s \<Longrightarrow> entries s' = entries s \<Longrightarrow> installs s' = installs s"
  by (simp add: installs_def fun_eq_iff)

lemma installs_fields [simp]: "installs (s\<lparr>Rest := q\<rparr>) = installs s" "installs (s\<lparr>gProtocolDatabaseLock := b\<rparr>) = installs s"
  by (rule installs_same; simp)+

lemma view_add:
  assumes "interfaces s p = None" "entries s e = Some E" "ProtocolID E = P"
    and "interfaces s' = (interfaces s)(p \<mapsto> J)" "Handle J = h" "Protocol J = e" "Interface J = I"
    and "\<And>d. map_option ProtocolID (entries s' d) = map_option ProtocolID (entries s d)"
  shows "view s' = insert (h, P, I) (view s)"
proof -
  have e: "(\<exists>D. entries s' d = Some D \<and> ProtocolID D = Q) \<longleftrightarrow> (\<exists>D. entries s d = Some D \<and> ProtocolID D = Q)" for d Q
    using assms(8) [of d] by (auto simp: map_option_case split: option.splits)
  have "installs s' q k Q V \<longleftrightarrow> (if q = p then (k, Q, V) = (h, P, I) else installs s q k Q V)" for q k Q V
    using e assms(2-7) by (auto simp: installs_def)
  then have i: "(\<exists>q. installs s' q k Q V) \<longleftrightarrow> (k, Q, V) = (h, P, I) \<or> (\<exists>q. q \<noteq> p \<and> installs s q k Q V)" for k Q V by auto
  have "\<not> installs s p k Q V" for k Q V using assms(1) by (simp add: installs_def)
  then have n: "(\<exists>q. q \<noteq> p \<and> installs s q k Q V) \<longleftrightarrow> (\<exists>q. installs s q k Q V)" for k Q V by metis
  show ?thesis unfolding view_def i n by blast
qed

text \<open>What of the open list keeps an interface from being uninstalled when no driver has it open.\<close>

definition weak_open :: "open_data \<Rightarrow> bool" where
  "weak_open d \<longleftrightarrow> Attributes d AND (EFI_OPEN_PROTOCOL_BY_HANDLE_PROTOCOL OR EFI_OPEN_PROTOCOL_GET_PROTOCOL OR EFI_OPEN_PROTOCOL_TEST_PROTOCOL) \<noteq> 0"

context database_clients
begin

lemma install_locked_view:
  assumes "install_locked env e h P I Tell s = Some ((Status, p, h'), s')" "db_ok inuse Z s" "entries s e = Some E" "ProtocolID E = P"
  shows "if EFI_ERROR Status then installs s' = installs s
    else Status = EFI_SUCCESS \<and> h' \<noteq> 0 \<and> (if h = 0 then ihandles s h' = None else h' = h) \<and> (h', P, I) \<notin> view s \<and> view s' = insert (h', P, I) (view s)"
    "gProtocolDatabaseLock s' = gProtocolDatabaseLock s"
proof -
  obtain p0 s1 where a: "AllocatePool env SIZE_OF_PROTOCOL_INTERFACE s = Some (p0, s1)" using assms(1) by (auto simp: install_locked_def)
  note k = alloc_ok [OF a assms(2), simplified]
  obtain q where q: "s1 = s\<lparr>Rest := q\<rparr>" using k(1) by blast
  have "(if EFI_ERROR Status then installs s' = installs s
    else Status = EFI_SUCCESS \<and> h' \<noteq> 0 \<and> (if h = 0 then ihandles s h' = None else h' = h) \<and> (h', P, I) \<notin> view s \<and> view s' = insert (h', P, I) (view s)) \<and>
    gProtocolDatabaseLock s' = gProtocolDatabaseLock s"
  proof (cases "p0 = 0")
    case True
    then have "EFI_ERROR Status" "s' = s1" using assms(1) a by (auto simp: install_locked_def)
    then show ?thesis using q by simp
  next
    case p0: False
    then have f: "p0 \<notin> owned s" "db_ok inuse (insert p0 Z) s1" using k(2) by simp_all
    obtain h0 t where t: "handle_for env h s1 = Some (h0, t)" using assms(1) a p0 by (auto simp: install_locked_def)
    have "memory_ok inuse (insert p0 Z) s1" using f(2) by (simp add: db_ok_def)
    note m = handle_for_ok [OF t this]
    have tf: "interfaces t = interfaces s" "entries t = entries s" "gProtocolDatabaseLock t = gProtocolDatabaseLock s"
      using m(2) q by (auto simp: put_handle_def)
    show ?thesis
    proof (cases "h0 = 0 \<or> EFI_ERROR (CoreValidateHandle h0 t)")
      case True
      then have "EFI_ERROR Status" "s' = t" using assms(1) a p0 t by (auto simp: install_locked_def split: if_splits)
      then show ?thesis using tf installs_same [OF tf(1,2)] by simp
    next
      case False
      let ?I = "\<lparr>Handle = h0, Protocol = e, Interface = I, OpenList = [], OpenListCount = 0\<rparr>"
      let ?s = "\<lambda>H. put_entry e (E\<lparr>ByProtocol := protocol_entry.ByProtocol E @ [p0]\<rparr>) (put_handle h0 (H\<lparr>Protocols := p0 # Protocols H\<rparr>) (put_interface p0 ?I t))"
      obtain H where HE: "h' = h0" "Status = EFI_SUCCESS" "(if Tell then CoreNotifyProtocolEntry env e else Some) (?s H) = Some s'"
        using assms(1,3) a p0 t False tf(2) by (cases Tell) (auto simp: install_locked_def Let_def)
      obtain r where "s' = (?s H)\<lparr>Rest := r\<rparr>"
      proof (cases Tell)
        case True
        then have "\<exists>l. signal_all env l (?s H) = Some s'" using HE(3) by (auto simp: CoreNotifyProtocolEntry_def)
        then show thesis using signal_all_rest that by blast
      next
        case False
        then have "s' = (?s H)\<lparr>Rest := Rest (?s H)\<rparr>" using HE(3) by simp
        then show thesis by (rule that)
      qed
      then have s': "interfaces s' = (interfaces s)(p0 \<mapsto> ?I)" "entries s' = (entries s)(e \<mapsto> E\<lparr>ByProtocol := protocol_entry.ByProtocol E @ [p0]\<rparr>)"
          "gProtocolDatabaseLock s' = gProtocolDatabaseLock s"
        by (simp_all add: put_entry_def put_handle_def put_interface_def tf)
      have "\<not> stands s p0 AnInterface" using f(1) unfolding owned_def by blast
      then have i: "interfaces s p0 = None" by simp
      have "view s' = insert (h0, P, I) (view s)"
        by (rule view_add [OF i assms(3,4) s'(1)]) (simp_all add: s'(2) assms(3))
      moreover have "h0 = h" if "h \<noteq> 0" using t that by (simp add: handle_for_def)
      then have "if h = 0 then ihandles s h0 = None else h0 = h" using m(2) q False by auto
      moreover have "(h0, P, I) \<notin> view s"
      proof (cases "h = 0")
        case True
        then have "ihandles s h0 = None" using m(2) q False by auto
        then show ?thesis using handles_in_view [of s h0] assms(2) by (auto simp: db_ok_def validate_handle)
      next
        case h: False
        then have t1: "t = s1" "h0 = h" using t by (simp_all add: handle_for_def)
        have "CoreFindProtocolInterface env h0 P I t = Some 0" using assms(1,3) a p0 t False by (auto simp: install_locked_def Let_def)
        moreover have "db_inv t" "gProtocolDatabaseLock t" using assms(2) q t1 calculation by (auto simp: db_ok_def CoreFindProtocolInterface_def)
        moreover obtain K where "ihandles t h0 = Some K" using False by (auto simp: validate_handle)
        ultimately show ?thesis using CoreFindProtocolInterface_result [of t h0 K env P I] q t1 by (auto simp: view_def)
      qed
      ultimately show ?thesis using HE(1,2) False s'(3) by simp
    qed
  qed
  then show "if EFI_ERROR Status then installs s' = installs s
    else Status = EFI_SUCCESS \<and> h' \<noteq> 0 \<and> (if h = 0 then ihandles s h' = None else h' = h) \<and> (h', P, I) \<notin> view s \<and> view s' = insert (h', P, I) (view s)"
    "gProtocolDatabaseLock s' = gProtocolDatabaseLock s" by blast+
qed

lemma find_entry_view:
  assumes "CoreFindProtocolEntry env P Create s = Some (e, s')" "db_ok inuse Z s"
  shows "installs s' = installs s"
proof -
  have inv: "db_inv s" using assms(2) by (simp add: db_ok_def)
  note f = find_entry_ok [OF assms]
  have "(\<exists>E. entries s' (Protocol J) = Some E \<and> ProtocolID E = Q) \<longleftrightarrow> (\<exists>E. entries s (Protocol J) = Some E \<and> ProtocolID E = Q)"
    if "interfaces s p = Some J" for p J Q
    using db_invD(10) [OF inv that] f(3) by fastforce
  then show ?thesis using f(4) by (auto simp: installs_def fun_eq_iff) metis+
qed

lemma InstallNotify_view:
  assumes "CoreInstallProtocolInterfaceNotify env (Some h) (Some P) 0 I Tell s = Some ((Status, h'), s')" "db_ok inuse {} s"
    and "Notifications env = Some" "\<not> gProtocolDatabaseLock s"
  shows "if EFI_ERROR Status then h' = Some h \<and> view s' = view s
    else \<exists>k. h' = Some k \<and> k \<noteq> 0 \<and> (if h = 0 then \<forall>Q J. (k, Q, J) \<notin> view s else k = h) \<and> (k, P, I) \<notin> view s \<and> view s' = insert (k, P, I) (view s)"
    "\<not> gProtocolDatabaseLock s'"
proof -
  obtain St s1 where s1: "if h \<noteq> 0 then \<exists>x. CoreHandleProtocol env h (Some P) True s = Some ((St, x), s1) else St = EFI_OUT_OF_RESOURCES \<and> s1 = s"
    using assms(1) by (auto simp: CoreInstallProtocolInterfaceNotify_def split: if_splits)
  have v1: "same_places s s1" "\<not> gProtocolDatabaseLock s1" "db_ok inuse {} s1"
    using s1 HandleProtocol_same [OF _ assms(3,4)] CoreHandleProtocol_ok assms(2,4) by (auto split: if_splits)
  have "(if EFI_ERROR Status then h' = Some h \<and> view s' = view s
    else \<exists>k. h' = Some k \<and> k \<noteq> 0 \<and> (if h = 0 then \<forall>Q J. (k, Q, J) \<notin> view s else k = h) \<and> (k, P, I) \<notin> view s \<and> view s' = insert (k, P, I) (view s)) \<and> \<not> gProtocolDatabaseLock s'"
  proof (cases "h \<noteq> 0 \<and> \<not> EFI_ERROR St")
    case True
    then have "EFI_ERROR Status" "h' = Some h" "s' = s1" using assms(1) s1 by (auto simp: CoreInstallProtocolInterfaceNotify_def)
    then show ?thesis using v1 same_places_view by auto
  next
    case False
    let ?s2 = "s1\<lparr>gProtocolDatabaseLock := True\<rparr>"
    have St: "EFI_ERROR St" using False s1 by auto
    obtain e s3 where s3: "CoreFindProtocolEntry env P True ?s2 = Some (e, s3)"
      using assms(1) s1 False by (auto simp: CoreInstallProtocolInterfaceNotify_def acquired split: if_splits)
    have o2: "db_ok inuse {} ?s2" using v1(3) by simp
    note f = find_entry_ok [OF s3 o2] find_entry_view [OF s3 o2]
    have i3: "installs s3 = installs s" using f(5) same_places_installs [OF v1(1)] by (simp add: installs_def fun_eq_iff)
    obtain St2 p k s4 where s4:
       "if e = 0 then (St2, p, k) = (St, 0, 0) \<and> s4 = s3 else install_locked env e h P I Tell s3 = Some ((St2, p, k), s4)"
       "Status = St2" "EFI_ERROR St2 \<longrightarrow> h' = Some h" "\<not> EFI_ERROR St2 \<longrightarrow> h' = Some k"
       "if EFI_ERROR St2 \<and> p \<noteq> 0 then FreePool env p (s4\<lparr>gProtocolDatabaseLock := False\<rparr>) = Some s' else s' = s4\<lparr>gProtocolDatabaseLock := False\<rparr>"
      using assms(1) s1 False s3 by (cases "e = 0")
        (auto simp: CoreInstallProtocolInterfaceNotify_def acquired release_quiet [OF assms(3)] split: if_splits)
    have l: "\<not> gProtocolDatabaseLock s'" using s4(5) by (auto split: if_splits dest!: free_same)
    have i': "installs s' = installs s4"
    proof (cases "EFI_ERROR St2 \<and> p \<noteq> 0")
      case True
      then have "FreePool env p (s4\<lparr>gProtocolDatabaseLock := False\<rparr>) = Some s'" using s4(5) by simp
      then have "same_places s4 s'" using free_same by fastforce
      then show ?thesis by (rule same_places_installs)
    next
      case False
      then have "s' = s4\<lparr>gProtocolDatabaseLock := False\<rparr>" using s4(5) by simp
      then show ?thesis by simp
    qed
    show ?thesis
    proof (cases "e = 0")
      case True
      then show ?thesis using s4 l i' i3 St by (auto simp: view_def)
    next
      case e: False
      obtain E where E: "entries s3 e = Some E" "ProtocolID E = P" using f(2) e by blast
      have "install_locked env e h P I Tell s3 = Some ((St2, p, k), s4)" using s4(1) e by simp
      note n = install_locked_view(1) [OF this f(1) E]
      show ?thesis
      proof (cases "EFI_ERROR St2")
        case True
        then show ?thesis using n s4(2-4) l i' i3 by (simp add: view_def)
      next
        case False
        then have n: "k \<noteq> 0" "if h = 0 then ihandles s3 k = None else k = h" "(k, P, I) \<notin> view s3" "view s4 = insert (k, P, I) (view s3)" using n by simp_all
        have "db_inv s3" using f(1) by (simp add: db_ok_def)
        then have "(k, Q, J) \<notin> view s" if "h = 0" for Q J
          using handles_in_view [of s3 k] n(2) that i3 by (auto simp: view_def validate_handle)
        then show ?thesis using n s4(2-4) l i' i3 False by (auto simp: view_def)
      qed
    qed
  qed
  then show "if EFI_ERROR Status then h' = Some h \<and> view s' = view s
    else \<exists>k. h' = Some k \<and> k \<noteq> 0 \<and> (if h = 0 then \<forall>Q J. (k, Q, J) \<notin> view s else k = h) \<and> (k, P, I) \<notin> view s \<and> view s' = insert (k, P, I) (view s)"
    "\<not> gProtocolDatabaseLock s'" by blast+
qed

section \<open>Uninstalling takes away\<close>

lemma view_less:
  assumes "installs s p h P I" "\<And>q. installs s q h P I \<Longrightarrow> q = p" "interfaces s' = (interfaces s)(p := None)"
    and "\<And>d. map_option ProtocolID (entries s' d) = map_option ProtocolID (entries s d)"
  shows "view s' = view s - {(h, P, I)}"
proof -
  have e: "(\<exists>D. entries s' d = Some D \<and> ProtocolID D = Q) \<longleftrightarrow> (\<exists>D. entries s d = Some D \<and> ProtocolID D = Q)" for d Q
    using assms(4) [of d] by (auto simp: map_option_case split: option.splits)
  have "installs s' q k Q V \<longleftrightarrow> q \<noteq> p \<and> installs s q k Q V" for q k Q V using e assms(3) by (auto simp: installs_def)
  then have i: "(\<exists>q. installs s' q k Q V) \<longleftrightarrow> (\<exists>q. q \<noteq> p \<and> installs s q k Q V)" for k Q V by simp
  have n: "(\<exists>q. q \<noteq> p \<and> installs s q k Q V) \<longleftrightarrow> (\<exists>q. installs s q k Q V) \<and> (k, Q, V) \<noteq> (h, P, I)" for k Q V
  proof -
    have u: "(k, Q, V) = (h, P, I)" if "installs s p k Q V" using that assms(1) by (auto simp: installs_def)
    show ?thesis
    proof (cases "(k, Q, V) = (h, P, I)")
      case True
      then have "q = p" if "installs s q k Q V" for q using that assms(2) by simp
      then show ?thesis using True by blast
    next
      case False
      then have "\<not> installs s p k Q V" using u by blast
      then have "installs s q k Q V \<Longrightarrow> q \<noteq> p" for q by blast
      then show ?thesis using False by blast
    qed
  qed
  have "(k, Q, V) \<in> view s' \<longleftrightarrow> (k, Q, V) \<in> view s - {(h, P, I)}" for k Q V unfolding view_def by (simp only: mem_Collect_eq prod.case i n Diff_iff singleton_iff)
  then show ?thesis by (simp add: set_eq_iff split_paired_all) blast
qed

lemma uninstall_locked_view:
  assumes "CoreRemoveInterfaceFromProtocol env h P I s = Some (p', s1)" "(if p' \<noteq> 0 then drop_interface env h p' s1 else Some s1) = Some s2"
    and "drop_handle env h s2 = Some s'" "db_inv s" "installs s p h P I" "\<And>q. installs s q h P I \<Longrightarrow> q = p"
  shows "p' \<noteq> 0" "view s' = view s - {(h, P, I)}"
proof -
  have L: "gProtocolDatabaseLock s" and f: "CoreFindProtocolInterface env h P I s = Some p'"
    using assms(1) by (auto simp: CoreRemoveInterfaceFromProtocol_def split: if_splits)
  obtain J where J: "interfaces s p = Some J" "Handle J = h" using assms(5) by (auto simp: installs_def)
  then obtain H where H: "ihandles s h = Some H" using db_invD(9) [OF assms(4)] by blast
  show p: "p' \<noteq> 0" using CoreFindProtocolInterface_result [OF assms(4) L H, of env P I] f assms(5) by auto
  obtain e E n where r: "installs s p' h P I" "entries s e = Some E"
      "s1 = put_entry e (E\<lparr>ByProtocol := remove1 p' (protocol_entry.ByProtocol E)\<rparr>) (s\<lparr>notifies := n\<rparr>)"
    using remove_result [OF assms(1,4)] p by blast
  have "p' = p" by (rule assms(6) [OF r(1)])
  have s2: "interfaces s2 = (interfaces s)(p := None)" "entries s2 = entries s1"
    using assms(2) p r(3) \<open>p' = p\<close> by (auto simp: drop_interface_def Let_def FreePool_def put_entry_def put_handle_def)
  have s': "interfaces s' = (interfaces s)(p := None)" "entries s' = entries s1"
    using assms(3) s2 by (auto simp: drop_handle_def FreePool_def split: if_splits)
  show "view s' = view s - {(h, P, I)}"
    by (rule view_less [OF assms(5,6) s'(1)]) (simp_all add: s'(2) r put_entry_def)
qed

lemma disconnect_none:
  assumes "interfaces s p = Some J" "\<forall>x\<in>set (OpenList J). \<not> drives (snd x)"
  shows "disconnect_drivers env h p s = Some (EFI_SUCCESS, s)"
proof -
  have "List.find (\<lambda>x. drives (snd x)) (OpenList J) = None" unfolding find_None_iff using assms(2) by blast
  then show ?thesis using assms(1) by (simp add: disconnect_drivers.simps)
qed

lemma let_go:
  assumes "CoreDisconnectControllersUsingProtocolInterface env h p s = Some (Status, s')" "db_ok inuse Z s" "interfaces s p = Some J"
    and "\<forall>x\<in>set (OpenList J). \<not> drives (snd x)"
  shows "if EFI_ERROR Status then Status = EFI_ACCESS_DENIED \<and> (\<exists>x\<in>set (OpenList J). \<not> weak_open (snd x))
    else db_ok inuse Z s' \<and> gProtocolDatabaseLock s' = gProtocolDatabaseLock s \<and> same_places s s' \<and> (\<forall>x\<in>set (OpenList J). weak_open (snd x))"
proof -
  note d = disconnect_none [OF assms(3,4), of h]
  obtain s2 K where s2: "close_all env p weak_open (OpenList J) s = Some s2" "interfaces s2 p = Some K"
      "if OpenListCount K > 0 then Status = EFI_ACCESS_DENIED else Status = EFI_SUCCESS \<and> s' = s2"
    using assms(1,3) d by (auto simp: CoreDisconnectControllersUsingProtocolInterface_def weak_open_def [abs_def] split: if_splits)
  note c = close_opens_ok [OF s2(1) assms(2,3)]
  obtain L q where L: "s2 = (put_interface p L s)\<lparr>Rest := q\<rparr>" "OpenList L = filter (\<lambda>x. \<not> weak_open (snd x)) (OpenList J)" "place L = place J"
    using c(2) by (auto simp: place_def)
  then have K: "K = L" using s2(2) by (simp add: put_interface_def)
  have "db_inv s2" using c(1) by (simp add: db_ok_def)
  then have o: "OpenListCount K = of_nat (length (OpenList K))" "distinct (map fst (OpenList K))"
    using db_invD(11) s2(2) by (fastforce simp: opens_ok_def)+
  have "\<exists>k. stands s2 b k" if "b \<in> set (map fst (OpenList K))" for b using that s2(2) by (intro exI [of _ "AnOpen p"]) simp
  then have "length (OpenList K) \<le> 2 ^ 57" using owned_list [OF c(1) o(2)] by simp
  then have u: "OpenListCount K = 0 \<longleftrightarrow> OpenList K = []" using buffer_sizes(1) [of "length (OpenList K)"] o(1) by (metis length_0_conv unat_0 unat_eq_zero)
  have "same_places s s2" using same_places_interface [OF assms(3) L(3)] by (simp add: L(1))
  moreover have "gProtocolDatabaseLock s2 = gProtocolDatabaseLock s" by (simp add: L(1) put_interface_def)
  moreover have "OpenList K = [] \<longleftrightarrow> (\<forall>x\<in>set (OpenList J). weak_open (snd x))" by (simp add: K L(2) filter_empty_conv)
  moreover have "OpenListCount K > 0 \<longleftrightarrow> OpenListCount K \<noteq> 0" by (simp add: word_neq_0_conv)
  ultimately show ?thesis using s2(3) u c(1) by (auto split: if_splits)
qed

lemma Uninstall_view:
  assumes "CoreUninstallProtocolInterface env h (Some P) I s = Some (Status, s')" "db_ok inuse {} s"
    and "Notifications env = Some" "\<not> gProtocolDatabaseLock s" "\<forall>p q. installs s p h P I \<longrightarrow> installs s q h P I \<longrightarrow> p = q"
    and "\<forall>p J. installs s p h P I \<longrightarrow> interfaces s p = Some J \<longrightarrow> (\<forall>x\<in>set (OpenList J). \<not> drives (snd x))"
  shows "Status = (if \<forall>Q J. (h, Q, J) \<notin> view s then EFI_INVALID_PARAMETER else if (h, P, I) \<notin> view s then EFI_NOT_FOUND
      else if \<exists>p J x. installs s p h P I \<and> interfaces s p = Some J \<and> x \<in> set (OpenList J) \<and> \<not> weak_open (snd x) then EFI_ACCESS_DENIED else EFI_SUCCESS)"
    "Status \<noteq> EFI_ACCESS_DENIED \<Longrightarrow> view s' = (if EFI_ERROR Status then view s else view s - {(h, P, I)}) \<and> \<not> gProtocolDatabaseLock s'"
proof -
  let ?Status = "if \<forall>Q J. (h, Q, J) \<notin> view s then EFI_INVALID_PARAMETER else if (h, P, I) \<notin> view s then EFI_NOT_FOUND
      else if \<exists>p J x. installs s p h P I \<and> interfaces s p = Some J \<and> x \<in> set (OpenList J) \<and> \<not> weak_open (snd x) then EFI_ACCESS_DENIED else EFI_SUCCESS"
  have inv: "db_inv s" using assms(2) by (simp add: db_ok_def)
  have "Status = ?Status \<and> (Status \<noteq> EFI_ACCESS_DENIED \<longrightarrow> view s' = (if EFI_ERROR Status then view s else view s - {(h, P, I)}) \<and> \<not> gProtocolDatabaseLock s')"
  proof (cases "EFI_ERROR (CoreValidateHandle h s)")
    case True
    then have "Status = EFI_INVALID_PARAMETER" "s' = s" using assms(1) by (auto simp: CoreUninstallProtocolInterface_def CoreValidateHandle_def split: if_splits)
    then show ?thesis using handles_in_view [OF inv, of h] True assms(4) by auto
  next
    case False
    then have h: "\<not> (\<forall>Q J. (h, Q, J) \<notin> view s)" using handles_in_view [OF inv] by blast
    let ?s = "s\<lparr>gProtocolDatabaseLock := True\<rparr>"
    obtain H where H: "ihandles ?s h = Some H" using False by (auto simp: validate_handle)
    have inv1: "db_inv ?s" and l1: "gProtocolDatabaseLock ?s" and o1: "db_ok inuse {} ?s" using inv assms(2) by simp_all
    obtain p where p: "CoreFindProtocolInterface env h P I ?s = Some p" "p = 0 \<longrightarrow> (\<forall>q. \<not> installs s q h P I)" "p \<noteq> 0 \<longrightarrow> installs s p h P I"
      using CoreFindProtocolInterface_result [OF inv1 l1 H, of env P I] by auto
    show ?thesis
    proof (cases "p = 0")
      case True
      then have "Status = EFI_NOT_FOUND" "s' = s" using assms(1,4) False p(1)
        by (auto simp: CoreUninstallProtocolInterface_def acquired release_quiet [OF assms(3)])
      moreover have "(h, P, I) \<notin> view s" using p(2) True by (simp add: view_def)
      ultimately show ?thesis using h assms(4) by simp
    next
      case p0: False
      then have i: "installs s p h P I" and v: "(h, P, I) \<in> view s" using p(3) by (auto simp: view_def)
      obtain J where J: "interfaces s p = Some J" using i by (auto simp: installs_def)
      then have J1: "interfaces ?s p = Some J" "\<forall>x\<in>set (OpenList J). \<not> drives (snd x)" using assms(6) i J by simp_all
      obtain St s2 where s2: "CoreDisconnectControllersUsingProtocolInterface env h p ?s = Some (St, s2)"
        using assms(1,4) False p(1) p0 by (auto simp: CoreUninstallProtocolInterface_def acquired)
      note g = let_go [OF s2 o1 J1]
      have w: "(\<exists>p J x. installs s p h P I \<and> interfaces s p = Some J \<and> x \<in> set (OpenList J) \<and> \<not> weak_open (snd x)) \<longleftrightarrow>
          (\<exists>x\<in>set (OpenList J). \<not> weak_open (snd x))" (is "?l \<longleftrightarrow> ?r")
      proof
        assume ?l
        then obtain q K x where q: "installs s q h P I" "interfaces s q = Some K" "x \<in> set (OpenList K)" "\<not> weak_open (snd x)" by blast
        then have "q = p" using assms(5) i by blast
        then show ?r using q J by auto
      next
        assume ?r
        then show ?l using i J by blast
      qed
      show ?thesis
      proof (cases "EFI_ERROR St")
        case True
        then have "Status = St" using assms(1,4) False p(1) p0 s2 by (auto simp: CoreUninstallProtocolInterface_def acquired split: if_splits)
        then have "Status = EFI_ACCESS_DENIED" "\<exists>x\<in>set (OpenList J). \<not> weak_open (snd x)" using g True by simp_all
        then show ?thesis unfolding w using h v by simp
      next
        case St: False
        then have s2': "db_inv s2" "same_places s s2" "gProtocolDatabaseLock s2" "\<forall>x\<in>set (OpenList J). weak_open (snd x)" using g by (simp_all add: db_ok_def)
        have is2: "installs s2 = installs s" by (rule same_places_installs [OF s2'(2)])
        obtain p' s3 where r0: "CoreRemoveInterfaceFromProtocol env h P I s2 = Some (p', s3)"
          using assms(1,4) False p(1) p0 s2 St by (auto simp: CoreUninstallProtocolInterface_def acquired)
        obtain s4 s5 where r: "(if p' \<noteq> 0 then drop_interface env h p' s3 else Some s3) = Some s4" "drop_handle env h s4 = Some s5"
            "Status = (if p' \<noteq> 0 then EFI_SUCCESS else EFI_NOT_FOUND)" "CoreReleaseProtocolLock env s5 = Some s'"
          using assms(1,4) False p(1) p0 s2 St r0 by (auto simp: CoreUninstallProtocolInterface_def acquired)
        have s': "s' = s5\<lparr>gProtocolDatabaseLock := False\<rparr>" using r(4) by (simp add: release_quiet [OF assms(3)])
        have i2: "installs s2 p h P I" using i is2 by simp
        have "q = p" if "installs s2 q h P I" for q using assms(5) i that is2 by auto
        note u = uninstall_locked_view [OF r0 r(1,2) s2'(1) i2 this]
        have "view s' = view s - {(h, P, I)}" using u(2) is2 by (simp add: s' view_def)
        then show ?thesis using u(1) r(3) s' h v s2'(4) w by auto
      qed
    qed
  qed
  then show "Status = ?Status" "Status \<noteq> EFI_ACCESS_DENIED \<Longrightarrow> view s' = (if EFI_ERROR Status then view s else view s - {(h, P, I)}) \<and> \<not> gProtocolDatabaseLock s'"
    by blast+
qed

end

end
