(* ===== verification/DevicePath.thy ===== *)
theory DevicePath
  imports Prelude
begin

text \<open>
  Device paths (\<open>MdePkg/Library/UefiDevicePathLib/DevicePathUtilities.c\<close>).  A device path is a sequence of nodes in the memory of
  its owner: type, subtype, a length of two bytes, and data; \<open>mem\<close> is the memory by address.
\<close>

abbreviation END_DEVICE_PATH_TYPE :: u8 where "END_DEVICE_PATH_TYPE \<equiv> 0x7F"
abbreviation END_ENTIRE_DEVICE_PATH_SUBTYPE :: u8 where "END_ENTIRE_DEVICE_PATH_SUBTYPE \<equiv> 0xFF"
abbreviation END_INSTANCE_DEVICE_PATH_SUBTYPE :: u8 where "END_INSTANCE_DEVICE_PATH_SUBTYPE \<equiv> 1"
abbreviation END_DEVICE_PATH_LENGTH :: u64 where "END_DEVICE_PATH_LENGTH \<equiv> 4"

type_synonym memory = "u64 \<Rightarrow> u8"

definition DevicePathType :: "memory \<Rightarrow> u64 \<Rightarrow> u8 option" where
  "DevicePathType mem Node = do { ASSERT (Node \<noteq> 0); Some (mem Node) }"

definition DevicePathSubType :: "memory \<Rightarrow> u64 \<Rightarrow> u8 option" where
  "DevicePathSubType mem Node = do { ASSERT (Node \<noteq> 0); Some (mem (Node + 1)) }"

definition DevicePathNodeLength :: "memory \<Rightarrow> u64 \<Rightarrow> u64 option" where
  "DevicePathNodeLength mem Node = do { ASSERT (Node \<noteq> 0); Some (ucast (mem (Node + 2)) OR push_bit 8 (ucast (mem (Node + 3)))) }"

definition NextDevicePathNode :: "memory \<Rightarrow> u64 \<Rightarrow> u64 option" where
  "NextDevicePathNode mem Node = do { ASSERT (Node \<noteq> 0); Length \<leftarrow> DevicePathNodeLength mem Node; Some (Node + Length) }"

definition IsDevicePathEndType :: "memory \<Rightarrow> u64 \<Rightarrow> bool option" where
  "IsDevicePathEndType mem Node = do { ASSERT (Node \<noteq> 0); Type \<leftarrow> DevicePathType mem Node; Some (Type = END_DEVICE_PATH_TYPE) }"

definition IsDevicePathEnd :: "memory \<Rightarrow> u64 \<Rightarrow> bool option" where
  "IsDevicePathEnd mem Node = do {
     ASSERT (Node \<noteq> 0);
     EndType \<leftarrow> IsDevicePathEndType mem Node;
     SubType \<leftarrow> DevicePathSubType mem Node;
     Some (EndType \<and> SubType = END_ENTIRE_DEVICE_PATH_SUBTYPE)
   }"

definition IsDevicePathEndInstance :: "memory \<Rightarrow> u64 \<Rightarrow> bool option" where
  "IsDevicePathEndInstance mem Node = do {
     ASSERT (Node \<noteq> 0);
     EndType \<leftarrow> IsDevicePathEndType mem Node;
     SubType \<leftarrow> DevicePathSubType mem Node;
     Some (EndType \<and> SubType = END_INSTANCE_DEVICE_PATH_SUBTYPE)
   }"

text \<open>The loop of \<open>IsDevicePathValid\<close>; \<open>Pcd\<close> is \<open>PcdMaximumDevicePathNodeCount\<close>.\<close>

partial_function (option) valid_from :: "memory \<Rightarrow> u32 \<Rightarrow> u64 \<Rightarrow> u64 \<Rightarrow> u64 \<Rightarrow> u64 \<Rightarrow> bool option" where
  "valid_from mem Pcd Node MaxSize Count Size = do {
     Done \<leftarrow> IsDevicePathEnd mem Node;
     if Done then do { Length \<leftarrow> DevicePathNodeLength mem Node; Some (Length = END_DEVICE_PATH_LENGTH) }
     else do {
       NodeLength \<leftarrow> DevicePathNodeLength mem Node;
       if NodeLength < 4 then Some False
       else if MaxSize > 0 \<and> Size + NodeLength + END_DEVICE_PATH_LENGTH > MaxSize then Some False
       else if Pcd > 0 \<and> Count + 1 \<ge> ucast Pcd then Some False
       else do {
         Next \<leftarrow> NextDevicePathNode mem Node;
         valid_from mem Pcd Next MaxSize (if Pcd > 0 then Count + 1 else Count) (if MaxSize > 0 then Size + NodeLength else Size)
       }
     }
   }"

definition IsDevicePathValid :: "memory \<Rightarrow> u32 \<Rightarrow> u64 \<Rightarrow> u64 \<Rightarrow> bool option" where
  "IsDevicePathValid mem Pcd DevicePath MaxSize = do { ASSERT (DevicePath \<noteq> 0); valid_from mem Pcd DevicePath MaxSize 0 0 }"

text \<open>The end node of a device path.\<close>

partial_function (option) end_node :: "memory \<Rightarrow> u64 \<Rightarrow> u64 option" where
  "end_node mem Node = do {
     Done \<leftarrow> IsDevicePathEnd mem Node;
     if Done then Some Node else do { Next \<leftarrow> NextDevicePathNode mem Node; end_node mem Next }
   }"

definition UefiDevicePathLibGetDevicePathSize :: "memory \<Rightarrow> u32 \<Rightarrow> u64 \<Rightarrow> u64 option" where
  "UefiDevicePathLibGetDevicePathSize mem Pcd DevicePath =
     (if DevicePath = 0 then Some 0
      else do {
        Valid \<leftarrow> IsDevicePathValid mem Pcd DevicePath 0;
        if \<not> Valid then Some 0
        else do {
          End \<leftarrow> end_node mem DevicePath;
          Length \<leftarrow> DevicePathNodeLength mem End;
          Some (End - DevicePath + Length)
        }
      })"

end
