(* ===== verification/Locate.thy ===== *)
theory Locate
  imports Handles DevicePath
begin

text \<open>
  Looking handles up (\<open>MdeModulePkg/Core/Dxe/Hand/Locate.c\<close>), and the services of \<open>Handle.c\<close> that install or uninstall several
  protocols at once.  The position of a search is the list of the links that are still to be visited.
\<close>

datatype search_type = AllHandles | ByRegisterNotify | ByProtocol | OtherSearch nat

record locate_position =
  SearchKey :: u64
  Remaining :: "u64 list"

type_synonym 'p get_next = "locate_position \<Rightarrow> 'p hdb \<Rightarrow> ((u64 \<times> u64 \<times> locate_position) \<times> 'p hdb) option"

text \<open>The next handle (zero at the end) and its interface.\<close>

definition CoreGetNextLocateAllHandles :: "'p get_next" where
  "CoreGetNextLocateAllHandles pos s =
     (case Remaining pos of
        [] \<Rightarrow> Some ((0, 0, pos), s)
      | h # l \<Rightarrow> do { _ \<leftarrow> ihandles s h; Some ((h, 0, pos\<lparr>Remaining := l\<rparr>), s) })"

text \<open>The links after a position in the list \<open>l\<close>.\<close>

definition after_link :: "list_link \<Rightarrow> u64 list \<Rightarrow> u64 list" where
  "after_link k l = (case k of ListHead \<Rightarrow> l | Link a \<Rightarrow> tl (dropWhile (\<lambda>x. x \<noteq> a) l))"

definition CoreGetNextLocateByRegisterNotify :: "'p get_next" where
  "CoreGetNextLocateByRegisterNotify pos s =
     (if SearchKey pos = 0 then Some ((0, 0, pos), s)
      else do {
        ProtNotify \<leftarrow> notifies s (SearchKey pos);
        let pos = pos\<lparr>SearchKey := 0\<rparr>;
        E \<leftarrow> entries s (NotifyProtocol ProtNotify);
        case after_link (Position ProtNotify) (protocol_entry.ByProtocol E) of
          [] \<Rightarrow> Some ((0, 0, pos), s)
        | p # _ \<Rightarrow> do { Prot \<leftarrow> interfaces s p; Some ((Handle Prot, Interface Prot, pos), s) }
      })"

fun next_by_protocol :: "u64 list \<Rightarrow> u64 \<Rightarrow> 'p hdb \<Rightarrow> ((u64 \<times> u64 \<times> u64 list) \<times> 'p hdb) option" where
  "next_by_protocol [] I s = Some ((0, I, []), s)"
| "next_by_protocol (p # l) I s = do {
     Prot \<leftarrow> interfaces s p;
     H \<leftarrow> ihandles s (Handle Prot);
     if LocateRequest H \<noteq> mEfiLocateHandleRequest s
     then Some ((Handle Prot, Interface Prot, l), put_handle (Handle Prot) (H\<lparr>LocateRequest := mEfiLocateHandleRequest s\<rparr>) s)
     else next_by_protocol l (Interface Prot) s
   }"

definition CoreGetNextLocateByProtocol :: "'p get_next" where
  "CoreGetNextLocateByProtocol pos s = do {
     ((h, I, l), s) \<leftarrow> next_by_protocol (Remaining pos) 0 s;
     Some ((h, I, pos\<lparr>Remaining := l\<rparr>), s)
   }"

text \<open>The loop that asks for the next handle until there is none.\<close>

partial_function (option) locate_loop :: "'p get_next \<Rightarrow> locate_position \<Rightarrow> 'p hdb \<Rightarrow> (u64 list \<times> 'p hdb) option" where
  "locate_loop GetNext pos s = do {
     ((h, _, pos), s) \<leftarrow> GetNext pos s;
     if h = 0 then Some ([], s)
     else do { (r, s) \<leftarrow> locate_loop GetNext pos s; Some (h # r, s) }
   }"

text \<open>Moving a registration on by one link.\<close>

definition advance :: "u64 \<Rightarrow> 'p hdb \<Rightarrow> 'p hdb option" where
  "advance n s = do {
     ProtNotify \<leftarrow> notifies s n;
     E \<leftarrow> entries s (NotifyProtocol ProtNotify);
     Some (put_notify n (ProtNotify\<lparr>Position := (case after_link (Position ProtNotify) (protocol_entry.ByProtocol E) of [] \<Rightarrow> ListHead | p # _ \<Rightarrow> Link p)\<rparr>) s)
   }"

text \<open>The search function and its first position.\<close>

definition start_search :: "'p hdb_env \<Rightarrow> search_type \<Rightarrow> guid option \<Rightarrow> u64 \<Rightarrow> 'p hdb \<Rightarrow> (efi_status + ('p get_next \<times> locate_position)) option" where
  "start_search env T P Search s =
     (case T of
        AllHandles \<Rightarrow> Some (Inr (CoreGetNextLocateAllHandles, \<lparr>SearchKey = Search, Remaining = gHandleList s\<rparr>))
      | ByRegisterNotify \<Rightarrow>
          if Search = 0 then Some (Inl EFI_INVALID_PARAMETER)
          else Some (Inr (CoreGetNextLocateByRegisterNotify, \<lparr>SearchKey = Search, Remaining = gHandleList s\<rparr>))
      | ByProtocol \<Rightarrow>
          (case P of
             None \<Rightarrow> Some (Inl EFI_INVALID_PARAMETER)
           | Some P \<Rightarrow> do {
               (e, _) \<leftarrow> CoreFindProtocolEntry env P False s;
               if e = 0 then Some (Inl EFI_NOT_FOUND)
               else do { E \<leftarrow> entries s e; Some (Inr (CoreGetNextLocateByProtocol, \<lparr>SearchKey = Search, Remaining = protocol_entry.ByProtocol E\<rparr>)) }
             })
      | OtherSearch _ \<Rightarrow> Some (Inl EFI_INVALID_PARAMETER))"

text \<open>\<open>BufferSize\<close> is \<open>None\<close> for a null pointer.  The result: the status, the value \<open>BufferSize\<close> points to afterwards, and the handles that are stored in
  the buffer.\<close>

definition CoreLocateHandle ::
  "'p hdb_env \<Rightarrow> search_type \<Rightarrow> guid option \<Rightarrow> u64 \<Rightarrow> u64 option \<Rightarrow> bool \<Rightarrow> 'p hdb \<Rightarrow> ((efi_status \<times> u64 option \<times> u64 list) \<times> 'p hdb) option" where
  "CoreLocateHandle env T P Search BufferSize Buffer s =
     (case BufferSize of
        None \<Rightarrow> Some ((EFI_INVALID_PARAMETER, None, []), s)
      | Some Size \<Rightarrow>
          if Size > 0 \<and> \<not> Buffer then Some ((EFI_INVALID_PARAMETER, Some Size, []), s)
          else do {
            s \<leftarrow> CoreAcquireProtocolLock s;
            x \<leftarrow> start_search env T P Search s;
            case x of
              Inl Status \<Rightarrow> do { s \<leftarrow> CoreReleaseProtocolLock env s; Some ((Status, Some Size, []), s) }
            | Inr (GetNext, pos) \<Rightarrow> do {
                let s = s\<lparr>mEfiLocateHandleRequest := mEfiLocateHandleRequest s + 1\<rparr>;
                (hs, s) \<leftarrow> locate_loop GetNext pos s;
                let ResultSize = 8 * of_nat (length hs);
                let Status = (if ResultSize = 0 then EFI_NOT_FOUND else if ResultSize > Size then EFI_BUFFER_TOO_SMALL else EFI_SUCCESS);
                s \<leftarrow> (if T = ByRegisterNotify \<and> \<not> EFI_ERROR Status then advance Search s else Some s);
                s \<leftarrow> CoreReleaseProtocolLock env s;
                Some ((Status, Some (if ResultSize = 0 then Size else ResultSize), take (unat Size div 8) hs), s)
              }
          })"

text \<open>The result: the status, the number of handles, the buffer and the handles in it.\<close>

definition CoreLocateHandleBuffer ::
  "'p hdb_env \<Rightarrow> search_type \<Rightarrow> guid option \<Rightarrow> u64 \<Rightarrow> bool \<Rightarrow> bool \<Rightarrow> 'p hdb \<Rightarrow> ((efi_status \<times> u64 \<times> u64 \<times> u64 list) \<times> 'p hdb) option" where
  "CoreLocateHandleBuffer env T P Search NumberHandles Buffer s =
     (if \<not> NumberHandles \<or> \<not> Buffer then Some ((EFI_INVALID_PARAMETER, 0, 0, []), s)
      else do {
        ((Status, Size, _), s) \<leftarrow> CoreLocateHandle env T P Search (Some 0) False s;
        if EFI_ERROR Status \<and> Status \<noteq> EFI_BUFFER_TOO_SMALL
        then Some ((if Status \<noteq> EFI_INVALID_PARAMETER then EFI_NOT_FOUND else Status, 0, 0, []), s)
        else do {
          BufferSize \<leftarrow> Size;
          (a, s) \<leftarrow> AllocatePool env BufferSize s;
          if a = 0 then Some ((EFI_OUT_OF_RESOURCES, 0, 0, []), s)
          else do {
            ((Status, Size, hs), s) \<leftarrow> CoreLocateHandle env T P Search (Some BufferSize) True s;
            BufferSize \<leftarrow> Size;
            Some ((Status, if EFI_ERROR Status then 0 else BufferSize div 8, a, hs), s)
          }
        }
      })"

text \<open>\<open>Out\<close> is whether the pointer for the interface is given; the second component is what is stored through it.\<close>

definition CoreLocateProtocol :: "'p hdb_env \<Rightarrow> guid option \<Rightarrow> u64 \<Rightarrow> bool \<Rightarrow> 'p hdb \<Rightarrow> ((efi_status \<times> u64 option) \<times> 'p hdb) option" where
  "CoreLocateProtocol env P Registration Out s =
     (if \<not> Out then Some ((EFI_INVALID_PARAMETER, None), s)
      else case P of
        None \<Rightarrow> Some ((EFI_NOT_FOUND, None), s)
      | Some P \<Rightarrow> do {
          s \<leftarrow> CoreAcquireProtocolLock s;
          let s = s\<lparr>mEfiLocateHandleRequest := mEfiLocateHandleRequest s + 1\<rparr>;
          (r, s) \<leftarrow>
            (if Registration = 0 then do {
               (e, _) \<leftarrow> CoreFindProtocolEntry env P False s;
               if e = 0 then Some ((EFI_NOT_FOUND, Some 0), s)
               else do {
                 E \<leftarrow> entries s e;
                 ((h, I, _), s) \<leftarrow> CoreGetNextLocateByProtocol \<lparr>SearchKey = 0, Remaining = protocol_entry.ByProtocol E\<rparr> s;
                 Some ((if h = 0 then EFI_NOT_FOUND else EFI_SUCCESS, Some I), s)
               }
             } else do {
               ((h, I, _), s) \<leftarrow> CoreGetNextLocateByRegisterNotify \<lparr>SearchKey = Registration, Remaining = gHandleList s\<rparr> s;
               s \<leftarrow> (if h = 0 then Some s else advance Registration s);
               Some ((if h = 0 then EFI_NOT_FOUND else EFI_SUCCESS, Some I), s)
             });
          s \<leftarrow> CoreReleaseProtocolLock env s;
          Some (r, s)
        })"

section \<open>Device paths\<close>

definition gEfiDevicePathProtocolGuid :: guid where
  "gEfiDevicePathProtocolGuid = [0x91, 0x6E, 0x57, 0x09, 0x3F, 0x6D, 0xD2, 0x11, 0x8E, 0x39, 0x00, 0xA0, 0xC9, 0x69, 0x72, 0x3B]"

text \<open>Where the first instance of a device path ends.\<close>

partial_function (option) end_of_instance :: "memory \<Rightarrow> u64 \<Rightarrow> u64 option" where
  "end_of_instance mem Node = do {
     Done \<leftarrow> IsDevicePathEnd mem Node;
     if Done then Some Node
     else do {
       Done \<leftarrow> IsDevicePathEndInstance mem Node;
       if Done then Some Node else do { Next \<leftarrow> NextDevicePathNode mem Node; end_of_instance mem Next }
     }
   }"

definition same_bytes :: "memory \<Rightarrow> u64 \<Rightarrow> u64 \<Rightarrow> nat \<Rightarrow> bool" where
  "same_bytes mem a b n \<longleftrightarrow> (\<forall>i\<in>set [0..<n]. mem (a + of_nat i) = mem (b + of_nat i))"

text \<open>The longest device path of a handle that the source begins with: its size without the end node, and the handle.\<close>

fun best_device :: "'p hdb_env \<Rightarrow> memory \<Rightarrow> u32 \<Rightarrow> u64 \<Rightarrow> int \<Rightarrow> u64 list \<Rightarrow> int \<times> u64 \<Rightarrow> 'p hdb \<Rightarrow> ((int \<times> u64) \<times> 'p hdb) option" where
  "best_device env mem Pcd SourcePath SourceSize [] best s = Some (best, s)"
| "best_device env mem Pcd SourcePath SourceSize (h # l) best s = do {
     ((Status, I), s) \<leftarrow> CoreHandleProtocol env h (Some gEfiDevicePathProtocolGuid) True s;
     if EFI_ERROR Status then best_device env mem Pcd SourcePath SourceSize l best s
     else do {
       path \<leftarrow> I;
       n \<leftarrow> UefiDevicePathLibGetDevicePathSize mem Pcd path;
       let Size = sint (n - 4);
       ASSERT (Size \<ge> 0);
       if Size \<le> SourceSize \<and> same_bytes mem SourcePath path (nat Size) then do {
         ASSERT (Size \<noteq> fst best);
         best_device env mem Pcd SourcePath SourceSize l (if Size > fst best then (Size, h) else best) s
       } else best_device env mem Pcd SourcePath SourceSize l best s
     }
   }"

text \<open>\<open>Path\<close> is \<open>None\<close> for a null pointer, else the value it points to.  The result: the status, and what is stored through the two pointers.\<close>

definition CoreLocateDevicePath ::
  "'p hdb_env \<Rightarrow> memory \<Rightarrow> u32 \<Rightarrow> guid option \<Rightarrow> u64 option \<Rightarrow> bool \<Rightarrow> 'p hdb \<Rightarrow> ((efi_status \<times> (u64 \<times> u64) option) \<times> 'p hdb) option" where
  "CoreLocateDevicePath env mem Pcd P Path Device s =
     (case (P, Path) of
        (Some P, Some SourcePath) \<Rightarrow>
          if SourcePath = 0 then Some ((EFI_INVALID_PARAMETER, None), s)
          else do {
            End \<leftarrow> end_of_instance mem SourcePath;
            let SourceSize = sint (End - SourcePath);
            ((Status, HandleCount, Handles, hs), s) \<leftarrow> CoreLocateHandleBuffer env ByProtocol (Some P) 0 True True s;
            if EFI_ERROR Status \<or> HandleCount = 0 then Some ((EFI_NOT_FOUND, None), s)
            else do {
              ((BestMatch, BestDevice), s) \<leftarrow> best_device env mem Pcd SourcePath SourceSize hs (-1, 0) s;
              s \<leftarrow> FreePool env Handles s;
              if BestMatch = -1 then Some ((EFI_NOT_FOUND, None), s)
              else if \<not> Device then Some ((EFI_INVALID_PARAMETER, None), s)
              else Some ((EFI_SUCCESS, Some (SourcePath + of_int BestMatch, BestDevice)), s)
            }
          }
      | _ \<Rightarrow> Some ((EFI_INVALID_PARAMETER, None), s))"

section \<open>Several protocols at once\<close>

text \<open>Whether a handle has this device path already.\<close>

definition path_installed :: "'p hdb_env \<Rightarrow> memory \<Rightarrow> u32 \<Rightarrow> guid \<Rightarrow> u64 \<Rightarrow> 'p hdb \<Rightarrow> (bool \<times> 'p hdb) option" where
  "path_installed env mem Pcd P I s =
     (if P \<noteq> gEfiDevicePathProtocolGuid then Some (False, s)
      else do {
        ((Status, r), s) \<leftarrow> CoreLocateDevicePath env mem Pcd (Some gEfiDevicePathProtocolGuid) (Some I) True s;
        case r of
          None \<Rightarrow> Some (False, s)
        | Some (DevicePath, DeviceHandle) \<Rightarrow>
            if \<not> EFI_ERROR Status \<and> DeviceHandle \<noteq> 0 then do { Done \<leftarrow> IsDevicePathEnd mem DevicePath; Some (Done, s) }
            else Some (False, s)
      })"

text \<open>The loop over the arguments: the status, the handle and the number of protocols installed.\<close>

fun install_list :: "'p hdb_env \<Rightarrow> memory \<Rightarrow> u32 \<Rightarrow> u64 \<Rightarrow> (guid \<times> u64) list \<Rightarrow> nat \<Rightarrow> 'p hdb \<Rightarrow> ((efi_status \<times> u64 \<times> nat) \<times> 'p hdb) option" where
  "install_list env mem Pcd h [] n s = Some ((EFI_SUCCESS, h, n), s)"
| "install_list env mem Pcd h ((P, I) # l) n s = do {
     (already, s) \<leftarrow> path_installed env mem Pcd P I s;
     if already then Some ((EFI_ALREADY_STARTED, h, n), s)
     else do {
       ((Status, UserHandle), s) \<leftarrow> CoreInstallProtocolInterface env (Some h) (Some P) 0 I s;
       h \<leftarrow> UserHandle;
       if EFI_ERROR Status then Some ((Status, h, n), s) else install_list env mem Pcd h l (n + 1) s
     }
   }"

fun undo_install :: "'p hdb_env \<Rightarrow> u64 \<Rightarrow> (guid \<times> u64) list \<Rightarrow> 'p hdb \<Rightarrow> 'p hdb option" where
  "undo_install env h [] s = Some s"
| "undo_install env h ((P, I) # l) s = do { (_, s) \<leftarrow> CoreUninstallProtocolInterface env h (Some P) I s; undo_install env h l s }"

text \<open>Between \<open>CoreRaiseTpl (TPL_NOTIFY)\<close> and \<open>CoreRestoreTpl\<close> the release of the lock runs no notifications: they wait for the end.\<close>

definition CoreInstallMultipleProtocolInterfaces ::
  "'p hdb_env \<Rightarrow> memory \<Rightarrow> u32 \<Rightarrow> u64 option \<Rightarrow> (guid \<times> u64) list \<Rightarrow> 'p hdb \<Rightarrow> ((efi_status \<times> u64 option) \<times> 'p hdb) option" where
  "CoreInstallMultipleProtocolInterfaces env mem Pcd UserHandle args s =
     (case UserHandle of
        None \<Rightarrow> Some ((EFI_INVALID_PARAMETER, None), s)
      | Some OldHandle \<Rightarrow> do {
          let raised = env\<lparr>Notifications := Some\<rparr>;
          ((Status, h, n), s) \<leftarrow> install_list raised mem Pcd OldHandle args 0 s;
          s \<leftarrow> (if EFI_ERROR Status then undo_install raised h (take n args) s else Some s);
          s \<leftarrow> Notifications env s;
          Some ((Status, Some (if EFI_ERROR Status then OldHandle else h)), s)
        })"

fun uninstall_list :: "'p hdb_env \<Rightarrow> u64 \<Rightarrow> (guid \<times> u64) list \<Rightarrow> nat \<Rightarrow> 'p hdb \<Rightarrow> ((efi_status \<times> nat) \<times> 'p hdb) option" where
  "uninstall_list env h [] n s = Some ((EFI_SUCCESS, n), s)"
| "uninstall_list env h ((P, I) # l) n s = do {
     (Status, s) \<leftarrow> CoreUninstallProtocolInterface env h (Some P) I s;
     if EFI_ERROR Status then Some ((Status, n), s) else uninstall_list env h l (n + 1) s
   }"

fun undo_uninstall :: "'p hdb_env \<Rightarrow> u64 \<Rightarrow> (guid \<times> u64) list \<Rightarrow> 'p hdb \<Rightarrow> 'p hdb option" where
  "undo_uninstall env h [] s = Some s"
| "undo_uninstall env h ((P, I) # l) s = do {
     ((_, UserHandle), s) \<leftarrow> CoreInstallProtocolInterface env (Some h) (Some P) 0 I s;
     h \<leftarrow> UserHandle;
     undo_uninstall env h l s
   }"

definition CoreUninstallMultipleProtocolInterfaces :: "'p hdb_env \<Rightarrow> u64 \<Rightarrow> (guid \<times> u64) list \<Rightarrow> 'p hdb \<Rightarrow> (efi_status \<times> 'p hdb) option" where
  "CoreUninstallMultipleProtocolInterfaces env h args s = do {
     ((Status, n), s) \<leftarrow> uninstall_list env h args 0 s;
     s \<leftarrow> (if EFI_ERROR Status then undo_uninstall env h (take n args) s else Some s);
     Some (Status, s)
   }"

end
