(* ===== verification/LocateSafe.thy ===== *)
theory LocateSafe
  imports HandleDrop Locate
begin

text \<open>
  What the searches find, and that they and the services on several protocols keep a well-formed handle database well formed.
\<close>

section \<open>Marking handles\<close>

text \<open>A search by protocol leaves the number of the request on the handles it has found.\<close>

definition marked :: "u64 set \<Rightarrow> 'p hdb \<Rightarrow> 'p hdb" where
  "marked X s = s\<lparr>ihandles := \<lambda>h. if h \<in> X then map_option (\<lambda>H. H\<lparr>LocateRequest := mEfiLocateHandleRequest s\<rparr>) (ihandles s h) else ihandles s h\<rparr>"

definition is_marked :: "'p hdb \<Rightarrow> u64 \<Rightarrow> bool" where
  "is_marked s h \<longleftrightarrow> (\<exists>H. ihandles s h = Some H \<and> LocateRequest H = mEfiLocateHandleRequest s)"

lemma marked_fields [simp]:
  "gHandleList (marked X s) = gHandleList s" "mProtocolDatabase (marked X s) = mProtocolDatabase s" "entries (marked X s) = entries s"
  "interfaces (marked X s) = interfaces s" "notifies (marked X s) = notifies s" "Rest (marked X s) = Rest s"
  "mEfiLocateHandleRequest (marked X s) = mEfiLocateHandleRequest s" "gProtocolDatabaseLock (marked X s) = gProtocolDatabaseLock s"
  "gHandleDatabaseKey (marked X s) = gHandleDatabaseKey s"
  by (simp_all add: marked_def)

lemma marked_none: "marked {} s = s"
  by (simp add: marked_def)

lemma marked_dom: "ihandles (marked X s) h = None \<longleftrightarrow> ihandles s h = None"
  by (simp add: marked_def)

lemma marked_more: "marked Y (marked X s) = marked (X \<union> Y) s"
  by (auto simp: marked_def fun_eq_iff option.map_comp comp_def intro!: hdb.equality)

lemma is_marked_marked: "is_marked (marked X s) h \<longleftrightarrow> is_marked s h \<or> h \<in> X \<and> ihandles s h \<noteq> None"
  by (cases "ihandles s h") (auto simp: is_marked_def marked_def)

lemma marked_one: "ihandles s h = Some H \<Longrightarrow> put_handle h (H\<lparr>LocateRequest := mEfiLocateHandleRequest s\<rparr>) s = marked {h} s"
  by (auto simp: marked_def put_handle_def fun_eq_iff)

lemma marked_ok: "db_ok inuse Z (marked X s) = db_ok inuse Z s"
proof -
  have "handle_ok IF h (H\<lparr>LocateRequest := r\<rparr>) = handle_ok IF h H" for IF h H r by (simp add: handle_ok_def)
  then have "(\<forall>h H. ihandles (marked X s) h = Some H \<longrightarrow> handle_ok (interfaces s) h H) \<longleftrightarrow> (\<forall>h H. ihandles s h = Some H \<longrightarrow> handle_ok (interfaces s) h H)"
    unfolding marked_def by (auto; metis map_option_eq_Some option.simps(9))
  moreover have "dom (ihandles (marked X s)) = dom (ihandles s)" unfolding dom_def by (simp add: marked_dom del: not_None_eq)
  ultimately have "db_inv (marked X s) = db_inv s" by (simp add: db_inv_def links_ok_def marked_dom del: not_None_eq)
  moreover have "stands (marked X s) a k = stands s a k" for a k by (cases k) (simp_all add: marked_dom del: not_None_eq)
  then have "stands (marked X s) = stands s" by (intro ext)
  then have "memory_ok inuse Z (marked X s) = memory_ok inuse Z s" by (simp add: memory_ok_def single_def owned_def)
  ultimately show ?thesis by (simp add: db_ok_def)
qed

section \<open>The searches\<close>

text \<open>The interfaces of a list stand on handles of the database.\<close>

definition on_handles :: "'p hdb \<Rightarrow> u64 list \<Rightarrow> bool" where
  "on_handles s l \<longleftrightarrow> (\<forall>p\<in>set l. \<exists>J H. interfaces s p = Some J \<and> Handle J \<noteq> 0 \<and> ihandles s (Handle J) = Some H)"

lemma on_handles_marked [simp]: "on_handles (marked X s) l = on_handles s l"
proof -
  have "(\<exists>H. ihandles (marked X s) h = Some H) \<longleftrightarrow> (\<exists>H. ihandles s h = Some H)" for h using marked_dom [of X s h] by (metis not_None_eq)
  then show ?thesis by (simp add: on_handles_def)
qed

lemma on_handles_Cons:
  "on_handles s (p # l) \<longleftrightarrow> (\<exists>J H. interfaces s p = Some J \<and> Handle J \<noteq> 0 \<and> ihandles s (Handle J) = Some H) \<and> on_handles s l"
  by (simp add: on_handles_def)

lemma entry_on_handles:
  assumes "db_inv s" "entries s e = Some E"
  shows "on_handles s (protocol_entry.ByProtocol E)"
  unfolding on_handles_def
proof
  fix p assume "p \<in> set (protocol_entry.ByProtocol E)"
  then obtain J where J: "interfaces s p = Some J" using entry_lists(1) [OF assms] by blast
  obtain H where "ihandles s (Handle J) = Some H" using db_invD(9) [OF assms(1) J] by blast
  then show "\<exists>J H. interfaces s p = Some J \<and> Handle J \<noteq> 0 \<and> ihandles s (Handle J) = Some H" using J handle_protocols(4) [OF assms(1)] by blast
qed

definition handle_of :: "'p hdb \<Rightarrow> u64 \<Rightarrow> u64" where
  "handle_of s p = (case interfaces s p of None \<Rightarrow> 0 | Some J \<Rightarrow> Handle J)"

lemma next_by_protocol_result:
  assumes "on_handles s l"
  shows "(\<exists>I'. next_by_protocol l I s = Some ((0, I', []), s)) \<and> (\<forall>p\<in>set l. is_marked s (handle_of s p)) \<or>
    (\<exists>k p r J. l = k @ p # r \<and> (\<forall>q\<in>set k. is_marked s (handle_of s q)) \<and> interfaces s p = Some J \<and> Handle J \<noteq> 0 \<and> \<not> is_marked s (Handle J) \<and>
      next_by_protocol l I s = Some ((Handle J, Interface J, r), marked {Handle J} s))"
  using assms
proof (induction l arbitrary: I)
  case (Cons p l)
  obtain J H where J: "interfaces s p = Some J" "Handle J \<noteq> 0" "ihandles s (Handle J) = Some H" using Cons.prems by (auto simp: on_handles_Cons)
  show ?case
  proof (cases "LocateRequest H = mEfiLocateHandleRequest s")
    case False
    then have "next_by_protocol (p # l) I s = Some ((Handle J, Interface J, l), marked {Handle J} s)" using J by (simp add: marked_one)
    moreover have "\<not> is_marked s (Handle J)" using False J by (simp add: is_marked_def)
    ultimately show ?thesis using J by (intro disjI2 exI [of _ "[]"] exI [of _ p] exI [of _ l] exI [of _ J]) simp
  next
    case True
    then have n: "next_by_protocol (p # l) I s = next_by_protocol l (Interface J) s" using J by simp
    have m: "is_marked s (handle_of s p)" using True J by (simp add: is_marked_def handle_of_def)
    have "on_handles s l" using Cons.prems by (simp add: on_handles_Cons)
    from Cons.IH [OF this, of "Interface J"] show ?thesis
    proof
      assume "(\<exists>I'. next_by_protocol l (Interface J) s = Some ((0, I', []), s)) \<and> (\<forall>p\<in>set l. is_marked s (handle_of s p))"
      then show ?thesis using m n by auto
    next
      assume "\<exists>k q r K. l = k @ q # r \<and> (\<forall>q\<in>set k. is_marked s (handle_of s q)) \<and> interfaces s q = Some K \<and> Handle K \<noteq> 0 \<and> \<not> is_marked s (Handle K) \<and>
        next_by_protocol l (Interface J) s = Some ((Handle K, Interface K, r), marked {Handle K} s)"
      then obtain k q r K where k: "l = k @ q # r" "\<forall>q\<in>set k. is_marked s (handle_of s q)" "interfaces s q = Some K" "Handle K \<noteq> 0" "\<not> is_marked s (Handle K)"
        "next_by_protocol l (Interface J) s = Some ((Handle K, Interface K, r), marked {Handle K} s)" by blast
      show ?thesis using k m n by (intro disjI2 exI [of _ "p # k"] exI [of _ q] exI [of _ r] exI [of _ K]) simp
    qed
  qed
qed simp

lemma locate_step:
  assumes "GetNext pos s = Some ((h, I, pos'), s')"
  shows "locate_loop GetNext pos s = (if h = 0 then Some ([], s') else do { (r, s) \<leftarrow> locate_loop GetNext pos' s'; Some (h # r, s) })"
  using assms by (subst locate_loop.simps) simp

text \<open>The search by protocol finds every handle that is not marked, once.\<close>

lemma locate_by_protocol:
  assumes "on_handles s l"
  shows "\<exists>hs. locate_loop CoreGetNextLocateByProtocol \<lparr>SearchKey = k, Remaining = l\<rparr> s = Some (hs, marked (set hs) s) \<and> distinct hs \<and>
    set hs = {h \<in> handle_of s ` set l. \<not> is_marked s h} \<and> length hs \<le> length l"
  using assms
proof (induction l arbitrary: s rule: length_induct)
  case (1 l)
  from next_by_protocol_result [OF 1(2), of 0] show ?case
  proof
    assume "(\<exists>I'. next_by_protocol l 0 s = Some ((0, I', []), s)) \<and> (\<forall>p\<in>set l. is_marked s (handle_of s p))"
    then obtain I' where n: "CoreGetNextLocateByProtocol \<lparr>SearchKey = k, Remaining = l\<rparr> s = Some ((0, I', \<lparr>SearchKey = k, Remaining = []\<rparr>), s)"
        "\<forall>p\<in>set l. is_marked s (handle_of s p)" by (auto simp: CoreGetNextLocateByProtocol_def)
    then show ?thesis using locate_step [where GetNext = CoreGetNextLocateByProtocol, OF n(1)] by (intro exI [of _ "[]"]) (auto simp: marked_none)
  next
    assume "\<exists>k p r J. l = k @ p # r \<and> (\<forall>q\<in>set k. is_marked s (handle_of s q)) \<and> interfaces s p = Some J \<and> Handle J \<noteq> 0 \<and> \<not> is_marked s (Handle J) \<and>
      next_by_protocol l 0 s = Some ((Handle J, Interface J, r), marked {Handle J} s)"
    then obtain m p r J where l: "l = m @ p # r" "\<forall>q\<in>set m. is_marked s (handle_of s q)" "interfaces s p = Some J" "Handle J \<noteq> 0" "\<not> is_marked s (Handle J)"
      "next_by_protocol l 0 s = Some ((Handle J, Interface J, r), marked {Handle J} s)" by blast
    have "on_handles (marked {Handle J} s) r" "length r < length l" using 1(2) l(1) unfolding on_handles_marked by (simp_all add: on_handles_def)
    then obtain hs where hs: "locate_loop CoreGetNextLocateByProtocol \<lparr>SearchKey = k, Remaining = r\<rparr> (marked {Handle J} s) =
        Some (hs, marked (set hs) (marked {Handle J} s))" "distinct hs"
      "set hs = {h \<in> handle_of (marked {Handle J} s) ` set r. \<not> is_marked (marked {Handle J} s) h}" "length hs \<le> length r"
      using 1(1) by blast
    have o: "handle_of (marked {Handle J} s) = handle_of s" by (simp add: handle_of_def fun_eq_iff)
    have J: "handle_of s p = Handle J" "ihandles s (Handle J) \<noteq> None" using l(1,3) 1(2) by (auto simp: handle_of_def on_handles_def)
    have s: "set hs = {h \<in> handle_of s ` set r. \<not> is_marked s h \<and> h \<noteq> Handle J}" using hs(3) J(2) unfolding o is_marked_marked by auto
    have n: "CoreGetNextLocateByProtocol \<lparr>SearchKey = k, Remaining = l\<rparr> s = Some ((Handle J, Interface J, \<lparr>SearchKey = k, Remaining = r\<rparr>), marked {Handle J} s)"
      using l(6) by (simp add: CoreGetNextLocateByProtocol_def)
    have "locate_loop CoreGetNextLocateByProtocol \<lparr>SearchKey = k, Remaining = l\<rparr> s = Some (Handle J # hs, marked (set (Handle J # hs)) s)"
      using l(4) hs(1) locate_step [where GetNext = CoreGetNextLocateByProtocol, OF n] by (simp add: marked_more)
    moreover have "set (Handle J # hs) = {h \<in> handle_of s ` set l. \<not> is_marked s h}" using s l(1,2,5) J(1) by auto
    moreover have "distinct (Handle J # hs)" using hs(2) s by simp
    ultimately show ?thesis using hs(4) l(1) by (intro exI [of _ "Handle J # hs"]) simp
  qed
qed

text \<open>The search for all handles finds the list.\<close>

lemma locate_all:
  assumes "set l \<subseteq> dom (ihandles s)" "0 \<notin> set l"
  shows "locate_loop CoreGetNextLocateAllHandles \<lparr>SearchKey = k, Remaining = l\<rparr> s = Some (l, s)"
  using assms
proof (induction l)
  case (Cons h l)
  obtain H where "ihandles s h = Some H" using Cons.prems(1) by auto
  then have n: "CoreGetNextLocateAllHandles \<lparr>SearchKey = k, Remaining = h # l\<rparr> s = Some ((h, 0, \<lparr>SearchKey = k, Remaining = l\<rparr>), s)"
    by (simp add: CoreGetNextLocateAllHandles_def)
  show ?case using Cons locate_step [where GetNext = CoreGetNextLocateAllHandles, OF n] by simp
next
  case Nil
  have n: "CoreGetNextLocateAllHandles \<lparr>SearchKey = k, Remaining = []\<rparr> s = Some ((0, 0, \<lparr>SearchKey = k, Remaining = []\<rparr>), s)"
    by (simp add: CoreGetNextLocateAllHandles_def)
  show ?case using locate_step [where GetNext = CoreGetNextLocateAllHandles, OF n] by simp
qed

lemma after_link_subset: "set (after_link k l) \<subseteq> set l"
proof (cases k)
  case (Link a)
  have "set (tl r) \<subseteq> set r" for r :: "u64 list" by (cases r) auto
  moreover have "set (dropWhile (\<lambda>x. x \<noteq> a) l) \<subseteq> set l" using set_dropWhileD by (rule subsetI)
  ultimately show ?thesis using Link by (auto simp: after_link_def)
qed (simp add: after_link_def)

text \<open>A registration finds the interface after its position, if there is one.\<close>

lemma locate_by_notify:
  assumes "db_inv s" "notifies s n = Some x" "entries s (NotifyProtocol x) = Some E"
  shows "locate_loop CoreGetNextLocateByRegisterNotify \<lparr>SearchKey = n, Remaining = l\<rparr> s =
    Some (case after_link (Position x) (protocol_entry.ByProtocol E) of [] \<Rightarrow> [] | p # _ \<Rightarrow> [handle_of s p], s)"
proof (cases "after_link (Position x) (protocol_entry.ByProtocol E)")
  case Nil
  then have "CoreGetNextLocateByRegisterNotify \<lparr>SearchKey = n, Remaining = l\<rparr> s = Some ((0, 0, \<lparr>SearchKey = 0, Remaining = l\<rparr>), s)"
    using assms db_invD(12) [OF assms(1,2)] by (simp add: CoreGetNextLocateByRegisterNotify_def)
  from locate_step [where GetNext = CoreGetNextLocateByRegisterNotify, OF this] show ?thesis using Nil by simp
next
  case (Cons p r)
  then have "p \<in> set (protocol_entry.ByProtocol E)" using after_link_subset [of "Position x" "protocol_entry.ByProtocol E"] by auto
  then obtain J where J: "interfaces s p = Some J" "Handle J \<noteq> 0" using entry_on_handles [OF assms(1,3)] by (auto simp: on_handles_def)
  have n: "n \<noteq> 0" by (rule db_invD(12) [OF assms(1,2)])
  have z: "CoreGetNextLocateByRegisterNotify \<lparr>SearchKey = 0, Remaining = l\<rparr> s = Some ((0, 0, \<lparr>SearchKey = 0, Remaining = l\<rparr>), s)"
    by (simp add: CoreGetNextLocateByRegisterNotify_def)
  have "CoreGetNextLocateByRegisterNotify \<lparr>SearchKey = n, Remaining = l\<rparr> s = Some ((Handle J, Interface J, \<lparr>SearchKey = 0, Remaining = l\<rparr>), s)"
    using assms Cons J n by (simp add: CoreGetNextLocateByRegisterNotify_def)
  from locate_step [where GetNext = CoreGetNextLocateByRegisterNotify, OF this] locate_step [where GetNext = CoreGetNextLocateByRegisterNotify, OF z]
  show ?thesis using Cons J by (simp add: handle_of_def)
qed

section \<open>Looking handles up\<close>

lemma advance_ok:
  assumes "advance n s = Some s'" "db_ok inuse Z s"
  shows "db_ok inuse Z s'"
proof -
  have inv: "db_inv s" and mem: "memory_ok inuse Z s" using assms(2) by (simp_all add: db_ok_def)
  obtain x E where x: "notifies s n = Some x" "entries s (NotifyProtocol x) = Some E"
      "s' = put_notify n (x\<lparr>Position := (case after_link (Position x) (protocol_entry.ByProtocol E) of [] \<Rightarrow> ListHead | p # _ \<Rightarrow> Link p)\<rparr>) s"
    using assms(1) by (auto simp: advance_def)
  let ?x = "x\<lparr>Position := (case after_link (Position x) (protocol_entry.ByProtocol E) of [] \<Rightarrow> ListHead | p # _ \<Rightarrow> Link p)\<rparr>"
  have p: "position_ok (Position ?x) (protocol_entry.ByProtocol E)"
    using after_link_subset [of "Position x" "protocol_entry.ByProtocol E"] by (auto simp: position_ok_def split: list.splits)
  have l: "links_ok (gHandleList s) (mProtocolDatabase s) (ihandles s) (entries s) (interfaces s) (notifies s)" using inv by (simp add: db_inv_def)
  have "NotifyProtocol ?x = NotifyProtocol x" by simp
  from links_position [OF l x(1) this x(2) p] have "db_inv s'" by (simp add: x(3) db_inv_def put_notify_def)
  moreover have "stands s' b l = stands s b l" for b l using x(1) by (cases l) (auto simp: x(3) put_notify_def)
  then have "stands s' = stands s" by (intro ext)
  then have "memory_ok inuse Z s'" using memory_same [OF mem] by (simp add: x(3) put_notify_def)
  ultimately show ?thesis by (simp add: db_ok_def)
qed

lemma by_notify_same: "CoreGetNextLocateByRegisterNotify pos s = Some (r, s') \<Longrightarrow> s' = s"
proof (cases "SearchKey pos = 0")
  case False
  assume h: "CoreGetNextLocateByRegisterNotify pos s = Some (r, s')"
  then obtain x E where x: "notifies s (SearchKey pos) = Some x" "entries s (NotifyProtocol x) = Some E"
    using False by (auto simp: CoreGetNextLocateByRegisterNotify_def Let_def)
  show ?thesis using h False x
    by (cases "after_link (Position x) (protocol_entry.ByProtocol E)") (auto simp: CoreGetNextLocateByRegisterNotify_def Let_def)
qed (simp add: CoreGetNextLocateByRegisterNotify_def)

text \<open>At the priority \<open>TPL_NOTIFY\<close> no notification runs.\<close>

lemma raised:
  assumes "database_clients env inuse"
  shows "database_clients (env\<lparr>Notifications := Some\<rparr>) inuse"
proof -
  note l = database_clients.axioms [OF assms]
  have "object_pool (env\<lparr>Notifications := Some\<rparr>) inuse" using l(1) by (simp add: object_pool_def)
  moreover have "database_clients_axioms (env\<lparr>Notifications := Some\<rparr>) inuse" using l(2) by (simp add: database_clients_axioms_def)
  ultimately show ?thesis by (rule database_clients.intro)
qed

context database_clients
begin

lemma start_search_loop:
  assumes "start_search env T P Search s = Some (Inr (G, pos))" "locate_loop G pos (s\<lparr>mEfiLocateHandleRequest := r\<rparr>) = Some (hs, s')" "db_ok inuse Z s"
  shows "db_ok inuse Z s' \<and> length hs \<le> 2 ^ 57"
proof -
  let ?s = "s\<lparr>mEfiLocateHandleRequest := r\<rparr>"
  have o: "db_ok inuse Z ?s" using assms(3) by simp
  then have inv: "db_inv ?s" by (simp add: db_ok_def)
  have inv0: "db_inv s" using assms(3) by (simp add: db_ok_def)
  consider "T = AllHandles" "G = CoreGetNextLocateAllHandles" "pos = \<lparr>SearchKey = Search, Remaining = gHandleList s\<rparr>"
    | "T = ByRegisterNotify" "G = CoreGetNextLocateByRegisterNotify" "pos = \<lparr>SearchKey = Search, Remaining = gHandleList s\<rparr>" "Search \<noteq> 0"
    | e E where "T = search_type.ByProtocol" "G = CoreGetNextLocateByProtocol" "entries s e = Some E" "pos = \<lparr>SearchKey = Search, Remaining = protocol_entry.ByProtocol E\<rparr>"
    using assms(1) by (cases T) (auto simp: start_search_def split: option.splits if_splits)
  then show ?thesis
  proof cases
    case 1
    have l: "set (gHandleList s) \<subseteq> dom (ihandles ?s)" "0 \<notin> set (gHandleList s)"
      using db_invD(2) [OF inv0] handle_protocols(4) [OF inv0] by auto
    have "hs = gHandleList s" "s' = ?s" using locate_all [OF l, of Search] assms(2) unfolding 1 by simp_all
    moreover have "\<exists>k. stands s h k" if "h \<in> set (gHandleList s)" for h using that db_invD(2) [OF inv0] by (intro exI [of _ AHandle]) auto
    then have "length (gHandleList s) \<le> 2 ^ 57" by (rule owned_list [OF assms(3) db_invD(1) [OF inv0]])
    ultimately show ?thesis using o by simp
  next
    case 2
    obtain x where x: "notifies ?s Search = Some x" using assms(2) 2(4) unfolding 2
      by (subst (asm) locate_loop.simps) (auto simp: CoreGetNextLocateByRegisterNotify_def)
    obtain E where E: "entries ?s (NotifyProtocol x) = Some E" using db_invD(13) [OF inv x] by blast
    show ?thesis using locate_by_notify [OF inv x E, of "gHandleList s"] assms(2) o unfolding 2 by (auto split: list.splits)
  next
    case 3
    have e: "entries ?s e = Some E" using 3(3) by simp
    obtain hs' where h: "locate_loop CoreGetNextLocateByProtocol \<lparr>SearchKey = Search, Remaining = protocol_entry.ByProtocol E\<rparr> ?s = Some (hs', marked (set hs') ?s)"
        "length hs' \<le> length (protocol_entry.ByProtocol E)"
      using locate_by_protocol [OF entry_on_handles [OF inv e]] by blast
    have "\<exists>k. stands s p k" if "p \<in> set (protocol_entry.ByProtocol E)" for p
      using that entry_lists(1) [OF inv0 3(3)] by (intro exI [of _ AnInterface]) auto
    then have "length (protocol_entry.ByProtocol E) \<le> 2 ^ 57" by (rule owned_list [OF assms(3) entry_lists(2) [OF inv0 3(3)]])
    moreover have "hs = hs'" "s' = marked (set hs') ?s" using h(1) assms(2) unfolding 3 by simp_all
    ultimately show ?thesis using o h(2) by (simp add: marked_ok)
  qed
qed

lemma CoreLocateHandle_ok:
  assumes "CoreLocateHandle env T P Search BufferSize Buffer s = Some ((Status, Size', out), s')" "db_ok inuse Z s"
  shows "db_ok inuse Z s'" "Size' = Some n \<Longrightarrow> \<not> EFI_ERROR Status \<or> Status = EFI_BUFFER_TOO_SMALL \<Longrightarrow> unat n < 2 ^ 63"
proof -
  have "db_ok inuse Z s' \<and> (\<forall>n. Size' = Some n \<longrightarrow> \<not> EFI_ERROR Status \<or> Status = EFI_BUFFER_TOO_SMALL \<longrightarrow> unat n < 2 ^ 63)"
  proof (cases "BufferSize = None \<or> the BufferSize > 0 \<and> \<not> Buffer")
    case True
    then show ?thesis using assms by (auto simp: CoreLocateHandle_def split: option.splits if_splits)
  next
    case False
    then obtain Size where B: "BufferSize = Some Size" "\<not> (Size > 0 \<and> \<not> Buffer)" by auto
    obtain s1 y where s1: "CoreAcquireProtocolLock s = Some s1" "start_search env T P Search s1 = Some y"
      using assms(1) B by (auto simp: CoreLocateHandle_def)
    have o: "db_ok inuse Z s1" by (rule acquire_ok [OF s1(1) assms(2)])
    show ?thesis
    proof (cases y)
      case (Inl St)
      then have "EFI_ERROR St \<and> St \<noteq> EFI_BUFFER_TOO_SMALL"
        using s1(2) by (auto simp: start_search_def split: search_type.splits option.splits if_splits)
      then show ?thesis using Inl assms(1) B s1 release_ok [OF _ o] by (auto simp: CoreLocateHandle_def)
    next
      case (Inr g)
      obtain G pos where g: "g = (G, pos)" by (cases g)
      let ?s1 = "s1\<lparr>mEfiLocateHandleRequest := mEfiLocateHandleRequest s1 + 1\<rparr>"
      obtain hs s2 s3 where h: "locate_loop G pos ?s1 = Some (hs, s2)" "s3 = s2 \<or> advance Search s2 = Some s3" "CoreReleaseProtocolLock env s3 = Some s'"
        using assms(1) B s1 Inr g by (auto simp: CoreLocateHandle_def Let_def split: if_splits)
      have k: "Size' = Some (if hs = [] then Size else 8 * of_nat (length hs))" if "length hs \<le> 2 ^ 57"
      proof -
        have "(8 * of_nat (length hs) :: u64) = 0 \<longleftrightarrow> hs = []" using buffer_sizes(2) [OF that] by (metis length_0_conv mult_eq_0_iff unat_0 unat_eq_zero zero_neq_numeral)
        then show ?thesis using assms(1) B s1 Inr g h(1) by (auto simp: CoreLocateHandle_def Let_def split: if_splits)
      qed
      have "start_search env T P Search s1 = Some (Inr (G, pos))" using s1(2) Inr g by simp
      from start_search_loop [OF this h(1) o] have c: "db_ok inuse Z s2" "length hs \<le> 2 ^ 57" by simp_all
      have "db_ok inuse Z s3" using h(2) c(1) advance_ok by auto
      then have d: "db_ok inuse Z s'" by (rule release_ok [OF h(3)])
      moreover have "Status = EFI_NOT_FOUND" if "hs = []" using that assms(1) B s1 Inr g h(1) by (auto simp: CoreLocateHandle_def Let_def)
      ultimately show ?thesis using k [OF c(2)] buffer_sizes(2) [OF c(2)] c(2) by auto
    qed
  qed
  then show "db_ok inuse Z s'" "Size' = Some n \<Longrightarrow> \<not> EFI_ERROR Status \<or> Status = EFI_BUFFER_TOO_SMALL \<Longrightarrow> unat n < 2 ^ 63" by blast+
qed

lemma CoreLocateHandleBuffer_ok:
  assumes "CoreLocateHandleBuffer env T P Search A B s = Some ((Status, n, a, hs), s')" "db_ok inuse Z s"
  shows "db_ok inuse Z s'" "\<not> EFI_ERROR Status \<Longrightarrow> a \<notin> Z \<and> db_ok inuse (insert a Z) s'"
proof -
  have "db_ok inuse Z s' \<and> (\<not> EFI_ERROR Status \<longrightarrow> a \<notin> Z \<and> db_ok inuse (insert a Z) s')"
  proof (cases "A \<and> B")
    case False
    then show ?thesis using assms by (auto simp: CoreLocateHandleBuffer_def)
  next
    case AB: True
    then obtain St Size out s1 where s1: "CoreLocateHandle env T P Search (Some 0) False s = Some ((St, Size, out), s1)"
      using assms(1) by (auto simp: CoreLocateHandleBuffer_def)
    note c = CoreLocateHandle_ok [OF s1 assms(2)]
    show ?thesis
    proof (cases "EFI_ERROR St \<and> St \<noteq> EFI_BUFFER_TOO_SMALL")
      case True
      then have "EFI_ERROR Status \<and> s' = s1" using assms(1) AB s1 by (auto simp: CoreLocateHandleBuffer_def split: if_splits)
      then show ?thesis using c(1) by simp
    next
      case St: False
      then obtain k b s2 where s2: "Size = Some k" "AllocatePool env k s1 = Some (b, s2)"
        using assms(1) AB s1 by (auto simp: CoreLocateHandleBuffer_def)
      have "unat k < 2 ^ 63" by (rule c(2) [OF s2(1)]) (use St in blast)
      note m = alloc_ok(2) [OF s2(2) c(1) this]
      show ?thesis
      proof (cases "b = 0")
        case True
        then have "Status = EFI_OUT_OF_RESOURCES \<and> s' = s2" using assms(1) AB s1 St s2 by (auto simp: CoreLocateHandleBuffer_def)
        then show ?thesis using m True by simp
      next
        case False
        then obtain St2 Size2 out2 where s3: "CoreLocateHandle env T P Search (Some k) True s2 = Some ((St2, Size2, out2), s')" "a = b"
          using assms(1) AB s1 St s2 by (auto simp: CoreLocateHandleBuffer_def)
        have z: "b \<notin> Z" "db_ok inuse (insert b Z) s2" using m False by simp_all
        have o: "db_ok inuse (insert b Z) s'" by (rule CoreLocateHandle_ok(1) [OF s3(1) z(2)])
        then have "db_ok inuse Z s'" by (rule db_ok_fewer) auto
        then show ?thesis using o z(1) s3(2) by simp
      qed
    qed
  qed
  then show "db_ok inuse Z s'" "\<not> EFI_ERROR Status \<Longrightarrow> a \<notin> Z \<and> db_ok inuse (insert a Z) s'" by blast+
qed

lemma next_by_protocol_ok:
  assumes "next_by_protocol l I s = Some (r, s')" "db_ok inuse Z s"
  shows "db_ok inuse Z s'"
  using assms(1)
proof (induction l arbitrary: I)
  case (Cons p l)
  obtain J H where J: "interfaces s p = Some J" "ihandles s (Handle J) = Some H" using Cons.prems by auto
  show ?case
  proof (cases "LocateRequest H = mEfiLocateHandleRequest s")
    case False
    then have s': "put_handle (Handle J) (H\<lparr>LocateRequest := mEfiLocateHandleRequest s\<rparr>) s = s'" using Cons.prems J by simp
    have "db_ok inuse Z (put_handle (Handle J) (H\<lparr>LocateRequest := mEfiLocateHandleRequest s\<rparr>) s)" by (rule db_ok_handle [OF assms(2) J(2)]) simp
    then show ?thesis unfolding s' .
  next
    case True
    then show ?thesis using Cons J by simp
  qed
qed (use assms(2) in simp)

lemma CoreLocateProtocol_ok:
  assumes "CoreLocateProtocol env P Registration Out s = Some (r, s')" "db_ok inuse Z s"
  shows "db_ok inuse Z s'"
proof (cases "\<not> Out \<or> P = None")
  case True
  then show ?thesis using assms by (auto simp: CoreLocateProtocol_def split: option.splits if_splits)
next
  case False
  then obtain P' where P: "P = Some P'" Out by auto
  obtain s0 where s0: "CoreAcquireProtocolLock s = Some s0" using assms(1) P by (auto simp: CoreLocateProtocol_def)
  let ?s = "s0\<lparr>mEfiLocateHandleRequest := mEfiLocateHandleRequest s0 + 1\<rparr>"
  have o: "db_ok inuse Z ?s" using acquire_ok [OF s0 assms(2)] by simp
  show ?thesis
  proof (cases "Registration = 0")
    case True
    then obtain e s1 where e: "CoreFindProtocolEntry env P' False ?s = Some (e, s1)"
      using assms(1) P s0 by (auto simp: CoreLocateProtocol_def Let_def)
    show ?thesis
    proof (cases "e = 0")
      case z: True
      then show ?thesis using assms(1) P s0 True e release_ok [OF _ o] by (auto simp: CoreLocateProtocol_def Let_def)
    next
      case z: False
      then obtain l y s2 where y: "next_by_protocol l 0 ?s = Some (y, s2)" "CoreReleaseProtocolLock env s2 = Some s'"
        using assms(1) P s0 True e by (auto simp: CoreLocateProtocol_def Let_def CoreGetNextLocateByProtocol_def)
      show ?thesis by (rule release_ok [OF y(2) next_by_protocol_ok [OF y(1) o]])
    qed
  next
    case False
    then obtain h I pos s1 where y: "CoreGetNextLocateByRegisterNotify \<lparr>SearchKey = Registration, Remaining = gHandleList ?s\<rparr> ?s = Some ((h, I, pos), s1)"
      using assms(1) P s0 by (auto simp: CoreLocateProtocol_def Let_def)
    obtain s2 where y2: "if h = 0 then s2 = s1 else advance Registration s1 = Some s2" "CoreReleaseProtocolLock env s2 = Some s'"
      using assms(1) P s0 False y by (auto simp: CoreLocateProtocol_def Let_def split: if_splits)
    have "s1 = ?s" by (rule by_notify_same [OF y])
    then have "db_ok inuse Z s1" using o by simp
    then have "db_ok inuse Z s2" using y2(1) advance_ok by (auto split: if_splits)
    then show ?thesis by (rule release_ok [OF y2(2)])
  qed
qed

section \<open>Device paths\<close>

lemma best_device_ok:
  assumes "best_device env mem Pcd SourcePath SourceSize l best s = Some (r, s')" "db_ok inuse Z s"
  shows "db_ok inuse Z s'"
  using assms
proof (induction l arbitrary: best s)
  case (Cons h l)
  obtain St I s1 where s1: "CoreHandleProtocol env h (Some gEfiDevicePathProtocolGuid) True s = Some ((St, I), s1)" using Cons.prems(1) by auto
  have o: "db_ok inuse Z s1" by (rule CoreHandleProtocol_ok [OF s1 Cons.prems(2)])
  have "\<exists>b. best_device env mem Pcd SourcePath SourceSize l b s1 = Some (r, s')"
  proof (cases "EFI_ERROR St")
    case True
    then show ?thesis using Cons.prems(1) s1 by (intro exI [of _ best]) simp
  next
    case False
    then obtain path n where n: "I = Some path" "UefiDevicePathLibGetDevicePathSize mem Pcd path = Some n"
      using Cons.prems(1) s1 by (auto simp: Let_def split: if_splits)
    let ?n = "sint (n - 4)"
    show ?thesis
    proof (cases "?n \<le> SourceSize \<and> same_bytes mem SourcePath path (nat ?n)")
      case True
      then show ?thesis using Cons.prems(1) s1 False n by (intro exI [of _ "if ?n > fst best then (?n, h) else best"]) (auto simp: Let_def)
    next
      case c: False
      then show ?thesis using Cons.prems(1) s1 False n by (intro exI [of _ best]) (auto simp: Let_def)
    qed
  qed
  then show ?case using Cons.IH o by blast
qed simp

lemma CoreLocateDevicePath_ok:
  assumes "CoreLocateDevicePath env mem Pcd P Path Device s = Some (r, s')" "db_ok inuse Z s"
  shows "db_ok inuse Z s'"
proof (cases "P = None \<or> Path = None \<or> Path = Some 0")
  case True
  then show ?thesis using assms by (auto simp: CoreLocateDevicePath_def split: option.splits if_splits)
next
  case False
  then obtain P' path where P: "P = Some P'" "Path = Some path" "path \<noteq> 0" by auto
  obtain End St n a hs s1 where s1: "end_of_instance mem path = Some End"
     "CoreLocateHandleBuffer env search_type.ByProtocol (Some P') 0 True True s = Some ((St, n, a, hs), s1)"
    using assms(1) P by (auto simp: CoreLocateDevicePath_def)
  note c = CoreLocateHandleBuffer_ok [OF s1(2) assms(2)]
  show ?thesis
  proof (cases "EFI_ERROR St \<or> n = 0")
    case True
    then show ?thesis using assms(1) P s1 c(1) by (auto simp: CoreLocateDevicePath_def)
  next
    case False
    then obtain best s2 where s2: "best_device env mem Pcd path (sint (End - path)) hs (-1, 0) s1 = Some (best, s2)" "FreePool env a s2 = Some s'"
      using assms(1) P s1 by (auto simp: CoreLocateDevicePath_def Let_def split: if_splits)
    have z: "a \<notin> Z" "db_ok inuse (insert a Z) s1" using c(2) False by simp_all
    show ?thesis by (rule free_ok(2) [OF s2(2) best_device_ok [OF s2(1) z(2)] z(1)])
  qed
qed

section \<open>Several protocols at once\<close>

lemma path_installed_ok:
  assumes "path_installed env mem Pcd P I s = Some (b, s')" "db_ok inuse Z s"
  shows "db_ok inuse Z s'"
  using assms CoreLocateDevicePath_ok by (fastforce simp: path_installed_def split: if_splits option.splits)

lemma install_list_ok:
  assumes "install_list env mem Pcd h l n s = Some (r, s')" "db_ok inuse Z s"
  shows "db_ok inuse Z s'"
  using assms
proof (induction l arbitrary: h n s)
  case (Cons x l)
  obtain P I where x: "x = (P, I)" by (cases x)
  obtain b s1 where s1: "path_installed env mem Pcd P I s = Some (b, s1)" using Cons.prems(1) x by auto
  have o: "db_ok inuse Z s1" by (rule path_installed_ok [OF s1 Cons.prems(2)])
  show ?case
  proof (cases b)
    case True
    then show ?thesis using Cons.prems(1) x s1 o by simp
  next
    case False
    then obtain St h' s2 where s2: "CoreInstallProtocolInterface env (Some h) (Some P) 0 I s1 = Some ((St, Some h'), s2)"
        "if EFI_ERROR St then r = (St, h', n) \<and> s' = s2 else install_list env mem Pcd h' l (n + 1) s2 = Some (r, s')"
      using Cons.prems(1) x s1 by (auto split: if_splits)
    have "db_ok inuse Z s2" using CoreInstallProtocolInterfaceNotify_ok o s2(1) unfolding CoreInstallProtocolInterface_def by blast
    then show ?thesis using s2(2) Cons.IH by (auto split: if_splits)
  qed
qed simp

lemma undo_install_ok:
  assumes "undo_install env h l s = Some s'" "db_ok inuse Z s"
  shows "db_ok inuse Z s'"
  using assms
proof (induction l arbitrary: s)
  case (Cons x l)
  obtain P I where x: "x = (P, I)" by (cases x)
  then obtain St s1 where s1: "CoreUninstallProtocolInterface env h (Some P) I s = Some (St, s1)" "undo_install env h l s1 = Some s'"
    using Cons.prems(1) by auto
  show ?case by (rule Cons.IH [OF s1(2) CoreUninstallProtocolInterface_ok [OF s1(1) Cons.prems(2)]])
qed simp

lemma uninstall_list_ok:
  assumes "uninstall_list env h l n s = Some (r, s')" "db_ok inuse Z s"
  shows "db_ok inuse Z s'"
  using assms
proof (induction l arbitrary: n s)
  case (Cons x l)
  obtain P I where x: "x = (P, I)" by (cases x)
  then obtain St s1 where s1: "CoreUninstallProtocolInterface env h (Some P) I s = Some (St, s1)"
      "if EFI_ERROR St then r = (St, n) \<and> s' = s1 else uninstall_list env h l (n + 1) s1 = Some (r, s')"
    using Cons.prems(1) by (auto split: if_splits)
  have "db_ok inuse Z s1" by (rule CoreUninstallProtocolInterface_ok [OF s1(1) Cons.prems(2)])
  then show ?case using s1(2) Cons.IH by (auto split: if_splits)
qed simp

lemma undo_uninstall_ok:
  assumes "undo_uninstall env h l s = Some s'" "db_ok inuse Z s"
  shows "db_ok inuse Z s'"
  using assms
proof (induction l arbitrary: h s)
  case (Cons x l)
  obtain P I where x: "x = (P, I)" by (cases x)
  then obtain y h' s1 where s1: "CoreInstallProtocolInterface env (Some h) (Some P) 0 I s = Some (y, s1)" "undo_uninstall env h' l s1 = Some s'"
    using Cons.prems(1) by auto
  have "db_ok inuse Z s1" using CoreInstallProtocolInterfaceNotify_ok Cons.prems(2) s1(1) unfolding CoreInstallProtocolInterface_def by blast
  from Cons.IH [OF s1(2) this] show ?case .
qed simp

lemma CoreInstallMultipleProtocolInterfaces_ok:
  assumes "CoreInstallMultipleProtocolInterfaces env mem Pcd UserHandle args s = Some (r, s')" "db_ok inuse Z s"
  shows "db_ok inuse Z s'"
proof (cases UserHandle)
  case None
  then show ?thesis using assms by (simp add: CoreInstallMultipleProtocolInterfaces_def)
next
  case (Some h)
  let ?raised = "env\<lparr>Notifications := Some\<rparr>"
  obtain St h' n s1 where s: "install_list ?raised mem Pcd h args 0 s = Some ((St, h', n), s1)"
    using assms(1) Some by (auto simp: CoreInstallMultipleProtocolInterfaces_def Let_def)
  have o: "db_ok inuse Z s1" by (rule database_clients.install_list_ok [OF raised [OF database_clients_axioms] s assms(2)])
  show ?thesis
  proof (cases "EFI_ERROR St")
    case True
    then obtain s2 where s2: "undo_install ?raised h' (take n args) s1 = Some s2" "Notifications env s2 = Some s'"
      using assms(1) Some s by (auto simp: CoreInstallMultipleProtocolInterfaces_def Let_def)
    show ?thesis by (rule notified [OF s2(2) database_clients.undo_install_ok [OF raised [OF database_clients_axioms] s2(1) o]])
  next
    case False
    then have "Notifications env s1 = Some s'" using assms(1) Some s by (simp add: CoreInstallMultipleProtocolInterfaces_def Let_def)
    then show ?thesis by (rule notified [OF _ o])
  qed
qed

lemma CoreUninstallMultipleProtocolInterfaces_ok:
  assumes "CoreUninstallMultipleProtocolInterfaces env h args s = Some (r, s')" "db_ok inuse Z s"
  shows "db_ok inuse Z s'"
proof -
  obtain St n s1 where s: "uninstall_list env h args 0 s = Some ((St, n), s1)"
      "if EFI_ERROR St then undo_uninstall env h (take n args) s1 = Some s' else s' = s1"
    using assms(1) by (auto simp: CoreUninstallMultipleProtocolInterfaces_def split: if_splits)
  have "db_ok inuse Z s1" by (rule uninstall_list_ok [OF s(1) assms(2)])
  then show ?thesis using s(2) undo_uninstall_ok by (auto split: if_splits)
qed

end

end
