(* ===== verification/LocateSpec.thy ===== *)
theory LocateSpec
  imports HandleSpec LocateSafe
begin

text \<open>
  What the searches return, on the abstract database.
\<close>

section \<open>All handles of a protocol\<close>

lemma view_same: "interfaces s' = interfaces s \<Longrightarrow> entries s' = entries s \<Longrightarrow> view s' = view s"
  by (simp add: view_def installs_same [of s' s])

lemma view_fields [simp]:
  "view (s\<lparr>mEfiLocateHandleRequest := r\<rparr>) = view s" "view (put_notify n x s) = view s" "view (s\<lparr>gProtocolDatabaseLock := b\<rparr>) = view s"
  by (rule view_same; simp add: put_notify_def)+

lemma protocol_handles:
  assumes "db_inv s" "entries s e = Some E" "ProtocolID E = P"
  shows "handle_of s ` set (protocol_entry.ByProtocol E) = {h. \<exists>I. (h, P, I) \<in> view s}"
proof (intro set_eqI iffI)
  fix h assume "h \<in> handle_of s ` set (protocol_entry.ByProtocol E)"
  then obtain p where p: "p \<in> set (protocol_entry.ByProtocol E)" "h = handle_of s p" by blast
  then obtain J where J: "interfaces s p = Some J" "Protocol J = e" using entry_lists(1) [OF assms(1,2)] by blast
  then have "installs s p h P (Interface J)" using p(2) assms(2,3) by (simp add: installs_def handle_of_def)
  then show "h \<in> {h. \<exists>I. (h, P, I) \<in> view s}" by (auto simp: view_def)
next
  fix h assume "h \<in> {h. \<exists>I. (h, P, I) \<in> view s}"
  then obtain p J D where J: "interfaces s p = Some J" "Handle J = h" "entries s (Protocol J) = Some D" "ProtocolID D = P"
    by (auto simp: view_def installs_def)
  then have "Protocol J = e" using db_invD(7) [OF assms(1) J(3) assms(2)] assms(3) by simp
  then have "p \<in> set (protocol_entry.ByProtocol E)" using J(1) entry_lists(1) [OF assms(1,2)] by blast
  then show "h \<in> handle_of s ` set (protocol_entry.ByProtocol E)" using J(1,2) by (auto simp: handle_of_def rev_image_eqI)
qed

lemma no_entry_view:
  assumes "\<And>d D. entries s d = Some D \<Longrightarrow> ProtocolID D \<noteq> P"
  shows "(h, P, I) \<notin> view s"
  using assms by (auto simp: view_def installs_def)

definition handle_status :: "u64 \<Rightarrow> u64 list \<Rightarrow> efi_status" where
  "handle_status Size hs = (if hs = [] then EFI_NOT_FOUND else if unat Size < 8 * length hs then EFI_BUFFER_TOO_SMALL else EFI_SUCCESS)"

lemma LocateHandle_finds:
  assumes "db_inv s" "\<not> gProtocolDatabaseLock s" "Notifications env = Some" "length (gHandleList s) < 2 ^ 60"
    and "\<forall>h H. ihandles s h = Some H \<longrightarrow> LocateRequest H \<noteq> mEfiLocateHandleRequest s + 1"
  shows "\<exists>hs s'. distinct hs \<and> set hs = {h. \<exists>I. (h, P, I) \<in> view s} \<and> view s' = view s \<and>
    CoreLocateHandle env search_type.ByProtocol (Some P) k (Some Size) True s =
      Some ((handle_status Size hs, Some (if hs = [] then Size else of_nat (8 * length hs)), take (unat Size div 8) hs), s')"
proof -
  let ?s1 = "s\<lparr>gProtocolDatabaseLock := True\<rparr>"
  let ?s = "?s1\<lparr>mEfiLocateHandleRequest := mEfiLocateHandleRequest s + 1\<rparr>"
  have inv: "db_inv ?s1" "gProtocolDatabaseLock ?s1" using assms(1) by simp_all
  obtain e where e: "CoreFindProtocolEntry env P False ?s1 = Some (e, ?s1)" "\<And>d D. e = 0 \<Longrightarrow> entries ?s1 d = Some D \<Longrightarrow> ProtocolID D \<noteq> P"
    "e \<noteq> 0 \<Longrightarrow> \<exists>E. entries ?s1 e = Some E \<and> ProtocolID E = P" using find_entry_only [OF inv] by metis
  have a: "CoreAcquireProtocolLock s = Some ?s1" using assms(2) by (simp add: acquired)
  show ?thesis
  proof (cases "e = 0")
    case True
    then have "(h, P, I) \<notin> view s" for h I using e(2) by (intro no_entry_view) simp
    moreover have "CoreLocateHandle env search_type.ByProtocol (Some P) k (Some Size) True s = Some ((EFI_NOT_FOUND, Some Size, []), s)"
      using True e(1) a assms(2) by (simp add: CoreLocateHandle_def start_search_def release_quiet [OF assms(3)])
    ultimately show ?thesis by (intro exI [of _ "[]"] exI [of _ s]) (simp add: handle_status_def)
  next
    case False
    then obtain E where E: "entries s e = Some E" "ProtocolID E = P" using e(3) by auto
    have inv2: "db_inv ?s" "entries ?s e = Some E" using assms(1) E(1) by simp_all
    obtain hs where h: "locate_loop CoreGetNextLocateByProtocol \<lparr>SearchKey = k, Remaining = protocol_entry.ByProtocol E\<rparr> ?s = Some (hs, marked (set hs) ?s)"
        "distinct hs" "set hs = {h \<in> handle_of ?s ` set (protocol_entry.ByProtocol E). \<not> is_marked ?s h}"
      using locate_by_protocol [OF entry_on_handles [OF inv2]] by blast
    have "\<not> is_marked ?s h" for h using assms(5) by (auto simp: is_marked_def)
    moreover have "handle_of ?s = handle_of s" by (simp add: handle_of_def fun_eq_iff)
    ultimately have hs: "set hs = {h. \<exists>I. (h, P, I) \<in> view s}" using h(3) protocol_handles [OF assms(1) E] by simp
    have "h \<in> set (gHandleList s)" if "(h, P, I) \<in> view s" for h I
      using that handles_in_view [OF assms(1), of h] db_invD(2) [OF assms(1)] by (auto simp: validate_handle)
    then have "set hs \<subseteq> set (gHandleList s)" using hs by blast
    then have "length hs \<le> length (gHandleList s)" using h(2) distinct_card [OF h(2)] distinct_card [OF db_invD(1) [OF assms(1)]] card_mono by fastforce
    then have l: "length hs < 2 ^ 60" using assms(4) by simp
    then have u: "unat (8 * of_nat (length hs) :: u64) = 8 * length hs" by (simp add: unat_word_ariths unat_of_nat)
    then have z: "(8 * of_nat (length hs) :: u64) = 0 \<longleftrightarrow> hs = []" by (metis length_0_conv mult_eq_0_iff unat_0 unat_eq_zero zero_neq_numeral)
    have lt: "Size < 8 * of_nat (length hs) \<longleftrightarrow> unat Size < 8 * length hs" using u by (simp add: word_less_nat_alt)
    let ?s' = "(marked (set hs) ?s)\<lparr>gProtocolDatabaseLock := False\<rparr>"
    have "CoreLocateHandle env search_type.ByProtocol (Some P) k (Some Size) True s =
        Some ((handle_status Size hs, Some (if hs = [] then Size else of_nat (8 * length hs)), take (unat Size div 8) hs), ?s')"
      using a e(1) False E(1) h(1) z lt
      by (simp add: CoreLocateHandle_def start_search_def Let_def handle_status_def release_quiet [OF assms(3)])
    moreover have "view ?s' = view s" by (rule view_same) simp_all
    ultimately show ?thesis using h(2) hs by blast
  qed
qed

section \<open>New interfaces of a registration\<close>

lemma after_link_parts:
  assumes "after_link k l = p # r"
  shows "\<exists>pre. l = pre @ p # r"
proof (cases k)
  case ListHead
  then show ?thesis using assms by (auto simp: after_link_def)
next
  case (Link a)
  then have t: "tl (dropWhile (\<lambda>x. x \<noteq> a) l) = p # r" using assms by (simp add: after_link_def)
  then obtain b where "dropWhile (\<lambda>x. x \<noteq> a) l = b # p # r" by (cases "dropWhile (\<lambda>x. x \<noteq> a) l") auto
  then have "l = (takeWhile (\<lambda>x. x \<noteq> a) l @ [b]) @ p # r" using takeWhile_dropWhile_id [of "\<lambda>x. x \<noteq> a" l] by simp
  then show ?thesis by blast
qed

lemma after_link_step:
  assumes "after_link k l = p # r" "distinct l"
  shows "after_link (Link p) l = r"
proof -
  obtain pre where l: "l = pre @ p # r" using after_link_parts [OF assms(1)] by blast
  then have "\<forall>x\<in>set pre. x \<noteq> p" using assms(2) by auto
  then have "dropWhile (\<lambda>x. x \<noteq> p) l = p # r" using l by (simp add: dropWhile_append2)
  then show ?thesis by (simp add: after_link_def)
qed

lemma after_link_append: "position_ok k l \<Longrightarrow> after_link k (l @ [p]) = after_link k l @ [p]"
proof (cases k)
  case (Link a)
  assume "position_ok k l"
  then have a: "a \<in> set l" using Link by (simp add: position_ok_def)
  then have "dropWhile (\<lambda>x. x \<noteq> a) l \<noteq> []" by auto
  then show ?thesis using Link a by (simp add: after_link_def dropWhile_append1)
qed (simp add: after_link_def)

text \<open>Asking for the next new interface, at most \<open>k\<close> times, until there is none.\<close>

fun locate_new :: "'p hdb_env \<Rightarrow> guid \<Rightarrow> u64 \<Rightarrow> nat \<Rightarrow> 'p hdb \<Rightarrow> (u64 list \<times> 'p hdb) option" where
  "locate_new env P n 0 s = Some ([], s)"
| "locate_new env P n (Suc k) s = do {
     ((Status, I), s) \<leftarrow> CoreLocateProtocol env (Some P) n True s;
     if EFI_ERROR Status then Some ([], s) else do { I \<leftarrow> I; (r, s) \<leftarrow> locate_new env P n k s; Some (I # r, s) }
   }"

definition interface_of :: "'p hdb \<Rightarrow> u64 \<Rightarrow> u64" where
  "interface_of s p = (case interfaces s p of None \<Rightarrow> 0 | Some J \<Rightarrow> Interface J)"

lemma put_position_inv:
  assumes "db_inv s" "notifies s n = Some x" "NotifyProtocol y = NotifyProtocol x" "entries s (NotifyProtocol x) = Some E"
    and "position_ok (Position y) (protocol_entry.ByProtocol E)"
  shows "db_inv (put_notify n y s)"
proof -
  have "links_ok (gHandleList s) (mProtocolDatabase s) (ihandles s) (entries s) (interfaces s) (notifies s)" using assms(1) by (simp add: db_inv_def)
  from links_position [OF this assms(2-5)] show ?thesis by (simp add: db_inv_def put_notify_def)
qed

lemma LocateProtocol_next:
  assumes "db_inv s" "\<not> gProtocolDatabaseLock s" "Notifications env = Some" "notifies s n = Some x" "entries s (NotifyProtocol x) = Some E"
    and "after_link (Position x) (protocol_entry.ByProtocol E) = l"
  shows "CoreLocateProtocol env (Some P) n True s = Some (case l of
      [] \<Rightarrow> ((EFI_NOT_FOUND, Some 0), s\<lparr>mEfiLocateHandleRequest := mEfiLocateHandleRequest s + 1\<rparr>)
    | p # r \<Rightarrow> ((EFI_SUCCESS, Some (interface_of s p)), (put_notify n (x\<lparr>Position := Link p\<rparr>) s)\<lparr>mEfiLocateHandleRequest := mEfiLocateHandleRequest s + 1\<rparr>))"
proof -
  let ?s = "s\<lparr>gProtocolDatabaseLock := True, mEfiLocateHandleRequest := mEfiLocateHandleRequest s + 1\<rparr>"
  have a: "CoreAcquireProtocolLock s = Some (s\<lparr>gProtocolDatabaseLock := True\<rparr>)" using assms(2) by (simp add: acquired)
  have n: "n \<noteq> 0" by (rule db_invD(12) [OF assms(1,4)])
  have r: "CoreReleaseProtocolLock env t = Some (t\<lparr>gProtocolDatabaseLock := False\<rparr>)" if "gProtocolDatabaseLock t" for t
    using that by (simp add: release_quiet [OF assms(3)])
  show ?thesis
  proof (cases l)
    case Nil
    then have "CoreGetNextLocateByRegisterNotify \<lparr>SearchKey = n, Remaining = gHandleList s\<rparr> ?s = Some ((0, 0, \<lparr>SearchKey = 0, Remaining = gHandleList s\<rparr>), ?s)"
      using assms(4-6) n by (simp add: CoreGetNextLocateByRegisterNotify_def)
    then show ?thesis using a n assms(2) Nil r [of ?s] by (simp add: CoreLocateProtocol_def Let_def)
  next
    case (Cons p t)
    then have "p \<in> set (protocol_entry.ByProtocol E)" using assms(6) after_link_subset [of "Position x" "protocol_entry.ByProtocol E"] by auto
    then obtain J where J: "interfaces s p = Some J" "Handle J \<noteq> 0" using entry_on_handles [OF assms(1,5)] by (auto simp: on_handles_def)
    have g: "CoreGetNextLocateByRegisterNotify \<lparr>SearchKey = n, Remaining = gHandleList s\<rparr> ?s = Some ((Handle J, Interface J, \<lparr>SearchKey = 0, Remaining = gHandleList s\<rparr>), ?s)"
      using assms(4-6) n Cons J by (simp add: CoreGetNextLocateByRegisterNotify_def)
    have "advance n ?s = Some (put_notify n (x\<lparr>Position := Link p\<rparr>) ?s)" using assms(4-6) Cons by (simp add: advance_def)
    then show ?thesis using a n assms(2) Cons J g r [of "put_notify n (x\<lparr>Position := Link p\<rparr>) ?s"]
      by (auto simp: CoreLocateProtocol_def Let_def interface_of_def put_notify_def intro!: hdb.equality)
  qed
qed

lemma locate_new_lists:
  assumes "db_inv s" "\<not> gProtocolDatabaseLock s" "Notifications env = Some" "notifies s n = Some x" "entries s (NotifyProtocol x) = Some E"
  shows "\<exists>s'. locate_new env P n k s = Some (take k (map (interface_of s) (after_link (Position x) (protocol_entry.ByProtocol E))), s') \<and> view s' = view s"
  using assms
proof (induction k arbitrary: s x)
  case 0
  then show ?case by simp
next
  case (Suc k)
  note L = LocateProtocol_next [OF Suc.prems refl, of P]
  show ?case
  proof (cases "after_link (Position x) (protocol_entry.ByProtocol E)")
    case Nil
    then show ?thesis using L by simp
  next
    case (Cons p r)
    let ?s = "(put_notify n (x\<lparr>Position := Link p\<rparr>) s)\<lparr>mEfiLocateHandleRequest := mEfiLocateHandleRequest s + 1\<rparr>"
    have d: "distinct (protocol_entry.ByProtocol E)" by (rule entry_lists(2) [OF Suc.prems(1,5)])
    have "p \<in> set (protocol_entry.ByProtocol E)" using Cons after_link_subset [of "Position x" "protocol_entry.ByProtocol E"] by auto
    then have "db_inv ?s" using put_position_inv [OF Suc.prems(1,4) _ Suc.prems(5), of "x\<lparr>Position := Link p\<rparr>"] by (simp add: position_ok_def)
    moreover have "\<not> gProtocolDatabaseLock ?s" "notifies ?s n = Some (x\<lparr>Position := Link p\<rparr>)"
      "entries ?s (NotifyProtocol (x\<lparr>Position := Link p\<rparr>)) = Some E" using Suc.prems(2,5) by (simp_all add: put_notify_def)
    ultimately obtain s' where s': "locate_new env P n k ?s = Some (take k (map (interface_of ?s) (after_link (Link p) (protocol_entry.ByProtocol E))), s')" "view s' = view ?s"
      using Suc.IH [of ?s "x\<lparr>Position := Link p\<rparr>"] Suc.prems(3) by auto
    have i: "interface_of ?s = interface_of s" by (simp add: interface_of_def put_notify_def fun_eq_iff)
    have "view ?s = view s" by simp
    then show ?thesis using L s' Cons after_link_step [OF Cons d] by (simp add: i)
  qed
qed

end
