(* ===== verification/OpenSpec.thy ===== *)
theory OpenSpec
  imports HandleRun
begin

text \<open>
  Who may have an interface open at the same time.
\<close>

definition busy :: "open_data \<Rightarrow> bool" where
  "busy d \<longleftrightarrow> drives d \<or> excludes d"

definition one_busy :: "'p hdb \<Rightarrow> bool" where
  "one_busy s \<longleftrightarrow> (\<forall>p I. interfaces s p = Some I \<longrightarrow> length (filter (\<lambda>x. busy (snd x)) (OpenList I)) \<le> 1)"

text \<open>What disconnecting a driver should do to the open lists.\<close>

definition only_closes :: "'p hdb \<Rightarrow> 'p hdb \<Rightarrow> bool" where
  "only_closes s s' \<longleftrightarrow> (\<forall>p I'. interfaces s' p = Some I' \<longrightarrow> (\<exists>I keep. interfaces s p = Some I \<and> OpenList I' = filter keep (OpenList I)))"

definition closers :: "'p hdb_env \<Rightarrow> bool" where
  "closers env \<longleftrightarrow> (\<forall>t t'. Notifications env t = Some t' \<longrightarrow> only_closes t t') \<and>
     (\<forall>h a t St t'. DisconnectController env h a t = Some (St, t') \<longrightarrow> only_closes t t')"

lemma only_closes_same: "interfaces s' = interfaces s \<Longrightarrow> only_closes s s'"
  unfolding only_closes_def by (auto intro!: exI [of _ "\<lambda>_. True"])

lemma only_closes_trans: "only_closes s t \<Longrightarrow> only_closes t u \<Longrightarrow> only_closes s u"
  unfolding only_closes_def by (metis filter_filter)

lemma only_closes_busy:
  assumes "only_closes s s'" "one_busy s"
  shows "one_busy s'"
  unfolding one_busy_def
proof (intro allI impI)
  fix p I' assume "interfaces s' p = Some I'"
  then obtain I keep where I: "interfaces s p = Some I" "OpenList I' = filter keep (OpenList I)" using assms(1) unfolding only_closes_def by blast
  have "filter (\<lambda>x. busy (snd x)) (OpenList I') = filter keep (filter (\<lambda>x. busy (snd x)) (OpenList I))" unfolding I(2) filter_filter by (rule filter_cong) auto
  then show "length (filter (\<lambda>x. busy (snd x)) (OpenList I')) \<le> 1"
    using I(1) assms(2) length_filter_le [of keep "filter (\<lambda>x. busy (snd x)) (OpenList I)"] unfolding one_busy_def by fastforce
qed

lemma only_closes_none:
  assumes "only_closes s s'" "interfaces s' p = Some I'" "interfaces s p = Some I" "\<forall>x\<in>set (OpenList I). \<not> Q x"
  shows "\<forall>x\<in>set (OpenList I'). \<not> Q x"
proof -
  obtain keep where "OpenList I' = filter keep (OpenList I)" using assms(1-3) unfolding only_closes_def by fastforce
  then show ?thesis using assms(4) by simp
qed

lemma scan_result:
  "scan_open Opener Controller Attr l B X = Scanned B' X' \<Longrightarrow>
   B' = (B \<or> (\<exists>x\<in>set l. drives (snd x))) \<and> X' = (X \<or> (\<exists>x\<in>set l. excludes (snd x)))"
  by (induction Opener Controller Attr l B X rule: scan_open.induct) (auto simp: Let_def split: if_splits)

lemma disconnect_closes:
  assumes "disconnect_drivers env h p s = Some (Status, s')"
    and "closers env"
  shows "only_closes s s'" "\<not> EFI_ERROR Status \<Longrightarrow> interfaces s' p = Some I \<Longrightarrow> x \<in> set (OpenList I) \<Longrightarrow> \<not> drives (snd x)"
proof -
  have "e = env \<longrightarrow> only_closes s (snd r) \<and> (\<not> EFI_ERROR (fst r) \<longrightarrow> (\<forall>I. interfaces (snd r) p = Some I \<longrightarrow> (\<forall>x\<in>set (OpenList I). \<not> drives (snd x))))"
    if "disconnect_drivers e h p s = Some r" for e s r
  proof (induction rule: disconnect_drivers.raw_induct [OF _ that])
    case (1 f e h p s r)
    obtain I where I: "interfaces s p = Some I" using 1(2) by auto
    show ?case
    proof (cases "List.find (\<lambda>x. drives (snd x)) (OpenList I)")
      case None
      then have "r = (EFI_SUCCESS, s)" using 1(2) I by simp
      then show ?thesis using None I by (auto simp: only_closes_same find_None_iff)
    next
      case (Some x)
      then obtain s1 St s2 s3 where s: "CoreReleaseProtocolLock e s = Some s1" "DisconnectController e h (AgentHandle (snd x)) s1 = Some (St, s2)"
          "CoreAcquireProtocolLock s2 = Some s3" "if EFI_ERROR St then r = (St, s3) else f e h p s3 = Some r"
        using 1(2) I by (auto split: if_splits)
      show ?thesis
      proof
        assume e: "e = env"
        have "only_closes (s\<lparr>gProtocolDatabaseLock := False\<rparr>) s1" using s(1) assms(2) e by (auto simp: closers_def CoreReleaseProtocolLock_def)
        moreover have "only_closes s (s\<lparr>gProtocolDatabaseLock := False\<rparr>)" by (rule only_closes_same) simp
        moreover have "only_closes s1 s2" using s(2) assms(2) e unfolding closers_def by blast
        moreover have "only_closes s2 s3" using s(3) by (intro only_closes_same) (auto simp: acquired)
        ultimately have c: "only_closes s s3" using only_closes_trans by blast
        show "only_closes s (snd r) \<and> (\<not> EFI_ERROR (fst r) \<longrightarrow> (\<forall>I. interfaces (snd r) p = Some I \<longrightarrow> (\<forall>x\<in>set (OpenList I). \<not> drives (snd x))))"
        proof (cases "EFI_ERROR St")
          case True
          then show ?thesis using s(4) c by simp
        next
          case False
          then have "f e h p s3 = Some r" using s(4) by simp
          from 1(1) [OF this] show ?thesis using e c only_closes_trans by blast
        qed
      qed
    qed
  qed
  from this [OF assms(1)] show "only_closes s s'"
    "\<not> EFI_ERROR Status \<Longrightarrow> interfaces s' p = Some I \<Longrightarrow> x \<in> set (OpenList I) \<Longrightarrow> \<not> drives (snd x)" by auto
qed

lemma add_open_busy:
  assumes "add_open env p d s = Some (Status, s')" "one_busy s"
    and "\<And>I. busy d \<Longrightarrow> interfaces s p = Some I \<Longrightarrow> \<forall>x\<in>set (OpenList I). \<not> busy (snd x)"
  shows "one_busy s'"
proof -
  obtain a q where a: "AllocatePool env SIZE_OF_OPEN_PROTOCOL_DATA s = Some (a, s\<lparr>Rest := q\<rparr>)"
    using assms(1) by (auto simp: add_open_def AllocatePool_def)
  show ?thesis
  proof (cases "a = 0")
    case True
    then show ?thesis using assms(1,2) a by (auto simp: add_open_def one_busy_def)
  next
    case False
    then obtain J where J: "interfaces s p = Some J" "s' = put_interface p (J\<lparr>OpenList := OpenList J @ [(a, d)], OpenListCount := OpenListCount J + 1\<rparr>) (s\<lparr>Rest := q\<rparr>)"
      using assms(1) a by (auto simp: add_open_def)
    have "length (filter (\<lambda>x. busy (snd x)) (OpenList J @ [(a, d)])) \<le> 1"
    proof (cases "busy d")
      case True
      have "filter (\<lambda>x. busy (snd x)) (OpenList J) = []" using assms(3) [OF True J(1)] by (simp add: filter_empty_conv)
      then show ?thesis by simp
    next
      case False
      then show ?thesis using assms(2) J(1) by (simp add: one_busy_def)
    qed
    then show ?thesis using assms(2) by (auto simp: J(2) one_busy_def put_interface_def)
  qed
qed

lemma attribute_bits:
  "drives \<lparr>AgentHandle = a, ControllerHandle = c, Attributes = EFI_OPEN_PROTOCOL_BY_DRIVER, OpenCount = n\<rparr>"
  "\<not> excludes \<lparr>AgentHandle = a, ControllerHandle = c, Attributes = EFI_OPEN_PROTOCOL_BY_DRIVER, OpenCount = n\<rparr>"
  "Attr \<in> {EFI_OPEN_PROTOCOL_BY_HANDLE_PROTOCOL, EFI_OPEN_PROTOCOL_GET_PROTOCOL, EFI_OPEN_PROTOCOL_TEST_PROTOCOL, EFI_OPEN_PROTOCOL_BY_CHILD_CONTROLLER} \<Longrightarrow>
     \<not> busy \<lparr>AgentHandle = a, ControllerHandle = c, Attributes = Attr, OpenCount = n\<rparr>"
  by (auto simp: busy_def drives_def excludes_def)

lemma open_locked_busy:
  assumes "open_locked env h p Opener Controller Attr s = Some (Status, s')" "one_busy s" "\<not> EFI_ERROR (check_open h Opener Controller Attr u)"
    and "closers env"
  shows "one_busy s'"
proof -
  obtain I where I: "interfaces s p = Some I" using assms(1) by (auto simp: open_locked_def)
  let ?d = "\<lparr>AgentHandle = Opener, ControllerHandle = Controller, Attributes = Attr, OpenCount = 1\<rparr>"
  show ?thesis
  proof (cases "scan_open Opener Controller Attr (OpenList I) False False")
    case AlreadyStarted
    then show ?thesis using assms(1,2) I by (simp add: open_locked_def)
  next
    case (SameOpen a)
    let ?f = "\<lambda>x. if fst x = a then (a, (snd x)\<lparr>OpenCount := OpenCount (snd x) + 1\<rparr>) else x"
    have "busy (snd (?f x)) = busy (snd x)" for x by (simp add: busy_def drives_def excludes_def)
    then have "length (filter (\<lambda>x. busy (snd x)) (map ?f l)) = length (filter (\<lambda>x. busy (snd x)) l)" for l by (induction l) auto
    moreover have "s' = put_interface p (I\<lparr>OpenList := map ?f (OpenList I)\<rparr>) s" using assms(1) I SameOpen by (simp add: open_locked_def)
    ultimately show ?thesis using assms(2) I by (auto simp: one_busy_def put_interface_def)
  next
    case (Scanned B X)
    from scan_result [OF this] have bx: "B = (\<exists>x\<in>set (OpenList I). drives (snd x))" "X = (\<exists>x\<in>set (OpenList I). excludes (snd x))" by simp_all
    consider (weak) "\<not> busy ?d" "Attr \<notin> {EFI_OPEN_PROTOCOL_BY_DRIVER, EFI_OPEN_PROTOCOL_BY_DRIVER OR EFI_OPEN_PROTOCOL_EXCLUSIVE, EFI_OPEN_PROTOCOL_EXCLUSIVE}"
      | (driver) "Attr = EFI_OPEN_PROTOCOL_BY_DRIVER"
      | (exclusive) "Attr = EFI_OPEN_PROTOCOL_BY_DRIVER OR EFI_OPEN_PROTOCOL_EXCLUSIVE \<or> Attr = EFI_OPEN_PROTOCOL_EXCLUSIVE"
      using assms(3) attribute_bits(3) [of Attr Opener Controller 1] by (auto simp: check_open_def split: if_splits)
    then show ?thesis
    proof cases
      case weak
      then have "s' = s \<or> add_open env p ?d s = Some (Status, s')" using assms(1) I Scanned by (auto simp: open_locked_def split: if_splits)
      then show ?thesis using assms(2) add_open_busy weak(1) by blast
    next
      case driver
      then have "s' = s \<or> \<not> B \<and> \<not> X \<and> add_open env p ?d s = Some (Status, s')"
        using assms(1) I Scanned by (auto simp: open_locked_def split: if_splits)
      moreover have "\<forall>x\<in>set (OpenList J). \<not> busy (snd x)" if "\<not> B" "\<not> X" "interfaces s p = Some J" for J
        using that bx I by (auto simp: busy_def)
      ultimately show ?thesis using assms(2) add_open_busy [of env p ?d s Status s'] by blast
    next
      case exclusive
      have e: "\<not> (Attr = EFI_OPEN_PROTOCOL_BY_DRIVER)" using exclusive by auto
      obtain St s1 where s1: "s1 = s \<and> \<not> B \<or> disconnect_drivers env h p s = Some (St, s1)"
          "s' = s1 \<or> \<not> X \<and> (B \<longrightarrow> \<not> EFI_ERROR St) \<and> add_open env p ?d s1 = Some (Status, s')" if "s' \<noteq> s"
        using assms(1) I Scanned exclusive e unfolding open_locked_def by (cases B; cases X) (auto split: if_splits)
      show ?thesis
      proof (cases "s' = s")
        case True
        then show ?thesis using assms(2) by simp
      next
        case False
        note s1 = s1 [OF False]
        have c: "only_closes s s1" using s1(1) disconnect_closes(1) [OF _ assms(4)] only_closes_same by blast
        then have o: "one_busy s1" using only_closes_busy assms(2) by blast
        have "\<forall>x\<in>set (OpenList J). \<not> busy (snd x)" if x: "\<not> X" "B \<longrightarrow> \<not> EFI_ERROR St" "interfaces s1 p = Some J" for J
        proof -
          have "\<forall>x\<in>set (OpenList J). \<not> excludes (snd x)" by (rule only_closes_none [OF c x(3) I]) (use x(1) bx(2) in blast)
          moreover have "\<forall>x\<in>set (OpenList J). \<not> drives (snd x)"
          proof (cases B)
            case True
            then have d: "disconnect_drivers env h p s = Some (St, s1)" "\<not> EFI_ERROR St" using s1(1) x(2) by simp_all
            show ?thesis using disconnect_closes(2) [OF d(1) assms(4) d(2) x(3)] by blast
          next
            case False
            then show ?thesis using only_closes_none [OF c x(3) I, of "\<lambda>x. drives (snd x)"] bx(1) by simp
          qed
          ultimately show ?thesis by (simp add: busy_def)
        qed
        then show ?thesis using s1(2) o add_open_busy [of env p ?d s1 Status s'] by blast
      qed
    qed
  qed
qed

lemma OpenProtocol_one_busy:
  assumes "CoreOpenProtocol env h P Out Opener Controller Attr s = Some (r, s')" "one_busy s"
    and "closers env"
  shows "one_busy s'"
proof (cases "s' = s")
  case False
  then obtain s1 p s2 where s: "CoreAcquireProtocolLock s = Some s1" "s2 = s1 \<or> (\<exists>St. open_locked env h p Opener Controller Attr s1 = Some (St, s2))"
    "CoreReleaseProtocolLock env s2 = Some s'" "\<not> EFI_ERROR (check_open h Opener Controller Attr s)"
    using assms(1) by (auto simp: CoreOpenProtocol_def Let_def split: option.splits if_splits)
  have "one_busy s1" using assms(2) s(1) by (auto simp: one_busy_def acquired)
  then have "one_busy s2" using s(2,4) open_locked_busy assms(3) by blast
  then have "one_busy (s2\<lparr>gProtocolDatabaseLock := False\<rparr>)" by (simp add: one_busy_def)
  moreover have "Notifications env (s2\<lparr>gProtocolDatabaseLock := False\<rparr>) = Some s'" using s(3) by (auto simp: CoreReleaseProtocolLock_def)
  ultimately show ?thesis using only_closes_busy assms(3) unfolding closers_def by blast
qed (use assms(2) in simp)

end
