(* ===== verification/HandleFaults.thy ===== *)
theory HandleFaults
  imports HandleSpec LocateSafe
begin

text \<open>
  What goes wrong in the services of the handle database: the second interface of a protocol on a handle, and the rollback onto a handle
  that is gone.
\<close>

context database_clients
begin

lemma HandleProtocol_refused:
  assumes "CoreHandleProtocol env h (Some P) True s = Some ((EFI_OUT_OF_RESOURCES, x), s')" "db_inv s"
  shows "\<exists>I. (h, P, I) \<in> view s"
proof -
  have v: "\<not> EFI_ERROR (CoreValidateHandle h s)" using assms(1) by (auto simp: CoreHandleProtocol_def CoreOpenProtocol_def CoreValidateHandle_def split: if_splits)
  then obtain H where H: "ihandles s h = Some H" by (auto simp: validate_handle)
  let ?s = "s\<lparr>gProtocolDatabaseLock := True\<rparr>"
  obtain p where p: "CoreGetProtocolInterface h P ?s = Some p" "p \<noteq> 0 \<Longrightarrow> \<exists>J. interfaces ?s p = Some J \<and> installs ?s p h P (Interface J)"
    using CoreGetProtocolInterface_result [of ?s h H P] assms(2) H by auto
  have "p \<noteq> 0"
  proof
    assume "p = 0"
    then show False using assms(1) v p(1)
      by (auto simp: CoreHandleProtocol_def CoreOpenProtocol_def check_open_def acquired Let_def split: if_splits)
  qed
  then show ?thesis using p(2) by (auto simp: view_def)
qed

lemma Install_second:
  assumes "CoreHandleProtocol env h (Some P) True s = Some ((EFI_OUT_OF_RESOURCES, x), s1)"
    and "CoreInstallProtocolInterfaceNotify env (Some h) (Some P) 0 I Tell s = Some ((EFI_SUCCESS, h'), s')"
    and "db_ok inuse {} s" "Notifications env = Some" "\<not> gProtocolDatabaseLock s"
  shows "\<exists>J. J \<noteq> I \<and> (h, P, J) \<in> view s' \<and> (h, P, I) \<in> view s'"
proof -
  have inv: "db_inv s" using assms(3) by (simp add: db_ok_def)
  obtain J where J: "(h, P, J) \<in> view s" using HandleProtocol_refused [OF assms(1) inv] by blast
  have "h \<noteq> 0" using assms(1) by (auto simp: CoreHandleProtocol_def CoreOpenProtocol_def CoreValidateHandle_def)
  with InstallNotify_view(1) [OF assms(2-5)] have "(h, P, I) \<notin> view s" "view s' = insert (h, P, I) (view s)" by auto
  then show ?thesis using J by auto
qed

lemma Install_on_nothing:
  assumes "CoreInstallProtocolInterfaceNotify env (Some h) (Some P) 0 I Tell s = Some ((Status, h'), s')" "db_ok inuse {} s"
    and "Notifications env = Some" "\<not> gProtocolDatabaseLock s" "h \<noteq> 0" "\<forall>Q J. (h, Q, J) \<notin> view s"
  shows "EFI_ERROR Status" "h' = Some h" "view s' = view s" "\<not> gProtocolDatabaseLock s'"
proof -
  have "ihandles s h = None" using handles_in_view [of s h] assms(2,5,6) by (auto simp: db_ok_def validate_handle)
  then have v: "CoreValidateHandle h s = EFI_INVALID_PARAMETER" by (simp add: CoreValidateHandle_def)
  then have c: "CoreHandleProtocol env h (Some P) True s = Some ((EFI_INVALID_PARAMETER, Some 0), s)"
    by (simp add: CoreHandleProtocol_def CoreOpenProtocol_def)
  let ?s = "s\<lparr>gProtocolDatabaseLock := True\<rparr>"
  obtain e s1 where e: "CoreFindProtocolEntry env P True ?s = Some (e, s1)"
    using assms(1,4,5) c by (auto simp: CoreInstallProtocolInterfaceNotify_def acquired split: if_splits)
  show error: "EFI_ERROR Status"
  proof (cases "e = 0")
    case True
    then show ?thesis using assms(1,4,5) c e by (auto simp: CoreInstallProtocolInterfaceNotify_def acquired release_quiet [OF assms(3)])
  next
    case False
    then obtain p k s2 where s2: "install_locked env e h P I Tell s1 = Some ((Status, p, k), s2)"
      using assms(1,4,5) c e by (auto simp: CoreInstallProtocolInterfaceNotify_def acquired split: if_splits)
    have "db_ok inuse {} ?s" using assms(2) by simp
    from find_entry_ok [OF e this] have o: "db_ok inuse {} s1" and E: "\<exists>E. entries s1 e = Some E \<and> ProtocolID E = P" using False by auto
    have "installs s1 = installs s" using find_entry_view [OF e] assms(2) by simp
    then have "(h, P, I) \<notin> view s1 \<and> (\<forall>Q J. (h, Q, J) \<notin> view s1)" using assms(6) by (simp add: view_def)
    then have "EFI_ERROR (CoreValidateHandle h s1)" using handles_in_view [of s1 h] o by (auto simp: db_ok_def)
    then have "EFI_ERROR (CoreValidateHandle h t)" if "AllocatePool env n s1 = Some (a, t)" for n a t
      using that by (auto simp: AllocatePool_def CoreValidateHandle_def split: if_splits)
    then show ?thesis using s2 assms(5) by (auto simp: install_locked_def handle_for_def split: if_splits)
  qed
  with InstallNotify_view [OF assms(1-4)] show "h' = Some h" "view s' = view s" "\<not> gProtocolDatabaseLock s'" by simp_all
qed

text \<open>The first protocol is the last one of its handle: when the second cannot be uninstalled, the first is not put back.\<close>

lemma UninstallMultiple_lost:
  assumes "CoreUninstallMultipleProtocolInterfaces env h [(P, I), (Q, K)] s = Some (Status, s')"
    and "db_ok inuse {} s" "Notifications env = Some" "\<not> gProtocolDatabaseLock s"
    and "\<forall>R J. (h, R, J) \<in> view s \<longleftrightarrow> R = P \<and> J = I" "\<forall>p q. installs s p h P I \<longrightarrow> installs s q h P I \<longrightarrow> p = q"
    and "\<forall>p J. installs s p h P I \<longrightarrow> interfaces s p = Some J \<longrightarrow> OpenList J = []"
  shows "Status = EFI_INVALID_PARAMETER" "view s' = view s - {(h, P, I)}"
proof -
  obtain St s1 where s1: "CoreUninstallProtocolInterface env h (Some P) I s = Some (St, s1)"
    using assms(1) by (auto simp: CoreUninstallMultipleProtocolInterfaces_def split: if_splits)
  have n: "\<forall>p J. installs s p h P I \<longrightarrow> interfaces s p = Some J \<longrightarrow> (\<forall>x\<in>set (OpenList J). \<not> drives (snd x))" using assms(7) by fastforce
  have d: "\<not> (\<exists>p J x. installs s p h P I \<and> interfaces s p = Some J \<and> x \<in> set (OpenList J) \<and> \<not> weak_open (snd x))" using assms(7) by fastforce
  have a: "(h, P, I) \<in> view s" using assms(5) by simp
  have U: "St = EFI_SUCCESS" "view s1 = view s - {(h, P, I)}" "\<not> gProtocolDatabaseLock s1"
    using Uninstall_view [OF s1 assms(2-4,6) n] a d by (auto split: if_splits)
  have o1: "db_ok inuse {} s1" by (rule CoreUninstallProtocolInterface_ok [OF s1 assms(2)])
  have g: "\<forall>R J. (h, R, J) \<notin> view s1" using U(2) assms(5) by auto
  have "h \<noteq> 0" using handles_in_view [of s h] assms(2) a by (auto simp: db_ok_def validate_handle)
  have "EFI_ERROR (CoreValidateHandle h s1)" using handles_in_view [of s1 h] o1 g by (auto simp: db_ok_def)
  then have u: "CoreUninstallProtocolInterface env h (Some Q) K s1 = Some (EFI_INVALID_PARAMETER, s1)"
    by (auto simp: CoreUninstallProtocolInterface_def CoreValidateHandle_def split: if_splits)
  then have "Status = EFI_INVALID_PARAMETER \<and> undo_uninstall env h [(P, I)] s1 = Some s'"
    using assms(1) s1 U(1) by (auto simp: CoreUninstallMultipleProtocolInterfaces_def)
  then obtain r where r: "Status = EFI_INVALID_PARAMETER" "CoreInstallProtocolInterfaceNotify env (Some h) (Some P) 0 I True s1 = Some (r, s')"
    by (auto simp: CoreInstallProtocolInterface_def)
  obtain St2 h' where "r = (St2, h')" by (cases r)
  then have "view s' = view s1" using Install_on_nothing(3) [OF _ o1 assms(3) U(3) \<open>h \<noteq> 0\<close> g] r(2) by blast
  then show "Status = EFI_INVALID_PARAMETER" "view s' = view s - {(h, P, I)}" using r(1) U(2) by simp_all
qed

end

end
