(* ===== verification/DevicePathSpec.thy ===== *)
theory DevicePathSpec
  imports Locate
begin

text \<open>
  Well-formed device paths: which ones \<open>IsDevicePathValid\<close> accepts and what the size of one is.
\<close>

text \<open>Nodes of the lengths \<open>ns\<close> and an end node.\<close>

definition end_at :: "memory \<Rightarrow> u64 \<Rightarrow> bool" where
  "end_at mem a \<longleftrightarrow> mem a = END_DEVICE_PATH_TYPE \<and> mem (a + 1) = END_ENTIRE_DEVICE_PATH_SUBTYPE"

definition length_at :: "memory \<Rightarrow> u64 \<Rightarrow> nat" where
  "length_at mem a = unat (mem (a + 2)) + 256 * unat (mem (a + 3))"

fun nodes_at :: "memory \<Rightarrow> u64 \<Rightarrow> nat list \<Rightarrow> bool" where
  "nodes_at mem a [] \<longleftrightarrow> a \<noteq> 0 \<and> end_at mem a \<and> length_at mem a = 4"
| "nodes_at mem a (n # ns) \<longleftrightarrow> a \<noteq> 0 \<and> \<not> end_at mem a \<and> length_at mem a = n \<and> 4 \<le> n \<and> nodes_at mem (a + of_nat n) ns"

lemma IsDevicePathEnd_eq: "IsDevicePathEnd mem a = (if a = 0 then None else Some (end_at mem a))"
  by (simp add: IsDevicePathEnd_def IsDevicePathEndType_def DevicePathType_def DevicePathSubType_def end_at_def)

lemma DevicePathNodeLength_eq: "DevicePathNodeLength mem a = (if a = 0 then None else Some (of_nat (length_at mem a)))"
proof -
  let ?l = "ucast (mem (a + 2)) :: u64" and ?h = "ucast (mem (a + 3)) :: u64"
  have "?l AND push_bit 8 ?h = 0" by (rule bit_word_eqI) (auto simp: bit_simps dest: bit_imp_le_length)
  then have "?l OR push_bit 8 ?h = ?l + push_bit 8 ?h" using word_plus_and_or [of ?l "push_bit 8 ?h"] by simp
  also have "\<dots> = of_nat (length_at mem a)" by (simp add: length_at_def push_bit_eq_mult mult.commute)
  finally show ?thesis by (simp add: DevicePathNodeLength_def)
qed

lemma length_at_bound: "length_at mem a < 2 ^ 16"
proof -
  have "unat (mem (a + 2)) < 2 ^ LENGTH(8)" "unat (mem (a + 3)) < 2 ^ LENGTH(8)" by (rule unsigned_less)+
  then show ?thesis by (simp add: length_at_def)
qed

lemma length_at_word: "unat (of_nat (length_at mem a) :: u64) = length_at mem a"
  using length_at_bound [of mem a] by (subst unat_of_nat, subst mod_less) simp_all

lemma NextDevicePathNode_eq: "NextDevicePathNode mem a = (if a = 0 then None else Some (a + of_nat (length_at mem a)))"
  by (simp add: NextDevicePathNode_def DevicePathNodeLength_eq)

lemma end_node_at: "nodes_at mem a ns \<Longrightarrow> end_node mem a = Some (a + of_nat (sum_list ns))"
proof (induction mem a ns rule: nodes_at.induct)
  case (1 mem a)
  then show ?case by (subst end_node.simps) (simp add: IsDevicePathEnd_eq)
next
  case (2 mem a n ns)
  then show ?case by (subst end_node.simps) (simp add: IsDevicePathEnd_eq NextDevicePathNode_eq algebra_simps)
qed

lemma last_node: "nodes_at mem a ns \<Longrightarrow> nodes_at mem (a + of_nat (sum_list ns)) []"
  by (induction mem a ns rule: nodes_at.induct) (simp_all add: algebra_simps)

lemma length_4: "(of_nat (length_at mem a) :: u64) = 4 \<longleftrightarrow> length_at mem a = 4"
  using length_at_word [of mem a] by (simp add: word_unat_eq_iff)

lemma length_less_4: "(of_nat (length_at mem a) :: u64) < 4 \<longleftrightarrow> length_at mem a < 4"
  using length_at_word [of mem a] by (simp add: word_less_nat_alt)

lemma valid_from_nodes:
  assumes "nodes_at mem a ns" "Pcd = 0 \<or> unat Count + length ns < unat Pcd"
  shows "valid_from mem Pcd a 0 Count Size = Some True"
  using assms
proof (induction mem a ns arbitrary: Count Size rule: nodes_at.induct)
  case (1 mem a)
  then show ?case by (subst valid_from.simps) (simp add: IsDevicePathEnd_eq DevicePathNodeLength_eq)
next
  case (2 mem a n ns)
  have c: "unat (Count + 1) = unat Count + 1 \<and> Count + 1 < ucast Pcd" if "Pcd \<noteq> 0"
  proof -
    have l: "unat Count + 1 < unat Pcd" using that 2(3) by simp
    moreover have "unat Pcd < 2 ^ LENGTH(32)" by (rule unsigned_less)
    ultimately have u: "unat (Count + 1) = unat Count + 1" by (simp add: unat_word_ariths)
    moreover have "unat (ucast Pcd :: u64) = unat Pcd" by transfer simp
    ultimately show ?thesis using l by (simp add: word_less_nat_alt)
  qed
  have "Pcd = 0 \<or> unat (if Pcd > 0 then Count + 1 else Count) + length ns < unat Pcd" using 2(3) c by auto
  from 2(1) [OF _ this] show ?case
    using 2(2) c by (subst valid_from.simps)
      (auto simp: IsDevicePathEnd_eq DevicePathNodeLength_eq NextDevicePathNode_eq length_less_4 not_le)
qed

lemma nodes_from_valid:
  assumes "valid_from mem Pcd a Limit Count Size = Some True"
  shows "\<exists>ns. nodes_at mem a ns"
proof -
  have "r \<longrightarrow> (\<exists>ns. nodes_at mem a ns)" if "valid_from mem Pcd a Limit Count Size = Some r" for mem Pcd a Limit Count Size r
  proof (induction rule: valid_from.raw_induct [OF _ that])
    case (1 f mem Pcd a Limit Count Size r)
    show ?case
    proof (cases "end_at mem a")
      case True
      then have "r \<longrightarrow> nodes_at mem a []" using 1(2) by (auto simp: IsDevicePathEnd_eq DevicePathNodeLength_eq length_4 split: if_splits)
      then show ?thesis by blast
    next
      case False
      show ?thesis
      proof
        assume r
        then obtain C S where f: "f mem Pcd (a + of_nat (length_at mem a)) Limit C S = Some r" "a \<noteq> 0" "4 \<le> length_at mem a"
          using 1(2) False by (auto simp: IsDevicePathEnd_eq DevicePathNodeLength_eq NextDevicePathNode_eq length_less_4 Let_def split: if_splits)
        then obtain ns where "nodes_at mem (a + of_nat (length_at mem a)) ns" using 1(1) [OF f(1)] \<open>r\<close> by blast
        then have "nodes_at mem a (length_at mem a # ns)" using f False by simp
        then show "\<exists>ns. nodes_at mem a ns" by blast
      qed
    qed
  qed
  then show ?thesis using assms by blast
qed

text \<open>The size is that of all nodes, as long as the number of nodes is below the limit, if there is one.\<close>

lemma DevicePathSize_nodes:
  assumes "nodes_at mem Path ns" "Pcd = 0 \<or> length ns < unat Pcd"
  shows "IsDevicePathValid mem Pcd Path 0 = Some True"
    "UefiDevicePathLibGetDevicePathSize mem Pcd Path = Some (of_nat (sum_list ns + 4))"
proof -
  have p: "Path \<noteq> 0" using assms(1) by (cases ns) simp_all
  show v: "IsDevicePathValid mem Pcd Path 0 = Some True"
    using valid_from_nodes [OF assms(1), of Pcd 0] assms(2) p by (simp add: IsDevicePathValid_def)
  show "UefiDevicePathLibGetDevicePathSize mem Pcd Path = Some (of_nat (sum_list ns + 4))"
    using p v end_node_at [OF assms(1)] last_node [OF assms(1)]
    by (simp add: UefiDevicePathLibGetDevicePathSize_def DevicePathNodeLength_eq)
qed

text \<open>Without the check a node of length zero is walked over and over.\<close>

lemma end_of_instance_zero:
  assumes "\<not> end_at mem a" "mem a \<noteq> END_DEVICE_PATH_TYPE" "length_at mem a = 0"
  shows "end_of_instance mem a = None"
proof (rule ccontr)
  assume "end_of_instance mem a \<noteq> None"
  then obtain r where r: "end_of_instance mem a = Some r" by blast
  have "\<not> (m = mem \<and> b = a)" if "end_of_instance m b = Some r" for m b r
  proof (induction rule: end_of_instance.raw_induct [OF _ that])
    case (1 f m b r)
    show ?case using 1(1) [of mem a r] 1(2) assms
      by (auto simp: IsDevicePathEnd_eq IsDevicePathEndInstance_def IsDevicePathEndType_def DevicePathType_def DevicePathSubType_def
          NextDevicePathNode_eq split: if_splits)
  qed
  then show False using r by blast
qed

lemma CoreLocateDevicePath_hangs:
  assumes "mem a \<noteq> END_DEVICE_PATH_TYPE" "mem (a + 2) = 0" "mem (a + 3) = 0" "a \<noteq> 0"
  shows "CoreLocateDevicePath env mem Pcd (Some P) (Some a) Device s = None"
proof -
  have "end_of_instance mem a = None" by (rule end_of_instance_zero) (use assms in \<open>simp_all add: end_at_def length_at_def\<close>)
  then show ?thesis using assms(4) by (simp add: CoreLocateDevicePath_def)
qed

end
