(* ===== verification/HandleServices.thy ===== *)
theory HandleServices
  imports LocateSafe
begin

text \<open>
  The services of the handle database as their callers see them: entries of the boot services table
  (\<open>mBootServices\<close> in \<open>MdeModulePkg/Core/Dxe/DxeMain/DxeMain.c\<close>), called in any order, also by the code that runs inside a service.
\<close>

datatype service =
    InstallProtocolInterface "u64 option" "guid option" nat u64
  | ReinstallProtocolInterface u64 "guid option" u64 u64
  | UninstallProtocolInterface u64 "guid option" u64
  | HandleProtocol u64 "guid option" bool
  | RegisterProtocolNotify "guid option" u64 bool
  | LocateHandle search_type "guid option" u64 "u64 option" bool
  | LocateDevicePath "guid option" "u64 option" bool
  | OpenProtocol u64 "guid option" bool u64 u64 u32
  | CloseProtocol u64 "guid option" u64 u64
  | OpenProtocolInformation u64 guid
  | ProtocolsPerHandle u64 bool bool
  | LocateHandleBuffer search_type "guid option" u64 bool bool
  | LocateProtocol "guid option" u64 bool
  | InstallMultipleProtocolInterfaces "u64 option" "(guid \<times> u64) list"
  | UninstallMultipleProtocolInterfaces u64 "(guid \<times> u64) list"

text \<open>The state after a call; \<open>mem\<close> and \<open>Pcd\<close> are the memory that holds device paths and the bound on their nodes.\<close>

fun call :: "'p hdb_env \<Rightarrow> memory \<Rightarrow> u32 \<Rightarrow> service \<Rightarrow> 'p hdb \<Rightarrow> 'p hdb option" where
  "call env mem Pcd (InstallProtocolInterface h P T I) s = map_option snd (CoreInstallProtocolInterface env h P T I s)"
| "call env mem Pcd (ReinstallProtocolInterface h P Old New) s = map_option snd (CoreReinstallProtocolInterface env h P Old New s)"
| "call env mem Pcd (UninstallProtocolInterface h P I) s = map_option snd (CoreUninstallProtocolInterface env h P I s)"
| "call env mem Pcd (HandleProtocol h P Out) s = map_option snd (CoreHandleProtocol env h P Out s)"
| "call env mem Pcd (RegisterProtocolNotify P Ev Out) s = map_option snd (CoreRegisterProtocolNotify env P Ev Out s)"
| "call env mem Pcd (LocateHandle T P Search Size Buffer) s = map_option snd (CoreLocateHandle env T P Search Size Buffer s)"
| "call env mem Pcd (LocateDevicePath P Path Device) s = map_option snd (CoreLocateDevicePath env mem Pcd P Path Device s)"
| "call env mem Pcd (OpenProtocol h P Out Opener Controller Attr) s = map_option snd (CoreOpenProtocol env h P Out Opener Controller Attr s)"
| "call env mem Pcd (CloseProtocol h P Agent Controller) s = map_option snd (CoreCloseProtocol env h P Agent Controller s)"
| "call env mem Pcd (OpenProtocolInformation h P) s = map_option snd (CoreOpenProtocolInformation env h P s)"
| "call env mem Pcd (ProtocolsPerHandle h A B) s = map_option snd (CoreProtocolsPerHandle env h A B s)"
| "call env mem Pcd (LocateHandleBuffer T P Search A B) s = map_option snd (CoreLocateHandleBuffer env T P Search A B s)"
| "call env mem Pcd (LocateProtocol P Registration Out) s = map_option snd (CoreLocateProtocol env P Registration Out s)"
| "call env mem Pcd (InstallMultipleProtocolInterfaces h l) s = map_option snd (CoreInstallMultipleProtocolInterfaces env mem Pcd h l s)"
| "call env mem Pcd (UninstallMultipleProtocolInterfaces h l) s = map_option snd (CoreUninstallMultipleProtocolInterfaces env h l s)"

fun calls :: "'p hdb_env \<Rightarrow> memory \<Rightarrow> u32 \<Rightarrow> service list \<Rightarrow> 'p hdb \<Rightarrow> 'p hdb option" where
  "calls env mem Pcd [] s = Some s"
| "calls env mem Pcd (x # l) s = do { s \<leftarrow> call env mem Pcd x s; calls env mem Pcd l s }"

text \<open>
  The code that runs inside a service: which services it calls may depend on all that it finds.  At depth \<open>0\<close> it calls none; at depth
  \<open>n + 1\<close> the services it calls run code of depth \<open>n\<close>.
\<close>

record 'p client_code =
  OnNotify :: "'p hdb \<Rightarrow> service list"
  OnConnect :: "u64 \<Rightarrow> 'p hdb \<Rightarrow> service list"
  OnDisconnect :: "u64 \<Rightarrow> u64 \<Rightarrow> 'p hdb \<Rightarrow> efi_status \<times> service list"

fun client_env :: "'p hdb_env \<Rightarrow> memory \<Rightarrow> u32 \<Rightarrow> 'p client_code \<Rightarrow> nat \<Rightarrow> 'p hdb_env" where
  "client_env env mem Pcd C 0 =
     env\<lparr>Notifications := Some, ConnectController := (\<lambda>h. Some), DisconnectController := (\<lambda>h a s. Some (fst (OnDisconnect C h a s), s))\<rparr>"
| "client_env env mem Pcd C (Suc n) = env\<lparr>
     Notifications := (\<lambda>s. calls (client_env env mem Pcd C n) mem Pcd (OnNotify C s) s),
     ConnectController := (\<lambda>h s. calls (client_env env mem Pcd C n) mem Pcd (OnConnect C h s) s),
     DisconnectController := (\<lambda>h a s. map_option (\<lambda>t. (fst (OnDisconnect C h a s), t)) (calls (client_env env mem Pcd C n) mem Pcd (snd (OnDisconnect C h a s)) s))\<rparr>"


context database_clients
begin

lemma call_ok:
  assumes "call env mem Pcd x s = Some s'" "db_ok inuse Z s"
  shows "db_ok inuse Z s'"
  using assms
  by (cases x)
    (auto simp: CoreInstallProtocolInterface_def
      dest: CoreInstallProtocolInterfaceNotify_ok CoreReinstallProtocolInterface_ok CoreUninstallProtocolInterface_ok CoreHandleProtocol_ok
        CoreRegisterProtocolNotify_ok CoreLocateHandle_ok(1) CoreLocateDevicePath_ok CoreOpenProtocol_ok CoreCloseProtocol_ok
        CoreOpenProtocolInformation_ok CoreProtocolsPerHandle_ok CoreLocateHandleBuffer_ok(1) CoreLocateProtocol_ok
        CoreInstallMultipleProtocolInterfaces_ok CoreUninstallMultipleProtocolInterfaces_ok)

lemma calls_ok: "calls env mem Pcd l s = Some s' \<Longrightarrow> db_ok inuse Z s \<Longrightarrow> db_ok inuse Z s'"
  by (induction l arbitrary: s) (auto dest: call_ok)

end

text \<open>Code that only uses the services leaves the database well formed, however deep its calls go.\<close>

lemma client_env_pool:
  assumes "object_pool env inuse"
  shows "object_pool (client_env env mem Pcd C n) inuse"
  using assms by (cases n) (simp_all add: object_pool_def)

lemma client_env_clients:
  assumes "object_pool env inuse"
  shows "database_clients (client_env env mem Pcd C n) inuse"
proof (induction n)
  case 0
  show ?case
    by (rule database_clients.intro [OF client_env_pool [OF assms]]) (simp add: database_clients_axioms_def)
next
  case (Suc n)
  note c = database_clients.calls_ok [OF Suc]
  show ?case
    by (rule database_clients.intro [OF client_env_pool [OF assms]]) (auto simp: database_clients_axioms_def intro: c)
qed

text \<open>The empty database is well formed.\<close>

lemma initial_ok:
  assumes "inuse p {}"
  shows "db_ok inuse {} (initial_hdb p)"
proof -
  have "\<not> stands (initial_hdb p) a k" for a k by (cases k) (simp_all add: initial_hdb_def)
  moreover have "Rest (initial_hdb p) = p" by (simp add: initial_hdb_def)
  ultimately have "memory_ok inuse {} (initial_hdb p)" using assms by (simp add: memory_ok_def single_def owned_def)
  moreover have "db_inv (initial_hdb p)" by (simp add: db_inv_def links_ok_def initial_hdb_def)
  ultimately show ?thesis by (simp add: db_ok_def)
qed

end
