(* ===== verification/HandleExamples.thy ===== *)
theory HandleExamples
  imports LocateSpec OpenSpec HandleFaults DevicePathSpec HandleServices
begin

text \<open>
  A small database, on an allocator that gives one buffer after the other and refuses when its list says so.
\<close>

definition demo_give :: "u64 \<Rightarrow> nat \<times> bool list \<Rightarrow> (u64 \<times> nat \<times> bool list) option" where
  "demo_give Size p = (case p of
      (k, True # r) \<Rightarrow> Some (0, k, r)
    | (k, r) \<Rightarrow> if k < 1000 then Some (of_nat (128 * (k + 1)), k + 1, tl r) else Some (0, k, tl r))"

definition demo_hands :: "(nat \<times> bool list) hdb_env" where
  "demo_hands = \<lparr>PoolAllocate = demo_give, PoolFree = (\<lambda>a. Some), SignalEvent = (\<lambda>v. Some), Notifications = Some,
     ConnectController = (\<lambda>h. Some), DisconnectController = (\<lambda>h a s. Some (EFI_NOT_FOUND, s)), DxeCoreImageHandle = 0x7000\<rparr>"

definition demo_inuse :: "nat \<times> bool list \<Rightarrow> u64 set \<Rightarrow> bool" where
  "demo_inuse p U \<longleftrightarrow> fst p \<le> 1000 \<and> U \<subseteq> (\<lambda>k. of_nat (128 * (k + 1))) ` {..<fst p}"

abbreviation demo_db :: "bool list \<Rightarrow> (nat \<times> bool list) hdb" where
  "demo_db r \<equiv> initial_hdb (0, r)"

lemma demo_gives:
  assumes "demo_give n p = Some (a, p')" "demo_inuse p U"
  shows "if a = 0 then demo_inuse p' U else a \<notin> U \<and> demo_inuse p' (insert a U)"
proof -
  obtain k r where p: "p = (k, r)" by (cases p)
  have k: "k \<le> 1000" "U \<subseteq> (\<lambda>k. of_nat (128 * (k + 1))) ` {..<k}" using assms(2) by (simp_all add: demo_inuse_def p)
  have u: "unat (of_nat (128 * (i + 1)) :: u64) = 128 * (i + 1)" if "i \<le> 1000" for i
    by (subst unat_of_nat, subst mod_less) (use that in simp_all)
  consider r' where "a = 0" "p' = (k, r')" | r' where "a = of_nat (128 * (k + 1))" "p' = (k + 1, r')" "k < 1000"
    using assms(1) by (auto simp: demo_give_def p split: list.splits bool.splits if_splits)
  then show ?thesis
  proof cases
    case 1
    then show ?thesis using k by (simp add: demo_inuse_def)
  next
    case 2
    have "a \<notin> U"
    proof
      assume "a \<in> U"
      then obtain i where i: "i < k" "a = of_nat (128 * (i + 1))" using k(2) by auto
      then have "unat a = 128 * (i + 1)" using u [of i] k(1) by simp
      moreover have "unat a = 128 * (k + 1)" using u [of k] k(1) 2(1) by simp
      ultimately show False using i(1) by simp
    qed
    moreover have "a \<noteq> 0" using u [of k] k(1) 2(1) by auto
    moreover have "demo_inuse p' (insert a U)" using k 2 by (auto simp: demo_inuse_def lessThan_Suc)
    ultimately show ?thesis by simp
  qed
qed

lemma demo_objects: "object_pool demo_hands demo_inuse"
proof (unfold_locales, goal_cases)
  case (1 n p a p' U)
  then show ?case using demo_gives by (simp add: demo_hands_def)
next
  case (4 p U)
  then have "U \<subseteq> (\<lambda>k. of_nat (128 * (k + 1))) ` {..<fst p}" by (simp add: demo_inuse_def)
  then have "card U \<le> card {..<fst p}" by (rule surj_card_le [rotated]) simp
  then show ?case using 4 by (simp add: demo_inuse_def)
qed (auto simp: demo_hands_def demo_inuse_def)

lemma demo_clients: "database_clients demo_hands demo_inuse"
  by (rule database_clients.intro [OF demo_objects]) (simp add: database_clients_axioms_def demo_hands_def)

lemma demo_empty: "db_ok demo_inuse {} (demo_db r)"
  by (rule initial_ok) (simp add: demo_inuse_def)

lemma demo_quiet: "Notifications demo_hands = Some"
  by (simp add: demo_hands_def)

declare disconnect_drivers.simps [code] locate_loop.simps [code]

text \<open>A device path: a node of six bytes and the end.\<close>

definition demo_path :: memory where
  "demo_path a = (if a = 0x100 then 1 else if a = 0x102 then 6 else if a = 0x106 then 0x7F else if a = 0x107 then 0xFF else if a = 0x108 then 4 else 0)"

text \<open>One handle with one interface, which is open as \<open>opens\<close> says.\<close>

definition demo_one :: "(u64 \<times> open_data) list \<Rightarrow> nat \<times> bool list \<Rightarrow> (nat \<times> bool list) hdb" where
  "demo_one opens q = \<lparr>mProtocolDatabase = [128], gHandleList = [384], gHandleDatabaseKey = 1, gProtocolDatabaseLock = False, mEfiLocateHandleRequest = 0,
     ihandles = [384 \<mapsto> \<lparr>Protocols = [256], LocateRequest = 0, Key = 1\<rparr>],
     entries = [128 \<mapsto> \<lparr>ProtocolID = [1], ByProtocol = [256], Notify = []\<rparr>],
     interfaces = [256 \<mapsto> \<lparr>Handle = 384, Protocol = 128, Interface = 5, OpenList = opens, OpenListCount = of_nat (length opens)\<rparr>],
     notifies = Map.empty, Rest = q\<rparr>"

abbreviation demo_used :: open_data where
  "demo_used \<equiv> \<lparr>AgentHandle = 384, ControllerHandle = 384, Attributes = EFI_OPEN_PROTOCOL_BY_DRIVER, OpenCount = 1\<rparr>"

lemma demo_one_inv: "distinct (map fst opens) \<Longrightarrow> db_inv (demo_one opens q)"
  by (simp add: db_inv_def links_ok_def handle_ok_def entry_ok_def opens_ok_def demo_one_def)

lemma demo_one_stands:
  "stands (demo_one opens q) a k \<longleftrightarrow> a = 384 \<and> k = AHandle \<or> a = 128 \<and> k = AEntry \<or> a = 256 \<and> k = AnInterface \<or> a \<in> fst ` set opens \<and> k = AnOpen 256"
  by (cases k) (auto simp: demo_one_def)

lemma demo_one_ok: "db_ok demo_inuse {} (demo_one [] (3, r))"
proof -
  have "owned (demo_one [] (3, r)) = {384, 128, 256}" by (auto simp: owned_def demo_one_stands)
  moreover have "{384, 128, 256} \<subseteq> (\<lambda>k. of_nat (128 * (k + 1)) :: u64) ` {..<3}"
    by (simp add: lessThan_nat_numeral lessThan_Suc)
  moreover have "single (demo_one [] (3, r))" by (auto simp: single_def demo_one_stands)
  ultimately have "memory_ok demo_inuse {} (demo_one [] (3, r))" by (simp add: memory_ok_def demo_inuse_def) (simp add: demo_one_def)
  then show ?thesis using demo_one_inv [of "[]"] by (simp add: db_ok_def)
qed

lemma demo_one_installs: "installs (demo_one opens q) p h P I \<longleftrightarrow> p = 256 \<and> h = 384 \<and> P = [1] \<and> I = 5"
  by (auto simp: installs_def demo_one_def)

lemma demo_one_view: "view (demo_one opens q) = {(384, [1], 5)}"
  by (auto simp: view_def demo_one_installs)

lemma demo_one_lock: "\<not> gProtocolDatabaseLock (demo_one opens q)"
  by (simp add: demo_one_def)

section \<open>Installing and uninstalling\<close>

text \<open>C10. Installing a protocol adds exactly one interface to the database, when nobody has asked to be notified in between (no foreign
  code runs at the release of the lock): when the call succeeds, the interface is on the handle given, or on a
  new handle that had no protocol before, it was not there before, and every other interface is where it was; when the call fails, no interface
  has come or gone and the caller's handle is as it was.  (The call returns, the interface type is the native one, and the database is well formed and not locked.)\<close>

theorem InstallProtocolInterface_adds:
  assumes "CoreInstallProtocolInterface env (Some h) (Some P) 0 I s = Some ((Status, h'), s')"
    and "database_clients env inuse" "db_ok inuse {} s" "Notifications env = Some" "\<not> gProtocolDatabaseLock s"
  shows "if EFI_ERROR Status then h' = Some h \<and> view s' = view s
    else \<exists>k. h' = Some k \<and> k \<noteq> 0 \<and> (if h = 0 then \<forall>Q J. (k, Q, J) \<notin> view s else k = h) \<and> (k, P, I) \<notin> view s \<and> view s' = insert (k, P, I) (view s)"
  using database_clients.InstallNotify_view(1) [OF assms(2) _ assms(3-5)] assms(1) by (auto simp: CoreInstallProtocolInterface_def)

theorem InstallProtocolInterface_adds_witness:
  "\<exists>s'. CoreInstallProtocolInterface demo_hands (Some 0) (Some [1]) 0 5 (demo_db []) = Some ((EFI_SUCCESS, Some 384), s') \<and>
     view s' = insert (384, [1], 5) (view (demo_db []))"
proof -
  have "map_option fst (CoreInstallProtocolInterface demo_hands (Some 0) (Some [1]) 0 5 (demo_db [])) = Some (EFI_SUCCESS, Some 384)" by code_simp
  then obtain s' where s': "CoreInstallProtocolInterface demo_hands (Some 0) (Some [1]) 0 5 (demo_db []) = Some ((EFI_SUCCESS, Some 384), s')" by auto
  have "\<not> gProtocolDatabaseLock (demo_db [])" by (simp add: initial_hdb_def)
  from InstallProtocolInterface_adds [OF s' demo_clients demo_empty demo_quiet this] s' show ?thesis by auto
qed

text \<open>C11. Uninstalling an interface that no driver has open takes exactly the interface away, when the handle has the protocol with
  that interface at most once and no foreign code runs at the release of the lock: on a handle without protocols it is refused as invalid,
  an interface that is not there is not found, one that is open in a way the code may not drop is in use, and else it goes and nothing else does.
  (An interface that a driver has open goes through the disconnection of that driver, which is foreign code; that the
  database stays well formed then too is part of the invariant of the services, what becomes of the interface is not covered.  The call returns, and
  the database is well formed and not locked.)\<close>

theorem UninstallProtocolInterface_removes:
  assumes "CoreUninstallProtocolInterface env h (Some P) I s = Some (Status, s')"
    and "database_clients env inuse" "db_ok inuse {} s" "Notifications env = Some" "\<not> gProtocolDatabaseLock s"
    and "\<forall>p q. installs s p h P I \<longrightarrow> installs s q h P I \<longrightarrow> p = q"
    and "\<forall>p J. installs s p h P I \<longrightarrow> interfaces s p = Some J \<longrightarrow> (\<forall>x\<in>set (OpenList J). \<not> drives (snd x))"
  shows "Status = (if \<forall>Q J. (h, Q, J) \<notin> view s then EFI_INVALID_PARAMETER else if (h, P, I) \<notin> view s then EFI_NOT_FOUND
      else if \<exists>p J x. installs s p h P I \<and> interfaces s p = Some J \<and> x \<in> set (OpenList J) \<and> \<not> weak_open (snd x) then EFI_ACCESS_DENIED else EFI_SUCCESS) \<and>
    (Status \<noteq> EFI_ACCESS_DENIED \<longrightarrow> view s' = (if EFI_ERROR Status then view s else view s - {(h, P, I)}))"
  using database_clients.Uninstall_view [OF assms(2,1,3-7)] by blast

theorem UninstallProtocolInterface_removes_witness:
  "\<exists>s'. CoreUninstallProtocolInterface demo_hands 384 (Some [1]) 5 (demo_one [] (3, [])) = Some (EFI_SUCCESS, s') \<and> view s' = {}"
proof -
  let ?s = "demo_one [] (3, [])"
  have "map_option fst (CoreUninstallProtocolInterface demo_hands 384 (Some [1]) 5 ?s) = Some EFI_SUCCESS" by code_simp
  then obtain s' where s': "CoreUninstallProtocolInterface demo_hands 384 (Some [1]) 5 ?s = Some (EFI_SUCCESS, s')" by auto
  have "\<forall>p J. installs ?s p 384 [1] 5 \<longrightarrow> interfaces ?s p = Some J \<longrightarrow> (\<forall>x\<in>set (OpenList J). \<not> drives (snd x))" by (auto simp: demo_one_def)
  from UninstallProtocolInterface_removes [OF s' demo_clients demo_one_ok demo_quiet demo_one_lock _ this] s'
  show ?thesis by (simp add: demo_one_installs demo_one_view)
qed

text \<open>C27. When memory runs out the database can end with two interfaces of one protocol on a handle, which \<open>InstallProtocolInterface\<close> is there to
  refuse: it takes any failure of \<open>HandleProtocol\<close> to mean that the handle does not have the protocol, also the failure to record the use.\<close>

theorem InstallProtocolInterface_second:
  assumes "CoreHandleProtocol env h (Some P) True s = Some ((EFI_OUT_OF_RESOURCES, x), s1)"
    and "CoreInstallProtocolInterface env (Some h) (Some P) 0 I s = Some ((EFI_SUCCESS, h'), s')"
    and "database_clients env inuse" "db_ok inuse {} s" "Notifications env = Some" "\<not> gProtocolDatabaseLock s"
  shows "\<exists>J. J \<noteq> I \<and> (h, P, J) \<in> view s' \<and> (h, P, I) \<in> view s'"
  using database_clients.Install_second [OF assms(3,1) _ assms(4-6)] assms(2) by (auto simp: CoreInstallProtocolInterface_def)

theorem InstallProtocolInterface_second_witness:
  "\<exists>s'. CoreInstallProtocolInterface demo_hands (Some 384) (Some [1]) 0 6 (demo_one [] (3, [True])) = Some ((EFI_SUCCESS, Some 384), s') \<and>
     (384, [1], 6) \<in> view s'"
proof -
  let ?s = "demo_one [] (3, [True])"
  have "map_option fst (CoreHandleProtocol demo_hands 384 (Some [1]) True ?s) = Some (EFI_OUT_OF_RESOURCES, Some 5)" by code_simp
  then obtain s1 where s1: "CoreHandleProtocol demo_hands 384 (Some [1]) True ?s = Some ((EFI_OUT_OF_RESOURCES, Some 5), s1)" by auto
  have "map_option fst (CoreInstallProtocolInterface demo_hands (Some 384) (Some [1]) 0 6 ?s) = Some (EFI_SUCCESS, Some 384)" by code_simp
  then obtain s' where s': "CoreInstallProtocolInterface demo_hands (Some 384) (Some [1]) 0 6 ?s = Some ((EFI_SUCCESS, Some 384), s')" by auto
  from InstallProtocolInterface_second [OF s1 s' demo_clients demo_one_ok demo_quiet demo_one_lock] s' show ?thesis by auto
qed

text \<open>C28. Uninstalling several protocols is not undone when it fails after the last protocol of the handle has gone: the handle is no longer valid
  when the protocol is put back, the interface stays uninstalled, and the caller is told that the call failed.\<close>

theorem UninstallMultiple_loses:
  assumes "CoreUninstallMultipleProtocolInterfaces env h [(P, I), (Q, K)] s = Some (Status, s')"
    and "database_clients env inuse" "db_ok inuse {} s" "Notifications env = Some" "\<not> gProtocolDatabaseLock s"
    and "\<forall>R J. (h, R, J) \<in> view s \<longleftrightarrow> R = P \<and> J = I" "\<forall>p q. installs s p h P I \<longrightarrow> installs s q h P I \<longrightarrow> p = q"
    and "\<forall>p J. installs s p h P I \<longrightarrow> interfaces s p = Some J \<longrightarrow> OpenList J = []"
  shows "Status = EFI_INVALID_PARAMETER \<and> view s' = view s - {(h, P, I)}"
  using database_clients.UninstallMultiple_lost [OF assms(2,1,3-8)] by simp

theorem UninstallMultiple_loses_witness:
  "\<exists>s'. CoreUninstallMultipleProtocolInterfaces demo_hands 384 [([1], 5), ([2], 6)] (demo_one [] (3, [])) = Some (EFI_INVALID_PARAMETER, s') \<and> view s' = {}"
proof -
  let ?s = "demo_one [] (3, [])"
  have "map_option fst (CoreUninstallMultipleProtocolInterfaces demo_hands 384 [([1], 5), ([2], 6)] ?s) = Some EFI_INVALID_PARAMETER" by code_simp
  then obtain s' where s': "CoreUninstallMultipleProtocolInterfaces demo_hands 384 [([1], 5), ([2], 6)] ?s = Some (EFI_INVALID_PARAMETER, s')" by auto
  have "\<forall>p J. installs ?s p 384 [1] 5 \<longrightarrow> interfaces ?s p = Some J \<longrightarrow> OpenList J = []" by (auto simp: demo_one_def)
  from UninstallMultiple_loses [OF s' demo_clients demo_one_ok demo_quiet demo_one_lock _ _ this] s' show ?thesis by (simp add: demo_one_installs demo_one_view)
qed

section \<open>Locating\<close>

text \<open>C12. Locating handles by protocol answers for the whole database: the call returns, and reports, each once, exactly the handles on which the
  protocol is installed: their number, what fits into the buffer, and whether all of them fit.\<close>

theorem LocateHandle_lists:
  assumes "db_inv s" "\<not> gProtocolDatabaseLock s" "Notifications env = Some" "length (gHandleList s) < 2 ^ 60"
    and "\<forall>h H. ihandles s h = Some H \<longrightarrow> LocateRequest H \<noteq> mEfiLocateHandleRequest s + 1"
  shows "\<exists>hs s'. distinct hs \<and> set hs = {h. \<exists>I. (h, P, I) \<in> view s} \<and> view s' = view s \<and>
    CoreLocateHandle env search_type.ByProtocol (Some P) k (Some Size) True s =
      Some ((handle_status Size hs, Some (if hs = [] then Size else of_nat (8 * length hs)), take (unat Size div 8) hs), s')"
  by (rule LocateHandle_finds [OF assms])

theorem LocateHandle_lists_witness:
  "\<exists>s'. CoreLocateHandle demo_hands search_type.ByProtocol (Some [1]) 0 (Some 64) True (demo_one [] (3, [])) = Some ((EFI_SUCCESS, Some 8, [384]), s')"
proof -
  have n: "\<forall>h H. ihandles (demo_one [] (3, [])) h = Some H \<longrightarrow> LocateRequest H \<noteq> mEfiLocateHandleRequest (demo_one [] (3, [])) + 1"
    and l: "length (gHandleList (demo_one [] (3, []))) < 2 ^ 60" by (auto simp: demo_one_def)
  obtain hs s' where hs: "distinct hs" "set hs = {384}" "CoreLocateHandle demo_hands search_type.ByProtocol (Some [1]) 0 (Some 64) True (demo_one [] (3, [])) =
      Some ((handle_status 64 hs, Some (if hs = [] then 64 else of_nat (8 * length hs)), take (unat (64 :: u64) div 8) hs), s')"
    using LocateHandle_lists [OF demo_one_inv demo_one_lock demo_quiet l n, of "[1]" 0 64] by (auto simp: demo_one_view)
  have "length hs = 1" using distinct_card [OF hs(1)] hs(2) by simp
  then have "hs = [384]" using hs(2) by (cases hs) auto
  then show ?thesis using hs(3) by (simp add: handle_status_def)
qed

text \<open>C25. A registration sees every new interface once and in order: asking for the next interface again and again returns the interfaces that were
  installed behind the position of the registration, in the order of their installation, and then none.\<close>

theorem LocateProtocol_lists_new:
  assumes "db_inv s" "\<not> gProtocolDatabaseLock s" "Notifications env = Some" "notifies s n = Some x" "entries s (NotifyProtocol x) = Some E"
  shows "\<exists>s'. locate_new env P n k s = Some (take k (map (interface_of s) (after_link (Position x) (protocol_entry.ByProtocol E))), s') \<and> view s' = view s"
  by (rule locate_new_lists [OF assms])

definition demo_told :: "(nat \<times> bool list) hdb" where
  "demo_told = (demo_one [] (4, []))\<lparr>entries := [128 \<mapsto> \<lparr>ProtocolID = [1], ByProtocol = [256], Notify = [512]\<rparr>],
     notifies := [512 \<mapsto> \<lparr>NotifyProtocol = 128, Event = 9, Position = ListHead\<rparr>]\<rparr>"

theorem LocateProtocol_lists_new_witness:
  "\<exists>s'. locate_new demo_hands [1] 512 3 demo_told = Some ([5], s')"
proof -
  have "db_inv demo_told" by (simp add: db_inv_def links_ok_def handle_ok_def entry_ok_def opens_ok_def position_ok_def demo_told_def demo_one_def)
  moreover have "\<not> gProtocolDatabaseLock demo_told" "notifies demo_told 512 = Some \<lparr>NotifyProtocol = 128, Event = 9, Position = ListHead\<rparr>"
    "entries demo_told (NotifyProtocol \<lparr>NotifyProtocol = 128, Event = 9, Position = ListHead\<rparr>) = Some \<lparr>ProtocolID = [1], ByProtocol = [256], Notify = [512]\<rparr>"
    "interface_of demo_told 256 = 5" by (simp_all add: demo_told_def demo_one_def interface_of_def)
  ultimately show ?thesis using LocateProtocol_lists_new [of demo_told demo_hands 512 _ _ "[1]" 3] demo_quiet by (fastforce simp: after_link_def)
qed

section \<open>Opening\<close>

text \<open>C13. At most one agent drives an interface or has it for itself: when that holds of every interface, it holds after opening a protocol, with
  any attributes, provided the code that is run in between, the drivers that are disconnected and the notifications, opens nothing.\<close>

theorem OpenProtocol_exclusive:
  assumes "CoreOpenProtocol env h P Out Opener Controller Attr s = Some (r, s')" "one_busy s" "closers env"
  shows "one_busy s'"
  by (rule OpenProtocol_one_busy [OF assms])

text \<open>A driver lets go of what it has when it is disconnected.\<close>

definition demo_closing :: "(nat \<times> bool list) hdb_env" where
  "demo_closing = demo_hands\<lparr>DisconnectController := (\<lambda>h a s. Some (EFI_SUCCESS, s\<lparr>interfaces := (\<lambda>p. map_option
     (\<lambda>I. I\<lparr>OpenList := filter (\<lambda>x. AgentHandle (snd x) \<noteq> a) (OpenList I),
       OpenListCount := of_nat (length (filter (\<lambda>x. AgentHandle (snd x) \<noteq> a) (OpenList I)))\<rparr>) (interfaces s p))\<rparr>))\<rparr>"

lemma demo_closers: "closers demo_closing"
proof -
  have "only_closes t t'" if "DisconnectController demo_closing h a t = Some (St, t')" for h a t St t'
    using that unfolding only_closes_def by (auto simp: demo_closing_def intro!: exI [of _ "\<lambda>x. AgentHandle (snd x) \<noteq> a"])
  then show ?thesis by (auto simp: closers_def demo_closing_def demo_hands_def only_closes_same)
qed

theorem OpenProtocol_exclusive_witness:
  "\<exists>s'. CoreOpenProtocol demo_closing 384 (Some [1]) True 384 384 0x20 (demo_one [(512, demo_used)] (4, [])) = Some ((EFI_SUCCESS, Some 5), s') \<and> one_busy s'"
proof -
  let ?s = "demo_one [(512, demo_used)] (4, [])"
  have "map_option fst (CoreOpenProtocol demo_closing 384 (Some [1]) True 384 384 0x20 ?s) = Some (EFI_SUCCESS, Some 5)" by code_simp
  then obtain s' where s': "CoreOpenProtocol demo_closing 384 (Some [1]) True 384 384 0x20 ?s = Some ((EFI_SUCCESS, Some 5), s')" by auto
  have "one_busy ?s" by (simp add: one_busy_def demo_one_def)
  from OpenProtocol_exclusive [OF s' this demo_closers] s' show ?thesis by auto
qed

text \<open>Without the proviso it does not hold: whether the interface is open exclusively is found out before the drivers are disconnected, with the lock
  released.  Here the driver that lets go opens the interface exclusively itself, and the call that was waiting adds a second exclusive opening.\<close>

definition demo_racing :: "(nat \<times> bool list) client_code" where
  "demo_racing = \<lparr>OnNotify = (\<lambda>s. []), OnConnect = (\<lambda>h s. []),
     OnDisconnect = (\<lambda>h a s. (EFI_SUCCESS, [CloseProtocol h (Some [1]) a a, OpenProtocol h (Some [1]) True a 0 EFI_OPEN_PROTOCOL_EXCLUSIVE]))\<rparr>"

lemma OpenProtocol_two_exclusive:
  "map_option (\<lambda>(r, s). (fst r, map_option (\<lambda>I. length (filter (\<lambda>x. excludes (snd x)) (OpenList I))) (interfaces s 256)))
     (CoreOpenProtocol (client_env demo_hands demo_path 0 demo_racing 1) 384 (Some [1]) True 384 1 EFI_OPEN_PROTOCOL_EXCLUSIVE
       (demo_one [(512, demo_used)] (4, []))) = Some (EFI_SUCCESS, Some 2)"
  by code_simp

section \<open>Device paths\<close>

text \<open>C26. A device path of nodes that are at least four bytes long, with an end node of four bytes, is accepted when it has fewer nodes than the limit
  or there is none, and its size is the sum of the lengths of its nodes, the end node included.\<close>

theorem DevicePathSize_correct:
  assumes "nodes_at mem Path ns" "Pcd = 0 \<or> length ns < unat Pcd"
  shows "IsDevicePathValid mem Pcd Path 0 = Some True \<and> UefiDevicePathLibGetDevicePathSize mem Pcd Path = Some (of_nat (sum_list ns + 4))"
  using DevicePathSize_nodes [OF assms] by simp

theorem DevicePathSize_correct_witness:
  "UefiDevicePathLibGetDevicePathSize demo_path 0 0x100 = Some 10"
proof -
  have "nodes_at demo_path 0x100 [6]" by (simp add: end_at_def length_at_def demo_path_def)
  then show ?thesis using DevicePathSize_correct [of demo_path "0x100" "[6]" 0] by simp
qed

end
