(* ===== verification/HandlePool.thy ===== *)
theory HandlePool
  imports HandleServices PoolSpec Events
begin

text \<open>
  The handle database on the pool and the events of the core: the pool of the model keeps what the database expects of it.
\<close>

record ('e, 'v) core_rest =
  RestPools :: "'e pools"
  RestEvents :: "'v ev"

definition InternalAllocatePool :: "'e pool_env \<Rightarrow> 'e free_stack \<Rightarrow> nat \<Rightarrow> u32 \<Rightarrow> u64 \<Rightarrow> 'e pools \<Rightarrow> (u64 \<times> 'e pools) option" where
  "InternalAllocatePool penv free n MemoryType AllocationSize st = do {
     ((Status, Memory), st) \<leftarrow> CoreAllocatePool penv free n MemoryType AllocationSize True st;
     if EFI_ERROR Status then Some (0, st) else do { Memory \<leftarrow> Memory; Some (Memory, st) }
   }"

text \<open>The services of the core that the database calls; what a caller does with the status of \<open>CoreFreePool\<close> and \<open>CoreSignalEvent\<close> is nothing.\<close>

definition core_env :: "'e pool_env \<Rightarrow> 'e free_stack \<Rightarrow> nat \<Rightarrow> 'v restore \<Rightarrow> u64 \<Rightarrow> ('e, 'v) core_rest hdb_env" where
  "core_env penv free n restore core = \<lparr>
     PoolAllocate = (\<lambda>Size p. do {
       (a, st) \<leftarrow> InternalAllocatePool penv free n EfiBootServicesData Size (RestPools p);
       Some (a, p\<lparr>RestPools := st\<rparr>) }),
     PoolFree = (\<lambda>Buffer p. do { (_, st) \<leftarrow> CoreFreePool penv free n Buffer (RestPools p); Some (p\<lparr>RestPools := st\<rparr>) }),
     SignalEvent = (\<lambda>Ev p. do { (_, e) \<leftarrow> CoreSignalEvent restore (unat Ev) (RestEvents p); Some (p\<lparr>RestEvents := e\<rparr>) }),
     Notifications = Some, ConnectController = (\<lambda>h. Some), DisconnectController = (\<lambda>h a s. Some (EFI_NOT_FOUND, s)),
     DxeCoreImageHandle = core\<rparr>"

text \<open>The buffers \<open>U\<close> are in use.\<close>

definition buffers :: "('e, 'v) core_rest \<Rightarrow> u64 set \<Rightarrow> bool" where
  "buffers p U \<longleftrightarrow> (\<exists>G. pool_ok G (RestPools p) \<and> (\<forall>b\<in>U. \<exists>S. live G (RestPools p) (b - SIZE_OF_POOL_HEAD) EfiBootServicesData S))"

lemma slot_size:
  assumes "arenas_ok G s" "slot G a T n"
  shows "128 \<le> n"
proof -
  have "128 \<le> LIST_TO_SIZE k" for k by (simp add: LIST_TO_SIZE_def)
  moreover have "128 \<le> unat (pool_pages Size) * 4096" if "0 < unat (pool_pages Size) * 4096" for Size
  proof -
    have "1 \<le> unat (pool_pages Size)" using that by simp
    then show ?thesis by simp
  qed
  ultimately show ?thesis using slot_bound(3) [OF assms] assms(2) by (auto simp: slot_def)
qed

text \<open>Slots are 128 bytes or more, so there are at most \<open>2 ^ 57\<close>.\<close>

lemma buffers_small:
  assumes "buffers p U"
  shows "card U \<le> 2 ^ 57"
proof -
  obtain G where G: "pool_ok G (RestPools p)" "\<And>b. b \<in> U \<Longrightarrow> \<exists>S. live G (RestPools p) (b - SIZE_OF_POOL_HEAD) EfiBootServicesData S"
    using assms by (auto simp: buffers_def)
  have ar: "arenas_ok G (PageState (RestPools p))" using G(1) by (simp add: pool_ok_def)
  let ?f = "\<lambda>b. unat (b - SIZE_OF_POOL_HEAD) div 128"
  have "inj_on ?f U"
  proof (rule inj_onI)
    fix b c assume h: "b \<in> U" "c \<in> U" "?f b = ?f c"
    obtain n m where s: "slot G (b - SIZE_OF_POOL_HEAD) EfiBootServicesData n" "slot G (c - SIZE_OF_POOL_HEAD) EfiBootServicesData m"
      using G(2) [OF h(1)] G(2) [OF h(2)] by (auto simp: live_def)
    have l: "128 \<le> n" "128 \<le> m" using slot_size [OF ar] s by blast+
    let ?x = "if unat (b - SIZE_OF_POOL_HEAD) \<le> unat (c - SIZE_OF_POOL_HEAD) then c - SIZE_OF_POOL_HEAD else b - SIZE_OF_POOL_HEAD"
    have "within (b - SIZE_OF_POOL_HEAD) n ?x" "within (c - SIZE_OF_POOL_HEAD) m ?x" using h(3) l by (auto simp: within_def)
    from slots_apart [OF ar s this] show "b = c" by simp
  qed
  moreover have "?f ` U \<subseteq> {0..<2 ^ 57}"
  proof
    fix k assume "k \<in> ?f ` U"
    then obtain x :: u64 where "k = unat x div 128" by blast
    moreover have "unat x < 2 ^ LENGTH(64)" by (rule unsigned_less)
    ultimately show "k \<in> {0..<2 ^ 57}" by simp
  qed
  ultimately show ?thesis using card_inj_on_le [of ?f U "{0..<2 ^ 57}"] by simp
qed

context page_source
begin

lemma buffers_given:
  assumes "InternalAllocatePool env free n EfiBootServicesData Size (RestPools p) = Some (a, st)" "buffers p U" "unat Size < 2 ^ 63"
  shows "if a = 0 then buffers (p\<lparr>RestPools := st\<rparr>) U else a \<notin> U \<and> buffers (p\<lparr>RestPools := st\<rparr>) (insert a U)"
proof -
  obtain G where G: "pool_ok G (RestPools p)" "\<And>b. b \<in> U \<Longrightarrow> \<exists>S. live G (RestPools p) (b - SIZE_OF_POOL_HEAD) EfiBootServicesData S"
    using assms(2) by (auto simp: buffers_def)
  obtain Status b where c: "CoreAllocatePool env free n EfiBootServicesData Size True (RestPools p) = Some ((Status, b), st)"
      "if EFI_ERROR Status then a = 0 else b = Some a"
    using assms(1) by (auto simp: InternalAllocatePool_def split: if_splits)
  show ?thesis
  proof (cases "EFI_ERROR Status")
    case False
    then have s: "CoreAllocatePool env free n EfiBootServicesData Size True (RestPools p) = Some ((EFI_SUCCESS, b), st)" "b = Some a"
      using c by (simp_all add: EFI_ERROR_def)
    from AllocatePool_gives [OF G(1) s(1) assms(3)] obtain G' h S where g: "b = Some (h + SIZE_OF_POOL_HEAD)" "pool_ok G' st"
      "live G' st h EfiBootServicesData S" "40 \<le> unat S"
      "\<And>c U R. live G (RestPools p) c U R \<Longrightarrow> live G' st c U R \<and> (unat c + unat R \<le> unat h \<or> unat h + unat S \<le> unat c)" by auto
    have a: "a - SIZE_OF_POOL_HEAD = h" using g(1) s(2) by simp
    have "a \<notin> U"
    proof
      assume "a \<in> U"
      then obtain R where R: "live G (RestPools p) h EfiBootServicesData R" using G(2) a by auto
      obtain k where "40 \<le> unat R" by (rule live_used [OF G(1) R])
      then show False using g(4) g(5) [OF R] by simp
    qed
    moreover have "buffers (p\<lparr>RestPools := st\<rparr>) (insert a U)" using g(2,3,5) G(2) a unfolding buffers_def by (intro exI [of _ G']) fastforce
    moreover have "a \<noteq> 0"
    proof
      assume "a = 0"
      have "CoreAllocatePool env free n EfiBootServicesData Size True (RestPools p) \<noteq> Some ((EFI_SUCCESS, Some 0), st)"
        by (auto simp: CoreAllocatePool_def Let_def)
      then show False using s \<open>a = 0\<close> by simp
    qed
    ultimately show ?thesis by simp
  next
    case True
    have "\<exists>G'. keeps_live G (RestPools p) G' st"
    proof (cases "st = RestPools p")
      case True
      then show ?thesis using keeps_live_refl [OF G(1)] by blast
    next
      case n: False
      let ?st = "(RestPools p)\<lparr>PageState := (PageState (RestPools p))\<lparr>gMemoryLock := True\<rparr>\<rparr>"
      obtain st1 where st1: "CoreAllocatePoolI env free n EfiBootServicesData Size ?st = Some (0, st1)"
          "st = st1\<lparr>PageState := (PageState st1)\<lparr>gMemoryLock := False\<rparr>\<rparr>" "\<not> gMemoryLock (PageState (RestPools p))"
        using c(1) True n by (auto simp: CoreAllocatePool_def CoreReleaseMemoryLock_def Let_def split: if_splits)
      have "pool_ok G ?st" using G(1) by simp
      from AllocatePoolI_static(1) [OF st1(1) this _ _ assms(3)] have "keeps_live G ?st G st1" by simp
      then have "keeps_live G (RestPools p) G st" using st1(2,3) by (simp add: keeps_live_def)
      then show ?thesis by blast
    qed
    then have "buffers (p\<lparr>RestPools := st\<rparr>) U" using G(2) unfolding buffers_def keeps_live_def by (metis core_rest.select_convs(1) core_rest.surjective core_rest.update_convs(1))
    then show ?thesis using c(2) True by simp
  qed
qed

lemma buffers_taken:
  assumes "CoreFreePool env free n a (RestPools p) = Some (Status, st)" "buffers p (insert a U)" "a \<notin> U"
  shows "buffers (p\<lparr>RestPools := st\<rparr>) U"
proof -
  obtain G where G: "pool_ok G (RestPools p)" "\<And>b. b \<in> insert a U \<Longrightarrow> \<exists>S. live G (RestPools p) (b - SIZE_OF_POOL_HEAD) EfiBootServicesData S"
    using assms(2) unfolding buffers_def by blast
  obtain S where S: "live G (RestPools p) (a - SIZE_OF_POOL_HEAD) EfiBootServicesData S" using G(2) by blast
  have "CoreFreePool env free n (a - SIZE_OF_POOL_HEAD + SIZE_OF_POOL_HEAD) (RestPools p) = Some (Status, st)" using assms(1) by simp
  from FreePool_gives [OF G(1) S _ this] obtain G' where g: "pool_ok G' st"
      "\<And>c U R. live G' st c U R \<longleftrightarrow> live G (RestPools p) c U R \<and> c \<noteq> a - SIZE_OF_POOL_HEAD" by auto
  have "\<exists>S. live G' st (b - SIZE_OF_POOL_HEAD) EfiBootServicesData S" if "b \<in> U" for b
    using G(2) [of b] that g(2) assms(3) by auto
  then show ?thesis using g(1) by (auto simp: buffers_def)
qed

lemma core_pool: "object_pool (core_env env free n restore core) buffers"
proof (unfold_locales, goal_cases)
  case (1 Size p a p' U)
  then obtain st where "InternalAllocatePool env free n EfiBootServicesData Size (RestPools p) = Some (a, st)" "p' = p\<lparr>RestPools := st\<rparr>"
    by (auto simp: core_env_def)
  then show ?case using buffers_given 1(2,3) by metis
next
  case (2 a p p' U)
  then obtain Status st where "CoreFreePool env free n a (RestPools p) = Some (Status, st)" "p' = p\<lparr>RestPools := st\<rparr>" by (auto simp: core_env_def)
  then show ?case using buffers_taken 2(2,3) by metis
next
  case (3 p U V)
  then show ?case by (auto simp: buffers_def)
next
  case (4 p U)
  then show ?case by (rule buffers_small)
next
  case (5 v p p' U)
  then show ?case by (auto simp: core_env_def buffers_def)
qed

end

interpretation core_objects: object_pool "core_env penv (CoreFreeMemoryMapStack (PagesEnv penv) m) n restore core" buffers for penv m n restore core
  by (rule pool_pages_source.core_pool)

interpretation core_handles: database_clients
  "client_env (core_env penv (CoreFreeMemoryMapStack (PagesEnv penv) m) n restore core) mem Pcd C depth" buffers
  for penv m n restore core mem Pcd C depth
  by (rule client_env_clients [OF core_objects.object_pool_axioms])

end
