(* ===== verification/CoreExamples.thy ===== *)
theory CoreExamples
  imports HandlePool PoolExamples
begin

text \<open>
  The handle database on the pool of the core: a page of 32 free blocks.
\<close>

definition demo_blocks32 :: "u64 list" where
  "demo_blocks32 = map (\<lambda>i. 0x3000 + of_nat (128 * i)) [0..<32]"

lemma demo_blocks32_list [code]:
  "demo_blocks32 = [0x3000, 0x3080, 0x3100, 0x3180, 0x3200, 0x3280, 0x3300, 0x3380, 0x3400, 0x3480, 0x3500, 0x3580, 0x3600, 0x3680, 0x3700, 0x3780, 0x3800, 0x3880, 0x3900, 0x3980, 0x3A00, 0x3A80, 0x3B00, 0x3B80, 0x3C00, 0x3C80, 0x3D00, 0x3D80, 0x3E00, 0x3E80, 0x3F00, 0x3F80]"
  by code_simp

definition demo_many :: "unit pools" where
  "demo_many = \<lparr>PageState = demo_mem, Blocks = (\<lambda>a. if 0x3000 \<le> a \<and> a < 0x4000 then Some (POOL_FREE 0) else None), Tails = Map.empty,
     mPoolHead = (\<lambda>T. if T = 4 then \<lparr>Used = 0, FreeList = (\<lambda>i. if i = 0 then demo_blocks32 else [])\<rparr> else empty_pool), mPoolHeadList = []\<rparr>"

abbreviation demo_page :: "u64 \<Rightarrow> arena option" where
  "demo_page \<equiv> [0x3000 \<mapsto> Carved 4 0]"

lemma page_of_128: "n + k = 32 \<Longrightarrow> pool_blocks 0 (128 * k) = map (\<lambda>i. (128 * i, 0)) [k..<32]"
proof (induction n arbitrary: k)
  case 0
  then show ?case by (simp add: pool_blocks.simps)
next
  case (Suc n)
  have "pool_blocks 0 (128 * k) = (128 * k, 0) # pool_blocks 0 (128 * Suc k)"
    using Suc.prems by (subst pool_blocks.simps) (simp add: LIST_TO_SIZE_def add.commute)
  also have "\<dots> = (128 * k, 0) # map (\<lambda>i. (128 * i, 0)) [Suc k..<32]" using Suc.IH [of "Suc k"] Suc.prems by simp
  also have "\<dots> = map (\<lambda>i. (128 * i, 0)) [k..<32]" using Suc.prems by (simp add: upt_conv_Cons)
  finally show ?case .
qed

lemma demo_many_block: "block_at demo_page a T k \<longleftrightarrow> T = 4 \<and> k = 0 \<and> a \<in> set demo_blocks32"
proof -
  have "demo_page p = Some (Carved T i) \<longleftrightarrow> p = 0x3000 \<and> T = 4 \<and> i = 0" for p i by auto
  moreover have "pool_blocks 0 0 = map (\<lambda>i. (128 * i, 0)) [0..<32]" using page_of_128 [of 32 0] by simp
  ultimately show ?thesis unfolding block_at_def by (auto simp: demo_blocks32_def image_iff)
qed

lemma demo_page_ok: "arenas_ok demo_page demo_mem"
proof -
  have "holds demo_mem a 4" if "in_pages 0x3000 1 a" for a
  proof -
    have "owns demo_mem a 4 0xF"
      using that by (simp add: in_pages_def demo_mem_def demo_entry_def owned_def covers_def word_le_nat_alt)
    then show ?thesis by (auto simp: holds_def)
  qed
  then show ?thesis by (auto simp: arenas_ok_def arena_ok_def page_aligned_def split: if_splits)
qed

lemma demo_many_ok: "pool_ok demo_page demo_many"
proof -
  have "unat T = 4 \<longleftrightarrow> T = 4" for T :: u32 using word_unat_eq_iff [of T 4] by simp
  then have l: "list_of demo_many T k = (if T = 4 \<and> k = 0 then demo_blocks32 else [])" for T k
    by (simp add: list_of_def demo_many_def pool_of_def empty_pool_def)
  have "distinct demo_blocks32" by code_simp
  moreover have "\<forall>a\<in>set demo_blocks32. 0x3000 \<le> a \<and> a < 0x4000" by code_simp
  ultimately have "blocks_ok demo_page (Blocks demo_many) (Tails demo_many) (list_of demo_many)"
    unfolding blocks_ok_def demo_many_block l by (auto simp: demo_many_def split: if_splits)
  then show ?thesis using demo_settled(2) demo_page_ok by (simp add: pool_ok_def demo_many_def)
qed

text \<open>C9. Whatever services are called, in whatever order, with whatever arguments, and whatever services the code calls that runs inside them
  (the notifications, the drivers that are connected and disconnected), to any depth: the handle database stays well formed on the pool of the core.
  (The services are the fifteen that Handle.c, Notify.c and Locate.c give to the boot services table.)
  The lists and the structures agree, every structure stands in a buffer of its own that the pool has given out, and no entry is double.\<close>

theorem services_keep_database:
  assumes "calls (client_env (core_env penv (CoreFreeMemoryMapStack (PagesEnv penv) m) n restore core) mem Pcd C depth) mem Pcd l s = Some s'"
    and "db_ok buffers {} s"
  shows "db_ok buffers {} s'"
  by (rule core_handles.calls_ok [OF assms])

definition demo_code :: "(unit, unit) core_rest client_code" where
  "demo_code = \<lparr>OnNotify = (\<lambda>s. [LocateProtocol (Some [1]) 0 True]), OnConnect = (\<lambda>h s. []), OnDisconnect = (\<lambda>h a s. (EFI_NOT_FOUND, []))\<rparr>"

definition demo_rest :: "(unit, unit) core_rest" where
  "demo_rest = \<lparr>RestPools = demo_many, RestEvents = undefined\<rparr>"

abbreviation demo_core :: "(unit, unit) core_rest hdb_env" where
  "demo_core \<equiv> core_env demo_pool_env (CoreFreeMemoryMapStack (PagesEnv demo_pool_env) 1) 1 (\<lambda>_. Some) 0"

lemma demo_core_quiet: "client_env demo_core mem Pcd demo_code 0 = demo_core"
  by (simp add: core_env_def demo_code_def)

theorem services_keep_database_witness:
  "\<exists>s'. calls (client_env demo_core (\<lambda>_. 0) 0 demo_code 0) (\<lambda>_. 0) 0 [RegisterProtocolNotify (Some [1]) 5 True] (initial_hdb demo_rest) = Some s' \<and>
     db_ok buffers {} s' \<and> CoreRegisterProtocolNotify demo_core (Some [1]) 5 True (initial_hdb demo_rest) = Some ((EFI_SUCCESS, Some 0x3098), s')"
proof -
  have "map_option fst (CoreRegisterProtocolNotify demo_core (Some [1]) 5 True (initial_hdb demo_rest)) = Some (EFI_SUCCESS, Some 0x3098)" by code_simp
  then obtain s' where s': "CoreRegisterProtocolNotify demo_core (Some [1]) 5 True (initial_hdb demo_rest) = Some ((EFI_SUCCESS, Some 0x3098), s')" by auto
  then have c: "calls (client_env demo_core (\<lambda>_. 0) 0 demo_code 0) (\<lambda>_. 0) 0 [RegisterProtocolNotify (Some [1]) 5 True] (initial_hdb demo_rest) = Some s'"
    by (simp only: calls.simps call.simps demo_core_quiet) simp
  have "buffers demo_rest {}" using demo_many_ok by (auto simp: buffers_def demo_rest_def)
  then show ?thesis using services_keep_database [OF c] s' c initial_ok by fast
qed

end
