(* ===== verification/Gcd.thy ===== *)
theory Gcd
  imports Pages
begin

text \<open>
  The global coherency domain of the DXE core: the maps of the memory space and of the I/O space
  (\<open>MdeModulePkg/Core/Dxe/Gcd/Gcd.c\<close>).

  A map is the list of its entries in link order; a link is an index.  The pool, the processor's driver and the memory map of
  \<open>Page.c\<close> are the parameter \<open>env\<close> on the state \<open>GcdRest\<close>.
\<close>

abbreviation EFI_MEMORY_UC :: u64 where "EFI_MEMORY_UC \<equiv> 1"
abbreviation EFI_MEMORY_WC :: u64 where "EFI_MEMORY_WC \<equiv> 2"
abbreviation EFI_MEMORY_WT :: u64 where "EFI_MEMORY_WT \<equiv> 4"
abbreviation EFI_MEMORY_WB :: u64 where "EFI_MEMORY_WB \<equiv> 8"
abbreviation EFI_MEMORY_UCE :: u64 where "EFI_MEMORY_UCE \<equiv> 0x10"
abbreviation EFI_MEMORY_WP :: u64 where "EFI_MEMORY_WP \<equiv> 0x1000"
abbreviation EFI_MEMORY_RP :: u64 where "EFI_MEMORY_RP \<equiv> 0x2000"
abbreviation EFI_MEMORY_XP :: u64 where "EFI_MEMORY_XP \<equiv> 0x4000"
abbreviation INVALID_CPU_ARCH_ATTRIBUTES :: u64 where "INVALID_CPU_ARCH_ATTRIBUTES \<equiv> 0xFFFFFFFF"
abbreviation SIZE_OF_GCD_MAP_ENTRY :: u64 where "SIZE_OF_GCD_MAP_ENTRY \<equiv> 80"
abbreviation SIZE_OF_MEMORY_SPACE_DESCRIPTOR :: u64 where "SIZE_OF_MEMORY_SPACE_DESCRIPTOR \<equiv> 56"
abbreviation SIZE_OF_IO_SPACE_DESCRIPTOR :: u64 where "SIZE_OF_IO_SPACE_DESCRIPTOR \<equiv> 40"

record 'p gcd =
  MemorySpaceMap :: "gcd_entry list"
  MemorySpaceLock :: bool
  IoSpaceMap :: "gcd_entry list"
  IoSpaceLock :: bool
  GcdRest :: 'p

text \<open>\<open>Cpu\<close> is \<open>SetMemoryAttributes\<close> of \<open>gCpu\<close>, \<open>None\<close> before the processor's driver is there.\<close>

record 'p gcd_env =
  GcdAllocatePool :: "u64 \<Rightarrow> 'p gcd \<Rightarrow> (u64 \<times> 'p gcd) option"
  GcdFreePool :: "u64 \<Rightarrow> 'p gcd \<Rightarrow> 'p gcd option"
  Cpu :: "(u64 \<Rightarrow> u64 \<Rightarrow> u64 \<Rightarrow> 'p \<Rightarrow> efi_status \<times> 'p) option"
  AddMemoryDescriptor :: "u64 \<Rightarrow> u64 \<Rightarrow> u64 \<Rightarrow> 'p gcd \<Rightarrow> 'p gcd option"
  CoreImageHandle :: nat

datatype gcd_operation =
    GCD_ADD_MEMORY_OPERATION | GCD_ALLOCATE_MEMORY_OPERATION | GCD_FREE_MEMORY_OPERATION | GCD_REMOVE_MEMORY_OPERATION
  | GCD_SET_ATTRIBUTES_MEMORY_OPERATION | GCD_ADD_IO_OPERATION | GCD_ALLOCATE_IO_OPERATION | GCD_FREE_IO_OPERATION | GCD_REMOVE_IO_OPERATION

text \<open>The bit \<open>GCD_MEMORY_SPACE_OPERATION\<close>; each of the other operations has the bit \<open>GCD_IO_SPACE_OPERATION\<close>.\<close>

definition memory_operation :: "gcd_operation \<Rightarrow> bool" where
  "memory_operation Op \<longleftrightarrow> Op \<in> {GCD_ADD_MEMORY_OPERATION, GCD_ALLOCATE_MEMORY_OPERATION, GCD_FREE_MEMORY_OPERATION, GCD_REMOVE_MEMORY_OPERATION,
     GCD_SET_ATTRIBUTES_MEMORY_OPERATION}"

section \<open>Locks and maps\<close>

definition acquire_space :: "gcd_operation \<Rightarrow> 'p gcd \<Rightarrow> 'p gcd option" where
  "acquire_space Op s =
     (if memory_operation Op then do { ASSERT (\<not> MemorySpaceLock s); Some (s\<lparr>MemorySpaceLock := True\<rparr>) }
      else do { ASSERT (\<not> IoSpaceLock s); Some (s\<lparr>IoSpaceLock := True\<rparr>) })"

definition release_space :: "gcd_operation \<Rightarrow> 'p gcd \<Rightarrow> 'p gcd option" where
  "release_space Op s =
     (if memory_operation Op then do { ASSERT (MemorySpaceLock s); Some (s\<lparr>MemorySpaceLock := False\<rparr>) }
      else do { ASSERT (IoSpaceLock s); Some (s\<lparr>IoSpaceLock := False\<rparr>) })"

definition space_map :: "gcd_operation \<Rightarrow> 'p gcd \<Rightarrow> gcd_entry list" where
  "space_map Op s = (if memory_operation Op then MemorySpaceMap s else IoSpaceMap s)"

definition put_map :: "gcd_operation \<Rightarrow> gcd_entry list \<Rightarrow> 'p gcd \<Rightarrow> 'p gcd" where
  "put_map Op Map s = (if memory_operation Op then s\<lparr>MemorySpaceMap := Map\<rparr> else s\<lparr>IoSpaceMap := Map\<rparr>)"

definition AlignValue :: "u64 \<Rightarrow> nat \<Rightarrow> bool \<Rightarrow> u64" where
  "AlignValue Value Alignment RoundUp =
     (let AlignmentMask = push_bit Alignment 1 - 1;
          Value = (if RoundUp then Value + AlignmentMask else Value)
      in Value AND NOT AlignmentMask)"

definition PageAlignAddress :: "u64 \<Rightarrow> u64" where
  "PageAlignAddress Value = AlignValue Value 12 True"

definition PageAlignLength :: "u64 \<Rightarrow> u64" where
  "PageAlignLength Value = AlignValue Value 12 False"

section \<open>Work on a map\<close>

text \<open>Buffers for two entries: the status and their addresses.\<close>

definition CoreAllocateGcdMapEntry :: "'p gcd_env \<Rightarrow> 'p gcd \<Rightarrow> ((efi_status \<times> u64 \<times> u64) \<times> 'p gcd) option" where
  "CoreAllocateGcdMapEntry env s = do {
     (Top, s) \<leftarrow> GcdAllocatePool env SIZE_OF_GCD_MAP_ENTRY s;
     if Top = 0 then Some ((EFI_OUT_OF_RESOURCES, 0, 0), s)
     else do {
       (Bottom, s) \<leftarrow> GcdAllocatePool env SIZE_OF_GCD_MAP_ENTRY s;
       if Bottom = 0 then do { s \<leftarrow> GcdFreePool env Top s; Some ((EFI_OUT_OF_RESOURCES, 0, 0), s) }
       else Some ((EFI_SUCCESS, Top, Bottom), s)
     }
   }"

text \<open>
  The entry is cut to the range; what is cut off goes into the buffers \<open>Bottom\<close> and \<open>Top\<close>, which are \<open>None\<close> once they are used (their
  signature is set).  The result: the new entries before it, the entry, the new entries after it, and the buffers that are left.
\<close>

definition CoreInsertGcdMapEntry ::
  "gcd_entry \<Rightarrow> u64 \<Rightarrow> u64 \<Rightarrow> u64 option \<Rightarrow> u64 option \<Rightarrow> (gcd_entry list \<times> gcd_entry \<times> gcd_entry list \<times> u64 option \<times> u64 option) option" where
  "CoreInsertGcdMapEntry e B L Top Bottom = do {
     ASSERT (L \<noteq> 0);
     (low, e, Bottom) \<leftarrow>
       (if B > GcdBase e then do { b \<leftarrow> Bottom; Some ([e\<lparr>GcdAt := b, GcdEnd := B - 1\<rparr>], e\<lparr>GcdBase := B\<rparr>, None) }
        else Some ([], e, Bottom));
     (e, high, Top) \<leftarrow>
       (if B + L - 1 < GcdEnd e then do { t \<leftarrow> Top; Some (e\<lparr>GcdEnd := B + L - 1\<rparr>, [e\<lparr>GcdAt := t, GcdBase := B + L\<rparr>], None) }
        else Some (e, [], Top));
     Some (low, e, high, Top, Bottom)
   }"

definition mergeable :: "gcd_entry \<Rightarrow> gcd_entry \<Rightarrow> bool" where
  "mergeable e a \<longleftrightarrow> Capabilities e = Capabilities a \<and> Attributes e = Attributes a \<and> GcdMemoryType e = GcdMemoryType a \<and>
     GcdIoType e = GcdIoType a \<and> ImageHandle e = ImageHandle a \<and> DeviceHandle e = DeviceHandle a"

text \<open>
  \<open>CoreMergeGcdMapEntry\<close> on the first entry of a list: \<open>before\<close> are the entries that come before it, last one first, for a merge backward, or those
  that follow it for a merge forward.
\<close>

definition CoreMergeGcdMapEntry ::
  "'p gcd_env \<Rightarrow> bool \<Rightarrow> gcd_entry \<Rightarrow> gcd_entry list \<Rightarrow> 'p gcd \<Rightarrow> ((efi_status \<times> gcd_entry \<times> gcd_entry list) \<times> 'p gcd) option" where
  "CoreMergeGcdMapEntry env Forward e adjacent s =
     (case adjacent of
        [] \<Rightarrow> Some ((EFI_SUCCESS, e, []), s)
      | a # l \<Rightarrow>
          if \<not> mergeable e a then Some ((EFI_UNSUPPORTED, e, a # l), s)
          else do {
            s \<leftarrow> GcdFreePool env (GcdAt a) s;
            Some ((EFI_SUCCESS, if Forward then e\<lparr>GcdEnd := GcdEnd a\<rparr> else e\<lparr>GcdBase := GcdBase a\<rparr>, l), s)
          })"

text \<open>The loop that merges each entry of a list with the one before it; the result is in reverse order.\<close>

fun merge_entries :: "'p gcd_env \<Rightarrow> gcd_entry list \<Rightarrow> gcd_entry list \<Rightarrow> 'p gcd \<Rightarrow> (gcd_entry list \<times> 'p gcd) option" where
  "merge_entries env before [] s = Some (before, s)"
| "merge_entries env before (e # l) s = do {
     ((_, e, before), s) \<leftarrow> CoreMergeGcdMapEntry env False e before s;
     merge_entries env (e # before) l s
   }"

text \<open>The map is made of \<open>pre\<close>, the entries \<open>es\<close> from \<open>StartLink\<close> to \<open>EndLink\<close>, and \<open>post\<close>.\<close>

definition CoreCleanupGcdMapEntry ::
  "'p gcd_env \<Rightarrow> u64 option \<Rightarrow> u64 option \<Rightarrow> gcd_entry list \<Rightarrow> gcd_entry list \<Rightarrow> gcd_entry list \<Rightarrow> 'p gcd \<Rightarrow> (gcd_entry list \<times> 'p gcd) option" where
  "CoreCleanupGcdMapEntry env Top Bottom pre es post s = do {
     s \<leftarrow> (case Top of None \<Rightarrow> Some s | Some t \<Rightarrow> GcdFreePool env t s);
     s \<leftarrow> (case Bottom of None \<Rightarrow> Some s | Some b \<Rightarrow> GcdFreePool env b s);
     (r, s) \<leftarrow> merge_entries env (rev pre) es s;
     case r of
       [] \<Rightarrow> None
     | e # before \<Rightarrow> do {
         ((_, e, post), s) \<leftarrow> CoreMergeGcdMapEntry env True e post s;
         Some (rev before @ e # post, s)
       }
   }"

text \<open>The first and the last entry of the range, from \<open>B\<close> to \<open>E\<close>; \<open>i\<close> is the index of the next entry.\<close>

fun search_entries :: "u64 \<Rightarrow> u64 \<Rightarrow> nat \<Rightarrow> nat option \<Rightarrow> gcd_entry list \<Rightarrow> (nat \<times> nat) option" where
  "search_entries B E i Start [] = None"
| "search_entries B E i Start (e # l) =
     (let Start = (if B \<ge> GcdBase e \<and> B \<le> GcdEnd e then Some i else Start)
      in if Start \<noteq> None \<and> E \<ge> GcdBase e \<and> E \<le> GcdEnd e then Some (the Start, i) else search_entries B E (i + 1) Start l)"

text \<open>\<open>Inl\<close> is the status of a failure, \<open>Inr\<close> the first and the last index.\<close>

definition CoreSearchGcdMapEntry :: "u64 \<Rightarrow> u64 \<Rightarrow> gcd_entry list \<Rightarrow> (efi_status + nat \<times> nat) option" where
  "CoreSearchGcdMapEntry B L Map = do {
     ASSERT (L \<noteq> 0);
     Some (case search_entries B (B + L - 1) 0 None Map of None \<Rightarrow> Inl EFI_NOT_FOUND | Some x \<Rightarrow> Inr x)
   }"

definition CoreCountGcdMapEntry :: "gcd_entry list \<Rightarrow> u64" where
  "CoreCountGcdMapEntry Map = of_nat (length Map)"

text \<open>The entries before, from and after a pair of links.\<close>

definition before_links :: "nat \<times> nat \<Rightarrow> gcd_entry list \<Rightarrow> gcd_entry list" where
  "before_links x Map = take (fst x) Map"

definition between_links :: "nat \<times> nat \<Rightarrow> gcd_entry list \<Rightarrow> gcd_entry list" where
  "between_links x Map = take (snd x + 1 - fst x) (drop (fst x) Map)"

definition after_links :: "nat \<times> nat \<Rightarrow> gcd_entry list \<Rightarrow> gcd_entry list" where
  "after_links x Map = drop (snd x + 1) Map"

text \<open>
  The loop that cuts each entry from \<open>StartLink\<close> (\<open>e\<close>) to \<open>EndLink\<close> (the last of \<open>l\<close>) to the range and changes it by \<open>f\<close>.  The result: the
  entries that are new before \<open>StartLink\<close>, those from \<open>StartLink\<close> to \<open>EndLink\<close>, those that are new after \<open>EndLink\<close>, and the buffers that are left.
  An entry that is put after one that is not the last is visited as well.
\<close>

function convert_entries ::
  "(gcd_entry \<Rightarrow> gcd_entry) \<Rightarrow> u64 \<Rightarrow> u64 \<Rightarrow> gcd_entry \<Rightarrow> gcd_entry list \<Rightarrow> u64 option \<Rightarrow> u64 option \<Rightarrow>
   ((gcd_entry list \<times> gcd_entry list \<times> gcd_entry list) \<times> u64 option \<times> u64 option) option" where
  "convert_entries f B L e l Top Bottom =
     (case CoreInsertGcdMapEntry e B L Top Bottom of
        None \<Rightarrow> None
      | Some (low, e', high, Top', Bottom') \<Rightarrow>
          (case l of
             [] \<Rightarrow> Some ((low, [f e'], high), Top', Bottom')
           | d # r \<Rightarrow>
               (case (case high of
                        [] \<Rightarrow> convert_entries f B L d r Top' Bottom'
                      | c # _ \<Rightarrow> convert_entries f B L c l Top' Bottom') of
                  None \<Rightarrow> None
                | Some ((low', es, high'), Top', Bottom') \<Rightarrow> Some ((low, f e' # low' @ es, high'), Top', Bottom'))))"
  by pat_completeness auto
termination
  by (relation "measure (\<lambda>(f, B, L, e, l, Top, Bottom). length l + (if Top = None then 0 else 1))")
    (auto simp: CoreInsertGcdMapEntry_def split: if_splits)

declare convert_entries.simps [simp del]

section \<open>Changing a range\<close>

definition ConverToCpuArchAttributes :: "u64 \<Rightarrow> u64" where
  "ConverToCpuArchAttributes A =
     (if A AND EFI_MEMORY_UC = EFI_MEMORY_UC then EFI_MEMORY_UC
      else if A AND EFI_MEMORY_WC = EFI_MEMORY_WC then EFI_MEMORY_WC
      else if A AND EFI_MEMORY_WT = EFI_MEMORY_WT then EFI_MEMORY_WT
      else if A AND EFI_MEMORY_WB = EFI_MEMORY_WB then EFI_MEMORY_WB
      else if A AND EFI_MEMORY_WP = EFI_MEMORY_WP then EFI_MEMORY_WP
      else INVALID_CPU_ARCH_ATTRIBUTES)"

text \<open>What the operation asks of each entry of the range.\<close>

fun check_entry :: "gcd_operation \<Rightarrow> u64 \<Rightarrow> u64 \<Rightarrow> u64 \<Rightarrow> gcd_entry \<Rightarrow> efi_status" where
  "check_entry GCD_ADD_MEMORY_OPERATION A B L e =
     (if GcdMemoryType e \<noteq> EfiGcdMemoryTypeNonExistent \<or> ImageHandle e \<noteq> 0 then EFI_ACCESS_DENIED else EFI_SUCCESS)"
| "check_entry GCD_ADD_IO_OPERATION A B L e =
     (if GcdIoType e \<noteq> EfiGcdIoTypeNonExistent \<or> ImageHandle e \<noteq> 0 then EFI_ACCESS_DENIED else EFI_SUCCESS)"
| "check_entry GCD_FREE_MEMORY_OPERATION A B L e = (if ImageHandle e = 0 then EFI_NOT_FOUND else EFI_SUCCESS)"
| "check_entry GCD_FREE_IO_OPERATION A B L e = (if ImageHandle e = 0 then EFI_NOT_FOUND else EFI_SUCCESS)"
| "check_entry GCD_REMOVE_MEMORY_OPERATION A B L e =
     (if GcdMemoryType e = EfiGcdMemoryTypeNonExistent then EFI_NOT_FOUND else if ImageHandle e \<noteq> 0 then EFI_ACCESS_DENIED else EFI_SUCCESS)"
| "check_entry GCD_REMOVE_IO_OPERATION A B L e =
     (if GcdIoType e = EfiGcdIoTypeNonExistent then EFI_NOT_FOUND else if ImageHandle e \<noteq> 0 then EFI_ACCESS_DENIED else EFI_SUCCESS)"
| "check_entry GCD_SET_ATTRIBUTES_MEMORY_OPERATION A B L e =
     (if A AND EFI_MEMORY_RUNTIME \<noteq> 0 \<and> (B AND EFI_PAGE_MASK \<noteq> 0 \<or> L AND EFI_PAGE_MASK \<noteq> 0) then EFI_INVALID_PARAMETER
      else if Capabilities e AND A \<noteq> A then EFI_UNSUPPORTED else EFI_SUCCESS)"
| "check_entry GCD_ALLOCATE_MEMORY_OPERATION A B L e = EFI_SUCCESS"
| "check_entry GCD_ALLOCATE_IO_OPERATION A B L e = EFI_SUCCESS"

text \<open>The first failure in a list of entries, with the index of the entry.\<close>

fun first_failure :: "(gcd_entry \<Rightarrow> efi_status) \<Rightarrow> nat \<Rightarrow> gcd_entry list \<Rightarrow> (nat \<times> efi_status) option" where
  "first_failure check i [] = None"
| "first_failure check i (e # l) = (if EFI_ERROR (check e) then Some (i, check e) else first_failure check (i + 1) l)"

text \<open>What the operation does to each entry.\<close>

fun change_entry :: "gcd_operation \<Rightarrow> gcd_memory_type \<Rightarrow> gcd_io_type \<Rightarrow> u64 \<Rightarrow> u64 \<Rightarrow> gcd_entry \<Rightarrow> gcd_entry" where
  "change_entry GCD_ADD_MEMORY_OPERATION T IoT C A e =
     e\<lparr>GcdMemoryType := T,
       Capabilities := (if T = EfiGcdMemoryTypeMemoryMappedIo then C OR EFI_MEMORY_RUNTIME OR EFI_MEMORY_PORT_IO else C OR EFI_MEMORY_RUNTIME)\<rparr>"
| "change_entry GCD_ADD_IO_OPERATION T IoT C A e = e\<lparr>GcdIoType := IoT\<rparr>"
| "change_entry GCD_FREE_MEMORY_OPERATION T IoT C A e = e\<lparr>ImageHandle := 0, DeviceHandle := 0\<rparr>"
| "change_entry GCD_FREE_IO_OPERATION T IoT C A e = e\<lparr>ImageHandle := 0, DeviceHandle := 0\<rparr>"
| "change_entry GCD_REMOVE_MEMORY_OPERATION T IoT C A e = e\<lparr>GcdMemoryType := EfiGcdMemoryTypeNonExistent, Capabilities := 0\<rparr>"
| "change_entry GCD_REMOVE_IO_OPERATION T IoT C A e = e\<lparr>GcdIoType := EfiGcdIoTypeNonExistent\<rparr>"
| "change_entry GCD_SET_ATTRIBUTES_MEMORY_OPERATION T IoT C A e = e\<lparr>Attributes := A\<rparr>"
| "change_entry GCD_ALLOCATE_MEMORY_OPERATION T IoT C A e = e"
| "change_entry GCD_ALLOCATE_IO_OPERATION T IoT C A e = e"

text \<open>Cutting, changing and merging the entries between two links, with the buffers \<open>t\<close> and \<open>b\<close>.\<close>

definition convert_range ::
  "'p gcd_env \<Rightarrow> gcd_operation \<Rightarrow> (gcd_entry \<Rightarrow> gcd_entry) \<Rightarrow> u64 \<Rightarrow> u64 \<Rightarrow> nat \<times> nat \<Rightarrow> u64 \<Rightarrow> u64 \<Rightarrow> 'p gcd \<Rightarrow> (efi_status \<times> 'p gcd) option" where
  "convert_range env Op f B L x t b s =
     (let Map = space_map Op s
      in case between_links x Map of
           [] \<Rightarrow> None
         | e # l \<Rightarrow> do {
             ((low, es, high), Top, Bottom) \<leftarrow> convert_entries f B L e l (Some t) (Some b);
             (Map, s) \<leftarrow> CoreCleanupGcdMapEntry env Top Bottom (before_links x Map @ low) es (high @ after_links x Map) s;
             Some (EFI_SUCCESS, put_map Op Map s)
           })"

text \<open>The processor is asked to set the attributes.\<close>

definition set_attributes :: "'p gcd_env \<Rightarrow> u64 \<Rightarrow> u64 \<Rightarrow> u64 \<Rightarrow> 'p \<Rightarrow> efi_status \<times> 'p" where
  "set_attributes env A B L p =
     (let CpuArchAttributes = ConverToCpuArchAttributes A
      in if CpuArchAttributes = INVALID_CPU_ARCH_ATTRIBUTES then (EFI_SUCCESS, p)
         else case Cpu env of None \<Rightarrow> (EFI_NOT_AVAILABLE_YET, p) | Some SetMemoryAttributes \<Rightarrow> SetMemoryAttributes B L CpuArchAttributes p)"

definition convert_locked ::
  "'p gcd_env \<Rightarrow> gcd_operation \<Rightarrow> gcd_memory_type \<Rightarrow> gcd_io_type \<Rightarrow> u64 \<Rightarrow> u64 \<Rightarrow> u64 \<Rightarrow> u64 \<Rightarrow> 'p gcd \<Rightarrow> (efi_status \<times> 'p gcd) option" where
  "convert_locked env Op T IoT B L C A s = do {
     x \<leftarrow> CoreSearchGcdMapEntry B L (space_map Op s);
     case x of
       Inl _ \<Rightarrow> Some (EFI_UNSUPPORTED, s)
     | Inr x \<Rightarrow>
         (case first_failure (check_entry Op A B L) 0 (between_links x (space_map Op s)) of
            Some (_, Status) \<Rightarrow> Some (Status, s)
          | None \<Rightarrow> do {
              ((Status, t, b), s) \<leftarrow> CoreAllocateGcdMapEntry env s;
              if EFI_ERROR Status then Some (EFI_OUT_OF_RESOURCES, s)
              else do {
                let (Status, p) =
                  (if Op = GCD_SET_ATTRIBUTES_MEMORY_OPERATION then set_attributes env A B L (GcdRest s) else (EFI_SUCCESS, GcdRest s));
                let s = s\<lparr>GcdRest := p\<rparr>;
                if EFI_ERROR Status then do {
                  s \<leftarrow> GcdFreePool env t s;
                  s \<leftarrow> GcdFreePool env b s;
                  Some (Status, s)
                } else convert_range env Op (change_entry Op T IoT C A) B L x t b s
              }
            })
   }"

definition CoreConvertSpace ::
  "'p gcd_env \<Rightarrow> gcd_operation \<Rightarrow> gcd_memory_type \<Rightarrow> gcd_io_type \<Rightarrow> u64 \<Rightarrow> u64 \<Rightarrow> u64 \<Rightarrow> u64 \<Rightarrow> 'p gcd \<Rightarrow> (efi_status \<times> 'p gcd) option" where
  "CoreConvertSpace env Op T IoT B L C A s =
     (if L = 0 then Some (EFI_INVALID_PARAMETER, s)
      else do {
        s \<leftarrow> acquire_space Op s;
        (Status, s) \<leftarrow> convert_locked env Op T IoT B L C A s;
        s \<leftarrow> release_space Op s;
        Some (Status, s)
      })"

section \<open>Allocating\<close>

datatype gcd_allocate_type =
    EfiGcdAllocateAnySearchBottomUp | EfiGcdAllocateMaxAddressSearchBottomUp | EfiGcdAllocateAddress
  | EfiGcdAllocateAnySearchTopDown | EfiGcdAllocateMaxAddressSearchTopDown

definition CoreAllocateSpaceCheckEntry :: "gcd_operation \<Rightarrow> gcd_entry \<Rightarrow> gcd_memory_type \<Rightarrow> gcd_io_type \<Rightarrow> efi_status" where
  "CoreAllocateSpaceCheckEntry Op e T IoT =
     (if ImageHandle e \<noteq> 0 then EFI_NOT_FOUND
      else if Op = GCD_ALLOCATE_MEMORY_OPERATION then (if GcdMemoryType e \<noteq> T then EFI_NOT_FOUND else EFI_SUCCESS)
      else if Op = GCD_ALLOCATE_IO_OPERATION then (if GcdIoType e \<noteq> IoT then EFI_NOT_FOUND else EFI_SUCCESS)
      else EFI_UNSUPPORTED)"

text \<open>
  The searches: \<open>B\<close> is the value of \<open>*BaseAddress\<close>, which is written while searching.  The result: the status, that value, and the links of the range.
\<close>

type_synonym gcd_found = "efi_status \<times> u64 \<times> (nat \<times> nat)"

partial_function (option) search_up ::
  "(gcd_entry \<Rightarrow> efi_status) \<Rightarrow> u64 \<Rightarrow> u64 \<Rightarrow> u64 \<Rightarrow> gcd_entry list \<Rightarrow> nat \<Rightarrow> u64 \<Rightarrow> gcd_found option" where
  "search_up check AlignmentMask L MaxAddress Map i B =
     (if i \<ge> length Map then Some (EFI_NOT_FOUND, B, (0, 0))
      else let e = Map ! i
      in if EFI_ERROR (check e) then search_up check AlignmentMask L MaxAddress Map (i + 1) B
         else let B = (GcdBase e + AlignmentMask) AND NOT AlignmentMask
         in if B + L - 1 > MaxAddress then Some (EFI_NOT_FOUND, B, (0, 0))
            else do {
              x \<leftarrow> CoreSearchGcdMapEntry B L Map;
              case x of
                Inl _ \<Rightarrow> Some (EFI_NOT_FOUND, B, (0, 0))
              | Inr x \<Rightarrow>
                  (case first_failure check (fst x) (between_links x Map) of
                     None \<Rightarrow> Some (EFI_SUCCESS, B, x)
                   | Some (k, _) \<Rightarrow> search_up check AlignmentMask L MaxAddress Map k B)
            })"

text \<open>Downward the position is one above the index, zero at the head of the list.\<close>

partial_function (option) search_down ::
  "(gcd_entry \<Rightarrow> efi_status) \<Rightarrow> u64 \<Rightarrow> u64 \<Rightarrow> u64 \<Rightarrow> gcd_entry list \<Rightarrow> nat \<Rightarrow> u64 \<Rightarrow> gcd_found option" where
  "search_down check AlignmentMask L MaxAddress Map i B =
     (if i = 0 then Some (EFI_NOT_FOUND, B, (0, 0))
      else let e = Map ! (i - 1)
      in if EFI_ERROR (check e) \<or> GcdBase e + L > MaxAddress then search_down check AlignmentMask L MaxAddress Map (i - 1) B
         else if L > GcdEnd e + 1 then Some (EFI_NOT_FOUND, B, (0, 0))
         else let B = ((if GcdEnd e > MaxAddress then MaxAddress else GcdEnd e) + 1 - L) AND NOT AlignmentMask
         in do {
              x \<leftarrow> CoreSearchGcdMapEntry B L Map;
              case x of
                Inl _ \<Rightarrow> Some (EFI_NOT_FOUND, B, (0, 0))
              | Inr x \<Rightarrow>
                  (case first_failure check (fst x) (between_links x Map) of
                     None \<Rightarrow> Some (EFI_SUCCESS, B, x)
                   | Some (k, _) \<Rightarrow> search_down check AlignmentMask L MaxAddress Map (k + 1) B)
            })"

declare search_up.simps [code] search_down.simps [code]

text \<open>Where the range is: at the address that is given, or where the search finds it.\<close>

definition find_space ::
  "gcd_allocate_type \<Rightarrow> (gcd_entry \<Rightarrow> efi_status) \<Rightarrow> nat \<Rightarrow> u64 \<Rightarrow> gcd_entry list \<Rightarrow> u64 \<Rightarrow> gcd_found option" where
  "find_space Type check Alignment L Map B =
     (let AlignmentMask = push_bit Alignment 1 - 1
      in if Type = EfiGcdAllocateAddress then
           (if B AND AlignmentMask \<noteq> 0 then Some (EFI_NOT_FOUND, B, (0, 0))
            else do {
              x \<leftarrow> CoreSearchGcdMapEntry B L Map;
              case x of
                Inl _ \<Rightarrow> Some (EFI_NOT_FOUND, B, (0, 0))
              | Inr x \<Rightarrow>
                  (case first_failure check 0 (between_links x Map) of
                     None \<Rightarrow> Some (EFI_SUCCESS, B, x)
                   | Some (_, Status) \<Rightarrow> Some (Status, B, (0, 0)))
            })
         else if Map = [] then None
         else let MaxAddress = (if Type = EfiGcdAllocateMaxAddressSearchBottomUp \<or> Type = EfiGcdAllocateMaxAddressSearchTopDown then B else GcdEnd (last Map))
         in if Type = EfiGcdAllocateMaxAddressSearchTopDown \<or> Type = EfiGcdAllocateAnySearchTopDown
            then search_down check AlignmentMask L MaxAddress Map (length Map) B
            else search_up check AlignmentMask L MaxAddress Map 0 B)"

text \<open>An enumeration value that is out of range is \<open>None\<close>, and so is a null pointer; the second component is the value \<open>BaseAddress\<close> points to afterwards.\<close>

definition CoreAllocateSpace ::
  "'p gcd_env \<Rightarrow> gcd_operation \<Rightarrow> gcd_allocate_type option \<Rightarrow> gcd_memory_type option \<Rightarrow> gcd_io_type option \<Rightarrow> u64 \<Rightarrow> u64 \<Rightarrow> u64 option \<Rightarrow> nat \<Rightarrow> nat \<Rightarrow>
   'p gcd \<Rightarrow> ((efi_status \<times> u64 option) \<times> 'p gcd) option" where
  "CoreAllocateSpace env Op Type T IoT Alignment L Address Owner Device s =
     (case (Type, T, IoT, Address) of
        (Some Type, Some T, Some IoT, Some B) \<Rightarrow>
          if Owner = 0 then Some ((EFI_INVALID_PARAMETER, Address), s)
          else if Alignment \<ge> 64 then Some ((EFI_NOT_FOUND, Address), s)
          else if L = 0 then Some ((EFI_INVALID_PARAMETER, Address), s)
          else do {
            s \<leftarrow> acquire_space Op s;
            (Status, B, x) \<leftarrow> find_space Type (\<lambda>e. CoreAllocateSpaceCheckEntry Op e T IoT) (unat Alignment) L (space_map Op s) B;
            (Status, s) \<leftarrow>
              (if EFI_ERROR Status then Some (Status, s)
               else do {
                 ((Status, t, b), s) \<leftarrow> CoreAllocateGcdMapEntry env s;
                 if EFI_ERROR Status then Some (EFI_OUT_OF_RESOURCES, s)
                 else convert_range env Op (\<lambda>e. e\<lparr>ImageHandle := Owner, DeviceHandle := Device\<rparr>) B L x t b s
               });
            s \<leftarrow> release_space Op s;
            Some ((Status, Some B), s)
          }
      | _ \<Rightarrow> Some ((EFI_INVALID_PARAMETER, Address), s))"

section \<open>The services\<close>

definition CoreInternalAddMemorySpace ::
  "'p gcd_env \<Rightarrow> gcd_memory_type option \<Rightarrow> u64 \<Rightarrow> u64 \<Rightarrow> u64 \<Rightarrow> 'p gcd \<Rightarrow> (efi_status \<times> 'p gcd) option" where
  "CoreInternalAddMemorySpace env T B L C s =
     (case T of
        None \<Rightarrow> Some (EFI_INVALID_PARAMETER, s)
      | Some T \<Rightarrow>
          if T = EfiGcdMemoryTypeNonExistent then Some (EFI_INVALID_PARAMETER, s)
          else CoreConvertSpace env GCD_ADD_MEMORY_OPERATION T EfiGcdIoTypeNonExistent B L C 0 s)"

definition CoreAllocateMemorySpace ::
  "'p gcd_env \<Rightarrow> gcd_allocate_type option \<Rightarrow> gcd_memory_type option \<Rightarrow> u64 \<Rightarrow> u64 \<Rightarrow> u64 option \<Rightarrow> nat \<Rightarrow> nat \<Rightarrow>
   'p gcd \<Rightarrow> ((efi_status \<times> u64 option) \<times> 'p gcd) option" where
  "CoreAllocateMemorySpace env Type T Alignment L Address Owner Device s =
     CoreAllocateSpace env GCD_ALLOCATE_MEMORY_OPERATION Type T (Some EfiGcdIoTypeNonExistent) Alignment L Address Owner Device s"

text \<open>One page of the new memory after the other goes to the page allocator, those that cannot be allocated are passed over.\<close>

fun add_pages :: "'p gcd_env \<Rightarrow> u64 \<Rightarrow> nat \<Rightarrow> u64 \<Rightarrow> efi_status \<Rightarrow> 'p gcd \<Rightarrow> (efi_status \<times> 'p gcd) option" where
  "add_pages env C 0 PageBase Status s = Some (Status, s)"
| "add_pages env C (Suc n) PageBase Status s = do {
     ((Status, _), s) \<leftarrow> CoreAllocateMemorySpace env (Some EfiGcdAllocateAddress) (Some EfiGcdMemoryTypeSystemMemory) 12 EFI_PAGE_SIZE (Some PageBase)
        (CoreImageHandle env) 0 s;
     s \<leftarrow> (if EFI_ERROR Status then Some s else AddMemoryDescriptor env PageBase 1 C s);
     add_pages env C n (PageBase + EFI_PAGE_SIZE) Status s
   }"

definition CoreAddMemorySpace :: "'p gcd_env \<Rightarrow> gcd_memory_type option \<Rightarrow> u64 \<Rightarrow> u64 \<Rightarrow> u64 \<Rightarrow> 'p gcd \<Rightarrow> (efi_status \<times> 'p gcd) option" where
  "CoreAddMemorySpace env T B L C s = do {
     (Status, s) \<leftarrow> CoreInternalAddMemorySpace env T B L C s;
     if \<not> EFI_ERROR Status \<and> T = Some EfiGcdMemoryTypeSystemMemory then do {
       let PageBase = PageAlignLength B;
       let PageLength = PageAlignLength (B + L - PageBase);
       ((Status, _), s) \<leftarrow> CoreAllocateMemorySpace env (Some EfiGcdAllocateAddress) T 12 PageLength (Some PageBase) (CoreImageHandle env) 0 s;
       if \<not> EFI_ERROR Status then do {
         s \<leftarrow> AddMemoryDescriptor env PageBase (drop_bit 12 PageLength) C s;
         Some (Status, s)
       } else add_pages env C (unat (drop_bit 12 PageLength)) PageBase Status s
     } else Some (Status, s)
   }"

definition CoreFreeMemorySpace :: "'p gcd_env \<Rightarrow> u64 \<Rightarrow> u64 \<Rightarrow> 'p gcd \<Rightarrow> (efi_status \<times> 'p gcd) option" where
  "CoreFreeMemorySpace env B L s = CoreConvertSpace env GCD_FREE_MEMORY_OPERATION EfiGcdMemoryTypeNonExistent EfiGcdIoTypeNonExistent B L 0 0 s"

definition CoreRemoveMemorySpace :: "'p gcd_env \<Rightarrow> u64 \<Rightarrow> u64 \<Rightarrow> 'p gcd \<Rightarrow> (efi_status \<times> 'p gcd) option" where
  "CoreRemoveMemorySpace env B L s = CoreConvertSpace env GCD_REMOVE_MEMORY_OPERATION EfiGcdMemoryTypeNonExistent EfiGcdIoTypeNonExistent B L 0 0 s"

definition CoreSetMemorySpaceAttributes :: "'p gcd_env \<Rightarrow> u64 \<Rightarrow> u64 \<Rightarrow> u64 \<Rightarrow> 'p gcd \<Rightarrow> (efi_status \<times> 'p gcd) option" where
  "CoreSetMemorySpaceAttributes env B L A s =
     CoreConvertSpace env GCD_SET_ATTRIBUTES_MEMORY_OPERATION EfiGcdMemoryTypeNonExistent EfiGcdIoTypeNonExistent B L 0 A s"

record memory_space_descriptor =
  SpaceBase :: u64
  SpaceLength :: u64
  SpaceCapabilities :: u64
  SpaceAttributes :: u64
  SpaceType :: gcd_memory_type
  SpaceImage :: nat
  SpaceDevice :: nat

definition BuildMemoryDescriptor :: "gcd_entry \<Rightarrow> memory_space_descriptor" where
  "BuildMemoryDescriptor e =
     \<lparr>SpaceBase = GcdBase e, SpaceLength = GcdEnd e - GcdBase e + 1, SpaceCapabilities = Capabilities e, SpaceAttributes = Attributes e,
      SpaceType = GcdMemoryType e, SpaceImage = ImageHandle e, SpaceDevice = DeviceHandle e\<rparr>"

text \<open>\<open>Out\<close> is whether the pointer is given; the second component is what is stored through it.\<close>

definition CoreGetMemorySpaceDescriptor :: "u64 \<Rightarrow> bool \<Rightarrow> 'p gcd \<Rightarrow> ((efi_status \<times> memory_space_descriptor option) \<times> 'p gcd) option" where
  "CoreGetMemorySpaceDescriptor B Out s =
     (if \<not> Out then Some ((EFI_INVALID_PARAMETER, None), s)
      else do {
        s \<leftarrow> acquire_space GCD_ADD_MEMORY_OPERATION s;
        x \<leftarrow> CoreSearchGcdMapEntry B 1 (MemorySpaceMap s);
        let r = (case x of Inl _ \<Rightarrow> (EFI_NOT_FOUND, None) | Inr x \<Rightarrow> (EFI_SUCCESS, Some (BuildMemoryDescriptor (MemorySpaceMap s ! fst x))));
        s \<leftarrow> release_space GCD_ADD_MEMORY_OPERATION s;
        Some (r, s)
      })"

text \<open>The result: the status, the number of descriptors, the buffer and what is written into it.\<close>

definition CoreGetMemorySpaceMap ::
  "'p gcd_env \<Rightarrow> bool \<Rightarrow> bool \<Rightarrow> 'p gcd \<Rightarrow> ((efi_status \<times> (u64 \<times> u64 \<times> memory_space_descriptor list) option) \<times> 'p gcd) option" where
  "CoreGetMemorySpaceMap env OutNumber OutMap s =
     (if \<not> OutNumber \<or> \<not> OutMap then Some ((EFI_INVALID_PARAMETER, None), s)
      else do {
        s \<leftarrow> acquire_space GCD_ADD_MEMORY_OPERATION s;
        let n = CoreCountGcdMapEntry (MemorySpaceMap s);
        (a, s) \<leftarrow> GcdAllocatePool env (n * SIZE_OF_MEMORY_SPACE_DESCRIPTOR) s;
        let r = (if a = 0 then (EFI_OUT_OF_RESOURCES, Some (n, 0, [])) else (EFI_SUCCESS, Some (n, a, map BuildMemoryDescriptor (MemorySpaceMap s))));
        s \<leftarrow> release_space GCD_ADD_MEMORY_OPERATION s;
        Some (r, s)
      })"

definition CoreAddIoSpace :: "'p gcd_env \<Rightarrow> gcd_io_type option \<Rightarrow> u64 \<Rightarrow> u64 \<Rightarrow> 'p gcd \<Rightarrow> (efi_status \<times> 'p gcd) option" where
  "CoreAddIoSpace env IoT B L s =
     (case IoT of
        None \<Rightarrow> Some (EFI_INVALID_PARAMETER, s)
      | Some IoT \<Rightarrow>
          if IoT = EfiGcdIoTypeNonExistent then Some (EFI_INVALID_PARAMETER, s)
          else CoreConvertSpace env GCD_ADD_IO_OPERATION EfiGcdMemoryTypeNonExistent IoT B L 0 0 s)"

definition CoreAllocateIoSpace ::
  "'p gcd_env \<Rightarrow> gcd_allocate_type option \<Rightarrow> gcd_io_type option \<Rightarrow> u64 \<Rightarrow> u64 \<Rightarrow> u64 option \<Rightarrow> nat \<Rightarrow> nat \<Rightarrow>
   'p gcd \<Rightarrow> ((efi_status \<times> u64 option) \<times> 'p gcd) option" where
  "CoreAllocateIoSpace env Type IoT Alignment L Address Owner Device s =
     CoreAllocateSpace env GCD_ALLOCATE_IO_OPERATION Type (Some EfiGcdMemoryTypeNonExistent) IoT Alignment L Address Owner Device s"

definition CoreFreeIoSpace :: "'p gcd_env \<Rightarrow> u64 \<Rightarrow> u64 \<Rightarrow> 'p gcd \<Rightarrow> (efi_status \<times> 'p gcd) option" where
  "CoreFreeIoSpace env B L s = CoreConvertSpace env GCD_FREE_IO_OPERATION EfiGcdMemoryTypeNonExistent EfiGcdIoTypeNonExistent B L 0 0 s"

definition CoreRemoveIoSpace :: "'p gcd_env \<Rightarrow> u64 \<Rightarrow> u64 \<Rightarrow> 'p gcd \<Rightarrow> (efi_status \<times> 'p gcd) option" where
  "CoreRemoveIoSpace env B L s = CoreConvertSpace env GCD_REMOVE_IO_OPERATION EfiGcdMemoryTypeNonExistent EfiGcdIoTypeNonExistent B L 0 0 s"

record io_space_descriptor =
  IoBase :: u64
  IoLength :: u64
  IoType :: gcd_io_type
  IoImage :: nat
  IoDevice :: nat

definition BuildIoDescriptor :: "gcd_entry \<Rightarrow> io_space_descriptor" where
  "BuildIoDescriptor e =
     \<lparr>IoBase = GcdBase e, IoLength = GcdEnd e - GcdBase e + 1, IoType = GcdIoType e, IoImage = ImageHandle e, IoDevice = DeviceHandle e\<rparr>"

definition CoreGetIoSpaceDescriptor :: "u64 \<Rightarrow> bool \<Rightarrow> 'p gcd \<Rightarrow> ((efi_status \<times> io_space_descriptor option) \<times> 'p gcd) option" where
  "CoreGetIoSpaceDescriptor B Out s =
     (if \<not> Out then Some ((EFI_INVALID_PARAMETER, None), s)
      else do {
        s \<leftarrow> acquire_space GCD_ADD_IO_OPERATION s;
        x \<leftarrow> CoreSearchGcdMapEntry B 1 (IoSpaceMap s);
        let r = (case x of Inl _ \<Rightarrow> (EFI_NOT_FOUND, None) | Inr x \<Rightarrow> (EFI_SUCCESS, Some (BuildIoDescriptor (IoSpaceMap s ! fst x))));
        s \<leftarrow> release_space GCD_ADD_IO_OPERATION s;
        Some (r, s)
      })"

definition CoreGetIoSpaceMap ::
  "'p gcd_env \<Rightarrow> bool \<Rightarrow> bool \<Rightarrow> 'p gcd \<Rightarrow> ((efi_status \<times> (u64 \<times> u64 \<times> io_space_descriptor list) option) \<times> 'p gcd) option" where
  "CoreGetIoSpaceMap env OutNumber OutMap s =
     (if \<not> OutNumber \<or> \<not> OutMap then Some ((EFI_INVALID_PARAMETER, None), s)
      else do {
        s \<leftarrow> acquire_space GCD_ADD_IO_OPERATION s;
        let n = CoreCountGcdMapEntry (IoSpaceMap s);
        (a, s) \<leftarrow> GcdAllocatePool env (n * SIZE_OF_IO_SPACE_DESCRIPTOR) s;
        let r = (if a = 0 then (EFI_OUT_OF_RESOURCES, Some (n, 0, [])) else (EFI_SUCCESS, Some (n, a, map BuildIoDescriptor (IoSpaceMap s))));
        s \<leftarrow> release_space GCD_ADD_IO_OPERATION s;
        Some (r, s)
      })"

end
