(* ===== verification/GcdMap.thy ===== *)
theory GcdMap
  imports Gcd
begin

text \<open>
  The maps of the global coherency domain: the entries of a map follow one another without a gap, and what a map says of each address is all
  there is to it.
\<close>

section \<open>What a map means\<close>

text \<open>The entries cover the addresses from \<open>a\<close> up to \<open>z\<close>.\<close>

fun tiles :: "nat \<Rightarrow> gcd_entry list \<Rightarrow> nat \<Rightarrow> bool" where
  "tiles a [] z \<longleftrightarrow> a = z"
| "tiles a (e # l) z \<longleftrightarrow> unat (GcdBase e) = a \<and> a \<le> unat (GcdEnd e) \<and> tiles (unat (GcdEnd e) + 1) l z"

text \<open>An entry without its place.\<close>

definition region :: "gcd_entry \<Rightarrow> gcd_entry" where
  "region e = e\<lparr>GcdAt := 0, GcdBase := 0, GcdEnd := 0\<rparr>"

fun region_at :: "gcd_entry list \<Rightarrow> nat \<Rightarrow> gcd_entry option" where
  "region_at [] x = None"
| "region_at (e # l) x = (if unat (GcdBase e) \<le> x \<and> x \<le> unat (GcdEnd e) then Some (region e) else region_at l x)"

text \<open>No entry can be merged with its neighbour.\<close>

definition merged :: "gcd_entry list \<Rightarrow> bool" where
  "merged l \<longleftrightarrow> successively (\<lambda>e a. \<not> mergeable e a) l"

lemma region_simps [simp]:
  "region (e\<lparr>GcdAt := x\<rparr>) = region e" "region (e\<lparr>GcdBase := y\<rparr>) = region e" "region (e\<lparr>GcdEnd := z\<rparr>) = region e"
  "region (region e) = region e"
  by (simp_all add: region_def)

lemma mergeable_region: "mergeable e a \<longleftrightarrow> region e = region a"
  by (cases e; cases a) (simp add: mergeable_def region_def; blast)

lemma tiles_append: "tiles a (l @ m) z \<longleftrightarrow> (\<exists>k. tiles a l k \<and> tiles k m z)"
  by (induction l arbitrary: a) auto

lemma tiles_le: "tiles a l z \<Longrightarrow> a \<le> z"
proof (induction l arbitrary: a)
  case (Cons e l)
  have "unat (GcdEnd e) + 1 \<le> z" using Cons.prems by (intro Cons.IH) simp
  then show ?case using Cons.prems by simp
qed simp

lemma tiles_end:
  assumes "tiles a l z" "e \<in> set l"
  shows "a \<le> unat (GcdBase e)" "unat (GcdBase e) \<le> unat (GcdEnd e)" "unat (GcdEnd e) < z"
  using assms
proof (induction l arbitrary: a)
  case (Cons d l)
  { case 1 then show ?case using Cons.IH(1) [of "unat (GcdEnd d) + 1"] by auto }
  { case 2 then show ?case using Cons.IH(2) [of "unat (GcdEnd d) + 1"] by auto }
  { case 3 then show ?case using Cons.IH(3) [of "unat (GcdEnd d) + 1"] tiles_le [of "unat (GcdEnd d) + 1" l z] by auto }
qed auto

lemma region_at_None: "tiles a l z \<Longrightarrow> region_at l x = None \<longleftrightarrow> x < a \<or> z \<le> x"
proof (induction l arbitrary: a)
  case (Cons e l)
  then have t: "tiles (unat (GcdEnd e) + 1) l z" by simp
  show ?case using Cons.prems tiles_le [OF t] Cons.IH [OF t] by auto
qed auto

lemma region_at_append: "tiles a l k \<Longrightarrow> region_at (l @ m) x = (if a \<le> x \<and> x < k then region_at l x else region_at m x)"
proof (induction l arbitrary: a)
  case (Cons e l)
  then have t: "tiles (unat (GcdEnd e) + 1) l k" by simp
  show ?case using Cons.prems tiles_le [OF t] Cons.IH [OF t] region_at_None [OF t, of x] by auto
qed auto

lemma region_at_in:
  assumes "tiles a l z" "e \<in> set l" "unat (GcdBase e) \<le> x" "x \<le> unat (GcdEnd e)"
  shows "region_at l x = Some (region e)"
  using assms
proof (induction l arbitrary: a)
  case (Cons d l)
  then have t: "tiles (unat (GcdEnd d) + 1) l z" by simp
  show ?case
  proof (cases "e = d")
    case False
    then have "e \<in> set l" using Cons.prems by simp
    then show ?thesis using Cons.IH [OF t] tiles_end(1) [OF t] Cons.prems by fastforce
  qed (use Cons.prems in simp)
qed simp

lemma region_at_obtains:
  assumes "region_at l x = Some r"
  obtains e where "e \<in> set l" "unat (GcdBase e) \<le> x" "x \<le> unat (GcdEnd e)" "r = region e"
  using assms by (induction l) (auto split: if_splits)

text \<open>A map is determined by its meaning, but for the addresses of its structures.\<close>

lemma merged_Cons:
  "merged (e # l) \<longleftrightarrow> merged l \<and> (\<forall>d r. l = d # r \<longrightarrow> region e \<noteq> region d)"
  by (cases l) (auto simp: merged_def mergeable_region)

lemma merged_unique:
  assumes "tiles a l z" "tiles a m z" "merged l" "merged m" "\<And>x. a \<le> x \<Longrightarrow> x < z \<Longrightarrow> region_at l x = region_at m x"
  shows "map (\<lambda>e. e\<lparr>GcdAt := 0\<rparr>) l = map (\<lambda>e. e\<lparr>GcdAt := 0\<rparr>) m"
  using assms
proof (induction l arbitrary: a m)
  case Nil
  then show ?case by (cases m) (auto dest: tiles_le)
next
  case (Cons e l)
  have t: "tiles (unat (GcdEnd e) + 1) l z" using Cons.prems(1) by simp
  obtain d r where m: "m = d # r" using Cons.prems(1,2) tiles_le [OF t] by (cases m) auto
  have u: "tiles (unat (GcdEnd d) + 1) r z" using Cons.prems(2) m by simp
  have b: "unat (GcdBase e) = a" "unat (GcdBase d) = a" "a \<le> unat (GcdEnd e)" "a \<le> unat (GcdEnd d)" using Cons.prems(1,2) m by auto
  have re: "region e = region d" using Cons.prems(5) [of a] b m tiles_le [OF t] by simp
  have "unat (GcdEnd e) = unat (GcdEnd d)"
  proof (rule ccontr)
    assume ne: "unat (GcdEnd e) \<noteq> unat (GcdEnd d)"
    show False
    proof (cases "unat (GcdEnd e) < unat (GcdEnd d)")
      case True
      let ?x = "unat (GcdEnd e) + 1"
      have lt: "?x < z" using True tiles_le [OF u] by simp
      then obtain c q where l: "l = c # q" using t by (cases l) auto
      have "region_at (e # l) ?x = Some (region c)" using t l b by simp
      moreover have "region_at m ?x = Some (region d)" using True b m by simp
      ultimately have "region c = region d" using Cons.prems(5) [of ?x] lt b by simp
      then show False using Cons.prems(3) re l by (simp add: merged_Cons)
    next
      case False
      let ?x = "unat (GcdEnd d) + 1"
      have lt: "?x < z" using False ne tiles_le [OF t] by simp
      then obtain c q where l: "r = c # q" using u by (cases r) auto
      have "region_at m ?x = Some (region c)" using u l b m by simp
      moreover have "region_at (e # l) ?x = Some (region e)" using False ne b by simp
      ultimately have "region c = region e" using Cons.prems(5) [of ?x] lt b by simp
      then show False using Cons.prems(4) re l m by (simp add: merged_Cons)
    qed
  qed
  then have ends: "GcdEnd e = GcdEnd d" "GcdBase e = GcdBase d" using b by (simp_all add: word_unat_eq_iff)
  have "e\<lparr>GcdAt := 0\<rparr> = d\<lparr>GcdAt := 0\<rparr>" using re ends by (cases e; cases d) (simp add: region_def)
  moreover have "map (\<lambda>e. e\<lparr>GcdAt := 0\<rparr>) l = map (\<lambda>e. e\<lparr>GcdAt := 0\<rparr>) r"
  proof (rule Cons.IH [OF t])
    show "tiles (unat (GcdEnd e) + 1) r z" using u ends by simp
    show "merged l" "merged r" using Cons.prems(3,4) m by (simp_all add: merged_Cons)
    fix x assume "unat (GcdEnd e) + 1 \<le> x" "x < z"
    then show "region_at l x = region_at r x" using Cons.prems(5) [of x] b m ends by simp
  qed
  ultimately show ?case using m by simp
qed

section \<open>Searching\<close>

text \<open>The map is \<open>pre @ es @ post\<close>, and the range starts in the first of \<open>es\<close> and ends in the last.\<close>

definition spans :: "u64 \<Rightarrow> u64 \<Rightarrow> nat \<Rightarrow> gcd_entry list \<Rightarrow> gcd_entry list \<Rightarrow> gcd_entry list \<Rightarrow> bool" where
  "spans B L z pre es post \<longleftrightarrow> tiles 0 (pre @ es @ post) z \<and> es \<noteq> [] \<and> L \<noteq> 0 \<and> unat B + unat L \<le> 2 ^ 64 \<and>
     unat (GcdBase (hd es)) \<le> unat B \<and> unat B \<le> unat (GcdEnd (hd es)) \<and>
     unat (GcdBase (last es)) < unat B + unat L \<and> unat B + unat L \<le> unat (GcdEnd (last es)) + 1"

lemma range_last:
  assumes "(L :: u64) \<noteq> 0" "unat B + unat L \<le> 2 ^ 64"
  shows "unat (B + L - 1) = unat B + unat L - 1"
proof -
  have L: "1 \<le> unat L" using assms(1) by (simp add: Suc_le_eq unat_gt_0)
  have "unat (L - 1) = unat L - 1" using L by (simp add: unat_sub word_le_nat_alt)
  moreover have "unat (B + (L - 1)) = unat B + unat (L - 1)" using assms(2) L calculation by (intro unat_plus_simple [THEN iffD1]) (simp add: no_olen_add_nat)
  moreover have "B + (L - 1) = B + L - 1" by (simp only: add_diff_eq)
  ultimately have "unat (B + L - 1) = unat B + (unat L - 1)" by (simp only:)
  then show ?thesis using L by simp
qed

lemma search_some:
  assumes "tiles a l z" "unat E < z" "Start \<noteq> None" "a \<le> unat E" "unat B < a"
  shows "\<exists>k < length l. search_entries B E i Start l = Some (the Start, i + k) \<and> unat (GcdBase (l ! k)) \<le> unat E \<and> unat E \<le> unat (GcdEnd (l ! k))"
  using assms
proof (induction l arbitrary: a i Start)
  case (Cons e l)
  have t: "tiles (unat (GcdEnd e) + 1) l z" using Cons.prems(1) by simp
  show ?case
  proof (cases "unat E \<le> unat (GcdEnd e)")
    case True
    then show ?thesis using Cons.prems by (intro exI [of _ 0]) (auto simp: word_le_nat_alt)
  next
    case False
    then have "\<exists>k < length l. search_entries B E (i + 1) Start l = Some (the Start, i + 1 + k) \<and> unat (GcdBase (l ! k)) \<le> unat E \<and> unat E \<le> unat (GcdEnd (l ! k))"
      using Cons.prems by (intro Cons.IH [OF t]) auto
    then obtain k where "k < length l" "search_entries B E (i + 1) Start l = Some (the Start, i + 1 + k)" "unat (GcdBase (l ! k)) \<le> unat E"
      "unat E \<le> unat (GcdEnd (l ! k))" by blast
    then show ?thesis using False Cons.prems by (intro exI [of _ "Suc k"]) (auto simp: word_le_nat_alt)
  qed
qed simp

lemma search_none:
  assumes "tiles a l z" "z \<le> unat E"
  shows "search_entries B E i Start l = None"
  using assms
proof (induction l arbitrary: a i Start)
  case (Cons e l)
  have t: "tiles (unat (GcdEnd e) + 1) l z" using Cons.prems(1) by simp
  show ?case using Cons.IH [OF t Cons.prems(2)] tiles_le [OF t] Cons.prems(2) by (simp add: Let_def word_le_nat_alt)
qed simp

lemma search_finds:
  assumes "tiles a l z" "unat E < z" "a \<le> unat B" "unat B \<le> unat E"
  shows "\<exists>j k. j \<le> k \<and> k < length l \<and> search_entries B E i None l = Some (i + j, i + k) \<and>
    unat (GcdBase (l ! j)) \<le> unat B \<and> unat B \<le> unat (GcdEnd (l ! j)) \<and> unat (GcdBase (l ! k)) \<le> unat E \<and> unat E \<le> unat (GcdEnd (l ! k))"
  using assms
proof (induction l arbitrary: a i)
  case (Cons e l)
  have t: "tiles (unat (GcdEnd e) + 1) l z" using Cons.prems(1) by simp
  show ?case
  proof (cases "unat B \<le> unat (GcdEnd e)")
    case B: True
    show ?thesis
    proof (cases "unat E \<le> unat (GcdEnd e)")
      case True
      then show ?thesis using B Cons.prems by (intro exI [of _ 0]) (auto simp: word_le_nat_alt)
    next
      case False
      obtain k where "k < length l" "search_entries B E (i + 1) (Some i) l = Some (i, i + 1 + k)" "unat (GcdBase (l ! k)) \<le> unat E"
          "unat E \<le> unat (GcdEnd (l ! k))"
        using search_some [OF t Cons.prems(2), of "Some i" B "i + 1"] False B by auto
      then show ?thesis using False B Cons.prems by (intro exI [of _ 0] exI [of _ "Suc k"]) (auto simp: word_le_nat_alt)
    qed
  next
    case False
    have "\<exists>j k. j \<le> k \<and> k < length l \<and> search_entries B E (i + 1) None l = Some (i + 1 + j, i + 1 + k) \<and>
      unat (GcdBase (l ! j)) \<le> unat B \<and> unat B \<le> unat (GcdEnd (l ! j)) \<and> unat (GcdBase (l ! k)) \<le> unat E \<and> unat E \<le> unat (GcdEnd (l ! k))"
      using False Cons.prems by (intro Cons.IH [OF t]) auto
    then obtain j k where "j \<le> k" "k < length l" "search_entries B E (i + 1) None l = Some (i + 1 + j, i + 1 + k)"
      "unat (GcdBase (l ! j)) \<le> unat B" "unat B \<le> unat (GcdEnd (l ! j))" "unat (GcdBase (l ! k)) \<le> unat E" "unat E \<le> unat (GcdEnd (l ! k))" by blast
    then show ?thesis using False Cons.prems by (intro exI [of _ "Suc j"] exI [of _ "Suc k"]) (auto simp: word_le_nat_alt)
  qed
qed simp

theorem SearchGcdMapEntry_spans:
  assumes "tiles 0 Map z" "L \<noteq> 0" "unat B + unat L \<le> 2 ^ 64"
  shows "if unat B + unat L \<le> z
    then \<exists>x. CoreSearchGcdMapEntry B L Map = Some (Inr x) \<and> spans B L z (before_links x Map) (between_links x Map) (after_links x Map) \<and>
           Map = before_links x Map @ between_links x Map @ after_links x Map
    else CoreSearchGcdMapEntry B L Map = Some (Inl EFI_NOT_FOUND)"
proof (cases "unat B + unat L \<le> z")
  case True
  have L: "1 \<le> unat L" using assms(2) by (simp add: Suc_le_eq unat_gt_0)
  note e = range_last [OF assms(2,3)]
  have "unat (B + L - 1) < z" "unat B \<le> unat (B + L - 1)" using True L unfolding e by simp_all
  from search_finds [OF assms(1) this(1) _ this(2), of 0] obtain j k where
    jk: "j \<le> k" "k < length Map" "search_entries B (B + L - 1) 0 None Map = Some (j, k)" and
    b: "unat (GcdBase (Map ! j)) \<le> unat B" "unat B \<le> unat (GcdEnd (Map ! j))" "unat (GcdBase (Map ! k)) \<le> unat B + unat L - 1"
      "unat B + unat L - 1 \<le> unat (GcdEnd (Map ! k))" unfolding e by auto
  let ?x = "(j, k)"
  have m: "Map = before_links ?x Map @ between_links ?x Map @ after_links ?x Map"
  proof -
    have "drop (k + 1) Map = drop (k + 1 - j) (drop j Map)" using jk(1) by simp
    then show ?thesis unfolding before_links_def between_links_def after_links_def fst_conv snd_conv
      by (metis append_take_drop_id)
  qed
  have ne: "between_links ?x Map \<noteq> []" using jk by (simp add: between_links_def)
  have len: "length (between_links ?x Map) = k + 1 - j" using jk by (simp add: between_links_def)
  have "hd (between_links ?x Map) = Map ! j" using jk by (simp add: between_links_def hd_drop_conv_nth)
  moreover have "last (between_links ?x Map) = Map ! k" using jk ne by (simp add: last_conv_nth len) (simp add: between_links_def)
  ultimately have "spans B L z (before_links ?x Map) (between_links ?x Map) (after_links ?x Map)"
    using assms m [symmetric] ne b L by (auto simp: spans_def)
  then show ?thesis using True jk(3) assms(2) m by (auto simp: CoreSearchGcdMapEntry_def)
next
  case False
  have "z \<le> unat (B + L - 1)" using False unfolding range_last [OF assms(2,3)] by simp
  from search_none [OF assms(1) this] show ?thesis using False assms(2) by (simp add: CoreSearchGcdMapEntry_def)
qed

end
