(* ===== verification/GcdConvert.thy ===== *)
theory GcdConvert
  imports GcdMap
begin

text \<open>
  Changing a range of a map: what \<open>CoreInsertGcdMapEntry\<close> cuts off keeps its meaning, \<open>CoreMergeGcdMapEntry\<close> never changes the meaning of a map,
  and after \<open>CoreCleanupGcdMapEntry\<close> no entry can be merged with its neighbour.
\<close>

section \<open>Cutting\<close>

definition low_cut :: "u64 \<Rightarrow> u64 \<Rightarrow> gcd_entry \<Rightarrow> gcd_entry list" where
  "low_cut b B e = (if B > GcdBase e then [e\<lparr>GcdAt := b, GcdEnd := B - 1\<rparr>] else [])"

definition high_cut :: "u64 \<Rightarrow> u64 \<Rightarrow> u64 \<Rightarrow> gcd_entry \<Rightarrow> gcd_entry list" where
  "high_cut t B L e = (if B + L - 1 < GcdEnd e then [e\<lparr>GcdAt := t, GcdBase := B + L\<rparr>] else [])"

definition cut_base :: "u64 \<Rightarrow> gcd_entry \<Rightarrow> gcd_entry" where
  "cut_base B e = (if B > GcdBase e then e\<lparr>GcdBase := B\<rparr> else e)"

definition cut_end :: "u64 \<Rightarrow> u64 \<Rightarrow> gcd_entry \<Rightarrow> gcd_entry" where
  "cut_end B L e = (if B + L - 1 < GcdEnd e then e\<lparr>GcdEnd := B + L - 1\<rparr> else e)"

text \<open>The entries of the range, cut to it.\<close>

definition cut_entries :: "u64 \<Rightarrow> u64 \<Rightarrow> gcd_entry list \<Rightarrow> gcd_entry list" where
  "cut_entries B L es = (let es = cut_base B (hd es) # tl es in butlast es @ [cut_end B L (last es)])"

lemma cut_simps [simp]:
  "GcdEnd (cut_base B e) = GcdEnd e" "GcdBase (cut_end B L e) = GcdBase e" "region (cut_base B e) = region e" "region (cut_end B L e) = region e"
  "GcdAt (cut_base B e) = GcdAt e" "GcdAt (cut_end B L e) = GcdAt e"
  "high_cut t B L (cut_base B e) = high_cut t B L e"
  by (simp_all add: cut_base_def cut_end_def high_cut_def)

lemma convert_tail:
  assumes "L \<noteq> 0" "\<forall>d\<in>set (e # l). B \<le> GcdBase d" "\<forall>d\<in>set (butlast (e # l)). GcdEnd d \<le> B + L - 1"
  shows "convert_entries f B L e l (Some t) Bot =
    Some (([], map f (butlast (e # l) @ [cut_end B L (last (e # l))]), high_cut t B L (last (e # l))),
      if high_cut t B L (last (e # l)) = [] then Some t else None, Bot)"
  using assms
proof (induction l arbitrary: e)
  case Nil
  then show ?case
    by (subst convert_entries.simps) (auto simp: CoreInsertGcdMapEntry_def high_cut_def cut_end_def)
next
  case (Cons d l)
  have "\<not> GcdBase e < B" "\<not> B + L - 1 < GcdEnd e" using Cons.prems by auto
  moreover have "convert_entries f B L d l (Some t) Bot =
      Some (([], map f (butlast (d # l) @ [cut_end B L (last (d # l))]), high_cut t B L (last (d # l))),
        if high_cut t B L (last (d # l)) = [] then Some t else None, Bot)"
    using Cons.prems by (intro Cons.IH) auto
  ultimately show ?case
    using Cons.prems(1) by (subst convert_entries.simps) (simp add: CoreInsertGcdMapEntry_def)
qed

lemma convert_entries_cuts:
  assumes "L \<noteq> 0" "\<forall>d\<in>set l. B \<le> GcdBase d" "\<forall>d\<in>set (butlast (e # l)). GcdEnd d \<le> B + L - 1"
  shows "convert_entries f B L e l (Some t) (Some b) =
    Some ((low_cut b B e, map f (cut_entries B L (e # l)), high_cut t B L (last (e # l))),
      if high_cut t B L (last (e # l)) = [] then Some t else None, if low_cut b B e = [] then Some b else None)"
proof (cases l)
  case Nil
  then show ?thesis using assms(1)
    by (subst convert_entries.simps)
      (auto simp: CoreInsertGcdMapEntry_def high_cut_def cut_end_def low_cut_def cut_base_def cut_entries_def)
next
  case (Cons d m)
  have n: "\<not> B + L - 1 < GcdEnd e" using assms(3) Cons by auto
  have t: "convert_entries f B L d m (Some t) Bot =
      Some (([], map f (butlast (d # m) @ [cut_end B L (last (d # m))]), high_cut t B L (last (d # m))),
        if high_cut t B L (last (d # m)) = [] then Some t else None, Bot)" for Bot
    using assms Cons by (intro convert_tail) auto
  show ?thesis
    using assms(1) n Cons t by (subst convert_entries.simps) (auto simp: CoreInsertGcdMapEntry_def low_cut_def cut_base_def cut_entries_def)
qed

lemma cut_first:
  assumes "tiles a (e # l) c" "a \<le> unat B" "unat B \<le> unat (GcdEnd e)"
  shows "tiles a (low_cut b B e) (unat B)" "tiles (unat B) (cut_base B e # l) c"
    "region_at (low_cut b B e @ cut_base B e # l) x = region_at (e # l) x"
proof -
  have B: "unat (B - 1) = unat B - 1" if "GcdBase e < B"
    using that by (metis unat_minus_one word_gt_0 word_not_simps(1) not_less word_zero_le order_le_less_trans)
  show "tiles a (low_cut b B e) (unat B)" "tiles (unat B) (cut_base B e # l) c"
    using assms B by (auto simp: low_cut_def cut_base_def word_less_nat_alt)
  show "region_at (low_cut b B e @ cut_base B e # l) x = region_at (e # l) x"
    using assms B by (auto simp: low_cut_def cut_base_def word_less_nat_alt)
qed

lemma cut_last:
  assumes "tiles a (l @ [e]) c" "L \<noteq> 0" "unat B + unat L \<le> 2 ^ 64" "unat (GcdBase e) < unat B + unat L" "unat B + unat L \<le> unat (GcdEnd e) + 1"
  shows "tiles a (l @ [cut_end B L e]) (unat B + unat L)" "tiles (unat B + unat L) (high_cut t B L e) c"
    "region_at (l @ cut_end B L e # high_cut t B L e) x = region_at (l @ [e]) x"
proof -
  note E = range_last [OF assms(2,3)]
  obtain k where k: "tiles a l k" "tiles k [e] c" using assms(1) by (auto simp: tiles_append)
  have lt: "unat (GcdEnd e) < 2 ^ LENGTH(64)" by (rule unsigned_less)
  have BL: "unat (B + L) = unat B + unat L" if "B + L - 1 < GcdEnd e"
  proof -
    have "unat B + unat L < 2 ^ LENGTH(64)" using that E lt by (simp add: word_less_nat_alt)
    then show ?thesis by (simp add: unat_word_ariths)
  qed
  show "tiles a (l @ [cut_end B L e]) (unat B + unat L)"
    using k assms E by (auto simp: tiles_append cut_end_def word_less_nat_alt intro!: exI [of _ k])
  show "tiles (unat B + unat L) (high_cut t B L e) c"
    using k assms E BL by (auto simp: high_cut_def word_less_nat_alt)
  have "region_at (cut_end B L e # high_cut t B L e) x = region_at [e] x"
    using k assms E BL by (auto simp: cut_end_def high_cut_def word_less_nat_alt)
  then show "region_at (l @ cut_end B L e # high_cut t B L e) x = region_at (l @ [e]) x"
    using region_at_append [OF k(1)] by auto
qed

text \<open>The three parts of what was the entries \<open>es\<close>.\<close>

lemma cut_parts:
  assumes "tiles a es c" "es \<noteq> []" "L \<noteq> 0" "unat B + unat L \<le> 2 ^ 64" "a \<le> unat B" "unat B \<le> unat (GcdEnd (hd es))"
    "unat (GcdBase (last es)) < unat B + unat L" "unat B + unat L \<le> unat (GcdEnd (last es)) + 1"
  shows "tiles a (low_cut b B (hd es)) (unat B)" "tiles (unat B) (cut_entries B L es) (unat B + unat L)"
    "tiles (unat B + unat L) (high_cut t B L (last es)) c"
    "region_at (low_cut b B (hd es) @ cut_entries B L es @ high_cut t B L (last es)) x = region_at es x"
proof -
  obtain e l where es: "es = e # l" using assms(2) by (cases es) auto
  let ?m = "cut_base B e # l"
  have f: "tiles a (low_cut b B e) (unat B)" "tiles (unat B) ?m c" "region_at (low_cut b B e @ ?m) x = region_at (e # l) x"
    using cut_first [of a e l c B] assms(1,5,6) es by auto
  have m: "butlast ?m @ [last ?m] = ?m" by (rule append_butlast_last_id) simp
  have hi: "high_cut t B L (last es) = high_cut t B L (last ?m)" using es by simp
  have c: "cut_entries B L es = butlast ?m @ [cut_end B L (last ?m)]" using es by (simp add: cut_entries_def Let_def)
  have L: "1 \<le> unat L" using assms(3) by (simp add: Suc_le_eq unat_gt_0)
  have le: "unat (GcdBase (last ?m)) < unat B + unat L" "unat B + unat L \<le> unat (GcdEnd (last ?m)) + 1"
    using assms(7,8) es L by (auto simp: cut_base_def)
  note g = cut_last [of "unat B" "butlast ?m" "last ?m" c L B, unfolded m, OF f(2) assms(3,4) le]
  show "tiles a (low_cut b B (hd es)) (unat B)" using f(1) es by simp
  show "tiles (unat B) (cut_entries B L es) (unat B + unat L)" using g(1) c by simp
  show "tiles (unat B + unat L) (high_cut t B L (last es)) c" using g(2) hi by simp
  have "region_at (low_cut b B e @ butlast ?m @ cut_end B L (last ?m) # high_cut t B L (last ?m)) x = region_at (low_cut b B e @ ?m) x"
    using region_at_append [OF f(1)] g(3) by simp
  then show "region_at (low_cut b B (hd es) @ cut_entries B L es @ high_cut t B L (last es)) x = region_at es x"
    using f(3) es c hi by simp
qed

section \<open>Changing\<close>

text \<open>A change that does not depend on the place of an entry, and leaves it.\<close>

definition placeless :: "(gcd_entry \<Rightarrow> gcd_entry) \<Rightarrow> bool" where
  "placeless f \<longleftrightarrow> (\<forall>e. GcdBase (f e) = GcdBase e \<and> GcdEnd (f e) = GcdEnd e \<and> GcdAt (f e) = GcdAt e \<and> region (f e) = f (region e))"

lemma change_entry_placeless [simp]: "placeless (change_entry Op T IoT C A)"
  by (cases Op) (simp_all add: placeless_def region_def)

lemma allocate_placeless [simp]: "placeless (\<lambda>e. e\<lparr>ImageHandle := i, DeviceHandle := d\<rparr>)"
  by (simp add: placeless_def region_def)

lemma tiles_map: "placeless f \<Longrightarrow> tiles a (map f l) z \<longleftrightarrow> tiles a l z"
  by (induction l arbitrary: a) (auto simp: placeless_def)

lemma region_at_map: "placeless f \<Longrightarrow> region_at (map f l) x = map_option f (region_at l x)"
  by (induction l) (auto simp: placeless_def)

text \<open>\<open>Map'\<close> is \<open>Map\<close> with the range changed by \<open>f\<close>.\<close>

definition changed :: "(gcd_entry \<Rightarrow> gcd_entry) \<Rightarrow> u64 \<Rightarrow> u64 \<Rightarrow> gcd_entry list \<Rightarrow> gcd_entry list \<Rightarrow> bool" where
  "changed f B L Map Map' \<longleftrightarrow>
     (\<forall>x. region_at Map' x = (if unat B \<le> x \<and> x < unat B + unat L then map_option f (region_at Map x) else region_at Map x))"

lemma cut_map:
  assumes "spans B L z pre es post" "placeless f"
    "low = low_cut b B (hd es)" "mid = map f (cut_entries B L es)" "high = high_cut t B L (last es)"
  shows "tiles 0 (pre @ low @ mid @ high @ post) z" "changed f B L (pre @ es @ post) (pre @ low @ mid @ high @ post)"
proof -
  obtain a c where t: "tiles 0 pre a" "tiles a es c" "tiles c post z" using assms(1) by (auto simp: spans_def tiles_append)
  have a: "unat (GcdBase (hd es)) = a" using t(2) assms(1) by (cases es) (auto simp: spans_def)
  note c = cut_parts(1) [OF t(2), of L B b] cut_parts(2) [OF t(2), of L B] cut_parts(3) [OF t(2), of L B t] cut_parts(4) [OF t(2), of L B b t]
  have p: "tiles a low (unat B)" "tiles (unat B) (cut_entries B L es) (unat B + unat L)" "tiles (unat B + unat L) high c"
    "\<And>x. region_at (low @ cut_entries B L es @ high) x = region_at es x"
    using c assms(1) a unfolding assms(3,5) spans_def by auto
  have u: "tiles (unat B) mid (unat B + unat L)" using p(2) assms(2) by (simp add: assms(4) tiles_map)
  show "tiles 0 (pre @ low @ mid @ high @ post) z"
    using t p u by (auto simp: tiles_append)
  show "changed f B L (pre @ es @ post) (pre @ low @ mid @ high @ post)" unfolding changed_def
  proof
    fix x
    have s: "region_at (pre @ m @ post) x = (if x < a then region_at pre x else if x < c then region_at m x else region_at post x)"
      if "tiles a m c" for m
      using region_at_append [OF t(1)] region_at_append [OF that] by auto
    have v: "tiles a (low @ mid @ high) c" using p u by (auto simp: tiles_append)
    have r: "region_at (low @ m @ high) x = (if a \<le> x \<and> x < unat B then region_at low x else if unat B \<le> x \<and> x < unat B + unat L then region_at m x
        else region_at high x)" if "tiles (unat B) m (unat B + unat L)" for m
      using region_at_append [OF p(1)] region_at_append [OF that] by auto
    have le: "a \<le> unat B" "unat B + unat L \<le> c" using tiles_le [OF p(1)] tiles_le [OF p(3)] by auto
    show "region_at (pre @ low @ mid @ high @ post) x =
        (if unat B \<le> x \<and> x < unat B + unat L then map_option f (region_at (pre @ es @ post) x) else region_at (pre @ es @ post) x)"
      using s [OF v] s [OF t(2)] r [OF u] r [OF p(2)] p(4) [of x] le region_at_map [OF assms(2), of "cut_entries B L es" x]
      by (auto simp: assms(4))
  qed
qed

section \<open>Merging\<close>

text \<open>Two maps of the same meaning.\<close>

definition same_map :: "nat \<Rightarrow> nat \<Rightarrow> gcd_entry list \<Rightarrow> gcd_entry list \<Rightarrow> bool" where
  "same_map a z l m \<longleftrightarrow> tiles a l z \<and> tiles a m z \<and> (\<forall>x. region_at l x = region_at m x)"

lemma same_map_trans: "same_map a z l m \<Longrightarrow> same_map a z m n \<Longrightarrow> same_map a z l n"
  by (simp add: same_map_def)

lemma same_map_refl: "tiles a l z \<Longrightarrow> same_map a z l l"
  by (simp add: same_map_def)

lemma same_map_around:
  assumes "same_map a c l m" "tiles k pre a" "tiles c post z"
  shows "same_map k z (pre @ l @ post) (pre @ m @ post)"
  using assms region_at_append [OF assms(2)] unfolding same_map_def
  by (auto simp: tiles_append region_at_append [of a l c] region_at_append [of a m c])

lemma same_map_after: "same_map a c l m \<Longrightarrow> tiles k pre a \<Longrightarrow> same_map k c (pre @ l) (pre @ m)"
  using same_map_around [of a c l m k pre "[]" c] by simp

lemma same_map_before: "same_map a c l m \<Longrightarrow> tiles c post z \<Longrightarrow> same_map a z (l @ post) (m @ post)"
  using same_map_around [of a c l m a "[]" post z] by simp

lemma join_entries:
  assumes "tiles a [d, e] c" "region d = region e"
  shows "same_map a c [d, e] [e\<lparr>GcdBase := GcdBase d\<rparr>]" "same_map a c [d, e] [d\<lparr>GcdEnd := GcdEnd e\<rparr>]"
  using assms by (auto simp: same_map_def)

lemma merged_append:
  "merged (l @ m) \<longleftrightarrow> merged l \<and> merged m \<and> (l \<noteq> [] \<longrightarrow> m \<noteq> [] \<longrightarrow> region (last l) \<noteq> region (hd m))"
  by (auto simp: merged_def successively_append_iff mergeable_region)

lemma merged_simps [simp]: "merged []" "merged [e]"
  by (simp_all add: merged_def)

lemma merged_last:
  assumes "merged (l @ [e])" "region d = region e"
  shows "merged (l @ [d])"
  using assms by (simp add: merged_append)

lemma MergeGcdMapEntry_backward:
  assumes "CoreMergeGcdMapEntry env False e before p = Some ((Status, e', before'), p')" "tiles a (rev before @ [e]) c"
  shows "same_map a c (rev before @ [e]) (rev before' @ [e'])" "merged (rev before) \<Longrightarrow> merged (rev before' @ [e'])" "region e' = region e"
proof -
  have "same_map a c (rev before @ [e]) (rev before' @ [e']) \<and> (merged (rev before) \<longrightarrow> merged (rev before' @ [e'])) \<and> region e' = region e"
  proof (cases before)
    case Nil
    then show ?thesis using assms same_map_refl [of a "[e]" c] by (auto simp: CoreMergeGcdMapEntry_def)
  next
    case (Cons d l)
    show ?thesis
    proof (cases "mergeable e d")
      case True
      then have r: "before' = l" "e' = e\<lparr>GcdBase := GcdBase d\<rparr>" using assms(1) Cons by (auto simp: CoreMergeGcdMapEntry_def)
      have d: "region d = region e" using True by (simp add: mergeable_region)
      obtain k where k: "tiles a (rev l) k" "tiles k [d, e] c" using assms(2) Cons by (auto simp: tiles_append)
      have "same_map a c (rev l @ [d, e]) (rev l @ [e'])"
        using same_map_after [OF join_entries(1) [OF k(2) d] k(1)] r by simp
      moreover have "merged (rev l @ [e'])" if "merged (rev before)"
        using that Cons d r by (intro merged_last [of "rev l" d e']) simp_all
      ultimately show ?thesis using r Cons by simp
    next
      case False
      then have r: "before' = before" "e' = e" using assms(1) Cons by (auto simp: CoreMergeGcdMapEntry_def)
      have "merged (rev before) \<longrightarrow> merged (rev before @ [e])" using False Cons by (auto simp: merged_append merged_Cons mergeable_region)
      then show ?thesis using r same_map_refl [OF assms(2)] by simp
    qed
  qed
  then show "same_map a c (rev before @ [e]) (rev before' @ [e'])" "merged (rev before) \<Longrightarrow> merged (rev before' @ [e'])" "region e' = region e" by auto
qed

lemma merge_entries_same:
  assumes "merge_entries env before es p = Some (r, p')" "tiles a (rev before @ es) c"
  shows "same_map a c (rev before @ es) (rev r) \<and> (merged (rev before) \<longrightarrow> merged (rev r)) \<and> (es \<noteq> [] \<longrightarrow> r \<noteq> [] \<and> region (hd r) = region (last es))"
  using assms
proof (induction es arbitrary: before p)
  case Nil
  then show ?case using same_map_refl by auto
next
  case (Cons e l)
  obtain St e' before' p1 where m: "CoreMergeGcdMapEntry env False e before p = Some ((St, e', before'), p1)"
      "merge_entries env (e' # before') l p1 = Some (r, p')"
    using Cons.prems(1) by auto
  obtain k where k: "tiles a (rev before @ [e]) k" "tiles k l c" using Cons.prems(2) by (auto simp: tiles_append)
  note b = MergeGcdMapEntry_backward [OF m(1) k(1)]
  have s: "same_map a c ((rev before @ [e]) @ l) ((rev before' @ [e']) @ l)" by (rule same_map_before [OF b(1) k(2)])
  have i: "same_map a c (rev (e' # before') @ l) (rev r) \<and> (merged (rev before) \<longrightarrow> merged (rev r)) \<and> (l \<noteq> [] \<longrightarrow> r \<noteq> [] \<and> region (hd r) = region (last l))"
    using Cons.IH [OF m(2)] s b(2) by (simp add: same_map_def)
  have "r \<noteq> [] \<and> region (hd r) = region e" if "l = []" using that m(2) b(3) by auto
  then show ?case using i s same_map_trans by auto
qed

lemma MergeGcdMapEntry_forward:
  assumes "CoreMergeGcdMapEntry env True e post p = Some ((Status, e', post'), p')" "tiles a (e # post) z"
  shows "same_map a z (e # post) (e' # post')" "merged post \<Longrightarrow> merged (e' # post')" "region e' = region e"
proof -
  have "same_map a z (e # post) (e' # post') \<and> (merged post \<longrightarrow> merged (e' # post')) \<and> region e' = region e"
  proof (cases post)
    case Nil
    then show ?thesis using assms same_map_refl [of a "[e]" z] by (auto simp: CoreMergeGcdMapEntry_def)
  next
    case (Cons d l)
    show ?thesis
    proof (cases "mergeable e d")
      case True
      then have r: "post' = l" "e' = e\<lparr>GcdEnd := GcdEnd d\<rparr>" using assms(1) Cons by (auto simp: CoreMergeGcdMapEntry_def)
      have d: "region e = region d" using True by (simp add: mergeable_region)
      obtain k where k: "tiles a [e, d] k" "tiles k l z" using assms(2) Cons by auto
      have "same_map a z ([e, d] @ l) ([e'] @ l)"
        using same_map_before [OF join_entries(2) [OF k(1) d] k(2)] r by simp
      moreover have "merged post \<longrightarrow> merged (e' # l)" using Cons d r by (simp add: merged_Cons)
      ultimately show ?thesis using r Cons by simp
    next
      case False
      then have r: "post' = post" "e' = e" using assms(1) Cons by (auto simp: CoreMergeGcdMapEntry_def)
      have "merged post \<longrightarrow> merged (e # post)" using False Cons by (simp add: merged_Cons mergeable_region)
      then show ?thesis using r same_map_refl [OF assms(2)] by simp
    qed
  qed
  then show "same_map a z (e # post) (e' # post')" "merged post \<Longrightarrow> merged (e' # post')" "region e' = region e" by auto
qed

lemma CleanupGcdMapEntry_same:
  assumes "CoreCleanupGcdMapEntry env Top Bottom pre es post p = Some (Map, p')" "tiles 0 (pre @ es @ post) z" "es \<noteq> []"
  shows "same_map 0 z (pre @ es @ post) Map" "merged pre \<Longrightarrow> merged post \<Longrightarrow> merged Map"
proof -
  obtain p1 r p2 where r: "merge_entries env (rev pre) es p1 = Some (r, p2)"
      "(case r of [] \<Rightarrow> None | e # before \<Rightarrow> do { ((_, e, post), p) \<leftarrow> CoreMergeGcdMapEntry env True e post p2; Some (rev before @ e # post, p) })
        = Some (Map, p')"
    using assms(1) by (auto simp: CoreCleanupGcdMapEntry_def)
  then obtain e before where rl: "r = e # before" by (cases r) auto
  then obtain St e' post' where c: "merge_entries env (rev pre) es p1 = Some (e # before, p2)"
      "CoreMergeGcdMapEntry env True e post p2 = Some ((St, e', post'), p')" "Map = rev before @ e' # post'"
    using r by auto
  obtain k where k: "tiles 0 (pre @ es) k" "tiles k post z" using assms(2) by (auto simp: tiles_append)
  from merge_entries_same [OF c(1), of 0 k] k assms(3)
  have m: "same_map 0 k (pre @ es) (rev before @ [e])" "merged pre \<longrightarrow> merged (rev before @ [e])" "region e = region (last es)" by auto
  have s: "same_map 0 z ((pre @ es) @ post) ((rev before @ [e]) @ post)" by (rule same_map_before [OF m(1) k(2)])
  obtain j where j: "tiles 0 (rev before) j" "tiles j (e # post) z" using s by (auto simp: same_map_def tiles_append)
  note f = MergeGcdMapEntry_forward [OF c(2) j(2)]
  have "same_map 0 z (rev before @ (e # post)) (rev before @ (e' # post'))" by (rule same_map_after [OF f(1) j(1)])
  then show "same_map 0 z (pre @ es @ post) Map" using s c(3) by (auto simp: same_map_def)
  show "merged Map" if "merged pre" "merged post" using that m(2) f(2,3) c(3) by (simp add: merged_append)
qed

section \<open>The whole\<close>

lemma spans_order:
  assumes "spans B L z pre es post"
  shows "\<forall>d\<in>set (tl es). B \<le> GcdBase d" "\<forall>d\<in>set (butlast es). GcdEnd d \<le> B + L - 1"
proof -
  have E: "unat (B + L - 1) = unat B + unat L - 1" using assms by (intro range_last) (auto simp: spans_def)
  obtain a c where t: "tiles a es c" using assms by (auto simp: spans_def tiles_append)
  show "\<forall>d\<in>set (tl es). B \<le> GcdBase d"
  proof
    fix d assume d: "d \<in> set (tl es)"
    then obtain e l where es: "es = e # l" by (cases es) auto
    then have "unat (GcdEnd e) + 1 \<le> unat (GcdBase d)" using d t tiles_end(1) [of _ l c d] by auto
    then show "B \<le> GcdBase d" using assms es by (simp add: spans_def word_le_nat_alt)
  qed
  show "\<forall>d\<in>set (butlast es). GcdEnd d \<le> B + L - 1"
  proof
    fix d assume d: "d \<in> set (butlast es)"
    have "es \<noteq> []" using d by auto
    then have "tiles a (butlast es @ [last es]) c" using t by simp
    then obtain k where "tiles a (butlast es) k" "k = unat (GcdBase (last es))" by (auto simp: tiles_append)
    then have "unat (GcdEnd d) < unat (GcdBase (last es))" using d tiles_end(3) by blast
    moreover have "unat (GcdBase (last es)) < unat B + unat L" using assms by (simp add: spans_def)
    ultimately show "GcdEnd d \<le> B + L - 1" by (simp add: word_le_nat_alt E)
  qed
qed

lemma convert_entries_spans:
  assumes "spans B L z pre (e # l) post"
  shows "convert_entries f B L e l (Some t) (Some b) =
    Some ((low_cut b B e, map f (cut_entries B L (e # l)), high_cut t B L (last (e # l))),
      if high_cut t B L (last (e # l)) = [] then Some t else None, if low_cut b B e = [] then Some b else None)"
  using spans_order [OF assms] assms by (intro convert_entries_cuts) (simp_all add: spans_def)

theorem convert_range_changes:
  assumes "convert_range env Op f B L x t b s = Some (Status, s')" "placeless f"
    and x: "spans B L z (before_links x (space_map Op s)) (between_links x (space_map Op s)) (after_links x (space_map Op s))"
      "space_map Op s = before_links x (space_map Op s) @ between_links x (space_map Op s) @ after_links x (space_map Op s)"
  shows "Status = EFI_SUCCESS" "tiles 0 (space_map Op s') z" "merged (space_map Op s) \<Longrightarrow> merged (space_map Op s')" "changed f B L (space_map Op s) (space_map Op s')"
    "\<exists>Top Bottom pre es post Map s1. CoreCleanupGcdMapEntry env Top Bottom pre es post s = Some (Map, s1) \<and> s' = put_map Op Map s1"
proof -
  let ?pre = "before_links x (space_map Op s)" and ?post = "after_links x (space_map Op s)" and ?es = "between_links x (space_map Op s)"
  obtain e l where es: "?es = e # l" using x(1) by (cases ?es) (auto simp: spans_def)
  define low mid high where d: "low = low_cut b B e" "mid = map f (cut_entries B L (e # l))" "high = high_cut t B L (last (e # l))"
  obtain Top Bottom Map s1 where c: "CoreCleanupGcdMapEntry env Top Bottom (?pre @ low) mid (high @ ?post) s = Some (Map, s1)"
      "Status = EFI_SUCCESS" "s' = put_map Op Map s1"
    using assms(1) convert_entries_spans [OF x(1) [unfolded es], of f t b] es d by (auto simp: convert_range_def Let_def)
  from cut_map [OF x(1) assms(2), of low b mid high t] es d
  have t: "tiles 0 ((?pre @ low) @ mid @ high @ ?post) z" "changed f B L (space_map Op s) ((?pre @ low) @ mid @ high @ ?post)"
    using x(2) by simp_all
  have ne: "mid \<noteq> []" using d(2) by (simp add: cut_entries_def Let_def)
  note k = CleanupGcdMapEntry_same [OF c(1) t(1) ne]
  have sp: "space_map Op s' = Map" using c(3) by (simp add: space_map_def put_map_def)
  show "Status = EFI_SUCCESS" by (rule c(2))
  show "tiles 0 (space_map Op s') z" using k(1) sp by (simp add: same_map_def)
  show "merged (space_map Op s')" if m: "merged (space_map Op s)"
  proof -
    have mg: "merged ?pre" "merged ?post" "?pre \<noteq> [] \<Longrightarrow> region (last ?pre) \<noteq> region e" "?post \<noteq> [] \<Longrightarrow> region (last (e # l)) \<noteq> region (hd ?post)"
      using m x(2) es by (metis merged_append append_is_Nil_conv last_appendR list.distinct(1) list.sel(1) hd_append2)+
    have "merged (?pre @ low)" using mg(1,3) d(1) by (auto simp: low_cut_def merged_append)
    moreover have "merged (high @ ?post)" using mg(2,4) d(3) by (auto simp: high_cut_def merged_append merged_Cons)
    ultimately show ?thesis using k(2) sp by simp
  qed
  show "changed f B L (space_map Op s) (space_map Op s')" using k(1) t(2) sp by (simp add: changed_def same_map_def)
  show "\<exists>Top Bottom pre es post Map s1. CoreCleanupGcdMapEntry env Top Bottom pre es post s = Some (Map, s1) \<and> s' = put_map Op Map s1"
    using c(1,3) by blast
qed

end
