(* ===== verification/GcdServices.thy ===== *)
theory GcdServices
  imports GcdConvert
begin

text \<open>
  The services of the global coherency domain: \<open>CoreConvertSpace\<close> and \<open>CoreAllocateSpace\<close> change exactly the range they are given or find, or
  nothing at all.
\<close>

section \<open>Locks\<close>

definition space_lock :: "gcd_operation \<Rightarrow> 'p gcd \<Rightarrow> bool" where
  "space_lock Op s = (if memory_operation Op then MemorySpaceLock s else IoSpaceLock s)"

text \<open>
  Where the entries of a map are.  A promotion (\<open>PromoteMemoryResource\<close>, when the pool runs out of pages) changes entries of the memory space in their
  places, and only while nobody has its lock.
\<close>

definition places :: "gcd_entry list \<Rightarrow> (u64 \<times> u64) list" where
  "places l = map (\<lambda>e. (GcdBase e, GcdEnd e)) l"

lemma tiles_places: "places l = places m \<Longrightarrow> tiles a l z = tiles a m z"
proof (induction l arbitrary: a m)
  case (Cons e l)
  obtain d r where m: "m = d # r" "GcdBase d = GcdBase e" "GcdEnd d = GcdEnd e" "places l = places r"
    using Cons.prems by (cases m) (auto simp: places_def)
  show ?case using Cons.IH [OF m(4)] m(1-3) by simp
qed (simp add: places_def)

text \<open>What a call of the pool or of the page allocator leaves as it is.\<close>

definition same_spaces :: "'p gcd \<Rightarrow> 'p gcd \<Rightarrow> bool" where
  "same_spaces s s' \<longleftrightarrow> MemorySpaceLock s' = MemorySpaceLock s \<and> IoSpaceLock s' = IoSpaceLock s \<and> IoSpaceMap s' = IoSpaceMap s \<and>
     places (MemorySpaceMap s') = places (MemorySpaceMap s) \<and> (MemorySpaceLock s \<longrightarrow> MemorySpaceMap s' = MemorySpaceMap s)"

text \<open>The same for the space that the operation is not about.\<close>

definition other_same :: "gcd_operation \<Rightarrow> 'p gcd \<Rightarrow> 'p gcd \<Rightarrow> bool" where
  "other_same Op s s' \<longleftrightarrow>
     (if memory_operation Op then IoSpaceMap s' = IoSpaceMap s \<and> IoSpaceLock s' = IoSpaceLock s
      else places (MemorySpaceMap s') = places (MemorySpaceMap s) \<and> MemorySpaceLock s' = MemorySpaceLock s)"

lemma other_same_trans: "other_same Op s s' \<Longrightarrow> other_same Op s' s'' \<Longrightarrow> other_same Op s s''"
  by (simp add: other_same_def split: if_splits)

lemma same_spaces_refl: "same_spaces s s"
  by (simp add: same_spaces_def)

lemma same_spaces_trans: "same_spaces s s' \<Longrightarrow> same_spaces s' s'' \<Longrightarrow> same_spaces s s''"
  by (auto simp: same_spaces_def)

lemma space_simps [simp]:
  "space_map Op (put_map Op Map s) = Map" "space_lock Op (put_map Op Map s) = space_lock Op s" "other_same Op s (put_map Op Map s')= other_same Op s s'"
  "space_map Op (s\<lparr>GcdRest := p\<rparr>) = space_map Op s" "space_lock Op (s\<lparr>GcdRest := p\<rparr>) = space_lock Op s"
  "other_same Op s (s'\<lparr>GcdRest := p\<rparr>) = other_same Op s s'" "other_same Op (s\<lparr>GcdRest := p\<rparr>) s' = other_same Op s s'" "other_same Op s s"
  "same_spaces s (s'\<lparr>GcdRest := p\<rparr>) = same_spaces s s'" "same_spaces (s\<lparr>GcdRest := p\<rparr>) s' = same_spaces s s'" "GcdRest (put_map Op Map s) = GcdRest s"
  by (simp_all add: space_map_def put_map_def space_lock_def other_same_def same_spaces_def)

lemma same_spaces_locked:
  assumes "same_spaces s s'" "space_lock Op s"
  shows "space_map Op s' = space_map Op s" "space_lock Op s' = space_lock Op s" "other_same Op s s'"
  using assms by (auto simp: same_spaces_def space_map_def space_lock_def other_same_def split: if_splits)

lemma acquire_space:
  "acquire_space Op s = (if space_lock Op s then None else
     Some (if memory_operation Op then s\<lparr>MemorySpaceLock := True\<rparr> else s\<lparr>IoSpaceLock := True\<rparr>))"
  by (simp add: acquire_space_def space_lock_def)

lemma space_acquired:
  assumes "acquire_space Op s = Some s'"
  shows "\<not> space_lock Op s" "space_lock Op s'" "space_map Op s' = space_map Op s" "other_same Op s s'" "GcdRest s' = GcdRest s"
  using assms by (auto simp: acquire_space_def space_lock_def space_map_def other_same_def split: if_splits)

lemma released:
  assumes "release_space Op s = Some s'"
  shows "space_lock Op s" "\<not> space_lock Op s'" "space_map Op s' = space_map Op s" "other_same Op s s'" "GcdRest s' = GcdRest s"
  using assms by (auto simp: release_space_def space_lock_def space_map_def other_same_def split: if_splits)

lemma release_returns: "space_lock Op s \<Longrightarrow> \<exists>s'. release_space Op s = Some s'"
  by (simp add: release_space_def space_lock_def)

section \<open>Checks\<close>

text \<open>What a check says of an entry does not depend on the place of the entry.\<close>

definition placeless_check :: "(gcd_entry \<Rightarrow> efi_status) \<Rightarrow> bool" where
  "placeless_check check \<longleftrightarrow> (\<forall>e. check (region e) = check e)"

lemma check_entry_placeless [simp]: "placeless_check (check_entry Op A B L)"
  by (cases Op) (simp_all add: placeless_check_def region_def)

lemma AllocateSpaceCheckEntry_placeless [simp]: "placeless_check (\<lambda>e. CoreAllocateSpaceCheckEntry Op e T IoT)"
  by (simp add: placeless_check_def CoreAllocateSpaceCheckEntry_def region_def)

definition passes :: "(gcd_entry \<Rightarrow> efi_status) \<Rightarrow> gcd_entry list \<Rightarrow> nat \<Rightarrow> bool" where
  "passes check Map x \<longleftrightarrow> (\<exists>r. region_at Map x = Some r \<and> check r = EFI_SUCCESS)"

text \<open>The range can be changed: it is covered by the map, and each address of it passes the check.\<close>

definition allowed :: "(gcd_entry \<Rightarrow> efi_status) \<Rightarrow> u64 \<Rightarrow> u64 \<Rightarrow> gcd_entry list \<Rightarrow> bool" where
  "allowed check B L Map \<longleftrightarrow> L \<noteq> 0 \<and> (\<forall>x. unat B \<le> x \<longrightarrow> x < unat B + unat L \<longrightarrow> passes check Map x)"

lemma first_failure_None: "first_failure check i l = None \<longleftrightarrow> (\<forall>e\<in>set l. check e = EFI_SUCCESS)"
  by (induction l arbitrary: i) (auto simp: EFI_ERROR_def)

lemma first_failure_Some:
  "first_failure check i l = Some (k, st) \<longleftrightarrow>
     i \<le> k \<and> k < i + length l \<and> st = check (l ! (k - i)) \<and> EFI_ERROR st \<and> (\<forall>j. i \<le> j \<longrightarrow> j < k \<longrightarrow> check (l ! (j - i)) = EFI_SUCCESS)"
proof (induction l arbitrary: i)
  case (Cons e l)
  show ?case
  proof (cases "EFI_ERROR (check e)")
    case True
    then have "check e \<noteq> EFI_SUCCESS" by (simp add: EFI_ERROR_def)
    then show ?thesis using True by auto
  next
    case False
    have n: "(e # l) ! (j - i) = l ! (j - (i + 1))" if "i + 1 \<le> j" for j using that by (simp add: nth_Cons')
    have ok: "check e = EFI_SUCCESS" using False by (simp add: EFI_ERROR_def)
    have "(\<forall>j. i \<le> j \<longrightarrow> j < k \<longrightarrow> check ((e # l) ! (j - i)) = EFI_SUCCESS) \<longleftrightarrow>
        (\<forall>j. i + 1 \<le> j \<longrightarrow> j < k \<longrightarrow> check (l ! (j - (i + 1))) = EFI_SUCCESS)"
    proof (intro iffI allI impI)
      fix j assume h: "\<forall>j. i + 1 \<le> j \<longrightarrow> j < k \<longrightarrow> check (l ! (j - (i + 1))) = EFI_SUCCESS" "i \<le> j" "j < k"
      show "check ((e # l) ! (j - i)) = EFI_SUCCESS"
        using h ok n [of j] by (cases "j = i") auto
    next
      fix j assume h: "\<forall>j. i \<le> j \<longrightarrow> j < k \<longrightarrow> check ((e # l) ! (j - i)) = EFI_SUCCESS" "i + 1 \<le> j" "j < k"
      have "check ((e # l) ! (j - i)) = EFI_SUCCESS" using h(2,3) by (intro h(1) [rule_format]) simp_all
      then show "check (l ! (j - (i + 1))) = EFI_SUCCESS" unfolding n [OF h(2)] .
    qed
    moreover have "k \<noteq> i" if "st = check ((e # l) ! (k - i))" "EFI_ERROR st" using that False by auto
    ultimately show ?thesis using False n [of k] Cons.IH [of "i + 1"] by (cases "i + 1 \<le> k") auto
  qed
qed auto

lemma first_failure_error: "first_failure check i l = Some (k, st) \<Longrightarrow> st \<noteq> EFI_SUCCESS"
  by (auto simp: first_failure_Some EFI_ERROR_def)

lemma spans_entry:
  assumes "spans B L z pre es post" "e \<in> set es"
  obtains x where "unat B \<le> x" "x < unat B + unat L" "unat (GcdBase e) \<le> x" "x \<le> unat (GcdEnd e)" "region_at (pre @ es @ post) x = Some (region e)"
proof -
  have t: "tiles 0 (pre @ es @ post) z" and ne: "es \<noteq> []" using assms by (auto simp: spans_def)
  obtain a c where u: "tiles a es c" using t by (auto simp: tiles_append)
  have L: "1 \<le> unat L" using assms(1) by (simp add: spans_def Suc_le_eq unat_gt_0)
  let ?x = "max (unat B) (unat (GcdBase e))"
  have "es = hd es # tl es" "es = butlast es @ [last es]" using ne by simp_all
  have e1: "unat B \<le> unat (GcdEnd e)"
  proof (cases "e = hd es")
    case False
    then have "e \<in> set (tl es)" using assms(2) by (cases es) auto
    then have "unat B \<le> unat (GcdBase e)" using spans_order(1) [OF assms(1)] by (simp add: word_le_nat_alt)
    then show ?thesis using tiles_end(2) [OF u assms(2)] by simp
  qed (use assms(1) in \<open>simp add: spans_def\<close>)
  have e2: "unat (GcdBase e) < unat B + unat L"
  proof (cases "e = last es")
    case False
    have "tiles a (butlast es @ [last es]) c" using u ne by simp
    then obtain k where k: "tiles a (butlast es) k" "k = unat (GcdBase (last es))" by (auto simp: tiles_append)
    have "set es = set (butlast es @ [last es])" using ne by simp
    then have "e \<in> set (butlast es @ [last es])" using assms(2) by (simp only:)
    then have "e \<in> set (butlast es)" using False by auto
    then have "unat (GcdBase e) < unat (GcdBase (last es))" using tiles_end(2,3) [OF k(1)] k(2) by fastforce
    then show ?thesis using assms(1) by (simp add: spans_def)
  qed (use assms(1) in \<open>simp add: spans_def\<close>)
  have m: "e \<in> set (pre @ es @ post)" using assms(2) by simp
  have "unat (GcdBase e) \<le> ?x" "?x \<le> unat (GcdEnd e)" using e1 tiles_end(2) [OF u assms(2)] by auto
  with region_at_in [OF t m this] show thesis using e2 L by (intro that [of ?x]) auto
qed

lemma spans_address:
  assumes "spans B L z pre es post" "unat B \<le> x" "x < unat B + unat L"
  obtains e where "e \<in> set es" "unat (GcdBase e) \<le> x" "x \<le> unat (GcdEnd e)" "region_at (pre @ es @ post) x = Some (region e)"
proof -
  obtain a c where t: "tiles 0 pre a" "tiles a es c" "tiles c post z" and ne: "es \<noteq> []" using assms(1) by (auto simp: spans_def tiles_append)
  have "a = unat (GcdBase (hd es))" using t(2) ne by (cases es) auto
  then have a: "a \<le> x" using assms(1,2) by (simp add: spans_def)
  have "tiles a (butlast es @ [last es]) c" using t(2) ne by simp
  then have "c = unat (GcdEnd (last es)) + 1" by (auto simp: tiles_append)
  then have c: "x < c" using assms(1,3) by (simp add: spans_def)
  obtain r where r: "region_at es x = Some r" using a c region_at_None [OF t(2), of x] by (cases "region_at es x") auto
  then obtain e where e: "e \<in> set es" "unat (GcdBase e) \<le> x" "x \<le> unat (GcdEnd e)" "r = region e" by (rule region_at_obtains)
  have "region_at (pre @ es @ post) x = Some r" using a c r region_at_append [OF t(1)] region_at_append [OF t(2)] by simp
  then show thesis using e by (intro that [of e]) auto
qed

lemma first_failure_allowed:
  assumes "spans B L z (before_links x Map) (between_links x Map) (after_links x Map)"
    "Map = before_links x Map @ between_links x Map @ after_links x Map" "placeless_check check"
  shows "first_failure check i (between_links x Map) = None \<longleftrightarrow> allowed check B L Map"
proof
  assume "first_failure check i (between_links x Map) = None"
  then have a: "\<forall>e\<in>set (between_links x Map). check e = EFI_SUCCESS" by (simp add: first_failure_None)
  have "passes check Map y" if h: "unat B \<le> y" "y < unat B + unat L" for y
  proof -
    obtain e where "e \<in> set (between_links x Map)"
        "region_at (before_links x Map @ between_links x Map @ after_links x Map) y = Some (region e)"
      by (rule spans_address [OF assms(1) h])
    then have "e \<in> set (between_links x Map)" "region_at Map y = Some (region e)" by (simp_all only: assms(2) [symmetric])
    then show ?thesis using a assms(3) by (simp add: passes_def placeless_check_def)
  qed
  then show "allowed check B L Map" using assms(1) by (simp add: allowed_def spans_def)
next
  assume al: "allowed check B L Map"
  have "check e = EFI_SUCCESS" if h: "e \<in> set (between_links x Map)" for e
  proof -
    obtain y where "unat B \<le> y" "y < unat B + unat L"
        "region_at (before_links x Map @ between_links x Map @ after_links x Map) y = Some (region e)"
      by (rule spans_entry [OF assms(1) h])
    then have "unat B \<le> y" "y < unat B + unat L" "region_at Map y = Some (region e)" by (simp_all only: assms(2) [symmetric])
    then show ?thesis using al assms(3) by (auto simp: allowed_def passes_def placeless_check_def)
  qed
  then show "first_failure check i (between_links x Map) = None" by (simp add: first_failure_None)
qed

section \<open>Changing a range\<close>

text \<open>
  The outcome of a service: with \<open>EFI_SUCCESS\<close> the range was allowed and is changed by \<open>f\<close>, with any other status the map is as before; the map stays
  complete and merged, and the rest of the state, except for that of the environment, is the same.
\<close>

definition outcome ::
  "(gcd_entry \<Rightarrow> efi_status) \<Rightarrow> (gcd_entry \<Rightarrow> gcd_entry) \<Rightarrow> u64 \<Rightarrow> u64 \<Rightarrow> gcd_operation \<Rightarrow> efi_status \<Rightarrow> 'p gcd \<Rightarrow> 'p gcd \<Rightarrow> bool" where
  "outcome check f B L Op Status s s' \<longleftrightarrow>
     (if Status = EFI_SUCCESS then allowed check B L (space_map Op s) \<and> changed f B L (space_map Op s) (space_map Op s')
      else space_map Op s' = space_map Op s) \<and>
     (merged (space_map Op s) \<longrightarrow> merged (space_map Op s')) \<and> other_same Op s s' \<and> space_lock Op s' = space_lock Op s"

abbreviation whole :: "nat \<Rightarrow> gcd_entry list \<Rightarrow> bool" where
  "whole z Map \<equiv> tiles 0 Map z"

lemma outcome_rest [simp]: "outcome check f B L Op Status (s\<lparr>GcdRest := p\<rparr>) s' \<longleftrightarrow> outcome check f B L Op Status s s'"
  by (simp add: outcome_def)

lemma outcome_kept:
  "Status \<noteq> EFI_SUCCESS \<Longrightarrow> space_map Op s' = space_map Op s \<Longrightarrow> other_same Op s s' \<Longrightarrow> space_lock Op s' = space_lock Op s \<Longrightarrow>
   outcome check f B L Op Status s s'"
  by (simp add: outcome_def)

lemma outcome_later:
  assumes "outcome check f B L Op Status s1 s'" "space_map Op s1 = space_map Op s" "other_same Op s s1" "space_lock Op s1 = space_lock Op s"
  shows "outcome check f B L Op Status s s'"
  using assms other_same_trans [OF assms(3), of s'] by (simp add: outcome_def split: if_splits)

lemma locked_outcome:
  assumes "acquire_space Op s = Some s1" "outcome check f B L Op Status s1 s2" "whole z (space_map Op s2)" "release_space Op s2 = Some s'"
  shows "outcome check f B L Op Status s s' \<and> whole z (space_map Op s')"
proof -
  note a = space_acquired [OF assms(1)] and r = released [OF assms(4)]
  have "other_same Op s s2" using assms(2) a(4) other_same_trans by (auto simp: outcome_def)
  then have "other_same Op s s'" using r(4) other_same_trans by blast
  then show ?thesis using a r assms(2,3) by (simp add: outcome_def split: if_splits)
qed

section \<open>The services on a pool\<close>

text \<open>What the pool and the page allocator keep.\<close>

locale gcd_pool =
  fixes env :: "'p gcd_env"
  assumes pool_keeps: "GcdAllocatePool env n s = Some (a, s') \<Longrightarrow> same_spaces s s'"
    and free_keeps: "GcdFreePool env a s = Some s' \<Longrightarrow> same_spaces s s'"
    and descriptors_keep: "AddMemoryDescriptor env B n C s = Some s' \<Longrightarrow> same_spaces s s'"

context gcd_pool
begin

lemma buffers_keep:
  assumes "CoreAllocateGcdMapEntry env s = Some ((Status, t, b), s')"
  shows "same_spaces s s'"
proof -
  obtain a s1 where a: "GcdAllocatePool env SIZE_OF_GCD_MAP_ENTRY s = Some (a, s1)" using assms by (auto simp: CoreAllocateGcdMapEntry_def)
  show ?thesis
  proof (cases "a = 0")
    case True
    then show ?thesis using assms a pool_keeps [OF a] by (simp add: CoreAllocateGcdMapEntry_def)
  next
    case False
    then obtain c s2 where c: "GcdAllocatePool env SIZE_OF_GCD_MAP_ENTRY s1 = Some (c, s2)" using assms a by (auto simp: CoreAllocateGcdMapEntry_def)
    have "same_spaces s s2" by (rule same_spaces_trans [OF pool_keeps [OF a] pool_keeps [OF c]])
    then have "same_spaces s s3" if "GcdFreePool env a s2 = Some s3" for s3 using same_spaces_trans free_keeps [OF that] by blast
    then show ?thesis using assms a c False \<open>same_spaces s s2\<close> by (auto simp: CoreAllocateGcdMapEntry_def split: if_splits)
  qed
qed

lemma merge_keeps:
  assumes "CoreMergeGcdMapEntry env Forward e l s = Some (x, s')"
  shows "same_spaces s s'"
  using assms free_keeps by (auto simp: CoreMergeGcdMapEntry_def same_spaces_refl split: list.splits if_splits)

lemma merge_entries_keeps:
  assumes "merge_entries env before l s = Some (r, s')"
  shows "same_spaces s s'"
  using assms
proof (induction l arbitrary: before s)
  case (Cons e l)
  then obtain x e' before' s1 where m: "CoreMergeGcdMapEntry env False e before s = Some ((x, e', before'), s1)" "merge_entries env (e' # before') l s1 = Some (r, s')"
    by auto
  show ?case by (rule same_spaces_trans [OF merge_keeps [OF m(1)] Cons.IH [OF m(2)]])
qed (simp add: same_spaces_refl)

lemma cleanup_keeps:
  assumes "CoreCleanupGcdMapEntry env Top Bottom pre es post s = Some (Map, s')"
  shows "same_spaces s s'"
proof -
  obtain s1 s2 r s3 where c: "(case Top of None \<Rightarrow> Some s | Some t \<Rightarrow> GcdFreePool env t s) = Some s1"
      "(case Bottom of None \<Rightarrow> Some s1 | Some b \<Rightarrow> GcdFreePool env b s1) = Some s2" "merge_entries env (rev pre) es s2 = Some (r, s3)"
      "(case r of [] \<Rightarrow> None | e # before \<Rightarrow> do { ((_, e, post), s) \<leftarrow> CoreMergeGcdMapEntry env True e post s3; Some (rev before @ e # post, s) })
        = Some (Map, s')"
    using assms by (auto simp: CoreCleanupGcdMapEntry_def)
  have "same_spaces s s1" "same_spaces s1 s2" using c(1,2) free_keeps by (auto simp: same_spaces_refl split: option.splits)
  moreover have "same_spaces s3 s'" using c(4) merge_keeps by (auto split: list.splits)
  ultimately show ?thesis using merge_entries_keeps [OF c(3)] same_spaces_trans by blast
qed

lemma convert_range_keeps:
  assumes "\<exists>Top Bottom pre es post Map s1. CoreCleanupGcdMapEntry env Top Bottom pre es post s = Some (Map, s1) \<and> s' = put_map Op Map s1"
  shows "other_same Op s s' \<and> space_lock Op s' = space_lock Op s"
proof -
  obtain Map s1 where "same_spaces s s1" "s' = put_map Op Map s1" using assms cleanup_keeps by blast
  then show ?thesis by (auto simp: same_spaces_def other_same_def space_lock_def put_map_def)
qed

lemma convert_range_outcome:
  assumes "convert_range env Op f B L x t b s = Some (Status, s')" "placeless f" "placeless_check check"
    and x: "spans B L z (before_links x (space_map Op s)) (between_links x (space_map Op s)) (after_links x (space_map Op s))"
      "space_map Op s = before_links x (space_map Op s) @ between_links x (space_map Op s) @ after_links x (space_map Op s)"
    and m: "first_failure check i (between_links x (space_map Op s)) = None"
  shows "outcome check f B L Op Status s s' \<and> whole z (space_map Op s') \<and> Status = EFI_SUCCESS"
proof -
  note c = convert_range_changes [OF assms(1,2) x]
  have "allowed check B L (space_map Op s)" using m first_failure_allowed [OF x assms(3)] by simp
  moreover have "other_same Op s s'" "space_lock Op s' = space_lock Op s" using convert_range_keeps [OF c(5)] by simp_all
  ultimately show ?thesis using c(1-4) by (simp add: outcome_def)
qed

theorem convert_locked_outcome:
  assumes "convert_locked env Op T IoT B L C A s = Some (Status, s')" "whole z (space_map Op s)" "L \<noteq> 0" "unat B + unat L \<le> 2 ^ 64" "space_lock Op s"
  shows "outcome (check_entry Op A B L) (change_entry Op T IoT C A) B L Op Status s s' \<and> whole z (space_map Op s')"
proof (cases "unat B + unat L \<le> z")
  case True
  let ?ck = "check_entry Op A B L"
  obtain x where x: "CoreSearchGcdMapEntry B L (space_map Op s) = Some (Inr x)"
    "spans B L z (before_links x (space_map Op s)) (between_links x (space_map Op s)) (after_links x (space_map Op s))"
    "space_map Op s = before_links x (space_map Op s) @ between_links x (space_map Op s) @ after_links x (space_map Op s)"
    using SearchGcdMapEntry_spans [OF assms(2-4)] True by auto
  show ?thesis
  proof (cases "first_failure ?ck 0 (between_links x (space_map Op s))")
    case (Some p)
    obtain k st where p: "p = (k, st)" by (cases p)
    then have "st \<noteq> EFI_SUCCESS" using Some first_failure_error by blast
    then show ?thesis using assms(1,2) x(1) Some p by (auto simp: convert_locked_def intro: outcome_kept)
  next
    case None
    obtain St t b s1 where a: "CoreAllocateGcdMapEntry env s = Some ((St, t, b), s1)"
      using assms(1) x(1) None by (auto simp: convert_locked_def)
    note k = same_spaces_locked [OF buffers_keep [OF a] assms(5)]
    show ?thesis
    proof (cases "EFI_ERROR St")
      case True
      then show ?thesis using assms(1,2) x(1) None a k by (auto simp: convert_locked_def intro: outcome_kept)
    next
      case False
      obtain St2 q where q: "(if Op = GCD_SET_ATTRIBUTES_MEMORY_OPERATION then set_attributes env A B L (GcdRest s1) else (EFI_SUCCESS, GcdRest s1)) = (St2, q)"
        by (metis surj_pair)
      show ?thesis
      proof (cases "EFI_ERROR St2")
        case True
        then obtain s2 where s2: "GcdFreePool env t (s1\<lparr>GcdRest := q\<rparr>) = Some s2" "GcdFreePool env b s2 = Some s'" "Status = St2"
          using assms(1) x(1) None a False q by (auto simp: convert_locked_def Let_def)
        have "same_spaces (s1\<lparr>GcdRest := q\<rparr>) s'" by (rule same_spaces_trans [OF free_keeps [OF s2(1)] free_keeps [OF s2(2)]])
        then have "same_spaces s s'" using same_spaces_trans [OF buffers_keep [OF a]] by simp
        note same_spaces_locked [OF this assms(5)]
        then show ?thesis using assms(2) s2(3) True by (auto simp: EFI_ERROR_def intro: outcome_kept)
      next
        case ok: False
        have r: "convert_range env Op (change_entry Op T IoT C A) B L x t b (s1\<lparr>GcdRest := q\<rparr>) = Some (Status, s')"
          using assms(1) x(1) None a False q ok by (simp add: convert_locked_def Let_def)
        have "outcome ?ck (change_entry Op T IoT C A) B L Op Status (s1\<lparr>GcdRest := q\<rparr>) s' \<and> whole z (space_map Op s') \<and> Status = EFI_SUCCESS"
          using x(2,3) None k(1) by (intro convert_range_outcome [OF r, of ?ck z 0]) simp_all
        then show ?thesis using outcome_later [OF _ k(1,3,2)] by auto
      qed
    qed
  qed
next
  case False
  then have "CoreSearchGcdMapEntry B L (space_map Op s) = Some (Inl EFI_NOT_FOUND)" using SearchGcdMapEntry_spans [OF assms(2-4)] by simp
  then show ?thesis using assms(1,2) by (auto simp: convert_locked_def intro: outcome_kept)
qed

theorem ConvertSpace_outcome:
  assumes "CoreConvertSpace env Op T IoT B L C A s = Some (Status, s')" "whole z (space_map Op s)" "unat B + unat L \<le> 2 ^ 64"
  shows "outcome (check_entry Op A B L) (change_entry Op T IoT C A) B L Op Status s s' \<and> whole z (space_map Op s')"
proof (cases "L = 0")
  case True
  then show ?thesis using assms(1,2) by (auto simp: CoreConvertSpace_def intro: outcome_kept)
next
  case False
  then obtain s1 s2 where c: "acquire_space Op s = Some s1" "convert_locked env Op T IoT B L C A s1 = Some (Status, s2)" "release_space Op s2 = Some s'"
    using assms(1) by (auto simp: CoreConvertSpace_def)
  have "whole z (space_map Op s1)" using space_acquired [OF c(1)] assms(2) by simp
  from convert_locked_outcome [OF c(2) this False assms(3) space_acquired(2) [OF c(1)]] show ?thesis using locked_outcome [OF c(1) _ _ c(3)] by blast
qed

end

end
