(* ===== verification/GcdAllocate.thy ===== *)
theory GcdAllocate
  imports GcdServices
begin

text \<open>
  The searches of \<open>CoreAllocateSpace\<close>: what they find is free and aligned, and the search from the bottom finds the lowest place there is.
\<close>

section \<open>Alignment\<close>

lemma alignment_mask: "A < 64 \<Longrightarrow> (push_bit A 1 - 1 :: u64) = mask A"
  by (simp add: mask_eq_exp_minus_1)

lemma align_down:
  fixes x :: u64
  assumes "A < 64"
  shows "unat (x AND NOT (mask A)) = unat x div 2 ^ A * 2 ^ A"
proof -
  have "x AND NOT (mask A) = push_bit A (drop_bit A x)" by (rule bit_word_eqI) (auto simp: bit_simps)
  moreover have "unat (push_bit A (drop_bit A x)) = unat x div 2 ^ A * 2 ^ A"
  proof -
    have x: "unat x < 2 ^ LENGTH(64)" by (rule unsigned_less)
    have "unat (drop_bit A x) = drop_bit A (unat x)" by (rule unat_drop_bit_eq)
    then have d: "unat (drop_bit A x) = unat x div 2 ^ A" by (simp only: drop_bit_eq_div [of A "unat x"])
    have "unat x div 2 ^ A * 2 ^ A \<le> unat x" by simp
    then have "unat x div 2 ^ A * 2 ^ A < 2 ^ LENGTH(64)" using x by (rule order_le_less_trans)
    moreover have "unat (push_bit A (drop_bit A x)) = take_bit LENGTH(64) (unat x div 2 ^ A * 2 ^ A)"
      by (simp only: unsigned_push_bit_eq d push_bit_eq_mult [of A "unat x div 2 ^ A"])
    ultimately show ?thesis by (simp only: take_bit_nat_eq_self)
  qed
  ultimately show ?thesis by simp
qed

lemma unat_mask: "A < 64 \<Longrightarrow> unat (mask A :: u64) = 2 ^ A - 1"
proof -
  assume A: "A < 64"
  have "(mask A :: u64) = take_bit A (- 1)" by (simp only: take_bit_minus_one_eq_mask)
  then have "unat (mask A :: u64) = take_bit A (mask LENGTH(64))" by (simp only: unsigned_take_bit_eq unsigned_minus_1_eq_mask)
  then show ?thesis using A by (simp add: take_bit_of_mask min_def) (simp add: mask_eq_exp_minus_1)
qed

text \<open>The lowest multiple that is not below.\<close>

lemma align_up:
  fixes x :: u64
  assumes "A < 64" "unat x < 2 ^ 63"
  defines "y \<equiv> (x + mask A) AND NOT (mask A)"
  shows "unat x \<le> unat y" "unat y mod 2 ^ A = 0" "unat y \<le> 2 ^ 63" "\<And>n. unat x \<le> n \<Longrightarrow> n mod 2 ^ A = 0 \<Longrightarrow> unat y \<le> n"
proof -
  let ?d = "2 ^ A :: nat"
  have d: "0 < ?d" "?d \<le> 2 ^ 63" using assms(1) by simp_all (simp add: power_increasing [of A 63 "2 :: nat", simplified])
  have "unat x + (?d - 1) < 2 ^ LENGTH(64)" using d assms(2) by simp
  then have s: "unat (x + mask A) = unat x + (?d - 1)" using unat_mask [OF assms(1)] by (simp add: unat_word_ariths)
  have y: "unat y = (unat x + (?d - 1)) div ?d * ?d" unfolding y_def align_down [OF assms(1)] s ..
  have q: "(unat x + (?d - 1)) mod ?d < ?d" using d by simp
  have e: "unat y + (unat x + (?d - 1)) mod ?d = unat x + (?d - 1)" unfolding y by (rule div_mult_mod_eq)
  show x: "unat x \<le> unat y" using e q by linarith
  show m: "unat y mod ?d = 0" unfolding y by simp
  show up: "unat y \<le> n" if n: "unat x \<le> n" "n mod ?d = 0" for n
  proof -
    obtain k where k: "n = ?d * k" using n(2) by (auto simp: mod_eq_0_iff_dvd)
    have "(unat x + (?d - 1)) div ?d \<le> (n + (?d - 1)) div ?d" using n(1) by (intro div_le_mono) simp
    also have "\<dots> = k" unfolding k by (subst add.commute, subst div_mult_self2) (use d in simp_all)
    finally have "(unat x + (?d - 1)) div ?d * ?d \<le> k * ?d" by (rule mult_le_mono1)
    then show ?thesis unfolding y k by (simp add: mult.commute)
  qed
  have "(2 :: nat) ^ 63 mod ?d = 0" using assms(1) by (simp add: mod_eq_0_iff_dvd le_imp_power_dvd [of A 63 "2 :: nat", simplified])
  then show "unat y \<le> 2 ^ 63" using up [of "2 ^ 63"] assms(2) by simp
qed

lemma aligned_mask:
  fixes x :: u64
  assumes "A < 64"
  shows "x AND mask A = 0 \<longleftrightarrow> unat x mod 2 ^ A = 0"
proof -
  have "unat (x AND mask A) = unat x mod 2 ^ A" unfolding take_bit_eq_mask [symmetric] by (simp only: unsigned_take_bit_eq take_bit_eq_mod [of A "unat x"])
  then show ?thesis by (metis unat_eq_zero)
qed

section \<open>Places\<close>

text \<open>The range of length \<open>L\<close> at \<open>x\<close> is aligned, at most \<open>Top\<close>, and each address of it passes the check.\<close>

definition fits :: "(gcd_entry \<Rightarrow> efi_status) \<Rightarrow> nat \<Rightarrow> u64 \<Rightarrow> u64 \<Rightarrow> gcd_entry list \<Rightarrow> nat \<Rightarrow> bool" where
  "fits check A L Top Map x \<longleftrightarrow> x mod 2 ^ A = 0 \<and> x + unat L \<le> unat Top + 1 \<and> (\<forall>y. x \<le> y \<longrightarrow> y < x + unat L \<longrightarrow> passes check Map y)"

lemma passes_bound: "tiles a Map z \<Longrightarrow> passes check Map x \<Longrightarrow> a \<le> x \<and> x < z"
  using region_at_None [of a Map z x] by (auto simp: passes_def)

lemma passes_entry:
  assumes "tiles a Map z" "e \<in> set Map" "unat (GcdBase e) \<le> x" "x \<le> unat (GcdEnd e)" "placeless_check check"
  shows "passes check Map x \<longleftrightarrow> check e = EFI_SUCCESS"
  using region_at_in [OF assms(1-4)] assms(5) by (simp add: passes_def placeless_check_def)

lemma tiles_nth_order:
  assumes "tiles a l z" "i < j" "j < length l"
  shows "unat (GcdEnd (l ! i)) < unat (GcdBase (l ! j))"
  using assms
proof (induction l arbitrary: a i j)
  case (Cons e l)
  then obtain k where j: "j = Suc k" by (cases j) auto
  have t: "tiles (unat (GcdEnd e) + 1) l z" using Cons.prems(1) by simp
  show ?case
  proof (cases i)
    case 0
    have "l ! k \<in> set l" using Cons.prems(3) j by simp
    from tiles_end(1) [OF t this] show ?thesis using 0 j by simp
  next
    case (Suc h)
    then show ?thesis using Cons.IH [OF t, of h k] Cons.prems(2,3) j by simp
  qed
qed simp

lemma tiles_nth_next:
  assumes "tiles a l z" "Suc i < length l"
  shows "unat (GcdBase (l ! Suc i)) = unat (GcdEnd (l ! i)) + 1"
  using assms
proof (induction l arbitrary: a i)
  case (Cons e l)
  have t: "tiles (unat (GcdEnd e) + 1) l z" using Cons.prems(1) by simp
  show ?case
  proof (cases i)
    case 0
    then show ?thesis using t Cons.prems(2) by (cases l) auto
  qed (use Cons.IH [OF t] Cons.prems(2) in auto)
qed simp

lemma tiles_nth_last:
  assumes "tiles a l z" "l \<noteq> []"
  shows "unat (GcdEnd (last l)) + 1 = z"
  using assms by (induction l arbitrary: a) auto

lemma between_nth:
  assumes "spans B L z (before_links x Map) (between_links x Map) (after_links x Map)" "fst x \<le> k" "k < fst x + length (between_links x Map)"
  shows "between_links x Map ! (k - fst x) = Map ! k" "k < length Map" "between_links x Map ! (k - fst x) \<in> set (between_links x Map)"
proof -
  show "between_links x Map ! (k - fst x) = Map ! k" "k < length Map" using assms(2,3) by (auto simp: between_links_def)
  show "between_links x Map ! (k - fst x) \<in> set (between_links x Map)" using assms(2,3) by (intro nth_mem) simp
qed

lemma between_first:
  assumes "spans B L z (before_links x Map) (between_links x Map) (after_links x Map)"
  shows "hd (between_links x Map) = Map ! fst x" "fst x < length Map"
proof -
  have "between_links x Map \<noteq> []" using assms by (simp add: spans_def)
  then have "0 < length (between_links x Map)" by simp
  from between_nth [OF assms, of "fst x"] this show "hd (between_links x Map) = Map ! fst x" "fst x < length Map" by (simp_all add: hd_conv_nth)
qed

text \<open>Where the check fails, no range that starts at \<open>B\<close> or between \<open>B\<close> and the end of the entry passes.\<close>

lemma failing_entry:
  assumes "tiles 0 Map z" "spans B L z (before_links x Map) (between_links x Map) (after_links x Map)"
    "Map = before_links x Map @ between_links x Map @ after_links x Map" "placeless_check check"
    "first_failure check (fst x) (between_links x Map) = Some (k, st)"
  shows "k < length Map" "fst x \<le> k" "check (Map ! k) \<noteq> EFI_SUCCESS" "unat (GcdBase (Map ! k)) < unat B + unat L"
    "fits check A L Top Map y \<Longrightarrow> unat B \<le> y \<Longrightarrow> unat (GcdEnd (Map ! k)) < y"
proof -
  have f: "fst x \<le> k" "k < fst x + length (between_links x Map)" "st = check (between_links x Map ! (k - fst x))" "st \<noteq> EFI_SUCCESS"
    using assms(5) by (auto simp: first_failure_Some EFI_ERROR_def)
  note n = between_nth [OF assms(2) f(1,2)]
  show k: "k < length Map" "fst x \<le> k" by fact+
  show c: "check (Map ! k) \<noteq> EFI_SUCCESS" using f(3,4) n(1) by simp
  obtain w where w: "unat B \<le> w" "w < unat B + unat L" "unat (GcdBase (Map ! k)) \<le> w" "w \<le> unat (GcdEnd (Map ! k))"
    using spans_entry [OF assms(2) n(3)] n(1) by metis
  show "unat (GcdBase (Map ! k)) < unat B + unat L" using w by simp
  assume y: "fits check A L Top Map y" "unat B \<le> y"
  have no: "\<not> passes check Map v" if "unat (GcdBase (Map ! k)) \<le> v" "v \<le> unat (GcdEnd (Map ! k))" for v
    using passes_entry [OF assms(1) _ that assms(4)] k(1) c by simp
  show "unat (GcdEnd (Map ! k)) < y"
  proof (rule ccontr)
    assume "\<not> ?thesis"
    then have "y \<le> unat (GcdEnd (Map ! k))" by simp
    moreover have "0 < unat L" using assms(2) by (simp add: spans_def unat_gt_0)
    ultimately show False
    proof (cases "y \<le> w")
      case True
      then have "passes check Map w" using y w(2) by (simp add: fits_def)
      then show False using no [OF w(3,4)] by simp
    next
      case False
      then have "\<not> passes check Map y" using no [of y] w(3) \<open>y \<le> unat (GcdEnd (Map ! k))\<close> by simp
      moreover have "passes check Map y" using y(1) \<open>0 < unat L\<close> by (simp add: fits_def)
      ultimately show False by simp
    qed
  qed
qed

section \<open>The searches\<close>

definition found :: "(gcd_entry \<Rightarrow> efi_status) \<Rightarrow> nat \<Rightarrow> u64 \<Rightarrow> u64 \<Rightarrow> gcd_entry list \<Rightarrow> nat \<Rightarrow> u64 \<Rightarrow> nat \<times> nat \<Rightarrow> bool" where
  "found check A L Top Map z B x \<longleftrightarrow> fits check A L Top Map (unat B) \<and>
     spans B L z (before_links x Map) (between_links x Map) (after_links x Map) \<and>
     Map = before_links x Map @ between_links x Map @ after_links x Map \<and> first_failure check (fst x) (between_links x Map) = None"

lemma found_fits:
  assumes "spans B L z (before_links x Map) (between_links x Map) (after_links x Map)"
    "Map = before_links x Map @ between_links x Map @ after_links x Map" "first_failure check (fst x) (between_links x Map) = None"
    "placeless_check check" "unat B mod 2 ^ A = 0" "unat B + unat L \<le> unat Top + 1"
  shows "found check A L Top Map z B x"
  using assms first_failure_allowed [OF assms(1,2,4)] by (simp add: found_def fits_def allowed_def)

lemma entry_at_or_after:
  assumes "tiles 0 Map z" "spans B L z (before_links x Map) (between_links x Map) (after_links x Map)" "i < length Map" "unat (GcdBase (Map ! i)) \<le> unat B"
  shows "i \<le> fst x"
proof (rule ccontr)
  assume "\<not> i \<le> fst x"
  then have "unat (GcdEnd (Map ! fst x)) < unat (GcdBase (Map ! i))" using tiles_nth_order [OF assms(1)] assms(3) by simp
  moreover have "unat B \<le> unat (GcdEnd (Map ! fst x))" using assms(2) between_first [OF assms(2)] by (simp add: spans_def)
  ultimately show False using assms(4) by simp
qed

theorem search_up_lowest:
  assumes "whole z Map" "z \<le> 2 ^ 63" "L \<noteq> 0" "unat L \<le> 2 ^ 63" "A < 64" "placeless_check check"
    "\<And>y. fits check A L Top Map y \<Longrightarrow> i < length Map \<and> unat (GcdBase (Map ! i)) \<le> y"
  shows "\<exists>Status B' x. search_up check (mask A) L Top Map i B = Some (Status, B', x) \<and>
    (if Status = EFI_SUCCESS then found check A L Top Map z B' x \<and> (\<forall>y. fits check A L Top Map y \<longrightarrow> unat B' \<le> y)
     else Status = EFI_NOT_FOUND \<and> (\<forall>y. \<not> fits check A L Top Map y))"
  using assms(7)
proof (induction "length Map - i" arbitrary: i B rule: less_induct)
  case less
  have t: "tiles 0 Map z" using assms(1) by simp
  have L0: "0 < unat L" using assms(3) by (simp add: unat_gt_0)
  have pb: "y + unat L \<le> z" if "fits check A L Top Map y" for y
    using that passes_bound [OF t, of check "y + unat L - 1"] L0 unfolding fits_def by fastforce
  show ?case
  proof (cases "i < length Map")
    case False
    then show ?thesis using less.prems by (subst search_up.simps) auto
  next
    case i: True
    let ?e = "Map ! i"
    have e: "?e \<in> set Map" using i by simp
    show ?thesis
    proof (cases "check ?e = EFI_SUCCESS")
      case False
      have "\<exists>Status B' x. search_up check (mask A) L Top Map (i + 1) B = Some (Status, B', x) \<and>
          (if Status = EFI_SUCCESS then found check A L Top Map z B' x \<and> (\<forall>y. fits check A L Top Map y \<longrightarrow> unat B' \<le> y)
           else Status = EFI_NOT_FOUND \<and> (\<forall>y. \<not> fits check A L Top Map y))"
      proof (rule less.hyps)
        show "length Map - (i + 1) < length Map - i" using i by simp
        fix y assume y: "fits check A L Top Map y"
        have "unat (GcdBase ?e) \<le> y" using less.prems [OF y] by simp
        moreover have "passes check Map y" using y L0 by (simp add: fits_def)
        ultimately have gt: "unat (GcdEnd ?e) < y" using passes_entry [OF t e _ _ assms(6), of y] False by (meson not_le)
        have yz: "y < z" using pb [OF y] L0 by simp
        show "i + 1 < length Map \<and> unat (GcdBase (Map ! (i + 1))) \<le> y"
        proof (cases "i + 1 < length Map")
          case True
          then show ?thesis using tiles_nth_next [OF t, of i] gt by simp
        next
          case False
          then have "?e = last Map" using i by (metis Suc_eq_plus1 Suc_lessI diff_Suc_1 last_conv_nth length_0_conv less_nat_zero_code)
          then show ?thesis using tiles_nth_last [OF t] gt yz i by (metis Suc_eq_plus1 length_0_conv less_nat_zero_code not_less_eq)
        qed
      qed
      then show ?thesis using False i by (subst search_up.simps) (simp add: EFI_ERROR_def)
    next
      case ok: True
      define c where "c = (GcdBase ?e + mask A) AND NOT (mask A)"
      have "unat (GcdBase ?e) < 2 ^ 63" using tiles_end [OF t e] assms(2) by linarith
      note up = align_up [OF assms(5) this, folded c_def]
      have low: "unat c \<le> y" if "fits check A L Top Map y" for y using up(4) less.prems [OF that] that by (simp add: fits_def)
      have nw: "unat c + unat L \<le> 2 ^ 64" using up(3) assms(4) by simp
      have E: "unat (c + L - 1) = unat c + unat L - 1" by (rule range_last [OF assms(3) nw])
      show ?thesis
      proof (cases "c + L - 1 > Top")
        case True
        then have "unat Top + 1 < unat c + unat L" using E L0 by (simp add: word_less_nat_alt)
        then have "\<not> fits check A L Top Map y" for y using low unfolding fits_def by fastforce
        then show ?thesis using True ok i by (subst search_up.simps) (simp add: Let_def c_def)
      next
        case False
        then have mx: "unat c + unat L \<le> unat Top + 1" using E L0 by (simp add: word_less_nat_alt)
        note s = SearchGcdMapEntry_spans [OF t assms(3) nw]
        show ?thesis
        proof (cases "unat c + unat L \<le> z")
          case out: False
          then have n: "\<not> fits check A L Top Map y" for y using low pb by fastforce
          have "CoreSearchGcdMapEntry c L Map = Some (Inl EFI_NOT_FOUND)" using s out by simp
          then show ?thesis using n False ok i by (subst search_up.simps) (simp add: Let_def c_def [symmetric])
        next
          case True
          then obtain x where x: "CoreSearchGcdMapEntry c L Map = Some (Inr x)"
            "spans c L z (before_links x Map) (between_links x Map) (after_links x Map)"
            "Map = before_links x Map @ between_links x Map @ after_links x Map"
            using s by auto
          show ?thesis
          proof (cases "first_failure check (fst x) (between_links x Map)")
            case None
            have "found check A L Top Map z c x" by (rule found_fits [OF x(2,3) None assms(6) up(2) mx])
            then show ?thesis using None low False ok i x(1) by (subst search_up.simps) (simp add: Let_def c_def [symmetric])
          next
            case (Some p)
            then obtain k st where p: "first_failure check (fst x) (between_links x Map) = Some (k, st)" by (cases p) auto
            note fl = failing_entry [OF t x(2,3) assms(6) p]
            have "i \<le> fst x" using entry_at_or_after [OF t x(2) i] up(1) by simp
            moreover have "k \<noteq> i" using fl(3) ok by auto
            ultimately have ik: "i < k" using fl(2) by simp
            have "\<exists>Status B' x. search_up check (mask A) L Top Map k c = Some (Status, B', x) \<and>
                (if Status = EFI_SUCCESS then found check A L Top Map z B' x \<and> (\<forall>y. fits check A L Top Map y \<longrightarrow> unat B' \<le> y)
                 else Status = EFI_NOT_FOUND \<and> (\<forall>y. \<not> fits check A L Top Map y))"
            proof (rule less.hyps)
              show "length Map - k < length Map - i" using ik fl(1) by simp
              fix y assume y: "fits check A L Top Map y"
              have "Map ! k \<in> set Map" using fl(1) by simp
              then have "unat (GcdBase (Map ! k)) \<le> unat (GcdEnd (Map ! k))" using tiles_end(2) [OF t] by blast
              then show "k < length Map \<and> unat (GcdBase (Map ! k)) \<le> y" using fl(1) fl(5) [OF y low [OF y]] by simp
            qed
            then show ?thesis using p False ok i x(1) by (subst search_up.simps) (simp add: Let_def c_def [symmetric])
          qed
        qed
      qed
    qed
  qed
qed

text \<open>Downward a place is found that fits; there may be higher ones, and when none is found there may be some.\<close>

theorem search_down_fits:
  assumes "whole z Map" "z \<le> 2 ^ 63" "L \<noteq> 0" "unat L \<le> 2 ^ 63" "A < 64" "placeless_check check" "i \<le> length Map"
  shows "\<exists>Status B' x. search_down check (mask A) L Top Map i B = Some (Status, B', x) \<and>
    (if Status = EFI_SUCCESS then found check A L Top Map z B' x else Status = EFI_NOT_FOUND)"
  using assms(7)
proof (induction i arbitrary: B rule: less_induct)
  case (less i)
  have t: "tiles 0 Map z" using assms(1) by simp
  have L0: "0 < unat L" using assms(3) by (simp add: unat_gt_0)
  show ?case
  proof (cases "i = 0")
    case True
    then show ?thesis by (subst search_down.simps) simp
  next
    case i: False
    let ?e = "Map ! (i - 1)"
    have e: "?e \<in> set Map" "i - 1 < length Map" using i less.prems by auto
    note te = tiles_end [OF t e(1)]
    show ?thesis
    proof (cases "EFI_ERROR (check ?e) \<or> GcdBase ?e + L > Top")
      case True
      then show ?thesis using less.IH [of "i - 1" B] less.prems i by (subst search_down.simps) simp
    next
      case n: False
      show ?thesis
      proof (cases "L > GcdEnd ?e + 1")
        case True
        then show ?thesis using n i by (subst search_down.simps) simp
      next
        case False
        define m where "m = (if GcdEnd ?e > Top then Top else GcdEnd ?e)"
        define c where "c = (m + 1 - L) AND NOT (mask A)"
        have ee: "unat (GcdEnd ?e) < 2 ^ 63" using te assms(2) by linarith
        have e1: "unat (GcdEnd ?e + 1) = unat (GcdEnd ?e) + 1" using ee by (simp add: unat_word_ariths)
        have b1: "unat (GcdBase ?e + L) = unat (GcdBase ?e) + unat L" using te ee assms(4) by (simp add: unat_word_ariths)
        have le: "unat (GcdBase ?e) + unat L \<le> unat Top" "unat L \<le> unat (GcdEnd ?e) + 1"
          using n False b1 e1 by (simp_all add: word_less_nat_alt)
        have m: "unat m \<le> unat (GcdEnd ?e)" "unat m \<le> unat Top" "unat L \<le> unat m + 1"
          using le by (auto simp: m_def word_less_nat_alt)
        have m1: "unat (m + 1) = unat m + 1" using m(1) ee by (simp add: unat_word_ariths)
        have "L \<le> m + 1" using m(3) m1 by (simp add: word_le_nat_alt)
        then have ml: "unat (m + 1 - L) = unat m + 1 - unat L" using m1 by (simp add: unat_sub)
        have c: "unat c = (unat m + 1 - unat L) div 2 ^ A * 2 ^ A" unfolding c_def align_down [OF assms(5)] ml ..
        have cl: "unat c \<le> unat m + 1 - unat L" unfolding c by simp
        have nw: "unat c + unat L \<le> 2 ^ 64" "unat c + unat L \<le> z" "unat c + unat L \<le> unat Top + 1"
          using cl m te ee by simp_all
        have al: "unat c mod 2 ^ A = 0" unfolding c by simp
        from SearchGcdMapEntry_spans [OF t assms(3) nw(1)] nw(2) obtain x where x: "CoreSearchGcdMapEntry c L Map = Some (Inr x)"
          "spans c L z (before_links x Map) (between_links x Map) (after_links x Map)"
          "Map = before_links x Map @ between_links x Map @ after_links x Map"
          by auto
        have step: "search_down check (mask A) L Top Map i B =
            (case first_failure check (fst x) (between_links x Map) of
               None \<Rightarrow> Some (EFI_SUCCESS, c, x) | Some (k, _) \<Rightarrow> search_down check (mask A) L Top Map (k + 1) c)"
          using n False i x(1) unfolding c_def m_def
          by (subst search_down.simps) (simp add: Let_def del: One_nat_def split del: if_split)
        show ?thesis
        proof (cases "first_failure check (fst x) (between_links x Map)")
          case None
          have "found check A L Top Map z c x" by (rule found_fits [OF x(2,3) None assms(6) al nw(3)])
          then show ?thesis using None by (simp add: step)
        next
          case (Some p)
          then obtain k st where p: "first_failure check (fst x) (between_links x Map) = Some (k, st)" by (cases p) auto
          note fl = failing_entry [OF t x(2,3) assms(6) p]
          have "k < i - 1"
          proof (rule ccontr)
            assume "\<not> k < i - 1"
            moreover have "check (Map ! k) \<noteq> check ?e" using fl(3) n by (auto simp: EFI_ERROR_def)
            then have "k \<noteq> i - 1" by auto
            ultimately have "unat (GcdEnd ?e) < unat (GcdBase (Map ! k))" using tiles_nth_order [OF t, of "i - 1" k] fl(1) by simp
            then show False using fl(4) cl m by simp
          qed
          then show ?thesis using less.IH [of "k + 1" c] less.prems p by (simp add: step)
        qed
      qed
    qed
  qed
qed

section \<open>Allocating\<close>

text \<open>Requests that the theorems are about: nothing wraps.\<close>

definition no_wrap :: "gcd_allocate_type \<Rightarrow> u64 \<Rightarrow> u64 \<Rightarrow> bool" where
  "no_wrap Type B L \<longleftrightarrow> (if Type = EfiGcdAllocateAddress then unat B + unat L \<le> 2 ^ 64 else unat L \<le> 2 ^ 63)"

definition highest_address :: "gcd_allocate_type \<Rightarrow> gcd_entry list \<Rightarrow> u64 \<Rightarrow> u64" where
  "highest_address Type Map B =
     (if Type = EfiGcdAllocateAddress then - 1
      else if Type = EfiGcdAllocateMaxAddressSearchBottomUp \<or> Type = EfiGcdAllocateMaxAddressSearchTopDown then B else GcdEnd (last Map))"

definition bottom_up :: "gcd_allocate_type \<Rightarrow> bool" where
  "bottom_up Type \<longleftrightarrow> Type = EfiGcdAllocateAnySearchBottomUp \<or> Type = EfiGcdAllocateMaxAddressSearchBottomUp"

text \<open>What is found: the place that is asked for, the lowest, or any.\<close>

definition place_ok :: "gcd_allocate_type \<Rightarrow> (gcd_entry \<Rightarrow> efi_status) \<Rightarrow> nat \<Rightarrow> u64 \<Rightarrow> gcd_entry list \<Rightarrow> u64 \<Rightarrow> u64 \<Rightarrow> bool" where
  "place_ok Type check A L Map B B' \<longleftrightarrow> fits check A L (highest_address Type Map B) Map (unat B') \<and>
     (Type = EfiGcdAllocateAddress \<longrightarrow> B' = B) \<and>
     (bottom_up Type \<longrightarrow> (\<forall>y. fits check A L (highest_address Type Map B) Map y \<longrightarrow> unat B' \<le> y))"

lemma unat_minus_one_word: "unat (- 1 :: u64) = 2 ^ 64 - 1"
  by (simp add: unsigned_minus_1_eq_mask mask_eq_exp_minus_1)

theorem find_space_finds:
  assumes "whole z Map" "z \<le> 2 ^ 63" "0 < z" "L \<noteq> 0" "A < 64" "placeless_check check" "no_wrap Type B L"
  shows "\<exists>Status B' x. find_space Type check A L Map B = Some (Status, B', x) \<and>
    (if Status = EFI_SUCCESS then found check A L (highest_address Type Map B) Map z B' x \<and> place_ok Type check A L Map B B'
     else (Type = EfiGcdAllocateAddress \<longrightarrow> \<not> fits check A L (highest_address Type Map B) Map (unat B)) \<and>
       (bottom_up Type \<longrightarrow> (\<forall>y. \<not> fits check A L (highest_address Type Map B) Map y)))"
proof -
  have t: "tiles 0 Map z" using assms(1) by simp
  have ne: "Map \<noteq> []" using t assms(3) by auto
  note am = alignment_mask [OF assms(5)]
  have L0: "0 < unat L" using assms(4) by (simp add: unat_gt_0)
  show ?thesis
  proof (cases "Type = EfiGcdAllocateAddress")
    case True
    have nw: "unat B + unat L \<le> 2 ^ 64" using assms(7) True by (simp add: no_wrap_def)
    have h: "unat (highest_address Type Map B) + 1 = 2 ^ 64" using True by (simp add: highest_address_def unat_minus_one_word)
    note s = SearchGcdMapEntry_spans [OF t assms(4) nw]
    show ?thesis
    proof (cases "B AND mask A = 0 \<and> unat B + unat L \<le> z")
      case ok: True
      then obtain x where x: "CoreSearchGcdMapEntry B L Map = Some (Inr x)"
          "spans B L z (before_links x Map) (between_links x Map) (after_links x Map)"
          "Map = before_links x Map @ between_links x Map @ after_links x Map"
        using s by auto
      have al: "unat B mod 2 ^ A = 0" using ok aligned_mask [OF assms(5)] by simp
      show ?thesis
      proof (cases "first_failure check 0 (between_links x Map)")
        case None
        then have n: "first_failure check (fst x) (between_links x Map) = None" by (simp add: first_failure_None)
        have "found check A L (highest_address Type Map B) Map z B x" using nw h by (intro found_fits [OF x(2,3) n assms(6) al]) simp
        then show ?thesis using True ok None x(1) am
          by (simp add: find_space_def place_ok_def found_def bottom_up_def del: One_nat_def)
      next
        case (Some p)
        then obtain k st where p: "first_failure check 0 (between_links x Map) = Some (k, st)" by (cases p) auto
        have "\<not> allowed check B L Map" using first_failure_allowed [OF x(2,3) assms(6), of 0] p by simp
        then have "\<not> fits check A L (highest_address Type Map B) Map (unat B)" using assms(4) by (auto simp: fits_def allowed_def)
        then show ?thesis using True ok p x(1) am first_failure_error [OF p] by (simp add: find_space_def bottom_up_def)
      qed
    next
      case no: False
      have "\<not> fits check A L (highest_address Type Map B) Map (unat B)"
      proof
        assume f: "fits check A L (highest_address Type Map B) Map (unat B)"
        then have "passes check Map (unat B + unat L - 1)" using L0 by (simp add: fits_def)
        then have "unat B + unat L \<le> z" using passes_bound [OF t] L0 by fastforce
        then show False using f no aligned_mask [OF assms(5)] by (simp add: fits_def)
      qed
      then show ?thesis using True no s am by (auto simp: find_space_def bottom_up_def)
    qed
  next
    case n: False
    have L: "unat L \<le> 2 ^ 63" using n assms(7) by (simp add: no_wrap_def)
    have h: "highest_address Type Map B =
        (if Type = EfiGcdAllocateMaxAddressSearchBottomUp \<or> Type = EfiGcdAllocateMaxAddressSearchTopDown then B else GcdEnd (last Map))"
      using n by (simp add: highest_address_def)
    show ?thesis
    proof (cases "bottom_up Type")
      case True
      have f: "find_space Type check A L Map B = search_up check (mask A) L (highest_address Type Map B) Map 0 B"
        using n ne True am h by (auto simp: find_space_def bottom_up_def Let_def)
      have start: "0 < length Map \<and> unat (GcdBase (Map ! 0)) \<le> y" for y using t ne by (cases Map) auto
      show ?thesis
        using search_up_lowest [OF assms(1,2,4) L assms(5,6), of "highest_address Type Map B" 0 B] start n True
        unfolding f place_ok_def by (fastforce simp: found_def)
    next
      case False
      have f: "find_space Type check A L Map B = search_down check (mask A) L (highest_address Type Map B) Map (length Map) B"
        using n ne False am h by (cases Type) (auto simp: find_space_def bottom_up_def Let_def)
      show ?thesis
        using search_down_fits [OF assms(1,2,4) L assms(5,6), of "length Map" "highest_address Type Map B" B] n False
        unfolding f place_ok_def by (fastforce simp: found_def)
    qed
  qed
qed

context gcd_pool
begin

theorem AllocateSpace_outcome:
  assumes "CoreAllocateSpace env Op (Some Type) (Some T) (Some IoT) Alignment L (Some B) Owner Dev s = Some ((Status, Out), s')"
    "whole z (space_map Op s)" "z \<le> 2 ^ 63" "0 < z" "no_wrap Type B L"
  defines "check \<equiv> \<lambda>e. CoreAllocateSpaceCheckEntry Op e T IoT"
  shows "\<exists>B'. Out = Some B' \<and> outcome check (\<lambda>e. e\<lparr>ImageHandle := Owner, DeviceHandle := Dev\<rparr>) B' L Op Status s s' \<and>
     whole z (space_map Op s') \<and> (Status = EFI_SUCCESS \<longrightarrow> Owner \<noteq> 0 \<and> place_ok Type check (unat Alignment) L (space_map Op s) B B')"
proof (cases "Owner = 0 \<or> Alignment \<ge> 64 \<or> L = 0")
  case True
  then have "Status \<noteq> EFI_SUCCESS \<and> Out = Some B \<and> s' = s" using assms(1) by (auto simp: CoreAllocateSpace_def split: if_splits)
  then show ?thesis using assms(2) by (auto intro: outcome_kept)
next
  case False
  then have A: "unat Alignment < 64" by (simp add: word_le_nat_alt)
  obtain s1 St B' x s2 where c: "acquire_space Op s = Some s1" "find_space Type check (unat Alignment) L (space_map Op s1) B = Some (St, B', x)"
      "(if EFI_ERROR St then Some (St, s1)
        else do {
          ((St, t, b), s1) \<leftarrow> CoreAllocateGcdMapEntry env s1;
          if EFI_ERROR St then Some (EFI_OUT_OF_RESOURCES, s1)
          else convert_range env Op (\<lambda>e. e\<lparr>ImageHandle := Owner, DeviceHandle := Dev\<rparr>) B' L x t b s1
        }) = Some (Status, s2)" "release_space Op s2 = Some s'" "Out = Some B'"
    using assms(1) False unfolding CoreAllocateSpace_def check_def by auto
  note ac = space_acquired [OF c(1)]
  have w: "whole z (space_map Op s1)" using assms(2) ac by simp
  have ck: "placeless_check check" by (simp add: check_def)
  have "outcome check (\<lambda>e. e\<lparr>ImageHandle := Owner, DeviceHandle := Dev\<rparr>) B' L Op Status s1 s2 \<and> whole z (space_map Op s2) \<and>
      (Status = EFI_SUCCESS \<longrightarrow> place_ok Type check (unat Alignment) L (space_map Op s1) B B')"
  proof (cases "EFI_ERROR St")
    case True
    then show ?thesis using c(3) w by (auto simp: EFI_ERROR_def intro: outcome_kept)
  next
    case ok: False
    obtain St2 t b s3 where a: "CoreAllocateGcdMapEntry env s1 = Some ((St2, t, b), s3)" using c(3) ok by auto
    note k = same_spaces_locked [OF buffers_keep [OF a] ac(2)]
    show ?thesis
    proof (cases "EFI_ERROR St2")
      case True
      then show ?thesis using c(3) ok a w k by (auto intro: outcome_kept)
    next
      case ok2: False
      have r: "convert_range env Op (\<lambda>e. e\<lparr>ImageHandle := Owner, DeviceHandle := Dev\<rparr>) B' L x t b s3 = Some (Status, s2)"
        using c(3) ok a ok2 by simp
      have f: "found check (unat Alignment) L (highest_address Type (space_map Op s1) B) (space_map Op s1) z B' x"
          "place_ok Type check (unat Alignment) L (space_map Op s1) B B'"
        using find_space_finds [OF w assms(3,4) _ A ck assms(5)] False c(2) ok by (auto simp: EFI_ERROR_def)
      have "outcome check (\<lambda>e. e\<lparr>ImageHandle := Owner, DeviceHandle := Dev\<rparr>) B' L Op Status s3 s2 \<and> whole z (space_map Op s2) \<and>
          Status = EFI_SUCCESS"
        using f(1) w k(1) by (intro convert_range_outcome [OF r _ ck, of z "fst x"]) (simp_all add: found_def)
      then show ?thesis using f(2) outcome_later [OF _ k(1,3,2)] by auto
    qed
  qed
  then have o: "outcome check (\<lambda>e. e\<lparr>ImageHandle := Owner, DeviceHandle := Dev\<rparr>) B' L Op Status s1 s2" "whole z (space_map Op s2)"
      "Status = EFI_SUCCESS \<longrightarrow> place_ok Type check (unat Alignment) L (space_map Op s1) B B'" by blast+
  show ?thesis using locked_outcome [OF c(1) o(1,2) c(4)] o(3) ac(3) c(5) False by auto
qed

end

end
