(* ===== verification/GcdSpec.thy ===== *)
theory GcdSpec
  imports GcdAllocate
begin

text \<open>
  What the services of the global coherency domain promise to their callers: the maps stay complete whatever is called, a search that fails from the
  bottom finds nothing because nothing is there, and freeing or removing a range gives back the map that was there before.
\<close>

section \<open>All services\<close>

datatype gcd_call =
    AddMemory "gcd_memory_type option" u64 u64 u64
  | AllocateMemory "gcd_allocate_type option" "gcd_memory_type option" u64 u64 "u64 option" nat nat
  | FreeMemory u64 u64
  | RemoveMemory u64 u64
  | SetAttributes u64 u64 u64
  | GetDescriptor u64 bool
  | GetMap bool bool
  | AddIo "gcd_io_type option" u64 u64
  | AllocateIo "gcd_allocate_type option" "gcd_io_type option" u64 u64 "u64 option" nat nat
  | FreeIo u64 u64
  | RemoveIo u64 u64
  | GetIoDescriptor u64 bool
  | GetIoMap bool bool

fun gcd_service :: "'p gcd_env \<Rightarrow> gcd_call \<Rightarrow> 'p gcd \<Rightarrow> 'p gcd option" where
  "gcd_service env (AddMemory T B L C) s = map_option snd (CoreAddMemorySpace env T B L C s)"
| "gcd_service env (AllocateMemory Type T A L B Owner Dev) s = map_option snd (CoreAllocateMemorySpace env Type T A L B Owner Dev s)"
| "gcd_service env (FreeMemory B L) s = map_option snd (CoreFreeMemorySpace env B L s)"
| "gcd_service env (RemoveMemory B L) s = map_option snd (CoreRemoveMemorySpace env B L s)"
| "gcd_service env (SetAttributes B L A) s = map_option snd (CoreSetMemorySpaceAttributes env B L A s)"
| "gcd_service env (GetDescriptor B Out) s = map_option snd (CoreGetMemorySpaceDescriptor B Out s)"
| "gcd_service env (GetMap N M) s = map_option snd (CoreGetMemorySpaceMap env N M s)"
| "gcd_service env (AddIo T B L) s = map_option snd (CoreAddIoSpace env T B L s)"
| "gcd_service env (AllocateIo Type T A L B Owner Dev) s = map_option snd (CoreAllocateIoSpace env Type T A L B Owner Dev s)"
| "gcd_service env (FreeIo B L) s = map_option snd (CoreFreeIoSpace env B L s)"
| "gcd_service env (RemoveIo B L) s = map_option snd (CoreRemoveIoSpace env B L s)"
| "gcd_service env (GetIoDescriptor B Out) s = map_option snd (CoreGetIoSpaceDescriptor B Out s)"
| "gcd_service env (GetIoMap N M) s = map_option snd (CoreGetIoSpaceMap env N M s)"

fun gcd_services :: "'p gcd_env \<Rightarrow> gcd_call list \<Rightarrow> 'p gcd \<Rightarrow> 'p gcd option" where
  "gcd_services env [] s = Some s"
| "gcd_services env (c # l) s = do { s \<leftarrow> gcd_service env c s; gcd_services env l s }"

text \<open>Calls whose range does not wrap around the end of the address space.\<close>

fun allocate_unwrapped :: "gcd_allocate_type option \<Rightarrow> u64 option \<Rightarrow> u64 \<Rightarrow> bool" where
  "allocate_unwrapped (Some Type) (Some B) L \<longleftrightarrow> no_wrap Type B L"
| "allocate_unwrapped _ _ L \<longleftrightarrow> True"

fun unwrapped :: "gcd_call \<Rightarrow> bool" where
  "unwrapped (AddMemory T B L C) \<longleftrightarrow> unat B + unat L \<le> 2 ^ 64"
| "unwrapped (AllocateMemory Type T A L B Owner Dev) \<longleftrightarrow> allocate_unwrapped Type B L"
| "unwrapped (FreeMemory B L) \<longleftrightarrow> unat B + unat L \<le> 2 ^ 64"
| "unwrapped (RemoveMemory B L) \<longleftrightarrow> unat B + unat L \<le> 2 ^ 64"
| "unwrapped (SetAttributes B L A) \<longleftrightarrow> unat B + unat L \<le> 2 ^ 64"
| "unwrapped (AddIo T B L) \<longleftrightarrow> unat B + unat L \<le> 2 ^ 64"
| "unwrapped (AllocateIo Type T A L B Owner Dev) \<longleftrightarrow> allocate_unwrapped Type B L"
| "unwrapped (FreeIo B L) \<longleftrightarrow> unat B + unat L \<le> 2 ^ 64"
| "unwrapped (RemoveIo B L) \<longleftrightarrow> unat B + unat L \<le> 2 ^ 64"
| "unwrapped _ \<longleftrightarrow> True"

text \<open>The spaces have \<open>zm\<close> and \<open>zi\<close> addresses.\<close>

definition gcd_ok :: "nat \<Rightarrow> nat \<Rightarrow> 'p gcd \<Rightarrow> bool" where
  "gcd_ok zm zi s \<longleftrightarrow> whole zm (MemorySpaceMap s) \<and> whole zi (IoSpaceMap s) \<and> 0 < zm \<and> zm \<le> 2 ^ 63 \<and> 0 < zi \<and> zi \<le> 2 ^ 63"

definition space_end :: "gcd_operation \<Rightarrow> nat \<Rightarrow> nat \<Rightarrow> nat" where
  "space_end Op zm zi = (if memory_operation Op then zm else zi)"

lemma gcd_ok_space:
  assumes "gcd_ok zm zi s"
  shows "whole (space_end Op zm zi) (space_map Op s)" "0 < space_end Op zm zi" "space_end Op zm zi \<le> 2 ^ 63"
  using assms by (simp_all add: gcd_ok_def space_end_def space_map_def)

lemma gcd_ok_other:
  assumes "gcd_ok zm zi s" "whole (space_end Op zm zi) (space_map Op s')" "other_same Op s s'"
  shows "gcd_ok zm zi s'"
  using assms tiles_places [of "MemorySpaceMap s'" "MemorySpaceMap s" 0 zm]
  by (auto simp: gcd_ok_def space_end_def space_map_def other_same_def split: if_splits)

lemma gcd_ok_same: "gcd_ok zm zi s \<Longrightarrow> same_spaces s s' \<Longrightarrow> gcd_ok zm zi s'"
  using tiles_places [of "MemorySpaceMap s'" "MemorySpaceMap s" 0 zm] by (auto simp: gcd_ok_def same_spaces_def)

lemma gcd_ok_lock:
  assumes "gcd_ok zm zi s"
  shows "acquire_space Op s = Some s' \<Longrightarrow> gcd_ok zm zi s'" "release_space Op s = Some s' \<Longrightarrow> gcd_ok zm zi s'"
  using assms by (auto simp: gcd_ok_def acquire_space_def release_space_def split: if_splits)

lemma locked_keep:
  assumes "acquire_space Op s = Some s1" "s2 = s1 \<or> same_spaces s1 s2" "release_space Op s2 = Some s'" "gcd_ok zm zi s"
  shows "gcd_ok zm zi s'"
  using gcd_ok_lock [OF assms(4)] assms gcd_ok_same gcd_ok_lock(2) by metis

context gcd_pool
begin

lemma ConvertSpace_ok:
  assumes "CoreConvertSpace env Op T IoT B L C A s = Some (Status, s')" "gcd_ok zm zi s" "unat B + unat L \<le> 2 ^ 64"
  shows "gcd_ok zm zi s'"
  using ConvertSpace_outcome [OF assms(1) gcd_ok_space(1) [OF assms(2)] assms(3)] gcd_ok_other [OF assms(2)] by (auto simp: outcome_def)

lemma AllocateSpace_ok:
  assumes "CoreAllocateSpace env Op Type T IoT A L B Owner Dev s = Some (r, s')" "gcd_ok zm zi s" "allocate_unwrapped Type B L"
  shows "gcd_ok zm zi s'"
proof (cases "Type = None \<or> T = None \<or> IoT = None \<or> B = None")
  case True
  then have "s' = s" using assms(1) by (auto simp: CoreAllocateSpace_def split: option.splits)
  then show ?thesis using assms(2) by simp
next
  case False
  then obtain Type' T' IoT' B' where o: "Type = Some Type'" "T = Some T'" "IoT = Some IoT'" "B = Some B'" by auto
  obtain Status Out where r: "r = (Status, Out)" by (cases r)
  from AllocateSpace_outcome [OF assms(1) [unfolded o r] gcd_ok_space(1) [OF assms(2)] gcd_ok_space(3,2) [OF assms(2)]] assms(3) o
  show ?thesis using gcd_ok_other [OF assms(2)] by (auto simp: outcome_def)
qed

lemma add_pages_ok:
  assumes "add_pages env C n B Status s = Some (r, s')" "gcd_ok zm zi s" "unat B + n * 4096 \<le> 2 ^ 63"
  shows "gcd_ok zm zi s'"
  using assms
proof (induction n arbitrary: B Status s)
  case (Suc n)
  obtain St Out s1 s2 where c: "CoreAllocateMemorySpace env (Some EfiGcdAllocateAddress) (Some EfiGcdMemoryTypeSystemMemory) 12 EFI_PAGE_SIZE (Some B)
        (CoreImageHandle env) 0 s = Some ((St, Out), s1)"
      "(if EFI_ERROR St then Some s1 else AddMemoryDescriptor env B 1 C s1) = Some s2" "add_pages env C n (B + EFI_PAGE_SIZE) St s2 = Some (r, s')"
    using Suc.prems(1) by auto
  have s1: "gcd_ok zm zi s1" using Suc.prems(3) by (intro AllocateSpace_ok [OF c(1) [unfolded CoreAllocateMemorySpace_def] Suc.prems(2)]) (simp add: no_wrap_def)
  have ok: "gcd_ok zm zi s2" using c(2) s1 gcd_ok_same [OF s1 descriptors_keep] by (auto split: if_splits)
  have "unat (B + EFI_PAGE_SIZE) = unat B + 4096" using Suc.prems(3) by (simp add: unat_word_ariths)
  then show ?case using Suc.prems(3) by (intro Suc.IH [OF c(3) ok]) simp
qed simp

lemma AddMemorySpace_ok:
  assumes "CoreAddMemorySpace env T B L C s = Some (r, s')" "gcd_ok zm zi s" "unat B + unat L \<le> 2 ^ 64"
  shows "gcd_ok zm zi s'"
proof -
  let ?z = "space_end GCD_ADD_MEMORY_OPERATION zm zi"
  obtain St s1 where a: "CoreInternalAddMemorySpace env T B L C s = Some (St, s1)" using assms(1) by (auto simp: CoreAddMemorySpace_def)
  show ?thesis
  proof (cases "EFI_ERROR St \<or> T \<noteq> Some EfiGcdMemoryTypeSystemMemory")
    case True
    have "gcd_ok zm zi s1" using a assms(2) ConvertSpace_ok [OF _ assms(2,3)]
      by (auto simp: CoreInternalAddMemorySpace_def split: option.splits if_splits)
    then show ?thesis using assms(1) a True by (auto simp: CoreAddMemorySpace_def split: if_splits)
  next
    case False
    then have T: "T = Some EfiGcdMemoryTypeSystemMemory" "St = EFI_SUCCESS" by (auto simp: EFI_ERROR_def)
    have c: "CoreConvertSpace env GCD_ADD_MEMORY_OPERATION EfiGcdMemoryTypeSystemMemory EfiGcdIoTypeNonExistent B L C 0 s = Some (EFI_SUCCESS, s1)"
      using a T by (simp add: CoreInternalAddMemorySpace_def)
    have ok: "gcd_ok zm zi s1" by (rule ConvertSpace_ok [OF c assms(2,3)])
    have "allowed (check_entry GCD_ADD_MEMORY_OPERATION 0 B L) B L (space_map GCD_ADD_MEMORY_OPERATION s)"
      using ConvertSpace_outcome [OF c gcd_ok_space(1) [OF assms(2)] assms(3)] by (simp add: outcome_def)
    then have "L \<noteq> 0" "\<forall>x. unat B \<le> x \<longrightarrow> x < unat B + unat L \<longrightarrow> passes (check_entry GCD_ADD_MEMORY_OPERATION 0 B L) (space_map GCD_ADD_MEMORY_OPERATION s) x"
      by (simp_all add: allowed_def)
    moreover have "unat L \<noteq> 0" using calculation(1) by (simp add: unat_eq_0)
    ultimately have al: "L \<noteq> 0" "passes (check_entry GCD_ADD_MEMORY_OPERATION 0 B L) (space_map GCD_ADD_MEMORY_OPERATION s) (unat B + unat L - 1)"
      by simp_all
    have "unat B + unat L - 1 < ?z" using passes_bound [OF gcd_ok_space(1) [OF assms(2)] al(2)] by simp
    then have bl: "unat B + unat L \<le> 2 ^ 63" using gcd_ok_space(3) [OF assms(2), of GCD_ADD_MEMORY_OPERATION] by simp
    define p where "p = PageAlignLength B"
    define l where "l = PageAlignLength (B + L - p)"
    have m: "(push_bit 12 1 - 1 :: u64) = mask 12" by (simp add: mask_eq_exp_minus_1)
    have p: "unat p = unat B div 4096 * 4096" unfolding p_def PageAlignLength_def AlignValue_def m Let_def if_False by (simp add: align_down)
    have "unat (B + L) = unat B + unat L" using bl by (simp add: unat_word_ariths)
    moreover have "unat p \<le> unat B" unfolding p by simp
    ultimately have d: "unat (B + L - p) = unat B + unat L - unat p" by (simp add: unat_sub word_le_nat_alt)
    have l: "unat l = (unat B + unat L - unat p) div 4096 * 4096" unfolding l_def PageAlignLength_def AlignValue_def m Let_def if_False
      by (simp add: align_down d)
    then have le: "unat p + unat l \<le> 2 ^ 63" using bl \<open>unat p \<le> unat B\<close> by simp
    have n: "unat (drop_bit 12 l) * 4096 = unat l"
    proof -
      have "unat (drop_bit 12 l) = drop_bit 12 (unat l)" by (rule unat_drop_bit_eq)
      then have "unat (drop_bit 12 l) = unat l div 4096" by (simp only: drop_bit_eq_div [of 12 "unat l"]) simp
      then show ?thesis unfolding l by simp
    qed
    obtain St2 Out s2 where b: "CoreAllocateMemorySpace env (Some EfiGcdAllocateAddress) T 12 l (Some p) (CoreImageHandle env) 0 s1 = Some ((St2, Out), s2)"
        "(if \<not> EFI_ERROR St2 then do { s \<leftarrow> AddMemoryDescriptor env p (drop_bit 12 l) C s2; Some (St2, s) }
          else add_pages env C (unat (drop_bit 12 l)) p St2 s2) = Some (r, s')"
      using assms(1) a False unfolding p_def l_def by (auto simp: CoreAddMemorySpace_def Let_def)
    have ok2: "gcd_ok zm zi s2" using le by (intro AllocateSpace_ok [OF b(1) [unfolded CoreAllocateMemorySpace_def] ok]) (simp add: no_wrap_def)
    show ?thesis
    proof (cases "EFI_ERROR St2")
      case True
      then show ?thesis using b(2) add_pages_ok [OF _ ok2] le n by simp
    next
      case False
      then show ?thesis using b(2) gcd_ok_same [OF ok2 descriptors_keep] by auto
    qed
  qed
qed

lemma gcd_service_ok:
  assumes "gcd_service env c s = Some s'" "gcd_ok zm zi s" "unwrapped c"
  shows "gcd_ok zm zi s'"
proof (cases c)
  case (AddMemory T B L C)
  then show ?thesis using assms AddMemorySpace_ok by fastforce
next
  case (AllocateMemory Type T A L B Owner Dev)
  then show ?thesis using assms AllocateSpace_ok by (fastforce simp: CoreAllocateMemorySpace_def)
next
  case (FreeMemory B L)
  then show ?thesis using assms ConvertSpace_ok by (fastforce simp: CoreFreeMemorySpace_def)
next
  case (RemoveMemory B L)
  then show ?thesis using assms ConvertSpace_ok by (fastforce simp: CoreRemoveMemorySpace_def)
next
  case (SetAttributes B L A)
  then show ?thesis using assms ConvertSpace_ok by (fastforce simp: CoreSetMemorySpaceAttributes_def)
next
  case (GetDescriptor B Out)
  then show ?thesis using assms(1,2) by (auto simp: CoreGetMemorySpaceDescriptor_def Let_def split: if_splits) (blast dest: locked_keep)
next
  case (GetMap N M)
  then obtain r where "CoreGetMemorySpaceMap env N M s = Some (r, s')" using assms(1) by auto
  then show ?thesis using assms(2) locked_keep pool_keeps by (fastforce simp: CoreGetMemorySpaceMap_def Let_def split: if_splits)
next
  case (AddIo T B L)
  then show ?thesis using assms ConvertSpace_ok by (fastforce simp: CoreAddIoSpace_def split: option.splits if_splits)
next
  case (AllocateIo Type T A L B Owner Dev)
  then show ?thesis using assms AllocateSpace_ok by (fastforce simp: CoreAllocateIoSpace_def)
next
  case (FreeIo B L)
  then show ?thesis using assms ConvertSpace_ok by (fastforce simp: CoreFreeIoSpace_def)
next
  case (RemoveIo B L)
  then show ?thesis using assms ConvertSpace_ok by (fastforce simp: CoreRemoveIoSpace_def)
next
  case (GetIoDescriptor B Out)
  then show ?thesis using assms(1,2) by (auto simp: CoreGetIoSpaceDescriptor_def Let_def split: if_splits) (blast dest: locked_keep)
next
  case (GetIoMap N M)
  then obtain r where "CoreGetIoSpaceMap env N M s = Some (r, s')" using assms(1) by auto
  then show ?thesis using assms(2) locked_keep pool_keeps by (fastforce simp: CoreGetIoSpaceMap_def Let_def split: if_splits)
qed

theorem gcd_services_ok:
  assumes "gcd_services env l s = Some s'" "gcd_ok zm zi s" "\<forall>c\<in>set l. unwrapped c"
  shows "gcd_ok zm zi s'"
  using assms
proof (induction l arbitrary: s)
  case (Cons c l)
  then obtain s1 where s1: "gcd_service env c s = Some s1" "gcd_services env l s1 = Some s'" by auto
  show ?case using Cons.prems(3) by (intro Cons.IH [OF s1(2) gcd_service_ok [OF s1(1) Cons.prems(2)]]) auto
qed simp

end

section \<open>What a failure means\<close>

lemma AllocateSpace_not_found:
  assumes "CoreAllocateSpace env Op (Some Type) (Some T) (Some IoT) A L (Some B) Owner Dev s = Some ((EFI_NOT_FOUND, Out), s')"
    "whole z (space_map Op s)" "0 < z" "z \<le> 2 ^ 63" "no_wrap Type B L" "A < 64"
  defines "fit \<equiv> fits (\<lambda>e. CoreAllocateSpaceCheckEntry Op e T IoT) (unat A) L (highest_address Type (space_map Op s) B) (space_map Op s)"
  shows "(Type = EfiGcdAllocateAddress \<longrightarrow> \<not> fit (unat B)) \<and> (bottom_up Type \<longrightarrow> (\<forall>y. \<not> fit y))"
proof -
  let ?check = "\<lambda>e. CoreAllocateSpaceCheckEntry Op e T IoT"
  have n: "Owner \<noteq> 0" "L \<noteq> 0" using assms(1,6) by (auto simp: CoreAllocateSpace_def word_le_nat_alt word_less_nat_alt split: if_splits)
  have A: "unat A < 64" using assms(6) by (simp add: word_less_nat_alt)
  obtain s1 St B' x s2 where c: "acquire_space Op s = Some s1" "find_space Type ?check (unat A) L (space_map Op s1) B = Some (St, B', x)"
      "(if EFI_ERROR St then Some (St, s1)
        else do {
          ((St, t, b), s1) \<leftarrow> CoreAllocateGcdMapEntry env s1;
          if EFI_ERROR St then Some (EFI_OUT_OF_RESOURCES, s1)
          else convert_range env Op (\<lambda>e. e\<lparr>ImageHandle := Owner, DeviceHandle := Dev\<rparr>) B' L x t b s1
        }) = Some (EFI_NOT_FOUND, s2)"
    using assms(1,6) n unfolding CoreAllocateSpace_def by (auto simp: word_less_nat_alt word_le_nat_alt)
  have e: "EFI_ERROR St"
    using c(3) by (auto simp: convert_range_def Let_def split: if_splits list.splits)
  from find_space_finds [OF assms(2,4,3) n(2) A AllocateSpaceCheckEntry_placeless assms(5), of Op T IoT] show ?thesis
    using c(2) e space_acquired(3) [OF c(1)] by (auto simp: fit_def EFI_ERROR_def)
qed

context gcd_pool
begin

lemma ConvertSpace_allowed:
  assumes "CoreConvertSpace env Op T IoT B L C A s = Some (Status, s')" "whole z (space_map Op s)" "unat B + unat L \<le> 2 ^ 64"
    "allowed (check_entry Op A B L) B L (space_map Op s)" "Op \<noteq> GCD_SET_ATTRIBUTES_MEMORY_OPERATION"
  shows "Status = EFI_SUCCESS \<or> Status = EFI_OUT_OF_RESOURCES"
proof -
  have L: "L \<noteq> 0" using assms(4) by (simp add: allowed_def)
  then have "unat L \<noteq> 0" by (simp add: unat_eq_0)
  then have "passes (check_entry Op A B L) (space_map Op s) (unat B + unat L - 1)" using assms(4) by (simp add: allowed_def)
  then have z: "unat B + unat L \<le> z" using passes_bound [OF assms(2)] \<open>unat L \<noteq> 0\<close> by fastforce
  obtain s1 s2 where c: "acquire_space Op s = Some s1" "convert_locked env Op T IoT B L C A s1 = Some (Status, s2)"
    using assms(1) L by (auto simp: CoreConvertSpace_def)
  have m: "space_map Op s1 = space_map Op s" by (rule space_acquired(3) [OF c(1)])
  from SearchGcdMapEntry_spans [OF assms(2) L assms(3)] z obtain x where x: "CoreSearchGcdMapEntry B L (space_map Op s) = Some (Inr x)"
    "spans B L z (before_links x (space_map Op s)) (between_links x (space_map Op s)) (after_links x (space_map Op s))"
    "space_map Op s = before_links x (space_map Op s) @ between_links x (space_map Op s) @ after_links x (space_map Op s)"
    by auto
  have f: "first_failure (check_entry Op A B L) 0 (between_links x (space_map Op s)) = None"
    using first_failure_allowed [OF x(2,3)] assms(4) by simp
  obtain St t b s3 where a: "CoreAllocateGcdMapEntry env s1 = Some ((St, t, b), s3)" using c(2) x(1) f m by (auto simp: convert_locked_def)
  show ?thesis
  proof (cases "EFI_ERROR St")
    case True
    then show ?thesis using c(2) x(1) f m a by (auto simp: convert_locked_def)
  next
    case False
    then have "convert_range env Op (change_entry Op T IoT C A) B L x t b (s3\<lparr>GcdRest := GcdRest s3\<rparr>) = Some (Status, s2)"
      using c(2) x(1) f m a assms(5) by (auto simp: convert_locked_def)
    then show ?thesis by (auto simp: convert_range_def Let_def split: list.splits)
  qed
qed

end

section \<open>There and back\<close>

abbreviation unplaced :: "gcd_entry list \<Rightarrow> gcd_entry list" where
  "unplaced \<equiv> map (\<lambda>e. e\<lparr>GcdAt := 0\<rparr>)"

lemma there_and_back:
  assumes "whole z l" "whole z m" "merged l" "merged m" "changed f B L l k" "changed g B L k m"
    "\<And>x r. unat B \<le> x \<Longrightarrow> x < unat B + unat L \<Longrightarrow> region_at l x = Some r \<Longrightarrow> g (f r) = r"
  shows "unplaced m = unplaced l"
proof (rule merged_unique [OF assms(2,1,4,3)])
  fix x
  show "region_at m x = region_at l x"
  proof (cases "unat B \<le> x \<and> x < unat B + unat L")
    case True
    then show ?thesis using assms(5,6) assms(7) [of x] by (cases "region_at l x") (auto simp: changed_def)
  next
    case False
    then show ?thesis using assms(5,6) unfolding changed_def by presburger
  qed
qed

text \<open>Nobody has a range without an image handle.\<close>

definition handles_ok :: "gcd_entry list \<Rightarrow> bool" where
  "handles_ok l \<longleftrightarrow> (\<forall>e\<in>set l. ImageHandle e = 0 \<longrightarrow> DeviceHandle e = 0)"

context gcd_pool
begin

lemma allocate_and_free:
  assumes "CoreAllocateMemorySpace env (Some Type) (Some T) A L (Some B) Owner Dev s = Some ((EFI_SUCCESS, Some B'), s1)"
    "CoreFreeMemorySpace env B' L s1 = Some (Status, s2)" "whole zm (MemorySpaceMap s) \<and> zm \<le> 2 ^ 63 \<and> 0 < zm" "no_wrap Type B L"
    "merged (MemorySpaceMap s)" "handles_ok (MemorySpaceMap s)"
  shows "Status = EFI_OUT_OF_RESOURCES \<and> MemorySpaceMap s2 = MemorySpaceMap s1 \<or>
    Status = EFI_SUCCESS \<and> unplaced (MemorySpaceMap s2) = unplaced (MemorySpaceMap s)"
proof -
  let ?Op = GCD_ALLOCATE_MEMORY_OPERATION and ?check = "\<lambda>e. CoreAllocateSpaceCheckEntry GCD_ALLOCATE_MEMORY_OPERATION e T EfiGcdIoTypeNonExistent"
  let ?f = "\<lambda>e. e\<lparr>ImageHandle := Owner, DeviceHandle := Dev\<rparr>"
  have z: "whole zm (space_map ?Op s)" "zm \<le> 2 ^ 63" "0 < zm" using assms(3) by (simp_all add: space_map_def memory_operation_def)
  have sp: "space_map ?Op t = MemorySpaceMap t" "space_map GCD_FREE_MEMORY_OPERATION t = MemorySpaceMap t" for t :: "'p gcd"
    by (simp_all add: space_map_def memory_operation_def)
  from AllocateSpace_outcome [OF assms(1) [unfolded CoreAllocateMemorySpace_def] z assms(4)] have
    o: "outcome ?check ?f B' L ?Op EFI_SUCCESS s s1" "whole zm (MemorySpaceMap s1)" "Owner \<noteq> 0"
      "place_ok Type ?check (unat A) L (MemorySpaceMap s) B B'" by (auto simp: sp)
  have ch: "changed ?f B' L (MemorySpaceMap s) (MemorySpaceMap s1)" "merged (MemorySpaceMap s1)" "allowed ?check B' L (MemorySpaceMap s)"
    using o(1) assms(5) by (simp_all add: outcome_def sp)
  have top: "unat (highest_address Type (MemorySpaceMap s) B) < 2 ^ LENGTH(64)" by (rule unsigned_less)
  have "unat B' + unat L \<le> unat (highest_address Type (MemorySpaceMap s) B) + 1" using o(4) by (simp add: place_ok_def fits_def)
  then have nw: "unat B' + unat L \<le> 2 ^ 64" using top by simp
  let ?c = "check_entry GCD_FREE_MEMORY_OPERATION 0 B' L"
  have "passes ?c (MemorySpaceMap s1) x" if x: "unat B' \<le> x" "x < unat B' + unat L" for x
  proof -
    obtain r where r: "region_at (MemorySpaceMap s) x = Some r" using ch(3) x by (auto simp: allowed_def passes_def)
    have "region_at (MemorySpaceMap s1) x = Some (?f r)" using ch(1) x r by (simp add: changed_def)
    then show ?thesis using o(3) by (simp add: passes_def)
  qed
  then have al: "allowed ?c B' L (MemorySpaceMap s1)" using ch(3) by (simp add: allowed_def)
  note conv = assms(2) [unfolded CoreFreeMemorySpace_def]
  have st: "Status = EFI_SUCCESS \<or> Status = EFI_OUT_OF_RESOURCES"
    by (rule ConvertSpace_allowed [OF conv, unfolded sp, OF o(2) nw al]) simp
  have w: "outcome ?c (change_entry GCD_FREE_MEMORY_OPERATION EfiGcdMemoryTypeNonExistent EfiGcdIoTypeNonExistent 0 0) B' L GCD_FREE_MEMORY_OPERATION Status s1 s2"
      "whole zm (MemorySpaceMap s2)"
    using ConvertSpace_outcome [OF conv _ nw, unfolded sp, OF o(2)] by simp_all
  show ?thesis
  proof (cases "Status = EFI_SUCCESS")
    case True
    have "unplaced (MemorySpaceMap s2) = unplaced (MemorySpaceMap s)"
    proof (rule there_and_back [OF _ w(2) assms(5) _ ch(1)])
      show "whole zm (MemorySpaceMap s)" using z(1) by (simp add: sp)
      show "merged (MemorySpaceMap s2)" using w(1) ch(2) by (simp add: outcome_def sp)
      show "changed (change_entry GCD_FREE_MEMORY_OPERATION EfiGcdMemoryTypeNonExistent EfiGcdIoTypeNonExistent 0 0) B' L (MemorySpaceMap s1) (MemorySpaceMap s2)"
        using w(1) True by (simp add: outcome_def sp)
      fix x r assume x: "unat B' \<le> x" "x < unat B' + unat L" "region_at (MemorySpaceMap s) x = Some r"
      obtain e where e: "e \<in> set (MemorySpaceMap s)" "r = region e" using x(3) by (rule region_at_obtains)
      have "?check r = EFI_SUCCESS" using ch(3) x by (auto simp: allowed_def passes_def)
      then have "ImageHandle r = 0" by (auto simp: CoreAllocateSpaceCheckEntry_def split: if_splits)
      moreover have "DeviceHandle r = 0" using calculation assms(6) e by (auto simp: handles_ok_def region_def)
      ultimately show "change_entry GCD_FREE_MEMORY_OPERATION EfiGcdMemoryTypeNonExistent EfiGcdIoTypeNonExistent 0 0 (?f r) = r" by (cases r) simp
    qed
    then show ?thesis using True by simp
  next
    case False
    then show ?thesis using st w(1) by (auto simp: outcome_def sp)
  qed
qed

text \<open>Removing a range clears its capabilities, but not its attributes.\<close>

lemma removed:
  assumes "CoreRemoveMemorySpace env B L s = Some (EFI_SUCCESS, s')" "gcd_ok zm zi s" "unat B + unat L \<le> 2 ^ 64" "unat B \<le> x" "x < unat B + unat L"
  shows "\<exists>r. region_at (MemorySpaceMap s) x = Some r \<and> ImageHandle r = 0 \<and>
    region_at (MemorySpaceMap s') x = Some (r\<lparr>GcdMemoryType := EfiGcdMemoryTypeNonExistent, Capabilities := 0\<rparr>)"
proof -
  let ?Op = GCD_REMOVE_MEMORY_OPERATION
  have sp: "space_map ?Op t = MemorySpaceMap t" for t :: "'p gcd" by (simp add: space_map_def memory_operation_def)
  have z: "whole zm (space_map ?Op s)" using assms(2) by (simp add: gcd_ok_def sp)
  have o: "allowed (check_entry ?Op 0 B L) B L (MemorySpaceMap s)"
      "changed (change_entry ?Op EfiGcdMemoryTypeNonExistent EfiGcdIoTypeNonExistent 0 0) B L (MemorySpaceMap s) (MemorySpaceMap s')"
    using ConvertSpace_outcome [OF assms(1) [unfolded CoreRemoveMemorySpace_def] z assms(3)] by (simp_all add: outcome_def sp)
  obtain r where r: "region_at (MemorySpaceMap s) x = Some r" "check_entry ?Op 0 B L r = EFI_SUCCESS"
    using o(1) assms(4,5) by (auto simp: allowed_def passes_def)
  have "ImageHandle r = 0" using r(2) by (auto split: if_splits)
  moreover have "region_at (MemorySpaceMap s') x = Some (r\<lparr>GcdMemoryType := EfiGcdMemoryTypeNonExistent, Capabilities := 0\<rparr>)"
    using o(2) r(1) assms(4,5) by (simp add: changed_def)
  ultimately show ?thesis using r(1) by blast
qed

end

section \<open>Reading\<close>

lemma GetMemorySpaceDescriptor_reads:
  assumes "CoreGetMemorySpaceDescriptor B True s = Some ((Status, d), s')" "whole z (MemorySpaceMap s)"
  shows "s' = s \<and> (if unat B < z
    then \<exists>e\<in>set (MemorySpaceMap s). unat (GcdBase e) \<le> unat B \<and> unat B \<le> unat (GcdEnd e) \<and> Status = EFI_SUCCESS \<and> d = Some (BuildMemoryDescriptor e)
    else Status = EFI_NOT_FOUND \<and> d = None)"
proof -
  let ?Op = GCD_ADD_MEMORY_OPERATION
  obtain s1 r where c: "acquire_space ?Op s = Some s1" "CoreSearchGcdMapEntry B 1 (MemorySpaceMap s1) = Some r" "release_space ?Op s1 = Some s'"
      "(Status, d) = (case r of Inl _ \<Rightarrow> (EFI_NOT_FOUND, None) | Inr x \<Rightarrow> (EFI_SUCCESS, Some (BuildMemoryDescriptor (MemorySpaceMap s1 ! fst x))))"
    using assms(1) by (auto simp: CoreGetMemorySpaceDescriptor_def Let_def)
  have s1: "MemorySpaceMap s1 = MemorySpaceMap s" "s' = s"
    using c(1,3) by (auto simp: acquire_space_def release_space_def memory_operation_def)
  have "unat B < 2 ^ LENGTH(64)" by (rule unsigned_less)
  then have nw: "unat B + unat (1 :: u64) \<le> 2 ^ 64" by simp
  note sr = SearchGcdMapEntry_spans [OF assms(2) _ nw]
  show ?thesis
  proof (cases "unat B < z")
    case True
    then obtain x where x: "CoreSearchGcdMapEntry B 1 (MemorySpaceMap s) = Some (Inr x)"
        "spans B 1 z (before_links x (MemorySpaceMap s)) (between_links x (MemorySpaceMap s)) (after_links x (MemorySpaceMap s))"
      using sr by auto
    note b = between_first [OF x(2)]
    have "MemorySpaceMap s ! fst x \<in> set (MemorySpaceMap s)" using b(2) by simp
    moreover have "unat (GcdBase (MemorySpaceMap s ! fst x)) \<le> unat B" "unat B \<le> unat (GcdEnd (MemorySpaceMap s ! fst x))"
      using x(2) b(1) by (simp_all add: spans_def)
    ultimately show ?thesis using True c(2,4) s1 x(1) by auto
  next
    case False
    then show ?thesis using sr c(2,4) s1 by auto
  qed
qed

end
