(* ===== verification/GcdFaults.thy ===== *)
theory GcdFaults
  imports GcdSpec
begin

text \<open>
  Where the services of the global coherency domain go wrong: a range that wraps around the end of the address space, and the search from the top.
\<close>

section \<open>A range that wraps around\<close>

lemma search_wrapped:
  assumes "tiles a (pre @ e # post) z" "GcdBase e < B" "B \<le> GcdEnd e" "GcdBase e \<le> E" "E \<le> GcdEnd e"
  shows "search_entries B E i None (pre @ e # post) = Some (i + length pre, i + length pre)"
  using assms(1)
proof (induction pre arbitrary: a i)
  case Nil
  then show ?case using assms(2-5) less_imp_le [OF assms(2)] by simp
next
  case (Cons d pre)
  have t: "tiles (unat (GcdEnd d) + 1) (pre @ e # post) z" using Cons.prems by simp
  have "unat (GcdEnd d) + 1 \<le> unat (GcdBase e)" using tiles_end(1) [OF t, of e] by simp
  then have "\<not> B \<le> GcdEnd d" using assms(2) by (simp add: word_le_nat_alt word_less_nat_alt)
  then show ?case using Cons.IH [OF t, of "i + 1"] by simp
qed

text \<open>The range \<open>B\<close> to \<open>B + L - 1\<close> wraps around and begins and ends in the entry \<open>e\<close>.\<close>

definition wraps_in :: "u64 \<Rightarrow> u64 \<Rightarrow> gcd_entry \<Rightarrow> bool" where
  "wraps_in B L e \<longleftrightarrow> 2 ^ 64 < unat B + unat L \<and> GcdBase e < B \<and> B \<le> GcdEnd e \<and> GcdBase e \<le> B + L - 1"

lemma wraps_in:
  assumes "wraps_in B L e"
  shows "L \<noteq> 0" "B + L - 1 < B" "B + L \<le> B - 1" "B + L - 1 < GcdEnd e"
proof -
  have l: "unat L < 2 ^ 64" "unat B < 2 ^ 64" using unsigned_less [of L] unsigned_less [of B] by simp_all
  have w: "unat (B + L) = unat B + unat L - 2 ^ 64"
  proof -
    have "unat (B + L) = (unat B + unat L) mod 2 ^ 64" by (simp add: unat_word_ariths)
    also have "\<dots> = (unat B + unat L - 2 ^ 64) mod 2 ^ 64" using assms by (simp add: wraps_in_def le_mod_geq)
    finally show ?thesis using l by simp
  qed
  have p: "0 < unat (B + L)" "unat (B + L) < unat B" using w l assms unfolding wraps_in_def by linarith+
  have n: "unat (B + L - 1) = unat (B + L) - 1" "unat (B - 1) = unat B - 1"
    using p(1) less_trans [OF p] unat_minus_one [of "B + L"] unat_minus_one [of B] by (simp_all add: unat_gt_0)
  show "L \<noteq> 0" using assms l by (auto simp: wraps_in_def)
  show "B + L - 1 < B" using p n by (simp add: word_less_nat_alt)
  then show "B + L - 1 < GcdEnd e" using assms unfolding wraps_in_def by (meson order_less_le_trans)
  show "B + L \<le> B - 1" using p n(2) by (simp add: word_le_nat_alt)
qed

lemma overlap_breaks:
  assumes "tiles a (pre @ d # e # c # post) z" "GcdBase c \<le> GcdEnd d"
  shows False
proof -
  obtain k where t: "tiles k (d # e # c # post) z" using assms(1) by (auto simp: tiles_append)
  then have "unat (GcdEnd d) < unat (GcdBase e)" "unat (GcdBase e) \<le> unat (GcdEnd e)" "unat (GcdEnd e) < unat (GcdBase c)" by simp_all
  then show False using assms(2) by (simp add: word_le_nat_alt)
qed

context gcd_pool
begin

lemma remove_wrapped:
  assumes "CoreRemoveMemorySpace env B L s = Some (EFI_SUCCESS, s')" "MemorySpaceMap s = pre @ e # post" "whole z (MemorySpaceMap s)" "wraps_in B L e"
  shows "\<exists>b t. MemorySpaceMap s' = pre @ [e\<lparr>GcdAt := b, GcdEnd := B - 1\<rparr>,
      e\<lparr>GcdBase := B, GcdEnd := B + L - 1, GcdMemoryType := EfiGcdMemoryTypeNonExistent, Capabilities := 0\<rparr>, e\<lparr>GcdAt := t, GcdBase := B + L\<rparr>] @ post"
proof -
  let ?Op = GCD_REMOVE_MEMORY_OPERATION
  note w = wraps_in [OF assms(4)]
  have sp: "space_map ?Op t = MemorySpaceMap t" "put_map ?Op M t = t\<lparr>MemorySpaceMap := M\<rparr>" for t :: "'p gcd" and M
    by (simp_all add: space_map_def memory_operation_def put_map_def)
  obtain s1 s2 where c: "acquire_space ?Op s = Some s1" "convert_locked env ?Op EfiGcdMemoryTypeNonExistent EfiGcdIoTypeNonExistent B L 0 0 s1 = Some (EFI_SUCCESS, s2)"
      "release_space ?Op s2 = Some s'"
    using assms(1) w(1) by (auto simp: CoreRemoveMemorySpace_def CoreConvertSpace_def)
  note a = space_acquired [OF c(1), unfolded sp]
  have "GcdBase e < B" "B \<le> GcdEnd e" "GcdBase e \<le> B + L - 1" "B + L - 1 \<le> GcdEnd e" using assms(4) w(4) by (simp_all add: wraps_in_def)
  from search_wrapped [OF assms(3) [unfolded assms(2)] this, of 0]
  have s: "CoreSearchGcdMapEntry B L (MemorySpaceMap s) = Some (Inr (length pre, length pre))"
    using w(1) by (simp add: CoreSearchGcdMapEntry_def assms(2))
  have l: "before_links (length pre, length pre) (MemorySpaceMap s) = pre" "between_links (length pre, length pre) (MemorySpaceMap s) = [e]"
      "after_links (length pre, length pre) (MemorySpaceMap s) = post"
    by (simp_all add: assms(2) before_links_def between_links_def after_links_def)
  obtain t b s3 where d: "check_entry ?Op 0 B L e = EFI_SUCCESS" "CoreAllocateGcdMapEntry env s1 = Some ((EFI_SUCCESS, t, b), s3)"
      "convert_range env ?Op (change_entry ?Op EfiGcdMemoryTypeNonExistent EfiGcdIoTypeNonExistent 0 0) B L (length pre, length pre) t b s3 = Some (EFI_SUCCESS, s2)"
    using c(2) s l a(3) by (auto simp: convert_locked_def sp EFI_ERROR_def split: if_splits)
  have m: "MemorySpaceMap s3 = MemorySpaceMap s" using same_spaces_locked(1) [OF buffers_keep [OF d(2)] a(2)] a(3) by (simp add: sp)
  have n: "GcdMemoryType e \<noteq> EfiGcdMemoryTypeNonExistent" using d(1) by (auto split: if_splits)
  have "B > GcdBase e" "B + L - 1 < GcdEnd e" using assms(4) w(4) by (simp_all add: wraps_in_def)
  then have "MemorySpaceMap s2 = pre @ [e\<lparr>GcdAt := b, GcdEnd := B - 1\<rparr>,
      e\<lparr>GcdBase := B, GcdEnd := B + L - 1, GcdMemoryType := EfiGcdMemoryTypeNonExistent, Capabilities := 0\<rparr>, e\<lparr>GcdAt := t, GcdBase := B + L\<rparr>] @ post"
    using d(3) w(1) l m n by (auto simp: convert_range_def sp convert_entries.simps CoreInsertGcdMapEntry_def CoreCleanupGcdMapEntry_def CoreMergeGcdMapEntry_def
        mergeable_def Let_def)
  then show ?thesis using released(3) [OF c(3), unfolded sp] by auto
qed

end

section \<open>The search from the top\<close>

lemma search_down_skips:
  assumes "i \<le> length Map" "\<forall>e\<in>set Map. check e = EFI_SUCCESS \<longrightarrow> MaxAddress < GcdBase e + L"
  shows "search_down check M L MaxAddress Map i B = Some (EFI_NOT_FOUND, B, (0, 0))"
  using assms(1)
proof (induction i)
  case 0
  show ?case by (subst search_down.simps) simp
next
  case (Suc i)
  have "Map ! i \<in> set Map" using Suc.prems by simp
  then show ?case using Suc assms(2) by (subst search_down.simps) (auto simp: Let_def EFI_ERROR_def)
qed

end
