(* ===== verification/GcdFrame.thy ===== *)
theory GcdFrame
  imports GcdServices PagesRun Pool
begin

text \<open>
  What the page allocator and the pool do to the map of the memory space: a promotion changes entries in their places, and stops with a failed
  \<open>ASSERT\<close> while somebody has the lock of the map; nothing else touches it.
\<close>

definition gcd_same :: "'e mem \<Rightarrow> 'e mem \<Rightarrow> bool" where
  "gcd_same s s' \<longleftrightarrow> mGcdMemorySpaceLock s' = mGcdMemorySpaceLock s \<and> places (mGcdMemorySpaceMap s') = places (mGcdMemorySpaceMap s) \<and>
     (mGcdMemorySpaceLock s \<longrightarrow> mGcdMemorySpaceMap s' = mGcdMemorySpaceMap s)"

lemma gcd_same_refl [simp]: "gcd_same s s"
  by (simp add: gcd_same_def)

lemma gcd_same_trans: "gcd_same s s' \<Longrightarrow> gcd_same s' s'' \<Longrightarrow> gcd_same s s''"
  by (simp add: gcd_same_def)

lemma gcd_same_simps [simp]:
  "gcd_same s (s'\<lparr>gMemoryMap := m\<rparr>) = gcd_same s s'" "gcd_same s (s'\<lparr>mFreeMemoryMapEntryList := n\<rparr>) = gcd_same s s'"
  "gcd_same s (s'\<lparr>mMapDepth := n\<rparr>) = gcd_same s s'" "gcd_same s (s'\<lparr>mMemoryMapKey := k\<rparr>) = gcd_same s s'"
  "gcd_same s (s'\<lparr>Others := x\<rparr>) = gcd_same s s'" "gcd_same s (s'\<lparr>gMemoryLock := b\<rparr>) = gcd_same s s'"
  "gcd_same s (s'\<lparr>mFreeMapStack := n\<rparr>) = gcd_same s s'" "gcd_same s (s'\<lparr>mMemoryTypeStatistics := t\<rparr>) = gcd_same s s'"
  "gcd_same s (s'\<lparr>gMemoryTypeInformation := i\<rparr>) = gcd_same s s'" "gcd_same s (s'\<lparr>mDefaultMaximumAddress := a\<rparr>) = gcd_same s s'"
  "gcd_same s (s'\<lparr>mDefaultBaseAddress := a\<rparr>) = gcd_same s s'" "gcd_same s (s'\<lparr>gLoadFixedAddressCodeMemoryReady := b\<rparr>) = gcd_same s s'"
  "gcd_same s (s'\<lparr>mMemoryTypeInformationInitialized := b\<rparr>) = gcd_same s s'"
  "gcd_same (s\<lparr>gMemoryLock := b\<rparr>) s' = gcd_same s s'" "gcd_same (s\<lparr>mFreeMapStack := n\<rparr>) s' = gcd_same s s'"
  by (simp_all add: gcd_same_def)

lemma gcd_same_put [simp]:
  "gcd_same s (put_statistics T x s') = gcd_same s s'" "gcd_same s (put_information i y s') = gcd_same s s'"
  "gcd_same (put_statistics T x s) s' = gcd_same s s'" "gcd_same (put_information i y s) s' = gcd_same s s'"
  "gcd_same (s\<lparr>mDefaultMaximumAddress := a\<rparr>) s' = gcd_same s s'"
  by (simp_all add: put_statistics_def put_information_def gcd_same_def)

lemma gcd_same_remove [simp]: "gcd_same s (RemoveMemoryMapEntry pre e post s') = gcd_same s s'"
  by (simp add: RemoveMemoryMapEntry_def Let_def)

lemma gcd_same_count [simp]:
  "gcd_same s (count_pages T a n s') = gcd_same s s'" "gcd_same s (uncount_pages T a n s') = gcd_same s s'"
  "gcd_same s (clear_range env a b s') = gcd_same s s'" "gcd_same s (move_to_heap s') = gcd_same s s'"
  by (simp_all add: count_pages_def uncount_pages_def clear_range_def move_to_heap_def Let_def split: option.splits)

lemma gcd_same_take_range: "take_range pre e post a b s = Some (x, s') \<Longrightarrow> gcd_same s s'"
  by (auto simp: take_range_def Let_def split: if_splits)

lemma gcd_same_AddRange: "CoreAddRange env T a b A s = Some s' \<Longrightarrow> gcd_same s s'"
  by (cases "merge_range T A (gMemoryMap s) a b") (auto simp: CoreAddRange_def Let_def split: if_splits)

text \<open>What \<open>CoreFreeMemoryMapStack\<close> keeps, at each depth.\<close>

definition stack_same :: "'e free_stack \<Rightarrow> bool" where
  "stack_same free \<longleftrightarrow> (\<forall>s s'. free s = Some s' \<longrightarrow> gcd_same s s')"

lemma gcd_same_step:
  assumes "stack_same free" "convert_step env free b n T a s = Some (r, s')"
  shows "gcd_same s s'"
proof (cases "List.extract (\<lambda>e. EntryStart e \<le> a \<and> EntryEnd e > a) (gMemoryMap s)")
  case None
  then show ?thesis using assms(2) by (simp add: convert_step_def)
next
  case (Some x)
  obtain pre e post where x: "x = (pre, e, post)" by (cases x) auto
  show ?thesis
  proof (cases "s' = s")
    case False
    let ?s = "count_pages T a n (uncount_pages (EntryType e) a n s)"
    obtain A s1 s2 R where c: "take_range pre e post a R ?s = Some (A, s1)" "CoreAddRange env T a R A s1 = Some s2"
        "free (if T = EfiConventionalMemory then clear_range env a R s2 else s2) = Some s'"
      using assms(2) Some x False by (auto simp: convert_step_def Let_def split: if_splits)
    have "gcd_same ?s s1" "gcd_same s1 s2" using gcd_same_take_range [OF c(1)] gcd_same_AddRange [OF c(2)] by simp_all
    moreover have "gcd_same s2 (if T = EfiConventionalMemory then clear_range env a R s2 else s2)" by simp
    moreover have "gcd_same (if T = EfiConventionalMemory then clear_range env a R s2 else s2) s'" using assms(1) c(3) by (simp add: stack_same_def)
    moreover have "gcd_same s ?s" by simp
    ultimately show ?thesis using gcd_same_trans by blast
  qed simp
qed

lemma gcd_same_ConvertPages:
  assumes "stack_same free" "CoreConvertPages env free a n T s = Some (r, s')"
  shows "gcd_same s s'"
proof -
  have l: "gcd_same s (snd x)" if "convert_loop env free b n T a s = Some x" for a b s x
    using that
  proof (induction rule: convert_loop_induct)
    case (2 a s st s')
    then show ?case using gcd_same_step [OF assms(1)] by simp
  next
    case (3 a s m s1 r)
    then show ?case using gcd_same_step [OF assms(1) 3(2)] gcd_same_trans by blast
  qed simp
  show ?thesis using assms(2) l by (auto simp: CoreConvertPages_def Let_def split: if_splits dest: l)
qed

lemma places_update:
  assumes "GcdBase g = GcdBase (l ! i)" "GcdEnd g = GcdEnd (l ! i)"
  shows "places (l[i := g]) = places l"
proof (cases "i < length l")
  case True
  then show ?thesis using assms by (intro nth_equalityI) (auto simp: places_def nth_list_update)
qed (simp add: list_update_beyond)

lemma promote_loop_same:
  assumes "stack_same free" "promote_loop env free n i P s = Some (r, s')"
  shows "mGcdMemorySpaceLock s' = mGcdMemorySpaceLock s \<and> places (mGcdMemorySpaceMap s') = places (mGcdMemorySpaceMap s)"
  using assms(2)
proof (induction n arbitrary: i P s)
  case (Suc n)
  show ?case
  proof (cases "promotable (mGcdMemorySpaceMap s ! i)")
    case True
    let ?h = "mGcdMemorySpaceMap s ! i"
    let ?g = "?h\<lparr>GcdMemoryType := EfiGcdMemoryTypeSystemMemory, Capabilities := Capabilities ?h OR EFI_MEMORY_TESTED,
      ImageHandle := gDxeCoreImageHandle env, DeviceHandle := 0\<rparr>"
    let ?s = "s\<lparr>mGcdMemorySpaceMap := (mGcdMemorySpaceMap s)[i := ?g]\<rparr>"
    obtain s1 s2 A where c: "CoreAddRange env EfiConventionalMemory (GcdBase ?g) (GcdEnd ?g) A ?s = Some s1" "free s1 = Some s2"
        "promote_loop env free n (Suc i) True s2 = Some (r, s')"
      using Suc.prems True by (auto simp: Let_def)
    have "gcd_same s1 s2" using assms(1) c(2) by (simp add: stack_same_def)
    then have "gcd_same ?s s2" using gcd_same_AddRange [OF c(1)] gcd_same_trans by blast
    moreover have "places ((mGcdMemorySpaceMap s)[i := ?g]) = places (mGcdMemorySpaceMap s)" by (rule places_update) simp_all
    ultimately show ?thesis using Suc.IH [OF c(3)] by (simp add: gcd_same_def)
  next
    case False
    then show ?thesis using Suc by (simp add: Let_def)
  qed
qed simp

lemma gcd_same_Promote:
  assumes "stack_same free" "PromoteMemoryResource env free s = Some (r, s')"
  shows "gcd_same s s'"
  using assms(2) promote_loop_same [OF assms(1)]
  by (fastforce simp: PromoteMemoryResource_def CoreAcquireGcdMemoryLock_def CoreReleaseGcdMemoryLock_def gcd_same_def)

lemma gcd_same_find_in_bins: "find_in_bins M n T A s = (a, s') \<Longrightarrow> gcd_same s s'"
  by (auto simp: find_in_bins_def Let_def split: if_splits)

lemma gcd_same_FindFreePages:
  assumes "stack_same free" "FindFreePages env free M n T A s = Some (a, s')"
  shows "gcd_same s s'"
proof -
  have "gcd_same s (snd x)" if "FindFreePages env free M n T A s = Some x" for s x
    using that
  proof (induction rule: FindFreePages_induct)
    case (1 s S s')
    then show ?case using gcd_same_find_in_bins by simp
  next
    case (2 s s1 s')
    then show ?case using gcd_same_find_in_bins [OF 2(1)] gcd_same_Promote [OF assms(1) 2(2)] gcd_same_trans by simp blast
  next
    case (3 s s1 s2 r)
    then show ?case using gcd_same_find_in_bins [OF 3(1)] gcd_same_Promote [OF assms(1) 3(2)] gcd_same_trans by blast
  qed
  from this [OF assms(2)] show ?thesis by simp
qed

lemma gcd_same_AllocatePoolPages:
  assumes "stack_same free" "CoreAllocatePoolPages env free T n A s = Some (a, s')"
  shows "gcd_same s s'"
proof -
  obtain a1 s1 where f: "FindFreePages env free MAX_ADDRESS n T A s = Some (a1, s1)" using assms(2) by (auto simp: CoreAllocatePoolPages_def)
  have "gcd_same s1 s'" using assms(2) f gcd_same_ConvertPages [OF assms(1)] by (auto simp: CoreAllocatePoolPages_def split: if_splits)
  then show ?thesis using gcd_same_FindFreePages [OF assms(1) f] gcd_same_trans by blast
qed

lemma gcd_same_FreePoolPages:
  assumes "stack_same free" "CoreFreePoolPages env free a n s = Some s'"
  shows "gcd_same s s'"
  using assms(2) gcd_same_ConvertPages [OF assms(1)] by (auto simp: CoreFreePoolPages_def)

lemma stack_same_free: "stack_same (CoreFreeMemoryMapStack env n)"
proof (induction n)
  case 0
  then show ?case by (simp add: stack_same_def CoreFreeMemoryMapStack.simps)
next
  case (Suc n)
  have a: "gcd_same s s'" if "AllocateMemoryMapEntry env (CoreFreeMemoryMapStack env n) s = Some (got, s')" for s got s'
    using that gcd_same_AllocatePoolPages [OF Suc] by (auto simp: AllocateMemoryMapEntry_def split: if_splits)
  have l: "gcd_same s s'" if "free_stack_loop env (CoreFreeMemoryMapStack env n) s = Some s'" for s s'
    using that
  proof (induction rule: free_stack_loop_induct)
    case (2 s s1 r)
    then show ?case using a [OF 2(2)] gcd_same_trans by (meson gcd_same_count(4))
  qed simp
  show ?case unfolding stack_same_def
  proof (intro allI impI)
    fix s s' assume "CoreFreeMemoryMapStack env (Suc n) s = Some s'"
    then show "gcd_same s s'" using l by (fastforce simp: CoreFreeMemoryMapStack.simps split: if_splits)
  qed
qed

section \<open>The services of the page allocator\<close>

lemma gcd_same_locks: "CoreAcquireMemoryLock s = Some s' \<Longrightarrow> gcd_same s s'" "CoreReleaseMemoryLock s = Some s' \<Longrightarrow> gcd_same s s'"
  by (auto simp: CoreAcquireMemoryLock_def CoreReleaseMemoryLock_def)

lemma gcd_same_AllocatePages:
  assumes "stack_same free" "CoreAllocatePages env free Type T n m s = Some (r, s')"
  shows "gcd_same s s'"
proof -
  have l: "gcd_same s s'" if "allocate_locked env free Type T n a s = Some (r, s')" for n a s r s'
    using that gcd_same_FindFreePages [OF assms(1)] gcd_same_ConvertPages [OF assms(1)]
    by (fastforce simp: allocate_locked_def Let_def CoreAcquireMemoryLock_def CoreReleaseMemoryLock_def split: if_splits intro: gcd_same_trans)
  show ?thesis using assms(2) by (auto simp: CoreAllocatePages_def Let_def split: if_splits option.splits dest: l)
qed

lemma gcd_same_FreePages:
  assumes "stack_same free" "CoreFreePages env free a n s = Some (r, s')"
  shows "gcd_same s s'"
proof -
  have l: "gcd_same s s'" if "free_locked env free a n s = Some (r, s')" for a n s r s'
    using that gcd_same_ConvertPages [OF assms(1)] by (auto simp: free_locked_def Let_def split: option.splits if_splits)
  show ?thesis using assms(2) by (fastforce simp: CoreFreePages_def CoreAcquireMemoryLock_def CoreReleaseMemoryLock_def dest: l)
qed

lemma gcd_same_Hook:
  assumes "stack_same free" "CoreLoadingFixedAddressHook env free s = Some s'"
  shows "gcd_same s s'"
proof (cases "gLoadFixedAddressCodeMemoryReady s")
  case True
  then show ?thesis using assms(2) by (simp add: CoreLoadingFixedAddressHook_def)
next
  case False
  let ?n = "ucast (PcdLoadFixAddressRuntimeCodePageNumber env) :: u64" and ?m = "ucast (PcdLoadFixAddressBootTimeCodePageNumber env) :: u64"
  let ?R = "DxeCodeTopAddress env - ucast (push_bit 12 (PcdLoadFixAddressRuntimeCodePageNumber env))"
  let ?B = "?R - ucast (push_bit 12 (PcdLoadFixAddressBootTimeCodePageNumber env))"
  obtain St x s1 where a: "CoreAllocatePages env free AllocateAddress EfiRuntimeServicesCode ?n (Some ?R) s = Some ((St, x), s1)"
      "(if EFI_ERROR St then Some s1
        else do {
          ((Status, _), s) \<leftarrow> CoreAllocatePages env free AllocateAddress EfiBootServicesCode ?m (Some ?B) s1;
          if EFI_ERROR Status then do { (_, s) \<leftarrow> CoreFreePages env free ?R ?n s; Some s }
          else Some (s\<lparr>gLoadFixedAddressCodeMemoryReady := True\<rparr>)
        }) = Some s'"
    using assms(2) False by (auto simp: CoreLoadingFixedAddressHook_def Let_def)
  have "gcd_same s1 s'"
  proof (cases "EFI_ERROR St")
    case False
    then obtain St2 y s2 where b: "CoreAllocatePages env free AllocateAddress EfiBootServicesCode ?m (Some ?B) s1 = Some ((St2, y), s2)"
        "(if EFI_ERROR St2 then do { (_, s) \<leftarrow> CoreFreePages env free ?R ?n s2; Some s }
          else Some (s2\<lparr>gLoadFixedAddressCodeMemoryReady := True\<rparr>)) = Some s'"
      using a(2) by auto
    have "gcd_same s2 s'" using b(2) gcd_same_FreePages [OF assms(1)] by (auto split: if_splits)
    then show ?thesis using gcd_same_AllocatePages [OF assms(1) b(1)] gcd_same_trans by blast
  qed (use a(2) in simp)
  then show ?thesis using gcd_same_AllocatePages [OF assms(1) a(1)] gcd_same_trans by blast
qed

lemma gcd_same_undo_bins:
  assumes "stack_same free" "undo_bins env free n i s = Some s'"
  shows "gcd_same s s'"
  using assms(2)
proof (induction n arbitrary: i s)
  case (Suc n)
  show ?case
  proof (cases "InfoType (gMemoryTypeInformation s i) > EfiMaxMemoryType \<or> InfoPages (gMemoryTypeInformation s i) = 0")
    case True
    then show ?thesis using Suc by (simp add: Let_def)
  next
    case False
    then obtain r s1 x T where c: "CoreFreePages env free (BaseAddress (mMemoryTypeStatistics s (unat T))) (ucast (InfoPages (gMemoryTypeInformation s i))) s = Some (r, s1)"
        "undo_bins env free n (Suc i) (put_statistics T x s1) = Some s'"
      using Suc.prems by (auto simp: Let_def)
    then show ?thesis using Suc.IH [OF c(2)] gcd_same_FreePages [OF assms(1) c(1)] gcd_same_trans by (meson gcd_same_put(1))
  qed
qed simp

lemma gcd_same_reserve_bins:
  assumes "stack_same free" "reserve_bins env free n i s = Some (ok, s')"
  shows "gcd_same s s'"
  using assms(2)
proof (induction n arbitrary: i s)
  case (Suc n)
  let ?y = "gMemoryTypeInformation s i"
  show ?case
  proof (cases "InfoType ?y = EfiMaxMemoryType \<or> InfoType ?y > EfiMaxMemoryType \<or> InfoPages ?y = 0")
    case True
    then show ?thesis using Suc by (auto simp: Let_def split: if_splits)
  next
    case False
    then obtain St m s1 where c: "CoreAllocatePages env free AllocateAnyPages (InfoType ?y) (ucast (InfoPages ?y))
          (Some (BaseAddress (mMemoryTypeStatistics s (unat (InfoType ?y))))) s = Some ((St, m), s1)"
      using Suc.prems by (auto simp: Let_def)
    have "gcd_same s1 s'"
      using Suc.prems False c by (auto simp: Let_def split: if_splits dest!: Suc.IH gcd_same_undo_bins [OF assms(1)])
    then show ?thesis using gcd_same_AllocatePages [OF assms(1) c] gcd_same_trans by blast
  qed
qed simp

lemma gcd_same_open_bins:
  assumes "stack_same free" "open_bins env free n i s = Some s'"
  shows "gcd_same s s'"
  using assms(2)
proof (induction n arbitrary: i s)
  case (Suc n)
  let ?y = "gMemoryTypeInformation s i"
  show ?case
  proof (cases "InfoType ?y = EfiMaxMemoryType \<or> InfoType ?y > EfiMaxMemoryType \<or> InfoPages ?y = 0")
    case True
    then show ?thesis using Suc by (auto simp: Let_def split: if_splits)
  next
    case False
    then obtain r s1 x y where c: "CoreFreePages env free (BaseAddress (mMemoryTypeStatistics s (unat (InfoType ?y)))) (ucast (InfoPages ?y)) s = Some (r, s1)"
        "open_bins env free n (Suc i) (put_information i y (put_statistics (InfoType ?y) x s1)) = Some s'"
      using Suc.prems by (auto simp: Let_def)
    have "gcd_same s1 (put_information i y (put_statistics (InfoType ?y) x s1))" by simp
    then show ?thesis using Suc.IH [OF c(2)] gcd_same_FreePages [OF assms(1) c(1)] gcd_same_trans by blast
  qed
qed simp

lemma gcd_same_index_type: "index_type n i T s = Some s' \<Longrightarrow> gcd_same s s'"
proof (induction n arbitrary: i T s)
  case (Suc n)
  from Suc.prems show ?case by (auto split: if_splits dest!: Suc.IH)
qed simp

lemma gcd_same_finish_types: "finish_types l s = Some s' \<Longrightarrow> gcd_same s s'"
proof (induction l arbitrary: s)
  case (Cons T l)
  obtain s1 where c: "index_type 15 0 T s = Some s1" using Cons.prems by auto
  have "gcd_same s1 s'" using Cons.prems c by (auto simp: Let_def split: if_splits dest!: Cons.IH)
  then show ?case using gcd_same_index_type [OF c] gcd_same_trans by blast
qed simp

theorem gcd_same_AddMemoryDescriptor:
  assumes "stack_same free" "CoreAddMemoryDescriptor env free T a n A s = Some s'"
  shows "gcd_same s s'"
proof (cases "s' = s")
  case False
  obtain s1 s2 s3 s4 s5 b where c: "CoreAcquireMemoryLock s = Some s1" "CoreAddRange env T a b A s1 = Some s2" "free s2 = Some s3"
      "CoreReleaseMemoryLock s3 = Some s4"
      "(if PcdLoadModuleAtFixAddressEnable env \<noteq> 0 then CoreLoadingFixedAddressHook env free s4 else Some s4) = Some s5"
      "(if mMemoryTypeInformationInitialized s5 then Some s5
        else do {
          (ok, s) \<leftarrow> reserve_bins env free 15 0 s5;
          if \<not> ok then Some s
          else do {
            s \<leftarrow> open_bins env free 15 0 s;
            s \<leftarrow> finish_types (map of_nat [0..<14]) s;
            Some (s\<lparr>mMemoryTypeInformationInitialized := True\<rparr>)
          }
        }) = Some s'"
    proof -
    have k: "CoreAddMemoryDescriptor env free T a n A s = Some s" if "a AND EFI_PAGE_MASK \<noteq> 0 \<or> T \<ge> EfiMaxMemoryType \<and> T \<le> 0x7fffffff"
      using that unfolding CoreAddMemoryDescriptor_def by (elim disjE) (simp_all only: if_True if_False if_cancel conj_absorb simp_thms)
    have n: "\<not> a AND EFI_PAGE_MASK \<noteq> 0" "\<not> (T \<ge> EfiMaxMemoryType \<and> T \<le> 0x7fffffff)"
      using assms(2) False k by fastforce+
    show thesis using assms(2) unfolding CoreAddMemoryDescriptor_def Let_def if_not_P [OF n(1)] if_not_P [OF n(2)] bind_eq_Some_conv
      by (blast intro: that)
  qed
  have "gcd_same s s1" "gcd_same s1 s2" "gcd_same s2 s3" "gcd_same s3 s4"
    using gcd_same_locks c(1,4) gcd_same_AddRange [OF c(2)] assms(1) c(3) by (auto simp: stack_same_def)
  moreover have "gcd_same s4 s5" using c(5) gcd_same_Hook [OF assms(1)] by (auto split: if_splits)
  moreover have "gcd_same s5 s'"
  proof (cases "mMemoryTypeInformationInitialized s5")
    case False
    then obtain ok s6 where r: "reserve_bins env free 15 0 s5 = Some (ok, s6)" using c(6) by (auto simp del: finish_types.simps upt.simps)
    note g = gcd_same_reserve_bins [OF assms(1) r]
    show ?thesis
    proof (cases ok)
      case True
      then obtain s7 s8 where o: "open_bins env free 15 0 s6 = Some s7" "finish_types (map of_nat [0..<14]) s7 = Some s8"
          "s' = s8\<lparr>mMemoryTypeInformationInitialized := True\<rparr>"
        using c(6) False r by (auto simp del: finish_types.simps upt.simps)
      have "gcd_same s7 s'" using gcd_same_finish_types [OF o(2)] o(3) by simp
      then show ?thesis using g gcd_same_open_bins [OF assms(1) o(1)] gcd_same_trans by blast
    next
      case no: False
      then show ?thesis using c(6) False r g by simp
    qed
  qed (use c(6) in simp)
  ultimately show ?thesis using gcd_same_trans by blast
qed simp

end
