(* ===== verification/GcdPool.thy ===== *)
theory GcdPool
  imports GcdFaults GcdFrame HandlePool
begin

text \<open>
  The global coherency domain on the pool and the page allocator of the core, which share the map of the memory space and its lock with it.
\<close>

section \<open>What the pool does to the map\<close>

definition pools_same :: "'e pools \<Rightarrow> 'e pools \<Rightarrow> bool" where
  "pools_same st st' \<longleftrightarrow> gcd_same (PageState st) (PageState st')"

lemma pools_same_refl [simp]: "pools_same st st"
  by (simp add: pools_same_def)

lemma pools_same_trans: "pools_same st st' \<Longrightarrow> pools_same st' st'' \<Longrightarrow> pools_same st st''"
  unfolding pools_same_def by (rule gcd_same_trans)

lemma pools_same_simps [simp]:
  "pools_same st (put_pool T f st') = pools_same st st'" "pools_same st (unlink_block a st') = pools_same st st'"
  "pools_same st (st'\<lparr>Blocks := b\<rparr>) = pools_same st st'" "pools_same st (st'\<lparr>mPoolHeadList := l\<rparr>) = pools_same st st'"
  "pools_same st (DebugClearBlocks env a n st') = pools_same st st'" "pools_same st (fill_block env a T n st') = pools_same st st'"
  by (simp_all add: pools_same_def put_pool_def unlink_block_def DebugClearBlocks_def fill_block_def Let_def)

lemma pools_same_fold:
  assumes "\<And>x t. pools_same st (f x t) = pools_same st t"
  shows "pools_same st (fold f l st') = pools_same st st'"
  by (induction l arbitrary: st') (simp_all add: assms)

lemma pools_same_carve [simp]: "pools_same st (carve_page a T i st') = pools_same st st'"
proof -
  have "pools_same st (carve_block a T x t) = pools_same st t" for x t by (cases x) (simp add: Let_def)
  then show ?thesis unfolding carve_page_def by (rule pools_same_fold)
qed

lemma pools_same_pages:
  assumes "stack_same free"
  shows "AllocatePages env free T n st = Some (a, st') \<Longrightarrow> pools_same st st'" "FreePages env free a n st = Some st' \<Longrightarrow> pools_same st st'"
  using gcd_same_AllocatePoolPages [OF assms] gcd_same_FreePoolPages [OF assms]
  by (auto simp: AllocatePages_def FreePages_def pools_same_def)

lemma pop_free_block: "pop_free T i st = Some (a, st') \<Longrightarrow> st' = unlink_block a st"
proof -
  assume p: "pop_free T i st = Some (a, st')"
  then obtain Pool where P: "pool_of st T = Some Pool" by (auto simp: pop_free_def)
  show ?thesis using p P by (cases "FreeList Pool i") (auto simp: pop_free_def)
qed

lemma pools_same_take_block:
  assumes "stack_same free" "take_block env free T n st = Some (a, st')"
  shows "pools_same st st'"
proof (cases "SIZE_TO_LIST n \<ge> 32")
  case True
  then show ?thesis using assms(2) pools_same_pages(1) [OF assms(1)] by (simp add: take_block_def)
next
  case False
  then obtain Pool where P: "pool_of st T = Some Pool" using assms(2) by (auto simp: take_block_def Let_def)
  then obtain got st1 where c: "(if FreeList Pool (unat (SIZE_TO_LIST n)) = [] then do {
         (NewPage, st) \<leftarrow> AllocatePages env free T (EFI_SIZE_TO_PAGES DEFAULT_PAGE_ALLOCATION) st;
         if NewPage = 0 then Some (False, st) else Some (True, carve_page NewPage T (unat (SIZE_TO_LIST n)) st)
       } else Some (True, st)) = Some (got, st1)" "(if \<not> got then Some (0, st1) else pop_free T (unat (SIZE_TO_LIST n)) st1) = Some (a, st')"
    using assms(2) False by (simp add: take_block_def Let_def) blast
  have "pools_same st st1" using c(1) pools_same_pages(1) [OF assms(1)] by (auto split: if_splits)
  moreover have "pools_same st1 st'" using c(2) by (auto split: if_splits dest: pop_free_block)
  ultimately show ?thesis by (rule pools_same_trans)
qed

lemma pools_same_Lookup:
  assumes "LookupPoolHead alloc T st = Some (hit, st')" "\<And>a st'. alloc st = Some (a, st') \<Longrightarrow> pools_same st st'"
  shows "pools_same st st'"
  using assms by (auto simp: LookupPoolHead_def split: if_splits)

lemma pools_same_AllocatePoolI:
  assumes "stack_same free" "CoreAllocatePoolI env free k T n st = Some (a, st')"
  shows "pools_same st st'"
  using assms(2)
proof (induction k arbitrary: T n st a st')
  case (Suc k)
  let ?n = "ALIGN_VARIABLE n + POOL_OVERHEAD"
  obtain hit st1 where c: "LookupPoolHead (CoreAllocatePoolI env free k EfiBootServicesData SIZE_OF_POOL) T st = Some (hit, st1)"
      "(if \<not> hit then Some (0, st1)
        else do {
          (Head, st) \<leftarrow> take_block env free T ?n st1;
          if Head = 0 then Some (0, st) else Some (Head + SIZE_OF_POOL_HEAD, fill_block env Head T ?n st)
        }) = Some (a, st')"
    using Suc.prems by (auto simp: Let_def)
  have "pools_same st1 st'" using c(2) pools_same_take_block [OF assms(1)] by (auto split: if_splits)
  moreover have "pools_same st st1" by (rule pools_same_Lookup [OF c(1)]) (rule Suc.IH)
  ultimately show ?case using pools_same_trans by blast
qed simp

lemma pools_same_lock [simp]: "pools_same (st\<lparr>PageState := (PageState st)\<lparr>gMemoryLock := b\<rparr>\<rparr>) st' = pools_same st st'"
  by (simp add: pools_same_def)

lemma pools_same_AllocatePool:
  assumes "stack_same free" "CoreAllocatePool env free k T n Buffer st = Some (r, st')"
  shows "pools_same st st'"
proof (cases "st' = st")
  case False
  then obtain b st1 s where c: "CoreAllocatePoolI env free k T n (st\<lparr>PageState := (PageState st)\<lparr>gMemoryLock := True\<rparr>\<rparr>) = Some (b, st1)"
      "CoreReleaseMemoryLock (PageState st1) = Some s" "st' = st1\<lparr>PageState := s\<rparr>"
    using assms(2) by (auto simp: CoreAllocatePool_def Let_def split: if_splits)
  have "pools_same st st1" using pools_same_AllocatePoolI [OF assms(1) c(1)] by simp
  moreover have "pools_same st1 st'" using gcd_same_locks(2) [OF c(2)] c(3) by (simp add: pools_same_def)
  ultimately show ?thesis by (rule pools_same_trans)
qed simp

lemma pools_same_give_back:
  assumes "stack_same free" "give_back env free a T n st = Some st'"
  shows "pools_same st st'"
proof -
  have r: "pools_same st st'" if h: "release_page env free a st = Some st'" for a st st'
  proof -
    have f: "pools_same st (fold (\<lambda>(Offset, _). unlink_block (a + of_nat Offset)) l st)" for l :: "(nat \<times> nat) list"
      by (subst pools_same_fold) auto
    show ?thesis
    proof (cases "st' = st")
      case False
      then obtain i where "FreePages env free a (EFI_SIZE_TO_PAGES DEFAULT_PAGE_ALLOCATION)
          (fold (\<lambda>(Offset, _). unlink_block (a + of_nat Offset)) (pool_blocks i 0) st) = Some st'"
        using h by (auto simp: release_page_def split: option.splits pool_block.splits if_splits)
      then show ?thesis using pools_same_pages(2) [OF assms(1)] f pools_same_trans by blast
    qed simp
  qed
  show ?thesis
  proof (cases "SIZE_TO_LIST n \<ge> 32")
    case True
    then show ?thesis using assms(2) pools_same_pages(2) [OF assms(1)] by (simp add: give_back_def)
  next
    case False
    let ?st = "put_pool T (\<lambda>p. p\<lparr>FreeList := (FreeList p)(unat (SIZE_TO_LIST n) := a # FreeList p (unat (SIZE_TO_LIST n)))\<rparr>)
        (st\<lparr>Blocks := (Blocks st)(a \<mapsto> POOL_FREE (unat (SIZE_TO_LIST n)))\<rparr>)"
    have "pools_same ?st st'" using assms(2) False by (intro r) (simp add: give_back_def Let_def)
    moreover have "pools_same st ?st" by simp
    ultimately show ?thesis using pools_same_trans by blast
  qed
qed

lemma pools_same_FreePoolI:
  assumes "stack_same free" "CoreFreePoolI env free k a st = Some (r, st')"
  shows "pools_same st st'"
  using assms(2)
proof (induction k arbitrary: a st r st')
  case (Suc k)
  let ?h = "a - SIZE_OF_POOL_HEAD"
  obtain T n where h: "Blocks st ?h = Some (POOL_HEAD T n)"
    using Suc.prems by (auto simp: Let_def split: option.splits pool_block.splits)
  then obtain hit st1 where f: "LookupPoolHead (CoreAllocatePoolI env free k EfiBootServicesData SIZE_OF_POOL) T st = Some (hit, st1)"
    using Suc.prems by (auto simp: Let_def)
  have s1: "pools_same st st1" using pools_same_Lookup [OF f] pools_same_AllocatePoolI [OF assms(1)] by blast
  show ?case
  proof (cases hit)
    case False
    then show ?thesis using Suc.prems h f s1 by (auto simp: Let_def)
  next
    case True
    let ?st = "DebugClearBlocks env ?h n (put_pool T (\<lambda>p. p\<lparr>Used := Used p - n\<rparr>) st1)"
    obtain st2 Pool where g: "give_back env free ?h T n ?st = Some st2" "pool_of st2 T = Some Pool"
        "(if T \<ge> 0x80000000 \<and> Used Pool = 0 then
            (case List.extract (\<lambda>x. fst x = T) (mPoolHeadList st2) of
               Some (pre, (_, a, _), post) \<Rightarrow> do { (_, st) \<leftarrow> CoreFreePoolI env free k a (st2\<lparr>mPoolHeadList := pre @ post\<rparr>); Some (EFI_SUCCESS, st) }
             | None \<Rightarrow> None)
          else Some (EFI_SUCCESS, st2)) = Some (r, st')"
      using Suc.prems h f True by (auto simp: Let_def)
    have "pools_same st ?st" using s1 by simp
    then have s2: "pools_same st st2" using pools_same_give_back [OF assms(1) g(1)] pools_same_trans by blast
    have "pools_same st2 st'"
    proof (cases "T \<ge> 0x80000000 \<and> Used Pool = 0")
      case True
      then obtain b pre post x where "CoreFreePoolI env free k b (st2\<lparr>mPoolHeadList := pre @ post\<rparr>) = Some (x, st')"
        using g(3) by (auto split: option.splits prod.splits)
      from Suc.IH [OF this] show ?thesis by (simp add: pools_same_def)
    next
      case False
      then show ?thesis using g(3) by (auto split: if_splits)
    qed
    then show ?thesis using s2 pools_same_trans by blast
  qed
qed simp

lemma pools_same_FreePool:
  assumes "stack_same free" "CoreFreePool env free k a st = Some (r, st')"
  shows "pools_same st st'"
proof (cases "a = 0")
  case False
  then obtain s st1 s' where c: "CoreAcquireMemoryLock (PageState st) = Some s" "CoreFreePoolI env free k a (st\<lparr>PageState := s\<rparr>) = Some (r, st1)"
      "CoreReleaseMemoryLock (PageState st1) = Some s'" "st' = st1\<lparr>PageState := s'\<rparr>"
    using assms(2) by (auto simp: CoreFreePool_def)
  have "pools_same st (st\<lparr>PageState := s\<rparr>)" using gcd_same_locks(1) [OF c(1)] by (simp add: pools_same_def)
  moreover have "pools_same st1 st'" using gcd_same_locks(2) [OF c(3)] c(4) by (simp add: pools_same_def)
  ultimately show ?thesis using pools_same_FreePoolI [OF assms(1) c(2)] pools_same_trans by blast
qed (use assms(2) in \<open>simp add: CoreFreePool_def\<close>)

section \<open>Sharing the map\<close>

text \<open>\<open>GcdRest\<close> is the pool; the map and the lock in its page allocator are those of the global coherency domain.\<close>

definition share :: "'e pools gcd \<Rightarrow> 'e pools" where
  "share s = (GcdRest s)\<lparr>PageState :=
     (PageState (GcdRest s))\<lparr>mGcdMemorySpaceMap := MemorySpaceMap s, mGcdMemorySpaceLock := MemorySpaceLock s\<rparr>\<rparr>"

definition unshare :: "'e pools \<Rightarrow> 'e pools gcd \<Rightarrow> 'e pools gcd" where
  "unshare st s = s\<lparr>MemorySpaceMap := mGcdMemorySpaceMap (PageState st), MemorySpaceLock := mGcdMemorySpaceLock (PageState st), GcdRest := st\<rparr>"

lemma unshare_same:
  assumes "pools_same (share s) st"
  shows "same_spaces s (unshare st s)"
  using assms by (auto simp: pools_same_def gcd_same_def share_def unshare_def same_spaces_def)

definition core_gcd_env ::
  "'e pool_env \<Rightarrow> 'e free_stack \<Rightarrow> nat \<Rightarrow> (u64 \<Rightarrow> u64 \<Rightarrow> u64 \<Rightarrow> 'e pools \<Rightarrow> efi_status \<times> 'e pools) option \<Rightarrow> nat \<Rightarrow> 'e pools gcd_env" where
  "core_gcd_env penv free n cpu core = \<lparr>
     GcdAllocatePool = (\<lambda>Size s. do {
       (a, st) \<leftarrow> InternalAllocatePool penv free n EfiBootServicesData Size (share s);
       Some (a, unshare st s) }),
     GcdFreePool = (\<lambda>Buffer s. do { (_, st) \<leftarrow> CoreFreePool penv free n Buffer (share s); Some (unshare st s) }),
     Cpu = cpu,
     AddMemoryDescriptor = (\<lambda>B NumberOfPages C s. do {
       m \<leftarrow> CoreAddMemoryDescriptor (PagesEnv penv) free EfiConventionalMemory B NumberOfPages C (PageState (share s));
       Some (unshare ((share s)\<lparr>PageState := m\<rparr>) s) }),
     CoreImageHandle = core\<rparr>"

lemma core_gcd_pool:
  assumes "stack_same free"
  shows "gcd_pool (core_gcd_env penv free n cpu core)"
proof (unfold_locales, goal_cases)
  case (1 Size s a s')
  then obtain st where i: "InternalAllocatePool penv free n EfiBootServicesData Size (share s) = Some (a, st)" "s' = unshare st s"
    by (auto simp: core_gcd_env_def)
  obtain r where "CoreAllocatePool penv free n EfiBootServicesData Size True (share s) = Some (r, st)"
    using i(1) by (auto simp: InternalAllocatePool_def split: if_splits)
  then show ?case using unshare_same pools_same_AllocatePool [OF assms] i(2) by blast
next
  case (2 a s s')
  then show ?case using unshare_same pools_same_FreePool [OF assms] by (fastforce simp: core_gcd_env_def)
next
  case (3 B NumberOfPages C s s')
  then obtain m where m: "CoreAddMemoryDescriptor (PagesEnv penv) free EfiConventionalMemory B NumberOfPages C (PageState (share s)) = Some m"
      "s' = unshare ((share s)\<lparr>PageState := m\<rparr>) s"
    by (auto simp: core_gcd_env_def)
  have "pools_same (share s) ((share s)\<lparr>PageState := m\<rparr>)" using gcd_same_AddMemoryDescriptor [OF assms m(1)] by (simp add: pools_same_def)
  then show ?case using unshare_same m(2) by blast
qed

interpretation core_space: gcd_pool "core_gcd_env penv (CoreFreeMemoryMapStack (PagesEnv penv) m) n cpu core" for penv m n cpu core
  by (rule core_gcd_pool [OF stack_same_free])

end
