(* ===== verification/GcdExamples.thy ===== *)
theory GcdExamples
  imports GcdPool PoolExamples
begin

text \<open>
  What the global coherency domain promises on the pool and the page allocator of the core, applied to a small space.
\<close>

text \<open>The environment of the services: the pool, the page allocator and the memory map of the core, and any processor.\<close>

definition core_gcd ::
  "'e pool_env \<Rightarrow> nat \<Rightarrow> nat \<Rightarrow> (u64 \<Rightarrow> u64 \<Rightarrow> u64 \<Rightarrow> 'e pools \<Rightarrow> efi_status \<times> 'e pools) option \<Rightarrow> nat \<Rightarrow> 'e pools gcd_env" where
  "core_gcd penv m n cpu core = core_gcd_env penv (CoreFreeMemoryMapStack (PagesEnv penv) m) n cpu core"

section \<open>The properties\<close>

text \<open>C33. Whatever services of the global coherency domain are called, in whatever order and with whatever arguments, as long as no range goes past the end of
  the 64-bit address space and no search asks for more than 2 ^ 63 addresses: whenever the calls return, the entries of the memory map and of the I/O map still cover their spaces, from the first address
  to the last, in order, without a gap and without an overlap.  That holds on the pool and the page allocator of the core, which use the memory map
  themselves when they promote memory.  The spaces have at most 2 ^ 63 addresses.\<close>

theorem gcd_services_keep_maps:
  assumes "gcd_services (core_gcd penv m n cpu core) l s = Some s'" "\<forall>c\<in>set l. unwrapped c"
    "tiles 0 (MemorySpaceMap s) zm" "tiles 0 (IoSpaceMap s) zi" "0 < zm" "zm \<le> 2 ^ 63" "0 < zi" "zi \<le> 2 ^ 63"
  shows "tiles 0 (MemorySpaceMap s') zm \<and> tiles 0 (IoSpaceMap s') zi"
  using core_space.gcd_services_ok [OF assms(1) [unfolded core_gcd_def] _ assms(2), of zm zi] assms(3-8) by (simp add: gcd_ok_def)

text \<open>C8. Adding, freeing or removing a range, or setting its attributes, changes that range and nothing else, or nothing at all: when the call succeeds,
  every address of the range was in the space and was free for the operation, and what the map says of it has changed as the operation asks, while every
  address outside has what it had; when it fails, the map is as it was.  When every address of the range allows the operation, adding, freeing and removing fail only for
  want of memory (setting attributes also when the processor's driver refuses).  A map without neighbours that could be merged is left without any.
  (The call returns, the map covered its space in order, and the range does not go past the end of the 64-bit address space.)\<close>

theorem ConvertSpace_changes:
  assumes "CoreConvertSpace (core_gcd penv m n cpu core) Op T IoT B L C A s = Some (Status, s')"
    "tiles 0 (space_map Op s) z" "unat B + unat L \<le> 2 ^ 64"
  defines "granted \<equiv> L \<noteq> 0 \<and> (\<forall>x. unat B \<le> x \<longrightarrow> x < unat B + unat L \<longrightarrow>
      (\<exists>r. region_at (space_map Op s) x = Some r \<and> check_entry Op A B L r = EFI_SUCCESS))"
  shows "(if Status = EFI_SUCCESS
      then granted \<and> (\<forall>x. region_at (space_map Op s') x =
        (if unat B \<le> x \<and> x < unat B + unat L then map_option (change_entry Op T IoT C A) (region_at (space_map Op s) x) else region_at (space_map Op s) x))
      else space_map Op s' = space_map Op s) \<and>
    (granted \<longrightarrow> Op \<noteq> GCD_SET_ATTRIBUTES_MEMORY_OPERATION \<longrightarrow> Status = EFI_SUCCESS \<or> Status = EFI_OUT_OF_RESOURCES) \<and>
    tiles 0 (space_map Op s') z \<and> (successively (\<lambda>e a. \<not> mergeable e a) (space_map Op s) \<longrightarrow> successively (\<lambda>e a. \<not> mergeable e a) (space_map Op s'))"
proof -
  have g: "granted = allowed (check_entry Op A B L) B L (space_map Op s)" unfolding granted_def allowed_def passes_def ..
  note c = assms(1) [unfolded core_gcd_def]
  show ?thesis using core_space.ConvertSpace_outcome [OF c assms(2,3)] core_space.ConvertSpace_allowed [OF c assms(2,3)]
    unfolding g outcome_def changed_def GcdMap.merged_def by auto
qed

lemma free_for_allocation:
  "CoreAllocateSpaceCheckEntry Op r T IoT = EFI_SUCCESS \<longleftrightarrow> ImageHandle r = 0 \<and>
     (Op = GCD_ALLOCATE_MEMORY_OPERATION \<and> GcdMemoryType r = T \<or> Op = GCD_ALLOCATE_IO_OPERATION \<and> GcdIoType r = IoT)"
  by (auto simp: CoreAllocateSpaceCheckEntry_def)

text \<open>C35. Allocating from the space finds the place that was asked for and takes exactly that.  When it succeeds, the place is aligned, not above the limit
  of the request, every address of it belonged to nobody and had the type asked for, and now belongs to the caller, with nothing else changed; at an address it is
  that address, and searching upward it is the lowest place there is.  When it answers EFI_NOT_FOUND, the address asked for does not fit, and, searching
  upward, no place does.  With any failure the map is as it was.  (The call returns, the map covered its space in order, the space has at most 2 ^ 63 addresses, the alignment is below 2 ^ 64, a range at an address
  does not go past the end of the 64-bit address space, and a search asks for at most 2 ^ 63 addresses.  The limit is the one given, or the last address of the space.)\<close>

theorem AllocateSpace_finds:
  assumes "CoreAllocateSpace (core_gcd penv m n cpu core) Op (Some Type) (Some T) (Some IoT) A L (Some B) Owner Dev s = Some ((Status, Some B'), s')"
    "tiles 0 (space_map Op s) z" "0 < z" "z \<le> 2 ^ 63" "A < 64"
    "if Type = EfiGcdAllocateAddress then unat B + unat L \<le> 2 ^ 64 else unat L \<le> 2 ^ 63"
  defines "limit \<equiv> (if Type = EfiGcdAllocateAddress then - 1
      else if Type = EfiGcdAllocateMaxAddressSearchBottomUp \<or> Type = EfiGcdAllocateMaxAddressSearchTopDown then B else GcdEnd (last (space_map Op s)))"
    and "up \<equiv> Type = EfiGcdAllocateAnySearchBottomUp \<or> Type = EfiGcdAllocateMaxAddressSearchBottomUp"
  defines "room \<equiv> \<lambda>y. y mod 2 ^ unat A = 0 \<and> y + unat L \<le> unat limit + 1 \<and> (\<forall>x. y \<le> x \<longrightarrow> x < y + unat L \<longrightarrow>
      (\<exists>r. region_at (space_map Op s) x = Some r \<and> ImageHandle r = 0 \<and>
        (Op = GCD_ALLOCATE_MEMORY_OPERATION \<and> GcdMemoryType r = T \<or> Op = GCD_ALLOCATE_IO_OPERATION \<and> GcdIoType r = IoT)))"
  shows "(if Status = EFI_SUCCESS
      then room (unat B') \<and> (Type = EfiGcdAllocateAddress \<longrightarrow> B' = B) \<and> (up \<longrightarrow> (\<forall>y. room y \<longrightarrow> unat B' \<le> y)) \<and>
        (\<forall>x. region_at (space_map Op s') x = (if unat B' \<le> x \<and> x < unat B' + unat L
          then map_option (\<lambda>r. r\<lparr>ImageHandle := Owner, DeviceHandle := Dev\<rparr>) (region_at (space_map Op s) x) else region_at (space_map Op s) x))
      else space_map Op s' = space_map Op s) \<and>
    (Status = EFI_NOT_FOUND \<longrightarrow> (Type = EfiGcdAllocateAddress \<longrightarrow> \<not> room (unat B)) \<and> (up \<longrightarrow> (\<forall>y. \<not> room y))) \<and>
    tiles 0 (space_map Op s') z \<and> (successively (\<lambda>e a. \<not> mergeable e a) (space_map Op s) \<longrightarrow> successively (\<lambda>e a. \<not> mergeable e a) (space_map Op s'))"
proof -
  let ?check = "\<lambda>e. CoreAllocateSpaceCheckEntry Op e T IoT"
  have p: "room y = GcdAllocate.fits ?check (unat A) L (highest_address Type (space_map Op s) B) (space_map Op s) y" for y
    unfolding room_def limit_def GcdAllocate.fits_def highest_address_def passes_def free_for_allocation ..
  have u: "up = bottom_up Type" unfolding up_def bottom_up_def ..
  have w: "no_wrap Type B L" using assms(6) unfolding no_wrap_def .
  note c = assms(1) [unfolded core_gcd_def]
  have nf: "Status = EFI_NOT_FOUND \<longrightarrow> (Type = EfiGcdAllocateAddress \<longrightarrow> \<not> room (unat B)) \<and> (up \<longrightarrow> (\<forall>y. \<not> room y))"
    using AllocateSpace_not_found [of "core_gcd_env penv (CoreFreeMemoryMapStack (PagesEnv penv) m) n cpu core", OF _ assms(2-4) w assms(5)] c
    unfolding p u by blast
  from core_space.AllocateSpace_outcome [OF c assms(2) assms(4,3) w] nf show ?thesis
    unfolding p u outcome_def changed_def place_ok_def GcdMap.merged_def by (auto split: if_splits)
qed

text \<open>C37. Freeing memory space undoes its allocation: a range that was allocated, wherever, and is freed again leaves the same entries in the map (as
  structures they may lie elsewhere), or else the second call has run out of memory and the map still shows the range as allocated.
  (Both calls return; the map had no neighbours that could be merged and no device without an image, has at most 2 ^ 63 addresses; a range at an address does not go
  past the end of the 64-bit address space, and a search asks for at most 2 ^ 63 addresses.)\<close>

theorem allocate_free_space:
  assumes "CoreAllocateMemorySpace (core_gcd penv m n cpu core) (Some Type) (Some T) A L (Some B) Owner Dev s = Some ((EFI_SUCCESS, Some B'), s1)"
    "CoreFreeMemorySpace (core_gcd penv m n cpu core) B' L s1 = Some (Status, s2)"
    "tiles 0 (MemorySpaceMap s) z" "0 < z" "z \<le> 2 ^ 63" "if Type = EfiGcdAllocateAddress then unat B + unat L \<le> 2 ^ 64 else unat L \<le> 2 ^ 63"
    "successively (\<lambda>e a. \<not> mergeable e a) (MemorySpaceMap s)" "\<forall>e\<in>set (MemorySpaceMap s). ImageHandle e = 0 \<longrightarrow> DeviceHandle e = 0"
  shows "Status = EFI_OUT_OF_RESOURCES \<and> MemorySpaceMap s2 = MemorySpaceMap s1 \<or>
    Status = EFI_SUCCESS \<and> map (\<lambda>e. e\<lparr>GcdAt := 0\<rparr>) (MemorySpaceMap s2) = map (\<lambda>e. e\<lparr>GcdAt := 0\<rparr>) (MemorySpaceMap s)"
  using core_space.allocate_and_free [OF assms(1,2) [unfolded core_gcd_def]] assms(3-8) by (simp add: no_wrap_def handles_ok_def GcdMap.merged_def)

text \<open>C38. A range that goes past the end of the 64-bit address space and begins, after the entry does, and ends in one entry of the map, which covered its space in order, breaks the map:
  whenever removing it succeeds, the entry has become three, of which the first and the third overlap, so that the map no longer covers the space in order.
  Nothing tests the length against the base.\<close>

theorem RemoveMemorySpace_wraps:
  assumes "CoreRemoveMemorySpace (core_gcd penv m n cpu core) B L s = Some (EFI_SUCCESS, s')" "tiles 0 (MemorySpaceMap s) z"
    "MemorySpaceMap s = pre @ e # post" "2 ^ 64 < unat B + unat L" "GcdBase e < B" "B \<le> GcdEnd e" "GcdBase e \<le> B + L - 1"
  shows "(\<exists>b t. MemorySpaceMap s' = pre @ [e\<lparr>GcdAt := b, GcdEnd := B - 1\<rparr>,
      e\<lparr>GcdBase := B, GcdEnd := B + L - 1, GcdMemoryType := EfiGcdMemoryTypeNonExistent, Capabilities := 0\<rparr>, e\<lparr>GcdAt := t, GcdBase := B + L\<rparr>] @ post) \<and>
    B + L \<le> B - 1 \<and> (\<forall>z. \<not> tiles 0 (MemorySpaceMap s') z)"
proof -
  have w: "wraps_in B L e" using assms(4-7) by (simp add: wraps_in_def)
  obtain b t where m: "MemorySpaceMap s' = pre @ [e\<lparr>GcdAt := b, GcdEnd := B - 1\<rparr>,
      e\<lparr>GcdBase := B, GcdEnd := B + L - 1, GcdMemoryType := EfiGcdMemoryTypeNonExistent, Capabilities := 0\<rparr>, e\<lparr>GcdAt := t, GcdBase := B + L\<rparr>] @ post"
    using core_space.remove_wrapped [OF assms(1) [unfolded core_gcd_def] assms(3,2) w] by blast
  then show ?thesis using wraps_in(3) [OF w] by (auto dest!: overlap_breaks)
qed

section \<open>A small space\<close>

text \<open>A pool with three blocks of 128 bytes, the first of them in use, and a memory space of sixteen pages.\<close>

definition demo_space :: "u64 \<Rightarrow> u64 \<Rightarrow> u64 \<Rightarrow> gcd_memory_type \<Rightarrow> nat \<Rightarrow> u64 \<Rightarrow> gcd_entry" where
  "demo_space a B E T Owner C = \<lparr>GcdAt = a, GcdBase = B, GcdEnd = E, Capabilities = C, Attributes = 0, GcdMemoryType = T,
     GcdIoType = EfiGcdIoTypeNonExistent, ImageHandle = Owner, DeviceHandle = 0\<rparr>"

lemma demo_space_fields [simp]:
  "GcdAt (demo_space a B E T Owner C) = a" "GcdBase (demo_space a B E T Owner C) = B" "GcdEnd (demo_space a B E T Owner C) = E"
  "GcdMemoryType (demo_space a B E T Owner C) = T" "ImageHandle (demo_space a B E T Owner C) = Owner" "DeviceHandle (demo_space a B E T Owner C) = 0"
  "Capabilities (demo_space a B E T Owner C) = C" "gcd_entry.Attributes (demo_space a B E T Owner C) = 0" "GcdIoType (demo_space a B E T Owner C) = EfiGcdIoTypeNonExistent"
  by (simp_all add: demo_space_def)

definition demo_heads :: "u64 list \<Rightarrow> u64 \<Rightarrow> nat \<Rightarrow> pool" where
  "demo_heads l u T = (if T = 4 then \<lparr>Used = u, FreeList = (\<lambda>i. if i = 0 then l else [])\<rparr> else empty_pool)"

definition demo_state ::
  "gcd_entry list \<Rightarrow> bool \<Rightarrow> gcd_entry list \<Rightarrow> bool \<Rightarrow> u64 list \<Rightarrow> (u64 \<rightharpoonup> pool_block) \<Rightarrow> (u64 \<rightharpoonup> u64) \<Rightarrow> u64 \<Rightarrow> unit pools gcd" where
  "demo_state Map k Map' k' l b t u = \<lparr>MemorySpaceMap = Map, MemorySpaceLock = k, IoSpaceMap = [demo_space 0 0 0xFFFF EfiGcdMemoryTypeNonExistent 0 0], IoSpaceLock = False,
     GcdRest = \<lparr>PageState = demo_mem\<lparr>mGcdMemorySpaceMap := Map', mGcdMemorySpaceLock := k'\<rparr>, Blocks = b, Tails = t,
        mPoolHead = demo_heads l u, mPoolHeadList = []\<rparr>\<rparr>"

definition demo_gcd_env :: "unit pools gcd_env" where
  "demo_gcd_env = core_gcd demo_pool_env 1 1 None 1"

lemma demo_state_fields [simp]:
  "MemorySpaceMap (demo_state Map k Map' k' l b t u) = Map" "memory_operation Op \<Longrightarrow> space_map Op (demo_state Map k Map' k' l b t u) = Map"
  "memory_operation Op \<Longrightarrow> acquire_space Op (demo_state Map False Map' k' l b t u) = Some (demo_state Map True Map' k' l b t u)"
  "memory_operation Op \<Longrightarrow> release_space Op (demo_state Map True Map' k' l b t u) = Some (demo_state Map False Map' k' l b t u)"
  "memory_operation Op \<Longrightarrow> put_map Op Map'' (demo_state Map k Map' k' l b t u) = demo_state Map'' k Map' k' l b t u"
  "memory_operation GCD_ALLOCATE_MEMORY_OPERATION" "memory_operation GCD_FREE_MEMORY_OPERATION" "memory_operation GCD_REMOVE_MEMORY_OPERATION"
  by (simp_all add: demo_state_def space_map_def memory_operation_def acquire_space_def release_space_def put_map_def)

lemma demo_allocates:
  assumes "a \<noteq> 0" "a + 24 \<noteq> 0" "a \<notin> set l" "is_free (b a)"
  shows "GcdAllocatePool demo_gcd_env 80 (demo_state Map k Map' k' (a # l) b t u) =
    Some (a + 24, demo_state Map k Map k l (b(a \<mapsto> POOL_HEAD 4 120)) (t(104 + a \<mapsto> 120)) (u + 120))"
proof -
  have h: "(\<lambda>p. p\<lparr>FreeList := \<lambda>i. removeAll a (FreeList p i)\<rparr>) \<circ> demo_heads (a # l) u = demo_heads l u"
    using assms(3) by (auto simp: fun_eq_iff demo_heads_def empty_pool_def)
  have g: "(demo_heads l u)(4 := demo_heads l u 4\<lparr>Used := Used (demo_heads l u 4) + 120\<rparr>) = demo_heads l (u + 120)"
    by (auto simp: fun_eq_iff demo_heads_def)
  have f: "demo_heads (a # l) u 4 = \<lparr>Used = u, FreeList = (\<lambda>i. if i = 0 then a # l else [])\<rparr>" by (simp add: demo_heads_def)
  show ?thesis using assms
    by (simp add: demo_gcd_env_def core_gcd_def core_gcd_env_def InternalAllocatePool_def CoreAllocatePool_def share_def unshare_def demo_state_def demo_pool_env_def
      Let_def ALIGN_VARIABLE_def LookupPoolHead_def take_block_def SIZE_TO_LIST_def pool_of_def pop_free_def unlink_block_def fill_block_def CoreReleaseMemoryLock_def
      put_pool_def DebugClearBlocks_def demo_fields(1) h g f)
qed

lemma demo_frees:
  assumes "a + 24 \<noteq> 0" "a \<noteq> 0" "b a = Some (POOL_HEAD 4 120)" "t (104 + a) = Some 120" "b (a AND NOT 0xFFF) = Some (POOL_HEAD 4 120)" "a AND NOT 0xFFF \<noteq> a"
  shows "GcdFreePool demo_gcd_env (a + 24) (demo_state Map k Map' k' l b t u) =
    Some (demo_state Map k Map k (a # l) (b(a \<mapsto> POOL_FREE 0)) t (u - 120))"
proof -
  have g: "(demo_heads l u)(4 := demo_heads l u 4\<lparr>Used := Used (demo_heads l u 4) - 120, FreeList := (FreeList (demo_heads l u 4))(0 := a # FreeList (demo_heads l u 4) 0)\<rparr>)
      = demo_heads (a # l) (u - 120)"
    by (auto simp: fun_eq_iff demo_heads_def)
  show ?thesis using assms
    by (simp add: demo_gcd_env_def core_gcd_def core_gcd_env_def CoreFreePool_def CoreAcquireMemoryLock_def give_back_def release_page_def share_def unshare_def demo_state_def
        demo_pool_env_def Let_def LookupPoolHead_def SIZE_TO_LIST_def pool_of_def CoreReleaseMemoryLock_def put_pool_def DebugClearBlocks_def demo_fields(1) g)
qed

lemma demo_pages: "(0x3080 :: u64) AND NOT 0xFFF = 0x3000" "(0x3100 :: u64) AND NOT 0xFFF = 0x3000" "(0x3180 :: u64) AND NOT 0xFFF = 0x3000"
  by code_simp+

text \<open>The blocks that are in use, by the last digits of their addresses.\<close>

definition demo_used :: "u64 set \<Rightarrow> (u64 \<rightharpoonup> pool_block) \<Rightarrow> (u64 \<rightharpoonup> u64) \<Rightarrow> bool" where
  "demo_used A b t \<longleftrightarrow> b 0x3000 = Some (POOL_HEAD 4 120) \<and> (\<forall>a\<in>{0x3080, 0x3100, 0x3180}.
     if a \<in> A then b a = Some (POOL_HEAD 4 120) \<and> t (104 + a) = Some 120 else is_free (b a))"

lemma demo_allocate:
  assumes "demo_used A b t" "a \<in> {0x3080, 0x3100, 0x3180}" "a \<notin> A" "a \<notin> set l"
  shows "\<exists>b' t' u'. GcdAllocatePool demo_gcd_env 80 (demo_state Map k Map' k' (a # l) b t u) = Some (a + 24, demo_state Map k Map k l b' t' u') \<and>
    demo_used (insert a A) b' t'"
proof (intro exI conjI)
  show "GcdAllocatePool demo_gcd_env 80 (demo_state Map k Map' k' (a # l) b t u) =
    Some (a + 24, demo_state Map k Map k l (b(a \<mapsto> POOL_HEAD 4 120)) (t(104 + a \<mapsto> 120)) (u + 120))"
    using assms by (intro demo_allocates) (auto simp: demo_used_def)
  show "demo_used (insert a A) (b(a \<mapsto> POOL_HEAD 4 120)) (t(104 + a \<mapsto> 120))"
    using assms(1,2) by (auto simp: demo_used_def)
qed

lemma demo_free:
  assumes "demo_used A b t" "a \<in> {0x3080, 0x3100, 0x3180}" "a \<in> A"
  shows "\<exists>b' u'. GcdFreePool demo_gcd_env (a + 24) (demo_state Map k Map' k' l b t u) = Some (demo_state Map k Map k (a # l) b' t u') \<and>
    demo_used (A - {a}) b' t"
proof (intro exI conjI)
  show "GcdFreePool demo_gcd_env (a + 24) (demo_state Map k Map' k' l b t u) = Some (demo_state Map k Map k (a # l) (b(a \<mapsto> POOL_FREE 0)) t (u - 120))"
    using assms by (intro demo_frees) (auto simp: demo_used_def demo_pages)
  show "demo_used (A - {a}) (b(a \<mapsto> POOL_FREE 0)) t"
    using assms by (auto simp: demo_used_def)
qed

lemma demo_entries:
  assumes "demo_used A b t" "set [x, y] \<subseteq> {0x3080, 0x3100, 0x3180}" "x \<notin> A" "y \<notin> A" "distinct (x # y # l)"
  shows "\<exists>b' t' u'. CoreAllocateGcdMapEntry demo_gcd_env (demo_state Map k Map' k' (x # y # l) b t u) =
     Some ((EFI_SUCCESS, x + 24, y + 24), demo_state Map k Map k l b' t' u') \<and> demo_used ({x, y} \<union> A) b' t'"
proof -
  obtain b1 t1 u1 where 1: "GcdAllocatePool demo_gcd_env 80 (demo_state Map k Map' k' (x # y # l) b t u) = Some (x + 24, demo_state Map k Map k (y # l) b1 t1 u1)"
      "demo_used (insert x A) b1 t1"
    using demo_allocate [of A b t x "y # l" Map k Map' k' u] assms by auto
  obtain b2 t2 u2 where 2: "GcdAllocatePool demo_gcd_env 80 (demo_state Map k Map k (y # l) b1 t1 u1) = Some (y + 24, demo_state Map k Map k l b2 t2 u2)"
      "demo_used (insert y (insert x A)) b2 t2"
    using demo_allocate [OF 1(2), of y l Map k Map k u1] assms by auto
  have "x + 24 \<noteq> 0" "y + 24 \<noteq> 0" using assms(2) by auto
  then have "CoreAllocateGcdMapEntry demo_gcd_env (demo_state Map k Map' k' (x # y # l) b t u) =
     Some ((EFI_SUCCESS, x + 24, y + 24), demo_state Map k Map k l b2 t2 u2)" using 1(1) 2(1) by (simp add: CoreAllocateGcdMapEntry_def EFI_ERROR_def)
  then show ?thesis using 2(2) by (auto simp: insert_commute)
qed

definition demo_gcd :: "gcd_entry list \<Rightarrow> unit pools gcd" where
  "demo_gcd Map = demo_state Map False [] False [0x3080, 0x3100, 0x3180]
     [0x3000 \<mapsto> POOL_HEAD 4 120, 0x3080 \<mapsto> POOL_FREE 0, 0x3100 \<mapsto> POOL_FREE 0, 0x3180 \<mapsto> POOL_FREE 0] [0x3068 \<mapsto> 120] 120"

abbreviation demo_map :: "gcd_entry list" where
  "demo_map \<equiv> [demo_space 0 0 0xFFFF EfiGcdMemoryTypeSystemMemory 0 0xF]"

lemma demo_find:
  "find_space EfiGcdAllocateAnySearchBottomUp (\<lambda>e. CoreAllocateSpaceCheckEntry GCD_ALLOCATE_MEMORY_OPERATION e EfiGcdMemoryTypeSystemMemory EfiGcdIoTypeNonExistent)
     12 0x1000 demo_map 0 = Some (EFI_SUCCESS, 0, (0, 0))"
  by code_simp

abbreviation demo_map2 :: "gcd_entry list" where
  "demo_map2 \<equiv> [demo_space 0 0 0xFFF EfiGcdMemoryTypeSystemMemory 7 0xF, demo_space 0x3098 0x1000 0xFFFF EfiGcdMemoryTypeSystemMemory 0 0xF]"

lemma demo_space_updates [simp]:
  "(demo_space a B E T Owner C)\<lparr>GcdAt := x\<rparr> = demo_space x B E T Owner C"
  "(demo_space a B E T Owner C)\<lparr>GcdBase := x\<rparr> = demo_space a x E T Owner C"
  "(demo_space a B E T Owner C)\<lparr>GcdEnd := x\<rparr> = demo_space a B x T Owner C"
  "(demo_space a B E T Owner C)\<lparr>ImageHandle := n, DeviceHandle := 0\<rparr> = demo_space a B E T n C"
  "(demo_space a B E T Owner C)\<lparr>Capabilities := D, GcdMemoryType := T'\<rparr> = demo_space a B E T' Owner D"
  by (simp_all add: demo_space_def)

lemma demo_alloc:
  "\<exists>b t u. CoreAllocateMemorySpace demo_gcd_env (Some EfiGcdAllocateAnySearchBottomUp) (Some EfiGcdMemoryTypeSystemMemory) 12 0x1000 (Some 0) 7 0 (demo_gcd demo_map) =
    Some ((EFI_SUCCESS, Some 0), demo_state demo_map2 False demo_map True [0x3100, 0x3180] b t u) \<and> demo_used {0x3080} b t"
proof -
  let ?b = "[0x3000 \<mapsto> POOL_HEAD 4 120, 0x3080 \<mapsto> POOL_FREE 0, 0x3100 \<mapsto> POOL_FREE 0, 0x3180 \<mapsto> POOL_FREE 0] :: u64 \<rightharpoonup> pool_block"
  let ?t = "[0x3068 \<mapsto> 120] :: u64 \<rightharpoonup> u64"
  have "demo_used {} ?b ?t" by (simp add: demo_used_def)
  from demo_entries [OF this, of "0x3080" "0x3100" "[0x3180]" demo_map True "[]" False 120] obtain b t u where
    1: "CoreAllocateGcdMapEntry demo_gcd_env (demo_state demo_map True [] False [0x3080, 0x3100, 0x3180] ?b ?t 120) =
     Some ((EFI_SUCCESS, 0x3098, 0x3118), demo_state demo_map True demo_map True [0x3180] b t u)" "demo_used {0x3080, 0x3100} b t" by auto
  obtain b' u' where 2: "GcdFreePool demo_gcd_env 0x3118 (demo_state demo_map True demo_map True [0x3180] b t u) =
       Some (demo_state demo_map True demo_map True [0x3100, 0x3180] b' t u')" "demo_used {0x3080} b' t"
    using demo_free [OF 1(2), of "0x3100" demo_map True demo_map True "[0x3180]" u] by (auto simp: insert_Diff_if)
  have "CoreAllocateMemorySpace demo_gcd_env (Some EfiGcdAllocateAnySearchBottomUp) (Some EfiGcdMemoryTypeSystemMemory) 12 0x1000 (Some 0) 7 0 (demo_gcd demo_map) =
    Some ((EFI_SUCCESS, Some 0), demo_state demo_map2 False demo_map True [0x3100, 0x3180] b' t u')"
    by (simp add: CoreAllocateMemorySpace_def CoreAllocateSpace_def demo_find demo_gcd_def convert_range_def Let_def between_links_def before_links_def
      after_links_def convert_entries.simps CoreInsertGcdMapEntry_def CoreCleanupGcdMapEntry_def CoreMergeGcdMapEntry_def mergeable_def 1 2)
  then show ?thesis using 2(2) by blast
qed
lemma demo_release:
  assumes "demo_used {0x3080} b t"
  shows "\<exists>s. CoreFreeMemorySpace demo_gcd_env 0 0x1000 (demo_state demo_map2 False demo_map True [0x3100, 0x3180] b t u) =
    Some (EFI_SUCCESS, s)"
proof -
  from demo_entries [OF assms, of "0x3100" "0x3180" "[]" demo_map2 True demo_map True u] obtain b1 t1 u1 where
    1: "CoreAllocateGcdMapEntry demo_gcd_env (demo_state demo_map2 True demo_map True [0x3100, 0x3180] b t u) =
     Some ((EFI_SUCCESS, 0x3118, 0x3198), demo_state demo_map2 True demo_map2 True [] b1 t1 u1)" "demo_used {0x3080, 0x3100, 0x3180} b1 t1"
    by (auto simp: insert_commute)
  obtain b2 u2 where 2: "GcdFreePool demo_gcd_env 0x3118 (demo_state demo_map2 True demo_map2 True [] b1 t1 u1) =
       Some (demo_state demo_map2 True demo_map2 True [0x3100] b2 t1 u2)" "demo_used {0x3080, 0x3180} b2 t1"
    using demo_free [OF 1(2), of "0x3100" demo_map2 True demo_map2 True "[]" u1] by (auto simp: insert_Diff_if)
  obtain b3 u3 where 3: "GcdFreePool demo_gcd_env 0x3198 (demo_state demo_map2 True demo_map2 True [0x3100] b2 t1 u2) =
       Some (demo_state demo_map2 True demo_map2 True [0x3180, 0x3100] b3 t1 u3)" "demo_used {0x3080} b3 t1"
    using demo_free [OF 2(2), of "0x3180" demo_map2 True demo_map2 True "[0x3100]" u2] by (auto simp: insert_Diff_if)
  obtain b4 u4 where 4: "GcdFreePool demo_gcd_env 0x3098 (demo_state demo_map2 True demo_map2 True [0x3180, 0x3100] b3 t1 u3) =
       Some (demo_state demo_map2 True demo_map2 True [0x3080, 0x3180, 0x3100] b4 t1 u4)"
    using demo_free [OF 3(2), of "0x3080" demo_map2 True demo_map2 True "[0x3180, 0x3100]" u3] by auto
  have "CoreSearchGcdMapEntry 0 0x1000 demo_map2 = Some (Inr (0, 0))" by (simp add: CoreSearchGcdMapEntry_def)
  then show ?thesis
    by (simp add: CoreFreeMemorySpace_def CoreConvertSpace_def convert_locked_def convert_range_def Let_def between_links_def before_links_def
      after_links_def convert_entries.simps CoreInsertGcdMapEntry_def CoreCleanupGcdMapEntry_def CoreMergeGcdMapEntry_def mergeable_def 1 2 3 4)
qed

lemma demo_wrap:
  "\<exists>s. CoreRemoveMemorySpace demo_gcd_env 0x5000 (- 0x1000) (demo_gcd demo_map) = Some (EFI_SUCCESS, s)"
proof -
  let ?b = "[0x3000 \<mapsto> POOL_HEAD 4 120, 0x3080 \<mapsto> POOL_FREE 0, 0x3100 \<mapsto> POOL_FREE 0, 0x3180 \<mapsto> POOL_FREE 0] :: u64 \<rightharpoonup> pool_block"
  let ?t = "[0x3068 \<mapsto> 120] :: u64 \<rightharpoonup> u64"
  have "demo_used {} ?b ?t" by (simp add: demo_used_def)
  from demo_entries [OF this, of "0x3080" "0x3100" "[0x3180]" demo_map True "[]" False 120] obtain b t u where
    1: "CoreAllocateGcdMapEntry demo_gcd_env (demo_state demo_map True [] False [0x3080, 0x3100, 0x3180] ?b ?t 120) =
     Some ((EFI_SUCCESS, 0x3098, 0x3118), demo_state demo_map True demo_map True [0x3180] b t u)" "demo_used {0x3080, 0x3100} b t" by auto
  have "CoreSearchGcdMapEntry 0x5000 (- 0x1000) demo_map = Some (Inr (0, 0))" by (simp add: CoreSearchGcdMapEntry_def)
  then show ?thesis
    by (simp add: CoreRemoveMemorySpace_def CoreConvertSpace_def convert_locked_def demo_gcd_def convert_range_def Let_def between_links_def before_links_def
      after_links_def convert_entries.simps CoreInsertGcdMapEntry_def CoreCleanupGcdMapEntry_def CoreMergeGcdMapEntry_def mergeable_def 1)
qed

section \<open>The properties applied\<close>

theorem RemoveMemorySpace_wraps_witness:
  "\<exists>s'. CoreRemoveMemorySpace demo_gcd_env 0x5000 (- 0x1000) (demo_gcd demo_map) = Some (EFI_SUCCESS, s') \<and> (\<forall>z. \<not> tiles 0 (MemorySpaceMap s') z)"
proof -
  obtain s' where s: "CoreRemoveMemorySpace demo_gcd_env 0x5000 (- 0x1000) (demo_gcd demo_map) = Some (EFI_SUCCESS, s')" using demo_wrap by blast
  from RemoveMemorySpace_wraps [OF s [unfolded demo_gcd_env_def], of "0x10000" "[]" "demo_space 0 0 0xFFFF EfiGcdMemoryTypeSystemMemory 0 0xF" "[]"] s
  show ?thesis by (auto simp: demo_gcd_def)
qed

theorem AllocateSpace_finds_witness:
  "\<exists>s'. CoreAllocateSpace demo_gcd_env GCD_ALLOCATE_MEMORY_OPERATION (Some EfiGcdAllocateAnySearchBottomUp) (Some EfiGcdMemoryTypeSystemMemory)
      (Some EfiGcdIoTypeNonExistent) 12 0x1000 (Some 0) 7 0 (demo_gcd demo_map) = Some ((EFI_SUCCESS, Some 0), s') \<and> tiles 0 (MemorySpaceMap s') 0x10000"
proof -
  obtain s' where s: "CoreAllocateSpace demo_gcd_env GCD_ALLOCATE_MEMORY_OPERATION (Some EfiGcdAllocateAnySearchBottomUp) (Some EfiGcdMemoryTypeSystemMemory)
      (Some EfiGcdIoTypeNonExistent) 12 0x1000 (Some 0) 7 0 (demo_gcd demo_map) = Some ((EFI_SUCCESS, Some 0), s')"
    using demo_alloc unfolding CoreAllocateMemorySpace_def by blast
  from AllocateSpace_finds [OF s [unfolded demo_gcd_env_def], of "0x10000"] s show ?thesis
    by (simp add: demo_gcd_def space_map_def memory_operation_def)
qed

theorem allocate_free_space_witness:
  "\<exists>s1 s2. CoreAllocateMemorySpace demo_gcd_env (Some EfiGcdAllocateAnySearchBottomUp) (Some EfiGcdMemoryTypeSystemMemory) 12 0x1000 (Some 0) 7 0 (demo_gcd demo_map) =
      Some ((EFI_SUCCESS, Some 0), s1) \<and> CoreFreeMemorySpace demo_gcd_env 0 0x1000 s1 = Some (EFI_SUCCESS, s2) \<and>
    map (\<lambda>e. e\<lparr>GcdAt := 0\<rparr>) (MemorySpaceMap s2) = demo_map"
proof -
  obtain b t u where 1: "CoreAllocateMemorySpace demo_gcd_env (Some EfiGcdAllocateAnySearchBottomUp) (Some EfiGcdMemoryTypeSystemMemory) 12 0x1000 (Some 0) 7 0 (demo_gcd demo_map) =
      Some ((EFI_SUCCESS, Some 0), demo_state demo_map2 False demo_map True [0x3100, 0x3180] b t u)" "demo_used {0x3080} b t"
    using demo_alloc by blast
  obtain s2 where 2: "CoreFreeMemorySpace demo_gcd_env 0 0x1000 (demo_state demo_map2 False demo_map True [0x3100, 0x3180] b t u) = Some (EFI_SUCCESS, s2)"
    using demo_release [OF 1(2)] by blast
  from allocate_free_space [OF 1(1) [unfolded demo_gcd_env_def] 2 [unfolded demo_gcd_env_def], of "0x10000"] 1(1) 2
  show ?thesis by (auto simp: demo_gcd_def)
qed

theorem ConvertSpace_changes_witness:
  "\<exists>s s'. CoreConvertSpace demo_gcd_env GCD_FREE_MEMORY_OPERATION EfiGcdMemoryTypeNonExistent EfiGcdIoTypeNonExistent 0 0x1000 0 0 s = Some (EFI_SUCCESS, s') \<and>
     region_at (MemorySpaceMap s) 5 = Some (region (demo_space 0 0 0 EfiGcdMemoryTypeSystemMemory 7 0xF)) \<and>
     region_at (MemorySpaceMap s') 5 = Some (region (demo_space 0 0 0 EfiGcdMemoryTypeSystemMemory 0 0xF))"
proof -
  obtain b t where "demo_used {0x3080} b t" using demo_alloc by blast
  from demo_release [OF this, of 0] obtain s' where
    s: "CoreConvertSpace demo_gcd_env GCD_FREE_MEMORY_OPERATION EfiGcdMemoryTypeNonExistent EfiGcdIoTypeNonExistent 0 0x1000 0 0
       (demo_state demo_map2 False demo_map True [0x3100, 0x3180] b t 0) = Some (EFI_SUCCESS, s')"
    unfolding CoreFreeMemorySpace_def by blast
  let ?s = "demo_state demo_map2 False demo_map True [0x3100, 0x3180] b t 0"
  have "region_at (MemorySpaceMap s') 5 = map_option (change_entry GCD_FREE_MEMORY_OPERATION EfiGcdMemoryTypeNonExistent EfiGcdIoTypeNonExistent 0 0)
      (region_at (MemorySpaceMap ?s) 5)"
    using ConvertSpace_changes [OF s [unfolded demo_gcd_env_def], of "0x10000"] by (simp add: space_map_def memory_operation_def)
  then show ?thesis using s by (intro exI [of _ ?s] exI [of _ s']) (simp add: region_def demo_space_def)
qed

theorem gcd_services_keep_maps_witness:
  "\<exists>s s'. gcd_services demo_gcd_env
     [AllocateMemory (Some EfiGcdAllocateAnySearchBottomUp) (Some EfiGcdMemoryTypeSystemMemory) 12 0x1000 (Some 0) 7 0, FreeMemory 0 0x1000] s = Some s' \<and>
     tiles 0 (MemorySpaceMap s') 0x10000"
proof -
  obtain b t u where 1: "CoreAllocateMemorySpace demo_gcd_env (Some EfiGcdAllocateAnySearchBottomUp) (Some EfiGcdMemoryTypeSystemMemory) 12 0x1000 (Some 0) 7 0 (demo_gcd demo_map) =
      Some ((EFI_SUCCESS, Some 0), demo_state demo_map2 False demo_map True [0x3100, 0x3180] b t u)" "demo_used {0x3080} b t"
    using demo_alloc by blast
  obtain s2 where 2: "CoreFreeMemorySpace demo_gcd_env 0 0x1000 (demo_state demo_map2 False demo_map True [0x3100, 0x3180] b t u) = Some (EFI_SUCCESS, s2)"
    using demo_release [OF 1(2)] by blast
  let ?l = "[AllocateMemory (Some EfiGcdAllocateAnySearchBottomUp) (Some EfiGcdMemoryTypeSystemMemory) 12 0x1000 (Some 0) 7 0, FreeMemory 0 0x1000]"
  have s: "gcd_services demo_gcd_env ?l (demo_gcd demo_map) = Some s2" using 1(1) 2 by simp
  have "tiles 0 (IoSpaceMap (demo_gcd demo_map)) 0x10000" "\<forall>c\<in>set ?l. unwrapped c"
    by (simp_all add: demo_gcd_def demo_state_def no_wrap_def)
  with gcd_services_keep_maps [OF s [unfolded demo_gcd_env_def], of "0x10000" "0x10000"] have "tiles 0 (MemorySpaceMap s2) 0x10000"
    by (simp add: demo_gcd_def)
  then show ?thesis using s by blast
qed
end
