(* ===== verification/Spec2Isabelle.thy ===== *)
theory Spec2Isabelle
  imports Rect Cmos Depex Dispatcher DispatcherRun LinkedList Mtc VarLock Bits Events EventRun TimerRun
    PagesExamples PoolExamples HandleExamples CoreExamples GcdExamples
begin

text \<open>
  A verification library for the core of the firmware: the foundation services of the DXE core, the
  base-library routines under them, and some of the vendor's own drivers and libraries.

  The repository is a UEFI firmware tree.  Its heart is the DXE core (\<open>MdeModulePkg/Core/Dxe\<close>, with
  the vendor's replacements of single files under \<open>MdeModulePkg/Override\<close>; where there is an override it is the
  file that is built, and the one modelled here).  The core hands out memory, keeps the events and the task
  priorities, and dispatches drivers in the order their dependency expressions ask for.  The drivers
  and libraries (\<open>InsydeModulePkg\<close>) stand on these services.

  \<^bold>\<open>Conventions.\<close>  The build is X64: \<open>UINTN\<close> is 64 bits wide and integers are words of their width, so they wrap as in C.
  A result \<open>None\<close> is a run that does not return: a failed \<open>ASSERT\<close> (the debug library's
  dead loop) or a loop that goes on for ever.  Loops are structural recursions where a list bounds them, functions with a
  measure where a counter does, and \<open>partial_function (option)\<close> or functions with a fuel argument where the code
  gives no bound.  Code of other modules is a parameter: a record of functions on an abstract state.

  \<^bold>\<open>Theories.\<close>

  \<^item> \<open>Prelude\<close>: integer types, status codes, \<open>ASSERT\<close>, and the lemmas the components share.

  \<^item> \<open>Depex\<close>: \<open>Core/Dxe/Dispatcher/Dependency.c\<close>.  The stack \<open>depex_stack\<close> grows by steps of 0x100 entries, and
    \<open>CoreIsSchedulable\<close> is the opcode loop over the bytes of the expression.  An abstract expression
    language and its compiler give the reference: evaluating the compiled bytes is evaluating the expression, no byte outside
    the section is read, and \<open>PUSH\<close> entries that were true are remembered by patching the byte code.

  \<^item> \<open>Dispatcher\<close>, \<open>DispatcherRun\<close>: \<open>Override/Core/Dxe/Dispatcher/Dispatcher.c\<close>.  The discovered list of driver entries,
    the scheduled queue and the services \<open>CoreSchedule\<close>, \<open>CoreTrust\<close>; the insertion that honours
    \<open>BEFORE\<close> and \<open>AFTER\<close>; and the dispatch loop, with the image services as a parameter.  \<open>run_inv\<close> is the invariant, which
    every operation and everything a started image may do through the services keep.  It gives that
    each image starts at most once; a weight of the list gives termination, with fuel \<open>pending + 1\<close> rounds enough.

  \<^item> \<open>Events\<close>, \<open>EventRun\<close>, \<open>TimerRun\<close>: \<open>Override/Core/Dxe/Event/Event.c\<close>, \<open>Event/Tpl.c\<close>, \<open>Event/Timer.c\<close> and the locks of
    \<open>Library/Library.c\<close>.  The state \<open>ev\<close> holds the events by handle, a queue per priority, the pending bits, the signal
    list and the timer list.  The three files call each other in a cycle (a lock release lowers the priority, which
    dispatches notifications, which take locks): the cycle is cut by a fuel argument that counts the nesting; the
    theorems hold for every fuel above the priorities and the queue lengths involved.

  \<^item> \<open>Pages\<close>: \<open>Core/Dxe/Mem/Page.c\<close>, all of it.  \<open>mem\<close> is the memory map with the stack of temporary descriptors.
    Moving the stack to the heap may need a page, which is allocated by the code that uses the stack: the
    functions take the freeing of the stack as an argument, and \<open>CoreFreeMemoryMapStack env n\<close> ties the knot to a nesting depth
    \<open>n\<close> (the flag \<open>mFreeMapStack\<close> makes a nested call return at once, so depth 1 is what the code reaches).
    \<open>PagesMap\<close> has well-formed maps, \<open>PagesRun\<close> the locale \<open>memory_stack\<close> (what freeing the stack promises, and what
    every operation then promises), interpreted on the code's own function; \<open>PagesSafe\<close> safety of the services,
    \<open>PagesExact\<close> conversions that succeed, \<open>PagesFind\<close> the search, \<open>PagesSpec\<close> the contract,
    \<open>PagesMapView\<close> the reported map, \<open>PagesExamples\<close> a small memory to apply them to.

  \<^item> \<open>Pool\<close>: \<open>Core/Dxe/Mem/Pool.c\<close>, all of it, on the functions of \<open>Pages\<close>.  The headers, tails and free blocks that the code
    writes into the memory it manages are kept by address.  \<open>CoreAllocatePoolI\<close> may call itself once for the structure of a new pool; the
    nesting is a fuel argument, and 2 is what the code reaches.  \<open>PoolPages\<close> states as the locale \<open>page_source\<close> what
    the pool expects of the pages, and interprets it on the page allocator.  \<open>PoolRun\<close> has the invariant: the \<open>arenas\<close> a pool
    owns, the slots they are divided into, and what stands in each.  \<open>PoolSafe\<close> follows an allocation through, \<open>PoolSpec\<close> freeing
    and the contract, \<open>PoolExamples\<close> a small pool.  What a client does to memory after it has freed it is not followed.

  \<^item> \<open>Handles\<close>, \<open>Locate\<close>: \<open>Core/Dxe/Hand/Handle.c\<close>, \<open>Notify.c\<close> and \<open>Locate.c\<close>, all of them.  \<open>hdb\<close> holds the handles, protocol entries,
    interfaces and registrations by address, with the lists that link them.  \<open>hdb_env\<close> is what lies outside: the pool, the events, the
    notifications that run when the database lock is released, the connection of drivers, which is \<open>DriverSupport.c\<close> and the drivers' own code.
    All three kinds of foreign code may call the services again.
    \<open>DevicePath\<close>: the part of \<open>MdePkg/Library/UefiDevicePathLib\<close> that the services call.
    \<open>HandleInv\<close> has the invariant \<open>db_ok\<close> (the links agree, and every structure stands in a buffer of its own) and the locale
    \<open>object_pool\<close>, what the database expects of its allocator; the locale \<open>database_clients\<close> of \<open>HandleRun\<close> adds what it expects of the
    foreign code.  \<open>HandleRun\<close>, \<open>HandleSafe\<close>, \<open>HandleDrop\<close> and \<open>LocateSafe\<close> show that each service keeps \<open>db_ok\<close>.
    \<open>HandleServices\<close> closes the circle: foreign code that consists of calls of the services, which depend on all it sees and run foreign code again,
    to a depth \<open>n\<close>, is a \<open>database_clients\<close> for every \<open>n\<close>; \<open>HandlePool\<close> puts \<open>Pool\<close> and \<open>Events\<close> underneath and interprets both locales there.
    \<open>HandleSpec\<close> gives the database as a set of triples \<open>(handle, protocol, interface)\<close> and what installing and uninstalling do to it,
    \<open>LocateSpec\<close> what the searches find, \<open>OpenSpec\<close> who may have an interface open, \<open>HandleFaults\<close> where this fails, \<open>DevicePathSpec\<close>
    the size of a device path.  \<open>HandleExamples\<close> and \<open>CoreExamples\<close> state the properties and apply them.

  \<^item> \<open>Gcd\<close>: \<open>Core/Dxe/Gcd/Gcd.c\<close>, the services of the global coherency domain.  \<open>gcd\<close> holds the memory map and the I/O map as lists of
    entries and the flags of their locks; \<open>gcd_env\<close> is the pool, the driver of the processor and the list of memory that \<open>Pages\<close> keeps.
    The searches of \<open>CoreAllocateSpace\<close> are \<open>partial_function (option)\<close>: each turn goes back to the entry that does not fit, and the code has no bound for that.
    \<open>GcdMap\<close> says what a map is: \<open>tiles\<close> (the entries cover the space in order) and \<open>region_at\<close> (what the map says of an address), and what cutting
    and merging do to it; \<open>GcdConvert\<close> follows a conversion.  The locale \<open>gcd_pool\<close> of \<open>GcdServices\<close> is what the services expect of their
    environment (allocation, freeing and adding memory leave the I/O map, the locks, a locked memory map, and the extent of any memory map), \<open>GcdAllocate\<close> has the searches, \<open>GcdSpec\<close> the
    contracts, \<open>GcdFaults\<close> where they fail.  \<open>GcdFrame\<close> shows that the pool and the pages leave the maps alone while they are locked, and \<open>GcdPool\<close>
    interprets \<open>gcd_pool\<close> with the pool and the page allocator of the core, which share the memory map with the services.
    \<open>GcdExamples\<close> states the properties and applies them.  They are about calls that return: promoting untested memory takes the lock of the map,
    so that a call which holds it and whose pool comes to that point fails the \<open>ASSERT\<close> of the lock.

  \<^item> \<open>LinkedList\<close>, \<open>Bits\<close>: \<open>MdePkg/Library/BaseLib\<close>.  Intrusive lists in an explicit heap, with a refinement to
    HOL lists; the bit scans against the binary logarithm.

  \<^item> \<open>Cmos\<close>, \<open>Mtc\<close>, \<open>VarLock\<close>, \<open>Rect\<close>: \<open>InsydeModulePkg\<close>.  CMOS access through the index and data
    ports with its checksum; the monotonic counter, which rests on the CMOS model; the variable-lock list before and
    after the end of DXE, its copy into SMM and its relocation to virtual addresses; rectangles.

  \<^bold>\<open>How the parts meet.\<close>  The dispatcher evaluates expressions with \<open>Depex\<close>; the monotonic counter keeps its high half with
    \<open>Cmos\<close>; the event services use the bit scans of \<open>Bits\<close>.  The handle database
    allocates its structures from \<open>Pool\<close>, which takes its pages from \<open>Pages\<close>, and signals through \<open>Events\<close>.  \<open>Gcd\<close> takes the entries of
  its maps from \<open>Pool\<close> and adds system memory to \<open>Pages\<close>, which in turn looks into the memory map when it promotes memory.  The lock priorities of \<open>Page.c\<close> and
    \<open>Handle.c\<close> are those of \<open>Events\<close>; there a lock is a flag.

  \<^bold>\<open>What the lemmas show.\<close>  Invariants: a driver is in one state of the dispatch diagram, the timer list is sorted, maps are whole
    disjoint pages, the maps of the coherency domain cover their spaces, the pool's blocks fill its pages, lists are well linked, counts increase.  Functional correctness: expression evaluation,
    dispatch order of notifications, firing of timers, the search for pages and for space, the reported map, rectangles, checksums.
    Safety: no image starts twice, no page and no pool block is handed out twice, the handle database stays well formed
    whatever is called from wherever, no request is granted after the lock list is frozen.
    Round trips: CMOS access, allocating and freeing.  Termination of the dispatcher.  And where the code goes wrong,
    a theorem that says exactly how: a timer period that wraps, a page count that wraps, a pool size that wraps, a range of the coherency domain that wraps, a conversion that fails half way,
    a driver scheduled twice, a recursion without end, two interfaces of one protocol on a handle, a rollback onto a handle that is gone.

  \<^bold>\<open>What is taken for granted.\<close>  Each property names its conditions in the text before it.  The ones that come back: memory is \<open>settled\<close> (no
  temporary descriptors on the stack, the notification of a changed map returns); sizes and ranges stay away from the end of the 64-bit range, where the
  faults above begin; the foreign code of the handle database calls the fifteen services of \<open>HandleServices\<close> (\<open>CloseEvent\<close> with its
  unregistering, \<open>ConnectController\<close>, \<open>DisconnectController\<close> and the pool services are not among the calls of a client); in a
  run of the dispatcher a volume that is discovered brings file names that are not on the list, and an a priori file lists different drivers that are still
  Dependent, neither of which the code tests.  \<open>ASSERT\<close> and the signature test of \<open>CR\<close> are enabled, as in a debug build: where
  \<open>CoreFreePoolI\<close> goes on to return \<open>EFI_INVALID_PARAMETER\<close> for a bad signature or size after the \<open>ASSERT\<close>, the model has \<open>None\<close>.
  The copy of an entry of the variable-lock list into SMM keeps the size, the name and the GUID; the correction of the pointer to the name in the
  copy is not visible in the model, where the name is a value.

  \<^bold>\<open>Not modelled.\<close>  Reading firmware volumes and loading images (parameters of the dispatcher); the initialisation of the maps from the hand-off blocks;
    the connection of drivers to controllers (foreign code of the handle database); the variable store; PEI and SMM; drivers of devices and chipsets, cryptography, network,
    shell and setup, which are device I/O, third-party code, or user interface.
\<close>

end
